(* ===== verification/ErrorCodes.thy ===== *)
theory ErrorCodes
  imports Main "HOL-Library.Word"
begin

text \<open>
  \<open>P2pErrorCode\<close> of \<open>p2p-frame/src/error.rs\<close>, with its wire form. The enum has 78
  constructors, so the datatype goes without the plugins no proof here needs.
\<close>

section \<open>Definitions\<close>

datatype (plugins del: code size quickcheck_random quickcheck_exhaustive
    quickcheck_bounded_forall quickcheck_full_exhaustive quickcheck_narrowing transfer lifting)
  p2p_error_code =
    Ok | Failed | InvalidParam | Timeout | NotFound | AlreadyExists
  | NotSupport | ErrorState | InvalidFormat | Expired | OutOfLimit | InternalError
  | PermissionDenied | ConnectionRefused | ConnectionReset | ConnectionAborted | NotConnected | AddrInUse
  | AddrNotAvailable | Interrupted | InvalidInput | InvalidData | WriteZero | UnexpectedEof
  | BrokenPipe | WouldBlock | UnSupport | Unmatch | ExecuteError | Reject
  | Ignored | InvalidSignature | AlreadyExistsAndSignatureMerged | TargetNotFound | Aborted | ConnectFailed
  | ConnectInterZoneFailed | InnerPathNotFound | RangeNotSatisfiable | UserCanceled | Conflict | OutofSessionLimit
  | Redirect | MongoDBError | SqliteError | UrlError | ZipError | HttpError
  | JsonError | HexError | RsaError | CryptoError | MpscSendError | MpscRecvError
  | IoError | NetworkError | CodeError | UnknownBdtError | UnknownIOError | Unknown
  | Pending | NotChange | NotMatch | NotImplement | NotInit | ParseError
  | NotHandled | RawCodecError | SignError | StreamPortAlreadyListen | DatagramPortAlreadyListen | CertError
  | TlsError | QuicError | TunnelNotConnected | ConnectReset | PortNotListen | ConnectAckError

definition p2p_error_codes :: "p2p_error_code list" where
  "p2p_error_codes =
     [Ok, Failed, InvalidParam, Timeout, NotFound, AlreadyExists,
      NotSupport, ErrorState, InvalidFormat, Expired, OutOfLimit, InternalError,
      PermissionDenied, ConnectionRefused, ConnectionReset, ConnectionAborted, NotConnected, AddrInUse,
      AddrNotAvailable, Interrupted, InvalidInput, InvalidData, WriteZero, UnexpectedEof,
      BrokenPipe, WouldBlock, UnSupport, Unmatch, ExecuteError, Reject,
      Ignored, InvalidSignature, AlreadyExistsAndSignatureMerged, TargetNotFound, Aborted, ConnectFailed,
      ConnectInterZoneFailed, InnerPathNotFound, RangeNotSatisfiable, UserCanceled, Conflict, OutofSessionLimit,
      Redirect, MongoDBError, SqliteError, UrlError, ZipError, HttpError,
      JsonError, HexError, RsaError, CryptoError, MpscSendError, MpscRecvError,
      IoError, NetworkError, CodeError, UnknownBdtError, UnknownIOError, Unknown,
      Pending, NotChange, NotMatch, NotImplement, NotInit, ParseError,
      NotHandled, RawCodecError, SignError, StreamPortAlreadyListen, DatagramPortAlreadyListen, CertError,
      TlsError, QuicError, TunnelNotConnected, ConnectReset, PortNotListen, ConnectAckError]"

text \<open>A \<open>#[repr(u16)]\<close> enum: a code is its position in the declaration.\<close>

definition as_u16 :: "p2p_error_code \<Rightarrow> 16 word" where
  "as_u16 e = of_nat (length (takeWhile (\<lambda>c. c \<noteq> e) p2p_error_codes))"

definition as_u8 :: "p2p_error_code \<Rightarrow> 8 word" where
  "as_u8 e = ucast (as_u16 e)"

instantiation p2p_error_code :: equal
begin

definition equal_p2p_error_code :: "p2p_error_code \<Rightarrow> p2p_error_code \<Rightarrow> bool" where
  "equal_p2p_error_code a b = (a = b)"

instance
  by standard (simp add: equal_p2p_error_code_def)

end

section \<open>Error codes on the wire\<close>

lemma p2p_error_codes_complete: "e \<in> set p2p_error_codes"
  by (cases e) (simp_all add: p2p_error_codes_def)

lemma length_p2p_error_codes: "length p2p_error_codes = 78"
  by (simp add: p2p_error_codes_def)

lemma takeWhile_nth:
  "e \<in> set xs \<Longrightarrow> length (takeWhile (\<lambda>c. c \<noteq> e) xs) < length xs \<and>
     xs ! length (takeWhile (\<lambda>c. c \<noteq> e) xs) = e"
  by (induction xs) auto

text \<open>every error code fits in one byte, so \<open>P2pErrorCode::as_u8\<close> loses nothing: two codes with
  the same byte are the same code.\<close>

theorem as_u8_injective: "as_u8 e = as_u8 e' \<longleftrightarrow> e = e'"
proof -
  let ?i = "\<lambda>e. length (takeWhile (\<lambda>c. c \<noteq> e) p2p_error_codes)"
  have i: "?i e < 78" "p2p_error_codes ! ?i e = e" for e
    using takeWhile_nth [OF p2p_error_codes_complete] length_p2p_error_codes by auto
  have "unat (as_u8 e) = ?i e" for e
  proof -
    have "?i e mod 65536 = ?i e" "?i e mod 256 = ?i e"
      using i(1) [of e] by (auto intro: mod_less)
    then show ?thesis
      by (simp add: as_u8_def as_u16_def unsigned_ucast_eq unat_of_nat take_bit_nat_def)
  qed
  then show ?thesis using i(2) by metis
qed

end
