(* ===== verification/Prelude.thy ===== *)
theory Prelude
  imports Main "HOL-Library.Word" "HOL-Library.AList" "HOL-Library.Multiset"
    "HOL-Library.List_Lexorder" "HOL-Library.Monad_Syntax"
begin

text \<open>
  What the component theories share: the machine integers of the source with their saturating
  and checked operations, \<open>Duration\<close>, results, the part of \<open>std::collections::HashMap\<close>,
  \<open>Vec::sort_by\<close>, \<open>Vec::dedup_by\<close> and \<open>VecDeque\<close> that the program uses, and the
  generic lemmas about them.

  The laws a client of \<open>HashMap\<close> may use are the locale \<open>hash_map\<close>, and what
  \<open>slice::sort_by\<close> promises for a comparison that is a total order is the locale
  \<open>total_cmp\<close>; both are interpreted below or in the component that supplies the comparison.
\<close>

named_theorems time_simps
named_theorems codec_simps

section \<open>Definitions\<close>

subsection \<open>Machine integers\<close>

type_synonym u8 = "8 word"
type_synonym u16 = "16 word"
type_synonym u32 = "32 word"
type_synonym u64 = "64 word"

text \<open>\<open>type Timestamp = u64\<close>: microseconds. A \<open>Duration\<close> is a number of nanoseconds.\<close>

type_synonym timestamp = "64 word"
type_synonym duration = nat

definition sat_add :: "'a::len word \<Rightarrow> 'a word \<Rightarrow> 'a word" where
  "sat_add a b = (if unat a + unat b < 2 ^ LENGTH('a) then a + b else - 1)"

definition sat_sub :: "'a::len word \<Rightarrow> 'a word \<Rightarrow> 'a word" where
  "sat_sub a b = (if b \<le> a then a - b else 0)"

text \<open>\<open>checked_mul\<close> and \<open>checked_add\<close> on signed integers of \<open>w\<close> bits, the values read
  as \<open>int\<close>.\<close>

definition in_signed :: "nat \<Rightarrow> int \<Rightarrow> bool" where
  "in_signed w x = (- (2 ^ (w - 1)) \<le> x \<and> x < 2 ^ (w - 1))"

definition checked_mul_signed :: "nat \<Rightarrow> int \<Rightarrow> int \<Rightarrow> int option" where
  "checked_mul_signed w a b = (if in_signed w (a * b) then Some (a * b) else None)"

definition checked_add_signed :: "nat \<Rightarrow> int \<Rightarrow> int \<Rightarrow> int option" where
  "checked_add_signed w a b = (if in_signed w (a + b) then Some (a + b) else None)"

definition as_micros :: "duration \<Rightarrow> nat" where
  "as_micros d = d div 1000"

definition from_secs :: "nat \<Rightarrow> duration" where
  "from_secs s = s * 1000000000"

definition from_micros :: "u64 \<Rightarrow> duration" where
  "from_micros t = unat t * 1000"

text \<open>The helper \<open>duration_to_bucky_time\<close>, which the source repeats in three files:
  \<open>as_micros\<close> capped at \<open>u64::MAX\<close>.\<close>

definition duration_to_bucky_time :: "duration \<Rightarrow> timestamp" where
  "duration_to_bucky_time d = of_nat (min (as_micros d) (2 ^ 64 - 1))"

subsection \<open>Comparisons and sorting\<close>

datatype ordering = Less | Equal | Greater

definition cmp_ord :: "'a::linorder \<Rightarrow> 'a \<Rightarrow> ordering" where
  "cmp_ord a b = (if a < b then Less else if a = b then Equal else Greater)"

definition then_with :: "ordering \<Rightarrow> ordering \<Rightarrow> ordering" where
  "then_with a b = (case a of Equal \<Rightarrow> b | _ \<Rightarrow> a)"

text \<open>\<open>slice::sort_by\<close> is a stable sort; insertion from the right is the stable sort here.\<close>

fun ins_by :: "('a \<Rightarrow> 'a \<Rightarrow> ordering) \<Rightarrow> 'a \<Rightarrow> 'a list \<Rightarrow> 'a list" where
  "ins_by cmp x [] = [x]"
| "ins_by cmp x (y # ys) = (if cmp x y = Greater then y # ins_by cmp x ys else x # y # ys)"

definition sort_by :: "('a \<Rightarrow> 'a \<Rightarrow> ordering) \<Rightarrow> 'a list \<Rightarrow> 'a list" where
  "sort_by cmp xs = foldr (ins_by cmp) xs []"

text \<open>\<open>Vec::dedup_by\<close>: an element is dropped when it is the same as the last one kept.\<close>

fun dedup_by :: "('a \<Rightarrow> 'a \<Rightarrow> bool) \<Rightarrow> 'a list \<Rightarrow> 'a list" where
  "dedup_by same (x # y # ys) =
     (if same y x then dedup_by same (x # ys) else x # dedup_by same (y # ys))"
| "dedup_by same xs = xs"

subsection \<open>Hash maps\<close>

text \<open>
  A \<open>HashMap\<close> is an association list with distinct keys. The order of the list stands for
  the iteration order, which no property below depends on.
\<close>

type_synonym ('k, 'v) hmap = "('k \<times> 'v) list"

definition hm_wf :: "('k, 'v) hmap \<Rightarrow> bool" where
  "hm_wf m = distinct (map fst m)"

definition hm_get :: "('k, 'v) hmap \<Rightarrow> 'k \<Rightarrow> 'v option" where
  "hm_get m k = map_of m k"

definition hm_insert :: "'k \<Rightarrow> 'v \<Rightarrow> ('k, 'v) hmap \<Rightarrow> ('k, 'v) hmap" where
  "hm_insert k v m = AList.update k v m"

definition hm_remove :: "'k \<Rightarrow> ('k, 'v) hmap \<Rightarrow> ('k, 'v) hmap" where
  "hm_remove k m = AList.delete k m"

definition hm_retain :: "('k \<Rightarrow> 'v \<Rightarrow> bool) \<Rightarrow> ('k, 'v) hmap \<Rightarrow> ('k, 'v) hmap" where
  "hm_retain P m = filter (\<lambda>(k, v). P k v) m"

definition hm_values :: "('k, 'v) hmap \<Rightarrow> 'v list" where
  "hm_values m = map snd m"

section \<open>Lemmas on integers and time\<close>

lemma unat_sat_add [time_simps]:
  "unat (sat_add a b) = min (unat a + unat b) (2 ^ LENGTH('a) - 1)" for a b :: "'a::len word"
  by (auto simp: sat_add_def unat_word_ariths min_def unsigned_minus_1_eq_mask mask_eq_exp_minus_1)

lemma unat_sat_sub [time_simps]: "unat (sat_sub a b) = unat a - unat b" for a b :: "'a::len word"
  by (auto simp: sat_sub_def unat_sub word_le_nat_alt)

lemma unat_duration_to_bucky_time [time_simps]:
  "unat (duration_to_bucky_time d) = min (as_micros d) (2 ^ 64 - 1)"
proof -
  have "min (as_micros d) (2 ^ 64 - 1) < (2 ^ 64 :: nat)"
    by (simp add: min_def)
  then show ?thesis
    by (simp only: duration_to_bucky_time_def unat_of_nat) (simp add: take_bit_nat_def)
qed

lemma sat_add_ge: "a \<le> sat_add a b" for a b :: "'a::len word"
proof -
  have "unat a < 2 ^ LENGTH('a)" by (rule unsigned_less)
  then have "unat a \<le> 2 ^ LENGTH('a) - 1" by linarith
  then show ?thesis by (simp add: word_le_nat_alt unat_sat_add)
qed

lemma sat_add_mono: "a \<le> a' \<Longrightarrow> sat_add a b \<le> sat_add a' b"
  by (simp add: word_le_nat_alt unat_sat_add)

lemmas time_nat = word_less_nat_alt word_le_nat_alt word_unat_eq_iff

section \<open>Sorting by a comparison\<close>

text \<open>What \<open>slice::sort_by\<close> asks of its comparison, on the elements that are compared.\<close>

locale total_cmp =
  fixes cmp :: "'a \<Rightarrow> 'a \<Rightarrow> ordering"
  assumes cmp_swap: "cmp a b = Greater \<longleftrightarrow> cmp b a = Less"
    and cmp_trans: "cmp a b \<noteq> Greater \<Longrightarrow> cmp b c \<noteq> Greater \<Longrightarrow> cmp a c \<noteq> Greater"
begin

lemma cmp_total: "cmp a b = Greater \<Longrightarrow> cmp b a \<noteq> Greater"
  by (simp add: cmp_swap)

lemma mset_ins_by: "mset (ins_by cmp x xs) = add_mset x (mset xs)"
  by (induction xs) auto

lemma set_ins_by: "set (ins_by cmp x xs) = insert x (set xs)"
  by (induction xs) auto

lemma mset_sort_by: "mset (sort_by cmp xs) = mset xs"
  unfolding sort_by_def by (induction xs) (auto simp: mset_ins_by)

lemma set_sort_by: "set (sort_by cmp xs) = set xs"
  using mset_sort_by by (metis set_mset_mset)

lemma length_sort_by: "length (sort_by cmp xs) = length xs"
  using mset_sort_by by (metis size_mset)

lemma sorted_ins_by:
  "sorted_wrt (\<lambda>a b. cmp a b \<noteq> Greater) xs \<Longrightarrow>
   sorted_wrt (\<lambda>a b. cmp a b \<noteq> Greater) (ins_by cmp x xs)"
proof (induction xs)
  case (Cons y ys)
  show ?case
  proof (cases "cmp x y = Greater")
    case True
    with Cons cmp_total show ?thesis by (auto simp: set_ins_by)
  next
    case False
    with Cons.prems show ?thesis by (auto dest: cmp_trans)
  qed
qed simp

lemma sorted_sort_by: "sorted_wrt (\<lambda>a b. cmp a b \<noteq> Greater) (sort_by cmp xs)"
  unfolding sort_by_def by (induction xs) (auto simp: sorted_ins_by)

end

text \<open>A comparison that tells every two elements apart: the sorted list is then unique.\<close>

locale linear_cmp = total_cmp +
  assumes cmp_eq: "cmp a b = Equal \<Longrightarrow> a = b"
begin

lemma sorted_unique:
  assumes "sorted_wrt (\<lambda>a b. cmp a b \<noteq> Greater) xs"
    and "sorted_wrt (\<lambda>a b. cmp a b \<noteq> Greater) ys" and "mset xs = mset ys"
  shows "xs = ys"
  using assms
proof (induction xs arbitrary: ys)
  case (Cons x xs)
  from Cons.prems(3) obtain y ys' where ys: "ys = y # ys'" by (cases ys) auto
  have anti: "a = b" if "cmp a b \<noteq> Greater" "cmp b a \<noteq> Greater" for a b
    using that cmp_eq cmp_swap by (metis ordering.exhaust)
  have "x \<in> set ys" "y \<in> set (x # xs)"
    using Cons.prems(3) ys by (metis list.set_intros(1) set_mset_mset)+
  with Cons.prems(1,2) ys have "x = y" by (auto intro: anti)
  with Cons ys show ?case by auto
qed auto

lemma sort_by_perm: "mset xs = mset ys \<Longrightarrow> sort_by cmp xs = sort_by cmp ys"
  by (intro sorted_unique sorted_sort_by) (simp add: mset_sort_by)

lemma sort_by_idem: "sorted_wrt (\<lambda>a b. cmp a b \<noteq> Greater) xs \<Longrightarrow> sort_by cmp xs = xs"
  by (intro sorted_unique sorted_sort_by) (simp_all add: mset_sort_by)

end

lemma cmp_ord_simps [simp]:
  "cmp_ord a b = Less \<longleftrightarrow> a < b"
  "cmp_ord a b = Equal \<longleftrightarrow> a = b"
  "cmp_ord a b = Greater \<longleftrightarrow> b < a"
  by (auto simp: cmp_ord_def)

lemma then_with_simps [simp]:
  "then_with Less b = Less" "then_with Equal b = b" "then_with Greater b = Greater"
  by (simp_all add: then_with_def)

lemma then_with_Greater:
  "then_with a b = Greater \<longleftrightarrow> a = Greater \<or> (a = Equal \<and> b = Greater)"
  by (cases a) auto

lemma then_with_Less:
  "then_with a b = Less \<longleftrightarrow> a = Less \<or> (a = Equal \<and> b = Less)"
  by (cases a) auto

lemma then_with_Equal: "then_with a b = Equal \<longleftrightarrow> a = Equal \<and> b = Equal"
  by (cases a) auto

lemmas then_with_iff = then_with_Greater then_with_Less then_with_Equal

interpretation linord: linear_cmp "cmp_ord :: 'a::linorder \<Rightarrow> 'a \<Rightarrow> ordering"
  by unfold_locales auto

lemma dedup_by_subset: "set (dedup_by same xs) \<subseteq> set xs"
  by (induction same xs rule: dedup_by.induct) auto

lemma dedup_by_hd: "hd (dedup_by same (x # xs)) = x \<and> dedup_by same (x # xs) \<noteq> []"
  by (induction xs arbitrary: x) auto

lemma dedup_by_Nil_iff [simp]: "dedup_by same xs = [] \<longleftrightarrow> xs = []"
  by (cases xs) (simp_all add: dedup_by_hd)

text \<open>On a list sorted by a key, removing neighbours with the same key removes every duplicate.\<close>

lemma dedup_by_key:
  fixes f :: "'a \<Rightarrow> 'b::linorder"
  assumes "sorted (map f xs)"
  shows "sorted_wrt (<) (map f (dedup_by (\<lambda>a b. f a = f b) xs)) \<and>
         f ` set (dedup_by (\<lambda>a b. f a = f b) xs) = f ` set xs"
  using assms
proof (induction "\<lambda>a b. f a = f b" xs rule: dedup_by.induct)
  case (1 x y ys)
  show ?case
  proof (cases "f y = f x")
    case True
    with 1 show ?thesis by auto
  next
    case False
    with 1 have IH: "sorted_wrt (<) (map f (dedup_by (\<lambda>a b. f a = f b) (y # ys)))"
      "f ` set (dedup_by (\<lambda>a b. f a = f b) (y # ys)) = f ` set (y # ys)"
      by auto
    have "f x < f z" if "z \<in> set (dedup_by (\<lambda>a b. f a = f b) (y # ys))" for z
    proof -
      have "z \<in> set (y # ys)" using that dedup_by_subset by fastforce
      with 1(3) False show ?thesis by fastforce
    qed
    then have "\<forall>b \<in> f ` set (y # ys). f x < b" using IH(2) by (metis imageE)
    with False IH show ?thesis by auto
  qed
qed auto

section \<open>The hash map laws\<close>

locale hash_map =
  fixes empty :: "'m"
    and get :: "'m \<Rightarrow> 'k \<Rightarrow> 'v option"
    and insert :: "'k \<Rightarrow> 'v \<Rightarrow> 'm \<Rightarrow> 'm"
    and remove :: "'k \<Rightarrow> 'm \<Rightarrow> 'm"
    and retain :: "('k \<Rightarrow> 'v \<Rightarrow> bool) \<Rightarrow> 'm \<Rightarrow> 'm"
    and len :: "'m \<Rightarrow> nat"
    and wf :: "'m \<Rightarrow> bool"
  assumes get_empty: "get empty k = None"
    and get_insert: "get (insert k v m) k' = (if k' = k then Some v else get m k')"
    and get_remove: "wf m \<Longrightarrow> get (remove k m) k' = (if k' = k then None else get m k')"
    and get_retain: "wf m \<Longrightarrow>
          get (retain P m) k = (case get m k of None \<Rightarrow> None | Some v \<Rightarrow> if P k v then Some v else None)"
    and len_insert: "len (insert k v m) = (if get m k = None then Suc (len m) else len m)"
    and len_remove: "len (remove k m) \<le> len m"
    and len_retain: "len (retain P m) \<le> len m"
    and wf_empty: "wf empty"
    and wf_insert: "wf m \<Longrightarrow> wf (insert k v m)"
    and wf_remove: "wf m \<Longrightarrow> wf (remove k m)"
    and wf_retain: "wf m \<Longrightarrow> wf (retain P m)"
begin

lemma get_retain_Some:
  "wf m \<Longrightarrow> get (retain P m) k = Some v \<longleftrightarrow> get m k = Some v \<and> P k v"
  by (auto simp: get_retain split: option.splits)

lemma get_retain_None:
  "wf m \<Longrightarrow> get (retain P m) k = None \<longleftrightarrow> (\<forall>v. get m k = Some v \<longrightarrow> \<not> P k v)"
  by (auto simp: get_retain split: option.splits)

lemma remove_insert_get: "wf m \<Longrightarrow> get (insert k v (remove k m)) k' = get (insert k v m) k'"
  by (simp add: get_insert get_remove)

lemma retain_retain:
  "wf m \<Longrightarrow> get (retain P (retain Q m)) k = get (retain (\<lambda>k v. P k v \<and> Q k v) m) k"
  by (auto simp: get_retain wf_retain split: option.splits)

end

lemma hm_get_retain:
  "hm_wf m \<Longrightarrow>
   hm_get (hm_retain P m) k = (case hm_get m k of None \<Rightarrow> None | Some v \<Rightarrow> if P k v then Some v else None)"
proof (induction m)
  case (Cons kv m)
  obtain k0 v0 where kv: "kv = (k0, v0)" by (cases kv)
  from Cons.prems kv have "map_of m k0 = None" by (simp add: hm_wf_def map_of_eq_None_iff)
  with Cons kv show ?case
    by (auto simp: hm_get_def hm_retain_def hm_wf_def split: option.splits)
qed (simp add: hm_get_def hm_retain_def)

lemma hm_length_update:
  "length (AList.update k v m) = (if map_of m k = None then Suc (length m) else length m)"
  by (induction m) auto

interpretation hm: hash_map "[]" hm_get hm_insert hm_remove hm_retain length hm_wf
proof (unfold_locales, goal_cases)
  case (4 m P k) then show ?case by (rule hm_get_retain)
next
  case (8) show ?case by (simp add: hm_wf_def)
next
  case (11 m P) then show ?case
    by (auto simp: hm_wf_def hm_retain_def intro: distinct_map_filter)
qed (auto simp: hm_get_def hm_insert_def hm_remove_def hm_retain_def hm_wf_def update_conv'
       delete_conv' hm_length_update distinct_update distinct_delete
     intro: length_delete_le)

lemmas hm_simps = hm.get_empty hm.get_insert hm.get_remove hm.get_retain_Some hm.get_retain_None

lemma hm_get_in_set: "hm_wf m \<Longrightarrow> hm_get m k = Some v \<longleftrightarrow> (k, v) \<in> set m"
  by (simp add: hm_get_def hm_wf_def)

lemma hm_get_SomeD: "hm_get m k = Some v \<Longrightarrow> (k, v) \<in> set m"
  by (simp add: hm_get_def map_of_SomeD)

lemma hm_wf_Cons [simp]: "hm_wf ((k, v) # m) \<longleftrightarrow> hm_get m k = None \<and> hm_wf m"
  by (auto simp: hm_wf_def hm_get_def map_of_eq_None_iff)

lemma set_hm_insert: "set (hm_insert k v m) \<subseteq> insert (k, v) (set m)"
  unfolding hm_insert_def by (induction m) auto

lemma set_hm_remove: "set (hm_remove k m) \<subseteq> set m"
  unfolding hm_remove_def by (induction m) auto

lemma set_hm_retain: "set (hm_retain P m) = {(k, v) \<in> set m. P k v}"
  by (auto simp: hm_retain_def)

section \<open>Lists\<close>

lemma length_filter_le_one:
  assumes "distinct xs" and "\<And>x y. x \<in> set xs \<Longrightarrow> y \<in> set xs \<Longrightarrow> P x \<Longrightarrow> P y \<Longrightarrow> x = y"
  shows "length (filter P xs) \<le> 1"
  using assms
proof (induction xs)
  case (Cons x xs)
  then show ?case
  proof (cases "P x")
    case True
    with Cons.prems have "filter P xs = []" by (auto simp: filter_empty_conv)
    then show ?thesis by simp
  qed auto
qed simp

lemma mod_add_left_cancel:
  assumes "(b + i) mod m = (b + j) mod m" and "i < m" and "j < m"
  shows "i = (j::nat)"
  using assms
proof (induction i j rule: linorder_wlog)
  case (le i j)
  then have "m dvd (b + j) - (b + i)" by (subst mod_eq_dvd_iff_nat [symmetric]) auto
  then have "m dvd j - i" by simp
  with le show ?case by (metis diff_is_0_eq dvd_imp_le leD le_antisym less_imp_diff_less not_gr_zero)
qed auto

lemma length_dropWhile_less_eq: "length (dropWhile P xs) \<le> length xs"
  by (induction xs) auto

lemma set_dropWhile_subset: "set (dropWhile P xs) \<subseteq> set xs"
  by (auto dest: set_dropWhileD)

end
