(* ===== verification/P2pTypes.thy ===== *)
theory P2pTypes
  imports Prelude ErrorCodes
begin

text \<open>
  The identifier types of \<open>p2p-frame/src/types.rs\<close>, and
  \<open>P2pId\<close> of \<open>p2p_identity.rs\<close>: the id generators with their wrap-around, and the
  wrap-around comparison of tunnel ids. The three generators that skip zero share the contract
  \<open>skip_zero_generator\<close>, a locale interpreted on each of them.
\<close>

section \<open>Definitions\<close>

type_synonym 'a p2p_result = "p2p_error_code + 'a"

abbreviation is_ok :: "'e + 'a \<Rightarrow> bool" where
  "is_ok r \<equiv> \<not> isl r"

subsection \<open>Peer ids\<close>

datatype p2p_id = P2pId (id_bytes: "u8 list")

instantiation p2p_id :: linorder
begin

definition less_eq_p2p_id :: "p2p_id \<Rightarrow> p2p_id \<Rightarrow> bool" where
  "less_eq_p2p_id a b = (id_bytes a \<le> id_bytes b)"

definition less_p2p_id :: "p2p_id \<Rightarrow> p2p_id \<Rightarrow> bool" where
  "less_p2p_id a b = (id_bytes a < id_bytes b)"

instance
  by standard (auto simp: less_eq_p2p_id_def less_p2p_id_def p2p_id.expand)

end

definition is_default :: "p2p_id \<Rightarrow> bool" where
  "is_default i = list_all (\<lambda>b. b = 0) (id_bytes i)"

definition zero_id :: p2p_id where
  "zero_id = P2pId (replicate 32 0)"

subsection \<open>Sequences, tunnel ids, candidate ids, session ids\<close>

datatype sequence = Sequence (seq_value: u32)
datatype tunnel_id = TunnelId (tunnel_value: u32)
datatype candidate_id = TunnelCandidateId (candidate_value: u32)
datatype session_id = SessionId (session_value: u32)

text \<open>\<open>AtomicU32::fetch_add(1)\<close> returns the old value and wraps around.\<close>

definition fetch_add1 :: "u32 \<Rightarrow> u32 \<times> u32" where
  "fetch_add1 cur = (cur, cur + 1)"

definition sequence_generate :: "u32 \<Rightarrow> sequence \<times> u32" where
  "sequence_generate cur =
     (let (v, cur') = fetch_add1 cur
      in if v = 0 then (let (v', cur'') = fetch_add1 cur' in (Sequence v', cur''))
         else (Sequence v, cur'))"

definition candidate_generate :: "u32 \<Rightarrow> candidate_id \<times> u32" where
  "candidate_generate cur =
     (let (v, cur') = fetch_add1 cur
      in if v = 0 then (let (v', cur'') = fetch_add1 cur' in (TunnelCandidateId v', cur''))
         else (TunnelCandidateId v, cur'))"

definition tunnel_id_generate :: "u32 \<Rightarrow> tunnel_id \<times> u32" where
  "tunnel_id_generate cur =
     (let (v, cur') = fetch_add1 cur
      in if v = 0 then (let (v', cur'') = fetch_add1 cur' in (TunnelId v', cur''))
         else (TunnelId v, cur'))"

text \<open>\<open>TunnelId::now\<close> ignores its argument and truncates the wall clock's milliseconds; the
  three \<open>new\<close> functions start their counter there. The clock is an argument.\<close>

definition tunnel_id_now :: "nat \<Rightarrow> u32" where
  "tunnel_id_now clock_millis = of_nat clock_millis"

definition generator_new :: "nat \<Rightarrow> u32" where
  "generator_new clock_millis = tunnel_id_now clock_millis"

definition session_invalid :: session_id where
  "session_invalid = SessionId 0"

definition session_is_valid :: "session_id \<Rightarrow> bool" where
  "session_is_valid s = (s \<noteq> session_invalid)"

text \<open>\<open>fetch_add(1) + 1\<close> on \<open>u32\<close>, as a release build computes it (wrap-around).\<close>

definition session_generate :: "u32 \<Rightarrow> session_id \<times> u32" where
  "session_generate cur = (let (v, cur') = fetch_add1 cur in (SessionId (v + 1), cur'))"

text \<open>\<open>impl PartialOrd for TunnelId\<close>: always \<open>Some\<close>; \<open>Ord\<close> is derived.\<close>

definition tunnel_id_partial_cmp :: "tunnel_id \<Rightarrow> tunnel_id \<Rightarrow> ordering option" where
  "tunnel_id_partial_cmp a b =
     (let x = tunnel_value a; y = tunnel_value b
      in if x = 0 \<or> y = 0 then Some (cmp_ord x y)
         else if max x y - min x y > 0x7FFFFFFF
              then Some (if x > y then Less else Greater)
         else Some (cmp_ord x y))"

definition tunnel_id_cmp :: "tunnel_id \<Rightarrow> tunnel_id \<Rightarrow> ordering" where
  "tunnel_id_cmp a b = cmp_ord (tunnel_value a) (tunnel_value b)"

text \<open>The ids a generator hands out in \<open>n\<close> calls.\<close>

fun generate_n :: "(u32 \<Rightarrow> 'id \<times> u32) \<Rightarrow> nat \<Rightarrow> u32 \<Rightarrow> 'id list" where
  "generate_n gen 0 cur = []"
| "generate_n gen (Suc n) cur = (let (i, cur') = gen cur in i # generate_n gen n cur')"

text \<open>Where a generator that skips zero starts counting.\<close>

definition skip_zero :: "u32 \<Rightarrow> u32" where
  "skip_zero c = (if c = 0 then 1 else c)"

section \<open>Generators\<close>

locale skip_zero_generator =
  fixes gen :: "u32 \<Rightarrow> 'id \<times> u32" and val :: "'id \<Rightarrow> u32"
  assumes gen_value: "val (fst (gen cur)) = skip_zero cur"
    and gen_next: "snd (gen cur) = skip_zero cur + 1"
begin

lemma gen_nonzero: "val (fst (gen cur)) \<noteq> 0"
  by (simp add: gen_value skip_zero_def)

text \<open>Non-zero words are counted modulo \<open>2 ^ 32 - 1\<close>; each call moves one place on.\<close>

lemma skip_zero_succ:
  "unat (skip_zero (skip_zero c + 1)) - 1 = Suc (unat (skip_zero c) - 1) mod (2 ^ 32 - 1)"
proof -
  have lt: "unat c < 2 ^ 32" for c :: u32 using unsigned_less [of c] by simp
  show ?thesis
  proof (cases "skip_zero c + 1 = 0")
    case True
    then have "skip_zero c = - 1" by (simp add: eq_neg_iff_add_eq_0)
    then show ?thesis by (simp add: skip_zero_def unsigned_minus_1_eq_mask mask_eq_exp_minus_1)
  next
    case False
    then have "unat (skip_zero c + 1) = Suc (unat (skip_zero c))" using unatSuc [of "skip_zero c"] by (simp add: add.commute)
    moreover have "skip_zero c \<noteq> 0" by (simp add: skip_zero_def)
    then have "0 < unat (skip_zero c)" by (simp add: unat_gt_0)
    ultimately show ?thesis using False lt [of "skip_zero c + 1"] by (auto simp: skip_zero_def)
  qed
qed

lemma generate_n_index:
  "i < n \<Longrightarrow> unat (val (generate_n gen n cur ! i)) - 1 =
     (unat (skip_zero cur) - 1 + i) mod (2 ^ 32 - 1)"
proof (induction n arbitrary: cur i)
  case (Suc n)
  have lt: "unat (skip_zero cur) - 1 < 2 ^ 32 - 1"
    using unsigned_less [of "skip_zero cur", where 'a = nat] by (auto simp: skip_zero_def)
  show ?case
  proof (cases i)
    case 0
    with lt show ?thesis by (simp add: case_prod_beta gen_value)
  next
    case (Suc j)
    with Suc.prems have "j < n" by simp
    from Suc.IH [OF this, of "skip_zero cur + 1"] Suc show ?thesis
      by (simp only: generate_n.simps case_prod_beta Let_def nth_Cons_Suc gen_next skip_zero_succ)
        (simp add: mod_simps)
  qed
qed simp

lemma length_generate_n: "length (generate_n gen n cur) = n"
  by (induction n arbitrary: cur) (auto simp: case_prod_beta Let_def)

lemma generate_n_distinct:
  assumes "n \<le> 2 ^ 32 - 1"
  shows "distinct (map val (generate_n gen n cur))"
proof (rule distinct_conv_nth [THEN iffD2], intro allI impI)
  fix i j assume ij: "i < length (map val (generate_n gen n cur))"
    "j < length (map val (generate_n gen n cur))" "i \<noteq> j"
  define b where "b = unat (skip_zero cur) - 1"
  have "i < 2 ^ 32 - 1" "j < 2 ^ 32 - 1" using ij assms by (auto simp: length_generate_n)
  then have "(b + i) mod (2 ^ 32 - 1) \<noteq> (b + j) mod (2 ^ 32 - 1)"
    using ij(3) mod_add_left_cancel by blast
  with ij generate_n_index [of i n cur] generate_n_index [of j n cur]
  show "map val (generate_n gen n cur) ! i \<noteq> map val (generate_n gen n cur) ! j"
    by (metis b_def length_generate_n length_map nth_map)
qed

lemma generate_n_nonzero: "0 \<notin> set (map val (generate_n gen n cur))"
proof (induction n arbitrary: cur)
  case (Suc n)
  then show ?case using gen_nonzero [of cur] by (auto simp: case_prod_beta Let_def)
qed simp

end

lemmas generate_defs =
  sequence_generate_def candidate_generate_def tunnel_id_generate_def fetch_add1_def skip_zero_def

interpretation sq: skip_zero_generator sequence_generate seq_value
  by unfold_locales (simp_all add: generate_defs)

interpretation cg: skip_zero_generator candidate_generate candidate_value
  by unfold_locales (simp_all add: generate_defs)

interpretation tg: skip_zero_generator tunnel_id_generate tunnel_value
  by unfold_locales (simp_all add: generate_defs)

text \<open>the tunnel ids handed out by \<open>2 ^ 32 - 1\<close> successive calls of
  \<open>TunnelIdGenerator::generate\<close> are all different and none is the reserved id 0, whatever the
  counter starts at.\<close>

theorem tunnel_ids_fresh:
  assumes "n \<le> 2 ^ 32 - 1"
  shows "distinct (generate_n tunnel_id_generate n cur) \<and>
         TunnelId 0 \<notin> set (generate_n tunnel_id_generate n cur)"
proof
  show "distinct (generate_n tunnel_id_generate n cur)"
    using tg.generate_n_distinct [OF assms, of cur] by (simp add: distinct_map)
  show "TunnelId 0 \<notin> set (generate_n tunnel_id_generate n cur)"
    using tg.generate_n_nonzero [of n cur] by (metis image_eqI list.set_map tunnel_id.sel)
qed

theorem tunnel_ids_fresh_witness:
  "generate_n tunnel_id_generate 3 (- 1) = [TunnelId (- 1), TunnelId 1, TunnelId 2] \<and>
   distinct (generate_n tunnel_id_generate 3 (- 1))"
proof -
  have "distinct (generate_n tunnel_id_generate 3 (- 1))"
    using tunnel_ids_fresh [of 3 "- 1"] by simp
  moreover have "generate_n tunnel_id_generate 3 (- 1) = [TunnelId (- 1), TunnelId 1, TunnelId 2]"
    by (simp add: generate_defs numeral_3_eq_3)
  ultimately show ?thesis by simp
qed

section \<open>Comparing tunnel ids\<close>

lemma max_min_diff: "max x y - min x y = (if x \<le> y then y - x else x - y)" for x y :: u32
  by (simp add: max_def min_def)

lemma tunnel_cmp_swap:
  "tunnel_id_partial_cmp a b = Some Less \<longleftrightarrow> tunnel_id_partial_cmp b a = Some Greater"
  by (auto simp: tunnel_id_partial_cmp_def Let_def max.commute min.commute)

text \<open>tunnel ids are ordered by age across the wrap-around: an id at most \<open>2 ^ 31 - 1\<close> places
  after a non-zero id compares greater, and the comparison is antisymmetric.\<close>

theorem tunnel_id_newer_greater:
  assumes "a \<noteq> 0" and "a + d \<noteq> 0" and "0 < d" and "d \<le> 0x7FFFFFFF"
  shows "tunnel_id_partial_cmp (TunnelId a) (TunnelId (a + d)) = Some Less \<and>
         tunnel_id_partial_cmp (TunnelId (a + d)) (TunnelId a) = Some Greater"
proof -
  have lt: "unat a < 2 ^ 32" using unsigned_less [of a] by simp
  have d: "0 < unat d" "unat d \<le> 0x7FFFFFFF" using assms(3,4) by (simp_all add: time_nat)
  have "tunnel_id_partial_cmp (TunnelId a) (TunnelId (a + d)) = Some Less"
  proof (cases "unat a + unat d < 2 ^ 32")
    case True
    then have u: "unat (a + d) = unat a + unat d" by (simp add: unat_word_ariths)
    then have "a < a + d" "a + d - a = d" using d by (simp_all add: time_nat)
    moreover have "\<not> d > 0x7FFFFFFF" using assms(4) by simp
    ultimately show ?thesis
      using assms(1,2) by (simp add: tunnel_id_partial_cmp_def max_min_diff Let_def cmp_ord_def)
  next
    case False
    then have u: "unat (a + d) = unat a + unat d - 2 ^ 32"
      using lt d by (simp add: unat_word_ariths mod_if)
    moreover have "(2::nat) ^ 32 = 0x100000000" by simp
    ultimately have "unat (a + d) < unat a" using lt d False by linarith
    then have gt: "a + d < a" by (simp add: word_less_nat_alt)
    have "unat (a - (a + d)) = unat a - unat (a + d)"
      using gt by (intro unat_sub) simp
    then have "a - (a + d) > 0x7FFFFFFF" using u d lt False by (simp add: time_nat)
    with gt assms(1,2) show ?thesis
      by (simp add: tunnel_id_partial_cmp_def max_min_diff Let_def)
  qed
  then show ?thesis by (simp add: tunnel_cmp_swap)
qed

theorem tunnel_id_newer_greater_witness:
  "tunnel_id_partial_cmp (TunnelId (- 1)) (TunnelId 2) = Some Less \<and>
   tunnel_id_partial_cmp (TunnelId 2) (TunnelId (- 1)) = Some Greater"
  using tunnel_id_newer_greater [of "- 1" 3] by simp

text \<open>\<open>TunnelId\<close> derives \<open>Ord\<close> but writes its own \<open>PartialOrd\<close>, and the two disagree
  across the wrap-around; the wrap-around order is not transitive either.\<close>

theorem tunnel_id_orders_disagree:
  "tunnel_id_partial_cmp (TunnelId 1) (TunnelId 0xFFFFFFFF) = Some Greater \<and>
   tunnel_id_cmp (TunnelId 1) (TunnelId 0xFFFFFFFF) = Less \<and>
   tunnel_id_partial_cmp (TunnelId 1) (TunnelId 0x60000000) = Some Less \<and>
   tunnel_id_partial_cmp (TunnelId 0x60000000) (TunnelId 0xC0000000) = Some Less \<and>
   tunnel_id_partial_cmp (TunnelId 0xC0000000) (TunnelId 1) = Some Less"
  by (simp add: tunnel_id_partial_cmp_def tunnel_id_cmp_def max_def min_def cmp_ord_def word_le_nat_alt)

text \<open>\<open>SessionIdGenerator::generate\<close> returns the invalid session id 0 exactly when its counter
  is \<open>u32::MAX\<close>; otherwise the id is valid.\<close>

theorem session_generate_valid:
  "session_is_valid (fst (session_generate cur)) \<longleftrightarrow> cur \<noteq> - 1"
  by (simp add: session_is_valid_def session_invalid_def session_generate_def fetch_add1_def
      eq_neg_iff_add_eq_0)

end
