(* ===== verification/Endpoints.thy ===== *)
theory Endpoints
  imports P2pTypes
begin

text \<open>
  \<open>p2p-frame/src/endpoint.rs\<close> and the endpoint pairs of \<open>types.rs\<close>: an endpoint is an
  area, a protocol and a socket address. Modelled are its accessors, its equality and order (which
  are not the structural ones), the address classes of the rendezvous and report policies, and its
  binary codec on a byte buffer. An IPv6 address is its eight segments, so every value of the type
  is an address; the octets the codec reads and writes are derived from them.
\<close>

unbundle bit_operations_syntax

section \<open>Definitions\<close>

subsection \<open>Addresses\<close>

datatype ipv4 = Ipv4 u8 u8 u8 u8
datatype ipv6 = Ipv6 u16 u16 u16 u16 u16 u16 u16 u16
datatype ip_addr = IpV4 ipv4 | IpV6 ipv6
datatype socket_addr =
    V4 (v4_ip: ipv4) (sa_port: u16)
  | V6 (v6_ip: ipv6) (sa_port: u16) (flowinfo: u32) (scope_id: u32)

fun sa_ip :: "socket_addr \<Rightarrow> ip_addr" where
  "sa_ip (V4 a p) = IpV4 a"
| "sa_ip (V6 a p f s) = IpV6 a"

fun is_ipv4 :: "socket_addr \<Rightarrow> bool" where
  "is_ipv4 (V4 a p) = True"
| "is_ipv4 (V6 a p f s) = False"

fun set_port :: "u16 \<Rightarrow> socket_addr \<Rightarrow> socket_addr" where
  "set_port q (V4 a p) = V4 a q"
| "set_port q (V6 a p f s) = V6 a q f s"

fun octets4 :: "ipv4 \<Rightarrow> u8 list" where
  "octets4 (Ipv4 a b c d) = [a, b, c, d]"

fun segments :: "ipv6 \<Rightarrow> u16 list" where
  "segments (Ipv6 a b c d e f g h) = [a, b, c, d, e, f, g, h]"

definition be_bytes :: "u16 \<Rightarrow> u8 list" where
  "be_bytes s = [ucast (drop_bit 8 s), ucast s]"

definition le_bytes :: "u16 \<Rightarrow> u8 list" where
  "le_bytes s = [ucast s, ucast (drop_bit 8 s)]"

definition join_bytes :: "u8 \<Rightarrow> u8 \<Rightarrow> u16" where
  "join_bytes hi lo = push_bit 8 (ucast hi) OR ucast lo"

definition octets6 :: "ipv6 \<Rightarrow> u8 list" where
  "octets6 ip = concat (map be_bytes (segments ip))"

definition ipv6_of_octets :: "u8 list \<Rightarrow> ipv6" where
  "ipv6_of_octets s =
     (let seg = (\<lambda>i. join_bytes (s ! (2 * i)) (s ! (2 * i + 1)))
      in Ipv6 (seg 0) (seg 1) (seg 2) (seg 3) (seg 4) (seg 5) (seg 6) (seg 7))"

subsection \<open>Address classes\<close>

fun is_private :: "ipv4 \<Rightarrow> bool" where
  "is_private (Ipv4 a b c d) =
     (a = 10 \<or> (a = 172 \<and> b AND 0xF0 = 16) \<or> (a = 192 \<and> b = 168))"

fun is_loopback4 :: "ipv4 \<Rightarrow> bool" where
  "is_loopback4 (Ipv4 a b c d) = (a = 127)"

fun is_link_local4 :: "ipv4 \<Rightarrow> bool" where
  "is_link_local4 (Ipv4 a b c d) = (a = 169 \<and> b = 254)"

fun is_multicast4 :: "ipv4 \<Rightarrow> bool" where
  "is_multicast4 (Ipv4 a b c d) = (224 \<le> a \<and> a \<le> 239)"

definition is_unspecified4 :: "ipv4 \<Rightarrow> bool" where
  "is_unspecified4 ip = (ip = Ipv4 0 0 0 0)"

definition is_broadcast4 :: "ipv4 \<Rightarrow> bool" where
  "is_broadcast4 ip = (ip = Ipv4 255 255 255 255)"

definition is_loopback6 :: "ipv6 \<Rightarrow> bool" where
  "is_loopback6 ip = (ip = Ipv6 0 0 0 0 0 0 0 1)"

definition is_unspecified6 :: "ipv6 \<Rightarrow> bool" where
  "is_unspecified6 ip = (ip = Ipv6 0 0 0 0 0 0 0 0)"

definition is_multicast6 :: "ipv6 \<Rightarrow> bool" where
  "is_multicast6 ip = (segments ip ! 0 AND 0xFF00 = 0xFF00)"

definition is_unique_local :: "ipv6 \<Rightarrow> bool" where
  "is_unique_local ip = (segments ip ! 0 AND 0xFE00 = 0xFC00)"

definition is_unicast_link_local :: "ipv6 \<Rightarrow> bool" where
  "is_unicast_link_local ip = (segments ip ! 0 AND 0xFFC0 = 0xFE80)"

definition is_ipv4_mapped_prefix :: "ipv6 \<Rightarrow> bool" where
  "is_ipv4_mapped_prefix ip =
     (list_all (\<lambda>s. s = 0) (take 5 (segments ip)) \<and> segments ip ! 5 = 0xFFFF)"

definition is_documentation_range :: "ipv6 \<Rightarrow> bool" where
  "is_documentation_range ip =
     ((segments ip ! 0 = 0x2001 \<and> segments ip ! 1 = 0x0DB8) \<or> segments ip ! 0 AND 0xFFF0 = 0x3FF0)"

definition is_benchmarking_range :: "ipv6 \<Rightarrow> bool" where
  "is_benchmarking_range ip = (segments ip ! 0 = 0x2001 \<and> segments ip ! 1 = 0x0002)"

subsection \<open>Endpoints\<close>

datatype protocol = Ext u8 | Tcp | Quic
datatype endpoint_area = Lan | ServerReflexive | Wan | Mapped

record endpoint =
  area :: endpoint_area
  protocol :: protocol
  addr :: socket_addr

definition set_protocol :: "protocol \<Rightarrow> endpoint \<Rightarrow> endpoint" where
  "set_protocol p ep = ep\<lparr>protocol := p\<rparr>"

definition set_area :: "endpoint_area \<Rightarrow> endpoint \<Rightarrow> endpoint" where
  "set_area a ep = ep\<lparr>area := a\<rparr>"

definition is_same_ip_version :: "endpoint \<Rightarrow> endpoint \<Rightarrow> bool" where
  "is_same_ip_version e e' = (is_ipv4 (addr e) = is_ipv4 (addr e'))"

definition is_same_ip_addr :: "endpoint \<Rightarrow> endpoint \<Rightarrow> bool" where
  "is_same_ip_addr e e' = (set_port 0 (addr e) = set_port 0 (addr e'))"

definition is_loopback :: "endpoint \<Rightarrow> bool" where
  "is_loopback e = (case sa_ip (addr e) of IpV4 ip \<Rightarrow> is_loopback4 ip | IpV6 ip \<Rightarrow> is_loopback6 ip)"

definition unspecified_addr :: "endpoint \<Rightarrow> socket_addr" where
  "unspecified_addr ep =
     (if is_ipv4 (addr ep) then V4 (Ipv4 0 0 0 0) 0 else V6 (Ipv6 0 0 0 0 0 0 0 0) 0 0 0)"

definition default_tcp :: "endpoint \<Rightarrow> endpoint" where
  "default_tcp ep = \<lparr>area = Lan, protocol = Tcp, addr = unspecified_addr ep\<rparr>"

definition default_udp :: "endpoint \<Rightarrow> endpoint" where
  "default_udp ep = \<lparr>area = Lan, protocol = Quic, addr = unspecified_addr ep\<rparr>"

definition default_of :: "endpoint \<Rightarrow> endpoint" where
  "default_of ep = (case protocol ep of
       Tcp \<Rightarrow> default_tcp ep
     | Quic \<Rightarrow> default_udp ep
     | Ext n \<Rightarrow> \<lparr>area = Lan, protocol = Quic, addr = unspecified_addr ep\<rparr>)"

definition is_udp :: "endpoint \<Rightarrow> bool" where "is_udp e = (protocol e \<noteq> Tcp)"
definition is_tcp :: "endpoint \<Rightarrow> bool" where "is_tcp e = (protocol e = Tcp)"

definition is_static_wan :: "endpoint \<Rightarrow> bool" where
  "is_static_wan e = (area e = Wan \<or> area e = Mapped)"

definition is_mapped_wan :: "endpoint \<Rightarrow> bool" where
  "is_mapped_wan e = (area e = Mapped)"

definition endpoint_default :: endpoint where
  "endpoint_default = \<lparr>area = Lan, protocol = Quic, addr = V4 (Ipv4 0 0 0 0) 0\<rparr>"

definition endpoint_from :: "protocol \<Rightarrow> socket_addr \<Rightarrow> endpoint" where
  "endpoint_from p a = \<lparr>area = Lan, protocol = p, addr = a\<rparr>"

fun socket_addr_new :: "ip_addr \<Rightarrow> u16 \<Rightarrow> socket_addr" where
  "socket_addr_new (IpV4 ip) p = V4 ip p"
| "socket_addr_new (IpV6 ip) p = V6 ip p 0 0"

definition endpoint_from_ip :: "protocol \<Rightarrow> ip_addr \<Rightarrow> u16 \<Rightarrow> endpoint" where
  "endpoint_from_ip pr ip p = \<lparr>area = Lan, protocol = pr, addr = socket_addr_new ip p\<rparr>"

text \<open>\<open>impl PartialEq\<close> ignores the area; \<open>impl PartialOrd\<close> compares protocol, IP and port.\<close>

definition endpoint_eq :: "endpoint \<Rightarrow> endpoint \<Rightarrow> bool" where
  "endpoint_eq e e' = (protocol e = protocol e' \<and> addr e = addr e')"

fun protocol_rank :: "protocol \<Rightarrow> nat" where
  "protocol_rank (Ext n) = unat n"
| "protocol_rank Tcp = 256"
| "protocol_rank Quic = 257"

definition protocol_cmp :: "protocol \<Rightarrow> protocol \<Rightarrow> ordering" where
  "protocol_cmp p q = cmp_ord (protocol_rank p) (protocol_rank q)"

fun ip_cmp :: "ip_addr \<Rightarrow> ip_addr \<Rightarrow> ordering" where
  "ip_cmp (IpV4 a) (IpV4 b) = cmp_ord (octets4 a) (octets4 b)"
| "ip_cmp (IpV6 a) (IpV6 b) = cmp_ord (segments a) (segments b)"
| "ip_cmp (IpV4 _) (IpV6 _) = Less"
| "ip_cmp (IpV6 _) (IpV4 _) = Greater"

definition endpoint_cmp :: "endpoint \<Rightarrow> endpoint \<Rightarrow> ordering" where
  "endpoint_cmp e e' =
     (case protocol_cmp (protocol e) (protocol e') of
        Equal \<Rightarrow>
          (case ip_cmp (sa_ip (addr e)) (sa_ip (addr e')) of
             Greater \<Rightarrow> Greater
           | Less \<Rightarrow> Less
           | Equal \<Rightarrow> cmp_ord (sa_port (addr e)) (sa_port (addr e')))
      | Greater \<Rightarrow> Greater
      | Less \<Rightarrow> Less)"

subsection \<open>Policies on addresses\<close>

fun is_non_lan_ipv4_addr :: "socket_addr \<Rightarrow> bool" where
  "is_non_lan_ipv4_addr (V6 ip p f s) = False"
| "is_non_lan_ipv4_addr (V4 ip p) =
     (\<not> is_private ip \<and> \<not> is_loopback4 ip \<and> \<not> is_link_local4 ip \<and> \<not> is_unspecified4 ip \<and>
      \<not> is_broadcast4 ip \<and> \<not> is_multicast4 ip)"

fun classify_reported_ipv6_area :: "socket_addr \<Rightarrow> endpoint_area option" where
  "classify_reported_ipv6_area (V4 ip p) = None"
| "classify_reported_ipv6_area (V6 ip p f s) =
     (if is_loopback6 ip \<or> is_unspecified6 ip \<or> is_multicast6 ip then None
      else if is_unique_local ip \<or> is_unicast_link_local ip \<or> is_ipv4_mapped_prefix ip \<or>
              is_documentation_range ip \<or> is_benchmarking_range ip then Some Lan
      else Some Wan)"

text \<open>The cargo feature \<open>test-real-socket-matrix\<close> is the argument \<open>matrix\<close> (off by default).\<close>

definition rendezvous_ipv4_eligible :: "bool \<Rightarrow> socket_addr \<Rightarrow> bool" where
  "rendezvous_ipv4_eligible matrix a =
     (is_non_lan_ipv4_addr a \<or>
      (matrix \<and> (case a of V4 ip p \<Rightarrow> is_loopback4 ip \<or> is_private ip | V6 _ _ _ _ \<Rightarrow> False)))"

definition rendezvous_eligible_area :: "bool \<Rightarrow> endpoint \<Rightarrow> bool" where
  "rendezvous_eligible_area matrix e =
     (rendezvous_ipv4_eligible matrix (addr e) \<and>
      (area e = ServerReflexive \<or> (matrix \<and> (area e = Wan \<or> area e = Mapped))))"

definition rendezvous_reverse_connect_eligible_area :: "bool \<Rightarrow> endpoint \<Rightarrow> bool" where
  "rendezvous_reverse_connect_eligible_area matrix e =
     (rendezvous_ipv4_eligible matrix (addr e) \<and>
      (area e = ServerReflexive \<or> area e = Wan \<or> area e = Mapped))"

subsection \<open>The binary codec\<close>

datatype codec_error = CodecInvalidInput | CodecOutOfLimit | CodecInvalidData | CodecFailed

definition ext_in_range :: "u8 \<Rightarrow> bool" where
  "ext_in_range n = (\<not> (n < 8 \<or> n \<ge> 16))"

definition flags :: "endpoint \<Rightarrow> u8" where
  "flags e =
     (0 OR (case protocol e of Tcp \<Rightarrow> 0 | Ext p \<Rightarrow> p | Quic \<Rightarrow> 1)
        OR (case area e of Lan \<Rightarrow> 0 | ServerReflexive \<Rightarrow> 0x20 | Wan \<Rightarrow> 0x40 | Mapped \<Rightarrow> 0x60)
        OR (case addr e of V4 _ _ \<Rightarrow> 0 | V6 _ _ _ _ \<Rightarrow> 0x10))"

definition raw_measure :: "endpoint \<Rightarrow> nat" where
  "raw_measure e = (case addr e of V4 _ _ \<Rightarrow> 1 + 2 + 4 | V6 _ _ _ _ \<Rightarrow> 1 + 2 + 16)"

text \<open>
  The encoders write into a caller's slice and return the unwritten tail. The result here is the
  slice after the write, together with that tail. On an error nothing of the slice is reported.
\<close>

definition raw_encode_no_flags :: "endpoint \<Rightarrow> u8 list \<Rightarrow> codec_error + (u8 list \<times> u8 list)" where
  "raw_encode_no_flags e buf =
     (let tail = drop 2 buf; port = le_bytes (sa_port (addr e))
      in case addr e of
           V4 ip p \<Rightarrow>
             if length tail < 4 then Inl CodecOutOfLimit
             else Inr (port @ octets4 ip @ drop 4 tail, drop 4 tail)
         | V6 ip p f s \<Rightarrow>
             if length tail < 16 then Inl CodecOutOfLimit
             else Inr (port @ octets6 ip @ drop 16 tail, drop 16 tail))"

definition raw_encode :: "endpoint \<Rightarrow> u8 list \<Rightarrow> codec_error + (u8 list \<times> u8 list)" where
  "raw_encode e buf =
     (if (case protocol e of Ext n \<Rightarrow> \<not> ext_in_range n | _ \<Rightarrow> False) then Inl CodecInvalidInput
      else if length buf < 7 then Inl CodecOutOfLimit
      else case raw_encode_no_flags e (drop 1 buf) of
             Inl err \<Rightarrow> Inl err
           | Inr (written, rest) \<Rightarrow> Inr (flags e # written, rest))"

definition raw_decode_no_flags :: "u8 \<Rightarrow> u8 list \<Rightarrow> codec_error + (endpoint \<times> u8 list)" where
  "raw_decode_no_flags fl buf =
     (let pbits = fl AND 0x0F; abits = fl AND 0x60;
          ar = (if abits = 0 then Lan else if abits = 0x20 then ServerReflexive
                else if abits = 0x40 then Wan else if abits = 0x60 then Mapped else Lan);
          port = join_bytes (buf ! 1) (buf ! 0); rest = drop 2 buf
      in case (if pbits = 0 then Inr Tcp else if pbits = 1 then Inr Quic
               else if \<not> ext_in_range pbits then Inl CodecInvalidInput else Inr (Ext pbits)) of
           Inl err \<Rightarrow> Inl err
         | Inr pr \<Rightarrow>
             if fl AND 0x10 = 0x10 then
               if length rest < 16 then Inl CodecOutOfLimit
               else Inr (\<lparr>area = ar, protocol = pr, addr = V6 (ipv6_of_octets (take 16 rest)) port 0 0\<rparr>,
                         drop 16 rest)
             else Inr (\<lparr>area = ar, protocol = pr,
                        addr = V4 (Ipv4 (rest ! 0) (rest ! 1) (rest ! 2) (rest ! 3)) port\<rparr>,
                       drop 4 rest))"

definition raw_decode :: "u8 list \<Rightarrow> codec_error + (endpoint \<times> u8 list)" where
  "raw_decode buf =
     (if length buf < 7 then Inl CodecOutOfLimit
      else raw_decode_no_flags (buf ! 0) (drop 1 buf))"

subsection \<open>Endpoint pairs\<close>

datatype endpoint_pair = EndpointPair (pair_local: endpoint) (pair_remote: endpoint)

text \<open>\<open>From<(Endpoint, Endpoint)>\<close> asserts: \<open>None\<close> is the panic.\<close>

definition endpoint_pair_from :: "endpoint \<Rightarrow> endpoint \<Rightarrow> endpoint_pair option" where
  "endpoint_pair_from l r =
     (if \<not> is_same_ip_version l r then None
      else if protocol l \<noteq> protocol r then None
      else Some (EndpointPair l r))"

definition pair_protocol :: "endpoint_pair \<Rightarrow> protocol" where
  "pair_protocol p = protocol (pair_local p)"

definition pair_is_ipv4 :: "endpoint_pair \<Rightarrow> bool" where
  "pair_is_ipv4 p = is_ipv4 (addr (pair_local p))"

definition pair_is_tcp :: "endpoint_pair \<Rightarrow> bool" where
  "pair_is_tcp p = (is_tcp (pair_local p) \<and> sa_port (addr (pair_local p)) = 0)"

definition pair_is_udp :: "endpoint_pair \<Rightarrow> bool" where
  "pair_is_udp p = is_udp (pair_local p)"

definition pair_is_reverse_tcp :: "endpoint_pair \<Rightarrow> bool" where
  "pair_is_reverse_tcp p = (is_tcp (pair_local p) \<and> sa_port (addr (pair_local p)) \<noteq> 0)"

subsection \<open>What the codec carries\<close>

definition valid_protocol :: "protocol \<Rightarrow> bool" where
  "valid_protocol p = (case p of Ext n \<Rightarrow> ext_in_range n | _ \<Rightarrow> True)"

text \<open>What survives the wire: flow and scope of an IPv6 address are not sent.\<close>

fun wire_addr :: "socket_addr \<Rightarrow> socket_addr" where
  "wire_addr (V4 ip p) = V4 ip p"
| "wire_addr (V6 ip p f s) = V6 ip p 0 0"

definition wire_endpoint :: "endpoint \<Rightarrow> endpoint" where
  "wire_endpoint e = e\<lparr>addr := wire_addr (addr e)\<rparr>"

definition sample_ep :: endpoint where
  "sample_ep = \<lparr>area = ServerReflexive, protocol = Ext 9, addr = V4 (Ipv4 203 0 113 7) 3456\<rparr>"

section \<open>The codec\<close>

lemma join_be [codec_simps]: "join_bytes (ucast (drop_bit 8 s)) (ucast s) = s"
  unfolding join_bytes_def
  by (rule bit_word_eqI)
    (auto simp: bit_or_iff bit_push_bit_iff bit_ucast_iff bit_drop_bit_eq)

lemma octets6_roundtrip [codec_simps]: "ipv6_of_octets (octets6 ip) = ip"
  by (cases ip) (simp add: octets6_def be_bytes_def ipv6_of_octets_def join_be)

lemma length_octets6 [codec_simps]: "length (octets6 ip) = 16"
  by (cases ip) (simp add: octets6_def be_bytes_def)

text \<open>The three groups of flag bits do not overlap for the protocols the encoder accepts.\<close>

lemma ext_cases:
  assumes "ext_in_range n"
  shows "n \<in> {8, 9, 10, 11, 12, 13, 14, 15}"
proof -
  have b: "8 \<le> unat n" "unat n < 16" using assms by (auto simp: ext_in_range_def time_nat)
  then have "unat n \<in> {8, 9, 10, 11, 12, 13, 14, 15}" by auto
  then show ?thesis by (auto simp: word_unat_eq_iff)
qed

lemma flags_protocol:
  assumes "valid_protocol (protocol e)"
  shows "flags e AND 0x0F = (case protocol e of Tcp \<Rightarrow> 0 | Ext p \<Rightarrow> p | Quic \<Rightarrow> 1)"
  using assms ext_cases
  by (cases "protocol e"; cases "area e"; cases "addr e")
    (fastforce simp: flags_def valid_protocol_def)+

lemma flags_area:
  assumes "valid_protocol (protocol e)"
  shows "flags e AND 0x60 =
    (case area e of Lan \<Rightarrow> 0 | ServerReflexive \<Rightarrow> 0x20 | Wan \<Rightarrow> 0x40 | Mapped \<Rightarrow> 0x60)"
  using assms ext_cases
  by (cases "protocol e"; cases "area e"; cases "addr e")
    (fastforce simp: flags_def valid_protocol_def)+

lemma flags_version:
  assumes "valid_protocol (protocol e)"
  shows "flags e AND 0x10 = (case addr e of V4 _ _ \<Rightarrow> 0 | V6 _ _ _ _ \<Rightarrow> 0x10)"
  using assms ext_cases
  by (cases "protocol e"; cases "area e"; cases "addr e")
    (fastforce simp: flags_def valid_protocol_def)+

lemma raw_encode_ok:
  "raw_encode e buf = Inr (out, rest) \<longleftrightarrow>
     valid_protocol (protocol e) \<and> raw_measure e \<le> length buf \<and> rest = drop (raw_measure e) buf \<and>
     out = flags e # le_bytes (sa_port (addr e)) @
           (case addr e of V4 ip _ \<Rightarrow> octets4 ip | V6 ip _ _ _ \<Rightarrow> octets6 ip) @ rest"
  by (cases "addr e"; cases "protocol e")
    (auto simp: raw_encode_def raw_encode_no_flags_def valid_protocol_def raw_measure_def Let_def
      split: if_splits)

lemma protocol_bits:
  assumes "valid_protocol p"
  shows "(let b = (case p of Tcp \<Rightarrow> 0 | Ext p \<Rightarrow> p | Quic \<Rightarrow> 1)
          in if b = 0 then Inr Tcp else if b = 1 then Inr Quic
             else if \<not> ext_in_range b then Inl err else Inr (Ext b)) = Inr p"
  using assms by (cases p) (auto simp: valid_protocol_def ext_in_range_def word_less_nat_alt)

lemma raw_decode_encoded:
  assumes "raw_encode e buf = Inr (out, rest)"
  shows "raw_decode out = Inr (wire_endpoint e, rest)"
proof -
  from assms have v: "valid_protocol (protocol e)" and
    out: "out = flags e # le_bytes (sa_port (addr e)) @
           (case addr e of V4 ip _ \<Rightarrow> octets4 ip | V6 ip _ _ _ \<Rightarrow> octets6 ip) @ rest"
    by (auto simp: raw_encode_ok)
  note bits = flags_protocol [OF v] flags_area [OF v] flags_version [OF v]
  note pb = protocol_bits [OF v, unfolded Let_def]
  show ?thesis
  proof (cases "addr e")
    case (V4 ip p)
    then show ?thesis using v
      by (cases ip; cases "area e")
        (simp_all add: out raw_decode_def raw_decode_no_flags_def bits Let_def le_bytes_def pb
          wire_endpoint_def codec_simps)
  next
    case (V6 ip p f s)
    then show ?thesis using v
      by (cases "area e")
        (simp_all add: out raw_decode_def raw_decode_no_flags_def bits Let_def le_bytes_def pb
          wire_endpoint_def codec_simps)
  qed
qed

text \<open>encoding an endpoint and decoding the buffer gives the endpoint back (area and protocol
  included; an IPv6 flow label and scope are not on the wire), and the decoder leaves exactly the
  bytes the encoder left.\<close>

theorem endpoint_codec_roundtrip:
  assumes "raw_encode e buf = Inr (out, rest)"
  shows "raw_decode out = Inr (wire_endpoint e, rest)"
  using assms by (rule raw_decode_encoded)

theorem endpoint_codec_roundtrip_witness:
  "raw_encode sample_ep [0, 0, 0, 0, 0, 0, 0, 0] =
     Inr ([0x29, 0x80, 0x0D, 203, 0, 113, 7, 0], [0]) \<and>
   raw_decode [0x29, 0x80, 0x0D, 203, 0, 113, 7, 0] = Inr (wire_endpoint sample_ep, [0])"
proof -
  have "raw_encode sample_ep [0, 0, 0, 0, 0, 0, 0, 0] = Inr ([0x29, 0x80, 0x0D, 203, 0, 113, 7, 0], [0])"
    by (simp add: raw_encode_ok sample_ep_def valid_protocol_def ext_in_range_def raw_measure_def
        flags_def le_bytes_def drop_bit_numeral_bit0 word_le_nat_alt)
  then show ?thesis using endpoint_codec_roundtrip by blast
qed

text \<open>\<open>raw_encode\<close> succeeds exactly when the protocol is encodable and the buffer holds
  \<open>raw_measure\<close> bytes, and then consumes exactly those.\<close>

theorem endpoint_encode_total:
  "is_ok (raw_encode e buf) \<longleftrightarrow> valid_protocol (protocol e) \<and> raw_measure e \<le> length buf"
proof -
  have "is_ok (raw_encode e buf) \<longleftrightarrow> (\<exists>out rest. raw_encode e buf = Inr (out, rest))"
    by (cases "raw_encode e buf") auto
  then show ?thesis by (simp add: raw_encode_ok)
qed

section \<open>Equality and order\<close>

text \<open>\<open>==\<close> on endpoints is an equivalence that ignores the area, and \<open>cmp\<close> never says
  \<open>Less\<close> or \<open>Greater\<close> for equal endpoints; but \<open>cmp\<close> says \<open>Equal\<close> for two IPv6
  endpoints that differ in their scope only, so it is not consistent with \<open>==\<close>.\<close>

theorem endpoint_eq_cmp:
  "endpoint_eq e e \<and> (endpoint_eq e e' = endpoint_eq e' e) \<and>
   endpoint_eq (set_area a e) e \<and>
   (endpoint_eq e e' \<longrightarrow> endpoint_cmp e e' = Equal) \<and>
   (\<exists>x y. endpoint_cmp x y = Equal \<and> \<not> endpoint_eq x y)"
proof (intro conjI impI)
  have refl: "ip_cmp i i = Equal" for i by (cases i) simp_all
  show "endpoint_cmp e e' = Equal" if "endpoint_eq e e'"
    using that by (simp add: endpoint_eq_def endpoint_cmp_def protocol_cmp_def refl cmp_ord_def)
  let ?x = "\<lparr>area = Lan, protocol = Quic, addr = V6 (Ipv6 0xFE80 0 0 0 0 0 0 1) 80 0 1\<rparr>"
  have "endpoint_cmp ?x (?x\<lparr>addr := V6 (Ipv6 0xFE80 0 0 0 0 0 0 1) 80 0 2\<rparr>) = Equal \<and>
        \<not> endpoint_eq ?x (?x\<lparr>addr := V6 (Ipv6 0xFE80 0 0 0 0 0 0 1) 80 0 2\<rparr>)"
    by (simp add: endpoint_eq_def endpoint_cmp_def protocol_cmp_def cmp_ord_def)
  then show "\<exists>x y. endpoint_cmp x y = Equal \<and> \<not> endpoint_eq x y" by blast
qed (auto simp: endpoint_eq_def set_area_def)

theorem endpoint_eq_cmp_witness: "endpoint_cmp sample_ep (set_area Wan sample_ep) = Equal"
proof -
  have "endpoint_eq sample_ep (set_area Wan sample_ep)"
    by (simp add: endpoint_eq_def set_area_def)
  then show ?thesis using endpoint_eq_cmp by blast
qed

section \<open>Policies\<close>

text \<open>with the default build, an endpoint that rendezvous may punch is a server-reflexive IPv4
  endpoint outside the private, loopback, link-local, unspecified, broadcast and multicast ranges,
  and every such endpoint is also eligible for reverse connect.\<close>

theorem rendezvous_eligible_non_lan:
  assumes "rendezvous_eligible_area False e"
  shows "area e = ServerReflexive \<and> is_ipv4 (addr e) \<and> is_non_lan_ipv4_addr (addr e) \<and>
         \<not> is_loopback e \<and> rendezvous_reverse_connect_eligible_area False e"
proof (cases "addr e")
  case (V4 ip p)
  with assms show ?thesis
    by (auto simp: rendezvous_eligible_area_def rendezvous_ipv4_eligible_def is_loopback_def
        rendezvous_reverse_connect_eligible_area_def)
next
  case (V6 ip p f s)
  with assms show ?thesis
    by (simp add: rendezvous_eligible_area_def rendezvous_ipv4_eligible_def)
qed

theorem rendezvous_eligible_non_lan_witness: "\<not> is_loopback sample_ep"
  using rendezvous_eligible_non_lan [of sample_ep]
  by (simp add: sample_ep_def rendezvous_eligible_area_def rendezvous_ipv4_eligible_def
      is_unspecified4_def is_broadcast4_def word_le_nat_alt)

text \<open>the comments of \<open>is_documentation_range\<close> and \<open>is_benchmarking_range\<close> name the
  prefixes 3fff::/20 and 2001:2::/48, but addresses outside those prefixes (3ff0::1 and
  2001:2:1::1) are classified \<open>Lan\<close> as well.\<close>

theorem reported_ipv6_ranges_wider:
  "classify_reported_ipv6_area (V6 (Ipv6 0x3FF0 0 0 0 0 0 0 1) p f s) = Some Lan \<and>
   classify_reported_ipv6_area (V6 (Ipv6 0x2001 2 1 0 0 0 0 1) p f s) = Some Lan"
  by (simp add: is_loopback6_def is_unspecified6_def is_multicast6_def is_unique_local_def
      is_unicast_link_local_def is_ipv4_mapped_prefix_def is_documentation_range_def
      is_benchmarking_range_def)

lemma endpoint_pair_invariant:
  assumes "endpoint_pair_from l r = Some p"
  shows "pair_protocol p = protocol (pair_remote p) \<and>
         pair_is_ipv4 p = is_ipv4 (addr (pair_remote p)) \<and>
         (pair_is_tcp p \<or> pair_is_udp p \<or> pair_is_reverse_tcp p) \<and>
         \<not> (pair_is_tcp p \<and> pair_is_reverse_tcp p) \<and> (pair_is_udp p = (pair_protocol p \<noteq> Tcp))"
  using assms
  by (auto simp: endpoint_pair_from_def is_same_ip_version_def pair_protocol_def pair_is_ipv4_def
      pair_is_tcp_def pair_is_udp_def pair_is_reverse_tcp_def is_tcp_def is_udp_def split: if_splits)

end
