(* ===== verification/NatType.thy ===== *)
theory NatType
  imports Endpoints
begin

text \<open>
  \<open>p2p-frame/src/nat_type.rs\<close>: what a client observed about its NAT (a profile with a
  lifetime), the bounded port prediction hint, and the pair of profiles both sides of one tunnel
  attempt use. Times are 64-bit microseconds; a port delta is an \<open>i32\<close>, kept as an \<open>int\<close>
  with the source's checked operations at their width.
\<close>

section \<open>Definitions\<close>

definition NAT_PROFILE_VERSION :: u8 where "NAT_PROFILE_VERSION = 1"
definition NAT_TRAVERSAL_CONTEXT_VERSION :: u8 where "NAT_TRAVERSAL_CONTEXT_VERSION = 1"
definition MAX_NAT_PREDICTION_PORTS :: nat where "MAX_NAT_PREDICTION_PORTS = 8"

datatype nat_mapping_observation = Unknown | NonSymmetricLike | SymmetricLike
datatype nat_port_parity_relation = Same | Alternating

record nat_prediction_hint =
  first_observed :: endpoint
  last_observed :: endpoint
  sample_count :: u16
  port_delta :: int
  parity :: nat_port_parity_relation

abbreviation ep_port :: "endpoint \<Rightarrow> u16" where "ep_port e \<equiv> sa_port (addr e)"
abbreviation ep_ip :: "endpoint \<Rightarrow> ip_addr" where "ep_ip e \<equiv> sa_ip (addr e)"
abbreviation port_int :: "endpoint \<Rightarrow> int" where "port_int e \<equiv> uint (ep_port e)"

text \<open>\<open>slice::windows(2)\<close>.\<close>

definition windows2 :: "'a list \<Rightarrow> ('a \<times> 'a) list" where
  "windows2 xs = zip xs (tl xs)"

definition hint_from_observations :: "endpoint list \<Rightarrow> nat_prediction_hint option" where
  "hint_from_observations obs =
     (if length obs < 2 \<or> (\<exists>ep \<in> set obs. \<not> is_ipv4 (addr ep)) then None
      else let first = obs ! 0 in
        if \<exists>ep \<in> set obs. ep_ip ep \<noteq> ep_ip first then None
        else let delta = port_int (obs ! 1) - port_int (obs ! 0) in
          if delta = 0 \<or> (\<exists>(a, b) \<in> set (windows2 obs). port_int b - port_int a \<noteq> delta) then None
          else Some \<lparr>first_observed = first, last_observed = last obs,
                     sample_count = of_nat (min (length obs) 65535), port_delta = delta,
                     parity = (if ep_port (obs ! 0) mod 2 = ep_port (obs ! 1) mod 2
                               then Same else Alternating)\<rparr>)"

definition is_usable_with :: "nat_prediction_hint \<Rightarrow> endpoint \<Rightarrow> bool" where
  "is_usable_with h base =
     (if sample_count h < 2 \<or> port_delta h = 0 \<or> \<not> is_ipv4 (addr (first_observed h)) \<or>
         \<not> is_ipv4 (addr (last_observed h)) \<or> \<not> is_ipv4 (addr base) \<or>
         ep_ip (first_observed h) \<noteq> ep_ip (last_observed h) \<or> ep_ip base \<noteq> ep_ip (last_observed h)
      then False
      else case checked_mul_signed 32 (port_delta h) (uint (sample_count h - 1)) of
             None \<Rightarrow> False
           | Some expected_total_delta \<Rightarrow>
               if port_int (last_observed h) - port_int (first_observed h) \<noteq> expected_total_delta
               then False
               else parity h = (if \<bar>port_delta h\<bar> mod 2 = 0 then Same else Alternating))"

text \<open>The loop of \<open>predicted_ports\<close> over \<open>1..=limit\<close>; every \<open>break\<close> ends it.\<close>

fun predict_loop :: "u16 \<Rightarrow> int \<Rightarrow> nat list \<Rightarrow> u16 list \<Rightarrow> u16 list" where
  "predict_loop base delta [] ports = ports"
| "predict_loop base delta (step # steps) ports =
     (case checked_mul_signed 64 delta (int step) of
        None \<Rightarrow> ports
      | Some offset \<Rightarrow>
          (case checked_add_signed 64 (uint base) offset of
             None \<Rightarrow> ports
           | Some candidate \<Rightarrow>
               if \<not> (1 \<le> candidate \<and> candidate \<le> 65535) then ports
               else let c = (word_of_int candidate :: u16)
                    in predict_loop base delta steps
                         (if c \<noteq> base \<and> c \<notin> set ports then ports @ [c] else ports)))"

definition predicted_ports :: "nat_prediction_hint \<Rightarrow> endpoint \<Rightarrow> nat \<Rightarrow> u16 list" where
  "predicted_ports h base limit =
     (if \<not> is_usable_with h base then []
      else predict_loop (ep_port base) (port_delta h)
             [1 ..< Suc (min limit MAX_NAT_PREDICTION_PORTS)] [])"

record nat_profile =
  prof_version :: u8
  observation :: nat_mapping_observation
  observed_at :: timestamp
  valid_until :: timestamp
  prediction_hint :: "nat_prediction_hint option"

definition profile_unknown :: nat_profile where
  "profile_unknown = \<lparr>prof_version = NAT_PROFILE_VERSION, observation = Unknown,
     observed_at = 0, valid_until = 0, prediction_hint = None\<rparr>"

definition profile_from_observations :: "endpoint list \<Rightarrow> timestamp \<Rightarrow> duration \<Rightarrow> nat_profile" where
  "profile_from_observations obs at ttl =
     (if length obs < 2 \<or> length obs > 65535 \<or> ttl = 0 then profile_unknown
      else let until = sat_add at (duration_to_bucky_time ttl) in
        if \<forall>ep \<in> set obs. addr ep = addr (obs ! 0)
        then \<lparr>prof_version = NAT_PROFILE_VERSION, observation = NonSymmetricLike,
              observed_at = at, valid_until = until, prediction_hint = None\<rparr>
        else \<lparr>prof_version = NAT_PROFILE_VERSION, observation = SymmetricLike,
              observed_at = at, valid_until = until,
              prediction_hint = hint_from_observations obs\<rparr>)"

definition profile_is_supported :: "nat_profile \<Rightarrow> bool" where
  "profile_is_supported p = (prof_version p = NAT_PROFILE_VERSION)"

definition profile_is_fresh :: "nat_profile \<Rightarrow> timestamp \<Rightarrow> bool" where
  "profile_is_fresh p now =
     (profile_is_supported p \<and> observation p \<noteq> Unknown \<and> valid_until p \<ge> observed_at p \<and>
      now \<ge> observed_at p \<and> now \<le> valid_until p)"

definition mapping_at :: "nat_profile \<Rightarrow> timestamp \<Rightarrow> nat_mapping_observation" where
  "mapping_at p now = (if profile_is_fresh p now then observation p else Unknown)"

definition usable_prediction_hint :: "nat_profile \<Rightarrow> timestamp \<Rightarrow> nat_prediction_hint option" where
  "usable_prediction_hint p now =
     (if mapping_at p now \<noteq> SymmetricLike then None
      else case prediction_hint p of
             None \<Rightarrow> None
           | Some h \<Rightarrow> if is_usable_with h (last_observed h) then Some h else None)"

record nat_traversal_context =
  ctx_version :: u8
  caller_peer_id :: p2p_id
  callee_peer_id :: p2p_id
  caller_profile :: nat_profile
  callee_profile :: nat_profile

definition context_new ::
    "p2p_id \<Rightarrow> p2p_id \<Rightarrow> nat_profile \<Rightarrow> nat_profile \<Rightarrow> nat_traversal_context" where
  "context_new caller callee cp qp = \<lparr>ctx_version = NAT_TRAVERSAL_CONTEXT_VERSION,
     caller_peer_id = caller, callee_peer_id = callee, caller_profile = cp, callee_profile = qp\<rparr>"

definition context_is_supported :: "nat_traversal_context \<Rightarrow> bool" where
  "context_is_supported c = (ctx_version c = NAT_TRAVERSAL_CONTEXT_VERSION)"

definition context_is_valid_for ::
    "nat_traversal_context \<Rightarrow> p2p_id \<Rightarrow> p2p_id \<Rightarrow> timestamp \<Rightarrow> bool" where
  "context_is_valid_for c caller callee now =
     (context_is_supported c \<and> caller_peer_id c = caller \<and> callee_peer_id c = callee \<and>
      caller_peer_id c \<noteq> callee_peer_id c \<and> profile_is_fresh (caller_profile c) now \<and>
      profile_is_fresh (callee_profile c) now)"

text \<open>Example observations: one socket seen at ports 3000, 3002, 3004 of one address.\<close>

definition obs_at :: "u16 \<Rightarrow> endpoint" where
  "obs_at p = \<lparr>area = ServerReflexive, protocol = Quic, addr = V4 (Ipv4 203 0 113 7) p\<rparr>"

section \<open>Prediction hints\<close>

lemma windows2_simps [simp]:
  "windows2 [] = []" "windows2 [x] = []" "windows2 (x # y # ys) = (x, y) # windows2 (y # ys)"
  by (simp_all add: windows2_def)

lemma constant_step_telescope:
  assumes "\<forall>(a, b) \<in> set (windows2 xs). f b - f a = (d::int)" and "xs \<noteq> []"
  shows "f (last xs) - f (hd xs) = d * (int (length xs) - 1)"
  using assms
proof (induction xs)
  case (Cons x xs)
  show ?case
  proof (cases xs)
    case Nil then show ?thesis by simp
  next
    case (Cons y ys)
    with Cons.IH Cons.prems have "f (last xs) - f y = d * (int (length xs) - 1)" "f y - f x = d"
      by auto
    with Cons show ?thesis by (simp add: algebra_simps)
  qed
qed simp

lemma uint_port_bounds: "0 \<le> uint (p :: u16)" "uint (p :: u16) \<le> 65535"
  using uint_lt2p [of p] by simp_all

lemma parity_of_ports:
  "(p mod 2 = q mod 2) \<longleftrightarrow> \<bar>uint q - uint p\<bar> mod 2 = 0" for p q :: u16
proof -
  have "(p mod 2 = q mod 2) \<longleftrightarrow> uint p mod 2 = uint q mod 2"
    by (simp add: word_uint_eq_iff uint_mod)
  also have "\<dots> \<longleftrightarrow> \<bar>uint q - uint p\<bar> mod 2 = 0" by presburger
  finally show ?thesis .
qed


lemma hint_from_observations_Some:
  assumes "hint_from_observations obs = Some h"
  shows "2 \<le> length obs" and "\<forall>ep \<in> set obs. is_ipv4 (addr ep)"
    and "\<forall>ep \<in> set obs. ep_ip ep = ep_ip (obs ! 0)" and "port_delta h \<noteq> 0"
    and "port_delta h = port_int (obs ! 1) - port_int (obs ! 0)"
    and "\<forall>(a, b) \<in> set (windows2 obs). port_int b - port_int a = port_delta h"
    and "first_observed h = obs ! 0" and "last_observed h = last obs"
    and "sample_count h = of_nat (min (length obs) 65535)"
    and "parity h = (if \<bar>port_delta h\<bar> mod 2 = 0 then Same else Alternating)"
  using assms by (auto simp: hint_from_observations_def parity_of_ports Let_def split: if_splits)

text \<open>a hint derived from at most 65535 observations is usable with every base endpoint on the
  observed IPv4 address: the recorded sample count, total delta and parity agree.\<close>

theorem derived_hint_usable:
  assumes h: "hint_from_observations obs = Some h" and len: "length obs \<le> 65535"
    and base: "ep_ip base = ep_ip (obs ! 0)" "is_ipv4 (addr base)"
  shows "is_usable_with h base"
proof -
  note f = hint_from_observations_Some [OF h]
  have ne: "obs \<noteq> []" using f(1) by auto
  then have hd: "hd obs = obs ! 0" by (rule hd_conv_nth)
  have inset: "obs ! 0 \<in> set obs" "last obs \<in> set obs" using ne by (auto intro: nth_mem)
  have cnt: "unat (sample_count h) = length obs"
    using f(9) len by (simp add: unat_of_nat take_bit_nat_def)
  then have c2: "\<not> sample_count h < 2" using f(1) by (simp add: word_less_nat_alt)
  have "unat (sample_count h - 1) = length obs - 1"
    using c2 cnt by (simp add: unat_sub word_le_nat_alt word_less_nat_alt)
  then have c1: "uint (sample_count h - 1) = int (length obs) - 1"
    using f(1) by (simp only: uint_nat of_nat_diff)
  have tel: "port_int (last obs) - port_int (obs ! 0) = port_delta h * (int (length obs) - 1)"
    using constant_step_telescope [of obs port_int "port_delta h"] f(6) ne hd by simp
  have "in_signed 32 (port_delta h * (int (length obs) - 1))"
    unfolding tel [symmetric] in_signed_def
    using uint_port_bounds [of "ep_port (last obs)"] uint_port_bounds [of "ep_port (obs ! 0)"]
    by (simp; linarith)
  moreover have "is_ipv4 (addr (obs ! 0))" "is_ipv4 (addr (last obs))" "ep_ip (last obs) = ep_ip (obs ! 0)"
    using f(2,3) inset by blast+
  ultimately show ?thesis
    using c2 f(4) f(10) base
    by (simp add: is_usable_with_def checked_mul_signed_def c1 f(7,8) tel)
qed

theorem derived_hint_usable_witness:
  "\<exists>h. hint_from_observations [obs_at 3000, obs_at 3002, obs_at 3004] = Some h \<and>
       is_usable_with h (obs_at 65533)"
proof -
  have "\<exists>h. hint_from_observations [obs_at 3000, obs_at 3002, obs_at 3004] = Some h"
    by (simp add: hint_from_observations_def obs_at_def)
  then show ?thesis
    using derived_hint_usable [of "[obs_at 3000, obs_at 3002, obs_at 3004]" _ "obs_at 65533"]
    by (auto simp: obs_at_def)
qed

section \<open>Predicted ports\<close>

lemma in_signed_64_small:
  assumes "in_signed 32 d" and "k \<le> 8"
  shows "in_signed 64 (d * int k)" and "in_signed 64 (uint (b :: u16) + d * int k)"
proof -
  have "\<bar>d\<bar> \<le> 2 ^ 31" using assms(1) by (auto simp: in_signed_def)
  then have "\<bar>d * int k\<bar> \<le> 2 ^ 31 * 8"
    unfolding abs_mult using assms(2) by (intro mult_mono) auto
  then have "- 0x400000000 \<le> d * int k" "d * int k \<le> 0x400000000" by (auto simp: abs_le_iff)
  then have "- 0x400000000 \<le> d * int k" "d * int k \<le> 0x400000000"
    "- 0x400000000 \<le> uint b + d * int k" "uint b + d * int k \<le> 0x400010000"
    using uint_port_bounds [of b] by linarith+
  then show "in_signed 64 (d * int k)" "in_signed 64 (uint b + d * int k)"
    by (simp_all add: in_signed_def)
qed

lemma word_of_int_port_inj:
  assumes "0 \<le> x" "x \<le> 65535" "0 \<le> y" "y \<le> 65535" "(word_of_int x :: u16) = word_of_int y"
  shows "x = y"
proof -
  have "uint (word_of_int z :: u16) = z" if "0 \<le> z" "z \<le> 65535" for z
    using that by (simp add: uint_word_of_int)
  from this [OF assms(1,2)] this [OF assms(3,4)] assms(5) show ?thesis by metis
qed

lemma takeWhile_upt_append:
  assumes "\<forall>i \<in> {a..<k}. P i" and "a \<le> k" and "k < n" and "\<not> P k"
  shows "takeWhile P [a..<n] = [a..<k]"
proof -
  have "[a..<n] = [a..<k] @ k # [Suc k..<n]"
    using assms(2,3) upt_add_eq_append [of a k "n - k"] by (simp add: upt_conv_Cons)
  then show ?thesis using assms(1,4) by (simp add: takeWhile_tail)
qed

lemma predict_loop_progression:
  fixes base :: u16 and d :: int
  defines "v \<equiv> \<lambda>i::nat. uint base + d * int i"
  defines "P \<equiv> \<lambda>i. 1 \<le> v i \<and> v i \<le> 65535"
  assumes d: "d \<noteq> 0" "in_signed 32 d" and n: "n \<le> 9" and k: "1 \<le> k" "k \<le> n"
    and pre: "\<forall>i \<in> {1..<k}. P i"
  shows "predict_loop base d [k..<n] (map (word_of_int \<circ> v) [1..<k]) =
         map (word_of_int \<circ> v) (takeWhile P [1..<n])"
  using k pre
proof (induction "n - k" arbitrary: k)
  case 0
  then have kn: "k = n" by simp
  have tw: "takeWhile P [1..<n] = [1..<n]" using 0 kn by (auto simp: takeWhile_eq_all_conv)
  show ?case unfolding kn tw by simp
next
  case (Suc m)
  then have kn: "k < n" "k \<le> 8" using n by auto
  have cm: "checked_mul_signed 64 d (int k) = Some (d * int k)"
    and ca: "checked_add_signed 64 (uint base) (d * int k) = Some (v k)"
    using in_signed_64_small [OF d(2) kn(2)]
    by (simp_all add: checked_mul_signed_def checked_add_signed_def v_def)
  show ?case
  proof (cases "P k")
    case False
    then have "takeWhile P [1..<n] = [1..<k]"
      using Suc.prems kn by (intro takeWhile_upt_append) auto
    with False show ?thesis
      using kn by (simp add: upt_conv_Cons cm ca P_def)
  next
    case True
    have rng: "0 \<le> v i \<and> v i \<le> 65535" if "i \<in> {1..k}" for i
      using that True Suc.prems(3) by (cases "i = k") (force simp: P_def)+
    have "(word_of_int (v k) :: u16) \<noteq> base"
    proof
      assume "(word_of_int (v k) :: u16) = base"
      then have "(word_of_int (v k) :: u16) = word_of_int (uint base)" by simp
      then have "v k = uint base"
        using rng [of k] Suc.prems(1) uint_port_bounds [of base] word_of_int_port_inj by simp
      then show False using d(1) Suc.prems(1) by (simp add: v_def)
    qed
    moreover have "(word_of_int (v k) :: u16) \<notin> set (map (word_of_int \<circ> v) [1..<k])"
    proof
      assume "(word_of_int (v k) :: u16) \<in> set (map (word_of_int \<circ> v) [1..<k])"
      then obtain i where i: "i \<in> {1..<k}" "(word_of_int (v k) :: u16) = word_of_int (v i)"
        by auto
      then have "v k = v i" using rng [of k] rng [of i] word_of_int_port_inj by simp
      then show False using d(1) i(1) by (simp add: v_def)
    qed
    ultimately have "predict_loop base d [k..<n] (map (word_of_int \<circ> v) [1..<k]) =
        predict_loop base d [Suc k..<n] (map (word_of_int \<circ> v) [1..<Suc k])"
      using kn True Suc.prems(1) by (simp add: upt_conv_Cons [of k n] cm ca P_def)
    also have "\<dots> = map (word_of_int \<circ> v) (takeWhile P [1..<n])"
      using Suc True kn by (intro Suc.hyps(1)) (auto simp: less_Suc_eq)
    finally show ?thesis .
  qed
qed

text \<open>the predicted ports of a usable hint are exactly the arithmetic progression from the base
  port with the observed delta, stopped at the first value outside 1..65535 and after at most eight
  steps: no port is repeated and the base port never occurs.\<close>

theorem predicted_ports_progression:
  assumes "is_usable_with h base" and "in_signed 32 (port_delta h)"
  shows "predicted_ports h base limit =
           map (\<lambda>i. word_of_int (port_int base + port_delta h * int i))
             (takeWhile (\<lambda>i. 1 \<le> port_int base + port_delta h * int i \<and>
                             port_int base + port_delta h * int i \<le> 65535)
               [1 ..< Suc (min limit 8)]) \<and>
         length (predicted_ports h base limit) \<le> min limit 8 \<and>
         distinct (predicted_ports h base limit) \<and>
         ep_port base \<notin> set (predicted_ports h base limit)"
proof -
  let ?v = "\<lambda>i. port_int base + port_delta h * int i"
  let ?P = "\<lambda>i. 1 \<le> ?v i \<and> ?v i \<le> 65535"
  let ?ks = "takeWhile ?P [1 ..< Suc (min limit 8)]"
  have nz: "port_delta h \<noteq> 0" using assms(1) by (auto simp: is_usable_with_def split: if_splits)
  have eq: "predicted_ports h base limit = map (word_of_int \<circ> ?v) ?ks"
    using predict_loop_progression [OF nz assms(2), of "Suc (min limit 8)" 1 "ep_port base"] assms(1)
    by (simp add: predicted_ports_def MAX_NAT_PREDICTION_PORTS_def)
  have rng: "?P i \<and> 1 \<le> i" if "i \<in> set ?ks" for i
    using set_takeWhileD [OF that] by auto
  have "inj_on (\<lambda>i. word_of_int (?v i) :: u16) (set ?ks)"
  proof (rule inj_onI)
    fix i j assume "i \<in> set ?ks" "j \<in> set ?ks" "(word_of_int (?v i) :: u16) = word_of_int (?v j)"
    then have "?v i = ?v j" using rng [of i] rng [of j] by (intro word_of_int_port_inj) auto
    then show "i = j" using nz by simp
  qed
  then have dist: "distinct (predicted_ports h base limit)"
    unfolding eq by (simp add: distinct_map o_def)
  have "(word_of_int (?v i) :: u16) \<noteq> ep_port base" if "i \<in> set ?ks" for i
  proof
    assume "(word_of_int (?v i) :: u16) = ep_port base"
    then have "(word_of_int (?v i) :: u16) = word_of_int (port_int base)" by simp
    then have "?v i = port_int base"
      using rng [OF that] uint_port_bounds [of "ep_port base"] by (intro word_of_int_port_inj) auto
    then show False using nz rng [OF that] by simp
  qed
  moreover have "length ?ks \<le> min limit 8"
    by (rule order_trans [OF length_takeWhile_le]) (simp del: upt_Suc)
  ultimately show ?thesis using eq dist by (auto simp: o_def)
qed

theorem predicted_ports_progression_witness:
  "\<exists>h. hint_from_observations [obs_at 3000, obs_at 3002, obs_at 3004] = Some h \<and>
       predicted_ports h (obs_at 65530) 4 = [65532, 65534]"
proof -
  obtain h where h: "hint_from_observations [obs_at 3000, obs_at 3002, obs_at 3004] = Some h"
    and d: "port_delta h = 2" and "is_usable_with h (obs_at 65530)"
    by (simp add: hint_from_observations_def obs_at_def is_usable_with_def checked_mul_signed_def
        in_signed_def)
  from this predicted_ports_progression [of h "obs_at 65530" 4]
  have "predicted_ports h (obs_at 65530) 4 =
      map (\<lambda>i. word_of_int (65530 + 2 * int i))
        (takeWhile (\<lambda>i. 1 \<le> 65530 + 2 * int i \<and> 65530 + 2 * int i \<le> 65535) [1 ..< 5])"
    by (simp add: in_signed_def obs_at_def)
  also have "\<dots> = [65532, 65534]" by (simp add: upt_conv_Cons)
  finally show ?thesis using h by blast
qed

section \<open>Profiles\<close>

text \<open>a profile built from observations is used for exactly its lifetime: outside
  \<open>observed_at .. observed_at + ttl\<close> (saturating) its mapping is \<open>Unknown\<close>, inside it is
  \<open>NonSymmetricLike\<close> iff all observed addresses agree, \<open>SymmetricLike\<close> otherwise; too few or
  too many observations or a zero ttl always give \<open>Unknown\<close>.\<close>

theorem profile_mapping_lifetime:
  "mapping_at (profile_from_observations obs at ttl) now =
     (if 2 \<le> length obs \<and> length obs \<le> 65535 \<and> 0 < ttl \<and> at \<le> now \<and>
         unat now \<le> min (unat at + min (as_micros ttl) (2 ^ 64 - 1)) (2 ^ 64 - 1)
      then if \<forall>e e'. e \<in> set obs \<and> e' \<in> set obs \<longrightarrow> addr e = addr e' then NonSymmetricLike
           else SymmetricLike
      else Unknown)"
proof -
  have le: "now \<le> sat_add at (duration_to_bucky_time ttl) \<longleftrightarrow>
        unat now \<le> min (unat at + min (as_micros ttl) (2 ^ 64 - 1)) (2 ^ 64 - 1)"
    by (simp add: word_le_nat_alt time_simps)
  have all: "(\<forall>e e'. e \<in> set obs \<and> e' \<in> set obs \<longrightarrow> addr e = addr e') \<longleftrightarrow>
        (\<forall>ep \<in> set obs. addr ep = addr (obs ! 0))" if "2 \<le> length obs"
    using that by (metis length_greater_0_conv nth_mem zero_less_numeral order_less_le_trans)
  show ?thesis
    unfolding profile_from_observations_def Let_def le [symmetric]
    using all
    by (simp add: mapping_at_def profile_is_fresh_def profile_is_supported_def sat_add_ge
        profile_unknown_def not_less)
qed

theorem profile_mapping_lifetime_witness:
  "mapping_at (profile_from_observations [obs_at 1, obs_at 1] 5 (from_secs 1)) 6 = NonSymmetricLike \<and>
   mapping_at (profile_from_observations [obs_at 1, obs_at 1] 5 (from_secs 1)) 1000006 = Unknown"
  by (simp add: profile_mapping_lifetime from_secs_def as_micros_def word_le_nat_alt)

text \<open>A usable hint is only ever reported by a fresh symmetric profile.\<close>

lemma usable_prediction_hint_Some:
  assumes "usable_prediction_hint p now = Some h"
  shows "mapping_at p now = SymmetricLike \<and> profile_is_fresh p now \<and> prediction_hint p = Some h \<and>
         is_usable_with h (last_observed h)"
  using assms
  by (auto simp: usable_prediction_hint_def mapping_at_def split: if_splits option.splits)

end
