(* ===== verification/SnRendezvous.thy ===== *)
theory SnRendezvous
  imports Endpoints
begin

text \<open>
  The tunnel rendezvous messages of \<open>p2p-frame/src/sn/protocol/sn.rs\<close> with their validation,
  and the optional-extension envelope of the same file.

  Duplicate endpoints are rejected with a \<open>HashSet<Endpoint>\<close>. \<open>Endpoint\<close> derives
  \<open>Hash\<close> over all its fields but its \<open>==\<close> ignores the area, so whether a lookup compares two
  equal endpoints depends on their hashes: that is the argument \<open>hit\<close>. All the library promises
  is that an element finds itself, \<open>hit e e\<close>.

  The envelope is generic over the payload and is written with the primitive codecs of
  \<open>bucky_raw_codec\<close>, which is not part of the repository; those codecs are arguments, and what is
  used of them is the locale \<open>raw_codec\<close>, interpreted on the endpoint codec.
\<close>

unbundle bit_operations_syntax

section \<open>Definitions\<close>

subsection \<open>Rendezvous messages\<close>

definition SN_TUNNEL_RENDEZVOUS_RESULT_OK :: u8 where
  "SN_TUNNEL_RENDEZVOUS_RESULT_OK = 0"
definition SN_TUNNEL_RENDEZVOUS_RESULT_FAILED :: u8 where
  "SN_TUNNEL_RENDEZVOUS_RESULT_FAILED = 1"
definition MAX_SN_TUNNEL_RENDEZVOUS_ENDPOINTS :: nat where
  "MAX_SN_TUNNEL_RENDEZVOUS_ENDPOINTS = 8"

datatype rendezvous_operation =
  PunchOnly | PunchAndReverseConnect | ReverseConnectOnly | WaitIncoming

definition requires_endpoints :: "rendezvous_operation \<Rightarrow> bool" where
  "requires_endpoints op = (op \<noteq> WaitIncoming)"

definition punches :: "rendezvous_operation \<Rightarrow> bool" where
  "punches op = (op = PunchOnly \<or> op = PunchAndReverseConnect)"

definition reverse_connects :: "rendezvous_operation \<Rightarrow> bool" where
  "reverse_connects op = (op = PunchAndReverseConnect \<or> op = ReverseConnectOnly)"

record sn_tunnel_rendezvous =
  seq :: sequence
  tunnel_id :: tunnel_id
  to_peer_id :: p2p_id
  operation :: rendezvous_operation
  end_point_array :: "endpoint list"
  need_predict_endpoint :: bool

record sn_tunnel_rendezvous_resp =
  resp_seq :: sequence
  resp_result :: u8
  predicted_endpoint_array :: "endpoint list"

text \<open>The derived \<open>PartialEq\<close> of the request compares its endpoints with theirs.\<close>

definition rendezvous_eq :: "sn_tunnel_rendezvous \<Rightarrow> sn_tunnel_rendezvous \<Rightarrow> bool" where
  "rendezvous_eq a b =
     (seq a = seq b \<and> tunnel_id a = tunnel_id b \<and> to_peer_id a = to_peer_id b \<and>
      operation a = operation b \<and> list_all2 endpoint_eq (end_point_array a) (end_point_array b) \<and>
      need_predict_endpoint a = need_predict_endpoint b)"

text \<open>\<open>HashSet::insert\<close>: \<open>None\<close> when an equal element was found.\<close>

definition hash_set_insert ::
    "(endpoint \<Rightarrow> endpoint \<Rightarrow> bool) \<Rightarrow> endpoint list \<Rightarrow> endpoint \<Rightarrow> endpoint list option" where
  "hash_set_insert hit u e = (if \<exists>x \<in> set u. hit x e \<and> endpoint_eq x e then None else Some (e # u))"

fun check_endpoints ::
    "bool \<Rightarrow> (endpoint \<Rightarrow> endpoint \<Rightarrow> bool) \<Rightarrow> rendezvous_operation \<Rightarrow> protocol option \<Rightarrow>
     endpoint list \<Rightarrow> endpoint list \<Rightarrow> unit p2p_result" where
  "check_endpoints matrix hit op transport unique [] = Inr ()"
| "check_endpoints matrix hit op transport unique (e # es) =
     (let eligible_area = (if reverse_connects op
                           then rendezvous_reverse_connect_eligible_area matrix e
                           else rendezvous_eligible_area matrix e)
      in if Some (protocol e) \<noteq> transport \<or> \<not> (protocol e = Quic \<or> protocol e = Tcp) \<or>
            \<not> eligible_area \<or> sa_port (addr e) = 0
         then Inl InvalidParam
         else case hash_set_insert hit unique e of
                None \<Rightarrow> Inl InvalidParam
              | Some unique' \<Rightarrow> check_endpoints matrix hit op transport unique' es)"

definition validate_rendezvous_endpoints ::
    "bool \<Rightarrow> (endpoint \<Rightarrow> endpoint \<Rightarrow> bool) \<Rightarrow> endpoint list \<Rightarrow> rendezvous_operation \<Rightarrow>
     unit p2p_result" where
  "validate_rendezvous_endpoints matrix hit eps op =
     (if length eps > MAX_SN_TUNNEL_RENDEZVOUS_ENDPOINTS then Inl OutOfLimit
      else if requires_endpoints op \<noteq> (eps \<noteq> []) then Inl InvalidParam
      else let transport = (case eps of [] \<Rightarrow> None | e # _ \<Rightarrow> Some (protocol e))
           in if punches op \<and> transport \<noteq> Some Quic then Inl InvalidParam
              else check_endpoints matrix hit op transport [] eps)"

definition validate_request ::
    "bool \<Rightarrow> (endpoint \<Rightarrow> endpoint \<Rightarrow> bool) \<Rightarrow> sn_tunnel_rendezvous \<Rightarrow> unit p2p_result" where
  "validate_request matrix hit r =
     (if seq_value (seq r) = 0 then Inl InvalidParam
      else validate_rendezvous_endpoints matrix hit (end_point_array r) (operation r))"

definition resp_success :: "sequence \<Rightarrow> endpoint list \<Rightarrow> sn_tunnel_rendezvous_resp" where
  "resp_success s eps = \<lparr>resp_seq = s, resp_result = SN_TUNNEL_RENDEZVOUS_RESULT_OK,
     predicted_endpoint_array = eps\<rparr>"

definition resp_failure :: "sequence \<Rightarrow> sn_tunnel_rendezvous_resp" where
  "resp_failure s = \<lparr>resp_seq = s, resp_result = SN_TUNNEL_RENDEZVOUS_RESULT_FAILED,
     predicted_endpoint_array = []\<rparr>"

definition is_success :: "sn_tunnel_rendezvous_resp \<Rightarrow> bool" where
  "is_success r = (resp_result r = SN_TUNNEL_RENDEZVOUS_RESULT_OK)"

definition validate_resp ::
    "bool \<Rightarrow> (endpoint \<Rightarrow> endpoint \<Rightarrow> bool) \<Rightarrow> sn_tunnel_rendezvous_resp \<Rightarrow> sequence \<Rightarrow> bool \<Rightarrow>
     unit p2p_result" where
  "validate_resp matrix hit r expected_seq need_predict =
     (if resp_seq r \<noteq> expected_seq then Inl Unmatch
      else if \<not> (resp_result r = SN_TUNNEL_RENDEZVOUS_RESULT_OK \<or>
                 resp_result r = SN_TUNNEL_RENDEZVOUS_RESULT_FAILED) then Inl InvalidData
      else if \<not> is_success r then
        (if predicted_endpoint_array r \<noteq> [] then Inl InvalidData else Inr ())
      else if need_predict \<noteq> (predicted_endpoint_array r \<noteq> []) then Inl InvalidData
      else if need_predict then
        validate_rendezvous_endpoints matrix hit (predicted_endpoint_array r) PunchOnly
      else Inr ())"

text \<open>\<open>strict_rendezvous_decode\<close>: a decoder that accepts no trailing bytes.\<close>

definition strict_decode ::
    "(u8 list \<Rightarrow> codec_error + ('a \<times> u8 list)) \<Rightarrow> u8 list \<Rightarrow> codec_error + 'a" where
  "strict_decode dec buf =
     (case dec buf of
        Inl err \<Rightarrow> Inl err
      | Inr (v, rest) \<Rightarrow> if rest \<noteq> [] then Inl CodecInvalidData else Inr v)"

subsection \<open>Optional extensions\<close>

definition SN_EXTENSION_VERSION :: u8 where "SN_EXTENSION_VERSION = 1"
definition SN_EXTENSION_HEADER_LEN :: nat where "SN_EXTENSION_HEADER_LEN = 4 + 1 + 4"

text \<open>
  The primitive codecs: \<open>enc32\<close>/\<open>dec32\<close> for \<open>u32\<close>, \<open>enc8\<close>/\<open>dec8\<close> for \<open>u8\<close>,
  \<open>enc\<close>/\<open>dec\<close> for the payload. Encoders give the bytes they write into the buffer.
\<close>

definition extension_measure :: "('a \<Rightarrow> u8 list) \<Rightarrow> 'a option \<Rightarrow> nat" where
  "extension_measure enc v =
     (case v of Some x \<Rightarrow> SN_EXTENSION_HEADER_LEN + length (enc x) | None \<Rightarrow> 0)"

definition extension_encode ::
    "(u32 \<Rightarrow> u8 list) \<Rightarrow> (u8 \<Rightarrow> u8 list) \<Rightarrow> ('a \<Rightarrow> u8 list) \<Rightarrow> 'a option \<Rightarrow> u32 \<Rightarrow>
     codec_error + u8 list" where
  "extension_encode enc32 enc8 enc v magic =
     (case v of
        None \<Rightarrow> Inr []
      | Some x \<Rightarrow>
          let payload_len = length (enc x)
          in if payload_len > 2 ^ 32 - 1 then Inl CodecOutOfLimit
             else Inr (enc32 magic @ enc8 SN_EXTENSION_VERSION @ enc32 (of_nat payload_len) @ enc x))"

definition extension_decode ::
    "(u8 list \<Rightarrow> codec_error + (u32 \<times> u8 list)) \<Rightarrow> (u8 list \<Rightarrow> codec_error + (u8 \<times> u8 list)) \<Rightarrow>
     (u8 list \<Rightarrow> codec_error + ('a \<times> u8 list)) \<Rightarrow> u8 list \<Rightarrow> u32 \<Rightarrow> 'a option \<times> u8 list" where
  "extension_decode dec32 dec8 dec buf magic =
     (if length buf < 4 then (None, buf)
      else case dec32 buf of
        Inl _ \<Rightarrow> (None, buf)
      | Inr (tail_magic, after_magic) \<Rightarrow>
          if tail_magic \<noteq> magic then (None, buf)
          else case dec8 after_magic of
            Inl _ \<Rightarrow> (None, [])
          | Inr (version, after_version) \<Rightarrow>
              (case dec32 after_version of
                 Inl _ \<Rightarrow> (None, [])
               | Inr (payload_len, after_header) \<Rightarrow>
                   if length after_header < unat payload_len then (None, [])
                   else let payload = take (unat payload_len) after_header;
                            remainder = drop (unat payload_len) after_header
                        in if version \<noteq> SN_EXTENSION_VERSION then (None, remainder)
                           else case dec payload of
                                  Inr (v, payload_remainder) \<Rightarrow>
                                    if payload_remainder = [] then (Some v, remainder)
                                    else (None, remainder)
                                | Inl _ \<Rightarrow> (None, remainder)))"

text \<open>The endpoint codec in the shape of a payload codec.\<close>

definition endpoint_to_vec :: "endpoint \<Rightarrow> u8 list" where
  "endpoint_to_vec e =
     (case raw_encode e (replicate (raw_measure e) 0) of Inr (out, _) \<Rightarrow> out | Inl _ \<Rightarrow> [])"

definition wire_valid :: "endpoint \<Rightarrow> bool" where
  "wire_valid e = (valid_protocol (protocol e) \<and> wire_endpoint e = e)"

text \<open>What each accepted endpoint satisfies.\<close>

definition endpoint_ok :: "bool \<Rightarrow> rendezvous_operation \<Rightarrow> protocol option \<Rightarrow> endpoint \<Rightarrow> bool" where
  "endpoint_ok matrix op transport e =
     (Some (protocol e) = transport \<and> (protocol e = Quic \<or> protocol e = Tcp) \<and>
      (if reverse_connects op then rendezvous_reverse_connect_eligible_area matrix e
       else rendezvous_eligible_area matrix e) \<and> sa_port (addr e) \<noteq> 0)"

text \<open>Example values: a request, and primitive codecs in big-endian order.\<close>

definition sample_request :: sn_tunnel_rendezvous where
  "sample_request = \<lparr>seq = Sequence 7, tunnel_id = TunnelId 3, to_peer_id = P2pId [1],
     operation = PunchOnly,
     end_point_array = [\<lparr>area = ServerReflexive, protocol = Quic, addr = V4 (Ipv4 203 0 113 7) 3456\<rparr>],
     need_predict_endpoint = False\<rparr>"

fun be_enc32 :: "u32 \<Rightarrow> u8 list" where
  "be_enc32 x = be_bytes (ucast (drop_bit 16 x)) @ be_bytes (ucast x)"

fun be_dec32 :: "u8 list \<Rightarrow> codec_error + (u32 \<times> u8 list)" where
  "be_dec32 (a # b # c # d # rest) =
     Inr (push_bit 16 (ucast (join_bytes a b)) OR ucast (join_bytes c d), rest)"
| "be_dec32 _ = Inl CodecOutOfLimit"

fun be_dec8 :: "u8 list \<Rightarrow> codec_error + (u8 \<times> u8 list)" where
  "be_dec8 (a # rest) = Inr (a, rest)"
| "be_dec8 [] = Inl CodecOutOfLimit"

section \<open>Validation\<close>

lemma check_endpoints_Cons:
  "check_endpoints matrix hit op transport unique (e # es) = Inr () \<longleftrightarrow>
     endpoint_ok matrix op transport e \<and> (\<forall>x \<in> set unique. hit x e \<longrightarrow> \<not> endpoint_eq x e) \<and>
     check_endpoints matrix hit op transport (e # unique) es = Inr ()"
  by (simp add: Let_def hash_set_insert_def endpoint_ok_def) blast

lemma check_endpoints_iff:
  "check_endpoints matrix hit op transport unique es = Inr () \<longleftrightarrow>
     (\<forall>e \<in> set es. endpoint_ok matrix op transport e) \<and>
     (\<forall>e \<in> set es. \<forall>x \<in> set unique. hit x e \<longrightarrow> \<not> endpoint_eq x e) \<and>
     sorted_wrt (\<lambda>x e. hit x e \<longrightarrow> \<not> endpoint_eq x e) es"
proof (induction es arbitrary: unique)
  case (Cons e es)
  show ?case unfolding check_endpoints_Cons Cons.IH by (simp only: list.set sorted_wrt.simps) blast
qed simp

lemma validate_endpoints_ok:
  assumes "validate_rendezvous_endpoints matrix hit eps op = Inr ()"
  shows "length eps \<le> 8" and "requires_endpoints op \<longleftrightarrow> eps \<noteq> []"
    and "punches op \<Longrightarrow> e \<in> set eps \<Longrightarrow> protocol e = Quic"
    and "check_endpoints matrix hit op (case eps of [] \<Rightarrow> None | e # _ \<Rightarrow> Some (protocol e)) [] eps
         = Inr ()"
proof -
  let ?t = "case eps of [] \<Rightarrow> None | e # _ \<Rightarrow> Some (protocol e)"
  have a: "length eps \<le> 8" "requires_endpoints op \<longleftrightarrow> eps \<noteq> []"
    "punches op \<longrightarrow> ?t = Some Quic" "check_endpoints matrix hit op ?t [] eps = Inr ()"
    using assms by (auto simp: validate_rendezvous_endpoints_def Let_def
        MAX_SN_TUNNEL_RENDEZVOUS_ENDPOINTS_def split: if_splits)
  then show "length eps \<le> 8" "requires_endpoints op \<longleftrightarrow> eps \<noteq> []"
    "check_endpoints matrix hit op ?t [] eps = Inr ()" by auto
  show "protocol e = Quic" if "punches op" "e \<in> set eps"
    using a(3,4) that by (simp add: check_endpoints_iff endpoint_ok_def)
qed

text \<open>an accepted punch-only rendezvous request of the default build carries between one and
  eight endpoints, all QUIC, server-reflexive, on a non-LAN IPv4 address and with a non-zero port,
  and no two of them are equal, whatever the hashes are.\<close>

theorem validated_punch_endpoints:
  assumes ok: "validate_request False hit r = Inr ()" and op: "operation r = PunchOnly"
    and hit: "\<And>e. hit e e"
  shows "seq_value (seq r) \<noteq> 0 \<and> 1 \<le> length (end_point_array r) \<and> length (end_point_array r) \<le> 8 \<and>
         (\<forall>e \<in> set (end_point_array r). protocol e = Quic \<and> area e = ServerReflexive \<and>
             is_non_lan_ipv4_addr (addr e) \<and> sa_port (addr e) \<noteq> 0) \<and>
         sorted_wrt (\<lambda>x y. \<not> endpoint_eq x y) (end_point_array r)"
proof -
  let ?eps = "end_point_array r"
  have v: "validate_rendezvous_endpoints False hit ?eps PunchOnly = Inr ()"
    and s: "seq_value (seq r) \<noteq> 0"
    using ok op by (auto simp: validate_request_def split: if_splits)
  note f = validate_endpoints_ok [OF v]
    and c = validate_endpoints_ok(4) [OF v, unfolded check_endpoints_iff]
  have el: "rendezvous_eligible_area False e \<and> protocol e = Quic \<and> sa_port (addr e) \<noteq> 0"
    if "e \<in> set ?eps" for e
    using c f(3) that by (auto simp: reverse_connects_def punches_def endpoint_ok_def)
  have area: "area e = ServerReflexive \<and> is_non_lan_ipv4_addr (addr e)" if "e \<in> set ?eps" for e
    using el [OF that] by (simp add: rendezvous_eligible_area_def rendezvous_ipv4_eligible_def)
  have "sorted_wrt (\<lambda>x y. \<not> endpoint_eq x y) ?eps"
  proof (rule sorted_wrt_mono_rel)
    show "sorted_wrt (\<lambda>x e. hit x e \<longrightarrow> \<not> endpoint_eq x e) ?eps" using c by blast
  next
    fix x y assume xy: "x \<in> set ?eps" "y \<in> set ?eps" "hit x y \<longrightarrow> \<not> endpoint_eq x y"
    show "\<not> endpoint_eq x y"
    proof
      assume "endpoint_eq x y"
      with area [OF xy(1)] area [OF xy(2)] have "x = y" by (simp add: endpoint_eq_def)
      with xy(3) hit \<open>endpoint_eq x y\<close> show False by simp
    qed
  qed
  then show ?thesis
    using f(1,2) s el area by (auto simp: requires_endpoints_def Suc_le_eq)
qed

lemma sample_request_valid: "validate_request False (=) sample_request = Inr ()"
  by (simp add: validate_request_def sample_request_def validate_rendezvous_endpoints_def
      MAX_SN_TUNNEL_RENDEZVOUS_ENDPOINTS_def requires_endpoints_def punches_def reverse_connects_def
      rendezvous_eligible_area_def rendezvous_ipv4_eligible_def is_unspecified4_def
      is_broadcast4_def hash_set_insert_def word_le_nat_alt)

theorem validated_punch_endpoints_witness:
  "validate_request False (=) sample_request = Inr () \<and>
   sorted_wrt (\<lambda>x y. \<not> endpoint_eq x y) (end_point_array sample_request)"
  using validated_punch_endpoints [OF sample_request_valid] sample_request_valid
  by (simp add: sample_request_def)

text \<open>a reverse-connect request may carry two equal endpoints and still be accepted: the
  duplicate check uses a hash set, and the derived hash of \<open>Endpoint\<close> covers the area that
  \<open>==\<close> ignores (here the hash tells the two apart).\<close>

theorem reverse_connect_duplicates_accepted:
  "\<exists>r. validate_request False (=) r = Inr () \<and>
       (\<exists>x y. end_point_array r = [x, y] \<and> endpoint_eq x y)"
proof -
  let ?x = "\<lparr>area = Wan, protocol = Quic, addr = V4 (Ipv4 203 0 113 7) 3456\<rparr>"
  let ?r = "sample_request\<lparr>operation := ReverseConnectOnly,
              end_point_array := [?x, ?x\<lparr>area := Mapped\<rparr>]\<rparr>"
  have "validate_request False (=) ?r = Inr ()"
    by (simp add: validate_request_def sample_request_def validate_rendezvous_endpoints_def
        MAX_SN_TUNNEL_RENDEZVOUS_ENDPOINTS_def requires_endpoints_def punches_def
        reverse_connects_def rendezvous_reverse_connect_eligible_area_def
        rendezvous_ipv4_eligible_def is_unspecified4_def is_broadcast4_def hash_set_insert_def
        word_le_nat_alt)
  moreover have "endpoint_eq ?x (?x\<lparr>area := Mapped\<rparr>)" by (simp add: endpoint_eq_def)
  ultimately show ?thesis by fastforce
qed

lemma resp_failure_valid: "validate_resp matrix hit (resp_failure s) s need = Inr ()"
  by (simp add: validate_resp_def resp_failure_def is_success_def
      SN_TUNNEL_RENDEZVOUS_RESULT_OK_def SN_TUNNEL_RENDEZVOUS_RESULT_FAILED_def)

section \<open>Extensions\<close>

text \<open>What a codec of \<open>bucky_raw_codec\<close> promises: decoding what was encoded gives the value back
  and leaves what follows.\<close>

locale raw_codec =
  fixes enc :: "'a \<Rightarrow> u8 list" and dec :: "u8 list \<Rightarrow> codec_error + ('a \<times> u8 list)"
    and valid :: "'a \<Rightarrow> bool"
  assumes dec_enc: "valid a \<Longrightarrow> dec (enc a @ rest) = Inr (a, rest)"
begin

lemma dec_enc_nil: "valid a \<Longrightarrow> dec (enc a) = Inr (a, [])"
  using dec_enc [of a "[]"] by simp

lemma strict_decode_enc: "valid a \<Longrightarrow> strict_decode dec (enc a) = Inr a"
  by (simp add: strict_decode_def dec_enc_nil)

lemma strict_decode_trailing:
  "valid a \<Longrightarrow> rest \<noteq> [] \<Longrightarrow> strict_decode dec (enc a @ rest) = Inl CodecInvalidData"
  by (simp add: strict_decode_def dec_enc)

lemma enc_inj: "valid a \<Longrightarrow> valid b \<Longrightarrow> enc a = enc b \<Longrightarrow> a = b"
  using dec_enc_nil by (metis Inr_inject prod.inject)

lemma extension_roundtrip:
  assumes "raw_codec enc32 dec32 (\<lambda>_. True)" and "raw_codec enc8 dec8 (\<lambda>_. True)"
    and "length (enc32 magic) = 4" and "valid a"
    and "extension_encode enc32 enc8 enc (Some a) magic = Inr bytes"
  shows "extension_decode dec32 dec8 dec (bytes @ rest) magic = (Some a, rest)"
proof -
  note d32 = raw_codec.dec_enc [OF assms(1), simplified]
  note d8 = raw_codec.dec_enc [OF assms(2), simplified]
  have len: "length (enc a) < 2 ^ 32" and
    bytes: "bytes = enc32 magic @ enc8 SN_EXTENSION_VERSION @ enc32 (of_nat (length (enc a))) @ enc a"
    using assms(5) by (auto simp: extension_encode_def Let_def split: if_splits)
  have un: "unat (of_nat (length (enc a)) :: u32) = length (enc a)"
    using len by (simp add: unat_of_nat take_bit_nat_def)
  show ?thesis
    using assms(3) by (simp add: bytes extension_decode_def d32 d8 un dec_enc_nil [OF assms(4)])
qed

end

lemma endpoint_to_vec_eq:
  assumes "valid_protocol (protocol e)"
  shows "endpoint_to_vec e = flags e # le_bytes (sa_port (addr e)) @
           (case addr e of V4 ip _ \<Rightarrow> octets4 ip | V6 ip _ _ _ \<Rightarrow> octets6 ip)"
proof -
  obtain out where out: "raw_encode e (replicate (raw_measure e) 0) = Inr (out, [])"
    using assms by (simp add: raw_encode_ok)
  then have "endpoint_to_vec e = out" by (simp add: endpoint_to_vec_def)
  with out show ?thesis by (simp add: raw_encode_ok)
qed

lemma endpoint_decode_append:
  assumes "wire_valid e"
  shows "raw_decode (endpoint_to_vec e @ rest) = Inr (e, rest)"
proof -
  have v: "valid_protocol (protocol e)" and w: "wire_endpoint e = e"
    using assms by (auto simp: wire_valid_def)
  have "raw_encode e (replicate (raw_measure e) 0 @ rest) = Inr (endpoint_to_vec e @ rest, rest)"
    using v by (simp add: raw_encode_ok endpoint_to_vec_eq split: socket_addr.splits)
  from raw_decode_encoded [OF this] w show ?thesis by simp
qed

interpretation epc: raw_codec endpoint_to_vec raw_decode wire_valid
  by unfold_locales (rule endpoint_decode_append)

text \<open>an optional extension whose payload is an endpoint is read back and the bytes after it are
  left for the next decoder, for any primitive codecs that decode what they encode and a four-byte
  magic; a trailing byte makes a strict decode fail.\<close>

theorem endpoint_extension_roundtrip:
  assumes c32: "\<And>x rest. dec32 (enc32 x @ rest) = Inr (x, rest)"
    and c8: "\<And>x rest. dec8 (enc8 x @ rest) = Inr (x, rest)"
    and "length (enc32 magic) = 4" and "wire_valid e"
    and "extension_encode enc32 enc8 endpoint_to_vec (Some e) magic = Inr bytes"
  shows "extension_decode dec32 dec8 raw_decode (bytes @ rest) magic = (Some e, rest) \<and>
         strict_decode raw_decode (endpoint_to_vec e @ [b]) = Inl CodecInvalidData"
proof -
  have "raw_codec enc32 dec32 (\<lambda>_. True)" "raw_codec enc8 dec8 (\<lambda>_. True)"
    using c32 c8 by (simp_all add: raw_codec_def)
  then show ?thesis
    using epc.extension_roundtrip assms(3-5) epc.strict_decode_trailing by simp
qed

lemma be32_roundtrip: "be_dec32 (be_enc32 x @ rest) = Inr (x, rest)"
proof -
  have "push_bit 16 (ucast (ucast (drop_bit 16 x) :: u16)) OR ucast (ucast x :: u16) = x"
    by (rule bit_word_eqI) (auto simp: bit_or_iff bit_push_bit_iff bit_ucast_iff bit_drop_bit_eq)
  then show ?thesis by (simp add: be_bytes_def join_be)
qed

theorem endpoint_extension_roundtrip_witness:
  "\<exists>bytes. extension_encode be_enc32 (\<lambda>x. [x]) endpoint_to_vec (Some sample_ep) 0x53434C44 = Inr bytes \<and>
     extension_decode be_dec32 be_dec8 raw_decode (bytes @ [9]) 0x53434C44 = (Some sample_ep, [9])"
proof -
  have v: "wire_valid sample_ep"
    by (simp add: wire_valid_def sample_ep_def valid_protocol_def ext_in_range_def
        wire_endpoint_def word_le_nat_alt)
  then have "length (endpoint_to_vec sample_ep) = 7"
    by (simp add: wire_valid_def endpoint_to_vec_eq) (simp add: sample_ep_def le_bytes_def)
  then obtain bytes where b: "extension_encode be_enc32 (\<lambda>x. [x]) endpoint_to_vec (Some sample_ep)
      0x53434C44 = Inr bytes"
    by (simp add: extension_encode_def)
  moreover have "length (be_enc32 0x53434C44) = 4" by (simp add: be_bytes_def)
  ultimately show ?thesis
    using endpoint_extension_roundtrip [of be_dec32 be_enc32 be_dec8 "\<lambda>x. [x]", OF be32_roundtrip _ _ v b]
    by simp
qed

text \<open>a buffer that does not start with the extension's magic is left untouched for the enclosing
  decoder, and once the magic matches, the extension decoder never gives back bytes that were not in
  its input (a malformed envelope is consumed, never an error).\<close>

theorem extension_decode_safe:
  assumes "extension_decode dec32 dec8 dec buf magic = (v, rest)"
    and suffix32: "\<And>b x r. dec32 b = Inr (x, r) \<Longrightarrow> \<exists>n. r = drop n b"
    and suffix8: "\<And>b x r. dec8 b = Inr (x, r) \<Longrightarrow> \<exists>n. r = drop n b"
  shows "(\<exists>n. rest = drop n buf) \<and>
         (\<forall>m r. dec32 buf = Inr (m, r) \<and> m \<noteq> magic \<longrightarrow> v = None \<and> rest = buf)"
proof -
  have "\<exists>n. rest = drop n buf"
  proof (cases "rest = buf \<or> rest = []")
    case True
    then show ?thesis by (metis drop0 drop_all order_refl)
  next
    case False
    then obtain m am ver av len ah where
      d: "dec32 buf = Inr (m, am)" "dec8 am = Inr (ver, av)" "dec32 av = Inr (len, ah)"
      and r: "rest = drop (unat len) ah"
      using assms(1)
      by (auto simp: extension_decode_def Let_def split: if_splits sum.splits prod.splits)
    from suffix32 [OF d(1)] suffix8 [OF d(2)] suffix32 [OF d(3)] r show ?thesis
      by (metis drop_drop)
  qed
  moreover have "v = None \<and> rest = buf" if "dec32 buf = Inr (m, r)" "m \<noteq> magic" for m r
    using assms(1) that by (auto simp: extension_decode_def split: if_splits)
  ultimately show ?thesis by blast
qed

theorem extension_decode_safe_witness:
  "extension_decode be_dec32 be_dec8 raw_decode [1, 2, 3, 4, 5] 0x53434C44 = (None, [1, 2, 3, 4, 5])"
proof -
  have s32: "\<exists>n. r = drop n b" if "be_dec32 b = Inr (x, r)" for b x r
    using that by (cases b rule: be_dec32.cases) (auto intro: exI [of _ 4])
  have s8: "\<exists>n. r = drop n b" if "be_dec8 b = Inr (x, r)" for b x r
    using that by (cases b) (auto intro: exI [of _ 1])
  obtain v rest where d: "extension_decode be_dec32 be_dec8 raw_decode [1, 2, 3, 4, 5] 0x53434C44 = (v, rest)"
    by fastforce
  have m: "\<exists>m. be_dec32 [1, 2, 3, 4, 5] = Inr (m, [5]) \<and> m \<noteq> 0x53434C44"
    by (simp add: join_bytes_def)
  have "(\<exists>n. rest = drop n [1, 2, 3, 4, 5]) \<and> (\<forall>m r. be_dec32 [1, 2, 3, 4, 5] = Inr (m, r) \<and>
      m \<noteq> 0x53434C44 \<longrightarrow> v = None \<and> rest = [1, 2, 3, 4, 5])"
    by (rule extension_decode_safe [OF d]) (rule s32, assumption, rule s8, assumption)
  with m d show ?thesis by metis
qed

end
