(* ===== verification/NatConnectPlan.thy ===== *)
theory NatConnectPlan
  imports NatType SnRendezvous
begin

text \<open>
  \<open>p2p-frame/src/tunnel/nat_connect_plan.rs\<close>: from the two NAT profiles of one tunnel attempt,
  who connects, which candidates each side uses, and the rendezvous request that asks the other side
  to do its part. Both peers compute the plan from the same snapshot, so the properties are about
  the two parts fitting together.
\<close>

section \<open>Definitions\<close>

datatype plan_party = Caller | Callee
datatype candidate_mode = Base | Predicted
datatype connect_strategy = StrategyLegacy | StrategyPublic | StrategyMatrix | StrategyBoundedBestEffort
datatype plan_fallback = FallbackLegacy | FallbackProxy
datatype plan_action =
    ActionLegacy
  | ActionConnect (act_candidates: candidate_mode) (act_reverse: bool)
  | ActionPunchThenWait (act_candidates: candidate_mode)
  | ActionWaitIncoming

record connect_plan =
  strategy :: connect_strategy
  connector :: "plan_party option"
  connector_candidates :: candidate_mode
  peer_candidates :: "candidate_mode option"
  reverse :: bool
  fallback :: plan_fallback

datatype rendezvous_caller_action =
    CallerConnect (use_predicted_response: bool)
  | CallerPunchThenWait (use_predicted_response: bool)
  | CallerWaitIncoming

record rendezvous_plan =
  rp_operation :: rendezvous_operation
  request_candidates :: "candidate_mode option"
  rp_need_predict_endpoint :: bool
  caller_action :: rendezvous_caller_action

definition legacy :: connect_plan where
  "legacy = \<lparr>strategy = StrategyLegacy, connector = None, connector_candidates = Base,
     peer_candidates = None, reverse = False, fallback = FallbackLegacy\<rparr>"

definition action_for :: "connect_plan \<Rightarrow> plan_party \<Rightarrow> plan_action" where
  "action_for p party =
     (case connector p of
        None \<Rightarrow> ActionLegacy
      | Some c \<Rightarrow>
          if c = party then ActionConnect (connector_candidates p) (reverse p)
          else case peer_candidates p of
                 Some candidates \<Rightarrow> ActionPunchThenWait candidates
               | None \<Rightarrow> ActionWaitIncoming)"

definition rendezvous_plan_of :: "connect_plan \<Rightarrow> rendezvous_plan option" where
  "rendezvous_plan_of p =
     (case connector p of
        None \<Rightarrow> None
      | Some Caller \<Rightarrow>
          Some \<lparr>rp_operation = (if peer_candidates p \<noteq> None then PunchOnly else WaitIncoming),
                request_candidates = peer_candidates p,
                rp_need_predict_endpoint = (connector_candidates p = Predicted),
                caller_action = CallerConnect (connector_candidates p = Predicted)\<rparr>
      | Some Callee \<Rightarrow>
          Some \<lparr>rp_operation = (if peer_candidates p \<noteq> None then PunchAndReverseConnect
                                else ReverseConnectOnly),
                request_candidates = Some (connector_candidates p),
                rp_need_predict_endpoint = (peer_candidates p = Some Predicted),
                caller_action = (case peer_candidates p of
                    Some mode \<Rightarrow> CallerPunchThenWait (mode = Predicted)
                  | None \<Rightarrow> CallerWaitIncoming)\<rparr>)"

definition public_plan :: "plan_party \<Rightarrow> connect_plan" where
  "public_plan c = \<lparr>strategy = StrategyPublic, connector = Some c, connector_candidates = Base,
     peer_candidates = None, reverse = (c = Callee), fallback = FallbackProxy\<rparr>"

definition matrix_plan ::
    "connect_strategy \<Rightarrow> plan_party \<Rightarrow> candidate_mode \<Rightarrow> candidate_mode \<Rightarrow> connect_plan" where
  "matrix_plan s c cc pc = \<lparr>strategy = s, connector = Some c, connector_candidates = cc,
     peer_candidates = Some pc, reverse = (c = Callee), fallback = FallbackProxy\<rparr>"

definition prediction_or_base :: "bool \<Rightarrow> candidate_mode" where
  "prediction_or_base usable = (if usable then Predicted else Base)"

definition select_connect_plan ::
    "nat_traversal_context \<Rightarrow> timestamp \<Rightarrow> bool \<Rightarrow> bool \<Rightarrow> connect_plan" where
  "select_connect_plan ctx now caller_public callee_public =
     (if callee_public then public_plan Caller
      else if caller_public then public_plan Callee
      else if \<not> context_is_supported ctx then legacy
      else
        let caller = mapping_at (caller_profile ctx) now;
            callee = mapping_at (callee_profile ctx) now
        in if caller = Unknown \<or> callee = Unknown then legacy
           else
             let caller_predictable = (caller \<noteq> SymmetricLike \<or>
                     usable_prediction_hint (caller_profile ctx) now \<noteq> None);
                 callee_predictable = (callee \<noteq> SymmetricLike \<or>
                     usable_prediction_hint (callee_profile ctx) now \<noteq> None);
                 strategy = (if caller_predictable \<and> callee_predictable then StrategyMatrix
                             else StrategyBoundedBestEffort)
             in case (caller, callee) of
                  (NonSymmetricLike, NonSymmetricLike) \<Rightarrow> matrix_plan strategy Caller Base Base
                | (NonSymmetricLike, SymmetricLike) \<Rightarrow>
                    matrix_plan strategy Callee Base (prediction_or_base callee_predictable)
                | (SymmetricLike, NonSymmetricLike) \<Rightarrow>
                    matrix_plan strategy Caller Base (prediction_or_base caller_predictable)
                | (SymmetricLike, SymmetricLike) \<Rightarrow>
                    matrix_plan strategy Caller (prediction_or_base callee_predictable)
                      (prediction_or_base caller_predictable)
                | _ \<Rightarrow> legacy)"

definition other_party :: "plan_party \<Rightarrow> plan_party" where
  "other_party p = (case p of Caller \<Rightarrow> Callee | Callee \<Rightarrow> Caller)"

text \<open>The profile whose port a candidate of the given party's target is predicted from.\<close>

definition profile_of :: "nat_traversal_context \<Rightarrow> plan_party \<Rightarrow> nat_profile" where
  "profile_of ctx p = (case p of Caller \<Rightarrow> caller_profile ctx | Callee \<Rightarrow> callee_profile ctx)"

definition sample_ctx :: nat_traversal_context where
  "sample_ctx = context_new (P2pId [1]) (P2pId [2])
     (profile_from_observations [obs_at 3000, obs_at 3002] 5 (from_secs 1))
     (profile_from_observations [obs_at 1, obs_at 1] 5 (from_secs 1))"

definition mirror :: "nat_traversal_context \<Rightarrow> nat_traversal_context" where
  "mirror c = c\<lparr>callee_profile := caller_profile c\<rparr>"

section \<open>The selected plan\<close>

text \<open>Every selected plan is one of three kinds.\<close>

lemma select_connect_plan_shape:
  fixes ctx now cp qp
  defines "p \<equiv> select_connect_plan ctx now cp qp"
  shows "p = legacy \<or> (\<exists>c. p = public_plan c) \<or> (\<exists>s c cc pc. p = matrix_plan s c cc pc)"
proof (cases "cp \<or> qp \<or> \<not> context_is_supported ctx \<or> mapping_at (caller_profile ctx) now = Unknown \<or>
              mapping_at (callee_profile ctx) now = Unknown")
  case True
  then show ?thesis by (auto simp: p_def select_connect_plan_def)
next
  case False
  then have "\<exists>s c cc pc. p = matrix_plan s c cc pc"
    by (cases "mapping_at (caller_profile ctx) now"; cases "mapping_at (callee_profile ctx) now")
      (simp_all add: p_def select_connect_plan_def Let_def, blast+)
  then show ?thesis by blast
qed

lemmas plan_defs = legacy_def public_plan_def matrix_plan_def


text \<open>a party is told to use predicted ports for its peer only if that peer's profile is fresh,
  symmetric and holds a usable prediction hint.\<close>

theorem predicted_candidates_have_hint:
  assumes "action_for (select_connect_plan ctx now cp qp) c = ActionConnect Predicted r \<or>
           action_for (select_connect_plan ctx now cp qp) c = ActionPunchThenWait Predicted"
  shows "\<exists>h. usable_prediction_hint (profile_of ctx (other_party c)) now = Some h \<and>
             mapping_at (profile_of ctx (other_party c)) now = SymmetricLike \<and>
             is_usable_with h (last_observed h)"
proof -
  have "mapping_at (profile_of ctx (other_party c)) now = SymmetricLike \<and>
        usable_prediction_hint (profile_of ctx (other_party c)) now \<noteq> None"
    using assms
    by (cases c) (auto simp: select_connect_plan_def Let_def action_for_def plan_defs
        prediction_or_base_def profile_of_def other_party_def
        split: if_splits nat_mapping_observation.splits)
  then show ?thesis using usable_prediction_hint_Some by blast
qed

lemma sample_profiles:
  "mapping_at (caller_profile sample_ctx) 6 = SymmetricLike"
  "mapping_at (callee_profile sample_ctx) 6 = NonSymmetricLike"
  by (simp_all add: sample_ctx_def context_new_def mapping_at_def profile_from_observations_def
      profile_is_fresh_def profile_is_supported_def obs_at_def from_secs_def word_le_nat_alt
      unat_sat_add unat_duration_to_bucky_time as_micros_def)

theorem predicted_candidates_have_hint_witness:
  "\<exists>h. usable_prediction_hint (callee_profile (mirror sample_ctx)) 6 = Some h"
proof -
  have m: "mapping_at (caller_profile (mirror sample_ctx)) 6 = SymmetricLike"
    "mapping_at (callee_profile (mirror sample_ctx)) 6 = SymmetricLike"
    using sample_profiles by (simp_all add: mirror_def)
  have "prediction_hint (callee_profile (mirror sample_ctx)) =
      hint_from_observations [obs_at 3000, obs_at 3002]"
    by (simp add: mirror_def sample_ctx_def context_new_def profile_from_observations_def obs_at_def
        from_secs_def)
  moreover obtain h where h: "hint_from_observations [obs_at 3000, obs_at 3002] = Some h"
    "is_usable_with h (last_observed h)"
    by (simp add: hint_from_observations_def obs_at_def is_usable_with_def checked_mul_signed_def
        in_signed_def)
  ultimately have u: "usable_prediction_hint (callee_profile (mirror sample_ctx)) 6 = Some h"
    using m by (simp add: usable_prediction_hint_def)
  have "context_is_supported (mirror sample_ctx)"
    by (simp add: mirror_def sample_ctx_def context_new_def context_is_supported_def)
  then have "action_for (select_connect_plan (mirror sample_ctx) 6 False False) Caller =
      ActionConnect Predicted False"
    using m u
    by (simp add: select_connect_plan_def Let_def action_for_def matrix_plan_def prediction_or_base_def)
  then have "action_for (select_connect_plan (mirror sample_ctx) 6 False False) Caller =
        ActionConnect Predicted False \<or>
      action_for (select_connect_plan (mirror sample_ctx) 6 False False) Caller =
        ActionPunchThenWait Predicted" by simp
  from predicted_candidates_have_hint [OF this] show ?thesis
    by (auto simp: profile_of_def other_party_def)
qed

text \<open>the rendezvous request derived from a plan asks the callee for exactly its part of the
  plan: endpoints are sent iff the operation requires them, the operation reverse-connects iff the
  callee is the connector and punches iff the non-connecting side has candidates, and the caller
  itself does what the plan assigns to it.\<close>

theorem rendezvous_plan_matches:
  fixes ctx now cp qp
  defines "p \<equiv> select_connect_plan ctx now cp qp"
  assumes "rendezvous_plan_of p = Some r"
  shows "(requires_endpoints (rp_operation r) \<longleftrightarrow> request_candidates r \<noteq> None) \<and>
         (reverse_connects (rp_operation r) \<longleftrightarrow> connector p = Some Callee) \<and>
         (punches (rp_operation r) \<longleftrightarrow> peer_candidates p \<noteq> None) \<and>
         (rp_need_predict_endpoint r \<longleftrightarrow>
            caller_action r = CallerConnect True \<or> caller_action r = CallerPunchThenWait True) \<and>
         (case action_for p Caller of
            ActionConnect m _ \<Rightarrow> caller_action r = CallerConnect (m = Predicted)
          | ActionPunchThenWait m \<Rightarrow> caller_action r = CallerPunchThenWait (m = Predicted)
          | ActionWaitIncoming \<Rightarrow> caller_action r = CallerWaitIncoming
          | ActionLegacy \<Rightarrow> False)"
  using assms(2)
  by (auto simp: rendezvous_plan_of_def action_for_def requires_endpoints_def reverse_connects_def
      punches_def split: option.splits plan_party.splits)

theorem rendezvous_plan_matches_witness:
  "\<exists>r. rendezvous_plan_of (select_connect_plan sample_ctx 6 True False) = Some r \<and>
       reverse_connects (rp_operation r)"
proof -
  obtain r where r: "rendezvous_plan_of (select_connect_plan sample_ctx 6 True False) = Some r"
    by (simp add: select_connect_plan_def rendezvous_plan_of_def public_plan_def)
  have "connector (select_connect_plan sample_ctx 6 True False) = Some Callee"
    by (simp add: select_connect_plan_def public_plan_def)
  with rendezvous_plan_matches [OF r] r show ?thesis by auto
qed

end
