(* ===== verification/RendezvousState.thy ===== *)
theory RendezvousState
  imports SnRendezvous
begin

text \<open>
  \<open>p2p-frame/src/sn/service/rendezvous_state.rs\<close>: the SN's table of live rendezvous requests.
  It answers a repeated request from its cache or parks it until the first one is answered, and it
  bounds the live requests, the requests per peer pair, the parked duplicates and the request rate.

  A \<open>oneshot\<close> channel is a number; \<open>next_waiter\<close> numbers the channels created so far. The
  operations return the messages they send as a list of channel and result. What becomes of a
  message whose receiver is gone is not observable here (\<open>let _ = waiter.send(..)\<close>).
\<close>

section \<open>Definitions\<close>

definition MAX_LIVE_ATTEMPTS :: nat where "MAX_LIVE_ATTEMPTS = 256"
definition MAX_LIVE_ATTEMPTS_PER_PAIR :: nat where "MAX_LIVE_ATTEMPTS_PER_PAIR = 8"
definition MAX_REQUESTS_PER_INITIATOR_WINDOW :: nat where "MAX_REQUESTS_PER_INITIATOR_WINDOW = 32"
definition MAX_INFLIGHT_WAITERS_PER_ATTEMPT :: nat where "MAX_INFLIGHT_WAITERS_PER_ATTEMPT = 8"
definition RATE_WINDOW :: timestamp where "RATE_WINDOW = 60 * 1000000"
definition MAX_REQUEST_LIFETIME :: timestamp where "MAX_REQUEST_LIFETIME = 30 * 1000000"

type_synonym waiter = nat
type_synonym sent = "(waiter \<times> sn_tunnel_rendezvous_resp p2p_result) list"

datatype rendezvous_key =
  RendezvousKey (initiator: p2p_id) (key_seq: sequence) (key_tunnel_id: tunnel_id)

definition rendezvous_key_new :: "p2p_id \<Rightarrow> sn_tunnel_rendezvous \<Rightarrow> rendezvous_key" where
  "rendezvous_key_new i r = RendezvousKey i (seq r) (tunnel_id r)"

record rendezvous_entry =
  request :: sn_tunnel_rendezvous
  expires_at :: timestamp
  response :: "sn_tunnel_rendezvous_resp option"
  waiters :: "waiter list"

datatype rendezvous_begin =
  BeginNew | Cached sn_tunnel_rendezvous_resp | InFlight waiter

record rendezvous_state =
  entries :: "(rendezvous_key, rendezvous_entry) hmap"
  rate_windows :: "(p2p_id, timestamp list) hmap"
  next_waiter :: nat

definition rs_new :: rendezvous_state where
  "rs_new = \<lparr>entries = [], rate_windows = [], next_waiter = 0\<rparr>"

text \<open>\<open>waiters.drain(..)\<close> with the same answer to each.\<close>

definition answer_all ::
    "waiter list \<Rightarrow> sn_tunnel_rendezvous_resp p2p_result \<Rightarrow> sent" where
  "answer_all ws r = map (\<lambda>w. (w, r)) ws"

text \<open>The entries that \<open>retain\<close> drops, with the messages their waiters get.\<close>

definition drop_messages ::
    "(rendezvous_key \<Rightarrow> rendezvous_entry \<Rightarrow> bool) \<Rightarrow> p2p_error_code \<Rightarrow>
     (rendezvous_key, rendezvous_entry) hmap \<Rightarrow> sent" where
  "drop_messages keep err m =
     concat (map (\<lambda>(k, e). if keep k e then [] else answer_all (waiters e) (Inl err)) m)"

definition rate_expired :: "timestamp \<Rightarrow> timestamp \<Rightarrow> bool" where
  "rate_expired now t = (sat_add t RATE_WINDOW < now)"

definition prune_window :: "timestamp \<Rightarrow> timestamp list \<Rightarrow> timestamp list" where
  "prune_window now ts = dropWhile (rate_expired now) ts"

definition prune_windows :: "timestamp \<Rightarrow> (p2p_id, timestamp list) hmap \<Rightarrow> (p2p_id, timestamp list) hmap" where
  "prune_windows now m =
     hm_retain (\<lambda>k ts. ts \<noteq> []) (map (\<lambda>(k, ts). (k, prune_window now ts)) m)"

definition cleanup :: "timestamp \<Rightarrow> rendezvous_state \<Rightarrow> rendezvous_state \<times> sent" where
  "cleanup now s =
     (s\<lparr>entries := hm_retain (\<lambda>k e. now < expires_at e) (entries s),
        rate_windows := prune_windows now (rate_windows s)\<rparr>,
      drop_messages (\<lambda>k e. now < expires_at e) Expired (entries s))"

definition pair_count :: "p2p_id \<Rightarrow> p2p_id \<Rightarrow> (rendezvous_key, rendezvous_entry) hmap \<Rightarrow> nat" where
  "pair_count i target m =
     length (filter (\<lambda>(k, e). initiator k = i \<and> to_peer_id (request e) = target) m)"

definition new_entry :: "sn_tunnel_rendezvous \<Rightarrow> timestamp \<Rightarrow> rendezvous_entry" where
  "new_entry r now = \<lparr>request = r, expires_at = sat_add now MAX_REQUEST_LIFETIME,
     response = None, waiters = []\<rparr>"

definition rs_begin ::
    "p2p_id \<Rightarrow> sn_tunnel_rendezvous \<Rightarrow> timestamp \<Rightarrow> rendezvous_state \<Rightarrow>
     rendezvous_state \<times> sent \<times> rendezvous_begin p2p_result" where
  "rs_begin i r now s0 =
     (let (s, msgs) = cleanup now s0; key = rendezvous_key_new i r
      in case hm_get (entries s) key of
           Some entry \<Rightarrow>
             if \<not> rendezvous_eq (request entry) r then (s, msgs, Inl Conflict)
             else (case response entry of
                 Some resp \<Rightarrow> (s, msgs, Inr (Cached resp))
               | None \<Rightarrow>
                   if length (waiters entry) \<ge> MAX_INFLIGHT_WAITERS_PER_ATTEMPT
                   then (s, msgs, Inl OutOfLimit)
                   else (s\<lparr>entries := hm_insert key
                             (entry\<lparr>waiters := waiters entry @ [next_waiter s]\<rparr>) (entries s),
                           next_waiter := Suc (next_waiter s)\<rparr>,
                         msgs, Inr (InFlight (next_waiter s))))
         | None \<Rightarrow>
             if length (entries s) \<ge> MAX_LIVE_ATTEMPTS \<or>
                pair_count i (to_peer_id r) (entries s) \<ge> MAX_LIVE_ATTEMPTS_PER_PAIR
             then (s, msgs, Inl OutOfLimit)
             else
               let ts = prune_window now
                          (case hm_get (rate_windows s) i of None \<Rightarrow> [] | Some ts \<Rightarrow> ts)
               in if length ts \<ge> MAX_REQUESTS_PER_INITIATOR_WINDOW
                  then (s\<lparr>rate_windows := hm_insert i ts (rate_windows s)\<rparr>, msgs, Inl OutOfLimit)
                  else (s\<lparr>rate_windows := hm_insert i (ts @ [now]) (rate_windows s),
                          entries := hm_insert key (new_entry r now) (entries s)\<rparr>,
                        msgs, Inr BeginNew))"

definition cache_response ::
    "bool \<Rightarrow> (endpoint \<Rightarrow> endpoint \<Rightarrow> bool) \<Rightarrow> p2p_id \<Rightarrow> sn_tunnel_rendezvous \<Rightarrow>
     sn_tunnel_rendezvous_resp \<Rightarrow> timestamp \<Rightarrow> rendezvous_state \<Rightarrow>
     rendezvous_state \<times> sent \<times> unit p2p_result" where
  "cache_response matrix hit i r resp now s =
     (let key = rendezvous_key_new i r
      in case hm_get (entries s) key of
           None \<Rightarrow> (s, [], Inl NotFound)
         | Some entry \<Rightarrow>
             if now \<ge> expires_at entry
             then (s\<lparr>entries := hm_remove key (entries s)\<rparr>,
                   answer_all (waiters entry) (Inl Expired), Inl Expired)
             else if \<not> rendezvous_eq (request entry) r then (s, [], Inl Conflict)
             else (case validate_resp matrix hit resp (seq r) (need_predict_endpoint r) of
                 Inl err \<Rightarrow> (s, [], Inl err)
               | Inr _ \<Rightarrow>
                   let cached = (if need_predict_endpoint r then resp_failure (seq r) else resp)
                   in (s\<lparr>entries := hm_insert key (entry\<lparr>waiters := [], response := Some cached\<rparr>)
                           (entries s)\<rparr>,
                       answer_all (waiters entry) (Inr resp), Inr ())))"

definition fail_unanswered ::
    "p2p_id \<Rightarrow> sn_tunnel_rendezvous \<Rightarrow> rendezvous_state \<Rightarrow> rendezvous_state \<times> sent" where
  "fail_unanswered i r s =
     (let key = rendezvous_key_new i r
      in case hm_get (entries s) key of
           None \<Rightarrow> (s, [])
         | Some entry \<Rightarrow>
             let removed = hm_remove key (entries s)
             in if \<not> rendezvous_eq (request entry) r \<or> response entry \<noteq> None
                then (s\<lparr>entries := hm_insert key entry removed\<rparr>, [])
                else (s\<lparr>entries := removed\<rparr>, answer_all (waiters entry) (Inl NetworkError)))"

definition keep_peer :: "p2p_id \<Rightarrow> rendezvous_key \<Rightarrow> rendezvous_entry \<Rightarrow> bool" where
  "keep_peer p k e = (initiator k \<noteq> p \<and> to_peer_id (request e) \<noteq> p)"

definition remove_peer :: "p2p_id \<Rightarrow> rendezvous_state \<Rightarrow> rendezvous_state \<times> sent" where
  "remove_peer p s =
     (s\<lparr>entries := hm_retain (keep_peer p) (entries s),
        rate_windows := hm_remove p (rate_windows s)\<rparr>,
      drop_messages (keep_peer p) UserCanceled (entries s))"

subsection \<open>A sample state\<close>

text \<open>One request from peer 2 to peer 1 with one parked duplicate.\<close>

definition parked_entry :: rendezvous_entry where
  "parked_entry = \<lparr>request = sample_request, expires_at = 100, response = None, waiters = [0]\<rparr>"

definition parked_state :: rendezvous_state where
  "parked_state = \<lparr>entries = [(RendezvousKey (P2pId [2]) (Sequence 7) (TunnelId 3), parked_entry)],
     rate_windows = [(P2pId [2], [5])], next_waiter = 1\<rparr>"

subsection \<open>Invariant and runs\<close>

definition open_waiters :: "(rendezvous_key, rendezvous_entry) hmap \<Rightarrow> waiter list" where
  "open_waiters m = concat (map (\<lambda>(k, e). waiters e) m)"

definition entry_ok :: "rendezvous_key \<Rightarrow> rendezvous_entry \<Rightarrow> bool" where
  "entry_ok k e =
     (key_seq k = seq (request e) \<and> key_tunnel_id k = tunnel_id (request e) \<and>
      length (waiters e) \<le> MAX_INFLIGHT_WAITERS_PER_ATTEMPT \<and>
      (response e \<noteq> None \<longrightarrow> waiters e = []))"

definition rs_inv :: "rendezvous_state \<Rightarrow> bool" where
  "rs_inv s =
     (hm_wf (entries s) \<and> hm_wf (rate_windows s) \<and>
      length (entries s) \<le> MAX_LIVE_ATTEMPTS \<and>
      (\<forall>i t. pair_count i t (entries s) \<le> MAX_LIVE_ATTEMPTS_PER_PAIR) \<and>
      (\<forall>(k, e) \<in> set (entries s). entry_ok k e) \<and>
      (\<forall>(i, ts) \<in> set (rate_windows s). length ts \<le> MAX_REQUESTS_PER_INITIATOR_WINDOW))"

text \<open>The parts of the invariant that concern the entries, with what keeps them.\<close>

definition entries_inv :: "(rendezvous_key, rendezvous_entry) hmap \<Rightarrow> bool" where
  "entries_inv m =
     (hm_wf m \<and> length m \<le> MAX_LIVE_ATTEMPTS \<and>
      (\<forall>i t. pair_count i t m \<le> MAX_LIVE_ATTEMPTS_PER_PAIR) \<and> (\<forall>(k, e) \<in> set m. entry_ok k e))"

definition windows_inv :: "(p2p_id, timestamp list) hmap \<Rightarrow> bool" where
  "windows_inv m =
     (hm_wf m \<and> (\<forall>(i, ts) \<in> set m. length ts \<le> MAX_REQUESTS_PER_INITIATOR_WINDOW))"

text \<open>What one operation does to the channels: those it answers, with those still parked after
  it, are those parked before it and the ones it created.\<close>

definition waiters_balance :: "rendezvous_state \<Rightarrow> rendezvous_state \<Rightarrow> sent \<Rightarrow> bool" where
  "waiters_balance s s' msgs =
     (next_waiter s \<le> next_waiter s' \<and>
      mset (map fst msgs) + mset (open_waiters (entries s')) =
      mset (open_waiters (entries s)) + mset [next_waiter s..<next_waiter s'])"

datatype rs_event =
    EvBegin p2p_id sn_tunnel_rendezvous timestamp
  | EvCache p2p_id sn_tunnel_rendezvous sn_tunnel_rendezvous_resp timestamp
  | EvFail p2p_id sn_tunnel_rendezvous
  | EvRemove p2p_id

fun rs_step ::
    "bool \<Rightarrow> (endpoint \<Rightarrow> endpoint \<Rightarrow> bool) \<Rightarrow> rendezvous_state \<Rightarrow> rs_event \<Rightarrow> rendezvous_state \<times> sent" where
  "rs_step matrix hit s (EvBegin i r now) = (let (s', m, _) = rs_begin i r now s in (s', m))"
| "rs_step matrix hit s (EvCache i r resp now) =
     (let (s', m, _) = cache_response matrix hit i r resp now s in (s', m))"
| "rs_step matrix hit s (EvFail i r) = fail_unanswered i r s"
| "rs_step matrix hit s (EvRemove p) = remove_peer p s"

fun rs_run ::
    "bool \<Rightarrow> (endpoint \<Rightarrow> endpoint \<Rightarrow> bool) \<Rightarrow> rendezvous_state \<Rightarrow> rs_event list \<Rightarrow>
     rendezvous_state \<times> sent" where
  "rs_run matrix hit s [] = (s, [])"
| "rs_run matrix hit s (e # es) =
     (let (s', m) = rs_step matrix hit s e; (s'', m') = rs_run matrix hit s' es in (s'', m @ m'))"

section \<open>Frame lemmas\<close>

lemma pair_count_retain: "pair_count i t (hm_retain P m) \<le> pair_count i t m"
  unfolding pair_count_def hm_retain_def by (induction m) auto

lemma pair_count_remove: "pair_count i t (hm_remove k m) \<le> pair_count i t m"
  unfolding pair_count_def hm_remove_def by (induction m) auto

lemma pair_count_insert_new:
  "hm_get m k = None \<Longrightarrow> pair_count i t (hm_insert k e m) =
     pair_count i t m + (if initiator k = i \<and> to_peer_id (request e) = t then 1 else 0)"
  unfolding pair_count_def hm_insert_def hm_get_def by (induction m) (auto split: if_splits)

lemma pair_count_insert_same:
  "hm_get m k = Some e0 \<Longrightarrow> request e = request e0 \<Longrightarrow>
   pair_count i t (hm_insert k e m) = pair_count i t m"
  unfolding pair_count_def hm_insert_def hm_get_def by (induction m) (auto split: if_splits)

lemmas pair_count_simps = pair_count_insert_new pair_count_insert_same

lemma open_insert_new:
  "hm_get m k = None \<Longrightarrow>
   mset (open_waiters (hm_insert k e m)) = mset (open_waiters m) + mset (waiters e)"
  unfolding open_waiters_def hm_insert_def hm_get_def by (induction m) (auto split: if_splits)

lemma open_insert_same:
  "hm_get m k = Some e0 \<Longrightarrow>
   mset (open_waiters (hm_insert k e m)) + mset (waiters e0) =
   mset (open_waiters m) + mset (waiters e)"
  unfolding open_waiters_def hm_insert_def hm_get_def by (induction m) (auto split: if_splits)

lemma hm_remove_absent: "hm_get m k = None \<Longrightarrow> hm_remove k m = m"
  unfolding hm_get_def hm_remove_def by (induction m) (auto split: if_splits)

lemma open_remove:
  "hm_wf m \<Longrightarrow> hm_get m k = Some e \<Longrightarrow>
   mset (waiters e) + mset (open_waiters (hm_remove k m)) = mset (open_waiters m)"
proof (induction m)
  case (Cons kv m)
  obtain k0 e0 where kv: "kv = (k0, e0)" by (cases kv)
  show ?case
  proof (cases "k0 = k")
    case True
    with Cons.prems kv have "hm_remove k m = m" by (simp add: hm_remove_absent)
    with True Cons.prems kv show ?thesis
      by (simp add: hm_get_def hm_remove_def open_waiters_def)
  next
    case False
    with Cons kv show ?thesis
      by (simp add: hm_get_def hm_remove_def open_waiters_def)
  qed
qed (simp add: hm_get_def)

lemma fst_answer_all [simp]: "map fst (answer_all ws r) = ws"
  by (simp add: answer_all_def o_def)

lemma mset_answer_all [simp]: "image_mset fst (mset (answer_all ws r)) = mset ws"
  by (metis fst_answer_all mset_map)

lemma open_retain:
  "mset (map fst (drop_messages P err m)) + mset (open_waiters (hm_retain P m)) =
   mset (open_waiters m)"
proof (induction m)
  case (Cons kv m)
  have "map fst (drop_messages P err (kv # m)) =
      (if P (fst kv) (snd kv) then [] else waiters (snd kv)) @ map fst (drop_messages P err m)"
    by (cases kv) (simp add: drop_messages_def)
  moreover have "open_waiters (kv # m) = waiters (snd kv) @ open_waiters m"
    by (cases kv) (simp add: open_waiters_def)
  moreover have "open_waiters (hm_retain P (kv # m)) =
      (if P (fst kv) (snd kv) then waiters (snd kv) else []) @ open_waiters (hm_retain P m)"
    by (cases kv) (simp add: open_waiters_def hm_retain_def)
  ultimately show ?case
    by (simp only: mset_append Cons.IH [symmetric]) simp
qed (simp add: drop_messages_def open_waiters_def hm_retain_def)

lemma in_hm_insert:
  "(\<forall>(k, v) \<in> set m. Q k v) \<Longrightarrow> Q k0 v0 \<Longrightarrow> \<forall>(k, v) \<in> set (hm_insert k0 v0 m). Q k v"
  using set_hm_insert [of k0 v0 m] by auto

lemma hm_wf_prune_windows: "hm_wf m \<Longrightarrow> hm_wf (prune_windows now m)"
  unfolding prune_windows_def by (intro hm.wf_retain) (simp add: hm_wf_def case_prod_unfold o_def)

lemma prune_windows_bound:
  "(\<forall>(i, ts) \<in> set m. length ts \<le> n) \<Longrightarrow> \<forall>(i, ts) \<in> set (prune_windows now m). length ts \<le> n"
  unfolding prune_windows_def prune_window_def set_hm_retain
  by (auto intro: order_trans [OF length_dropWhile_less_eq])

section \<open>The invariant\<close>

lemma rs_inv_split: "rs_inv s \<longleftrightarrow> entries_inv (entries s) \<and> windows_inv (rate_windows s)"
  by (auto simp: rs_inv_def entries_inv_def windows_inv_def)

lemma entries_inv_retain: "entries_inv m \<Longrightarrow> entries_inv (hm_retain P m)"
  unfolding entries_inv_def
  by (auto simp: hm.wf_retain set_hm_retain intro: order_trans [OF hm.len_retain]
      order_trans [OF pair_count_retain])

lemma entries_inv_remove: "entries_inv m \<Longrightarrow> entries_inv (hm_remove k m)"
  unfolding entries_inv_def using set_hm_remove [of k m]
  by (auto simp: hm.wf_remove intro: order_trans [OF hm.len_remove]
      order_trans [OF pair_count_remove])

lemma entries_inv_update:
  "entries_inv m \<Longrightarrow> hm_get m k = Some e0 \<Longrightarrow> request e = request e0 \<Longrightarrow> entry_ok k e \<Longrightarrow>
   entries_inv (hm_insert k e m)"
  unfolding entries_inv_def
  by (intro conjI in_hm_insert) (auto simp: hm.wf_insert hm.len_insert pair_count_insert_same)

lemma entries_inv_insert:
  assumes "entries_inv m" and "hm_get m k = None" and "entry_ok k e"
    and "length m < MAX_LIVE_ATTEMPTS"
    and "pair_count (initiator k) (to_peer_id (request e)) m < MAX_LIVE_ATTEMPTS_PER_PAIR"
  shows "entries_inv (hm_insert k e m)"
  using assms unfolding entries_inv_def
  by (intro conjI in_hm_insert) (auto simp: hm.wf_insert hm.len_insert pair_count_insert_new)

lemma entries_inv_get: "entries_inv m \<Longrightarrow> hm_get m k = Some e \<Longrightarrow> entry_ok k e"
  by (auto simp: entries_inv_def dest: hm_get_SomeD)

lemma windows_inv_insert:
  "windows_inv m \<Longrightarrow> length ts \<le> MAX_REQUESTS_PER_INITIATOR_WINDOW \<Longrightarrow> windows_inv (hm_insert i ts m)"
  unfolding windows_inv_def by (intro conjI in_hm_insert) (auto simp: hm.wf_insert)

lemma windows_inv_remove: "windows_inv m \<Longrightarrow> windows_inv (hm_remove i m)"
  unfolding windows_inv_def using set_hm_remove [of i m] by (auto simp: hm.wf_remove)

lemma windows_inv_prune: "windows_inv m \<Longrightarrow> windows_inv (prune_windows now m)"
  unfolding windows_inv_def by (intro conjI hm_wf_prune_windows prune_windows_bound) blast+

lemma windows_inv_window:
  "windows_inv m \<Longrightarrow>
   length (prune_window now (case hm_get m i of None \<Rightarrow> [] | Some ts \<Rightarrow> ts))
     \<le> MAX_REQUESTS_PER_INITIATOR_WINDOW"
  unfolding windows_inv_def prune_window_def
  by (auto intro!: order_trans [OF length_dropWhile_less_eq] split: option.splits dest: hm_get_SomeD)

lemma rs_inv_new: "rs_inv rs_new"
  by (simp add: rs_inv_def rs_new_def hm_wf_def pair_count_def)

lemma rs_inv_cleanup: "rs_inv s \<Longrightarrow> rs_inv (fst (cleanup now s))"
  by (simp add: cleanup_def rs_inv_split entries_inv_retain windows_inv_prune)

lemma entry_ok_wait:
  "entry_ok k e \<Longrightarrow> length (waiters e) < MAX_INFLIGHT_WAITERS_PER_ATTEMPT \<Longrightarrow> response e = None \<Longrightarrow>
   entry_ok k (e\<lparr>waiters := waiters e @ [w]\<rparr>)"
  by (simp add: entry_ok_def)

lemma entry_ok_answered: "entry_ok k e \<Longrightarrow> entry_ok k (e\<lparr>waiters := [], response := r\<rparr>)"
  by (simp add: entry_ok_def)

lemma entry_ok_new: "entry_ok (rendezvous_key_new i r) (new_entry r now)"
  by (simp add: entry_ok_def rendezvous_key_new_def new_entry_def)

lemmas entries_inv_intros =
  entries_inv_update entries_inv_insert entry_ok_wait entry_ok_answered entry_ok_new
  windows_inv_insert

lemma rs_inv_begin:
  assumes "rs_inv s" shows "rs_inv (fst (rs_begin i r now s))"
proof -
  obtain s1 msgs where c: "cleanup now s = (s1, msgs)" by fastforce
  with rs_inv_cleanup [OF assms, of now]
  have inv: "entries_inv (entries s1)" "windows_inv (rate_windows s1)"
    by (simp_all add: rs_inv_split)
  show ?thesis
  proof (cases "hm_get (entries s1) (rendezvous_key_new i r)")
    case None
    with inv c windows_inv_window [OF inv(2), of now i] show ?thesis
      by (auto simp: rs_begin_def Let_def rs_inv_split not_le rendezvous_key_new_def
          new_entry_def [of r now]
          intro!: windows_inv_insert entries_inv_insert entry_ok_new [unfolded rendezvous_key_new_def new_entry_def])
  next
    case (Some e)
    with inv c entries_inv_get [OF inv(1) Some] show ?thesis
      by (auto simp: rs_begin_def Let_def rs_inv_split not_le split: option.splits
          intro!: entries_inv_update entry_ok_wait)
  qed
qed

lemma rs_inv_cache: "rs_inv s \<Longrightarrow> rs_inv (fst (cache_response matrix hit i r resp now s))"
  by (auto simp: cache_response_def Let_def rs_inv_split entries_inv_remove
      split: option.splits sum.splits
      intro!: entries_inv_update entry_ok_answered dest: entries_inv_get)

lemma mset_remove:
  "hm_wf m \<Longrightarrow> hm_get m k = Some e \<Longrightarrow> add_mset (k, e) (mset (hm_remove k m)) = mset m"
proof (induction m)
  case (Cons kv m)
  obtain k0 e0 where kv: "kv = (k0, e0)" by (cases kv)
  show ?case
  proof (cases "k0 = k")
    case True
    with Cons.prems kv have "hm_remove k m = m" by (simp add: hm_remove_absent)
    with True Cons.prems kv show ?thesis by (simp add: hm_get_def hm_remove_def)
  next
    case False
    with Cons kv show ?thesis by (simp add: hm_get_def hm_remove_def)
  qed
qed (simp add: hm_get_def)

lemma hm_insert_absent: "hm_get m k = None \<Longrightarrow> hm_insert k e m = m @ [(k, e)]"
  unfolding hm_get_def hm_insert_def by (induction m) (auto split: if_splits)

text \<open>Taking an entry out and putting it back leaves the same map, up to iteration order.\<close>

lemma mset_reinsert:
  assumes "hm_wf m" and "hm_get m k = Some e"
  shows "mset (hm_insert k e (hm_remove k m)) = mset m"
  using assms by (simp add: hm_insert_absent hm.get_remove mset_remove)

lemma pair_count_mset: "mset m = mset m' \<Longrightarrow> pair_count i t m = pair_count i t m'"
  unfolding pair_count_def by (metis mset_filter size_mset)

lemma open_waiters_mset: "mset m = mset m' \<Longrightarrow> mset (open_waiters m) = mset (open_waiters m')"
proof -
  have "mset (open_waiters m) = sum_mset (image_mset (\<lambda>(k, e). mset (waiters e)) (mset m))" for m
    by (induction m) (auto simp: open_waiters_def)
  then show "mset m = mset m' \<Longrightarrow> ?thesis" by simp
qed

lemma entries_inv_mset: "mset m = mset m' \<Longrightarrow> entries_inv m = entries_inv m'"
proof -
  assume a: "mset m = mset m'"
  then have "set m = set m'" "length m = length m'" "mset (map fst m) = mset (map fst m')"
    by (auto dest: mset_eq_setD mset_eq_length)
  moreover from this have "hm_wf m = hm_wf m'"
    unfolding hm_wf_def by (intro mset_eq_imp_distinct_iff)
  ultimately show ?thesis by (simp add: entries_inv_def pair_count_mset [OF a])
qed

lemma rs_inv_fail:
  assumes "rs_inv s" shows "rs_inv (fst (fail_unanswered i r s))"
proof (cases "hm_get (entries s) (rendezvous_key_new i r)")
  case (Some e)
  from assms have "hm_wf (entries s)" by (simp add: rs_inv_def)
  then have "entries_inv (hm_insert (rendezvous_key_new i r) e (hm_remove (rendezvous_key_new i r) (entries s)))"
    using assms entries_inv_mset [OF mset_reinsert [OF _ Some]] by (simp add: rs_inv_split)
  with assms Some show ?thesis
    by (simp add: fail_unanswered_def Let_def rs_inv_split entries_inv_remove)
qed (use assms in \<open>simp add: fail_unanswered_def\<close>)

lemma rs_inv_remove_peer: "rs_inv s \<Longrightarrow> rs_inv (fst (remove_peer p s))"
  by (simp add: remove_peer_def rs_inv_split entries_inv_retain windows_inv_remove)

lemmas rs_inv_ops = rs_inv_begin rs_inv_cache rs_inv_fail rs_inv_remove_peer

lemma rs_inv_step: "rs_inv s \<Longrightarrow> rs_inv (fst (rs_step matrix hit s ev))"
  by (cases ev) (auto simp: case_prod_unfold Let_def rs_inv_ops)

lemma rs_inv_run: "rs_inv s \<Longrightarrow> rs_inv (fst (rs_run matrix hit s evs))"
  by (induction evs arbitrary: s) (auto simp: case_prod_unfold Let_def rs_inv_step)

section \<open>Accounting of the parked duplicates\<close>

lemma balance_trans:
  assumes "waiters_balance s s' m" and "waiters_balance s' s'' m'"
  shows "waiters_balance s s'' (m @ m')"
proof -
  have "[next_waiter s..<next_waiter s''] =
      [next_waiter s..<next_waiter s'] @ [next_waiter s'..<next_waiter s'']"
    using assms upt_add_eq_append [of "next_waiter s" "next_waiter s'" "next_waiter s'' - next_waiter s'"]
    by (simp add: waiters_balance_def)
  then have "mset [next_waiter s..<next_waiter s''] =
      mset [next_waiter s..<next_waiter s'] + mset [next_waiter s'..<next_waiter s'']"
    by (simp only: mset_append)
  with assms show ?thesis
    unfolding waiters_balance_def map_append mset_append
    by (metis (no_types, lifting) add.assoc add.commute le_trans)
qed

lemma balance_refl: "waiters_balance s s []"
  by (simp add: waiters_balance_def)

lemma balance_cleanup: "waiters_balance s (fst (cleanup now s)) (snd (cleanup now s))"
  using open_retain by (simp add: cleanup_def waiters_balance_def)

lemma balance_remove_peer: "waiters_balance s (fst (remove_peer p s)) (snd (remove_peer p s))"
  using open_retain by (simp add: remove_peer_def waiters_balance_def)

lemma balance_fail:
  assumes "hm_wf (entries s)"
  shows "waiters_balance s (fst (fail_unanswered i r s)) (snd (fail_unanswered i r s))"
proof (cases "hm_get (entries s) (rendezvous_key_new i r)")
  case (Some e)
  with assms open_remove [OF assms Some] open_waiters_mset [OF mset_reinsert [OF assms Some]]
  show ?thesis by (simp add: fail_unanswered_def Let_def waiters_balance_def)
qed (simp add: fail_unanswered_def balance_refl)

lemma balance_cache:
  assumes "hm_wf (entries s)"
  shows "waiters_balance s (fst (cache_response matrix hit i r resp now s))
           (fst (snd (cache_response matrix hit i r resp now s)))"
proof (cases "hm_get (entries s) (rendezvous_key_new i r)")
  case (Some e)
  have answered: "mset (waiters e) + mset (open_waiters (hm_insert (rendezvous_key_new i r)
      (e\<lparr>waiters := [], response := c\<rparr>) (entries s))) = mset (open_waiters (entries s))" for c
    using open_insert_same [OF Some, of "e\<lparr>waiters := [], response := c\<rparr>"] by (simp add: ac_simps)
  with Some open_remove [OF assms Some] show ?thesis
    by (auto simp: cache_response_def Let_def waiters_balance_def split: sum.splits)
qed (simp add: cache_response_def balance_refl)

lemma balance_begin:
  "waiters_balance s (fst (rs_begin i r now s)) (fst (snd (rs_begin i r now s)))"
proof -
  obtain s1 msgs where c: "cleanup now s = (s1, msgs)" by fastforce
  have wait: "waiters_balance s1 (s1\<lparr>entries := hm_insert k (e\<lparr>waiters := waiters e @ [next_waiter s1]\<rparr>)
      (entries s1), next_waiter := Suc (next_waiter s1)\<rparr>) []"
    if "hm_get (entries s1) k = Some e" for k e
    using open_insert_same [OF that, of "e\<lparr>waiters := waiters e @ [next_waiter s1]\<rparr>"]
    by (simp add: waiters_balance_def)
  have fresh: "waiters_balance s1 (s1\<lparr>rate_windows := w, entries := hm_insert k (new_entry r now)
      (entries s1)\<rparr>) []" if "hm_get (entries s1) k = None" for k w
    using open_insert_new [OF that, of "new_entry r now"]
    by (simp add: waiters_balance_def new_entry_def)
  have rate: "waiters_balance s1 (s1\<lparr>rate_windows := w\<rparr>) []" for w
    by (simp add: waiters_balance_def)
  have "waiters_balance s1 (fst (rs_begin i r now s)) []"
    using c wait fresh rate balance_refl
    by (simp add: rs_begin_def Let_def split: option.splits)
  moreover have "fst (snd (rs_begin i r now s)) = msgs @ []"
    using c by (simp add: rs_begin_def Let_def split: option.splits)
  ultimately show ?thesis
    using balance_trans [of s s1 msgs _ "[]"] balance_cleanup [of s now] c by simp
qed

lemma balance_step:
  "rs_inv s \<Longrightarrow> waiters_balance s (fst (rs_step matrix hit s ev)) (snd (rs_step matrix hit s ev))"
  by (cases ev) (auto simp: case_prod_unfold Let_def rs_inv_def balance_begin balance_cache
      balance_fail balance_remove_peer)

lemma balance_run:
  "rs_inv s \<Longrightarrow> waiters_balance s (fst (rs_run matrix hit s evs)) (snd (rs_run matrix hit s evs))"
  by (induction evs arbitrary: s)
    (auto simp: case_prod_unfold Let_def balance_refl rs_inv_step intro: balance_trans [OF balance_step])

section \<open>Properties\<close>

text \<open>whatever sequence of requests, responses, failures and disconnections the SN handles,
  it never holds more than 256 live requests, 8 per pair of peers, 8 parked duplicates per request
  and 32 remembered request times per initiator.\<close>

theorem rendezvous_limits_hold:
  "let s = fst (rs_run matrix hit rs_new evs)
   in length (entries s) \<le> 256 \<and> (\<forall>i t. pair_count i t (entries s) \<le> 8) \<and>
      list_all (\<lambda>(k, e). length (waiters e) \<le> 8) (entries s) \<and>
      list_all (\<lambda>(i, ts). length ts \<le> 32) (rate_windows s)"
proof -
  have "rs_inv (fst (rs_run matrix hit rs_new evs))" by (intro rs_inv_run rs_inv_new)
  then show ?thesis
    by (auto simp: rs_inv_def Let_def list_all_iff entry_ok_def MAX_LIVE_ATTEMPTS_def
        MAX_LIVE_ATTEMPTS_PER_PAIR_def MAX_REQUESTS_PER_INITIATOR_WINDOW_def
        MAX_INFLIGHT_WAITERS_PER_ATTEMPT_def)
qed

text \<open>C33: every channel handed to a duplicate request is answered exactly once or is still
  parked, and none is both: the channels answered over a run, with those parked at its end, are
  exactly those created.\<close>

theorem waiters_answered_once:
  "mset (map fst (snd (rs_run matrix hit rs_new evs))) +
     mset (open_waiters (entries (fst (rs_run matrix hit rs_new evs)))) =
   mset [0..<next_waiter (fst (rs_run matrix hit rs_new evs))]"
  using balance_run [OF rs_inv_new, of matrix hit evs]
  by (simp add: waiters_balance_def rs_new_def open_waiters_def)

lemma cache_response_ok:
  assumes "cache_response matrix hit i r resp now s = (s', msgs, Inr ())"
  obtains e where "hm_get (entries s) (rendezvous_key_new i r) = Some e" and "now < expires_at e"
    and "rendezvous_eq (request e) r" and "msgs = answer_all (waiters e) (Inr resp)"
    and "s' = s\<lparr>entries := hm_insert (rendezvous_key_new i r) (e\<lparr>waiters := [],
           response := Some (if need_predict_endpoint r then resp_failure (seq r) else resp)\<rparr>) (entries s)\<rparr>"
  using assms by (auto simp: cache_response_def Let_def split: option.splits if_splits sum.splits)

lemma begin_live:
  assumes "hm_wf (entries s)" and "hm_get (entries s) (rendezvous_key_new i r) = Some e"
    and "now < expires_at e"
  shows "hm_get (entries (fst (cleanup now s))) (rendezvous_key_new i r) = Some e"
  using assms by (simp add: cleanup_def hm.get_retain_Some)

text \<open>once a response is cached, every parked duplicate has been sent that response, and a
  repetition of the request before the entry expires is answered from the cache: with the response
  itself, or with a failure when the request asked for predicted endpoints, which are not
  replayed.\<close>

theorem cached_response_replayed:
  assumes "rs_inv s" and "cache_response matrix hit i r resp now s = (s', msgs, Inr ())"
    and "hm_get (entries s) (rendezvous_key_new i r) = Some e" and "now' < expires_at e"
  shows "msgs = map (\<lambda>w. (w, Inr resp)) (waiters e) \<and>
         snd (snd (rs_begin i r now' s')) =
           Inr (Cached (if need_predict_endpoint r then resp_failure (seq r) else resp))"
proof -
  let ?e = "e\<lparr>waiters := [],
      response := Some (if need_predict_endpoint r then resp_failure (seq r) else resp)\<rparr>"
  from assms(2,3) have eq: "rendezvous_eq (request e) r" "msgs = answer_all (waiters e) (Inr resp)"
    and s': "s' = s\<lparr>entries := hm_insert (rendezvous_key_new i r) ?e (entries s)\<rparr>"
    by (auto elim: cache_response_ok)
  have "hm_get (entries (fst (cleanup now' s'))) (rendezvous_key_new i r) = Some ?e"
    using assms(1,4) s' by (intro begin_live) (auto simp: rs_inv_def hm.wf_insert hm.get_insert)
  with eq show ?thesis
    by (auto simp: rs_begin_def Let_def case_prod_unfold answer_all_def)
qed

text \<open>after a peer disconnects the table holds no request from or to it and no request times
  of it, every duplicate parked on such a request was told so, and the other peers' requests are
  untouched.\<close>

theorem remove_peer_complete:
  assumes "rs_inv s"
  shows "(\<forall>k e. hm_get (entries (fst (remove_peer p s))) k = Some e \<longleftrightarrow>
             hm_get (entries s) k = Some e \<and> initiator k \<noteq> p \<and> to_peer_id (request e) \<noteq> p) \<and>
         hm_get (rate_windows (fst (remove_peer p s))) p = None \<and>
         (\<forall>k e w. hm_get (entries s) k = Some e \<and> (initiator k = p \<or> to_peer_id (request e) = p) \<and>
             w \<in> set (waiters e) \<longrightarrow> (w, Inl UserCanceled) \<in> set (snd (remove_peer p s)))"
proof -
  have "(w, Inl UserCanceled) \<in> set (snd (remove_peer p s))"
    if "hm_get (entries s) k = Some e" "initiator k = p \<or> to_peer_id (request e) = p"
      "w \<in> set (waiters e)" for k e w
    using that hm_get_SomeD [OF that(1)]
    by (force simp: remove_peer_def drop_messages_def keep_peer_def answer_all_def)
  with assms show ?thesis
    by (auto simp: remove_peer_def rs_inv_def hm.get_retain_Some hm.get_remove keep_peer_def)
qed

lemma parked_state_inv: "rs_inv parked_state"
proof -
  have "pair_count i t (entries parked_state) \<le> 8" for i t
    by (simp add: parked_state_def pair_count_def)
  then show ?thesis
    by (simp add: rs_inv_def parked_state_def hm_wf_def parked_entry_def sample_request_def entry_ok_def
        MAX_LIVE_ATTEMPTS_def MAX_LIVE_ATTEMPTS_PER_PAIR_def MAX_REQUESTS_PER_INITIATOR_WINDOW_def
        MAX_INFLIGHT_WAITERS_PER_ATTEMPT_def)
qed

lemma parked_state_get:
  "hm_get (entries parked_state) (rendezvous_key_new (P2pId [2]) sample_request) = Some parked_entry"
  by (simp add: parked_state_def rendezvous_key_new_def sample_request_def hm_get_def)

lemma parked_eq: "rendezvous_eq sample_request sample_request"
  by (simp add: rendezvous_eq_def list_all2_refl endpoint_eq_def sample_request_def)

lemma parked_cache_ok:
  "cache_response False (=) (P2pId [2]) sample_request (resp_failure (Sequence 7)) 50 parked_state =
   (parked_state\<lparr>entries := hm_insert (rendezvous_key_new (P2pId [2]) sample_request)
      (parked_entry\<lparr>waiters := [], response := Some (resp_failure (Sequence 7))\<rparr>) (entries parked_state)\<rparr>,
    answer_all [0] (Inr (resp_failure (Sequence 7))), Inr ())"
proof -
  have "seq sample_request = Sequence 7" "\<not> need_predict_endpoint sample_request"
    by (simp_all add: sample_request_def)
  then show ?thesis
    by (simp add: cache_response_def parked_state_get resp_failure_valid Let_def)
      (simp add: parked_entry_def parked_eq)
qed

theorem cached_response_replayed_witness:
  "snd (snd (rs_begin (P2pId [2]) sample_request 60
     (fst (cache_response False (=) (P2pId [2]) sample_request (resp_failure (Sequence 7)) 50
        parked_state)))) = Inr (Cached (resp_failure (Sequence 7)))"
  using cached_response_replayed [OF parked_state_inv parked_cache_ok parked_state_get, of 60]
  by (simp add: parked_cache_ok) (simp add: parked_entry_def sample_request_def)

theorem remove_peer_complete_witness:
  "rs_inv parked_state \<and> (0, Inl UserCanceled) \<in> set (snd (remove_peer (P2pId [1]) parked_state))"
  using remove_peer_complete [OF parked_state_inv, of "P2pId [1]"] parked_state_inv parked_state_get
  by (force simp: parked_entry_def sample_request_def)

end
