(* ===== verification/NatProbeScheduler.thy ===== *)
theory NatProbeScheduler
  imports NatType
begin

text \<open>
  \<open>p2p-frame/src/sn/service/nat_probe_scheduler.rs\<close>, with the probe messages of
  \<open>sn/protocol/sn.rs\<close>: the SN asks the peers that report over UDP to probe their NAT, one directive
  in flight per peer and a bounded number in all, and publishes the profile a peer answers with.
  Everything that identifies a directive is echoed in its result, so that results of another
  registration, configuration, peer or SN are rejected.

  \<open>CmdTunnelId\<close> is a type of another crate that the scheduler only compares: a type variable.
  Logging has no counterpart.
\<close>

section \<open>Definitions\<close>

subsection \<open>Probe messages\<close>

definition NAT_PROBE_CONTROL_VERSION :: u8 where "NAT_PROBE_CONTROL_VERSION = 1"
definition MAX_NAT_PROBE_ENDPOINTS :: nat where "MAX_NAT_PROBE_ENDPOINTS = 8"

definition supported_nat_profile :: "nat_profile option \<Rightarrow> nat_profile option" where
  "supported_nat_profile p =
     (case p of Some q \<Rightarrow> if profile_is_supported q then Some q else None | None \<Rightarrow> None)"

definition supported_nat_probe_ports :: "u16 list \<Rightarrow> bool" where
  "supported_nat_probe_ports ps =
     (2 \<le> length ps \<and> length ps \<le> MAX_NAT_PROBE_ENDPOINTS \<and> (\<forall>p \<in> set ps. p \<noteq> 0) \<and>
      card (set ps) = length ps)"

record nat_probe_directive =
  dir_version :: u8
  dir_sn_peer_id :: p2p_id
  dir_peer_id :: p2p_id
  dir_registration_generation :: u64
  dir_request_id :: u64
  dir_probe_config_generation :: u64
  dir_expires_at :: timestamp
  dir_ports :: "u16 list"

definition directive_is_supported :: "nat_probe_directive \<Rightarrow> bool" where
  "directive_is_supported d =
     (dir_version d = NAT_PROBE_CONTROL_VERSION \<and> supported_nat_probe_ports (dir_ports d))"

record nat_probe_result =
  res_version :: u8
  res_sn_peer_id :: p2p_id
  res_peer_id :: p2p_id
  res_registration_generation :: u64
  res_request_id :: u64
  res_probe_config_generation :: u64
  res_profile :: nat_profile

definition from_directive :: "nat_probe_directive \<Rightarrow> nat_profile \<Rightarrow> nat_probe_result" where
  "from_directive d p = \<lparr>res_version = dir_version d, res_sn_peer_id = dir_sn_peer_id d,
     res_peer_id = dir_peer_id d, res_registration_generation = dir_registration_generation d,
     res_request_id = dir_request_id d, res_probe_config_generation = dir_probe_config_generation d,
     res_profile = p\<rparr>"

definition result_is_supported :: "nat_probe_result \<Rightarrow> bool" where
  "result_is_supported r =
     (res_version r = NAT_PROBE_CONTROL_VERSION \<and> profile_is_supported (res_profile r))"

definition supported_nat_context :: "nat_traversal_context option \<Rightarrow> nat_traversal_context option" where
  "supported_nat_context c =
     (case c of
        Some x \<Rightarrow> if ctx_version x = NAT_TRAVERSAL_CONTEXT_VERSION \<and>
                     profile_is_supported (caller_profile x) \<and> profile_is_supported (callee_profile x)
                  then Some x else None
      | None \<Rightarrow> None)"

subsection \<open>The scheduler\<close>

definition NAT_PROBE_PERIOD :: duration where "NAT_PROBE_PERIOD = from_secs (2 * 60 * 60)"
definition NAT_PROBE_DIRECTIVE_TIMEOUT :: duration where "NAT_PROBE_DIRECTIVE_TIMEOUT = from_secs 30"
definition MAX_CONCURRENT_NAT_PROBES :: nat where "MAX_CONCURRENT_NAT_PROBES = 2048"

datatype probe_trigger_reason = TriggerOnline | ExternalAddress

datatype probe_result_reject_reason =
    MissingAuthority | CapabilityUnsupported | VersionUnsupported | ProfileStale | SnMismatch
  | PeerMismatch | RegistrationGenerationMismatch | ConfigGenerationMismatch | MissingInFlight
  | RequestMismatch | DeadlineExpired

record in_flight_probe =
  probe_request_id :: u64
  probe_expires_at :: timestamp

record 't peer_probe_state =
  authority_tunnel_id :: 't
  remote_endpoint :: endpoint
  registration_generation :: u64
  peer_config_generation :: u64
  in_flight :: "in_flight_probe option"
  next_periodic_at :: timestamp
  pending_trigger :: "probe_trigger_reason option"
  peer_profile :: "nat_profile option"
  control_supported :: bool

record probe_transition =
  directive :: "nat_probe_directive option"
  profile_update :: "nat_profile option option"

definition transition_default :: probe_transition where
  "transition_default = \<lparr>directive = None, profile_update = None\<rparr>"

record 't scheduler =
  sn_peer_id :: p2p_id
  ports :: "u16 list"
  config_generation :: u64
  next_registration_generation :: u64
  next_request_id :: u64
  peers :: "(p2p_id, 't peer_probe_state) hmap"

definition scheduler_new :: "p2p_id \<Rightarrow> 't scheduler" where
  "scheduler_new i = \<lparr>sn_peer_id = i, ports = [], config_generation = 1,
     next_registration_generation = 1, next_request_id = 1, peers = []\<rparr>"

text \<open>\<open>g.wrapping_add(1).max(1)\<close>.\<close>

definition bump :: "u64 \<Rightarrow> u64" where "bump g = max (g + 1) 1"

definition probe_ports_valid :: "u16 list \<Rightarrow> bool" where
  "probe_ports_valid ps =
     (2 \<le> length ps \<and> length ps \<le> MAX_NAT_PROBE_ENDPOINTS \<and> (\<forall>p \<in> set ps. p \<noteq> 0) \<and>
      (\<forall>(a, b) \<in> set (windows2 ps). a \<noteq> b))"

definition set_ports :: "u16 list \<Rightarrow> 't scheduler \<Rightarrow> 't scheduler \<times> p2p_id list" where
  "set_ports ps s =
     (let sorted_ports = sort_by cmp_ord ps;
          effective = (if probe_ports_valid sorted_ports then sorted_ports else [])
      in if effective = ports s then (s, [])
         else let generation = bump (config_generation s)
              in (s\<lparr>ports := effective, config_generation := generation,
                    peers := map (\<lambda>(k, st). (k, st\<lparr>peer_config_generation := generation,
                               in_flight := None, peer_profile := None\<rparr>)) (peers s)\<rparr>,
                  map fst (peers s)))"

definition set_sn_peer_id :: "p2p_id \<Rightarrow> 't scheduler \<Rightarrow> 't scheduler" where
  "set_sn_peer_id i s = (if sn_peer_id s = i then s else s\<lparr>sn_peer_id := i, peers := []\<rparr>)"

definition same_observed_path :: "endpoint \<Rightarrow> endpoint \<Rightarrow> bool" where
  "same_observed_path a b = (protocol a = protocol b \<and> addr a = addr b)"

definition is_authoritative_report :: "'t peer_probe_state \<Rightarrow> 't \<Rightarrow> endpoint \<Rightarrow> bool" where
  "is_authoritative_report st t ep =
     (authority_tunnel_id st = t \<or> same_observed_path (remote_endpoint st) ep)"

definition observe_ineligible_report ::
    "p2p_id \<Rightarrow> 't \<Rightarrow> 't scheduler \<Rightarrow> 't scheduler \<times> probe_transition" where
  "observe_ineligible_report p t s =
     (case hm_get (peers s) p of
        Some st \<Rightarrow>
          if authority_tunnel_id st = t
          then (s\<lparr>peers := hm_remove p (peers s)\<rparr>, \<lparr>directive = None, profile_update = Some None\<rparr>)
          else (s, transition_default)
      | None \<Rightarrow> (s, transition_default))"

definition finish_expired ::
    "p2p_id \<Rightarrow> timestamp \<Rightarrow> 't scheduler \<times> probe_transition \<Rightarrow> 't scheduler \<times> probe_transition" where
  "finish_expired p now st_tr =
     (let (s, tr) = st_tr
      in case hm_get (peers s) p of
           None \<Rightarrow> (s, tr)
         | Some st \<Rightarrow>
             (case in_flight st of
                None \<Rightarrow> (s, tr)
              | Some probe \<Rightarrow>
                  if \<not> probe_expires_at probe < now then (s, tr)
                  else (s\<lparr>peers := hm_insert p (st\<lparr>in_flight := None, peer_profile := None,
                            pending_trigger := None,
                            next_periodic_at := sat_add now (duration_to_bucky_time NAT_PROBE_PERIOD)\<rparr>)
                            (peers s)\<rparr>,
                        tr\<lparr>profile_update := Some None\<rparr>)))"

definition result_rejection ::
    "'t scheduler \<Rightarrow> p2p_id \<Rightarrow> 't peer_probe_state \<Rightarrow> nat_probe_result \<Rightarrow> timestamp \<Rightarrow>
     probe_result_reject_reason option" where
  "result_rejection s p st r now =
     (if \<not> control_supported st then Some CapabilityUnsupported
      else if \<not> result_is_supported r then Some VersionUnsupported
      else if \<not> (observation (res_profile r) = Unknown \<or> profile_is_fresh (res_profile r) now)
      then Some ProfileStale
      else if res_sn_peer_id r \<noteq> sn_peer_id s then Some SnMismatch
      else if res_peer_id r \<noteq> p then Some PeerMismatch
      else if res_registration_generation r \<noteq> registration_generation st
      then Some RegistrationGenerationMismatch
      else if res_probe_config_generation r \<noteq> peer_config_generation st
      then Some ConfigGenerationMismatch
      else (case in_flight st of
          None \<Rightarrow> Some MissingInFlight
        | Some probe \<Rightarrow>
            if probe_request_id probe \<noteq> res_request_id r then Some RequestMismatch
            else if probe_expires_at probe < now then Some DeadlineExpired
            else None))"

definition accept_result ::
    "p2p_id \<Rightarrow> nat_probe_result \<Rightarrow> timestamp \<Rightarrow> 't scheduler \<times> probe_transition \<Rightarrow>
     't scheduler \<times> probe_transition" where
  "accept_result p r now st_tr =
     (let (s, tr) = st_tr
      in case hm_get (peers s) p of
           None \<Rightarrow> (s, tr)
         | Some st \<Rightarrow>
             if result_rejection s p st r now \<noteq> None then (s, tr)
             else let until = sat_add now (duration_to_bucky_time NAT_PROBE_PERIOD);
                      st1 = st\<lparr>in_flight := None, pending_trigger := None, next_periodic_at := until\<rparr>
                  in if observation (res_profile r) = Unknown
                     then (s\<lparr>peers := hm_insert p (st1\<lparr>peer_profile := None\<rparr>) (peers s)\<rparr>,
                           tr\<lparr>profile_update := Some None\<rparr>)
                     else let profile = (res_profile r)\<lparr>valid_until := until\<rparr>
                          in (s\<lparr>peers := hm_insert p (st1\<lparr>peer_profile := Some profile\<rparr>) (peers s)\<rparr>,
                              tr\<lparr>profile_update := Some (Some profile)\<rparr>))"

definition in_flight_count :: "(p2p_id, 't peer_probe_state) hmap \<Rightarrow> nat" where
  "in_flight_count m = length (filter (\<lambda>st. in_flight st \<noteq> None) (hm_values m))"

definition issue_if_due ::
    "p2p_id \<Rightarrow> timestamp \<Rightarrow> 't scheduler \<Rightarrow> 't scheduler \<times> nat_probe_directive option" where
  "issue_if_due p now s =
     (case hm_get (peers s) p of
        None \<Rightarrow> (s, None)
      | Some st \<Rightarrow>
          (case pending_trigger st of
             None \<Rightarrow> (s, None)
           | Some trigger \<Rightarrow>
               if ports s = [] \<or> \<not> control_supported st \<or> in_flight st \<noteq> None \<or>
                  in_flight_count (peers s) \<ge> MAX_CONCURRENT_NAT_PROBES
               then (s, None)
               else
                 let request = next_request_id s;
                     expires = sat_add now (duration_to_bucky_time NAT_PROBE_DIRECTIVE_TIMEOUT);
                     st' = st\<lparr>in_flight := Some \<lparr>probe_request_id = request, probe_expires_at = expires\<rparr>,
                              pending_trigger := None\<rparr>
                 in (s\<lparr>next_request_id := bump request, peers := hm_insert p st' (peers s)\<rparr>,
                     Some \<lparr>dir_version = NAT_PROBE_CONTROL_VERSION, dir_sn_peer_id = sn_peer_id s,
                           dir_peer_id = p, dir_registration_generation = registration_generation st,
                           dir_request_id = request,
                           dir_probe_config_generation = peer_config_generation st,
                           dir_expires_at = expires, dir_ports = ports s\<rparr>)))"

text \<open>The registration both observers write; a changed address keeps the published profile.\<close>

definition register_peer ::
    "p2p_id \<Rightarrow> 't \<Rightarrow> endpoint \<Rightarrow> bool \<Rightarrow> timestamp \<Rightarrow> 't scheduler \<Rightarrow> 't scheduler \<times> probe_transition" where
  "register_peer p t ep supported now s =
     (let old = hm_get (peers s) p; generation = next_registration_generation s
      in (s\<lparr>next_registration_generation := bump generation,
            peers := hm_insert p
              \<lparr>authority_tunnel_id = t, remote_endpoint = ep, registration_generation = generation,
               peer_config_generation = config_generation s, in_flight = None, next_periodic_at = now,
               pending_trigger = Some (if old = None then TriggerOnline else ExternalAddress),
               peer_profile = (case old of Some st \<Rightarrow> peer_profile st | None \<Rightarrow> None),
               control_supported = supported\<rparr> (peers s)\<rparr>,
          if old = None then transition_default\<lparr>profile_update := Some None\<rparr> else transition_default))"

definition needs_registration :: "'t scheduler \<Rightarrow> p2p_id \<Rightarrow> endpoint \<Rightarrow> bool" where
  "needs_registration s p ep =
     (case hm_get (peers s) p of Some st \<Rightarrow> addr (remote_endpoint st) \<noteq> addr ep | None \<Rightarrow> True)"

definition ignored_report :: "'t scheduler \<Rightarrow> p2p_id \<Rightarrow> 't \<Rightarrow> endpoint \<Rightarrow> bool" where
  "ignored_report s p t ep =
     (case hm_get (peers s) p of Some st \<Rightarrow> \<not> is_authoritative_report st t ep | None \<Rightarrow> False)"

definition update_capability ::
    "p2p_id \<Rightarrow> bool \<Rightarrow> 't scheduler \<Rightarrow> 't scheduler \<times> probe_transition" where
  "update_capability p supported s =
     (case hm_get (peers s) p of
        None \<Rightarrow> (s, transition_default)
      | Some st \<Rightarrow>
          if control_supported st \<and> \<not> supported
          then (s\<lparr>peers := hm_insert p (st\<lparr>in_flight := None, peer_profile := None,
                     control_supported := supported\<rparr>) (peers s)\<rparr>,
                transition_default\<lparr>profile_update := Some None\<rparr>)
          else (s\<lparr>peers := hm_insert p (st\<lparr>control_supported := supported\<rparr>) (peers s)\<rparr>,
                transition_default))"

definition observe_capable_report ::
    "p2p_id \<Rightarrow> 't \<Rightarrow> endpoint \<Rightarrow> u8 option \<Rightarrow> nat_probe_result option \<Rightarrow> timestamp \<Rightarrow> 't scheduler \<Rightarrow>
     't scheduler \<times> probe_transition" where
  "observe_capable_report p t ep control_version result now s =
     (if \<not> is_udp ep then observe_ineligible_report p t s
      else if ignored_report s p t ep then (s, transition_default)
      else
        let supported = (control_version = Some NAT_PROBE_CONTROL_VERSION);
            st1 = (if needs_registration s p ep then register_peer p t ep supported now s
                   else update_capability p supported s);
            st2 = finish_expired p now st1;
            (s3, tr) = (case result of Some r \<Rightarrow> accept_result p r now st2 | None \<Rightarrow> st2);
            (s4, d) = issue_if_due p now s3
        in (s4, tr\<lparr>directive := d\<rparr>))"

definition observe_reported_profile ::
    "p2p_id \<Rightarrow> 't \<Rightarrow> endpoint \<Rightarrow> nat_profile \<Rightarrow> timestamp \<Rightarrow> 't scheduler \<Rightarrow>
     't scheduler \<times> probe_transition" where
  "observe_reported_profile p t ep prof now s =
     (case hm_get (peers s) p of
        None \<Rightarrow> (s, transition_default)
      | Some st \<Rightarrow>
          if \<not> is_udp ep \<or> \<not> is_authoritative_report st t ep \<or> \<not> profile_is_fresh prof now \<or>
             (case peer_profile st of
                Some cur \<Rightarrow> profile_is_fresh cur now \<and> observed_at prof < observed_at cur
              | None \<Rightarrow> False)
          then (s, transition_default)
          else (s\<lparr>peers := hm_insert p (st\<lparr>peer_profile := Some prof,
                     next_periodic_at := sat_add now (duration_to_bucky_time NAT_PROBE_PERIOD)\<rparr>)
                     (peers s)\<rparr>,
                transition_default\<lparr>profile_update := Some (Some prof)\<rparr>))"

definition observe_control ::
    "p2p_id \<Rightarrow> 't \<Rightarrow> endpoint \<Rightarrow> timestamp \<Rightarrow> 't scheduler \<Rightarrow> 't scheduler \<times> probe_transition" where
  "observe_control p t ep now s =
     (if \<not> is_udp ep then observe_ineligible_report p t s
      else if ignored_report s p t ep then (s, transition_default)
      else
        let supported = (case hm_get (peers s) p of Some st \<Rightarrow> control_supported st | None \<Rightarrow> False)
        in finish_expired p now
             (if needs_registration s p ep then register_peer p t ep supported now s
              else (s, transition_default)))"

definition authority_tunnel :: "'t scheduler \<Rightarrow> p2p_id \<Rightarrow> 't option" where
  "authority_tunnel s p = map_option authority_tunnel_id (hm_get (peers s) p)"

definition authority_registration :: "'t scheduler \<Rightarrow> p2p_id \<Rightarrow> ('t \<times> u64) option" where
  "authority_registration s p =
     map_option (\<lambda>st. (authority_tunnel_id st, registration_generation st)) (hm_get (peers s) p)"

definition authority_observed_endpoint :: "'t scheduler \<Rightarrow> p2p_id \<Rightarrow> endpoint option" where
  "authority_observed_endpoint s p = map_option remote_endpoint (hm_get (peers s) p)"

definition authorities :: "'t scheduler \<Rightarrow> (p2p_id \<times> 't) list" where
  "authorities s = map (\<lambda>(p, st). (p, authority_tunnel_id st)) (peers s)"

fun expire_loop ::
    "timestamp \<Rightarrow> p2p_id list \<Rightarrow> 't scheduler \<Rightarrow> p2p_id list \<Rightarrow> 't scheduler \<times> p2p_id list" where
  "expire_loop now [] s acc = (s, acc)"
| "expire_loop now (p # ps) s acc =
     (let (s', tr) = finish_expired p now (s, transition_default)
      in expire_loop now ps s' (if profile_update tr \<noteq> None then acc @ [p] else acc))"

definition expire_due :: "timestamp \<Rightarrow> 't scheduler \<Rightarrow> 't scheduler \<times> p2p_id list" where
  "expire_due now s = expire_loop now (map fst (peers s)) s []"

definition current_profile :: "'t scheduler \<Rightarrow> p2p_id \<Rightarrow> timestamp \<Rightarrow> nat_profile option" where
  "current_profile s p now =
     (case hm_get (peers s) p of
        None \<Rightarrow> None
      | Some st \<Rightarrow>
          (case peer_profile st of
             Some prof \<Rightarrow> if profile_is_fresh prof now then Some prof else None
           | None \<Rightarrow> None))"

definition scheduler_remove_peer :: "p2p_id \<Rightarrow> 't scheduler \<Rightarrow> 't scheduler \<times> bool" where
  "scheduler_remove_peer p s =
     (case hm_get (peers s) p of
        None \<Rightarrow> (s, False)
      | Some st \<Rightarrow> (s\<lparr>peers := hm_remove p (peers s)\<rparr>, True))"

definition remove_peer_if_authority ::
    "p2p_id \<Rightarrow> 't \<Rightarrow> u64 \<Rightarrow> 't scheduler \<Rightarrow> 't scheduler \<times> bool" where
  "remove_peer_if_authority p t g s =
     (if authority_registration s p = Some (t, g) then scheduler_remove_peer p s else (s, False))"

subsection \<open>Invariant and runs\<close>

definition peer_ok :: "u64 \<Rightarrow> u16 list \<Rightarrow> 't peer_probe_state \<Rightarrow> bool" where
  "peer_ok cfg ps st =
     (peer_config_generation st = cfg \<and> is_udp (remote_endpoint st) \<and>
      (in_flight st \<noteq> None \<longrightarrow> control_supported st \<and> pending_trigger st = None \<and> ps \<noteq> []) \<and>
      (case peer_profile st of
         Some q \<Rightarrow> profile_is_supported q \<and> observation q \<noteq> Unknown | None \<Rightarrow> True))"

definition sched_inv :: "'t scheduler \<Rightarrow> bool" where
  "sched_inv s =
     (hm_wf (peers s) \<and> (ports s = [] \<or> supported_nat_probe_ports (ports s)) \<and>
      in_flight_count (peers s) \<le> MAX_CONCURRENT_NAT_PROBES \<and>
      (\<forall>(p, st) \<in> set (peers s). peer_ok (config_generation s) (ports s) st))"

text \<open>The registration of a peer after a report that was not ignored.\<close>

definition registered_on :: "'t scheduler \<Rightarrow> p2p_id \<Rightarrow> 't \<Rightarrow> endpoint \<Rightarrow> bool" where
  "registered_on s p t ep =
     (case hm_get (peers s) p of
        Some st \<Rightarrow> is_authoritative_report st t ep \<and> addr (remote_endpoint st) = addr ep
      | None \<Rightarrow> False)"

datatype 't sched_event =
    SetPorts "u16 list" | SetSn p2p_id
  | Capable p2p_id 't endpoint "u8 option" "nat_probe_result option" timestamp
  | Reported p2p_id 't endpoint nat_profile timestamp
  | Control p2p_id 't endpoint timestamp
  | ExpireDue timestamp | Remove p2p_id | RemoveIf p2p_id 't u64

fun sched_step :: "'t sched_event \<Rightarrow> 't scheduler \<Rightarrow> 't scheduler" where
  "sched_step (SetPorts ps) s = fst (set_ports ps s)"
| "sched_step (SetSn i) s = set_sn_peer_id i s"
| "sched_step (Capable p t ep v r now) s = fst (observe_capable_report p t ep v r now s)"
| "sched_step (Reported p t ep prof now) s = fst (observe_reported_profile p t ep prof now s)"
| "sched_step (Control p t ep now) s = fst (observe_control p t ep now s)"
| "sched_step (ExpireDue now) s = fst (expire_due now s)"
| "sched_step (Remove p) s = fst (scheduler_remove_peer p s)"
| "sched_step (RemoveIf p t g) s = fst (remove_peer_if_authority p t g s)"

subsection \<open>Sample states\<close>

definition sample_path :: endpoint where
  "sample_path = \<lparr>area = ServerReflexive, protocol = Quic, addr = V4 (Ipv4 203 0 113 7) 3456\<rparr>"

definition sample_profile :: nat_profile where
  "sample_profile = \<lparr>prof_version = NAT_PROFILE_VERSION, observation = NonSymmetricLike,
     observed_at = 15, valid_until = 40, prediction_hint = None\<rparr>"

definition sample_scheduler :: "nat scheduler" where
  "sample_scheduler = (scheduler_new (P2pId [1]))\<lparr>ports := [10, 20]\<rparr>"

definition sample_in_flight :: "nat scheduler" where
  "sample_in_flight = sample_scheduler\<lparr>next_request_id := 8, next_registration_generation := 4,
     peers := [(P2pId [5], \<lparr>authority_tunnel_id = 0, remote_endpoint = sample_path,
       registration_generation = 3, peer_config_generation = 1,
       in_flight = Some \<lparr>probe_request_id = 7, probe_expires_at = 100\<rparr>, next_periodic_at = 0,
       pending_trigger = None, peer_profile = None, control_supported = True\<rparr>)]\<rparr>"

definition sample_result :: nat_probe_result where
  "sample_result = \<lparr>res_version = NAT_PROBE_CONTROL_VERSION, res_sn_peer_id = P2pId [1],
     res_peer_id = P2pId [5], res_registration_generation = 3, res_request_id = 7,
     res_probe_config_generation = 1, res_profile = sample_profile\<rparr>"

section \<open>Frame lemmas\<close>

lemma in_flight_count_insert:
  "hm_get m p = Some st \<Longrightarrow>
   in_flight_count (hm_insert p st' m) + (if in_flight st \<noteq> None then 1 else 0) =
   in_flight_count m + (if in_flight st' \<noteq> None then 1 else 0)"
  "hm_get m p = None \<Longrightarrow>
   in_flight_count (hm_insert p st' m) = in_flight_count m + (if in_flight st' \<noteq> None then 1 else 0)"
  unfolding in_flight_count_def hm_values_def hm_insert_def hm_get_def
  by (induction m) (auto split: if_splits)

lemma in_flight_count_remove: "in_flight_count (hm_remove p m) \<le> in_flight_count m"
  unfolding in_flight_count_def hm_values_def hm_remove_def by (induction m) auto

lemma inv_get: "sched_inv s \<Longrightarrow> hm_get (peers s) p = Some st \<Longrightarrow> peer_ok (config_generation s) (ports s) st"
  by (auto simp: sched_inv_def dest: hm_get_SomeD)

lemma inv_put:
  assumes "sched_inv s" and "peer_ok (config_generation s) (ports s) st'"
    and "in_flight st' = None \<or> in_flight_count (peers s) < MAX_CONCURRENT_NAT_PROBES \<or>
         (\<exists>st. hm_get (peers s) p = Some st \<and> in_flight st \<noteq> None)"
  shows "sched_inv (s\<lparr>peers := hm_insert p st' (peers s)\<rparr>)"
proof -
  have "in_flight_count (hm_insert p st' (peers s)) \<le> MAX_CONCURRENT_NAT_PROBES"
    using assms(1,3) in_flight_count_insert(1) [of "peers s" p _ st']
      in_flight_count_insert(2) [of "peers s" p st']
    by (cases "hm_get (peers s) p") (fastforce simp: sched_inv_def split: if_splits)+
  with assms(1,2) set_hm_insert [of p st' "peers s"] show ?thesis
    by (auto simp: sched_inv_def hm.wf_insert)
qed

lemma inv_remove: "sched_inv s \<Longrightarrow> sched_inv (s\<lparr>peers := hm_remove p (peers s)\<rparr>)"
  using set_hm_remove [of p "peers s"] in_flight_count_remove [of p "peers s"]
  by (auto simp: sched_inv_def hm.wf_remove)

lemma inv_counters [simp]:
  "sched_inv (s\<lparr>next_request_id := a, peers := m\<rparr>) = sched_inv (s\<lparr>peers := m\<rparr>)"
  "sched_inv (s\<lparr>next_registration_generation := a, peers := m\<rparr>) = sched_inv (s\<lparr>peers := m\<rparr>)"
  by (simp_all add: sched_inv_def)

text \<open>A peer state that only loses its directive or its profile stays well formed.\<close>

lemma peer_ok_quiet:
  "peer_ok c ps st \<Longrightarrow> in_flight st' = None \<Longrightarrow> peer_profile st' = None \<or> peer_profile st' = peer_profile st \<Longrightarrow>
   peer_config_generation st' = peer_config_generation st \<Longrightarrow> remote_endpoint st' = remote_endpoint st \<Longrightarrow>
   peer_ok c ps st'"
  by (auto simp: peer_ok_def)

section \<open>The invariant\<close>

lemma inv_new: "sched_inv (scheduler_new i)"
  by (simp add: sched_inv_def scheduler_new_def hm_wf_def in_flight_count_def hm_values_def)

lemma adjacent_distinct_sorted:
  "sorted ps \<Longrightarrow> (\<forall>(a, b) \<in> set (windows2 ps). a \<noteq> b) \<Longrightarrow> distinct (ps :: u16 list)"
proof (induction ps)
  case (Cons a ps)
  show ?case
  proof (cases ps)
    case (Cons b qs)
    with Cons.prems Cons.IH have "distinct ps" and "a \<noteq> b" and "\<forall>x \<in> set ps. b \<le> x" "a \<le> b"
      by (auto simp: windows2_def)
    with Cons show ?thesis by fastforce
  qed simp
qed simp

lemma valid_ports_supported:
  "probe_ports_valid (sort_by cmp_ord ps) \<Longrightarrow> supported_nat_probe_ports (sort_by cmp_ord ps)"
proof -
  have "sorted (sort_by cmp_ord ps)"
    using linord.sorted_sort_by [of ps] by (simp add: not_less)
  then show "probe_ports_valid (sort_by cmp_ord ps) \<Longrightarrow> ?thesis"
    by (auto simp: probe_ports_valid_def supported_nat_probe_ports_def
        intro!: distinct_card adjacent_distinct_sorted)
qed

lemma inv_set_ports: "sched_inv s \<Longrightarrow> sched_inv (fst (set_ports ps s))"
proof -
  assume inv: "sched_inv s"
  let ?f = "\<lambda>(k, st). (k, st\<lparr>peer_config_generation := bump (config_generation s),
      in_flight := None, peer_profile := None\<rparr>)"
  have "hm_wf (map ?f (peers s))"
    using inv by (simp add: sched_inv_def hm_wf_def o_def case_prod_unfold)
  moreover have "in_flight_count (map ?f (peers s)) = 0"
    by (auto simp: in_flight_count_def hm_values_def filter_empty_conv)
  moreover have "\<forall>(p, st) \<in> set (map ?f (peers s)). peer_ok (bump (config_generation s)) q st" for q
    using inv by (auto simp: sched_inv_def peer_ok_def)
  ultimately have "sched_inv (s\<lparr>ports := q, config_generation := bump (config_generation s),
      peers := map ?f (peers s)\<rparr>)" if "q = [] \<or> supported_nat_probe_ports q" for q
    using that unfolding sched_inv_def by simp
  with inv valid_ports_supported [of ps] show ?thesis by (simp add: set_ports_def Let_def)
qed

lemma inv_ineligible: "sched_inv s \<Longrightarrow> sched_inv (fst (observe_ineligible_report p t s))"
  by (auto simp: observe_ineligible_report_def inv_remove split: option.splits)

lemma inv_finish: "sched_inv (fst x) \<Longrightarrow> sched_inv (fst (finish_expired p now x))"
  by (cases x) (auto simp: finish_expired_def split: option.splits dest: inv_get
      intro!: inv_put intro: peer_ok_quiet)

lemma inv_accept: "sched_inv (fst x) \<Longrightarrow> sched_inv (fst (accept_result p r now x))"
  by (cases x) (auto simp: accept_result_def Let_def result_rejection_def result_is_supported_def peer_ok_def
      profile_is_supported_def split: option.splits if_splits dest: inv_get intro!: inv_put)

lemma inv_register:
  "sched_inv s \<Longrightarrow> is_udp ep \<Longrightarrow> sched_inv (fst (register_peer p t ep supported now s))"
  by (auto simp: register_peer_def Let_def peer_ok_def split: option.splits dest: inv_get intro!: inv_put)

lemma inv_capability: "sched_inv s \<Longrightarrow> sched_inv (fst (update_capability p supported s))"
  by (auto simp: update_capability_def peer_ok_def split: option.splits dest: inv_get intro!: inv_put)

lemma inv_issue: "sched_inv s \<Longrightarrow> sched_inv (fst (issue_if_due p now s))"
  by (auto simp: issue_if_due_def Let_def peer_ok_def not_le split: option.splits dest: inv_get intro!: inv_put)

lemma inv_capable: "sched_inv s \<Longrightarrow> sched_inv (fst (observe_capable_report p t ep v r now s))"
proof -
  assume inv: "sched_inv s"
  let ?sup = "v = Some NAT_PROBE_CONTROL_VERSION"
  let ?st1 = "if needs_registration s p ep then register_peer p t ep ?sup now s else update_capability p ?sup s"
  let ?st3 = "case r of Some r \<Rightarrow> accept_result p r now (finish_expired p now ?st1) | None \<Rightarrow> finish_expired p now ?st1"
  have "sched_inv (fst ?st3)" if "is_udp ep"
  proof -
    have "sched_inv (fst ?st1)" using inv that by (simp add: inv_register inv_capability)
    then have "sched_inv (fst (finish_expired p now ?st1))" by (rule inv_finish)
    then show ?thesis by (cases r) (simp_all add: inv_accept)
  qed
  with inv show ?thesis
    by (auto simp: observe_capable_report_def Let_def case_prod_unfold inv_ineligible inv_issue)
qed

lemma inv_reported: "sched_inv s \<Longrightarrow> sched_inv (fst (observe_reported_profile p t ep prof now s))"
  by (auto simp: observe_reported_profile_def peer_ok_def profile_is_fresh_def
      split: option.splits dest: inv_get intro!: inv_put)

lemma inv_control: "sched_inv s \<Longrightarrow> sched_inv (fst (observe_control p t ep now s))"
proof -
  assume inv: "sched_inv s"
  have "sched_inv (fst (finish_expired p now (if needs_registration s p ep
      then register_peer p t ep cap now s else (s, transition_default))))" if "is_udp ep" for cap
  proof -
    have "sched_inv (fst (if needs_registration s p ep
        then register_peer p t ep cap now s else (s, transition_default)))"
      using inv that by (simp add: inv_register)
    then show ?thesis by (rule inv_finish)
  qed
  with inv show ?thesis by (simp add: observe_control_def inv_ineligible)
qed

lemma inv_expire_loop: "sched_inv s \<Longrightarrow> sched_inv (fst (expire_loop now ps s acc))"
  by (induction ps arbitrary: s acc) (auto simp: Let_def case_prod_unfold inv_finish)

lemma inv_step: "sched_inv s \<Longrightarrow> sched_inv (sched_step ev s)"
  by (cases ev)
    (auto simp: inv_set_ports inv_capable inv_reported inv_control expire_due_def inv_expire_loop
      scheduler_remove_peer_def remove_peer_if_authority_def inv_remove split: option.splits,
     auto simp: set_sn_peer_id_def sched_inv_def hm_wf_def in_flight_count_def hm_values_def)

lemma inv_run: "sched_inv s \<Longrightarrow> sched_inv (fold sched_step evs s)"
  by (induction evs arbitrary: s) (auto simp: inv_step)

section \<open>Results\<close>

lemma result_rejection_None:
  "result_rejection s p st r now = None \<longleftrightarrow>
   control_supported st \<and> result_is_supported r \<and>
   (observation (res_profile r) = Unknown \<or> profile_is_fresh (res_profile r) now) \<and>
   res_sn_peer_id r = sn_peer_id s \<and> res_peer_id r = p \<and>
   res_registration_generation r = registration_generation st \<and>
   res_probe_config_generation r = peer_config_generation st \<and>
   (\<exists>probe. in_flight st = Some probe \<and> probe_request_id probe = res_request_id r \<and>
            now \<le> probe_expires_at probe)"
  by (auto simp: result_rejection_def split: option.splits)

text \<open>What a profile published by \<open>accept_result\<close> says about the result that carried it.\<close>

lemma accept_result_publishes:
  assumes "accept_result p r now (s, tr) = (s', tr')" and "profile_update tr' = Some (Some q)"
    and "profile_update tr \<noteq> Some (Some q)"
  shows "\<exists>st. hm_get (peers s) p = Some st \<and> result_rejection s p st r now = None \<and>
    observation (res_profile r) \<noteq> Unknown \<and>
    q = (res_profile r)\<lparr>valid_until := sat_add now (duration_to_bucky_time NAT_PROBE_PERIOD)\<rparr> \<and>
    s' = s\<lparr>peers := hm_insert p (st\<lparr>in_flight := None, pending_trigger := None,
           next_periodic_at := sat_add now (duration_to_bucky_time NAT_PROBE_PERIOD),
           peer_profile := Some q\<rparr>) (peers s)\<rparr>"
  using assms by (auto simp: accept_result_def Let_def split: option.splits if_splits)

lemma finish_expired_keeps_in_flight:
  assumes "finish_expired p now (s, tr) = (s', tr')" and "hm_get (peers s') p = Some st'"
    and "in_flight st' = Some probe"
  shows "s' = s \<and> tr' = tr"
  using assms by (auto simp: finish_expired_def hm.get_insert split: option.splits if_splits)

lemma register_no_in_flight:
  "hm_get (peers (fst (register_peer p t ep cap now s))) p = Some st \<Longrightarrow> in_flight st = None"
  by (auto simp: register_peer_def Let_def hm.get_insert)

lemma update_capability_in_flight:
  assumes "hm_get (peers (fst (update_capability p cap s))) p = Some st'" and "in_flight st' \<noteq> None"
  shows "\<exists>st. hm_get (peers s) p = Some st \<and> in_flight st = in_flight st' \<and>
    registration_generation st = registration_generation st' \<and>
    peer_config_generation st = peer_config_generation st' \<and> sn_peer_id (fst (update_capability p cap s)) = sn_peer_id s"
  using assms by (auto simp: update_capability_def hm.get_insert split: option.splits if_splits)

lemma no_profile_published:
  "profile_update (snd (register_peer p t ep cap now s)) \<noteq> Some (Some q)"
  "profile_update (snd (update_capability p cap s)) \<noteq> Some (Some q)"
  "profile_update tr \<noteq> Some (Some q) \<Longrightarrow> profile_update (snd (finish_expired p now (s, tr))) \<noteq> Some (Some q)"
  by (auto simp: register_peer_def update_capability_def finish_expired_def transition_default_def
      Let_def split: option.splits)

section \<open>Properties\<close>

text \<open>over any sequence of configurations, reports and removals at most 2048 directives are in
  flight, the ports sent are 2 to 8 distinct non-zero ports, a peer with a directive in flight
  supports the control version and has no trigger waiting, and no published profile is of unknown
  kind or version.\<close>

theorem probe_scheduler_bounded:
  "let s = fold sched_step evs (scheduler_new i)
   in in_flight_count (peers s) \<le> 2048 \<and> (ports s = [] \<or> supported_nat_probe_ports (ports s)) \<and>
      list_all (\<lambda>(p, st). peer_ok (config_generation s) (ports s) st) (peers s)"
proof -
  have "sched_inv (fold sched_step evs (scheduler_new i))" by (intro inv_run inv_new)
  then show ?thesis
    by (auto simp: sched_inv_def Let_def list_all_iff MAX_CONCURRENT_NAT_PROBES_def)
qed


lemma registered_register: "registered_on (fst (register_peer p t ep cap now s)) p t ep"
  by (simp add: registered_on_def register_peer_def Let_def hm.get_insert is_authoritative_report_def)

lemma registered_update:
  "\<not> ignored_report s p t ep \<Longrightarrow> \<not> needs_registration s p ep \<Longrightarrow>
   registered_on (fst (update_capability p cap s)) p t ep"
  by (auto simp: registered_on_def update_capability_def ignored_report_def needs_registration_def
      hm.get_insert is_authoritative_report_def split: option.splits)

lemma registered_finish: "registered_on (fst x) p t ep \<Longrightarrow> registered_on (fst (finish_expired p now x)) p t ep"
  by (cases x) (auto simp: registered_on_def finish_expired_def hm.get_insert is_authoritative_report_def
      split: option.splits)

lemma registered_accept: "registered_on (fst x) p t ep \<Longrightarrow> registered_on (fst (accept_result p r now x)) p t ep"
  by (cases x) (auto simp: registered_on_def accept_result_def hm.get_insert is_authoritative_report_def
      Let_def split: option.splits)

lemma registered_issue: "registered_on s p t ep \<Longrightarrow> registered_on (fst (issue_if_due p now s)) p t ep"
  by (auto simp: registered_on_def issue_if_due_def hm.get_insert is_authoritative_report_def
      Let_def split: option.splits)

lemmas registered_intros = registered_register registered_update registered_finish registered_accept

text \<open>What issuing a directive leaves behind.\<close>

lemma issue_if_due_Some:
  assumes "issue_if_due p now s = (s', Some d)"
  shows "\<exists>st. hm_get (peers s') p = Some st \<and> control_supported st \<and>
    in_flight st = Some \<lparr>probe_request_id = dir_request_id d, probe_expires_at = dir_expires_at d\<rparr> \<and>
    registration_generation st = dir_registration_generation d \<and>
    peer_config_generation st = dir_probe_config_generation d \<and>
    dir_sn_peer_id d = sn_peer_id s' \<and> dir_peer_id d = p \<and> dir_version d = NAT_PROBE_CONTROL_VERSION"
  using assms by (auto simp: issue_if_due_def Let_def hm.get_insert split: option.splits if_splits)

lemma issued_directive:
  assumes "observe_capable_report p t ep v result now s = (s', tr)" and "directive tr = Some d"
  obtains s3 where "issue_if_due p now s3 = (s', Some d)" and "registered_on s' p t ep" and "is_udp ep"
proof -
  have path: "is_udp ep" "\<not> ignored_report s p t ep"
    using assms by (auto simp: observe_capable_report_def observe_ineligible_report_def
        transition_default_def split: if_splits option.splits)
  let ?cap = "v = Some NAT_PROBE_CONTROL_VERSION"
  let ?st1 = "if needs_registration s p ep then register_peer p t ep ?cap now s else update_capability p ?cap s"
  define st3 where "st3 = (case result of Some r \<Rightarrow> accept_result p r now (finish_expired p now ?st1)
      | None \<Rightarrow> finish_expired p now ?st1)"
  have "registered_on (fst st3) p t ep"
    using path(2) unfolding st3_def by (auto intro: registered_intros split: option.splits)
  moreover have "observe_capable_report p t ep v result now s =
      (fst (issue_if_due p now (fst st3)), (snd st3)\<lparr>directive := snd (issue_if_due p now (fst st3))\<rparr>)"
    using path unfolding st3_def by (simp add: observe_capable_report_def Let_def case_prod_unfold)
  with assms have iss: "issue_if_due p now (fst st3) = (s', Some d)"
    by (intro prod_eqI) auto
  ultimately show thesis
    using that [OF iss] registered_issue [of "fst st3" p t ep now] path(1) by simp
qed

lemma renewed_profile_fresh:
  "profile_is_fresh q now \<Longrightarrow> profile_is_fresh (q\<lparr>valid_until := sat_add now d\<rparr>) now"
  using sat_add_ge [of now d] by (auto simp: profile_is_fresh_def profile_is_supported_def)

text \<open>the answer to a directive is published. When a report is answered with a directive and
  the peer sends a fresh profile for it over the same path before the deadline, the SN publishes
  that profile, and it is then the peer's current profile.\<close>

theorem directive_answer_published:
  assumes "observe_capable_report p t ep v result now s = (s', tr)" and "directive tr = Some d"
    and "profile_is_fresh prof now'" and "now' \<le> dir_expires_at d"
  shows "let q = prof\<lparr>valid_until := sat_add now' (duration_to_bucky_time NAT_PROBE_PERIOD)\<rparr>;
             (s'', tr') = observe_capable_report p t ep (Some NAT_PROBE_CONTROL_VERSION)
                            (Some (from_directive d prof)) now' s'
         in profile_update tr' = Some (Some q) \<and> directive tr' = None \<and>
            current_profile s'' p now' = Some q"
proof -
  obtain s3 where iss: "issue_if_due p now s3 = (s', Some d)" and reg: "registered_on s' p t ep"
    and udp: "is_udp ep" using issued_directive [OF assms(1,2)] by blast
  obtain st where st: "hm_get (peers s') p = Some st" "control_supported st"
      "in_flight st = Some \<lparr>probe_request_id = dir_request_id d, probe_expires_at = dir_expires_at d\<rparr>"
      "registration_generation st = dir_registration_generation d"
      "peer_config_generation st = dir_probe_config_generation d" "dir_sn_peer_id d = sn_peer_id s'"
      "dir_peer_id d = p" "dir_version d = NAT_PROBE_CONTROL_VERSION"
    using issue_if_due_Some [OF iss] by blast
  have path: "\<not> ignored_report s' p t ep" "\<not> needs_registration s' p ep"
    using reg st(1) by (auto simp: registered_on_def ignored_report_def needs_registration_def)
  let ?s1 = "s'\<lparr>peers := hm_insert p st (peers s')\<rparr>"
  have upd: "update_capability p True s' = (?s1, transition_default)"
    using st(1,2) by (cases st) (simp add: update_capability_def)
  have fin: "finish_expired p now' (?s1, transition_default) = (?s1, transition_default)"
    using st(3) assms(4) by (simp add: finish_expired_def hm.get_insert)
  have sup: "profile_is_supported prof" "observation prof \<noteq> Unknown"
    using assms(3) by (simp_all add: profile_is_fresh_def)
  have acc: "result_rejection ?s1 p st (from_directive d prof) now' = None"
    using st assms(3,4) sup by (simp add: result_rejection_None from_directive_def result_is_supported_def)
  have "profile_is_fresh (prof\<lparr>valid_until := sat_add now' (duration_to_bucky_time NAT_PROBE_PERIOD)\<rparr>) now'"
    by (rule renewed_profile_fresh [OF assms(3)])
  with udp path upd fin acc sup show ?thesis
    by (simp add: observe_capable_report_def Let_def accept_result_def hm.get_insert from_directive_def
        issue_if_due_def current_profile_def)
qed

text \<open>a report that comes neither over the registered command stream nor over the registered
  path of a peer changes nothing.\<close>

theorem foreign_path_ignored:
  assumes "hm_get (peers s) p = Some st" and "\<not> is_authoritative_report st t ep"
  shows "observe_capable_report p t ep v r now s = (s, transition_default) \<and>
         observe_control p t ep now s = (s, transition_default) \<and>
         observe_reported_profile p t ep prof now s = (s, transition_default)"
  using assms
  by (simp add: observe_capable_report_def observe_control_def observe_reported_profile_def
      ignored_report_def observe_ineligible_report_def is_authoritative_report_def)

section \<open>Witnesses\<close>

lemmas scheduler_eval = sample_scheduler_def sample_path_def sample_profile_def
  observe_capable_report_def is_udp_def ignored_report_def needs_registration_def register_peer_def
  scheduler_new_def finish_expired_def issue_if_due_def Let_def hm_get_def hm_insert_def
  in_flight_count_def hm_values_def MAX_CONCURRENT_NAT_PROBES_def transition_default_def

lemma sample_fresh: "profile_is_fresh sample_profile 20"
  by (simp add: sample_profile_def profile_is_fresh_def profile_is_supported_def word_le_nat_alt)

lemma sample_issued:
  "\<exists>s tr d. observe_capable_report (P2pId [5]) (0::nat) sample_path (Some NAT_PROBE_CONTROL_VERSION) None 10
      sample_scheduler = (s, tr) \<and> directive tr = Some d \<and> 20 \<le> dir_expires_at d \<and>
      dir_peer_id d = P2pId [5]"
  by (simp add: scheduler_eval NAT_PROBE_DIRECTIVE_TIMEOUT_def from_secs_def word_le_nat_alt
      unat_sat_add unat_duration_to_bucky_time as_micros_def)

theorem directive_answer_published_witness:
  "\<exists>(s :: nat scheduler) tr d s'' tr'.
     observe_capable_report (P2pId [5]) 0 sample_path (Some NAT_PROBE_CONTROL_VERSION) None 10
       sample_scheduler = (s, tr) \<and> directive tr = Some d \<and>
     observe_capable_report (P2pId [5]) 0 sample_path (Some NAT_PROBE_CONTROL_VERSION)
       (Some (from_directive d sample_profile)) 20 s = (s'', tr') \<and>
     current_profile s'' (P2pId [5]) 20 =
       Some (sample_profile\<lparr>valid_until := sat_add 20 (duration_to_bucky_time NAT_PROBE_PERIOD)\<rparr>)"
proof -
  from sample_issued obtain s :: "nat scheduler" and tr d where
    i: "observe_capable_report (P2pId [5]) 0 sample_path (Some NAT_PROBE_CONTROL_VERSION) None 10
          sample_scheduler = (s, tr)" "directive tr = Some d" "20 \<le> dir_expires_at d" by blast
  from directive_answer_published [OF i(1,2) sample_fresh i(3)] i(1,2) show ?thesis
    by (auto simp: Let_def split: prod.splits)
qed

lemma sample_result_published:
  "profile_update (snd (observe_capable_report (P2pId [5]) 0 sample_path (Some NAT_PROBE_CONTROL_VERSION)
     (Some sample_result) 20 sample_in_flight)) =
   Some (Some (sample_profile\<lparr>valid_until := sat_add 20 (duration_to_bucky_time NAT_PROBE_PERIOD)\<rparr>))"
  using sample_fresh
  by (simp add: scheduler_eval sample_in_flight_def sample_result_def update_capability_def
      is_authoritative_report_def accept_result_def result_rejection_def result_is_supported_def
      profile_is_supported_def)


theorem foreign_path_ignored_witness:
  "observe_control (P2pId [5]) 1 (set_area Wan (sample_path\<lparr>addr := V4 (Ipv4 203 0 113 8) 3456\<rparr>)) 20
     sample_in_flight = (sample_in_flight, transition_default)"
proof -
  obtain st where st: "hm_get (peers sample_in_flight) (P2pId [5]) = Some st"
    "authority_tunnel_id st = 0" "remote_endpoint st = sample_path"
    by (simp add: sample_in_flight_def hm_get_def)
  have "\<not> is_authoritative_report st 1 (set_area Wan (sample_path\<lparr>addr := V4 (Ipv4 203 0 113 8) 3456\<rparr>))"
    using st by (simp add: is_authoritative_report_def same_observed_path_def sample_path_def set_area_def)
  from foreign_path_ignored [OF st(1) this] show ?thesis by blast
qed

end
