(* ===== verification/Membership.thy ===== *)
theory Membership
  imports Endpoints
begin

text \<open>
  \<open>p2p-frame/src/sn/directory/membership.rs\<close>: which SNs own the directory entry of a peer.
  The members of an owner group are ranked by a hash of the peer and the member (rendezvous
  hashing) and the first \<open>owner_count\<close> own the peer; members not heard of recently are left out.

  The hash is \<open>DefaultHasher\<close>, whose algorithm the standard library does not fix: it is the
  parameter \<open>score\<close> of the definitions, and no property depends on it.
\<close>

section \<open>Definitions\<close>

definition DEFAULT_OWNER_COUNT :: nat where "DEFAULT_OWNER_COUNT = 1"
definition DEFAULT_LEASE_TTL :: duration where "DEFAULT_LEASE_TTL = from_secs 300"
definition DEFAULT_OWNER_MEMBER_HEALTH_TTL :: duration where
  "DEFAULT_OWNER_MEMBER_HEALTH_TTL = from_secs 60"
definition DEFAULT_SERVING_SESSION_TTL :: duration where "DEFAULT_SERVING_SESSION_TTL = from_secs 300"

record serving_lease =
  lease_peer_id :: p2p_id
  lease_serving_sn_id :: p2p_id
  lease_sequence :: u64
  lease_expires_at :: timestamp

definition serving_lease_new ::
    "p2p_id \<Rightarrow> p2p_id \<Rightarrow> u64 \<Rightarrow> duration \<Rightarrow> timestamp \<Rightarrow> serving_lease" where
  "serving_lease_new peer sn sequence ttl now =
     \<lparr>lease_peer_id = peer, lease_serving_sn_id = sn, lease_sequence = sequence,
      lease_expires_at = sat_add now (duration_to_bucky_time ttl)\<rparr>"

definition lease_is_fresh :: "serving_lease \<Rightarrow> timestamp \<Rightarrow> bool" where
  "lease_is_fresh l now = (now < lease_expires_at l)"

record owner_member =
  sn_id :: p2p_id
  member_endpoints :: "endpoint list"
  member_name :: "string option"

definition owner_member_new :: "p2p_id \<Rightarrow> owner_member" where
  "owner_member_new i = \<lparr>sn_id = i, member_endpoints = [], member_name = None\<rparr>"

definition owner_member_with_endpoint :: "p2p_id \<Rightarrow> endpoint \<Rightarrow> owner_member" where
  "owner_member_with_endpoint i e = \<lparr>sn_id = i, member_endpoints = [e], member_name = None\<rparr>"

definition owner_member_with_endpoints ::
    "p2p_id \<Rightarrow> endpoint list \<Rightarrow> string option \<Rightarrow> owner_member" where
  "owner_member_with_endpoints i es n = \<lparr>sn_id = i, member_endpoints = es, member_name = n\<rparr>"

record owner_membership =
  members :: "owner_member list"
  owner_count :: nat
  membership_lease_ttl :: duration
  member_health_ttl :: duration

definition with_members ::
    "owner_member list \<Rightarrow> nat \<Rightarrow> duration \<Rightarrow> owner_membership p2p_result" where
  "with_members ms n ttl =
     (let ms' = dedup_by (\<lambda>l r. sn_id l = sn_id r) (sort_by (\<lambda>l r. cmp_ord (sn_id l) (sn_id r)) ms)
      in if ms' = [] then Inl InvalidParam
         else Inr \<lparr>members = ms', owner_count = max n 1, membership_lease_ttl = ttl,
                    member_health_ttl = min ttl DEFAULT_OWNER_MEMBER_HEALTH_TTL\<rparr>)"

definition with_options :: "p2p_id list \<Rightarrow> nat \<Rightarrow> duration \<Rightarrow> owner_membership p2p_result" where
  "with_options ids n ttl = with_members (map owner_member_new ids) n ttl"

definition membership_new :: "p2p_id list \<Rightarrow> owner_membership p2p_result" where
  "membership_new ids = with_members (map owner_member_new ids) DEFAULT_OWNER_COUNT DEFAULT_LEASE_TTL"

definition member :: "owner_membership \<Rightarrow> p2p_id \<Rightarrow> owner_member option" where
  "member m i = find (\<lambda>x. sn_id x = i) (members m)"

text \<open>\<open>OwnerResolver\<close> is its one field; \<open>None\<close> is the local-only resolver.\<close>

type_synonym owner_resolver = "owner_membership option"

definition local_only :: owner_resolver where
  "local_only = None"

definition resolver_lease_ttl :: "owner_resolver \<Rightarrow> duration" where
  "resolver_lease_ttl r = (case r of Some m \<Rightarrow> membership_lease_ttl m | None \<Rightarrow> DEFAULT_LEASE_TTL)"

definition has_member :: "owner_resolver \<Rightarrow> p2p_id \<Rightarrow> bool" where
  "has_member r i = (case r of Some m \<Rightarrow> member m i \<noteq> None | None \<Rightarrow> False)"

record owner_member_health =
  health_ttl :: duration
  fresh_until :: "(p2p_id, timestamp) hmap"

definition health_new :: "duration \<Rightarrow> owner_member_health" where
  "health_new ttl = \<lparr>health_ttl = ttl, fresh_until = []\<rparr>"

definition refresh_at :: "p2p_id \<Rightarrow> timestamp \<Rightarrow> owner_member_health \<Rightarrow> owner_member_health" where
  "refresh_at i now h =
     h\<lparr>fresh_until := hm_insert i (sat_add now (duration_to_bucky_time (health_ttl h))) (fresh_until h)\<rparr>"

definition health_with_members ::
    "owner_member list \<Rightarrow> duration \<Rightarrow> timestamp \<Rightarrow> owner_member_health" where
  "health_with_members ms ttl now = fold (\<lambda>m. refresh_at (sn_id m) now) ms (health_new ttl)"

definition health_is_fresh :: "owner_member_health \<Rightarrow> p2p_id \<Rightarrow> timestamp \<Rightarrow> bool" where
  "health_is_fresh h i now = (case hm_get (fresh_until h) i of Some t \<Rightarrow> now < t | None \<Rightarrow> False)"

definition score_cmp :: "u64 \<times> p2p_id \<Rightarrow> u64 \<times> p2p_id \<Rightarrow> ordering" where
  "score_cmp l r = then_with (cmp_ord (fst r) (fst l)) (cmp_ord (snd l) (snd r))"

definition static_owner_set ::
    "(p2p_id \<Rightarrow> p2p_id \<Rightarrow> u64) \<Rightarrow> owner_membership \<Rightarrow> p2p_id \<Rightarrow> p2p_id list" where
  "static_owner_set score m peer =
     map snd (take (min (owner_count m) (length (members m)))
       (sort_by score_cmp (map (\<lambda>x. (score peer (sn_id x), sn_id x)) (members m))))"

definition owner_set_at ::
    "(p2p_id \<Rightarrow> p2p_id \<Rightarrow> u64) \<Rightarrow> owner_resolver \<Rightarrow> p2p_id \<Rightarrow> p2p_id \<Rightarrow>
     owner_member_health option \<Rightarrow> timestamp \<Rightarrow> p2p_id list" where
  "owner_set_at score r peer lcl health now =
     (case r of
        None \<Rightarrow> [lcl]
      | Some m \<Rightarrow>
          (case health of
             Some h \<Rightarrow> filter (\<lambda>x. x = lcl \<or> health_is_fresh h x now) (static_owner_set score m peer)
           | None \<Rightarrow> static_owner_set score m peer))"

definition bucky_time_to_duration :: "timestamp \<Rightarrow> duration" where
  "bucky_time_to_duration delta = from_micros (max delta 1)"

text \<open>What the constructors give: members strictly ordered by id, at least one, at least one
  owner.\<close>

definition membership_ok :: "owner_membership \<Rightarrow> bool" where
  "membership_ok m =
     (members m \<noteq> [] \<and> sorted_wrt (<) (map sn_id (members m)) \<and> 1 \<le> owner_count m)"

definition sample_score :: "p2p_id \<Rightarrow> p2p_id \<Rightarrow> u64" where
  "sample_score p m = (case (p, m) of (P2pId a, P2pId b) \<Rightarrow> ucast (hd a) * 7 + ucast (hd b) * 5)"

definition sample_membership :: owner_membership where
  "sample_membership = \<lparr>members = map owner_member_new [P2pId [1], P2pId [2], P2pId [3]],
     owner_count = 2, membership_lease_ttl = from_secs 60, member_health_ttl = from_secs 60\<rparr>"

section \<open>Top ranks of a linear order\<close>

context linear_cmp
begin

lemma sort_by_filter: "sort_by cmp (filter P xs) = filter P (sort_by cmp xs)"
  by (rule sorted_unique)
    (auto intro!: sorted_sort_by sorted_wrt_filter simp: mset_sort_by)

lemma sorted_split:
  "\<forall>x \<in> set (take k (sort_by cmp xs)). \<forall>y \<in> set (drop k (sort_by cmp xs)). cmp x y \<noteq> Greater"
proof -
  have "sorted_wrt (\<lambda>a b. cmp a b \<noteq> Greater) (take k (sort_by cmp xs) @ drop k (sort_by cmp xs))"
    using sorted_sort_by by simp
  then show ?thesis unfolding sorted_wrt_append by blast
qed

lemma top_outranks:
  assumes "x \<in> set (take k (sort_by cmp xs))" and "y \<in> set xs"
    and "y \<notin> set (take k (sort_by cmp xs))"
  shows "cmp x y = Less"
proof -
  have "y \<in> set (take k (sort_by cmp xs)) \<union> set (drop k (sort_by cmp xs))"
    using assms(2) by (metis append_take_drop_id set_append set_sort_by)
  with assms sorted_split [of k xs] have "cmp x y \<noteq> Greater" by blast
  moreover have "cmp x y \<noteq> Equal" using assms(1,3) cmp_eq by blast
  ultimately show ?thesis by (cases "cmp x y") auto
qed

lemma top_remove:
  assumes "x \<notin> set (take k (sort_by cmp xs))"
  shows "take k (sort_by cmp (filter (\<lambda>y. y \<noteq> x) xs)) = take k (sort_by cmp xs)"
proof -
  let ?s = "sort_by cmp xs"
  have "filter (\<lambda>y. y \<noteq> x) (take k ?s) = take k ?s"
    using assms by (simp add: filter_id_conv) blast
  then have "filter (\<lambda>y. y \<noteq> x) ?s = take k ?s @ filter (\<lambda>y. y \<noteq> x) (drop k ?s)"
    by (metis append_take_drop_id filter_append)
  then show ?thesis by (simp add: sort_by_filter min_def)
qed

end

interpretation hrw: linear_cmp score_cmp
  by unfold_locales (auto simp: score_cmp_def then_with_iff prod_eq_iff not_less)

interpretation by_sn_id: total_cmp "\<lambda>l r. cmp_ord (sn_id l) (sn_id r)"
  by unfold_locales auto

section \<open>Membership\<close>

lemma sorted_by_sn_id: "sorted (map sn_id (sort_by (\<lambda>l r. cmp_ord (sn_id l) (sn_id r)) ms))"
  using by_sn_id.sorted_sort_by [of ms] by (simp add: sorted_wrt_map not_less)

lemma with_members_ok:
  assumes "with_members ms n ttl = Inr m"
  shows "membership_ok m" and "sn_id ` set (members m) = sn_id ` set ms"
    and "owner_count m = max n 1"
proof -
  let ?ms = "sort_by (\<lambda>l r. cmp_ord (sn_id l) (sn_id r)) ms"
  let ?d = "dedup_by (\<lambda>l r. sn_id l = sn_id r) ?ms"
  from assms have m: "members m = ?d" "owner_count m = max n 1" and ne: "?d \<noteq> []"
    by (auto simp: with_members_def Let_def split: if_splits)
  from dedup_by_key [OF sorted_by_sn_id, of ms]
  have d: "sorted_wrt (<) (map sn_id ?d)" "sn_id ` set ?d = sn_id ` set ?ms" by auto
  with m ne show "membership_ok m" by (simp add: membership_ok_def)
  from m d show "sn_id ` set (members m) = sn_id ` set ms" by (simp add: by_sn_id.set_sort_by)
  from m show "owner_count m = max n 1" by simp
qed

lemma with_members_total: "(\<exists>m. with_members ms n ttl = Inr m) \<longleftrightarrow> ms \<noteq> []"
proof -
  have "sort_by (\<lambda>l r. cmp_ord (sn_id l) (sn_id r)) ms = [] \<longleftrightarrow> ms = []"
    using by_sn_id.length_sort_by [of ms] by (metis length_0_conv)
  then show ?thesis by (auto simp: with_members_def Let_def)
qed

lemma static_owner_set_alt:
  "static_owner_set score m peer =
   map snd (take (owner_count m) (sort_by score_cmp (map (\<lambda>i. (score peer i, i)) (map sn_id (members m)))))"
  by (simp add: static_owner_set_def o_def hrw.length_sort_by min_def)

lemma membership_ids:
  "membership_ok m \<Longrightarrow> membership_ok m' \<Longrightarrow>
   sn_id ` set (members m) = sn_id ` set (members m') \<Longrightarrow> map sn_id (members m) = map sn_id (members m')"
  unfolding membership_ok_def strict_sorted_iff by (intro sorted_distinct_set_unique) auto

lemma membership_ids_filter:
  assumes "membership_ok m" and "membership_ok m'"
    and "sn_id ` set (members m') = sn_id ` set (members m) - {x}"
  shows "map sn_id (members m') = filter (\<lambda>y. y \<noteq> x) (map sn_id (members m))"
  using assms unfolding membership_ok_def strict_sorted_iff
  by (intro sorted_distinct_set_unique) (auto simp: distinct_filter sorted_wrt_filter)

lemma ranked_owners:
  fixes score :: "p2p_id \<Rightarrow> p2p_id \<Rightarrow> u64" and peer :: p2p_id
  assumes "membership_ok m"
  defines "os \<equiv> static_owner_set score m peer"
  shows "distinct os" and "length os = min (owner_count m) (length (members m))"
    and "set os \<subseteq> sn_id ` set (members m)"
    and "\<And>x y. x \<in> set os \<Longrightarrow> y \<in> sn_id ` set (members m) \<Longrightarrow> y \<notin> set os \<Longrightarrow>
           score peer y < score peer x \<or> score peer y = score peer x \<and> x < y"
proof -
  let ?l = "map (\<lambda>i. (score peer i, i)) (map sn_id (members m))"
  let ?k = "owner_count m"
  have os: "os = map snd (take ?k (sort_by score_cmp ?l))"
    by (simp only: os_def static_owner_set_alt)
  have "distinct ?l"
    using assms(1) by (simp add: membership_ok_def strict_sorted_iff distinct_map inj_on_def)
  then have d: "distinct (sort_by score_cmp ?l)"
    using mset_eq_imp_distinct_iff [OF hrw.mset_sort_by [of ?l]] by simp
  have pair: "fst p = score peer (snd p) \<and> snd p \<in> sn_id ` set (members m)"
    if "p \<in> set (take ?k (sort_by score_cmp ?l))" for p
    using set_take_subset [of ?k "sort_by score_cmp ?l"] that by (auto simp: hrw.set_sort_by)
  then have "inj_on snd (set (take ?k (sort_by score_cmp ?l)))"
    by (auto simp: inj_on_def prod_eq_iff)
  with d show "distinct os" unfolding os by (simp add: distinct_map distinct_take)
  show "length os = min ?k (length (members m))" by (simp add: os hrw.length_sort_by)
  show "set os \<subseteq> sn_id ` set (members m)" unfolding os using pair by auto
  fix x y assume x: "x \<in> set os" and y: "y \<in> sn_id ` set (members m)" and "y \<notin> set os"
  from x obtain p where p: "p \<in> set (take ?k (sort_by score_cmp ?l))" and xp: "x = snd p"
    unfolding os set_map by blast
  from pair [OF p] xp have p_eq: "p = (score peer x, x)" by (simp add: prod_eq_iff)
  have "(score peer x, x) \<in> set (take ?k (sort_by score_cmp ?l))" using p unfolding p_eq .
  moreover have "(score peer y, y) \<notin> set (take ?k (sort_by score_cmp ?l))"
  proof
    assume "(score peer y, y) \<in> set (take ?k (sort_by score_cmp ?l))"
    then have "snd (score peer y, y) \<in> set os" unfolding os set_map by (rule imageI)
    with \<open>y \<notin> set os\<close> show False by simp
  qed
  ultimately have "score_cmp (score peer x, x) (score peer y, y) = Less"
    using y by (intro hrw.top_outranks [of _ ?k ?l]) auto
  then show "score peer y < score peer x \<or> score peer y = score peer x \<and> x < y"
    by (auto simp: score_cmp_def then_with_iff)
qed

lemma length_members: "membership_ok m \<Longrightarrow> length (members m) = card (sn_id ` set (members m))"
  using distinct_card [of "map sn_id (members m)"] by (simp add: membership_ok_def strict_sorted_iff)

section \<open>Properties\<close>

text \<open>the owners of a peer are the top-ranked members. From any list of members, the owner
  set has \<open>max owner_count 1\<close> distinct members, or all of them when there are fewer, and every
  owner has a higher score than every other member, the smaller id winning a tie.\<close>

theorem owner_set_top_ranked:
  assumes "with_members ms n ttl = Inr m"
  shows "let os = owner_set_at score (Some m) peer lcl None now; ids = sn_id ` set ms
         in distinct os \<and> length os = min (max n 1) (card ids) \<and> set os \<subseteq> ids \<and>
            (\<forall>x \<in> set os. \<forall>y \<in> ids - set os.
               score peer y < score peer x \<or> score peer y = score peer x \<and> x < y)"
  using ranked_owners [where m = m and score = score and peer = peer, OF with_members_ok(1) [OF assms]] with_members_ok [OF assms]
  by (auto simp: owner_set_at_def Let_def length_members)

text \<open>the owner set depends on the ids of the members only: SNs configured with the same
  members in another order, or with repetitions, agree on every peer's owners.\<close>

theorem owner_set_order_independent:
  assumes "with_members ms n ttl = Inr m" and "with_members ms' n ttl' = Inr m'"
    and "sn_id ` set ms = sn_id ` set ms'"
  shows "owner_set_at score (Some m) peer lcl None now = owner_set_at score (Some m') peer lcl' None now'"
proof -
  have "map sn_id (members m) = map sn_id (members m')"
    using with_members_ok [OF assms(1)] with_members_ok [OF assms(2)] assms(3)
    by (intro membership_ids) auto
  then show ?thesis
    using with_members_ok(3) [OF assms(1)] with_members_ok(3) [OF assms(2)]
    by (simp only: owner_set_at_def option.case static_owner_set_alt)
qed

text \<open>rendezvous hashing moves as little as possible: when a member leaves that does not own
  a peer, the owners of that peer stay the same.\<close>

theorem owner_set_minimal_disruption:
  assumes "with_members ms n ttl = Inr m"
    and "with_members (filter (\<lambda>y. sn_id y \<noteq> x) ms) n ttl = Inr m'"
    and "x \<notin> set (owner_set_at score (Some m) peer lcl None now)"
  shows "owner_set_at score (Some m') peer lcl None now = owner_set_at score (Some m) peer lcl None now"
proof -
  let ?l = "\<lambda>ids. map (\<lambda>i. (score peer i, i)) ids"
  have ids: "map sn_id (members m') = filter (\<lambda>y. y \<noteq> x) (map sn_id (members m))"
    using with_members_ok [OF assms(1)] with_members_ok [OF assms(2)]
    by (intro membership_ids_filter) auto
  have "?l (filter (\<lambda>y. y \<noteq> x) is) = filter (\<lambda>p. p \<noteq> (score peer x, x)) (?l is)" for "is"
    by (induction "is") auto
  moreover have "(score peer x, x) \<notin>
      set (take (owner_count m) (sort_by score_cmp (?l (map sn_id (members m)))))"
    using assms(3) unfolding owner_set_at_def option.case static_owner_set_alt by force
  note hrw.top_remove [OF this]
  ultimately show ?thesis
    using with_members_ok(3) [OF assms(1)] with_members_ok(3) [OF assms(2)]
    by (simp only: owner_set_at_def option.case static_owner_set_alt ids)
qed

text \<open>a heartbeat at time \<open>t\<close> keeps a member among the live owners until \<open>t\<close> plus the
  health lifetime, and no longer; the local SN needs no heartbeat.\<close>

theorem owner_health_window:
  "i \<in> set (owner_set_at score (Some m) peer lcl (Some (refresh_at i t h)) now) \<longleftrightarrow>
   i \<in> set (owner_set_at score (Some m) peer lcl None now) \<and>
   (i = lcl \<or> unat now < min (unat t + as_micros (health_ttl h)) (2 ^ 64 - 1))"
  by (auto simp: owner_set_at_def health_is_fresh_def refresh_at_def hm.get_insert
      word_less_nat_alt time_simps)

section \<open>Witnesses\<close>

lemmas membership_eval = with_members_def sort_by_def owner_member_new_def sample_membership_def
  DEFAULT_OWNER_MEMBER_HEALTH_TTL_def from_secs_def Let_def less_p2p_id_def cmp_ord_def

lemma sample_members_ok:
  "with_members (map owner_member_new [P2pId [2], P2pId [1], P2pId [3]]) 2 (from_secs 60) =
   Inr sample_membership"
  "with_members (map owner_member_new [P2pId [3], P2pId [2], P2pId [1], P2pId [2]]) 2 (from_secs 90) =
   Inr (sample_membership\<lparr>membership_lease_ttl := from_secs 90\<rparr>)"
  by (simp_all add: membership_eval)

lemma sample_owner_set:
  "owner_set_at sample_score (Some sample_membership) (P2pId [9]) lcl None now = [P2pId [3], P2pId [2]]"
  by (simp add: owner_set_at_def static_owner_set_def membership_eval score_cmp_def sample_score_def
      word_less_nat_alt)

theorem owner_set_top_ranked_witness:
  "let won = \<lambda>x. sample_score (P2pId [9]) (P2pId [1]) < sample_score (P2pId [9]) x \<or>
     sample_score (P2pId [9]) (P2pId [1]) = sample_score (P2pId [9]) x \<and> x < P2pId [1]
   in won (P2pId [2]) \<and> won (P2pId [3])"
  using owner_set_top_ranked [OF sample_members_ok(1), of sample_score "P2pId [9]" "P2pId [1]" 0]
  by (simp add: sample_owner_set owner_member_new_def)

theorem owner_set_order_independent_witness:
  "owner_set_at sample_score (Some (sample_membership\<lparr>membership_lease_ttl := from_secs 90\<rparr>))
     (P2pId [9]) (P2pId [5]) None 7 = [P2pId [3], P2pId [2]]"
  using owner_set_order_independent [OF sample_members_ok(1) sample_members_ok(2),
      of sample_score "P2pId [9]" "P2pId [1]" 0 "P2pId [5]" 7]
  by (simp add: sample_owner_set owner_member_new_def insert_commute)

theorem owner_set_minimal_disruption_witness:
  "\<exists>m'. with_members (map owner_member_new [P2pId [2], P2pId [3]]) 2 (from_secs 60) = Inr m' \<and>
     owner_set_at sample_score (Some m') (P2pId [9]) (P2pId [1]) None 0 = [P2pId [3], P2pId [2]]"
proof -
  have ms: "filter (\<lambda>y. sn_id y \<noteq> P2pId [1]) (map owner_member_new [P2pId [2], P2pId [1], P2pId [3]]) =
      map owner_member_new [P2pId [2], P2pId [3]]" by (simp add: owner_member_new_def)
  obtain m' where m': "with_members (map owner_member_new [P2pId [2], P2pId [3]]) 2 (from_secs 60) = Inr m'"
    using with_members_total [of "map owner_member_new [P2pId [2], P2pId [3]]"] by auto
  from owner_set_minimal_disruption [OF sample_members_ok(1), of "P2pId [1]" m' sample_score
      "P2pId [9]" "P2pId [1]" 0] ms m' sample_owner_set show ?thesis by simp
qed

end
