(* ===== verification/ControlPlane.thy ===== *)
theory ControlPlane
  imports Membership
begin

text \<open>
  \<open>p2p-frame/src/sn/directory/control_plane.rs\<close>: the replicated table of serving SNs that are
  online. The leader appends entries to a log when enough voters are active; every member applies
  the committed entries to its table.

  A \<open>HashSet\<close> of member ids is a list without repetitions. The mutex makes each method atomic.
\<close>

section \<open>Definitions\<close>

datatype serving_sn_session_state = Online | Offline

record serving_sn_session =
  session_sn_id :: p2p_id
  session_state :: serving_sn_session_state
  session_expires_at :: timestamp

definition session_online :: "p2p_id \<Rightarrow> duration \<Rightarrow> timestamp \<Rightarrow> serving_sn_session" where
  "session_online i ttl now = \<lparr>session_sn_id = i, session_state = Online,
     session_expires_at = sat_add now (duration_to_bucky_time ttl)\<rparr>"

definition is_online :: "serving_sn_session \<Rightarrow> timestamp \<Rightarrow> bool" where
  "is_online s now = (session_state s = Online \<and> now < session_expires_at s)"

datatype owner_session_entry =
  RenewServingSession serving_sn_session | RevokeServingSession p2p_id

type_synonym sessions = "(p2p_id, serving_sn_session) hmap"

record control_plane =
  cp_membership :: owner_membership
  cp_current_term :: u64
  cp_leader_id :: "p2p_id option"
  cp_committed_index :: u64
  cp_log :: "owner_session_entry list"
  cp_sessions :: sessions
  cp_active_voters :: "p2p_id list"

definition cp_new :: "owner_membership \<Rightarrow> control_plane" where
  "cp_new m =
     (let leader = (case members m of [] \<Rightarrow> None | x # _ \<Rightarrow> Some (sn_id x))
      in \<lparr>cp_membership = m, cp_current_term = (if leader = None then 0 else 1),
          cp_leader_id = leader, cp_committed_index = 0, cp_log = [], cp_sessions = [],
          cp_active_voters = remdups (map sn_id (members m))\<rparr>)"

text \<open>\<open>None\<close> is the panic of \<open>expect\<close>.\<close>

definition cp_local_only :: "p2p_id \<Rightarrow> control_plane option" where
  "cp_local_only i = (case membership_new [i] of Inr m \<Rightarrow> Some (cp_new m) | Inl _ \<Rightarrow> None)"

definition cp_quorum_size :: "control_plane \<Rightarrow> nat" where
  "cp_quorum_size c = length (members (cp_membership c)) div 2 + 1"

definition has_quorum :: "control_plane \<Rightarrow> bool" where
  "has_quorum c = (cp_quorum_size c \<le> length (cp_active_voters c))"

definition set_voter_active :: "p2p_id \<Rightarrow> bool \<Rightarrow> control_plane \<Rightarrow> control_plane \<times> bool" where
  "set_voter_active i active c =
     (if member (cp_membership c) i = None then (c, False)
      else if active then (c\<lparr>cp_active_voters := List.insert i (cp_active_voters c)\<rparr>, True)
      else (c\<lparr>cp_active_voters := removeAll i (cp_active_voters c)\<rparr>, True))"

definition elect_leader :: "p2p_id \<Rightarrow> control_plane \<Rightarrow> control_plane \<times> u64 p2p_result" where
  "elect_leader i c =
     (if member (cp_membership c) i = None then (c, Inl PermissionDenied)
      else if i \<notin> set (cp_active_voters c) \<or> \<not> has_quorum c then (c, Inl NotFound)
      else let term = max (sat_add (cp_current_term c) 1) 1
           in (c\<lparr>cp_current_term := term, cp_leader_id := Some i\<rparr>, Inr term))"

definition should_update :: "sessions \<Rightarrow> serving_sn_session \<Rightarrow> bool" where
  "should_update m s =
     (case hm_get m (session_sn_id s) of
        Some old \<Rightarrow> session_state old \<noteq> Online \<or> session_expires_at old \<le> session_expires_at s
      | None \<Rightarrow> True)"

fun apply_entry :: "owner_session_entry \<Rightarrow> timestamp \<Rightarrow> sessions \<Rightarrow> sessions" where
  "apply_entry (RenewServingSession s) now m =
     (if should_update m s then hm_insert (session_sn_id s) s m else m)"
| "apply_entry (RevokeServingSession i) now m =
     (case hm_get m i of
        Some old \<Rightarrow>
          if now < session_expires_at old
          then hm_insert i (old\<lparr>session_state := Offline, session_expires_at := now\<rparr>) m
          else m
      | None \<Rightarrow> m)"

text \<open>The tail both mutations share: \<open>log.push\<close>, \<open>committed_index = log.len() as u64\<close>,
  \<open>apply_entry\<close>.\<close>

definition push_entry ::
    "owner_session_entry \<Rightarrow> timestamp \<Rightarrow> control_plane \<Rightarrow> control_plane \<times> u64 p2p_result" where
  "push_entry e now c =
     (let log = cp_log c @ [e]; idx = of_nat (length log)
      in (c\<lparr>cp_log := log, cp_committed_index := idx,
            cp_sessions := apply_entry e now (cp_sessions c)\<rparr>, Inr idx))"

definition append_as_leader ::
    "p2p_id \<Rightarrow> owner_session_entry \<Rightarrow> timestamp \<Rightarrow> control_plane \<Rightarrow> control_plane \<times> u64 p2p_result" where
  "append_as_leader i e now c =
     (if cp_leader_id c \<noteq> Some i then (c, Inl PermissionDenied)
      else if \<not> has_quorum c then (c, Inl NotFound)
      else push_entry e now c)"

definition renew_serving_online ::
    "p2p_id \<Rightarrow> p2p_id \<Rightarrow> duration \<Rightarrow> timestamp \<Rightarrow> control_plane \<Rightarrow> control_plane \<times> u64 p2p_result" where
  "renew_serving_online leader sn ttl now c =
     append_as_leader leader (RenewServingSession (session_online sn ttl now)) now c"

definition renew_serving_session ::
    "p2p_id \<Rightarrow> p2p_id \<Rightarrow> u64 \<Rightarrow> duration \<Rightarrow> timestamp \<Rightarrow> control_plane \<Rightarrow> control_plane \<times> u64 p2p_result" where
  "renew_serving_session leader sn epoch ttl now c = renew_serving_online leader sn ttl now c"

definition mark_serving_offline ::
    "p2p_id \<Rightarrow> p2p_id \<Rightarrow> timestamp \<Rightarrow> control_plane \<Rightarrow> control_plane \<times> u64 p2p_result" where
  "mark_serving_offline leader sn now c = append_as_leader leader (RevokeServingSession sn) now c"

definition revoke_serving_session ::
    "p2p_id \<Rightarrow> p2p_id \<Rightarrow> u64 \<Rightarrow> timestamp \<Rightarrow> control_plane \<Rightarrow> control_plane \<times> u64 p2p_result" where
  "revoke_serving_session leader sn epoch now c = mark_serving_offline leader sn now c"

definition sessions_expires_at :: "sessions \<Rightarrow> p2p_id \<Rightarrow> timestamp \<Rightarrow> timestamp option" where
  "sessions_expires_at m sn now =
     (case hm_get m sn of
        Some s \<Rightarrow> if is_online s now then Some (session_expires_at s) else None
      | None \<Rightarrow> None)"

definition serving_online_expires_at :: "control_plane \<Rightarrow> p2p_id \<Rightarrow> timestamp \<Rightarrow> timestamp option" where
  "serving_online_expires_at c sn now = sessions_expires_at (cp_sessions c) sn now"

definition serving_session_expires_at ::
    "control_plane \<Rightarrow> p2p_id \<Rightarrow> u64 \<Rightarrow> timestamp \<Rightarrow> timestamp option" where
  "serving_session_expires_at c sn epoch now = serving_online_expires_at c sn now"

definition is_serving_online :: "control_plane \<Rightarrow> p2p_id \<Rightarrow> timestamp \<Rightarrow> bool" where
  "is_serving_online c sn now =
     (case hm_get (cp_sessions c) sn of Some s \<Rightarrow> is_online s now | None \<Rightarrow> False)"

definition is_serving_session_alive :: "control_plane \<Rightarrow> p2p_id \<Rightarrow> u64 \<Rightarrow> timestamp \<Rightarrow> bool" where
  "is_serving_session_alive c sn epoch now = is_serving_online c sn now"

definition set_known_leader :: "p2p_id \<Rightarrow> u64 \<Rightarrow> control_plane \<Rightarrow> control_plane \<times> unit p2p_result" where
  "set_known_leader i term c =
     (if member (cp_membership c) i = None then (c, Inl PermissionDenied)
      else (c\<lparr>cp_current_term := max (cp_current_term c) term, cp_leader_id := Some i\<rparr>, Inr ()))"

definition apply_committed_session_entry ::
    "p2p_id \<Rightarrow> u64 \<Rightarrow> owner_session_entry \<Rightarrow> timestamp \<Rightarrow> control_plane \<Rightarrow>
     control_plane \<times> u64 p2p_result" where
  "apply_committed_session_entry i term e now c =
     (if member (cp_membership c) i = None then (c, Inl PermissionDenied)
      else push_entry e now
        (c\<lparr>cp_current_term := max (cp_current_term c) term, cp_leader_id := Some i\<rparr>))"

subsection \<open>Invariant and runs\<close>

definition is_member :: "owner_membership \<Rightarrow> p2p_id \<Rightarrow> bool" where
  "is_member m i = (i \<in> sn_id ` set (members m))"

definition cp_inv :: "control_plane \<Rightarrow> bool" where
  "cp_inv c =
     (membership_ok (cp_membership c) \<and> 1 \<le> cp_current_term c \<and>
      cp_leader_id c \<in> Some ` sn_id ` set (members (cp_membership c)) \<and>
      cp_committed_index c = of_nat (length (cp_log c)) \<and>
      distinct (cp_active_voters c) \<and>
      (\<forall>i \<in> set (cp_active_voters c). is_member (cp_membership c) i) \<and>
      hm_wf (cp_sessions c) \<and> (\<forall>(i, s) \<in> set (cp_sessions c). session_sn_id s = i))"

datatype cp_event =
    CpVoter p2p_id bool | CpElect p2p_id | CpRenew p2p_id p2p_id duration timestamp
  | CpOffline p2p_id p2p_id timestamp | CpLeader p2p_id u64
  | CpCommitted p2p_id u64 owner_session_entry timestamp

fun cp_step :: "cp_event \<Rightarrow> control_plane \<Rightarrow> control_plane" where
  "cp_step (CpVoter i a) c = fst (set_voter_active i a c)"
| "cp_step (CpElect i) c = fst (elect_leader i c)"
| "cp_step (CpRenew l sn ttl now) c = fst (renew_serving_online l sn ttl now c)"
| "cp_step (CpOffline l sn now) c = fst (mark_serving_offline l sn now c)"
| "cp_step (CpLeader i t) c = fst (set_known_leader i t c)"
| "cp_step (CpCommitted i t e now) c = fst (apply_committed_session_entry i t e now c)"

text \<open>A replica that applies a log, each entry at a time of its own.\<close>

definition apply_log :: "(owner_session_entry \<times> timestamp) list \<Rightarrow> sessions \<Rightarrow> sessions" where
  "apply_log es m = fold (\<lambda>(e, now). apply_entry e now) es m"

section \<open>Lemmas\<close>

lemma member_iff: "member m i \<noteq> None \<longleftrightarrow> is_member m i"
  by (auto simp: member_def is_member_def find_None_iff)

lemma member_None_iff [simp]: "member m i = None \<longleftrightarrow> \<not> is_member m i"
  using member_iff by blast

lemma hm_wf_apply_entry: "hm_wf m \<Longrightarrow> hm_wf (apply_entry e now m)"
  by (cases e) (auto simp: hm.wf_insert split: option.splits)

lemma keys_apply_entry:
  assumes "\<forall>(i, s) \<in> set m. session_sn_id s = i"
  shows "\<forall>(i, s) \<in> set (apply_entry e now m). session_sn_id s = i"
proof -
  have ins: "session_sn_id s' = i' \<Longrightarrow> \<forall>(i, s) \<in> set (hm_insert i' s' m). session_sn_id s = i" for i' s'
    using assms set_hm_insert [of i' s' m] by auto
  have key: "hm_get m i = Some s \<Longrightarrow> session_sn_id s = i" for i s
    using assms by (auto dest: hm_get_SomeD)
  show ?thesis
    using assms by (cases e) (auto split: option.splits intro!: ins [simplified] simp: key)
qed

lemma cp_inv_new: "membership_ok m \<Longrightarrow> cp_inv (cp_new m)"
  by (cases "members m")
    (auto simp: cp_inv_def cp_new_def membership_ok_def is_member_def hm_wf_def Let_def)

lemma cp_inv_push: "cp_inv c \<Longrightarrow> cp_inv (fst (push_entry e now c))"
  using keys_apply_entry [of "cp_sessions c" e now]
  by (simp add: cp_inv_def push_entry_def Let_def hm_wf_apply_entry)

lemma cp_inv_leader:
  "cp_inv c \<Longrightarrow> is_member (cp_membership c) i \<Longrightarrow> 1 \<le> t \<Longrightarrow>
   cp_inv (c\<lparr>cp_current_term := t, cp_leader_id := Some i\<rparr>)"
  by (simp add: cp_inv_def is_member_def)

lemma cp_inv_voters:
  "cp_inv c \<Longrightarrow> distinct vs \<Longrightarrow> \<forall>i \<in> set vs. is_member (cp_membership c) i \<Longrightarrow>
   cp_inv (c\<lparr>cp_active_voters := vs\<rparr>)"
  by (simp add: cp_inv_def)

lemma cp_inv_append: "cp_inv c \<Longrightarrow> cp_inv (fst (append_as_leader i e now c))"
  by (simp add: append_as_leader_def cp_inv_push)

lemma cp_inv_voter: "cp_inv c \<Longrightarrow> cp_inv (fst (set_voter_active i a c))"
  by (auto simp: set_voter_active_def intro!: cp_inv_voters)
    (auto simp: cp_inv_def distinct_removeAll)

lemma cp_inv_elect: "cp_inv c \<Longrightarrow> cp_inv (fst (elect_leader i c))"
  by (auto simp: elect_leader_def Let_def intro!: cp_inv_leader)

lemma cp_inv_max_term: "cp_inv c \<Longrightarrow> 1 \<le> max (cp_current_term c) t"
  by (simp add: cp_inv_def le_max_iff_disj)

lemma cp_inv_step: "cp_inv c \<Longrightarrow> cp_inv (cp_step ev c)"
  by (cases ev)
    (auto simp: cp_inv_voter cp_inv_elect renew_serving_online_def mark_serving_offline_def
      set_known_leader_def apply_committed_session_entry_def cp_inv_append
      intro!: cp_inv_push cp_inv_leader cp_inv_max_term)

lemma cp_inv_run: "cp_inv c \<Longrightarrow> cp_inv (fold cp_step evs c)"
  by (induction evs arbitrary: c) (auto simp: cp_inv_step)

lemma cp_term_step: "cp_current_term c \<le> cp_current_term (cp_step ev c)"
  by (cases ev)
    (auto simp: set_voter_active_def elect_leader_def renew_serving_online_def push_entry_def
      mark_serving_offline_def set_known_leader_def apply_committed_session_entry_def
      append_as_leader_def Let_def le_max_iff_disj sat_add_ge)

lemma cp_log_step: "\<exists>es. cp_log (cp_step ev c) = cp_log c @ es"
  by (cases ev)
    (auto simp: set_voter_active_def elect_leader_def renew_serving_online_def push_entry_def
      mark_serving_offline_def set_known_leader_def apply_committed_session_entry_def
      append_as_leader_def Let_def)

section \<open>The session table\<close>

text \<open>The value of a table entry from time \<open>t\<close> on.\<close>

lemma expires_apply_renew:
  "sessions_expires_at (apply_entry (RenewServingSession s) now m) sn t =
   (if sn = session_sn_id s \<and> should_update m s
    then (if is_online s t then Some (session_expires_at s) else None)
    else sessions_expires_at m sn t)"
  by (simp add: sessions_expires_at_def hm.get_insert)

lemma expires_apply_revoke:
  "now \<le> t \<Longrightarrow> sessions_expires_at (apply_entry (RevokeServingSession i) now m) sn t =
     (if sn = i then None else sessions_expires_at m sn t)"
  by (auto simp: sessions_expires_at_def hm.get_insert is_online_def split: option.splits)

text \<open>An update that is refused because a later expiry is known changes nothing that is visible
  once it would have expired.\<close>

lemma expires_renew_equiv:
  assumes "sessions_expires_at m (session_sn_id s) t = sessions_expires_at m' (session_sn_id s) t"
  shows "sessions_expires_at (apply_entry (RenewServingSession s) now m) (session_sn_id s) t =
         sessions_expires_at (apply_entry (RenewServingSession s) now' m') (session_sn_id s) t"
  using assms unfolding expires_apply_renew
  by (auto simp: should_update_def sessions_expires_at_def is_online_def
      split: option.splits if_splits)

lemma expires_equiv_step:
  assumes "\<forall>sn. sessions_expires_at m sn t = sessions_expires_at m' sn t"
    and "now \<le> t" and "now' \<le> t"
  shows "\<forall>sn. sessions_expires_at (apply_entry e now m) sn t = sessions_expires_at (apply_entry e now' m') sn t"
proof (cases e)
  case (RenewServingSession s)
  have "sessions_expires_at (apply_entry e now m) sn t = sessions_expires_at (apply_entry e now' m') sn t"
    for sn
  proof (cases "sn = session_sn_id s")
    case True
    with assms(1) RenewServingSession expires_renew_equiv show ?thesis by blast
  next
    case False
    with assms(1) RenewServingSession expires_apply_renew show ?thesis by presburger
  qed
  then show ?thesis by blast
next
  case (RevokeServingSession i)
  with assms expires_apply_revoke show ?thesis by presburger
qed

lemma apply_log_simps [simp]:
  "apply_log [] m = m" "apply_log ((e, now) # es) m = apply_log es (apply_entry e now m)"
  by (simp_all add: apply_log_def)

lemma expires_equiv_log:
  assumes "\<forall>sn. sessions_expires_at m sn t = sessions_expires_at m' sn t"
    and "map fst es = map fst es'" and "\<forall>(e, now) \<in> set (es @ es'). now \<le> t"
  shows "\<forall>sn. sessions_expires_at (apply_log es m) sn t = sessions_expires_at (apply_log es' m') sn t"
  using assms
proof (induction es arbitrary: m m' es')
  case (Cons x es)
  obtain e now where x: "x = (e, now)" by (cases x)
  with Cons.prems(2) obtain now' es'' where es': "es' = (e, now') # es''"
    by (cases es') auto
  have "\<forall>sn. sessions_expires_at (apply_entry e now m) sn t = sessions_expires_at (apply_entry e now' m') sn t"
    using Cons.prems(1,3) x es' by (intro expires_equiv_step) auto
  with Cons.IH [of _ _ es''] Cons.prems(2,3) x es' show ?case by auto
qed simp

section \<open>The interface to the route directory\<close>

text \<open>What the directory of peer routes relies on: what a committed renewal or revocation does to
  the serving SNs that are online, and that a refused one does nothing.\<close>

locale serving_table =
  fixes online :: "'c \<Rightarrow> 'i \<Rightarrow> timestamp \<Rightarrow> bool"
    and renew :: "'i \<Rightarrow> 'i \<Rightarrow> duration \<Rightarrow> timestamp \<Rightarrow> 'c \<Rightarrow> 'c \<times> ('e + u64)"
    and revoke :: "'i \<Rightarrow> 'i \<Rightarrow> timestamp \<Rightarrow> 'c \<Rightarrow> 'c \<times> ('e + u64)"
  assumes renew_ok: "renew l sn ttl now c = (c', Inr idx) \<Longrightarrow>
        online c' x t \<longleftrightarrow> online c x t \<or> x = sn \<and> t < sat_add now (duration_to_bucky_time ttl)"
    and revoke_ok: "revoke l sn now c = (c', Inr idx) \<Longrightarrow> now \<le> t \<Longrightarrow>
        online c' x t \<longleftrightarrow> x \<noteq> sn \<and> online c x t"
    and renew_err: "renew l sn ttl now c = (c', Inl e) \<Longrightarrow> c' = c"
    and revoke_err: "revoke l sn now c = (c', Inl e) \<Longrightarrow> c' = c"
    and online_mono: "online c x t \<Longrightarrow> t' \<le> t \<Longrightarrow> online c x t'"
begin

lemma renew_keeps: "online c x t \<Longrightarrow> online (fst (renew l sn ttl now c)) x t"
  by (cases "renew l sn ttl now c"; cases "snd (renew l sn ttl now c)")
    (auto simp: renew_ok dest: renew_err)

lemma revoke_shrinks: "now \<le> t \<Longrightarrow> online (fst (revoke l sn now c)) x t \<Longrightarrow> online c x t"
  by (cases "revoke l sn now c"; cases "snd (revoke l sn now c)")
    (auto simp: revoke_ok dest: revoke_err)

lemma renew_makes_online:
  "renew l sn ttl now c = (c', Inr idx) \<Longrightarrow> t < sat_add now (duration_to_bucky_time ttl) \<Longrightarrow> online c' sn t"
  by (simp add: renew_ok)

lemma revoked_until_renewed:
  assumes "revoke l sn now c = (c', Inr idx)" and "now \<le> t"
    and "renew l' sn' ttl now' c' = (c'', Inr idx')" and "sn' \<noteq> sn"
  shows "\<not> online c'' sn t"
  using assms by (simp add: renew_ok revoke_ok)

end

interpretation st: serving_table is_serving_online renew_serving_online mark_serving_offline
  by unfold_locales
    (auto simp: renew_serving_online_def mark_serving_offline_def append_as_leader_def push_entry_def
      Let_def is_serving_online_def session_online_def should_update_def hm.get_insert is_online_def
      split: option.splits if_splits)

lemma expires_at_online:
  "(\<exists>e. serving_online_expires_at c sn t = Some e) \<longleftrightarrow> is_serving_online c sn t"
  by (auto simp: serving_online_expires_at_def sessions_expires_at_def is_serving_online_def
      split: option.splits)

section \<open>Properties\<close>

text \<open>C31: replicas converge. Two owners that apply the same log entries in the same order, each
  entry at whatever time it arrived, agree from the last of those times on about which serving SNs
  are online and until when.\<close>

theorem replicas_converge:
  assumes "map fst es = map fst es'" and "\<forall>(e, now) \<in> set (es @ es'). now \<le> t"
  shows "sessions_expires_at (apply_log es m) sn t = sessions_expires_at (apply_log es' m) sn t"
  using expires_equiv_log [OF _ assms, of m m] by simp

text \<open>a renewal is committed exactly when it comes from the current leader and a majority of
  the members is active, and leaves everything unchanged otherwise. A committed renewal is the last
  entry of the log, and the SN is online until the later of its old and its new expiry.\<close>

theorem renew_commits_with_quorum:
  "case renew_serving_online leader sn ttl now c of
     (c', Inl err) \<Rightarrow> c' = c \<and>
        (err = PermissionDenied \<and> cp_leader_id c \<noteq> Some leader \<or>
         err = NotFound \<and> 2 * length (cp_active_voters c) \<le> length (members (cp_membership c)))
   | (c', Inr idx) \<Rightarrow>
        cp_leader_id c = Some leader \<and>
        length (members (cp_membership c)) < 2 * length (cp_active_voters c) \<and>
        cp_log c' = cp_log c @ [RenewServingSession (session_online sn ttl now)] \<and>
        idx = of_nat (length (cp_log c')) \<and>
        (\<forall>x t. is_serving_online c' x t =
           (is_serving_online c x t \<or> x = sn \<and> t < sat_add now (duration_to_bucky_time ttl)))"
  by (auto simp: renew_serving_online_def append_as_leader_def push_entry_def Let_def has_quorum_def
      cp_quorum_size_def is_serving_online_def session_online_def should_update_def hm.get_insert
      is_online_def split: option.splits)

text \<open>over any sequence of operations on a fresh control plane the leader stays a member, the
  commit index counts the log, the log only grows and the term never decreases.\<close>

theorem control_plane_consistent:
  assumes "with_members ms n ttl = Inr m"
  shows "let c = fold cp_step evs (cp_new m); c' = fold cp_step (evs @ evs') (cp_new m)
         in cp_inv c \<and> cp_current_term c \<le> cp_current_term c' \<and> (\<exists>es. cp_log c' = cp_log c @ es)"
proof -
  have "cp_current_term c \<le> cp_current_term (fold cp_step es c)" for es c
    by (induction es arbitrary: c) (auto intro: order_trans [OF cp_term_step])
  moreover have "\<exists>l. cp_log (fold cp_step es c) = cp_log c @ l" for es c
  proof (induction es arbitrary: c)
    case (Cons e es)
    from Cons [of "cp_step e c"] cp_log_step [of e c] show ?case by auto
  qed simp
  ultimately show ?thesis
    using cp_inv_run [OF cp_inv_new [OF with_members_ok(1) [OF assms]]] by (simp add: Let_def)
qed

theorem replicas_converge_witness:
  "sessions_expires_at (apply_log [(RenewServingSession (session_online (P2pId [1]) 5000 1), 1),
       (RevokeServingSession (P2pId [1]), 2)] []) (P2pId [1]) 9 =
   sessions_expires_at (apply_log [(RenewServingSession (session_online (P2pId [1]) 5000 1), 1),
       (RevokeServingSession (P2pId [1]), 8)] []) (P2pId [1]) 9"
  by (rule replicas_converge) (simp_all add: word_le_nat_alt)

theorem control_plane_consistent_witness:
  "cp_inv (fold cp_step [CpElect (P2pId [2])] (cp_new sample_membership))"
  using control_plane_consistent [OF sample_members_ok(1), of "[CpElect (P2pId [2])]" "[]"]
  by (simp add: Let_def)

end
