(* ===== verification/RouteStore.thy ===== *)
theory RouteStore
  imports ControlPlane
begin

text \<open>
  \<open>p2p-frame/src/sn/directory/route.rs\<close>, \<open>store.rs\<close> and \<open>local.rs\<close>: where a peer is served.
  A route says that a serving SN serves a peer; it is only used while the control plane says that
  the serving SN is online. \<open>bucky_time_now()\<close> is the argument \<open>now\<close>.
\<close>

section \<open>Definitions\<close>

record peer_route =
  route_peer_id :: p2p_id
  route_serving_sn_id :: p2p_id
  route_sequence :: u64

definition from_lease :: "serving_lease \<Rightarrow> peer_route" where
  "from_lease l = \<lparr>route_peer_id = lease_peer_id l, route_serving_sn_id = lease_serving_sn_id l,
     route_sequence = lease_sequence l\<rparr>"

definition to_lease :: "peer_route \<Rightarrow> timestamp \<Rightarrow> serving_lease" where
  "to_lease r e = \<lparr>lease_peer_id = route_peer_id r, lease_serving_sn_id = route_serving_sn_id r,
     lease_sequence = route_sequence r, lease_expires_at = e\<rparr>"

type_synonym peer_routes = "(p2p_id, peer_route) hmap"
type_synonym routes = "(p2p_id, peer_routes) hmap"

definition entry_or_default :: "routes \<Rightarrow> p2p_id \<Rightarrow> peer_routes" where
  "entry_or_default rs p = (case hm_get rs p of Some m \<Rightarrow> m | None \<Rightarrow> [])"

definition routes_put :: "peer_route \<Rightarrow> routes \<Rightarrow> routes \<times> bool" where
  "routes_put r rs =
     (let pr = entry_or_default rs (route_peer_id r);
          refused = (case hm_get pr (route_serving_sn_id r) of
                       Some old \<Rightarrow> route_sequence r < route_sequence old | None \<Rightarrow> False)
      in if refused then (hm_insert (route_peer_id r) pr rs, False)
         else (hm_insert (route_peer_id r) (hm_insert (route_serving_sn_id r) r pr) rs, True))"

definition route_cmp :: "peer_route \<Rightarrow> peer_route \<Rightarrow> ordering" where
  "route_cmp l r = then_with (cmp_ord (route_sequence r) (route_sequence l))
     (cmp_ord (route_serving_sn_id l) (route_serving_sn_id r))"

definition routes_query ::
    "p2p_id \<Rightarrow> control_plane \<Rightarrow> timestamp \<Rightarrow> routes \<Rightarrow> routes \<times> peer_route list" where
  "routes_query p c now rs =
     (case hm_get rs p of
        None \<Rightarrow> (rs, [])
      | Some pr \<Rightarrow>
          let pr' = hm_retain (\<lambda>_ r. is_serving_online c (route_serving_sn_id r) now) pr
          in (hm_insert p pr' rs, sort_by route_cmp (hm_values pr')))"

record directory_store =
  store_control_plane :: control_plane
  store_routes :: routes

definition store_with_membership :: "owner_membership \<Rightarrow> directory_store" where
  "store_with_membership m = \<lparr>store_control_plane = cp_new m, store_routes = []\<rparr>"

definition store_local_only :: "p2p_id \<Rightarrow> directory_store option" where
  "store_local_only i =
     (case cp_local_only i of
        Some c \<Rightarrow> Some \<lparr>store_control_plane = c, store_routes = []\<rparr> | None \<Rightarrow> None)"

definition store_new :: "directory_store option" where
  "store_new = store_local_only (P2pId (replicate 32 0))"

definition store_put_route :: "peer_route \<Rightarrow> timestamp \<Rightarrow> directory_store \<Rightarrow> directory_store \<times> bool" where
  "store_put_route r now d =
     (if \<not> is_serving_online (store_control_plane d) (route_serving_sn_id r) now then (d, False)
      else let (rs, ok) = routes_put r (store_routes d) in (d\<lparr>store_routes := rs\<rparr>, ok))"

definition store_query_routes ::
    "p2p_id \<Rightarrow> timestamp \<Rightarrow> directory_store \<Rightarrow> directory_store \<times> peer_route list" where
  "store_query_routes p now d =
     (let (rs, out) = routes_query p (store_control_plane d) now (store_routes d)
      in (d\<lparr>store_routes := rs\<rparr>, out))"

definition store_put_lease :: "serving_lease \<Rightarrow> timestamp \<Rightarrow> directory_store \<Rightarrow> directory_store \<times> bool" where
  "store_put_lease l now d =
     (if \<not> lease_is_fresh l now then (d, False)
      else (case cp_leader_id (store_control_plane d) of
          None \<Rightarrow> (d, False)
        | Some leader \<Rightarrow>
            let ttl = bucky_time_to_duration (sat_sub (lease_expires_at l) now);
                (c', r) = renew_serving_session leader (lease_serving_sn_id l) 0 ttl now
                            (store_control_plane d);
                d' = d\<lparr>store_control_plane := c'\<rparr>
            in case r of Inl _ \<Rightarrow> (d', False) | Inr _ \<Rightarrow> store_put_route (from_lease l) now d'))"

definition store_revoke_serving_session ::
    "p2p_id \<Rightarrow> u64 \<Rightarrow> timestamp \<Rightarrow> directory_store \<Rightarrow> directory_store \<times> u64 p2p_result" where
  "store_revoke_serving_session sn epoch now d =
     (case cp_leader_id (store_control_plane d) of
        None \<Rightarrow> (d, Inl NotFound)
      | Some leader \<Rightarrow>
          let (c', r) = revoke_serving_session leader sn epoch now (store_control_plane d)
          in (d\<lparr>store_control_plane := c'\<rparr>, r))"

definition store_renew_serving_session ::
    "p2p_id \<Rightarrow> u64 \<Rightarrow> duration \<Rightarrow> timestamp \<Rightarrow> directory_store \<Rightarrow> directory_store \<times> u64 p2p_result" where
  "store_renew_serving_session sn epoch ttl now d =
     (case cp_leader_id (store_control_plane d) of
        None \<Rightarrow> (d, Inl NotFound)
      | Some leader \<Rightarrow>
          let (c', r) = renew_serving_session leader sn epoch ttl now (store_control_plane d)
          in (d\<lparr>store_control_plane := c'\<rparr>, r))"

definition store_query ::
    "p2p_id \<Rightarrow> timestamp \<Rightarrow> directory_store \<Rightarrow> directory_store \<times> serving_lease list" where
  "store_query p now d =
     (let (d', rs) = store_query_routes p now d
      in (d', List.map_filter (\<lambda>r. map_option (to_lease r)
                (serving_online_expires_at (store_control_plane d') (route_serving_sn_id r) now)) rs))"

subsection \<open>The local directory\<close>

record sn_directory =
  dir_resolver :: owner_resolver
  dir_member_health :: owner_member_health
  dir_store :: directory_store

definition sn_directory_new :: "owner_membership option \<Rightarrow> timestamp \<Rightarrow> sn_directory option" where
  "sn_directory_new m now =
     (case (case m of Some m \<Rightarrow> Some (store_with_membership m) | None \<Rightarrow> store_new) of
        None \<Rightarrow> None
      | Some st \<Rightarrow> Some \<lparr>dir_resolver = m,
          dir_member_health = (case m of
              Some m \<Rightarrow> health_with_members (members m) (member_health_ttl m) now
            | None \<Rightarrow> health_new DEFAULT_OWNER_MEMBER_HEALTH_TTL),
          dir_store = st\<rparr>)"

definition sn_directory_local_only :: "sn_directory option" where
  "sn_directory_local_only =
     (case store_new of
        None \<Rightarrow> None
      | Some st \<Rightarrow> Some \<lparr>dir_resolver = local_only,
          dir_member_health = health_new DEFAULT_OWNER_MEMBER_HEALTH_TTL, dir_store = st\<rparr>)"

definition dir_owner_set ::
    "(p2p_id \<Rightarrow> p2p_id \<Rightarrow> u64) \<Rightarrow> sn_directory \<Rightarrow> p2p_id \<Rightarrow> p2p_id \<Rightarrow> timestamp \<Rightarrow> p2p_id list" where
  "dir_owner_set score d peer lcl now =
     owner_set_at score (dir_resolver d) peer lcl (Some (dir_member_health d)) now"

definition refresh_owner_member :: "p2p_id \<Rightarrow> timestamp \<Rightarrow> sn_directory \<Rightarrow> sn_directory \<times> bool" where
  "refresh_owner_member i now d =
     (if \<not> has_member (dir_resolver d) i then (d, False)
      else (d\<lparr>dir_member_health := refresh_at i now (dir_member_health d)\<rparr>, True))"

definition new_lease :: "sn_directory \<Rightarrow> p2p_id \<Rightarrow> p2p_id \<Rightarrow> u64 \<Rightarrow> timestamp \<Rightarrow> serving_lease" where
  "new_lease d peer sn sequence now =
     serving_lease_new peer sn sequence (resolver_lease_ttl (dir_resolver d)) now"

definition dir_put_lease :: "serving_lease \<Rightarrow> timestamp \<Rightarrow> sn_directory \<Rightarrow> sn_directory \<times> bool" where
  "dir_put_lease l now d =
     (let (st, ok) = store_put_lease l now (dir_store d) in (d\<lparr>dir_store := st\<rparr>, ok))"

definition put_lease_route :: "serving_lease \<Rightarrow> timestamp \<Rightarrow> sn_directory \<Rightarrow> sn_directory \<times> bool" where
  "put_lease_route l now d =
     (let (st, ok) = store_put_route (from_lease l) now (dir_store d) in (d\<lparr>dir_store := st\<rparr>, ok))"

definition dir_query :: "p2p_id \<Rightarrow> timestamp \<Rightarrow> sn_directory \<Rightarrow> sn_directory \<times> serving_lease list" where
  "dir_query p now d =
     (let (st, out) = store_query p now (dir_store d) in (d\<lparr>dir_store := st\<rparr>, out))"

text \<open>\<open>LocalOwnerDirectory\<close> is a handle on the directory: an owner takes routes for leases that
  its control plane already knows to be online.\<close>

definition publish_serving_lease :: "serving_lease \<Rightarrow> timestamp \<Rightarrow> sn_directory \<Rightarrow> sn_directory \<times> bool" where
  "publish_serving_lease l now d = put_lease_route l now d"

definition query_serving_leases :: "p2p_id \<Rightarrow> timestamp \<Rightarrow> sn_directory \<Rightarrow> sn_directory \<times> serving_lease list" where
  "query_serving_leases p now d = dir_query p now d"

definition owner_refresh_member :: "p2p_id \<Rightarrow> timestamp \<Rightarrow> sn_directory \<Rightarrow> sn_directory \<times> bool" where
  "owner_refresh_member i now d = refresh_owner_member i now d"

subsection \<open>Invariant\<close>

definition routes_ok :: "routes \<Rightarrow> bool" where
  "routes_ok rs =
     (hm_wf rs \<and> (\<forall>(p, pr) \<in> set rs. hm_wf pr \<and>
        (\<forall>(i, r) \<in> set pr. route_peer_id r = p \<and> route_serving_sn_id r = i)))"

definition route_of :: "routes \<Rightarrow> p2p_id \<Rightarrow> p2p_id \<Rightarrow> peer_route option" where
  "route_of rs p sn = hm_get (entry_or_default rs p) sn"

definition store_inv :: "directory_store \<Rightarrow> bool" where
  "store_inv d = (cp_inv (store_control_plane d) \<and> routes_ok (store_routes d))"

definition sample_store :: directory_store where
  "sample_store = store_with_membership sample_membership"

definition sample_lease :: serving_lease where
  "sample_lease = \<lparr>lease_peer_id = P2pId [8], lease_serving_sn_id = P2pId [7], lease_sequence = 3,
     lease_expires_at = 50\<rparr>"

section \<open>Routes\<close>

interpretation rt: total_cmp route_cmp
  by unfold_locales (auto simp: route_cmp_def then_with_iff not_less)

lemma routes_ok_get:
  "routes_ok rs \<Longrightarrow> hm_wf (entry_or_default rs p) \<and>
   (\<forall>(i, r) \<in> set (entry_or_default rs p). route_peer_id r = p \<and> route_serving_sn_id r = i)"
  by (auto simp: routes_ok_def entry_or_default_def hm_wf_def split: option.splits dest!: hm_get_SomeD)

lemma routes_ok_insert:
  assumes "routes_ok rs" and "hm_wf pr"
    and "\<forall>(i, r) \<in> set pr. route_peer_id r = p \<and> route_serving_sn_id r = i"
  shows "routes_ok (hm_insert p pr rs)"
  using assms set_hm_insert [of p pr rs] by (force simp: routes_ok_def hm.wf_insert)

lemma entry_insert:
  "entry_or_default (hm_insert p pr rs) q = (if q = p then pr else entry_or_default rs q)"
  by (simp add: entry_or_default_def hm.get_insert)

lemma routes_ok_put: "routes_ok rs \<Longrightarrow> routes_ok (fst (routes_put r rs))"
  using routes_ok_get [of rs "route_peer_id r"]
    set_hm_insert [of "route_serving_sn_id r" r "entry_or_default rs (route_peer_id r)"]
  by (auto simp: routes_put_def Let_def hm.wf_insert intro!: routes_ok_insert)

lemma routes_put_accepts:
  "snd (routes_put r rs) \<longleftrightarrow>
   (case route_of rs (route_peer_id r) (route_serving_sn_id r) of
      Some old \<Rightarrow> route_sequence old \<le> route_sequence r | None \<Rightarrow> True)"
  by (auto simp: routes_put_def route_of_def Let_def split: option.splits)

lemma route_of_put:
  "route_of (fst (routes_put r rs)) p sn =
   (if p = route_peer_id r \<and> sn = route_serving_sn_id r \<and> snd (routes_put r rs) then Some r
    else route_of rs p sn)"
  by (auto simp: routes_put_def route_of_def Let_def entry_insert hm.get_insert split: option.splits)

lemma routes_ok_query: "routes_ok rs \<Longrightarrow> routes_ok (fst (routes_query p c now rs))"
  using routes_ok_get [of rs p]
  by (auto simp: routes_query_def Let_def entry_or_default_def hm.wf_retain set_hm_retain
      split: option.splits intro!: routes_ok_insert)

lemma route_of_query:
  assumes "routes_ok rs"
  shows "route_of (fst (routes_query p c now rs)) q sn = Some r \<longleftrightarrow>
    route_of rs q sn = Some r \<and> (q = p \<longrightarrow> is_serving_online c sn now)"
proof -
  have "hm_get pr sn = Some r \<Longrightarrow> route_serving_sn_id r = sn" if "hm_get rs p = Some pr" for pr
    using routes_ok_get [OF assms, of p] that by (auto simp: entry_or_default_def dest: hm_get_SomeD)
  moreover have "hm_wf (entry_or_default rs p)" using routes_ok_get [OF assms] by blast
  ultimately show ?thesis
    by (auto simp: routes_query_def route_of_def Let_def entry_or_default_def hm.get_insert
        hm.get_retain_Some hm.get_empty split: option.splits if_splits)
qed

lemma set_routes_query:
  assumes "routes_ok rs"
  shows "r \<in> set (snd (routes_query p c now rs)) \<longleftrightarrow>
    route_of rs p (route_serving_sn_id r) = Some r \<and> is_serving_online c (route_serving_sn_id r) now"
proof -
  note ok = routes_ok_get [OF assms, of p]
  have "r \<in> snd ` set (entry_or_default rs p) \<longleftrightarrow> route_of rs p (route_serving_sn_id r) = Some r"
    using ok hm_get_in_set [of "entry_or_default rs p"] unfolding route_of_def by force
  then show ?thesis
    by (auto simp: routes_query_def Let_def entry_or_default_def rt.set_sort_by hm_values_def
        set_hm_retain route_of_def hm_get_def split: option.splits)
qed

lemma sorted_routes_query:
  assumes "routes_ok rs"
  shows "sorted_wrt (\<lambda>l r. route_cmp l r = Less) (snd (routes_query p c now rs))"
proof (cases "hm_get rs p")
  case (Some pr)
  let ?pr = "hm_retain (\<lambda>_ r. is_serving_online c (route_serving_sn_id r) now) pr"
  have ok: "hm_wf pr" "\<forall>(i, r) \<in> set pr. route_serving_sn_id r = i"
    using routes_ok_get [OF assms, of p] Some by (auto simp: entry_or_default_def)
  then have eq: "map fst ?pr = map route_serving_sn_id (hm_values ?pr)"
    by (auto simp: hm_values_def set_hm_retain)
  have "distinct (map fst ?pr)"
    using hm.wf_retain [OF ok(1), of "\<lambda>_ r. is_serving_online c (route_serving_sn_id r) now"]
    by (simp add: hm_wf_def)
  then have "distinct (map route_serving_sn_id (hm_values ?pr))" using eq by metis
  moreover have "mset (map route_serving_sn_id (sort_by route_cmp (hm_values ?pr))) =
      mset (map route_serving_sn_id (hm_values ?pr))"
    unfolding mset_map by (simp only: rt.mset_sort_by)
  ultimately have "distinct (map route_serving_sn_id (sort_by route_cmp (hm_values ?pr)))"
    using mset_eq_imp_distinct_iff by blast
  then have "sorted_wrt (\<lambda>l r. route_serving_sn_id l \<noteq> route_serving_sn_id r)
      (sort_by route_cmp (hm_values ?pr))"
    by (simp add: distinct_map distinct_conv_nth sorted_wrt_iff_nth_less inj_on_def)
  with rt.sorted_sort_by [of "hm_values ?pr"] show ?thesis
    using Some
    by (auto simp: routes_query_def Let_def sorted_wrt_iff_nth_less route_cmp_def then_with_iff
        cmp_ord_def split: if_splits)
qed (simp add: routes_query_def)

section \<open>The store\<close>

lemma store_query_routes_alt:
  "store_query_routes p now d =
   (d\<lparr>store_routes := fst (routes_query p (store_control_plane d) now (store_routes d))\<rparr>,
    snd (routes_query p (store_control_plane d) now (store_routes d)))"
  by (simp add: store_query_routes_def case_prod_unfold Let_def)

lemma set_map_filter: "y \<in> set (List.map_filter f xs) \<longleftrightarrow> (\<exists>x \<in> set xs. f x = Some y)"
  by (induction xs) (auto simp: List.map_filter_simps split: option.splits)

lemma to_lease_expires [simp]: "lease_expires_at (to_lease r e) = e"
  by (simp add: to_lease_def)

text \<open>The leases a query returns.\<close>

lemma set_store_query:
  assumes "routes_ok (store_routes d)"
  shows "l \<in> set (snd (store_query p now d)) \<longleftrightarrow>
    (\<exists>r. route_of (store_routes d) p (route_serving_sn_id r) = Some r \<and>
         serving_online_expires_at (store_control_plane d) (route_serving_sn_id r) now =
           Some (lease_expires_at l) \<and> l = to_lease r (lease_expires_at l))"
    (is "_ \<longleftrightarrow> (\<exists>r. ?P r)")
proof -
  have "l \<in> set (snd (store_query p now d)) \<longleftrightarrow>
      (\<exists>r \<in> set (snd (routes_query p (store_control_plane d) now (store_routes d))).
         \<exists>e. serving_online_expires_at (store_control_plane d) (route_serving_sn_id r) now = Some e \<and>
             l = to_lease r e)"
    by (auto simp: store_query_def store_query_routes_alt set_map_filter)
  also have "\<dots> \<longleftrightarrow> (\<exists>r e. route_of (store_routes d) p (route_serving_sn_id r) = Some r \<and>
      serving_online_expires_at (store_control_plane d) (route_serving_sn_id r) now = Some e \<and>
      l = to_lease r e)"
    unfolding Bex_def set_routes_query [OF assms] using expires_at_online by blast
  also have "\<dots> \<longleftrightarrow> (\<exists>r. ?P r)"
    by (metis to_lease_expires)
  finally show ?thesis .
qed

lemma time_left: "now < e \<Longrightarrow> sat_add now (duration_to_bucky_time (bucky_time_to_duration (sat_sub e now))) = e"
proof -
  assume a: "now < e"
  have "unat (max (sat_sub e now) 1) = unat e - unat now"
    using a by (auto simp: max_def word_le_nat_alt word_less_nat_alt unat_sat_sub)
  moreover have "unat e < 2 ^ LENGTH(64)" by (rule unsigned_less)
  then have "unat e \<le> 2 ^ 64 - 1" by simp
  ultimately show ?thesis
    using a by (simp add: word_unat_eq_iff unat_sat_add unat_duration_to_bucky_time
        bucky_time_to_duration_def from_micros_def as_micros_def word_less_nat_alt)
qed

lemma renew_session_eq: "renew_serving_session leader sn epoch = renew_serving_online leader sn"
  by (intro ext) (simp add: renew_serving_session_def)

lemma revoke_session_eq: "revoke_serving_session leader sn epoch = mark_serving_offline leader sn"
  by (intro ext) (simp add: revoke_serving_session_def)

lemma put_lease_cases:
  assumes "store_put_lease l now d = (d', ok)" and "lease_is_fresh l now"
  obtains (refused) "\<not> ok" and "d' = d"
  | (renewed) leader c' idx where "cp_leader_id (store_control_plane d) = Some leader"
      and "renew_serving_online leader (lease_serving_sn_id l)
             (bucky_time_to_duration (sat_sub (lease_expires_at l) now)) now (store_control_plane d) =
             (c', Inr idx)"
      and "d' = \<lparr>store_control_plane = c', store_routes = fst (routes_put (from_lease l) (store_routes d))\<rparr>"
      and "ok = snd (routes_put (from_lease l) (store_routes d))"
proof (cases "cp_leader_id (store_control_plane d)")
  case None
  with assms refused show thesis by (simp add: store_put_lease_def)
next
  case (Some leader)
  let ?ttl = "bucky_time_to_duration (sat_sub (lease_expires_at l) now)"
  obtain c' r where r: "renew_serving_online leader (lease_serving_sn_id l) ?ttl now (store_control_plane d) = (c', r)"
    by fastforce
  show thesis
  proof (cases r)
    case (Inl e)
    with r have "c' = store_control_plane d" by (auto dest: st.renew_err)
    with Some Inl r assms refused show thesis
      by (simp add: store_put_lease_def renew_session_eq Let_def)
  next
    case (Inr idx)
    have "is_serving_online c' (lease_serving_sn_id l) now"
      using st.renew_makes_online [OF r [unfolded Inr]] assms(2) time_left
      by (simp add: lease_is_fresh_def)
    with Some Inr r assms show thesis
      by (intro renewed [of leader c' idx])
        (auto simp: store_put_lease_def renew_session_eq Let_def store_put_route_def from_lease_def
          case_prod_unfold)
  qed
qed

lemma store_inv_put_lease: "store_inv d \<Longrightarrow> store_inv (fst (store_put_lease l now d))"
proof (cases "lease_is_fresh l now")
  case True
  assume inv: "store_inv d"
  obtain d' ok where r: "store_put_lease l now d = (d', ok)" by fastforce
  from r True show ?thesis
  proof (cases rule: put_lease_cases)
    case (renewed leader c' idx)
    then have "cp_inv c'"
      using cp_inv_append inv unfolding renew_serving_online_def store_inv_def by (metis fst_conv)
    with renewed r inv show ?thesis by (simp add: store_inv_def routes_ok_put)
  qed (simp add: r inv)
qed (simp add: store_put_lease_def)

lemma store_inv_revoke:
  "store_inv d \<Longrightarrow> store_inv (fst (store_revoke_serving_session sn epoch now d))"
  by (auto simp: store_revoke_serving_session_def revoke_session_eq mark_serving_offline_def
      store_inv_def cp_inv_append case_prod_unfold Let_def split: option.splits)

lemma store_inv_renew:
  "store_inv d \<Longrightarrow> store_inv (fst (store_renew_serving_session sn epoch ttl now d))"
  by (auto simp: store_renew_serving_session_def renew_session_eq renew_serving_online_def
      store_inv_def cp_inv_append case_prod_unfold Let_def split: option.splits)

lemma store_inv_put_route: "store_inv d \<Longrightarrow> store_inv (fst (store_put_route r now d))"
  by (auto simp: store_put_route_def store_inv_def routes_ok_put case_prod_unfold Let_def)

lemma store_inv_query: "store_inv d \<Longrightarrow> store_inv (fst (store_query p now d))"
  by (simp add: store_query_def store_query_routes_alt store_inv_def routes_ok_query Let_def)

lemmas store_inv_ops =
  store_inv_put_lease store_inv_revoke store_inv_renew store_inv_put_route store_inv_query

text \<open>A lease that was accepted is found until it expires.\<close>

lemma accepted_lease_kept:
  assumes "store_inv d" and "store_put_lease l now d = (d', True)" and "now' < lease_expires_at l"
  shows "\<exists>e. lease_expires_at l \<le> e \<and>
             l\<lparr>lease_expires_at := e\<rparr> \<in> set (snd (store_query (lease_peer_id l) now' d'))"
proof -
  have fresh: "lease_is_fresh l now"
    using assms(2) by (auto simp: store_put_lease_def split: if_splits)
  from assms(2) fresh show ?thesis
  proof (cases rule: put_lease_cases)
    case (renewed leader c' idx)
    have left: "sat_add now (duration_to_bucky_time
        (bucky_time_to_duration (sat_sub (lease_expires_at l) now))) = lease_expires_at l"
      using fresh time_left by (simp add: lease_is_fresh_def)
    note on = st.renew_makes_online [OF renewed(2), unfolded left]
    obtain e where e: "serving_online_expires_at c' (lease_serving_sn_id l) now' = Some e"
      using on [OF assms(3)] expires_at_online by blast
    have "\<not> e < lease_expires_at l"
      using on [of e] e by (auto simp: serving_online_expires_at_def sessions_expires_at_def
          is_serving_online_def is_online_def split: option.splits if_splits)
    moreover have "route_of (store_routes d') (lease_peer_id l) (lease_serving_sn_id l) = Some (from_lease l)"
      using renewed(3,4) by (simp add: route_of_put from_lease_def)
    moreover have "routes_ok (store_routes d')"
      using assms(1) renewed(3) by (simp add: store_inv_def routes_ok_put)
    ultimately show ?thesis
      using e renewed(3)
      by (intro exI [of _ e]) (auto simp: set_store_query from_lease_def to_lease_def
          intro!: exI [of _ "from_lease l"])
  qed simp
qed

section \<open>Properties\<close>

text \<open>a lease that was accepted is found by every query for its peer until it expires, with
  its serving SN and sequence, and with an expiry that is no earlier.\<close>

theorem accepted_lease_found:
  assumes "store_inv d" and "store_put_lease l now d = (d', True)" and "now' < lease_expires_at l"
  shows "\<exists>e. lease_expires_at l \<le> e \<and>
             l\<lparr>lease_expires_at := e\<rparr> \<in> set (snd (store_query (lease_peer_id l) now' d'))"
  using assms by (rule accepted_lease_kept)

text \<open>a query returns exactly the known routes of the peer whose serving SN is online at that
  moment, each with the expiry of the SN's session, newest sequence first and by SN id within a
  sequence, no SN twice.\<close>

theorem query_live_routes:
  assumes "store_inv d"
  shows "sorted_wrt (\<lambda>a b. route_sequence b < route_sequence a \<or>
             route_sequence a = route_sequence b \<and> route_serving_sn_id a < route_serving_sn_id b)
           (snd (store_query_routes p now d)) \<and>
         set (snd (store_query_routes p now d)) =
           {r. route_of (store_routes d) p (route_serving_sn_id r) = Some r \<and>
               is_serving_online (store_control_plane d) (route_serving_sn_id r) now} \<and>
         set (snd (store_query p now d)) =
           {to_lease r e | r e. r \<in> set (snd (store_query_routes p now d)) \<and>
               serving_online_expires_at (store_control_plane d) (route_serving_sn_id r) now = Some e}"
proof -
  have ok: "routes_ok (store_routes d)" using assms by (simp add: store_inv_def)
  have "(\<lambda>l r. route_cmp l r = Less) = (\<lambda>a b. route_sequence b < route_sequence a \<or>
      route_sequence a = route_sequence b \<and> route_serving_sn_id a < route_serving_sn_id b)"
    by (auto simp: fun_eq_iff route_cmp_def then_with_iff)
  with sorted_routes_query [OF ok, of p "store_control_plane d" now]
  have "sorted_wrt (\<lambda>a b. route_sequence b < route_sequence a \<or>
      route_sequence a = route_sequence b \<and> route_serving_sn_id a < route_serving_sn_id b)
      (snd (store_query_routes p now d))"
    by (simp add: store_query_routes_alt)
  moreover have "set (snd (store_query p now d)) =
      {to_lease r e | r e. r \<in> set (snd (store_query_routes p now d)) \<and>
         serving_online_expires_at (store_control_plane d) (route_serving_sn_id r) now = Some e}"
    by (simp add: store_query_routes_alt store_query_def set_eq_iff set_map_filter) blast
  ultimately show ?thesis
    by (simp add: store_query_routes_alt set_eq_iff set_routes_query [OF ok])
qed

text \<open>once a serving SN is revoked, no query of any peer returns it, from the time of the
  revocation on, as long as nothing renews it.\<close>

theorem revoked_sn_not_returned:
  assumes "store_inv d" and "store_revoke_serving_session sn epoch now d = (d', Inr idx)"
    and "now \<le> now'"
  shows "sn \<notin> lease_serving_sn_id ` set (snd (store_query p now' d'))"
proof
  assume "sn \<in> lease_serving_sn_id ` set (snd (store_query p now' d'))"
  moreover have "store_inv d'" using store_inv_revoke [OF assms(1)] assms(2) by (metis fst_conv)
  ultimately obtain l r where "sn = lease_serving_sn_id l" and
    "serving_online_expires_at (store_control_plane d') (route_serving_sn_id r) now' = Some (lease_expires_at l)"
    and l: "l = to_lease r (lease_expires_at l)"
    by (auto simp: store_inv_def set_store_query)
  moreover from l have "lease_serving_sn_id l = route_serving_sn_id r"
    by (metis serving_lease.select_convs(2) to_lease_def)
  ultimately have "is_serving_online (store_control_plane d') sn now'" using expires_at_online by metis
  moreover have "\<not> is_serving_online (store_control_plane d') sn now'"
    using assms(2,3) st.revoke_ok
    by (auto simp: store_revoke_serving_session_def revoke_session_eq case_prod_unfold Let_def
        split: option.splits) (metis prod.collapse)
  ultimately show False by simp
qed

section \<open>Witnesses\<close>

lemma sample_store_inv: "store_inv sample_store"
  by (simp add: store_inv_def sample_store_def store_with_membership_def cp_inv_new routes_ok_def
      with_members_ok(1) [OF sample_members_ok(1)] hm_wf_def)

lemmas store_eval = sample_store_def store_with_membership_def cp_new_def sample_membership_def
  owner_member_new_def store_put_lease_def sample_lease_def lease_is_fresh_def Let_def
  renew_serving_session_def renew_serving_online_def append_as_leader_def has_quorum_def
  cp_quorum_size_def push_entry_def store_put_route_def is_serving_online_def is_online_def
  session_online_def from_lease_def routes_put_def entry_or_default_def hm_get_def hm_insert_def
  should_update_def

lemma sample_put_ok: "snd (store_put_lease sample_lease 10 sample_store)"
  using time_left [of 10 50] by (simp add: store_eval word_less_nat_alt)

theorem accepted_lease_found_witness:
  "\<exists>e \<ge> 50. sample_lease\<lparr>lease_expires_at := e\<rparr> \<in>
     set (snd (store_query (P2pId [8]) 20 (fst (store_put_lease sample_lease 10 sample_store))))"
proof -
  have r: "store_put_lease sample_lease 10 sample_store =
      (fst (store_put_lease sample_lease 10 sample_store), True)"
    using sample_put_ok by (metis prod.collapse)
  show ?thesis
    using accepted_lease_found [OF sample_store_inv r, of 20]
    by (simp add: sample_lease_def word_less_nat_alt)
qed

theorem query_live_routes_witness:
  "store_inv sample_store \<and> set (snd (store_query_routes (P2pId [8]) 20 sample_store)) = {}"
  using query_live_routes [OF sample_store_inv, of "P2pId [8]" 20] sample_store_inv
  by (simp add: sample_store_def store_with_membership_def route_of_def entry_or_default_def hm.get_empty)

theorem revoked_sn_not_returned_witness:
  "P2pId [7] \<notin> lease_serving_sn_id ` set (snd (store_query (P2pId [8]) 30
     (fst (store_revoke_serving_session (P2pId [7]) 0 25 sample_store))))"
proof -
  have "\<exists>idx. snd (store_revoke_serving_session (P2pId [7]) 0 25 sample_store) = Inr idx"
    by (simp add: store_revoke_serving_session_def revoke_serving_session_def mark_serving_offline_def
        store_eval)
  then obtain idx where r: "store_revoke_serving_session (P2pId [7]) 0 25 sample_store =
      (fst (store_revoke_serving_session (P2pId [7]) 0 25 sample_store), Inr idx)"
    by (metis prod.collapse)
  show ?thesis by (rule revoked_sn_not_returned [OF sample_store_inv r]) (simp add: word_le_nat_alt)
qed

end
