(* ===== verification/Election.thy ===== *)
theory Election
  imports ControlPlane
begin

text \<open>
  \<open>p2p-frame/src/sn/directory/election.rs\<close>: how the owner SNs of a group elect a leader and
  replicate the serving sessions.

  Every method that locks the state once is one function on the node. The methods that await a
  remote owner take the peer client as a parameter: a call of the client gets the node, for other
  tasks may run their handlers on it while the call is awaited, and gives back the node it finds
  and the answer. A client that leaves the node alone is the case without interleaving
  (\<open>quiet_client\<close>). \<open>Panicked\<close> is the panic of \<open>peer_client()\<close> when no client is attached.
\<close>

section \<open>Definitions\<close>

definition DEFAULT_HEARTBEAT_TIMEOUT :: duration where
  "DEFAULT_HEARTBEAT_TIMEOUT = from_secs 15"

datatype role = Follower | Candidate | Leader

record vote_request =
  vreq_term :: u64
  vreq_candidate_id :: p2p_id

record vote_response =
  vresp_term :: u64
  vote_granted :: bool
  vresp_leader_id :: "p2p_id option"

record heartbeat_request =
  hreq_term :: u64
  hreq_leader_id :: p2p_id
  hreq_committed_index :: u64

record heartbeat_response =
  hresp_term :: u64
  hresp_accepted :: bool
  hresp_leader_id :: "p2p_id option"

record session_replication =
  rep_term :: u64
  rep_leader_id :: p2p_id
  rep_entry :: owner_session_entry
  rep_now :: timestamp
  rep_committed :: bool

record session_response =
  sresp_term :: u64
  sresp_accepted :: bool
  sresp_committed_index :: u64
  sresp_leader_id :: "p2p_id option"

record session_forward =
  fwd_entry :: owner_session_entry
  fwd_now :: timestamp

record election_node =
  local_owner_id :: p2p_id
  node_membership :: owner_membership
  control_plane :: control_plane
  heartbeat_timeout :: duration
  role :: role
  current_term :: u64
  voted_for :: "p2p_id option"
  leader_id :: "p2p_id option"
  last_heartbeat_at :: timestamp

type_synonym ('q, 'r) remote_call = "p2p_id \<Rightarrow> 'q \<Rightarrow> election_node \<Rightarrow> election_node \<times> 'r p2p_result"

record peer_control_client =
  cl_request_vote :: "(vote_request, vote_response) remote_call"
  cl_send_heartbeat :: "(heartbeat_request, heartbeat_response) remote_call"
  cl_replicate_session :: "(session_replication, session_response) remote_call"
  cl_forward_session :: "(session_forward, session_response) remote_call"

datatype 'a outcome = Returned "'a p2p_result" | Panicked

definition node_new ::
    "p2p_id \<Rightarrow> owner_membership \<Rightarrow> control_plane \<Rightarrow> timestamp \<Rightarrow> election_node" where
  "node_new i m c now =
     (let single = (length (members m) = 1 \<and> member m i \<noteq> None)
      in \<lparr>local_owner_id = i, node_membership = m, control_plane = c,
          heartbeat_timeout = DEFAULT_HEARTBEAT_TIMEOUT,
          role = (if single then Leader else Follower), current_term = (if single then 1 else 0),
          voted_for = (if single then Some i else None), leader_id = (if single then Some i else None),
          last_heartbeat_at = now\<rparr>)"

definition with_control_plane :: "p2p_id \<Rightarrow> owner_membership \<Rightarrow> timestamp \<Rightarrow> election_node" where
  "with_control_plane i m now = node_new i m (cp_new m) now"

definition remote_members :: "election_node \<Rightarrow> p2p_id list" where
  "remote_members n = map sn_id (filter (\<lambda>m. sn_id m \<noteq> local_owner_id n) (members (node_membership n)))"

definition quorum_size :: "election_node \<Rightarrow> nat" where
  "quorum_size n = length (members (node_membership n)) div 2 + 1"

definition become_leader :: "u64 \<Rightarrow> timestamp \<Rightarrow> election_node \<Rightarrow> election_node \<times> unit p2p_result" where
  "become_leader term now n =
     (let (c', r) = set_known_leader (local_owner_id n) term (control_plane n)
      in (n\<lparr>role := Leader, current_term := term, voted_for := Some (local_owner_id n),
            leader_id := Some (local_owner_id n), last_heartbeat_at := now, control_plane := c'\<rparr>, r))"

definition step_down ::
    "u64 \<Rightarrow> p2p_id option \<Rightarrow> timestamp \<Rightarrow> election_node \<Rightarrow> election_node \<times> unit p2p_result" where
  "step_down term leader now n =
     (let n' = n\<lparr>role := Follower, current_term := max (current_term n) term, voted_for := None,
                 leader_id := leader, last_heartbeat_at := now\<rparr>
      in case leader of
           None \<Rightarrow> (n', Inr ())
         | Some l \<Rightarrow>
             let (c', r) = set_known_leader l term (control_plane n')
             in (n'\<lparr>control_plane := c'\<rparr>, r))"

definition require_leader :: "election_node \<Rightarrow> (u64 \<times> p2p_id) p2p_result" where
  "require_leader n =
     (if role n \<noteq> Leader then Inl PermissionDenied else Inr (current_term n, local_owner_id n))"

text \<open>\<open>self.step_down(..)?; return Err(PermissionDenied)\<close>, which three loops share.\<close>

definition step_down_err ::
    "u64 \<Rightarrow> p2p_id option \<Rightarrow> timestamp \<Rightarrow> election_node \<Rightarrow> election_node \<times> 'a p2p_result" where
  "step_down_err term leader now n =
     (case step_down term leader now n of
        (n', Inl e) \<Rightarrow> (n', Inl e) | (n', Inr _) \<Rightarrow> (n', Inl PermissionDenied))"

subsection \<open>Handlers\<close>

definition receive_vote_request ::
    "p2p_id \<Rightarrow> vote_request \<Rightarrow> timestamp \<Rightarrow> election_node \<Rightarrow> election_node \<times> vote_response" where
  "receive_vote_request remote q now n =
     (if \<not> is_member (node_membership n) remote \<or> remote \<noteq> vreq_candidate_id q \<or>
         vreq_term q < current_term n
      then (n, \<lparr>vresp_term = current_term n, vote_granted = False, vresp_leader_id = leader_id n\<rparr>)
      else
        let n1 = (if current_term n < vreq_term q
                  then n\<lparr>current_term := vreq_term q, role := Follower, voted_for := None,
                         leader_id := None\<rparr>
                  else n);
            granted = (case voted_for n1 of Some v \<Rightarrow> v = vreq_candidate_id q | None \<Rightarrow> True);
            n2 = (if granted
                  then n1\<lparr>voted_for := Some (vreq_candidate_id q), last_heartbeat_at := now\<rparr> else n1)
        in (n2, \<lparr>vresp_term = current_term n2, vote_granted = granted, vresp_leader_id = leader_id n2\<rparr>))"

definition receive_heartbeat ::
    "p2p_id \<Rightarrow> heartbeat_request \<Rightarrow> timestamp \<Rightarrow> election_node \<Rightarrow> election_node \<times> heartbeat_response" where
  "receive_heartbeat remote q now n =
     (if \<not> is_member (node_membership n) remote \<or> remote \<noteq> hreq_leader_id q \<or>
         hreq_term q < current_term n
      then (n, \<lparr>hresp_term = current_term n, hresp_accepted = False, hresp_leader_id = leader_id n\<rparr>)
      else
        let n' = n\<lparr>current_term := hreq_term q, role := Follower, voted_for := None,
                   leader_id := Some (hreq_leader_id q), last_heartbeat_at := now,
                   control_plane := fst (set_known_leader (hreq_leader_id q) (hreq_term q) (control_plane n))\<rparr>
        in (n', \<lparr>hresp_term = current_term n', hresp_accepted = True, hresp_leader_id = leader_id n'\<rparr>))"

definition session_response_of :: "election_node \<Rightarrow> bool \<Rightarrow> u64 \<Rightarrow> session_response" where
  "session_response_of n ok idx = \<lparr>sresp_term = current_term n, sresp_accepted = ok,
     sresp_committed_index = idx, sresp_leader_id = leader_id n\<rparr>"

definition receive_session_replication ::
    "p2p_id \<Rightarrow> session_replication \<Rightarrow> timestamp \<Rightarrow> election_node \<Rightarrow> election_node \<times> session_response" where
  "receive_session_replication remote q now n =
     (if \<not> is_member (node_membership n) remote \<or> remote \<noteq> rep_leader_id q
      then (n, session_response_of n False (cp_committed_index (control_plane n)))
      else
        let (n', hb) = receive_heartbeat remote
              \<lparr>hreq_term = rep_term q, hreq_leader_id = rep_leader_id q,
               hreq_committed_index = cp_committed_index (control_plane n)\<rparr> now n
        in if \<not> hresp_accepted hb
           then (n', \<lparr>sresp_term = hresp_term hb, sresp_accepted = False,
                      sresp_committed_index = cp_committed_index (control_plane n'),
                      sresp_leader_id = hresp_leader_id hb\<rparr>)
           else if \<not> rep_committed q
           then (n', session_response_of n' True (cp_committed_index (control_plane n')))
           else (case apply_committed_session_entry (rep_leader_id q) (rep_term q) (rep_entry q)
                        (rep_now q) (control_plane n') of
               (c', Inr idx) \<Rightarrow> (n'\<lparr>control_plane := c'\<rparr>, session_response_of n' True idx)
             | (c', Inl _) \<Rightarrow> (n'\<lparr>control_plane := c'\<rparr>,
                 session_response_of n' False (cp_committed_index c'))))"

subsection \<open>Calls to the other owners\<close>

fun heartbeat_loop ::
    "peer_control_client \<Rightarrow> heartbeat_request \<Rightarrow> timestamp \<Rightarrow> p2p_id list \<Rightarrow> nat \<Rightarrow> election_node \<Rightarrow>
     election_node \<times> nat p2p_result" where
  "heartbeat_loop cl q now [] accepted n = (n, Inr accepted)"
| "heartbeat_loop cl q now (m # ms) accepted n =
     (case cl_send_heartbeat cl m q n of
        (n', Inl _) \<Rightarrow> heartbeat_loop cl q now ms accepted n'
      | (n', Inr r) \<Rightarrow>
          if hreq_term q < hresp_term r then step_down_err (hresp_term r) (hresp_leader_id r) now n'
          else heartbeat_loop cl q now ms (if hresp_accepted r then Suc accepted else accepted) n')"

definition send_heartbeat ::
    "peer_control_client option \<Rightarrow> timestamp \<Rightarrow> election_node \<Rightarrow> election_node \<times> nat outcome" where
  "send_heartbeat client now n =
     (case require_leader n of
        Inl e \<Rightarrow> (n, Returned (Inl e))
      | Inr (term, leader) \<Rightarrow>
          let q = \<lparr>hreq_term = term, hreq_leader_id = leader,
                   hreq_committed_index = cp_committed_index (control_plane n)\<rparr>;
              ms = remote_members n
          in if ms = [] then (n, Returned (Inr 1))
             else (case client of
                 None \<Rightarrow> (n, Panicked)
               | Some cl \<Rightarrow> let (n', r) = heartbeat_loop cl q now ms 1 n in (n', Returned r)))"

fun vote_loop ::
    "peer_control_client \<Rightarrow> u64 \<Rightarrow> timestamp \<Rightarrow> p2p_id list \<Rightarrow> nat \<Rightarrow> u64 \<Rightarrow> election_node \<Rightarrow>
     election_node \<times> (nat \<times> u64) p2p_result" where
  "vote_loop cl term now [] votes highest n = (n, Inr (votes, highest))"
| "vote_loop cl term now (m # ms) votes highest n =
     (case cl_request_vote cl m \<lparr>vreq_term = term, vreq_candidate_id = local_owner_id n\<rparr> n of
        (n', Inl _) \<Rightarrow> vote_loop cl term now ms votes highest n'
      | (n', Inr r) \<Rightarrow>
          if term < vresp_term r then step_down_err (vresp_term r) (vresp_leader_id r) now n'
          else vote_loop cl term now ms (if vote_granted r then Suc votes else votes)
                 (max highest (vresp_term r)) n')"

definition begin_election :: "timestamp \<Rightarrow> election_node \<Rightarrow> election_node" where
  "begin_election now n =
     n\<lparr>role := Candidate, current_term := max (sat_add (current_term n) 1) 1,
       voted_for := Some (local_owner_id n), leader_id := None, last_heartbeat_at := now\<rparr>"

definition finish_election ::
    "peer_control_client option \<Rightarrow> u64 \<Rightarrow> timestamp \<Rightarrow> nat \<times> u64 \<Rightarrow> election_node \<Rightarrow>
     election_node \<times> p2p_id outcome" where
  "finish_election client term now tally n =
     (if quorum_size n \<le> fst tally then
        (case become_leader term now n of
           (n', Inl e) \<Rightarrow> (n', Returned (Inl e))
         | (n', Inr _) \<Rightarrow>
             (case send_heartbeat client now n' of
                (n'', Panicked) \<Rightarrow> (n'', Panicked)
              | (n'', Returned _) \<Rightarrow> (n'', Returned (Inr (local_owner_id n'')))))
      else
        (case step_down (snd tally) None now n of
           (n', Inl e) \<Rightarrow> (n', Returned (Inl e)) | (n', Inr _) \<Rightarrow> (n', Returned (Inl NotFound))))"

definition start_election ::
    "peer_control_client option \<Rightarrow> timestamp \<Rightarrow> election_node \<Rightarrow> election_node \<times> p2p_id outcome" where
  "start_election client now n0 =
     (let n = begin_election now n0; term = current_term n; ms = remote_members n
      in if ms = [] then finish_election client term now (1, term) n
         else (case client of
             None \<Rightarrow> (n, Panicked)
           | Some cl \<Rightarrow>
               (case vote_loop cl term now ms 1 term n of
                  (n', Inl e) \<Rightarrow> (n', Returned (Inl e))
                | (n', Inr tally) \<Rightarrow> finish_election client term now tally n')))"

definition tick ::
    "peer_control_client option \<Rightarrow> timestamp \<Rightarrow> election_node \<Rightarrow> election_node \<times> p2p_id option outcome" where
  "tick client now n =
     (if role n \<noteq> Leader \<and>
         duration_to_bucky_time (heartbeat_timeout n) < sat_sub now (last_heartbeat_at n)
      then (case start_election client now n of
          (n', Panicked) \<Rightarrow> (n', Panicked)
        | (n', Returned (Inl e)) \<Rightarrow> (n', Returned (Inl e))
        | (n', Returned (Inr i)) \<Rightarrow> (n', Returned (Inr (Some i))))
      else (n, Returned (Inr (leader_id n))))"

fun replicate_loop ::
    "peer_control_client \<Rightarrow> session_replication \<Rightarrow> timestamp \<Rightarrow> p2p_id list \<Rightarrow> nat \<Rightarrow> election_node \<Rightarrow>
     election_node \<times> nat p2p_result" where
  "replicate_loop cl q now [] accepted n = (n, Inr accepted)"
| "replicate_loop cl q now (m # ms) accepted n =
     (case cl_replicate_session cl m q n of
        (n', Inl _) \<Rightarrow> replicate_loop cl q now ms accepted n'
      | (n', Inr r) \<Rightarrow>
          if rep_term q < sresp_term r then step_down_err (sresp_term r) (sresp_leader_id r) now n'
          else replicate_loop cl q now ms (if sresp_accepted r then Suc accepted else accepted) n')"

fun announce_loop ::
    "peer_control_client \<Rightarrow> session_replication \<Rightarrow> p2p_id list \<Rightarrow> election_node \<Rightarrow> election_node" where
  "announce_loop cl q [] n = n"
| "announce_loop cl q (m # ms) n = announce_loop cl q ms (fst (cl_replicate_session cl m q n))"

definition commit_entry ::
    "peer_control_client option \<Rightarrow> u64 \<Rightarrow> p2p_id \<Rightarrow> owner_session_entry \<Rightarrow> timestamp \<Rightarrow> p2p_id list \<Rightarrow>
     nat \<Rightarrow> election_node \<Rightarrow> election_node \<times> u64 p2p_result" where
  "commit_entry client term leader e now ms accepted n =
     (if accepted < quorum_size n then (n, Inl NotFound)
      else (case apply_committed_session_entry leader term e now (control_plane n) of
          (c', Inl err) \<Rightarrow> (n\<lparr>control_plane := c'\<rparr>, Inl err)
        | (c', Inr idx) \<Rightarrow>
            (case client of
               None \<Rightarrow> (n\<lparr>control_plane := c'\<rparr>, Inr idx)
             | Some cl \<Rightarrow>
                 (announce_loop cl \<lparr>rep_term = term, rep_leader_id = leader, rep_entry = e,
                    rep_now = now, rep_committed = True\<rparr> ms (n\<lparr>control_plane := c'\<rparr>), Inr idx))))"

definition replicate_and_commit ::
    "peer_control_client option \<Rightarrow> owner_session_entry \<Rightarrow> timestamp \<Rightarrow> election_node \<Rightarrow>
     election_node \<times> u64 outcome" where
  "replicate_and_commit client e now n =
     (case require_leader n of
        Inl err \<Rightarrow> (n, Returned (Inl err))
      | Inr (term, leader) \<Rightarrow>
          let ms = remote_members n
          in if ms = [] then
               (let (n', r) = commit_entry client term leader e now [] 1 n in (n', Returned r))
             else (case client of
                 None \<Rightarrow> (n, Panicked)
               | Some cl \<Rightarrow>
                   (case replicate_loop cl \<lparr>rep_term = term, rep_leader_id = leader, rep_entry = e,
                          rep_now = now, rep_committed = False\<rparr> now ms 1 n of
                      (n', Inl err) \<Rightarrow> (n', Returned (Inl err))
                    | (n', Inr accepted) \<Rightarrow>
                        let (n'', r) = commit_entry client term leader e now ms accepted n'
                        in (n'', Returned r))))"

definition commit_or_forward_session ::
    "peer_control_client option \<Rightarrow> owner_session_entry \<Rightarrow> timestamp \<Rightarrow> election_node \<Rightarrow>
     election_node \<times> u64 outcome" where
  "commit_or_forward_session client e now n =
     (if role n = Leader then replicate_and_commit client e now n
      else (case leader_id n of
          None \<Rightarrow> (n, Returned (Inl NotFound))
        | Some leader \<Rightarrow>
            (case client of
               None \<Rightarrow> (n, Panicked)
             | Some cl \<Rightarrow>
                 (case cl_forward_session cl leader \<lparr>fwd_entry = e, fwd_now = now\<rparr> n of
                    (n', Inl err) \<Rightarrow> (n', Returned (Inl err))
                  | (n', Inr r) \<Rightarrow>
                      if sresp_accepted r then (n', Returned (Inr (sresp_committed_index r)))
                      else (n', Returned (Inl PermissionDenied))))))"

definition election_renew_serving_session ::
    "peer_control_client option \<Rightarrow> p2p_id \<Rightarrow> u64 \<Rightarrow> duration \<Rightarrow> timestamp \<Rightarrow> election_node \<Rightarrow>
     election_node \<times> u64 outcome" where
  "election_renew_serving_session client sn epoch ttl now n =
     commit_or_forward_session client (RenewServingSession (session_online sn ttl now)) now n"

definition election_revoke_serving_session ::
    "peer_control_client option \<Rightarrow> p2p_id \<Rightarrow> u64 \<Rightarrow> timestamp \<Rightarrow> election_node \<Rightarrow>
     election_node \<times> u64 outcome" where
  "election_revoke_serving_session client sn epoch now n =
     commit_or_forward_session client (RevokeServingSession sn) now n"

definition receive_session_forward ::
    "peer_control_client option \<Rightarrow> p2p_id \<Rightarrow> session_forward \<Rightarrow> election_node \<Rightarrow>
     election_node \<times> session_response option" where
  "receive_session_forward client remote q n =
     (if \<not> is_member (node_membership n) remote
      then (n, Some (session_response_of n False (cp_committed_index (control_plane n))))
      else (case commit_or_forward_session client (fwd_entry q) (fwd_now q) n of
          (n', Panicked) \<Rightarrow> (n', None)
        | (n', Returned (Inr idx)) \<Rightarrow> (n', Some (session_response_of n' True idx))
        | (n', Returned (Inl _)) \<Rightarrow>
            (n', Some (session_response_of n' False (cp_committed_index (control_plane n'))))))"

subsection \<open>Clients without interleaving, ballots, and a sample group\<close>

text \<open>The answers of the other owners; a failed call is \<open>Inl\<close>.\<close>

record peer_answers =
  on_vote :: "p2p_id \<Rightarrow> vote_request \<Rightarrow> vote_response p2p_result"
  on_heartbeat :: "p2p_id \<Rightarrow> heartbeat_request \<Rightarrow> heartbeat_response p2p_result"
  on_replicate :: "p2p_id \<Rightarrow> session_replication \<Rightarrow> session_response p2p_result"
  on_forward :: "p2p_id \<Rightarrow> session_forward \<Rightarrow> session_response p2p_result"

definition quiet_client :: "peer_answers \<Rightarrow> peer_control_client" where
  "quiet_client a = \<lparr>cl_request_vote = \<lambda>m q n. (n, on_vote a m q),
     cl_send_heartbeat = \<lambda>m q n. (n, on_heartbeat a m q),
     cl_replicate_session = \<lambda>m q n. (n, on_replicate a m q),
     cl_forward_session = \<lambda>m q n. (n, on_forward a m q)\<rparr>"

definition vote_yes :: "peer_answers \<Rightarrow> vote_request \<Rightarrow> p2p_id \<Rightarrow> bool" where
  "vote_yes a q m = (case on_vote a m q of Inr r \<Rightarrow> vote_granted r | Inl _ \<Rightarrow> False)"

definition replica_yes :: "peer_answers \<Rightarrow> session_replication \<Rightarrow> p2p_id \<Rightarrow> bool" where
  "replica_yes a q m = (case on_replicate a m q of Inr r \<Rightarrow> sresp_accepted r | Inl _ \<Rightarrow> False)"

text \<open>The request a candidate sends.\<close>

definition ballot :: "election_node \<Rightarrow> vote_request" where
  "ballot n = \<lparr>vreq_term = max (sat_add (current_term n) 1) 1, vreq_candidate_id = local_owner_id n\<rparr>"

definition proposal :: "election_node \<Rightarrow> owner_session_entry \<Rightarrow> timestamp \<Rightarrow> session_replication" where
  "proposal n e now = \<lparr>rep_term = current_term n, rep_leader_id = local_owner_id n, rep_entry = e,
     rep_now = now, rep_committed = False\<rparr>"

definition supporters :: "peer_answers \<Rightarrow> election_node \<Rightarrow> p2p_id set" where
  "supporters a n = insert (local_owner_id n) {m \<in> set (remote_members n). vote_yes a (ballot n) m}"

fun grants :: "('q \<Rightarrow> 'n \<Rightarrow> 'n \<times> bool) \<Rightarrow> 'q list \<Rightarrow> 'n \<Rightarrow> 'q list" where
  "grants vote [] n = []"
| "grants vote (q # qs) n =
     (let (n', ok) = vote q n in if ok then q # grants vote qs n' else grants vote qs n')"

type_synonym vote_event = "p2p_id \<times> vote_request \<times> timestamp"

definition vote_op :: "vote_event \<Rightarrow> election_node \<Rightarrow> election_node \<times> bool" where
  "vote_op ev n = (case ev of (remote, q, now) \<Rightarrow>
     let (n', r) = receive_vote_request remote q now n in (n', vote_granted r))"

definition ev_term :: "vote_event \<Rightarrow> u64" where "ev_term ev = vreq_term (fst (snd ev))"
definition ev_candidate :: "vote_event \<Rightarrow> p2p_id" where "ev_candidate ev = vreq_candidate_id (fst (snd ev))"

text \<open>Three owners; \<open>sample_node i\<close> is the fresh node of owner \<open>i\<close>. In \<open>answers_from\<close> the
  owner 2 answers with what its handler gave, and the third owner cannot be reached.\<close>

definition sample_node :: "u8 \<Rightarrow> election_node" where
  "sample_node i = with_control_plane (P2pId [i]) sample_membership 0"

definition answers_from :: "vote_response \<Rightarrow> peer_answers" where
  "answers_from r = \<lparr>on_vote = \<lambda>m q. if m = P2pId [2] then Inr r else Inl NetworkError,
     on_heartbeat = \<lambda>m q. Inl NetworkError,
     on_replicate = \<lambda>m q. Inl NetworkError, on_forward = \<lambda>m q. Inl NetworkError\<rparr>"

definition request_of :: "u8 \<Rightarrow> u64 \<Rightarrow> vote_request" where
  "request_of i t = \<lparr>vreq_term = t, vreq_candidate_id = P2pId [i]\<rparr>"

definition heartbeat_of :: "u8 \<Rightarrow> u64 \<Rightarrow> heartbeat_request" where
  "heartbeat_of i t = \<lparr>hreq_term = t, hreq_leader_id = P2pId [i], hreq_committed_index = 0\<rparr>"

text \<open>The part of the control plane that only committed entries change.\<close>

definition cp_data :: "election_node \<Rightarrow> owner_session_entry list \<times> sessions" where
  "cp_data n = (cp_log (control_plane n), cp_sessions (control_plane n))"

section \<open>Votes\<close>

text \<open>What the election relies on in a voter.\<close>

locale voter =
  fixes term_of :: "'n \<Rightarrow> 't::linorder" and vote_of :: "'n \<Rightarrow> 'c option"
    and vote :: "'q \<Rightarrow> 'n \<Rightarrow> 'n \<times> bool" and req_term :: "'q \<Rightarrow> 't" and req_candidate :: "'q \<Rightarrow> 'c"
  assumes term_mono: "term_of n \<le> term_of (fst (vote q n))"
    and granted: "snd (vote q n) \<Longrightarrow> term_of (fst (vote q n)) = req_term q \<and>
          vote_of (fst (vote q n)) = Some (req_candidate q)"
    and keeps: "vote_of n = Some c \<Longrightarrow> term_of (fst (vote q n)) = term_of n \<Longrightarrow>
          vote_of (fst (vote q n)) = Some c"
begin

lemma grants_after:
  assumes "q \<in> set (grants vote qs n)"
  shows "term_of n \<le> req_term q \<and>
    (\<forall>c. vote_of n = Some c \<longrightarrow> req_term q = term_of n \<longrightarrow> req_candidate q = c)"
  using assms
proof (induction qs arbitrary: n)
  case (Cons q' qs)
  obtain n' ok where v: "vote q' n = (n', ok)" by fastforce
  have mono: "term_of n \<le> term_of n'" using term_mono [of n q'] v by simp
  have kept: "vote_of n' = Some c" if "vote_of n = Some c" "term_of n' = term_of n" for c
    using keeps [of n c q'] v that by simp
  show ?case
  proof (cases "ok \<and> q = q'")
    case True
    with granted [of q' n] v mono kept show ?thesis by auto
  next
    case False
    with Cons.prems v have "q \<in> set (grants vote qs n')" by (auto split: if_splits)
    note later = Cons.IH [OF this]
    show ?thesis
    proof (intro conjI allI impI)
      show "term_of n \<le> req_term q" using order_trans [OF mono] later by blast
      fix c assume c: "vote_of n = Some c" and t: "req_term q = term_of n"
      with mono later have "term_of n' = term_of n" by (intro antisym) simp_all
      with kept [OF c] later t show "req_candidate q = c" by simp
    qed
  qed
qed simp

lemma one_candidate_per_term:
  assumes "q1 \<in> set (grants vote qs n)" and "q2 \<in> set (grants vote qs n)"
    and "req_term q1 = req_term q2"
  shows "req_candidate q1 = req_candidate q2"
  using assms
proof (induction qs arbitrary: n)
  case (Cons q qs)
  obtain n' ok where v: "vote q n = (n', ok)" by fastforce
  show ?case
  proof (cases ok)
    case True
    with granted [of q n] v have n': "term_of n' = req_term q" "vote_of n' = Some (req_candidate q)"
      by auto
    have first: "req_candidate q' = req_candidate q"
      if "q' \<in> set (grants vote qs n')" "req_term q' = req_term q" for q'
      using grants_after [OF that(1)] n' that(2) by simp
    from True v Cons.prems have "q1 = q \<or> q1 \<in> set (grants vote qs n')"
      and "q2 = q \<or> q2 \<in> set (grants vote qs n')" by auto
    then consider "q1 = q" "q2 = q" | "q1 = q" "q2 \<in> set (grants vote qs n')"
      | "q2 = q" "q1 \<in> set (grants vote qs n')"
      | "q1 \<in> set (grants vote qs n')" "q2 \<in> set (grants vote qs n')" by blast
    then show ?thesis
    proof cases
      case 4
      with Cons.IH Cons.prems(3) show ?thesis by blast
    qed (use first Cons.prems(3) in auto)
  next
    case False
    with v Cons show ?thesis by auto
  qed
qed simp

end

text \<open>The outcomes of a vote request.\<close>

lemma vote_request_cases:
  obtains (refused) "receive_vote_request remote q now n =
      (n, \<lparr>vresp_term = current_term n, vote_granted = False, vresp_leader_id = leader_id n\<rparr>)"
  | (kept) "current_term n = vreq_term q" and "remote = vreq_candidate_id q"
      and "fst (receive_vote_request remote q now n) =
             (if vote_granted (snd (receive_vote_request remote q now n))
              then n\<lparr>voted_for := Some remote, last_heartbeat_at := now\<rparr> else n)"
      and "vote_granted (snd (receive_vote_request remote q now n)) \<longleftrightarrow>
             voted_for n = None \<or> voted_for n = Some remote"
  | (newer) "current_term n < vreq_term q" and "remote = vreq_candidate_id q"
      and "receive_vote_request remote q now n =
             (n\<lparr>current_term := vreq_term q, role := Follower, voted_for := Some remote,
                leader_id := None, last_heartbeat_at := now\<rparr>,
              \<lparr>vresp_term = vreq_term q, vote_granted = True, vresp_leader_id = None\<rparr>)"
proof (cases "\<not> is_member (node_membership n) remote \<or> remote \<noteq> vreq_candidate_id q \<or>
    vreq_term q < current_term n")
  case True
  then show thesis by (intro refused) (simp add: receive_vote_request_def)
next
  case False
  show thesis
  proof (cases "current_term n < vreq_term q")
    case True
    with False show thesis by (intro newer) (simp_all add: receive_vote_request_def Let_def)
  next
    case le: False
    with False have "current_term n = vreq_term q" by simp
    with False show thesis
      by (intro kept) (auto simp: receive_vote_request_def Let_def split: option.splits)
  qed
qed

lemma vote_op_eq:
  "vote_op (remote, q, now) n =
   (fst (receive_vote_request remote q now n), vote_granted (snd (receive_vote_request remote q now n)))"
  by (simp add: vote_op_def case_prod_unfold Let_def)

interpretation vr: voter current_term voted_for vote_op ev_term ev_candidate
proof (unfold_locales, goal_cases)
  case (1 n ev)
  obtain remote q now where ev: "ev = (remote, q, now)" by (cases ev)
  show ?case unfolding ev vote_op_eq fst_conv
    by (cases rule: vote_request_cases [of remote q now n]) auto
next
  case (2 ev n)
  obtain remote q now where ev: "ev = (remote, q, now)" by (cases ev)
  from 2 show ?case unfolding ev vote_op_eq fst_conv snd_conv ev_term_def ev_candidate_def
    by (cases rule: vote_request_cases [of remote q now n]) auto
next
  case (3 n c ev)
  obtain remote q now where ev: "ev = (remote, q, now)" by (cases ev)
  from 3 show ?case unfolding ev vote_op_eq fst_conv
    by (cases rule: vote_request_cases [of remote q now n]) auto
qed

section \<open>Elections\<close>

lemma remote_members_distinct:
  "membership_ok (node_membership n) \<Longrightarrow> distinct (remote_members n)"
  unfolding remote_members_def membership_ok_def strict_sorted_iff by (auto simp: distinct_map_filter)

lemma set_remote_members:
  "set (remote_members n) = sn_id ` set (members (node_membership n)) - {local_owner_id n}"
  by (auto simp: remote_members_def)

lemma quiet_client_simps [simp]:
  "cl_request_vote (quiet_client a) m q n = (n, on_vote a m q)"
  "cl_send_heartbeat (quiet_client a) m hq n = (n, on_heartbeat a m hq)"
  "cl_replicate_session (quiet_client a) m rq n = (n, on_replicate a m rq)"
  "cl_forward_session (quiet_client a) m fq n = (n, on_forward a m fq)"
  by (simp_all add: quiet_client_def)

lemma step_down_err_Inr [simp]: "step_down_err t l now n \<noteq> (n', Inr x)"
  by (auto simp: step_down_err_def split: prod.splits sum.splits)

text \<open>The tally of the votes when no handler runs meanwhile.\<close>

lemma vote_loop_quiet:
  assumes "vote_loop (quiet_client a) term now ms votes highest n = (n', Inr (v, h))"
  shows "n' = n \<and> v = votes + length (filter (vote_yes a \<lparr>vreq_term = term,
           vreq_candidate_id = local_owner_id n\<rparr>) ms)"
  using assms
proof (induction ms arbitrary: votes highest)
  case (Cons m ms)
  show ?case
  proof (cases "on_vote a m \<lparr>vreq_term = term, vreq_candidate_id = local_owner_id n\<rparr>")
    case (Inl e)
    with Cons show ?thesis by (simp add: vote_yes_def)
  next
    case (Inr r)
    with Cons.IH [of "if vote_granted r then Suc votes else votes" "max highest (vresp_term r)"]
      Cons.prems show ?thesis
      by (simp add: vote_yes_def [of a _ m] split: if_splits)
  qed
qed simp

lemma heartbeat_loop_quiet:
  "fst (heartbeat_loop (quiet_client a) q now ms k n) = n \<or>
   role (fst (heartbeat_loop (quiet_client a) q now ms k n)) = Follower"
  by (induction ms arbitrary: k)
    (auto simp: step_down_err_def step_down_def Let_def split: sum.splits prod.splits option.splits)

lemma become_leader_ok:
  "become_leader t now n = (n', Inr ()) \<Longrightarrow> is_member (cp_membership (control_plane n)) (local_owner_id n) \<and>
   role n' = Leader \<and> current_term n' = t \<and> local_owner_id n' = local_owner_id n"
  by (auto simp: become_leader_def set_known_leader_def Let_def split: if_splits)

lemma finish_election_ok:
  assumes "finish_election (Some (quiet_client a)) t now tally n = (n', Returned (Inr l))"
  shows "quorum_size n \<le> fst tally"
  using assms by (auto simp: finish_election_def split: if_splits prod.splits sum.splits)

lemma begin_election_simps [simp]:
  "remote_members (begin_election now n) = remote_members n"
  "local_owner_id (begin_election now n) = local_owner_id n"
  "quorum_size (begin_election now n) = quorum_size n"
  "current_term (begin_election now n) = vreq_term (ballot n)"
  by (simp_all add: begin_election_def remote_members_def quorum_size_def ballot_def)

lemma ballot_eta: "\<lparr>vreq_term = vreq_term (ballot n), vreq_candidate_id = local_owner_id n\<rparr> = ballot n"
  by (simp add: ballot_def)

text \<open>A candidate that was elected was supported by a majority.\<close>

lemma elected_majority:
  assumes "start_election (Some (quiet_client a)) now n = (n', Returned (Inr l))"
  shows "quorum_size n \<le> 1 + length (filter (vote_yes a (ballot n)) (remote_members n))"
proof (cases "remote_members n = []")
  case True
  with assms finish_election_ok show ?thesis by (fastforce simp: start_election_def Let_def)
next
  case False
  let ?n = "begin_election now n"
  let ?t = "vreq_term (ballot n)"
  from assms False obtain n1 tally where
    l: "vote_loop (quiet_client a) ?t now (remote_members n) 1 ?t ?n = (n1, Inr tally)"
    and f: "finish_election (Some (quiet_client a)) ?t now tally n1 = (n', Returned (Inr l))"
    by (auto simp: start_election_def Let_def split: prod.splits sum.splits)
  obtain v h where tally: "tally = (v, h)" by (cases tally)
  from vote_loop_quiet [OF l [unfolded tally]] finish_election_ok [OF f] tally show ?thesis
    by (simp add: ballot_eta)
qed

lemma supporters_majority:
  assumes "membership_ok (node_membership n)"
    and "is_member (node_membership n) (local_owner_id n)"
    and "start_election (Some (quiet_client a)) now n = (n', Returned (Inr l))"
  shows "supporters a n \<subseteq> sn_id ` set (members (node_membership n)) \<and>
         card (sn_id ` set (members (node_membership n))) < 2 * card (supporters a n)"
proof -
  let ?yes = "filter (vote_yes a (ballot n)) (remote_members n)"
  have "card (supporters a n) = 1 + card (set ?yes)"
    by (simp add: supporters_def set_remote_members)
  also have "card (set ?yes) = length ?yes"
    by (intro distinct_card distinct_filter remote_members_distinct assms(1))
  finally have "quorum_size n \<le> card (supporters a n)" using elected_majority [OF assms(3)] by simp
  moreover have "supporters a n \<subseteq> sn_id ` set (members (node_membership n))"
    using assms(2) by (auto simp: supporters_def set_remote_members is_member_def)
  ultimately show ?thesis
    using length_members [OF assms(1)] by (auto simp: quorum_size_def)
qed

lemma majorities_meet:
  assumes "A \<subseteq> M" and "B \<subseteq> M" and "finite M" and "card M < 2 * card A" and "card M < 2 * card B"
  shows "A \<inter> B \<noteq> {}"
proof
  assume "A \<inter> B = {}"
  then have "card A + card B = card (A \<union> B)"
    using assms by (metis card_Un_disjoint finite_subset)
  also have "\<dots> \<le> card M" using assms by (intro card_mono) auto
  finally show False using assms(4,5) by linarith
qed

section \<open>Replication\<close>

lemma replicate_loop_quiet:
  assumes "replicate_loop (quiet_client a) q now ms k n = (n', Inr k')"
  shows "n' = n \<and> k' = k + length (filter (replica_yes a q) ms)"
  using assms
proof (induction ms arbitrary: k)
  case (Cons m ms)
  show ?case
  proof (cases "on_replicate a m q")
    case (Inl e)
    with Cons show ?thesis by (simp add: replica_yes_def)
  next
    case (Inr r)
    with Cons.IH [of "if sresp_accepted r then Suc k else k"] Cons.prems show ?thesis
      by (simp add: replica_yes_def [of a _ m] split: if_splits)
  qed
qed simp

lemma set_known_leader_data [simp]:
  "cp_log (fst (set_known_leader l t c)) = cp_log c"
  "cp_sessions (fst (set_known_leader l t c)) = cp_sessions c"
  "cp_membership (fst (set_known_leader l t c)) = cp_membership c"
  by (simp_all add: set_known_leader_def)

lemma step_down_err_data: "cp_data (fst (step_down_err t l now n)) = cp_data n"
  by (auto simp: step_down_err_def step_down_def cp_data_def Let_def case_prod_unfold
      split: sum.splits option.splits)

lemma replicate_loop_data:
  "cp_data (fst (replicate_loop (quiet_client a) q now ms k n)) = cp_data n"
  by (induction ms arbitrary: k) (auto simp: step_down_err_data split: sum.splits)

lemma announce_loop_quiet [simp]: "announce_loop (quiet_client a) q ms n = n"
  by (induction ms) auto

lemma apply_committed_cases:
  "apply_committed_session_entry l t e now c =
   (if is_member (cp_membership c) l
    then push_entry e now (c\<lparr>cp_current_term := max (cp_current_term c) t, cp_leader_id := Some l\<rparr>)
    else (c, Inl PermissionDenied))"
  by (simp add: apply_committed_session_entry_def)

lemma commit_entry_quiet:
  "case commit_entry (Some (quiet_client a)) t l e now ms k n of
     (n', Inr idx) \<Rightarrow> quorum_size n \<le> k \<and>
        cp_data n' = (cp_log (control_plane n) @ [e], apply_entry e now (cp_sessions (control_plane n))) \<and>
        idx = of_nat (Suc (length (cp_log (control_plane n))))
   | (n', Inl err) \<Rightarrow> cp_data n' = cp_data n"
  by (simp add: commit_entry_def apply_committed_cases push_entry_def Let_def cp_data_def)

lemma heartbeat_data: "cp_data (fst (receive_heartbeat remote q now n)) = cp_data n"
  by (simp add: receive_heartbeat_def Let_def cp_data_def)

text \<open>The run of a commit at the leader, from the answers of the others.\<close>

lemma replicate_and_commit_run:
  assumes "role n = Leader"
    and "replicate_loop (quiet_client a) (proposal n e now) now (remote_members n) 1 n = (n1, r)"
  shows "replicate_and_commit (Some (quiet_client a)) e now n =
    (case r of Inl err \<Rightarrow> (n1, Returned (Inl err))
     | Inr k \<Rightarrow>
         let (n', out) = commit_entry (Some (quiet_client a)) (current_term n) (local_owner_id n) e now
               (remote_members n) k n1
         in (n', Returned out))"
  using assms
  by (cases "remote_members n = []")
    (auto simp: replicate_and_commit_def require_leader_def Let_def proposal_def split: sum.splits)

lemma commit_no_panic: "snd (replicate_and_commit (Some (quiet_client a)) e now n) \<noteq> Panicked"
  by (auto simp: replicate_and_commit_def require_leader_def Let_def case_prod_unfold split: sum.splits)

lemma leader_commits:
  assumes "replicate_and_commit (Some (quiet_client a)) e now n = (n', Returned (Inr idx))"
  shows "role n = Leader \<and>
    quorum_size n \<le> 1 + length (filter (replica_yes a (proposal n e now)) (remote_members n)) \<and>
    cp_data n' = (cp_log (control_plane n) @ [e], apply_entry e now (cp_sessions (control_plane n))) \<and>
    idx = of_nat (Suc (length (cp_log (control_plane n))))"
proof -
  have leader: "role n = Leader"
    using assms by (auto simp: replicate_and_commit_def require_leader_def split: if_splits)
  obtain n1 r where l: "replicate_loop (quiet_client a) (proposal n e now) now (remote_members n) 1 n = (n1, r)"
    by fastforce
  from assms replicate_and_commit_run [OF leader l] obtain k where r: "r = Inr k"
    by (cases r) auto
  with replicate_loop_quiet l have n1: "n1 = n"
    and k: "k = 1 + length (filter (replica_yes a (proposal n e now)) (remote_members n))" by blast+
  from assms replicate_and_commit_run [OF leader l] r n1
  have "commit_entry (Some (quiet_client a)) (current_term n) (local_owner_id n) e now (remote_members n) k n =
      (n', Inr idx)" by (auto split: prod.splits)
  with commit_entry_quiet [where a = a and t = "current_term n" and l = "local_owner_id n" and
      e = e and now = now and ms = "remote_members n" and k = k and n = n] leader k
  show ?thesis by auto
qed

lemma leader_refuses:
  assumes "replicate_and_commit (Some (quiet_client a)) e now n = (n', Returned (Inl err))"
  shows "cp_data n' = cp_data n"
proof (cases "role n = Leader")
  case True
  obtain n1 r where l: "replicate_loop (quiet_client a) (proposal n e now) now (remote_members n) 1 n = (n1, r)"
    by fastforce
  have same: "cp_data n1 = cp_data n"
    using replicate_loop_data [where a = a and q = "proposal n e now" and now = now and
        ms = "remote_members n" and k = 1 and n = n] l by simp
  show ?thesis
  proof (cases r)
    case (Inl x)
    with assms replicate_and_commit_run [OF True l] same show ?thesis by simp
  next
    case (Inr k)
    with assms replicate_and_commit_run [OF True l]
    have "commit_entry (Some (quiet_client a)) (current_term n) (local_owner_id n) e now
        (remote_members n) k n1 = (n', Inl err)" by (auto split: prod.splits)
    with commit_entry_quiet [where a = a and t = "current_term n" and l = "local_owner_id n" and
        e = e and now = now and ms = "remote_members n" and k = k and n = n1] same
    show ?thesis by simp
  qed
qed (use assms in \<open>simp add: replicate_and_commit_def require_leader_def\<close>)

lemma follower_applies:
  assumes "receive_session_replication remote q now f = (f', r)" and "sresp_accepted r" and "rep_committed q"
  shows "cp_data f' = (cp_log (control_plane f) @ [rep_entry q],
    apply_entry (rep_entry q) (rep_now q) (cp_sessions (control_plane f)))"
  using assms
  by (auto simp: receive_session_replication_def receive_heartbeat_def session_response_of_def Let_def
      apply_committed_cases push_entry_def cp_data_def split: if_splits)

section \<open>Properties\<close>

text \<open>an owner that answers any sequence of vote requests grants its vote to one candidate per
  term.\<close>

theorem one_vote_per_term:
  assumes "ev1 \<in> set (grants vote_op evs n)" and "ev2 \<in> set (grants vote_op evs n)"
    and "ev_term ev1 = ev_term ev2"
  shows "ev_candidate ev1 = ev_candidate ev2"
  using assms by (rule vr.one_candidate_per_term)

text \<open>two successful elections have a common supporter. When two owners of a group are both
  elected, some member is counted in both majorities; with one vote per term the terms therefore
  differ or the leader is the same.\<close>

theorem elections_share_supporter:
  assumes "membership_ok (node_membership n1)" and "node_membership n2 = node_membership n1"
    and "is_member (node_membership n1) (local_owner_id n1)"
    and "is_member (node_membership n1) (local_owner_id n2)"
    and "start_election (Some (quiet_client a1)) now1 n1 = (n1', Returned (Inr l1))"
    and "start_election (Some (quiet_client a2)) now2 n2 = (n2', Returned (Inr l2))"
  shows "supporters a1 n1 \<inter> supporters a2 n2 \<noteq> {}"
  using supporters_majority [OF assms(1,3,5)] supporters_majority [of n2, OF _ _ assms(6)] assms(1,2,4)
  by (intro majorities_meet [of _ "sn_id ` set (members (node_membership n1))"]) auto


text \<open>what a replicated entry does to a follower. It is accepted from a member that names
  itself as leader of a term that is not older; an accepted entry is appended and applied only when
  the leader says it is committed, anything else leaves the log alone; the term never decreases.\<close>

theorem replication_at_follower:
  "case receive_session_replication remote q now n of (n', r) \<Rightarrow>
     sresp_accepted r =
       (is_member (node_membership n) remote \<and> remote = rep_leader_id q \<and> current_term n \<le> rep_term q \<and>
        (if rep_committed q then is_member (cp_membership (control_plane n)) remote else True)) \<and>
     cp_log (control_plane n') =
       cp_log (control_plane n) @ (if sresp_accepted r \<and> rep_committed q then [rep_entry q] else []) \<and>
     cp_sessions (control_plane n') =
       (if sresp_accepted r \<and> rep_committed q
        then apply_entry (rep_entry q) (rep_now q) (cp_sessions (control_plane n))
        else cp_sessions (control_plane n)) \<and>
     current_term n \<le> current_term n'"
proof (cases "\<not> is_member (node_membership n) remote \<or> remote \<noteq> rep_leader_id q \<or> rep_term q < current_term n")
  case True
  then show ?thesis
    by (auto simp: receive_session_replication_def receive_heartbeat_def session_response_of_def Let_def)
next
  case False
  then show ?thesis
    by (simp add: receive_session_replication_def receive_heartbeat_def session_response_of_def Let_def
        apply_committed_cases push_entry_def not_less)
qed

lemmas election_eval = sample_node_def with_control_plane_def node_new_def sample_membership_def
  owner_member_new_def cp_new_def Let_def request_of_def heartbeat_of_def is_member_def
  DEFAULT_HEARTBEAT_TIMEOUT_def

lemma sample_vote_granted:
  "receive_vote_request (P2pId [1]) (request_of 1 1) 5 (sample_node 2) =
   ((sample_node 2)\<lparr>current_term := 1, voted_for := Some (P2pId [1]), last_heartbeat_at := 5\<rparr>,
    \<lparr>vresp_term = 1, vote_granted = True, vresp_leader_id = None\<rparr>)"
  by (simp add: receive_vote_request_def election_eval)

lemma sample_heartbeat:
  "\<exists>c. fst (receive_heartbeat (P2pId [1]) (heartbeat_of 1 1) 6
       (fst (receive_vote_request (P2pId [1]) (request_of 1 1) 5 (sample_node 2)))) =
     (sample_node 2)\<lparr>current_term := 1, voted_for := None, leader_id := Some (P2pId [1]),
        last_heartbeat_at := 6, control_plane := c\<rparr>"
  unfolding sample_vote_granted by (auto simp: receive_heartbeat_def election_eval)

lemma sample_second_vote:
  "vote_granted (snd (receive_vote_request (P2pId [3]) (request_of 3 1) 7
     ((sample_node 2)\<lparr>current_term := 1, voted_for := None, leader_id := Some (P2pId [1]),
        last_heartbeat_at := 6, control_plane := c\<rparr>))) \<and>
   vresp_term (snd (receive_vote_request (P2pId [3]) (request_of 3 1) 7
     ((sample_node 2)\<lparr>current_term := 1, voted_for := None, leader_id := Some (P2pId [1]),
        last_heartbeat_at := 6, control_plane := c\<rparr>))) = 1"
  by (simp add: receive_vote_request_def election_eval)

lemma sample_election:
  assumes "i = 1 \<or> i = 3" and "vote_granted r" and "vresp_term r = 1"
  shows "role (fst (start_election (Some (quiet_client (answers_from r))) now (sample_node i))) = Leader \<and>
         current_term (fst (start_election (Some (quiet_client (answers_from r))) now (sample_node i))) = 1"
  using assms
  by (auto simp: start_election_def begin_election_def finish_election_def become_leader_def
      set_known_leader_def send_heartbeat_def require_leader_def remote_members_def quorum_size_def
      answers_from_def election_eval sat_add_def)

text \<open>C5: a heartbeat makes an owner forget its vote, and two owners can lead the same term.
  Owner 2 grants owner 1 its vote for term 1; owner 1 is elected and sends its heartbeat; owner 2
  then grants owner 3 its vote for the same term, and owner 3 is elected too.\<close>

theorem two_leaders_in_one_term:
  "let (b1, r1) = receive_vote_request (P2pId [1]) (request_of 1 1) 5 (sample_node 2);
       (leader1, _) = start_election (Some (quiet_client (answers_from r1))) 5 (sample_node 1);
       (b2, _) = receive_heartbeat (P2pId [1]) (heartbeat_of 1 1) 6 b1;
       (b3, r3) = receive_vote_request (P2pId [3]) (request_of 3 1) 7 b2;
       (leader3, _) = start_election (Some (quiet_client (answers_from r3))) 7 (sample_node 3)
   in role leader1 = Leader \<and> current_term leader1 = 1 \<and> role leader3 = Leader \<and> current_term leader3 = 1"
proof -
  obtain c where b2: "fst (receive_heartbeat (P2pId [1]) (heartbeat_of 1 1) 6
       (fst (receive_vote_request (P2pId [1]) (request_of 1 1) 5 (sample_node 2)))) =
     (sample_node 2)\<lparr>current_term := 1, voted_for := None, leader_id := Some (P2pId [1]),
        last_heartbeat_at := 6, control_plane := c\<rparr>"
    using sample_heartbeat by blast
  show ?thesis
    unfolding Let_def case_prod_unfold b2
    using sample_vote_granted sample_second_vote [of c]
    by (intro conjI sample_election [THEN conjunct1] sample_election [THEN conjunct2]) simp_all
qed

text \<open>a candidate can lower its own term. While it awaits the votes for term 1, its handler
  accepts a vote request for term 9; the candidate still wins the old election and
  \<open>become_leader\<close> puts its term back to 1.\<close>

theorem elected_with_lower_term:
  "\<exists>cl. let q = \<lparr>vreq_term = 1, vreq_candidate_id = P2pId [1]\<rparr>;
            awaited = fst (cl_request_vote cl (P2pId [3]) q (begin_election 5 (sample_node 1)));
            elected = fst (start_election (Some cl) 5 (sample_node 1))
        in awaited = fst (receive_vote_request (P2pId [2]) (request_of 2 9) 6
                            (begin_election 5 (sample_node 1))) \<and>
           current_term awaited = 9 \<and> role elected = Leader \<and> current_term elected = 1"
proof -
  let ?yes = "\<lparr>vresp_term = 1, vote_granted = True, vresp_leader_id = None\<rparr>"
  let ?cl = "(quiet_client (answers_from ?yes))\<lparr>cl_request_vote := \<lambda>m q n.
      if m = P2pId [2] then (n, Inr ?yes)
      else (fst (receive_vote_request (P2pId [2]) (request_of 2 9) 6 n), Inl NetworkError)\<rparr>"
  show ?thesis
    by (rule exI [of _ ?cl])
      (simp add: start_election_def begin_election_def finish_election_def become_leader_def
        set_known_leader_def send_heartbeat_def require_leader_def remote_members_def quorum_size_def
        receive_vote_request_def answers_from_def quiet_client_def election_eval sat_add_def
        heartbeat_loop.simps)
qed

theorem one_vote_per_term_witness:
  "let evs = [(P2pId [1], request_of 1 1, 5), (P2pId [3], request_of 3 1, 6), (P2pId [1], request_of 1 1, 7)]
   in (P2pId [1], request_of 1 1, 5) \<in> set (grants vote_op evs (sample_node 2)) \<and>
      (P2pId [1], request_of 1 1, 7) \<in> set (grants vote_op evs (sample_node 2)) \<and>
      ev_candidate (P2pId [1], request_of 1 1, 5) = ev_candidate (P2pId [1], request_of 1 1, 7)"
proof -
  let ?evs = "[(P2pId [1], request_of 1 1, 5), (P2pId [3], request_of 3 1, 6), (P2pId [1], request_of 1 1, 7)]"
  have g: "(P2pId [1], request_of 1 1, 5) \<in> set (grants vote_op ?evs (sample_node 2))"
    "(P2pId [1], request_of 1 1, 7) \<in> set (grants vote_op ?evs (sample_node 2))"
    by (simp_all add: vote_op_def receive_vote_request_def election_eval)
  have "ev_term (P2pId [1], request_of 1 1, 5) = ev_term (P2pId [1], request_of 1 1, 7)"
    by (simp add: ev_term_def)
  from one_vote_per_term [OF g this] g show ?thesis by (simp only: Let_def simp_thms)
qed

lemma sample_elected:
  "start_election (Some (quiet_client (answers_from
     \<lparr>vresp_term = 1, vote_granted = True, vresp_leader_id = None\<rparr>))) 5 (sample_node 1) =
   (fst (start_election (Some (quiet_client (answers_from
     \<lparr>vresp_term = 1, vote_granted = True, vresp_leader_id = None\<rparr>))) 5 (sample_node 1)),
    Returned (Inr (P2pId [1])))"
  by (simp add: start_election_def begin_election_def finish_election_def become_leader_def
      set_known_leader_def send_heartbeat_def require_leader_def remote_members_def quorum_size_def
      answers_from_def election_eval sat_add_def)

theorem elections_share_supporter_witness:
  "let a = answers_from \<lparr>vresp_term = 1, vote_granted = True, vresp_leader_id = None\<rparr>
   in supporters a (sample_node 1) \<inter> supporters a (sample_node 1) \<noteq> {}"
  unfolding Let_def
  by (rule elections_share_supporter [OF _ _ _ _ sample_elected sample_elected])
    (simp_all add: election_eval membership_ok_def less_p2p_id_def)

end
