(* ===== verification/TunnelActivity.thy ===== *)
theory TunnelActivity
  imports P2pTypes
begin

text \<open>
  The parts of \<open>networks/tunnel.rs\<close> that every kind of tunnel shares: purposes, command
  results, the listener registry, and \<open>TunnelActivity\<close>, which decides when an idle tunnel may
  be retired. A \<open>TunnelActivity\<close> counts the open attempts under way
  (\<open>PendingTunnelActivity\<close>) and the channel halves in use (\<open>TunnelWorkActivity\<close>); both
  are guards that give their count back when they are dropped.

  The guards that are alive are the ghost state of \<open>activity_run\<close>. The counters agree with
  them in every run, so the tests \<open>if count > 0\<close> of the drop code never hide a lost count, and
  a tunnel is retired for idleness only when nobody holds a guard.
\<close>

section \<open>Definitions\<close>

datatype tunnel_purpose = TunnelPurpose (purpose_bytes: "u8 list")

datatype tunnel_command_result =
    ResSuccess | ResPortNotListen | ResListenerClosed | ResAcceptQueueFull | ResConflictLost
  | ResLeaseMismatch | ResRetired | ResProtocolError | ResTimeout | ResInterrupted
  | ResInvalidParam | ResInternalError

fun command_result_as_u8 :: "tunnel_command_result \<Rightarrow> u8" where
  "command_result_as_u8 ResSuccess = 0"
| "command_result_as_u8 ResPortNotListen = 1"
| "command_result_as_u8 ResListenerClosed = 2"
| "command_result_as_u8 ResAcceptQueueFull = 3"
| "command_result_as_u8 ResConflictLost = 4"
| "command_result_as_u8 ResLeaseMismatch = 5"
| "command_result_as_u8 ResRetired = 6"
| "command_result_as_u8 ResProtocolError = 7"
| "command_result_as_u8 ResTimeout = 8"
| "command_result_as_u8 ResInterrupted = 9"
| "command_result_as_u8 ResInvalidParam = 10"
| "command_result_as_u8 ResInternalError = 11"

definition command_result_from_u8 :: "u8 \<Rightarrow> tunnel_command_result option" where
  "command_result_from_u8 v =
     (if v = 0 then Some ResSuccess else if v = 1 then Some ResPortNotListen
      else if v = 2 then Some ResListenerClosed else if v = 3 then Some ResAcceptQueueFull
      else if v = 4 then Some ResConflictLost else if v = 5 then Some ResLeaseMismatch
      else if v = 6 then Some ResRetired else if v = 7 then Some ResProtocolError
      else if v = 8 then Some ResTimeout else if v = 9 then Some ResInterrupted
      else if v = 10 then Some ResInvalidParam else if v = 11 then Some ResInternalError
      else None)"

fun into_p2p_error :: "tunnel_command_result \<Rightarrow> p2p_error_code" where
  "into_p2p_error ResSuccess = Ok"
| "into_p2p_error ResPortNotListen = PortNotListen"
| "into_p2p_error ResListenerClosed = Interrupted"
| "into_p2p_error ResAcceptQueueFull = Reject"
| "into_p2p_error ResConflictLost = Conflict"
| "into_p2p_error ResLeaseMismatch = Reject"
| "into_p2p_error ResRetired = Interrupted"
| "into_p2p_error ResProtocolError = InvalidData"
| "into_p2p_error ResTimeout = Timeout"
| "into_p2p_error ResInterrupted = Interrupted"
| "into_p2p_error ResInvalidParam = InvalidParam"
| "into_p2p_error ResInternalError = Unknown"

text \<open>\<open>ListenVPorts::is_listen\<close> of a listener table, and \<open>ListenPurposeRegistry\<close>.\<close>

type_synonym listen_vports = "tunnel_purpose \<Rightarrow> bool"

definition allow_all_listen_vports :: listen_vports where
  "allow_all_listen_vports p = True"

type_synonym 'l purpose_registry = "(tunnel_purpose, 'l) hmap"

definition registry_contains :: "'l purpose_registry \<Rightarrow> tunnel_purpose \<Rightarrow> bool" where
  "registry_contains r p = (hm_get r p \<noteq> None)"

definition registry_insert ::
    "tunnel_purpose \<Rightarrow> 'l \<Rightarrow> 'l purpose_registry \<Rightarrow> 'l purpose_registry \<times> 'l option" where
  "registry_insert p l r = (hm_insert p l r, hm_get r p)"

definition registry_remove ::
    "tunnel_purpose \<Rightarrow> 'l purpose_registry \<Rightarrow> 'l purpose_registry \<times> 'l option" where
  "registry_remove p r = (hm_remove p r, hm_get r p)"

datatype tunnel_form = Active | Passive | Proxy
datatype tunnel_state = Connecting | Connected | Closed | Error

subsection \<open>Activity\<close>

text \<open>An \<open>Instant\<close> is a number of nanoseconds of a monotonic clock; the operations that call
  \<open>Instant::now()\<close> take its value. The two \<open>usize\<close> counters count guards held in memory
  and are natural numbers.\<close>

type_synonym instant = nat

definition checked_duration_since :: "instant \<Rightarrow> instant \<Rightarrow> duration option" where
  "checked_duration_since now earlier = (if earlier \<le> now then Some (now - earlier) else None)"

datatype activity_lifecycle = Live | Retired

record tunnel_activity =
  lifecycle :: activity_lifecycle
  pending_open_count :: nat
  work_instance_num :: nat
  latest_active_at :: instant
  latest_business_activity_at :: "instant option"

definition activity_new :: "instant \<Rightarrow> tunnel_activity" where
  "activity_new now =
     \<lparr>lifecycle = Live, pending_open_count = 0, work_instance_num = 0, latest_active_at = now,
      latest_business_activity_at = None\<rparr>"

definition ensure_live :: "tunnel_activity \<Rightarrow> unit p2p_result" where
  "ensure_live a = (if lifecycle a = Live then Inr () else Inl Interrupted)"

definition note_activity :: "instant \<Rightarrow> tunnel_activity \<Rightarrow> tunnel_activity" where
  "note_activity now a = (if lifecycle a = Live then a\<lparr>latest_active_at := now\<rparr> else a)"

text \<open>\<open>begin_pending\<close> returns a guard; here, that it succeeded.\<close>

definition begin_pending :: "instant \<Rightarrow> tunnel_activity \<Rightarrow> tunnel_activity \<times> unit p2p_result" where
  "begin_pending now a =
     (if lifecycle a = Retired then (a, Inl Interrupted)
      else (a\<lparr>pending_open_count := pending_open_count a + 1, latest_active_at := now\<rparr>, Inr ()))"

text \<open>\<open>acquire_work_instances\<close> returns that many guards, here their number.\<close>

definition acquire_work_instances ::
    "nat \<Rightarrow> instant \<Rightarrow> tunnel_activity \<Rightarrow> tunnel_activity \<times> nat p2p_result" where
  "acquire_work_instances n now a =
     (if lifecycle a = Retired then (a, Inl Interrupted)
      else (a\<lparr>work_instance_num := work_instance_num a + n, latest_active_at := now,
              latest_business_activity_at := Some now\<rparr>, Inr n))"

text \<open>\<open>track_stream_result\<close> and \<open>track_datagram_result\<close>: two halves for a stream, one for
  a datagram; an incoming error only counts as activity.\<close>

definition track_stream_result ::
    "'s p2p_result \<Rightarrow> instant \<Rightarrow> tunnel_activity \<Rightarrow> tunnel_activity \<times> nat p2p_result" where
  "track_stream_result r now a =
     (case r of Inr _ \<Rightarrow> acquire_work_instances 2 now a | Inl e \<Rightarrow> (note_activity now a, Inl e))"

definition track_datagram_result ::
    "'s p2p_result \<Rightarrow> instant \<Rightarrow> tunnel_activity \<Rightarrow> tunnel_activity \<times> nat p2p_result" where
  "track_datagram_result r now a =
     (case r of Inr _ \<Rightarrow> acquire_work_instances 1 now a | Inl e \<Rightarrow> (note_activity now a, Inl e))"

definition try_retire_idle :: "instant \<Rightarrow> duration \<Rightarrow> tunnel_activity \<Rightarrow> tunnel_activity \<times> bool" where
  "try_retire_idle now idle_timeout a =
     (if lifecycle a \<noteq> Live \<or> pending_open_count a \<noteq> 0 \<or> work_instance_num a \<noteq> 0 \<or>
         (case checked_duration_since now (latest_active_at a) of
            Some elapsed \<Rightarrow> elapsed \<le> idle_timeout | None \<Rightarrow> True)
      then (a, False) else (a\<lparr>lifecycle := Retired\<rparr>, True))"

definition activity_retire :: "tunnel_activity \<Rightarrow> tunnel_activity" where
  "activity_retire a = a\<lparr>lifecycle := Retired\<rparr>"

text \<open>\<open>PendingTunnelActivity::promote\<close> consumes the guard whatever it answers.\<close>

definition promote ::
    "nat \<Rightarrow> instant \<Rightarrow> tunnel_activity \<Rightarrow> tunnel_activity \<times> nat p2p_result" where
  "promote n now a =
     (let a1 = (if pending_open_count a > 0
                then a\<lparr>pending_open_count := pending_open_count a - 1\<rparr> else a)
      in if lifecycle a1 = Retired then (a1, Inl Interrupted)
         else (a1\<lparr>work_instance_num := work_instance_num a1 + n, latest_active_at := now,
                  latest_business_activity_at := Some now\<rparr>, Inr n))"

text \<open>Dropping a guard that is still \<open>active\<close>.\<close>

definition drop_pending :: "instant \<Rightarrow> tunnel_activity \<Rightarrow> tunnel_activity" where
  "drop_pending now a =
     (if pending_open_count a > 0 then a\<lparr>pending_open_count := pending_open_count a - 1\<rparr> else a)
       \<lparr>latest_active_at := now\<rparr>"

definition drop_work :: "instant \<Rightarrow> tunnel_activity \<Rightarrow> tunnel_activity" where
  "drop_work now a =
     (if work_instance_num a > 0 then a\<lparr>work_instance_num := work_instance_num a - 1\<rparr> else a)
       \<lparr>latest_active_at := now\<rparr>"

subsection \<open>Runs\<close>

text \<open>What the owners of a tunnel do with its activity. \<open>Promote\<close>, \<open>DropPending\<close> and
  \<open>DropWork\<close> need a guard to be alive: they are methods of one.\<close>

datatype activity_op =
    BeginPending | Promote nat | DropPending | TrackStream "unit p2p_result"
  | TrackDatagram "unit p2p_result" | DropWork | Note | TryRetireIdle duration | Retire

record activity_world =
  activity :: tunnel_activity
  pending_guards :: nat
  work_guards :: nat

definition granted :: "nat p2p_result \<Rightarrow> nat" where
  "granted r = (case r of Inr n \<Rightarrow> n | Inl _ \<Rightarrow> 0)"

fun op_enabled :: "activity_op \<Rightarrow> activity_world \<Rightarrow> bool" where
  "op_enabled (Promote n) w = (pending_guards w > 0)"
| "op_enabled DropPending w = (pending_guards w > 0)"
| "op_enabled DropWork w = (work_guards w > 0)"
| "op_enabled _ w = True"

fun activity_step :: "activity_op \<Rightarrow> instant \<Rightarrow> activity_world \<Rightarrow> activity_world" where
  "activity_step BeginPending now w =
     (let (a, r) = begin_pending now (activity w)
      in w\<lparr>activity := a, pending_guards := pending_guards w + (if is_ok r then 1 else 0)\<rparr>)"
| "activity_step (Promote n) now w =
     (let (a, r) = promote n now (activity w)
      in w\<lparr>activity := a, pending_guards := pending_guards w - 1,
           work_guards := work_guards w + granted r\<rparr>)"
| "activity_step DropPending now w =
     w\<lparr>activity := drop_pending now (activity w), pending_guards := pending_guards w - 1\<rparr>"
| "activity_step (TrackStream s) now w =
     (let (a, r) = track_stream_result s now (activity w)
      in w\<lparr>activity := a, work_guards := work_guards w + granted r\<rparr>)"
| "activity_step (TrackDatagram s) now w =
     (let (a, r) = track_datagram_result s now (activity w)
      in w\<lparr>activity := a, work_guards := work_guards w + granted r\<rparr>)"
| "activity_step DropWork now w =
     w\<lparr>activity := drop_work now (activity w), work_guards := work_guards w - 1\<rparr>"
| "activity_step Note now w = w\<lparr>activity := note_activity now (activity w)\<rparr>"
| "activity_step (TryRetireIdle d) now w = w\<lparr>activity := fst (try_retire_idle now d (activity w))\<rparr>"
| "activity_step Retire now w = w\<lparr>activity := activity_retire (activity w)\<rparr>"

text \<open>An operation that has no guard to act on does not happen.\<close>

fun activity_run :: "(activity_op \<times> instant) list \<Rightarrow> activity_world \<Rightarrow> activity_world" where
  "activity_run [] w = w"
| "activity_run ((op, now) # ops) w =
     activity_run ops (if op_enabled op w then activity_step op now w else w)"

definition activity_world_new :: "instant \<Rightarrow> activity_world" where
  "activity_world_new now = \<lparr>activity = activity_new now, pending_guards = 0, work_guards = 0\<rparr>"

section \<open>Command results\<close>

lemma command_result_codec: "command_result_from_u8 (command_result_as_u8 r) = Some r"
  by (cases r) (simp_all add: command_result_from_u8_def)

lemma command_result_from_u8_Some:
  "command_result_from_u8 v = Some r \<longleftrightarrow> v = command_result_as_u8 r"
  by (auto simp: command_result_codec) (auto simp: command_result_from_u8_def split: if_splits)

section \<open>The counters are the guards\<close>

definition guards_counted :: "activity_world \<Rightarrow> bool" where
  "guards_counted w \<longleftrightarrow>
     pending_open_count (activity w) = pending_guards w \<and>
     work_instance_num (activity w) = work_guards w"

lemmas activity_defs = begin_pending_def acquire_work_instances_def track_stream_result_def
  track_datagram_result_def note_activity_def try_retire_idle_def activity_retire_def promote_def
  drop_pending_def drop_work_def granted_def

lemma step_guards_counted:
  "guards_counted w \<Longrightarrow> op_enabled op w \<Longrightarrow> guards_counted (activity_step op now w)"
  by (cases op) (auto simp: guards_counted_def activity_defs Let_def split: sum.splits)

lemma run_guards_counted: "guards_counted w \<Longrightarrow> guards_counted (activity_run ops w)"
  by (induction ops w rule: activity_run.induct) (auto simp: step_guards_counted)

text \<open>in every run the activity counters are the number of guards that are
  alive, and a sweep that finds the tunnel idle and retires it does so only when no open attempt
  and no channel half is alive and the tunnel has been inactive for strictly longer than the
  timeout.\<close>

theorem idle_retire_only_unused:
  "let w = activity_run ops (activity_world_new t0)
   in pending_open_count (activity w) = pending_guards w \<and>
      work_instance_num (activity w) = work_guards w \<and>
      (snd (try_retire_idle now timeout (activity w)) \<longleftrightarrow>
         lifecycle (activity w) = Live \<and> pending_guards w = 0 \<and> work_guards w = 0 \<and>
         latest_active_at (activity w) + timeout < now)"
proof -
  have "guards_counted (activity_run ops (activity_world_new t0))"
    by (intro run_guards_counted) (simp add: guards_counted_def activity_world_new_def activity_new_def)
  then show ?thesis
    by (auto simp: Let_def guards_counted_def try_retire_idle_def checked_duration_since_def
        split: if_splits)
qed

section \<open>Retirement is final\<close>

lemma step_retired:
  assumes "lifecycle (activity w) = Retired"
  shows "lifecycle (activity (activity_step op now w)) = Retired"
    and "work_guards (activity_step op now w) \<le> work_guards w"
    and "pending_guards (activity_step op now w) \<le> pending_guards w"
  using assms by (cases op; auto simp: activity_defs Let_def split: sum.splits)+

lemma run_retired:
  "lifecycle (activity w) = Retired \<Longrightarrow>
   lifecycle (activity (activity_run ops w)) = Retired \<and>
   work_guards (activity_run ops w) \<le> work_guards w \<and>
   pending_guards (activity_run ops w) \<le> pending_guards w"
proof (induction ops w rule: activity_run.induct)
  case (2 op now ops w)
  then show ?case using step_retired [OF 2(2), of op now] by (auto intro: le_trans)
qed simp

text \<open>once a tunnel is retired, idle or closed, it stays retired and hands out
  no further guard: in whatever follows, every open attempt, every promotion of an attempt that was
  under way and every incoming channel is answered \<open>Interrupted\<close>, and the number of channel
  halves in use never grows.\<close>

theorem retired_tunnel_refuses_work:
  assumes "lifecycle (activity w) = Retired"
  shows "let w' = activity_run ops w
         in lifecycle (activity w') = Retired \<and> work_guards w' \<le> work_guards w \<and>
            snd (begin_pending now (activity w')) = Inl Interrupted \<and>
            snd (promote n now (activity w')) = Inl Interrupted \<and>
            snd (track_stream_result (Inr s) now (activity w')) = Inl Interrupted \<and>
            snd (track_datagram_result (Inr s) now (activity w')) = Inl Interrupted"
  using run_retired [OF assms, of ops] by (auto simp: Let_def activity_defs)

theorem retired_tunnel_refuses_work_witness:
  "let w = activity_run [(BeginPending, 1), (BeginPending, 2), (Promote 2, 3), (Retire, 4)]
             (activity_world_new 0);
       w' = activity_run [(BeginPending, 5), (Promote 2, 6), (DropWork, 7)] w
   in work_guards w = 2 \<and> pending_guards w = 1 \<and> lifecycle (activity w') = Retired \<and>
      work_guards w' = 1 \<and> pending_guards w' = 0 \<and>
      snd (begin_pending 8 (activity w')) = Inl Interrupted"
proof -
  let ?w = "activity_run [(BeginPending, 1), (BeginPending, 2), (Promote 2, 3), (Retire, 4)]
             (activity_world_new 0)"
  have r: "lifecycle (activity ?w) = Retired"
    by (simp add: activity_world_new_def activity_new_def activity_defs)
  from retired_tunnel_refuses_work [OF r, of "[(BeginPending, 5), (Promote 2, 6), (DropWork, 7)]" 8]
  show ?thesis
    by (simp add: activity_world_new_def activity_new_def activity_defs)
qed

text \<open>\<open>latest_business_activity_at\<close> moves only when a channel is established: opening
  attempts, their failures, listener registration and the release of channels leave it alone.\<close>

lemma business_activity_only_established:
  "latest_business_activity_at (activity (activity_step op now w)) =
     latest_business_activity_at (activity w) \<or>
   lifecycle (activity w) = Live \<and>
     latest_business_activity_at (activity (activity_step op now w)) = Some now \<and>
     (case op of Promote _ \<Rightarrow> True | TrackStream s \<Rightarrow> is_ok s | TrackDatagram s \<Rightarrow> is_ok s | _ \<Rightarrow> False)"
  by (cases op; cases "lifecycle (activity w)")
    (auto simp: activity_defs Let_def split: sum.splits)

end
