(* ===== verification/ControlStream.thy ===== *)
theory ControlStream
  imports TunnelActivity
begin

text \<open>
  \<open>networks/control_stream.rs\<close>: byte streams multiplexed over a tunnel's control connection.
  \<open>ControlStreamRuntime\<close> keeps the streams that are open, the opens that wait for the peer's
  answer and the listener; \<open>ControlStreamRead\<close> drains the bounded inbound queue of a stream and
  \<open>ControlStreamWrite\<close> cuts what is written into frames.

  The raw codec (\<open>bucky_raw_codec\<close>) is the parameter \<open>enc\<close>/\<open>dec\<close>; the
  \<open>ControlDataSender\<close> of the tunnel is the parameter \<open>send\<close>, which answers for every
  payload whether the control connection took it. A \<open>tokio\<close> \<open>mpsc\<close> channel is its queue and
  whether its receiver is alive; the runtime reaches it by an address, as the \<open>Sender\<close> in the
  table and the \<open>Receiver\<close> of the reader share it.
\<close>

section \<open>Definitions\<close>

definition MAX_CONTROL_DATA_FRAME_SIZE :: nat where
  "MAX_CONTROL_DATA_FRAME_SIZE = 64 * 1024"

definition CONTROL_STREAM_WRITE_CHUNK :: nat where
  "CONTROL_STREAM_WRITE_CHUNK = 60 * 1024"

definition CONTROL_STREAM_QUEUE_CAPACITY :: nat where
  "CONTROL_STREAM_QUEUE_CAPACITY = 1024"

definition CONTROL_STREAM_QUEUE_TERMINAL_RESERVE :: nat where
  "CONTROL_STREAM_QUEUE_TERMINAL_RESERVE = 1"

datatype control_stream_frame =
    FOpen u32 tunnel_purpose | FOpenResp u32 tunnel_command_result | FData u32 "u8 list" | FFin u32
  | FReset u32 tunnel_command_result | FWindow u32 u32

datatype inbound_item = IData "u8 list" | IFin | IReset p2p_error_code

subsection \<open>The inbound queue\<close>

record inbound_channel =
  items :: "inbound_item list"
  receiver_alive :: bool

datatype try_send_error = Full | ChannelClosed

definition inbound_channel_new :: inbound_channel where
  "inbound_channel_new = \<lparr>items = [], receiver_alive = True\<rparr>"

definition channel_size :: nat where
  "channel_size = CONTROL_STREAM_QUEUE_CAPACITY + CONTROL_STREAM_QUEUE_TERMINAL_RESERVE"

definition capacity :: "inbound_channel \<Rightarrow> nat" where
  "capacity ch = channel_size - length (items ch)"

definition try_send :: "inbound_item \<Rightarrow> inbound_channel \<Rightarrow> inbound_channel \<times> (try_send_error + unit)" where
  "try_send it ch =
     (if \<not> receiver_alive ch then (ch, Inl ChannelClosed)
      else if length (items ch) \<ge> channel_size then (ch, Inl Full)
      else (ch\<lparr>items := items ch @ [it]\<rparr>, Inr ()))"

text \<open>Dropping the receiver closes the channel and drops what is queued.\<close>

definition drop_receiver :: "inbound_channel \<Rightarrow> inbound_channel" where
  "drop_receiver ch = ch\<lparr>items := [], receiver_alive := False\<rparr>"

subsection \<open>The runtime\<close>

record pending_open =
  po_purpose :: tunnel_purpose
  po_inbound_tx :: nat
  po_waiter :: nat

text \<open>\<open>po_waiter\<close> names the \<open>oneshot\<close> channel of an \<open>open\<close> call; \<open>answers\<close> holds
  what was sent to each of them, \<open>sent\<close> the frames the control connection took. The listener is
  its set of purposes and whether it has a \<open>prepare\<close> step.\<close>

record control_runtime =
  streams :: "(u32, nat) hmap"
  pending_opens :: "(u32, pending_open) hmap"
  listener :: "(listen_vports \<times> bool) option"
  next_stream_id :: u32
  local_stream_id_parity :: u32
  rt_closed :: bool
  close_reason :: "p2p_error_code option"
  channels :: "(nat, inbound_channel) hmap"
  next_addr :: nat
  answers :: "(nat \<times> unit p2p_result) list"
  sent :: "control_stream_frame list"

definition runtime_new :: "bool \<Rightarrow> control_runtime" where
  "runtime_new is_initiator =
     (let first = (if is_initiator then 1 else 2)
      in \<lparr>streams = [], pending_opens = [], listener = None, next_stream_id = first,
          local_stream_id_parity = and first 1, rt_closed = False, close_reason = None,
          channels = [], next_addr = 0, answers = [], sent = []\<rparr>)"

definition check_open :: "control_runtime \<Rightarrow> unit p2p_result" where
  "check_open s =
     (if rt_closed s then Inl (case close_reason s of Some c \<Rightarrow> c | None \<Rightarrow> Interrupted) else Inr ())"

definition listen_with_prepare ::
    "listen_vports \<Rightarrow> bool \<Rightarrow> control_runtime \<Rightarrow> control_runtime \<times> unit p2p_result" where
  "listen_with_prepare purposes prepare s =
     (case check_open s of Inl e \<Rightarrow> (s, Inl e)
      | Inr _ \<Rightarrow> (s\<lparr>listener := Some (purposes, prepare)\<rparr>, Inr ()))"

definition is_peer_stream_id :: "control_runtime \<Rightarrow> u32 \<Rightarrow> bool" where
  "is_peer_stream_id s i = (i \<noteq> 0 \<and> and i 1 \<noteq> local_stream_id_parity s)"

text \<open>The loop of \<open>alloc_stream_id\<close>; it has no bound in the code, so it takes fuel here.\<close>

definition id_in_use :: "control_runtime \<Rightarrow> u32 \<Rightarrow> bool" where
  "id_in_use s i = (hm_get (pending_opens s) i \<noteq> None \<or> hm_get (streams s) i \<noteq> None)"

fun alloc_stream_id :: "nat \<Rightarrow> control_runtime \<Rightarrow> (control_runtime \<times> u32) option" where
  "alloc_stream_id 0 s = None"
| "alloc_stream_id (Suc fuel) s =
     (let i = next_stream_id s; s' = s\<lparr>next_stream_id := next_stream_id s + 2\<rparr>
      in if i = 0 then alloc_stream_id fuel s'
         else if \<not> id_in_use s' i then Some (s', i)
         else alloc_stream_id fuel s')"

definition new_channel :: "control_runtime \<Rightarrow> control_runtime \<times> nat" where
  "new_channel s =
     (s\<lparr>channels := hm_insert (next_addr s) inbound_channel_new (channels s),
        next_addr := next_addr s + 1\<rparr>, next_addr s)"

definition channel_send :: "nat \<Rightarrow> inbound_item \<Rightarrow> control_runtime \<Rightarrow> control_runtime" where
  "channel_send a it s =
     (case hm_get (channels s) a of None \<Rightarrow> s
      | Some ch \<Rightarrow> s\<lparr>channels := hm_insert a (fst (try_send it ch)) (channels s)\<rparr>)"

definition answer_waiter :: "nat \<Rightarrow> unit p2p_result \<Rightarrow> control_runtime \<Rightarrow> control_runtime" where
  "answer_waiter w r s = s\<lparr>answers := answers s @ [(w, r)]\<rparr>"

definition close_pending :: "p2p_error_code \<Rightarrow> pending_open \<Rightarrow> control_runtime \<Rightarrow> control_runtime" where
  "close_pending c p s = channel_send (po_inbound_tx p) (IReset c) (answer_waiter (po_waiter p) (Inl c) s)"

definition close_all :: "p2p_error_code \<Rightarrow> control_runtime \<Rightarrow> control_runtime" where
  "close_all c s =
     (if rt_closed s then s
      else
        let s1 = s\<lparr>rt_closed := True, close_reason := Some c\<rparr>;
            s2 = fold (\<lambda>(_, a). channel_send a (IReset c)) (streams s1) s1\<lparr>streams := []\<rparr>;
            s3 = fold (\<lambda>(_, p). close_pending c p) (pending_opens s2) s2\<lparr>pending_opens := []\<rparr>
        in s3\<lparr>listener := None\<rparr>)"

type_synonym frame_enc = "control_stream_frame \<Rightarrow> u8 list option"
type_synonym frame_dec = "u8 list \<Rightarrow> control_stream_frame option"
type_synonym data_sender = "u8 list \<Rightarrow> unit p2p_result"

definition send_frame ::
    "frame_enc \<Rightarrow> data_sender \<Rightarrow> control_stream_frame \<Rightarrow> control_runtime \<Rightarrow>
     control_runtime \<times> unit p2p_result" where
  "send_frame enc send f s =
     (case enc f of
        None \<Rightarrow> (s, Inl RawCodecError)
      | Some payload \<Rightarrow>
          if length payload > MAX_CONTROL_DATA_FRAME_SIZE then (s, Inl OutOfLimit)
          else (case send payload of
              Inl e \<Rightarrow> (close_all e s, Inl e)
            | Inr _ \<Rightarrow> (s\<lparr>sent := sent s @ [f]\<rparr>, Inr ())))"

text \<open>\<open>open\<close>, up to the point where it waits: the result is the stream id, the waiter and the
  channel of the reader. A frame that cannot be sent drops the \<open>PendingOpenCleanup\<close>.\<close>

definition remove_pending_open :: "u32 \<Rightarrow> control_runtime \<Rightarrow> control_runtime" where
  "remove_pending_open i s = s\<lparr>pending_opens := hm_remove i (pending_opens s)\<rparr>"

definition open_start ::
    "nat \<Rightarrow> frame_enc \<Rightarrow> data_sender \<Rightarrow> tunnel_purpose \<Rightarrow> control_runtime \<Rightarrow>
     (control_runtime \<times> (u32 \<times> nat \<times> nat) p2p_result) option" where
  "open_start fuel enc send purpose s =
     (case check_open s of
        Inl e \<Rightarrow> Some (s, Inl e)
      | Inr _ \<Rightarrow>
          map_option (\<lambda>(s1, i).
             let (s2, a) = new_channel s1;
                 w = next_addr s2;
                 s3 = s2\<lparr>next_addr := w + 1,
                         pending_opens := hm_insert i \<lparr>po_purpose = purpose, po_inbound_tx = a,
                                                      po_waiter = w\<rparr> (pending_opens s2)\<rparr>
             in case send_frame enc send (FOpen i purpose) s3 of
                  (s4, Inl e) \<Rightarrow> (remove_pending_open i s4, Inl e)
                | (s4, Inr _) \<Rightarrow> (s4, Inr (i, w, a)))
            (alloc_stream_id fuel s))"

text \<open>The end of \<open>open\<close>: what the waiter received, that its sender was dropped, or the timeout.
  The cleanup guard removes the pending entry in every case.\<close>

datatype waiter_outcome = WaiterGot "unit p2p_result" | WaiterDropped | WaiterTimeout

definition open_finish ::
    "u32 \<Rightarrow> nat \<Rightarrow> waiter_outcome \<Rightarrow> control_runtime \<Rightarrow> control_runtime \<times> nat p2p_result" where
  "open_finish i a out s =
     (remove_pending_open i s,
      case out of WaiterGot (Inr _) \<Rightarrow> Inr a | WaiterGot (Inl e) \<Rightarrow> Inl e
      | WaiterDropped \<Rightarrow> Inl Interrupted | WaiterTimeout \<Rightarrow> Inl Timeout)"

text \<open>\<open>handle_open\<close>; \<open>prep\<close> is what the listener's \<open>prepare\<close> step answers. The result is
  what was passed to the listener's callback, if anything: the channel of the new stream.\<close>

definition handle_open ::
    "frame_enc \<Rightarrow> data_sender \<Rightarrow> unit p2p_result \<Rightarrow> u32 \<Rightarrow> tunnel_purpose \<Rightarrow> control_runtime \<Rightarrow>
     control_runtime \<times> unit p2p_result \<times> nat p2p_result option" where
  "handle_open enc send prep i purpose s =
     (let reply = (\<lambda>res s. let (s', r) = send_frame enc send (FOpenResp i res) s in (s', r, None))
      in if \<not> is_peer_stream_id s i then reply ResInvalidParam s
         else if id_in_use s i then reply ResConflictLost s
         else case listener s of
             None \<Rightarrow> reply ResListenerClosed s
           | Some (purposes, has_prepare) \<Rightarrow>
               if \<not> purposes purpose then reply ResPortNotListen s
               else
                 let (s1, a) = new_channel s;
                     s2 = s1\<lparr>streams := hm_insert i a (streams s1)\<rparr>;
                     prepared = (if has_prepare then prep else Inr ());
                     (s3, res, cb) = (case prepared of
                         Inr _ \<Rightarrow> (s2, ResSuccess, Inr a)
                       | Inl e \<Rightarrow> (s2\<lparr>streams := hm_remove i (streams s2)\<rparr>, ResRetired, Inl e));
                     (s4, r) = send_frame enc send (FOpenResp i res) s3
                 in (s4, r, Some cb))"

text \<open>\<open>handle_open_resp\<close>; \<open>alive\<close> says that the waiter's receiver was not dropped.\<close>

definition handle_open_resp ::
    "(nat \<Rightarrow> bool) \<Rightarrow> u32 \<Rightarrow> tunnel_command_result \<Rightarrow> control_runtime \<Rightarrow> control_runtime" where
  "handle_open_resp alive i res s =
     (case hm_get (pending_opens s) i of
        None \<Rightarrow> s
      | Some p \<Rightarrow>
          let s1 = remove_pending_open i s
          in if res = ResSuccess
             then if alive (po_waiter p)
                  then (answer_waiter (po_waiter p) (Inr ()) s1)
                         \<lparr>streams := hm_insert i (po_inbound_tx p) (streams s1)\<rparr>
                  else s1
             else answer_waiter (po_waiter p) (Inl (into_p2p_error res)) s1)"

datatype delivery_failure = Overflow | ReaderClosed

text \<open>The critical section of \<open>deliver\<close> on the channel of the stream, then \<open>deliver\<close>.\<close>

definition deliver_channel ::
    "u8 list \<Rightarrow> inbound_channel \<Rightarrow> inbound_channel \<times> delivery_failure option" where
  "deliver_channel bytes ch =
     (if capacity ch \<le> CONTROL_STREAM_QUEUE_TERMINAL_RESERVE
      then (fst (try_send (IReset OutOfLimit) ch), Some Overflow)
      else (case try_send (IData bytes) ch of
          (ch', Inr _) \<Rightarrow> (ch', None)
        | (ch', Inl Full) \<Rightarrow> (fst (try_send (IReset OutOfLimit) ch'), Some Overflow)
        | (ch', Inl ChannelClosed) \<Rightarrow> (ch', Some ReaderClosed)))"

definition deliver ::
    "frame_enc \<Rightarrow> data_sender \<Rightarrow> u32 \<Rightarrow> u8 list \<Rightarrow> control_runtime \<Rightarrow>
     control_runtime \<times> unit p2p_result" where
  "deliver enc send i bytes s =
     (case hm_get (streams s) i of
        None \<Rightarrow> (s, Inr ())
      | Some a \<Rightarrow>
          (case hm_get (channels s) a of
             None \<Rightarrow> (s, Inr ())
           | Some ch \<Rightarrow>
               (case deliver_channel bytes ch of
                  (ch', None) \<Rightarrow> (s\<lparr>channels := hm_insert a ch' (channels s)\<rparr>, Inr ())
                | (ch', Some failure) \<Rightarrow>
                    send_frame enc send
                      (FReset i (case failure of Overflow \<Rightarrow> ResAcceptQueueFull
                                  | ReaderClosed \<Rightarrow> ResInterrupted))
                      (s\<lparr>channels := hm_insert a ch' (channels s), streams := hm_remove i (streams s)\<rparr>))))"

definition end_stream :: "inbound_item \<Rightarrow> u32 \<Rightarrow> control_runtime \<Rightarrow> control_runtime" where
  "end_stream it i s =
     (case hm_get (streams s) i of
        None \<Rightarrow> s
      | Some a \<Rightarrow> channel_send a it (s\<lparr>streams := hm_remove i (streams s)\<rparr>))"

definition finish_stream :: "u32 \<Rightarrow> control_runtime \<Rightarrow> control_runtime" where
  "finish_stream i s = end_stream IFin i s"

definition reset_stream :: "u32 \<Rightarrow> p2p_error_code \<Rightarrow> control_runtime \<Rightarrow> control_runtime" where
  "reset_stream i reason s = end_stream (IReset reason) i s"

definition handle_frame ::
    "frame_enc \<Rightarrow> data_sender \<Rightarrow> unit p2p_result \<Rightarrow> (nat \<Rightarrow> bool) \<Rightarrow> control_stream_frame \<Rightarrow>
     control_runtime \<Rightarrow> control_runtime \<times> unit p2p_result \<times> nat p2p_result option" where
  "handle_frame enc send prep alive f s =
     (case f of
        FOpen i purpose \<Rightarrow> handle_open enc send prep i purpose s
      | FOpenResp i res \<Rightarrow> (handle_open_resp alive i res s, Inr (), None)
      | FData i bytes \<Rightarrow> (let (s', r) = deliver enc send i bytes s in (s', r, None))
      | FFin i \<Rightarrow> (finish_stream i s, Inr (), None)
      | FReset i reason \<Rightarrow> (reset_stream i (into_p2p_error reason) s, Inr (), None)
      | FWindow _ _ \<Rightarrow> (s, Inr (), None))"

definition on_data ::
    "frame_enc \<Rightarrow> frame_dec \<Rightarrow> data_sender \<Rightarrow> unit p2p_result \<Rightarrow> (nat \<Rightarrow> bool) \<Rightarrow> u8 list \<Rightarrow>
     control_runtime \<Rightarrow> control_runtime \<times> unit p2p_result \<times> nat p2p_result option" where
  "on_data enc dec send prep alive payload s =
     (if length payload > MAX_CONTROL_DATA_FRAME_SIZE then (close_all InvalidData s, Inl InvalidData, None)
      else (case check_open s of
          Inl e \<Rightarrow> (s, Inl e, None)
        | Inr _ \<Rightarrow> (case dec payload of
              None \<Rightarrow> (s, Inl RawCodecError, None)
            | Some f \<Rightarrow> handle_frame enc send prep alive f s)))"

subsection \<open>Reading and writing\<close>

record stream_reader =
  rd_pending :: "u8 list"
  rd_offset :: nat

definition reader_new :: stream_reader where
  "reader_new = \<lparr>rd_pending = [], rd_offset = 0\<rparr>"

text \<open>\<open>poll_read\<close> into a buffer with \<open>room\<close> bytes left. \<open>tx_alive\<close> says that some
  \<open>Sender\<close> of the channel is alive, so that an empty queue means waiting.\<close>

datatype io_error_kind = KindInterrupted | KindBrokenPipe | KindInvalidData | KindInvalidInput

datatype read_outcome = ReadBytes "u8 list" | ReadEof | ReadError io_error_kind | ReadPending

definition poll_read ::
    "bool \<Rightarrow> nat \<Rightarrow> stream_reader \<Rightarrow> inbound_channel \<Rightarrow> stream_reader \<times> inbound_channel \<times> read_outcome" where
  "poll_read tx_alive room r ch =
     (if rd_offset r < length (rd_pending r)
      then
        let start = rd_offset r;
            len = min (length (rd_pending r) - start) room;
            r' = (if start + len = length (rd_pending r) then reader_new
                  else r\<lparr>rd_offset := start + len\<rparr>)
        in (r', ch, ReadBytes (take len (drop start (rd_pending r))))
      else
        (case items ch of
           IData bytes # rest \<Rightarrow>
             let len = min (length bytes) room;
                 r' = (if len < length bytes then r\<lparr>rd_pending := bytes, rd_offset := len\<rparr> else r)
             in (r', ch\<lparr>items := rest\<rparr>, ReadBytes (take len bytes))
         | IFin # rest \<Rightarrow> (r, ch\<lparr>items := rest\<rparr>, ReadEof)
         | IReset c # rest \<Rightarrow> (r, ch\<lparr>items := rest\<rparr>, ReadError KindInterrupted)
         | [] \<Rightarrow> (r, ch, if tx_alive then ReadPending else ReadEof)))"

text \<open>One frame of \<open>poll_write\<close>: at most \<open>CONTROL_STREAM_WRITE_CHUNK\<close> bytes of the source.
  \<open>write_frames\<close> is what a caller that writes everything (\<open>write_all\<close>) sends.\<close>

definition write_chunk :: "u8 list \<Rightarrow> u8 list" where
  "write_chunk src = take (min (length src) CONTROL_STREAM_WRITE_CHUNK) src"

function write_frames :: "u32 \<Rightarrow> u8 list \<Rightarrow> control_stream_frame list" where
  "write_frames i src =
     (if src = [] then [] else FData i (write_chunk src) # write_frames i (drop (length (write_chunk src)) src))"
  by pat_completeness auto
termination
  by (relation "measure (\<lambda>(i, src). length src)")
    (auto simp: write_chunk_def CONTROL_STREAM_WRITE_CHUNK_def min_def)

record stream_writer =
  wr_stream_id :: u32
  wr_closed :: bool

text \<open>The two writing polls, each carried through to the end of the send it starts.\<close>

definition poll_write ::
    "frame_enc \<Rightarrow> data_sender \<Rightarrow> u8 list \<Rightarrow> stream_writer \<Rightarrow> control_runtime \<Rightarrow>
     stream_writer \<times> control_runtime \<times> (io_error_kind + nat)" where
  "poll_write enc send src wr s =
     (if wr_closed wr \<or> rt_closed s then (wr\<lparr>wr_closed := True\<rparr>, s, Inl KindBrokenPipe)
      else if src = [] then (wr, s, Inr 0)
      else
        let chunk = write_chunk src
        in case enc (FData (wr_stream_id wr) chunk) of
             None \<Rightarrow> (wr, s, Inl KindInvalidData)
           | Some payload \<Rightarrow>
               if length payload > MAX_CONTROL_DATA_FRAME_SIZE then (wr, s, Inl KindInvalidInput)
               else (case send payload of
                   Inl _ \<Rightarrow> (wr\<lparr>wr_closed := True\<rparr>, s, Inl KindBrokenPipe)
                 | Inr _ \<Rightarrow> (wr, s\<lparr>sent := sent s @ [FData (wr_stream_id wr) chunk]\<rparr>, Inr (length chunk))))"

definition poll_shutdown ::
    "frame_enc \<Rightarrow> data_sender \<Rightarrow> stream_writer \<Rightarrow> control_runtime \<Rightarrow>
     stream_writer \<times> control_runtime \<times> (io_error_kind + unit)" where
  "poll_shutdown enc send wr s =
     (if rt_closed s then (wr\<lparr>wr_closed := True\<rparr>, s, Inl KindBrokenPipe)
      else if wr_closed wr then (wr, s, Inr ())
      else (case enc (FFin (wr_stream_id wr)) of
          None \<Rightarrow> (wr, s, Inl KindInvalidData)
        | Some payload \<Rightarrow>
            if length payload > MAX_CONTROL_DATA_FRAME_SIZE then (wr, s, Inl KindInvalidInput)
            else (case send payload of
                Inl _ \<Rightarrow> (wr\<lparr>wr_closed := True\<rparr>, s, Inl KindBrokenPipe)
              | Inr _ \<Rightarrow> (wr\<lparr>wr_closed := True\<rparr>, s\<lparr>sent := sent s @ [FFin (wr_stream_id wr)]\<rparr>, Inr ()))))"

subsection \<open>The life of one stream\<close>

text \<open>What happens to one inbound stream from the moment it is in the table: the peer's frames
  through the critical sections of \<open>deliver\<close>, \<open>finish_stream\<close> and \<open>reset_stream\<close> (which take
  the sender out of the table), and the reader's polls. \<open>accepted\<close> and \<open>got\<close> record the
  bytes queued and the bytes read, \<open>last_read\<close> the answer to the last poll.\<close>

datatype stream_op = Deliver "u8 list" | Finish | ResetBy p2p_error_code | Read nat

record stream_world =
  chan :: inbound_channel
  rdr :: stream_reader
  registered :: bool
  accepted :: "u8 list"
  got :: "u8 list"
  last_read :: read_outcome

definition read_bytes :: "read_outcome \<Rightarrow> u8 list" where
  "read_bytes out = (case out of ReadBytes bs \<Rightarrow> bs | _ \<Rightarrow> [])"

fun stream_step :: "stream_op \<Rightarrow> stream_world \<Rightarrow> stream_world" where
  "stream_step (Deliver bs) w =
     (if registered w
      then case deliver_channel bs (chan w) of
             (ch', None) \<Rightarrow> w\<lparr>chan := ch', accepted := accepted w @ bs\<rparr>
           | (ch', Some _) \<Rightarrow> w\<lparr>chan := ch', registered := False\<rparr>
      else w)"
| "stream_step Finish w =
     (if registered w then w\<lparr>chan := fst (try_send IFin (chan w)), registered := False\<rparr> else w)"
| "stream_step (ResetBy c) w =
     (if registered w then w\<lparr>chan := fst (try_send (IReset c) (chan w)), registered := False\<rparr> else w)"
| "stream_step (Read room) w =
     (let (r, ch, out) = poll_read (registered w) room (rdr w) (chan w)
      in w\<lparr>rdr := r, chan := ch, got := got w @ read_bytes out, last_read := out\<rparr>)"

definition stream_world_new :: stream_world where
  "stream_world_new = \<lparr>chan = inbound_channel_new, rdr = reader_new, registered = True,
     accepted = [], got = [], last_read = ReadPending\<rparr>"

abbreviation stream_run :: "stream_op list \<Rightarrow> stream_world \<Rightarrow> stream_world" where
  "stream_run ops w \<equiv> fold stream_step ops w"

section \<open>Nothing queued is lost or reordered\<close>

lemmas queue_sizes = channel_size_def CONTROL_STREAM_QUEUE_CAPACITY_def
  CONTROL_STREAM_QUEUE_TERMINAL_RESERVE_def

definition unread :: "stream_reader \<Rightarrow> u8 list" where
  "unread r = drop (rd_offset r) (rd_pending r)"

fun item_bytes :: "inbound_item \<Rightarrow> u8 list" where
  "item_bytes (IData bs) = bs"
| "item_bytes IFin = []"
| "item_bytes (IReset c) = []"

fun is_data :: "inbound_item \<Rightarrow> bool" where
  "is_data (IData bs) = True"
| "is_data IFin = False"
| "is_data (IReset c) = False"

text \<open>A stream in the table has only data queued and room for the item that ends it; the ending is
  the last item of its queue.\<close>

definition stream_inv :: "stream_world \<Rightarrow> bool" where
  "stream_inv w \<longleftrightarrow>
     receiver_alive (chan w) \<and>
     got w @ unread (rdr w) @ concat (map item_bytes (items (chan w))) = accepted w \<and>
     list_all is_data (butlast (items (chan w))) \<and>
     length (items (chan w)) \<le> channel_size \<and>
     (registered w \<longrightarrow> list_all is_data (items (chan w)) \<and>
        length (items (chan w)) \<le> CONTROL_STREAM_QUEUE_CAPACITY)"

lemma stream_inv_new: "stream_inv stream_world_new"
  by (simp add: stream_inv_def stream_world_new_def inbound_channel_new_def unread_def reader_new_def)

lemma list_all_butlast: "list_all P xs \<Longrightarrow> list_all P (butlast xs)"
  by (auto simp: list_all_iff dest: in_set_butlastD)

lemma deliver_channel_registered:
  assumes "receiver_alive ch" and "length (items ch) \<le> CONTROL_STREAM_QUEUE_CAPACITY"
  shows "deliver_channel bs ch =
    (if length (items ch) = CONTROL_STREAM_QUEUE_CAPACITY
     then (ch\<lparr>items := items ch @ [IReset OutOfLimit]\<rparr>, Some Overflow)
     else (ch\<lparr>items := items ch @ [IData bs]\<rparr>, None))"
  using assms by (auto simp: deliver_channel_def capacity_def try_send_def queue_sizes)

lemma stream_inv_Deliver: "stream_inv w \<Longrightarrow> stream_inv (stream_step (Deliver bs) w)"
  by (auto simp: stream_inv_def deliver_channel_registered queue_sizes)

lemma stream_inv_end:
  "stream_inv w \<Longrightarrow> item_bytes it = [] \<Longrightarrow>
   stream_inv (if registered w then w\<lparr>chan := fst (try_send it (chan w)), registered := False\<rparr> else w)"
  by (auto simp: stream_inv_def try_send_def queue_sizes)

lemma poll_read_bytes:
  assumes "poll_read tx room r ch = (r', ch', out)"
  shows "read_bytes out @ unread r' @ concat (map item_bytes (items ch')) =
           unread r @ concat (map item_bytes (items ch))"
    and "\<exists>k \<le> 1. items ch' = drop k (items ch)" and "receiver_alive ch' = receiver_alive ch"
proof -
  show "\<exists>k \<le> 1. items ch' = drop k (items ch)"
    using assms by (auto simp: poll_read_def Let_def split: if_splits list.splits inbound_item.splits
        intro: exI [of _ 0] exI [of _ 1])
  show "receiver_alive ch' = receiver_alive ch"
    using assms by (auto simp: poll_read_def Let_def split: if_splits list.splits inbound_item.splits)
  show "read_bytes out @ unread r' @ concat (map item_bytes (items ch')) =
           unread r @ concat (map item_bytes (items ch))"
  proof (cases "rd_offset r < length (rd_pending r)")
    case True
    define len where "len = min (length (rd_pending r) - rd_offset r) room"
    have "take len (unread r) @ drop len (unread r) = unread r" by simp
    moreover have "unread r' = drop len (unread r)"
      using assms True by (auto simp: poll_read_def unread_def len_def [symmetric] Let_def reader_new_def
          add.commute split: if_splits)
    ultimately show ?thesis
      using assms True by (auto simp: poll_read_def read_bytes_def unread_def len_def Let_def)
  next
    case False
    then show ?thesis
      using assms by (auto simp: poll_read_def read_bytes_def unread_def Let_def
          split: list.splits inbound_item.splits if_splits)
  qed
qed

lemma stream_inv_Read: "stream_inv w \<Longrightarrow> stream_inv (stream_step (Read room) w)"
proof -
  assume inv: "stream_inv w"
  obtain r' ch' out where p: "poll_read (registered w) room (rdr w) (chan w) = (r', ch', out)"
    by (cases "poll_read (registered w) room (rdr w) (chan w)") auto
  note rd = poll_read_bytes [OF p]
  from rd(2) obtain k where k: "items ch' = drop k (items (chan w))" by auto
  have "list_all P (butlast (drop k xs))" if "list_all P (butlast xs)" for P :: "inbound_item \<Rightarrow> bool" and xs
    using that by (auto simp: list_all_iff butlast_drop dest: in_set_dropD)
  with inv k rd(1,3) p show ?thesis
    by (auto simp: stream_inv_def list_all_iff dest: in_set_dropD)
qed

lemma stream_inv_step: "stream_inv w \<Longrightarrow> stream_inv (stream_step op w)"
  using stream_inv_Deliver stream_inv_Read stream_inv_end [where it = IFin]
    stream_inv_end [where it = "IReset c" for c]
  by (cases op) (simp_all del: stream_step.simps(1,4))

lemma stream_inv_run: "stream_inv w \<Longrightarrow> stream_inv (stream_run ops w)"
  by (induction ops arbitrary: w) (auto simp: stream_inv_step)

lemma poll_read_eof:
  assumes "poll_read tx room r ch = (r', ch', ReadEof)" and "list_all is_data (butlast (items ch))"
  shows "unread r = [] \<and> concat (map item_bytes (items ch)) = [] \<and> items ch' = []"
  using assms
  by (auto simp: poll_read_def Let_def unread_def split: if_splits list.splits inbound_item.splits)

lemma stream_inv_eof:
  assumes "stream_inv w" and "last_read (stream_step (Read room) w) = ReadEof"
  shows "got (stream_step (Read room) w) = accepted (stream_step (Read room) w)"
proof -
  obtain r' ch' out where p: "poll_read (registered w) room (rdr w) (chan w) = (r', ch', out)"
    by (cases "poll_read (registered w) room (rdr w) (chan w)") auto
  with assms(2) have "out = ReadEof" by simp
  with p assms(1) poll_read_eof [of "registered w" room "rdr w" "chan w" r' ch'] show ?thesis
    by (auto simp: stream_inv_def read_bytes_def simp del: concat_eq_Nil_conv)
qed



section \<open>Writing in chunks\<close>

declare write_frames.simps [simp del]

fun frame_data :: "control_stream_frame \<Rightarrow> u8 list" where
  "frame_data (FData i bs) = bs"
| "frame_data _ = []"

lemma length_write_chunk:
  "length (write_chunk src) = min (length src) CONTROL_STREAM_WRITE_CHUNK"
  by (simp add: write_chunk_def)

lemma concat_write_frames: "concat (map frame_data (write_frames i src)) = src"
proof (induction i src rule: write_frames.induct)
  case (1 i src)
  have "write_chunk src @ drop (length (write_chunk src)) src = src"
    by (simp add: write_chunk_def)
  with 1 show ?case by (subst write_frames.simps) auto
qed

lemma write_frames_chunks:
  "f \<in> set (write_frames i src) \<Longrightarrow>
   \<exists>bs. f = FData i bs \<and> bs \<noteq> [] \<and> length bs \<le> CONTROL_STREAM_WRITE_CHUNK"
proof (induction i src rule: write_frames.induct)
  case (1 i src)
  then show ?case
    by (subst (asm) (2) write_frames.simps)
      (auto split: if_splits simp: length_write_chunk CONTROL_STREAM_WRITE_CHUNK_def write_chunk_def)
qed

lemma accepted_registered_run:
  assumes "registered (stream_run ops w)" and "stream_inv w"
  shows "accepted (stream_run ops w) = accepted w @ concat [bs. Deliver bs \<leftarrow> ops] \<and> registered w"
  using assms
proof (induction ops arbitrary: w)
  case (Cons op ops)
  from Cons.prems have IH: "accepted (stream_run ops (stream_step op w)) =
      accepted (stream_step op w) @ concat [bs. Deliver bs \<leftarrow> ops]" "registered (stream_step op w)"
    using Cons.IH [of "stream_step op w"] stream_inv_step by auto
  from IH(2) Cons.prems(2) have "accepted (stream_step op w) = accepted w @ concat [bs. Deliver bs \<leftarrow> [op]] \<and>
      registered w"
    by (cases op) (auto simp: stream_inv_def deliver_channel_registered split: if_splits prod.splits)
  with IH show ?case by simp
qed simp

lemma got_reads_only: "accepted (stream_run (map Read rooms) w) = accepted w"
  by (induction rooms arbitrary: w) (auto split: prod.splits)

text \<open>what one side writes to a control stream is what the other side reads.
  The writer cuts the source into frames of at most 60 KiB; if the frames arrive in order, mixed
  with the reader's polls in any way, the stream was still in the table when the peer's \<open>Fin\<close>
  arrived, and a later poll reports end of file, then the reader has read exactly the source.\<close>

theorem control_stream_roundtrip:
  assumes "[bs. Deliver bs \<leftarrow> ops] = map frame_data (write_frames i src)"
    and "registered (stream_run ops stream_world_new)"
    and "w = stream_run (ops @ Finish # map Read rooms) stream_world_new"
    and "last_read (stream_step (Read room) w) = ReadEof"
  shows "got (stream_step (Read room) w) = src"
proof -
  have "accepted (stream_run ops stream_world_new) = src"
    using accepted_registered_run [OF assms(2) stream_inv_new] assms(1) concat_write_frames [of i src]
    by (simp add: stream_world_new_def)
  then have "accepted w = src"
    using assms(2,3) got_reads_only by (simp del: stream_step.simps(1,4))
  then have "accepted (stream_step (Read room) w) = src" by (simp split: prod.splits)
  moreover have "stream_inv w" using assms(3) stream_inv_run [OF stream_inv_new] by blast
  ultimately show ?thesis using stream_inv_eof assms(4) by metis
qed

theorem control_stream_roundtrip_witness:
  "let src = [7, 8, 9];
       w = stream_run ([Deliver src, Read 2] @ Finish # map Read [5]) stream_world_new
   in [bs. Deliver bs \<leftarrow> [Deliver src, Read 2]] = map frame_data (write_frames 3 src) \<and>
      last_read (stream_step (Read 4) w) = ReadEof \<and> got (stream_step (Read 4) w) = src"
proof -
  let ?ops = "[Deliver [7, 8, 9], Read 2]"
  let ?w = "stream_run (?ops @ Finish # map Read [5]) stream_world_new"
  have 1: "[bs. Deliver bs \<leftarrow> ?ops] = map frame_data (write_frames 3 [7, 8, 9])"
    by (simp add: write_frames.simps write_chunk_def CONTROL_STREAM_WRITE_CHUNK_def)
  have 2: "registered (stream_run ?ops stream_world_new)"
    and 3: "last_read (stream_step (Read 4) ?w) = ReadEof"
    by (simp_all add: stream_world_new_def inbound_channel_new_def reader_new_def poll_read_def
        deliver_channel_def capacity_def try_send_def queue_sizes read_bytes_def)
  from control_stream_roundtrip [OF 1 2 refl 3] 1 3 show ?thesis
    by (simp only: Let_def)
qed

section \<open>Stream ids\<close>

text \<open>The ids the loop tries, from the counter on, are all different for \<open>2 ^ 31\<close> rounds.\<close>

lemma double_step_inj:
  fixes n :: u32
  assumes "n + 2 * of_nat j = n + 2 * of_nat k" and "j < 2 ^ 31" and "k < 2 ^ 31"
  shows "j = k"
proof -
  have "(of_nat (2 * j) :: u32) = of_nat (2 * k)" using assms(1) by simp
  then have "unat (of_nat (2 * j) :: u32) = unat (of_nat (2 * k) :: u32)" by simp
  then have "(2 * j) mod 2 ^ 32 = (2 * k) mod 2 ^ 32"
    by (simp only: unat_of_nat) (simp add: take_bit_nat_def)
  then show ?thesis using assms(2,3) by simp
qed

lemma alloc_None_bad:
  assumes "alloc_stream_id fuel s = None" and "k < fuel"
  shows "next_stream_id s + 2 * of_nat k = 0 \<or> id_in_use s (next_stream_id s + 2 * of_nat k)"
  using assms
proof (induction fuel arbitrary: s k)
  case (Suc fuel)
  let ?s' = "s\<lparr>next_stream_id := next_stream_id s + 2\<rparr>"
  have use: "id_in_use ?s' i = id_in_use s i" for i by (simp add: id_in_use_def)
  from Suc.prems(1) have bad: "next_stream_id s = 0 \<or> id_in_use s (next_stream_id s)"
    and None: "alloc_stream_id fuel ?s' = None"
    by (auto simp: Let_def use split: if_splits)
  show ?case
  proof (cases k)
    case 0
    with bad show ?thesis by simp
  next
    case (Suc k')
    with Suc.prems have "k' < fuel" by simp
    from Suc.IH [OF None this] Suc show ?thesis by (simp add: use algebra_simps)
  qed
qed simp

lemma alloc_Some:
  assumes "alloc_stream_id fuel s = Some (s', i)"
  shows "i \<noteq> 0 \<and> \<not> id_in_use s i \<and> and i 1 = and (next_stream_id s) 1 \<and>
         (\<exists>n. s' = s\<lparr>next_stream_id := n\<rparr> \<and> and n 1 = and (next_stream_id s) 1)"
  using assms
proof (induction fuel arbitrary: s)
  case (Suc fuel)
  let ?s' = "s\<lparr>next_stream_id := next_stream_id s + 2\<rparr>"
  have use: "id_in_use ?s' j = id_in_use s j" for j by (simp add: id_in_use_def)
  have par: "and (next_stream_id s + 2) 1 = and (next_stream_id s) (1 :: u32)"
    by (simp add: and_one_eq mod_2_eq_odd)
  show ?case
  proof (cases "next_stream_id s \<noteq> 0 \<and> \<not> id_in_use s (next_stream_id s)")
    case True
    with Suc.prems par show ?thesis by (auto simp: Let_def use)
  next
    case False
    with Suc.prems have "alloc_stream_id fuel ?s' = Some (s', i)"
      by (auto simp: Let_def use split: if_splits)
    from Suc.IH [OF this] par show ?thesis by (auto simp: use)
  qed
qed simp

lemma card_ids_in_use:
  "finite {i. id_in_use s i} \<and> card {i. id_in_use s i} \<le> length (pending_opens s) + length (streams s)"
proof -
  have eq: "{i. id_in_use s i} = set (map fst (pending_opens s) @ map fst (streams s))"
    by (auto simp: id_in_use_def hm_get_def map_of_eq_None_iff)
  have "card (set (map fst (pending_opens s) @ map fst (streams s))) \<le>
          length (map fst (pending_opens s) @ map fst (streams s))"
    by (rule card_length)
  then show ?thesis unfolding eq by simp
qed

lemma alloc_enough_fuel:
  assumes "fuel \<le> 2 ^ 31" and "length (pending_opens s) + length (streams s) + 1 < fuel"
  shows "alloc_stream_id fuel s \<noteq> None"
proof
  assume None: "alloc_stream_id fuel s = None"
  let ?f = "\<lambda>k. next_stream_id s + 2 * of_nat k"
  have "?f ` {..<fuel} \<subseteq> insert 0 {i. id_in_use s i}"
    using alloc_None_bad [OF None] by auto
  moreover have "inj_on ?f {..<fuel}"
    using double_step_inj [of "next_stream_id s"] assms(1) by (auto intro!: inj_onI)
  ultimately have "fuel \<le> card (insert 0 {i. id_in_use s i})"
    using card_ids_in_use [of s] by (metis card_image card_lessThan card_mono finite_insert)
  also have "\<dots> \<le> length (pending_opens s) + length (streams s) + 1"
    using card_ids_in_use [of s] by (simp add: card_insert_if)
  finally show False using assms(2) by simp
qed

text \<open>C36: the search for a free stream id ends: with fewer than \<open>2 ^ 31 - 2\<close> ids
  in use it needs at most two rounds more than there are ids in use, whatever the position of the
  32-bit counter, and it returns an id that is not zero, not in use and of the side's own parity.
  So the two ends of a tunnel, which start with different parities, never choose the same id.\<close>

theorem alloc_stream_id_terminates:
  assumes "length (pending_opens s) + length (streams s) + 2 \<le> 2 ^ 31"
    and "and (next_stream_id s) 1 = local_stream_id_parity s"
  shows "\<exists>s' i. alloc_stream_id (length (pending_opens s) + length (streams s) + 2) s = Some (s', i) \<and>
           i \<noteq> 0 \<and> \<not> id_in_use s i \<and> and i 1 = local_stream_id_parity s \<and>
           and (next_stream_id s') 1 = local_stream_id_parity s' \<and> \<not> is_peer_stream_id s i"
proof -
  obtain s' i where a: "alloc_stream_id (length (pending_opens s) + length (streams s) + 2) s = Some (s', i)"
    using alloc_enough_fuel [OF assms(1)] by fastforce
  with alloc_Some [OF a] assms(2) show ?thesis by (auto simp: is_peer_stream_id_def)
qed

theorem alloc_stream_id_terminates_witness:
  "let s = (runtime_new True)\<lparr>next_stream_id := - 1, streams := [(- 1, 0)]\<rparr>
   in \<exists>s' i. alloc_stream_id 3 s = Some (s', i) \<and> i \<noteq> 0 \<and> \<not> id_in_use s i \<and> and i 1 = 1"
proof -
  let ?s = "(runtime_new True)\<lparr>next_stream_id := - 1, streams := [(- 1, 0)]\<rparr>"
  have len: "length (pending_opens ?s) + length (streams ?s) + 2 = 3"
    and par: "and (next_stream_id ?s) 1 = local_stream_id_parity ?s" "local_stream_id_parity ?s = 1"
    by (simp_all add: runtime_new_def)
  have "(3 :: nat) \<le> 2 ^ 31" by simp
  then show ?thesis
    using alloc_stream_id_terminates [of ?s, unfolded len] par by (auto simp: Let_def)
qed

section \<open>The runtime invariant\<close>

text \<open>Every stream and every pending open owns a channel of its own; the channel of a stream that
  can still be delivered to holds data only and has room for the item that ends it.\<close>

definition addrs :: "control_runtime \<Rightarrow> nat list" where
  "addrs s = map snd (streams s) @ map (po_inbound_tx \<circ> snd) (pending_opens s)"

definition queue_open :: "inbound_channel \<Rightarrow> bool" where
  "queue_open ch \<longleftrightarrow> list_all is_data (items ch) \<and> length (items ch) \<le> CONTROL_STREAM_QUEUE_CAPACITY"

definition owned_open :: "nat list \<Rightarrow> (nat, inbound_channel) hmap \<Rightarrow> bool" where
  "owned_open as chs \<longleftrightarrow> (\<forall>a \<in> set as. \<exists>ch. hm_get chs a = Some ch \<and> queue_open ch)"

definition rt_wf :: "control_runtime \<Rightarrow> bool" where
  "rt_wf s \<longleftrightarrow>
     hm_wf (streams s) \<and> hm_wf (pending_opens s) \<and> hm_wf (channels s) \<and> distinct (addrs s) \<and>
     (\<forall>i. hm_get (streams s) i = None \<or> hm_get (pending_opens s) i = None) \<and>
     owned_open (addrs s) (channels s) \<and>
     (\<forall>a. hm_get (channels s) a \<noteq> None \<longrightarrow> a < next_addr s) \<and>
     and (next_stream_id s) 1 = local_stream_id_parity s"

lemma map_hm_insert_fresh: "hm_get m k = None \<Longrightarrow> map f (hm_insert k v m) = map f m @ [f (k, v)]"
  unfolding hm_insert_def hm_get_def by (induction m) auto

lemma distinct_map_hm_remove: "distinct (map f m) \<Longrightarrow> distinct (map f (hm_remove k m))"
  by (simp add: hm_remove_def AList.delete_eq distinct_map_filter)

lemma set_map_hm_remove: "set (map f (hm_remove k m)) \<subseteq> set (map f m)"
  using set_hm_remove [of k m] by auto

lemma distinct_append_subset:
  "distinct (xs @ ys) \<Longrightarrow> distinct xs' \<Longrightarrow> distinct ys' \<Longrightarrow> set xs' \<subseteq> set xs \<Longrightarrow> set ys' \<subseteq> set ys \<Longrightarrow>
   distinct (xs' @ ys')"
  by auto

lemma rt_wf_new: "rt_wf (runtime_new b)"
  by (auto simp: rt_wf_def runtime_new_def addrs_def owned_open_def hm_wf_def hm_get_def)

lemma owned_open_subset: "set bs \<subseteq> set as \<Longrightarrow> owned_open as chs \<Longrightarrow> owned_open bs chs"
  by (auto simp: owned_open_def)

text \<open>Taking entries out of the tables.\<close>

lemma rt_wf_shrink:
  assumes "rt_wf s" and "hm_wf str" and "hm_wf pend"
    and "set (map snd str) \<subseteq> set (map snd (streams s))" and "distinct (map snd str)"
    and "set (map (po_inbound_tx \<circ> snd) pend) \<subseteq> set (map (po_inbound_tx \<circ> snd) (pending_opens s))"
    and "distinct (map (po_inbound_tx \<circ> snd) pend)"
    and "\<And>i. hm_get str i = None \<or> hm_get pend i = None"
  shows "rt_wf (s\<lparr>streams := str, pending_opens := pend\<rparr>)"
proof -
  have old: "distinct (map snd (streams s) @ map (po_inbound_tx \<circ> snd) (pending_opens s))"
    "owned_open (addrs s) (channels s)"
    using assms(1) unfolding rt_wf_def addrs_def by blast+
  have "distinct (map snd str @ map (po_inbound_tx \<circ> snd) pend)"
    by (rule distinct_append_subset [OF old(1) assms(5,7,4,6)])
  moreover have "owned_open (map snd str @ map (po_inbound_tx \<circ> snd) pend) (channels s)"
    using assms(4,6) by (intro owned_open_subset [OF _ old(2)]) (auto simp only: addrs_def set_append)
  ultimately show ?thesis using assms(1-3,8) by (simp add: rt_wf_def addrs_def)
qed

lemma rt_wf_tables:
  assumes "rt_wf s"
  shows "hm_wf (streams s)" "hm_wf (pending_opens s)" "distinct (map snd (streams s))"
    "distinct (map (po_inbound_tx \<circ> snd) (pending_opens s))"
    "hm_get (streams s) i = None \<or> hm_get (pending_opens s) i = None"
  using assms by (auto simp: rt_wf_def addrs_def)

lemma rt_wf_remove_stream:
  assumes "rt_wf s"
  shows "rt_wf (s\<lparr>streams := hm_remove i (streams s)\<rparr>)"
proof -
  note t = rt_wf_tables [OF assms]
  have "rt_wf (s\<lparr>streams := hm_remove i (streams s), pending_opens := pending_opens s\<rparr>)"
    by (rule rt_wf_shrink [OF assms hm.wf_remove [OF t(1)] t(2) set_map_hm_remove
          distinct_map_hm_remove [OF t(3)] subset_refl t(4)])
      (use t(1,5) in \<open>auto simp: hm.get_remove\<close>)
  then show ?thesis by simp
qed

lemma rt_wf_remove_pending:
  assumes "rt_wf s"
  shows "rt_wf (remove_pending_open i s)"
proof -
  note t = rt_wf_tables [OF assms]
  have "rt_wf (s\<lparr>streams := streams s, pending_opens := hm_remove i (pending_opens s)\<rparr>)"
    by (rule rt_wf_shrink [OF assms t(1) hm.wf_remove [OF t(2)] subset_refl t(3) set_map_hm_remove
          distinct_map_hm_remove [OF t(4)]])
      (use t(2,5) in \<open>auto simp: hm.get_remove\<close>)
  then show ?thesis by (simp add: remove_pending_open_def)
qed

lemma rt_wf_update_channel:
  assumes "rt_wf s" and "hm_get (channels s) a \<noteq> None" and "a \<in> set (addrs s) \<Longrightarrow> queue_open ch"
  shows "rt_wf (s\<lparr>channels := hm_insert a ch (channels s)\<rparr>)"
  using assms unfolding rt_wf_def addrs_def
  by (auto simp: hm.wf_insert hm.get_insert owned_open_def)

lemma addr_fresh: "rt_wf s \<Longrightarrow> next_addr s \<notin> set (addrs s) \<and> hm_get (channels s) (next_addr s) = None"
  by (fastforce simp: rt_wf_def owned_open_def)

lemma queue_open_new: "queue_open inbound_channel_new"
  by (simp add: queue_open_def inbound_channel_new_def)

lemma image_hm_insert_fresh:
  "hm_get m k = None \<Longrightarrow> f ` set (hm_insert k v m) = insert (f (k, v)) (f ` set m)"
  using map_hm_insert_fresh [of m k f v] by (metis Un_insert_right list.simps(15) list.set_map
      set_append sup_bot.right_neutral empty_set)

lemmas insert_fresh = hm.wf_insert hm.get_insert map_hm_insert_fresh image_hm_insert_fresh

lemma rt_wf_add_stream:
  assumes "rt_wf s" and "\<not> id_in_use s i"
  shows "rt_wf (s\<lparr>channels := hm_insert (next_addr s) inbound_channel_new (channels s),
                next_addr := next_addr s + 1, streams := hm_insert i (next_addr s) (streams s)\<rparr>)"
  using assms addr_fresh [OF assms(1)] queue_open_new unfolding rt_wf_def addrs_def id_in_use_def
  by (auto simp: insert_fresh owned_open_def less_Suc_eq)

lemma rt_wf_add_pending:
  assumes "rt_wf s" and "\<not> id_in_use s i" and "and n 1 = and (next_stream_id s) 1"
  shows "rt_wf (s\<lparr>next_stream_id := n,
                channels := hm_insert (next_addr s) inbound_channel_new (channels s),
                next_addr := Suc (Suc (next_addr s)),
                pending_opens := hm_insert i \<lparr>po_purpose = p, po_inbound_tx = next_addr s, po_waiter = w\<rparr>
                                   (pending_opens s)\<rparr>)"
  using assms addr_fresh [OF assms(1)] queue_open_new unfolding rt_wf_def addrs_def id_in_use_def
  by (auto simp: insert_fresh owned_open_def less_SucI)

lemma rt_wf_move:
  assumes "rt_wf s" and "hm_get (pending_opens s) i = Some p"
  shows "rt_wf (s\<lparr>pending_opens := hm_remove i (pending_opens s),
                streams := hm_insert i (po_inbound_tx p) (streams s)\<rparr>)"
proof -
  let ?f = "po_inbound_tx \<circ> snd"
  let ?pend = "hm_remove i (pending_opens s)"
  note t = rt_wf_tables [OF assms(1)]
  have i: "hm_get (streams s) i = None" using t(5) [of i] assms(2) by auto
  have p: "(i, p) \<in> set (pending_opens s)" using assms(2) by (rule hm_get_SomeD)
  have p1: "?f (i, p) \<in> ?f ` set (pending_opens s)" using p by (rule imageI)
  have gone: "?f (i, p) \<notin> ?f ` set ?pend"
  proof
    assume "?f (i, p) \<in> ?f ` set ?pend"
    then obtain x where x: "x \<in> set ?pend" "?f x = ?f (i, p)" by (rule imageE) simp
    from x(1) have "x \<in> set (pending_opens s)" using set_hm_remove by fast
    with x(2) p t(4) have "x = (i, p)" by (meson distinct_map inj_onD)
    with x(1) show False by (simp add: hm_remove_def AList.delete_eq)
  qed
  have wf': "rt_wf (s\<lparr>pending_opens := ?pend\<rparr>)"
    using rt_wf_remove_pending [OF assms(1)] by (simp add: remove_pending_open_def)
  have "?f (i, p) \<notin> snd ` set (streams s)"
    using assms(1) p1 by (auto simp: rt_wf_def addrs_def)
  moreover have "\<exists>ch. hm_get (channels s) (po_inbound_tx p) = Some ch \<and> queue_open ch"
    using assms(1) p1 by (auto simp: rt_wf_def addrs_def owned_open_def)
  ultimately show ?thesis
    using wf' gone i t(2) by (auto simp: rt_wf_def addrs_def insert_fresh hm.get_remove owned_open_def)
qed

section \<open>Every operation keeps the invariant\<close>

lemma channel_send_fields [simp]:
  "streams (channel_send a it s) = streams s" "pending_opens (channel_send a it s) = pending_opens s"
  "next_addr (channel_send a it s) = next_addr s" "rt_closed (channel_send a it s) = rt_closed s"
  "next_stream_id (channel_send a it s) = next_stream_id s"
  "local_stream_id_parity (channel_send a it s) = local_stream_id_parity s"
  "listener (channel_send a it s) = listener s" "answers (channel_send a it s) = answers s"
  "close_reason (channel_send a it s) = close_reason s"
  by (auto simp: channel_send_def split: option.splits)

lemma channel_send_get:
  "hm_get (channels (channel_send a it s)) b =
     (if b = a then map_option (\<lambda>ch. fst (try_send it ch)) (hm_get (channels s) b) else hm_get (channels s) b)"
  by (auto simp: channel_send_def hm.get_insert split: option.splits)

lemma channel_send_wf: "hm_wf (channels s) \<Longrightarrow> hm_wf (channels (channel_send a it s))"
  by (auto simp: channel_send_def hm.wf_insert split: option.splits)

lemma rt_wf_channel_send: "rt_wf s \<Longrightarrow> a \<notin> set (addrs s) \<Longrightarrow> rt_wf (channel_send a it s)"
  by (auto simp: channel_send_def split: option.splits intro!: rt_wf_update_channel)

text \<open>What closing does to the channels, one by one.\<close>

lemma channels_self: "\<exists>chs. s = s\<lparr>channels := chs\<rparr> \<and> (hm_wf (channels s) \<longrightarrow> hm_wf chs)"
  for s :: control_runtime
  by (rule exI [of _ "channels s"]) simp

lemma fold_send:
  assumes "distinct (map snd xs)"
  shows "hm_get (channels (fold (\<lambda>(_, a). channel_send a it) xs s)) b =
           (if b \<in> snd ` set xs then map_option (\<lambda>ch. fst (try_send it ch)) (hm_get (channels s) b)
            else hm_get (channels s) b)"
    and "\<exists>chs. fold (\<lambda>(_, a). channel_send a it) xs s = s\<lparr>channels := chs\<rparr> \<and>
           (hm_wf (channels s) \<longrightarrow> hm_wf chs)"
  using assms
proof (induction xs arbitrary: s)
  case (Cons x xs)
  obtain k a where x: "x = (k, a)" by (cases x)
  {
    case 1
    with Cons.IH(1) [of "channel_send a it s"] x show ?case by (auto simp: channel_send_get)
  next
    case 2
    then obtain chs where "fold (\<lambda>(_, a). channel_send a it) xs (channel_send a it s) =
        (channel_send a it s)\<lparr>channels := chs\<rparr>" "hm_wf (channels s) \<longrightarrow> hm_wf chs"
      using Cons.IH(2) [of "channel_send a it s"] channel_send_wf by auto
    moreover have "\<exists>chs. channel_send a it s = s\<lparr>channels := chs\<rparr>"
      by (auto simp: channel_send_def split: option.splits intro: exI [of _ "channels s"])
    ultimately show ?case using x by auto
  }
qed (auto simp: channels_self)

lemma close_pending_eq:
  "\<exists>chs. close_pending c p s = s\<lparr>channels := chs, answers := answers s @ [(po_waiter p, Inl c)]\<rparr> \<and>
     (hm_wf (channels s) \<longrightarrow> hm_wf chs)"
proof (cases "hm_get (channels s) (po_inbound_tx p)")
  case None
  then show ?thesis
    by (intro exI [of _ "channels s"]) (simp add: close_pending_def channel_send_def answer_waiter_def)
next
  case (Some ch)
  then show ?thesis
    by (intro exI [of _ "hm_insert (po_inbound_tx p) (fst (try_send (IReset c) ch)) (channels s)"])
      (simp add: close_pending_def channel_send_def answer_waiter_def hm.wf_insert)
qed

lemma fold_close:
  assumes "distinct (map (po_inbound_tx \<circ> snd) xs)"
  shows "hm_get (channels (fold (\<lambda>(_, p). close_pending c p) xs s)) b =
           (if b \<in> (po_inbound_tx \<circ> snd) ` set xs
            then map_option (\<lambda>ch. fst (try_send (IReset c) ch)) (hm_get (channels s) b)
            else hm_get (channels s) b)"
    and "\<exists>chs. fold (\<lambda>(_, p). close_pending c p) xs s =
           s\<lparr>channels := chs, answers := answers s @ map (\<lambda>(_, p). (po_waiter p, Inl c)) xs\<rparr> \<and>
           (hm_wf (channels s) \<longrightarrow> hm_wf chs)"
  using assms
proof (induction xs arbitrary: s)
  case (Cons x xs)
  obtain k p where x: "x = (k, p)" by (cases x)
  {
    case 1
    with Cons.IH(1) [of "close_pending c p s"] x show ?case
      by (auto simp: channel_send_get close_pending_def answer_waiter_def)
  next
    case 2
    obtain chs0 where 0: "close_pending c p s =
        s\<lparr>channels := chs0, answers := answers s @ [(po_waiter p, Inl c)]\<rparr>"
      "hm_wf (channels s) \<longrightarrow> hm_wf chs0"
      using close_pending_eq by blast
    from 2 x obtain chs where "fold (\<lambda>(_, p). close_pending c p) xs (close_pending c p s) =
        (close_pending c p s)\<lparr>channels := chs, answers := answers (close_pending c p s) @
           map (\<lambda>(_, p). (po_waiter p, Inl c)) xs\<rparr>"
      "hm_wf (channels (close_pending c p s)) \<longrightarrow> hm_wf chs"
      using Cons.IH(2) [of "close_pending c p s"] by auto
    with 0 x show ?case by auto
  }
qed (auto simp: channels_self)

text \<open>Closing the runtime of a tunnel.\<close>

lemma close_all_open:
  assumes "rt_wf s" and "\<not> rt_closed s"
  shows "\<exists>chs. close_all c s =
           s\<lparr>streams := [], pending_opens := [], listener := None, rt_closed := True,
             close_reason := Some c, channels := chs,
             answers := answers s @ map (\<lambda>(_, p). (po_waiter p, Inl c)) (pending_opens s)\<rparr> \<and>
           hm_wf chs \<and>
           (\<forall>a. hm_get chs a = (if a \<in> set (addrs s)
              then map_option (\<lambda>ch. fst (try_send (IReset c) ch)) (hm_get (channels s) a)
              else hm_get (channels s) a))"
proof -
  note t = rt_wf_tables [OF assms(1)]
  have wf: "hm_wf (channels s)" using assms(1) by (simp add: rt_wf_def)
  define s1 where "s1 = s\<lparr>rt_closed := True, close_reason := Some c\<rparr>"
  obtain ch1 where ch1: "fold (\<lambda>(_, a). channel_send a (IReset c)) (streams s) s1 = s1\<lparr>channels := ch1\<rparr>"
    "hm_wf ch1"
    using fold_send(2) [OF t(3), of "IReset c" s1] wf by (auto simp: s1_def)
  have g1: "hm_get ch1 b = (if b \<in> snd ` set (streams s)
      then map_option (\<lambda>ch. fst (try_send (IReset c) ch)) (hm_get (channels s) b) else hm_get (channels s) b)" for b
    using fold_send(1) [OF t(3), of "IReset c" s1 b] unfolding ch1(1) by (simp add: s1_def)
  define s2 where "s2 = s1\<lparr>channels := ch1, streams := []\<rparr>"
  obtain ch2 where ch2: "fold (\<lambda>(_, p). close_pending c p) (pending_opens s) s2 =
      s2\<lparr>channels := ch2, answers := answers s @ map (\<lambda>(_, p). (po_waiter p, Inl c)) (pending_opens s)\<rparr>"
    "hm_wf ch2"
    using fold_close(2) [OF t(4), of c s2] ch1(2) by (auto simp: s2_def s1_def)
  have g2: "hm_get ch2 b = (if b \<in> (po_inbound_tx \<circ> snd) ` set (pending_opens s)
      then map_option (\<lambda>ch. fst (try_send (IReset c) ch)) (hm_get ch1 b) else hm_get ch1 b)" for b
    using fold_close(1) [OF t(4), of c s2 b] unfolding ch2(1) by (simp add: s2_def)
  have disj: "a \<notin> (po_inbound_tx \<circ> snd) ` set (pending_opens s)" if "a \<in> snd ` set (streams s)" for a
    using assms(1) that by (auto simp: rt_wf_def addrs_def)
  have "close_all c s = (fold (\<lambda>(_, p). close_pending c p) (pending_opens s) s2)
      \<lparr>pending_opens := [], listener := None\<rparr>"
    using assms(2) ch1(1) by (simp add: close_all_def Let_def s1_def s2_def)
  with ch2 g1 g2 disj show ?thesis
    by (intro exI [of _ ch2]) (auto simp: s2_def s1_def addrs_def)
qed

lemma rt_wf_close_all: "rt_wf s \<Longrightarrow> rt_wf (close_all c s)"
proof (cases "rt_closed s")
  case False
  assume "rt_wf s"
  from close_all_open [OF this False, of c] obtain chs as where c: "close_all c s =
      s\<lparr>streams := [], pending_opens := [], listener := None, rt_closed := True,
        close_reason := Some c, channels := chs, answers := as\<rparr>" "hm_wf chs"
    "\<And>a. hm_get chs a \<noteq> None \<Longrightarrow> hm_get (channels s) a \<noteq> None"
    by (fastforce split: if_splits)
  with \<open>rt_wf s\<close> show ?thesis
    by (auto simp: rt_wf_def addrs_def owned_open_def hm.wf_empty hm.get_empty)
qed (simp add: close_all_def)

lemma rt_wf_sent: "rt_wf (s\<lparr>sent := fs\<rparr>) = rt_wf s" "rt_wf (s\<lparr>answers := as\<rparr>) = rt_wf s"
  "rt_wf (s\<lparr>listener := l\<rparr>) = rt_wf s"
  by (simp_all add: rt_wf_def addrs_def)

lemma rt_wf_send_frame: "rt_wf s \<Longrightarrow> rt_wf (fst (send_frame enc send f s))"
  by (auto simp: send_frame_def rt_wf_close_all rt_wf_sent split: option.splits sum.splits)

lemma rt_wf_send_frame_pair: "send_frame enc send f s = (s', r) \<Longrightarrow> rt_wf s \<Longrightarrow> rt_wf s'"
  using rt_wf_send_frame [of s enc send f] by simp

lemma stream_addr_removed:
  assumes "rt_wf s" and "hm_get (streams s) i = Some a"
  shows "a \<notin> set (addrs (s\<lparr>streams := hm_remove i (streams s)\<rparr>))"
proof -
  note t = rt_wf_tables [OF assms(1)]
  have ia: "(i, a) \<in> set (streams s)" using assms(2) by (rule hm_get_SomeD)
  have "a \<notin> snd ` set (hm_remove i (streams s))"
  proof
    assume "a \<in> snd ` set (hm_remove i (streams s))"
    then obtain x where x: "x \<in> set (hm_remove i (streams s))" "snd x = a" by (rule imageE) simp
    from x(1) have "x \<in> set (streams s)" using set_hm_remove by fast
    with x(2) ia t(3) have "x = (i, a)" by (metis distinct_map inj_onD snd_conv)
    with x(1) show False by (simp add: hm_remove_def AList.delete_eq)
  qed
  moreover have "a \<notin> (po_inbound_tx \<circ> snd) ` set (pending_opens s)"
    using assms(1) ia by (force simp: rt_wf_def addrs_def)
  ultimately show ?thesis by (simp add: addrs_def)
qed

lemma rt_wf_end_stream: "rt_wf s \<Longrightarrow> rt_wf (end_stream it i s)"
  by (auto simp: end_stream_def split: option.splits
      intro!: rt_wf_channel_send rt_wf_remove_stream dest: stream_addr_removed)

lemma queue_open_deliver:
  "queue_open ch \<Longrightarrow> deliver_channel bs ch = (ch', None) \<Longrightarrow> queue_open ch'"
  by (auto simp: queue_open_def deliver_channel_def capacity_def try_send_def queue_sizes
      split: if_splits)

lemma rt_wf_owned:
  "rt_wf s \<Longrightarrow> hm_get (streams s) i = Some a \<Longrightarrow> \<exists>ch. hm_get (channels s) a = Some ch \<and> queue_open ch"
proof -
  assume "rt_wf s" and "hm_get (streams s) i = Some a"
  then have "a \<in> set (addrs s)" by (force simp: addrs_def dest: hm_get_SomeD)
  with \<open>rt_wf s\<close> show ?thesis unfolding rt_wf_def owned_open_def by blast
qed

lemma rt_wf_deliver: "rt_wf s \<Longrightarrow> rt_wf (fst (deliver enc send i bytes s))"
proof (cases "hm_get (streams s) i")
  case (Some a)
  assume wf: "rt_wf s"
  then obtain ch where ch: "hm_get (channels s) a = Some ch" "queue_open ch"
    using rt_wf_owned Some by blast
  obtain ch' f where d: "deliver_channel bytes ch = (ch', f)" by fastforce
  show ?thesis
  proof (cases f)
    case None
    then have "rt_wf (s\<lparr>channels := hm_insert a ch' (channels s)\<rparr>)"
      using wf ch d queue_open_deliver by (intro rt_wf_update_channel) auto
    with Some ch d None show ?thesis by (simp add: deliver_def)
  next
    case (Some f')
    let ?s1 = "s\<lparr>streams := hm_remove i (streams s)\<rparr>"
    have "rt_wf (?s1\<lparr>channels := hm_insert a ch' (channels ?s1)\<rparr>)"
      using wf ch stream_addr_removed [OF wf \<open>hm_get (streams s) i = Some a\<close>]
      by (intro rt_wf_update_channel rt_wf_remove_stream) auto
    then have "rt_wf (s\<lparr>channels := hm_insert a ch' (channels s), streams := hm_remove i (streams s)\<rparr>)"
      by (simp add: rt_wf_def addrs_def)
    with \<open>hm_get (streams s) i = Some a\<close> ch d Some rt_wf_send_frame show ?thesis
      by (simp add: deliver_def)
  qed
qed (simp add: deliver_def)

lemma rt_wf_handle_open: "rt_wf s \<Longrightarrow> rt_wf (fst (handle_open enc send prep i p s))"
proof -
  assume wf: "rt_wf s"
  let ?s2 = "s\<lparr>channels := hm_insert (next_addr s) inbound_channel_new (channels s),
     next_addr := next_addr s + 1, streams := hm_insert i (next_addr s) (streams s)\<rparr>"
  have add: "\<not> id_in_use s i \<Longrightarrow> rt_wf ?s2" using rt_wf_add_stream [OF wf] by simp
  then have rem: "\<not> id_in_use s i \<Longrightarrow> rt_wf (?s2\<lparr>streams := hm_remove i (streams ?s2)\<rparr>)"
    by (intro rt_wf_remove_stream)
  show ?thesis
    using wf add rem
    by (auto simp: handle_open_def new_channel_def Let_def split: option.splits sum.splits prod.splits
        intro: rt_wf_send_frame_pair)
qed

lemma rt_wf_handle_open_resp: "rt_wf s \<Longrightarrow> rt_wf (handle_open_resp alive i res s)"
proof (cases "hm_get (pending_opens s) i")
  case (Some p)
  assume wf: "rt_wf s"
  have "rt_wf ((answer_waiter (po_waiter p) (Inr ()) (remove_pending_open i s))
          \<lparr>streams := hm_insert i (po_inbound_tx p) (streams s)\<rparr>)"
    using rt_wf_move [OF wf Some]
    by (simp add: answer_waiter_def remove_pending_open_def rt_wf_def addrs_def)
  with Some wf rt_wf_remove_pending [OF wf, of i] show ?thesis
    by (auto simp: handle_open_resp_def Let_def answer_waiter_def remove_pending_open_def rt_wf_sent)
qed (simp add: handle_open_resp_def)

lemma rt_wf_handle_frame: "rt_wf s \<Longrightarrow> rt_wf (fst (handle_frame enc send prep alive f s))"
  by (cases f) (simp_all add: handle_frame_def finish_stream_def reset_stream_def rt_wf_handle_open
      rt_wf_end_stream rt_wf_handle_open_resp rt_wf_deliver case_prod_beta)

lemma rt_wf_on_data: "rt_wf s \<Longrightarrow> rt_wf (fst (on_data enc dec send prep alive payload s))"
  by (auto simp: on_data_def rt_wf_close_all rt_wf_handle_frame split: sum.splits option.splits)

lemma rt_wf_open_start:
  assumes "rt_wf s" and "open_start fuel enc send p s = Some (s', r)"
  shows "rt_wf s'"
proof (cases "check_open s")
  case (Inr u)
  with assms(2) obtain s1 i where a: "alloc_stream_id fuel s = Some (s1, i)"
    by (auto simp: open_start_def split: option.splits)
  obtain n where n: "s1 = s\<lparr>next_stream_id := n\<rparr>" "and n 1 = and (next_stream_id s) 1" "\<not> id_in_use s i"
    using alloc_Some [OF a] by auto
  note wf3 = rt_wf_add_pending [OF assms(1) n(3,2), of p "Suc (next_addr s)"]
  show ?thesis
    using assms(2) Inr a n wf3 rt_wf_remove_pending
    by (auto simp: open_start_def new_channel_def Let_def split: prod.splits sum.splits
        dest!: rt_wf_send_frame_pair)
qed (use assms in \<open>auto simp: open_start_def\<close>)

section \<open>Reachable runtimes\<close>

text \<open>Everything the tunnel, the peer and the users of the streams can do, in any order; \<open>send\<close>
  and the callbacks may answer differently every time.\<close>

inductive rt_reach :: "frame_enc \<Rightarrow> frame_dec \<Rightarrow> control_runtime \<Rightarrow> bool" for enc dec where
  start: "rt_reach enc dec (runtime_new b)"
| listens: "rt_reach enc dec s \<Longrightarrow> rt_reach enc dec (fst (listen_with_prepare ps prepare s))"
| opens: "rt_reach enc dec s \<Longrightarrow> open_start fuel enc send p s = Some (s', r) \<Longrightarrow> rt_reach enc dec s'"
| opened: "rt_reach enc dec s \<Longrightarrow> rt_reach enc dec (fst (open_finish i a out s))"
| data: "rt_reach enc dec s \<Longrightarrow> rt_reach enc dec (fst (on_data enc dec send prep alive payload s))"
| close: "rt_reach enc dec s \<Longrightarrow> rt_reach enc dec (close_all c s)"
| reads: "rt_reach enc dec s \<Longrightarrow> hm_get (channels s) a = Some ch \<Longrightarrow>
    poll_read tx room r ch = (r', ch', out) \<Longrightarrow>
    rt_reach enc dec (s\<lparr>channels := hm_insert a ch' (channels s)\<rparr>)"
| drops: "rt_reach enc dec s \<Longrightarrow> hm_get (channels s) a = Some ch \<Longrightarrow>
    rt_reach enc dec (s\<lparr>channels := hm_insert a (drop_receiver ch) (channels s)\<rparr>)"
| writes: "rt_reach enc dec s \<Longrightarrow> poll_write enc send src wr s = (wr', s', n) \<Longrightarrow> rt_reach enc dec s'"
| shuts: "rt_reach enc dec s \<Longrightarrow> poll_shutdown enc send wr s = (wr', s', r) \<Longrightarrow> rt_reach enc dec s'"

lemma queue_open_read:
  "queue_open ch \<Longrightarrow> poll_read tx room r ch = (r', ch', out) \<Longrightarrow> queue_open ch'"
  using poll_read_bytes(2) [of tx room r ch r' ch' out]
  by (auto simp: queue_open_def list_all_iff) (meson in_set_dropD)

lemma owned_queue_open: "rt_wf s \<Longrightarrow> a \<in> set (addrs s) \<Longrightarrow> hm_get (channels s) a = Some ch \<Longrightarrow> queue_open ch"
  unfolding rt_wf_def owned_open_def by fastforce

lemma rt_reach_wf: "rt_reach enc dec s \<Longrightarrow> rt_wf s"
proof (induction rule: rt_reach.induct)
  case (listens s ps prepare)
  then show ?case by (auto simp: listen_with_prepare_def rt_wf_sent split: sum.splits)
next
  case (opens s fuel send p s' r)
  then show ?case using rt_wf_open_start by blast
next
  case (opened s i a out)
  then show ?case by (simp add: open_finish_def rt_wf_remove_pending)
next
  case (reads s a ch tx room r r' ch' out)
  then show ?case by (intro rt_wf_update_channel) (auto intro: queue_open_read owned_queue_open)
next
  case (drops s a ch)
  then show ?case by (intro rt_wf_update_channel) (auto simp: queue_open_def drop_receiver_def)
next
  case (writes s send src wr wr' s' n)
  then show ?case by (auto simp: poll_write_def rt_wf_sent Let_def split: if_splits option.splits sum.splits)
next
  case (shuts s send wr wr' s' r)
  then show ?case by (auto simp: poll_shutdown_def rt_wf_sent split: if_splits option.splits sum.splits)
qed (simp_all add: rt_wf_new rt_wf_on_data rt_wf_close_all)

lemma try_send_end:
  "queue_open ch \<Longrightarrow> receiver_alive ch \<Longrightarrow> fst (try_send it ch) = ch\<lparr>items := items ch @ [it]\<rparr>"
  by (simp add: queue_open_def try_send_def queue_sizes)

text \<open>in every reachable runtime, whatever the queues hold, the end of a stream
  reaches its reader: \<open>Fin\<close>, \<open>Reset\<close> and the closing of the tunnel append their item to the
  stream's queue (the result of \<open>try_send\<close> that the code ignores is always \<open>Ok\<close> while the
  reader is alive) and take the stream out of the table; ending one stream leaves every other
  channel as it was.\<close>

theorem stream_end_reaches_reader:
  assumes "rt_reach enc dec s" and "hm_get (streams s) i = Some a"
    and "hm_get (channels s) a = Some ch" and "receiver_alive ch"
  shows "hm_get (channels (finish_stream i s)) a = Some (ch\<lparr>items := items ch @ [IFin]\<rparr>) \<and>
         hm_get (channels (reset_stream i c s)) a = Some (ch\<lparr>items := items ch @ [IReset c]\<rparr>) \<and>
         hm_get (streams (finish_stream i s)) i = None \<and> hm_get (streams (reset_stream i c s)) i = None \<and>
         (rt_closed s \<or> hm_get (channels (close_all c s)) a = Some (ch\<lparr>items := items ch @ [IReset c]\<rparr>)) \<and>
         (a = b \<or> hm_get (channels (finish_stream i s)) b = hm_get (channels s) b \<and>
            hm_get (channels (reset_stream i c s)) b = hm_get (channels s) b)"
proof -
  have wf: "rt_wf s" by (rule rt_reach_wf [OF assms(1)])
  have q: "queue_open ch" using rt_wf_owned [OF wf assms(2)] assms(3) by auto
  have st: "hm_wf (streams s)" using wf by (simp add: rt_wf_def)
  have a: "a \<in> set (addrs s)" using assms(2) by (force simp: addrs_def dest: hm_get_SomeD)
  have "rt_closed s \<or> hm_get (channels (close_all c s)) a = Some (ch\<lparr>items := items ch @ [IReset c]\<rparr>)"
  proof (cases "rt_closed s")
    case False
    from close_all_open [OF wf this, of c] a assms(3) try_send_end [OF q assms(4)]
    show ?thesis by auto
  qed simp
  then show ?thesis
    using assms(2,3) try_send_end [OF q assms(4)] st
    by (auto simp: finish_stream_def reset_stream_def end_stream_def channel_send_get hm.get_remove)
qed

text \<open>A listener that takes every purpose, and a peer that opens stream 1 and sends one byte.\<close>

definition sample_payload :: "control_stream_frame \<Rightarrow> u8 list" where
  "sample_payload f =
     (case f of FOpen i p \<Rightarrow> [0, ucast i] | FOpenResp i r \<Rightarrow> [1, ucast i, command_result_as_u8 r]
      | FData i bs \<Rightarrow> [2, ucast i] @ bs | FFin i \<Rightarrow> [3, ucast i] | FReset i r \<Rightarrow> [4, ucast i]
      | FWindow i c \<Rightarrow> [5, ucast i])"

definition sample_enc :: frame_enc where
  "sample_enc f = Some (sample_payload f)"

definition sample_dec :: frame_dec where
  "sample_dec bs = (case bs of
      [t, i] \<Rightarrow> if t = 0 then Some (FOpen (ucast i) (TunnelPurpose [])) else if t = 3 then Some (FFin (ucast i))
                else None
    | [t, i, b] \<Rightarrow> if t = 2 then Some (FData (ucast i) [b]) else None
    | _ \<Rightarrow> None)"

definition sample_opened :: control_runtime where
  "sample_opened =
     fst (on_data sample_enc sample_dec (\<lambda>_. Inr ()) (Inr ()) (\<lambda>_. True) [2, 1, 9]
       (fst (on_data sample_enc sample_dec (\<lambda>_. Inr ()) (Inr ()) (\<lambda>_. True) [0, 1]
         (fst (listen_with_prepare allow_all_listen_vports False (runtime_new False))))))"

lemma sample_opened_eq:
  "hm_get (streams sample_opened) 1 = Some 0"
  "hm_get (channels sample_opened) 0 = Some \<lparr>items = [IData [9]], receiver_alive = True\<rparr>"
  "sent sample_opened = [FOpenResp 1 ResSuccess]" "rt_closed sample_opened = False"
  by (simp_all add: sample_opened_def on_data_def listen_with_prepare_def check_open_def runtime_new_def
      sample_dec_def MAX_CONTROL_DATA_FRAME_SIZE_def handle_frame_def handle_open_def is_peer_stream_id_def
      id_in_use_def hm_get_def allow_all_listen_vports_def new_channel_def hm_insert_def send_frame_def
      sample_enc_def sample_payload_def deliver_def deliver_channel_def capacity_def inbound_channel_new_def
      queue_sizes try_send_def Let_def)

lemma sample_opened_reach: "rt_reach sample_enc sample_dec sample_opened"
  unfolding sample_opened_def by (intro rt_reach.data rt_reach.listens rt_reach.start)

theorem stream_end_reaches_reader_witness:
  "hm_get (channels (finish_stream 1 sample_opened)) 0 =
     Some \<lparr>items = [IData [9], IFin], receiver_alive = True\<rparr> \<and>
   hm_get (streams (finish_stream 1 sample_opened)) 1 = None"
  using stream_end_reaches_reader [OF sample_opened_reach sample_opened_eq(1,2)] by simp

section \<open>Opening and closing\<close>

text \<open>opening a stream works: one side starts an open and sends \<open>Open\<close>; if the
  other side listens for the purpose, has no stream with that id and can answer, it registers the
  stream and answers \<open>Success\<close>, and that answer gives the opener its stream under the same id,
  answers its waiter once with \<open>Ok\<close> and leaves nothing pending.\<close>

theorem control_open_handshake:
  assumes "rt_reach enc dec s" and "rt_reach enc dec t"
    and "open_start fuel enc send p s = Some (s1, Inr (i, w, a))"
    and "local_stream_id_parity t \<noteq> local_stream_id_parity s" and "\<not> id_in_use t i"
    and "listener t = Some (purposes, False)" and "purposes p"
    and "enc (FOpenResp i ResSuccess) = Some pl" and "length pl \<le> MAX_CONTROL_DATA_FRAME_SIZE"
    and "send' pl = Inr ()"
    and "handle_frame enc send' prep alive (FOpen i p) t = (t1, r, cb)"
    and "handle_frame enc send'' prep' (\<lambda>_. True) (FOpenResp i ResSuccess) s1 = (s2, r', cb')"
  shows "sent s1 = sent s @ [FOpen i p] \<and> r = Inr () \<and> sent t1 = sent t @ [FOpenResp i ResSuccess] \<and>
         cb = Some (Inr (next_addr t)) \<and> hm_get (streams t1) i = Some (next_addr t) \<and>
         hm_get (streams s2) i = Some a \<and> answers s2 = answers s @ [(w, Inr ())] \<and>
         hm_get (pending_opens s2) i = None"
proof -
  have wf: "rt_wf s" by (rule rt_reach_wf [OF assms(1)])
  obtain u where u: "check_open s = Inr u"
    using assms(3) by (auto simp: open_start_def split: sum.splits)
  with assms(3) obtain s0 j where al: "alloc_stream_id fuel s = Some (s0, j)"
    by (auto simp: open_start_def split: option.splits)
  note A = alloc_Some [OF al]
  from A obtain n where s0: "s0 = s\<lparr>next_stream_id := n\<rparr>" by auto
  have s1: "j = i" "s1 = s\<lparr>next_stream_id := n, channels := hm_insert (next_addr s) inbound_channel_new (channels s),
       next_addr := Suc (Suc (next_addr s)),
       pending_opens := hm_insert i \<lparr>po_purpose = p, po_inbound_tx = a, po_waiter = w\<rparr> (pending_opens s),
       sent := sent s @ [FOpen i p]\<rparr>"
    using assms(3) u al s0
    by (auto simp: open_start_def new_channel_def Let_def send_frame_def
        split: prod.splits sum.splits option.splits if_splits)
  have par: "and i 1 = local_stream_id_parity s" "i \<noteq> 0"
    using A s1(1) wf by (auto simp: rt_wf_def)
  have "hm_wf (pending_opens s1)" using s1(2) wf by (simp add: rt_wf_def hm.wf_insert)
  then have "hm_get (streams s2) i = Some a \<and> answers s2 = answers s @ [(w, Inr ())] \<and>
      hm_get (pending_opens s2) i = None"
    using assms(12) s1(2)
    by (auto simp: handle_frame_def handle_open_resp_def Let_def hm.get_insert hm.get_remove
        remove_pending_open_def answer_waiter_def)
  moreover have "is_peer_stream_id t i" using par assms(4) by (simp add: is_peer_stream_id_def)
  ultimately show ?thesis
    using assms(5-11) s1(2)
    by (auto simp: handle_frame_def handle_open_def new_channel_def send_frame_def Let_def hm.get_insert)
qed

definition sample_listening :: control_runtime where
  "sample_listening = fst (listen_with_prepare allow_all_listen_vports False (runtime_new False))"

theorem control_open_handshake_witness:
  "\<exists>s1 t1 s2. open_start 2 sample_enc (\<lambda>_. Inr ()) (TunnelPurpose []) (runtime_new True) =
       Some (s1, Inr (1, 1, 0)) \<and>
     handle_frame sample_enc (\<lambda>_. Inr ()) (Inr ()) (\<lambda>_. True) (FOpen 1 (TunnelPurpose [])) sample_listening =
       (t1, Inr (), Some (Inr 0)) \<and>
     handle_frame sample_enc (\<lambda>_. Inr ()) (Inr ()) (\<lambda>_. True) (FOpenResp 1 ResSuccess) s1 = (s2, Inr (), None) \<and>
     hm_get (streams t1) 1 = Some 0 \<and> hm_get (streams s2) 1 = Some 0 \<and> answers s2 = [(1, Inr ())]"
proof -
  note defs = listen_with_prepare_def check_open_def runtime_new_def sample_listening_def
    MAX_CONTROL_DATA_FRAME_SIZE_def handle_frame_def handle_open_def handle_open_resp_def
    is_peer_stream_id_def id_in_use_def hm_get_def allow_all_listen_vports_def new_channel_def
    hm_insert_def send_frame_def sample_enc_def sample_payload_def open_start_def numeral_2_eq_2 Let_def
  obtain s1 where s1: "open_start 2 sample_enc (\<lambda>_. Inr ()) (TunnelPurpose []) (runtime_new True) =
       Some (s1, Inr (1, 1, 0))"
    by (simp add: defs)
  obtain t1 r cb where t1: "handle_frame sample_enc (\<lambda>_. Inr ()) (Inr ()) (\<lambda>_. True)
      (FOpen 1 (TunnelPurpose [])) sample_listening = (t1, r, cb)" by (metis prod_cases3)
  obtain s2 r' cb' where s2: "handle_frame sample_enc (\<lambda>_. Inr ()) (Inr ()) (\<lambda>_. True)
      (FOpenResp 1 ResSuccess) s1 = (s2, r', cb')" by (metis prod_cases3)
  have r': "r' = Inr ()" "cb' = None" using s2 by (auto simp: handle_frame_def)
  have "rt_reach sample_enc sample_dec sample_listening"
    unfolding sample_listening_def by (intro rt_reach.listens rt_reach.start)
  note h = control_open_handshake [OF rt_reach.start this s1 _ _ _ _ _ _ _ t1 s2,
      of allow_all_listen_vports "sample_payload (FOpenResp 1 ResSuccess)"]
  have "r = Inr ()" "cb = Some (Inr 0)" "hm_get (streams t1) 1 = Some 0" "hm_get (streams s2) 1 = Some 0"
    "answers s2 = [(1, Inr ())]"
    by (use h in \<open>simp add: defs\<close>)+
  with s1 t1 s2 r' show ?thesis by auto
qed

text \<open>closing the tunnel settles every control stream: all tables are empty, each
  open that was waiting is answered exactly once, with the reason, nothing else is answered, later
  calls are refused with that reason, and closing again changes nothing.\<close>

theorem close_all_settles:
  assumes "rt_reach enc dec s" and "\<not> rt_closed s"
  shows "let s' = close_all c s
         in streams s' = [] \<and> pending_opens s' = [] \<and> listener s' = None \<and>
            answers s' = answers s @ map (\<lambda>(_, p). (po_waiter p, Inl c)) (pending_opens s) \<and>
            check_open s' = Inl c \<and> close_all c' s' = s' \<and>
            open_start fuel enc send p s' = Some (s', Inl c)"
proof -
  obtain chs where "close_all c s =
           s\<lparr>streams := [], pending_opens := [], listener := None, rt_closed := True,
             close_reason := Some c, channels := chs,
             answers := answers s @ map (\<lambda>(_, p). (po_waiter p, Inl c)) (pending_opens s)\<rparr>"
    using close_all_open [OF rt_reach_wf [OF assms(1)] assms(2), of c] by auto
  then show ?thesis
    by (simp add: Let_def check_open_def open_start_def close_all_def [of c'])
qed

theorem close_all_settles_witness:
  "let s' = close_all Interrupted sample_opened
   in streams s' = [] \<and> check_open s' = Inl Interrupted \<and> close_all Timeout s' = s'"
  using close_all_settles [OF sample_opened_reach, of Interrupted Timeout] sample_opened_eq(4)
  by (simp add: Let_def)

end
