(* ===== verification/TcpProtocol.thy ===== *)
theory TcpProtocol
  imports TunnelActivity
begin

text \<open>
  The commands of a TCP tunnel: the frame format of \<open>networks/command.rs\<close> (a header with the
  version, the command id and the length of the body, then the body) and the commands of
  \<open>networks/tcp/protocol.rs\<close>.

  The raw codec of headers and bodies comes from \<open>bucky_raw_codec\<close>; it is the parameter
  \<open>wire_codec\<close>: how a header and a body are encoded, measured and decoded. What the frame
  format relies on is \<open>codec_ok\<close>: decoding gives back what was encoded, \<open>raw_measure\<close> is
  the length of the encoding, and all headers have the same length. A connection is the list of the
  bytes that have arrived on it.
\<close>

section \<open>Definitions\<close>

subsection \<open>Commands\<close>

type_synonym tcp_conn_id = tunnel_id
type_synonym tcp_lease_seq = tunnel_id
type_synonym tcp_channel_id = tunnel_id
type_synonym tcp_request_id = tunnel_id

definition MAX_TCP_TUNNEL_COMMAND_BODY_LEN :: u32 where
  "MAX_TCP_TUNNEL_COMMAND_BODY_LEN = 1024 * 1024"

definition TUNNEL_COMMAND_VERSION :: u8 where
  "TUNNEL_COMMAND_VERSION = 1"

datatype tcp_command_id =
    IdConnectionHello | IdControlConnReady | IdDataConnReady | IdPing | IdPong | IdOpenDataConnReq
  | IdClaimConnReq | IdClaimConnAck | IdWriteFin | IdReadDone | IdData | IdOpenDataConnResp

fun command_id_as_u8 :: "tcp_command_id \<Rightarrow> u8" where
  "command_id_as_u8 IdConnectionHello = 1"
| "command_id_as_u8 IdControlConnReady = 2"
| "command_id_as_u8 IdDataConnReady = 3"
| "command_id_as_u8 IdPing = 4"
| "command_id_as_u8 IdPong = 5"
| "command_id_as_u8 IdOpenDataConnReq = 6"
| "command_id_as_u8 IdClaimConnReq = 7"
| "command_id_as_u8 IdClaimConnAck = 8"
| "command_id_as_u8 IdWriteFin = 9"
| "command_id_as_u8 IdReadDone = 10"
| "command_id_as_u8 IdData = 11"
| "command_id_as_u8 IdOpenDataConnResp = 12"

definition tcp_command_ids :: "tcp_command_id list" where
  "tcp_command_ids =
     [IdConnectionHello, IdControlConnReady, IdDataConnReady, IdPing, IdPong, IdOpenDataConnReq,
      IdClaimConnReq, IdClaimConnAck, IdWriteFin, IdReadDone, IdData, IdOpenDataConnResp]"

definition command_id_from_u8 :: "u8 \<Rightarrow> tcp_command_id option" where
  "command_id_from_u8 v = List.find (\<lambda>c. v = command_id_as_u8 c) tcp_command_ids"

datatype tcp_connection_role = RoleControl | RoleData

record tcp_connection_hello =
  hello_role :: tcp_connection_role
  hello_tunnel_id :: tunnel_id
  hello_candidate_id :: candidate_id
  hello_is_reverse :: bool
  hello_conn_id :: "tcp_conn_id option"
  hello_open_request_id :: "tcp_request_id option"

datatype control_conn_ready_result = CtlSuccess | CtlTunnelConflictLost | CtlProtocolError | CtlInternalError
datatype data_conn_ready_result =
    DcSuccess | DcTunnelNotFound | DcConnIdConflict | DcProtocolError | DcInternalError

record data_conn_ready =
  ready_conn_id :: tcp_conn_id
  ready_candidate_id :: candidate_id
  ready_result :: data_conn_ready_result

record ping_cmd =
  ping_seq :: u64
  ping_send_time :: timestamp

record open_data_conn_req =
  oreq_request_id :: tcp_request_id

datatype open_data_conn_resp_result = OpenSuccess | OpenConnectFailed | OpenProtocolError | OpenInternalError

record open_data_conn_resp =
  oresp_request_id :: tcp_request_id
  oresp_conn_id :: "tcp_conn_id option"
  oresp_result :: open_data_conn_resp_result

datatype tcp_channel_kind = KindStream | KindDatagram

record claim_conn_req =
  creq_channel_id :: tcp_channel_id
  creq_kind :: tcp_channel_kind
  creq_purpose :: tunnel_purpose
  creq_conn_id :: tcp_conn_id
  creq_lease_seq :: tcp_lease_seq
  creq_claim_nonce :: u64

record claim_conn_ack =
  cack_channel_id :: tcp_channel_id
  cack_conn_id :: tcp_conn_id
  cack_lease_seq :: tcp_lease_seq
  cack_result :: u8

datatype claim_conn_ack_result =
    AckSuccess | AckVportNotFound | AckListenerClosed | AckNotIdle | AckLeaseMismatch | AckConflictLost
  | AckRetired | AckProtocolError | AckAcceptQueueFull

definition claim_conn_ack_results :: "claim_conn_ack_result list" where
  "claim_conn_ack_results =
     [AckSuccess, AckVportNotFound, AckListenerClosed, AckNotIdle, AckLeaseMismatch, AckConflictLost,
      AckRetired, AckProtocolError, AckAcceptQueueFull]"

fun ack_result_as_u8 :: "claim_conn_ack_result \<Rightarrow> u8" where
  "ack_result_as_u8 AckSuccess = 0"
| "ack_result_as_u8 AckVportNotFound = 1"
| "ack_result_as_u8 AckListenerClosed = 2"
| "ack_result_as_u8 AckNotIdle = 3"
| "ack_result_as_u8 AckLeaseMismatch = 4"
| "ack_result_as_u8 AckConflictLost = 5"
| "ack_result_as_u8 AckRetired = 6"
| "ack_result_as_u8 AckProtocolError = 7"
| "ack_result_as_u8 AckAcceptQueueFull = 8"

definition ack_result_try_from :: "u8 \<Rightarrow> claim_conn_ack_result option" where
  "ack_result_try_from v = List.find (\<lambda>r. v = ack_result_as_u8 r) claim_conn_ack_results"

record write_fin =
  fin_channel_id :: tcp_channel_id
  fin_conn_id :: tcp_conn_id
  fin_lease_seq :: tcp_lease_seq
  fin_final_tx_bytes :: u64

record read_done =
  done_channel_id :: tcp_channel_id
  done_conn_id :: tcp_conn_id
  done_lease_seq :: tcp_lease_seq
  done_final_rx_bytes :: u64

datatype tcp_control_cmd =
    CmdPing ping_cmd | CmdPong ping_cmd | CmdOpenDataConnReq open_data_conn_req
  | CmdOpenDataConnResp open_data_conn_resp | CmdClaimConnReq claim_conn_req
  | CmdClaimConnAck claim_conn_ack | CmdWriteFin write_fin | CmdReadDone read_done | CmdData "u8 list"

text \<open>\<open>TunnelCommandBody::COMMAND_ID\<close> of the bodies.\<close>

fun command_id_of :: "tcp_control_cmd \<Rightarrow> tcp_command_id" where
  "command_id_of (CmdPing _) = IdPing"
| "command_id_of (CmdPong _) = IdPong"
| "command_id_of (CmdOpenDataConnReq _) = IdOpenDataConnReq"
| "command_id_of (CmdOpenDataConnResp _) = IdOpenDataConnResp"
| "command_id_of (CmdClaimConnReq _) = IdClaimConnReq"
| "command_id_of (CmdClaimConnAck _) = IdClaimConnAck"
| "command_id_of (CmdWriteFin _) = IdWriteFin"
| "command_id_of (CmdReadDone _) = IdReadDone"
| "command_id_of (CmdData _) = IdData"

subsection \<open>Frames\<close>

record tunnel_command_header =
  hdr_version :: u8
  hdr_command_id :: u8
  hdr_data_len :: u32

text \<open>The raw codec: \<open>dec_body\<close> decodes the body type that belongs to a command id.\<close>

record wire_codec =
  enc_header :: "tunnel_command_header \<Rightarrow> u8 list"
  dec_header :: "u8 list \<Rightarrow> tunnel_command_header option"
  header_len :: nat
  enc_body :: "tcp_control_cmd \<Rightarrow> u8 list"
  measure_body :: "tcp_control_cmd \<Rightarrow> nat"
  dec_body :: "tcp_command_id \<Rightarrow> u8 list \<Rightarrow> tcp_control_cmd option"

definition tunnel_command_new :: "wire_codec \<Rightarrow> tcp_control_cmd \<Rightarrow> tunnel_command_header" where
  "tunnel_command_new k c =
     \<lparr>hdr_version = TUNNEL_COMMAND_VERSION, hdr_command_id = command_id_as_u8 (command_id_of c),
      hdr_data_len = of_nat (measure_body k c)\<rparr>"

definition command_validate :: "wire_codec \<Rightarrow> tunnel_command_header \<Rightarrow> tcp_control_cmd \<Rightarrow> unit p2p_result" where
  "command_validate k h c =
     (if hdr_version h \<noteq> TUNNEL_COMMAND_VERSION then Inl InvalidData
      else if hdr_command_id h \<noteq> command_id_as_u8 (command_id_of c) then Inl InvalidData
      else if hdr_data_len h \<noteq> of_nat (measure_body k c) then Inl InvalidData
      else Inr ())"

text \<open>\<open>read_exact\<close> on the bytes that have arrived: too few of them is an I/O error.\<close>

definition read_exact :: "nat \<Rightarrow> u8 list \<Rightarrow> (u8 list \<times> u8 list) p2p_result" where
  "read_exact n bs = (if length bs < n then Inl IoError else Inr (take n bs, drop n bs))"

definition read_tunnel_command_header ::
    "wire_codec \<Rightarrow> u8 list \<Rightarrow> (tunnel_command_header \<times> u8 list) p2p_result" where
  "read_tunnel_command_header k bs =
     (case read_exact (header_len k) bs of
        Inl e \<Rightarrow> Inl e
      | Inr (hb, rest) \<Rightarrow>
          (case dec_header k hb of None \<Rightarrow> Inl RawCodecError | Some h \<Rightarrow> Inr (h, rest)))"

definition read_tunnel_command_body ::
    "wire_codec \<Rightarrow> tcp_command_id \<Rightarrow> tunnel_command_header \<Rightarrow> u8 list \<Rightarrow>
     (tcp_control_cmd \<times> u8 list) p2p_result" where
  "read_tunnel_command_body k c h bs =
     (if hdr_command_id h \<noteq> command_id_as_u8 c then Inl InvalidData
      else (case read_exact (unat (hdr_data_len h)) bs of
          Inl e \<Rightarrow> Inl e
        | Inr (bb, rest) \<Rightarrow>
            (case dec_body k c bb of
               None \<Rightarrow> Inl RawCodecError
             | Some cmd \<Rightarrow>
                 (case command_validate k h cmd of Inl e \<Rightarrow> Inl e | Inr _ \<Rightarrow> Inr (cmd, rest)))))"

definition validate_header_len :: "tunnel_command_header \<Rightarrow> unit p2p_result" where
  "validate_header_len h =
     (if hdr_data_len h = 0 \<or> hdr_data_len h > MAX_TCP_TUNNEL_COMMAND_BODY_LEN then Inl OutOfLimit
      else Inr ())"

definition decode_tunnel_command_body ::
    "wire_codec \<Rightarrow> tcp_command_id \<Rightarrow> tunnel_command_header \<Rightarrow> u8 list \<Rightarrow>
     (tcp_control_cmd \<times> u8 list) p2p_result" where
  "decode_tunnel_command_body k c h bs =
     (case validate_header_len h of Inl e \<Rightarrow> Inl e | Inr _ \<Rightarrow> read_tunnel_command_body k c h bs)"

definition encode_wire :: "wire_codec \<Rightarrow> tcp_control_cmd \<Rightarrow> u8 list" where
  "encode_wire k c = enc_header k (tunnel_command_new k c) @ enc_body k c"

definition decode_from_wire_header_bounded ::
    "wire_codec \<Rightarrow> tunnel_command_header \<Rightarrow> u8 \<Rightarrow> u8 list \<Rightarrow> (tcp_control_cmd \<times> u8 list) p2p_result" where
  "decode_from_wire_header_bounded k h max_id bs =
     (case validate_header_len h of
        Inl e \<Rightarrow> Inl e
      | Inr _ \<Rightarrow>
          if hdr_command_id h > max_id then Inl InvalidData
          else (case command_id_from_u8 (hdr_command_id h) of
              None \<Rightarrow> Inl InvalidData
            | Some c \<Rightarrow>
                if c \<in> {IdConnectionHello, IdControlConnReady, IdDataConnReady} then Inl InvalidData
                else decode_tunnel_command_body k c h bs))"

definition read_from_wire_bounded ::
    "wire_codec \<Rightarrow> u8 \<Rightarrow> u8 list \<Rightarrow> (tcp_control_cmd \<times> u8 list) p2p_result" where
  "read_from_wire_bounded k max_id bs =
     (case read_tunnel_command_header k bs of
        Inl e \<Rightarrow> Inl e
      | Inr (h, rest) \<Rightarrow> decode_from_wire_header_bounded k h max_id rest)"

definition read_from_wire :: "wire_codec \<Rightarrow> u8 list \<Rightarrow> (tcp_control_cmd \<times> u8 list) p2p_result" where
  "read_from_wire k bs = read_from_wire_bounded k (command_id_as_u8 IdOpenDataConnResp) bs"

text \<open>What \<open>control_recv_loop\<close> does with the commands that have arrived: it reads one after
  the other until a read fails.\<close>

fun read_all :: "nat \<Rightarrow> wire_codec \<Rightarrow> u8 list \<Rightarrow> tcp_control_cmd list" where
  "read_all 0 k bs = []"
| "read_all (Suc n) k bs =
     (case read_from_wire k bs of Inl e \<Rightarrow> [] | Inr (c, rest) \<Rightarrow> c # read_all n k rest)"

section \<open>Ids and results on the wire\<close>

lemma command_id_codec [simp]: "command_id_from_u8 (command_id_as_u8 c) = Some c"
  by (cases c) (simp_all add: command_id_from_u8_def tcp_command_ids_def)

lemma command_id_from_u8_Some: "command_id_from_u8 v = Some c \<longleftrightarrow> v = command_id_as_u8 c"
proof
  show "command_id_from_u8 v = Some c \<Longrightarrow> v = command_id_as_u8 c"
    by (auto simp: command_id_from_u8_def find_Some_iff)
qed simp

lemma ack_result_codec [simp]: "ack_result_try_from (ack_result_as_u8 r) = Some r"
  by (cases r) (simp_all add: ack_result_try_from_def claim_conn_ack_results_def)

lemma command_id_bound: "command_id_as_u8 c \<le> 12"
  by (cases c) simp_all

lemma command_id_of_control:
  "command_id_of c \<notin> {IdConnectionHello, IdControlConnReady, IdDataConnReady}"
  by (cases c) simp_all

section \<open>Reading what was written\<close>

text \<open>What the frame format relies on when it carries a command.\<close>

definition codec_ok :: "wire_codec \<Rightarrow> tcp_control_cmd \<Rightarrow> bool" where
  "codec_ok k c \<longleftrightarrow>
     (let h = tunnel_command_new k c
      in dec_header k (enc_header k h) = Some h \<and> length (enc_header k h) = header_len k) \<and>
     dec_body k (command_id_of c) (enc_body k c) = Some c \<and> measure_body k c = length (enc_body k c)"

definition body_fits :: "wire_codec \<Rightarrow> tcp_control_cmd \<Rightarrow> bool" where
  "body_fits k c \<longleftrightarrow> 0 < length (enc_body k c) \<and> length (enc_body k c) \<le> 1024 * 1024"

lemma read_encode_wire:
  assumes "codec_ok k c" and "body_fits k c"
  shows "read_from_wire k (encode_wire k c @ rest) = Inr (c, rest)"
proof -
  let ?h = "tunnel_command_new k c"
  let ?n = "length (enc_body k c)"
  have n: "0 < ?n" "?n \<le> 1048576" using assms(2) by (auto simp: body_fits_def)
  have d: "hdr_data_len ?h = of_nat ?n"
    using assms(1) by (simp add: tunnel_command_new_def codec_ok_def)
  have u: "unat (hdr_data_len ?h) = ?n" unfolding d using n(2) by (simp add: unat_of_nat take_bit_nat_def)
  have hd: "dec_header k (enc_header k ?h) = Some ?h" "length (enc_header k ?h) = header_len k"
    using assms(1) by (auto simp: codec_ok_def Let_def)
  have v: "validate_header_len ?h = Inr ()"
    using n u by (auto simp: validate_header_len_def MAX_TCP_TUNNEL_COMMAND_BODY_LEN_def word_less_nat_alt
        word_unat_eq_iff)
  have b: "read_tunnel_command_body k (command_id_of c) ?h (enc_body k c @ rest) = Inr (c, rest)"
    using assms(1) u by (simp add: read_tunnel_command_body_def read_exact_def command_validate_def codec_ok_def)
      (simp add: tunnel_command_new_def)
  have id: "hdr_command_id ?h = command_id_as_u8 (command_id_of c)" by (simp add: tunnel_command_new_def)
  show ?thesis
    using hd v b id command_id_bound [of "command_id_of c"] command_id_of_control [of c]
    by (simp add: read_from_wire_def read_from_wire_bounded_def read_tunnel_command_header_def read_exact_def
        encode_wire_def decode_from_wire_header_bounded_def decode_tunnel_command_body_def)
qed

text \<open>C37: a peer reads back the sequence of control commands that was written to
  the connection, whatever the commands are and wherever one ends and the next begins, if the raw
  codec is right on them and no body is empty or longer than 1 MiB.\<close>

theorem tcp_commands_roundtrip:
  assumes "list_all (codec_ok k) cs" and "list_all (body_fits k) cs"
  shows "read_all (length cs) k (concat (map (encode_wire k) cs)) = cs"
  using assms
proof (induction cs)
  case (Cons c cs)
  then show ?case by (simp add: read_encode_wire)
qed simp

text \<open>A codec with one length byte, for two of the commands.\<close>

definition sample_codec :: wire_codec where
  "sample_codec =
     \<lparr>enc_header = (\<lambda>h. [hdr_version h, hdr_command_id h, ucast (hdr_data_len h)]),
      dec_header = (\<lambda>bs. case bs of [v, i, l] \<Rightarrow>
          Some \<lparr>hdr_version = v, hdr_command_id = i, hdr_data_len = ucast l\<rparr> | _ \<Rightarrow> None),
      header_len = 3,
      enc_body = (\<lambda>c. case c of CmdData bs \<Rightarrow> 1 # bs
          | CmdOpenDataConnReq r \<Rightarrow> [ucast (tunnel_value (oreq_request_id r))] | _ \<Rightarrow> []),
      measure_body = (\<lambda>c. case c of CmdData bs \<Rightarrow> Suc (length bs) | CmdOpenDataConnReq r \<Rightarrow> 1 | _ \<Rightarrow> 0),
      dec_body = (\<lambda>i bs. case (i, bs) of (IdData, b # bs') \<Rightarrow> Some (CmdData bs')
          | (IdOpenDataConnReq, [b]) \<Rightarrow> Some (CmdOpenDataConnReq \<lparr>oreq_request_id = TunnelId (ucast b)\<rparr>)
          | _ \<Rightarrow> None)\<rparr>"

theorem tcp_commands_roundtrip_witness:
  "let cs = [CmdOpenDataConnReq \<lparr>oreq_request_id = TunnelId 7\<rparr>, CmdData [5, 6]]
   in concat (map (encode_wire sample_codec) cs) = [1, 6, 1, 7, 1, 11, 3, 1, 5, 6] \<and>
      read_all 2 sample_codec [1, 6, 1, 7, 1, 11, 3, 1, 5, 6] = cs"
proof -
  let ?cs = "[CmdOpenDataConnReq \<lparr>oreq_request_id = TunnelId 7\<rparr>, CmdData [5, 6]]"
  have b: "concat (map (encode_wire sample_codec) ?cs) = [1, 6, 1, 7, 1, 11, 3, 1, 5, 6]"
    by (simp add: encode_wire_def sample_codec_def tunnel_command_new_def TUNNEL_COMMAND_VERSION_def)
  have "list_all (codec_ok sample_codec) ?cs" "list_all (body_fits sample_codec) ?cs"
    by (simp_all add: codec_ok_def body_fits_def sample_codec_def tunnel_command_new_def)
  from tcp_commands_roundtrip [OF this] have "read_all 2 sample_codec
      (concat (map (encode_wire sample_codec) ?cs)) = ?cs"
    by (simp only: list.size) (simp add: numeral_2_eq_2)
  with b show ?thesis by (simp only: Let_def)
qed

text \<open>what a reader accepts is well formed: a command that is read came with
  version 1, its own id, not the id of a handshake frame, and a declared length between 1 byte and
  1 MiB that is the measure of the body; the reader consumed exactly the header and the declared
  length.\<close>

theorem tcp_read_accepts_wellformed:
  assumes "read_from_wire k bs = Inr (c, rest)"
  shows "\<exists>h. dec_header k (take (header_len k) bs) = Some h \<and> hdr_version h = 1 \<and>
           hdr_command_id h = command_id_as_u8 (command_id_of c) \<and>
           1 \<le> unat (hdr_data_len h) \<and> unat (hdr_data_len h) \<le> 1024 * 1024 \<and>
           hdr_data_len h = of_nat (measure_body k c) \<and>
           bs = take (header_len k + unat (hdr_data_len h)) bs @ rest \<and>
           length bs = header_len k + unat (hdr_data_len h) + length rest"
proof -
  obtain h r0 where h: "read_tunnel_command_header k bs = Inr (h, r0)"
    and d: "decode_from_wire_header_bounded k h (command_id_as_u8 IdOpenDataConnResp) r0 = Inr (c, rest)"
    using assms by (auto simp: read_from_wire_def read_from_wire_bounded_def split: sum.splits)
  have r0: "dec_header k (take (header_len k) bs) = Some h" "r0 = drop (header_len k) bs"
    "header_len k \<le> length bs"
    using h by (auto simp: read_tunnel_command_header_def read_exact_def split: if_splits option.splits)
  obtain i where v: "validate_header_len h = Inr ()" and b: "read_tunnel_command_body k i h r0 = Inr (c, rest)"
    using d by (auto simp: decode_from_wire_header_bounded_def decode_tunnel_command_body_def
        split: sum.splits if_splits option.splits)
  from v have len: "hdr_data_len h \<noteq> 0" "hdr_data_len h \<le> MAX_TCP_TUNNEL_COMMAND_BODY_LEN"
    by (auto simp: validate_header_len_def split: if_splits)
  have n: "1 \<le> unat (hdr_data_len h)" "unat (hdr_data_len h) \<le> 1048576"
    using len by (auto simp: MAX_TCP_TUNNEL_COMMAND_BODY_LEN_def word_le_nat_alt unat_gt_0 Suc_le_eq)
  from b have "rest = drop (unat (hdr_data_len h)) r0" "unat (hdr_data_len h) \<le> length r0"
    "command_validate k h c = Inr ()"
    by (auto simp: read_tunnel_command_body_def read_exact_def split: if_splits option.splits sum.splits)
  with r0 n show ?thesis
    by (auto simp: command_validate_def TUNNEL_COMMAND_VERSION_def add.commute split: if_splits)
qed

theorem tcp_read_accepts_wellformed_witness:
  "\<exists>h. dec_header sample_codec (take 3 [1, 11, 3, 1, 5, 6, 9]) = Some h \<and> unat (hdr_data_len h) = 3 \<and>
     length [1, 11, 3, 1, 5, 6, 9 :: u8] = 3 + unat (hdr_data_len h) + length [9 :: u8]"
proof -
  have "read_from_wire sample_codec [1, 11, 3, 1, 5, 6, 9] = Inr (CmdData [5, 6], [9])"
    by (simp add: read_from_wire_def read_from_wire_bounded_def read_tunnel_command_header_def read_exact_def
        decode_from_wire_header_bounded_def decode_tunnel_command_body_def read_tunnel_command_body_def
        validate_header_len_def MAX_TCP_TUNNEL_COMMAND_BODY_LEN_def command_validate_def
        TUNNEL_COMMAND_VERSION_def command_id_from_u8_def tcp_command_ids_def
        sample_codec_def)
  from tcp_read_accepts_wellformed [OF this] show ?thesis
    by (auto simp: sample_codec_def)
qed

end
