(* ===== verification/TcpLease.thy ===== *)
theory TcpLease
  imports TcpProtocol
begin

text \<open>
  The lease of a data connection of a TCP tunnel (\<open>LeaseContext\<close> of
  \<open>networks/tcp/tunnel.rs\<close>). A data connection carries one channel after the other; the lease
  is the state of the connection while a channel uses it. Before the connection goes back to the
  pool, both ends exchange how many bytes they wrote (\<open>WriteFin\<close>) and confirm that they have
  read them all (\<open>ReadDone\<close>); a lease that cannot be drained is retired with its connection.

  Every operation is a function on the lease that returns the lease and the list of effects the code
  has outside of it, in order: the data connection entry and the tunnel act on them in the theory
  \<open>TcpTunnel\<close>. The critical section under the lease's lock is one function. A socket is the
  number of the connection it belongs to.

  The second half puts the leases of the two ends of a connection together with the bytes and
  commands that are on their way between them.
\<close>

section \<open>Definitions\<close>

type_synonym sock = nat

record lease_context =
  l_entry :: nat
  l_conn_id :: tcp_conn_id
  l_lease_seq :: tcp_lease_seq
  l_channel_id :: tcp_channel_id
  l_kind :: tcp_channel_kind
  l_purpose :: tunnel_purpose
  local_initiator :: bool
  l_read :: "sock option"
  l_write :: "sock option"
  tx_bytes :: u64
  rx_bytes :: u64
  peer_final_tx_bytes :: "u64 option"
  pending_peer_read_done :: "u64 option"
  local_write_fin_sent :: bool
  peer_write_fin_received :: bool
  local_read_done_sent :: bool
  peer_read_done_received :: bool
  read_released :: bool
  write_released :: bool
  l_retired :: bool
  l_no_reuse :: bool
  hidden_zero_read :: bool
  last_drain_progress_at :: "instant option"

text \<open>What a lease asks of its surroundings: \<open>RetireEntry\<close> and \<open>CloseEntry\<close> take the
  connection out of the tunnel, \<open>ToIdle\<close> puts the joined stream back and the connection into the
  pool, \<open>SendCmd\<close>, \<open>ArmDrainTimeout\<close>, \<open>SpawnHiddenRead\<close> and \<open>ScheduleFinalize\<close> are the
  tasks the code spawns.\<close>

datatype lease_effect =
    MarkDraining | SendCmd tcp_control_cmd | RetireEntry p2p_error_code | CloseEntry | ToIdle sock
  | ArmDrainTimeout instant | SpawnHiddenRead | ScheduleFinalize

type_synonym lease_op = "lease_context \<Rightarrow> lease_context \<times> lease_effect list"

definition and_then :: "lease_op \<Rightarrow> lease_op \<Rightarrow> lease_op" where
  "and_then f g l = (let (l1, e1) = f l; (l2, e2) = g l1 in (l2, e1 @ e2))"

definition tunnel_id_lt :: "tunnel_id \<Rightarrow> tunnel_id \<Rightarrow> bool" where
  "tunnel_id_lt a b = (tunnel_id_partial_cmp a b = Some Less)"

subsection \<open>Conditions\<close>

definition can_send_read_done :: "lease_context \<Rightarrow> bool" where
  "can_send_read_done l \<longleftrightarrow>
     peer_write_fin_received l \<and> peer_final_tx_bytes l = Some (rx_bytes l) \<and> \<not> local_read_done_sent l"

definition ready_for_idle :: "lease_context \<Rightarrow> bool" where
  "ready_for_idle l \<longleftrightarrow>
     local_write_fin_sent l \<and> peer_write_fin_received l \<and> local_read_done_sent l \<and>
     peer_read_done_received l \<and> read_released l \<and> write_released l \<and> \<not> l_retired l \<and> \<not> l_no_reuse l"

definition ready_for_close :: "lease_context \<Rightarrow> bool" where
  "ready_for_close l \<longleftrightarrow> read_released l \<and> write_released l \<and> (l_retired l \<or> l_no_reuse l)"

definition drain_timeout_active :: "lease_context \<Rightarrow> bool" where
  "drain_timeout_active l =
     (case peer_final_tx_bytes l of
        Some peer_final \<Rightarrow> peer_write_fin_received l \<and> rx_bytes l < peer_final | None \<Rightarrow> False)"

subsection \<open>Retiring, finishing, draining\<close>

definition retire_lease_arc :: "p2p_error_code \<Rightarrow> lease_op" where
  "retire_lease_arc reason l =
     (if l_retired l then (l, [])
      else (l\<lparr>l_retired := True, l_read := None, l_write := None\<rparr>, [RetireEntry reason]))"

definition maybe_finalize_lease :: lease_op where
  "maybe_finalize_lease l =
     (if ready_for_idle l
      then (case (l_read l, l_write l) of
              (Some r, Some w) \<Rightarrow> (l\<lparr>l_read := None, l_write := None\<rparr>, [ToIdle r])
            | _ \<Rightarrow> (l, []))
      else if ready_for_close l
      then (l\<lparr>l_retired := True, l_read := None, l_write := None\<rparr>, [CloseEntry])
      else (l, []))"

definition note_drain_progress :: "instant \<Rightarrow> lease_op" where
  "note_drain_progress now l =
     (if drain_timeout_active l then (l\<lparr>last_drain_progress_at := Some now\<rparr>, [ArmDrainTimeout now])
      else (l\<lparr>last_drain_progress_at := None\<rparr>, []))"

text \<open>The task of \<open>note_drain_progress\<close>, after its sleep.\<close>

definition drain_timeout_fires :: "instant \<Rightarrow> lease_op" where
  "drain_timeout_fires observed_at l =
     (if last_drain_progress_at l = Some observed_at \<and> drain_timeout_active l \<and> \<not> l_retired l
      then retire_lease_arc Interrupted l else (l, []))"

definition spawn_send_write_fin :: lease_op where
  "spawn_send_write_fin l =
     (if local_write_fin_sent l \<or> l_retired l then (l, [])
      else
        let l1 = l\<lparr>local_write_fin_sent := True\<rparr>;
            (l2, should_retire) = (case pending_peer_read_done l1 of
                Some v \<Rightarrow> (if v = tx_bytes l1
                           then (l1\<lparr>pending_peer_read_done := None, peer_read_done_received := True\<rparr>, False)
                           else (l1\<lparr>pending_peer_read_done := None\<rparr>, True))
              | None \<Rightarrow> (l1, False))
        in if should_retire
           then and_then (\<lambda>l. (l, [MarkDraining])) (retire_lease_arc Interrupted) l2
           else (l2, [MarkDraining, SendCmd (CmdWriteFin \<lparr>fin_channel_id = l_channel_id l2,
                  fin_conn_id = l_conn_id l2, fin_lease_seq = l_lease_seq l2,
                  fin_final_tx_bytes = tx_bytes l2\<rparr>)]))"

definition spawn_send_read_done :: lease_op where
  "spawn_send_read_done l =
     (if \<not> can_send_read_done l \<or> l_retired l then (l, [])
      else (l\<lparr>local_read_done_sent := True\<rparr>,
            [MarkDraining, SendCmd (CmdReadDone \<lparr>done_channel_id = l_channel_id l,
               done_conn_id = l_conn_id l, done_lease_seq = l_lease_seq l,
               done_final_rx_bytes = rx_bytes l\<rparr>)]))"

text \<open>The end of a send task: the command was written, or the control connection failed.\<close>

definition send_finished :: "bool \<Rightarrow> lease_op" where
  "send_finished sent_ok = (if sent_ok then maybe_finalize_lease else retire_lease_arc Interrupted)"

subsection \<open>The channel halves\<close>

definition after_read :: "nat \<Rightarrow> bool \<Rightarrow> instant \<Rightarrow> lease_op" where
  "after_read read_len eof now l =
     (if l_retired l then (l, [])
      else if read_len > 0 then
        let l1 = l\<lparr>rx_bytes := rx_bytes l + of_nat read_len\<rparr>
        in if hidden_zero_read l1 then retire_lease_arc Interrupted l1
           else (case peer_final_tx_bytes l1 of
               None \<Rightarrow> (l1, [])
             | Some peer_final \<Rightarrow>
                 if rx_bytes l1 > peer_final then retire_lease_arc Interrupted l1
                 else if can_send_read_done l1 then spawn_send_read_done l1
                 else if peer_write_fin_received l1 \<and> rx_bytes l1 < peer_final
                 then note_drain_progress now l1 else (l1, []))
      else if eof then retire_lease_arc Interrupted l else (l, []))"

text \<open>\<open>poll_write\<close> that wrote \<open>n\<close> bytes, and a read or write that failed.\<close>

definition after_write :: "nat \<Rightarrow> lease_op" where
  "after_write n l = (l\<lparr>tx_bytes := tx_bytes l + of_nat n\<rparr>, [])"

definition io_failed :: lease_op where
  "io_failed = retire_lease_arc IoError"

definition release_read_half :: lease_op where
  "release_read_half l =
     (if read_released l then (l, [])
      else
        let l1 = l\<lparr>read_released := True\<rparr>
        in and_then
             (\<lambda>l1. if peer_write_fin_received l1
                   then if peer_final_tx_bytes l1 = Some (rx_bytes l1)
                        then if can_send_read_done l1 then spawn_send_read_done l1 else (l1, [])
                        else retire_lease_arc Interrupted l1
                   else (l1, []))
             maybe_finalize_lease l1)"

definition release_write_half :: lease_op where
  "release_write_half l =
     (if write_released l then (l, [])
      else
        let l1 = l\<lparr>write_released := True\<rparr>
        in and_then (\<lambda>l1. if \<not> local_write_fin_sent l1 then spawn_send_write_fin l1 else (l1, []))
             maybe_finalize_lease l1)"

subsection \<open>The observer of a write-only channel\<close>

text \<open>One round of \<open>spawn_hidden_zero_read_observer\<close>: it takes the read half out of the lease,
  waits up to 100 ms for a read, and puts it back. The last component says that the loop goes on.\<close>

datatype observed = ObsRead nat | ObsError | ObsTimeout

definition hidden_take :: "lease_context \<Rightarrow> lease_context \<times> lease_effect list \<times> sock option" where
  "hidden_take l =
     (if l_retired l then (let (l', e) = maybe_finalize_lease l in (l', e, None))
      else (l\<lparr>l_read := None\<rparr>, [], l_read l))"

definition observed_op :: "observed \<Rightarrow> instant \<Rightarrow> lease_context \<Rightarrow> lease_op \<times> bool" where
  "observed_op obs now l =
     (if ready_for_idle l \<or> ready_for_close l then (maybe_finalize_lease, False)
      else if (case obs of ObsTimeout \<Rightarrow> False | _ \<Rightarrow> True) \<or>
              (case peer_final_tx_bytes l of Some pf \<Rightarrow> rx_bytes l > pf | None \<Rightarrow> False)
      then (retire_lease_arc Interrupted, False)
      else if can_send_read_done l then (and_then spawn_send_read_done maybe_finalize_lease, False)
      else if drain_timeout_active l then (note_drain_progress now, True)
      else (\<lambda>l. (l, []), True))"

definition hidden_observed ::
    "sock \<Rightarrow> observed \<Rightarrow> instant \<Rightarrow> lease_context \<Rightarrow> lease_context \<times> lease_effect list \<times> bool" where
  "hidden_observed r obs now l =
     (let l1 = l\<lparr>l_read := Some r\<rparr>
      in if l_retired l1 then (let (l', e) = maybe_finalize_lease l1 in (l', e, False))
         else
           let n = (case obs of ObsRead n \<Rightarrow> n | _ \<Rightarrow> 0);
               l2 = l1\<lparr>rx_bytes := rx_bytes l1 + of_nat n\<rparr>;
               (f, go_on) = observed_op obs now l2;
               (l', e) = f l2
           in (l', e, go_on))"

subsection \<open>The peer's commands\<close>

text \<open>The part of \<open>handle_write_fin\<close> and \<open>handle_read_done\<close> that follows when the connection
  is bound to this lease.\<close>

definition write_fin_followup :: "bool \<Rightarrow> bool \<Rightarrow> bool \<Rightarrow> instant \<Rightarrow> lease_op" where
  "write_fin_followup retire send refresh now =
     and_then (\<lambda>l. (l, [MarkDraining]))
       (and_then
         (\<lambda>l. if retire then retire_lease_arc Interrupted l
              else if send then spawn_send_read_done l
              else if refresh then note_drain_progress now l else (l, []))
         maybe_finalize_lease)"

definition lease_write_fin :: "write_fin \<Rightarrow> instant \<Rightarrow> lease_op" where
  "lease_write_fin fin now l =
     (if l_lease_seq l \<noteq> fin_lease_seq fin \<and> tunnel_id_lt (fin_lease_seq fin) (l_lease_seq l) then (l, [])
      else
        let (l1, retire, send, refresh) =
          (if l_lease_seq l \<noteq> fin_lease_seq fin then (l, True, False, False)
           else if l_channel_id l \<noteq> fin_channel_id fin then (l, True, False, False)
           else if peer_write_fin_received l
           then (l, peer_final_tx_bytes l \<noteq> Some (fin_final_tx_bytes fin), False, False)
           else
             let l1 = l\<lparr>peer_write_fin_received := True, peer_final_tx_bytes := Some (fin_final_tx_bytes fin)\<rparr>;
                 hidden_bad = (hidden_zero_read l \<and> fin_final_tx_bytes fin \<noteq> 0)
             in if read_released l1 \<and> rx_bytes l1 \<noteq> fin_final_tx_bytes fin then (l1, True, False, False)
                else if can_send_read_done l1 then (l1, hidden_bad, True, False)
                else (l1, hidden_bad, False, rx_bytes l1 < fin_final_tx_bytes fin))
        in write_fin_followup retire send refresh now l1)"

definition lease_read_done :: "read_done \<Rightarrow> lease_op" where
  "lease_read_done d l =
     (if l_lease_seq l \<noteq> done_lease_seq d
      then if tunnel_id_lt (done_lease_seq d) (l_lease_seq l) then (l, [])
           else retire_lease_arc Interrupted l
      else if l_channel_id l \<noteq> done_channel_id d then retire_lease_arc Interrupted l
      else if \<not> local_write_fin_sent l
      then (case pending_peer_read_done l of
              Some v \<Rightarrow> if v \<noteq> done_final_rx_bytes d then retire_lease_arc Interrupted l else (l, [])
            | None \<Rightarrow> (l\<lparr>pending_peer_read_done := Some (done_final_rx_bytes d)\<rparr>, [MarkDraining]))
      else if done_final_rx_bytes d \<noteq> tx_bytes l then retire_lease_arc Interrupted l
      else and_then maybe_finalize_lease (\<lambda>l. (l, [ScheduleFinalize]))
             (l\<lparr>peer_read_done_received := True\<rparr>))"

subsection \<open>Binding\<close>

definition lease_new ::
    "nat \<Rightarrow> tcp_conn_id \<Rightarrow> tcp_channel_id \<Rightarrow> tcp_lease_seq \<Rightarrow> tcp_channel_kind \<Rightarrow> tunnel_purpose \<Rightarrow>
     bool \<Rightarrow> sock \<Rightarrow> lease_context" where
  "lease_new entry conn channel seq kind purpose initiator stream =
     \<lparr>l_entry = entry, l_conn_id = conn, l_lease_seq = seq, l_channel_id = channel, l_kind = kind,
      l_purpose = purpose, local_initiator = initiator, l_read = Some stream, l_write = Some stream,
      tx_bytes = 0, rx_bytes = 0, peer_final_tx_bytes = None, pending_peer_read_done = None,
      local_write_fin_sent = False, peer_write_fin_received = False, local_read_done_sent = False,
      peer_read_done_received = False,
      read_released = (kind = KindDatagram \<and> initiator),
      write_released = (kind = KindDatagram \<and> \<not> initiator),
      l_retired = False, l_no_reuse = False,
      hidden_zero_read = (kind = KindDatagram \<and> initiator), last_drain_progress_at = None\<rparr>"

text \<open>A \<open>WriteFin\<close> that arrived before the lease was bound; the flags are \<open>retire\<close> and
  \<open>send_read_done\<close> so far.\<close>

definition absorb_write_fin ::
    "u64 \<Rightarrow> lease_context \<times> bool \<times> bool \<Rightarrow> lease_context \<times> bool \<times> bool" where
  "absorb_write_fin final x =
     (let (l, retire, send) = x;
          retire1 = (retire \<or> (hidden_zero_read l \<and> final \<noteq> 0));
          l1 = l\<lparr>peer_write_fin_received := True, peer_final_tx_bytes := Some final\<rparr>
      in if read_released l1 \<and> rx_bytes l1 \<noteq> final then (l1, True, send)
         else (l1, retire1, send \<or> can_send_read_done l1))"

text \<open>\<open>bind_entry_to_lease\<close> from the point where the entry is \<open>Bound\<close>: the facts that were
  waiting on the entry, then those in the tunnel's \<open>pending_drains\<close>.\<close>

definition bind_facts ::
    "tcp_lease_seq \<Rightarrow> tcp_channel_id \<Rightarrow> write_fin option \<Rightarrow> read_done option \<Rightarrow>
     (write_fin option \<times> read_done option) option \<Rightarrow> lease_context \<Rightarrow> lease_context \<times> bool \<times> bool" where
  "bind_facts seq channel pfin pdone drain l =
     (let x1 = (case pfin of
           None \<Rightarrow> (l, False, False)
         | Some fin \<Rightarrow> if fin_lease_seq fin = seq \<and> fin_channel_id fin = channel
                       then absorb_write_fin (fin_final_tx_bytes fin) (l, False, False)
                       else (l, True, False));
          x2 = (case pdone of
           None \<Rightarrow> x1
         | Some d \<Rightarrow> (let (l1, retire, send) = x1
                     in if done_lease_seq d = seq \<and> done_channel_id d = channel
                        then (l1\<lparr>pending_peer_read_done := Some (done_final_rx_bytes d)\<rparr>, retire, send)
                        else (l1, True, send)));
          x3 = (case drain of
           Some (Some fin, _) \<Rightarrow>
             if fin_channel_id fin \<noteq> channel then (let (l1, retire, send) = x2 in (l1, True, send))
             else absorb_write_fin (fin_final_tx_bytes fin) x2
         | _ \<Rightarrow> x2)
      in case drain of
           Some (_, Some d) \<Rightarrow>
             (let (l1, retire, send) = x3
              in if done_channel_id d \<noteq> channel then (l1, True, send)
                 else (l1\<lparr>pending_peer_read_done := Some (done_final_rx_bytes d)\<rparr>, retire, send))
         | _ \<Rightarrow> x3)"

definition bind_lease ::
    "tcp_lease_seq \<Rightarrow> tcp_channel_id \<Rightarrow> write_fin option \<Rightarrow> read_done option \<Rightarrow>
     (write_fin option \<times> read_done option) option \<Rightarrow> instant \<Rightarrow> lease_op" where
  "bind_lease seq channel pfin pdone drain now l =
     (let (l1, retire, send) = bind_facts seq channel pfin pdone drain l;
          facts = (pfin \<noteq> None \<or> pdone \<noteq> None \<or>
                   (case drain of Some (f, d) \<Rightarrow> f \<noteq> None \<or> d \<noteq> None | None \<Rightarrow> False))
      in and_then (\<lambda>l. (l, (if facts then [MarkDraining] else []) @
                           (if hidden_zero_read l then [SpawnHiddenRead] else [])))
           (and_then (\<lambda>l. if l_kind l = KindDatagram \<and> \<not> local_initiator l then spawn_send_write_fin l else (l, []))
             (and_then (\<lambda>l. if retire then retire_lease_arc Interrupted l
                            else if send then spawn_send_read_done l else (l, []))
               (note_drain_progress now))) l1)"

section \<open>The two ends of a connection\<close>

text \<open>The leases of both ends, the bytes on their way in each direction and the commands the send
  tasks have still to write or the peer has still to read. Send tasks run independently of each
  other, so a command may be overtaken; the network delivers whatever it delivers, or nothing.\<close>

record drain_world =
  end_a :: lease_context
  end_b :: lease_context
  flow_ab :: nat
  flow_ba :: nat
  cmds_ab :: "tcp_control_cmd list"
  cmds_ba :: "tcp_control_cmd list"
  held_a :: "sock option"
  held_b :: "sock option"

definition sends :: "lease_effect list \<Rightarrow> tcp_control_cmd list" where
  "sends es = [c. SendCmd c \<leftarrow> es]"

text \<open>What one end can do of its own accord. A half that was released is gone, and with it the
  calls on it; a channel opened only to write has an observer in place of its reader.\<close>

datatype lease_action =
    DoWrite nat | DoRead nat | DoObserve nat | DoEof | DoIoFail | DropRead | DropWrite | SendDone bool
  | Tick instant | CloseTunnel

definition flip_world :: "drain_world \<Rightarrow> drain_world" where
  "flip_world w = \<lparr>end_a = end_b w, end_b = end_a w, flow_ab = flow_ba w, flow_ba = flow_ab w,
     cmds_ab = cmds_ba w, cmds_ba = cmds_ab w, held_a = held_b w, held_b = held_a w\<rparr>"

text \<open>An operation of end A, and the arrival at end A of a command from B.\<close>

definition apply_a :: "lease_op \<Rightarrow> drain_world \<Rightarrow> drain_world" where
  "apply_a f w = (let (l, es) = f (end_a w) in w\<lparr>end_a := l, cmds_ab := cmds_ab w @ sends es\<rparr>)"

definition receive_cmd :: "tcp_control_cmd \<Rightarrow> instant \<Rightarrow> lease_op" where
  "receive_cmd c now l =
     (if l_retired l then (l, [])
      else (case c of CmdWriteFin fin \<Rightarrow> lease_write_fin fin now l
            | CmdReadDone d \<Rightarrow> lease_read_done d l | _ \<Rightarrow> (l, [])))"

text \<open>A half that was released is gone, and with it the calls on it; a channel opened only to write
  has an observer in place of its reader, which holds the read half while it reads. Retiring a lease
  takes its halves, so polls on them fail.\<close>

inductive act_a :: "drain_world \<Rightarrow> drain_world \<Rightarrow> bool" where
  wrote: "\<not> write_released (end_a w) \<Longrightarrow> l_write (end_a w) \<noteq> None \<Longrightarrow> flow_ab w + n < 2 ^ 64 \<Longrightarrow>
    act_a w (apply_a (after_write n) (w\<lparr>flow_ab := flow_ab w + n\<rparr>))"
| got: "\<not> read_released (end_a w) \<Longrightarrow> l_read (end_a w) \<noteq> None \<Longrightarrow> \<not> l_retired (end_a w) \<Longrightarrow> 0 < n \<Longrightarrow> n \<le> flow_ba w \<Longrightarrow>
    act_a w (apply_a (after_read n False now) (w\<lparr>flow_ba := flow_ba w - n\<rparr>))"
| eof: "act_a w (apply_a (after_read 0 True now) w)"
| observe: "hidden_zero_read (end_a w) \<Longrightarrow> held_a w = None \<Longrightarrow> hidden_take (end_a w) = (l, es, r) \<Longrightarrow>
    act_a w (w\<lparr>end_a := l, cmds_ab := cmds_ab w @ sends es, held_a := r\<rparr>)"
| observed: "held_a w = Some r \<Longrightarrow> hidden_observed r obs now (end_a w) = (l, es, go_on) \<Longrightarrow>
    n = (case obs of ObsRead m \<Rightarrow> m | _ \<Rightarrow> 0) \<Longrightarrow> n \<le> flow_ba w \<Longrightarrow> \<not> l_retired (end_a w) \<Longrightarrow>
    act_a w (w\<lparr>end_a := l, flow_ba := flow_ba w - n, cmds_ab := cmds_ab w @ sends es, held_a := None\<rparr>)"
| observed_retired: "held_a w = Some r \<Longrightarrow> hidden_observed r obs now (end_a w) = (l, es, go_on) \<Longrightarrow>
    l_retired (end_a w) \<Longrightarrow> act_a w (w\<lparr>end_a := l, cmds_ab := cmds_ab w @ sends es, held_a := None\<rparr>)"
| io_fail: "act_a w (apply_a io_failed w)"
| drop_read: "act_a w (apply_a release_read_half w)"
| drop_write: "act_a w (apply_a release_write_half w)"
| send_done: "act_a w (apply_a (send_finished ok) w)"
| drain_timeout: "act_a w (apply_a (drain_timeout_fires t) w)"
| finalize_check: "act_a w (apply_a maybe_finalize_lease w)"
| no_reuse: "act_a w (apply_a (\<lambda>l. (l\<lparr>l_no_reuse := True\<rparr>, [])) w)"
| receive: "c \<in> set (cmds_ba w) \<Longrightarrow>
    act_a w (apply_a (receive_cmd c now) (w\<lparr>cmds_ba := remove1 c (cmds_ba w)\<rparr>))"
| lose: "c \<in> set (cmds_ab w) \<Longrightarrow> act_a w (w\<lparr>cmds_ab := remove1 c (cmds_ab w)\<rparr>)"

text \<open>A connection starts with both ends bound to the same channel, on a connection with nothing on
  its way, and either end acts.\<close>

definition drain_start ::
    "tcp_conn_id \<Rightarrow> tcp_channel_id \<Rightarrow> tcp_lease_seq \<Rightarrow> tcp_channel_kind \<Rightarrow> tunnel_purpose \<Rightarrow> drain_world" where
  "drain_start conn channel seq kind purpose =
     (let (a, ea) = bind_lease seq channel None None None 0 (lease_new 0 conn channel seq kind purpose True 0);
          (b, eb) = bind_lease seq channel None None None 0 (lease_new 0 conn channel seq kind purpose False 0)
      in \<lparr>end_a = a, end_b = b, flow_ab = 0, flow_ba = 0, cmds_ab = sends ea, cmds_ba = sends eb,
          held_a = None, held_b = None\<rparr>)"

inductive drain_reach :: "drain_world \<Rightarrow> bool" where
  start: "drain_reach (drain_start conn channel seq kind purpose)"
| act_a: "drain_reach w \<Longrightarrow> act_a w w' \<Longrightarrow> drain_reach w'"
| act_b: "drain_reach w \<Longrightarrow> act_a (flip_world w) w' \<Longrightarrow> drain_reach (flip_world w')"

section \<open>What a lease does to the accounts\<close>

text \<open>The fields that count bytes and record the exchange of \<open>WriteFin\<close> and \<open>ReadDone\<close>.\<close>

definition flow_eq :: "lease_context \<Rightarrow> lease_context \<Rightarrow> bool" where
  "flow_eq l m \<longleftrightarrow>
     tx_bytes m = tx_bytes l \<and> rx_bytes m = rx_bytes l \<and>
     local_write_fin_sent m = local_write_fin_sent l \<and>
     peer_write_fin_received m = peer_write_fin_received l \<and>
     peer_final_tx_bytes m = peer_final_tx_bytes l \<and>
     pending_peer_read_done m = pending_peer_read_done l \<and>
     local_read_done_sent m = local_read_done_sent l \<and>
     peer_read_done_received m = peer_read_done_received l \<and> write_released m = write_released l \<and>
     l_conn_id m = l_conn_id l \<and> l_lease_seq m = l_lease_seq l \<and> l_channel_id m = l_channel_id l"

definition fin_of :: "lease_context \<Rightarrow> write_fin" where
  "fin_of l = \<lparr>fin_channel_id = l_channel_id l, fin_conn_id = l_conn_id l, fin_lease_seq = l_lease_seq l,
     fin_final_tx_bytes = tx_bytes l\<rparr>"

definition done_of :: "lease_context \<Rightarrow> read_done" where
  "done_of l = \<lparr>done_channel_id = l_channel_id l, done_conn_id = l_conn_id l,
     done_lease_seq = l_lease_seq l, done_final_rx_bytes = rx_bytes l\<rparr>"

inductive moves :: "lease_context \<Rightarrow> lease_context \<Rightarrow> tcp_control_cmd list \<Rightarrow> bool" where
  quiet: "flow_eq l m \<Longrightarrow> moves l m []"
| fins: "moves l m cs \<Longrightarrow> \<not> local_write_fin_sent m \<Longrightarrow> write_released m \<Longrightarrow>
    flow_eq (m\<lparr>local_write_fin_sent := True\<rparr>) m' \<Longrightarrow> moves l m' (cs @ [CmdWriteFin (fin_of m)])"
| dones: "moves l m cs \<Longrightarrow> can_send_read_done m \<Longrightarrow>
    flow_eq (m\<lparr>local_read_done_sent := True\<rparr>) m' \<Longrightarrow> moves l m' (cs @ [CmdReadDone (done_of m)])"
| releases: "moves l m cs \<Longrightarrow> flow_eq (m\<lparr>write_released := True\<rparr>) m' \<Longrightarrow> moves l m' cs"

lemma flow_eq_refl [simp]: "flow_eq l l"
  by (simp add: flow_eq_def)

lemma flow_eq_trans: "flow_eq l m \<Longrightarrow> flow_eq m n \<Longrightarrow> flow_eq l n"
  by (simp add: flow_eq_def)

lemma moves_quiet: "moves l m cs \<Longrightarrow> flow_eq m n \<Longrightarrow> moves l n cs"
  by (induction rule: moves.induct) (auto intro: moves.intros flow_eq_trans)

lemma moves_trans: "moves m n ds \<Longrightarrow> moves l m cs \<Longrightarrow> moves l n (cs @ ds)"
proof (induction rule: moves.induct)
  case (quiet m n)
  then show ?case by (simp add: moves_quiet)
next
  case (fins m n ds n')
  then show ?case using moves.fins [of l n "cs @ ds" n'] by simp
next
  case (dones m n ds n')
  then show ?case using moves.dones [of l n "cs @ ds" n'] by simp
next
  case (releases m n ds n')
  then show ?case using moves.releases [of l n "cs @ ds" n'] by simp
qed

lemma sends_simps [simp]:
  "sends [] = []" "sends (e # es) = (case e of SendCmd c \<Rightarrow> [c] | _ \<Rightarrow> []) @ sends es"
  "sends (es @ fs) = sends es @ sends fs"
  by (auto simp: sends_def split: lease_effect.splits)

text \<open>An operation that only makes such moves.\<close>

definition makes_moves :: "lease_op \<Rightarrow> lease_context \<Rightarrow> bool" where
  "makes_moves f l \<longleftrightarrow> moves l (fst (f l)) (sends (snd (f l)))"

lemma makes_moves_and_then:
  "makes_moves f l \<Longrightarrow> makes_moves g (fst (f l)) \<Longrightarrow> makes_moves (and_then f g) l"
  by (auto simp: makes_moves_def and_then_def split: prod.splits intro: moves_trans)

lemma moves_pending: "moves l m cs \<Longrightarrow> pending_peer_read_done m = pending_peer_read_done l"
  by (induction rule: moves.induct) (auto simp: flow_eq_def)

lemma retire_moves [intro]: "makes_moves (retire_lease_arc e) l"
  by (auto simp: makes_moves_def retire_lease_arc_def flow_eq_def intro: moves.quiet)

lemma finalize_moves [intro]: "makes_moves maybe_finalize_lease l"
  by (auto simp: makes_moves_def maybe_finalize_lease_def flow_eq_def intro!: moves.quiet split: option.splits)

lemma progress_moves [intro]: "makes_moves (note_drain_progress now) l"
  by (auto simp: makes_moves_def note_drain_progress_def flow_eq_def intro: moves.quiet)

lemma timeout_moves [intro]: "makes_moves (drain_timeout_fires t) l"
  using retire_moves [of Interrupted l]
  by (auto simp: makes_moves_def drain_timeout_fires_def intro: moves.quiet)

lemma send_fin_moves:
  assumes "write_released l" and "pending_peer_read_done l = None"
  shows "makes_moves spawn_send_write_fin l"
proof (cases "local_write_fin_sent l \<or> l_retired l")
  case False
  have "moves l (l\<lparr>local_write_fin_sent := True\<rparr>) ([] @ [CmdWriteFin (fin_of l)])"
    using False assms(1) by (intro moves.fins moves.quiet) auto
  with False assms show ?thesis
    by (simp add: makes_moves_def spawn_send_write_fin_def Let_def fin_of_def)
qed (auto simp: makes_moves_def spawn_send_write_fin_def intro: moves.quiet)

lemma send_done_moves [intro]: "makes_moves spawn_send_read_done l"
proof (cases "can_send_read_done l \<and> \<not> l_retired l")
  case True
  then have "moves l (l\<lparr>local_read_done_sent := True\<rparr>) ([] @ [CmdReadDone (done_of l)])"
    by (intro moves.dones moves.quiet) auto
  with True show ?thesis by (simp add: makes_moves_def spawn_send_read_done_def done_of_def)
qed (auto simp: makes_moves_def spawn_send_read_done_def intro: moves.quiet)

lemma makes_moves_skip [intro]: "makes_moves (\<lambda>l. (l, [])) l" "makes_moves (\<lambda>l. (l, [MarkDraining])) l"
  by (auto simp: makes_moves_def intro: moves.quiet)

lemma makes_moves_if:
  "(P l \<Longrightarrow> makes_moves f l) \<Longrightarrow> (\<not> P l \<Longrightarrow> makes_moves g l) \<Longrightarrow>
   makes_moves (\<lambda>l. if P l then f l else g l) l"
  by (simp add: makes_moves_def)

lemma send_finished_moves: "makes_moves (send_finished ok) l"
  by (auto simp: send_finished_def)

lemma release_read_moves: "makes_moves release_read_half l"
proof (cases "read_released l")
  case False
  let ?l1 = "l\<lparr>read_released := True\<rparr>"
  have "moves l ?l1 []" by (intro moves.quiet) (simp add: flow_eq_def)
  moreover have "makes_moves (and_then
             (\<lambda>l1. if peer_write_fin_received l1
                   then if peer_final_tx_bytes l1 = Some (rx_bytes l1)
                        then if can_send_read_done l1 then spawn_send_read_done l1 else (l1, [])
                        else retire_lease_arc Interrupted l1
                   else (l1, [])) maybe_finalize_lease) ?l1"
    by (intro makes_moves_and_then makes_moves_if makes_moves_skip send_done_moves retire_moves finalize_moves)
  ultimately show ?thesis
    using False moves_trans by (fastforce simp: makes_moves_def release_read_half_def)
qed (auto simp: makes_moves_def release_read_half_def intro: moves.quiet)

lemma release_write_moves:
  assumes "pending_peer_read_done l = None"
  shows "makes_moves release_write_half l"
proof (cases "write_released l")
  case False
  let ?l1 = "l\<lparr>write_released := True\<rparr>"
  have "moves l ?l1 []" by (rule moves.releases [OF moves.quiet [OF flow_eq_refl] flow_eq_refl])
  moreover have "makes_moves (and_then (\<lambda>l1. if \<not> local_write_fin_sent l1 then spawn_send_write_fin l1
       else (l1, [])) maybe_finalize_lease) ?l1"
    using assms by (intro makes_moves_and_then makes_moves_if makes_moves_skip send_fin_moves finalize_moves) auto
  ultimately show ?thesis
    using False moves_trans by (fastforce simp: makes_moves_def release_write_half_def)
qed (auto simp: makes_moves_def release_write_half_def intro: moves.quiet)

section \<open>The accounts of both ends agree\<close>

fun fin_ok :: "lease_context \<Rightarrow> tcp_control_cmd \<Rightarrow> bool" where
  "fin_ok x (CmdWriteFin fin) = (local_write_fin_sent x \<and> fin = fin_of x)"
| "fin_ok x _ = True"

fun done_ok :: "lease_context \<Rightarrow> tcp_control_cmd \<Rightarrow> bool" where
  "done_ok y (CmdReadDone d) = (local_read_done_sent y \<and> d = done_of y)"
| "done_ok y _ = True"

text \<open>One direction: \<open>x\<close> writes, \<open>y\<close> reads, \<open>f\<close> bytes are on their way, \<open>cs\<close> and
  \<open>ds\<close> are the commands on their way from \<open>x\<close> and to \<open>x\<close>.\<close>

definition dir_inv ::
    "lease_context \<Rightarrow> lease_context \<Rightarrow> nat \<Rightarrow> tcp_control_cmd list \<Rightarrow> tcp_control_cmd list \<Rightarrow> bool" where
  "dir_inv x y f cs ds \<longleftrightarrow>
     rx_bytes y + of_nat f = tx_bytes x \<and> f < 2 ^ 64 \<and>
     (local_write_fin_sent x \<longrightarrow> write_released x) \<and>
     list_all (fin_ok x) cs \<and>
     (peer_write_fin_received y \<longrightarrow> local_write_fin_sent x \<and> peer_final_tx_bytes y = Some (tx_bytes x)) \<and>
     (local_read_done_sent y \<longrightarrow> peer_write_fin_received y \<and> f = 0) \<and>
     list_all (done_ok y) ds \<and>
     pending_peer_read_done x = None \<and>
     (peer_read_done_received x \<longrightarrow> local_read_done_sent y)"

definition same_lease :: "lease_context \<Rightarrow> lease_context \<Rightarrow> bool" where
  "same_lease x y \<longleftrightarrow> l_conn_id x = l_conn_id y \<and> l_lease_seq x = l_lease_seq y \<and>
     l_channel_id x = l_channel_id y"

definition drain_inv :: "drain_world \<Rightarrow> bool" where
  "drain_inv w \<longleftrightarrow>
     same_lease (end_a w) (end_b w) \<and>
     dir_inv (end_a w) (end_b w) (flow_ab w) (cmds_ab w) (cmds_ba w) \<and>
     dir_inv (end_b w) (end_a w) (flow_ba w) (cmds_ba w) (cmds_ab w)"

lemma drain_inv_flip [simp]: "drain_inv (flip_world w) = drain_inv w"
  by (auto simp: drain_inv_def flip_world_def same_lease_def)

lemma flow_eq_of: "flow_eq l m \<Longrightarrow> fin_of m = fin_of l \<and> done_of m = done_of l"
  by (simp add: flow_eq_def fin_of_def done_of_def)

lemma fin_ok_mono:
  "fin_ok m c \<Longrightarrow> fin_of m' = fin_of m \<Longrightarrow> (local_write_fin_sent m \<Longrightarrow> local_write_fin_sent m') \<Longrightarrow> fin_ok m' c"
  by (cases c) auto

lemma done_ok_mono:
  "done_ok m c \<Longrightarrow> done_of m' = done_of m \<Longrightarrow> (local_read_done_sent m \<Longrightarrow> local_read_done_sent m') \<Longrightarrow> done_ok m' c"
  by (cases c) auto

lemma fins_mono:
  "list_all (fin_ok m) cs \<Longrightarrow> fin_of m' = fin_of m \<Longrightarrow> (local_write_fin_sent m \<Longrightarrow> local_write_fin_sent m') \<Longrightarrow>
   list_all (fin_ok m') cs"
  by (auto simp: list_all_iff intro: fin_ok_mono)

lemma dones_mono:
  "list_all (done_ok m) cs \<Longrightarrow> done_of m' = done_of m \<Longrightarrow> (local_read_done_sent m \<Longrightarrow> local_read_done_sent m') \<Longrightarrow>
   list_all (done_ok m') cs"
  by (auto simp: list_all_iff intro: done_ok_mono)

lemma fin_ok_cong: "flow_eq x x' \<Longrightarrow> fin_ok x' = fin_ok x"
  by (rule ext; case_tac xa; simp add: flow_eq_def fin_of_def)

lemma done_ok_cong: "flow_eq x x' \<Longrightarrow> done_ok x' = done_ok x"
  by (rule ext; case_tac xa; simp add: flow_eq_def done_of_def)

lemma of_update [simp]:
  "fin_of (m\<lparr>local_write_fin_sent := b\<rparr>) = fin_of m" "done_of (m\<lparr>local_write_fin_sent := b\<rparr>) = done_of m"
  "fin_of (m\<lparr>local_read_done_sent := b\<rparr>) = fin_of m" "done_of (m\<lparr>local_read_done_sent := b\<rparr>) = done_of m"
  "fin_of (m\<lparr>write_released := b\<rparr>) = fin_of m" "done_of (m\<lparr>write_released := b\<rparr>) = done_of m"
  by (simp_all add: fin_of_def done_of_def)

lemma dir_inv_flow_eq:
  "flow_eq x x' \<Longrightarrow> dir_inv x y f cs ds \<Longrightarrow> dir_inv x' y f cs ds"
  "flow_eq y y' \<Longrightarrow> dir_inv x y f cs ds \<Longrightarrow> dir_inv x y' f cs ds"
  using fin_ok_cong [of x x'] done_ok_cong [of y y'] unfolding dir_inv_def
  by (simp_all add: flow_eq_def)

lemma drain_inv_flow_eq: "flow_eq (end_a w) l \<Longrightarrow> drain_inv w \<Longrightarrow> drain_inv (w\<lparr>end_a := l\<rparr>)"
  using dir_inv_flow_eq by (auto simp: drain_inv_def same_lease_def) (auto simp: flow_eq_def)

text \<open>Every move of one end keeps the accounts.\<close>

lemma upd_swap: "w\<lparr>cmds_ab := c, end_a := m\<rparr> = w\<lparr>end_a := m, cmds_ab := c\<rparr>" for w :: drain_world
  by (cases w) simp

lemma inv_fins:
  assumes "drain_inv w" and "\<not> local_write_fin_sent (end_a w)" and "write_released (end_a w)"
  shows "drain_inv (w\<lparr>end_a := (end_a w)\<lparr>local_write_fin_sent := True\<rparr>,
           cmds_ab := cmds_ab w @ [CmdWriteFin (fin_of (end_a w))]\<rparr>)"
  using assms fins_mono [of "end_a w" "cmds_ab w" "(end_a w)\<lparr>local_write_fin_sent := True\<rparr>"]
    dones_mono [of "end_a w" "cmds_ab w" "(end_a w)\<lparr>local_write_fin_sent := True\<rparr>"]
  by (auto simp: drain_inv_def dir_inv_def same_lease_def)

lemma full_flow_zero: "f < 2 ^ 64 \<Longrightarrow> r + of_nat f = (r :: u64) \<Longrightarrow> f = 0"
proof -
  assume f: "f < 2 ^ 64" and "r + of_nat f = r"
  then have "(of_nat f :: u64) = 0" by simp
  then have "unat (of_nat f :: u64) = 0" by simp
  with f show ?thesis by (simp add: unat_of_nat take_bit_nat_def)
qed

lemma inv_dones:
  assumes "drain_inv w" and "can_send_read_done (end_a w)"
  shows "drain_inv (w\<lparr>end_a := (end_a w)\<lparr>local_read_done_sent := True\<rparr>,
           cmds_ab := cmds_ab w @ [CmdReadDone (done_of (end_a w))]\<rparr>)"
  using assms fins_mono [of "end_a w" "cmds_ab w" "(end_a w)\<lparr>local_read_done_sent := True\<rparr>"]
    dones_mono [of "end_a w" "cmds_ab w" "(end_a w)\<lparr>local_read_done_sent := True\<rparr>"]
    full_flow_zero [of "flow_ba w" "rx_bytes (end_a w)"]
  by (auto simp: drain_inv_def dir_inv_def same_lease_def can_send_read_done_def)

lemma inv_releases:
  assumes "drain_inv w"
  shows "drain_inv (w\<lparr>end_a := (end_a w)\<lparr>write_released := True\<rparr>\<rparr>)"
  using assms fins_mono [of "end_a w" "cmds_ab w" "(end_a w)\<lparr>write_released := True\<rparr>"]
    dones_mono [of "end_a w" "cmds_ab w" "(end_a w)\<lparr>write_released := True\<rparr>"]
  by (auto simp: drain_inv_def dir_inv_def same_lease_def)

lemma moves_drain_inv:
  assumes "moves l m cs" and "drain_inv w" and "end_a w = l"
  shows "drain_inv (w\<lparr>end_a := m, cmds_ab := cmds_ab w @ cs\<rparr>)"
  using assms
proof (induction rule: moves.induct)
  case (quiet l m)
  then show ?case using drain_inv_flow_eq [of w m] by simp
next
  case (fins l m cs m')
  from inv_fins [of "w\<lparr>end_a := m, cmds_ab := cmds_ab w @ cs\<rparr>"] fins
  have "drain_inv (w\<lparr>end_a := m\<lparr>local_write_fin_sent := True\<rparr>,
      cmds_ab := cmds_ab w @ cs @ [CmdWriteFin (fin_of m)]\<rparr>)" by simp
  from drain_inv_flow_eq [OF _ this, of m'] fins(4) show ?case by (simp add: upd_swap)
next
  case (dones l m cs m')
  from inv_dones [of "w\<lparr>end_a := m, cmds_ab := cmds_ab w @ cs\<rparr>"] dones
  have "drain_inv (w\<lparr>end_a := m\<lparr>local_read_done_sent := True\<rparr>,
      cmds_ab := cmds_ab w @ cs @ [CmdReadDone (done_of m)]\<rparr>)" by simp
  from drain_inv_flow_eq [OF _ this, of m'] dones(3) show ?case by (simp add: upd_swap)
next
  case (releases l m cs m')
  from inv_releases [of "w\<lparr>end_a := m, cmds_ab := cmds_ab w @ cs\<rparr>"] releases
  have "drain_inv (w\<lparr>end_a := m\<lparr>write_released := True\<rparr>, cmds_ab := cmds_ab w @ cs\<rparr>)"
    by (simp add: upd_swap)
  from drain_inv_flow_eq [OF _ this, of m'] releases(2) show ?case by (simp add: upd_swap)
qed

lemma apply_moves: "makes_moves f (end_a w) \<Longrightarrow> drain_inv w \<Longrightarrow> drain_inv (apply_a f w)"
  using moves_drain_inv [of "end_a w" "fst (f (end_a w))" "sends (snd (f (end_a w)))" w]
  by (simp add: makes_moves_def apply_a_def case_prod_beta)

lemma fins_none:
  "list_all (fin_ok m) cs \<Longrightarrow> \<not> local_write_fin_sent m \<Longrightarrow> list_all (fin_ok m') cs"
  unfolding list_all_iff by (metis fin_ok.elims(3) fin_ok.simps(1))

lemma dones_none:
  "list_all (done_ok m) cs \<Longrightarrow> \<not> local_read_done_sent m \<Longrightarrow> list_all (done_ok m') cs"
  unfolding list_all_iff by (metis done_ok.elims(3) done_ok.simps(1))

lemma inv_wrote:
  assumes "drain_inv w" and "\<not> write_released (end_a w)" and "flow_ab w + n < 2 ^ 64"
  shows "drain_inv (w\<lparr>flow_ab := flow_ab w + n, end_a := (end_a w)\<lparr>tx_bytes := tx_bytes (end_a w) + of_nat n\<rparr>\<rparr>)"
proof -
  let ?l = "(end_a w)\<lparr>tx_bytes := tx_bytes (end_a w) + of_nat n\<rparr>"
  have nf: "\<not> local_write_fin_sent (end_a w)" using assms by (auto simp: drain_inv_def dir_inv_def)
  have "list_all (fin_ok ?l) (cmds_ab w)" "list_all (done_ok ?l) (cmds_ab w)"
    using assms(1) fins_none [OF _ nf] dones_mono [of "end_a w" "cmds_ab w" ?l]
    by (auto simp: drain_inv_def dir_inv_def done_of_def)
  with assms nf show ?thesis
    by (auto simp: drain_inv_def dir_inv_def same_lease_def)
qed

lemma inv_got:
  assumes "drain_inv w" and "n \<le> flow_ba w"
  shows "drain_inv (w\<lparr>flow_ba := flow_ba w - n, end_a := (end_a w)\<lparr>rx_bytes := rx_bytes (end_a w) + of_nat n\<rparr>\<rparr>)"
proof (cases "n = 0")
  case False
  let ?l = "(end_a w)\<lparr>rx_bytes := rx_bytes (end_a w) + of_nat n\<rparr>"
  have nd: "\<not> local_read_done_sent (end_a w)" using assms False by (auto simp: drain_inv_def dir_inv_def)
  have "list_all (fin_ok ?l) (cmds_ab w)" "list_all (done_ok ?l) (cmds_ab w)"
    using assms(1) dones_none [OF _ nd] fins_mono [of "end_a w" "cmds_ab w" ?l]
    by (auto simp: drain_inv_def dir_inv_def fin_of_def)
  with assms nd show ?thesis
    by (auto simp: drain_inv_def dir_inv_def same_lease_def of_nat_diff)
qed (use assms in simp)

lemma inv_fin_arrives:
  assumes "drain_inv w" and "local_write_fin_sent (end_b w)"
  shows "drain_inv (w\<lparr>end_a := (end_a w)\<lparr>peer_write_fin_received := True,
           peer_final_tx_bytes := Some (tx_bytes (end_b w))\<rparr>\<rparr>)"
proof -
  let ?l = "(end_a w)\<lparr>peer_write_fin_received := True, peer_final_tx_bytes := Some (tx_bytes (end_b w))\<rparr>"
  have "list_all (fin_ok ?l) (cmds_ab w)" "list_all (done_ok ?l) (cmds_ab w)"
    using assms(1) fins_mono [of "end_a w" "cmds_ab w" ?l] dones_mono [of "end_a w" "cmds_ab w" ?l]
    by (auto simp: drain_inv_def dir_inv_def fin_of_def done_of_def)
  with assms show ?thesis by (auto simp: drain_inv_def dir_inv_def same_lease_def)
qed

lemma inv_done_arrives:
  assumes "drain_inv w" and "local_read_done_sent (end_b w)"
  shows "drain_inv (w\<lparr>end_a := (end_a w)\<lparr>peer_read_done_received := True\<rparr>\<rparr>)"
proof -
  let ?l = "(end_a w)\<lparr>peer_read_done_received := True\<rparr>"
  have "list_all (fin_ok ?l) (cmds_ab w)" "list_all (done_ok ?l) (cmds_ab w)"
    using assms(1) fins_mono [of "end_a w" "cmds_ab w" ?l] dones_mono [of "end_a w" "cmds_ab w" ?l]
    by (auto simp: drain_inv_def dir_inv_def fin_of_def done_of_def)
  with assms show ?thesis by (auto simp: drain_inv_def dir_inv_def same_lease_def)
qed

lemma inv_forget:
  "drain_inv w \<Longrightarrow> drain_inv (w\<lparr>cmds_ba := remove1 c (cmds_ba w)\<rparr>)"
  "drain_inv w \<Longrightarrow> drain_inv (w\<lparr>cmds_ab := remove1 c (cmds_ab w)\<rparr>)"
  using set_remove1_subset [of c "cmds_ba w"] set_remove1_subset [of c "cmds_ab w"]
  by (auto simp: drain_inv_def dir_inv_def list_all_iff)

lemma apply_after:
  assumes "f (end_a w) = (l', es)" and "moves l l' (sends es)" and "drain_inv (w\<lparr>end_a := l\<rparr>)"
  shows "drain_inv (apply_a f w)"
  using moves_drain_inv [OF assms(2,3)] assms(1) by (simp add: apply_a_def)

lemma quiet_update:
  "drain_inv w \<Longrightarrow> drain_inv (w\<lparr>held_a := h\<rparr>)" "drain_inv (w\<lparr>held_a := h\<rparr>) \<Longrightarrow> drain_inv w"
  by (simp_all add: drain_inv_def)

lemma makes_movesD: "makes_moves f l \<Longrightarrow> f l = (l', es) \<Longrightarrow> moves l l' (sends es)"
  by (simp add: makes_moves_def)

lemma after_read_moves:
  assumes "after_read n eof now l = (l', es)" and "\<not> l_retired l"
  shows "moves (l\<lparr>rx_bytes := rx_bytes l + of_nat n\<rparr>) l' (sends es)"
proof (cases "n > 0")
  case True
  let ?l1 = "l\<lparr>rx_bytes := rx_bytes l + of_nat n\<rparr>"
  consider "retire_lease_arc Interrupted ?l1 = (l', es)" | "(?l1, []) = (l', es)"
    | "spawn_send_read_done ?l1 = (l', es)" | "note_drain_progress now ?l1 = (l', es)"
    using assms True by (auto simp: after_read_def Let_def split: option.splits if_splits)
  then show ?thesis
    by cases (auto intro: makes_movesD [OF retire_moves] makes_movesD [OF send_done_moves]
        makes_movesD [OF progress_moves] moves.quiet)
next
  case False
  then have "l\<lparr>rx_bytes := rx_bytes l + of_nat n\<rparr> = l" by simp
  moreover have "(if eof then retire_lease_arc Interrupted l else (l, [])) = (l', es)"
    using assms False by (simp add: after_read_def)
  ultimately show ?thesis
    by (auto intro: makes_movesD [OF retire_moves] moves.quiet split: if_splits)
qed

lemma eof_moves: "makes_moves (after_read 0 True now) l"
  using retire_moves [of Interrupted l] by (auto simp: makes_moves_def after_read_def intro: moves.quiet)

lemma hidden_take_moves: "hidden_take l = (l', es, r) \<Longrightarrow> moves l l' (sends es)"
  using makes_movesD [OF finalize_moves]
  by (auto simp: hidden_take_def flow_eq_def split: if_splits prod.splits intro: moves.quiet)

lemma flow_eq_read: "flow_eq l (l\<lparr>l_read := r\<rparr>)"
  by (simp add: flow_eq_def)

lemma observed_op_moves: "makes_moves (fst (observed_op obs now l)) l"
  by (auto simp: observed_op_def intro: makes_moves_and_then)

lemma hidden_observed_moves:
  assumes "hidden_observed r obs now l = (l', es, go)"
  shows "moves (if l_retired l then l
           else l\<lparr>rx_bytes := rx_bytes l + of_nat (case obs of ObsRead m \<Rightarrow> m | _ \<Rightarrow> 0)\<rparr>) l' (sends es)"
proof (cases "l_retired l")
  case True
  with assms have "maybe_finalize_lease (l\<lparr>l_read := Some r\<rparr>) = (l', es)"
    by (auto simp: hidden_observed_def Let_def split: prod.splits)
  from moves_trans [OF makes_movesD [OF finalize_moves this] moves.quiet [OF flow_eq_read]] True
  show ?thesis by simp
next
  case False
  define l2 where "l2 = l\<lparr>rx_bytes := rx_bytes l + of_nat (case obs of ObsRead m \<Rightarrow> m | _ \<Rightarrow> 0)\<rparr>"
  have "flow_eq l2 (l\<lparr>l_read := Some r, rx_bytes := rx_bytes l2\<rparr>)"
    by (simp add: flow_eq_def l2_def)
  moreover have "fst (observed_op obs now (l\<lparr>l_read := Some r, rx_bytes := rx_bytes l2\<rparr>))
      (l\<lparr>l_read := Some r, rx_bytes := rx_bytes l2\<rparr>) = (l', es)"
    using assms False by (auto simp: hidden_observed_def Let_def l2_def split: prod.splits)
  ultimately have "moves l2 l' (sends es)"
    using moves_trans [OF makes_movesD [OF observed_op_moves] moves.quiet] by fastforce
  with False show ?thesis by (simp add: l2_def)
qed

lemma followup_moves: "makes_moves (write_fin_followup retire send refresh now) l"
  unfolding write_fin_followup_def
  by (intro makes_moves_and_then makes_moves_if makes_moves_skip send_done_moves retire_moves finalize_moves
      progress_moves)

lemma write_fin_moves:
  assumes "lease_write_fin fin now l = (l', es)" and "fin_lease_seq fin = l_lease_seq l"
    and "fin_channel_id fin = l_channel_id l"
    and "peer_write_fin_received l \<Longrightarrow> peer_final_tx_bytes l = Some (fin_final_tx_bytes fin)"
  shows "moves (l\<lparr>peer_write_fin_received := True, peer_final_tx_bytes := Some (fin_final_tx_bytes fin)\<rparr>)
           l' (sends es)"
proof -
  let ?l1 = "l\<lparr>peer_write_fin_received := True, peer_final_tx_bytes := Some (fin_final_tx_bytes fin)\<rparr>"
  have "\<exists>retire send refresh. write_fin_followup retire send refresh now ?l1 = (l', es)"
  proof (cases "peer_write_fin_received l")
    case True
    then have "?l1 = l" using assms(4) by simp
    moreover have "write_fin_followup False False False now l = (l', es)"
      using True assms by (simp add: lease_write_fin_def)
    ultimately show ?thesis by metis
  next
    case False
    then show ?thesis using assms by (auto simp: lease_write_fin_def Let_def split: if_splits)
  qed
  then show ?thesis using makes_movesD [OF followup_moves] by blast
qed

text \<open>Commands that arrive are the ones the peer sent.\<close>

lemma receive_drain_inv:
  assumes inv: "drain_inv w" and c: "c \<in> set (cmds_ba w)"
  shows "drain_inv (apply_a (receive_cmd c now) (w\<lparr>cmds_ba := remove1 c (cmds_ba w)\<rparr>))"
proof -
  let ?w = "w\<lparr>cmds_ba := remove1 c (cmds_ba w)\<rparr>"
  have inv': "drain_inv ?w" using inv inv_forget(1) by blast
  have ok: "fin_ok (end_b w) c" "done_ok (end_b w) c" "same_lease (end_a w) (end_b w)"
    using inv c by (auto simp: drain_inv_def dir_inv_def list_all_iff)
  obtain l' es where r: "receive_cmd c now (end_a w) = (l', es)" by fastforce
  show ?thesis
  proof (cases "l_retired (end_a w)")
    case True
    with r inv' drain_inv_flow_eq [of ?w "end_a w"] show ?thesis by (simp add: receive_cmd_def apply_a_def)
  next
    case False
    show ?thesis
    proof (cases c)
      case (CmdWriteFin fin)
      with ok have fin: "local_write_fin_sent (end_b w)" "fin = fin_of (end_b w)" by auto
      have "moves ((end_a w)\<lparr>peer_write_fin_received := True,
          peer_final_tx_bytes := Some (fin_final_tx_bytes fin)\<rparr>) l' (sends es)"
        using r False CmdWriteFin fin(2) ok(3) inv
        by (intro write_fin_moves [of fin now]) (auto simp: receive_cmd_def fin_of_def same_lease_def
            drain_inv_def dir_inv_def)
      moreover have "fin_final_tx_bytes fin = tx_bytes (end_b w)" using fin by (simp add: fin_of_def)
      ultimately show ?thesis
        using apply_after [of "receive_cmd c now" ?w l' es] r inv_fin_arrives [OF inv'] fin(1) by simp
    next
      case (CmdReadDone d)
      with ok have d: "local_read_done_sent (end_b w)" "d = done_of (end_b w)" by auto
      then have facts: "local_write_fin_sent (end_a w)" "rx_bytes (end_b w) = tx_bytes (end_a w)"
        using inv by (auto simp: drain_inv_def dir_inv_def)
      have "and_then maybe_finalize_lease (\<lambda>l. (l, [ScheduleFinalize]))
          ((end_a w)\<lparr>peer_read_done_received := True\<rparr>) = (l', es)"
        using r False CmdReadDone d(2) facts ok(3)
        by (simp add: receive_cmd_def lease_read_done_def done_of_def same_lease_def)
      moreover have "makes_moves (and_then maybe_finalize_lease (\<lambda>l. (l, [ScheduleFinalize]))) m" for m
        by (intro makes_moves_and_then finalize_moves) (auto simp: makes_moves_def intro: moves.quiet)
      ultimately have "moves ((end_a w)\<lparr>peer_read_done_received := True\<rparr>) l' (sends es)"
        using makes_movesD by blast
      then show ?thesis
        using apply_after [of "receive_cmd c now" ?w l' es] r inv_done_arrives [OF inv'] d(1) by simp
    qed (use r False inv' drain_inv_flow_eq [of ?w "end_a w"] in
        \<open>simp_all add: receive_cmd_def apply_a_def\<close>)
  qed
qed

lemma act_a_drain_inv: "act_a w w' \<Longrightarrow> drain_inv w \<Longrightarrow> drain_inv w'"
proof (induction rule: act_a.induct)
  case (wrote w n)
  then show ?case using inv_wrote [of w n] by (simp add: apply_a_def after_write_def)
next
  case (got w n now)
  obtain l' es where r: "after_read n False now (end_a w) = (l', es)" by fastforce
  from got r show ?case
    using inv_got [of w n] by (intro apply_after [OF _ after_read_moves [OF r]]) (simp_all add: r)
next
  case (eof w now)
  then show ?case using apply_moves eof_moves by blast
next
  case (observe w l es r)
  then show ?case
    using quiet_update(1) [OF moves_drain_inv [OF hidden_take_moves [OF observe(3)] observe(4)], of r] by simp
next
  case (observed w r obs now l es go_on n)
  let ?w = "w\<lparr>flow_ba := flow_ba w - n, end_a := (end_a w)\<lparr>rx_bytes := rx_bytes (end_a w) + of_nat n\<rparr>\<rparr>"
  have "moves (end_a ?w) l (sends es)"
    using hidden_observed_moves [OF observed(2)] observed(3,5) by simp
  from moves_drain_inv [OF this inv_got [OF observed(6,4)]]
  have "drain_inv (w\<lparr>flow_ba := flow_ba w - n, end_a := l, cmds_ab := cmds_ab w @ sends es\<rparr>)" by simp
  then show ?case by (simp add: drain_inv_def)
next
  case (observed_retired w r obs now l es go_on)
  then show ?case
    using quiet_update(1) [OF moves_drain_inv [OF hidden_observed_moves [OF observed_retired(2)]], of w None]
    by simp
next
  case (drop_write w)
  then have "pending_peer_read_done (end_a w) = None" by (simp add: drain_inv_def dir_inv_def)
  with drop_write show ?case using apply_moves release_write_moves by blast
next
  case (no_reuse w)
  then have "makes_moves (\<lambda>l. (l\<lparr>l_no_reuse := True\<rparr>, [])) (end_a w)"
    by (auto simp: makes_moves_def flow_eq_def intro: moves.quiet)
  with no_reuse show ?case using apply_moves by blast
next
  case (receive c w now)
  then show ?case using receive_drain_inv by blast
next
  case (lose c w)
  then show ?case using inv_forget(2) by blast
qed (auto intro: apply_moves retire_moves release_read_moves send_finished_moves timeout_moves finalize_moves
     simp: io_failed_def)

lemma drain_inv_start: "drain_inv (drain_start conn channel seq kind purpose)"
  by (cases kind) (simp_all add: drain_start_def bind_lease_def bind_facts_def lease_new_def and_then_def
      spawn_send_write_fin_def note_drain_progress_def drain_timeout_active_def Let_def drain_inv_def
      dir_inv_def same_lease_def fin_of_def)

lemma drain_reach_inv: "drain_reach w \<Longrightarrow> drain_inv w"
  by (induction rule: drain_reach.induct) (auto simp: drain_inv_start act_a_drain_inv
      dest: act_a_drain_inv)

text \<open>C7: a data connection is handed back to the pool only when it is clean:
  whatever the two ends read and write, whenever they release their halves, in whatever order the
  commands of both ends arrive or get lost, if one end finds its lease ready for idle then no byte
  is on its way in either direction, each end has read exactly what the other wrote, and the other
  end has released its writing half too. So the next lease of the connection never reads a byte of
  this one.\<close>

theorem idle_connection_is_clean:
  assumes "drain_reach w" and "ready_for_idle (end_a w)"
  shows "flow_ab w = 0 \<and> flow_ba w = 0 \<and> tx_bytes (end_a w) = rx_bytes (end_b w) \<and>
         tx_bytes (end_b w) = rx_bytes (end_a w) \<and> write_released (end_b w) \<and>
         local_write_fin_sent (end_b w) \<and> local_read_done_sent (end_b w)"
  using drain_reach_inv [OF assms(1)] assms(2)
  by (auto simp: drain_inv_def dir_inv_def ready_for_idle_def)

text \<open>A run: A writes three bytes and lets go of both halves, B reads them and lets go too.\<close>

abbreviation on_b :: "(drain_world \<Rightarrow> drain_world) \<Rightarrow> drain_world \<Rightarrow> drain_world" where
  "on_b f w \<equiv> flip_world (f (flip_world w))"

definition take_first :: "drain_world \<Rightarrow> drain_world" where
  "take_first w = apply_a (receive_cmd (hd (cmds_ba w)) 0) (w\<lparr>cmds_ba := tl (cmds_ba w)\<rparr>)"

definition sample_written :: drain_world where
  "sample_written =
     on_b (\<lambda>w. apply_a (after_read 3 False 0) (w\<lparr>flow_ba := flow_ba w - 3\<rparr>))
       (apply_a release_read_half (apply_a release_write_half
         ((\<lambda>w. apply_a (after_write 3) (w\<lparr>flow_ab := flow_ab w + 3\<rparr>))
           (drain_start (TunnelId 1) (TunnelId 2) (TunnelId 1) KindStream (TunnelPurpose [])))))"

definition sample_drained :: drain_world where
  "sample_drained =
     take_first (take_first (on_b take_first
       (on_b (apply_a release_read_half) (on_b (apply_a release_write_half) sample_written))))"

lemma take_first_act: "cmds_ba w \<noteq> [] \<Longrightarrow> act_a w (take_first w)"
  using act_a.receive [of "hd (cmds_ba w)" w 0] by (cases "cmds_ba w") (auto simp: take_first_def)

lemma flip_flip [simp]: "flip_world (flip_world w) = w"
  by (simp add: flip_world_def)

lemma drain_reach_b: "drain_reach w \<Longrightarrow> act_a (flip_world w) (f (flip_world w)) \<Longrightarrow> drain_reach (on_b f w)"
  by (rule drain_reach.act_b)

lemmas sample_lease_defs = sample_written_def drain_start_def bind_lease_def bind_facts_def lease_new_def
  and_then_def note_drain_progress_def drain_timeout_active_def Let_def apply_a_def after_write_def
  after_read_def release_read_half_def release_write_half_def spawn_send_write_fin_def
  spawn_send_read_done_def can_send_read_done_def maybe_finalize_lease_def ready_for_idle_def
  ready_for_close_def flip_world_def take_first_def receive_cmd_def lease_write_fin_def
  write_fin_followup_def lease_read_done_def

lemma sample_written_reach: "drain_reach sample_written"
  unfolding sample_written_def
  by (intro drain_reach_b act_a.got drain_reach.act_a [OF _ act_a.drop_read]
      drain_reach.act_a [OF _ act_a.drop_write] drain_reach.act_a [OF drain_reach.start act_a.wrote])
    (simp_all add: sample_lease_defs)

lemma sample_drained_reach: "drain_reach sample_drained"
  unfolding sample_drained_def
  by (intro drain_reach.act_a [OF _ take_first_act] drain_reach_b take_first_act act_a.drop_read
      act_a.drop_write sample_written_reach)
    (simp_all add: sample_lease_defs)

theorem idle_connection_is_clean_witness:
  "drain_reach sample_drained \<and> ready_for_idle (end_a sample_drained) \<and>
   flow_ab sample_drained = 0 \<and> flow_ba sample_drained = 0 \<and> rx_bytes (end_b sample_drained) = 3 \<and>
   tx_bytes (end_a sample_drained) = rx_bytes (end_b sample_drained)"
proof -
  have "ready_for_idle (end_a sample_drained)" "rx_bytes (end_b sample_drained) = 3"
    unfolding sample_drained_def by (simp_all add: sample_lease_defs)
  with sample_drained_reach idle_connection_is_clean [OF sample_drained_reach] show ?thesis by simp
qed

end
