(* ===== verification/ReverseOpen.thy ===== *)
theory ReverseOpen
  imports TcpProtocol
begin

text \<open>
  The correlation of a reverse open (\<open>ReverseOpenCorrelation\<close> of
  \<open>networks/tcp/tunnel.rs\<close>). A tunnel asks its peer to open a data connection; the connection
  arrives on one socket (\<open>Arrival\<close>, then \<open>ArrivalRegistered\<close> once it is in the table of the
  tunnel) and the peer's answer on the control connection (\<open>SuccessResponse\<close>), in either order.
  The request completes when both are there and name the same connection.
\<close>

section \<open>Definitions\<close>

datatype correlation_event =
    Arrival tcp_conn_id | ArrivalRegistered tcp_conn_id | SuccessResponse tcp_conn_id | Failure
  | TerminalCleanup

datatype correlation_error = DuplicateArrival | ConnIdMismatch | ArrivalNotStaged | AlreadyTerminal

datatype correlation_outcome =
    Wait | Complete tcp_conn_id | Idempotent | Terminal | Rejected correlation_error

record correlation =
  arrival_conn_id :: "tcp_conn_id option"
  response_conn_id :: "tcp_conn_id option"
  arrival_registered :: bool
  terminal :: bool
  completed_conn_id :: "tcp_conn_id option"

definition correlation_new :: correlation where
  "correlation_new = \<lparr>arrival_conn_id = None, response_conn_id = None, arrival_registered = False,
     terminal = False, completed_conn_id = None\<rparr>"

definition reject :: "correlation_error \<Rightarrow> correlation \<Rightarrow> correlation \<times> correlation_outcome" where
  "reject e c = (c\<lparr>terminal := True\<rparr>, Rejected e)"

definition complete :: "tcp_conn_id \<Rightarrow> correlation \<Rightarrow> correlation \<times> correlation_outcome" where
  "complete i c = (c\<lparr>terminal := True, completed_conn_id := Some i\<rparr>, Complete i)"

definition correlation_apply ::
    "correlation_event \<Rightarrow> correlation \<Rightarrow> correlation \<times> correlation_outcome" where
  "correlation_apply ev c =
     (if terminal c
      then (c, case ev of
                 SuccessResponse i \<Rightarrow>
                   if completed_conn_id c = Some i then Idempotent
                   else if completed_conn_id c \<noteq> None then Rejected ConnIdMismatch
                   else Rejected AlreadyTerminal
               | _ \<Rightarrow> Rejected AlreadyTerminal)
      else (case ev of
          Arrival i \<Rightarrow>
            (case arrival_conn_id c of
               Some recorded \<Rightarrow> reject (if recorded = i then DuplicateArrival else ConnIdMismatch) c
             | None \<Rightarrow>
                 if (case response_conn_id c of Some r \<Rightarrow> r \<noteq> i | None \<Rightarrow> False) then reject ConnIdMismatch c
                 else (c\<lparr>arrival_conn_id := Some i\<rparr>, Wait))
        | ArrivalRegistered i \<Rightarrow>
            if arrival_conn_id c \<noteq> Some i
            then reject (if arrival_conn_id c \<noteq> None then ConnIdMismatch else ArrivalNotStaged) c
            else if arrival_registered c then (c, Idempotent)
            else
              let c1 = c\<lparr>arrival_registered := True\<rparr>
              in if response_conn_id c1 = Some i then complete i c1 else (c1, Wait)
        | SuccessResponse i \<Rightarrow>
            (case response_conn_id c of
               Some recorded \<Rightarrow>
                 if recorded \<noteq> i then reject ConnIdMismatch c
                 else if arrival_registered c then complete i c
                 else (c, Idempotent)
             | None \<Rightarrow>
                 if (case arrival_conn_id c of Some r \<Rightarrow> r \<noteq> i | None \<Rightarrow> False) then reject ConnIdMismatch c
                 else
                   let c1 = c\<lparr>response_conn_id := Some i\<rparr>
                   in if arrival_registered c1 then complete i c1 else (c1, Wait))
        | Failure \<Rightarrow> (c\<lparr>terminal := True\<rparr>, Terminal)
        | TerminalCleanup \<Rightarrow> (c\<lparr>terminal := True\<rparr>, Terminal)))"

fun correlation_run ::
    "correlation_event list \<Rightarrow> correlation \<Rightarrow> correlation \<times> correlation_outcome list" where
  "correlation_run [] c = (c, [])"
| "correlation_run (ev # evs) c =
     (let (c1, out) = correlation_apply ev c; (c2, outs) = correlation_run evs c1 in (c2, out # outs))"

section \<open>The state of a correlation\<close>

lemmas correlation_defs = correlation_apply_def reject_def complete_def

text \<open>What the fields mean.\<close>

definition correlation_wf :: "correlation \<Rightarrow> bool" where
  "correlation_wf c \<longleftrightarrow>
     (arrival_registered c \<longrightarrow> arrival_conn_id c \<noteq> None) \<and>
     (arrival_conn_id c = None \<or> response_conn_id c = None \<or> response_conn_id c = arrival_conn_id c) \<and>
     (completed_conn_id c = None \<or>
        terminal c \<and> arrival_conn_id c = completed_conn_id c \<and> response_conn_id c = completed_conn_id c \<and>
        arrival_registered c) \<and>
     (\<not> terminal c \<longrightarrow> \<not> (arrival_registered c \<and> response_conn_id c \<noteq> None))"

lemma correlation_wf_new: "correlation_wf correlation_new"
  by (simp add: correlation_wf_def correlation_new_def)

lemma correlation_wf_apply: "correlation_wf c \<Longrightarrow> correlation_wf (fst (correlation_apply ev c))"
  by (cases "terminal c"; cases ev; cases "arrival_conn_id c"; cases "response_conn_id c")
    (auto simp: correlation_wf_def correlation_defs Let_def)

lemma correlation_wf_run: "correlation_wf c \<Longrightarrow> correlation_wf (fst (correlation_run evs c))"
proof (induction evs arbitrary: c)
  case (Cons ev evs)
  have "correlation_wf (fst (correlation_run evs (fst (correlation_apply ev c))))"
    by (intro Cons.IH correlation_wf_apply Cons.prems)
  then show ?case by (simp add: case_prod_beta)
qed simp

lemma correlation_terminal: "terminal c \<Longrightarrow> fst (correlation_apply ev c) = c"
  by (simp add: correlation_apply_def)

lemma correlation_complete:
  "correlation_apply ev c = (c', Complete i) \<Longrightarrow> \<not> terminal c \<and> terminal c' \<and> completed_conn_id c' = Some i"
  by (cases ev) (auto simp: correlation_defs Let_def split: option.splits if_splits)

definition is_complete :: "correlation_outcome \<Rightarrow> bool" where
  "is_complete out = (case out of Complete _ \<Rightarrow> True | _ \<Rightarrow> False)"

lemma run_terminal:
  "terminal c \<Longrightarrow> fst (correlation_run evs c) = c \<and> filter is_complete (snd (correlation_run evs c)) = []"
proof (induction evs arbitrary: c)
  case (Cons ev evs)
  have "fst (correlation_apply ev c) = c" "\<not> is_complete (snd (correlation_apply ev c))"
    using Cons.prems correlation_terminal correlation_complete [of ev c]
    by (auto simp: is_complete_def split: correlation_outcome.splits) (metis prod.collapse)+
  with Cons show ?case by (simp add: case_prod_beta)
qed simp

section \<open>When a request completes\<close>

text \<open>The abstract rule: the connection \<open>i\<close> arrived, was registered, and a response named it.\<close>

definition seen_all :: "tcp_conn_id \<Rightarrow> correlation_event list \<Rightarrow> bool" where
  "seen_all i evs \<longleftrightarrow> Arrival i \<in> set evs \<and> ArrivalRegistered i \<in> set evs \<and> SuccessResponse i \<in> set evs"

lemma run_append:
  "correlation_run (evs @ evs') c =
     (let (c1, outs) = correlation_run evs c; (c2, outs') = correlation_run evs' c1 in (c2, outs @ outs'))"
  by (induction evs arbitrary: c) (auto simp: Let_def split: prod.splits)

lemma run_facts:
  "(arrival_conn_id (fst (correlation_run evs c)) = Some i \<longrightarrow> arrival_conn_id c = Some i \<or> Arrival i \<in> set evs) \<and>
   (response_conn_id (fst (correlation_run evs c)) = Some i \<longrightarrow>
      response_conn_id c = Some i \<or> SuccessResponse i \<in> set evs) \<and>
   (arrival_registered (fst (correlation_run evs c)) \<longrightarrow>
      arrival_registered c \<or> (\<exists>j. arrival_conn_id (fst (correlation_run evs c)) = Some j \<and>
        ArrivalRegistered j \<in> set evs))"
proof (induction evs rule: rev_induct)
  case (snoc ev evs)
  obtain c1 outs where r: "correlation_run evs c = (c1, outs)" by fastforce
  show ?case
    using snoc unfolding run_append r
    by (cases ev) (auto simp: r correlation_defs Let_def split: option.splits if_splits)
qed simp

text \<open>C9: a reverse open completes at most once, whatever arrives: in every run at
  most one event answers \<open>Complete\<close>; it is for a connection that arrived, was registered in the
  tunnel's table and was named by the peer's success response; the state then stays as it is, a
  repeated success response for it is \<open>Idempotent\<close> and one that names another connection is
  rejected.\<close>

theorem reverse_open_completes_once:
  "let (c, outs) = correlation_run evs correlation_new
   in length (filter is_complete outs) \<le> 1 \<and>
      (completed_conn_id c \<noteq> None \<longleftrightarrow> filter is_complete outs \<noteq> []) \<and>
      (case completed_conn_id c of None \<Rightarrow> True
       | Some i \<Rightarrow> filter is_complete outs = [Complete i] \<and> seen_all i evs \<and> terminal c \<and>
           correlation_apply (SuccessResponse i) c = (c, Idempotent) \<and>
           (\<forall>j. j = i \<or> correlation_apply (SuccessResponse j) c = (c, Rejected ConnIdMismatch)))"
proof -
  have one: "filter is_complete outs = (case completed_conn_id c' of Some i \<Rightarrow> [Complete i] | None \<Rightarrow> [])"
    if "correlation_run evs c = (c', outs)" "completed_conn_id c = None" for c c' outs
    using that
  proof (induction evs arbitrary: c c' outs)
    case (Cons ev evs)
    obtain c1 out where a: "correlation_apply ev c = (c1, out)" by fastforce
    obtain c2 outs2 where r: "correlation_run evs c1 = (c2, outs2)" by fastforce
    have res: "c' = c2" "outs = out # outs2" using Cons.prems(1) a r by auto
    show ?case
    proof (cases "is_complete out")
      case True
      then obtain i where i: "out = Complete i" by (auto simp: is_complete_def split: correlation_outcome.splits)
      note t = correlation_complete [OF a [unfolded i]]
      with run_terminal [of c1 evs] r have "c2 = c1" "filter is_complete outs2 = []" by auto
      with res i t True show ?thesis by simp
    next
      case False
      have "completed_conn_id c1 = None"
        using a False Cons.prems(2)
        by (cases ev) (auto simp: correlation_defs is_complete_def Let_def split: option.splits if_splits)
      from Cons.IH [OF r this] res False show ?thesis by simp
    qed
  qed (auto split: option.splits)
  obtain c outs where r: "correlation_run evs correlation_new = (c, outs)" by fastforce
  have wf: "correlation_wf c" using correlation_wf_run [OF correlation_wf_new, of evs] r by simp
  note o = one [OF r]
  have new: "completed_conn_id correlation_new = None" by (simp add: correlation_new_def)
  show ?thesis
  proof (cases "completed_conn_id c")
    case (Some i)
    with wf have f: "terminal c" "arrival_conn_id c = Some i" "response_conn_id c = Some i" "arrival_registered c"
      by (auto simp: correlation_wf_def)
    have "seen_all i evs"
      using run_facts [of evs correlation_new i] r f by (auto simp: seen_all_def correlation_new_def)
    with o [OF new] Some r f show ?thesis by (auto simp: correlation_apply_def)
  qed (use o [OF new] r in auto)
qed

text \<open>an open that goes as intended completes in every order in which its three
  events can happen: arrival and registration with the peer's response before, between or after
  them, also when the response is repeated.\<close>

theorem reverse_open_completes:
  "snd (correlation_run [Arrival i, ArrivalRegistered i, SuccessResponse i] correlation_new) =
     [Wait, Wait, Complete i] \<and>
   snd (correlation_run [Arrival i, SuccessResponse i, ArrivalRegistered i] correlation_new) =
     [Wait, Wait, Complete i] \<and>
   snd (correlation_run [SuccessResponse i, Arrival i, SuccessResponse i, ArrivalRegistered i] correlation_new) =
     [Wait, Wait, Idempotent, Complete i]"
  by (simp add: correlation_defs correlation_new_def Let_def)

end
