(* ===== verification/TcpTunnel.thy ===== *)
theory TcpTunnel
  imports TcpLease ReverseOpen
begin

text \<open>
  \<open>TcpTunnel\<close> of \<open>networks/tcp/tunnel.rs\<close>: the table of data connections, how a channel claims
  a connection from the pool, how connections are opened in reverse, how a lease's effects reach its
  connection, and the tunnel's own life.

  \<open>Arc\<close>s are addresses: \<open>entries\<close> and \<open>leases\<close> are the heap, \<open>data_conns\<close> holds the
  address under which a connection is registered. The \<open>Weak\<close> reference of a lease to its
  connection can be upgraded as long as the connection is in the table, which owns it. A
  \<open>oneshot\<close> sender is a number, and \<open>claim_answers\<close> and \<open>open_answers\<close> record what each
  was sent. \<open>spawned\<close> collects the tasks given to the executor. Every function is the code between
  two suspension points; a function with an \<open>await\<close> inside is split there, and what the wait
  returns is an argument of the second half.
\<close>

section \<open>Definitions\<close>

subsection \<open>State\<close>

datatype local_tunnel_phase = PassiveReady | PhaseConnected | PhaseClosed | PhaseError

definition external_state :: "local_tunnel_phase \<Rightarrow> tunnel_state" where
  "external_state p =
     (case p of PassiveReady \<Rightarrow> Connecting | PhaseConnected \<Rightarrow> Connected | PhaseClosed \<Rightarrow> Closed
      | PhaseError \<Rightarrow> Error)"

datatype incoming_control_decision = DecideAccept | DecideProtocolError | DecideTunnelConflictLost

definition control_ready_result :: "incoming_control_decision \<Rightarrow> control_conn_ready_result" where
  "control_ready_result d =
     (case d of DecideAccept \<Rightarrow> CtlSuccess | DecideProtocolError \<Rightarrow> CtlProtocolError
      | DecideTunnelConflictLost \<Rightarrow> CtlTunnelConflictLost)"

record claiming_state =
  cl_lease_seq :: tcp_lease_seq
  cl_channel_id :: tcp_channel_id
  cl_claim_nonce :: u64
  cl_kind :: tcp_channel_kind
  cl_purpose :: tunnel_purpose

datatype recent_claim_response = RespAck | RespErr claim_conn_ack_result

record recent_claim_record =
  rc_channel_id :: tcp_channel_id
  rc_lease_seq :: tcp_lease_seq
  rc_claim_nonce :: u64
  rc_kind :: tcp_channel_kind
  rc_purpose :: tunnel_purpose
  rc_response :: recent_claim_response

datatype entry_state =
    FirstClaimPending | Idle | Claiming claiming_state | Bound nat | Draining nat | EntryRetired

record data_conn_entry =
  e_conn_id :: tcp_conn_id
  created_by_local :: bool
  first_claim_local :: bool
  e_stream :: "sock option"
  committed_lease_seq :: tcp_lease_seq
  e_state :: entry_state
  e_no_reuse :: bool
  recent_claim :: "recent_claim_record option"
  pending_fin :: "write_fin option"
  entry_pending_read_done :: "read_done option"

definition data_conn_entry_new :: "sock \<Rightarrow> tcp_conn_id \<Rightarrow> bool \<Rightarrow> bool \<Rightarrow> data_conn_entry" where
  "data_conn_entry_new stream conn_id created first =
     \<lparr>e_conn_id = conn_id, created_by_local = created, first_claim_local = first,
      e_stream = Some stream, committed_lease_seq = TunnelId 0, e_state = FirstClaimPending,
      e_no_reuse = False, recent_claim = None, pending_fin = None, entry_pending_read_done = None\<rparr>"

record pending_drain_facts =
  pd_write_fin :: "write_fin option"
  pd_read_done :: "read_done option"
  pd_updated_at :: instant

record pending_open_request =
  por_sender :: "nat option"
  por_staged_entry :: "nat option"
  por_correlation :: correlation

datatype task =
    TaskSend nat tcp_control_cmd | TaskDrainTimeout nat instant | TaskHiddenRead nat | TaskFinalize nat
  | TaskPendingDrain "tcp_conn_id \<times> tcp_lease_seq" instant | TaskFirstClaim nat
  | TaskReverseOpen tcp_request_id | TaskCallback tcp_channel_kind nat

record tcp_tunnel =
  t_local_id :: p2p_id
  t_remote_id :: p2p_id
  t_candidate_id :: candidate_id
  form :: tunnel_form
  phase :: local_tunnel_phase
  t_closed :: bool
  last_recv_at :: instant
  last_pong_at :: instant
  data_conns :: "(tcp_conn_id, nat) hmap"
  entries :: "(nat, data_conn_entry) hmap"
  leases :: "(nat, lease_context) hmap"
  next_ref :: nat
  pending_drains :: "(tcp_conn_id \<times> tcp_lease_seq, pending_drain_facts) hmap"
  pending_open_requests :: "(tcp_request_id, pending_open_request) hmap"
  pending_claims :: "(tcp_channel_id, nat) hmap"
  next_conn_seq :: u32
  next_channel_seq :: u32
  next_request_seq :: u32
  accept_limit :: "tcp_channel_kind \<Rightarrow> u64"
  accept_pending :: "tcp_channel_kind \<Rightarrow> u64"
  vports :: "tcp_channel_kind \<Rightarrow> listen_vports option"
  callback :: "tcp_channel_kind \<Rightarrow> bool"
  t_activity :: tunnel_activity
  spawned :: "task list"
  claim_answers :: "(nat \<times> nat p2p_result) list"
  open_answers :: "(nat \<times> nat p2p_result) list"

definition tcp_tunnel_new ::
    "p2p_id \<Rightarrow> p2p_id \<Rightarrow> candidate_id \<Rightarrow> tunnel_form \<Rightarrow> local_tunnel_phase \<Rightarrow> instant \<Rightarrow> tcp_tunnel" where
  "tcp_tunnel_new local remote candidate f initial_phase now =
     \<lparr>t_local_id = local, t_remote_id = remote, t_candidate_id = candidate, form = f,
      phase = initial_phase, t_closed = False, last_recv_at = now, last_pong_at = now,
      data_conns = [], entries = [], leases = [], next_ref = 0, pending_drains = [],
      pending_open_requests = [], pending_claims = [], next_conn_seq = 1, next_channel_seq = 1,
      next_request_seq = 1, accept_limit = (\<lambda>_. 16), accept_pending = (\<lambda>_. 0),
      vports = (\<lambda>_. None), callback = (\<lambda>_. False), t_activity = activity_new now, spawned = [],
      claim_answers = [], open_answers = []\<rparr>"

subsection \<open>Ids\<close>

definition TCP_LOCAL_ID_HIGH_BIT :: u32 where
  "TCP_LOCAL_ID_HIGH_BIT = push_bit 31 1"

lemma low_bits: "and c (not TCP_LOCAL_ID_HIGH_BIT) = take_bit 31 c"
proof -
  have "not TCP_LOCAL_ID_HIGH_BIT = (mask 31 :: u32)"
    by (simp add: TCP_LOCAL_ID_HIGH_BIT_def mask_eq_exp_minus_1 push_bit_eq_mult)
  then show ?thesis by (simp add: take_bit_eq_mask)
qed

lemma unat_low_bits: "unat (take_bit 31 (c :: u32)) = unat c mod 2 ^ 31"
  by (simp add: unsigned_take_bit_eq take_bit_nat_def)

lemma low_bits_next: "take_bit 31 c = 0 \<Longrightarrow> take_bit 31 (c + 1) \<noteq> (0 :: u32)"
proof
  assume "take_bit 31 c = 0" and "take_bit 31 (c + 1) = 0"
  then have "unat c mod 2 ^ 31 = 0" "unat (c + 1) mod 2 ^ 31 = 0"
    using unat_low_bits [of c] unat_low_bits [of "c + 1"] by simp_all
  moreover have "unat (c + 1) = (unat c + 1) mod 2 ^ 32" by (simp add: unat_word_ariths)
  moreover have "((unat c + 1) mod 2 ^ 32) mod 2 ^ 31 = (unat c + 1) mod 2 ^ 31"
    by (rule mod_mod_cancel) simp
  ultimately show False by (simp add: mod_Suc split: if_splits)
qed

text \<open>\<open>next_local_id_value\<close>: the loop skips a counter whose low 31 bits are zero.\<close>

function next_local_id_value :: "tunnel_form \<Rightarrow> u32 \<Rightarrow> u32 \<times> u32" where
  "next_local_id_value f counter =
     (let seq = and counter (not TCP_LOCAL_ID_HIGH_BIT); counter' = counter + 1
      in if seq = 0 then next_local_id_value f counter'
         else ((case f of Passive \<Rightarrow> or TCP_LOCAL_ID_HIGH_BIT seq | _ \<Rightarrow> seq), counter'))"
  by pat_completeness auto

termination
  by (relation "measure (\<lambda>(f, c). if take_bit 31 c = 0 then 1 else 0)")
    (auto simp: low_bits low_bits_next)

declare next_local_id_value.simps [simp del]

definition next_lease_seq :: "tcp_lease_seq \<Rightarrow> tcp_lease_seq" where
  "next_lease_seq current =
     (let n = tunnel_value current + 1 in TunnelId (if n = 0 then 1 else n))"

definition next_local_conn_id :: "tcp_tunnel \<Rightarrow> tcp_tunnel \<times> tcp_conn_id" where
  "next_local_conn_id s =
     (let (v, c) = next_local_id_value (form s) (next_conn_seq s) in (s\<lparr>next_conn_seq := c\<rparr>, TunnelId v))"

definition next_local_channel_id :: "tcp_tunnel \<Rightarrow> tcp_tunnel \<times> tcp_channel_id" where
  "next_local_channel_id s =
     (let (v, c) = next_local_id_value (form s) (next_channel_seq s) in (s\<lparr>next_channel_seq := c\<rparr>, TunnelId v))"

definition next_local_request_id :: "tcp_tunnel \<Rightarrow> tcp_tunnel \<times> tcp_request_id" where
  "next_local_request_id s =
     (let (v, c) = next_local_id_value (form s) (next_request_seq s) in (s\<lparr>next_request_seq := c\<rparr>, TunnelId v))"

subsection \<open>Table and heap\<close>

definition spawn :: "task \<Rightarrow> tcp_tunnel \<Rightarrow> tcp_tunnel" where
  "spawn t s = s\<lparr>spawned := spawned s @ [t]\<rparr>"

definition upd_entry :: "nat \<Rightarrow> (data_conn_entry \<Rightarrow> data_conn_entry) \<Rightarrow> tcp_tunnel \<Rightarrow> tcp_tunnel" where
  "upd_entry r f s =
     (case hm_get (entries s) r of None \<Rightarrow> s | Some e \<Rightarrow> s\<lparr>entries := hm_insert r (f e) (entries s)\<rparr>)"

definition alloc_entry :: "data_conn_entry \<Rightarrow> tcp_tunnel \<Rightarrow> tcp_tunnel \<times> nat" where
  "alloc_entry e s =
     (s\<lparr>entries := hm_insert (next_ref s) e (entries s), next_ref := next_ref s + 1\<rparr>, next_ref s)"

definition register_entry :: "nat \<Rightarrow> tcp_conn_id \<Rightarrow> tcp_tunnel \<Rightarrow> tcp_tunnel \<times> unit p2p_result" where
  "register_entry r conn s =
     (if hm_get (data_conns s) conn \<noteq> None then (s, Inl Conflict)
      else (s\<lparr>data_conns := hm_insert conn r (data_conns s)\<rparr>, Inr ()))"

definition remove_entry :: "tcp_conn_id \<Rightarrow> tcp_tunnel \<Rightarrow> tcp_tunnel" where
  "remove_entry conn s = s\<lparr>data_conns := hm_remove conn (data_conns s)\<rparr>"

definition remove_entry_if_same :: "nat \<Rightarrow> tcp_conn_id \<Rightarrow> tcp_tunnel \<Rightarrow> tcp_tunnel" where
  "remove_entry_if_same r conn s =
     (if hm_get (data_conns s) conn = Some r then remove_entry conn s else s)"

text \<open>\<open>get_entry\<close>, with the entry itself.\<close>

definition get_entry :: "tcp_conn_id \<Rightarrow> tcp_tunnel \<Rightarrow> (nat \<times> data_conn_entry) option" where
  "get_entry conn s =
     (case hm_get (data_conns s) conn of None \<Rightarrow> None
      | Some r \<Rightarrow> map_option (\<lambda>e. (r, e)) (hm_get (entries s) r))"

definition idle_pool_len :: "tcp_tunnel \<Rightarrow> nat" where
  "idle_pool_len s =
     length [r. (c, r) \<leftarrow> data_conns s, (case hm_get (entries s) r of Some e \<Rightarrow> e_state e = Idle | None \<Rightarrow> False)]"

definition drop_stream :: "data_conn_entry \<Rightarrow> data_conn_entry" where
  "drop_stream e = e\<lparr>e_stream := None\<rparr>"

subsection \<open>Results\<close>

fun claim_result_to_error :: "claim_conn_ack_result \<Rightarrow> p2p_error_code" where
  "claim_result_to_error AckSuccess = Ok"
| "claim_result_to_error AckConflictLost = Conflict"
| "claim_result_to_error AckRetired = Interrupted"
| "claim_result_to_error AckVportNotFound = PortNotListen"
| "claim_result_to_error AckLeaseMismatch = Reject"
| "claim_result_to_error AckNotIdle = Reject"
| "claim_result_to_error AckProtocolError = Reject"
| "claim_result_to_error AckListenerClosed = Reject"
| "claim_result_to_error AckAcceptQueueFull = Reject"

definition claim_record_matches :: "claim_conn_req \<Rightarrow> recent_claim_record \<Rightarrow> bool" where
  "claim_record_matches q r \<longleftrightarrow>
     creq_channel_id q = rc_channel_id r \<and> creq_lease_seq q = rc_lease_seq r \<and>
     creq_claim_nonce q = rc_claim_nonce r \<and> creq_kind q = rc_kind r \<and> creq_purpose q = rc_purpose r"

definition claim_response_cmd :: "claim_conn_req \<Rightarrow> recent_claim_response \<Rightarrow> tcp_control_cmd" where
  "claim_response_cmd q resp =
     CmdClaimConnAck \<lparr>cack_channel_id = creq_channel_id q, cack_conn_id = creq_conn_id q,
       cack_lease_seq = creq_lease_seq q,
       cack_result = ack_result_as_u8 (case resp of RespAck \<Rightarrow> AckSuccess | RespErr r \<Rightarrow> r)\<rparr>"

fun correlation_error_code :: "correlation_error \<Rightarrow> p2p_error_code" where
  "correlation_error_code DuplicateArrival = AlreadyExists"
| "correlation_error_code ConnIdMismatch = InvalidData"
| "correlation_error_code ArrivalNotStaged = ErrorState"
| "correlation_error_code AlreadyTerminal = Interrupted"

fun open_data_resp_error :: "open_data_conn_resp_result \<Rightarrow> p2p_error_code" where
  "open_data_resp_error OpenSuccess = InvalidData"
| "open_data_resp_error OpenConnectFailed = ConnectFailed"
| "open_data_resp_error OpenProtocolError = InvalidData"
| "open_data_resp_error OpenInternalError = InternalError"

definition open_data_resp_result_from_error :: "p2p_error_code \<Rightarrow> open_data_conn_resp_result" where
  "open_data_resp_result_from_error e =
     (if e \<in> {ConnectFailed, ConnectInterZoneFailed, ConnectionRefused, ConnectionReset, ConnectionAborted,
              NotConnected, AddrNotAvailable, Timeout, TlsError} then OpenConnectFailed
      else if e \<in> {InvalidParam, InvalidFormat, InvalidInput, InvalidData, Reject, Unmatch, NotMatch}
      then OpenProtocolError else OpenInternalError)"

definition validate_remote_first_claim :: "bool \<Rightarrow> tcp_lease_seq \<Rightarrow> claim_conn_ack_result + unit" where
  "validate_remote_first_claim first_local seq =
     (if seq \<noteq> TunnelId 1 then Inl AckLeaseMismatch
      else if first_local then Inl AckProtocolError else Inr ())"

definition local_simultaneous_claim_wins :: "p2p_id \<Rightarrow> p2p_id \<Rightarrow> u64 \<Rightarrow> u64 \<Rightarrow> bool" where
  "local_simultaneous_claim_wins local remote local_nonce remote_nonce =
     (if local_nonce = remote_nonce then id_bytes local > id_bytes remote
      else local_nonce > remote_nonce)"

subsection \<open>Retiring connections\<close>

definition send_pending_claim_result :: "tcp_channel_id \<Rightarrow> nat p2p_result \<Rightarrow> tcp_tunnel \<Rightarrow> tcp_tunnel" where
  "send_pending_claim_result ch res s =
     (case hm_get (pending_claims s) ch of
        None \<Rightarrow> s
      | Some w \<Rightarrow> s\<lparr>pending_claims := hm_remove ch (pending_claims s),
                    claim_answers := claim_answers s @ [(w, res)]\<rparr>)"

definition clear_pending_drains_for_conn :: "tcp_conn_id \<Rightarrow> tcp_tunnel \<Rightarrow> tcp_tunnel" where
  "clear_pending_drains_for_conn conn s =
     s\<lparr>pending_drains := hm_retain (\<lambda>(c, _) _. c \<noteq> conn) (pending_drains s)\<rparr>"

definition clear_pending_drain_for_entry ::
    "tcp_conn_id \<Rightarrow> tcp_lease_seq \<Rightarrow> tcp_tunnel \<Rightarrow> tcp_tunnel" where
  "clear_pending_drain_for_entry conn seq s =
     s\<lparr>pending_drains := hm_remove (conn, seq) (pending_drains s)\<rparr>"

definition retire_plain_entry :: "nat \<Rightarrow> p2p_error_code \<Rightarrow> tcp_tunnel \<Rightarrow> tcp_tunnel" where
  "retire_plain_entry r reason s =
     (case hm_get (entries s) r of
        None \<Rightarrow> s
      | Some e \<Rightarrow>
          let s1 = upd_entry r (\<lambda>e. drop_stream (e\<lparr>e_state := EntryRetired\<rparr>)) s;
              s2 = remove_entry_if_same r (e_conn_id e) (clear_pending_drains_for_conn (e_conn_id e) s1)
          in (case e_state e of
                Claiming c \<Rightarrow> send_pending_claim_result (cl_channel_id c) (Inl reason) s2
              | _ \<Rightarrow> s2))"

text \<open>The effects of a lease on its connection and its tunnel.\<close>

definition entry_alive :: "lease_context \<Rightarrow> tcp_tunnel \<Rightarrow> bool" where
  "entry_alive l s = (hm_get (data_conns s) (l_conn_id l) = Some (l_entry l))"

definition mark_draining :: "nat \<Rightarrow> data_conn_entry \<Rightarrow> data_conn_entry" where
  "mark_draining lr e = (case e_state e of Bound _ \<Rightarrow> e\<lparr>e_state := Draining lr\<rparr> | _ \<Rightarrow> e)"

definition entry_to_idle :: "sock \<Rightarrow> data_conn_entry \<Rightarrow> data_conn_entry" where
  "entry_to_idle k e =
     (let e1 = e\<lparr>e_stream := Some k\<rparr>
      in case e_state e1 of Bound _ \<Rightarrow> e1\<lparr>e_state := Idle\<rparr> | Draining _ \<Rightarrow> e1\<lparr>e_state := Idle\<rparr> | _ \<Rightarrow> e1)"

definition lease_effect_on :: "nat \<Rightarrow> lease_context \<Rightarrow> lease_effect \<Rightarrow> tcp_tunnel \<Rightarrow> tcp_tunnel" where
  "lease_effect_on lr l eff s =
     (case eff of
        SendCmd c \<Rightarrow> spawn (TaskSend lr c) s
      | ArmDrainTimeout t \<Rightarrow> spawn (TaskDrainTimeout lr t) s
      | SpawnHiddenRead \<Rightarrow> spawn (TaskHiddenRead lr) s
      | ScheduleFinalize \<Rightarrow> spawn (TaskFinalize lr) s
      | MarkDraining \<Rightarrow> if entry_alive l s then upd_entry (l_entry l) (mark_draining lr) s else s
      | ToIdle k \<Rightarrow> if entry_alive l s then upd_entry (l_entry l) (entry_to_idle k) s else s
      | CloseEntry \<Rightarrow>
          if entry_alive l s
          then remove_entry (l_conn_id l) (upd_entry (l_entry l) (\<lambda>e. e\<lparr>e_state := EntryRetired\<rparr>) s)
          else s
      | RetireEntry reason \<Rightarrow>
          if entry_alive l s
          then send_pending_claim_result (l_channel_id l) (Inl reason)
                 (remove_entry (l_conn_id l)
                   (clear_pending_drain_for_entry (l_conn_id l) (l_lease_seq l)
                     (upd_entry (l_entry l) (\<lambda>e. e\<lparr>e_state := EntryRetired\<rparr>) s)))
          else s)"

definition lease_do :: "nat \<Rightarrow> lease_op \<Rightarrow> tcp_tunnel \<Rightarrow> tcp_tunnel" where
  "lease_do lr f s =
     (case hm_get (leases s) lr of
        None \<Rightarrow> s
      | Some l \<Rightarrow>
          let (l', es) = f l
          in fold (lease_effect_on lr l') es (s\<lparr>leases := hm_insert lr l' (leases s)\<rparr>))"

subsection \<open>Reverse opens\<close>

definition answer_open :: "nat \<Rightarrow> nat p2p_result \<Rightarrow> tcp_tunnel \<Rightarrow> tcp_tunnel" where
  "answer_open w res s = s\<lparr>open_answers := open_answers s @ [(w, res)]\<rparr>"

definition retire_staged :: "pending_open_request \<Rightarrow> p2p_error_code \<Rightarrow> tcp_tunnel \<Rightarrow> tcp_tunnel" where
  "retire_staged p reason s =
     (case por_staged_entry p of None \<Rightarrow> s | Some r \<Rightarrow> retire_plain_entry r reason s)"

text \<open>The event of \<open>take_terminal_pending_open_request\<close> changes only the request that is taken out.\<close>

definition take_terminal_pending_open_request ::
    "tcp_request_id \<Rightarrow> correlation_event \<Rightarrow> tcp_tunnel \<Rightarrow> tcp_tunnel \<times> pending_open_request option" where
  "take_terminal_pending_open_request q ev s =
     (case hm_get (pending_open_requests s) q of
        None \<Rightarrow> (s, None)
      | Some p \<Rightarrow>
          (s\<lparr>pending_open_requests := hm_remove q (pending_open_requests s)\<rparr>,
           Some (p\<lparr>por_correlation := fst (correlation_apply ev (por_correlation p))\<rparr>)))"

definition fail_taken :: "pending_open_request \<Rightarrow> p2p_error_code \<Rightarrow> tcp_tunnel \<Rightarrow> tcp_tunnel" where
  "fail_taken p e s =
     (let s1 = retire_staged p e s
      in case por_sender p of None \<Rightarrow> s1 | Some w \<Rightarrow> answer_open w (Inl e) s1)"

definition fail_pending_open_request :: "tcp_request_id \<Rightarrow> p2p_error_code \<Rightarrow> tcp_tunnel \<Rightarrow> tcp_tunnel" where
  "fail_pending_open_request q e s =
     (case take_terminal_pending_open_request q Failure s of
        (s1, None) \<Rightarrow> s1 | (s1, Some p) \<Rightarrow> fail_taken p e s1)"

definition cancel_pending_open_request :: "tcp_request_id \<Rightarrow> tcp_tunnel \<Rightarrow> tcp_tunnel" where
  "cancel_pending_open_request q s =
     (case take_terminal_pending_open_request q TerminalCleanup s of
        (s1, None) \<Rightarrow> s1 | (s1, Some p) \<Rightarrow> retire_staged p Interrupted s1)"

definition consume_completed_pending_open_request ::
    "tcp_request_id \<Rightarrow> nat \<Rightarrow> tcp_conn_id \<Rightarrow> tcp_tunnel \<Rightarrow> tcp_tunnel \<times> bool" where
  "consume_completed_pending_open_request q r conn s =
     (let can = (case hm_get (pending_open_requests s) q of
           None \<Rightarrow> False
         | Some p \<Rightarrow> por_sender p = None \<and> completed_conn_id (por_correlation p) = Some conn \<and>
                     por_staged_entry p = Some r)
      in (if can then s\<lparr>pending_open_requests := hm_remove q (pending_open_requests s)\<rparr> else s, can))"

text \<open>\<open>alive w\<close> says that the receiver of the waiter \<open>w\<close> was not dropped, so that sending to it
  succeeds.\<close>

definition deliver_open ::
    "(nat \<Rightarrow> bool) \<Rightarrow> tcp_request_id \<Rightarrow> nat \<Rightarrow> nat \<Rightarrow> tcp_tunnel \<Rightarrow> tcp_tunnel" where
  "deliver_open alive q w r s =
     (if alive w then answer_open w (Inr r) s else cancel_pending_open_request q s)"

definition set_pending_open ::
    "tcp_request_id \<Rightarrow> pending_open_request \<Rightarrow> tcp_tunnel \<Rightarrow> tcp_tunnel" where
  "set_pending_open q p s = s\<lparr>pending_open_requests := hm_insert q p (pending_open_requests s)\<rparr>"

definition handle_open_data_conn_resp ::
    "(nat \<Rightarrow> bool) \<Rightarrow> open_data_conn_resp \<Rightarrow> tcp_tunnel \<Rightarrow> tcp_tunnel \<times> unit p2p_result" where
  "handle_open_data_conn_resp alive resp s =
     (if (oresp_result resp = OpenSuccess) \<noteq> (oresp_conn_id resp \<noteq> None) then (s, Inl InvalidData)
      else (case oresp_conn_id resp of
          None \<Rightarrow> (fail_pending_open_request (oresp_request_id resp) (open_data_resp_error (oresp_result resp)) s, Inr ())
        | Some conn \<Rightarrow>
            (case hm_get (pending_open_requests s) (oresp_request_id resp) of
               None \<Rightarrow> (s, Inr ())
             | Some p \<Rightarrow>
                 let q = oresp_request_id resp;
                     (c, out) = correlation_apply (SuccessResponse conn) (por_correlation p);
                     p1 = p\<lparr>por_correlation := c\<rparr>;
                     fail = (\<lambda>p e. fail_taken p e
                        (s\<lparr>pending_open_requests := hm_remove q (pending_open_requests s)\<rparr>))
                 in (case out of
                       Wait \<Rightarrow> set_pending_open q p1 s
                     | Idempotent \<Rightarrow> set_pending_open q p1 s
                     | Complete _ \<Rightarrow>
                         let p2 = p1\<lparr>por_sender := None\<rparr>
                         in (case (por_sender p1, por_staged_entry p1) of
                               (Some w, Some r) \<Rightarrow> deliver_open alive q w r (set_pending_open q p2 s)
                             | _ \<Rightarrow> fail p2 ErrorState)
                     | Rejected err \<Rightarrow> fail p1 (correlation_error_code err)
                     | Terminal \<Rightarrow> fail p1 InvalidData, Inr ()))))"

text \<open>\<open>request_remote_data_connection\<close> up to its first \<open>await\<close>; then the two ways its wait can
  end without the peer: the request could not be written, or the time ran out.\<close>

definition request_remote_start :: "tcp_tunnel \<Rightarrow> tcp_tunnel \<times> tcp_request_id \<times> nat" where
  "request_remote_start s =
     (let (s1, q) = next_local_request_id s; w = next_ref s1
      in (set_pending_open q \<lparr>por_sender = Some w, por_staged_entry = None, por_correlation = correlation_new\<rparr>
            (s1\<lparr>next_ref := w + 1\<rparr>), q, w))"

definition request_remote_gives_up :: "p2p_error_code \<Rightarrow> tcp_request_id \<Rightarrow> tcp_tunnel \<Rightarrow> tcp_tunnel" where
  "request_remote_gives_up reason q s =
     (case take_terminal_pending_open_request q TerminalCleanup s of
        (s1, None) \<Rightarrow> s1 | (s1, Some p) \<Rightarrow> retire_staged p reason s1)"

definition request_remote_got :: "tcp_request_id \<Rightarrow> nat \<Rightarrow> tcp_conn_id \<Rightarrow> tcp_tunnel \<Rightarrow> tcp_tunnel \<times> nat p2p_result" where
  "request_remote_got q r conn s =
     (case consume_completed_pending_open_request q r conn s of
        (s1, True) \<Rightarrow> (spawn (TaskFirstClaim r) s1, Inr r)
      | (s1, False) \<Rightarrow> (retire_plain_entry r Interrupted s1, Inl Interrupted))"

text \<open>\<open>promote_connected\<close>.\<close>

definition promote_connected :: "instant \<Rightarrow> tcp_tunnel \<Rightarrow> tcp_tunnel" where
  "promote_connected now s =
     (if phase s = PassiveReady
      then s\<lparr>phase := PhaseConnected, t_activity := note_activity now (t_activity s)\<rparr> else s)"

text \<open>\<open>on_incoming_data_connection\<close>, up to the frame that answers the peer: the answer, the entry
  that was staged or registered, and the error to return. A direct connection is registered after
  the answer is written (\<open>incoming_direct\<close>), a reverse one is staged before.\<close>

definition incoming_check ::
    "tcp_connection_hello \<Rightarrow> tcp_tunnel \<Rightarrow> (data_conn_ready_result \<times> p2p_error_code) + tcp_conn_id" where
  "incoming_check hello s =
     (case hello_conn_id hello of
        None \<Rightarrow> Inl (DcProtocolError, InvalidParam)
      | Some conn \<Rightarrow>
          if hello_role hello \<noteq> RoleData then Inl (DcProtocolError, InvalidParam)
          else if get_entry conn s \<noteq> None then Inl (DcConnIdConflict, Conflict)
          else Inr conn)"

definition incoming_direct :: "sock \<Rightarrow> tcp_conn_id \<Rightarrow> tcp_tunnel \<Rightarrow> tcp_tunnel \<times> unit p2p_result" where
  "incoming_direct stream conn s =
     (let (s1, r) = alloc_entry (data_conn_entry_new stream conn False False) s
      in case register_entry r conn s1 of
           (s2, Inl e) \<Rightarrow> (upd_entry r drop_stream s2, Inl e)
         | (s2, Inr _) \<Rightarrow> (spawn (TaskFirstClaim r) s2, Inr ()))"

definition incoming_stage ::
    "sock \<Rightarrow> tcp_conn_id \<Rightarrow> tcp_request_id \<Rightarrow> tcp_tunnel \<Rightarrow>
     tcp_tunnel \<times> nat \<times> (data_conn_ready_result \<times> p2p_error_code) option" where
  "incoming_stage stream conn q s =
     (let (s1, r) = alloc_entry (data_conn_entry_new stream conn False True) s
      in case hm_get (pending_open_requests s1) q of
           None \<Rightarrow> (upd_entry r drop_stream s1, r, Some (DcInternalError, NotFound))
         | Some p \<Rightarrow>
             let (c, out) = correlation_apply (Arrival conn) (por_correlation p);
                 s2 = set_pending_open q (p\<lparr>por_correlation := c\<rparr>) s1;
                 fail = (\<lambda>e. (upd_entry r drop_stream (fail_pending_open_request q e s2), r,
                              Some (DcProtocolError, e)))
             in (case out of
                   Wait \<Rightarrow> (set_pending_open q (p\<lparr>por_correlation := c, por_staged_entry := Some r\<rparr>) s1, r, None)
                 | Rejected err \<Rightarrow> fail (correlation_error_code err)
                 | Idempotent \<Rightarrow> fail AlreadyExists
                 | Complete _ \<Rightarrow> fail ErrorState
                 | Terminal \<Rightarrow> fail ErrorState))"

text \<open>The second half of a reverse arrival: the \<open>Success\<close> frame was written or not.\<close>

definition incoming_ready_failed :: "tcp_request_id \<Rightarrow> p2p_error_code \<Rightarrow> tcp_tunnel \<Rightarrow> tcp_tunnel" where
  "incoming_ready_failed q e s = fail_pending_open_request q e s"

definition incoming_register ::
    "(nat \<Rightarrow> bool) \<Rightarrow> nat \<Rightarrow> tcp_conn_id \<Rightarrow> tcp_request_id \<Rightarrow> tcp_tunnel \<Rightarrow> tcp_tunnel \<times> unit p2p_result" where
  "incoming_register alive r conn q s =
     (let fail = (\<lambda>e s. (upd_entry r drop_stream (fail_pending_open_request q e s), Inl Interrupted))
      in case hm_get (pending_open_requests s) q of
           None \<Rightarrow> fail Interrupted s
         | Some p \<Rightarrow>
             if por_staged_entry p \<noteq> Some r then fail Interrupted s
             else if hm_get (data_conns s) conn \<noteq> None then fail Conflict s
             else
               let s1 = s\<lparr>data_conns := hm_insert conn r (data_conns s)\<rparr>;
                   (c, out) = correlation_apply (ArrivalRegistered conn) (por_correlation p);
                   s2 = set_pending_open q (p\<lparr>por_correlation := c\<rparr>) s1
               in (case out of
                     Wait \<Rightarrow> (s2, Inr ())
                   | Idempotent \<Rightarrow> (s2, Inr ())
                   | Complete _ \<Rightarrow>
                       (case por_sender p of
                          Some w \<Rightarrow>
                            (deliver_open alive q w r
                               (set_pending_open q (p\<lparr>por_correlation := c, por_sender := None\<rparr>) s1), Inr ())
                        | None \<Rightarrow> fail ErrorState s2)
                   | Rejected err \<Rightarrow> fail (correlation_error_code err) s2
                   | Terminal \<Rightarrow> fail ErrorState s2))"

text \<open>The whole of \<open>on_incoming_data_connection\<close> when nothing else happens while the answer is
  written; \<open>write_error\<close> is the error of that write, if it fails.\<close>

definition on_incoming_data_connection ::
    "(nat \<Rightarrow> bool) \<Rightarrow> sock \<Rightarrow> tcp_connection_hello \<Rightarrow> p2p_error_code option \<Rightarrow> instant \<Rightarrow> tcp_tunnel \<Rightarrow>
     tcp_tunnel \<times> unit p2p_result" where
  "on_incoming_data_connection alive stream hello write_error now s =
     (let s0 = promote_connected now s; refused = (\<lambda>e. case write_error of Some we \<Rightarrow> Inl we | None \<Rightarrow> Inl e)
      in case incoming_check hello s0 of
           Inl (_, e) \<Rightarrow> (s0, refused e)
         | Inr conn \<Rightarrow>
             (case hello_open_request_id hello of
                None \<Rightarrow>
                  (case write_error of Some we \<Rightarrow> (s0, Inl we) | None \<Rightarrow> incoming_direct stream conn s0)
              | Some q \<Rightarrow>
                  (case incoming_stage stream conn q s0 of
                     (s1, r, Some (_, e)) \<Rightarrow> (s1, refused e)
                   | (s1, r, None) \<Rightarrow>
                       (case write_error of
                          Some we \<Rightarrow> (incoming_ready_failed q we s1, Inl we)
                        | None \<Rightarrow> incoming_register alive r conn q s1))))"

text \<open>The end of \<open>create_data_connection\<close>, when the peer's \<open>DataConnReady\<close> has been read.\<close>

definition create_data_connection_ready ::
    "sock \<Rightarrow> tcp_conn_id \<Rightarrow> tcp_request_id option \<Rightarrow> data_conn_ready \<Rightarrow> bool \<Rightarrow> tcp_tunnel \<Rightarrow>
     tcp_tunnel \<times> nat p2p_result" where
  "create_data_connection_ready stream conn open_request ready extra_bytes s =
     (if ready_conn_id ready \<noteq> conn \<or> ready_candidate_id ready \<noteq> t_candidate_id s then (s, Inl InvalidData)
      else if ready_result ready \<noteq> DcSuccess then (s, Inl Reject)
      else if extra_bytes then (s, Inl InvalidData)
      else
        let (s1, r) = alloc_entry (data_conn_entry_new stream conn True (open_request = None)) s
        in case register_entry r conn s1 of
             (s2, Inl e) \<Rightarrow> (upd_entry r drop_stream s2, Inl e)
           | (s2, Inr _) \<Rightarrow> (if open_request = None then spawn (TaskFirstClaim r) s2 else s2, Inr r))"

text \<open>The task of \<open>start_first_claim_timeout\<close>, after its sleep.\<close>

definition first_claim_timeout :: "nat \<Rightarrow> tcp_tunnel \<Rightarrow> tcp_tunnel" where
  "first_claim_timeout r s =
     (case hm_get (entries s) r of
        Some e \<Rightarrow> if e_state e = FirstClaimPending then retire_plain_entry r Timeout s else s
      | None \<Rightarrow> s)"

subsection \<open>Drain facts that arrive early\<close>

definition pending_drain_at :: "tcp_conn_id \<times> tcp_lease_seq \<Rightarrow> instant \<Rightarrow> tcp_tunnel \<Rightarrow> pending_drain_facts" where
  "pending_drain_at key now s =
     (case hm_get (pending_drains s) key of Some f \<Rightarrow> f
      | None \<Rightarrow> \<lparr>pd_write_fin = None, pd_read_done = None, pd_updated_at = now\<rparr>)"

definition insert_pending_write_fin ::
    "write_fin \<Rightarrow> instant \<Rightarrow> tcp_tunnel \<Rightarrow> tcp_tunnel \<times> unit p2p_result" where
  "insert_pending_write_fin fin now s =
     (let key = (fin_conn_id fin, fin_lease_seq fin); facts = pending_drain_at key now s
      in case pd_write_fin facts of
           Some old \<Rightarrow>
             (s\<lparr>pending_drains := hm_insert key facts (pending_drains s)\<rparr>,
              if fin_channel_id old \<noteq> fin_channel_id fin \<or> fin_final_tx_bytes old \<noteq> fin_final_tx_bytes fin
              then Inl Interrupted else Inr ())
         | None \<Rightarrow>
             (spawn (TaskPendingDrain key now)
                (s\<lparr>pending_drains := hm_insert key (facts\<lparr>pd_write_fin := Some fin, pd_updated_at := now\<rparr>)
                     (pending_drains s)\<rparr>), Inr ()))"

definition insert_pending_read_done ::
    "read_done \<Rightarrow> instant \<Rightarrow> tcp_tunnel \<Rightarrow> tcp_tunnel \<times> unit p2p_result" where
  "insert_pending_read_done d now s =
     (let key = (done_conn_id d, done_lease_seq d); facts = pending_drain_at key now s
      in case pd_read_done facts of
           Some old \<Rightarrow>
             (s\<lparr>pending_drains := hm_insert key facts (pending_drains s)\<rparr>,
              if done_channel_id old \<noteq> done_channel_id d \<or> done_final_rx_bytes old \<noteq> done_final_rx_bytes d
              then Inl Interrupted else Inr ())
         | None \<Rightarrow>
             (spawn (TaskPendingDrain key now)
                (s\<lparr>pending_drains := hm_insert key (facts\<lparr>pd_read_done := Some d, pd_updated_at := now\<rparr>)
                     (pending_drains s)\<rparr>), Inr ()))"

definition take_pending_drain ::
    "tcp_conn_id \<Rightarrow> tcp_lease_seq \<Rightarrow> tcp_tunnel \<Rightarrow> tcp_tunnel \<times> pending_drain_facts option" where
  "take_pending_drain conn seq s =
     (s\<lparr>pending_drains := hm_remove (conn, seq) (pending_drains s)\<rparr>, hm_get (pending_drains s) (conn, seq))"

text \<open>The task of \<open>schedule_pending_drain_timeout\<close>, after its sleep.\<close>

definition pending_drain_timeout ::
    "tcp_conn_id \<times> tcp_lease_seq \<Rightarrow> instant \<Rightarrow> tcp_tunnel \<Rightarrow> tcp_tunnel" where
  "pending_drain_timeout key updated_at s =
     (case hm_get (pending_drains s) key of
        None \<Rightarrow> s
      | Some f \<Rightarrow>
          if pd_updated_at f \<noteq> updated_at then s
          else (case get_entry (fst key) s of
              Some (r, e) \<Rightarrow> retire_plain_entry r Interrupted s
            | None \<Rightarrow> clear_pending_drain_for_entry (fst key) (snd key) s))"

definition drain_timeout :: "duration \<Rightarrow> duration" where
  "drain_timeout heartbeat_timeout = max (heartbeat_timeout + heartbeat_timeout) (from_secs 2)"

subsection \<open>Accepting channels\<close>

definition reserve_accept_slot ::
    "tcp_channel_kind \<Rightarrow> tcp_tunnel \<Rightarrow> tcp_tunnel \<times> (claim_conn_ack_result + unit)" where
  "reserve_accept_slot k s =
     (if t_closed s then (s, Inl AckListenerClosed)
      else if accept_pending s k \<ge> accept_limit s k then (s, Inl AckAcceptQueueFull)
      else (s\<lparr>accept_pending := (accept_pending s)(k := accept_pending s k + 1)\<rparr>, Inr ()))"

definition release_accept_slot :: "tcp_channel_kind \<Rightarrow> tcp_tunnel \<Rightarrow> tcp_tunnel" where
  "release_accept_slot k s = s\<lparr>accept_pending := (accept_pending s)(k := accept_pending s k - 1)\<rparr>"

text \<open>\<open>check_accept_target\<close>: whether the tunnel is closed when it is called, then, after the wait
  for the first listener, the listener and the slots as they are then.\<close>

definition check_accept_target ::
    "bool \<Rightarrow> tcp_channel_kind \<Rightarrow> tunnel_purpose \<Rightarrow> tcp_tunnel \<Rightarrow> claim_conn_ack_result + unit" where
  "check_accept_target closed_before k purpose s =
     (if closed_before then Inl AckListenerClosed
      else (case vports s k of
          None \<Rightarrow> Inl AckListenerClosed
        | Some is_listen \<Rightarrow>
            if \<not> is_listen purpose then Inl AckVportNotFound
            else if accept_pending s k \<ge> accept_limit s k then Inl AckAcceptQueueFull
            else Inr ()))"

definition listen_on :: "tcp_channel_kind \<Rightarrow> listen_vports \<Rightarrow> tcp_tunnel \<Rightarrow> tcp_tunnel \<times> unit p2p_result" where
  "listen_on k ports s =
     (case ensure_live (t_activity s) of
        Inl e \<Rightarrow> (s, Inl e)
      | Inr _ \<Rightarrow>
          if t_closed s then (s, Inl ErrorState)
          else (s\<lparr>vports := (vports s)(k := Some ports), callback := (callback s)(k := True)\<rparr>, Inr ()))"

subsection \<open>Binding a connection to a lease\<close>

definition bind_entry_to_lease ::
    "nat \<Rightarrow> tcp_channel_id \<Rightarrow> tcp_lease_seq \<Rightarrow> tcp_channel_kind \<Rightarrow> tunnel_purpose \<Rightarrow> bool \<Rightarrow> instant \<Rightarrow>
     tcp_tunnel \<Rightarrow> tcp_tunnel \<times> nat p2p_result" where
  "bind_entry_to_lease r channel seq kind purpose initiator now s =
     (case hm_get (entries s) r of
        None \<Rightarrow> (s, Inl ErrorState)
      | Some e \<Rightarrow>
          (case e_stream e of
             None \<Rightarrow> (s, Inl ErrorState)
           | Some stream \<Rightarrow>
               let lr = next_ref s;
                   l = lease_new r (e_conn_id e) channel seq kind purpose initiator stream;
                   s1 = upd_entry r (\<lambda>e. e\<lparr>e_stream := None, committed_lease_seq := seq, e_state := Bound lr,
                                        pending_fin := None, entry_pending_read_done := None\<rparr>)
                          (s\<lparr>leases := hm_insert lr l (leases s), next_ref := lr + 1\<rparr>);
                   (s2, drain) = take_pending_drain (e_conn_id e) seq s1;
                   facts = map_option (\<lambda>f. (pd_write_fin f, pd_read_done f)) drain
               in (lease_do lr (bind_lease seq channel (pending_fin e) (entry_pending_read_done e) facts now) s2,
                   Inr lr)))"

subsection \<open>The peer's claim\<close>

datatype claim_decision =
    Replay recent_claim_response | Accept | DecideErr claim_conn_ack_result | ConflictWin
  | ConflictLose tcp_channel_id

datatype claim_plan = Ready claim_decision | CheckThen claim_decision

definition plan_by_state :: "tcp_tunnel \<Rightarrow> claim_conn_req \<Rightarrow> data_conn_entry \<Rightarrow> claim_plan" where
  "plan_by_state s q e =
     (case e_state e of
        EntryRetired \<Rightarrow> Ready (DecideErr AckRetired)
      | FirstClaimPending \<Rightarrow>
          (case validate_remote_first_claim (first_claim_local e) (creq_lease_seq q) of
             Inr _ \<Rightarrow> CheckThen Accept | Inl res \<Rightarrow> Ready (DecideErr res))
      | Idle \<Rightarrow>
          if creq_lease_seq q \<noteq> next_lease_seq (committed_lease_seq e) then Ready (DecideErr AckLeaseMismatch)
          else CheckThen Accept
      | Claiming c \<Rightarrow>
          if creq_lease_seq q \<noteq> cl_lease_seq c then Ready (DecideErr AckLeaseMismatch)
          else if local_simultaneous_claim_wins (t_local_id s) (t_remote_id s) (cl_claim_nonce c)
                    (creq_claim_nonce q)
          then CheckThen ConflictWin else CheckThen (ConflictLose (cl_channel_id c))
      | Bound _ \<Rightarrow> Ready (DecideErr AckNotIdle)
      | Draining _ \<Rightarrow> Ready (DecideErr AckNotIdle))"

definition claim_plan_of :: "tcp_tunnel \<Rightarrow> claim_conn_req \<Rightarrow> data_conn_entry \<Rightarrow> claim_plan" where
  "claim_plan_of s q e =
     (case recent_claim e of
        Some rec \<Rightarrow>
          if rc_lease_seq rec = creq_lease_seq q
          then if claim_record_matches q rec then Ready (Replay (rc_response rec))
               else Ready (DecideErr AckProtocolError)
          else plan_by_state s q e
      | None \<Rightarrow> plan_by_state s q e)"

definition decide_claim :: "claim_plan \<Rightarrow> (claim_conn_ack_result + unit) \<Rightarrow> claim_decision" where
  "decide_claim plan checked =
     (case plan of Ready d \<Rightarrow> d
      | CheckThen d \<Rightarrow> (case checked of Inr _ \<Rightarrow> d | Inl reason \<Rightarrow> DecideErr reason))"

definition record_claim :: "nat \<Rightarrow> claim_conn_req \<Rightarrow> recent_claim_response \<Rightarrow> tcp_tunnel \<Rightarrow> tcp_tunnel" where
  "record_claim r q resp s =
     upd_entry r (\<lambda>e. e\<lparr>recent_claim := Some \<lparr>rc_channel_id = creq_channel_id q,
       rc_lease_seq = creq_lease_seq q, rc_claim_nonce = creq_claim_nonce q, rc_kind = creq_kind q,
       rc_purpose = creq_purpose q, rc_response = resp\<rparr>\<rparr>) s"

text \<open>\<open>ClaimReqProcessing\<close>: the response, the lease that was accepted, the local channel that
  lost.\<close>

type_synonym claim_processing = "tcp_control_cmd \<times> nat option \<times> tcp_channel_id option"

definition accept_claim ::
    "nat \<Rightarrow> claim_conn_req \<Rightarrow> tcp_channel_id option \<Rightarrow> instant \<Rightarrow> tcp_tunnel \<Rightarrow>
     tcp_tunnel \<times> claim_processing p2p_result" where
  "accept_claim r q lost now s =
     (case reserve_accept_slot (creq_kind q) s of
        (s1, Inl reason) \<Rightarrow>
          (record_claim r q (RespErr reason) s1, Inr (claim_response_cmd q (RespErr reason), None, lost))
      | (s1, Inr _) \<Rightarrow>
          (case bind_entry_to_lease r (creq_channel_id q) (creq_lease_seq q) (creq_kind q) (creq_purpose q)
                  False now s1 of
             (s2, Inl e) \<Rightarrow> (s2, Inl e)
           | (s2, Inr lr) \<Rightarrow>
               (record_claim r q RespAck s2, Inr (claim_response_cmd q RespAck, Some lr, lost))))"

text \<open>\<open>process_claim_req\<close> after the check of the target: the decision is carried out on the
  entry as it is then.\<close>

definition execute_claim ::
    "nat \<Rightarrow> claim_conn_req \<Rightarrow> claim_decision \<Rightarrow> instant \<Rightarrow> tcp_tunnel \<Rightarrow>
     tcp_tunnel \<times> claim_processing p2p_result" where
  "execute_claim r q d now s =
     (case d of
        Replay resp \<Rightarrow> (s, Inr (claim_response_cmd q resp, None, None))
      | DecideErr res \<Rightarrow>
          (record_claim r q (RespErr res) s, Inr (claim_response_cmd q (RespErr res), None, None))
      | ConflictWin \<Rightarrow>
          (record_claim r q (RespErr AckConflictLost) s,
           Inr (claim_response_cmd q (RespErr AckConflictLost), None, None))
      | ConflictLose ch \<Rightarrow> accept_claim r q (Some ch) now s
      | Accept \<Rightarrow> accept_claim r q None now s)"

text \<open>\<open>process_claim_req\<close> when the check does not have to wait, and \<open>enqueue_accepted\<close>.\<close>

definition process_claim_req ::
    "claim_conn_req \<Rightarrow> instant \<Rightarrow> tcp_tunnel \<Rightarrow> tcp_tunnel \<times> claim_processing p2p_result" where
  "process_claim_req q now s =
     (case get_entry (creq_conn_id q) s of
        None \<Rightarrow> (s, Inr (claim_response_cmd q (RespErr AckProtocolError), None, None))
      | Some (r, e) \<Rightarrow>
          execute_claim r q
            (decide_claim (claim_plan_of s q e)
               (check_accept_target (t_closed s) (creq_kind q) (creq_purpose q) s)) now s)"

definition enqueue_accepted ::
    "tcp_channel_kind \<Rightarrow> nat \<Rightarrow> instant \<Rightarrow> tcp_tunnel \<Rightarrow> tcp_tunnel \<times> unit p2p_result" where
  "enqueue_accepted k lr now s =
     (let s1 = release_accept_slot k s
      in if t_closed s1 \<or> \<not> callback s1 k then (s1\<lparr>t_activity := drop_pending now (t_activity s1)\<rparr>, Inr ())
         else
           let (a, res) = promote (if k = KindStream then 2 else 1) now (t_activity s1)
           in case res of
                Inl e \<Rightarrow> (s1\<lparr>t_activity := a\<rparr>, Inl e)
              | Inr _ \<Rightarrow> (spawn (TaskCallback k lr) (s1\<lparr>t_activity := a\<rparr>), Inr ()))"

definition handle_claim_req ::
    "claim_conn_req \<Rightarrow> instant \<Rightarrow> tcp_tunnel \<Rightarrow> tcp_tunnel \<times> tcp_control_cmd p2p_result" where
  "handle_claim_req q now s =
     (case begin_pending now (t_activity s) of
        (a, Inl e) \<Rightarrow> (s\<lparr>t_activity := a\<rparr>, Inl e)
      | (a, Inr _) \<Rightarrow>
          (case process_claim_req q now (s\<lparr>t_activity := a\<rparr>) of
             (s1, Inl e) \<Rightarrow> (s1\<lparr>t_activity := drop_pending now (t_activity s1)\<rparr>, Inl e)
           | (s1, Inr (resp, accepted, lost)) \<Rightarrow>
               let s2 = (case lost of None \<Rightarrow> s1
                         | Some ch \<Rightarrow> send_pending_claim_result ch (Inl Conflict) s1)
               in (case accepted of
                     None \<Rightarrow> (s2\<lparr>t_activity := drop_pending now (t_activity s2)\<rparr>, Inr resp)
                   | Some lr \<Rightarrow>
                       (case enqueue_accepted (creq_kind q) lr now s2 of
                          (s3, Inl e) \<Rightarrow> (s3, Inl e)
                        | (s3, Inr _) \<Rightarrow> (s3, Inr resp)))))"

subsection \<open>Our own claims\<close>

definition unclaimed_state :: "data_conn_entry \<Rightarrow> entry_state" where
  "unclaimed_state e =
     (if first_claim_local e \<and> committed_lease_seq e = TunnelId 0 then FirstClaimPending else Idle)"

definition find_claimable_entry :: "tcp_conn_id list \<Rightarrow> tcp_tunnel \<Rightarrow> nat option" where
  "find_claimable_entry skipped s =
     map_option snd (List.find (\<lambda>(c, r). c \<notin> set skipped \<and>
        (case hm_get (entries s) r of
           None \<Rightarrow> False
         | Some e \<Rightarrow> (case e_state e of FirstClaimPending \<Rightarrow> first_claim_local e | Idle \<Rightarrow> True | _ \<Rightarrow> False)))
       (data_conns s))"

text \<open>\<open>claim_entry\<close> up to the command it sends; \<open>nonce\<close> is the random number drawn.\<close>

definition claim_entry_start ::
    "nat \<Rightarrow> tcp_channel_kind \<Rightarrow> tunnel_purpose \<Rightarrow> u64 \<Rightarrow> tcp_tunnel \<Rightarrow>
     tcp_tunnel \<times> (claim_conn_req \<times> nat) p2p_result" where
  "claim_entry_start r kind purpose nonce s =
     (let (s1, channel) = next_local_channel_id s
      in case hm_get (entries s1) r of
           None \<Rightarrow> (s1, Inl ErrorState)
         | Some e \<Rightarrow>
             let seq = (case e_state e of
                   FirstClaimPending \<Rightarrow> if first_claim_local e then Some (TunnelId 1) else None
                 | Idle \<Rightarrow> Some (next_lease_seq (committed_lease_seq e))
                 | _ \<Rightarrow> None)
             in (case seq of
                   None \<Rightarrow> (s1, Inl ErrorState)
                 | Some q \<Rightarrow>
                     let w = next_ref s1;
                         s2 = upd_entry r (\<lambda>e. e\<lparr>e_state := Claiming \<lparr>cl_lease_seq = q,
                                cl_channel_id = channel, cl_claim_nonce = nonce, cl_kind = kind,
                                cl_purpose = purpose\<rparr>\<rparr>) s1
                     in (s2\<lparr>next_ref := w + 1, pending_claims := hm_insert channel w (pending_claims s2)\<rparr>,
                         Inr (\<lparr>creq_channel_id = channel, creq_kind = kind, creq_purpose = purpose,
                               creq_conn_id = e_conn_id e, creq_lease_seq = q, creq_claim_nonce = nonce\<rparr>, w))))"

definition claim_send_failed :: "nat \<Rightarrow> tcp_channel_id \<Rightarrow> tcp_tunnel \<Rightarrow> tcp_tunnel" where
  "claim_send_failed r channel s =
     upd_entry r (\<lambda>e. e\<lparr>e_state := unclaimed_state e\<rparr>)
       (s\<lparr>pending_claims := hm_remove channel (pending_claims s)\<rparr>)"

definition claim_timed_out :: "nat \<Rightarrow> tcp_channel_id \<Rightarrow> tcp_tunnel \<Rightarrow> tcp_tunnel" where
  "claim_timed_out r channel s =
     retire_plain_entry r Timeout (s\<lparr>pending_claims := hm_remove channel (pending_claims s)\<rparr>)"

definition handle_claim_ack :: "claim_conn_ack \<Rightarrow> instant \<Rightarrow> tcp_tunnel \<Rightarrow> tcp_tunnel \<times> unit p2p_result" where
  "handle_claim_ack ack now s =
     (case ack_result_try_from (cack_result ack) of
        None \<Rightarrow> (s, Inl InvalidData)
      | Some result \<Rightarrow>
          if hm_get (pending_claims s) (cack_channel_id ack) = None then (s, Inr ())
          else (case get_entry (cack_conn_id ack) s of
              None \<Rightarrow> (send_pending_claim_result (cack_channel_id ack) (Inl NotFound) s, Inr ())
            | Some (r, e) \<Rightarrow>
                (case e_state e of
                   Claiming c \<Rightarrow>
                     if cl_channel_id c \<noteq> cack_channel_id ack \<or> cl_lease_seq c \<noteq> cack_lease_seq ack
                     then (s, Inr ())
                     else if result \<noteq> AckSuccess
                     then (send_pending_claim_result (cack_channel_id ack) (Inl (claim_result_to_error result))
                             (upd_entry r (\<lambda>e. e\<lparr>e_state := unclaimed_state e\<rparr>) s), Inr ())
                     else (case bind_entry_to_lease r (cl_channel_id c) (cl_lease_seq c) (cl_kind c)
                                  (cl_purpose c) True now s of
                         (s1, Inl err) \<Rightarrow> (s1, Inl err)
                       | (s1, Inr lr) \<Rightarrow>
                           (send_pending_claim_result (cack_channel_id ack) (Inr lr) s1, Inr ()))
                 | _ \<Rightarrow> (s, Inr ()))))"

definition wait_until_connected :: "tcp_tunnel \<Rightarrow> unit p2p_result option" where
  "wait_until_connected s =
     (case phase s of PhaseConnected \<Rightarrow> Some (Inr ()) | PhaseClosed \<Rightarrow> Some (Inl Interrupted)
      | PhaseError \<Rightarrow> Some (Inl ErrorState) | PassiveReady \<Rightarrow> None)"

text \<open>\<open>create_data_connection_for_channel\<close> and \<open>open_channel\<close>. What they await is a
  parameter that may change the tunnel: \<open>create\<close> and \<open>request\<close> make a data connection from
  this side or ask the peer for one, \<open>claim\<close> is \<open>claim_entry\<close> from its start to its answer.\<close>

type_synonym entry_wait = "tcp_tunnel \<Rightarrow> tcp_tunnel \<times> nat p2p_result"

definition create_data_connection_for_channel :: "entry_wait \<Rightarrow> entry_wait \<Rightarrow> entry_wait" where
  "create_data_connection_for_channel create request s =
     (let (first, second) = (if form s = Passive then (request, create) else (create, request))
      in case first s of (s1, Inr r) \<Rightarrow> (s1, Inr r) | (s1, Inl _) \<Rightarrow> second s1)"

primrec open_channel_rounds ::
    "nat \<Rightarrow> entry_wait \<Rightarrow> (nat \<Rightarrow> entry_wait) \<Rightarrow> tcp_conn_id list \<Rightarrow> p2p_error_code option \<Rightarrow> entry_wait" where
  "open_channel_rounds 0 create claim skipped last_conflict s =
     (s, Inl (case last_conflict of Some e \<Rightarrow> e | None \<Rightarrow> ErrorState))"
| "open_channel_rounds (Suc n) create claim skipped last_conflict s =
     (case (case find_claimable_entry skipped s of Some r \<Rightarrow> (s, Inr r) | None \<Rightarrow> create s) of
        (s1, Inl e) \<Rightarrow> (s1, Inl e)
      | (s1, Inr r) \<Rightarrow>
          let conn = (case hm_get (entries s1) r of Some e \<Rightarrow> e_conn_id e | None \<Rightarrow> TunnelId 0)
          in (case claim r s1 of
                (s2, Inr lr) \<Rightarrow> (s2, Inr lr)
              | (s2, Inl e) \<Rightarrow>
                  if e = Conflict then open_channel_rounds n create claim (skipped @ [conn]) (Some e) s2
                  else (s2, Inl e)))"

definition open_channel :: "entry_wait \<Rightarrow> entry_wait \<Rightarrow> (nat \<Rightarrow> entry_wait) \<Rightarrow> entry_wait" where
  "open_channel create request claim s =
     (case wait_until_connected s of
        Some (Inl e) \<Rightarrow> (s, Inl e)
      | _ \<Rightarrow> open_channel_rounds 4 (create_data_connection_for_channel create request) claim [] None s)"

text \<open>\<open>open_stream\<close> and \<open>open_datagram\<close>: \<open>opened\<close> is what \<open>open_channel\<close> does and returns.\<close>

definition open_on :: "tcp_channel_kind \<Rightarrow> entry_wait \<Rightarrow> instant \<Rightarrow> instant \<Rightarrow> entry_wait" where
  "open_on k opened now now' s =
     (case begin_pending now (t_activity s) of
        (a, Inl e) \<Rightarrow> (s\<lparr>t_activity := a\<rparr>, Inl e)
      | (a, Inr _) \<Rightarrow>
          let s0 = s\<lparr>t_activity := a\<rparr>
          in if t_closed s then (s0\<lparr>t_activity := drop_pending now (t_activity s0)\<rparr>, Inl ErrorState)
             else (case opened s0 of
                 (s1, Inl e) \<Rightarrow> (s1\<lparr>t_activity := drop_pending now' (t_activity s1)\<rparr>, Inl e)
               | (s1, Inr lr) \<Rightarrow>
                   let (a1, res) = promote (if k = KindStream then 2 else 1) now' (t_activity s1)
                   in (s1\<lparr>t_activity := a1\<rparr>, map_sum id (\<lambda>_. lr) res)))"

subsection \<open>The peer's drain commands\<close>

definition is_unbound :: "entry_state \<Rightarrow> bool" where
  "is_unbound st = (st = FirstClaimPending \<or> st = Idle \<or> st = EntryRetired)"

definition handle_write_fin :: "write_fin \<Rightarrow> instant \<Rightarrow> tcp_tunnel \<Rightarrow> tcp_tunnel \<times> unit p2p_result" where
  "handle_write_fin fin now s =
     (case get_entry (fin_conn_id fin) s of
        None \<Rightarrow> (s, Inl InvalidData)
      | Some (r, e) \<Rightarrow>
          let bad = retire_plain_entry r Interrupted
          in (if is_unbound (e_state e) \<and> tunnel_id_lt (committed_lease_seq e) (fin_lease_seq fin) then bad s
              else case e_state e of
                  Claiming c \<Rightarrow>
                    if cl_lease_seq c \<noteq> fin_lease_seq fin then s
                    else if cl_channel_id c \<noteq> fin_channel_id fin then bad s
                    else (case insert_pending_write_fin fin now s of
                        (s1, Inl _) \<Rightarrow> bad s1
                      | (s1, Inr _) \<Rightarrow>
                          (case pending_fin e of
                             Some old \<Rightarrow>
                               if fin_channel_id old \<noteq> fin_channel_id fin \<or>
                                  fin_final_tx_bytes old \<noteq> fin_final_tx_bytes fin then bad s1 else s1
                           | None \<Rightarrow> upd_entry r (\<lambda>e. e\<lparr>pending_fin := Some fin\<rparr>) s1))
                | Bound lr \<Rightarrow> lease_do lr (lease_write_fin fin now) s
                | Draining lr \<Rightarrow> lease_do lr (lease_write_fin fin now) s
                | _ \<Rightarrow> s, Inr ()))"

definition handle_read_done :: "read_done \<Rightarrow> instant \<Rightarrow> tcp_tunnel \<Rightarrow> tcp_tunnel \<times> unit p2p_result" where
  "handle_read_done d now s =
     (case get_entry (done_conn_id d) s of
        None \<Rightarrow> (s, Inl InvalidData)
      | Some (r, e) \<Rightarrow>
          let bad = retire_plain_entry r Interrupted
          in (if is_unbound (e_state e) \<and> tunnel_id_lt (committed_lease_seq e) (done_lease_seq d) then bad s
              else case e_state e of
                  Claiming c \<Rightarrow>
                    if cl_lease_seq c \<noteq> done_lease_seq d then s
                    else if cl_channel_id c \<noteq> done_channel_id d then bad s
                    else (case insert_pending_read_done d now s of
                        (s1, Inl _) \<Rightarrow> bad s1
                      | (s1, Inr _) \<Rightarrow>
                          (case entry_pending_read_done e of
                             Some old \<Rightarrow>
                               if done_channel_id old \<noteq> done_channel_id d \<or>
                                  done_final_rx_bytes old \<noteq> done_final_rx_bytes d then bad s1 else s1
                           | None \<Rightarrow> upd_entry r (\<lambda>e. e\<lparr>entry_pending_read_done := Some d\<rparr>) s1))
                | Bound lr \<Rightarrow> lease_do lr (lease_read_done d) s
                | Draining lr \<Rightarrow> lease_do lr (lease_read_done d) s
                | _ \<Rightarrow> s, Inr ()))"

subsection \<open>Closing\<close>

definition close_pending_open :: "p2p_error_code \<Rightarrow> pending_open_request \<Rightarrow> tcp_tunnel \<Rightarrow> tcp_tunnel" where
  "close_pending_open reason p s = fail_taken p reason s"

definition answer_claim :: "nat p2p_result \<Rightarrow> nat \<Rightarrow> tcp_tunnel \<Rightarrow> tcp_tunnel" where
  "answer_claim res w s = s\<lparr>claim_answers := claim_answers s @ [(w, res)]\<rparr>"

text \<open>What \<open>close_local\<close> does with one data connection.\<close>

definition close_entry :: "p2p_error_code \<Rightarrow> nat \<Rightarrow> tcp_tunnel \<Rightarrow> tcp_tunnel" where
  "close_entry reason r s =
     (case hm_get (entries s) r of
        None \<Rightarrow> s
      | Some e \<Rightarrow>
          let s1 = upd_entry r (\<lambda>e. e\<lparr>e_no_reuse := True\<rparr>) s
          in (case e_state e of
                Bound lr \<Rightarrow>
                  lease_do lr (and_then (\<lambda>l. (l\<lparr>l_no_reuse := True\<rparr>, []))
                    (\<lambda>l. if ready_for_close l then retire_lease_arc reason l else (l, []))) s1
              | Draining lr \<Rightarrow>
                  lease_do lr (and_then (\<lambda>l. (l\<lparr>l_no_reuse := True\<rparr>, []))
                    (\<lambda>l. if ready_for_close l then retire_lease_arc reason l else (l, []))) s1
              | EntryRetired \<Rightarrow> upd_entry r drop_stream s1
              | _ \<Rightarrow> upd_entry r (\<lambda>e. drop_stream (e\<lparr>e_state := EntryRetired\<rparr>)) s1))"

definition close_local :: "local_tunnel_phase \<Rightarrow> p2p_error_code \<Rightarrow> tcp_tunnel \<Rightarrow> tcp_tunnel \<times> bool" where
  "close_local ph reason s =
     (let s0 = s\<lparr>t_activity := activity_retire (t_activity s)\<rparr>
      in if t_closed s then (s0, False)
         else
           let s1 = s0\<lparr>t_closed := True, callback := (\<lambda>_. False), phase := ph, pending_drains := [],
                      pending_open_requests := [], pending_claims := []\<rparr>;
               s2 = fold (\<lambda>(_, p). close_pending_open reason p) (pending_open_requests s) s1;
               s3 = fold (\<lambda>(_, w). answer_claim (Inl reason) w) (pending_claims s) s2;
               s4 = fold (\<lambda>(_, r). close_entry reason r) (data_conns s) s3
           in (s4, True))"

definition tunnel_drop :: "tcp_tunnel \<Rightarrow> tcp_tunnel" where
  "tunnel_drop s =
     s\<lparr>t_closed := True,
       phase := (if phase s = PhaseConnected \<or> phase s = PassiveReady then PhaseClosed else phase s),
       pending_open_requests := [], pending_claims := [], data_conns := []\<rparr>"

subsection \<open>The control connection\<close>

text \<open>\<open>handle_control_cmd\<close>; \<open>Data\<close> goes to the control streams, whose answer is \<open>on_data_res\<close>.
  The result holds the command to write back, if there is one.\<close>

definition handle_control_cmd ::
    "(nat \<Rightarrow> bool) \<Rightarrow> unit p2p_result \<Rightarrow> instant \<Rightarrow> tcp_control_cmd \<Rightarrow> tcp_tunnel \<Rightarrow>
     tcp_tunnel \<times> tcp_control_cmd option p2p_result" where
  "handle_control_cmd alive on_data_res now cmd s =
     (let quiet = (\<lambda>(s, res). (s, map_sum id (\<lambda>_. None) res))
      in case cmd of
           CmdPing p \<Rightarrow> (s, Inr (Some (CmdPong p)))
         | CmdPong _ \<Rightarrow> (s\<lparr>last_pong_at := now\<rparr>, Inr None)
         | CmdOpenDataConnReq q \<Rightarrow> (spawn (TaskReverseOpen (oreq_request_id q)) s, Inr None)
         | CmdOpenDataConnResp resp \<Rightarrow> quiet (handle_open_data_conn_resp alive resp s)
         | CmdClaimConnReq q \<Rightarrow> (let (s', res) = handle_claim_req q now s in (s', map_sum id Some res))
         | CmdClaimConnAck ack \<Rightarrow> quiet (handle_claim_ack ack now s)
         | CmdWriteFin fin \<Rightarrow> quiet (handle_write_fin fin now s)
         | CmdReadDone d \<Rightarrow> quiet (handle_read_done d now s)
         | CmdData _ \<Rightarrow> (s, map_sum id (\<lambda>_. None) on_data_res))"

text \<open>One round of \<open>control_recv_loop\<close> on a frame that was read or could not be read; the last
  component says that the loop goes on. \<open>written\<close> says whether the answer could be written.\<close>

definition control_recv ::
    "(nat \<Rightarrow> bool) \<Rightarrow> unit p2p_result \<Rightarrow> bool \<Rightarrow> instant \<Rightarrow> tcp_control_cmd p2p_result \<Rightarrow> tcp_tunnel \<Rightarrow>
     tcp_tunnel \<times> bool" where
  "control_recv alive on_data_res written now frame s =
     (case frame of
        Inl _ \<Rightarrow> (fst (close_local PhaseClosed Interrupted s), False)
      | Inr cmd \<Rightarrow>
          (case handle_control_cmd alive on_data_res now cmd
                  (promote_connected now (s\<lparr>last_recv_at := now\<rparr>)) of
             (s1, Inl _) \<Rightarrow> (fst (close_local PhaseError Interrupted s1), False)
           | (s1, Inr None) \<Rightarrow> (s1, True)
           | (s1, Inr (Some _)) \<Rightarrow>
               if written then (s1, True) else (fst (close_local PhaseError Interrupted s1), False)))"

text \<open>One round of \<open>heartbeat_loop\<close>: whether it pings, and whether the tunnel is given up.\<close>

definition elapsed_since :: "instant \<Rightarrow> instant \<Rightarrow> duration" where
  "elapsed_since now t = now - t"

definition heartbeat ::
    "duration \<Rightarrow> duration \<Rightarrow> bool \<Rightarrow> instant \<Rightarrow> tcp_tunnel \<Rightarrow> tcp_tunnel \<times> bool \<times> bool" where
  "heartbeat interval timeout ping_ok now s =
     (if t_closed s then (s, False, False)
      else if phase s \<noteq> PhaseConnected then (s, False, True)
      else
        let should_ping = (elapsed_since now (last_recv_at s) \<ge> interval)
        in if should_ping \<and> \<not> ping_ok then (fst (close_local PhaseError Interrupted s), True, False)
           else if elapsed_since now (last_pong_at s) \<ge> timeout \<and> elapsed_since now (last_recv_at s) \<ge> timeout
           then (fst (close_local PhaseError Timeout s), should_ping, False)
           else (s, should_ping, True))"

section \<open>Ids of the two ends\<close>

lemma next_local_id_cases:
  "next_local_id_value f c =
     (let c' = (if take_bit 31 c = 0 then c + 1 else c); seq = take_bit 31 c'
      in ((case f of Passive \<Rightarrow> or TCP_LOCAL_ID_HIGH_BIT seq | _ \<Rightarrow> seq), c' + 1))"
  using low_bits_next [of c]
  by (subst next_local_id_value.simps; subst next_local_id_value.simps) (simp add: low_bits Let_def)

lemma high_bit: "bit (or TCP_LOCAL_ID_HIGH_BIT v) 31" "\<not> bit (take_bit 31 (v :: u32)) 31"
proof -
  have H: "TCP_LOCAL_ID_HIGH_BIT = 2 ^ 31" by (simp add: TCP_LOCAL_ID_HIGH_BIT_def)
  show "bit (or TCP_LOCAL_ID_HIGH_BIT v) 31" unfolding H bit_or_iff bit_exp_iff by simp
  show "\<not> bit (take_bit 31 v) 31" by (simp add: bit_take_bit_iff)
qed

text \<open>the search for a local id ends after at most two rounds, whatever the
  32-bit counter holds and wherever it wraps, never returns zero, and marks the side: ids made by a
  passive end have the top bit set, those of an active end or a proxy have it clear. So the two ends
  of a tunnel, which number connections, channels and requests independently, never use the same
  id.\<close>

theorem local_ids_disjoint:
  "fst (next_local_id_value f c) \<noteq> 0 \<and>
   (bit (fst (next_local_id_value f c)) 31 \<longleftrightarrow> f = Passive) \<and>
   (snd (next_local_id_value f c) = c + 1 \<or> snd (next_local_id_value f c) = c + 2)"
proof -
  have nz: "take_bit 31 (if take_bit 31 d = 0 then d + 1 else d) \<noteq> (0 :: u32)" for d
    using low_bits_next [of d] by simp
  have b: "bit (fst (next_local_id_value g d)) 31 \<longleftrightarrow> g = Passive" for g d
    using high_bit by (cases g) (simp_all add: next_local_id_cases Let_def)
  have "fst (next_local_id_value f c) \<noteq> 0"
  proof (cases f)
    case Passive
    with b [of f c] show ?thesis by (metis bit_0_eq bot_apply bot_bool_def)
  qed (use nz [of c] in \<open>simp_all add: next_local_id_cases Let_def\<close>)
  then show ?thesis using b by (simp add: next_local_id_cases Let_def)
qed

section \<open>Claiming a connection\<close>

text \<open>when both ends claim the same idle connection at the same time, exactly one
  of them wins, and both know which: the larger nonce, or on equal nonces the larger peer id.\<close>

lemma simultaneous_claim_antisym:
  "a \<noteq> b \<Longrightarrow> local_simultaneous_claim_wins a b x y \<longleftrightarrow> \<not> local_simultaneous_claim_wins b a y x"
  by (cases a; cases b) (auto simp: local_simultaneous_claim_wins_def not_less_iff_gr_or_eq)

text \<open>What binding does when no drain fact is waiting: the effects are calm, they do not touch the
  table of connections.\<close>

definition no_facts :: "data_conn_entry \<Rightarrow> tcp_lease_seq \<Rightarrow> tcp_tunnel \<Rightarrow> bool" where
  "no_facts e seq s \<longleftrightarrow> pending_fin e = None \<and> entry_pending_read_done e = None \<and>
     hm_get (pending_drains s) (e_conn_id e, seq) = None"

fun calm :: "lease_effect \<Rightarrow> bool" where
  "calm (RetireEntry _) = False"
| "calm CloseEntry = False"
| "calm (ToIdle _) = False"
| "calm _ = True"

text \<open>The tunnel but for the states of its entries and its tasks.\<close>

definition frame_eq :: "tcp_tunnel \<Rightarrow> tcp_tunnel \<Rightarrow> bool" where
  "frame_eq s t \<longleftrightarrow> t\<lparr>entries := [], spawned := []\<rparr> = s\<lparr>entries := [], spawned := []\<rparr>"

definition entry_kept :: "nat \<Rightarrow> data_conn_entry \<Rightarrow> nat \<Rightarrow> tcp_tunnel \<Rightarrow> bool" where
  "entry_kept r e lr t \<longleftrightarrow>
     (\<exists>e'. hm_get (entries t) r = Some e' \<and> e'\<lparr>e_state := Idle\<rparr> = e\<lparr>e_state := Idle\<rparr> \<and>
        (e_state e' = Bound lr \<or> e_state e' = Draining lr))"

lemma frame_eq_refl: "frame_eq s s"
  by (simp add: frame_eq_def)

lemma frame_eq_step: "frame_eq s t \<Longrightarrow> frame_eq s (t\<lparr>entries := es\<rparr>) \<and> frame_eq s (t\<lparr>spawned := sp\<rparr>)"
  by (simp add: frame_eq_def)

lemma frame_eqD:
  "frame_eq s t \<Longrightarrow> data_conns t = data_conns s \<and> leases t = leases s \<and> pending_claims t = pending_claims s \<and>
     t_closed t = t_closed s \<and> claim_answers t = claim_answers s \<and> t_activity t = t_activity s"
  by (cases s; cases t) (simp add: frame_eq_def)

lemma entry_upd_eqD:
  "e'\<lparr>e_state := Idle\<rparr> = e\<lparr>e_state := Idle\<rparr> \<Longrightarrow>
     e_conn_id e' = e_conn_id e \<and> committed_lease_seq e' = committed_lease_seq e"
  by (cases e; cases e') simp

lemma calm_effect:
  assumes "calm eff" and "frame_eq s t" and "entry_kept r e lr t"
  shows "frame_eq s (lease_effect_on lr l eff t) \<and> entry_kept r e lr (lease_effect_on lr l eff t)"
  using assms frame_eq_step [OF assms(2)]
  by (cases eff) (auto simp: lease_effect_on_def spawn_def upd_entry_def entry_kept_def mark_draining_def
      hm.get_insert split: option.splits entry_state.splits)

lemma calm_effects:
  "list_all calm es \<Longrightarrow> frame_eq s t \<Longrightarrow> entry_kept r e lr t \<Longrightarrow>
   frame_eq s (fold (lease_effect_on lr l) es t) \<and> entry_kept r e lr (fold (lease_effect_on lr l) es t)"
  by (induction es arbitrary: t) (auto simp: calm_effect)

lemma lease_new_bound:
  assumes "bind_lease seq ch None None None now (lease_new r conn ch seq kind purpose initiator k) = (l, es)"
  shows "l_channel_id l = ch \<and> l_lease_seq l = seq \<and> l_conn_id l = conn \<and> local_initiator l = initiator \<and>
         \<not> l_retired l \<and> l_entry l = r \<and> list_all calm es"
  using assms
  by (cases kind; cases initiator)
    (auto simp: bind_lease_def bind_facts_def and_then_def lease_new_def spawn_send_write_fin_def
      note_drain_progress_def drain_timeout_active_def Let_def)

definition bound_to :: "nat \<Rightarrow> tcp_channel_id \<Rightarrow> tcp_lease_seq \<Rightarrow> bool \<Rightarrow> tcp_tunnel \<Rightarrow> bool" where
  "bound_to r ch seq initiator s \<longleftrightarrow>
     (\<exists>e lr l. hm_get (entries s) r = Some e \<and> (e_state e = Bound lr \<or> e_state e = Draining lr) \<and>
        committed_lease_seq e = seq \<and> hm_get (leases s) lr = Some l \<and> l_channel_id l = ch \<and>
        l_lease_seq l = seq \<and> l_conn_id l = e_conn_id e \<and> local_initiator l = initiator \<and> \<not> l_retired l)"

lemma bind_entry_ok:
  assumes "hm_get (entries s) r = Some e" and "e_stream e = Some k" and "no_facts e seq s"
  obtains s' where "bind_entry_to_lease r ch seq kind purpose initiator now s = (s', Inr (next_ref s))"
    and "bound_to r ch seq initiator s'" and "data_conns s' = data_conns s"
    and "pending_claims s' = pending_claims s" and "t_closed s' = t_closed s"
    and "claim_answers s' = claim_answers s" and "t_activity s' = t_activity s"
    and "\<exists>e'. hm_get (entries s') r = Some e' \<and> e_conn_id e' = e_conn_id e"
proof -
  let ?lr = "next_ref s"
  let ?l0 = "lease_new r (e_conn_id e) ch seq kind purpose initiator k"
  obtain l es where b: "bind_lease seq ch None None None now ?l0 = (l, es)" by fastforce
  note L = lease_new_bound [OF b]
  let ?e1 = "e\<lparr>e_stream := None, committed_lease_seq := seq, e_state := Bound ?lr, pending_fin := None,
      entry_pending_read_done := None\<rparr>"
  let ?s2 = "s\<lparr>leases := hm_insert ?lr ?l0 (leases s), next_ref := ?lr + 1,
      entries := hm_insert r ?e1 (entries s),
      pending_drains := hm_remove (e_conn_id e, seq) (pending_drains s)\<rparr>"
  let ?s3 = "?s2\<lparr>leases := hm_insert ?lr l (leases ?s2)\<rparr>"
  define s' where "s' = fold (lease_effect_on ?lr l) es ?s3"
  have "entry_kept r ?e1 ?lr ?s3" by (auto simp: entry_kept_def hm.get_insert)
  with L have s': "frame_eq ?s3 s'" "entry_kept r ?e1 ?lr s'"
    using calm_effects [OF _ frame_eq_refl, of es r ?e1 ?lr ?s3 l] by (auto simp: s'_def)
  have bind: "bind_entry_to_lease r ch seq kind purpose initiator now s = (s', Inr ?lr)"
    using assms b by (simp add: bind_entry_to_lease_def upd_entry_def take_pending_drain_def no_facts_def
        lease_do_def hm.get_insert s'_def Let_def)
  note F = frame_eqD [OF s'(1)]
  obtain e' where e0: "hm_get (entries s') r = Some e'" "e_state e' = Bound ?lr \<or> e_state e' = Draining ?lr"
    "e'\<lparr>e_state := Idle\<rparr> = ?e1\<lparr>e_state := Idle\<rparr>"
    using s'(2) unfolding entry_kept_def by blast
  have "e_conn_id e' = e_conn_id e" "committed_lease_seq e' = seq"
    using entry_upd_eqD [OF e0(3)] by simp_all
  note e' = e0(1,2) this
  have "hm_get (leases s') ?lr = Some l" using F by (simp add: hm.get_insert)
  with e' L have bt: "bound_to r ch seq initiator s'" unfolding bound_to_def by metis
  show ?thesis
    by (rule that [OF bind bt]) (use F e' in auto)
qed

definition request_of :: "claiming_state \<Rightarrow> tcp_conn_id \<Rightarrow> claim_conn_req" where
  "request_of c conn =
     \<lparr>creq_channel_id = cl_channel_id c, creq_kind = cl_kind c, creq_purpose = cl_purpose c,
      creq_conn_id = conn, creq_lease_seq = cl_lease_seq c, creq_claim_nonce = cl_claim_nonce c\<rparr>"

text \<open>An end that is claiming the connection with \<open>c\<close>, for the waiter \<open>w\<close>, when the peer's claim
  \<open>q\<close> of the same lease arrives, and that could accept it.\<close>

definition crossed :: "tcp_tunnel \<Rightarrow> nat \<Rightarrow> claiming_state \<Rightarrow> nat \<Rightarrow> claim_conn_req \<Rightarrow> bool" where
  "crossed s r c w q \<longleftrightarrow>
     (\<exists>e k. get_entry (creq_conn_id q) s = Some (r, e) \<and> e_state e = Claiming c \<and> recent_claim e = None \<and>
        e_stream e = Some k \<and> no_facts e (creq_lease_seq q) s \<and> e_conn_id e = creq_conn_id q) \<and>
     creq_lease_seq q = cl_lease_seq c \<and> hm_get (pending_claims s) (cl_channel_id c) = Some w \<and>
     hm_wf (pending_claims s) \<and> lifecycle (t_activity s) = Live \<and>
     check_accept_target (t_closed s) (creq_kind q) (creq_purpose q) s = Inr ()"

lemma get_entryD: "get_entry conn s = Some (r, e) \<Longrightarrow> hm_get (data_conns s) conn = Some r \<and> hm_get (entries s) r = Some e"
  by (auto simp: get_entry_def split: option.splits)

lemma get_entry_cong:
  "entries t = entries s \<Longrightarrow> data_conns t = data_conns s \<Longrightarrow> get_entry conn t = get_entry conn s"
  by (simp add: get_entry_def split: option.splits)

lemma get_entry_activity [simp]: "get_entry conn (s\<lparr>t_activity := a\<rparr>) = get_entry conn s"
  by (rule get_entry_cong) simp_all

lemma bound_to_frame:
  "bound_to r ch seq i s \<Longrightarrow> entries t = entries s \<Longrightarrow> leases t = leases s \<Longrightarrow> bound_to r ch seq i t"
  by (simp add: bound_to_def)

lemma bound_to_record: "bound_to r ch seq i s \<Longrightarrow> bound_to r ch seq i (record_claim r q resp s)"
  unfolding bound_to_def record_claim_def upd_entry_def
  by (auto simp: hm.get_insert)

lemma record_claim_frame [simp]:
  "pending_claims (record_claim r q resp s) = pending_claims s"
  "claim_answers (record_claim r q resp s) = claim_answers s"
  "data_conns (record_claim r q resp s) = data_conns s" "leases (record_claim r q resp s) = leases s"
  "t_activity (record_claim r q resp s) = t_activity s" "pending_drains (record_claim r q resp s) = pending_drains s"
  "t_closed (record_claim r q resp s) = t_closed s" "next_ref (record_claim r q resp s) = next_ref s"
  by (auto simp: record_claim_def upd_entry_def split: option.splits)

text \<open>The end whose claim wins refuses the other one and keeps claiming.\<close>

lemma claim_winner:
  assumes "crossed s r c w q"
    and "local_simultaneous_claim_wins (t_local_id s) (t_remote_id s) (cl_claim_nonce c) (creq_claim_nonce q)"
    and "handle_claim_req q now s = (s1, res)"
  shows "res = Inr (claim_response_cmd q (RespErr AckConflictLost)) \<and>
         (\<exists>e k. get_entry (creq_conn_id q) s1 = Some (r, e) \<and> e_state e = Claiming c \<and> e_stream e = Some k \<and>
            no_facts e (creq_lease_seq q) s1) \<and>
         pending_claims s1 = pending_claims s \<and> claim_answers s1 = claim_answers s \<and>
         lifecycle (t_activity s1) = Live"
proof -
  obtain e k where e: "get_entry (creq_conn_id q) s = Some (r, e)" "e_state e = Claiming c" "recent_claim e = None"
    "e_stream e = Some k" "no_facts e (creq_lease_seq q) s"
    using assms(1) unfolding crossed_def by blast
  have c: "creq_lease_seq q = cl_lease_seq c" "lifecycle (t_activity s) = Live"
    "check_accept_target (t_closed s) (creq_kind q) (creq_purpose q) s = Inr ()"
    using assms(1) unfolding crossed_def by blast+
  let ?a = "(t_activity s)\<lparr>pending_open_count := pending_open_count (t_activity s) + 1, latest_active_at := now\<rparr>"
  let ?s0 = "s\<lparr>t_activity := ?a\<rparr>"
  have e0: "get_entry (creq_conn_id q) ?s0 = Some (r, e)"
    using get_entryD [OF e(1)] by (simp add: get_entry_def)
  have "claim_plan_of ?s0 q e = CheckThen ConflictWin"
    using e c(1) assms(2) by (simp add: claim_plan_of_def plan_by_state_def)
  moreover have "check_accept_target (t_closed ?s0) (creq_kind q) (creq_purpose q) ?s0 = Inr ()"
    using c(3) by (auto simp: check_accept_target_def split: if_splits option.splits)
  ultimately have "process_claim_req q now ?s0 =
      (record_claim r q (RespErr AckConflictLost) ?s0,
       Inr (claim_response_cmd q (RespErr AckConflictLost), None, None))"
    using e0 by (simp add: process_claim_req_def decide_claim_def execute_claim_def)
  then have r: "res = Inr (claim_response_cmd q (RespErr AckConflictLost))"
    "s1 = (record_claim r q (RespErr AckConflictLost) ?s0)\<lparr>t_activity := drop_pending now ?a\<rparr>"
    using assms(3) c(2) by (simp_all add: handle_claim_req_def begin_pending_def)
  note g = get_entryD [OF e(1)]
  have "get_entry (creq_conn_id q) s1 = Some (r, e\<lparr>recent_claim := Some \<lparr>rc_channel_id = creq_channel_id q,
       rc_lease_seq = creq_lease_seq q, rc_claim_nonce = creq_claim_nonce q, rc_kind = creq_kind q,
       rc_purpose = creq_purpose q, rc_response = RespErr AckConflictLost\<rparr>\<rparr>)"
    using g r(2) by (simp add: get_entry_def record_claim_def upd_entry_def hm.get_insert)
  with e r c(2) show ?thesis by (simp add: no_facts_def drop_pending_def)
qed

lemma enqueue_frame:
  assumes "lifecycle (t_activity s) = Live" and "enqueue_accepted k lr now s = (s', res)"
  shows "is_ok res \<and> entries s' = entries s \<and> leases s' = leases s \<and> claim_answers s' = claim_answers s \<and>
         data_conns s' = data_conns s \<and> pending_claims s' = pending_claims s"
  using assms by (auto simp: enqueue_accepted_def release_accept_slot_def promote_def spawn_def Let_def
      split: if_splits prod.splits)

text \<open>The end whose claim loses binds the connection to the other one's channel and tells its waiter.\<close>

lemma claim_loser:
  assumes "crossed s r c w q"
    and "\<not> local_simultaneous_claim_wins (t_local_id s) (t_remote_id s) (cl_claim_nonce c) (creq_claim_nonce q)"
    and "handle_claim_req q now s = (s1, res)"
  shows "res = Inr (claim_response_cmd q RespAck) \<and> bound_to r (creq_channel_id q) (creq_lease_seq q) False s1 \<and>
         claim_answers s1 = claim_answers s @ [(w, Inl Conflict)]"
proof -
  obtain e k where e: "get_entry (creq_conn_id q) s = Some (r, e)" "e_state e = Claiming c" "recent_claim e = None"
    "e_stream e = Some k" "no_facts e (creq_lease_seq q) s"
    using assms(1) unfolding crossed_def by blast
  have c: "creq_lease_seq q = cl_lease_seq c" "lifecycle (t_activity s) = Live"
    "check_accept_target (t_closed s) (creq_kind q) (creq_purpose q) s = Inr ()"
    "hm_get (pending_claims s) (cl_channel_id c) = Some w" "hm_wf (pending_claims s)"
    using assms(1) unfolding crossed_def by blast+
  let ?a = "(t_activity s)\<lparr>pending_open_count := pending_open_count (t_activity s) + 1, latest_active_at := now\<rparr>"
  let ?s0 = "s\<lparr>t_activity := ?a\<rparr>"
  have e0: "get_entry (creq_conn_id q) ?s0 = Some (r, e)"
    using get_entryD [OF e(1)] by (simp add: get_entry_def)
  have plan: "claim_plan_of ?s0 q e = CheckThen (ConflictLose (cl_channel_id c))"
    using e c(1) assms(2) by (simp add: claim_plan_of_def plan_by_state_def)
  have chk: "check_accept_target (t_closed ?s0) (creq_kind q) (creq_purpose q) ?s0 = Inr ()"
    and slot: "\<not> t_closed s" "accept_pending s (creq_kind q) < accept_limit s (creq_kind q)"
    using c(3) by (auto simp: check_accept_target_def not_le split: if_splits option.splits)
  define s01 where "s01 = ?s0\<lparr>accept_pending := (accept_pending s)(creq_kind q := accept_pending s (creq_kind q) + 1)\<rparr>"
  have res1: "reserve_accept_slot (creq_kind q) ?s0 = (s01, Inr ())"
    using slot by (simp add: reserve_accept_slot_def s01_def not_le)
  have "hm_get (entries s01) r = Some e" "no_facts e (creq_lease_seq q) s01"
    using get_entryD [OF e(1)] e(5) by (simp_all add: s01_def no_facts_def)
  from bind_entry_ok [OF this(1) e(4) this(2), of "creq_channel_id q" "creq_kind q" "creq_purpose q" False now]
  obtain s2 where b: "bind_entry_to_lease r (creq_channel_id q) (creq_lease_seq q) (creq_kind q) (creq_purpose q)
      False now s01 = (s2, Inr (next_ref s01))" "bound_to r (creq_channel_id q) (creq_lease_seq q) False s2"
    "pending_claims s2 = pending_claims s01" "claim_answers s2 = claim_answers s01"
    "t_activity s2 = t_activity s01"
    by metis
  define s3 where "s3 = record_claim r q RespAck s2"
  have proc: "process_claim_req q now ?s0 =
      (s3, Inr (claim_response_cmd q RespAck, Some (next_ref s01), Some (cl_channel_id c)))"
    using e0 plan chk res1 b(1)
    by (simp add: process_claim_req_def decide_claim_def execute_claim_def accept_claim_def s3_def)
  have p3: "hm_get (pending_claims s3) (cl_channel_id c) = Some w" "claim_answers s3 = claim_answers s"
    using b(3,4) c(4) by (simp_all add: s3_def s01_def)
  define s4 where "s4 = send_pending_claim_result (cl_channel_id c) (Inl Conflict) s3"
  have s4: "claim_answers s4 = claim_answers s @ [(w, Inl Conflict)]" "entries s4 = entries s3" "leases s4 = leases s3"
    "t_activity s4 = t_activity s3"
    using p3 by (simp_all add: s4_def send_pending_claim_result_def)
  have live: "lifecycle (t_activity s4) = Live"
    using c(2) s4(4) b(5) by (simp add: s3_def s01_def)
  obtain s5 r5 where q5: "enqueue_accepted (creq_kind q) (next_ref s01) now s4 = (s5, r5)" by fastforce
  note f5 = enqueue_frame [OF live q5]
  have "s1 = s5" "res = Inr (claim_response_cmd q RespAck)"
    using assms(3) c(2) proc q5 f5 by (auto simp: handle_claim_req_def begin_pending_def s4_def split: sum.splits)
  moreover have "bound_to r (creq_channel_id q) (creq_lease_seq q) False s5"
    by (rule bound_to_frame [of _ _ _ _ s3]) (use b(2) bound_to_record f5 s4 in \<open>auto simp: s3_def\<close>)
  ultimately show ?thesis using f5 s4(1) by simp
qed

text \<open>The winner's claim is answered: the connection is bound to its channel.\<close>

lemma claim_acked:
  assumes "get_entry conn s = Some (r, e)" and "e_state e = Claiming c" and "e_stream e = Some k"
    and "no_facts e (cl_lease_seq c) s" and "hm_get (pending_claims s) (cl_channel_id c) = Some w"
    and "claim_response_cmd (request_of c conn) RespAck = CmdClaimConnAck ack"
    and "handle_claim_ack ack now s = (s1, res)"
  shows "res = Inr () \<and> bound_to r (cl_channel_id c) (cl_lease_seq c) True s1 \<and>
         (\<exists>lr. claim_answers s1 = claim_answers s @ [(w, Inr lr)])"
proof -
  note g = get_entryD [OF assms(1)]
  have ack: "cack_channel_id ack = cl_channel_id c" "cack_conn_id ack = conn" "cack_lease_seq ack = cl_lease_seq c"
    "cack_result ack = ack_result_as_u8 AckSuccess"
    using assms(6) by (auto simp: claim_response_cmd_def request_of_def)
  obtain s2 where b: "bind_entry_to_lease r (cl_channel_id c) (cl_lease_seq c) (cl_kind c) (cl_purpose c) True now s =
      (s2, Inr (next_ref s))" "bound_to r (cl_channel_id c) (cl_lease_seq c) True s2"
    "pending_claims s2 = pending_claims s" "claim_answers s2 = claim_answers s"
    using bind_entry_ok [of s r e k "cl_lease_seq c" "cl_channel_id c" "cl_kind c" "cl_purpose c" True now]
      g assms(3,4) by metis
  have "ack_result_try_from (cack_result ack) = Some AckSuccess"
    by (simp only: ack(4) ack_result_codec)
  then have "handle_claim_ack ack now s = (send_pending_claim_result (cl_channel_id c) (Inr (next_ref s)) s2, Inr ())"
    using assms(1,2,5) ack(1-3) b(1) by (simp add: handle_claim_ack_def)
  then have "s1 = send_pending_claim_result (cl_channel_id c) (Inr (next_ref s)) s2" "res = Inr ()"
    using assms(7) by simp_all
  moreover from this(1) have "entries s1 = entries s2" "leases s1 = leases s2"
    "claim_answers s1 = claim_answers s @ [(w, Inr (next_ref s))]"
    using b(3,4) assms(5) by (simp_all add: send_pending_claim_result_def)
  ultimately show ?thesis using bound_to_frame [OF b(2)] by blast
qed



text \<open>Two ends with one idle connection, each of which has just claimed it: \<open>A\<close> drew the nonce 9,
  \<open>B\<close> the nonce 4.\<close>

definition sample_end :: "p2p_id \<Rightarrow> p2p_id \<Rightarrow> tunnel_form \<Rightarrow> tcp_tunnel" where
  "sample_end local remote f =
     (tcp_tunnel_new local remote (TunnelCandidateId 5) f PhaseConnected 0)\<lparr>
        data_conns := [(TunnelId 1, 0)],
        entries := [(0, (data_conn_entry_new 7 (TunnelId 1) (f = Active) (f = Active))\<lparr>
          committed_lease_seq := TunnelId 1, e_state := Idle\<rparr>)],
        next_ref := 1, vports := (\<lambda>_. Some allow_all_listen_vports)\<rparr>"

definition sample_claiming :: "p2p_id \<Rightarrow> p2p_id \<Rightarrow> tunnel_form \<Rightarrow> u64 \<Rightarrow> tcp_tunnel \<times> claiming_state" where
  "sample_claiming local remote f nonce =
     (let s = fst (claim_entry_start 0 KindStream (TunnelPurpose [3]) nonce (sample_end local remote f))
      in (s, case e_state (the (hm_get (entries s) 0)) of Claiming c \<Rightarrow> c | _ \<Rightarrow> undefined))"

abbreviation sample_a :: "tcp_tunnel \<times> claiming_state" where
  "sample_a \<equiv> sample_claiming (P2pId [1]) (P2pId [2]) Active 9"

abbreviation sample_b :: "tcp_tunnel \<times> claiming_state" where
  "sample_b \<equiv> sample_claiming (P2pId [2]) (P2pId [1]) Passive 4"

lemmas sample_claim_defs = sample_claiming_def sample_end_def tcp_tunnel_new_def data_conn_entry_new_def
  claim_entry_start_def next_local_channel_id_def next_local_id_cases TCP_LOCAL_ID_HIGH_BIT_def
  next_lease_seq_def upd_entry_def hm_get_def hm_insert_def Let_def

lemma sample_crossed:
  "crossed (fst sample_a) 0 (snd sample_a) 1 (request_of (snd sample_b) (TunnelId 1))"
  "crossed (fst sample_b) 0 (snd sample_b) 1 (request_of (snd sample_a) (TunnelId 1))"
  by (simp_all add: crossed_def sample_claim_defs request_of_def get_entry_def no_facts_def
      check_accept_target_def allow_all_listen_vports_def activity_new_def hm_wf_def)


section \<open>Closing\<close>

text \<open>What closing a connection leaves alone, once nobody waits for a claim any more.\<close>

definition settled :: "tcp_tunnel \<Rightarrow> tcp_tunnel \<Rightarrow> bool" where
  "settled s t \<longleftrightarrow>
     pending_claims s = [] \<and> pending_claims t = [] \<and> pending_open_requests t = pending_open_requests s \<and>
     t_closed t = t_closed s \<and> phase t = phase s \<and> claim_answers t = claim_answers s \<and>
     open_answers t = open_answers s \<and> t_activity t = t_activity s"

lemma settled_refl: "pending_claims s = [] \<Longrightarrow> settled s s"
  by (simp add: settled_def)

lemma settled_trans: "settled s t \<Longrightarrow> settled t u \<Longrightarrow> settled s u"
  by (simp add: settled_def)

lemmas table_defs = remove_entry_def remove_entry_if_same_def clear_pending_drains_for_conn_def
  clear_pending_drain_for_entry_def upd_entry_def spawn_def send_pending_claim_result_def

lemma settled_upd [simp]: "pending_claims s = [] \<Longrightarrow> settled s (upd_entry r f s)"
  by (simp add: settled_def upd_entry_def split: option.splits)

lemma settled_retire_plain: "pending_claims s = [] \<Longrightarrow> settled s (retire_plain_entry r e s)"
  by (simp add: settled_def retire_plain_entry_def table_defs hm.get_empty Let_def
      split: option.splits entry_state.splits)

lemma settled_effect: "pending_claims s = [] \<Longrightarrow> settled s (lease_effect_on lr l eff s)"
  by (cases eff) (simp_all add: settled_def lease_effect_on_def table_defs hm.get_empty split: option.splits)

lemma settled_effects: "pending_claims s = [] \<Longrightarrow> settled s (fold (lease_effect_on lr l) es s)"
proof (induction es arbitrary: s)
  case (Cons eff es)
  note step = settled_effect [OF Cons.prems, of lr l eff]
  then have "pending_claims (lease_effect_on lr l eff s) = []" by (simp add: settled_def)
  with Cons.IH step show ?case by (auto intro: settled_trans)
qed (simp add: settled_refl)

lemma settled_lease_do: "pending_claims s = [] \<Longrightarrow> settled s (lease_do lr f s)"
  using settled_effects [of "s\<lparr>leases := m\<rparr>" for m]
  by (fastforce simp: lease_do_def settled_def split: option.splits prod.splits)

lemma settled_close_entry:
  assumes "pending_claims s = []" shows "settled s (close_entry reason r s)"
proof (cases "hm_get (entries s) r")
  case (Some e)
  let ?s1 = "upd_entry r (\<lambda>e. e\<lparr>e_no_reuse := True\<rparr>) s"
  have s1: "settled s ?s1" using assms by simp
  then have "pending_claims ?s1 = []" by (simp add: settled_def)
  with Some s1 show ?thesis
    by (auto simp: close_entry_def Let_def intro: settled_trans [OF s1] settled_lease_do
        split: entry_state.splits)
qed (use assms in \<open>simp add: close_entry_def settled_refl\<close>)

lemma settled_close_entries:
  "pending_claims s = [] \<Longrightarrow> settled s (fold (\<lambda>(_, r). close_entry reason r) cs s)"
proof (induction cs arbitrary: s)
  case (Cons c cs)
  obtain k r where c: "c = (k, r)" by (cases c)
  note step = settled_close_entry [OF Cons.prems, of reason r]
  then have "pending_claims (close_entry reason r s) = []" by (simp add: settled_def)
  with Cons.IH step show ?case by (auto simp: c intro: settled_trans)
qed (simp add: settled_refl)

lemma answer_claims:
  "fold (\<lambda>(_, w). answer_claim res w) cs s = s\<lparr>claim_answers := claim_answers s @ map (\<lambda>(_, w). (w, res)) cs\<rparr>"
  by (induction cs arbitrary: s) (auto simp: answer_claim_def)

definition open_waiters :: "(tcp_request_id, pending_open_request) hmap \<Rightarrow> nat list" where
  "open_waiters ps = List.map_filter (\<lambda>(_, p). por_sender p) ps"

lemma settled_staged: "pending_claims s = [] \<Longrightarrow> settled s (retire_staged p e s)"
  by (auto simp: retire_staged_def settled_refl settled_retire_plain split: option.splits)

lemma answer_opens:
  assumes "pending_claims s = []"
  shows "settled (s\<lparr>open_answers := open_answers s @ map (\<lambda>w. (w, Inl reason)) (open_waiters ps)\<rparr>)
           (fold (\<lambda>(_, p). close_pending_open reason p) ps s)"
  using assms
proof (induction ps arbitrary: s)
  case (Cons c ps)
  obtain q p where c: "c = (q, p)" by (cases c)
  note st = settled_staged [OF Cons.prems, of p reason]
  let ?t = "close_pending_open reason p s"
  have t: "settled (s\<lparr>open_answers := open_answers s @ map (\<lambda>w. (w, Inl reason)) (open_waiters [c])\<rparr>) ?t"
    using st by (auto simp: c close_pending_open_def fail_taken_def answer_open_def open_waiters_def
        map_filter_simps settled_def Let_def split: option.splits)
  then have "pending_claims ?t = []" by (simp add: settled_def)
  from Cons.IH [OF this] t show ?case
    by (auto simp: c settled_def open_waiters_def map_filter_simps split: option.splits)
qed (simp add: settled_refl open_waiters_def map_filter_simps)

lemma close_local_outcome:
  assumes "\<not> t_closed s" and "close_local ph reason s = (s', first)"
  shows "first \<and> t_closed s' \<and> phase s' = ph \<and> lifecycle (t_activity s') = Retired \<and>
         pending_claims s' = [] \<and> pending_open_requests s' = [] \<and>
         claim_answers s' = claim_answers s @ map (\<lambda>(_, w). (w, Inl reason)) (pending_claims s) \<and>
         open_answers s' = open_answers s @ map (\<lambda>w. (w, Inl reason)) (open_waiters (pending_open_requests s))"
proof -
  define s1 where "s1 = s\<lparr>t_activity := activity_retire (t_activity s), t_closed := True,
      callback := (\<lambda>_. False), phase := ph, pending_drains := [], pending_open_requests := [], pending_claims := []\<rparr>"
  define s2 where "s2 = fold (\<lambda>(_, p). close_pending_open reason p) (pending_open_requests s) s1"
  define s3 where "s3 = fold (\<lambda>(_, w). answer_claim (Inl reason) w) (pending_claims s) s2"
  have r: "s' = fold (\<lambda>(_, r). close_entry reason r) (data_conns s) s3" "first"
    using assms by (simp_all add: close_local_def Let_def s1_def s2_def s3_def)
  have S2: "settled (s1\<lparr>open_answers := open_answers s1 @ map (\<lambda>w. (w, Inl reason))
      (open_waiters (pending_open_requests s))\<rparr>) s2"
    unfolding s2_def by (rule answer_opens) (simp add: s1_def)
  have "pending_claims s3 = []" using S2 by (simp add: s3_def answer_claims settled_def)
  from settled_close_entries [OF this, of reason "data_conns s"] S2 r
  show ?thesis
    by (simp add: settled_def s3_def answer_claims s1_def activity_retire_def)
qed

text \<open>closing a tunnel leaves nobody waiting: the first \<open>close_local\<close> sets the
  phase, retires the activity record so that no new work starts, empties the three tables of pending
  work and answers every caller who was waiting for a claim or a reverse open, exactly once each, with
  the reason of the close; a second close changes nothing and says so.\<close>

theorem close_local_settles:
  assumes "\<not> t_closed s" and "close_local ph reason s = (s', first)"
  shows "first \<and> t_closed s' \<and> phase s' = ph \<and> lifecycle (t_activity s') = Retired \<and>
         pending_claims s' = [] \<and> pending_open_requests s' = [] \<and>
         claim_answers s' = claim_answers s @ map (\<lambda>(_, w). (w, Inl reason)) (pending_claims s) \<and>
         open_answers s' = open_answers s @ map (\<lambda>w. (w, Inl reason)) (open_waiters (pending_open_requests s)) \<and>
         close_local ph' reason' s' = (s', False)"
  using close_local_outcome [OF assms] by (simp add: close_local_def activity_retire_def)

theorem close_local_settles_witness:
  "let s = fst (request_remote_start (fst sample_a)); s' = fst (close_local PhaseClosed Interrupted s)
   in claim_answers s' = [(1, Inl Interrupted)] \<and> open_answers s' = [(2, Inl Interrupted)] \<and> t_closed s'"
proof -
  let ?s = "fst (request_remote_start (fst sample_a))"
  have s: "\<not> t_closed ?s" "claim_answers ?s = []" "open_answers ?s = []"
    "pending_claims ?s = [(TunnelId 1, 1)]" "open_waiters (pending_open_requests ?s) = [2]"
    by (simp_all add: request_remote_start_def next_local_request_id_def set_pending_open_def sample_claim_defs
        open_waiters_def map_filter_simps)
  obtain s' first where c: "close_local PhaseClosed Interrupted ?s = (s', first)" by fastforce
  with close_local_settles [OF s(1) c] s show ?thesis by (simp add: Let_def)
qed

section \<open>Repeated claims\<close>

lemma get_upd_entry: "hm_get (entries (upd_entry r f s)) r = map_option f (hm_get (entries s) r)"
  by (auto simp: upd_entry_def hm.get_insert split: option.splits)

lemma record_claim_recorded:
  assumes "hm_get (entries (record_claim r q resp s)) r = Some e"
  shows "\<exists>rec. recent_claim e = Some rec \<and> claim_record_matches q rec \<and> rc_response rec = resp"
  using assms by (auto simp: record_claim_def get_upd_entry claim_record_matches_def)

lemma claim_plan_replay:
  "recent_claim e = Some rec \<Longrightarrow> claim_record_matches q rec \<Longrightarrow> claim_plan_of s q e = Ready (Replay (rc_response rec))"
  by (auto simp: claim_plan_of_def claim_record_matches_def)

lemma claim_plan_replayD:
  "claim_plan_of s q e = Ready (Replay resp) \<Longrightarrow>
   \<exists>rec. recent_claim e = Some rec \<and> claim_record_matches q rec \<and> rc_response rec = resp"
  by (auto simp: claim_plan_of_def plan_by_state_def split: option.splits if_splits entry_state.splits sum.splits)

lemma process_claim_recorded:
  assumes "process_claim_req q now s = (s1, Inr (resp, acc, lost))"
    and "get_entry (creq_conn_id q) s = Some (r, e)" and "hm_get (entries s1) r = Some e1"
  shows "\<exists>rec. recent_claim e1 = Some rec \<and> claim_record_matches q rec \<and>
               resp = claim_response_cmd q (rc_response rec)"
proof -
  define d where "d = decide_claim (claim_plan_of s q e) (check_accept_target (t_closed s) (creq_kind q) (creq_purpose q) s)"
  have ex: "execute_claim r q d now s = (s1, Inr (resp, acc, lost))"
    using assms(1,2) by (simp add: process_claim_req_def d_def)
  have acc: "accept_claim r q x now s = (s1, Inr (resp, acc, lost)) \<Longrightarrow>
      \<exists>resp0 t. s1 = record_claim r q resp0 t \<and> resp = claim_response_cmd q resp0" for x
    by (auto simp: accept_claim_def split: prod.splits sum.splits)
  show ?thesis
  proof (cases "\<exists>resp0. d = Replay resp0")
    case True
    then obtain resp0 where d: "d = Replay resp0" by blast
    then have "claim_plan_of s q e = Ready (Replay resp0)"
      by (auto simp: d_def decide_claim_def claim_plan_of_def plan_by_state_def
          split: claim_plan.splits sum.splits option.splits if_splits entry_state.splits)
    moreover have "e1 = e" "resp = claim_response_cmd q resp0"
      using ex d assms(2,3) get_entryD [OF assms(2)] by (auto simp: execute_claim_def)
    ultimately show ?thesis by (blast dest: claim_plan_replayD)
  next
    case False
    then obtain resp0 t where "s1 = record_claim r q resp0 t" "resp = claim_response_cmd q resp0"
      using ex acc by (cases d) (fastforce simp: execute_claim_def)+
    with assms(3) show ?thesis by (blast dest: record_claim_recorded)
  qed
qed

text \<open>a claim that is repeated is answered as it was the first time and does
  nothing else: as long as the connection is still registered, handling the same request again
  returns the same acknowledgement, binds nothing, and leaves every connection and lease as it is.
  This is the duplicate rule of the protocol design.\<close>

theorem claim_replay_idempotent:
  assumes "handle_claim_req q now s = (s1, Inr resp)" and "get_entry (creq_conn_id q) s = Some (r, e)"
    and "get_entry (creq_conn_id q) s1 = Some (r, e1)" and "lifecycle (t_activity s1) = Live"
    and "handle_claim_req q now' s1 = (s2, res)"
  shows "res = Inr resp \<and> entries s2 = entries s1 \<and> leases s2 = leases s1 \<and> data_conns s2 = data_conns s1 \<and>
         claim_answers s2 = claim_answers s1 \<and> spawned s2 = spawned s1"
proof -
  obtain a t acc lost where p: "process_claim_req q now (s\<lparr>t_activity := a\<rparr>) = (t, Inr (resp, acc, lost))"
      and t: "entries s1 = entries t"
    using assms(1)
    by (auto simp: handle_claim_req_def enqueue_accepted_def release_accept_slot_def spawn_def
        send_pending_claim_result_def Let_def split: prod.splits sum.splits option.splits if_splits)
  from process_claim_recorded [OF p, of r e e1] assms(2) get_entryD [OF assms(3)] t
  obtain rec where rec: "recent_claim e1 = Some rec" "claim_record_matches q rec"
    "resp = claim_response_cmd q (rc_response rec)" by auto
  obtain b where b: "begin_pending now' (t_activity s1) = (b, Inr ())"
    using assms(4) by (auto simp: begin_pending_def)
  have "process_claim_req q now' (s1\<lparr>t_activity := b\<rparr>) = (s1\<lparr>t_activity := b\<rparr>, Inr (resp, None, None))"
    using assms(3) rec by (simp add: process_claim_req_def claim_plan_replay decide_claim_def execute_claim_def)
  with b assms(5) show ?thesis by (auto simp: handle_claim_req_def)
qed

theorem claim_replay_idempotent_witness:
  "\<exists>s1 resp e1. handle_claim_req (request_of (snd sample_b) (TunnelId 1)) 3 (fst sample_a) = (s1, Inr resp) \<and>
     get_entry (TunnelId 1) s1 = Some (0, e1) \<and>
     snd (handle_claim_req (request_of (snd sample_b) (TunnelId 1)) 5 s1) = Inr resp \<and>
     entries (fst (handle_claim_req (request_of (snd sample_b) (TunnelId 1)) 5 s1)) = entries s1"
proof -
  let ?q = "request_of (snd sample_b) (TunnelId 1)"
  have win: "local_simultaneous_claim_wins (t_local_id (fst sample_a)) (t_remote_id (fst sample_a))
      (cl_claim_nonce (snd sample_a)) (creq_claim_nonce ?q)"
    by (simp add: local_simultaneous_claim_wins_def request_of_def sample_claim_defs)
  obtain s1 res where A: "handle_claim_req ?q 3 (fst sample_a) = (s1, res)" by fastforce
  note W = claim_winner [OF sample_crossed(1) win A]
  obtain e0 where g0: "get_entry (creq_conn_id ?q) (fst sample_a) = Some (0, e0)"
    using sample_crossed(1) unfolding crossed_def by blast
  obtain e1 where g1: "get_entry (creq_conn_id ?q) s1 = Some (0, e1)" using W by blast
  obtain resp where resp: "res = Inr resp" using W by blast
  have L: "lifecycle (t_activity s1) = Live" using W by blast
  obtain s2 r2 where B: "handle_claim_req ?q 5 s1 = (s2, r2)" by fastforce
  have "r2 = Inr resp \<and> entries s2 = entries s1"
    using claim_replay_idempotent [OF A [unfolded resp] g0 g1 L B] by blast
  with A resp g1 B show ?thesis by (simp add: request_of_def)
qed

section \<open>Commands that arrive late\<close>

lemma hm_get_removed: "hm_get (hm_remove k m) k = None"
  by (simp add: hm_get_def hm_remove_def delete_conv')

text \<open>The lease of a reader that was let go early is retired by the peer's \<open>WriteFin\<close>, and with it
  the connection leaves the table.\<close>

lemma early_drop_retires:
  assumes "get_entry conn s = Some (r, e)" and "e_state e = Bound lr \<or> e_state e = Draining lr"
    and "hm_get (leases s) lr = Some l" and "l_entry l = r" and "l_conn_id l = conn" and "\<not> l_retired l"
    and "read_released l" and "\<not> peer_write_fin_received l" and "l_lease_seq l = fin_lease_seq fin"
    and "l_channel_id l = fin_channel_id fin" and "fin_conn_id fin = conn" and "rx_bytes l \<noteq> fin_final_tx_bytes fin"
  shows "\<exists>s1. handle_write_fin fin now s = (s1, Inr ()) \<and> get_entry conn s1 = None \<and> t_closed s1 = t_closed s"
proof -
  note g = get_entryD [OF assms(1)]
  obtain l' tail where l': "lease_write_fin fin now l = (l', [MarkDraining, RetireEntry Interrupted] @ tail)"
      "tail = [] \<or> tail = [CloseEntry]" "l_entry l' = r" "l_conn_id l' = conn"
    using assms(4-12)
    by (cases "write_released l") (auto simp: lease_write_fin_def write_fin_followup_def and_then_def
        retire_lease_arc_def maybe_finalize_lease_def ready_for_idle_def ready_for_close_def Let_def)
  let ?t = "s\<lparr>leases := hm_insert lr l' (leases s)\<rparr>"
  let ?u = "fold (lease_effect_on lr l') ([MarkDraining, RetireEntry Interrupted] @ tail) ?t"
  have "handle_write_fin fin now s = (?u, Inr ())"
    using assms(1-3,11) l'(1) by (auto simp: handle_write_fin_def is_unbound_def lease_do_def)
  moreover have "hm_get (data_conns ?u) conn = None \<and> t_closed ?u = t_closed s"
    using l'(2-4) g
    by (auto simp: lease_effect_on_def entry_alive_def upd_entry_def table_defs hm_get_removed hm.get_insert
        split: option.splits)
  ultimately show ?thesis by (auto simp: get_entry_def)
qed

text \<open>a reader that is let go before the end of its channel can cost the whole
  tunnel. Take a connection bound to a lease whose read half was released before everything was read.
  The peer's \<open>WriteFin\<close> retires the lease and takes the connection out of the table; that is
  meant. But the \<open>ReadDone\<close> with which the peer answers our own \<open>WriteFin\<close>, and which it sends
  by the protocol, now names a connection that is not in the table: \<open>handle_read_done\<close> returns an
  error and \<open>control_recv_loop\<close> closes the tunnel, with every other channel on it, as failed.\<close>

theorem late_read_done_closes_tunnel:
  assumes "get_entry conn s = Some (r, e)" and "e_state e = Bound lr \<or> e_state e = Draining lr"
    and "hm_get (leases s) lr = Some l" and "l_entry l = r" and "l_conn_id l = conn" and "\<not> l_retired l"
    and "read_released l" and "\<not> peer_write_fin_received l" and "l_lease_seq l = fin_lease_seq fin"
    and "l_channel_id l = fin_channel_id fin" and "fin_conn_id fin = conn" and "rx_bytes l \<noteq> fin_final_tx_bytes fin"
    and "\<not> t_closed s" and "done_conn_id d = conn"
    and "control_recv alive data_res written now (Inr (CmdWriteFin fin)) s = (s1, goes_on)"
    and "control_recv alive data_res' written' now' (Inr (CmdReadDone d)) s1 = (s2, goes_on')"
  shows "goes_on \<and> \<not> t_closed s1 \<and> \<not> goes_on' \<and> t_closed s2 \<and> phase s2 = PhaseError"
proof -
  let ?s0 = "promote_connected now (s\<lparr>last_recv_at := now\<rparr>)"
  have f0: "entries ?s0 = entries s" "data_conns ?s0 = data_conns s" "leases ?s0 = leases s" "t_closed ?s0 = t_closed s"
    by (simp_all add: promote_connected_def)
  have g0: "get_entry conn ?s0 = Some (r, e)" using assms(1) get_entry_cong [OF f0(1,2)] by simp
  have l0: "hm_get (leases ?s0) lr = Some l" using assms(3) by (simp add: f0)
  obtain t where t: "handle_write_fin fin now ?s0 = (t, Inr ())" "get_entry conn t = None" "\<not> t_closed t"
    using early_drop_retires [OF g0 assms(2) l0 assms(4-12), of now] assms(13) f0(4) by auto
  have s1: "s1 = t" "goes_on" using assms(15) t(1) by (simp_all add: control_recv_def handle_control_cmd_def)
  let ?t0 = "promote_connected now' (t\<lparr>last_recv_at := now'\<rparr>)"
  have g1: "get_entry conn ?t0 = None" and c1: "\<not> t_closed ?t0"
    using t(2,3) get_entry_cong [of ?t0 t conn] by (simp_all add: promote_connected_def)
  obtain s' b where c: "close_local PhaseError Interrupted ?t0 = (s', b)" by fastforce
  have "s2 = s'" "\<not> goes_on'"
    using assms(14,16) s1(1) g1 c by (simp_all add: control_recv_def handle_control_cmd_def handle_read_done_def)
  with close_local_outcome [OF c1 c] s1 t(3) show ?thesis by simp
qed

text \<open>A run of it: B accepts a channel on the idle connection and its user lets go of both halves at
  once, so that B sends \<open>WriteFin\<close> with 0 bytes. A, which has written three bytes, sends its own
  \<open>WriteFin\<close> and then the \<open>ReadDone\<close> that answers B's.\<close>

definition sample_request :: claim_conn_req where
  "sample_request = \<lparr>creq_channel_id = TunnelId 1, creq_kind = KindStream, creq_purpose = TunnelPurpose [3],
     creq_conn_id = TunnelId 1, creq_lease_seq = TunnelId 2, creq_claim_nonce = 9\<rparr>"

definition sample_let_go :: tcp_tunnel where
  "sample_let_go =
     lease_do 1 release_read_half (lease_do 1 release_write_half
       (fst (handle_claim_req sample_request 1 (sample_end (P2pId [2]) (P2pId [1]) Passive))))"

lemmas sample_let_go_defs = sample_let_go_def sample_request_def handle_claim_req_def begin_pending_def
  process_claim_req_def get_entry_def sample_end_def tcp_tunnel_new_def data_conn_entry_new_def activity_new_def
  claim_plan_of_def plan_by_state_def next_lease_seq_def decide_claim_def check_accept_target_def
  allow_all_listen_vports_def execute_claim_def accept_claim_def reserve_accept_slot_def bind_entry_to_lease_def
  lease_new_def upd_entry_def take_pending_drain_def lease_do_def bind_lease_def bind_facts_def and_then_def
  record_claim_def enqueue_accepted_def release_accept_slot_def drop_pending_def release_read_half_def
  release_write_half_def spawn_send_write_fin_def maybe_finalize_lease_def ready_for_idle_def
  ready_for_close_def lease_effect_on_def spawn_def entry_alive_def mark_draining_def note_drain_progress_def
  drain_timeout_active_def hm_get_def hm_insert_def hm_remove_def Let_def

theorem late_read_done_closes_tunnel_witness:
  "let fin = \<lparr>fin_channel_id = TunnelId 1, fin_conn_id = TunnelId 1, fin_lease_seq = TunnelId 2, fin_final_tx_bytes = 3\<rparr>;
       d = \<lparr>done_channel_id = TunnelId 1, done_conn_id = TunnelId 1, done_lease_seq = TunnelId 2, done_final_rx_bytes = 0\<rparr>;
       s1 = fst (control_recv (\<lambda>_. True) (Inr ()) True 5 (Inr (CmdWriteFin fin)) sample_let_go);
       s2 = fst (control_recv (\<lambda>_. True) (Inr ()) True 6 (Inr (CmdReadDone d)) s1)
   in \<not> t_closed sample_let_go \<and> \<not> t_closed s1 \<and> t_closed s2 \<and> phase s2 = PhaseError"
proof -
  define fin where "fin = \<lparr>fin_channel_id = TunnelId 1, fin_conn_id = TunnelId 1, fin_lease_seq = TunnelId 2,
    fin_final_tx_bytes = (3 :: u64)\<rparr>"
  define d where "d = \<lparr>done_channel_id = TunnelId 1, done_conn_id = TunnelId 1, done_lease_seq = TunnelId 2,
    done_final_rx_bytes = (0 :: u64)\<rparr>"
  obtain e l where s: "get_entry (TunnelId 1) sample_let_go = Some (0, e)" "e_state e = Draining 1"
    "hm_get (leases sample_let_go) 1 = Some l" "l_entry l = 0" "l_conn_id l = TunnelId 1" "\<not> l_retired l"
    "read_released l" "\<not> peer_write_fin_received l" "l_lease_seq l = TunnelId 2" "l_channel_id l = TunnelId 1"
    "rx_bytes l = 0" "\<not> t_closed sample_let_go"
    by (simp add: sample_let_go_defs)
  obtain s1 g1 where A: "control_recv (\<lambda>_. True) (Inr ()) True 5 (Inr (CmdWriteFin fin)) sample_let_go = (s1, g1)"
    by fastforce
  obtain s2 g2 where B: "control_recv (\<lambda>_. True) (Inr ()) True 6 (Inr (CmdReadDone d)) s1 = (s2, g2)"
    by fastforce
  have "\<not> t_closed s1 \<and> t_closed s2 \<and> phase s2 = PhaseError"
    using late_read_done_closes_tunnel [OF s(1) disjI2 [OF s(2)] s(3-8) _ _ _ _ s(12) _ A B] s(9-11)
    by (simp add: fin_def d_def)
  with A B s(12) show ?thesis unfolding fin_def d_def by (simp add: Let_def)
qed

section \<open>Opening a channel\<close>

lemma find_claimable_skips:
  "find_claimable_entry skipped s = Some r \<Longrightarrow> \<exists>c. (c, r) \<in> set (data_conns s) \<and> c \<notin> set skipped"
  by (auto simp: find_claimable_entry_def find_Some_iff set_conv_nth)

text \<open>The answer of a round that is not a conflict is the answer of the whole search.\<close>

lemma open_channel_first_answer:
  assumes "find_claimable_entry skipped s = Some r" and "claim r s = (s', res)" and "res \<noteq> Inl Conflict"
  shows "open_channel_rounds (Suc n) create claim skipped last_conflict s = (s', res)"
  using assms by (cases res) (auto simp: Let_def)

section \<open>A claim decided before the wait and carried out after it\<close>

lemma accept_claim_binds:
  assumes "hm_get (entries s) r = Some e" and "e_stream e = Some k" and "no_facts e (creq_lease_seq q) s"
    and "\<not> t_closed s" and "accept_pending s (creq_kind q) < accept_limit s (creq_kind q)"
    and "accept_claim r q lost now s = (s1, res)"
  shows "bound_to r (creq_channel_id q) (creq_lease_seq q) False s1 \<and> data_conns s1 = data_conns s"
proof -
  define s0 where "s0 = s\<lparr>accept_pending := (accept_pending s)(creq_kind q := accept_pending s (creq_kind q) + 1)\<rparr>"
  have res0: "reserve_accept_slot (creq_kind q) s = (s0, Inr ())"
    using assms(4,5) by (simp add: reserve_accept_slot_def s0_def not_le)
  have "hm_get (entries s0) r = Some e" "no_facts e (creq_lease_seq q) s0"
    using assms(1,3) by (simp_all add: s0_def no_facts_def)
  from bind_entry_ok [OF this(1) assms(2) this(2), of "creq_channel_id q" "creq_kind q" "creq_purpose q" False now]
  obtain s2 where b: "bind_entry_to_lease r (creq_channel_id q) (creq_lease_seq q) (creq_kind q) (creq_purpose q)
      False now s0 = (s2, Inr (next_ref s0))" "bound_to r (creq_channel_id q) (creq_lease_seq q) False s2"
    "data_conns s2 = data_conns s0"
    by metis
  have "s1 = record_claim r q RespAck s2"
    using assms(6) res0 b(1) by (simp add: accept_claim_def)
  then show ?thesis using b(2,3) bound_to_record by (auto simp: s0_def)
qed

text \<open>the two ends of a connection can be bound to different channels of the same
  lease. \<open>process_claim_req\<close> decides on the state of the connection, waits in
  \<open>check_accept_target\<close> for a first listener, and carries the decision out without looking again.
  If the connection was idle at the decision, a local \<open>claim_entry\<close> may claim it during the wait.
  When that claim beats the peer's, the peer gives way and binds the connection to our channel, while
  we bind it to the channel of the peer: each end is the accepting side of a channel nobody has
  opened.\<close>

theorem claim_check_race_splits_channel:
  assumes "get_entry conn s = Some (r, e)" and "e_state e = Idle" and "e_stream e = Some k"
    and "cl_lease_seq c' = next_lease_seq (committed_lease_seq e)" and "recent_claim e = None"
    and "no_facts e (cl_lease_seq c') s" and "e_conn_id e = conn"
    and "claim_entry_start r kind purpose nonce s = (s1, Inr (req, w))"
    and "\<not> t_closed s" and "accept_pending s (cl_kind c') < accept_limit s (cl_kind c')"
    and "execute_claim r (request_of c' conn) (decide_claim (claim_plan_of s (request_of c' conn) e) (Inr ())) now s1 = (s2, res)"
    and "crossed t r' c' w' req" and "cl_claim_nonce c' < nonce"
    and "handle_claim_req req now' t = (t1, res_t)"
  shows "bound_to r (cl_channel_id c') (cl_lease_seq c') False s2 \<and>
         bound_to r' (creq_channel_id req) (cl_lease_seq c') False t1 \<and> res_t = Inr (claim_response_cmd req RespAck)"
proof -
  note g = get_entryD [OF assms(1)]
  obtain v n where id: "next_local_id_value (form s) (next_channel_seq s) = (v, n)" by fastforce
  let ?f = "Claiming \<lparr>cl_lease_seq = next_lease_seq (committed_lease_seq e), cl_channel_id = TunnelId v,
      cl_claim_nonce = nonce, cl_kind = kind, cl_purpose = purpose\<rparr>"
  have s1: "s1 = s\<lparr>next_channel_seq := n, entries := hm_insert r (e\<lparr>e_state := ?f\<rparr>) (entries s),
      next_ref := next_ref s + 1, pending_claims := hm_insert (TunnelId v) (next_ref s) (pending_claims s)\<rparr>"
    and req: "creq_lease_seq req = next_lease_seq (committed_lease_seq e)" "creq_claim_nonce req = nonce"
    using assms(2,8) g id by (auto simp: claim_entry_start_def next_local_channel_id_def upd_entry_def Let_def)
  have "decide_claim (claim_plan_of s (request_of c' conn) e) (Inr ()) = Accept"
    using assms(2,4,5) by (simp add: claim_plan_of_def plan_by_state_def decide_claim_def request_of_def)
  then have acc: "accept_claim r (request_of c' conn) None now s1 = (s2, res)"
    using assms(11) by (simp add: execute_claim_def)
  have "bound_to r (creq_channel_id (request_of c' conn)) (creq_lease_seq (request_of c' conn)) False s2"
    using accept_claim_binds [OF _ _ _ _ _ acc, of "e\<lparr>e_state := ?f\<rparr>" k] assms(3,6,9,10)
    by (simp add: s1 no_facts_def request_of_def hm.get_insert)
  moreover have "\<not> local_simultaneous_claim_wins (t_local_id t) (t_remote_id t) (cl_claim_nonce c') (creq_claim_nonce req)"
    using assms(13) req(2) by (auto simp: local_simultaneous_claim_wins_def)
  ultimately show ?thesis
    using claim_loser [OF assms(12) _ assms(14)] req(1) assms(4) by (simp add: request_of_def)
qed

theorem claim_check_race_splits_channel_witness:
  "let s = sample_end (P2pId [1]) (P2pId [2]) Active; q = request_of (snd sample_b) (TunnelId 1);
       (s1, r1) = claim_entry_start 0 KindStream (TunnelPurpose [3]) 9 s
   in bound_to 0 (cl_channel_id (snd sample_b)) (TunnelId 2) False (fst (execute_claim 0 q Accept 3 s1)) \<and>
      bound_to 0 (TunnelId 1) (TunnelId 2) False
        (fst (handle_claim_req (request_of (snd sample_a) (TunnelId 1)) 4 (fst sample_b))) \<and>
      cl_channel_id (snd sample_b) \<noteq> TunnelId 1"
proof -
  let ?s = "sample_end (P2pId [1]) (P2pId [2]) Active" and ?q = "request_of (snd sample_b) (TunnelId 1)"
  have st: "claim_entry_start 0 KindStream (TunnelPurpose [3]) 9 ?s =
      (fst sample_a, Inr (request_of (snd sample_a) (TunnelId 1), 1))"
    by (simp add: sample_claim_defs request_of_def)
  obtain e where e: "get_entry (TunnelId 1) ?s = Some (0, e)" "e_state e = Idle" "e_stream e = Some 7"
    "committed_lease_seq e = TunnelId 1" "recent_claim e = None" "no_facts e (TunnelId 2) ?s" "e_conn_id e = TunnelId 1"
    by (simp add: sample_claim_defs get_entry_def no_facts_def)
  have b: "cl_lease_seq (snd sample_b) = TunnelId 2" "cl_claim_nonce (snd sample_b) = 4"
    "cl_kind (snd sample_b) = KindStream" "cl_channel_id (snd sample_b) \<noteq> TunnelId 1"
    "cl_channel_id (snd sample_a) = TunnelId 1" "\<not> t_closed ?s"
    "accept_pending ?s KindStream < accept_limit ?s KindStream"
    by (simp_all add: sample_claim_defs)
  have d: "decide_claim (claim_plan_of ?s ?q e) (Inr ()) = Accept"
    using e b by (simp add: claim_plan_of_def plan_by_state_def decide_claim_def request_of_def next_lease_seq_def)
  obtain s2 r2 where x: "execute_claim 0 ?q (decide_claim (claim_plan_of ?s ?q e) (Inr ())) 3 (fst sample_a) = (s2, r2)"
    by fastforce
  obtain t1 rt where h: "handle_claim_req (request_of (snd sample_a) (TunnelId 1)) 4 (fst sample_b) = (t1, rt)"
    by fastforce
  have "bound_to 0 (cl_channel_id (snd sample_b)) (TunnelId 2) False s2 \<and> bound_to 0 (TunnelId 1) (TunnelId 2) False t1"
    using claim_check_race_splits_channel [OF e(1-3) _ e(5) _ e(7) st b(6) _ x sample_crossed(2) _ h] e b
    by (simp add: next_lease_seq_def request_of_def)
  with x d h st b(4) show ?thesis by simp
qed

end
