(* ===== verification/TunnelTable.thy ===== *)
theory TunnelTable
  imports TunnelActivity NatConnectPlan
begin

text \<open>
  The tables of \<open>TunnelManager\<close> (\<open>tunnel/tunnel_manager.rs\<close>): the tunnels of every peer, which of
  them is used, how tunnels are registered, published and removed; the schedule by which a peer that
  is reached only through a proxy is tried again; the scores of remote endpoints and the order in
  which they are tried.

  A \<open>TunnelRef\<close> is the number of a tunnel, \<open>tun\<close> gives what the tunnel answers when it is asked:
  its ids never change, whether it is closed, its state and its activity do. \<open>callbacks\<close> records
  which tunnel was handed to which subscriber, \<open>upgrade_wakeups\<close> counts
  \<open>proxy_upgrade_notify.notify_one\<close>. Everything between taking and releasing the locks is one
  function. \<open>panicked\<close> is set where the code would panic because a 64-bit generation is exhausted.
\<close>

section \<open>Definitions\<close>

subsection \<open>State\<close>

record tunnel_view =
  v_tunnel_id :: tunnel_id
  v_candidate_id :: candidate_id
  v_form :: tunnel_form
  v_is_reverse :: bool
  v_remote_id :: p2p_id
  v_local_ep :: "endpoint option"
  v_remote_ep :: "endpoint option"
  v_state :: tunnel_state
  v_closed :: bool
  v_activity :: tunnel_activity

definition is_tunnel_available :: "tunnel_view \<Rightarrow> bool" where
  "is_tunnel_available v \<longleftrightarrow> \<not> v_closed v \<and> v_state v = Connected"

text \<open>What \<open>Tunnel::close\<close> does that the manager can see.\<close>

definition tunnel_close :: "tunnel_view \<Rightarrow> tunnel_view" where
  "tunnel_close v =
     (if v_closed v then v\<lparr>v_activity := activity_retire (v_activity v)\<rparr>
      else v\<lparr>v_closed := True, v_state := Closed, v_activity := activity_retire (v_activity v)\<rparr>)"

definition activity_retire_idle :: "instant \<Rightarrow> duration \<Rightarrow> tunnel_view \<Rightarrow> tunnel_view \<times> bool" where
  "activity_retire_idle now idle v =
     (let (a, r) = try_retire_idle now idle (v_activity v) in (v\<lparr>v_activity := a\<rparr>, r))"

record tunnel_entry =
  te_tunnel :: nat
  te_updated_at :: instant
  te_published :: bool

record endpoint_score =
  last_success_at :: u64
  fail_count :: u32

type_synonym endpoint_score_key = "protocol \<times> socket_addr"

definition score_key :: "endpoint \<Rightarrow> endpoint_score_key" where
  "score_key ep = (protocol ep, addr ep)"

record incoming_waiter_entry =
  iw_token :: nat
  iw_waiter :: nat

type_synonym incoming_wait_key = "p2p_id \<times> tunnel_id \<times> bool"

record proxy_upgrade_state =
  generation :: u64
  next_attempt_at :: instant
  retry_interval :: duration
  short_retry_index :: nat
  in_progress :: bool

record rendezvous_attempt_owner =
  ro_seq :: sequence
  initiator_local :: bool
  ro_task :: "nat option"
  expected_incoming_reverse :: "bool option"
  ro_tunnel_id :: tunnel_id
  winner_completions :: "nat list"
  ro_token :: nat

datatype connect_direction = DirectionDirect | DirectionReverse | DirectionProxy

record p2p_connection_info =
  direct :: connect_direction
  ci_local_ep :: endpoint
  ci_remote_ep :: endpoint

record tunnel_manager =
  tm_local_id :: p2p_id
  proxy_upgrade_initial_interval :: duration
  tunnels :: "(p2p_id, tunnel_entry list) hmap"
  endpoint_scores :: "(endpoint_score_key, endpoint_score) hmap"
  pending_reverse_waiters :: "(incoming_wait_key, incoming_waiter_entry) hmap"
  proxy_upgrade_states :: "(p2p_id, proxy_upgrade_state) hmap"
  next_proxy_upgrade_generation :: u64
  rendezvous_attempts :: "(p2p_id, rendezvous_attempt_owner) hmap"
  subscriptions :: "nat list"
  tun :: "nat \<Rightarrow> tunnel_view"
  callbacks :: "(nat \<times> nat) list"
  upgrade_wakeups :: nat
  panicked :: bool
  waiter_answers :: "(nat \<times> nat) list"
  completion_answers :: "(nat \<times> nat p2p_result) list"
  yielded :: "nat list"
  cancelled :: "nat list"
  aborted_tasks :: "nat list"
  started_tasks :: "nat list"
  conn_info_cache :: "(p2p_id, p2p_connection_info) hmap"
  next_token :: nat

definition tunnel_manager_new :: "p2p_id \<Rightarrow> duration \<Rightarrow> (nat \<Rightarrow> tunnel_view) \<Rightarrow> tunnel_manager" where
  "tunnel_manager_new local initial views =
     \<lparr>tm_local_id = local, proxy_upgrade_initial_interval = initial, tunnels = [], endpoint_scores = [],
      pending_reverse_waiters = [], proxy_upgrade_states = [], next_proxy_upgrade_generation = 0,
      rendezvous_attempts = [], subscriptions = [], tun = views, callbacks = [], upgrade_wakeups = 0,
      panicked = False, waiter_answers = [], completion_answers = [], yielded = [], cancelled = [],
      aborted_tasks = [], started_tasks = [], conn_info_cache = [], next_token = 0\<rparr>"

subsection \<open>Proxy upgrades\<close>

definition PROXY_UPGRADE_MAX_INTERVAL :: duration where
  "PROXY_UPGRADE_MAX_INTERVAL = from_secs (2 * 60 * 60)"

definition PROXY_UPGRADE_SHORT_INTERVALS :: "duration list" where
  "PROXY_UPGRADE_SHORT_INTERVALS = [from_secs 15, from_secs 30, from_secs 60, from_secs 120]"

definition proxy_upgrade_new :: "u64 \<Rightarrow> instant \<Rightarrow> proxy_upgrade_state" where
  "proxy_upgrade_new gen now =
     \<lparr>generation = gen, next_attempt_at = now + PROXY_UPGRADE_SHORT_INTERVALS ! 0,
      retry_interval = PROXY_UPGRADE_SHORT_INTERVALS ! 0, short_retry_index = 0, in_progress = False\<rparr>"

text \<open>\<open>Duration::saturating_mul\<close> followed by \<open>min\<close> with two hours is \<open>min\<close> on unbounded numbers.\<close>

definition advance_proxy_upgrade_retry :: "duration \<Rightarrow> proxy_upgrade_state \<Rightarrow> proxy_upgrade_state" where
  "advance_proxy_upgrade_retry initial u =
     (if short_retry_index u + 1 < length PROXY_UPGRADE_SHORT_INTERVALS
      then u\<lparr>short_retry_index := short_retry_index u + 1,
             retry_interval := PROXY_UPGRADE_SHORT_INTERVALS ! (short_retry_index u + 1)\<rparr>
      else if short_retry_index u + 1 = length PROXY_UPGRADE_SHORT_INTERVALS
      then u\<lparr>short_retry_index := short_retry_index u + 1, retry_interval := initial\<rparr>
      else u\<lparr>retry_interval := min (2 * retry_interval u) PROXY_UPGRADE_MAX_INTERVAL\<rparr>)"

definition allocate_proxy_upgrade_generation :: "tunnel_manager \<Rightarrow> tunnel_manager \<times> u64" where
  "allocate_proxy_upgrade_generation s =
     (let g = next_proxy_upgrade_generation s
      in if g = - 1 then (s\<lparr>panicked := True\<rparr>, g)
         else (s\<lparr>next_proxy_upgrade_generation := g + 1\<rparr>, g + 1))"

definition insert_proxy_upgrade :: "p2p_id \<Rightarrow> instant \<Rightarrow> tunnel_manager \<Rightarrow> tunnel_manager" where
  "insert_proxy_upgrade remote now s =
     (let (s1, g) = allocate_proxy_upgrade_generation s
      in s1\<lparr>proxy_upgrade_states := hm_insert remote (proxy_upgrade_new g now) (proxy_upgrade_states s1)\<rparr>)"

definition remove_proxy_upgrade :: "p2p_id \<Rightarrow> tunnel_manager \<Rightarrow> tunnel_manager \<times> bool" where
  "remove_proxy_upgrade remote s =
     (s\<lparr>proxy_upgrade_states := hm_remove remote (proxy_upgrade_states s)\<rparr>,
      hm_get (proxy_upgrade_states s) remote \<noteq> None)"

definition entry_view :: "tunnel_manager \<Rightarrow> tunnel_entry \<Rightarrow> tunnel_view" where
  "entry_view s e = tun s (te_tunnel e)"

definition entry_available :: "tunnel_manager \<Rightarrow> tunnel_entry \<Rightarrow> bool" where
  "entry_available s e = is_tunnel_available (entry_view s e)"

definition entry_is_proxy :: "tunnel_manager \<Rightarrow> tunnel_entry \<Rightarrow> bool" where
  "entry_is_proxy s e = (v_form (entry_view s e) = Proxy)"

definition reconcile_proxy_upgrade_state ::
    "instant \<Rightarrow> p2p_id \<Rightarrow> tunnel_entry list option \<Rightarrow> tunnel_manager \<Rightarrow> tunnel_manager \<times> bool" where
  "reconcile_proxy_upgrade_state now remote entries s =
     (case entries of
        None \<Rightarrow> remove_proxy_upgrade remote s
      | Some es \<Rightarrow>
          let av = filter (entry_available s) es
          in if av = [] \<or> list_ex (\<lambda>e. \<not> entry_is_proxy s e) av then remove_proxy_upgrade remote s
             else if list_all te_published av \<and> hm_get (proxy_upgrade_states s) remote = None
             then (insert_proxy_upgrade remote now s, True)
             else (s, False))"

definition wake_upgrades :: "bool \<Rightarrow> tunnel_manager \<Rightarrow> tunnel_manager" where
  "wake_upgrades b s = (if b then s\<lparr>upgrade_wakeups := upgrade_wakeups s + 1\<rparr> else s)"

text \<open>Reconcile against the table as it is now, and wake the upgrade task if something changed.\<close>

definition reconcile_and_wake :: "instant \<Rightarrow> p2p_id \<Rightarrow> tunnel_manager \<Rightarrow> tunnel_manager" where
  "reconcile_and_wake now remote s =
     (let (s1, b) = reconcile_proxy_upgrade_state now remote (hm_get (tunnels s) remote) s in wake_upgrades b s1)"

definition next_proxy_upgrade_wait :: "instant \<Rightarrow> tunnel_manager \<Rightarrow> duration option" where
  "next_proxy_upgrade_wait now s =
     (let ws = [next_attempt_at u - now. (_, u) \<leftarrow> proxy_upgrade_states s, \<not> in_progress u]
      in if ws = [] then None else Some (fold min (tl ws) (hd ws)))"

definition upgrade_due :: "instant \<Rightarrow> proxy_upgrade_state \<Rightarrow> bool" where
  "upgrade_due now u \<longleftrightarrow> \<not> in_progress u \<and> next_attempt_at u \<le> now"

definition collect_due_proxy_upgrades ::
    "instant \<Rightarrow> tunnel_manager \<Rightarrow> tunnel_manager \<times> (p2p_id \<times> u64) list" where
  "collect_due_proxy_upgrades now s =
     (s\<lparr>proxy_upgrade_states :=
          map (\<lambda>(r, u). (r, if upgrade_due now u then u\<lparr>in_progress := True\<rparr> else u)) (proxy_upgrade_states s)\<rparr>,
      [(r, generation u). (r, u) \<leftarrow> proxy_upgrade_states s, upgrade_due now u])"

definition on_proxy_upgrade_failed_generation ::
    "p2p_id \<Rightarrow> u64 \<Rightarrow> instant \<Rightarrow> tunnel_manager \<Rightarrow> tunnel_manager \<times> duration option" where
  "on_proxy_upgrade_failed_generation remote gen now s =
     (case hm_get (proxy_upgrade_states s) remote of
        None \<Rightarrow> (s, None)
      | Some u \<Rightarrow>
          if generation u \<noteq> gen then (s, None)
          else
            let u1 = advance_proxy_upgrade_retry (proxy_upgrade_initial_interval s) (u\<lparr>in_progress := False\<rparr>);
                u2 = u1\<lparr>next_attempt_at := now + retry_interval u1\<rparr>
            in (wake_upgrades True (s\<lparr>proxy_upgrade_states := hm_insert remote u2 (proxy_upgrade_states s)\<rparr>),
                Some (retry_interval u2)))"

subsection \<open>Choosing a tunnel\<close>

definition preferred_tunnel_entry :: "tunnel_manager \<Rightarrow> tunnel_entry \<Rightarrow> tunnel_entry \<Rightarrow> bool" where
  "preferred_tunnel_entry s candidate current =
     (case (latest_business_activity_at (v_activity (entry_view s candidate)),
            latest_business_activity_at (v_activity (entry_view s current))) of
        (Some a, Some b) \<Rightarrow> a > b
      | (Some _, None) \<Rightarrow> True
      | (None, Some _) \<Rightarrow> False
      | (None, None) \<Rightarrow> te_updated_at candidate > te_updated_at current)"

text \<open>The loop of \<open>select_preferred_tunnel_entry\<close>, with its two slots: direct and proxy.\<close>

definition keep_better :: "('a \<Rightarrow> 'a \<Rightarrow> bool) \<Rightarrow> 'a \<Rightarrow> 'a option \<Rightarrow> 'a option" where
  "keep_better better x slot = (case slot of None \<Rightarrow> Some x | Some y \<Rightarrow> if better x y then Some x else Some y)"

definition select_preferred_tunnel_entry :: "tunnel_manager \<Rightarrow> tunnel_entry list \<Rightarrow> tunnel_entry option" where
  "select_preferred_tunnel_entry s es =
     (let (direct, proxy) = fold (\<lambda>e (direct, proxy).
            if entry_is_proxy s e then (direct, keep_better (preferred_tunnel_entry s) e proxy)
            else (keep_better (preferred_tunnel_entry s) e direct, proxy)) es (None, None)
      in case direct of Some e \<Rightarrow> Some e | None \<Rightarrow> proxy)"

definition put_entries :: "p2p_id \<Rightarrow> tunnel_entry list \<Rightarrow> tunnel_manager \<Rightarrow> tunnel_manager" where
  "put_entries remote es s =
     (if es = [] then s\<lparr>tunnels := hm_remove remote (tunnels s)\<rparr>
      else s\<lparr>tunnels := hm_insert remote es (tunnels s)\<rparr>)"

definition get_tunnel_with_filter ::
    "instant \<Rightarrow> p2p_id \<Rightarrow> (tunnel_entry \<Rightarrow> bool) \<Rightarrow> bool \<Rightarrow> tunnel_manager \<Rightarrow> tunnel_manager \<times> nat option" where
  "get_tunnel_with_filter now remote P allow_hidden s =
     (case hm_get (tunnels s) remote of
        None \<Rightarrow> (reconcile_and_wake now remote s, None)
      | Some es \<Rightarrow>
          let kept = filter (entry_available s) es;
              first = select_preferred_tunnel_entry s (filter te_published (filter P kept));
              chosen = (case first of Some e \<Rightarrow> Some e
                        | None \<Rightarrow> if allow_hidden then select_preferred_tunnel_entry s (filter P kept) else None)
          in (reconcile_and_wake now remote (put_entries remote kept s), map_option te_tunnel chosen))"

definition get_tunnel :: "instant \<Rightarrow> p2p_id \<Rightarrow> tunnel_manager \<Rightarrow> tunnel_manager \<times> nat option" where
  "get_tunnel now remote s = get_tunnel_with_filter now remote (\<lambda>_. True) True s"

definition get_non_proxy_tunnel :: "instant \<Rightarrow> p2p_id \<Rightarrow> tunnel_manager \<Rightarrow> tunnel_manager \<times> nat option" where
  "get_non_proxy_tunnel now remote s =
     get_tunnel_with_filter now remote (\<lambda>e. \<not> entry_is_proxy s e) False s"

definition has_available_tunnel_id ::
    "instant \<Rightarrow> p2p_id \<Rightarrow> tunnel_id \<Rightarrow> tunnel_manager \<Rightarrow> tunnel_manager \<times> bool" where
  "has_available_tunnel_id now remote tid s =
     (case hm_get (tunnels s) remote of
        None \<Rightarrow> (reconcile_and_wake now remote s, False)
      | Some es \<Rightarrow>
          let kept = filter (entry_available s) es
          in (reconcile_and_wake now remote (put_entries remote kept s),
              list_ex (\<lambda>e. v_tunnel_id (entry_view s e) = tid) kept))"

definition only_published_proxy_candidates :: "tunnel_manager \<Rightarrow> tunnel_entry list \<Rightarrow> bool" where
  "only_published_proxy_candidates s es \<longleftrightarrow>
     es \<noteq> [] \<and> list_all (entry_is_proxy s) es \<and> list_ex te_published es"

subsection \<open>Registering, publishing, removing\<close>

definition same_candidate :: "tunnel_manager \<Rightarrow> nat \<Rightarrow> tunnel_entry \<Rightarrow> bool" where
  "same_candidate s t e \<longleftrightarrow>
     v_tunnel_id (entry_view s e) = v_tunnel_id (tun s t) \<and> v_candidate_id (entry_view s e) = v_candidate_id (tun s t)"

definition close_tunnel :: "nat \<Rightarrow> tunnel_manager \<Rightarrow> tunnel_manager" where
  "close_tunnel t s = s\<lparr>tun := (tun s)(t := tunnel_close (tun s t))\<rparr>"

definition register_new :: "instant \<Rightarrow> p2p_id \<Rightarrow> nat \<Rightarrow> tunnel_entry list \<Rightarrow> tunnel_manager \<Rightarrow> tunnel_manager" where
  "register_new now remote t es s =
     (let (s1, b) =
        (if list_ex (\<lambda>e. \<not> entry_is_proxy s e \<and> entry_available s e) es then remove_proxy_upgrade remote s
         else if v_form (tun s t) = Proxy \<and> is_tunnel_available (tun s t)
         then (insert_proxy_upgrade remote now s, True)
         else reconcile_proxy_upgrade_state now remote (Some es) s)
      in wake_upgrades b s1)"

definition register_tunnel :: "instant \<Rightarrow> nat \<Rightarrow> tunnel_manager \<Rightarrow> tunnel_manager \<times> nat p2p_result" where
  "register_tunnel now t s =
     (let remote = v_remote_id (tun s t)
      in if is_default remote then (s, Inr t)
         else
           let kept = filter (entry_available s) (case hm_get (tunnels s) remote of Some es \<Rightarrow> es | None \<Rightarrow> [])
           in (case List.find (same_candidate s t) kept of
                 Some e \<Rightarrow>
                   let s1 = reconcile_and_wake now remote (s\<lparr>tunnels := hm_insert remote kept (tunnels s)\<rparr>)
                   in (if te_tunnel e = t then s1 else close_tunnel t s1, Inl AlreadyExists)
               | None \<Rightarrow>
                   let es = kept @ [\<lparr>te_tunnel = t, te_updated_at = now, te_published = False\<rparr>]
                   in (register_new now remote t es (s\<lparr>tunnels := hm_insert remote es (tunnels s)\<rparr>), Inr t)))"

definition publish_tunnel :: "nat \<Rightarrow> tunnel_manager \<Rightarrow> tunnel_manager" where
  "publish_tunnel t s = s\<lparr>callbacks := callbacks s @ map (\<lambda>c. (c, t)) (subscriptions s)\<rparr>"

fun update_first :: "('a \<Rightarrow> bool) \<Rightarrow> ('a \<Rightarrow> 'a) \<Rightarrow> 'a list \<Rightarrow> 'a list" where
  "update_first P f [] = []"
| "update_first P f (x # xs) = (if P x then f x # xs else x # update_first P f xs)"

definition publish_registered_tunnel :: "instant \<Rightarrow> nat \<Rightarrow> tunnel_manager \<Rightarrow> tunnel_manager \<times> unit p2p_result" where
  "publish_registered_tunnel now t s =
     (let remote = v_remote_id (tun s t)
      in case hm_get (tunnels s) remote of
           None \<Rightarrow> (s, Inl NotFound)
         | Some es \<Rightarrow>
             (case List.find (same_candidate s t) es of
                None \<Rightarrow> (s, Inl NotFound)
              | Some e \<Rightarrow>
                  if te_published e then (s, Inr ())
                  else
                    let es' = update_first (same_candidate s t) (\<lambda>e. e\<lparr>te_published := True, te_updated_at := now\<rparr>) es
                    in (publish_tunnel t (s\<lparr>tunnels := hm_insert remote es' (tunnels s)\<rparr>), Inr ())))"

definition register_tunnel_and_publish ::
    "instant \<Rightarrow> nat \<Rightarrow> tunnel_manager \<Rightarrow> tunnel_manager \<times> nat p2p_result" where
  "register_tunnel_and_publish now t s =
     (case register_tunnel now t s of
        (s1, Inl e) \<Rightarrow> (s1, Inl e)
      | (s1, Inr t') \<Rightarrow>
          (case publish_registered_tunnel now t' s1 of (s2, Inl e) \<Rightarrow> (s2, Inl e) | (s2, Inr _) \<Rightarrow> (s2, Inr t')))"

definition is_registered_tunnel_published :: "p2p_id \<Rightarrow> nat \<Rightarrow> tunnel_manager \<Rightarrow> bool" where
  "is_registered_tunnel_published remote t s =
     (case hm_get (tunnels s) remote of
        None \<Rightarrow> False
      | Some es \<Rightarrow> (case List.find (same_candidate s t) es of Some e \<Rightarrow> te_published e | None \<Rightarrow> False))"

definition finalize_proxy_upgrade_success ::
    "instant \<Rightarrow> p2p_id \<Rightarrow> nat \<Rightarrow> tunnel_manager \<Rightarrow> tunnel_manager \<times> bool" where
  "finalize_proxy_upgrade_success now remote t s =
     (if v_form (tun s t) = Proxy then (s, False)
      else
        let es = (case hm_get (tunnels s) remote of Some es \<Rightarrow> es | None \<Rightarrow> [])
        in if list_ex (\<lambda>e. te_tunnel e = t \<and> \<not> entry_is_proxy s e \<and> entry_available s e) es
           then
             let s1 = s\<lparr>tunnels := hm_insert remote (filter (\<lambda>e. \<not> entry_is_proxy s e) es) (tunnels s)\<rparr>;
                 (s2, b) = remove_proxy_upgrade remote s1
             in (fold close_tunnel (map te_tunnel (filter (entry_is_proxy s) es)) (wake_upgrades b s2), True)
           else (reconcile_and_wake now remote s, False))"

text \<open>\<open>cleanup_closed_tunnels\<close>: \<open>retire_idle\<close> is the tunnel's \<open>try_retire_idle\<close>. One entry, the
  entries of one peer, then the whole table; the tunnels that were removed are closed at the end.\<close>

type_synonym retire_idle = "instant \<Rightarrow> duration \<Rightarrow> tunnel_view \<Rightarrow> tunnel_view \<times> bool"

definition cleanup_entry ::
    "retire_idle \<Rightarrow> instant \<Rightarrow> duration \<Rightarrow> tunnel_entry \<Rightarrow> tunnel_manager \<times> tunnel_entry list \<times> nat list \<Rightarrow>
     tunnel_manager \<times> tunnel_entry list \<times> nat list" where
  "cleanup_entry retire now idle e acc =
     (let (s, kept, removed) = acc
      in if \<not> entry_available s e then (s, kept, removed @ [te_tunnel e])
         else
           let (v, retired) = retire now idle (entry_view s e);
               s1 = s\<lparr>tun := (tun s)(te_tunnel e := v)\<rparr>
           in if retired then (s1, kept, removed @ [te_tunnel e]) else (s1, kept @ [e], removed))"

definition cleanup_peer ::
    "retire_idle \<Rightarrow> instant \<Rightarrow> duration \<Rightarrow> p2p_id \<times> tunnel_entry list \<Rightarrow> tunnel_manager \<times> bool \<times> nat list \<Rightarrow>
     tunnel_manager \<times> bool \<times> nat list" where
  "cleanup_peer retire now idle p acc =
     (let (remote, es) = p; (s, wake, removed) = acc;
          (s1, kept, removed1) = fold (cleanup_entry retire now idle) es (s, [], removed);
          (s2, b) = reconcile_proxy_upgrade_state now remote (Some kept) s1
      in (put_entries remote kept s2, wake \<or> b, removed1))"

definition cleanup_closed_tunnels :: "retire_idle \<Rightarrow> instant \<Rightarrow> duration \<Rightarrow> tunnel_manager \<Rightarrow> tunnel_manager" where
  "cleanup_closed_tunnels retire now idle s =
     (let (s1, wake, removed) = fold (cleanup_peer retire now idle) (tunnels s) (s, False, [])
      in fold close_tunnel removed (wake_upgrades wake s1))"

definition subscribe :: "nat \<Rightarrow> tunnel_manager \<Rightarrow> tunnel_manager" where
  "subscribe c s = s\<lparr>subscriptions := subscriptions s @ [c]\<rparr>"

subsection \<open>Endpoints\<close>

definition DIRECT_CACHE_MAX_FAILURES :: u32 where
  "DIRECT_CACHE_MAX_FAILURES = 2"

definition MAX_NAT_PLAN_CANDIDATES :: nat where
  "MAX_NAT_PLAN_CANDIDATES = 8"

definition direct_cache_endpoint_degraded :: "endpoint \<Rightarrow> tunnel_manager \<Rightarrow> bool" where
  "direct_cache_endpoint_degraded ep s =
     (case hm_get (endpoint_scores s) (score_key ep) of
        Some st \<Rightarrow> fail_count st \<ge> DIRECT_CACHE_MAX_FAILURES | None \<Rightarrow> False)"

definition on_direct_connect_result :: "endpoint \<Rightarrow> bool \<Rightarrow> timestamp \<Rightarrow> tunnel_manager \<Rightarrow> tunnel_manager" where
  "on_direct_connect_result ep success now s =
     (let st = (case hm_get (endpoint_scores s) (score_key ep) of
             Some st \<Rightarrow> st | None \<Rightarrow> \<lparr>last_success_at = 0, fail_count = 0\<rparr>);
          st' = (if success then st\<lparr>last_success_at := now, fail_count := 0\<rparr>
                 else st\<lparr>fail_count := sat_add (fail_count st) 1\<rparr>)
      in s\<lparr>endpoint_scores := hm_insert (score_key ep) st' (endpoint_scores s)\<rparr>)"

text \<open>The score of an endpoint in \<open>preferred_direct_endpoints\<close>; \<open>preferred\<close> is the cached
  connection info of the peer.\<close>

definition endpoint_rank :: "endpoint option \<Rightarrow> tunnel_manager \<Rightarrow> endpoint \<Rightarrow> int" where
  "endpoint_rank preferred s ep =
     (let stat = hm_get (endpoint_scores s) (score_key ep);
          bonus = (if direct_cache_endpoint_degraded ep s then 0
                   else (if (case preferred of Some p \<Rightarrow> endpoint_eq p ep | None \<Rightarrow> False) then 10000 else 0) +
                        (if (case stat of Some st \<Rightarrow> last_success_at st > 0 | None \<Rightarrow> False) then 2000 else 0))
      in bonus + (if is_static_wan ep then 500 else 0) -
         (case stat of Some st \<Rightarrow> int (min (unat (fail_count st)) 20) * 300 | None \<Rightarrow> 0))"

definition rank_cmp :: "int \<times> nat \<times> endpoint \<Rightarrow> int \<times> nat \<times> endpoint \<Rightarrow> ordering" where
  "rank_cmp a b = then_with (cmp_ord (fst b) (fst a)) (cmp_ord (fst (snd a)) (fst (snd b)))"

definition preferred_direct_endpoints :: "endpoint option \<Rightarrow> endpoint list \<Rightarrow> tunnel_manager \<Rightarrow> endpoint list" where
  "preferred_direct_endpoints preferred eps s =
     map (snd \<circ> snd)
       (sort_by rank_cmp (map (\<lambda>(i, ep). (endpoint_rank preferred s ep, i, ep)) (List.enumerate 0 eps)))"

definition push_unique_endpoint :: "endpoint \<Rightarrow> endpoint list \<Rightarrow> endpoint list" where
  "push_unique_endpoint ep eps = (if list_ex (\<lambda>e. endpoint_eq e ep) eps then eps else eps @ [ep])"

text \<open>\<open>nat_candidates\<close>.\<close>

definition nat_candidates :: "endpoint list \<Rightarrow> candidate_mode \<Rightarrow> endpoint list p2p_result" where
  "nat_candidates base mode =
     (case mode of
        Base \<Rightarrow> Inr (take MAX_NAT_PLAN_CANDIDATES (fold push_unique_endpoint base []))
      | Predicted \<Rightarrow> Inl NotFound)"

definition udp_punch_enabled_for_candidate :: "endpoint \<Rightarrow> bool" where
  "udp_punch_enabled_for_candidate ep \<longleftrightarrow>
     protocol ep = Quic \<and> rendezvous_eligible_area False ep \<and> sa_port (addr ep) \<noteq> 0"

section \<open>The best entry\<close>

text \<open>What the selection loop asks of the comparison: a strict order in which two entries that are
  not ordered are alike.\<close>

locale preference =
  fixes better :: "'a \<Rightarrow> 'a \<Rightarrow> bool"
  assumes irrefl: "\<not> better x x"
    and neg_trans: "better x z \<Longrightarrow> better x y \<or> better y z"
    and asym: "better x y \<Longrightarrow> \<not> better y x"
begin

lemma fold_keep_better_Some:
  "\<exists>m. fold (keep_better better) xs (Some y) = Some m \<and> m \<in> insert y (set xs) \<and>
       \<not> better y m \<and> (\<forall>x\<in>set xs. \<not> better x m)"
proof (induction xs arbitrary: y)
  case Nil
  then show ?case by (simp add: irrefl)
next
  case (Cons x xs)
  let ?y = "if better x y then x else y"
  obtain m where m: "fold (keep_better better) xs (Some ?y) = Some m" "m \<in> insert ?y (set xs)"
    "\<not> better ?y m" "\<forall>z\<in>set xs. \<not> better z m"
    using Cons.IH by blast
  have "\<not> better x m \<and> \<not> better y m"
    using m(3) neg_trans asym by (metis (full_types))
  moreover have "fold (keep_better better) (x # xs) (Some y) = Some m"
    using m(1) by (simp add: keep_better_def split: if_splits)
  ultimately show ?case using m(2,4) by (auto split: if_splits)
qed

lemma fold_keep_better:
  "case fold (keep_better better) xs None of None \<Rightarrow> xs = []
   | Some m \<Rightarrow> m \<in> set xs \<and> (\<forall>x\<in>set xs. \<not> better x m)"
proof (cases xs)
  case (Cons x ys)
  with fold_keep_better_Some [of ys x] show ?thesis by (auto simp: keep_better_def)
qed simp

end

interpretation pref: preference "preferred_tunnel_entry s"
  by unfold_locales (auto simp: preferred_tunnel_entry_def split: option.splits)

text \<open>The entries a lookup chooses from: the published ones, if an available one is published, and of
  those the direct ones, if there is one.\<close>

definition usable_entries :: "p2p_id \<Rightarrow> tunnel_manager \<Rightarrow> tunnel_entry list" where
  "usable_entries remote s =
     filter (entry_available s) (case hm_get (tunnels s) remote of Some es \<Rightarrow> es | None \<Rightarrow> [])"

definition prefer_some :: "('a \<Rightarrow> bool) \<Rightarrow> 'a list \<Rightarrow> 'a list" where
  "prefer_some P xs = (if filter P xs = [] then xs else filter P xs)"

definition choices :: "p2p_id \<Rightarrow> tunnel_manager \<Rightarrow> tunnel_entry list" where
  "choices remote s =
     prefer_some (\<lambda>e. \<not> entry_is_proxy s e) (prefer_some te_published (usable_entries remote s))"

lemma select_split:
  "fold (\<lambda>e (direct, proxy).
      if entry_is_proxy s e then (direct, keep_better better e proxy)
      else (keep_better better e direct, proxy)) es (d, p) =
   (fold (keep_better better) (filter (\<lambda>e. \<not> entry_is_proxy s e) es) d,
    fold (keep_better better) (filter (entry_is_proxy s) es) p)"
  by (induction es arbitrary: d p) auto

lemma prefer_some_Nil [simp]: "prefer_some P [] = []"
  by (simp add: prefer_some_def)

lemma select_best:
  "case select_preferred_tunnel_entry s es of None \<Rightarrow> es = []
   | Some m \<Rightarrow> m \<in> set (prefer_some (\<lambda>e. \<not> entry_is_proxy s e) es) \<and>
               (\<forall>e\<in>set (prefer_some (\<lambda>e. \<not> entry_is_proxy s e) es). \<not> preferred_tunnel_entry s e m)"
proof -
  let ?d = "filter (\<lambda>e. \<not> entry_is_proxy s e) es" and ?p = "filter (entry_is_proxy s) es"
  have p: "?p = es" if "?d = []" using that by (simp add: filter_empty_conv)
  show ?thesis
    using pref.fold_keep_better [where s = s and xs = ?d] pref.fold_keep_better [where s = s and xs = ?p] p
    by (auto simp: select_preferred_tunnel_entry_def select_split prefer_some_def split: option.splits)
qed


section \<open>The invariant of the tables\<close>

definition entry_ids :: "tunnel_manager \<Rightarrow> tunnel_entry \<Rightarrow> tunnel_id \<times> candidate_id" where
  "entry_ids s e = (v_tunnel_id (entry_view s e), v_candidate_id (entry_view s e))"

definition peer_ok :: "tunnel_manager \<Rightarrow> p2p_id \<Rightarrow> tunnel_entry list \<Rightarrow> bool" where
  "peer_ok s remote es \<longleftrightarrow>
     es \<noteq> [] \<and> \<not> is_default remote \<and> distinct (map (entry_ids s) es) \<and>
     list_all (\<lambda>e. v_remote_id (entry_view s e) = remote) es"

definition proxies_only :: "tunnel_manager \<Rightarrow> tunnel_entry list \<Rightarrow> bool" where
  "proxies_only s es \<longleftrightarrow> list_all (\<lambda>e. entry_is_proxy s e \<or> \<not> entry_available s e) es"

definition upgrade_ok :: "duration \<Rightarrow> proxy_upgrade_state \<Rightarrow> bool" where
  "upgrade_ok initial u \<longleftrightarrow>
     short_retry_index u \<le> length PROXY_UPGRADE_SHORT_INTERVALS \<and>
     retry_interval u \<le> max initial PROXY_UPGRADE_MAX_INTERVAL"

text \<open>The tables are maps, every peer in the table has an entry, no candidate is registered twice,
  every entry is a tunnel to its peer; a peer is on the upgrade schedule only while it is in the table
  and none of its available tunnels is direct, and its retry interval is bounded.\<close>

definition tm_inv :: "tunnel_manager \<Rightarrow> bool" where
  "tm_inv s \<longleftrightarrow>
     hm_wf (tunnels s) \<and> hm_wf (proxy_upgrade_states s) \<and>
     (\<forall>r es. hm_get (tunnels s) r = Some es \<longrightarrow> peer_ok s r es) \<and>
     (\<forall>r u. hm_get (proxy_upgrade_states s) r = Some u \<longrightarrow>
        upgrade_ok (proxy_upgrade_initial_interval s) u \<and>
        (\<exists>es. hm_get (tunnels s) r = Some es \<and> proxies_only s es))"

definition same_tunnel :: "tunnel_view \<Rightarrow> tunnel_view \<Rightarrow> bool" where
  "same_tunnel v v' \<longleftrightarrow>
     v_tunnel_id v' = v_tunnel_id v \<and> v_candidate_id v' = v_candidate_id v \<and> v_form v' = v_form v \<and>
     v_remote_id v' = v_remote_id v"

text \<open>What a tunnel may do on its own: it keeps its identity, and does not become available.\<close>

definition tunnel_fades :: "tunnel_view \<Rightarrow> tunnel_view \<Rightarrow> bool" where
  "tunnel_fades v v' \<longleftrightarrow> same_tunnel v v' \<and> (is_tunnel_available v' \<longrightarrow> is_tunnel_available v)"

definition in_table :: "nat \<Rightarrow> tunnel_manager \<Rightarrow> bool" where
  "in_table t s \<longleftrightarrow> (\<exists>r es e. hm_get (tunnels s) r = Some es \<and> e \<in> set es \<and> te_tunnel e = t)"

lemma tm_inv_fade:
  assumes "tm_inv s" and "\<And>t. in_table t s \<Longrightarrow> tunnel_fades (tun s t) (f t)"
  shows "tm_inv (s\<lparr>tun := f\<rparr>)"
proof -
  let ?s = "s\<lparr>tun := f\<rparr>"
  have v: "tunnel_fades (entry_view s e) (entry_view ?s e)" if "hm_get (tunnels s) r = Some es" "e \<in> set es" for r es e
    using assms(2) [of "te_tunnel e"] that by (auto simp: in_table_def entry_view_def)
  have "peer_ok ?s r es" if g: "hm_get (tunnels s) r = Some es" for r es
  proof -
    have "peer_ok s r es" using assms(1) g by (simp add: tm_inv_def)
    moreover have "map (entry_ids ?s) es = map (entry_ids s) es"
      using v [OF g] by (auto simp: entry_ids_def tunnel_fades_def same_tunnel_def)
    moreover have "\<forall>e\<in>set es. v_remote_id (entry_view ?s e) = v_remote_id (entry_view s e)"
      using v [OF g] by (simp add: tunnel_fades_def same_tunnel_def)
    ultimately show ?thesis unfolding peer_ok_def list_all_iff by metis
  qed
  moreover have "proxies_only ?s es" if "hm_get (tunnels s) r = Some es" "proxies_only s es" for r es
    using v [OF that(1)] that(2)
    by (auto simp: proxies_only_def list_all_iff entry_is_proxy_def entry_available_def tunnel_fades_def same_tunnel_def)
  ultimately show ?thesis using assms(1) by (fastforce simp: tm_inv_def)
qed

lemma fades_refl [simp]: "tunnel_fades v v"
  by (simp add: tunnel_fades_def same_tunnel_def)

lemma fades_close [simp]: "tunnel_fades v (tunnel_close v)"
  by (simp add: tunnel_fades_def same_tunnel_def tunnel_close_def is_tunnel_available_def)

lemma tm_inv_close: "tm_inv s \<Longrightarrow> tm_inv (close_tunnel t s)"
  unfolding close_tunnel_def by (rule tm_inv_fade) auto

lemma tm_inv_close_all: "tm_inv s \<Longrightarrow> tm_inv (fold close_tunnel ts s)"
  by (induction ts arbitrary: s) (auto simp: tm_inv_close)

lemma entry_cong:
  assumes "tun t = tun s"
  shows "entry_view t = entry_view s" "entry_ids t = entry_ids s" "entry_available t = entry_available s"
    "entry_is_proxy t = entry_is_proxy s" "peer_ok t = peer_ok s" "proxies_only t = proxies_only s"
proof -
  show v: "entry_view t = entry_view s" using assms by (intro ext) (simp add: entry_view_def)
  show i: "entry_ids t = entry_ids s" by (intro ext) (simp add: v entry_ids_def)
  show a: "entry_available t = entry_available s" by (intro ext) (simp add: v entry_available_def)
  show p: "entry_is_proxy t = entry_is_proxy s" by (intro ext) (simp add: v entry_is_proxy_def)
  show "peer_ok t = peer_ok s" by (intro ext) (simp add: v i peer_ok_def)
  show "proxies_only t = proxies_only s" by (intro ext) (simp add: a p proxies_only_def)
qed

text \<open>The invariant says nothing about the other fields.\<close>

lemma tm_inv_frame:
  assumes "tm_inv s" and "tunnels t = tunnels s" and "proxy_upgrade_states t = proxy_upgrade_states s"
    and "proxy_upgrade_initial_interval t = proxy_upgrade_initial_interval s" and "tun t = tun s"
  shows "tm_inv t"
  using assms entry_cong(5,6) [OF assms(5)] by (simp add: tm_inv_def)

lemma tm_inv_wake [simp]: "tm_inv (wake_upgrades b s) \<longleftrightarrow> tm_inv s"
  using tm_inv_frame [of s "wake_upgrades b s"] tm_inv_frame [of "wake_upgrades b s" s]
  by (auto simp: wake_upgrades_def)

text \<open>The invariant with one peer's schedule left open, which is what \<open>reconcile\<close> repairs.\<close>

definition tm_inv_but :: "p2p_id \<Rightarrow> tunnel_manager \<Rightarrow> bool" where
  "tm_inv_but remote s \<longleftrightarrow>
     hm_wf (tunnels s) \<and> hm_wf (proxy_upgrade_states s) \<and>
     (\<forall>r es. hm_get (tunnels s) r = Some es \<longrightarrow> peer_ok s r es) \<and>
     (\<forall>r u. hm_get (proxy_upgrade_states s) r = Some u \<longrightarrow>
        upgrade_ok (proxy_upgrade_initial_interval s) u \<and>
        (r = remote \<or> (\<exists>es. hm_get (tunnels s) r = Some es \<and> proxies_only s es)))"

lemma tm_inv_but: "tm_inv s \<Longrightarrow> tm_inv_but remote s"
  by (auto simp: tm_inv_def tm_inv_but_def)

lemma upgrade_ok_new: "upgrade_ok initial (proxy_upgrade_new g now)"
  by (simp add: upgrade_ok_def proxy_upgrade_new_def PROXY_UPGRADE_SHORT_INTERVALS_def
      PROXY_UPGRADE_MAX_INTERVAL_def from_secs_def)

text \<open>\<open>reconcile\<close> on a table that holds \<open>es\<close> for the peer.\<close>

lemma reconcile_frame:
  assumes "reconcile_proxy_upgrade_state now remote entries s = (s', b)"
  shows "tunnels s' = tunnels s \<and> tun s' = tun s \<and>
         proxy_upgrade_initial_interval s' = proxy_upgrade_initial_interval s"
  using assms
  by (auto simp: reconcile_proxy_upgrade_state_def remove_proxy_upgrade_def insert_proxy_upgrade_def
      allocate_proxy_upgrade_generation_def Let_def split: option.splits if_splits)

lemma reconcile_upgrades:
  assumes "reconcile_proxy_upgrade_state now remote entries s = (s', b)" and "hm_wf (proxy_upgrade_states s)"
    and "\<And>r u. hm_get (proxy_upgrade_states s) r = Some u \<Longrightarrow> upgrade_ok i u"
  shows "hm_wf (proxy_upgrade_states s') \<and>
         (\<forall>r u. hm_get (proxy_upgrade_states s') r = Some u \<longrightarrow> upgrade_ok i u \<and>
            (if r = remote then \<exists>es. entries = Some es \<and> filter (entry_available s) es \<noteq> [] \<and> proxies_only s es
             else hm_get (proxy_upgrade_states s) r = Some u))"
proof -
  have po: "proxies_only s es" if "\<not> list_ex (\<lambda>e. \<not> entry_is_proxy s e) (filter (entry_available s) es)" for es
    using that by (auto simp: proxies_only_def list_all_iff list_ex_iff)
  show ?thesis
    using assms po upgrade_ok_new [of i]
    by (auto simp: reconcile_proxy_upgrade_state_def remove_proxy_upgrade_def insert_proxy_upgrade_def
        allocate_proxy_upgrade_generation_def Let_def hm.get_insert hm.get_remove hm.wf_insert hm.wf_remove
        split: option.splits if_splits)
qed

lemma tm_inv_reconcile:
  assumes "tm_inv_but remote s" and "reconcile_proxy_upgrade_state now remote (hm_get (tunnels s) remote) s = (s', b)"
  shows "tm_inv s'"
proof -
  note f = reconcile_frame [OF assms(2)]
  have u: "hm_wf (proxy_upgrade_states s')"
    "\<And>r u. hm_get (proxy_upgrade_states s') r = Some u \<Longrightarrow> upgrade_ok (proxy_upgrade_initial_interval s) u \<and>
        (if r = remote then \<exists>es. hm_get (tunnels s) remote = Some es \<and> filter (entry_available s) es \<noteq> [] \<and> proxies_only s es
         else hm_get (proxy_upgrade_states s) r = Some u)"
    using reconcile_upgrades [OF assms(2), of "proxy_upgrade_initial_interval s"] assms(1)
    unfolding tm_inv_but_def by blast+
  have "upgrade_ok (proxy_upgrade_initial_interval s) u \<and> (\<exists>es. hm_get (tunnels s) r = Some es \<and> proxies_only s es)"
    if "hm_get (proxy_upgrade_states s') r = Some u" for r u
    using u(2) [OF that] assms(1) by (cases "r = remote") (auto simp: tm_inv_but_def)
  with u(1) f assms(1) show ?thesis
    using entry_cong(5,6) [of s' s] by (simp add: tm_inv_def tm_inv_but_def)
qed

lemma tm_inv_reconcile_and_wake: "tm_inv_but remote s \<Longrightarrow> tm_inv (reconcile_and_wake now remote s)"
  by (auto simp: reconcile_and_wake_def dest: tm_inv_reconcile split: prod.splits)

text \<open>Replacing the entries of one peer.\<close>

lemma entry_fun_tunnels [simp]:
  "entry_view (s\<lparr>tunnels := m\<rparr>) = entry_view s" "entry_ids (s\<lparr>tunnels := m\<rparr>) = entry_ids s"
  "entry_available (s\<lparr>tunnels := m\<rparr>) = entry_available s" "entry_is_proxy (s\<lparr>tunnels := m\<rparr>) = entry_is_proxy s"
  "peer_ok (s\<lparr>tunnels := m\<rparr>) = peer_ok s" "proxies_only (s\<lparr>tunnels := m\<rparr>) = proxies_only s"
  by (rule entry_cong; simp)+

lemma tm_inv_but_insert:
  assumes "tm_inv s" and "peer_ok s remote es"
  shows "tm_inv_but remote (s\<lparr>tunnels := hm_insert remote es (tunnels s)\<rparr>)"
  using assms by (auto simp: tm_inv_def tm_inv_but_def hm.get_insert hm.wf_insert)

lemma tm_inv_but_remove: "tm_inv s \<Longrightarrow> tm_inv_but remote (s\<lparr>tunnels := hm_remove remote (tunnels s)\<rparr>)"
  by (auto simp: tm_inv_def tm_inv_but_def hm.get_remove hm.wf_remove)

lemma peer_ok_filter:
  "peer_ok s remote es \<Longrightarrow> filter P es \<noteq> [] \<Longrightarrow> peer_ok s remote (filter P es)"
  by (auto simp: peer_ok_def list_all_iff distinct_map inj_on_def)

lemma tm_inv_but_put:
  assumes "tm_inv s" and "hm_get (tunnels s) remote = Some es"
  shows "tm_inv_but remote (put_entries remote (filter P es) s)"
proof -
  have "peer_ok s remote es" using assms by (simp add: tm_inv_def)
  then show ?thesis
    using assms(1) peer_ok_filter [of s remote es P] tm_inv_but_insert [of s remote "filter P es"] tm_inv_but_remove [of s remote]
    by (auto simp: put_entries_def)
qed

lemma tm_inv_get: "tm_inv s \<Longrightarrow> tm_inv (fst (get_tunnel_with_filter now remote P h s))"
  by (auto simp: get_tunnel_with_filter_def Let_def tm_inv_but tm_inv_but_put intro!: tm_inv_reconcile_and_wake
      split: option.splits)

lemma tm_inv_has: "tm_inv s \<Longrightarrow> tm_inv (fst (has_available_tunnel_id now remote tid s))"
  by (auto simp: has_available_tunnel_id_def Let_def tm_inv_but tm_inv_but_put intro!: tm_inv_reconcile_and_wake
      split: option.splits)

text \<open>Registering.\<close>

lemma peer_ok_append:
  assumes "es = [] \<or> peer_ok s remote es" and "\<not> list_ex (same_candidate s t) es"
    and "\<not> is_default remote" and "v_remote_id (tun s t) = remote"
  shows "peer_ok s remote (es @ [\<lparr>te_tunnel = t, te_updated_at = now, te_published = p\<rparr>])"
  using assms
  by (auto simp: peer_ok_def same_candidate_def entry_ids_def list_ex_iff entry_view_def)

lemma tm_inv_but_upgrades:
  assumes "tm_inv_but remote s" and "tunnels t = tunnels s" and "tun t = tun s"
    and "proxy_upgrade_initial_interval t = proxy_upgrade_initial_interval s" and "hm_wf (proxy_upgrade_states t)"
    and "\<And>r u. hm_get (proxy_upgrade_states t) r = Some u \<Longrightarrow>
           (r = remote \<and> upgrade_ok (proxy_upgrade_initial_interval s) u \<and>
             (\<exists>es. hm_get (tunnels s) r = Some es \<and> proxies_only s es)) \<or>
           (r \<noteq> remote \<and> hm_get (proxy_upgrade_states s) r = Some u)"
  shows "tm_inv t"
proof -
  have "upgrade_ok (proxy_upgrade_initial_interval s) u \<and> (\<exists>es. hm_get (tunnels s) r = Some es \<and> proxies_only s es)"
    if "hm_get (proxy_upgrade_states t) r = Some u" for r u
    using assms(6) [OF that] assms(1) by (auto simp: tm_inv_but_def)
  then show ?thesis
    using assms(1-5) entry_cong(5,6) [OF assms(3)] by (simp add: tm_inv_def tm_inv_but_def)
qed

lemma tm_inv_register_new:
  assumes "tm_inv_but remote s" and "hm_get (tunnels s) remote = Some es"
  shows "tm_inv (register_new now remote t es s)"
proof -
  have wf: "hm_wf (proxy_upgrade_states s)" using assms(1) by (simp add: tm_inv_but_def)
  consider (direct) "list_ex (\<lambda>e. \<not> entry_is_proxy s e \<and> entry_available s e) es"
    | (proxy) "\<not> list_ex (\<lambda>e. \<not> entry_is_proxy s e \<and> entry_available s e) es"
        "v_form (tun s t) = Proxy \<and> is_tunnel_available (tun s t)"
    | (other) "\<not> list_ex (\<lambda>e. \<not> entry_is_proxy s e \<and> entry_available s e) es"
        "\<not> (v_form (tun s t) = Proxy \<and> is_tunnel_available (tun s t))"
    by blast
  then show ?thesis
  proof cases
    case direct
    have "tm_inv (fst (remove_proxy_upgrade remote s))"
      by (rule tm_inv_but_upgrades [OF assms(1)])
        (use wf in \<open>auto simp: remove_proxy_upgrade_def hm.get_remove hm.wf_remove split: if_splits\<close>)
    with direct show ?thesis by (cases "remove_proxy_upgrade remote s") (simp add: register_new_def)
  next
    case proxy
    then have "proxies_only s es" by (auto simp: proxies_only_def list_all_iff list_ex_iff)
    then have "tm_inv (insert_proxy_upgrade remote now s)"
      by (intro tm_inv_but_upgrades [OF assms(1)])
        (use wf assms(2) upgrade_ok_new in \<open>auto simp: insert_proxy_upgrade_def allocate_proxy_upgrade_generation_def
          Let_def hm.get_insert hm.wf_insert split: if_splits\<close>)
    with proxy show ?thesis by (simp add: register_new_def)
  next
    case other
    obtain s1 b where r: "reconcile_proxy_upgrade_state now remote (Some es) s = (s1, b)" by fastforce
    then have "tm_inv s1" using tm_inv_reconcile [OF assms(1)] assms(2) by metis
    with other r show ?thesis by (auto simp: register_new_def)
  qed
qed

lemma peer_ok_kept:
  "tm_inv s \<Longrightarrow> usable_entries remote s = [] \<or> peer_ok s remote (usable_entries remote s)"
  using peer_ok_filter [of s remote _ "entry_available s"]
  by (auto simp: usable_entries_def tm_inv_def split: option.splits)

lemma find_None_ex: "List.find P xs = None \<Longrightarrow> \<not> list_ex P xs"
  by (auto simp: find_None_iff list_ex_iff)

lemma tm_inv_register:
  assumes "tm_inv s" shows "tm_inv (fst (register_tunnel now t s))"
proof (cases "is_default (v_remote_id (tun s t))")
  case False
  let ?r = "v_remote_id (tun s t)" and ?k = "usable_entries (v_remote_id (tun s t)) s"
  show ?thesis
  proof (cases "List.find (same_candidate s t) ?k")
    case None
    let ?es = "?k @ [\<lparr>te_tunnel = t, te_updated_at = now, te_published = False\<rparr>]"
    have "peer_ok s ?r ?es"
      using peer_ok_append [OF peer_ok_kept [OF assms] find_None_ex [OF None] False] by simp
    then have "tm_inv (register_new now ?r t ?es (s\<lparr>tunnels := hm_insert ?r ?es (tunnels s)\<rparr>))"
      using assms by (intro tm_inv_register_new tm_inv_but_insert) (simp_all add: hm.get_insert)
    with None False show ?thesis by (simp add: register_tunnel_def usable_entries_def Let_def)
  next
    case (Some e)
    then have "peer_ok s ?r ?k" using peer_ok_kept [OF assms, of ?r] by auto
    then have "tm_inv (reconcile_and_wake now ?r (s\<lparr>tunnels := hm_insert ?r ?k (tunnels s)\<rparr>))"
      using assms by (intro tm_inv_reconcile_and_wake tm_inv_but_insert)
    with Some False show ?thesis by (simp add: register_tunnel_def usable_entries_def Let_def tm_inv_close)
  qed
qed (use assms in \<open>simp add: register_tunnel_def\<close>)

text \<open>Publishing changes neither the tunnels nor their order.\<close>

lemma update_first_map: "(\<And>x. g (f x) = g x) \<Longrightarrow> map g (update_first P f xs) = map g xs"
  by (induction xs) auto

lemma publish_entry_ids:
  "map te_tunnel (update_first P (\<lambda>e. e\<lparr>te_published := True, te_updated_at := now\<rparr>) es) = map te_tunnel es"
  by (rule update_first_map) simp

lemma same_tunnels:
  assumes "map te_tunnel es' = map te_tunnel es"
  shows "peer_ok s r es' = peer_ok s r es" and "proxies_only s es' = proxies_only s es"
proof -
  have m: "map (\<lambda>e. f (te_tunnel e)) xs = map f (map te_tunnel xs)" for f :: "nat \<Rightarrow> tunnel_id \<times> candidate_id" and xs :: "tunnel_entry list"
    by simp
  have a: "list_all (\<lambda>e. P (te_tunnel e)) xs = list_all P (map te_tunnel xs)" for P and xs :: "tunnel_entry list"
    by (simp add: list_all_iff)
  have l: "list_all (\<lambda>e. P (te_tunnel e)) es' = list_all (\<lambda>e. P (te_tunnel e)) es" for P
    by (simp only: a assms)
  have n: "(es' = []) = (es = [])" using assms by (metis Nil_is_map_conv)
  have d: "distinct (map (entry_ids s) es') = distinct (map (entry_ids s) es)"
    unfolding entry_ids_def entry_view_def
    by (simp only: m [of "\<lambda>t. (v_tunnel_id (tun s t), v_candidate_id (tun s t))"] assms)
  show "peer_ok s r es' = peer_ok s r es"
    using d l [of "\<lambda>t. v_remote_id (tun s t) = r"] n by (simp add: peer_ok_def entry_view_def)
  show "proxies_only s es' = proxies_only s es"
    using l [of "\<lambda>t. v_form (tun s t) = Proxy \<or> \<not> is_tunnel_available (tun s t)"]
    by (simp add: proxies_only_def entry_is_proxy_def entry_available_def entry_view_def)
qed

lemma tm_inv_publish:
  assumes "tm_inv s" shows "tm_inv (fst (publish_registered_tunnel now t s))"
proof (cases "hm_get (tunnels s) (v_remote_id (tun s t))")
  case (Some es)
  let ?es' = "update_first (same_candidate s t) (\<lambda>e. e\<lparr>te_published := True, te_updated_at := now\<rparr>) es"
  note same = same_tunnels [OF publish_entry_ids]
  have "tm_inv (s\<lparr>tunnels := hm_insert (v_remote_id (tun s t)) ?es' (tunnels s)\<rparr>)"
    using assms Some same by (fastforce simp: tm_inv_def hm.get_insert hm.wf_insert)
  then have "tm_inv (publish_tunnel t (s\<lparr>tunnels := hm_insert (v_remote_id (tun s t)) ?es' (tunnels s)\<rparr>))"
    by (rule tm_inv_frame) (simp_all add: publish_tunnel_def)
  with Some assms show ?thesis
    by (simp add: publish_registered_tunnel_def Let_def split: option.splits)
qed (use assms in \<open>simp add: publish_registered_tunnel_def\<close>)

lemma tm_inv_finalize:
  assumes "tm_inv s" shows "tm_inv (fst (finalize_proxy_upgrade_success now remote t s))"
proof (cases "v_form (tun s t) = Proxy")
  case False
  let ?es = "case hm_get (tunnels s) remote of Some es \<Rightarrow> es | None \<Rightarrow> []"
  show ?thesis
  proof (cases "list_ex (\<lambda>e. te_tunnel e = t \<and> \<not> entry_is_proxy s e \<and> entry_available s e) ?es")
    case True
    then obtain es where es: "hm_get (tunnels s) remote = Some es" by (auto split: option.splits)
    let ?k = "filter (\<lambda>e. \<not> entry_is_proxy s e) es"
    let ?s1 = "s\<lparr>tunnels := hm_insert remote ?k (tunnels s)\<rparr>"
    have ne: "?k \<noteq> []" using True es by (auto simp: list_ex_iff filter_empty_conv)
    have "peer_ok s remote ?k" using assms es ne by (intro peer_ok_filter) (simp_all add: tm_inv_def)
    then have but: "tm_inv_but remote ?s1" by (rule tm_inv_but_insert [OF assms])
    have "tm_inv (fst (remove_proxy_upgrade remote ?s1))"
      by (rule tm_inv_but_upgrades [OF but])
        (use assms in \<open>auto simp: remove_proxy_upgrade_def tm_inv_def hm.get_remove hm.wf_remove split: if_splits\<close>)
    with True False es show ?thesis
      by (cases "remove_proxy_upgrade remote ?s1")
        (simp add: finalize_proxy_upgrade_success_def Let_def tm_inv_close_all)
  next
    case notlive: False
    with False assms show ?thesis
      by (simp add: finalize_proxy_upgrade_success_def Let_def tm_inv_but tm_inv_reconcile_and_wake)
  qed
qed (use assms in \<open>simp add: finalize_proxy_upgrade_success_def\<close>)

text \<open>The schedule.\<close>

lemma short_intervals: "k < length PROXY_UPGRADE_SHORT_INTERVALS \<Longrightarrow> PROXY_UPGRADE_SHORT_INTERVALS ! k \<le> PROXY_UPGRADE_MAX_INTERVAL"
proof -
  have "list_all (\<lambda>d. d \<le> PROXY_UPGRADE_MAX_INTERVAL) PROXY_UPGRADE_SHORT_INTERVALS"
    by (simp add: PROXY_UPGRADE_SHORT_INTERVALS_def PROXY_UPGRADE_MAX_INTERVAL_def from_secs_def)
  then show "k < length PROXY_UPGRADE_SHORT_INTERVALS \<Longrightarrow> PROXY_UPGRADE_SHORT_INTERVALS ! k \<le> PROXY_UPGRADE_MAX_INTERVAL"
    by (simp add: list_all_length)
qed

lemma upgrade_ok_advance: "upgrade_ok i u \<Longrightarrow> upgrade_ok i (advance_proxy_upgrade_retry i u)"
  using short_intervals [of "short_retry_index u + 1"]
  by (simp add: upgrade_ok_def advance_proxy_upgrade_retry_def le_max_iff_disj)

lemma upgrade_ok_simps [simp]:
  "upgrade_ok i (u\<lparr>in_progress := b\<rparr>) = upgrade_ok i u" "upgrade_ok i (u\<lparr>next_attempt_at := n\<rparr>) = upgrade_ok i u"
  by (simp_all add: upgrade_ok_def)

lemma tm_inv_failed:
  assumes "tm_inv s" shows "tm_inv (fst (on_proxy_upgrade_failed_generation remote g now s))"
proof (cases "hm_get (proxy_upgrade_states s) remote")
  case (Some u)
  let ?i = "proxy_upgrade_initial_interval s"
  let ?u1 = "advance_proxy_upgrade_retry ?i (u\<lparr>in_progress := False\<rparr>)"
  let ?u2 = "?u1\<lparr>next_attempt_at := now + retry_interval ?u1\<rparr>"
  have "tm_inv (s\<lparr>proxy_upgrade_states := hm_insert remote ?u2 (proxy_upgrade_states s)\<rparr>)"
    by (rule tm_inv_but_upgrades [OF tm_inv_but [OF assms, of remote]])
      (use assms Some in \<open>auto simp: tm_inv_def hm.get_insert hm.wf_insert upgrade_ok_advance split: if_splits\<close>)
  with Some assms show ?thesis by (simp add: on_proxy_upgrade_failed_generation_def Let_def)
qed (use assms in \<open>simp add: on_proxy_upgrade_failed_generation_def\<close>)

lemma hm_get_map_val: "hm_get (map (\<lambda>(k, v). (k, f v)) m) k = map_option f (hm_get m k)"
  by (induction m) (auto simp: hm_get_def)

lemma hm_wf_map_val: "hm_wf (map (\<lambda>(k, v). (k, f v)) m) = hm_wf m"
  by (simp add: hm_wf_def comp_def case_prod_beta')

lemma tm_inv_collect:
  assumes "tm_inv s" shows "tm_inv (fst (collect_due_proxy_upgrades now s))"
proof -
  let ?f = "\<lambda>u. if upgrade_due now u then u\<lparr>in_progress := True\<rparr> else u"
  let ?t = "fst (collect_due_proxy_upgrades now s)"
  have "proxy_upgrade_states ?t = map (\<lambda>(r, u). (r, ?f u)) (proxy_upgrade_states s)"
    by (simp add: collect_due_proxy_upgrades_def)
  then have g: "hm_get (proxy_upgrade_states ?t) r = map_option ?f (hm_get (proxy_upgrade_states s) r)"
    and w: "hm_wf (proxy_upgrade_states ?t) = hm_wf (proxy_upgrade_states s)" for r
    using hm_get_map_val [of ?f] hm_wf_map_val [of ?f] by simp_all
  have f: "tunnels ?t = tunnels s" "tun ?t = tun s"
    "proxy_upgrade_initial_interval ?t = proxy_upgrade_initial_interval s"
    by (simp_all add: collect_due_proxy_upgrades_def)
  show ?thesis
    using assms entry_cong(5,6) [OF f(2)] by (auto simp: tm_inv_def g w f split: if_splits)
qed

section \<open>Idle cleanup\<close>

definition views_keep :: "tunnel_manager \<Rightarrow> tunnel_manager \<Rightarrow> bool" where
  "views_keep s s' \<longleftrightarrow>
     (\<exists>f. s' = s\<lparr>tun := f\<rparr> \<and> (\<forall>t. same_tunnel (tun s t) (f t) \<and> is_tunnel_available (f t) = is_tunnel_available (tun s t)))"

lemma views_keep_refl: "views_keep s s"
  unfolding views_keep_def by (rule exI [of _ "tun s"]) (simp add: same_tunnel_def)

lemma views_keep_trans: "views_keep s t \<Longrightarrow> views_keep t u \<Longrightarrow> views_keep s u"
proof -
  assume "views_keep s t" "views_keep t u"
  then obtain f g where "t = s\<lparr>tun := f\<rparr>" "u = t\<lparr>tun := g\<rparr>"
    "\<forall>i. same_tunnel (tun s i) (f i) \<and> is_tunnel_available (f i) = is_tunnel_available (tun s i)"
    "\<forall>i. same_tunnel (tun t i) (g i) \<and> is_tunnel_available (g i) = is_tunnel_available (tun t i)"
    unfolding views_keep_def by blast
  then show ?thesis unfolding views_keep_def by (intro exI [of _ g]) (simp add: same_tunnel_def)
qed

lemma views_keep_inv: "views_keep s s' \<Longrightarrow> tm_inv s \<Longrightarrow> tm_inv s'"
  unfolding views_keep_def by (auto simp: tunnel_fades_def intro!: tm_inv_fade)

lemma views_keep_simps:
  assumes "views_keep s s'"
  shows "tunnels s' = tunnels s" "entry_available s' = entry_available s" "entry_ids s' = entry_ids s"
    "entry_is_proxy s' = entry_is_proxy s"
proof -
  obtain f where f: "s' = s\<lparr>tun := f\<rparr>"
    "\<And>t. same_tunnel (tun s t) (f t)" "\<And>t. is_tunnel_available (f t) = is_tunnel_available (tun s t)"
    using assms unfolding views_keep_def by blast
  show "tunnels s' = tunnels s" using f(1) by simp
  show "entry_available s' = entry_available s" using f by (intro ext) (simp add: entry_available_def entry_view_def)
  show "entry_ids s' = entry_ids s" using f by (intro ext) (simp add: entry_ids_def entry_view_def same_tunnel_def)
  show "entry_is_proxy s' = entry_is_proxy s"
    using f by (intro ext) (simp add: entry_is_proxy_def entry_view_def same_tunnel_def)
qed

text \<open>What the manager relies on when it asks a tunnel to retire: the tunnel keeps its identity, its
  state and whether it is closed.\<close>

locale idle_tunnel =
  fixes retire :: retire_idle
  assumes retire_keeps: "retire now idle v = (v', b) \<Longrightarrow>
      same_tunnel v v' \<and> v_state v' = v_state v \<and> v_closed v' = v_closed v"
begin

lemma retire_view: "views_keep s (s\<lparr>tun := (tun s)(t := fst (retire now idle (tun s t)))\<rparr>)"
proof (cases "retire now idle (tun s t)")
  case (Pair v b)
  from retire_keeps [OF this] show ?thesis
    unfolding views_keep_def
    by (intro exI [of _ "(tun s)(t := v)"]) (simp add: Pair is_tunnel_available_def same_tunnel_def)
qed

text \<open>The entries of one peer: what is not kept is on the list to close.\<close>

lemma cleanup_entries:
  assumes "fold (cleanup_entry retire now idle) es (s, k0, r0) = (s', kept, removed)"
  shows "\<exists>k r. kept = k0 @ k \<and> removed = r0 @ r \<and> views_keep s s' \<and> set k \<subseteq> set es \<and>
           (\<forall>f :: tunnel_entry \<Rightarrow> tunnel_id \<times> candidate_id. distinct (map f es) \<longrightarrow> distinct (map f k)) \<and>
           (\<forall>e\<in>set k. entry_available s e) \<and> (\<forall>e\<in>set es. e \<in> set k \<or> te_tunnel e \<in> set r)"
  using assms
proof (induction es arbitrary: s k0 r0)
  case Nil
  then show ?case by (simp add: views_keep_refl)
next
  case (Cons e es)
  let ?v = "fst (retire now idle (entry_view s e))" and ?b = "snd (retire now idle (entry_view s e))"
  let ?s1 = "s\<lparr>tun := (tun s)(te_tunnel e := ?v)\<rparr>"
  have keep: "views_keep s ?s1" unfolding entry_view_def by (rule retire_view)
  have step: "cleanup_entry retire now idle e (s, k0, r0) =
      (if \<not> entry_available s e then (s, k0, r0 @ [te_tunnel e])
       else if ?b then (?s1, k0, r0 @ [te_tunnel e]) else (?s1, k0 @ [e], r0))"
    by (simp add: cleanup_entry_def case_prod_beta')
  consider (gone) "\<not> entry_available s e" | (idle) "entry_available s e" "?b" | (stays) "entry_available s e" "\<not> ?b"
    by blast
  then show ?case
  proof cases
    case gone
    then have "fold (cleanup_entry retire now idle) es (s, k0, r0 @ [te_tunnel e]) = (s', kept, removed)"
      using Cons.prems by (simp add: step)
    from Cons.IH [OF this] show ?thesis by fastforce
  next
    case idle
    then have "fold (cleanup_entry retire now idle) es (?s1, k0, r0 @ [te_tunnel e]) = (s', kept, removed)"
      using Cons.prems by (simp add: step)
    from Cons.IH [OF this] views_keep_trans [OF keep] views_keep_simps(2) [OF keep] show ?thesis by fastforce
  next
    case stays
    then have "fold (cleanup_entry retire now idle) es (?s1, k0 @ [e], r0) = (s', kept, removed)"
      using Cons.prems by (simp add: step)
    from Cons.IH [OF this] obtain k r where k: "kept = k0 @ e # k" "removed = r0 @ r" "views_keep ?s1 s'" "set k \<subseteq> set es"
      "\<forall>f :: tunnel_entry \<Rightarrow> tunnel_id \<times> candidate_id. distinct (map f es) \<longrightarrow> distinct (map f k)"
      "\<forall>e\<in>set k. entry_available s e" "\<forall>e\<in>set es. e \<in> set k \<or> te_tunnel e \<in> set r"
      unfolding views_keep_simps(2) [OF keep] by auto
    have "distinct (map f (e # k))" if "distinct (map f (e # es))" for f :: "tunnel_entry \<Rightarrow> tunnel_id \<times> candidate_id"
      using that k(4,5) by auto
    with k stays views_keep_trans [OF keep k(3)] show ?thesis
      by (intro exI [of _ "e # k"] exI [of _ r]) auto
  qed
qed

text \<open>One peer.\<close>

lemma tunnels_put: "tunnels s' = tunnels s \<Longrightarrow> tunnels (put_entries r k s') = tunnels (put_entries r k s)"
  by (simp add: put_entries_def)

lemma put_frame:
  "tun (put_entries r k s) = tun s" "proxy_upgrade_states (put_entries r k s) = proxy_upgrade_states s"
  "proxy_upgrade_initial_interval (put_entries r k s) = proxy_upgrade_initial_interval s"
  by (simp_all add: put_entries_def)

lemma cleanup_peer_step:
  assumes inv: "tm_inv s" and g: "hm_get (tunnels s) remote = Some es"
    and c: "cleanup_peer retire now idle (remote, es) (s, w, r0) = (s', w', removed)"
  shows "tm_inv s' \<and> (\<exists>r. removed = r0 @ r \<and>
           (\<forall>e\<in>set es. te_tunnel e \<in> set r \<or>
              (entry_available s e \<and> (\<exists>k. hm_get (tunnels s') remote = Some k \<and> e \<in> set k)))) \<and>
         (\<forall>k. hm_get (tunnels s') remote = Some k \<longrightarrow> set k \<subseteq> set es \<and> (\<forall>e\<in>set k. entry_available s e)) \<and>
         (\<forall>r. r \<noteq> remote \<longrightarrow> hm_get (tunnels s') r = hm_get (tunnels s) r) \<and>
         entry_available s' = entry_available s"
proof -
  obtain s1 kept where f: "fold (cleanup_entry retire now idle) es (s, [], r0) = (s1, kept, removed)"
      and r: "\<exists>s2 b. reconcile_proxy_upgrade_state now remote (Some kept) s1 = (s2, b) \<and> s' = put_entries remote kept s2"
    using c by (auto simp: cleanup_peer_def split: prod.splits)
  from r obtain s2 b where s2: "reconcile_proxy_upgrade_state now remote (Some kept) s1 = (s2, b)"
    "s' = put_entries remote kept s2" by blast
  from cleanup_entries [OF f] obtain rm where k: "removed = r0 @ rm" "views_keep s s1" "set kept \<subseteq> set es"
    "distinct (map (entry_ids s) es) \<longrightarrow> distinct (map (entry_ids s) kept)" "\<forall>e\<in>set kept. entry_available s e"
    "\<forall>e\<in>set es. e \<in> set kept \<or> te_tunnel e \<in> set rm"
    by auto
  note same = views_keep_simps [OF k(2)]
  have inv1: "tm_inv s1" by (rule views_keep_inv [OF k(2) inv])
  have wf: "hm_wf (tunnels s)" using inv by (simp add: tm_inv_def)
  have es1: "peer_ok s1 remote es" using inv1 g same(1) by (simp add: tm_inv_def)
  have "peer_ok s1 remote kept" if "kept \<noteq> []"
    using that es1 k(3,4) by (auto simp: peer_ok_def same(3) list_all_iff)
  then have but: "tm_inv_but remote (put_entries remote kept s1)"
    using tm_inv_but_insert [OF inv1] tm_inv_but_remove [OF inv1] by (simp add: put_entries_def)
  note fr = reconcile_frame [OF s2(1)]
  have up: "hm_wf (proxy_upgrade_states s2) \<and>
      (\<forall>r u. hm_get (proxy_upgrade_states s2) r = Some u \<longrightarrow> upgrade_ok (proxy_upgrade_initial_interval s1) u \<and>
        (if r = remote then \<exists>es. Some kept = Some es \<and> filter (entry_available s1) es \<noteq> [] \<and> proxies_only s1 es
         else hm_get (proxy_upgrade_states s1) r = Some u))"
    using reconcile_upgrades [OF s2(1), of "proxy_upgrade_initial_interval s1"] inv1 unfolding tm_inv_def by blast
  have po: "proxies_only (put_entries remote kept s1) = proxies_only s1"
    by (rule entry_cong(6)) (simp add: put_frame)
  have inv': "tm_inv s'" unfolding s2(2)
  proof (rule tm_inv_but_upgrades [OF but], goal_cases)
    case 1 show ?case by (rule tunnels_put) (simp add: fr)
  next
    case (5 r u)
    then have "hm_get (proxy_upgrade_states s2) r = Some u" by (simp add: put_frame)
    with up po show ?case
      by (cases "r = remote") (auto simp: put_frame put_entries_def hm.get_insert split: if_splits)
  qed (simp_all add: put_frame fr up)
  have t': "tunnels s' = tunnels (put_entries remote kept s)"
    unfolding s2(2) by (rule tunnels_put) (simp add: fr same(1))
  have av: "entry_available s' = entry_available s"
    using entry_cong(3) [of s' s1] fr same(2) s2(2) by (simp add: put_frame)
  show ?thesis
    using inv' k t' av wf
    by (auto simp: put_entries_def hm.get_insert hm.get_remove split: if_splits)
qed

lemma cleanup_all:
  assumes "distinct (map fst ps)" and "\<And>r es. (r, es) \<in> set ps \<Longrightarrow> hm_get (tunnels s) r = Some es" and "tm_inv s"
    and "fold (cleanup_peer retire now idle) ps (s, w, r0) = (s', w', removed)"
  shows "tm_inv s' \<and> set r0 \<subseteq> set removed \<and> entry_available s' = entry_available s \<and>
         (\<forall>r. r \<notin> fst ` set ps \<longrightarrow> hm_get (tunnels s') r = hm_get (tunnels s) r) \<and>
         (\<forall>(r, es)\<in>set ps. (\<forall>e\<in>set es. te_tunnel e \<in> set removed \<or>
            (entry_available s e \<and> (\<exists>k. hm_get (tunnels s') r = Some k \<and> e \<in> set k))) \<and>
            (\<forall>k. hm_get (tunnels s') r = Some k \<longrightarrow> set k \<subseteq> set es \<and> (\<forall>e\<in>set k. entry_available s e)))"
  using assms
proof (induction ps arbitrary: s w r0)
  case (Cons p ps)
  obtain remote es where p: "p = (remote, es)" by (cases p)
  obtain s1 w1 r1 where c: "cleanup_peer retire now idle (remote, es) (s, w, r0) = (s1, w1, r1)"
    by (cases "cleanup_peer retire now idle (remote, es) (s, w, r0)") auto
  have g: "hm_get (tunnels s) remote = Some es" using Cons.prems(2) p by auto
  note P = cleanup_peer_step [OF Cons.prems(3) g c]
  have d: "distinct (map fst ps)" and n: "remote \<notin> fst ` set ps" using Cons.prems(1) p by auto
  have g1: "hm_get (tunnels s1) r = Some es'" if "(r, es') \<in> set ps" for r es'
    using that Cons.prems(2) [of r es'] P n by (force simp: p)
  have rest: "fold (cleanup_peer retire now idle) ps (s1, w1, r1) = (s', w', removed)"
    using Cons.prems(4) c p by simp
  have inv1: "tm_inv s1" and r1: "set r0 \<subseteq> set r1" using P by auto
  note I = Cons.IH [OF d g1 inv1 rest]
  have same: "hm_get (tunnels s') remote = hm_get (tunnels s1) remote" using I n by blast
  have "set r1 \<subseteq> set removed" using I by blast
  then have "\<forall>e\<in>set es. te_tunnel e \<in> set removed \<or>
      (entry_available s e \<and> (\<exists>k. hm_get (tunnels s1) remote = Some k \<and> e \<in> set k))"
    using P by fastforce
  then show ?case
    using I P same r1 unfolding p by (simp add: subset_iff)
qed simp

end

interpretation activity_idle: idle_tunnel activity_retire_idle
  by unfold_locales (auto simp: activity_retire_idle_def same_tunnel_def split: prod.splits)

lemma hm_wf_entry: "hm_wf m \<Longrightarrow> (k, v) \<in> set m \<Longrightarrow> hm_get m k = Some v"
  by (simp add: hm_get_in_set)

lemma closed_close_all: "v_closed (tun s t) \<or> t \<in> set ts \<Longrightarrow> v_closed (tun (fold close_tunnel ts s) t)"
  by (induction ts arbitrary: s) (auto simp: close_tunnel_def tunnel_close_def)

lemma tunnels_close_all: "tunnels (fold close_tunnel ts s) = tunnels s"
  by (induction ts arbitrary: s) (auto simp: close_tunnel_def)

lemma cleanup_outcome:
  assumes "tm_inv s" and "cleanup_closed_tunnels activity_retire_idle now idle s = s'"
  shows "tm_inv s' \<and>
         (\<forall>r es. hm_get (tunnels s) r = Some es \<longrightarrow>
            (\<forall>e\<in>set es. v_closed (tun s' (te_tunnel e)) \<or>
               (entry_available s e \<and> (\<exists>k. hm_get (tunnels s') r = Some k \<and> e \<in> set k))) \<and>
            (\<forall>k. hm_get (tunnels s') r = Some k \<longrightarrow> set k \<subseteq> set es \<and> (\<forall>e\<in>set k. entry_available s e))) \<and>
         (\<forall>r. hm_get (tunnels s) r = None \<longrightarrow> hm_get (tunnels s') r = None)"
proof -
  have wf: "hm_wf (tunnels s)" using assms(1) by (simp add: tm_inv_def)
  obtain s1 w removed where f: "fold (cleanup_peer activity_retire_idle now idle) (tunnels s) (s, False, []) = (s1, w, removed)"
    by (metis prod_cases3)
  have s': "s' = fold close_tunnel removed (wake_upgrades w s1)"
    using assms(2) f by (simp add: cleanup_closed_tunnels_def)
  have d: "distinct (map fst (tunnels s))" using wf by (simp add: hm_wf_def)
  note A = activity_idle.cleanup_all [OF d hm_wf_entry [OF wf] assms(1) f]
  have t': "tunnels s' = tunnels s1" by (simp add: s' tunnels_close_all wake_upgrades_def)
  have cl: "t \<in> set removed \<Longrightarrow> v_closed (tun s' t)" for t by (simp add: s' closed_close_all)
  have "tm_inv s'" using A by (simp add: s' tm_inv_close_all)
  moreover have "(\<forall>e\<in>set es. v_closed (tun s' (te_tunnel e)) \<or>
        (entry_available s e \<and> (\<exists>k. hm_get (tunnels s') r = Some k \<and> e \<in> set k))) \<and>
      (\<forall>k. hm_get (tunnels s') r = Some k \<longrightarrow> set k \<subseteq> set es \<and> (\<forall>e\<in>set k. entry_available s e))"
    if "hm_get (tunnels s) r = Some es" for r es
  proof -
    have m: "(r, es) \<in> set (tunnels s)" using that by (rule hm_get_SomeD)
    with A have "(\<forall>e\<in>set es. te_tunnel e \<in> set removed \<or>
        (entry_available s e \<and> (\<exists>k. hm_get (tunnels s1) r = Some k \<and> e \<in> set k))) \<and>
      (\<forall>k. hm_get (tunnels s1) r = Some k \<longrightarrow> set k \<subseteq> set es \<and> (\<forall>e\<in>set k. entry_available s e))" by fast
    then show ?thesis using cl unfolding t' by blast
  qed
  moreover have "hm_get (tunnels s') r = None" if "hm_get (tunnels s) r = None" for r
  proof -
    have "r \<notin> fst ` set (tunnels s)" using that by (simp add: hm_get_def map_of_eq_None_iff)
    with A that show ?thesis by (simp add: t')
  qed
  ultimately show ?thesis by blast
qed

section \<open>Runs of the manager\<close>

text \<open>Every operation above, a tunnel that changes on its own (one that is in the table does not become
  available, see \<open>connecting_tunnel_forgotten\<close> for what happens otherwise), and the operations that
  work on other tables.\<close>

inductive tm_reach :: "tunnel_manager \<Rightarrow> bool" where
  start: "tm_reach (tunnel_manager_new local initial views)"
| look: "tm_reach s \<Longrightarrow> tm_reach (fst (get_tunnel_with_filter now remote P h s))"
| look_id: "tm_reach s \<Longrightarrow> tm_reach (fst (has_available_tunnel_id now remote tid s))"
| reg: "tm_reach s \<Longrightarrow> tm_reach (fst (register_tunnel now t s))"
| pub: "tm_reach s \<Longrightarrow> tm_reach (fst (publish_registered_tunnel now t s))"
| fin: "tm_reach s \<Longrightarrow> tm_reach (fst (finalize_proxy_upgrade_success now remote t s))"
| failed: "tm_reach s \<Longrightarrow> tm_reach (fst (on_proxy_upgrade_failed_generation remote g now s))"
| due: "tm_reach s \<Longrightarrow> tm_reach (fst (collect_due_proxy_upgrades now s))"
| sweep: "tm_reach s \<Longrightarrow> tm_reach (cleanup_closed_tunnels activity_retire_idle now idle s)"
| tunnel: "tm_reach s \<Longrightarrow> (\<And>t. in_table t s \<Longrightarrow> tunnel_fades (tun s t) (f t)) \<Longrightarrow> tm_reach (s\<lparr>tun := f\<rparr>)"
| other: "tm_reach s \<Longrightarrow> tunnels t = tunnels s \<Longrightarrow> proxy_upgrade_states t = proxy_upgrade_states s \<Longrightarrow>
    proxy_upgrade_initial_interval t = proxy_upgrade_initial_interval s \<Longrightarrow> tun t = tun s \<Longrightarrow> tm_reach t"

lemma tm_reach_inv: "tm_reach s \<Longrightarrow> tm_inv s"
proof (induction rule: tm_reach.induct)
  case (start local initial views)
  show ?case by (simp add: tm_inv_def tunnel_manager_new_def hm.get_empty hm_wf_def)
next
  case (sweep s now idle)
  then show ?case using cleanup_outcome by blast
next
  case (other s t)
  then show ?case by (blast intro: tm_inv_frame)
qed (blast intro: tm_inv_get tm_inv_has tm_inv_register tm_inv_publish tm_inv_finalize tm_inv_failed
    tm_inv_collect tm_inv_fade)+


text \<open>the idle sweep loses nothing: every tunnel that was in the table is
  afterwards closed, or it was available, is still in the table and was not retired; and the table
  holds only tunnels that were in it and available before.\<close>

theorem cleanup_closes_what_it_removes:
  assumes "tm_reach s" and "cleanup_closed_tunnels activity_retire_idle now idle s = s'"
    and "hm_get (tunnels s) r = Some es"
  shows "(\<forall>e\<in>set es. v_closed (tun s' (te_tunnel e)) \<or>
            (entry_available s e \<and> (\<exists>k. hm_get (tunnels s') r = Some k \<and> e \<in> set k))) \<and>
         (\<forall>k. hm_get (tunnels s') r = Some k \<longrightarrow> set k \<subseteq> set es \<and> (\<forall>e\<in>set k. entry_available s e))"
  using cleanup_outcome [OF tm_reach_inv [OF assms(1)] assms(2)] assms(3) by blast

section \<open>Samples\<close>

definition sample_view :: "tunnel_state \<Rightarrow> tunnel_form \<Rightarrow> u32 \<Rightarrow> tunnel_view" where
  "sample_view st form tid =
     \<lparr>v_tunnel_id = TunnelId tid, v_candidate_id = TunnelCandidateId 1, v_form = form, v_is_reverse = False, v_remote_id = P2pId [5],
      v_local_ep = None, v_remote_ep = None, v_state = st, v_closed = False, v_activity = activity_new 0\<rparr>"

text \<open>Tunnel 1 is a proxy, tunnel 2 a direct tunnel, tunnel 3 one whose handshake is not done.\<close>

definition sample_views :: "nat \<Rightarrow> tunnel_view" where
  "sample_views t =
     (if t = 1 then sample_view Connected Proxy 1
      else if t = 2 then sample_view Connected Active 2 else sample_view Connecting Passive 3)"

definition sample_new :: tunnel_manager where
  "sample_new = tunnel_manager_new (P2pId [1]) (from_secs 300) sample_views"

definition sample_proxy :: tunnel_manager where
  "sample_proxy = fst (register_tunnel 10 1 sample_new)"

definition sample_both :: tunnel_manager where
  "sample_both = fst (register_tunnel 20 2 sample_proxy)"

definition sample_pending :: tunnel_manager where
  "sample_pending = fst (register_tunnel 10 3 sample_new)"

lemmas sample_defs = sample_new_def sample_proxy_def sample_both_def sample_pending_def sample_views_def
  sample_view_def tunnel_manager_new_def register_tunnel_def register_new_def insert_proxy_upgrade_def
  allocate_proxy_upgrade_generation_def remove_proxy_upgrade_def reconcile_proxy_upgrade_state_def
  wake_upgrades_def entry_available_def entry_is_proxy_def entry_view_def is_tunnel_available_def
  is_default_def same_candidate_def hm_get_def hm_insert_def hm_remove_def proxy_upgrade_new_def
  PROXY_UPGRADE_SHORT_INTERVALS_def Let_def

lemma sample_proxy_reach: "tm_reach sample_proxy"
  unfolding sample_proxy_def sample_new_def by (intro tm_reach.reg tm_reach.start)

lemma sample_both_reach: "tm_reach sample_both"
  unfolding sample_both_def by (intro tm_reach.reg sample_proxy_reach)

lemma sample_pending_reach: "tm_reach sample_pending"
  unfolding sample_pending_def sample_new_def by (intro tm_reach.reg tm_reach.start)

lemma sample_tables [simp]:
  "tunnels sample_proxy = [(P2pId [5], [\<lparr>te_tunnel = 1, te_updated_at = 10, te_published = False\<rparr>])]"
  "tunnels sample_both =
     [(P2pId [5], [\<lparr>te_tunnel = 1, te_updated_at = 10, te_published = False\<rparr>,
                   \<lparr>te_tunnel = 2, te_updated_at = 20, te_published = False\<rparr>])]"
  "tunnels sample_pending = [(P2pId [5], [\<lparr>te_tunnel = 3, te_updated_at = 10, te_published = False\<rparr>])]"
  "tun sample_proxy = sample_views" "tun sample_both = sample_views" "tun sample_pending = sample_views"
  by (simp_all add: sample_defs)

lemma sample_lookup: "get_tunnel 30 (P2pId [5]) sample_both = (fst (get_tunnel 30 (P2pId [5]) sample_both), Some 2)"
  by (simp add: get_tunnel_def get_tunnel_with_filter_def select_preferred_tunnel_entry_def keep_better_def
      hm_get_def entry_available_def entry_is_proxy_def entry_view_def is_tunnel_available_def sample_views_def
      sample_view_def Let_def)



theorem cleanup_closes_what_it_removes_witness:
  "v_closed (tun (cleanup_closed_tunnels activity_retire_idle 400 100 sample_pending) 3)"
  using cleanup_closes_what_it_removes [OF sample_pending_reach refl, of "P2pId [5]"
      "[\<lparr>te_tunnel = 3, te_updated_at = 10, te_published = False\<rparr>]" 400 100]
  by (simp add: hm_get_def entry_available_def entry_view_def is_tunnel_available_def sample_views_def sample_view_def)

section \<open>The retry schedule\<close>

definition advanced :: "duration \<Rightarrow> u64 \<Rightarrow> instant \<Rightarrow> nat \<Rightarrow> proxy_upgrade_state" where
  "advanced initial g now k = (advance_proxy_upgrade_retry initial ^^ k) (proxy_upgrade_new g now)"

lemma advance_late:
  assumes "short_retry_index u = length PROXY_UPGRADE_SHORT_INTERVALS" and "retry_interval u \<le> PROXY_UPGRADE_MAX_INTERVAL"
  shows "short_retry_index ((advance_proxy_upgrade_retry initial ^^ k) u) = length PROXY_UPGRADE_SHORT_INTERVALS \<and>
         retry_interval ((advance_proxy_upgrade_retry initial ^^ k) u) =
           min (2 ^ k * retry_interval u) PROXY_UPGRADE_MAX_INTERVAL"
proof (induction k)
  case 0
  with assms show ?case by simp
next
  case (Suc k)
  then show ?case by (simp add: advance_proxy_upgrade_retry_def min_def)
qed

lemma advance_early:
  "advanced initial g now 4 =
     (proxy_upgrade_new g now)\<lparr>short_retry_index := 4, retry_interval := initial\<rparr>"
  "k < 4 \<Longrightarrow> retry_interval (advanced initial g now k) = PROXY_UPGRADE_SHORT_INTERVALS ! k"
  unfolding advanced_def
   apply (simp add: numeral_eq_Suc advance_proxy_upgrade_retry_def PROXY_UPGRADE_SHORT_INTERVALS_def proxy_upgrade_new_def)
  apply (auto simp: numeral_eq_Suc less_Suc_eq advance_proxy_upgrade_retry_def PROXY_UPGRADE_SHORT_INTERVALS_def
      proxy_upgrade_new_def)
  done

text \<open>the schedule of a peer that is reached only by a proxy: after k failed
  attempts the wait is 15, 30, 60 and 120 seconds for the first ones, then the configured interval,
  which doubles with every further failure up to two hours and stays there.\<close>

theorem upgrade_retry_schedule:
  assumes "initial \<le> PROXY_UPGRADE_MAX_INTERVAL"
  shows "retry_interval (advanced initial g now k) =
           (if k < 4 then [from_secs 15, from_secs 30, from_secs 60, from_secs 120] ! k
            else min (2 ^ (k - 4) * initial) (from_secs 7200))"
proof (cases "k < 4")
  case True
  then show ?thesis using advance_early(2) [of k initial g now] by (simp add: PROXY_UPGRADE_SHORT_INTERVALS_def)
next
  case False
  then have "advanced initial g now k = (advance_proxy_upgrade_retry initial ^^ (k - 4)) (advanced initial g now 4)"
    using funpow_add [of "k - 4" 4 "advance_proxy_upgrade_retry initial"] by (simp add: advanced_def)
  with False assms advance_late [of "advanced initial g now 4" "k - 4" initial] show ?thesis
    by (simp add: advance_early(1) PROXY_UPGRADE_SHORT_INTERVALS_def PROXY_UPGRADE_MAX_INTERVAL_def)
qed

theorem upgrade_retry_schedule_witness:
  "retry_interval (advanced (from_secs 300) 1 0 6) = from_secs 1200"
  using upgrade_retry_schedule [of "from_secs 300" 1 0 6] by (simp add: PROXY_UPGRADE_MAX_INTERVAL_def from_secs_def)

section \<open>A tunnel that is not connected yet\<close>

lemma reconcile_and_wake_frame:
  "tunnels (reconcile_and_wake now r s) = tunnels s \<and> tun (reconcile_and_wake now r s) = tun s"
  using reconcile_frame by (auto simp: reconcile_and_wake_def wake_upgrades_def split: prod.splits)

text \<open>a tunnel that is registered before its handshake is done, as a listener
  hands over a passive tunnel, is forgotten by the next lookup of its peer: it leaves the table
  without being closed, so that it is never found when it is connected later, and publishing it
  fails.\<close>

theorem connecting_tunnel_forgotten:
  assumes "tm_reach s" and "hm_get (tunnels s) r = Some es" and "e \<in> set es"
    and "v_state (entry_view s e) = Connecting" and "\<not> v_closed (entry_view s e)"
    and "get_tunnel now r s = (s', res)"
  shows "\<not> v_closed (entry_view s' e) \<and> \<not> list_ex (same_candidate s' (te_tunnel e)) (case hm_get (tunnels s') r of Some k \<Rightarrow> k | None \<Rightarrow> []) \<and>
         snd (publish_registered_tunnel now' (te_tunnel e) s') = Inl NotFound"
proof -
  let ?kept = "filter (entry_available s) es"
  have inv: "peer_ok s r es" using tm_reach_inv [OF assms(1)] assms(2) by (simp add: tm_inv_def)
  have s': "s' = reconcile_and_wake now r (put_entries r ?kept s)"
    using assms(2,6) by (simp add: get_tunnel_def get_tunnel_with_filter_def Let_def)
  have tun: "tun s' = tun s"
    by (simp add: s' reconcile_and_wake_frame put_entries_def)
  have kept: "(case hm_get (tunnels s') r of Some k \<Rightarrow> k | None \<Rightarrow> []) = ?kept"
    using tm_reach_inv [OF assms(1)]
    by (simp add: s' reconcile_and_wake_frame put_entries_def hm.get_insert hm.get_remove tm_inv_def)
  have "\<not> same_candidate s (te_tunnel e) x" if "x \<in> set ?kept" for x
  proof
    assume "same_candidate s (te_tunnel e) x"
    then have "entry_ids s x = entry_ids s e" by (simp add: same_candidate_def entry_ids_def entry_view_def)
    with inv that assms(3) have "x = e" by (auto simp: peer_ok_def distinct_map dest: inj_onD)
    with that assms(4) show False by (simp add: entry_available_def is_tunnel_available_def)
  qed
  then have no: "\<not> list_ex (same_candidate s' (te_tunnel e)) ?kept"
    by (auto simp: list_ex_iff same_candidate_def entry_view_def tun)
  have "v_remote_id (tun s' (te_tunnel e)) = r"
    using inv assms(3) by (simp add: tun peer_ok_def list_all_iff entry_view_def)
  moreover have "List.find (same_candidate s' (te_tunnel e)) ?kept = None"
    using no by (auto simp: find_None_iff list_ex_iff)
  ultimately have "snd (publish_registered_tunnel now' (te_tunnel e) s') = Inl NotFound"
    using kept by (cases "hm_get (tunnels s') r") (simp_all add: publish_registered_tunnel_def Let_def)
  with no kept assms(5) tun show ?thesis by (simp add: entry_view_def)
qed

theorem connecting_tunnel_forgotten_witness:
  "snd (publish_registered_tunnel 40 3 (fst (get_tunnel 30 (P2pId [5]) sample_pending))) = Inl NotFound"
  using connecting_tunnel_forgotten [OF sample_pending_reach, of "P2pId [5]"
      "[\<lparr>te_tunnel = 3, te_updated_at = 10, te_published = False\<rparr>]" "\<lparr>te_tunnel = 3, te_updated_at = 10, te_published = False\<rparr>"
      30 "fst (get_tunnel 30 (P2pId [5]) sample_pending)" "snd (get_tunnel 30 (P2pId [5]) sample_pending)" 40]
  by (simp add: hm_get_def entry_view_def sample_views_def sample_view_def)

section \<open>The order of endpoints\<close>

interpretation rank: total_cmp rank_cmp
  by unfold_locales (auto simp: rank_cmp_def then_with_iff)

text \<open>the endpoints of a peer are all tried, each as often as it was given, the
  better ranked ones first: ranks never rise along the list.\<close>

theorem preferred_direct_endpoints_sorted:
  "mset (preferred_direct_endpoints preferred eps s) = mset eps \<and>
   sorted_wrt (\<lambda>a b. endpoint_rank preferred s a \<ge> endpoint_rank preferred s b) (preferred_direct_endpoints preferred eps s)"
proof -
  let ?l = "map (\<lambda>(i, ep). (endpoint_rank preferred s ep, i, ep)) (List.enumerate 0 eps)"
  have l: "map (snd \<circ> snd) ?l = eps" by (rule nth_equalityI) (auto simp: nth_enumerate_eq)
  have "mset (map (snd \<circ> snd) (sort_by rank_cmp ?l)) = mset (map (snd \<circ> snd) ?l)"
    by (simp only: mset_map rank.mset_sort_by)
  then have m: "mset (map (snd \<circ> snd) (sort_by rank_cmp ?l)) = mset eps" by (simp only: l)
  have "\<forall>x\<in>set (sort_by rank_cmp ?l). fst x = endpoint_rank preferred s (snd (snd x))"
    by (auto simp: rank.set_sort_by)
  then have "sorted_wrt (\<lambda>a b. endpoint_rank preferred s (snd (snd a)) \<ge> endpoint_rank preferred s (snd (snd b)))
      (sort_by rank_cmp ?l)"
    by (intro sorted_wrt_mono_rel [OF _ rank.sorted_sort_by]) (auto simp: rank_cmp_def then_with_iff)
  with m show ?thesis by (simp only: preferred_direct_endpoints_def sorted_wrt_map o_apply simp_thms)
qed

end
