(* ===== verification/TunnelAttempts.thy ===== *)
theory TunnelAttempts
  imports TunnelTable
begin

text \<open>
  How \<open>TunnelManager\<close> (\<open>tunnel/tunnel_manager.rs\<close>) opens tunnels: the waiters for tunnels that the
  peer opens, the owner of the rendezvous attempt with a peer and who wins when both sides start one,
  the direct, reverse and proxy paths, and the order in which they are tried.

  An \<open>Arc<()>\<close> token, with the \<open>cancel\<close> and \<open>yielded\<close> flags made together with it, is a number; so
  are the sender sides of waiters and completions. What a future does while it waits (the network, the
  other tasks) is a parameter: a function on the state for a call that returns, the list of results
  in the order in which they arrive for the attempts that race.
\<close>

section \<open>Waiters\<close>

definition fresh_token :: "tunnel_manager \<Rightarrow> tunnel_manager \<times> nat" where
  "fresh_token s = (s\<lparr>next_token := next_token s + 1\<rparr>, next_token s)"

definition add_incoming_waiter ::
    "p2p_id \<Rightarrow> tunnel_id \<Rightarrow> bool \<Rightarrow> nat \<Rightarrow> tunnel_manager \<Rightarrow> tunnel_manager \<times> nat" where
  "add_incoming_waiter remote tid expected w s =
     (let (s1, token) = fresh_token s
      in (s1\<lparr>pending_reverse_waiters :=
               hm_insert (remote, tid, expected) \<lparr>iw_token = token, iw_waiter = w\<rparr> (pending_reverse_waiters s1)\<rparr>,
          token))"

definition add_reverse_waiter :: "p2p_id \<Rightarrow> tunnel_id \<Rightarrow> nat \<Rightarrow> tunnel_manager \<Rightarrow> tunnel_manager \<times> nat" where
  "add_reverse_waiter remote tid w s = add_incoming_waiter remote tid True w s"

definition take_incoming_waiter ::
    "p2p_id \<Rightarrow> tunnel_id \<Rightarrow> bool \<Rightarrow> tunnel_manager \<Rightarrow> tunnel_manager \<times> nat option" where
  "take_incoming_waiter remote tid expected s =
     (s\<lparr>pending_reverse_waiters := hm_remove (remote, tid, expected) (pending_reverse_waiters s)\<rparr>,
      map_option iw_waiter (hm_get (pending_reverse_waiters s) (remote, tid, expected)))"

definition take_reverse_waiter :: "p2p_id \<Rightarrow> tunnel_id \<Rightarrow> tunnel_manager \<Rightarrow> tunnel_manager \<times> nat option" where
  "take_reverse_waiter remote tid s = take_incoming_waiter remote tid True s"

definition publish_rendezvous_waiter ::
    "p2p_id \<Rightarrow> rendezvous_attempt_owner \<Rightarrow> nat option \<Rightarrow> tunnel_manager \<Rightarrow> tunnel_manager" where
  "publish_rendezvous_waiter remote ow w s =
     (case (expected_incoming_reverse ow, w) of
        (Some expected, Some n) \<Rightarrow>
          s\<lparr>pending_reverse_waiters :=
              hm_insert (remote, ro_tunnel_id ow, expected) \<lparr>iw_token = ro_token ow, iw_waiter = n\<rparr>
                (pending_reverse_waiters s)\<rparr>
      | _ \<Rightarrow> s)"

definition remove_incoming_waiter_from_state ::
    "p2p_id \<Rightarrow> tunnel_id \<Rightarrow> bool \<Rightarrow> nat \<Rightarrow> tunnel_manager \<Rightarrow> tunnel_manager \<times> nat option" where
  "remove_incoming_waiter_from_state remote tid expected token s =
     (case hm_get (pending_reverse_waiters s) (remote, tid, expected) of
        Some e \<Rightarrow> if iw_token e = token
          then (s\<lparr>pending_reverse_waiters := hm_remove (remote, tid, expected) (pending_reverse_waiters s)\<rparr>,
                Some (iw_waiter e))
          else (s, None)
      | None \<Rightarrow> (s, None))"

definition remove_incoming_waiter ::
    "p2p_id \<Rightarrow> tunnel_id \<Rightarrow> bool \<Rightarrow> nat \<Rightarrow> tunnel_manager \<Rightarrow> tunnel_manager \<times> nat option" where
  "remove_incoming_waiter remote tid expected token s = remove_incoming_waiter_from_state remote tid expected token s"

definition has_reverse_waiter :: "p2p_id \<Rightarrow> tunnel_id \<Rightarrow> tunnel_manager \<Rightarrow> bool" where
  "has_reverse_waiter remote tid s \<longleftrightarrow> hm_get (pending_reverse_waiters s) (remote, tid, True) \<noteq> None"

text \<open>Dropping a \<open>ReverseWaitRegistration\<close> or an \<open>IncomingPlanWaitRegistration\<close> that was not
  dismissed.\<close>

definition drop_wait_registration ::
    "bool \<Rightarrow> p2p_id \<Rightarrow> tunnel_id \<Rightarrow> bool \<Rightarrow> nat \<Rightarrow> tunnel_manager \<Rightarrow> tunnel_manager" where
  "drop_wait_registration active remote tid expected token s =
     (if active then fst (remove_incoming_waiter remote tid expected token s) else s)"

definition notify_waiter :: "nat \<Rightarrow> nat \<Rightarrow> tunnel_manager \<Rightarrow> tunnel_manager" where
  "notify_waiter w t s = s\<lparr>waiter_answers := waiter_answers s @ [(w, t)]\<rparr>"

definition on_incoming_tunnel :: "instant \<Rightarrow> nat \<Rightarrow> tunnel_manager \<Rightarrow> tunnel_manager \<times> bool p2p_result" where
  "on_incoming_tunnel now t s =
     (let v = tun s t
      in case take_incoming_waiter (v_remote_id v) (v_tunnel_id v) (v_is_reverse v) s of
           (s1, Some w) \<Rightarrow> (notify_waiter w t s1, Inr True)
         | (s1, None) \<Rightarrow>
             if v_is_reverse v then (close_tunnel t s1, Inr False)
             else (case register_tunnel now t s1 of
                     (s2, Inl e) \<Rightarrow> (s2, Inl e)
                   | (s2, Inr t') \<Rightarrow>
                       (case publish_registered_tunnel now t' s2 of
                          (s3, Inl e) \<Rightarrow> (s3, Inl e)
                        | (s3, Inr _) \<Rightarrow> (s3, Inr True))))"

section \<open>Rendezvous owners\<close>

definition answer_completions :: "nat list \<Rightarrow> nat p2p_result \<Rightarrow> tunnel_manager \<Rightarrow> tunnel_manager" where
  "answer_completions ws c s = s\<lparr>completion_answers := completion_answers s @ map (\<lambda>w. (w, c)) ws\<rparr>"

definition remove_owner_waiter :: "p2p_id \<Rightarrow> rendezvous_attempt_owner \<Rightarrow> tunnel_manager \<Rightarrow> tunnel_manager" where
  "remove_owner_waiter remote ow s =
     (case expected_incoming_reverse ow of
        Some expected \<Rightarrow>
          fst (remove_incoming_waiter_from_state remote (ro_tunnel_id ow) expected (ro_token ow) s)
      | None \<Rightarrow> s)"

definition abort_rendezvous_owner ::
    "p2p_id \<Rightarrow> rendezvous_attempt_owner \<Rightarrow> tunnel_manager \<Rightarrow> tunnel_manager" where
  "abort_rendezvous_owner remote ow s =
     (let s1 = remove_owner_waiter remote ow s;
          s2 = s1\<lparr>cancelled := cancelled s1 @ [ro_token ow]\<rparr>;
          s3 = (case ro_task ow of
                  Some task \<Rightarrow> s2\<lparr>aborted_tasks := aborted_tasks s2 @ [task]\<rparr> | None \<Rightarrow> s2)
      in answer_completions (winner_completions ow) (Inl UserCanceled) s3)"

definition set_owner :: "p2p_id \<Rightarrow> rendezvous_attempt_owner \<Rightarrow> tunnel_manager \<Rightarrow> tunnel_manager" where
  "set_owner remote ow s = s\<lparr>rendezvous_attempts := hm_insert remote ow (rendezvous_attempts s)\<rparr>"

definition same_attempt :: "rendezvous_attempt_owner \<Rightarrow> rendezvous_attempt_owner \<Rightarrow> bool" where
  "same_attempt a b \<longleftrightarrow>
     initiator_local a = initiator_local b \<and> ro_seq a = ro_seq b \<and> ro_tunnel_id a = ro_tunnel_id b"

definition new_wins :: "p2p_id \<Rightarrow> p2p_id \<Rightarrow> rendezvous_attempt_owner \<Rightarrow> bool" where
  "new_wins local remote ow \<longleftrightarrow> (if initiator_local ow then local < remote else \<not> local < remote)"

definition give_way :: "rendezvous_attempt_owner \<Rightarrow> tunnel_manager \<Rightarrow> tunnel_manager" where
  "give_way ow s = s\<lparr>yielded := yielded s @ [ro_token ow]\<rparr>"

text \<open>The branch in which the new attempt replaces the one in place.\<close>

definition displace_owner ::
    "p2p_id \<Rightarrow> rendezvous_attempt_owner \<Rightarrow> rendezvous_attempt_owner \<Rightarrow> nat option \<Rightarrow> tunnel_manager \<Rightarrow> tunnel_manager" where
  "displace_owner remote old ow w s =
     (let inherit = initiator_local old \<and> \<not> initiator_local ow;
          s0 = s\<lparr>rendezvous_attempts := hm_remove remote (rendezvous_attempts s)\<rparr>;
          s1 = (if inherit then give_way old s0 else s0);
          ow' = (if inherit then ow\<lparr>winner_completions := winner_completions ow @ winner_completions old\<rparr> else ow);
          old' = (if inherit then old\<lparr>winner_completions := []\<rparr> else old);
          s2 = publish_rendezvous_waiter remote ow' w (remove_owner_waiter remote old' s1)
      in abort_rendezvous_owner remote old' (set_owner remote ow' s2))"

definition install_rendezvous_owner ::
    "p2p_id \<Rightarrow> rendezvous_attempt_owner \<Rightarrow> nat option \<Rightarrow> tunnel_manager \<Rightarrow> tunnel_manager \<times> unit p2p_result" where
  "install_rendezvous_owner remote ow w s =
     (case hm_get (rendezvous_attempts s) remote of
        None \<Rightarrow> (set_owner remote ow (publish_rendezvous_waiter remote ow w s), Inr ())
      | Some old \<Rightarrow>
          if same_attempt old ow then (s, Inl AlreadyExists)
          else if new_wins (tm_local_id s) remote ow then (displace_owner remote old ow w s, Inr ())
          else if initiator_local ow \<and> \<not> initiator_local old
          then let s1 = set_owner remote (old\<lparr>winner_completions := winner_completions old @ winner_completions ow\<rparr>)
                          (give_way ow s)
               in (s1\<lparr>cancelled := cancelled s1 @ [ro_token ow]\<rparr>, Inr ())
          else (s, Inl Conflict))"

definition is_owner :: "p2p_id \<Rightarrow> sequence \<Rightarrow> tunnel_id \<Rightarrow> nat \<Rightarrow> tunnel_manager \<Rightarrow> bool" where
  "is_owner remote sq tid token s =
     (case hm_get (rendezvous_attempts s) remote of
        Some ow \<Rightarrow> ro_seq ow = sq \<and> ro_tunnel_id ow = tid \<and> ro_token ow = token
      | None \<Rightarrow> False)"

definition attach_rendezvous_task ::
    "p2p_id \<Rightarrow> sequence \<Rightarrow> tunnel_id \<Rightarrow> nat \<Rightarrow> nat \<Rightarrow> tunnel_manager \<Rightarrow> tunnel_manager \<times> bool" where
  "attach_rendezvous_task remote sq tid token task s =
     (case hm_get (rendezvous_attempts s) remote of
        Some ow \<Rightarrow>
          if is_owner remote sq tid token s
          then ((set_owner remote (ow\<lparr>ro_task := Some task\<rparr>) s)\<lparr>started_tasks := started_tasks s @ [task]\<rparr>, True)
          else (s\<lparr>aborted_tasks := aborted_tasks s @ [task]\<rparr>, False)
      | None \<Rightarrow> (s\<lparr>aborted_tasks := aborted_tasks s @ [task]\<rparr>, False))"

text \<open>The locked part of \<open>complete_rendezvous_owner\<close> and of \<open>cancel_rendezvous_owner\<close>.\<close>

definition take_owner ::
    "p2p_id \<Rightarrow> sequence \<Rightarrow> tunnel_id \<Rightarrow> nat \<Rightarrow> tunnel_manager \<Rightarrow> tunnel_manager \<times> rendezvous_attempt_owner option" where
  "take_owner remote sq tid token s =
     (case hm_get (rendezvous_attempts s) remote of
        Some ow \<Rightarrow>
          if is_owner remote sq tid token s
          then (remove_owner_waiter remote ow (s\<lparr>rendezvous_attempts := hm_remove remote (rendezvous_attempts s)\<rparr>), Some ow)
          else (s, None)
      | None \<Rightarrow> (s, None))"

definition complete_rendezvous_owner ::
    "p2p_id \<Rightarrow> sequence \<Rightarrow> tunnel_id \<Rightarrow> nat \<Rightarrow> nat p2p_result \<Rightarrow> tunnel_manager \<Rightarrow> tunnel_manager" where
  "complete_rendezvous_owner remote sq tid token completion s =
     (case take_owner remote sq tid token s of
        (s1, Some ow) \<Rightarrow> answer_completions (winner_completions ow) completion s1
      | (s1, None) \<Rightarrow> s1)"

definition cancel_rendezvous_owner ::
    "p2p_id \<Rightarrow> sequence \<Rightarrow> tunnel_id \<Rightarrow> nat \<Rightarrow> tunnel_manager \<Rightarrow> tunnel_manager" where
  "cancel_rendezvous_owner remote sq tid token s =
     (case take_owner remote sq tid token s of
        (s1, Some ow) \<Rightarrow> abort_rendezvous_owner remote ow s1
      | (s1, None) \<Rightarrow> s1)"

text \<open>Which tunnel the initiator and the target of a plan wait for; the owners they install.\<close>

definition caller_expected_reverse :: "rendezvous_caller_action \<Rightarrow> bool option" where
  "caller_expected_reverse a =
     (case a of CallerPunchThenWait _ \<Rightarrow> Some True | CallerWaitIncoming \<Rightarrow> Some True | CallerConnect _ \<Rightarrow> None)"

definition target_expected_reverse :: "rendezvous_operation \<Rightarrow> bool option" where
  "target_expected_reverse op =
     (case op of PunchOnly \<Rightarrow> Some False | WaitIncoming \<Rightarrow> Some False
      | PunchAndReverseConnect \<Rightarrow> None | ReverseConnectOnly \<Rightarrow> None)"

definition initiator_owner ::
    "rendezvous_caller_action \<Rightarrow> sequence \<Rightarrow> tunnel_id \<Rightarrow> nat \<Rightarrow> nat \<Rightarrow> rendezvous_attempt_owner" where
  "initiator_owner a sq tid completion token =
     \<lparr>ro_seq = sq, initiator_local = True, ro_task = None,
      expected_incoming_reverse = caller_expected_reverse a, ro_tunnel_id = tid,
      winner_completions = [completion], ro_token = token\<rparr>"

definition target_owner :: "rendezvous_operation \<Rightarrow> sequence \<Rightarrow> tunnel_id \<Rightarrow> nat \<Rightarrow> rendezvous_attempt_owner" where
  "target_owner op sq tid token =
     \<lparr>ro_seq = sq, initiator_local = False, ro_task = None,
      expected_incoming_reverse = target_expected_reverse op, ro_tunnel_id = tid,
      winner_completions = [], ro_token = token\<rparr>"

definition install_initiator ::
    "p2p_id \<Rightarrow> rendezvous_caller_action \<Rightarrow> sequence \<Rightarrow> tunnel_id \<Rightarrow> nat \<Rightarrow> nat \<Rightarrow> tunnel_manager \<Rightarrow>
     tunnel_manager \<times> nat p2p_result" where
  "install_initiator remote a sq tid completion waiter s =
     (let (s1, token) = fresh_token s;
          w = (if caller_expected_reverse a = None then None else Some waiter)
      in case install_rendezvous_owner remote (initiator_owner a sq tid completion token) w s1 of
           (s2, Inl e) \<Rightarrow> (s2, Inl e) | (s2, Inr _) \<Rightarrow> (s2, Inr token))"

definition install_target ::
    "p2p_id \<Rightarrow> rendezvous_operation \<Rightarrow> sequence \<Rightarrow> tunnel_id \<Rightarrow> nat \<Rightarrow> tunnel_manager \<Rightarrow>
     tunnel_manager \<times> nat p2p_result" where
  "install_target remote op sq tid waiter s =
     (let (s1, token) = fresh_token s;
          w = (if target_expected_reverse op = None then None else Some waiter)
      in case install_rendezvous_owner remote (target_owner op sq tid token) w s1 of
           (s2, Inl e) \<Rightarrow> (s2, Inl e) | (s2, Inr _) \<Rightarrow> (s2, Inr token))"

text \<open>The end of \<open>on_sn_rendezvous\<close>: the task is spawned, or not, and attached to its owner.\<close>

definition arm_target ::
    "p2p_id \<Rightarrow> sequence \<Rightarrow> tunnel_id \<Rightarrow> nat \<Rightarrow> nat p2p_result \<Rightarrow> tunnel_manager \<Rightarrow> tunnel_manager \<times> unit p2p_result" where
  "arm_target remote sq tid token spawned s =
     (case spawned of
        Inl e \<Rightarrow> (cancel_rendezvous_owner remote sq tid token s, Inl e)
      | Inr task \<Rightarrow>
          (case attach_rendezvous_task remote sq tid token task s of
             (s1, True) \<Rightarrow> (s1, Inr ())
           | (s1, False) \<Rightarrow> (cancel_rendezvous_owner remote sq tid token s1, Inl Conflict)))"

text \<open>\<open>Drop\<close> of the manager.\<close>

definition manager_drop :: "tunnel_manager \<Rightarrow> tunnel_manager" where
  "manager_drop s =
     (let s1 = s\<lparr>rendezvous_attempts := [], tunnels := []\<rparr>;
          s2 = fold (\<lambda>(remote, ow). abort_rendezvous_owner remote ow) (rendezvous_attempts s) s1
      in fold close_tunnel (concat (map (\<lambda>(_, es). map te_tunnel es) (tunnels s))) s2)"

section \<open>Collisions\<close>

definition attempt_at :: "p2p_id \<Rightarrow> tunnel_manager \<Rightarrow> (sequence \<times> tunnel_id \<times> bool) option" where
  "attempt_at remote s =
     map_option (\<lambda>ow. (ro_seq ow, ro_tunnel_id ow, initiator_local ow)) (hm_get (rendezvous_attempts s) remote)"

text \<open>One side starts an attempt and is told of one by the peer, in either order.\<close>

definition collide ::
    "bool \<Rightarrow> p2p_id \<Rightarrow> rendezvous_caller_action \<times> sequence \<times> tunnel_id \<times> nat \<times> nat \<Rightarrow>
     rendezvous_operation \<times> sequence \<times> tunnel_id \<times> nat \<Rightarrow> tunnel_manager \<Rightarrow> tunnel_manager" where
  "collide own_first remote own theirs s =
     (let (a, sq, tid, completion, waiter) = own; (op, sq', tid', waiter') = theirs;
          start = (\<lambda>s. fst (install_initiator remote a sq tid completion waiter s));
          told = (\<lambda>s. fst (install_target remote op sq' tid' waiter' s))
      in if own_first then told (start s) else start (told s))"

lemma tm_local_id_frame [simp]:
  "tm_local_id (publish_rendezvous_waiter remote ow w s) = tm_local_id s"
  "tm_local_id (remove_owner_waiter remote ow s) = tm_local_id s"
  "tm_local_id (abort_rendezvous_owner remote ow s) = tm_local_id s"
  by (auto simp: publish_rendezvous_waiter_def remove_owner_waiter_def remove_incoming_waiter_from_state_def
      abort_rendezvous_owner_def answer_completions_def Let_def split: option.splits)

lemma attempts_frame [simp]:
  "rendezvous_attempts (publish_rendezvous_waiter remote ow w s) = rendezvous_attempts s"
  "rendezvous_attempts (remove_owner_waiter remote ow s) = rendezvous_attempts s"
  "rendezvous_attempts (abort_rendezvous_owner remote ow s) = rendezvous_attempts s"
  by (auto simp: publish_rendezvous_waiter_def remove_owner_waiter_def remove_incoming_waiter_from_state_def
      abort_rendezvous_owner_def answer_completions_def Let_def split: option.splits)

lemma collision_slot:
  assumes "hm_get (rendezvous_attempts s) remote = None" and "tm_local_id s \<noteq> remote"
  shows "attempt_at remote (collide own_first remote (a, sq, tid, c, w) (op, sq', tid', w') s) =
         Some (if tm_local_id s < remote then (sq, tid, True) else (sq', tid', False))"
  using assms
  by (cases own_first)
    (auto simp: attempt_at_def collide_def install_initiator_def install_target_def fresh_token_def
      install_rendezvous_owner_def set_owner_def same_attempt_def initiator_owner_def target_owner_def new_wins_def
      displace_owner_def give_way_def hm.get_insert Let_def split: option.splits prod.splits sum.splits if_splits)

text \<open>C10: when both sides start an attempt at the same time, each is told of the
  other's attempt, and whichever comes first on either side, both sides keep the same attempt: the
  one that the peer with the smaller id started.\<close>

theorem collision_agreement:
  assumes "tm_local_id A = a" and "tm_local_id B = b" and "a \<noteq> b"
    and "hm_get (rendezvous_attempts A) b = None" and "hm_get (rendezvous_attempts B) a = None"
  shows "map_option (\<lambda>(sq, tid, own). (sq, tid)) (attempt_at b (collide fa b (act, seqA, tidA, cA, wA) (op, seqB, tidB, wA') A)) =
           Some (if a < b then (seqA, tidA) else (seqB, tidB)) \<and>
         map_option (\<lambda>(sq, tid, own). (sq, tid)) (attempt_at a (collide fb a (act', seqB, tidB, cB, wB) (op', seqA, tidA, wB') B)) =
           Some (if a < b then (seqA, tidA) else (seqB, tidB))"
  using assms collision_slot [OF assms(4)] collision_slot [OF assms(5)] by (cases a b rule: linorder_cases) auto

section \<open>Completions and waiters\<close>

subsection \<open>What a map holds\<close>

definition held :: "('v \<Rightarrow> 'a list) \<Rightarrow> ('k, 'v) hmap \<Rightarrow> 'a multiset" where
  "held f m = mset (concat (map (f \<circ> snd) m))"

lemma held_simps [simp]: "held f [] = {#}" "held f ((k, v) # m) = mset (f v) + held f m"
  by (simp_all add: held_def)

lemma hm_remove_Cons [simp]: "hm_remove k ((k', v) # m) = (if k = k' then hm_remove k m else (k', v) # hm_remove k m)"
  by (simp add: hm_remove_def)

lemma hm_remove_id [simp]: "hm_get m k = None \<Longrightarrow> hm_remove k m = m"
  by (simp add: hm_remove_def hm_get_def map_of_eq_None_iff delete_id)

lemma hm_get_Cons: "hm_get ((k', v) # m) k = (if k = k' then Some v else hm_get m k)"
  by (simp add: hm_get_def)

lemma held_remove:
  "hm_wf m \<Longrightarrow> hm_get m k = Some v \<Longrightarrow> held f m = mset (f v) + held f (hm_remove k m)"
proof (induction m)
  case (Cons p m)
  then show ?case by (cases p) (auto simp: hm_get_Cons split: if_splits)
qed (simp add: hm_get_def)

lemma held_insert: "hm_wf m \<Longrightarrow> held f (hm_insert k v m) = mset (f v) + held f (hm_remove k m)"
proof (induction m)
  case Nil
  show ?case by (simp add: hm_insert_def hm_remove_def)
next
  case (Cons p m)
  then show ?case by (cases p) (auto simp: hm_insert_def)
qed

subsection \<open>The invariant\<close>

definition owned_waiter :: "tunnel_manager \<Rightarrow> incoming_wait_key \<Rightarrow> nat \<Rightarrow> bool" where
  "owned_waiter s k token =
     (case hm_get (rendezvous_attempts s) (fst k) of
        Some ow \<Rightarrow> ro_token ow = token \<and> ro_tunnel_id ow = fst (snd k) \<and> expected_incoming_reverse ow = Some (snd (snd k))
      | None \<Rightarrow> False)"

text \<open>\<open>issued\<close>: the completions of the attempts that were accepted; \<open>tokens\<close>: the tokens of attempts,
  in contrast to those of plain waiters; \<open>owed\<close>: completions that are taken out of the table and have
  to be answered.\<close>

definition waiter_ok :: "tunnel_manager \<Rightarrow> nat set \<Rightarrow> incoming_wait_key \<Rightarrow> nat \<Rightarrow> bool" where
  "waiter_ok s tokens k token \<longleftrightarrow> token < next_token s \<and> (token \<in> tokens \<longrightarrow> owned_waiter s k token)"

definition attempts_owe :: "nat list \<Rightarrow> tunnel_manager \<Rightarrow> nat list \<Rightarrow> nat set \<Rightarrow> bool" where
  "attempts_owe owed s issued tokens \<longleftrightarrow>
     hm_wf (rendezvous_attempts s) \<and> hm_wf (pending_reverse_waiters s) \<and>
     mset owed + held winner_completions (rendezvous_attempts s) + mset (map fst (completion_answers s)) = mset issued \<and>
     (\<forall>t\<in>tokens. t < next_token s) \<and>
     (\<forall>k e. hm_get (pending_reverse_waiters s) k = Some e \<longrightarrow> waiter_ok s tokens k (iw_token e))"

abbreviation attempts_inv :: "tunnel_manager \<Rightarrow> nat list \<Rightarrow> nat set \<Rightarrow> bool" where
  "attempts_inv \<equiv> attempts_owe []"

definition attempts_same :: "tunnel_manager \<Rightarrow> tunnel_manager \<Rightarrow> bool" where
  "attempts_same s s' \<longleftrightarrow>
     rendezvous_attempts s' = rendezvous_attempts s \<and> pending_reverse_waiters s' = pending_reverse_waiters s \<and>
     completion_answers s' = completion_answers s \<and> next_token s' = next_token s"

lemma attempts_owe_same: "attempts_owe owed s issued tokens \<Longrightarrow> attempts_same s s' \<Longrightarrow> attempts_owe owed s' issued tokens"
  by (simp add: attempts_owe_def attempts_same_def owned_waiter_def waiter_ok_def)

lemma owe_waiter:
  "attempts_owe owed s issued tokens \<Longrightarrow> hm_get (pending_reverse_waiters s) k = Some e \<Longrightarrow> waiter_ok s tokens k (iw_token e)"
  unfolding attempts_owe_def by blast

lemma attempts_same_refl [simp]: "attempts_same s s"
  by (simp add: attempts_same_def)

lemma owe_answer: "attempts_owe ws s issued tokens \<Longrightarrow> attempts_inv (answer_completions ws c s) issued tokens"
  by (simp add: attempts_owe_def answer_completions_def owned_waiter_def waiter_ok_def comp_def ac_simps)

text \<open>Taking waiters away is always possible.\<close>

lemma owe_fewer_waiters:
  assumes "attempts_owe owed s issued tokens" and "rendezvous_attempts s' = rendezvous_attempts s"
    and "completion_answers s' = completion_answers s" and "next_token s' = next_token s"
    and "hm_wf (pending_reverse_waiters s')"
    and "\<And>k e. hm_get (pending_reverse_waiters s') k = Some e \<Longrightarrow> hm_get (pending_reverse_waiters s) k = Some e"
  shows "attempts_owe owed s' issued tokens"
proof -
  have "waiter_ok s' = waiter_ok s" by (intro ext) (simp add: waiter_ok_def owned_waiter_def assms)
  then show ?thesis using assms(1,5,6) unfolding attempts_owe_def assms(2-4) by simp
qed

lemma remove_owner_waiter_simps [simp]:
  "completion_answers (remove_owner_waiter remote ow s) = completion_answers s"
  "next_token (remove_owner_waiter remote ow s) = next_token s"
  by (auto simp: remove_owner_waiter_def remove_incoming_waiter_from_state_def split: option.splits)

lemma remove_owner_waiter_wf: "hm_wf (pending_reverse_waiters s) \<Longrightarrow> hm_wf (pending_reverse_waiters (remove_owner_waiter remote ow s))"
  by (auto simp: remove_owner_waiter_def remove_incoming_waiter_from_state_def hm.wf_remove split: option.splits)

lemma remove_owner_waiter_get:
  assumes "hm_wf (pending_reverse_waiters s)"
  shows "hm_get (pending_reverse_waiters (remove_owner_waiter remote ow s)) k = Some e \<longleftrightarrow>
         hm_get (pending_reverse_waiters s) k = Some e \<and>
         \<not> (fst k = remote \<and> fst (snd k) = ro_tunnel_id ow \<and> expected_incoming_reverse ow = Some (snd (snd k)) \<and> iw_token e = ro_token ow)"
  using assms
  by (cases k) (auto simp: remove_owner_waiter_def remove_incoming_waiter_from_state_def hm.get_remove split: option.splits if_splits)

lemma owe_remove_waiter:
  assumes "attempts_owe owed s issued tokens" shows "attempts_owe owed (remove_owner_waiter remote ow s) issued tokens"
proof -
  have wf: "hm_wf (pending_reverse_waiters s)" using assms by (simp add: attempts_owe_def)
  show ?thesis
    by (rule owe_fewer_waiters [OF assms]) (simp_all add: remove_owner_waiter_wf remove_owner_waiter_get wf)
qed

lemma owe_abort:
  assumes "attempts_owe (winner_completions ow) s issued tokens"
  shows "attempts_inv (abort_rendezvous_owner remote ow s) issued tokens"
proof -
  let ?s = "remove_owner_waiter remote ow s"
  have "attempts_owe (winner_completions ow) ?s issued tokens" using assms by (rule owe_remove_waiter)
  then show ?thesis unfolding abort_rendezvous_owner_def Let_def
    by (intro owe_answer) (erule attempts_owe_same, auto simp: attempts_same_def split: option.splits)
qed

text \<open>Taking an owner out of the table and its waiter with it: what is left to do is to answer its
  completions.\<close>

definition without_owner :: "p2p_id \<Rightarrow> rendezvous_attempt_owner \<Rightarrow> tunnel_manager \<Rightarrow> tunnel_manager" where
  "without_owner remote ow s =
     remove_owner_waiter remote ow (s\<lparr>rendezvous_attempts := hm_remove remote (rendezvous_attempts s)\<rparr>)"

lemma owe_without:
  assumes inv: "attempts_inv s issued tokens" and ow: "hm_get (rendezvous_attempts s) remote = Some ow"
  shows "attempts_owe (winner_completions ow) (without_owner remote ow s) issued tokens"
    and "hm_get (rendezvous_attempts (without_owner remote ow s)) remote = None"
proof -
  let ?s = "s\<lparr>rendezvous_attempts := hm_remove remote (rendezvous_attempts s)\<rparr>" and ?s' = "without_owner remote ow s"
  have wf: "hm_wf (rendezvous_attempts s)" "hm_wf (pending_reverse_waiters s)"
    using inv by (auto simp: attempts_owe_def)
  have A: "rendezvous_attempts ?s' = hm_remove remote (rendezvous_attempts s)" "next_token ?s' = next_token s"
    "completion_answers ?s' = completion_answers s" by (simp_all add: without_owner_def)
  show "hm_get (rendezvous_attempts ?s') remote = None" by (simp add: A hm.get_remove wf)
  have W: "waiter_ok ?s' tokens k (iw_token e)" if g: "hm_get (pending_reverse_waiters ?s') k = Some e" for k e
  proof -
    have k: "hm_get (pending_reverse_waiters s) k = Some e"
      "\<not> (fst k = remote \<and> fst (snd k) = ro_tunnel_id ow \<and> expected_incoming_reverse ow = Some (snd (snd k)) \<and> iw_token e = ro_token ow)"
      using g remove_owner_waiter_get [of ?s remote ow k e] wf by (simp_all add: without_owner_def)
    have "waiter_ok s tokens k (iw_token e)" using inv k(1) unfolding attempts_owe_def by blast
    moreover have "owned_waiter ?s' k (iw_token e)" if "owned_waiter s k (iw_token e)"
      using that k(2) ow wf by (auto simp: owned_waiter_def A hm.get_remove split: option.splits)
    ultimately show ?thesis by (auto simp: waiter_ok_def A)
  qed
  have "hm_wf (rendezvous_attempts ?s')" "hm_wf (pending_reverse_waiters ?s')"
    by (simp_all add: A hm.wf_remove wf) (simp add: without_owner_def remove_owner_waiter_wf wf)
  moreover have "mset (winner_completions ow) + held winner_completions (rendezvous_attempts ?s') +
      mset (map fst (completion_answers ?s')) = mset issued"
    using inv held_remove [OF wf(1) ow, of winner_completions] by (simp add: attempts_owe_def A)
  ultimately show "attempts_owe (winner_completions ow) ?s' issued tokens"
    using W inv unfolding attempts_owe_def A(2) by blast
qed

lemma owe_update:
  assumes inv: "attempts_inv s issued tokens" and old: "hm_get (rendezvous_attempts s) remote = Some old"
    and same: "ro_token ow = ro_token old" "ro_tunnel_id ow = ro_tunnel_id old"
      "expected_incoming_reverse ow = expected_incoming_reverse old"
    and new: "winner_completions ow = winner_completions old @ new"
  shows "attempts_inv (set_owner remote ow s) (issued @ new) tokens"
proof -
  let ?s' = "set_owner remote ow s"
  have wf: "hm_wf (rendezvous_attempts s)" using inv by (simp add: attempts_owe_def)
  have "owned_waiter ?s' k t = owned_waiter s k t" for k t
    using old same by (auto simp: owned_waiter_def set_owner_def hm.get_insert)
  then have "waiter_ok ?s' = waiter_ok s" by (intro ext) (simp add: waiter_ok_def set_owner_def)
  with inv wf held_remove [OF wf old, of winner_completions] new show ?thesis
    by (simp add: attempts_owe_def set_owner_def hm.wf_insert held_insert add.assoc)
qed

text \<open>A new owner with a token of its own, in a free slot.\<close>

definition token_fresh :: "tunnel_manager \<Rightarrow> nat \<Rightarrow> bool" where
  "token_fresh s token \<longleftrightarrow>
     token < next_token s \<and> (\<forall>k e. hm_get (pending_reverse_waiters s) k = Some e \<longrightarrow> iw_token e \<noteq> token)"

lemma owe_set:
  assumes inv: "attempts_owe owed s issued tokens" and free: "hm_get (rendezvous_attempts s) remote = None"
    and fresh: "token_fresh s (ro_token ow)"
    and owed: "mset owed + mset new = mset owed' + mset (winner_completions ow)"
  shows "attempts_owe owed' (set_owner remote ow (publish_rendezvous_waiter remote ow w s)) (issued @ new)
           (insert (ro_token ow) tokens)"
proof -
  let ?s1 = "publish_rendezvous_waiter remote ow w s" and ?tokens = "insert (ro_token ow) tokens"
  let ?s' = "set_owner remote ow ?s1"
  have wf: "hm_wf (rendezvous_attempts s)" "hm_wf (pending_reverse_waiters s)"
    using inv by (auto simp: attempts_owe_def)
  have A: "rendezvous_attempts ?s' = hm_insert remote ow (rendezvous_attempts s)" "next_token ?s' = next_token s"
    "completion_answers ?s' = completion_answers s" "hm_wf (pending_reverse_waiters ?s')"
    using wf by (auto simp: set_owner_def publish_rendezvous_waiter_def hm.wf_insert split: option.splits)
  have W: "waiter_ok ?s' ?tokens k (iw_token e)" if g: "hm_get (pending_reverse_waiters ?s') k = Some e" for k e
  proof (cases "hm_get (pending_reverse_waiters s) k = Some e")
    case True
    then have "iw_token e \<noteq> ro_token ow" "waiter_ok s tokens k (iw_token e)"
      using fresh inv unfolding token_fresh_def attempts_owe_def by blast+
    then show ?thesis using free by (auto simp: waiter_ok_def A owned_waiter_def hm.get_insert)
  next
    case False
    with g fresh show ?thesis
      by (auto simp: set_owner_def publish_rendezvous_waiter_def hm.get_insert waiter_ok_def owned_waiter_def
          token_fresh_def split: option.splits if_splits)
  qed
  have "mset owed' + held winner_completions (rendezvous_attempts ?s') + mset (map fst (completion_answers ?s')) =
      mset (issued @ new)"
    using inv owed free by (simp add: attempts_owe_def A held_insert wf) (metis add.assoc add.commute)
  moreover have "\<forall>t\<in>?tokens. t < next_token ?s'"
    using inv fresh by (simp add: attempts_owe_def token_fresh_def A)
  ultimately show ?thesis using W A wf unfolding attempts_owe_def by (simp add: hm.wf_insert)
qed

lemma token_fresh_remove:
  "hm_wf (pending_reverse_waiters s) \<Longrightarrow> token_fresh s t \<Longrightarrow> token_fresh (remove_owner_waiter remote ow s) t"
  unfolding token_fresh_def remove_owner_waiter_get remove_owner_waiter_simps by blast

lemma owe_displace:
  assumes inv: "attempts_inv s issued tokens" and old: "hm_get (rendezvous_attempts s) remote = Some old"
    and fresh: "token_fresh s (ro_token ow)"
  shows "attempts_inv (displace_owner remote old ow w s) (issued @ winner_completions ow) (insert (ro_token ow) tokens)"
proof -
  let ?in = "initiator_local old \<and> \<not> initiator_local ow"
  let ?ow = "if ?in then ow\<lparr>winner_completions := winner_completions ow @ winner_completions old\<rparr> else ow"
  let ?old = "if ?in then old\<lparr>winner_completions := []\<rparr> else old"
  let ?s0 = "s\<lparr>rendezvous_attempts := hm_remove remote (rendezvous_attempts s)\<rparr>"
  let ?s1 = "remove_owner_waiter remote ?old (if ?in then give_way old ?s0 else ?s0)"
  have wf: "hm_wf (pending_reverse_waiters s)" using inv by (simp add: attempts_owe_def)
  have same: "attempts_same (without_owner remote old s) ?s1"
    by (auto simp: attempts_same_def without_owner_def give_way_def remove_owner_waiter_def
        remove_incoming_waiter_from_state_def split: option.splits)
  have "attempts_owe (winner_completions old) ?s1 issued tokens"
    using owe_without(1) [OF inv old] same by (rule attempts_owe_same)
  moreover have "hm_get (rendezvous_attempts ?s1) remote = None"
    using owe_without(2) [OF inv old] same by (simp add: attempts_same_def)
  moreover have "token_fresh ?s1 (ro_token ?ow)"
  proof -
    have "token_fresh (without_owner remote old s) (ro_token ow)"
      using fresh wf unfolding without_owner_def by (intro token_fresh_remove) (simp_all add: token_fresh_def)
    then show ?thesis using same by (simp add: token_fresh_def attempts_same_def)
  qed
  moreover have "mset (winner_completions old) + mset (winner_completions ow) =
      mset (winner_completions ?old) + mset (winner_completions ?ow)" by simp
  ultimately have "attempts_owe (winner_completions ?old)
      (set_owner remote ?ow (publish_rendezvous_waiter remote ?ow w ?s1)) (issued @ winner_completions ow)
      (insert (ro_token ?ow) tokens)" by (rule owe_set)
  then show ?thesis unfolding displace_owner_def Let_def by (intro owe_abort) (cases ?in; auto)
qed

lemma owe_install:
  assumes inv: "attempts_inv s issued tokens" and fresh: "token_fresh s (ro_token ow)"
    and "install_rendezvous_owner remote ow w s = (s', r)"
  shows "attempts_inv s' (if is_ok r then issued @ winner_completions ow else issued) (insert (ro_token ow) tokens)"
proof -
  have more: "attempts_inv s issued (insert (ro_token ow) tokens)"
    using inv fresh unfolding attempts_owe_def token_fresh_def waiter_ok_def by simp
  show ?thesis
  proof (cases "hm_get (rendezvous_attempts s) remote")
    case None
    have "attempts_inv (set_owner remote ow (publish_rendezvous_waiter remote ow w s)) (issued @ winner_completions ow)
        (insert (ro_token ow) tokens)"
      by (rule owe_set [OF inv None fresh]) simp
    with None assms(3) show ?thesis by (auto simp: install_rendezvous_owner_def)
  next
    case (Some old)
    let ?s = "set_owner remote (old\<lparr>winner_completions := winner_completions old @ winner_completions ow\<rparr>) (give_way ow s)"
    have "attempts_inv (give_way ow s) issued (insert (ro_token ow) tokens)"
      by (rule attempts_owe_same [OF more]) (simp add: attempts_same_def give_way_def)
    then have "attempts_inv ?s (issued @ winner_completions ow) (insert (ro_token ow) tokens)"
      by (rule owe_update) (use Some in \<open>simp_all add: give_way_def\<close>)
    then have "attempts_inv (?s\<lparr>cancelled := c\<rparr>) (issued @ winner_completions ow) (insert (ro_token ow) tokens)" for c
      by (rule attempts_owe_same) (simp add: attempts_same_def)
    with Some assms(3) more owe_displace [OF inv Some fresh, of w] show ?thesis
      by (auto simp: install_rendezvous_owner_def Let_def split: if_splits)
  qed
qed

lemma token_fresh_new:
  "attempts_owe owed s issued tokens \<Longrightarrow>
   attempts_owe owed (fst (fresh_token s)) issued tokens \<and> token_fresh (fst (fresh_token s)) (snd (fresh_token s)) \<and> snd (fresh_token s) \<notin> tokens"
  unfolding attempts_owe_def fresh_token_def token_fresh_def waiter_ok_def owned_waiter_def
  by (simp, metis less_SucI less_irrefl)

lemma take_owner_without:
  "take_owner remote sq tid token s =
     (case hm_get (rendezvous_attempts s) remote of
        Some ow \<Rightarrow> if is_owner remote sq tid token s then (without_owner remote ow s, Some ow) else (s, None)
      | None \<Rightarrow> (s, None))"
  by (simp add: take_owner_def without_owner_def split: option.splits)

lemma owe_complete: "attempts_inv s issued tokens \<Longrightarrow> attempts_inv (complete_rendezvous_owner remote sq tid token c s) issued tokens"
  by (auto simp: complete_rendezvous_owner_def take_owner_without intro: owe_answer owe_without split: option.splits if_splits)

lemma owe_cancel: "attempts_inv s issued tokens \<Longrightarrow> attempts_inv (cancel_rendezvous_owner remote sq tid token s) issued tokens"
  by (auto simp: cancel_rendezvous_owner_def take_owner_without intro: owe_abort owe_without split: option.splits if_splits)

lemma attempts_same_trans: "attempts_same s t \<Longrightarrow> attempts_same t u \<Longrightarrow> attempts_same s u"
  by (simp add: attempts_same_def)

lemma same_reconcile: "attempts_same s (fst (reconcile_proxy_upgrade_state now remote es s))"
  by (auto simp: attempts_same_def reconcile_proxy_upgrade_state_def remove_proxy_upgrade_def insert_proxy_upgrade_def
      allocate_proxy_upgrade_generation_def Let_def split: option.splits)

lemma same_wake: "attempts_same s (wake_upgrades b s)"
  by (simp add: attempts_same_def wake_upgrades_def)

lemma same_reconcile_and_wake: "attempts_same s (reconcile_and_wake now remote s)"
  unfolding reconcile_and_wake_def Let_def case_prod_beta
  by (rule attempts_same_trans [OF same_reconcile same_wake])

lemma same_insert: "attempts_same s (s\<lparr>tunnels := m\<rparr>)"
  by (simp add: attempts_same_def)

lemma same_register_new: "attempts_same s (register_new now remote t es s)"
  unfolding register_new_def Let_def case_prod_beta
  by (rule attempts_same_trans [OF _ same_wake])
    (simp add: same_reconcile [unfolded attempts_same_def] remove_proxy_upgrade_def insert_proxy_upgrade_def allocate_proxy_upgrade_generation_def
      attempts_same_def Let_def)

lemma same_close: "attempts_same s (close_tunnel t s)"
  by (simp add: attempts_same_def close_tunnel_def)

lemma same_register: "attempts_same s (fst (register_tunnel now t s))"
proof -
  have "attempts_same s (reconcile_and_wake now r (s\<lparr>tunnels := m\<rparr>))" for r m
    by (rule attempts_same_trans [OF same_insert same_reconcile_and_wake])
  moreover have "attempts_same s (close_tunnel t (reconcile_and_wake now r (s\<lparr>tunnels := m\<rparr>)))" for r m
    by (rule attempts_same_trans [OF calculation same_close])
  moreover have "attempts_same s (register_new now r t es (s\<lparr>tunnels := m\<rparr>))" for r m es
    by (rule attempts_same_trans [OF same_insert same_register_new])
  ultimately show ?thesis by (auto simp: register_tunnel_def Let_def split: option.splits)
qed

lemma same_publish: "attempts_same s (fst (publish_registered_tunnel now t s))"
  by (auto simp: attempts_same_def publish_registered_tunnel_def publish_tunnel_def Let_def split: option.splits)

lemma owe_take: "attempts_owe owed s issued tokens \<Longrightarrow> attempts_owe owed (fst (take_incoming_waiter remote tid ex s)) issued tokens"
proof -
  assume a: "attempts_owe owed s issued tokens"
  then have wf: "hm_wf (pending_reverse_waiters s)" by (simp add: attempts_owe_def)
  show ?thesis
    by (rule owe_fewer_waiters [OF a]) (auto simp: take_incoming_waiter_def hm.wf_remove hm.get_remove wf split: if_splits)
qed

lemma owe_remove: "attempts_owe owed s issued tokens \<Longrightarrow> attempts_owe owed (fst (remove_incoming_waiter remote tid ex token s)) issued tokens"
  using owe_take [of owed s issued tokens remote tid ex]
  by (auto simp: remove_incoming_waiter_def remove_incoming_waiter_from_state_def take_incoming_waiter_def split: option.splits)

lemma owe_add:
  assumes inv: "attempts_owe owed s issued tokens"
  shows "attempts_owe owed (fst (add_incoming_waiter remote tid ex w s)) issued tokens"
proof -
  let ?s = "fst (fresh_token s)" and ?t = "snd (fresh_token s)"
  let ?s' = "fst (add_incoming_waiter remote tid ex w s)"
  have f: "attempts_owe owed ?s issued tokens" "?t \<notin> tokens" "?t < next_token ?s"
    using token_fresh_new [OF inv] by (auto simp: token_fresh_def)
  have s': "?s' = ?s\<lparr>pending_reverse_waiters :=
      hm_insert (remote, tid, ex) \<lparr>iw_token = ?t, iw_waiter = w\<rparr> (pending_reverse_waiters ?s)\<rparr>"
    by (simp add: add_incoming_waiter_def Let_def split: prod.splits)
  have "waiter_ok ?s' = waiter_ok ?s" by (intro ext) (simp add: s' waiter_ok_def owned_waiter_def)
  moreover have "waiter_ok ?s tokens k (iw_token e)" if "hm_get (pending_reverse_waiters ?s') k = Some e" for k e
  proof (cases "k = (remote, tid, ex)")
    case True
    with that f(2,3) show ?thesis by (auto simp: s' hm.get_insert waiter_ok_def)
  next
    case False
    with that owe_waiter [OF f(1)] show ?thesis by (simp add: s' hm.get_insert)
  qed
  ultimately show ?thesis using f(1) unfolding attempts_owe_def by (simp add: s' hm.wf_insert)
qed

lemma owe_incoming: "attempts_owe owed s issued tokens \<Longrightarrow> attempts_owe owed (fst (on_incoming_tunnel now t s)) issued tokens"
proof -
  assume inv: "attempts_owe owed s issued tokens"
  let ?s = "fst (take_incoming_waiter (v_remote_id (tun s t)) (v_tunnel_id (tun s t)) (v_is_reverse (tun s t)) s)"
  have s: "attempts_owe owed ?s issued tokens" by (rule owe_take [OF inv])
  have "attempts_same ?s (fst (publish_registered_tunnel now t' (fst (register_tunnel now t ?s))))" for t'
    by (rule attempts_same_trans [OF same_register same_publish])
  then have "attempts_same ?s (fst (on_incoming_tunnel now t s))"
    using same_register [of ?s now t] same_close [of ?s t]
    by (auto simp: on_incoming_tunnel_def Let_def notify_waiter_def attempts_same_def split: prod.splits option.splits sum.splits)
      (metis fst_conv)+
  with s show ?thesis by (rule attempts_owe_same)
qed

lemma owe_attach:
  assumes "attempts_inv s issued tokens" shows "attempts_inv (fst (attach_rendezvous_task remote sq tid token task s)) issued tokens"
proof (cases "hm_get (rendezvous_attempts s) remote")
  case (Some ow)
  have "attempts_inv (set_owner remote (ow\<lparr>ro_task := Some task\<rparr>) s) (issued @ []) tokens"
    by (rule owe_update [OF assms Some]) simp_all
  then have "attempts_inv ((set_owner remote (ow\<lparr>ro_task := Some task\<rparr>) s)\<lparr>started_tasks := x\<rparr>) issued tokens" for x
    by (simp add: attempts_owe_same [OF _ attempts_same_def [THEN iffD2]])
  moreover have "attempts_inv (s\<lparr>aborted_tasks := x\<rparr>) issued tokens" for x
    by (rule attempts_owe_same [OF assms]) (simp add: attempts_same_def)
  ultimately show ?thesis using Some by (simp add: attach_rendezvous_task_def)
next
  case None
  then show ?thesis
    by (simp add: attach_rendezvous_task_def attempts_owe_same [OF assms] attempts_same_def)
qed

subsection \<open>Runs\<close>

text \<open>Every operation on the attempts and the waiters; the others leave these tables alone.\<close>

inductive attempts_run :: "tunnel_manager \<Rightarrow> nat list \<Rightarrow> nat set \<Rightarrow> bool" where
  start: "attempts_run (tunnel_manager_new local initial views) [] {}"
| initiate: "attempts_run s issued tokens \<Longrightarrow> install_initiator remote a sq tid c w s = (s', r) \<Longrightarrow> c \<notin> set issued \<Longrightarrow>
    attempts_run s' (if is_ok r then issued @ [c] else issued) (insert (next_token s) tokens)"
| told: "attempts_run s issued tokens \<Longrightarrow> install_target remote op sq tid w s = (s', r) \<Longrightarrow>
    attempts_run s' issued (insert (next_token s) tokens)"
| attach: "attempts_run s issued tokens \<Longrightarrow> attempts_run (fst (attach_rendezvous_task remote sq tid token task s)) issued tokens"
| complete: "attempts_run s issued tokens \<Longrightarrow> attempts_run (complete_rendezvous_owner remote sq tid token r s) issued tokens"
| cancel: "attempts_run s issued tokens \<Longrightarrow> attempts_run (cancel_rendezvous_owner remote sq tid token s) issued tokens"
| add: "attempts_run s issued tokens \<Longrightarrow> attempts_run (fst (add_incoming_waiter remote tid ex w s)) issued tokens"
| remove: "attempts_run s issued tokens \<Longrightarrow> attempts_run (fst (remove_incoming_waiter remote tid ex token s)) issued tokens"
| incoming: "attempts_run s issued tokens \<Longrightarrow> attempts_run (fst (on_incoming_tunnel now t s)) issued tokens"
| other: "attempts_run s issued tokens \<Longrightarrow> attempts_same s s' \<Longrightarrow> attempts_run s' issued tokens"

lemma owe_install_fresh:
  assumes inv: "attempts_inv s issued tokens"
    and "install_rendezvous_owner remote ow w (fst (fresh_token s)) = (s', r)" and "ro_token ow = next_token s"
  shows "attempts_inv s' (if is_ok r then issued @ winner_completions ow else issued) (insert (next_token s) tokens)"
proof -
  have "attempts_inv (fst (fresh_token s)) issued tokens" "token_fresh (fst (fresh_token s)) (ro_token ow)"
    using token_fresh_new [OF inv] assms(3) by (auto simp: fresh_token_def)
  from owe_install [OF this assms(2)] show ?thesis by (simp add: assms(3))
qed

lemma attempts_run_inv: "attempts_run s issued tokens \<Longrightarrow> attempts_inv s issued tokens \<and> distinct issued"
proof (induction rule: attempts_run.induct)
  case (start local initial views)
  show ?case by (simp add: attempts_owe_def tunnel_manager_new_def hm.get_empty hm_wf_def)
next
  case (initiate s issued tokens remote a sq tid c w s' r)
  let ?ow = "initiator_owner a sq tid c (next_token s)"
  obtain r' where r': "install_rendezvous_owner remote ?ow (if caller_expected_reverse a = None then None else Some w)
      (fst (fresh_token s)) = (s', r')" and "is_ok r' = is_ok r"
    using initiate.hyps(2) by (auto simp: install_initiator_def fresh_token_def Let_def split: prod.splits sum.splits)
  with owe_install_fresh [OF conjunct1 [OF initiate.IH] r'] initiate.IH initiate.hyps(3) show ?case
    by (auto simp: initiator_owner_def split: if_splits)
next
  case (told s issued tokens remote op sq tid w s' r)
  let ?ow = "target_owner op sq tid (next_token s)"
  obtain r' where r': "install_rendezvous_owner remote ?ow (if target_expected_reverse op = None then None else Some w)
      (fst (fresh_token s)) = (s', r')"
    using told.hyps(2) by (auto simp: install_target_def fresh_token_def Let_def split: prod.splits sum.splits)
  with owe_install_fresh [OF conjunct1 [OF told.IH] r'] told.IH show ?case
    by (auto simp: target_owner_def split: if_splits)
next
  case (other s issued tokens s')
  then show ?case by (blast intro: attempts_owe_same)
qed (auto intro: owe_attach owe_complete owe_cancel owe_add owe_remove owe_incoming)

subsection \<open>What the runs guarantee\<close>

definition answers_to :: "nat \<Rightarrow> tunnel_manager \<Rightarrow> nat" where
  "answers_to c s = length (filter (\<lambda>a. fst a = c) (completion_answers s))"

lemma answers_to_count: "answers_to c s = count (mset (map fst (completion_answers s))) c"
  by (simp only: answers_to_def count_mset count_list_eq_length_filter filter_map length_map comp_def)
    (simp add: eq_commute)

lemma abort_answers:
  "completion_answers (abort_rendezvous_owner remote ow s) =
     completion_answers s @ map (\<lambda>w. (w, Inl UserCanceled)) (winner_completions ow)"
  by (simp add: abort_rendezvous_owner_def answer_completions_def Let_def split: option.splits)

lemma drop_answers:
  "mset (map fst (completion_answers (manager_drop s))) =
     held winner_completions (rendezvous_attempts s) + mset (map fst (completion_answers s))"
proof -
  have close: "completion_answers (fold close_tunnel ts u) = completion_answers u" for ts u
    by (induction ts arbitrary: u) (simp_all add: close_tunnel_def)
  have "mset (map fst (completion_answers (fold (\<lambda>(remote, ow). abort_rendezvous_owner remote ow) m u))) =
      held winner_completions m + mset (map fst (completion_answers u))" for m u
    by (induction m arbitrary: u) (auto simp: abort_answers multiset.map_comp comp_def)
  then show ?thesis by (simp add: manager_drop_def Let_def close)
qed

text \<open>C11: the caller of an attempt that was accepted gets one answer: in every run
  each completion is either held by exactly one attempt in the table, also after that attempt lost
  to the peer's, or has been answered exactly once; and when the manager is dropped every completion
  has been answered exactly once.\<close>

theorem completion_answered_once:
  assumes "attempts_run s issued tokens" and "c \<in> set issued"
  shows "answers_to c s + count (held winner_completions (rendezvous_attempts s)) c = 1 \<and>
         answers_to c (manager_drop s) = 1"
proof -
  have inv: "attempts_inv s issued tokens" and d: "distinct issued"
    using attempts_run_inv [OF assms(1)] by auto
  have one: "count (mset issued) c = 1"
    using d assms(2) by (simp add: distinct_count_atmost_1)
  have m: "held winner_completions (rendezvous_attempts s) + mset (map fst (completion_answers s)) = mset issued"
    using inv by (simp add: attempts_owe_def)
  then have "answers_to c s + count (held winner_completions (rendezvous_attempts s)) c = count (mset issued) c"
    unfolding answers_to_count by (metis add.commute count_union)
  moreover have "answers_to c (manager_drop s) = count (mset issued) c"
    unfolding answers_to_count drop_answers m ..
  ultimately show ?thesis using one by simp
qed

text \<open>no waiter outlives its attempt: in every run a waiter with the token of a
  rendezvous attempt belongs to the attempt that is in the table for that peer now, with its tunnel id
  and its direction; a tunnel that arrives for an attempt that was cancelled, completed or displaced
  finds nobody waiting.\<close>

theorem waiters_belong_to_attempts:
  assumes "attempts_run s issued tokens" and "hm_get (pending_reverse_waiters s) (remote, tid, ex) = Some e"
    and "iw_token e \<in> tokens"
  shows "\<exists>ow. hm_get (rendezvous_attempts s) remote = Some ow \<and> ro_token ow = iw_token e \<and>
              ro_tunnel_id ow = tid \<and> expected_incoming_reverse ow = Some ex"
proof -
  have "waiter_ok s tokens (remote, tid, ex) (iw_token e)"
    using attempts_run_inv [OF assms(1)] assms(2) by (blast intro: owe_waiter)
  with assms(3) show ?thesis by (auto simp: waiter_ok_def owned_waiter_def split: option.splits)
qed

definition sample_attempt :: tunnel_manager where
  "sample_attempt = fst (install_initiator (P2pId [5]) CallerWaitIncoming (Sequence 7) (TunnelId 9) 70 71 sample_new)"

lemmas attempt_defs = sample_attempt_def install_initiator_def install_target_def install_rendezvous_owner_def
  initiator_owner_def target_owner_def caller_expected_reverse_def target_expected_reverse_def
  publish_rendezvous_waiter_def set_owner_def fresh_token_def sample_new_def tunnel_manager_new_def hm_get_def
  hm_insert_def Let_def

lemma sample_attempt_run: "attempts_run sample_attempt [70] {0}"
proof -
  have "attempts_run sample_new [] {}" unfolding sample_new_def by (rule attempts_run.start)
  from attempts_run.initiate [OF this, of "P2pId [5]" CallerWaitIncoming "Sequence 7" "TunnelId 9" 70 71 sample_attempt "Inr 0"]
  show ?thesis by (simp add: attempt_defs)
qed

theorem collision_agreement_witness:
  "map_option (\<lambda>(sq, tid, own). (sq, tid))
     (attempt_at (P2pId [5]) (collide True (P2pId [5]) (CallerWaitIncoming, Sequence 7, TunnelId 9, 70, 71)
        (PunchOnly, Sequence 8, TunnelId 10, 72) sample_new)) = Some (Sequence 7, TunnelId 9)"
  using collision_agreement [of sample_new "P2pId [1]" "sample_new\<lparr>tm_local_id := P2pId [5]\<rparr>" "P2pId [5]" True
      CallerWaitIncoming "Sequence 7" "TunnelId 9" 70 71 PunchOnly "Sequence 8" "TunnelId 10" 72]
  by (simp add: sample_new_def tunnel_manager_new_def hm_get_def less_p2p_id_def)

theorem completion_answered_once_witness: "answers_to 70 (manager_drop sample_attempt) = 1"
  using completion_answered_once [OF sample_attempt_run] by simp

theorem waiters_belong_to_attempts_witness:
  "\<exists>ow. hm_get (rendezvous_attempts sample_attempt) (P2pId [5]) = Some ow \<and> ro_token ow = 0 \<and>
        ro_tunnel_id ow = TunnelId 9 \<and> expected_incoming_reverse ow = Some True"
  using waiters_belong_to_attempts [OF sample_attempt_run, of "P2pId [5]" "TunnelId 9" True "\<lparr>iw_token = 0, iw_waiter = 71\<rparr>"]
  by (simp add: attempt_defs)

end
