(* ===== verification/TunnelPaths.thy ===== *)
theory TunnelPaths
  imports TunnelAttempts
begin

text \<open>
  The paths by which \<open>TunnelManager\<close> (\<open>tunnel/tunnel_manager.rs\<close>) reaches a peer: the race of direct
  candidates, the reverse path, the proxy, the planned NAT actions, the order in which they are tried,
  the endpoints that are offered, the retry of a proxied peer; and the cache of
  \<open>tunnel/connection_info.rs\<close>.

  What the network and the other tasks do while a future waits is a parameter of the definitions:
  \<open>path\<close> functions for calls that change the state and return, the list of finished attempts in the
  order in which they finish for the race. The tail of a race, which the code leaves to a spawned task,
  is run at once.
\<close>

section \<open>Definitions\<close>

type_synonym path = "tunnel_manager \<Rightarrow> tunnel_manager \<times> nat p2p_result"

subsection \<open>Connection cache\<close>

definition cache_get :: "p2p_id \<Rightarrow> tunnel_manager \<Rightarrow> p2p_connection_info option" where
  "cache_get remote s = hm_get (conn_info_cache s) remote"

definition cache_add :: "p2p_id \<Rightarrow> p2p_connection_info \<Rightarrow> tunnel_manager \<Rightarrow> tunnel_manager" where
  "cache_add remote info s = s\<lparr>conn_info_cache := hm_insert remote info (conn_info_cache s)\<rparr>"

definition cache_remove :: "p2p_id \<Rightarrow> tunnel_manager \<Rightarrow> tunnel_manager" where
  "cache_remove remote s = s\<lparr>conn_info_cache := hm_remove remote (conn_info_cache s)\<rparr>"

definition or_default :: "endpoint option \<Rightarrow> endpoint" where
  "or_default ep = (case ep of Some e \<Rightarrow> e | None \<Rightarrow> endpoint_default)"

definition remember :: "p2p_id \<Rightarrow> connect_direction \<Rightarrow> nat \<Rightarrow> tunnel_manager \<Rightarrow> tunnel_manager" where
  "remember remote dir t s =
     cache_add remote \<lparr>direct = dir, ci_local_ep = or_default (v_local_ep (tun s t)),
       ci_remote_ep = or_default (v_remote_ep (tun s t))\<rparr> s"

subsection \<open>The direct path\<close>

type_synonym attempt = "endpoint \<times> nat p2p_result"

text \<open>The loop over finished attempts: the first tunnel that can be registered wins, the attempts that
  are still running are returned.\<close>

fun direct_race ::
    "instant \<Rightarrow> timestamp \<Rightarrow> p2p_id \<Rightarrow> attempt list \<Rightarrow> p2p_error_code option \<Rightarrow> tunnel_manager \<Rightarrow>
     tunnel_manager \<times> nat p2p_result \<times> attempt list" where
  "direct_race now ts remote [] last_err s =
     (s, Inl (case last_err of Some e \<Rightarrow> e | None \<Rightarrow> ConnectFailed), [])"
| "direct_race now ts remote ((ep, Inl e) # rest) last_err s =
     direct_race now ts remote rest (Some e) (on_direct_connect_result ep False ts s)"
| "direct_race now ts remote ((ep, Inr t) # rest) last_err s =
     (case register_tunnel_and_publish now t (on_direct_connect_result ep True ts s) of
        (s1, Inr t') \<Rightarrow>
          (cache_add remote \<lparr>direct = DirectionDirect, ci_local_ep = or_default (v_local_ep (tun s1 t')), ci_remote_ep = ep\<rparr> s1,
           Inr t', rest)
      | (s1, Inl e) \<Rightarrow> direct_race now ts remote rest (Some e) (close_tunnel t s1))"

fun abandoned_direct_candidate_cleanup :: "timestamp \<Rightarrow> attempt list \<Rightarrow> tunnel_manager \<Rightarrow> tunnel_manager" where
  "abandoned_direct_candidate_cleanup ts [] s = s"
| "abandoned_direct_candidate_cleanup ts ((ep, Inl e) # rest) s =
     abandoned_direct_candidate_cleanup ts rest (on_direct_connect_result ep False ts s)"
| "abandoned_direct_candidate_cleanup ts ((ep, Inr t) # rest) s =
     abandoned_direct_candidate_cleanup ts rest (close_tunnel t (on_direct_connect_result ep True ts s))"

text \<open>\<open>has_network\<close> is \<open>NetManager::get_network\<close>, which answers \<open>NotFound\<close>; \<open>race\<close> gives the results of
  the attempts that were started, as they finish.\<close>

definition open_direct_path ::
    "(protocol \<Rightarrow> bool) \<Rightarrow> (endpoint list \<Rightarrow> attempt list) \<Rightarrow> instant \<Rightarrow> timestamp \<Rightarrow> p2p_id \<Rightarrow> endpoint list \<Rightarrow> path" where
  "open_direct_path has_network race now ts remote eps s =
     (let started = filter (\<lambda>ep. has_network (protocol ep)) eps;
          last_err = (if started = eps then None else Some NotFound);
          (s1, r, abandoned) = direct_race now ts remote (race started) last_err s
      in (abandoned_direct_candidate_cleanup ts abandoned s1, r))"

subsection \<open>Reverse, proxy and planned paths\<close>

text \<open>\<open>call\<close> is the SN call, \<open>wait\<close> what happens until the waiter is answered or the timeout ends.\<close>

definition open_reverse_path ::
    "bool \<Rightarrow> (tunnel_manager \<Rightarrow> tunnel_manager \<times> unit p2p_result) \<Rightarrow> path \<Rightarrow> instant \<Rightarrow> p2p_id \<Rightarrow> tunnel_id \<Rightarrow> nat \<Rightarrow> path" where
  "open_reverse_path has_sn call wait now remote tid w s =
     (if \<not> has_sn then (s, Inl NotSupport)
      else
        let (s1, token) = add_reverse_waiter remote tid w s
        in case call s1 of
             (s2, Inl e) \<Rightarrow> (drop_wait_registration True remote tid True token s2, Inl e)
           | (s2, Inr _) \<Rightarrow>
               (case wait s2 of
                  (s3, Inl e) \<Rightarrow> (drop_wait_registration True remote tid True token s3, Inl e)
                | (s3, Inr t) \<Rightarrow>
                    (case register_tunnel_and_publish now t s3 of
                       (s4, Inl e) \<Rightarrow> (s4, Inl e)
                     | (s4, Inr t') \<Rightarrow> (remember remote DirectionReverse t' s4, Inr t'))))"

text \<open>\<open>create\<close> is \<open>create_tunnel_with_intent\<close> of the proxy network, if there is one.\<close>

definition open_proxy_path :: "path option \<Rightarrow> instant \<Rightarrow> p2p_id \<Rightarrow> path" where
  "open_proxy_path create now remote s =
     (case create of
        None \<Rightarrow> (s, Inl NotSupport)
      | Some f \<Rightarrow>
          (case f s of
             (s1, Inl e) \<Rightarrow> (s1, Inl e)
           | (s1, Inr t) \<Rightarrow>
               (case register_tunnel_and_publish now t s1 of
                  (s2, Inl e) \<Rightarrow> (s2, Inl e)
                | (s2, Inr t') \<Rightarrow> (remember remote DirectionProxy t' s2, Inr t'))))"

definition finish_planned_incoming :: "instant \<Rightarrow> p2p_id \<Rightarrow> nat \<Rightarrow> path" where
  "finish_planned_incoming now remote t s =
     (let dir = (if v_is_reverse (tun s t) then DirectionReverse else DirectionDirect)
      in case register_tunnel_and_publish now t s of
           (s1, Inl e) \<Rightarrow> (s1, Inl e)
         | (s1, Inr t') \<Rightarrow> (remember remote dir t' s1, Inr t'))"

text \<open>\<open>wait_planned_incoming\<close>, and \<open>punch_and_wait_incoming\<close>, whose result does not depend on the
  punching: \<open>wait\<close> is the waiter under its timeout.\<close>

definition wait_planned_incoming :: "path \<Rightarrow> instant \<Rightarrow> p2p_id \<Rightarrow> path" where
  "wait_planned_incoming wait now remote s =
     (case wait s of (s1, Inl e) \<Rightarrow> (s1, Inl e) | (s1, Inr t) \<Rightarrow> finish_planned_incoming now remote t s1)"

text \<open>\<open>connect\<close> dials candidates, actively or as a reverse tunnel; \<open>waiter\<close> is the incoming waiter.\<close>

definition execute_nat_action ::
    "(bool \<Rightarrow> endpoint list \<Rightarrow> path) \<Rightarrow> path option \<Rightarrow> instant \<Rightarrow> p2p_id \<Rightarrow> plan_action \<Rightarrow> endpoint list \<Rightarrow> path" where
  "execute_nat_action connect waiter now remote action eps s =
     (let await = (case waiter of Some w \<Rightarrow> wait_planned_incoming w now remote s | None \<Rightarrow> (s, Inl Failed))
      in case action of
           ActionConnect mode backward \<Rightarrow>
             (case nat_candidates eps mode of Inl e \<Rightarrow> (s, Inl e) | Inr candidates \<Rightarrow> connect backward candidates s)
         | ActionPunchThenWait mode \<Rightarrow>
             (case nat_candidates eps mode of Inl e \<Rightarrow> (s, Inl e) | Inr _ \<Rightarrow> await)
         | ActionWaitIncoming \<Rightarrow> await
         | ActionLegacy \<Rightarrow> (s, Inl NotSupport))"

subsection \<open>The order of the paths\<close>

text \<open>\<open>race_with_delay\<close>: who finishes first decides whose error is reported; the loser of a race that
  was won is dropped. The answer also says whether the direct path finished last or won.\<close>

definition race_with_delay :: "bool \<Rightarrow> path \<Rightarrow> path \<Rightarrow> tunnel_manager \<Rightarrow> tunnel_manager \<times> nat p2p_result \<times> bool" where
  "race_with_delay direct_first direct_path reverse_path s =
     (if direct_first
      then (case direct_path s of
              (s1, Inr t) \<Rightarrow> (s1, Inr t, True)
            | (s1, Inl e) \<Rightarrow>
                (case reverse_path s1 of (s2, Inr t) \<Rightarrow> (s2, Inr t, False) | (s2, Inl _) \<Rightarrow> (s2, Inl e, False)))
      else (case reverse_path s of
              (s1, Inr t) \<Rightarrow> (s1, Inr t, False)
            | (s1, Inl e) \<Rightarrow>
                (case direct_path s1 of (s2, Inr t) \<Rightarrow> (s2, Inr t, True) | (s2, Inl _) \<Rightarrow> (s2, Inl e, True))))"

record open_paths =
  p_direct :: "endpoint list \<Rightarrow> path"
  p_reverse :: path
  p_proxy :: path
  p_has_sn :: bool
  p_direct_first :: bool

text \<open>A tunnel, or the last error so far.\<close>

datatype progress = Opened nat | Failing "p2p_error_code option"

definition then_try :: "path \<Rightarrow> tunnel_manager \<times> progress \<Rightarrow> tunnel_manager \<times> progress" where
  "then_try f p =
     (case p of
        (s, Opened t) \<Rightarrow> (s, Opened t)
      | (s, Failing _) \<Rightarrow> (case f s of (s1, Inr t) \<Rightarrow> (s1, Opened t) | (s1, Inl e) \<Rightarrow> (s1, Failing (Some e))))"

definition try_cached_direct :: "open_paths \<Rightarrow> p2p_id \<Rightarrow> endpoint list \<Rightarrow> endpoint \<Rightarrow> tunnel_manager \<Rightarrow> tunnel_manager \<times> progress" where
  "try_cached_direct P remote remote_eps ep s =
     (if direct_cache_endpoint_degraded ep s then (cache_remove remote s, Failing None)
      else if list_ex (\<lambda>e. endpoint_eq e ep) remote_eps
      then (case p_direct P [ep] s of
              (s1, Inr t) \<Rightarrow> (s1, Opened t)
            | (s1, Inl e) \<Rightarrow>
                (if direct_cache_endpoint_degraded ep s1 then cache_remove remote s1 else s1, Failing (Some e)))
      else (s, Failing None))"

definition try_cached_path :: "open_paths \<Rightarrow> p2p_id \<Rightarrow> endpoint list \<Rightarrow> bool \<Rightarrow> tunnel_manager \<Rightarrow> tunnel_manager \<times> progress" where
  "try_cached_path P remote remote_eps allow_proxy s =
     (case cache_get remote s of
        None \<Rightarrow> (s, Failing None)
      | Some info \<Rightarrow>
          (case direct info of
             DirectionDirect \<Rightarrow> try_cached_direct P remote remote_eps (ci_remote_ep info) s
           | DirectionReverse \<Rightarrow> then_try (p_reverse P) (s, Failing None)
           | DirectionProxy \<Rightarrow> if allow_proxy then then_try (p_proxy P) (s, Failing None) else (s, Failing None)))"

definition direct_endpoints :: "p2p_id \<Rightarrow> endpoint list \<Rightarrow> tunnel_manager \<Rightarrow> endpoint list" where
  "direct_endpoints remote eps s = preferred_direct_endpoints (map_option ci_remote_ep (cache_get remote s)) eps s"

definition direct_and_reverse :: "open_paths \<Rightarrow> p2p_id \<Rightarrow> endpoint list \<Rightarrow> path" where
  "direct_and_reverse P remote remote_eps s =
     (let eps = direct_endpoints remote remote_eps s
      in if eps \<noteq> [] \<and> p_has_sn P
         then (let (s1, r, _) = race_with_delay (p_direct_first P) (p_direct P eps) (p_reverse P) s in (s1, r))
         else (case p_direct P eps s of (s1, Inr t) \<Rightarrow> (s1, Inr t) | (s1, Inl _) \<Rightarrow> p_reverse P s1))"

definition open_known_tunnel_with_options ::
    "open_paths \<Rightarrow> instant \<Rightarrow> endpoint list \<Rightarrow> p2p_id \<Rightarrow> bool \<Rightarrow> bool \<Rightarrow> path" where
  "open_known_tunnel_with_options P now remote_eps remote reuse_proxy allow_proxy s =
     (if remote_eps = [] then (s, Inl InvalidParam)
      else
        case (if reuse_proxy then get_tunnel now remote s else get_non_proxy_tunnel now remote s) of
          (s1, Some t) \<Rightarrow> (s1, Inr t)
        | (s1, None) \<Rightarrow>
            (let p = then_try (direct_and_reverse P remote remote_eps) (try_cached_path P remote remote_eps allow_proxy s1);
                 p' = (if allow_proxy then then_try (p_proxy P) p else p)
             in case p' of
                  (s2, Opened t) \<Rightarrow> (s2, Inr t)
                | (s2, Failing e) \<Rightarrow> (s2, Inl (case e of Some err \<Rightarrow> err | None \<Rightarrow> NotFound))))"

definition open_known_tunnel :: "open_paths \<Rightarrow> instant \<Rightarrow> endpoint list \<Rightarrow> p2p_id \<Rightarrow> path" where
  "open_known_tunnel P now remote_eps remote s = open_known_tunnel_with_options P now remote_eps remote True True s"

definition open_direct_tunnel :: "open_paths \<Rightarrow> instant \<Rightarrow> endpoint list \<Rightarrow> p2p_id \<Rightarrow> path" where
  "open_direct_tunnel P now remote_eps remote s =
     (case get_tunnel now remote s of
        (s1, Some t) \<Rightarrow> (s1, Inr t)
      | (s1, None) \<Rightarrow> open_known_tunnel P now remote_eps remote s1)"

subsection \<open>Planned tunnels\<close>

record peer_lookup_info =
  lookup_id :: p2p_id
  lookup_endpoints :: "endpoint list"
  sn_peer_id :: "p2p_id option"
  local_net_profile :: "nat_profile option"
  remote_net_profile :: "nat_profile option"

definition has_static_wan_identity :: "endpoint list \<Rightarrow> bool" where
  "has_static_wan_identity eps = list_ex is_static_wan eps"

text \<open>\<open>open_tunnel_from_lookup\<close> up to the choice of the plan: None is \<open>open_known_tunnel\<close>.\<close>

definition lookup_plan :: "p2p_id \<Rightarrow> endpoint list \<Rightarrow> timestamp \<Rightarrow> peer_lookup_info \<Rightarrow> connect_plan option" where
  "lookup_plan local local_eps now l =
     (case (sn_peer_id l, local_net_profile l, remote_net_profile l) of
        (Some _, Some caller, Some callee) \<Rightarrow>
          let ctx = context_new local (lookup_id l) caller callee
          in if \<not> context_is_valid_for ctx local (lookup_id l) now then None
             else
               let plan = select_connect_plan ctx now (has_static_wan_identity local_eps)
                            (has_static_wan_identity (lookup_endpoints l))
               in if action_for plan Caller = ActionLegacy then None else Some plan
      | _ \<Rightarrow> None)"

definition open_tunnel_from_lookup ::
    "(connect_plan \<Rightarrow> path) \<Rightarrow> open_paths \<Rightarrow> instant \<Rightarrow> timestamp \<Rightarrow> endpoint list \<Rightarrow> peer_lookup_info \<Rightarrow> path" where
  "open_tunnel_from_lookup nat_aware P now ts local_eps l s =
     (case lookup_plan (tm_local_id s) local_eps ts l of
        None \<Rightarrow> open_known_tunnel P now (lookup_endpoints l) (lookup_id l) s
      | Some plan \<Rightarrow> nat_aware plan s)"

text \<open>\<open>open_tunnel_from_id\<close>: \<open>finder\<close> is the device finder, if there is one.\<close>

definition open_tunnel_from_id ::
    "(connect_plan \<Rightarrow> path) \<Rightarrow> (p2p_id \<Rightarrow> peer_lookup_info p2p_result) option \<Rightarrow> open_paths \<Rightarrow> instant \<Rightarrow> timestamp \<Rightarrow>
     endpoint list \<Rightarrow> p2p_id \<Rightarrow> path" where
  "open_tunnel_from_id nat_aware finder P now ts local_eps remote s =
     (case get_tunnel now remote s of
        (s1, Some t) \<Rightarrow> (s1, Inr t)
      | (s1, None) \<Rightarrow>
          (case finder of
             Some lookup \<Rightarrow>
               (case lookup remote of
                  Inr l \<Rightarrow> open_tunnel_from_lookup nat_aware P now ts local_eps l s1
                | Inl _ \<Rightarrow> p_proxy P s1)
           | None \<Rightarrow> p_proxy P s1))"

text \<open>\<open>on_sn_called\<close>: the endpoints to dial, and the action of the callee. None of the latter is the
  plain reverse dial. \<open>active_sn\<close>: the SN that sent the call is one this node is active on.\<close>

definition append_new :: "endpoint list \<Rightarrow> endpoint list \<Rightarrow> endpoint list" where
  "append_new eps rest = fold push_unique_endpoint rest eps"

definition sn_called_endpoints :: "bool \<Rightarrow> endpoint list \<Rightarrow> endpoint list \<Rightarrow> p2p_id \<Rightarrow> tunnel_manager \<Rightarrow> endpoint list" where
  "sn_called_endpoints same_lan cert_eps reverse_eps remote s =
     direct_endpoints remote (if same_lan then append_new cert_eps reverse_eps else append_new reverse_eps cert_eps) s"

definition sn_called_action ::
    "bool \<Rightarrow> nat_traversal_context option \<Rightarrow> p2p_id \<Rightarrow> endpoint list \<Rightarrow> endpoint list \<Rightarrow> timestamp \<Rightarrow> tunnel_manager \<Rightarrow>
     plan_action option" where
  "sn_called_action active_sn context remote cert_eps local_eps now s =
     (case context of
        None \<Rightarrow> None
      | Some ctx \<Rightarrow>
          if \<not> active_sn \<or> \<not> context_is_valid_for ctx remote (tm_local_id s) now then None
          else
            let action = action_for (select_connect_plan ctx now (has_static_wan_identity cert_eps)
                           (has_static_wan_identity local_eps)) Callee
            in if action = ActionLegacy then None else Some action)"

subsection \<open>Endpoints on offer\<close>

fun push_until :: "nat \<Rightarrow> endpoint list \<Rightarrow> endpoint list \<Rightarrow> endpoint list" where
  "push_until n [] acc = acc"
| "push_until n (ep # eps) acc =
     (let acc' = push_unique_endpoint ep acc in if length acc' \<ge> n then acc' else push_until n eps acc')"

definition rendezvous_anchored :: "rendezvous_operation \<Rightarrow> protocol \<Rightarrow> endpoint \<Rightarrow> bool" where
  "rendezvous_anchored op p ep \<longleftrightarrow>
     protocol ep = p \<and>
     (if reverse_connects op then rendezvous_reverse_connect_eligible_area False ep
      else rendezvous_eligible_area False ep) \<and>
     sa_port (addr ep) \<noteq> 0"

definition rendezvous_base_endpoints :: "endpoint list \<Rightarrow> rendezvous_operation \<Rightarrow> endpoint list" where
  "rendezvous_base_endpoints eps op =
     (let anchor = (if punches op then Quic else if list_ex (rendezvous_anchored op Quic) eps then Quic else Tcp)
      in push_until MAX_NAT_PLAN_CANDIDATES (filter (rendezvous_anchored op anchor) eps) [])"

record tunnel_listener_info =
  li_local :: endpoint
  li_mapping_port :: "u16 option"

definition ip_is_unspecified :: "ip_addr \<Rightarrow> bool" where
  "ip_is_unspecified ip = (case ip of IpV4 a \<Rightarrow> is_unspecified4 a | IpV6 a \<Rightarrow> is_unspecified6 a)"

definition collect_reverse_endpoints_from_sources ::
    "(protocol \<times> tunnel_listener_info list) list \<Rightarrow> endpoint list \<Rightarrow> endpoint list" where
  "collect_reverse_endpoints_from_sources entries wan_eps =
     (let listeners = concat (map (\<lambda>(p, ls). map (\<lambda>l. (p, l)) ls) entries);
          own = append_new [] [li_local l. (p, l) \<leftarrow> listeners, \<not> ip_is_unspecified (sa_ip (addr (li_local l)))];
          ports = [(p, port). (p, l) \<leftarrow> listeners, port \<leftarrow> (case li_mapping_port l of Some q \<Rightarrow> [q] | None \<Rightarrow> [])];
          mapped = (\<lambda>wan. map (\<lambda>(p, port). set_area Mapped (endpoint_from_ip p (sa_ip (addr wan)) port)) ports)
      in fold (\<lambda>wan eps. append_new (push_unique_endpoint wan eps) (mapped wan)) wan_eps own)"

subsection \<open>Retrying a proxied peer\<close>

definition try_upgrade_proxy_tunnel ::
    "(p2p_id \<Rightarrow> endpoint list p2p_result) option \<Rightarrow> open_paths \<Rightarrow> instant \<Rightarrow> p2p_id \<Rightarrow> path" where
  "try_upgrade_proxy_tunnel finder P now remote s =
     (case get_non_proxy_tunnel now remote s of
        (s1, Some t) \<Rightarrow> (s1, Inr t)
      | (s1, None) \<Rightarrow>
          (case finder of
             Some lookup \<Rightarrow>
               (case lookup remote of
                  Inr eps \<Rightarrow> if eps = [] then p_reverse P s1
                             else open_known_tunnel_with_options P now eps remote False False s1
                | Inl _ \<Rightarrow> p_reverse P s1)
           | None \<Rightarrow> p_reverse P s1))"

definition attempt_proxy_upgrade_generation :: "path \<Rightarrow> instant \<Rightarrow> p2p_id \<Rightarrow> u64 \<Rightarrow> tunnel_manager \<Rightarrow> tunnel_manager" where
  "attempt_proxy_upgrade_generation try_upgrade now remote gen s =
     (case hm_get (proxy_upgrade_states s) remote of
        None \<Rightarrow> s
      | Some u \<Rightarrow>
          if generation u \<noteq> gen then s
          else (case try_upgrade s of
                  (s1, Inr t) \<Rightarrow> fst (finalize_proxy_upgrade_success now remote t s1)
                | (s1, Inl _) \<Rightarrow> fst (on_proxy_upgrade_failed_generation remote gen now s1)))"

section \<open>The race of direct candidates\<close>

definition produced :: "attempt list \<Rightarrow> nat set" where
  "produced rs = {t. \<exists>ep. (ep, Inr t) \<in> set rs}"

lemma produced_simps [simp]:
  "produced [] = {}" "produced ((ep, Inl e) # rs) = produced rs" "produced ((ep, Inr t) # rs) = insert t (produced rs)"
  by (auto simp: produced_def)

lemma result_frame [simp]:
  "tun (on_direct_connect_result ep b ts s) = tun s" "tunnels (on_direct_connect_result ep b ts s) = tunnels s"
  by (simp_all add: on_direct_connect_result_def Let_def)

lemma register_new_tun [simp]: "tun (register_new now remote t es s) = tun s" "tunnels (register_new now remote t es s) = tunnels s"
  using reconcile_frame
  by (auto simp: register_new_def Let_def remove_proxy_upgrade_def insert_proxy_upgrade_def allocate_proxy_upgrade_generation_def
      wake_upgrades_def split: prod.splits)

lemma close_closed [simp]: "v_closed (tun (close_tunnel t s) t)"
  by (simp add: close_tunnel_def tunnel_close_def)

lemma close_keeps: "v_closed (tun s x) \<Longrightarrow> v_closed (tun (close_tunnel t s) x)"
  by (simp add: close_tunnel_def tunnel_close_def)

lemma close_ids [simp]:
  "v_tunnel_id (tun (close_tunnel t s) x) = v_tunnel_id (tun s x)"
  "v_candidate_id (tun (close_tunnel t s) x) = v_candidate_id (tun s x)"
  "v_remote_id (tun (close_tunnel t s) x) = v_remote_id (tun s x)"
  "tunnels (close_tunnel t s) = tunnels s"
  by (auto simp: close_tunnel_def tunnel_close_def)

lemma register_tun: "tun (fst (register_tunnel now t s)) = tun s \<or> tun (fst (register_tunnel now t s)) = tun (close_tunnel t s)"
  by (auto simp: register_tunnel_def Let_def reconcile_and_wake_frame close_tunnel_def split: option.splits)

lemma publish_tun [simp]: "tun (fst (publish_registered_tunnel now t s)) = tun s"
  by (auto simp: publish_registered_tunnel_def publish_tunnel_def Let_def split: option.splits)

lemma register_publish_tun:
  assumes "register_tunnel_and_publish now t s = (s', r)"
  shows "tun s' = tun s \<or> tun s' = tun (close_tunnel t s)"
  using assms register_tun [of now t s] publish_tun
  by (auto simp: register_tunnel_and_publish_def split: prod.splits sum.splits) (metis fst_conv publish_tun)+

lemma find_update_first:
  assumes "List.find P xs \<noteq> None" and "\<And>x. P (f x) = P x"
  shows "\<exists>x. List.find P (update_first P f xs) = Some (f x)"
  using assms by (induction xs) auto

lemma register_publish_ok:
  assumes "register_tunnel_and_publish now t s = (s', Inr t')"
  shows "t' = t \<and> is_registered_tunnel_published (v_remote_id (tun s t)) t s'"
proof -
  obtain s1 where r: "register_tunnel now t s = (s1, Inr t')" and p: "publish_registered_tunnel now t' s1 = (s', Inr ())"
    using assms by (auto simp: register_tunnel_and_publish_def split: prod.splits sum.splits)
  have t: "t' = t" using r by (auto simp: register_tunnel_def Let_def split: option.splits if_splits)
  have v: "v_remote_id (tun s1 t) = v_remote_id (tun s t)"
    using register_tun [of now t s] r by (auto simp: close_tunnel_def tunnel_close_def)
  have up: "same_candidate s1 t (e\<lparr>te_published := b, te_updated_at := n\<rparr>) = same_candidate s1 t e" for e b n
    by (simp add: same_candidate_def entry_view_def)
  show ?thesis
  proof (cases "hm_get (tunnels s1) (v_remote_id (tun s t))")
    case None
    with p t v show ?thesis by (simp add: publish_registered_tunnel_def)
  next
    case (Some es)
    obtain e where e: "List.find (same_candidate s1 t) es = Some e"
      using p t v Some by (cases "List.find (same_candidate s1 t) es") (auto simp: publish_registered_tunnel_def)
    let ?f = "\<lambda>e. e\<lparr>te_published := True, te_updated_at := now\<rparr>"
    obtain x where "List.find (same_candidate s1 t) (update_first (same_candidate s1 t) ?f es) = Some (?f x)"
      using find_update_first [of "same_candidate s1 t" es ?f] e up by auto
    then have f: "List.find (same_candidate s1 t) (update_first (same_candidate s1 t) ?f es) = Some (?f x)" .
    let ?s = "publish_tunnel t (s1\<lparr>tunnels := hm_insert (v_remote_id (tun s t)) (update_first (same_candidate s1 t) ?f es) (tunnels s1)\<rparr>)"
    have s': "s' = (if te_published e then s1 else ?s)"
      using p t v Some e by (auto simp: publish_registered_tunnel_def Let_def)
    have c: "same_candidate ?s t = same_candidate s1 t"
      by (intro ext) (simp add: same_candidate_def entry_view_def publish_tunnel_def)
    have "is_registered_tunnel_published (v_remote_id (tun s t)) t ?s"
      unfolding is_registered_tunnel_published_def c by (simp add: publish_tunnel_def hm.get_insert f)
    moreover have "is_registered_tunnel_published (v_remote_id (tun s t)) t s1" if "te_published e"
      using that Some e by (simp add: is_registered_tunnel_published_def)
    ultimately show ?thesis by (simp add: s' t)
  qed
qed

lemma published_cong:
  assumes "tunnels s' = tunnels s" and "\<And>x. v_tunnel_id (tun s' x) = v_tunnel_id (tun s x)"
    and "\<And>x. v_candidate_id (tun s' x) = v_candidate_id (tun s x)"
  shows "is_registered_tunnel_published r t s' = is_registered_tunnel_published r t s"
proof -
  have c: "same_candidate s' = same_candidate s" by (intro ext) (simp add: same_candidate_def entry_view_def assms)
  show ?thesis unfolding is_registered_tunnel_published_def assms(1) c ..
qed

lemma cleanup_frame:
  "tunnels (abandoned_direct_candidate_cleanup ts rs s) = tunnels s \<and>
   v_tunnel_id (tun (abandoned_direct_candidate_cleanup ts rs s) x) = v_tunnel_id (tun s x) \<and>
   v_candidate_id (tun (abandoned_direct_candidate_cleanup ts rs s) x) = v_candidate_id (tun s x) \<and>
   (v_closed (tun s x) \<or> x \<in> produced rs \<longrightarrow> v_closed (tun (abandoned_direct_candidate_cleanup ts rs s) x))"
  by (induction ts rs s rule: abandoned_direct_candidate_cleanup.induct) (auto simp: close_keeps)

lemma cache_add_frame [simp]: "tun (cache_add r i s) = tun s" "tunnels (cache_add r i s) = tunnels s"
  by (simp_all add: cache_add_def)

lemma direct_race_outcome:
  assumes "direct_race now ts remote rs last_err s = (s', r, rest)"
  shows "(\<forall>x. v_closed (tun s x) \<longrightarrow> v_closed (tun s' x)) \<and>
         (\<forall>x. v_remote_id (tun s' x) = v_remote_id (tun s x)) \<and> set rest \<subseteq> set rs \<and>
         (\<forall>x\<in>produced rs. v_closed (tun s' x) \<or> r = Inr x \<or> x \<in> produced rest) \<and>
         (case r of Inl _ \<Rightarrow> rest = []
          | Inr t \<Rightarrow> t \<in> produced rs \<and> is_registered_tunnel_published (v_remote_id (tun s t)) t s')"
  using assms
proof (induction now ts remote rs last_err s rule: direct_race.induct)
  case (2 now ts remote ep e more last_err s)
  then show ?case by (auto split: sum.splits)
next
  case (3 now ts remote ep t more last_err s)
  let ?s = "on_direct_connect_result ep True ts s"
  obtain s1 res where reg: "register_tunnel_and_publish now t ?s = (s1, res)" by fastforce
  have tn: "tun s1 = tun s \<or> tun s1 = tun (close_tunnel t s)"
    using register_publish_tun [OF reg] by (simp add: close_tunnel_def)
  have keep: "v_closed (tun s x) \<Longrightarrow> v_closed (tun s1 x)" "v_remote_id (tun s1 x) = v_remote_id (tun s x)" for x
    using tn close_keeps [of s x t] by auto
  show ?case
  proof (cases res)
    case (Inr t')
    have ok: "t' = t" "is_registered_tunnel_published (v_remote_id (tun s t)) t s1"
      using register_publish_ok reg Inr by fastforce+
    let ?i = "\<lparr>direct = DirectionDirect, ci_local_ep = or_default (v_local_ep (tun s1 t)), ci_remote_ep = ep\<rparr>"
    have out: "s' = cache_add remote ?i s1" "r = Inr t" "rest = more" using "3.prems" reg Inr ok(1) by auto
    have "is_registered_tunnel_published (v_remote_id (tun s t)) t s'"
      unfolding out(1) by (subst published_cong [where s = s1]) (simp_all add: ok(2))
    then show ?thesis unfolding out(2,3) using keep by (auto simp: out(1))
  next
    case (Inl e)
    have rec: "direct_race now ts remote more (Some e) (close_tunnel t s1) = (s', r, rest)"
      using "3.prems" reg Inl by simp
    note IH = "3.IH" [OF reg [symmetric] Inl rec]
    have "v_closed (tun s' t)" using IH close_closed by blast
    with IH keep close_keeps show ?thesis by (auto split: sum.splits)
  qed
qed auto

text \<open>C12: a race of direct candidates has one winner: whatever the order in which the
  attempts finish, every tunnel they produce is closed in the end, except the one that is returned;
  and that one is registered and published for its peer. If the race fails, all of them are closed.\<close>

theorem direct_path_one_winner:
  assumes "open_direct_path has_network race now ts remote eps s = (s', r)"
    and "rs = race (filter (\<lambda>ep. has_network (protocol ep)) eps)"
  shows "(\<forall>t\<in>produced rs. v_closed (tun s' t) \<or> r = Inr t) \<and>
         (\<forall>t. r = Inr t \<longrightarrow> t \<in> produced rs \<and> is_registered_tunnel_published (v_remote_id (tun s t)) t s')"
proof -
  obtain s1 rest last_err where d: "direct_race now ts remote rs last_err s = (s1, r, rest)"
    and s': "s' = abandoned_direct_candidate_cleanup ts rest s1"
    using assms by (auto simp: open_direct_path_def Let_def split: prod.splits)
  note out = direct_race_outcome [OF d]
  have "v_closed (tun s' t) \<or> r = Inr t" if "t \<in> produced rs" for t
    using out that cleanup_frame unfolding s' by blast
  moreover have "t \<in> produced rs \<and> is_registered_tunnel_published (v_remote_id (tun s t)) t s'" if "r = Inr t" for t
  proof -
    have "is_registered_tunnel_published (v_remote_id (tun s t)) t s' = is_registered_tunnel_published (v_remote_id (tun s t)) t s1"
      unfolding s' by (rule published_cong) (simp_all add: cleanup_frame)
    with out that show ?thesis by auto
  qed
  ultimately show ?thesis by blast
qed

theorem direct_path_one_winner_witness:
  "v_closed (tun (fst (open_direct_path (\<lambda>_. True) (\<lambda>eps. [(endpoint_default, Inr 2), (endpoint_default, Inr 1)]) 30 30
      (P2pId [5]) [endpoint_default] sample_new)) 1)"
proof -
  let ?race = "\<lambda>eps. [(endpoint_default, Inr 2), (endpoint_default, Inr 1 :: nat p2p_result)]"
  let ?r = "open_direct_path (\<lambda>_. True) ?race 30 30 (P2pId [5]) [endpoint_default] sample_new"
  have "snd ?r = Inr 2"
    by (simp add: open_direct_path_def register_tunnel_and_publish_def publish_registered_tunnel_def publish_tunnel_def
        on_direct_connect_result_def sample_defs split: prod.splits)
  then show ?thesis
    using direct_path_one_winner [OF prod.collapse [symmetric, of ?r] refl] by simp
qed

section \<open>When opening fails\<close>

lemma direct_and_reverse_fails:
  assumes "direct_and_reverse P remote remote_eps s = (s', Inl e)"
  shows "(\<exists>s1 s2 e1. p_direct P (direct_endpoints remote remote_eps s) s1 = (s2, Inl e1)) \<and>
         (\<exists>s1 s2 e2. p_reverse P s1 = (s2, Inl e2))"
  using assms
  by (auto simp: direct_and_reverse_def race_with_delay_def Let_def split: prod.splits sum.splits if_splits)

text \<open>C30: opening a tunnel gives up only when nothing is left: if it fails for a peer
  with endpoints, there was no usable tunnel, the direct path to all its endpoints, ordered by their
  ranks, has failed, so has the reverse path, and, where a proxy is allowed, so has the proxy, whose
  error is the one reported. Where no proxy is allowed, it is never tried.\<close>

theorem open_known_exhausts_paths:
  assumes "open_known_tunnel_with_options P now remote_eps remote reuse allow s = (s', Inl e)" and "remote_eps \<noteq> []"
  shows "snd (if reuse then get_tunnel now remote s else get_non_proxy_tunnel now remote s) = None \<and>
         (\<exists>s0 s1 s2 e1. p_direct P (direct_endpoints remote remote_eps s0) s1 = (s2, Inl e1)) \<and>
         (\<exists>s1 s2 e2. p_reverse P s1 = (s2, Inl e2)) \<and>
         (if allow then (\<exists>s1. p_proxy P s1 = (s', Inl e))
          else (\<forall>f. open_known_tunnel_with_options (P\<lparr>p_proxy := f\<rparr>) now remote_eps remote reuse allow s = (s', Inl e)))"
proof -
  obtain s1 where look: "(if reuse then get_tunnel now remote s else get_non_proxy_tunnel now remote s) = (s1, None)"
    using assms by (auto simp: open_known_tunnel_with_options_def split: prod.splits option.splits)
  define p where "p = then_try (direct_and_reverse P remote remote_eps) (try_cached_path P remote remote_eps allow s1)"
  have eq: "(case (if allow then then_try (p_proxy P) p else p) of (s2, Opened t) \<Rightarrow> (s2, Inr t)
      | (s2, Failing err) \<Rightarrow> (s2, Inl (case err of Some e \<Rightarrow> e | None \<Rightarrow> NotFound))) = (s', Inl e)"
    using assms look by (cases allow) (simp_all add: open_known_tunnel_with_options_def p_def Let_def)
  then obtain s2 e2 where p: "p = (s2, Failing e2)"
    by (cases p; cases "snd p") (auto simp: then_try_def split: if_splits)
  obtain s0 s0' e0 where dr: "direct_and_reverse P remote remote_eps s0 = (s0', Inl e0)"
    using p unfolding p_def then_try_def by (auto split: prod.splits progress.splits sum.splits)
  have "\<exists>s1. p_proxy P s1 = (s', Inl e)" if allow
    using eq that by (auto simp: p then_try_def split: prod.splits sum.splits)
  moreover have "open_known_tunnel_with_options (P\<lparr>p_proxy := f\<rparr>) now remote_eps remote reuse allow s = (s', Inl e)"
    if "\<not> allow" for f
  proof -
    have c: "try_cached_path (P\<lparr>p_proxy := f\<rparr>) remote remote_eps False s1 = try_cached_path P remote remote_eps False s1"
      by (auto simp: try_cached_path_def try_cached_direct_def then_try_def split: option.splits connect_direction.splits)
    have d: "direct_and_reverse (P\<lparr>p_proxy := f\<rparr>) = direct_and_reverse P"
      by (intro ext) (simp add: direct_and_reverse_def race_with_delay_def Let_def)
    show ?thesis using assms look that by (simp add: open_known_tunnel_with_options_def c d)
  qed
  ultimately show ?thesis using look direct_and_reverse_fails [OF dr] by auto
qed

definition no_paths :: open_paths where
  "no_paths = \<lparr>p_direct = \<lambda>_ s. (s, Inl ConnectFailed), p_reverse = \<lambda>s. (s, Inl Timeout), p_proxy = \<lambda>s. (s, Inl NotSupport),
     p_has_sn = True, p_direct_first = True\<rparr>"

theorem open_known_exhausts_paths_witness:
  "\<exists>s1. p_proxy no_paths s1 =
     (fst (open_known_tunnel_with_options no_paths 5 [endpoint_default] (P2pId [5]) True True sample_new), Inl NotSupport)"
proof -
  have "snd (open_known_tunnel_with_options no_paths 5 [endpoint_default] (P2pId [5]) True True sample_new) = Inl NotSupport"
    by (simp add: open_known_tunnel_with_options_def get_tunnel_def get_tunnel_with_filter_def hm_get_def then_try_def no_paths_def
        try_cached_path_def cache_get_def direct_and_reverse_def race_with_delay_def Let_def sample_new_def
        tunnel_manager_new_def reconcile_and_wake_def reconcile_proxy_upgrade_state_def remove_proxy_upgrade_def
        wake_upgrades_def)
  then show ?thesis
    using open_known_exhausts_paths [of no_paths 5 "[endpoint_default]" "P2pId [5]" True True sample_new
        "fst (open_known_tunnel_with_options no_paths 5 [endpoint_default] (P2pId [5]) True True sample_new)" NotSupport]
    by (simp add: prod_eq_iff)
qed

section \<open>An upgrade that is never retried\<close>

lemma collect_due_spec:
  "remote \<in> fst ` set (snd (collect_due_proxy_upgrades now s)) \<Longrightarrow> hm_wf (proxy_upgrade_states s) \<Longrightarrow>
   \<exists>u. hm_get (proxy_upgrade_states s) remote = Some u \<and> \<not> in_progress u"
  by (auto simp: collect_due_proxy_upgrades_def upgrade_due_def hm_get_in_set split: if_splits)

text \<open>a retry whose new tunnel is not connected yet when the retry ends stops the
  schedule: the attempt is still marked as in progress, and no later round picks the peer up again,
  however long it stays reachable only by its proxy.\<close>

theorem upgrade_stays_in_progress:
  assumes "tm_reach s" and "hm_get (proxy_upgrade_states s) remote = Some u" and "generation u = gen"
    and "try_upgrade s = (s1, Inr t)" and "tm_reach s1"
    and "hm_get (proxy_upgrade_states s1) remote = Some u1" and "in_progress u1"
    and "\<not> is_tunnel_available (tun s1 t)" and "list_ex (entry_available s1) (usable_entries remote s1)"
    and "attempt_proxy_upgrade_generation try_upgrade now remote gen s = s'"
  shows "hm_get (proxy_upgrade_states s') remote = Some u1 \<and> in_progress u1 \<and>
         (\<forall>later. remote \<notin> fst ` set (snd (collect_due_proxy_upgrades later s')))"
proof -
  have s': "s' = fst (finalize_proxy_upgrade_success now remote t s1)"
    using assms(2,3,4,10) by (simp add: attempt_proxy_upgrade_generation_def)
  obtain es where es: "hm_get (tunnels s1) remote = Some es"
    and px: "\<forall>e\<in>set es. entry_available s1 e \<longrightarrow> entry_is_proxy s1 e"
    using tm_reach_inv [OF assms(5)] assms(6)
    by (fastforce simp: tm_inv_def proxies_only_def list_all_iff)
  have not_live: "\<not> list_ex (\<lambda>e. te_tunnel e = t \<and> \<not> entry_is_proxy s1 e \<and> entry_available s1 e) es"
    using assms(8) by (auto simp: list_ex_iff entry_available_def entry_view_def)
  have av: "filter (entry_available s1) es \<noteq> []"
    using assms(9) es by (auto simp: usable_entries_def list_ex_iff filter_empty_conv)
  have rec: "reconcile_proxy_upgrade_state now remote (Some es) s1 = (s1, False)"
    using av px assms(6) by (auto simp: reconcile_proxy_upgrade_state_def Let_def list_ex_iff)
  have st: "s' = s1"
    unfolding s' finalize_proxy_upgrade_success_def using es not_live rec
    by (simp add: reconcile_and_wake_def wake_upgrades_def Let_def)
  have "remote \<notin> fst ` set (snd (collect_due_proxy_upgrades later s'))" for later
    using collect_due_spec [of remote later s'] tm_reach_inv [OF assms(5)] assms(6,7) unfolding st tm_inv_def by auto
  with assms(6,7) show ?thesis by (simp add: st)
qed

text \<open>The proxy is published, its retry has come due, and the retry's reverse tunnel is handed over before
  its handshake is done.\<close>

definition sample_due :: tunnel_manager where
  "sample_due = fst (collect_due_proxy_upgrades (from_secs 60) (fst (publish_registered_tunnel 11 1 sample_proxy)))"

definition sample_retry :: tunnel_manager where
  "sample_retry = fst (register_tunnel_and_publish (from_secs 61) 3 sample_due)"

lemma sample_due_reach: "tm_reach sample_due"
  unfolding sample_due_def by (intro tm_reach.due tm_reach.pub sample_proxy_reach)

lemma register_and_publish_fst:
  "fst (register_tunnel_and_publish now t s) \<in>
     {fst (register_tunnel now t s), fst (publish_registered_tunnel now t (fst (register_tunnel now t s)))}"
  by (auto simp: register_tunnel_and_publish_def register_tunnel_def Let_def split: prod.splits sum.splits option.splits)

lemma sample_retry_reach: "tm_reach sample_retry"
  using register_and_publish_fst [of "from_secs 61" 3 sample_due] sample_due_reach
  unfolding sample_retry_def by (metis insert_iff singletonD tm_reach.reg tm_reach.pub)

lemmas retry_defs = sample_due_def sample_retry_def register_tunnel_and_publish_def publish_registered_tunnel_def
  publish_tunnel_def collect_due_proxy_upgrades_def upgrade_due_def sample_defs from_secs_def

lemma sample_retry_facts:
  "register_tunnel_and_publish (from_secs 61) 3 sample_due = (sample_retry, Inr 3)"
  "\<exists>u. hm_get (proxy_upgrade_states sample_due) (P2pId [5]) = Some u \<and> generation u = 1"
  "\<exists>u. hm_get (proxy_upgrade_states sample_retry) (P2pId [5]) = Some u \<and> in_progress u"
  "\<not> is_tunnel_available (tun sample_retry 3)"
  "list_ex (entry_available sample_retry) (usable_entries (P2pId [5]) sample_retry)"
  by (simp_all add: retry_defs usable_entries_def)

theorem upgrade_stays_in_progress_witness:
  "\<forall>later. P2pId [5] \<notin> fst ` set (snd (collect_due_proxy_upgrades later
      (attempt_proxy_upgrade_generation (register_tunnel_and_publish (from_secs 61) 3) (from_secs 62) (P2pId [5]) 1 sample_due)))"
proof -
  obtain u where u: "hm_get (proxy_upgrade_states sample_due) (P2pId [5]) = Some u" "generation u = 1"
    using sample_retry_facts(2) by blast
  obtain u1 where u1: "hm_get (proxy_upgrade_states sample_retry) (P2pId [5]) = Some u1" "in_progress u1"
    using sample_retry_facts(3) by blast
  show ?thesis
    using upgrade_stays_in_progress [where try_upgrade = "register_tunnel_and_publish (from_secs 61) 3", OF sample_due_reach u sample_retry_facts(1) sample_retry_reach u1 sample_retry_facts(4,5) refl]
    by blast
qed

section \<open>Endpoints on offer\<close>

definition no_same_endpoint :: "endpoint list \<Rightarrow> bool" where
  "no_same_endpoint eps \<longleftrightarrow> distinct (map (\<lambda>ep. (protocol ep, addr ep)) eps)"

lemma push_unique_ok:
  "no_same_endpoint acc \<Longrightarrow> no_same_endpoint (push_unique_endpoint ep acc)"
  by (auto simp: no_same_endpoint_def push_unique_endpoint_def list_ex_iff endpoint_eq_def)

lemma push_unique_set: "set (push_unique_endpoint ep acc) \<subseteq> insert ep (set acc)"
  by (auto simp: push_unique_endpoint_def)

lemma push_unique_length: "length (push_unique_endpoint ep acc) \<le> Suc (length acc)"
  by (simp add: push_unique_endpoint_def)

lemma push_until_ok:
  assumes "no_same_endpoint acc" and "length acc < n"
  shows "no_same_endpoint (push_until n eps acc) \<and> set (push_until n eps acc) \<subseteq> set acc \<union> set eps \<and>
         length (push_until n eps acc) \<le> n"
  using assms
proof (induction n eps acc rule: push_until.induct)
  case (2 n ep eps acc)
  let ?a = "push_unique_endpoint ep acc"
  have a: "no_same_endpoint ?a" "set ?a \<subseteq> insert ep (set acc)" "length ?a \<le> n"
    using push_unique_ok push_unique_set push_unique_length [of ep acc] 2 by auto
  show ?case
  proof (cases "length ?a \<ge> n")
    case False
    with "2.IH" [OF refl _ a(1)] a show ?thesis by auto
  qed (use a in auto)
qed simp

lemma append_new_ok: "no_same_endpoint eps \<Longrightarrow> no_same_endpoint (append_new eps extra)"
  unfolding append_new_def by (induction extra arbitrary: eps) (simp_all add: push_unique_ok)

text \<open>what is offered to the peer fits the request: at most eight endpoints, no two
  with the same protocol and address, all of one protocol with a port, in the areas that the operation
  allows, and QUIC ones whenever the operation punches; the endpoints collected from the listeners and
  the observed addresses are free of duplicates as well.\<close>

theorem rendezvous_endpoints_fit:
  "let out = rendezvous_base_endpoints eps op
   in length out \<le> 8 \<and> no_same_endpoint out \<and> set out \<subseteq> set eps \<and>
      (\<exists>p. (punches op \<longrightarrow> p = Quic) \<and> list_all (rendezvous_anchored op p) out) \<and>
      no_same_endpoint (collect_reverse_endpoints_from_sources entries wan)"
proof -
  define p where "p = (if punches op then Quic else if list_ex (rendezvous_anchored op Quic) eps then Quic else Tcp)"
  define picked where "picked = filter (rendezvous_anchored op p) eps"
  have out: "rendezvous_base_endpoints eps op = push_until 8 picked []"
    by (simp add: rendezvous_base_endpoints_def picked_def p_def MAX_NAT_PLAN_CANDIDATES_def)
  have "no_same_endpoint (push_until 8 picked []) \<and> set (push_until 8 picked []) \<subseteq> set picked \<and>
      length (push_until 8 picked []) \<le> 8"
    using push_until_ok [of "[]" 8 picked] by (simp add: no_same_endpoint_def)
  moreover have "set picked \<subseteq> {x \<in> set eps. rendezvous_anchored op p x}" by (auto simp: picked_def)
  ultimately have base: "let out = rendezvous_base_endpoints eps op
     in length out \<le> 8 \<and> no_same_endpoint out \<and> set out \<subseteq> set eps \<and> list_all (rendezvous_anchored op p) out"
    unfolding out Let_def list_all_iff by auto
  have "no_same_endpoint (fold (\<lambda>wan eps. append_new (push_unique_endpoint wan eps) (f wan)) ws acc)"
    if "no_same_endpoint acc" for f ws acc
    using that by (induction ws arbitrary: acc) (simp_all add: append_new_ok push_unique_ok)
  then have "no_same_endpoint (collect_reverse_endpoints_from_sources entries wan)"
    using append_new_ok [of "[]"] by (simp add: collect_reverse_endpoints_from_sources_def Let_def no_same_endpoint_def)
  moreover have "punches op \<longrightarrow> p = Quic" by (simp add: p_def)
  ultimately show ?thesis using base unfolding Let_def by blast
qed

section \<open>Waiting for a reverse tunnel\<close>

text \<open>a reverse path that fails before a tunnel arrives leaves no waiter of its own
  behind, whatever happened meanwhile; one that succeeds returns a tunnel that is registered and
  published.\<close>

theorem reverse_path_cleans_up:
  assumes "open_reverse_path True call wait now remote tid w s = (s', r)"
    and "call (fst (add_reverse_waiter remote tid w s)) = (s2, c)" and "wait s2 = (s3, a)"
    and "hm_wf (pending_reverse_waiters s2)" and "hm_wf (pending_reverse_waiters s3)"
  shows "case r of
           Inl _ \<Rightarrow> isl c \<or> isl a \<longrightarrow>
             (\<forall>e. hm_get (pending_reverse_waiters s') (remote, tid, True) = Some e \<longrightarrow> iw_token e \<noteq> next_token s)
         | Inr t \<Rightarrow> c = Inr () \<and> a = Inr t \<and> is_registered_tunnel_published (v_remote_id (tun s3 t)) t s'"
proof -
  have tok: "snd (add_reverse_waiter remote tid w s) = next_token s"
    by (simp add: add_reverse_waiter_def add_incoming_waiter_def fresh_token_def)
  have gone: "hm_get (pending_reverse_waiters (drop_wait_registration True remote tid True token u)) (remote, tid, True) = Some e \<Longrightarrow>
      iw_token e \<noteq> token" if "hm_wf (pending_reverse_waiters u)" for token u e
    using that
    by (auto simp: drop_wait_registration_def remove_incoming_waiter_def remove_incoming_waiter_from_state_def
        hm.get_remove split: option.splits if_splits)
  have pub: "is_registered_tunnel_published q t (remember remote d t' u) = is_registered_tunnel_published q t u" for q t t' d u
    by (rule published_cong) (simp_all add: remember_def)
  show ?thesis
    using assms tok gone
    by (auto simp: open_reverse_path_def pub dest: register_publish_ok split: prod.splits sum.splits)
qed

theorem reverse_path_cleans_up_witness:
  "hm_get (pending_reverse_waiters (fst (open_reverse_path True (\<lambda>s. (s, Inr ())) (\<lambda>s. (s, Inl Timeout)) 5 (P2pId [5])
     (TunnelId 9) 71 sample_new))) (P2pId [5], TunnelId 9, True) \<noteq> Some \<lparr>iw_token = 0, iw_waiter = 71\<rparr>"
proof -
  let ?r = "open_reverse_path True (\<lambda>s. (s, Inr ())) (\<lambda>s. (s, Inl Timeout)) 5 (P2pId [5]) (TunnelId 9) 71 sample_new"
  let ?s = "fst (add_reverse_waiter (P2pId [5]) (TunnelId 9) 71 sample_new)"
  have "snd ?r = Inl Timeout" by (simp add: open_reverse_path_def split: prod.splits)
  moreover have "hm_wf (pending_reverse_waiters ?s)" "next_token sample_new = 0"
    by (simp_all add: add_reverse_waiter_def add_incoming_waiter_def fresh_token_def sample_new_def tunnel_manager_new_def
        hm_insert_def hm_get_def hm_wf_def Let_def)
  ultimately show ?thesis
    using reverse_path_cleans_up [OF prod.collapse [symmetric, of ?r] refl refl] by auto
qed

theorem rendezvous_endpoints_fit_witness:
  "\<exists>p. p = Quic \<and> list_all (rendezvous_anchored PunchOnly p) (rendezvous_base_endpoints [endpoint_default] PunchOnly)"
  using rendezvous_endpoints_fit [of "[endpoint_default]" PunchOnly "[]" "[]"] by (auto simp: Let_def punches_def)

end
