(* ===== verification/PnTraffic.thy ===== *)
theory PnTraffic
  imports TunnelActivity "HOL-Library.Multiset"
begin

text \<open>
  \<open>PnTrafficManager\<close> (\<open>pn/service/pn_server.rs\<close>): what a proxy node keeps about the users whose traffic
  it relays. A user has an entry while a session of it runs and for a retention time after; the
  entry holds its limits and the counters that snapshots read.

  An \<open>Arc\<close> of an entry is a number. The byte counters and the limiter are objects of the crate
  \<open>sfo-io\<close>: of the counters the entry keeps the totals, which grow on their own, of the limiter the
  configuration that was set last. \<open>BTreeMap\<close> is a map that is read in key order, \<open>BTreeSet\<close> a sorted
  list without duplicates. \<open>Instant::checked_add\<close> overflows above \<open>limit\<close>, which depends on the platform.
\<close>

section \<open>Definitions\<close>

subsection \<open>Entries\<close>

record traffic_limit_config =
  tx_rate :: "u32 option"
  tx_weight :: "u32 option"
  rx_rate :: "u32 option"
  rx_weight :: "u32 option"

definition no_limit :: traffic_limit_config where
  "no_limit = \<lparr>tx_rate = None, tx_weight = None, rx_rate = None, rx_weight = None\<rparr>"

record traffic_snapshot =
  sn_tx_bytes :: u64
  sn_tx_speed :: u64
  sn_rx_bytes :: u64
  sn_rx_speed :: u64
  sn_tx_delta_bytes :: u64
  sn_rx_delta_bytes :: u64

record traffic_entry =
  en_limit :: traffic_limit_config
  en_tx_bytes :: u64
  en_rx_bytes :: u64
  en_tx_speed :: u64
  en_rx_speed :: u64
  base_tx_bytes :: u64
  base_rx_bytes :: u64

definition traffic_entry_new :: traffic_entry where
  "traffic_entry_new = \<lparr>en_limit = no_limit, en_tx_bytes = 0, en_rx_bytes = 0, en_tx_speed = 0, en_rx_speed = 0,
     base_tx_bytes = 0, base_rx_bytes = 0\<rparr>"

definition entry_set_limit :: "traffic_limit_config \<Rightarrow> traffic_entry \<Rightarrow> traffic_entry" where
  "entry_set_limit c e = e\<lparr>en_limit := c\<rparr>"

definition read_snapshot :: "bool \<Rightarrow> traffic_entry \<Rightarrow> traffic_entry \<times> traffic_snapshot" where
  "read_snapshot consume e =
     (if consume then e\<lparr>base_tx_bytes := en_tx_bytes e, base_rx_bytes := en_rx_bytes e\<rparr> else e,
      \<lparr>sn_tx_bytes = en_tx_bytes e, sn_tx_speed = en_tx_speed e, sn_rx_bytes = en_rx_bytes e, sn_rx_speed = en_rx_speed e,
       sn_tx_delta_bytes = sat_sub (en_tx_bytes e) (base_tx_bytes e),
       sn_rx_delta_bytes = sat_sub (en_rx_bytes e) (base_rx_bytes e)\<rparr>)"

subsection \<open>The manager\<close>

record traffic_user =
  user_entry :: nat
  active_sessions :: nat
  idle_deadline :: "instant option"

datatype cleanup_deadline = CleanupDeadline (cd_deadline: instant) (cd_user: p2p_id)

instantiation cleanup_deadline :: linorder
begin

definition less_eq_cleanup_deadline :: "cleanup_deadline \<Rightarrow> cleanup_deadline \<Rightarrow> bool" where
  "less_eq_cleanup_deadline a b \<longleftrightarrow> cd_deadline a < cd_deadline b \<or> cd_deadline a = cd_deadline b \<and> cd_user a \<le> cd_user b"

definition less_cleanup_deadline :: "cleanup_deadline \<Rightarrow> cleanup_deadline \<Rightarrow> bool" where
  "less_cleanup_deadline a b \<longleftrightarrow> cd_deadline a < cd_deadline b \<or> cd_deadline a = cd_deadline b \<and> cd_user a < cd_user b"

instance
  by standard (auto simp: less_eq_cleanup_deadline_def less_cleanup_deadline_def cleanup_deadline.expand)

end

record traffic_manager =
  users :: "(p2p_id, traffic_user) hmap"
  limit_configs :: "(p2p_id, traffic_limit_config) hmap"
  retention :: duration
  cleanup_deadlines :: "cleanup_deadline list"
  tm_shutdown :: bool
  entries :: "nat \<Rightarrow> traffic_entry"
  next_entry_id :: nat
  cleanup_wakeups :: nat

definition PN_TRAFFIC_CLEANUP_MAX_WAIT :: duration where
  "PN_TRAFFIC_CLEANUP_MAX_WAIT = from_secs (60 * 60)"

definition PN_TRAFFIC_CLEANUP_BATCH_SIZE :: nat where
  "PN_TRAFFIC_CLEANUP_BATCH_SIZE = 64"

definition PN_TRAFFIC_RETENTION_MAX :: duration where
  "PN_TRAFFIC_RETENTION_MAX = from_secs 2592000"

definition retention_deadline :: "nat \<Rightarrow> instant \<Rightarrow> duration \<Rightarrow> instant option" where
  "retention_deadline limit now r = (if now + r \<le> limit then Some (now + r) else None)"

definition traffic_manager_new :: traffic_manager where
  "traffic_manager_new = \<lparr>users = [], limit_configs = [], retention = 0, cleanup_deadlines = [], tm_shutdown = False,
     entries = \<lambda>_. traffic_entry_new, next_entry_id = 0, cleanup_wakeups = 0\<rparr>"

definition cleanup_wake :: "bool \<Rightarrow> traffic_manager \<Rightarrow> traffic_manager" where
  "cleanup_wake b s = (if b then s\<lparr>cleanup_wakeups := cleanup_wakeups s + 1\<rparr> else s)"

definition set_insert :: "'a::linorder \<Rightarrow> 'a list \<Rightarrow> 'a list" where
  "set_insert x xs = (if x \<in> set xs then xs else insort x xs)"

definition put_user :: "p2p_id \<Rightarrow> traffic_user \<Rightarrow> traffic_manager \<Rightarrow> traffic_manager" where
  "put_user u st s = s\<lparr>users := hm_insert u st (users s)\<rparr>"

definition drop_user :: "p2p_id \<Rightarrow> traffic_manager \<Rightarrow> traffic_manager" where
  "drop_user u s = s\<lparr>users := hm_remove u (users s)\<rparr>"

definition acquire_user :: "p2p_id \<Rightarrow> traffic_manager \<Rightarrow> traffic_manager \<times> nat \<times> bool" where
  "acquire_user u s =
     (case hm_get (users s) u of
        Some st \<Rightarrow>
          let s1 = put_user u (st\<lparr>idle_deadline := None, active_sessions := active_sessions st + 1\<rparr>) s
          in (case idle_deadline st of
                Some d \<Rightarrow> (s1\<lparr>cleanup_deadlines := remove1 (CleanupDeadline d u) (cleanup_deadlines s)\<rparr>, user_entry st,
                           CleanupDeadline d u \<in> set (cleanup_deadlines s))
              | None \<Rightarrow> (s1, user_entry st, False))
      | None \<Rightarrow>
          let e = (case hm_get (limit_configs s) u of
                     Some c \<Rightarrow> entry_set_limit c traffic_entry_new | None \<Rightarrow> traffic_entry_new);
              i = next_entry_id s
          in (put_user u \<lparr>user_entry = i, active_sessions = 1, idle_deadline = None\<rparr>
                (s\<lparr>entries := (entries s)(i := e), next_entry_id := i + 1\<rparr>), i, False))"

text \<open>The guard of a session: \<open>gd_live\<close> is whether its manager reference is not the empty one.\<close>

record session_guard =
  gd_live :: bool
  gd_source :: "p2p_id \<times> nat"
  gd_target :: "(p2p_id \<times> nat) option"

definition begin_session :: "p2p_id \<Rightarrow> p2p_id \<Rightarrow> traffic_manager \<Rightarrow> traffic_manager \<times> session_guard" where
  "begin_session source target s =
     (if tm_shutdown s
      then let i = next_entry_id s; j = (if source = target then i else i + 1)
           in (s\<lparr>entries := (entries s)(i := traffic_entry_new, j := traffic_entry_new), next_entry_id := j + 1\<rparr>,
               \<lparr>gd_live = False, gd_source = (source, i), gd_target = (if source \<noteq> target then Some (target, j) else None)\<rparr>)
      else
        let (s1, i, ci) = acquire_user source s;
            (s2, j, cj) = (if source = target then (s1, i, False) else acquire_user target s1)
        in (cleanup_wake (ci \<or> cj) s2,
            \<lparr>gd_live = True, gd_source = (source, i), gd_target = (if source \<noteq> target then Some (target, j) else None)\<rparr>))"

definition release_user :: "nat \<Rightarrow> instant \<Rightarrow> p2p_id \<times> nat \<Rightarrow> traffic_manager \<Rightarrow> traffic_manager \<times> bool" where
  "release_user limit now p s =
     (let (u, i) = p
      in case hm_get (users s) u of
           None \<Rightarrow> (s, False)
         | Some st \<Rightarrow>
             if user_entry st \<noteq> i \<or> active_sessions st = 0 then (s, False)
             else
               let st1 = st\<lparr>active_sessions := active_sessions st - 1\<rparr>; s1 = put_user u st1 s
               in if active_sessions st1 \<noteq> 0 then (s1, False)
                  else if retention s1 = 0 \<or> tm_shutdown s1 then (drop_user u s1, False)
                  else (case retention_deadline limit now (retention s1) of
                          None \<Rightarrow> (drop_user u s1, False)
                        | Some d \<Rightarrow>
                            ((put_user u (st1\<lparr>idle_deadline := Some d\<rparr>) s1)
                               \<lparr>cleanup_deadlines := set_insert (CleanupDeadline d u) (cleanup_deadlines s1)\<rparr>,
                             CleanupDeadline d u \<notin> set (cleanup_deadlines s1))))"

definition end_session :: "nat \<Rightarrow> instant \<Rightarrow> session_guard \<Rightarrow> traffic_manager \<Rightarrow> traffic_manager" where
  "end_session limit now g s =
     (if \<not> gd_live g then s
      else
        let (s1, b1) = release_user limit now (gd_source g) s;
            (s2, b2) = (case gd_target g of Some p \<Rightarrow> release_user limit now p s1 | None \<Rightarrow> (s1, False))
        in cleanup_wake (b1 \<or> b2) s2)"

datatype cleanup_result = CleanupShutdown | WaitForNotification | WaitForDeadline duration | CleanupYield

fun cleanup_loop :: "nat \<Rightarrow> instant \<Rightarrow> traffic_manager \<Rightarrow> traffic_manager" where
  "cleanup_loop 0 now s = s"
| "cleanup_loop (Suc n) now s =
     (case cleanup_deadlines s of
        [] \<Rightarrow> s
      | cd # more_deadlines \<Rightarrow>
          if cd_deadline cd > now then s
          else
            let s1 = s\<lparr>cleanup_deadlines := more_deadlines\<rparr>;
                gone = (case hm_get (users s1) (cd_user cd) of
                          Some st \<Rightarrow> active_sessions st = 0 \<and> idle_deadline st = Some (cd_deadline cd)
                        | None \<Rightarrow> False)
            in cleanup_loop n now (if gone then drop_user (cd_user cd) s1 else s1))"

definition cleanup_action :: "instant \<Rightarrow> traffic_manager \<Rightarrow> traffic_manager \<times> cleanup_result" where
  "cleanup_action now s =
     (if tm_shutdown s then (s, CleanupShutdown)
      else
        let s1 = cleanup_loop PN_TRAFFIC_CLEANUP_BATCH_SIZE now s
        in (s1, case cleanup_deadlines s1 of
                  [] \<Rightarrow> WaitForNotification
                | cd # _ \<Rightarrow> if cd_deadline cd \<le> now then CleanupYield
                            else WaitForDeadline (min (cd_deadline cd - now) PN_TRAFFIC_CLEANUP_MAX_WAIT)))"

definition set_retention :: "duration \<Rightarrow> traffic_manager \<Rightarrow> traffic_manager" where
  "set_retention r s = (if tm_shutdown s then s else s\<lparr>retention := min r PN_TRAFFIC_RETENTION_MAX\<rparr>)"

definition set_user_limit :: "p2p_id \<Rightarrow> traffic_limit_config \<Rightarrow> traffic_manager \<Rightarrow> traffic_manager" where
  "set_user_limit u c s =
     (if tm_shutdown s then s
      else
        let s1 = s\<lparr>limit_configs := hm_insert u c (limit_configs s)\<rparr>
        in case hm_get (users s1) u of
             Some st \<Rightarrow> s1\<lparr>entries := (entries s1)(user_entry st := entry_set_limit c (entries s1 (user_entry st)))\<rparr>
           | None \<Rightarrow> s1)"

definition traffic_read :: "bool \<Rightarrow> p2p_id \<Rightarrow> traffic_manager \<Rightarrow> traffic_manager \<times> traffic_snapshot option" where
  "traffic_read consume u s =
     (case hm_get (users s) u of
        None \<Rightarrow> (s, None)
      | Some st \<Rightarrow>
          let (e, snap) = read_snapshot consume (entries s (user_entry st))
          in (s\<lparr>entries := (entries s)(user_entry st := e)\<rparr>, Some snap))"

definition snapshot_of_user :: "p2p_id \<Rightarrow> traffic_manager \<Rightarrow> traffic_manager \<times> traffic_snapshot option" where
  "snapshot_of_user u s = traffic_read True u s"

definition peek_snapshot_of_user :: "p2p_id \<Rightarrow> traffic_manager \<Rightarrow> traffic_snapshot option" where
  "peek_snapshot_of_user u s = snd (traffic_read False u s)"

definition shutdown :: "traffic_manager \<Rightarrow> traffic_manager" where
  "shutdown s = cleanup_wake True
     (s\<lparr>tm_shutdown := True, users := [], limit_configs := [], cleanup_deadlines := [], retention := 0\<rparr>)"

text \<open>\<open>next_entry\<close> and the iterator built on it.\<close>

definition next_entry :: "p2p_id option \<Rightarrow> traffic_manager \<Rightarrow> (p2p_id \<times> nat) option" where
  "next_entry after s =
     (case filter (\<lambda>u. case after of Some a \<Rightarrow> a < u | None \<Rightarrow> True) (sort (map fst (users s))) of
        [] \<Rightarrow> None
      | u # _ \<Rightarrow> map_option (\<lambda>st. (u, user_entry st)) (hm_get (users s) u))"

definition snapshot_iter_next ::
    "p2p_id option \<Rightarrow> traffic_manager \<Rightarrow> traffic_manager \<times> p2p_id option \<times> (p2p_id \<times> traffic_snapshot) option" where
  "snapshot_iter_next after s =
     (case next_entry after s of
        None \<Rightarrow> (s, after, None)
      | Some (u, i) \<Rightarrow>
          let (e, snap) = read_snapshot True (entries s i)
          in (s\<lparr>entries := (entries s)(i := e)\<rparr>, Some u, Some (u, snap)))"

fun snapshot_iter :: "nat \<Rightarrow> p2p_id option \<Rightarrow> traffic_manager \<Rightarrow> traffic_manager \<times> (p2p_id \<times> traffic_snapshot) list" where
  "snapshot_iter 0 after s = (s, [])"
| "snapshot_iter (Suc n) after s =
     (case snapshot_iter_next after s of
        (s1, after1, Some x) \<Rightarrow> (let (s2, xs) = snapshot_iter n after1 s1 in (s2, x # xs))
      | (s1, _, None) \<Rightarrow> (s1, []))"

section \<open>Sessions are counted\<close>

definition guard_parts :: "session_guard \<Rightarrow> (p2p_id \<times> nat) multiset" where
  "guard_parts g =
     (if gd_live g then add_mset (gd_source g) (case gd_target g of Some p \<Rightarrow> {#p#} | None \<Rightarrow> {#}) else {#})"

definition user_ok :: "traffic_manager \<Rightarrow> (p2p_id \<times> nat) multiset \<Rightarrow> p2p_id \<Rightarrow> traffic_user \<Rightarrow> bool" where
  "user_ok s parts u st \<longleftrightarrow>
     active_sessions st = count parts (u, user_entry st) \<and> user_entry st < next_entry_id s \<and>
     (case idle_deadline st of
        None \<Rightarrow> active_sessions st \<noteq> 0
      | Some d \<Rightarrow> active_sessions st = 0 \<and> CleanupDeadline d u \<in> set (cleanup_deadlines s))"

definition deadline_ok :: "traffic_manager \<Rightarrow> cleanup_deadline \<Rightarrow> bool" where
  "deadline_ok s cd \<longleftrightarrow> (\<exists>st. hm_get (users s) (cd_user cd) = Some st \<and> idle_deadline st = Some (cd_deadline cd))"

definition part_ok :: "traffic_manager \<Rightarrow> p2p_id \<times> nat \<Rightarrow> bool" where
  "part_ok s p \<longleftrightarrow> snd p < next_entry_id s \<and>
     (tm_shutdown s \<or> (\<exists>st. hm_get (users s) (fst p) = Some st \<and> user_entry st = snd p))"

definition traffic_inv :: "traffic_manager \<Rightarrow> (p2p_id \<times> nat) multiset \<Rightarrow> bool" where
  "traffic_inv s parts \<longleftrightarrow>
     hm_wf (users s) \<and> sorted (cleanup_deadlines s) \<and> distinct (cleanup_deadlines s) \<and>
     (\<forall>u st. hm_get (users s) u = Some st \<longrightarrow> user_ok s parts u st) \<and>
     (\<forall>cd\<in>set (cleanup_deadlines s). deadline_ok s cd) \<and> (\<forall>p. p \<in># parts \<longrightarrow> part_ok s p) \<and>
     (tm_shutdown s \<longrightarrow> users s = [] \<and> cleanup_deadlines s = [])"

lemma set_insert_props:
  "set (set_insert x xs) = insert x (set xs)" "sorted xs \<Longrightarrow> sorted (set_insert x xs)"
  "distinct xs \<Longrightarrow> distinct (set_insert x xs)"
  by (auto simp: set_insert_def set_insort_key sorted_insort distinct_insort)

lemma user_fields [simp]:
  "users (put_user u st s) = hm_insert u st (users s)" "cleanup_deadlines (put_user u st s) = cleanup_deadlines s"
  "next_entry_id (put_user u st s) = next_entry_id s" "tm_shutdown (put_user u st s) = tm_shutdown s"
  "users (drop_user u s) = hm_remove u (users s)" "cleanup_deadlines (drop_user u s) = cleanup_deadlines s"
  "next_entry_id (drop_user u s) = next_entry_id s" "tm_shutdown (drop_user u s) = tm_shutdown s"
  "retention (put_user u st s) = retention s"
  by (simp_all add: put_user_def drop_user_def)

text \<open>What does not change the users, the deadlines and the ids keeps the invariant.\<close>

lemma traffic_inv_same:
  assumes "traffic_inv s parts" and "users s' = users s" and "cleanup_deadlines s' = cleanup_deadlines s"
    and "next_entry_id s' = next_entry_id s" and "tm_shutdown s' = tm_shutdown s"
  shows "traffic_inv s' parts"
proof -
  have "user_ok s' = user_ok s" by (intro ext) (simp add: user_ok_def assms cong: option.case_cong)
  moreover have "deadline_ok s' = deadline_ok s" "part_ok s' = part_ok s"
    by (intro ext, simp add: deadline_ok_def part_ok_def assms)+
  ultimately show ?thesis using assms by (simp add: traffic_inv_def)
qed

lemma inv_part: "traffic_inv s parts \<Longrightarrow> p \<in># parts \<Longrightarrow> part_ok s p"
  by (cases p) (auto simp: traffic_inv_def)

lemma inv_user: "traffic_inv s parts \<Longrightarrow> hm_get (users s) u = Some st \<Longrightarrow> user_ok s parts u st"
  by (simp add: traffic_inv_def)

lemma user_ok_other:
  "user_ok s parts v st \<Longrightarrow> count parts' (v, user_entry st) = count parts (v, user_entry st) \<Longrightarrow>
   next_entry_id s \<le> next_entry_id s' \<Longrightarrow>
   (\<And>d. CleanupDeadline d v \<in> set (cleanup_deadlines s) \<Longrightarrow> CleanupDeadline d v \<in> set (cleanup_deadlines s')) \<Longrightarrow>
   user_ok s' parts' v st"
  by (auto simp: user_ok_def split: option.splits)

lemma part_fresh: "traffic_inv s parts \<Longrightarrow> count parts (u, next_entry_id s) = 0"
proof (rule ccontr)
  assume inv: "traffic_inv s parts" and "count parts (u, next_entry_id s) \<noteq> 0"
  then have "(u, next_entry_id s) \<in># parts" by (simp add: not_in_iff)
  with inv have "part_ok s (u, next_entry_id s)" by (auto simp: traffic_inv_def)
  then show False by (simp add: part_ok_def)
qed

lemma traffic_inv_wake: "traffic_inv s parts \<Longrightarrow> traffic_inv (cleanup_wake b s) parts"
  by (erule traffic_inv_same) (simp_all add: cleanup_wake_def)

lemma acquire_user_inv:
  assumes inv: "traffic_inv s parts" and "\<not> tm_shutdown s" and a: "acquire_user u s = (s', i, b)"
  shows "traffic_inv s' (add_mset (u, i) parts) \<and> \<not> tm_shutdown s'"
proof (cases "hm_get (users s) u")
  case None
  have i: "i = next_entry_id s" and s': "users s' = hm_insert u \<lparr>user_entry = i, active_sessions = 1, idle_deadline = None\<rparr> (users s)"
    "cleanup_deadlines s' = cleanup_deadlines s" "next_entry_id s' = i + 1" "tm_shutdown s' = False"
    using a None assms(2) by (auto simp: acquire_user_def Let_def)
  have other: "\<forall>cd\<in>set (cleanup_deadlines s). cd_user cd \<noteq> u"
    using inv None by (auto simp: traffic_inv_def deadline_ok_def)
  have "user_ok s' (add_mset (u, i) parts) v st'" if "hm_get (users s') v = Some st'" for v st'
  proof (cases "v = u")
    case True
    with that part_fresh [OF inv, of u] show ?thesis by (auto simp: user_ok_def s' hm.get_insert i)
  next
    case False
    with that inv have "user_ok s parts v st'" by (simp add: s' hm.get_insert traffic_inv_def)
    then show ?thesis by (rule user_ok_other) (use False in \<open>auto simp: s' i\<close>)
  qed
  moreover have "deadline_ok s' cd" if "cd \<in> set (cleanup_deadlines s')" for cd
    using inv that other by (auto simp: traffic_inv_def deadline_ok_def s' hm.get_insert)
  moreover have "part_ok s' p" if "p \<in># add_mset (u, i) parts" for p
  proof (cases "p = (u, i)")
    case False
    with that have "part_ok s p" by (auto intro: inv_part [OF inv])
    with None assms(2) show ?thesis by (auto simp: part_ok_def s' hm.get_insert i)
  qed (simp add: part_ok_def s' hm.get_insert)
  ultimately show ?thesis using inv by (auto simp: traffic_inv_def s' hm.wf_insert)
next
  case (Some st)
  have ok: "user_ok s parts u st" using inv Some by (simp add: traffic_inv_def)
  have i: "i = user_entry st"
    and s': "users s' = hm_insert u (st\<lparr>idle_deadline := None, active_sessions := active_sessions st + 1\<rparr>) (users s)"
      "cleanup_deadlines s' = (case idle_deadline st of Some d \<Rightarrow> remove1 (CleanupDeadline d u) (cleanup_deadlines s) | None \<Rightarrow> cleanup_deadlines s)"
      "next_entry_id s' = next_entry_id s" "tm_shutdown s' = False"
    using a Some assms(2) by (auto simp: acquire_user_def Let_def split: option.splits)
  have dl: "cd_user cd \<noteq> u" if "cd \<in> set (cleanup_deadlines s')" for cd
  proof
    assume u: "cd_user cd = u"
    have d: "distinct (cleanup_deadlines s)" using inv by (simp add: traffic_inv_def)
    have "cd \<in> set (cleanup_deadlines s)"
      using that by (auto simp: s' dest: subsetD [OF set_remove1_subset] split: option.splits)
    then have "idle_deadline st = Some (cd_deadline cd)"
      using inv Some u by (auto simp: traffic_inv_def deadline_ok_def)
    moreover have "CleanupDeadline (cd_deadline cd) u = cd" using u cleanup_deadline.collapse [of cd] by simp
    ultimately show False using that d by (simp add: s')
  qed
  have sub: "set (cleanup_deadlines s') \<subseteq> set (cleanup_deadlines s)"
    "\<And>cd. cd \<in> set (cleanup_deadlines s) \<Longrightarrow> cd_user cd \<noteq> u \<Longrightarrow> cd \<in> set (cleanup_deadlines s')"
    by (auto simp: s' dest: subsetD [OF set_remove1_subset] split: option.splits)
      (metis cleanup_deadline.sel(2) in_set_remove1)
  have "sorted (cleanup_deadlines s') \<and> distinct (cleanup_deadlines s')"
    using inv by (auto simp: traffic_inv_def s' sorted_remove1 split: option.splits)
  moreover have "user_ok s' (add_mset (u, i) parts) v st'" if "hm_get (users s') v = Some st'" for v st'
  proof (cases "v = u")
    case True
    with that ok show ?thesis by (auto simp: s' hm.get_insert user_ok_def i)
  next
    case False
    with that inv have "user_ok s parts v st'" by (simp add: s'(1) hm.get_insert traffic_inv_def)
    then show ?thesis by (rule user_ok_other) (use False sub(2) in \<open>auto simp: s'(3)\<close>)
  qed
  moreover have "deadline_ok s' cd" if "cd \<in> set (cleanup_deadlines s')" for cd
    using inv sub(1) dl [OF that] that by (auto simp: traffic_inv_def deadline_ok_def s'(1) hm.get_insert)
  moreover have "part_ok s' p" if "p \<in># add_mset (u, i) parts" for p
  proof (cases "p = (u, i)")
    case False
    with that have "part_ok s p" by (auto intro: inv_part [OF inv])
    with Some assms(2) show ?thesis by (auto simp: part_ok_def s'(1,3,4) hm.get_insert i)
  qed (use ok in \<open>simp add: part_ok_def s'(1,3) hm.get_insert user_ok_def i\<close>)
  ultimately show ?thesis using inv by (auto simp: traffic_inv_def s'(1,4) hm.wf_insert)
qed

lemma hm_insert_twice: "hm_insert k v (hm_insert k w m) = hm_insert k v m"
  by (induction m) (auto simp: hm_insert_def)

lemma hm_remove_insert: "hm_wf m \<Longrightarrow> hm_remove k (hm_insert k v m) = hm_remove k m"
  unfolding hm_remove_def hm_insert_def by (induction m) auto

lemma release_user_inv:
  assumes inv: "traffic_inv s (add_mset p parts)" and r: "release_user limit now p s = (s', b)"
  shows "traffic_inv s' parts \<and> tm_shutdown s' = tm_shutdown s"
proof (cases "tm_shutdown s")
  case True
  then have e: "users s = []" "cleanup_deadlines s = []" using inv by (auto simp: traffic_inv_def)
  then have "s' = s" using r by (cases p) (simp add: release_user_def hm.get_empty)
  moreover have "part_ok s q" if "q \<in># parts" for q using that by (auto intro: inv_part [OF inv])
  ultimately show ?thesis using e by (simp add: traffic_inv_def hm_wf_def hm.get_empty)
next
  case False
  obtain u i where p: "p = (u, i)" by fastforce
  obtain st where st: "hm_get (users s) u = Some st" "user_entry st = i"
    using inv_part [OF inv, of p] False by (auto simp: part_ok_def p)
  have ok: "user_ok s (add_mset p parts) u st" using inv st by (simp add: traffic_inv_def)
  let ?n = "count parts (u, i)"
  have act: "active_sessions st = Suc ?n" "idle_deadline st = None" "i < next_entry_id s"
    using ok st(2) by (auto simp: user_ok_def p split: option.splits)
  let ?st = "st\<lparr>active_sessions := ?n\<rparr>" and ?d = "retention_deadline limit now (retention s)"
  have wf: "hm_wf (users s)" using inv by (simp add: traffic_inv_def)
  have none: "cd_user cd \<noteq> u" if "cd \<in> set (cleanup_deadlines s)" for cd
    using inv that st act by (auto simp: traffic_inv_def deadline_ok_def)
  have old: "user_ok s (add_mset p parts) v sv" if "hm_get (users s) v = Some sv" for v sv
    using inv that by (simp add: traffic_inv_def)
  consider (busy) "?n \<noteq> 0" "users s' = hm_insert u ?st (users s)" "cleanup_deadlines s' = cleanup_deadlines s"
    | (gone) "?n = 0" "users s' = hm_remove u (users s)" "cleanup_deadlines s' = cleanup_deadlines s"
    | (idle) d where "?n = 0" "users s' = hm_insert u (?st\<lparr>idle_deadline := Some d\<rparr>) (users s)"
        "cleanup_deadlines s' = set_insert (CleanupDeadline d u) (cleanup_deadlines s)"
  proof -
    note defs = release_user_def p Let_def hm_insert_twice hm_remove_insert
    show thesis
    proof (cases "?n = 0 \<and> retention s \<noteq> 0 \<and> ?d \<noteq> None")
      case True
      then obtain d where d: "?d = Some d" by blast
      show thesis by (rule that(3) [of d]) (use r st act False True d in \<open>auto simp: defs\<close>)
    next
      case rest: False
      show thesis
      proof (cases "?n = 0")
        case True
        show thesis by (rule that(2)) (use r st act False True rest wf in \<open>auto simp: defs split: if_splits\<close>)
      next
        case n: False
        show thesis by (rule that(1)) (use r st act False n in \<open>auto simp: defs\<close>)
      qed
    qed
  qed
  moreover have n: "next_entry_id s' = next_entry_id s" "tm_shutdown s' = tm_shutdown s"
    using r st by (auto simp: release_user_def p Let_def split: if_splits option.splits)
  moreover have sub: "q \<in># parts \<Longrightarrow> part_ok s q" for q by (auto intro: inv_part [OF inv])
  ultimately show ?thesis
  proof cases
    case busy
    have "user_ok s' parts v sv" if g: "hm_get (users s') v = Some sv" for v sv
    proof (cases "v = u")
      case True
      with g busy act st(2) n show ?thesis by (auto simp: hm.get_insert user_ok_def)
    next
      case False
      with g have g': "hm_get (users s) v = Some sv" by (simp add: busy hm.get_insert)
      show ?thesis by (rule user_ok_other [OF old [OF g']]) (use False in \<open>auto simp: p n busy\<close>)
    qed
    moreover have "deadline_ok s' cd" if "cd \<in> set (cleanup_deadlines s')" for cd
      using inv that none by (auto simp: traffic_inv_def deadline_ok_def busy hm.get_insert)
    moreover have "part_ok s' q" if "q \<in># parts" for q
      using sub [OF that] st by (auto simp: part_ok_def busy hm.get_insert n)
    ultimately show ?thesis using inv False by (auto simp: traffic_inv_def busy n hm.wf_insert)
  next
    case gone
    have "user_ok s' parts v sv" if g: "hm_get (users s') v = Some sv" for v sv
    proof -
      have v: "v \<noteq> u" "hm_get (users s) v = Some sv" using g by (auto simp: gone hm.get_remove wf split: if_splits)
      show ?thesis by (rule user_ok_other [OF old [OF v(2)]]) (use v(1) in \<open>auto simp: p n gone\<close>)
    qed
    moreover have "deadline_ok s' cd" if "cd \<in> set (cleanup_deadlines s')" for cd
      using inv that none by (auto simp: traffic_inv_def deadline_ok_def gone hm.get_remove)
    moreover have "part_ok s' q" if "q \<in># parts" for q
    proof -
      have "q \<noteq> (u, i)" using that gone(1) by (metis not_in_iff)
      then show ?thesis using sub [OF that] st False by (auto simp: part_ok_def gone hm.get_remove wf n prod_eq_iff)
    qed
    ultimately show ?thesis using inv False by (auto simp: traffic_inv_def gone n hm.wf_remove)
  next
    case (idle d)
    have "user_ok s' parts v sv" if g: "hm_get (users s') v = Some sv" for v sv
    proof (cases "v = u")
      case True
      with g idle act st(2) n show ?thesis by (auto simp: hm.get_insert user_ok_def set_insert_props)
    next
      case False
      with g have g': "hm_get (users s) v = Some sv" by (simp add: idle hm.get_insert)
      show ?thesis
        by (rule user_ok_other [OF old [OF g']]) (use False in \<open>auto simp: p n idle set_insert_props\<close>)
    qed
    moreover have "deadline_ok s' cd" if "cd \<in> set (cleanup_deadlines s')" for cd
      using inv that none by (auto simp: traffic_inv_def deadline_ok_def idle set_insert_props hm.get_insert)
    moreover have "part_ok s' q" if "q \<in># parts" for q
      using sub [OF that] st by (auto simp: part_ok_def idle hm.get_insert n)
    ultimately show ?thesis
      using inv False by (auto simp: traffic_inv_def idle n hm.wf_insert set_insert_props)
  qed
qed

lemma begin_session_inv:
  assumes inv: "traffic_inv s parts" and b: "begin_session source target s = (s', g)"
  shows "traffic_inv s' (guard_parts g + parts)"
proof (cases "tm_shutdown s")
  case True
  then have "users s = []" "cleanup_deadlines s = []" using inv by (auto simp: traffic_inv_def)
  moreover have s': "gd_live g = False" "users s' = users s" "cleanup_deadlines s' = cleanup_deadlines s"
    "next_entry_id s \<le> next_entry_id s'" "tm_shutdown s'"
    using b True by (auto simp: begin_session_def Let_def)
  moreover have "part_ok s' q" if "q \<in># parts" for q
    using inv_part [OF inv that] s'(4,5) by (simp add: part_ok_def)
  ultimately show ?thesis by (simp add: traffic_inv_def guard_parts_def hm_wf_def hm.get_empty)
next
  case False
  obtain s1 i ci where a: "acquire_user source s = (s1, i, ci)" by (metis prod_cases3)
  have s1: "traffic_inv s1 (add_mset (source, i) parts)" "\<not> tm_shutdown s1"
    using acquire_user_inv [OF inv False a] by auto
  show ?thesis
  proof (cases "source = target")
    case True
    with b a False s1 show ?thesis by (auto simp: begin_session_def guard_parts_def intro: traffic_inv_wake)
  next
    case d: False
    obtain s2 j cj where t: "acquire_user target s1 = (s2, j, cj)" by (metis prod_cases3)
    with acquire_user_inv [OF s1 t] b a False d show ?thesis
      by (auto simp: begin_session_def guard_parts_def add_mset_commute intro: traffic_inv_wake)
  qed
qed

lemma end_session_inv:
  assumes inv: "traffic_inv s (guard_parts g + parts)"
  shows "traffic_inv (end_session limit now g s) parts"
proof (cases "gd_live g")
  case True
  obtain s1 b1 where r1: "release_user limit now (gd_source g) s = (s1, b1)" by fastforce
  have p: "guard_parts g + parts = add_mset (gd_source g) ((case gd_target g of Some p \<Rightarrow> {#p#} | None \<Rightarrow> {#}) + parts)"
    using True by (simp add: guard_parts_def)
  have s1: "traffic_inv s1 ((case gd_target g of Some p \<Rightarrow> {#p#} | None \<Rightarrow> {#}) + parts)"
    using release_user_inv [OF inv [unfolded p] r1] by blast
  show ?thesis
  proof (cases "gd_target g")
    case None
    with True s1 r1 show ?thesis by (auto simp: end_session_def intro: traffic_inv_wake)
  next
    case (Some q)
    obtain s2 b2 where r2: "release_user limit now q s1 = (s2, b2)" by fastforce
    have "traffic_inv s2 parts" using release_user_inv [OF _ r2] s1 Some by simp
    with True r1 r2 Some show ?thesis by (auto simp: end_session_def intro: traffic_inv_wake)
  qed
qed (use inv in \<open>simp add: guard_parts_def end_session_def\<close>)

section \<open>Cleaning up\<close>

text \<open>One round of the loop: the first deadline is due, so its user is idle and goes.\<close>

lemma cleanup_step:
  assumes inv: "traffic_inv s parts" and c: "cleanup_deadlines s = cd # rest"
  shows "traffic_inv (drop_user (cd_user cd) (s\<lparr>cleanup_deadlines := rest\<rparr>)) parts"
    and "\<exists>st. hm_get (users s) (cd_user cd) = Some st \<and> active_sessions st = 0 \<and> idle_deadline st = Some (cd_deadline cd)"
proof -
  let ?s = "drop_user (cd_user cd) (s\<lparr>cleanup_deadlines := rest\<rparr>)"
  have wf: "hm_wf (users s)" using inv by (simp add: traffic_inv_def)
  obtain st where st: "hm_get (users s) (cd_user cd) = Some st" "idle_deadline st = Some (cd_deadline cd)"
    using inv c by (auto simp: traffic_inv_def deadline_ok_def)
  then have ok: "user_ok s parts (cd_user cd) st" using inv by (simp add: traffic_inv_def)
  then have z: "active_sessions st = 0" "count parts (cd_user cd, user_entry st) = 0"
    using st by (auto simp: user_ok_def)
  then show "\<exists>st. hm_get (users s) (cd_user cd) = Some st \<and> active_sessions st = 0 \<and> idle_deadline st = Some (cd_deadline cd)"
    using st by blast
  have sd: "\<not> tm_shutdown s" using inv c by (auto simp: traffic_inv_def)
  have once: "cd_user x \<noteq> cd_user cd" if "x \<in> set rest" for x
  proof
    assume "cd_user x = cd_user cd"
    moreover have "deadline_ok s x" using inv c that by (auto simp: traffic_inv_def)
    ultimately have "x = cd" using st by (auto simp: deadline_ok_def intro: cleanup_deadline.expand)
    with inv c that show False by (auto simp: traffic_inv_def)
  qed
  have "user_ok ?s parts v sv" if "hm_get (users ?s) v = Some sv" for v sv
  proof -
    have v: "v \<noteq> cd_user cd" "hm_get (users s) v = Some sv" using that by (auto simp: hm.get_remove wf split: if_splits)
    then have "user_ok s parts v sv" using inv by (simp add: traffic_inv_def)
    then show ?thesis by (rule user_ok_other) (use v(1) c in auto)
  qed
  moreover have "deadline_ok ?s x" if "x \<in> set rest" for x
    using inv c that once [OF that] wf by (auto simp: traffic_inv_def deadline_ok_def hm.get_remove)
  moreover have "part_ok ?s q" if q: "q \<in># parts" for q
  proof -
    have "q \<noteq> (cd_user cd, user_entry st)" using q z(2) by (metis not_in_iff)
    with inv_part [OF inv q] st sd show ?thesis by (auto simp: part_ok_def hm.get_remove wf prod_eq_iff)
  qed
  ultimately show "traffic_inv ?s parts" using inv c sd by (auto simp: traffic_inv_def hm.wf_remove)
qed

lemma cleanup_loop_spec:
  assumes "traffic_inv s parts"
  shows "let due = takeWhile (\<lambda>cd. cd_deadline cd \<le> now) (cleanup_deadlines s); s' = cleanup_loop n now s
         in traffic_inv s' parts \<and> tm_shutdown s' = tm_shutdown s \<and>
            cleanup_deadlines s' = drop (min n (length due)) (cleanup_deadlines s) \<and>
            (\<forall>u. hm_get (users s') u = (if u \<in> cd_user ` set (take n due) then None else hm_get (users s) u))"
  using assms
proof (induction n arbitrary: s)
  case (Suc n)
  have wf: "hm_wf (users s)" using Suc.prems by (simp add: traffic_inv_def)
  show ?case
  proof (cases "cleanup_deadlines s")
    case (Cons cd rest)
    show ?thesis
    proof (cases "cd_deadline cd \<le> now")
      case True
      let ?s = "drop_user (cd_user cd) (s\<lparr>cleanup_deadlines := rest\<rparr>)"
      have loop: "cleanup_loop (Suc n) now s = cleanup_loop n now ?s"
        using Cons True cleanup_step(2) [OF Suc.prems Cons] by auto
      have cd: "cleanup_deadlines ?s = rest" by simp
      have IH: "let due = takeWhile (\<lambda>cd. cd_deadline cd \<le> now) rest; s' = cleanup_loop n now ?s
        in traffic_inv s' parts \<and> tm_shutdown s' = tm_shutdown s \<and> cleanup_deadlines s' = drop (min n (length due)) rest \<and>
           (\<forall>u. hm_get (users s') u = (if u \<in> cd_user ` set (take n due) then None else hm_get (users ?s) u))"
        using Suc.IH [OF cleanup_step(1) [OF Suc.prems Cons]] by (simp add: Let_def)
      show ?thesis using IH True wf unfolding loop Cons by (auto simp: Let_def hm.get_remove)
    qed (use Suc.prems Cons in \<open>simp add: Let_def\<close>)
  qed (use Suc.prems in \<open>simp add: Let_def\<close>)
qed (simp add: Let_def)

section \<open>Runs\<close>

text \<open>Every operation of the manager, the sessions that are open, and the counters of the entries, which
  move on their own.\<close>

inductive traffic_run :: "traffic_manager \<Rightarrow> session_guard list \<Rightarrow> bool" where
  start: "traffic_run traffic_manager_new []"
| opened: "traffic_run s gs \<Longrightarrow> begin_session source target s = (s', g) \<Longrightarrow> traffic_run s' (g # gs)"
| closed: "traffic_run s gs \<Longrightarrow> g \<in> set gs \<Longrightarrow> traffic_run (end_session limit now g s) (remove1 g gs)"
| cleanup: "traffic_run s gs \<Longrightarrow> traffic_run (fst (cleanup_action now s)) gs"
| retain: "traffic_run s gs \<Longrightarrow> traffic_run (set_retention r s) gs"
| limit: "traffic_run s gs \<Longrightarrow> traffic_run (set_user_limit u c s) gs"
| snapshot: "traffic_run s gs \<Longrightarrow> traffic_run (fst (traffic_read consume u s)) gs"
| traffic: "traffic_run s gs \<Longrightarrow> (\<And>i. en_limit (f i) = en_limit (entries s i)) \<Longrightarrow> traffic_run (s\<lparr>entries := f\<rparr>) gs"
| stop: "traffic_run s gs \<Longrightarrow> traffic_run (shutdown s) gs"

text \<open>What the service relies on: a ledger of open sessions, to which it adds and from which it takes.\<close>

locale session_ledger =
  fixes open_session :: "p2p_id \<Rightarrow> p2p_id \<Rightarrow> 's \<Rightarrow> 's \<times> 'g"
    and close_session :: "nat \<Rightarrow> instant \<Rightarrow> 'g \<Rightarrow> 's \<Rightarrow> 's"
    and ledger :: "'s \<Rightarrow> 'g list \<Rightarrow> bool"
  assumes opens: "ledger s gs \<Longrightarrow> open_session a b s = (s', g) \<Longrightarrow> ledger s' (g # gs)"
    and closes: "ledger s gs \<Longrightarrow> g \<in> set gs \<Longrightarrow> ledger (close_session l n g s) (remove1 g gs)"
begin

lemma open_then_close:
  assumes "ledger s gs" and "open_session a b s = (s', g)"
  shows "ledger (close_session l n g s') gs"
  using closes [OF opens [OF assms], of g] by simp

lemma close_all_sessions: "ledger s gs \<Longrightarrow> ledger (fold (close_session l n) gs s) []"
proof (induction gs arbitrary: s)
  case (Cons g gs)
  from closes [OF Cons.prems, of g l n] Cons.IH show ?case by simp
qed simp

end

interpretation traffic: session_ledger begin_session end_session traffic_run
  by unfold_locales (auto intro: traffic_run.opened traffic_run.closed)

definition session_parts :: "session_guard list \<Rightarrow> (p2p_id \<times> nat) multiset" where
  "session_parts gs = sum_list (map guard_parts gs)"

lemma session_parts_remove: "g \<in> set gs \<Longrightarrow> session_parts gs = guard_parts g + session_parts (remove1 g gs)"
  unfolding session_parts_def by (rule sum_list_map_remove1)

lemma traffic_run_inv: "traffic_run s gs \<Longrightarrow> traffic_inv s (session_parts gs)"
proof (induction rule: traffic_run.induct)
  case start
  show ?case by (simp add: traffic_inv_def traffic_manager_new_def session_parts_def hm_wf_def hm.get_empty)
next
  case (opened s gs source target s' g)
  from begin_session_inv [OF opened.IH opened.hyps(2)] show ?case by (simp add: session_parts_def)
next
  case (closed s gs g limit now)
  then show ?case using session_parts_remove [OF closed.hyps(2)] by (auto intro: end_session_inv)
next
  case (cleanup s gs now)
  then show ?case using cleanup_loop_spec [OF cleanup.IH] by (auto simp: cleanup_action_def Let_def)
next
  case (retain s gs r)
  show ?case by (rule traffic_inv_same [OF retain.IH]) (simp_all add: set_retention_def)
next
  case (limit s gs u c)
  show ?case by (rule traffic_inv_same [OF limit.IH]) (auto simp: set_user_limit_def Let_def split: option.splits)
next
  case (snapshot s gs consume u)
  show ?case by (rule traffic_inv_same [OF snapshot.IH]) (auto simp: traffic_read_def Let_def split: option.splits prod.splits)
next
  case (traffic s gs f)
  show ?case by (rule traffic_inv_same [OF traffic.IH]) simp_all
next
  case (stop s gs)
  have "snd p < next_entry_id s" if "p \<in># session_parts gs" for p
    using inv_part [OF stop.IH that] by (simp add: part_ok_def)
  then show ?case by (auto simp: traffic_inv_def shutdown_def cleanup_wake_def hm_wf_def hm.get_empty part_ok_def)
qed

text \<open>C17: sessions are counted: in every run the number of active sessions of a user
  is the number of its open sessions, as source or as target; a user with an open session keeps its
  entry until the manager is shut down; and a user without one is due for removal at its deadline.\<close>

theorem traffic_sessions_counted:
  assumes "traffic_run s gs"
  shows "(\<forall>u st. hm_get (users s) u = Some st \<longrightarrow>
            active_sessions st = count (session_parts gs) (u, user_entry st) \<and>
            (active_sessions st = 0 \<longleftrightarrow> idle_deadline st \<noteq> None)) \<and>
         (\<forall>u i. (u, i) \<in># session_parts gs \<and> \<not> tm_shutdown s \<longrightarrow>
            (\<exists>st. hm_get (users s) u = Some st \<and> user_entry st = i \<and> active_sessions st > 0))"
proof -
  have inv: "traffic_inv s (session_parts gs)" using assms by (rule traffic_run_inv)
  have ok: "user_ok s (session_parts gs) u st" if "hm_get (users s) u = Some st" for u st
    using inv that by (simp add: traffic_inv_def)
  have "\<exists>st. hm_get (users s) u = Some st \<and> user_entry st = i \<and> active_sessions st > 0"
    if p: "(u, i) \<in># session_parts gs" "\<not> tm_shutdown s" for u i
  proof -
    obtain st where st: "hm_get (users s) u = Some st" "user_entry st = i"
      using inv_part [OF inv p(1)] p(2) by (auto simp: part_ok_def)
    have "count (session_parts gs) (u, i) \<noteq> 0" using p(1) by (metis not_in_iff)
    with ok [OF st(1)] st show ?thesis by (auto simp: user_ok_def)
  qed
  moreover have "active_sessions st = count (session_parts gs) (u, user_entry st) \<and>
      (active_sessions st = 0 \<longleftrightarrow> idle_deadline st \<noteq> None)" if "hm_get (users s) u = Some st" for u st
    using ok [OF that] by (cases "idle_deadline st") (simp_all add: user_ok_def)
  ultimately show ?thesis by blast
qed

lemma due_filter: "sorted xs \<Longrightarrow> takeWhile (\<lambda>cd. cd_deadline cd \<le> now) xs = filter (\<lambda>cd. cd_deadline cd \<le> now) xs"
proof (induction xs)
  case (Cons x xs)
  have "\<forall>y\<in>set xs. \<not> cd_deadline y \<le> now" if "\<not> cd_deadline x \<le> now"
    using Cons.prems that by (fastforce simp: less_eq_cleanup_deadline_def)
  with Cons show ?case by (auto simp: filter_empty_conv [THEN iffD2])
qed simp

text \<open>a cleanup round is exact: it removes the users of the first 64 deadlines that
  have passed, in the order of deadline and id, none of which has a session, and leaves every other user
  alone; it asks to be run again at once exactly when more are due, and otherwise waits for the next
  deadline, an hour at most.\<close>

theorem traffic_cleanup_exact:
  assumes "traffic_run s gs" and "\<not> tm_shutdown s" and "cleanup_action now s = (s', r)"
    and "due = filter (\<lambda>cd. cd_deadline cd \<le> now) (cleanup_deadlines s)"
  shows "(\<forall>u. hm_get (users s') u = (if u \<in> cd_user ` set (take 64 due) then None else hm_get (users s) u)) \<and>
         (\<forall>cd\<in>set (take 64 due). \<exists>st. hm_get (users s) (cd_user cd) = Some st \<and> active_sessions st = 0) \<and>
         (r = CleanupYield \<longleftrightarrow> length due > 64) \<and>
         (case r of WaitForDeadline w \<Rightarrow> 0 < w \<and> w \<le> from_secs 3600 | _ \<Rightarrow> r = CleanupYield \<or> cleanup_deadlines s' = [])"
proof -
  have inv: "traffic_inv s (session_parts gs)" using assms(1) by (rule traffic_run_inv)
  have sorted: "sorted (cleanup_deadlines s)" using inv by (simp add: traffic_inv_def)
  have due: "due = takeWhile (\<lambda>cd. cd_deadline cd \<le> now) (cleanup_deadlines s)" by (simp add: assms(4) due_filter [OF sorted])
  have s': "s' = cleanup_loop 64 now s" and r: "r = (case cleanup_deadlines s' of [] \<Rightarrow> WaitForNotification
      | cd # _ \<Rightarrow> if cd_deadline cd \<le> now then CleanupYield
                  else WaitForDeadline (min (cd_deadline cd - now) PN_TRAFFIC_CLEANUP_MAX_WAIT))"
    using assms(2,3) by (auto simp: cleanup_action_def PN_TRAFFIC_CLEANUP_BATCH_SIZE_def Let_def)
  have L: "cleanup_deadlines s' = drop (min 64 (length due)) (cleanup_deadlines s)"
    "\<forall>u. hm_get (users s') u = (if u \<in> cd_user ` set (take 64 due) then None else hm_get (users s) u)"
    using cleanup_loop_spec [OF inv, where n = 64 and now = now] by (simp_all add: Let_def s' due)
  have split: "cleanup_deadlines s = due @ dropWhile (\<lambda>cd. cd_deadline cd \<le> now) (cleanup_deadlines s)"
    by (simp add: due)
  have idle: "\<exists>st. hm_get (users s) (cd_user cd) = Some st \<and> active_sessions st = 0" if "cd \<in> set (take 64 due)" for cd
  proof -
    have "cd \<in> set (cleanup_deadlines s)" using that assms(4) by (auto dest: in_set_takeD)
    then obtain st where "hm_get (users s) (cd_user cd) = Some st" "idle_deadline st = Some (cd_deadline cd)"
      using inv by (auto simp: traffic_inv_def deadline_ok_def)
    moreover have "user_ok s (session_parts gs) (cd_user cd) st" using calculation inv by (simp add: traffic_inv_def)
    ultimately show ?thesis by (simp add: user_ok_def)
  qed
  have out: "(r = CleanupYield \<longleftrightarrow> length due > 64) \<and>
      (case r of WaitForDeadline w \<Rightarrow> 0 < w \<and> w \<le> from_secs 3600 | _ \<Rightarrow> r = CleanupYield \<or> cleanup_deadlines s' = [])"
  proof (cases "length due > 64")
    case True
    then obtain cd rest where cd: "drop 64 due = cd # rest" by (cases "drop 64 due") auto
    then have "cd \<in> set due" by (metis in_set_dropD list.set_intros(1))
    then have "cd_deadline cd \<le> now" by (simp add: assms(4))
    moreover have "cleanup_deadlines s' = cd # rest @ dropWhile (\<lambda>cd. cd_deadline cd \<le> now) (cleanup_deadlines s)"
    proof -
      have "cleanup_deadlines s' = drop 64 (due @ dropWhile (\<lambda>cd. cd_deadline cd \<le> now) (cleanup_deadlines s))"
        using L(1) True split by simp
      with True cd show ?thesis by simp
    qed
    ultimately show ?thesis using True by (simp add: r)
  next
    case False
    then have "cleanup_deadlines s' = dropWhile (\<lambda>cd. cd_deadline cd \<le> now) (cleanup_deadlines s)"
    proof -
      have "cleanup_deadlines s' = drop (length due) (due @ dropWhile (\<lambda>cd. cd_deadline cd \<le> now) (cleanup_deadlines s))"
        using L(1) False split by simp
      then show ?thesis by simp
    qed
    then have later: "\<not> cd_deadline cd \<le> now" if "cleanup_deadlines s' = cd # rest" for cd rest
      using that by (metis (mono_tags, lifting) dropWhile_eq_Cons_conv)
    show ?thesis
    proof (cases "cleanup_deadlines s'")
      case Nil
      with False show ?thesis by (simp add: r)
    next
      case (Cons cd rest)
      then have "r = WaitForDeadline (min (cd_deadline cd - now) (from_secs 3600))" "now < cd_deadline cd"
        using later [OF Cons] by (simp_all add: r PN_TRAFFIC_CLEANUP_MAX_WAIT_def)
      moreover have "0 < from_secs 3600" by (simp add: from_secs_def)
      ultimately show ?thesis using False by simp
    qed
  qed
  show ?thesis using L(2) idle out by blast
qed

section \<open>Snapshots\<close>

text \<open>Snapshots of one entry, each at the totals the counters have then.\<close>

fun consumed :: "traffic_entry \<Rightarrow> (u64 \<times> u64) list \<Rightarrow> traffic_snapshot list" where
  "consumed e [] = []"
| "consumed e ((tx, rx) # ts) =
     (let (e', snap) = read_snapshot True (e\<lparr>en_tx_bytes := tx, en_rx_bytes := rx\<rparr>) in snap # consumed e' ts)"

lemma consumed_tx:
  "sorted (base_tx_bytes e # map fst ts) \<Longrightarrow>
   sum_list (map (\<lambda>sn. unat (sn_tx_delta_bytes sn)) (consumed e ts)) =
     unat (last (base_tx_bytes e # map fst ts)) - unat (base_tx_bytes e)"
proof (induction e ts rule: consumed.induct)
  case (2 e tx rx ts)
  let ?e = "fst (read_snapshot True (e\<lparr>en_tx_bytes := tx, en_rx_bytes := rx\<rparr>))"
  have b: "base_tx_bytes ?e = tx" by (simp add: read_snapshot_def)
  have IH: "sum_list (map (\<lambda>sn. unat (sn_tx_delta_bytes sn)) (consumed ?e ts)) = unat (last (tx # map fst ts)) - unat tx"
    using "2.IH" [OF refl, of ?e] "2.prems" b by (simp add: read_snapshot_def)
  have "last (tx # map fst ts) \<in> set (tx # map fst ts)" by (rule last_in_set) simp
  then have "tx \<le> last (tx # map fst ts)" using "2.prems" by auto
  moreover have "base_tx_bytes e \<le> tx" using "2.prems" by simp
  ultimately have "unat tx \<le> unat (last (tx # map fst ts))" "unat (base_tx_bytes e) \<le> unat tx"
    by (simp_all add: word_le_nat_alt)
  with IH show ?case by (simp add: Let_def read_snapshot_def unat_sat_sub split: prod.splits)
qed simp

text \<open>no byte is reported twice or lost: while the counter of an entry grows, the
  differences reported by successive snapshots add up to what was sent since the first; a peek reports
  the same difference and changes nothing.\<close>

theorem snapshot_deltas_add_up:
  assumes "sorted (base_tx_bytes e # map fst ts)"
  shows "sum_list (map (\<lambda>sn. unat (sn_tx_delta_bytes sn)) (consumed e ts)) =
           unat (last (base_tx_bytes e # map fst ts)) - unat (base_tx_bytes e) \<and>
         fst (traffic_read False u s) = s \<and> peek_snapshot_of_user u s = snd (snapshot_of_user u s)"
  using consumed_tx [OF assms]
  by (auto simp: traffic_read_def read_snapshot_def peek_snapshot_of_user_def snapshot_of_user_def fun_upd_idem
      split: option.splits)

theorem snapshot_deltas_add_up_witness:
  "sum_list (map (\<lambda>sn. unat (sn_tx_delta_bytes sn)) (consumed traffic_entry_new [(5, 0), (9, 0)])) = 9"
  using snapshot_deltas_add_up [of traffic_entry_new "[(5, 0), (9, 0)]" zero_id traffic_manager_new]
  by (simp add: traffic_entry_new_def)

lemma filter_after:
  fixes xs :: "'a::linorder list"
  assumes "sorted_wrt (<) xs" and "filter P xs = y # ys" and "\<And>a b. P a \<Longrightarrow> a \<le> b \<Longrightarrow> P b"
  shows "filter (\<lambda>x. y < x) xs = ys"
  using assms(1,2)
proof (induction xs)
  case (Cons x xs)
  show ?case
  proof (cases "P x")
    case True
    have gt: "\<forall>z\<in>set xs. x < z" using Cons.prems by simp
    then have "filter P xs = xs" "filter (\<lambda>z. x < z) xs = xs"
      using assms(3) [OF True] by (auto intro!: filter_True less_imp_le)
    with True Cons.prems show ?thesis by simp
  next
    case False
    then have "filter P xs = y # ys" using Cons.prems by simp
    then have "y \<in> set xs" by (metis filter_is_subset list.set_intros(1) subsetD)
    then have "x < y" using Cons.prems by simp
    with False Cons show ?thesis by auto
  qed
qed simp

text \<open>iterating over the users reports every user once, in the order of the ids, from
  the one after the given id on.\<close>

theorem snapshot_iter_ordered:
  assumes "hm_wf (users s)"
  shows "map fst (snd (snapshot_iter n after s)) =
         take n (filter (\<lambda>u. case after of Some a \<Rightarrow> a < u | None \<Rightarrow> True) (sort (map fst (users s))))"
  using assms
proof (induction n after s rule: snapshot_iter.induct)
  case (2 n after s)
  let ?P = "\<lambda>u. case after of Some a \<Rightarrow> a < u | None \<Rightarrow> True" and ?keys = "sort (map fst (users s))"
  have strict: "sorted_wrt (<) ?keys" using "2.prems" by (simp add: hm_wf_def strict_sorted_iff)
  show ?case
  proof (cases "filter ?P ?keys")
    case Nil
    then show ?thesis by (simp add: snapshot_iter_next_def next_entry_def)
  next
    case (Cons u us)
    then have "u \<in> set ?keys" by (metis filter_is_subset list.set_intros(1) subsetD)
    then have "u \<in> fst ` set (users s)" by simp
    then obtain st where st: "hm_get (users s) u = Some st"
      by (metis hm_get_def map_of_eq_None_iff not_None_eq)
    let ?r = "read_snapshot True (entries s (user_entry st))"
    let ?s1 = "s\<lparr>entries := (entries s)(user_entry st := fst ?r)\<rparr>"
    have nx: "snapshot_iter_next after s = (?s1, Some u, Some (u, snd ?r))"
      using Cons st by (simp add: snapshot_iter_next_def next_entry_def case_prod_beta Let_def)
    have rest: "filter (\<lambda>v. u < v) ?keys = us"
      by (rule filter_after [OF strict Cons]) (auto split: option.splits)
    have "map fst (snd (snapshot_iter n (Some u) ?s1)) = take n us"
      using "2.IH" [OF nx [symmetric] refl refl] "2.prems" rest by simp
    then show ?thesis using Cons by (simp add: nx case_prod_beta Let_def)
  qed
qed simp

section \<open>Limits\<close>

definition limits_ok :: "traffic_manager \<Rightarrow> bool" where
  "limits_ok s \<longleftrightarrow>
     (\<forall>u st. hm_get (users s) u = Some st \<longrightarrow>
        en_limit (entries s (user_entry st)) = (case hm_get (limit_configs s) u of Some c \<Rightarrow> c | None \<Rightarrow> no_limit)) \<and>
     (\<forall>u v st sv. hm_get (users s) u = Some st \<longrightarrow> hm_get (users s) v = Some sv \<longrightarrow> user_entry st = user_entry sv \<longrightarrow> u = v)"

lemma limits_okD:
  "limits_ok s \<Longrightarrow> hm_get (users s) u = Some st \<Longrightarrow>
   en_limit (entries s (user_entry st)) = (case hm_get (limit_configs s) u of Some c \<Rightarrow> c | None \<Rightarrow> no_limit)"
  by (simp add: limits_ok_def)

lemma limits_fewer:
  assumes "limits_ok s" and "entries s' = entries s" and "limit_configs s' = limit_configs s"
    and "\<And>u st. hm_get (users s') u = Some st \<Longrightarrow> \<exists>st0. hm_get (users s) u = Some st0 \<and> user_entry st0 = user_entry st"
  shows "limits_ok s'"
  unfolding limits_ok_def
proof (intro conjI allI impI)
  fix u st assume "hm_get (users s') u = Some st"
  then obtain st0 where st0: "hm_get (users s) u = Some st0" "user_entry st0 = user_entry st" using assms(4) by blast
  show "en_limit (entries s' (user_entry st)) = (case hm_get (limit_configs s') u of Some c \<Rightarrow> c | None \<Rightarrow> no_limit)"
    using limits_okD [OF assms(1) st0(1)] by (simp add: st0(2) assms(2,3))
next
  fix u v st sv assume g: "hm_get (users s') u = Some st" "hm_get (users s') v = Some sv" "user_entry st = user_entry sv"
  obtain st0 sv0 where "hm_get (users s) u = Some st0" "user_entry st0 = user_entry st"
    "hm_get (users s) v = Some sv0" "user_entry sv0 = user_entry sv" using assms(4) g by blast
  then show "u = v" using assms(1) g(3) by (simp add: limits_ok_def)
qed

lemma limits_entries:
  assumes "limits_ok s" and "users s' = users s" and "limit_configs s' = limit_configs s"
    and "\<And>i. en_limit (entries s' i) = en_limit (entries s i)"
  shows "limits_ok s'"
  using assms by (simp add: limits_ok_def)

lemma acquire_limits:
  assumes "limits_ok s" and inv: "traffic_inv s parts" and a: "acquire_user u s = (s', i, b)"
  shows "limits_ok s'"
proof (cases "hm_get (users s) u")
  case (Some st)
  show ?thesis
    by (rule limits_fewer [OF assms(1)])
      (use a Some in \<open>auto simp: acquire_user_def Let_def hm.get_insert put_user_def split: option.splits if_splits\<close>)
next
  case None
  have id: "user_entry sv \<noteq> next_entry_id s" if "hm_get (users s) v = Some sv" for v sv
    using inv_user [OF inv that] by (simp add: user_ok_def)
  have s': "users s' = hm_insert u \<lparr>user_entry = next_entry_id s, active_sessions = 1, idle_deadline = None\<rparr> (users s)"
    "limit_configs s' = limit_configs s"
    "entries s' = (entries s)(next_entry_id s := (case hm_get (limit_configs s) u of
        Some c \<Rightarrow> entry_set_limit c traffic_entry_new | None \<Rightarrow> traffic_entry_new))"
    using a None by (auto simp: acquire_user_def Let_def put_user_def)
  have new: "en_limit (entries s' (next_entry_id s)) = (case hm_get (limit_configs s') u of Some c \<Rightarrow> c | None \<Rightarrow> no_limit)"
    by (simp add: s' entry_set_limit_def traffic_entry_new_def split: option.splits)
  have old: "en_limit (entries s' (user_entry st)) = (case hm_get (limit_configs s') v of Some c \<Rightarrow> c | None \<Rightarrow> no_limit)"
    if "hm_get (users s) v = Some st" for v st
    using assms(1) that id [OF that] by (simp add: limits_ok_def s')
  show ?thesis
    unfolding limits_ok_def
  proof (intro conjI allI impI)
    fix v st assume "hm_get (users s') v = Some st"
    then show "en_limit (entries s' (user_entry st)) = (case hm_get (limit_configs s') v of Some c \<Rightarrow> c | None \<Rightarrow> no_limit)"
      using new old by (auto simp: s'(1) hm.get_insert split: if_splits)
  next
    fix v w st sw assume "hm_get (users s') v = Some st" "hm_get (users s') w = Some sw" "user_entry st = user_entry sw"
    then show "v = w"
      using assms(1) unfolding limits_ok_def s'(1) by (auto simp: hm.get_insert dest: id split: if_splits)
  qed
qed

lemma release_fields:
  "entries (fst (release_user limit now p s)) = entries s \<and> limit_configs (fst (release_user limit now p s)) = limit_configs s \<and>
   (hm_wf (users s) \<longrightarrow> hm_get (users (fst (release_user limit now p s))) u = Some st \<longrightarrow>
      (\<exists>st0. hm_get (users s) u = Some st0 \<and> user_entry st0 = user_entry st))"
  by (cases p) (auto simp: release_user_def Let_def put_user_def drop_user_def hm.get_insert hm.get_remove hm.wf_insert
      split: option.splits if_splits)

lemma release_limits:
  assumes "limits_ok s" and "hm_wf (users s)" shows "limits_ok (fst (release_user limit now p s))"
proof (rule limits_fewer [OF assms(1)])
  fix u st assume "hm_get (users (fst (release_user limit now p s))) u = Some st"
  with assms(2) show "\<exists>st0. hm_get (users s) u = Some st0 \<and> user_entry st0 = user_entry st"
    using release_fields [of limit now p s u st] by simp
qed (simp_all add: release_fields)

lemma run_wf: "traffic_run s gs \<Longrightarrow> hm_wf (users s)"
  using traffic_run_inv by (auto simp: traffic_inv_def)

lemma cleanup_loop_fields:
  "entries (cleanup_loop n now s) = entries s \<and> limit_configs (cleanup_loop n now s) = limit_configs s"
  by (induction n arbitrary: s) (auto simp: Let_def drop_user_def split: list.splits)

lemma traffic_run_limits: "traffic_run s gs \<Longrightarrow> limits_ok s"
proof (induction rule: traffic_run.induct)
  case start
  show ?case by (simp add: limits_ok_def traffic_manager_new_def hm.get_empty)
next
  case (opened s gs source target s' g)
  show ?case
  proof (cases "tm_shutdown s")
    case True
    then have "users s = []" using traffic_run_inv [OF opened.hyps(1)] by (simp add: traffic_inv_def)
    with opened.hyps(2) True show ?thesis by (auto simp: begin_session_def Let_def limits_ok_def hm.get_empty)
  next
    case False
    have inv: "traffic_inv s (session_parts gs)" by (rule traffic_run_inv [OF opened.hyps(1)])
    obtain s1 i ci where a: "acquire_user source s = (s1, i, ci)" by (metis prod_cases3)
    have s1: "limits_ok s1" by (rule acquire_limits [OF opened.IH inv a])
    obtain s2 j cj where t: "acquire_user target s1 = (s2, j, cj)" by (metis prod_cases3)
    have s2: "limits_ok s2" using acquire_limits [OF s1 _ t] acquire_user_inv [OF inv False a] by blast
    have w: "limits_ok (cleanup_wake c u)" if "limits_ok u" for c u
      by (rule limits_entries [OF that]) (simp_all add: cleanup_wake_def)
    show ?thesis using opened.hyps(2) False a t w [OF s1] w [OF s2]
      by (auto simp: begin_session_def split: if_splits)
  qed
next
  case (closed s gs g limit now)
  have w: "limits_ok (cleanup_wake c u)" if "limits_ok u" for c u
    by (rule limits_entries [OF that]) (simp_all add: cleanup_wake_def)
  let ?s1 = "fst (release_user limit now (gd_source g) s)"
  have s1: "limits_ok ?s1" by (rule release_limits [OF closed.IH run_wf [OF closed.hyps(1)]])
  have "hm_wf (users ?s1)"
    using run_wf [OF closed.hyps(1)]
    by (cases "gd_source g") (auto simp: release_user_def Let_def hm.wf_insert hm.wf_remove split: option.splits if_splits)
  then have "limits_ok (fst (release_user limit now p ?s1))" for p using release_limits [OF s1] by blast
  with s1 closed.IH w show ?case
    by (auto simp: end_session_def case_prod_beta Let_def split: option.splits)
next
  case (cleanup s gs now)
  show ?case
  proof (rule limits_fewer [OF cleanup.IH])
    fix u st assume "hm_get (users (fst (cleanup_action now s))) u = Some st"
    then show "\<exists>st0. hm_get (users s) u = Some st0 \<and> user_entry st0 = user_entry st"
      using cleanup_loop_spec [OF traffic_run_inv [OF cleanup.hyps], where n = PN_TRAFFIC_CLEANUP_BATCH_SIZE and now = now]
      by (auto simp: cleanup_action_def Let_def split: if_splits)
  qed (simp_all add: cleanup_action_def Let_def cleanup_loop_fields)
next
  case (retain s gs r)
  show ?case by (rule limits_entries [OF retain.IH]) (simp_all add: set_retention_def)
next
  case (limit s gs u c)
  have u: "user_entry st = user_entry sv \<Longrightarrow> v = u" if "hm_get (users s) u = Some st" "hm_get (users s) v = Some sv" for v st sv
    using limit.IH that unfolding limits_ok_def by blast
  have old: "en_limit (entries s (user_entry st)) = (case hm_get (limit_configs s) v of Some c \<Rightarrow> c | None \<Rightarrow> no_limit)"
    if "hm_get (users s) v = Some st" for v st using limit.IH that by (simp add: limits_ok_def)
  show ?case
  proof (cases "tm_shutdown s")
    case False
    let ?s = "set_user_limit u c s"
    have s': "users ?s = users s" "limit_configs ?s = hm_insert u c (limit_configs s)"
      "entries ?s = (case hm_get (users s) u of
         Some st \<Rightarrow> (entries s)(user_entry st := entry_set_limit c (entries s (user_entry st))) | None \<Rightarrow> entries s)"
      using False by (auto simp: set_user_limit_def Let_def split: option.splits)
    have "en_limit (entries ?s (user_entry st)) = (case hm_get (limit_configs ?s) v of Some c \<Rightarrow> c | None \<Rightarrow> no_limit)"
      if g: "hm_get (users s) v = Some st" for v st
    proof (cases "v = u")
      case True
      with g show ?thesis by (simp add: s' hm.get_insert entry_set_limit_def)
    next
      case False
      with old [OF g] u [OF _ g] show ?thesis by (auto simp: s' hm.get_insert split: option.splits)
    qed
    then show ?thesis using limit.IH unfolding limits_ok_def s'(1) by blast
  qed (use limit.IH in \<open>simp add: set_user_limit_def\<close>)
next
  case (snapshot s gs consume u)
  show ?case
    by (rule limits_entries [OF snapshot.IH])
      (auto simp: traffic_read_def read_snapshot_def Let_def split: option.splits)
next
  case (traffic s gs f)
  show ?case by (rule limits_entries [OF traffic.IH]) (simp_all add: traffic.hyps)
next
  case (stop s gs)
  show ?case by (simp add: limits_ok_def shutdown_def cleanup_wake_def hm.get_empty)
qed

text \<open>the configured limit is the one in force: in every run the entry of a user has
  the limit that was set for this user last, also when the entry is made or found later, and no limit if
  none was set.\<close>

theorem traffic_limits_hold:
  assumes "traffic_run s gs" and "hm_get (users s) u = Some st"
  shows "en_limit (entries s (user_entry st)) = (case hm_get (limit_configs s) u of Some c \<Rightarrow> c | None \<Rightarrow> no_limit)"
  by (rule limits_okD [OF traffic_run_limits [OF assms(1)] assms(2)])

section \<open>Samples\<close>

definition sample_limit :: traffic_limit_config where
  "sample_limit = no_limit\<lparr>tx_rate := Some 1000\<rparr>"

definition sample_session :: "traffic_manager \<times> session_guard" where
  "sample_session = begin_session (P2pId [1]) (P2pId [2])
     (set_user_limit (P2pId [1]) sample_limit (set_retention 10 traffic_manager_new))"

definition sample_idle :: traffic_manager where
  "sample_idle = end_session 100 5 (snd sample_session) (fst sample_session)"

lemma sample_session_run: "traffic_run (fst sample_session) [snd sample_session]"
  unfolding sample_session_def
  by (rule traffic_run.opened [OF traffic_run.limit [OF traffic_run.retain [OF traffic_run.start]] prod.collapse [symmetric]])

lemma sample_idle_run: "traffic_run sample_idle []"
  using traffic_run.closed [OF sample_session_run, of "snd sample_session" 100 5] by (simp add: sample_idle_def)

lemmas traffic_sample_defs = sample_session_def sample_idle_def begin_session_def acquire_user_def set_user_limit_def
  set_retention_def traffic_manager_new_def put_user_def drop_user_def end_session_def release_user_def retention_deadline_def
  cleanup_wake_def set_insert_def hm_get_def hm_insert_def hm_remove_def PN_TRAFFIC_RETENTION_MAX_def from_secs_def

lemma sample_session_users:
  "hm_get (users (fst sample_session)) (P2pId [1]) = Some \<lparr>user_entry = 0, active_sessions = 1, idle_deadline = None\<rparr>"
  "session_parts [snd sample_session] = {#(P2pId [1], 0), (P2pId [2], 1)#}" "\<not> tm_shutdown (fst sample_session)"
  by (simp_all add: traffic_sample_defs session_parts_def guard_parts_def Let_def)

lemma sample_idle_deadlines:
  "cleanup_deadlines sample_idle = [CleanupDeadline 15 (P2pId [1]), CleanupDeadline 15 (P2pId [2])]"
  "\<not> tm_shutdown sample_idle"
  by (simp_all add: traffic_sample_defs less_eq_cleanup_deadline_def less_eq_p2p_id_def Let_def)

theorem traffic_sessions_counted_witness:
  "\<exists>st. hm_get (users (fst sample_session)) (P2pId [2]) = Some st \<and> user_entry st = 1 \<and> active_sessions st > 0"
  using traffic_sessions_counted [OF sample_session_run] sample_session_users by simp

theorem traffic_cleanup_exact_witness:
  "hm_get (users (fst (cleanup_action 20 sample_idle))) (P2pId [1]) = None"
  using traffic_cleanup_exact [OF sample_idle_run sample_idle_deadlines(2) prod.collapse [symmetric] refl, of 20]
  by (simp add: sample_idle_deadlines)

theorem snapshot_iter_ordered_witness:
  "map fst (snd (snapshot_iter 5 None (fst sample_session))) = [P2pId [1], P2pId [2]]"
proof -
  have "hm_wf (users (fst sample_session))" by (rule run_wf [OF sample_session_run])
  moreover have "map fst (users (fst sample_session)) = [P2pId [1], P2pId [2]]"
    by (simp add: traffic_sample_defs Let_def)
  ultimately show ?thesis
    using snapshot_iter_ordered [of "fst sample_session" 5 None] by (simp add: less_eq_p2p_id_def)
qed

theorem traffic_limits_hold_witness: "tx_rate (en_limit (entries (fst sample_session) 0)) = Some 1000"
  using traffic_limits_hold [OF sample_session_run sample_session_users(1)]
  by (simp add: traffic_sample_defs sample_limit_def no_limit_def Let_def)

end
