(* ===== verification/PnService.thy ===== *)
theory PnService
  imports PnTraffic
begin

text \<open>
  \<open>PnService\<close> and the protocol of the proxy node (\<open>pn/service/pn_server.rs\<close>, \<open>pn/protocol.rs\<close>): a client
  asks to be connected to a target, the node validates the request, opens a stream to the target, passes
  the request on and, if the target accepts, copies bytes between the two until one side ends.

  The validator, the stream to the target and the target's answer, both with their timeouts, are
  parameters. A request is split where the code waits: it is validated in one state, and the target's
  answer arrives in another. Copying is the time between the opening and the end of a bridge.
\<close>

section \<open>Definitions\<close>

subsection \<open>Protocol\<close>

datatype pn_channel_kind = PnStream | PnDatagram

fun pn_channel_kind_code :: "pn_channel_kind \<Rightarrow> nat" where
  "pn_channel_kind_code PnStream = 1"
| "pn_channel_kind_code PnDatagram = 2"

record proxy_open_req =
  pr_tunnel_id :: tunnel_id
  pr_from :: p2p_id
  pr_to :: p2p_id
  pr_kind :: pn_channel_kind
  pr_purpose :: tunnel_purpose

record proxy_open_resp =
  rs_tunnel_id :: tunnel_id
  rs_result :: u8

record proxy_control_open_req =
  pc_tunnel_id :: tunnel_id
  pc_from :: p2p_id
  pc_to :: p2p_id

definition result_from_error :: "p2p_error_code \<Rightarrow> tunnel_command_result" where
  "result_from_error e =
     (if e = PortNotListen then ResPortNotListen
      else if e = Timeout then ResTimeout
      else if e = Interrupted \<or> e = NotFound then ResInterrupted
      else if e = InvalidParam \<or> e = PermissionDenied \<or> e = Reject then ResInvalidParam
      else if e = InvalidData then ResProtocolError
      else ResInternalError)"

subsection \<open>Validators\<close>

datatype validate_result = ValidateAccept | ValidateReject

record pn_validate_context =
  vc_from :: p2p_id
  vc_to :: p2p_id
  vc_tunnel_id :: tunnel_id
  vc_kind :: pn_channel_kind
  vc_purpose :: tunnel_purpose
  vc_is_control :: bool

type_synonym pn_validator = "pn_validate_context \<Rightarrow> validate_result p2p_result"

definition allow_all_pn_validator :: pn_validator where
  "allow_all_pn_validator c = Inr ValidateAccept"

definition reject_all_pn_validator :: pn_validator where
  "reject_all_pn_validator c = Inr ValidateReject"

definition assigned_target_validator :: "(p2p_id \<Rightarrow> bool p2p_result) \<Rightarrow> pn_validator" where
  "assigned_target_validator policy c =
     (case policy (vc_to c) of
        Inl e \<Rightarrow> Inl e
      | Inr assigned \<Rightarrow> Inr (if assigned then ValidateAccept else ValidateReject))"

subsection \<open>The service\<close>

record pn_service =
  relay_sessions :: "(tunnel_id \<times> p2p_id \<times> p2p_id) list"
  ps_traffic :: traffic_manager

definition pn_service_new :: pn_service where
  "pn_service_new = \<lparr>relay_sessions = [], ps_traffic = traffic_manager_new\<rparr>"

definition has_relay_session :: "tunnel_id \<Rightarrow> p2p_id \<Rightarrow> p2p_id \<Rightarrow> pn_service \<Rightarrow> bool" where
  "has_relay_session tid from to s \<longleftrightarrow> (tid, from, to) \<in> set (relay_sessions s) \<or> (tid, to, from) \<in> set (relay_sessions s)"

definition register_relay_session :: "tunnel_id \<Rightarrow> p2p_id \<Rightarrow> p2p_id \<Rightarrow> pn_service \<Rightarrow> pn_service" where
  "register_relay_session tid from to s = s\<lparr>relay_sessions := List.insert (tid, from, to) (relay_sessions s)\<rparr>"

definition unregister_relay_session :: "tunnel_id \<Rightarrow> p2p_id \<Rightarrow> p2p_id \<Rightarrow> pn_service \<Rightarrow> pn_service" where
  "unregister_relay_session tid from to s =
     s\<lparr>relay_sessions := removeAll (tid, to, from) (removeAll (tid, from, to) (relay_sessions s))\<rparr>"

definition validated :: "pn_validator \<Rightarrow> pn_validate_context \<Rightarrow> unit p2p_result" where
  "validated V c =
     (case V c of
        Inl e \<Rightarrow> Inl e
      | Inr ValidateAccept \<Rightarrow> Inr ()
      | Inr ValidateReject \<Rightarrow> Inl PermissionDenied)"

definition validate_proxy_open_req :: "pn_validator \<Rightarrow> proxy_open_req \<Rightarrow> pn_service \<Rightarrow> unit p2p_result" where
  "validate_proxy_open_req V q s =
     (if has_relay_session (pr_tunnel_id q) (pr_from q) (pr_to q) s then Inr ()
      else validated V \<lparr>vc_from = pr_from q, vc_to = pr_to q, vc_tunnel_id = pr_tunnel_id q, vc_kind = pr_kind q,
             vc_purpose = pr_purpose q, vc_is_control = False\<rparr>)"

text \<open>\<open>purpose\<close> is the encoded name of the proxy service.\<close>

definition validate_proxy_control_open_req :: "tunnel_purpose \<Rightarrow> pn_validator \<Rightarrow> proxy_control_open_req \<Rightarrow> unit p2p_result" where
  "validate_proxy_control_open_req purpose V q =
     validated V \<lparr>vc_from = pc_from q, vc_to = pc_to q, vc_tunnel_id = pc_tunnel_id q, vc_kind = PnStream,
       vc_purpose = purpose, vc_is_control = True\<rparr>"

text \<open>The target's answer, checked.\<close>

definition check_open_resp :: "tunnel_id \<Rightarrow> proxy_open_resp p2p_result \<Rightarrow> tunnel_command_result p2p_result" where
  "check_open_resp tid r =
     (case r of
        Inl e \<Rightarrow> Inl e
      | Inr resp \<Rightarrow>
          if rs_tunnel_id resp \<noteq> tid then Inl InvalidData
          else (case command_result_from_u8 (rs_result resp) of None \<Rightarrow> Inl InvalidData | Some res \<Rightarrow> Inr res))"

definition open_resp :: "tunnel_id \<Rightarrow> tunnel_command_result \<Rightarrow> proxy_open_resp" where
  "open_resp tid res = \<lparr>rs_tunnel_id = tid, rs_result = command_result_as_u8 res\<rparr>"

text \<open>\<open>handle_proxy_open_req\<close>: \<open>valid\<close> is what the validation said when it was asked, \<open>target\<close> the stream to
  the target, \<open>answer\<close> what came back on it. The response to the client, and the guard of the bridge.\<close>

definition proxy_open_begin :: "pn_validator \<Rightarrow> p2p_id \<Rightarrow> proxy_open_req \<Rightarrow> pn_service \<Rightarrow> proxy_open_req \<times> unit p2p_result" where
  "proxy_open_begin V from q s = (let q' = q\<lparr>pr_from := from\<rparr> in (q', validate_proxy_open_req V q' s))"

definition proxy_open_finish ::
    "(p2p_id \<Rightarrow> unit p2p_result) \<Rightarrow> (proxy_open_req \<Rightarrow> proxy_open_resp p2p_result) \<Rightarrow> proxy_open_req \<Rightarrow> unit p2p_result \<Rightarrow> pn_service \<Rightarrow>
     pn_service \<times> proxy_open_resp \<times> session_guard p2p_result" where
  "proxy_open_finish target answer q valid s =
     (let tid = pr_tunnel_id q
      in case (case valid of Inl e \<Rightarrow> Inl e | Inr _ \<Rightarrow> target (pr_to q)) of
           Inl e \<Rightarrow> (s, open_resp tid (result_from_error e), Inl e)
         | Inr _ \<Rightarrow>
             (case check_open_resp tid (answer q) of
                Inl e \<Rightarrow> (s, open_resp tid (result_from_error e), Inl e)
              | Inr res \<Rightarrow>
                  if res = ResSuccess
                  then let s1 = register_relay_session tid (pr_from q) (pr_to q) s;
                           (t, g) = begin_session (pr_from q) (pr_to q) (ps_traffic s1)
                       in (s1\<lparr>ps_traffic := t\<rparr>, open_resp tid res, Inr g)
                  else (s, open_resp tid res, Inl (into_p2p_error res))))"

definition proxy_control_open_finish ::
    "(p2p_id \<Rightarrow> unit p2p_result) \<Rightarrow> (proxy_control_open_req \<Rightarrow> proxy_open_resp p2p_result) \<Rightarrow> proxy_control_open_req \<Rightarrow>
     unit p2p_result \<Rightarrow> pn_service \<Rightarrow> pn_service \<times> proxy_open_resp \<times> session_guard p2p_result" where
  "proxy_control_open_finish target answer q valid s =
     (let tid = pc_tunnel_id q
      in case (case valid of Inl e \<Rightarrow> Inl e | Inr _ \<Rightarrow> target (pc_to q)) of
           Inl e \<Rightarrow> (s, open_resp tid (result_from_error e), Inl e)
         | Inr _ \<Rightarrow>
             (case check_open_resp tid (answer q) of
                Inl e \<Rightarrow> (s, open_resp tid (result_from_error e), Inl e)
              | Inr res \<Rightarrow>
                  if res = ResSuccess
                  then let (t, g) = begin_session (pc_from q) (pc_to q) (ps_traffic s)
                       in (s\<lparr>ps_traffic := t\<rparr>, open_resp tid res, Inr g)
                  else (s, open_resp tid res, Inl (into_p2p_error res))))"

definition proxy_control_open_begin ::
    "tunnel_purpose \<Rightarrow> pn_validator \<Rightarrow> p2p_id \<Rightarrow> proxy_control_open_req \<Rightarrow> proxy_control_open_req \<times> unit p2p_result" where
  "proxy_control_open_begin purpose V from q =
     (let q' = q\<lparr>pc_from := from\<rparr> in (q', validate_proxy_control_open_req purpose V q'))"

text \<open>The end of a bridge: the traffic session ends, and with a control bridge the relay session.\<close>

definition proxy_bridge_end :: "nat \<Rightarrow> instant \<Rightarrow> session_guard \<Rightarrow> pn_service \<Rightarrow> pn_service" where
  "proxy_bridge_end limit now g s = s\<lparr>ps_traffic := end_session limit now g (ps_traffic s)\<rparr>"

definition proxy_control_bridge_end ::
    "nat \<Rightarrow> instant \<Rightarrow> session_guard \<Rightarrow> proxy_control_open_req \<Rightarrow> pn_service \<Rightarrow> pn_service" where
  "proxy_control_bridge_end limit now g q s =
     proxy_bridge_end limit now g (unregister_relay_session (pc_tunnel_id q) (pc_from q) (pc_to q) s)"

definition pn_stop :: "pn_service \<Rightarrow> pn_service" where
  "pn_stop s = s\<lparr>ps_traffic := shutdown (ps_traffic s)\<rparr>"

section \<open>Opening\<close>

lemma result_from_error_not_success [simp]: "result_from_error e \<noteq> ResSuccess"
  by (simp add: result_from_error_def)

lemma as_u8_zero: "command_result_as_u8 res = 0 \<longleftrightarrow> res = ResSuccess"
  by (cases res) simp_all

lemma begin_session_guard: "begin_session a b t = (t', g) \<Longrightarrow> fst (gd_source g) = a"
  by (auto simp: begin_session_def Let_def split: if_splits prod.splits)

text \<open>C16: a data channel is bridged only for the peer that asked: the sender the request
  claims is replaced by the peer the connection was authenticated for; the request was allowed by the
  validator for that peer or belongs to a relay session of the tunnel; the target accepted it for the same
  tunnel; and the client is told success exactly when there is a bridge, otherwise nothing changes.\<close>

theorem proxy_open_authorised:
  assumes "proxy_open_begin V from q s0 = (q', valid)" and "proxy_open_finish target answer q' valid s = (s', resp, r)"
  shows "(rs_result resp = 0 \<longleftrightarrow> is_ok r) \<and> (if is_ok r then True else s' = s) \<and> rs_tunnel_id resp = pr_tunnel_id q \<and>
         pr_from q' = from \<and>
         (\<forall>g. r = Inr g \<longrightarrow>
            fst (gd_source g) = from \<and>
            (has_relay_session (pr_tunnel_id q) from (pr_to q) s0 \<or>
             V \<lparr>vc_from = from, vc_to = pr_to q, vc_tunnel_id = pr_tunnel_id q, vc_kind = pr_kind q,
                vc_purpose = pr_purpose q, vc_is_control = False\<rparr> = Inr ValidateAccept) \<and>
            answer q' = Inr \<lparr>rs_tunnel_id = pr_tunnel_id q, rs_result = 0\<rparr>)"
proof -
  have q': "q' = q\<lparr>pr_from := from\<rparr>" and v: "valid = validate_proxy_open_req V q' s0"
    using assms(1) by (auto simp: proxy_open_begin_def Let_def)
  have val: "has_relay_session (pr_tunnel_id q) from (pr_to q) s0 \<or>
      V \<lparr>vc_from = from, vc_to = pr_to q, vc_tunnel_id = pr_tunnel_id q, vc_kind = pr_kind q,
         vc_purpose = pr_purpose q, vc_is_control = False\<rparr> = Inr ValidateAccept" if "valid = Inr ()"
    using that by (auto simp: v q' validate_proxy_open_req_def validated_def split: if_splits sum.splits validate_result.splits)
  have ans: "answer q' = Inr \<lparr>rs_tunnel_id = tid, rs_result = 0\<rparr>" if chk: "check_open_resp tid (answer q') = Inr ResSuccess" for tid
  proof -
    obtain ra where ra: "answer q' = Inr ra"
      using chk by (cases "answer q'") (simp_all add: check_open_resp_def)
    then have "rs_tunnel_id ra = tid" "command_result_from_u8 (rs_result ra) = Some ResSuccess"
      using chk by (simp_all add: check_open_resp_def split: if_splits option.splits)
    moreover from this have "rs_result ra = 0" by (simp add: command_result_from_u8_def split: if_splits)
    ultimately show ?thesis using ra by (cases ra) simp
  qed
  show ?thesis
    using assms(2) val ans begin_session_guard
    by (auto simp: proxy_open_finish_def Let_def q' open_resp_def as_u8_zero
        split: sum.splits if_splits prod.splits)
qed

section \<open>Relay sessions\<close>

text \<open>a relay session outlives what it was opened for. A data channel that the target accepts registers its
  tunnel, and the session is only removed when a control channel of the same tunnel stops. Without one, or
  when the target's answer comes after the control channel stopped, the session stays when the data
  channel ends, and every later open of that tunnel between the two peers, from either of them and for
  whatever purpose, is accepted without asking the validator, also one that would reject it.\<close>

theorem relay_session_outlives_control:
  assumes "proxy_open_finish target answer q valid s = (s', resp, Inr g)"
    and "pr_tunnel_id p = pr_tunnel_id q"
    and "(pr_from p = pr_from q \<and> pr_to p = pr_to q) \<or> (pr_from p = pr_to q \<and> pr_to p = pr_from q)"
  shows "validate_proxy_open_req reject_all_pn_validator p (proxy_bridge_end lim now g s') = Inr ()"
proof -
  have "(pr_tunnel_id q, pr_from q, pr_to q) \<in> set (relay_sessions s')"
    using assms(1) by (auto simp: proxy_open_finish_def Let_def register_relay_session_def split: sum.splits if_splits prod.splits)
  with assms(2,3) show ?thesis
    by (auto simp: validate_proxy_open_req_def has_relay_session_def proxy_bridge_end_def)
qed

section \<open>Bridges and sessions\<close>

text \<open>The service over time, with the guards of the bridges that are up. Refused opens change nothing.\<close>

inductive pn_service_run :: "pn_service \<Rightarrow> session_guard list \<Rightarrow> bool" where
  start: "pn_service_run pn_service_new []"
| data_open: "pn_service_run s gs \<Longrightarrow> proxy_open_finish target answer q valid s = (s', resp, r) \<Longrightarrow>
    pn_service_run s' (case r of Inr g \<Rightarrow> g # gs | Inl _ \<Rightarrow> gs)"
| control_open: "pn_service_run s gs \<Longrightarrow> proxy_control_open_finish target answer' cq valid s = (s', resp, r) \<Longrightarrow>
    pn_service_run s' (case r of Inr g \<Rightarrow> g # gs | Inl _ \<Rightarrow> gs)"
| data_end: "pn_service_run s gs \<Longrightarrow> g \<in> set gs \<Longrightarrow> pn_service_run (proxy_bridge_end lim now g s) (remove1 g gs)"
| control_end: "pn_service_run s gs \<Longrightarrow> g \<in> set gs \<Longrightarrow>
    pn_service_run (proxy_control_bridge_end lim now g cq s) (remove1 g gs)"
| stop: "pn_service_run s gs \<Longrightarrow> pn_service_run (pn_stop s) gs"

lemma relay_session_traffic [simp]:
  "ps_traffic (register_relay_session tid a b s) = ps_traffic s"
  "ps_traffic (unregister_relay_session tid a b s) = ps_traffic s"
  by (simp_all add: register_relay_session_def unregister_relay_session_def)

lemma open_finish_traffic:
  "proxy_open_finish target answer q valid s = (s', resp, r) \<Longrightarrow>
     (case r of Inr g \<Rightarrow> begin_session (pr_from q) (pr_to q) (ps_traffic s) = (ps_traffic s', g) | Inl _ \<Rightarrow> s' = s)"
  by (auto simp: proxy_open_finish_def Let_def split: sum.splits if_splits prod.splits)

lemma control_open_finish_traffic:
  "proxy_control_open_finish target answer q valid s = (s', resp, r) \<Longrightarrow>
     (case r of Inr g \<Rightarrow> begin_session (pc_from q) (pc_to q) (ps_traffic s) = (ps_traffic s', g) | Inl _ \<Rightarrow> s' = s)"
  by (auto simp: proxy_control_open_finish_def Let_def split: sum.splits if_splits prod.splits)

lemma service_traffic_run: "pn_service_run s gs \<Longrightarrow> traffic_run (ps_traffic s) gs"
proof (induction rule: pn_service_run.induct)
  case start
  show ?case by (simp add: pn_service_new_def traffic_run.start)
next
  case (data_open s gs target answer q valid s' resp r)
  from open_finish_traffic [OF data_open.hyps(2)] data_open.IH show ?case
    by (auto split: sum.splits intro: traffic.opens)
next
  case (control_open s gs target answer' cq valid s' resp r)
  from control_open_finish_traffic [OF control_open.hyps(2)] control_open.IH show ?case
    by (auto split: sum.splits intro: traffic.opens)
next
  case (stop s gs)
  then show ?case by (simp add: pn_stop_def traffic_run.stop)
qed (simp_all add: proxy_bridge_end_def proxy_control_bridge_end_def traffic.closes)

text \<open>the sessions a user is charged for are the bridges it is part of, data and control
  together: over every run of the service the active sessions of a user are the bridges that are up with it
  as source or target.\<close>

theorem bridges_counted:
  assumes "pn_service_run s gs" and "hm_get (users (ps_traffic s)) u = Some st"
  shows "active_sessions st = count (session_parts gs) (u, user_entry st)"
  using traffic_run_inv [OF service_traffic_run [OF assms(1)]] assms(2) by (simp add: traffic_inv_def user_ok_def)

section \<open>Witnesses\<close>

definition sample_open_req :: proxy_open_req where
  "sample_open_req =
     \<lparr>pr_tunnel_id = TunnelId 7, pr_from = P2pId [9], pr_to = P2pId [2], pr_kind = PnStream, pr_purpose = TunnelPurpose [1]\<rparr>"

definition sample_answer :: "proxy_open_req \<Rightarrow> proxy_open_resp p2p_result" where
  "sample_answer q = Inr (open_resp (pr_tunnel_id q) ResSuccess)"

text \<open>The client claims to be peer 9, and is peer 1.\<close>

definition sample_begin :: "proxy_open_req \<times> unit p2p_result" where
  "sample_begin = proxy_open_begin allow_all_pn_validator (P2pId [1]) sample_open_req pn_service_new"

definition sample_finish :: "pn_service \<times> proxy_open_resp \<times> session_guard p2p_result" where
  "sample_finish = proxy_open_finish (\<lambda>_. Inr ()) sample_answer (fst sample_begin) (snd sample_begin) pn_service_new"

theorem proxy_open_authorised_witness:
  "rs_result (fst (snd sample_finish)) = 0 \<and> is_ok (snd (snd sample_finish)) \<and> pr_from (fst sample_begin) = P2pId [1]"
proof -
  have b: "proxy_open_begin allow_all_pn_validator (P2pId [1]) sample_open_req pn_service_new = (fst sample_begin, snd sample_begin)"
    by (simp add: sample_begin_def)
  have f: "proxy_open_finish (\<lambda>_. Inr ()) sample_answer (fst sample_begin) (snd sample_begin) pn_service_new
      = (fst sample_finish, fst (snd sample_finish), snd (snd sample_finish))"
    by (simp add: sample_finish_def)
  have "rs_result (fst (snd sample_finish)) = 0" by code_simp
  with proxy_open_authorised [OF b f] show ?thesis by simp
qed

theorem relay_session_outlives_control_witness:
  "\<exists>g. validate_proxy_open_req reject_all_pn_validator (fst sample_begin) (proxy_bridge_end 1000 5 g (fst sample_finish)) = Inr ()"
proof -
  have "is_ok (snd (snd sample_finish))" by code_simp
  then obtain g where "snd (snd sample_finish) = Inr g" by (cases "snd (snd sample_finish)") simp_all
  then have "proxy_open_finish (\<lambda>_. Inr ()) sample_answer (fst sample_begin) (snd sample_begin) pn_service_new
      = (fst sample_finish, fst (snd sample_finish), Inr g)"
    by (metis sample_finish_def prod.collapse)
  from relay_session_outlives_control [OF this] show ?thesis by blast
qed

lemma sample_finish_run:
  "pn_service_run (fst sample_finish) (case snd (snd sample_finish) of Inr g \<Rightarrow> [g] | Inl _ \<Rightarrow> [])"
proof -
  have "proxy_open_finish (\<lambda>_. Inr ()) sample_answer (fst sample_begin) (snd sample_begin) pn_service_new
      = (fst sample_finish, fst (snd sample_finish), snd (snd sample_finish))" by (simp add: sample_finish_def)
  from pn_service_run.data_open [OF pn_service_run.start this] show ?thesis .
qed

theorem bridges_counted_witness:
  "\<exists>st gs. hm_get (users (ps_traffic (fst sample_finish))) (P2pId [2]) = Some st \<and>
     active_sessions st = count (session_parts gs) (P2pId [2], user_entry st)"
proof -
  have "hm_get (users (ps_traffic (fst sample_finish))) (P2pId [2]) \<noteq> None" by code_simp
  then obtain st where "hm_get (users (ps_traffic (fst sample_finish))) (P2pId [2]) = Some st" by auto
  with bridges_counted [OF sample_finish_run this] show ?thesis by blast
qed

end
