(* ===== verification/PnTunnel.thy ===== *)
theory PnTunnel
  imports PnService ControlStream
begin

text \<open>
  \<open>PnTunnel\<close> (\<open>pn/client/pn_tunnel.rs\<close>): one end of a tunnel through a proxy node. It counts the channels
  that are active, being opened, and waiting to be accepted, closes itself when there was none for a
  while, and watches the peer over a control channel.

  The three counters count values held in memory and are natural numbers; \<open>generation\<close> keeps its width.
  A spawned idle check is a pair of the time it wakes and the generation it was given. \<open>lim\<close> is the
  largest \<open>Instant\<close>: \<open>checked_add\<close> fails above it, and \<open>+\<close> panics. Reading from and writing to the control
  channel, the channels of the proxy network and the TLS handshakes are parameters; what was written to
  the control channel is kept in the order it was written.
\<close>

section \<open>Definitions\<close>

subsection \<open>Lifecycle\<close>

definition DEFAULT_PN_TUNNEL_IDLE_TIMEOUT :: duration where
  "DEFAULT_PN_TUNNEL_IDLE_TIMEOUT = from_secs (30 * 60)"

definition PN_CONTROL_HEARTBEAT_INTERVAL :: duration where
  "PN_CONTROL_HEARTBEAT_INTERVAL = from_secs 30"

definition PN_CONTROL_HEARTBEAT_TIMEOUT :: duration where
  "PN_CONTROL_HEARTBEAT_TIMEOUT = from_secs 90"

datatype pn_close_reason = ByManual | ByIdleTimeout | ByRemoteControl | ByControlError | ByHeartbeatTimeout

fun close_reason_as_u8 :: "pn_close_reason \<Rightarrow> u8" where
  "close_reason_as_u8 ByManual = 0"
| "close_reason_as_u8 ByIdleTimeout = 1"
| "close_reason_as_u8 ByRemoteControl = 2"
| "close_reason_as_u8 ByControlError = 3"
| "close_reason_as_u8 ByHeartbeatTimeout = 4"

datatype pn_status = StOpeningControl | StOpen | StRetired | StClosing | StClosed

record pn_lifecycle =
  pl_status :: pn_status
  active_channels :: nat
  pending_channels :: nat
  queued_channels :: nat
  zero_since :: "instant option"
  generation :: u64
  pl_close_reason :: "pn_close_reason option"

definition lifecycle_new :: "instant \<Rightarrow> nat \<Rightarrow> pn_status \<Rightarrow> pn_lifecycle" where
  "lifecycle_new now queued st =
     \<lparr>pl_status = st, active_channels = 0, pending_channels = 0, queued_channels = queued,
      zero_since = (if st = StOpen \<and> queued = 0 then Some now else None), generation = 0, pl_close_reason = None\<rparr>"

definition lc_is_open :: "pn_lifecycle \<Rightarrow> bool" where
  "lc_is_open l \<longleftrightarrow> pl_status l = StOpen \<and> pl_close_reason l = None"

definition total_channels :: "pn_lifecycle \<Rightarrow> nat" where
  "total_channels l = active_channels l + pending_channels l + queued_channels l"

definition refresh_idle_state :: "instant \<Rightarrow> pn_lifecycle \<Rightarrow> pn_lifecycle \<times> (instant \<times> u64) option" where
  "refresh_idle_state now l =
     (if \<not> lc_is_open l then (l, None)
      else if total_channels l = 0 then
        (if zero_since l = None
         then (l\<lparr>zero_since := Some now, generation := generation l + 1\<rparr>, Some (now, generation l + 1))
         else (l, None))
      else if zero_since l \<noteq> None then (l\<lparr>zero_since := None, generation := generation l + 1\<rparr>, None)
      else (l, None))"

definition lc_mark_control_ready :: "instant \<Rightarrow> pn_lifecycle \<Rightarrow> pn_lifecycle \<times> (instant \<times> u64) option" where
  "lc_mark_control_ready now l =
     (if pl_status l \<noteq> StOpeningControl then (l, None) else refresh_idle_state now (l\<lparr>pl_status := StOpen\<rparr>))"

subsection \<open>The tunnel\<close>

datatype pn_security_mode = ModeDisabled | ModeTlsRequired

fun mode_to_atomic :: "pn_security_mode \<Rightarrow> u8" where
  "mode_to_atomic ModeDisabled = 0"
| "mode_to_atomic ModeTlsRequired = 1"

definition mode_from_atomic :: "u8 \<Rightarrow> pn_security_mode" where
  "mode_from_atomic v = (if v = 1 then ModeTlsRequired else ModeDisabled)"

text \<open>The first-listen states are the constants 0, 1 and 2 of an \<open>AtomicU8\<close>.\<close>

datatype first_listen_wait = WaitNotStarted | WaitInProgress | WaitDone

datatype pn_control_cmd = PnPing u64 u64 | PnPong u64 u64 | PnClose u8 | PnData "u8 list"

text \<open>What goes over the control channel: its commands, and the answer to the request that opened it.\<close>

datatype pn_wire = WireCmd pn_control_cmd | WireOpenResp proxy_open_resp

datatype pn_role = RoleActive p2p_id | RolePassive bool "p2p_id option"

record listen_slot =
  ls_vports :: "listen_vports option"
  ls_callback :: bool
  ls_wait :: first_listen_wait

definition listen_slot_new :: listen_slot where
  "listen_slot_new = \<lparr>ls_vports = None, ls_callback = False, ls_wait = WaitNotStarted\<rparr>"

record pn_tunnel =
  pt_tunnel_id :: tunnel_id
  pt_candidate_id :: candidate_id
  pt_local_id :: p2p_id
  pt_remote_id :: p2p_id
  pt_role :: pn_role
  tls_context :: bool
  stream_security_mode :: pn_security_mode
  stream_slot :: listen_slot
  datagram_slot :: listen_slot
  pt_lifecycle :: pn_lifecycle
  pt_idle_timeout :: "duration option"
  control_write :: bool
  control_written :: "pn_wire list"
  control_streams :: control_runtime
  control_last_seen :: instant
  control_pending_ping :: "(u64 \<times> instant) option"
  heartbeat_interval :: duration
  heartbeat_timeout :: duration
  pt_closed :: bool
  idle_checks :: "(instant \<times> u64) list"

definition pn_tunnel_new ::
    "instant \<Rightarrow> tunnel_id \<Rightarrow> candidate_id \<Rightarrow> p2p_id \<Rightarrow> p2p_id \<Rightarrow> pn_role \<Rightarrow> bool \<Rightarrow> pn_security_mode \<Rightarrow> duration option \<Rightarrow> bool \<Rightarrow>
     pn_tunnel" where
  "pn_tunnel_new now tid cid local remote role tls mode idle initiator =
     \<lparr>pt_tunnel_id = tid, pt_candidate_id = cid, pt_local_id = local, pt_remote_id = remote, pt_role = role,
      tls_context = tls, stream_security_mode = mode, stream_slot = listen_slot_new, datagram_slot = listen_slot_new,
      pt_lifecycle = lifecycle_new now 0 StOpeningControl, pt_idle_timeout = idle, control_write = False,
      control_written = [], control_streams = runtime_new initiator, control_last_seen = now,
      control_pending_ping = None, heartbeat_interval = PN_CONTROL_HEARTBEAT_INTERVAL,
      heartbeat_timeout = PN_CONTROL_HEARTBEAT_TIMEOUT, pt_closed = False, idle_checks = []\<rparr>"

definition new_active_with_relay ::
    "instant \<Rightarrow> tunnel_id \<Rightarrow> candidate_id \<Rightarrow> p2p_id \<Rightarrow> p2p_id \<Rightarrow> p2p_id \<Rightarrow> bool \<Rightarrow> pn_security_mode \<Rightarrow> duration option \<Rightarrow>
     pn_tunnel" where
  "new_active_with_relay now tid cid local remote relay tls mode idle =
     pn_tunnel_new now tid cid local remote (RoleActive relay) tls mode idle True"

text \<open>Without a network the passive side uses the default timeout.\<close>

definition new_passive_control ::
    "instant \<Rightarrow> p2p_id \<Rightarrow> proxy_control_open_req \<Rightarrow> duration option option \<Rightarrow> p2p_id option \<Rightarrow> bool \<Rightarrow> pn_security_mode \<Rightarrow>
     pn_tunnel" where
  "new_passive_control now local q network relay tls mode =
     pn_tunnel_new now (pc_tunnel_id q) (TunnelCandidateId (tunnel_value (pc_tunnel_id q))) local (pc_from q)
       (RolePassive (network \<noteq> None) relay) tls mode
       (case network of Some idle \<Rightarrow> idle | None \<Rightarrow> Some DEFAULT_PN_TUNNEL_IDLE_TIMEOUT) False"

definition schedule_idle_check :: "nat \<Rightarrow> instant \<Rightarrow> instant \<Rightarrow> duration \<Rightarrow> u64 \<Rightarrow> pn_tunnel \<Rightarrow> pn_tunnel" where
  "schedule_idle_check lim now z timeout gen t =
     (let delay = (if z + timeout \<le> lim then (case checked_duration_since (z + timeout) now of Some d \<Rightarrow> d | None \<Rightarrow> 0) else 0)
      in t\<lparr>idle_checks := idle_checks t @ [(now + delay, gen)]\<rparr>)"

definition schedule_from_refresh :: "nat \<Rightarrow> instant \<Rightarrow> (instant \<times> u64) option \<Rightarrow> pn_tunnel \<Rightarrow> pn_tunnel" where
  "schedule_from_refresh lim now refresh t =
     (case refresh of None \<Rightarrow> t
      | Some (z, gen) \<Rightarrow>
          (case pt_idle_timeout t of None \<Rightarrow> t | Some timeout \<Rightarrow> schedule_idle_check lim now z timeout gen t))"

definition with_refresh :: "nat \<Rightarrow> instant \<Rightarrow> pn_lifecycle \<times> (instant \<times> u64) option \<Rightarrow> pn_tunnel \<Rightarrow> pn_tunnel" where
  "with_refresh lim now r t = schedule_from_refresh lim now (snd r) (t\<lparr>pt_lifecycle := fst r\<rparr>)"

definition mark_control_ready :: "nat \<Rightarrow> instant \<Rightarrow> pn_tunnel \<Rightarrow> pn_tunnel" where
  "mark_control_ready lim now t = with_refresh lim now (lc_mark_control_ready now (pt_lifecycle t)) t"

definition set_control_channel :: "nat \<Rightarrow> instant \<Rightarrow> pn_tunnel \<Rightarrow> pn_tunnel" where
  "set_control_channel lim now t =
     mark_control_ready lim now (t\<lparr>control_last_seen := now, control_write := True\<rparr>)"

subsection \<open>Channels\<close>

definition begin_pending_channel :: "instant \<Rightarrow> pn_tunnel \<Rightarrow> pn_tunnel \<times> unit p2p_result" where
  "begin_pending_channel now t =
     (let l = pt_lifecycle t
      in if \<not> lc_is_open l then (t, Inl ErrorState)
         else (t\<lparr>pt_lifecycle := fst (refresh_idle_state now (l\<lparr>pending_channels := pending_channels l + 1\<rparr>))\<rparr>, Inr ()))"

definition ensure_listener_registration_allowed :: "pn_tunnel \<Rightarrow> unit p2p_result" where
  "ensure_listener_registration_allowed t =
     (if pl_status (pt_lifecycle t) \<in> {StRetired, StClosing, StClosed} then Inl Interrupted else Inr ())"

definition pending_to_active_channel :: "nat \<Rightarrow> instant \<Rightarrow> pn_tunnel \<Rightarrow> pn_tunnel \<times> unit p2p_result" where
  "pending_to_active_channel lim now t =
     (let l = pt_lifecycle t; l1 = l\<lparr>pending_channels := pending_channels l - 1\<rparr>
      in if lc_is_open l1
         then (with_refresh lim now (refresh_idle_state now (l1\<lparr>active_channels := active_channels l1 + 1\<rparr>)) t, Inr ())
         else (with_refresh lim now (refresh_idle_state now l1) t, Inl Interrupted))"

definition release_pending_channel :: "nat \<Rightarrow> instant \<Rightarrow> pn_tunnel \<Rightarrow> pn_tunnel" where
  "release_pending_channel lim now t =
     (let l = pt_lifecycle t
      in with_refresh lim now (refresh_idle_state now (l\<lparr>pending_channels := pending_channels l - 1\<rparr>)) t)"

definition queued_to_pending_channel :: "nat \<Rightarrow> instant \<Rightarrow> pn_tunnel \<Rightarrow> pn_tunnel \<times> unit p2p_result" where
  "queued_to_pending_channel lim now t =
     (let l = pt_lifecycle t
      in if \<not> lc_is_open l then (t, Inl Interrupted)
         else (with_refresh lim now
                 (refresh_idle_state now (l\<lparr>queued_channels := queued_channels l - 1, pending_channels := pending_channels l + 1\<rparr>)) t,
               Inr ()))"

definition release_active_channel :: "nat \<Rightarrow> instant \<Rightarrow> pn_tunnel \<Rightarrow> pn_tunnel" where
  "release_active_channel lim now t =
     (let l = pt_lifecycle t
      in with_refresh lim now (refresh_idle_state now (l\<lparr>active_channels := active_channels l - 1\<rparr>)) t)"

definition push_passive_channel :: "instant \<Rightarrow> pn_tunnel \<Rightarrow> pn_tunnel \<times> unit p2p_result" where
  "push_passive_channel now t =
     (let l = pt_lifecycle t
      in if \<not> lc_is_open l then (t, Inl ErrorState)
         else (t\<lparr>pt_lifecycle := fst (refresh_idle_state now (l\<lparr>queued_channels := queued_channels l + 1\<rparr>))\<rparr>, Inr ()))"

subsection \<open>Closing\<close>

definition close_lifecycle_locked :: "pn_close_reason \<Rightarrow> pn_tunnel \<Rightarrow> pn_tunnel \<times> bool" where
  "close_lifecycle_locked reason t =
     (let l = pt_lifecycle t
      in if pl_status l = StClosing \<or> pl_status l = StClosed then (t, False)
         else (t\<lparr>pt_lifecycle := l\<lparr>pl_status := StClosing, pl_close_reason := Some reason, queued_channels := 0,
                    zero_since := None, generation := generation l + 1\<rparr>,
                 pt_closed := True, stream_slot := (stream_slot t)\<lparr>ls_callback := False\<rparr>,
                 datagram_slot := (datagram_slot t)\<lparr>ls_callback := False\<rparr>,
                 control_streams := close_all Interrupted (control_streams t)\<rparr>, True))"

text \<open>\<open>finish_close_local\<close>; removing the tunnel from the client's table is done there.\<close>

definition set_status_closed :: "pn_tunnel \<Rightarrow> pn_tunnel" where
  "set_status_closed t =
     (if pl_status (pt_lifecycle t) = StClosing then t\<lparr>pt_lifecycle := (pt_lifecycle t)\<lparr>pl_status := StClosed\<rparr>\<rparr> else t)"

definition close_control_channel :: "pn_close_reason \<Rightarrow> pn_tunnel \<Rightarrow> pn_tunnel" where
  "close_control_channel reason t =
     (if control_write t
      then t\<lparr>control_write := False,
             control_written := (if reason \<noteq> ByRemoteControl then control_written t @ [WireCmd (PnClose (close_reason_as_u8 reason))]
                                 else control_written t)\<rparr>
      else t)"

definition finish_close :: "pn_close_reason \<Rightarrow> pn_tunnel \<Rightarrow> pn_tunnel" where
  "finish_close reason t = set_status_closed (close_control_channel reason (set_status_closed t))"

definition close_with_reason :: "pn_close_reason \<Rightarrow> pn_tunnel \<Rightarrow> pn_tunnel" where
  "close_with_reason reason t =
     (let (t1, should_finish) = close_lifecycle_locked reason t in if should_finish then finish_close reason t1 else t1)"

text \<open>\<open>close\<close> leaves the control channel to a task: whether it is spawned.\<close>

definition pn_close :: "pn_tunnel \<Rightarrow> pn_tunnel \<times> bool" where
  "pn_close t =
     (let (t1, should_finish) = close_lifecycle_locked ByManual t
      in if should_finish then (set_status_closed t1, True) else (t1, False))"

text \<open>\<open>close_if_idle\<close>: no result when the addition panics.\<close>

definition close_if_idle :: "nat \<Rightarrow> instant \<Rightarrow> u64 \<Rightarrow> pn_tunnel \<Rightarrow> pn_tunnel option" where
  "close_if_idle lim now gen t =
     (let l = pt_lifecycle t
      in case pt_idle_timeout t of None \<Rightarrow> Some t
         | Some timeout \<Rightarrow>
             (case zero_since l of None \<Rightarrow> Some t
              | Some z \<Rightarrow>
                  if lc_is_open l \<and> generation l = gen \<and> total_channels l = 0
                  then if lim < z + timeout then None
                       else if z + timeout \<le> now then Some (close_with_reason ByIdleTimeout t)
                       else Some t
                  else Some t))"

definition pn_try_retire_idle :: "instant \<Rightarrow> duration \<Rightarrow> pn_tunnel \<Rightarrow> pn_tunnel \<times> bool" where
  "pn_try_retire_idle now idle t =
     (let l = pt_lifecycle t
      in if pl_status l = StOpen \<and> pl_close_reason l = None \<and> total_channels l = 0 \<and>
            (case zero_since l of None \<Rightarrow> False
             | Some z \<Rightarrow> (case checked_duration_since now z of None \<Rightarrow> False | Some elapsed \<Rightarrow> elapsed > idle))
         then (t\<lparr>pt_lifecycle := l\<lparr>pl_status := StRetired, zero_since := None, generation := generation l + 1\<rparr>\<rparr>, True)
         else (t, False))"

fun pn_state :: "pn_status \<Rightarrow> tunnel_state" where
  "pn_state StOpeningControl = Connecting"
| "pn_state StOpen = Connected"
| "pn_state StRetired = Closed"
| "pn_state StClosing = Closed"
| "pn_state StClosed = Closed"

subsection \<open>The control channel\<close>

definition send_control :: "unit p2p_result \<Rightarrow> pn_control_cmd \<Rightarrow> pn_tunnel \<Rightarrow> pn_tunnel \<times> unit p2p_result" where
  "send_control io cmd t =
     (if pt_closed t then (t, Inl Interrupted)
      else if \<not> control_write t then (t, Inl ErrorState)
      else (case io of
              Inl e \<Rightarrow> (t, Inl e)
            | Inr _ \<Rightarrow> (t\<lparr>control_written := control_written t @ [WireCmd cmd]\<rparr>, Inr ())))"

definition send_control_open_response ::
    "unit p2p_result \<Rightarrow> tunnel_command_result \<Rightarrow> pn_tunnel \<Rightarrow> pn_tunnel \<times> unit p2p_result" where
  "send_control_open_response io res t =
     (if pt_closed t then (t, Inl Interrupted)
      else if \<not> control_write t then (t, Inl ErrorState)
      else (case io of
              Inl e \<Rightarrow> (t, Inl e)
            | Inr _ \<Rightarrow> (t\<lparr>control_written := control_written t @ [WireOpenResp (open_resp (pt_tunnel_id t) res)]\<rparr>, Inr ())))"

fun control_command_id :: "pn_control_cmd \<Rightarrow> u8" where
  "control_command_id (PnPing _ _) = 5"
| "control_command_id (PnPong _ _) = 6"
| "control_command_id (PnClose _) = 7"
| "control_command_id (PnData _) = 8"

text \<open>\<open>header\<close> is the command id of the header that was read, \<open>body\<close> reads a body of the given type.\<close>

definition read_control_cmd :: "u8 p2p_result \<Rightarrow> (u8 \<Rightarrow> pn_control_cmd p2p_result) \<Rightarrow> pn_control_cmd p2p_result" where
  "read_control_cmd header body =
     (case header of
        Inl e \<Rightarrow> Inl e
      | Inr i \<Rightarrow> if i \<in> {5, 6, 7, 8} then body i else Inl InvalidData)"

text \<open>\<open>PnControlDataSender\<close>: the frames of control streams go over the same channel. \<open>io\<close> is what writing
  a payload answers; the frames the runtime sent are added to what was written, when there is a channel
  (without one the sender fails and nothing is sent).\<close>

definition control_data_sender :: "data_sender \<Rightarrow> pn_tunnel \<Rightarrow> data_sender" where
  "control_data_sender io t payload = (if control_write t then io payload else Inl Interrupted)"

definition with_control_streams :: "frame_enc \<Rightarrow> control_runtime \<Rightarrow> pn_tunnel \<Rightarrow> pn_tunnel" where
  "with_control_streams enc cs t =
     t\<lparr>control_streams := cs,
       control_written := control_written t @
         (if control_write t
          then map (\<lambda>f. WireCmd (PnData (case enc f of Some p \<Rightarrow> p | None \<Rightarrow> []))) (drop (length (sent (control_streams t))) (sent cs))
          else [])\<rparr>"

definition mark_control_ping_sent :: "instant \<Rightarrow> u64 \<Rightarrow> pn_tunnel \<Rightarrow> pn_tunnel" where
  "mark_control_ping_sent now ping t = t\<lparr>control_last_seen := now, control_pending_ping := Some (ping, now)\<rparr>"

definition mark_control_pong :: "u64 \<Rightarrow> pn_tunnel \<Rightarrow> pn_tunnel" where
  "mark_control_pong ping t =
     (case control_pending_ping t of
        Some (p, _) \<Rightarrow> if p = ping then t\<lparr>control_pending_ping := None\<rparr> else t
      | None \<Rightarrow> t)"

text \<open>One round of \<open>control_recv_loop\<close>, on what the read returned: whether the loop goes on.\<close>

definition control_recv_step ::
    "frame_enc \<Rightarrow> frame_dec \<Rightarrow> data_sender \<Rightarrow> unit p2p_result \<Rightarrow> (nat \<Rightarrow> bool) \<Rightarrow> unit p2p_result \<Rightarrow> instant \<Rightarrow>
     pn_control_cmd p2p_result \<Rightarrow> pn_tunnel \<Rightarrow> pn_tunnel \<times> bool" where
  "control_recv_step enc dec send prep alive io now r t =
     (case r of
        Inl e \<Rightarrow> (if pt_closed t then t else close_with_reason ByControlError t, False)
      | Inr cmd \<Rightarrow>
          (let t1 = t\<lparr>control_last_seen := now\<rparr>
           in case cmd of
                PnPing ping send_time \<Rightarrow>
                  (case send_control io (PnPong ping send_time) t1 of
                     (t2, Inl e) \<Rightarrow> (close_with_reason ByControlError t2, False)
                   | (t2, Inr _) \<Rightarrow> (t2, \<not> pt_closed t2))
              | PnPong ping send_time \<Rightarrow> (mark_control_pong ping t1, \<not> pt_closed t1)
              | PnClose reason \<Rightarrow> (close_with_reason ByRemoteControl t1, False)
              | PnData payload \<Rightarrow>
                  (case on_data enc dec (control_data_sender send t1) prep alive payload (control_streams t1) of
                     (cs, Inl e, _) \<Rightarrow> (close_with_reason ByControlError (with_control_streams enc cs t1), False)
                   | (cs, Inr _, _) \<Rightarrow> (with_control_streams enc cs t1, \<not> pt_closed t1))))"

text \<open>One round of \<open>control_heartbeat_loop\<close>, in three parts: what it finds when it wakes; the ping, with its
  number; and what it notes once the ping was written. The peer may answer between the last two.\<close>

datatype heartbeat_action = HbStop | HbContinue | HbPing

definition heartbeat_check :: "instant \<Rightarrow> pn_tunnel \<Rightarrow> pn_tunnel \<times> heartbeat_action" where
  "heartbeat_check now t =
     (if pt_closed t then (t, HbStop)
      else if (case control_pending_ping t of None \<Rightarrow> False | Some (_, sent_at) \<Rightarrow> now - sent_at \<ge> heartbeat_timeout t) \<or>
              now - control_last_seen t \<ge> heartbeat_timeout t
      then (close_with_reason ByHeartbeatTimeout t, HbStop)
      else if now - control_last_seen t < heartbeat_interval t \<or> control_pending_ping t \<noteq> None
      then (t, HbContinue)
      else (t, HbPing))"

definition heartbeat_ping :: "unit p2p_result \<Rightarrow> u64 \<Rightarrow> pn_tunnel \<Rightarrow> pn_tunnel \<times> bool" where
  "heartbeat_ping io ping t =
     (case send_control io (PnPing ping 0) t of
        (t1, Inl e) \<Rightarrow> (if pt_closed t1 then t1 else close_with_reason ByControlError t1, False)
      | (t1, Inr _) \<Rightarrow> (t1, True))"

definition heartbeat_round :: "unit p2p_result \<Rightarrow> instant \<Rightarrow> u64 \<Rightarrow> pn_tunnel \<Rightarrow> pn_tunnel \<times> u64 \<times> bool" where
  "heartbeat_round io now ping t =
     (case heartbeat_check now t of
        (t1, HbStop) \<Rightarrow> (t1, ping, False)
      | (t1, HbContinue) \<Rightarrow> (t1, ping, True)
      | (t1, HbPing) \<Rightarrow>
          (let (t2, ok) = heartbeat_ping io (ping + 1) t1
           in (if ok then mark_control_ping_sent now (ping + 1) t2 else t2, ping + 1, ok)))"

subsection \<open>Listening, accepting and opening\<close>

definition slot_of :: "pn_channel_kind \<Rightarrow> pn_tunnel \<Rightarrow> listen_slot" where
  "slot_of k t = (case k of PnStream \<Rightarrow> stream_slot t | PnDatagram \<Rightarrow> datagram_slot t)"

definition set_slot :: "pn_channel_kind \<Rightarrow> listen_slot \<Rightarrow> pn_tunnel \<Rightarrow> pn_tunnel" where
  "set_slot k s t = (case k of PnStream \<Rightarrow> t\<lparr>stream_slot := s\<rparr> | PnDatagram \<Rightarrow> t\<lparr>datagram_slot := s\<rparr>)"

text \<open>\<open>listen_stream\<close> and \<open>listen_datagram\<close>.\<close>

definition pn_listen :: "pn_channel_kind \<Rightarrow> listen_vports \<Rightarrow> pn_tunnel \<Rightarrow> pn_tunnel \<times> unit p2p_result" where
  "pn_listen k vports t =
     (case ensure_listener_registration_allowed t of
        Inl e \<Rightarrow> (t, Inl e)
      | Inr _ \<Rightarrow>
          if pt_closed t then (t, Inl Interrupted)
          else (set_slot k ((slot_of k t)\<lparr>ls_vports := Some vports, ls_callback := True\<rparr>) t, Inr ()))"

definition listen_control_stream :: "listen_vports \<Rightarrow> pn_tunnel \<Rightarrow> pn_tunnel \<times> unit p2p_result" where
  "listen_control_stream purposes t =
     (case ensure_listener_registration_allowed t of
        Inl e \<Rightarrow> (t, Inl e)
      | Inr _ \<Rightarrow>
          if pt_closed t then (t, Inl Interrupted)
          else let (cs, r) = listen_with_prepare purposes True (control_streams t) in (t\<lparr>control_streams := cs\<rparr>, r))"

text \<open>The \<open>prepare\<close> step of an incoming control stream takes a lease.\<close>

definition prepare_control_stream :: "nat \<Rightarrow> instant \<Rightarrow> pn_tunnel \<Rightarrow> pn_tunnel \<times> unit p2p_result" where
  "prepare_control_stream lim now t =
     (case begin_pending_channel now t of
        (t1, Inl e) \<Rightarrow> (t1, Inl e)
      | (t1, Inr _) \<Rightarrow> pending_to_active_channel lim now t1)"

text \<open>\<open>wait_first_listen_if_needed\<close>: nobody waits once somebody listens or the window is over; the first
  channel opens the window and closes it, others wait with it.\<close>

datatype wait_part = NoWait | WaitAlong | WaitLead

definition wait_first_listen :: "pn_channel_kind \<Rightarrow> pn_tunnel \<Rightarrow> pn_tunnel \<times> wait_part" where
  "wait_first_listen k t =
     (let s = slot_of k t
      in if ls_vports s \<noteq> None then (t, NoWait)
         else (case ls_wait s of
                 WaitDone \<Rightarrow> (t, NoWait)
               | WaitInProgress \<Rightarrow> (t, WaitAlong)
               | WaitNotStarted \<Rightarrow> (set_slot k (s\<lparr>ls_wait := WaitInProgress\<rparr>) t, WaitLead)))"

definition first_listen_over :: "pn_channel_kind \<Rightarrow> wait_part \<Rightarrow> pn_tunnel \<Rightarrow> pn_tunnel" where
  "first_listen_over k w t = (if w = WaitLead then set_slot k ((slot_of k t)\<lparr>ls_wait := WaitDone\<rparr>) t else t)"

definition tls_required :: "pn_channel_kind \<Rightarrow> pn_tunnel \<Rightarrow> bool" where
  "tls_required k t \<longleftrightarrow> k = PnStream \<and> stream_security_mode t = ModeTlsRequired"

text \<open>\<open>accept_passive_channel\<close>, first the answer to the peer, after the wait; then the answer is given, unless
  the tunnel was closed, and the channel counts as being opened; then, when it was written and the
  handshake is done, as active.\<close>

definition accept_decision :: "proxy_open_req \<Rightarrow> pn_tunnel \<Rightarrow> tunnel_command_result \<times> p2p_error_code option" where
  "accept_decision q t =
     (if pr_to q \<noteq> pt_local_id t then (ResInvalidParam, Some InvalidParam)
      else if tls_required (pr_kind q) t \<and> \<not> tls_context t then (ResInternalError, Some NotSupport)
      else (case ls_vports (slot_of (pr_kind q) t) of
              Some listened \<Rightarrow>
                if listened (pr_purpose q) then (ResSuccess, None)
                else (ResPortNotListen, Some (into_p2p_error ResPortNotListen))
            | None \<Rightarrow> (ResListenerClosed, Some Interrupted)))"

definition accept_answer ::
    "nat \<Rightarrow> instant \<Rightarrow> proxy_open_req \<Rightarrow> pn_tunnel \<Rightarrow> pn_tunnel \<times> proxy_open_resp option \<times> p2p_error_code option p2p_result" where
  "accept_answer lim now q t =
     (let (res, post_error) = accept_decision q t
      in if pt_closed t then (t, Some (open_resp (pr_tunnel_id q) ResInterrupted), Inl Interrupted)
         else (case queued_to_pending_channel lim now t of
                 (t1, Inl e) \<Rightarrow> (t1, None, Inl e)
               | (t1, Inr _) \<Rightarrow> (t1, Some (open_resp (pr_tunnel_id q) res), Inr post_error)))"

definition accept_finish ::
    "nat \<Rightarrow> instant \<Rightarrow> unit p2p_result \<Rightarrow> p2p_error_code option \<Rightarrow> unit p2p_result \<Rightarrow> proxy_open_req \<Rightarrow> pn_tunnel \<Rightarrow>
     pn_tunnel \<times> unit p2p_result" where
  "accept_finish lim now io post_error tls q t =
     (case (case io of Inl e \<Rightarrow> Inl e
            | Inr _ \<Rightarrow>
                (case post_error of Some e \<Rightarrow> Inl e
                 | None \<Rightarrow>
                     if tls_required (pr_kind q) t then (if tls_context t then tls else Inl NotSupport) else Inr ())) of
        Inl e \<Rightarrow> (release_pending_channel lim now t, Inl e)
      | Inr _ \<Rightarrow> pending_to_active_channel lim now t)"

datatype dispatched = CallbackChannel tunnel_purpose | CallbackError p2p_error_code | NoCallback

definition dispatch_passive_channel :: "proxy_open_req \<Rightarrow> unit p2p_result \<Rightarrow> pn_tunnel \<Rightarrow> dispatched" where
  "dispatch_passive_channel q acc t =
     (case acc of
        Inr _ \<Rightarrow>
          if pt_closed t \<or> \<not> ls_callback (slot_of (pr_kind q) t) then NoCallback else CallbackChannel (pr_purpose q)
      | Inl e \<Rightarrow> if e = PortNotListen \<and> ls_callback (slot_of (pr_kind q) t) then CallbackError e else NoCallback)"

text \<open>\<open>open_stream\<close>, \<open>open_datagram\<close> and \<open>open_control_stream\<close>: the channel is counted, opened through the
  relay, for a stream with a handshake, and becomes active. Whatever fails gives the count back.\<close>

definition relay_of :: "pn_tunnel \<Rightarrow> p2p_id option" where
  "relay_of t =
     (case pt_role t of RoleActive r \<Rightarrow> Some r | RolePassive True (Some r) \<Rightarrow> Some r | RolePassive _ _ \<Rightarrow> None)"

definition open_begin :: "nat \<Rightarrow> instant \<Rightarrow> pn_tunnel \<Rightarrow> pn_tunnel \<times> p2p_id p2p_result" where
  "open_begin lim now t =
     (case begin_pending_channel now t of
        (t1, Inl e) \<Rightarrow> (t1, Inl e)
      | (t1, Inr _) \<Rightarrow>
          (case relay_of t1 of
             Some r \<Rightarrow> (t1, Inr r)
           | None \<Rightarrow> (release_pending_channel lim now t1, Inl NotSupport)))"

definition pn_open_finish ::
    "nat \<Rightarrow> instant \<Rightarrow> pn_channel_kind \<Rightarrow> unit p2p_result \<Rightarrow> unit p2p_result \<Rightarrow> pn_tunnel \<Rightarrow> pn_tunnel \<times> unit p2p_result" where
  "pn_open_finish lim now k channel tls t =
     (case (case channel of Inl e \<Rightarrow> Inl e
            | Inr _ \<Rightarrow> if tls_required k t then (if tls_context t then tls else Inl NotSupport) else Inr ()) of
        Inl e \<Rightarrow> (release_pending_channel lim now t, Inl e)
      | Inr _ \<Rightarrow> pending_to_active_channel lim now t)"

definition open_control_finish :: "nat \<Rightarrow> instant \<Rightarrow> unit p2p_result \<Rightarrow> pn_tunnel \<Rightarrow> pn_tunnel \<times> unit p2p_result" where
  "open_control_finish lim now opened t =
     (case opened of
        Inl e \<Rightarrow> (release_pending_channel lim now t, Inl e)
      | Inr _ \<Rightarrow> pending_to_active_channel lim now t)"

section \<open>Runs of a tunnel\<close>

text \<open>A tunnel with what is held in memory: the leases of active channels, the guards of channels being
  opened, the channels queued for acceptance, and the control channels that \<open>close\<close> left to a task.
  \<open>busy\<close> is the last time a channel of any of the three kinds came, went or changed.\<close>

record pn_world =
  pw_tunnel :: pn_tunnel
  pw_leases :: nat
  pw_pendings :: nat
  pw_queue :: nat
  pw_busy :: instant
  pw_closers :: nat

text \<open>\<open>set_control_channel\<close> is called once, before the tunnel is handed out.\<close>

inductive pn_reach :: "nat \<Rightarrow> pn_world \<Rightarrow> instant \<Rightarrow> bool" for lim where
  start: "pn_reach lim \<lparr>pw_tunnel = pn_tunnel_new now tid cid local remote role tls mode idle initiator,
            pw_leases = 0, pw_pendings = 0, pw_queue = 0, pw_busy = now, pw_closers = 0\<rparr> now"
| tick: "pn_reach lim w now \<Longrightarrow> now \<le> now' \<Longrightarrow> pn_reach lim w now'"
| control: "pn_reach lim w now \<Longrightarrow> pl_status (pt_lifecycle (pw_tunnel w)) = StOpeningControl \<Longrightarrow>
    pn_reach lim (w\<lparr>pw_tunnel := set_control_channel lim now (pw_tunnel w)\<rparr>) now"
| begin_refused: "pn_reach lim w now \<Longrightarrow> begin_pending_channel now (pw_tunnel w) = (t, Inl e) \<Longrightarrow>
    pn_reach lim (w\<lparr>pw_tunnel := t\<rparr>) now"
| begun: "pn_reach lim w now \<Longrightarrow> begin_pending_channel now (pw_tunnel w) = (t, Inr u) \<Longrightarrow>
    pn_reach lim (w\<lparr>pw_tunnel := t, pw_pendings := pw_pendings w + 1, pw_busy := now\<rparr>) now"
| activated: "pn_reach lim w now \<Longrightarrow> 0 < pw_pendings w \<Longrightarrow> pending_to_active_channel lim now (pw_tunnel w) = (t, r) \<Longrightarrow>
    pn_reach lim (w\<lparr>pw_tunnel := t, pw_pendings := pw_pendings w - 1, pw_leases := pw_leases w + (if is_ok r then 1 else 0),
      pw_busy := now\<rparr>) now"
| pending_dropped: "pn_reach lim w now \<Longrightarrow> 0 < pw_pendings w \<Longrightarrow>
    pn_reach lim (w\<lparr>pw_tunnel := release_pending_channel lim now (pw_tunnel w), pw_pendings := pw_pendings w - 1,
      pw_busy := now\<rparr>) now"
| lease_dropped: "pn_reach lim w now \<Longrightarrow> 0 < pw_leases w \<Longrightarrow>
    pn_reach lim (w\<lparr>pw_tunnel := release_active_channel lim now (pw_tunnel w), pw_leases := pw_leases w - 1, pw_busy := now\<rparr>) now"
| pushed: "pn_reach lim w now \<Longrightarrow> push_passive_channel now (pw_tunnel w) = (t, Inr u) \<Longrightarrow>
    pn_reach lim (w\<lparr>pw_tunnel := t, pw_queue := pw_queue w + 1, pw_busy := now\<rparr>) now"
| answered: "pn_reach lim w now \<Longrightarrow> 0 < pw_queue w \<Longrightarrow> accept_answer lim now q (pw_tunnel w) = (t, reply, r) \<Longrightarrow>
    pn_reach lim (w\<lparr>pw_tunnel := t, pw_queue := pw_queue w - 1, pw_pendings := pw_pendings w + (if is_ok r then 1 else 0),
      pw_busy := now\<rparr>) now"
| idle_check: "pn_reach lim w now \<Longrightarrow> (due, gen) \<in> set (idle_checks (pw_tunnel w)) \<Longrightarrow> due \<le> now \<Longrightarrow>
    close_if_idle lim now gen ((pw_tunnel w)\<lparr>idle_checks := remove1 (due, gen) (idle_checks (pw_tunnel w))\<rparr>) = Some t \<Longrightarrow>
    pn_reach lim (w\<lparr>pw_tunnel := t\<rparr>) now"
| retire: "pn_reach lim w now \<Longrightarrow> pn_reach lim (w\<lparr>pw_tunnel := fst (pn_try_retire_idle now d (pw_tunnel w))\<rparr>) now"
| closed_with: "pn_reach lim w now \<Longrightarrow> pn_reach lim (w\<lparr>pw_tunnel := close_with_reason reason (pw_tunnel w)\<rparr>) now"
| closed: "pn_reach lim w now \<Longrightarrow> pn_close (pw_tunnel w) = (t, spawned) \<Longrightarrow>
    pn_reach lim (w\<lparr>pw_tunnel := t, pw_closers := pw_closers w + (if spawned then 1 else 0)\<rparr>) now"
| control_closed: "pn_reach lim w now \<Longrightarrow> 0 < pw_closers w \<Longrightarrow>
    pn_reach lim (w\<lparr>pw_tunnel := close_control_channel ByManual (pw_tunnel w), pw_closers := pw_closers w - 1\<rparr>) now"
| listen: "pn_reach lim w now \<Longrightarrow> pn_reach lim (w\<lparr>pw_tunnel := fst (pn_listen k vports (pw_tunnel w))\<rparr>) now"
| listen_control: "pn_reach lim w now \<Longrightarrow> pn_reach lim (w\<lparr>pw_tunnel := fst (listen_control_stream vports (pw_tunnel w))\<rparr>) now"
| first_wait: "pn_reach lim w now \<Longrightarrow> pn_reach lim (w\<lparr>pw_tunnel := fst (wait_first_listen k (pw_tunnel w))\<rparr>) now"
| wait_over: "pn_reach lim w now \<Longrightarrow> pn_reach lim (w\<lparr>pw_tunnel := first_listen_over k WaitLead (pw_tunnel w)\<rparr>) now"
| open_response: "pn_reach lim w now \<Longrightarrow>
    pn_reach lim (w\<lparr>pw_tunnel := fst (send_control_open_response io res (pw_tunnel w))\<rparr>) now"
| received: "pn_reach lim w now \<Longrightarrow>
    pn_reach lim (w\<lparr>pw_tunnel := fst (control_recv_step enc dec send prep alive io now r (pw_tunnel w))\<rparr>) now"
| heartbeat: "pn_reach lim w now \<Longrightarrow> pn_reach lim (w\<lparr>pw_tunnel := fst (heartbeat_check now (pw_tunnel w))\<rparr>) now"
| pinged: "pn_reach lim w now \<Longrightarrow> pn_reach lim (w\<lparr>pw_tunnel := fst (heartbeat_ping io ping (pw_tunnel w))\<rparr>) now"
| ping_noted: "pn_reach lim w now \<Longrightarrow> pn_reach lim (w\<lparr>pw_tunnel := mark_control_ping_sent now ping (pw_tunnel w)\<rparr>) now"
| streams: "pn_reach lim w now \<Longrightarrow> pn_reach lim (w\<lparr>pw_tunnel := with_control_streams enc cs (pw_tunnel w)\<rparr>) now"

text \<open>The counters count what is held; nothing is queued in a closed tunnel, nor in one that is not open.\<close>

definition counted :: "pn_world \<Rightarrow> bool" where
  "counted w \<longleftrightarrow>
     (let l = pt_lifecycle (pw_tunnel w)
      in active_channels l = pw_leases w \<and> pending_channels l = pw_pendings w \<and>
         queued_channels l = (if pt_closed (pw_tunnel w) then 0 else pw_queue w) \<and>
         (lc_is_open l \<or> pt_closed (pw_tunnel w) \<or> pw_queue w = 0))"

definition status_ok :: "pn_tunnel \<Rightarrow> bool" where
  "status_ok t \<longleftrightarrow>
     (let l = pt_lifecycle t
      in (pt_closed t \<longleftrightarrow> pl_status l = StClosing \<or> pl_status l = StClosed) \<and> (pt_closed t \<longleftrightarrow> pl_close_reason l \<noteq> None))"

definition zero_ok :: "instant \<Rightarrow> instant \<Rightarrow> pn_lifecycle \<Rightarrow> bool" where
  "zero_ok now busy l \<longleftrightarrow>
     (case zero_since l of
        None \<Rightarrow> lc_is_open l \<longrightarrow> total_channels l \<noteq> 0
      | Some z \<Rightarrow> lc_is_open l \<and> total_channels l = 0 \<and> busy \<le> z \<and> z \<le> now)"

text \<open>When an idle check for \<open>z\<close> wakes, and that there is one for the current idle time.\<close>

definition check_due :: "nat \<Rightarrow> instant \<Rightarrow> duration \<Rightarrow> instant" where
  "check_due lim z timeout = (if z + timeout \<le> lim then z + timeout else z)"

definition check_pending :: "nat \<Rightarrow> pn_tunnel \<Rightarrow> bool" where
  "check_pending lim t \<longleftrightarrow>
     (case (zero_since (pt_lifecycle t), pt_idle_timeout t) of
        (Some z, Some timeout) \<Rightarrow> (check_due lim z timeout, generation (pt_lifecycle t)) \<in> set (idle_checks t)
      | _ \<Rightarrow> True)"

fun is_close :: "pn_wire \<Rightarrow> bool" where
  "is_close (WireCmd (PnClose _)) = True"
| "is_close _ = False"

definition written_ok :: "pn_tunnel \<Rightarrow> bool" where
  "written_ok t \<longleftrightarrow> list_all (\<lambda>x. \<not> is_close x) (if control_write t \<or> \<not> pt_closed t then control_written t else butlast (control_written t))"

definition life_inv :: "nat \<Rightarrow> instant \<Rightarrow> pn_world \<Rightarrow> bool" where
  "life_inv lim now w \<longleftrightarrow>
     counted w \<and> status_ok (pw_tunnel w) \<and> zero_ok now (pw_busy w) (pt_lifecycle (pw_tunnel w)) \<and>
     check_pending lim (pw_tunnel w) \<and> pw_busy w \<le> now"

section \<open>Channels are counted\<close>

subsection \<open>What keeps the lifecycle\<close>

definition same_life :: "pn_tunnel \<Rightarrow> pn_tunnel \<Rightarrow> bool" where
  "same_life t t' \<longleftrightarrow>
     pt_lifecycle t' = pt_lifecycle t \<and> pt_idle_timeout t' = pt_idle_timeout t \<and> pt_closed t' = pt_closed t \<and>
     idle_checks t' = idle_checks t"

lemma same_life_refl [simp]: "same_life t t"
  by (simp add: same_life_def)

lemma same_life_trans: "same_life t u \<Longrightarrow> same_life u v \<Longrightarrow> same_life t v"
  by (simp add: same_life_def)

lemma life_inv_same: "life_inv lim now w \<Longrightarrow> same_life (pw_tunnel w) t \<Longrightarrow> life_inv lim now (w\<lparr>pw_tunnel := t\<rparr>)"
  by (auto simp: life_inv_def same_life_def counted_def status_ok_def check_pending_def Let_def split: option.splits)

lemma with_refresh_simps [simp]:
  "pt_lifecycle (with_refresh lim now r t) = fst r"
  "pt_closed (with_refresh lim now r t) = pt_closed t"
  "pt_idle_timeout (with_refresh lim now r t) = pt_idle_timeout t"
  "control_write (with_refresh lim now r t) = control_write t"
  "control_written (with_refresh lim now r t) = control_written t"
  by (simp_all add: with_refresh_def schedule_from_refresh_def schedule_idle_check_def Let_def split: option.splits prod.splits)

lemma with_refresh_checks:
  "idle_checks (with_refresh lim now r t) =
     (case (snd r, pt_idle_timeout t) of
        (Some (z, gen), Some timeout) \<Rightarrow>
          idle_checks t @ [(now + (if z + timeout \<le> lim then z + timeout - now else 0), gen)]
      | _ \<Rightarrow> idle_checks t)"
  by (auto simp: with_refresh_def schedule_from_refresh_def schedule_idle_check_def checked_duration_since_def Let_def
      split: option.splits prod.splits)

text \<open>\<open>refresh_idle_state\<close> is called after a channel came or went: the idle time starts now or not at all.\<close>

definition refreshable :: "pn_lifecycle \<Rightarrow> bool" where
  "refreshable l \<longleftrightarrow> zero_since l = None \<or> (lc_is_open l \<and> total_channels l \<noteq> 0)"

lemma refresh_simps [simp]:
  "active_channels (fst (refresh_idle_state now l)) = active_channels l"
  "pending_channels (fst (refresh_idle_state now l)) = pending_channels l"
  "queued_channels (fst (refresh_idle_state now l)) = queued_channels l"
  "pl_status (fst (refresh_idle_state now l)) = pl_status l"
  "pl_close_reason (fst (refresh_idle_state now l)) = pl_close_reason l"
  by (simp_all add: refresh_idle_state_def)

lemma refresh_view [simp]:
  "total_channels (fst (refresh_idle_state now l)) = total_channels l"
  "lc_is_open (fst (refresh_idle_state now l)) = lc_is_open l"
  by (simp_all add: total_channels_def lc_is_open_def)

lemma refresh_zero:
  assumes "refreshable l"
  shows "zero_since (fst (refresh_idle_state now l)) = (if lc_is_open l \<and> total_channels l = 0 then Some now else None)"
  using assms by (auto simp: refresh_idle_state_def refreshable_def)

lemma refresh_asks:
  assumes "refreshable l"
  shows "snd (refresh_idle_state now l) =
      (if lc_is_open l \<and> total_channels l = 0 then Some (now, generation (fst (refresh_idle_state now l))) else None)"
  using assms by (auto simp: refresh_idle_state_def refreshable_def)

lemma refresh_zero_ok: "refreshable l \<Longrightarrow> zero_ok now now (fst (refresh_idle_state now l))"
  by (simp add: zero_ok_def refresh_zero)

lemma refresh_check_pending:
  assumes "refreshable l"
  shows "check_pending lim (with_refresh lim now (refresh_idle_state now l) t)"
  using assms
  by (auto simp: check_pending_def refresh_zero refresh_asks with_refresh_checks check_due_def split: option.splits)

lemma refresh_life_inv:
  assumes "refreshable l" and "counted (w\<lparr>pw_tunnel := (pw_tunnel w)\<lparr>pt_lifecycle := l\<rparr>\<rparr>)"
    and "status_ok ((pw_tunnel w)\<lparr>pt_lifecycle := l\<rparr>)" and "pw_busy w = now"
  shows "life_inv lim now (w\<lparr>pw_tunnel := with_refresh lim now (refresh_idle_state now l) (pw_tunnel w)\<rparr>)"
  using assms
  by (auto simp: life_inv_def refresh_zero_ok refresh_check_pending counted_def status_ok_def Let_def)

text \<open>Where the caller knows that there is a channel, the request is dropped.\<close>

lemma refresh_some_channel:
  assumes "refreshable l" and "total_channels l \<noteq> 0"
  shows "t\<lparr>pt_lifecycle := fst (refresh_idle_state now l)\<rparr> = with_refresh lim now (refresh_idle_state now l) t"
  using assms by (simp add: with_refresh_def refresh_asks schedule_from_refresh_def)

lemma zero_ok_refreshable:
  assumes "zero_ok now b l" and "total_channels l \<noteq> 0"
  shows "zero_since l = None"
  using assms by (cases "zero_since l") (simp_all add: zero_ok_def)

lemma zero_ok_not_open: "zero_ok now b l \<Longrightarrow> \<not> lc_is_open l \<Longrightarrow> zero_since l = None"
  by (cases "zero_since l") (simp_all add: zero_ok_def)

lemma status_not_open: "status_ok t \<Longrightarrow> pt_closed t \<Longrightarrow> \<not> lc_is_open (pt_lifecycle t)"
  by (auto simp: status_ok_def lc_is_open_def Let_def)

subsection \<open>Closing\<close>

lemma close_life_inv:
  assumes "life_inv lim now w"
  shows "life_inv lim now (w\<lparr>pw_tunnel := close_with_reason r (pw_tunnel w)\<rparr>)"
  using assms
  by (auto simp: life_inv_def counted_def status_ok_def zero_ok_def check_pending_def close_with_reason_def close_lifecycle_locked_def
      finish_close_def set_status_closed_def close_control_channel_def lc_is_open_def Let_def split: option.splits)

lemma pn_close_same: "same_life (close_with_reason ByManual t) (fst (pn_close t))"
  by (auto simp: same_life_def pn_close_def close_with_reason_def finish_close_def set_status_closed_def close_control_channel_def
      split: prod.splits)

text \<open>What the control channel does to a tunnel: nothing to its lifecycle, or close it.\<close>

definition quiet :: "pn_tunnel \<Rightarrow> pn_tunnel \<Rightarrow> bool" where
  "quiet t t' \<longleftrightarrow> same_life t t' \<or> (\<exists>u r. same_life t u \<and> same_life (close_with_reason r u) t')"

lemma quiet_same: "same_life t t' \<Longrightarrow> quiet t t'"
  by (simp add: quiet_def)

lemma quiet_close: "same_life t u \<Longrightarrow> quiet t (close_with_reason r u)"
  unfolding quiet_def by (metis same_life_refl)

lemma quiet_life_inv:
  assumes "life_inv lim now w" and "quiet (pw_tunnel w) t"
  shows "life_inv lim now (w\<lparr>pw_tunnel := t\<rparr>)"
  using assms(2) unfolding quiet_def
proof
  assume "same_life (pw_tunnel w) t"
  with assms(1) show ?thesis by (rule life_inv_same)
next
  assume "\<exists>u r. same_life (pw_tunnel w) u \<and> same_life (close_with_reason r u) t"
  then obtain u r where u: "same_life (pw_tunnel w) u" and t: "same_life (close_with_reason r u) t" by blast
  have "life_inv lim now (w\<lparr>pw_tunnel := u, pw_tunnel := close_with_reason r u\<rparr>)"
    using close_life_inv [OF life_inv_same [OF assms(1) u], of r] by simp
  from life_inv_same [OF this, of t] t show ?thesis by simp
qed

lemma send_control_same [simp]: "same_life t (fst (send_control io cmd t))"
  by (simp add: send_control_def same_life_def split: sum.splits)

lemma heartbeat_check_quiet: "quiet t (fst (heartbeat_check now t))"
  by (simp add: heartbeat_check_def quiet_same quiet_close)

lemma heartbeat_ping_quiet: "quiet t (fst (heartbeat_ping io ping t))"
proof -
  obtain t1 r where s: "send_control io (PnPing ping 0) t = (t1, r)" by fastforce
  then have "same_life t t1" using send_control_same [of t io "PnPing ping 0"] by simp
  then show ?thesis by (cases r) (simp_all add: heartbeat_ping_def s quiet_same quiet_close)
qed

lemma control_recv_quiet: "quiet t (fst (control_recv_step enc dec send prep alive io now r t))"
proof (cases r)
  case (Inr cmd)
  define t1 where "t1 = t\<lparr>control_last_seen := now\<rparr>"
  have t1: "same_life t t1" by (simp add: same_life_def t1_def)
  have w: "same_life t (with_control_streams enc cs t1)" for cs
    by (simp add: same_life_def with_control_streams_def t1_def)
  show ?thesis
  proof (cases cmd)
    case (PnPing ping st)
    obtain t2 rr where s: "send_control io (PnPong ping st) t1 = (t2, rr)" by fastforce
    then have "same_life t t2" using same_life_trans [OF t1 send_control_same [of t1 io "PnPong ping st"]] by simp
    with s show ?thesis
      by (cases rr) (simp_all add: control_recv_step_def Inr PnPing flip: t1_def, simp_all add: quiet_same quiet_close)
  next
    case (PnPong ping st)
    have "same_life t (mark_control_pong ping t1)"
      by (simp add: mark_control_pong_def same_life_def t1_def split: option.splits)
    then show ?thesis by (simp add: control_recv_step_def Inr PnPong quiet_same flip: t1_def)
  next
    case (PnClose x)
    then show ?thesis using t1 by (simp add: control_recv_step_def Inr quiet_close flip: t1_def)
  next
    case (PnData p)
    obtain cs rr o' where d: "on_data enc dec (control_data_sender send t1) prep alive p (control_streams t1) = (cs, rr, o')"
      by (metis prod_cases3)
    show ?thesis
      by (cases rr) (simp_all add: control_recv_step_def Inr PnData Let_def d quiet_same quiet_close w flip: t1_def)
  qed
qed (simp add: control_recv_step_def quiet_same quiet_close)

subsection \<open>Channels\<close>

lemma lc_is_open_counters [simp]:
  "lc_is_open (l\<lparr>active_channels := n\<rparr>) = lc_is_open l"
  "lc_is_open (l\<lparr>pending_channels := n\<rparr>) = lc_is_open l"
  "lc_is_open (l\<lparr>queued_channels := n\<rparr>) = lc_is_open l"
  by (simp_all add: lc_is_open_def)

lemma lifecycle_updates_commute:
  "l\<lparr>pending_channels := p, active_channels := a\<rparr> = l\<lparr>active_channels := a, pending_channels := p\<rparr>"
  "l\<lparr>queued_channels := n, pending_channels := p\<rparr> = l\<lparr>pending_channels := p, queued_channels := n\<rparr>"
  by simp_all

lemma world_updates_commute:
  "w\<lparr>pw_tunnel := t, pw_leases := n\<rparr> = w\<lparr>pw_leases := n, pw_tunnel := t\<rparr>"
  "w\<lparr>pw_tunnel := t, pw_pendings := n\<rparr> = w\<lparr>pw_pendings := n, pw_tunnel := t\<rparr>"
  "w\<lparr>pw_tunnel := t, pw_queue := n\<rparr> = w\<lparr>pw_queue := n, pw_tunnel := t\<rparr>"
  "w\<lparr>pw_tunnel := t, pw_busy := n\<rparr> = w\<lparr>pw_busy := n, pw_tunnel := t\<rparr>"
  by simp_all

lemma life_inv_parts:
  assumes "life_inv lim now w"
  shows "counted w" "status_ok (pw_tunnel w)" "zero_ok now (pw_busy w) (pt_lifecycle (pw_tunnel w))"
    "check_pending lim (pw_tunnel w)" "pw_busy w \<le> now"
  using assms by (simp_all add: life_inv_def)

lemma some_channel_zero:
  assumes "life_inv lim now w" and "0 < total_channels (pt_lifecycle (pw_tunnel w)) \<or> \<not> lc_is_open (pt_lifecycle (pw_tunnel w))"
  shows "zero_since (pt_lifecycle (pw_tunnel w)) = None"
  using assms(2) zero_ok_refreshable [OF life_inv_parts(3) [OF assms(1)]] zero_ok_not_open [OF life_inv_parts(3) [OF assms(1)]]
  by auto

lemma new_channel_life_inv:
  assumes inv: "life_inv lim now w" and op: "lc_is_open (pt_lifecycle (pw_tunnel w))"
    and l: "l = pt_lifecycle (pw_tunnel w)\<lparr>pending_channels := p, queued_channels := q\<rparr>" and pos: "0 < p + q"
    and q: "q = pw_queue w'" and p: "p = pw_pendings w'" and a: "pw_leases w' = pw_leases w" and b: "pw_busy w' = now"
    and w': "pw_tunnel w' = pw_tunnel w"
  shows "life_inv lim now (w'\<lparr>pw_tunnel := with_refresh lim now (refresh_idle_state now l) (pw_tunnel w')\<rparr>)"
proof (rule refresh_life_inv)
  show "refreshable l"
    using op pos zero_ok_refreshable [OF life_inv_parts(3) [OF inv]] by (auto simp: refreshable_def l lc_is_open_def total_channels_def)
  have "\<not> pt_closed (pw_tunnel w)" using status_not_open [OF life_inv_parts(2) [OF inv]] op by blast
  then show "counted (w'\<lparr>pw_tunnel := (pw_tunnel w')\<lparr>pt_lifecycle := l\<rparr>\<rparr>)"
    using life_inv_parts(1) [OF inv] op by (simp add: counted_def l w' Let_def p q a)
  show "status_ok ((pw_tunnel w')\<lparr>pt_lifecycle := l\<rparr>)"
    using life_inv_parts(2) [OF inv] by (auto simp: status_ok_def l w' Let_def)
qed (rule b)

lemma old_channel_life_inv:
  assumes inv: "life_inv lim now w" and pos: "0 < pw_leases w + pw_pendings w"
    and l: "l = pt_lifecycle (pw_tunnel w)\<lparr>active_channels := a, pending_channels := p\<rparr>"
    and a: "pw_leases w' = a" and p: "pw_pendings w' = p" and q: "pw_queue w' = pw_queue w" and b: "pw_busy w' = now"
    and w': "pw_tunnel w' = pw_tunnel w"
  shows "life_inv lim now (w'\<lparr>pw_tunnel := with_refresh lim now (refresh_idle_state now l) (pw_tunnel w')\<rparr>)"
proof (rule refresh_life_inv)
  have "0 < total_channels (pt_lifecycle (pw_tunnel w))"
    using pos life_inv_parts(1) [OF inv] by (auto simp: counted_def total_channels_def Let_def)
  then show "refreshable l" using some_channel_zero [OF inv] by (simp add: refreshable_def l)
  show "counted (w'\<lparr>pw_tunnel := (pw_tunnel w')\<lparr>pt_lifecycle := l\<rparr>\<rparr>)"
    using life_inv_parts(1) [OF inv] by (simp add: counted_def l w' Let_def p q a)
  show "status_ok ((pw_tunnel w')\<lparr>pt_lifecycle := l\<rparr>)"
    using life_inv_parts(2) [OF inv] by (auto simp: status_ok_def l w' Let_def)
qed (rule b)

lemma new_channel_refreshable:
  assumes "life_inv lim now w" and "lc_is_open (pt_lifecycle (pw_tunnel w))"
    and "l = pt_lifecycle (pw_tunnel w)\<lparr>pending_channels := p, queued_channels := q\<rparr>" and "0 < p + q"
  shows "(pw_tunnel w)\<lparr>pt_lifecycle := fst (refresh_idle_state now l)\<rparr> = with_refresh lim now (refresh_idle_state now l) (pw_tunnel w)"
  using assms by (intro refresh_some_channel) (auto simp: refreshable_def lc_is_open_def total_channels_def)

lemma begin_life_inv:
  assumes inv: "life_inv lim now w" and b: "begin_pending_channel now (pw_tunnel w) = (t, Inr u)"
  shows "life_inv lim now (w\<lparr>pw_tunnel := t, pw_pendings := pw_pendings w + 1, pw_busy := now\<rparr>)"
proof -
  let ?L = "pt_lifecycle (pw_tunnel w)"
  have op: "lc_is_open ?L" and t: "t = (pw_tunnel w)\<lparr>pt_lifecycle := fst (refresh_idle_state now (?L\<lparr>pending_channels := pending_channels ?L + 1\<rparr>))\<rparr>"
    using b by (auto simp: begin_pending_channel_def Let_def split: if_splits)
  define w' where "w' = w\<lparr>pw_pendings := pw_pendings w + 1, pw_busy := now\<rparr>"
  have c: "pending_channels ?L = pw_pendings w" "queued_channels ?L = pw_queue w"
    using life_inv_parts(1) [OF inv] status_not_open [OF life_inv_parts(2) [OF inv]] op by (auto simp: counted_def Let_def)
  have l: "?L\<lparr>pending_channels := pending_channels ?L + 1\<rparr> = ?L\<lparr>pending_channels := pw_pendings w + 1, queued_channels := pw_queue w\<rparr>"
    by (simp flip: c)
  have "life_inv lim now (w'\<lparr>pw_tunnel := with_refresh lim now (refresh_idle_state now (?L\<lparr>pending_channels := pending_channels ?L + 1\<rparr>)) (pw_tunnel w')\<rparr>)"
    by (rule new_channel_life_inv [OF inv op l]) (simp_all add: w'_def)
  then show ?thesis
    unfolding t by (subst new_channel_refreshable [OF inv op l]) (simp_all add: w'_def world_updates_commute)
qed

lemma push_life_inv:
  assumes inv: "life_inv lim now w" and b: "push_passive_channel now (pw_tunnel w) = (t, Inr u)"
  shows "life_inv lim now (w\<lparr>pw_tunnel := t, pw_queue := pw_queue w + 1, pw_busy := now\<rparr>)"
proof -
  let ?L = "pt_lifecycle (pw_tunnel w)"
  have op: "lc_is_open ?L" and t: "t = (pw_tunnel w)\<lparr>pt_lifecycle := fst (refresh_idle_state now (?L\<lparr>queued_channels := queued_channels ?L + 1\<rparr>))\<rparr>"
    using b by (auto simp: push_passive_channel_def Let_def split: if_splits)
  define w' where "w' = w\<lparr>pw_queue := pw_queue w + 1, pw_busy := now\<rparr>"
  have c: "pending_channels ?L = pw_pendings w" "queued_channels ?L = pw_queue w"
    using life_inv_parts(1) [OF inv] status_not_open [OF life_inv_parts(2) [OF inv]] op by (auto simp: counted_def Let_def)
  have l: "?L\<lparr>queued_channels := queued_channels ?L + 1\<rparr> = ?L\<lparr>pending_channels := pw_pendings w, queued_channels := pw_queue w + 1\<rparr>"
    by (simp flip: c)
  have "life_inv lim now (w'\<lparr>pw_tunnel := with_refresh lim now (refresh_idle_state now (?L\<lparr>queued_channels := queued_channels ?L + 1\<rparr>)) (pw_tunnel w')\<rparr>)"
    by (rule new_channel_life_inv [OF inv op l]) (simp_all add: w'_def)
  then show ?thesis
    unfolding t by (subst new_channel_refreshable [OF inv op l]) (simp_all add: w'_def world_updates_commute)
qed

lemma activate_life_inv:
  assumes inv: "life_inv lim now w" and pos: "0 < pw_pendings w" and b: "pending_to_active_channel lim now (pw_tunnel w) = (t, r)"
  shows "life_inv lim now (w\<lparr>pw_tunnel := t, pw_pendings := pw_pendings w - 1,
           pw_leases := pw_leases w + (if is_ok r then 1 else 0), pw_busy := now\<rparr>)"
proof -
  let ?L = "pt_lifecycle (pw_tunnel w)" and ?n = "if is_ok r then 1 else 0 :: nat"
  have c: "pending_channels ?L = pw_pendings w" "active_channels ?L = pw_leases w"
    using life_inv_parts(1) [OF inv] by (auto simp: counted_def Let_def)
  then have l0: "?L\<lparr>active_channels := pw_leases w, pending_channels := p\<rparr> = ?L\<lparr>pending_channels := p\<rparr>" for p by simp
  have t: "t = with_refresh lim now (refresh_idle_state now
      (?L\<lparr>active_channels := pw_leases w + ?n, pending_channels := pw_pendings w - 1\<rparr>)) (pw_tunnel w)"
    using b c by (auto simp: pending_to_active_channel_def Let_def lc_is_open_def lifecycle_updates_commute l0 split: if_splits)
  define w' where "w' = w\<lparr>pw_pendings := pw_pendings w - 1, pw_leases := pw_leases w + ?n, pw_busy := now\<rparr>"
  show ?thesis
    using old_channel_life_inv [OF inv, of "?L\<lparr>active_channels := pw_leases w + ?n, pending_channels := pw_pendings w - 1\<rparr>" _ _ w'] pos
    by (simp add: t w'_def world_updates_commute)
qed

lemma release_pending_life_inv:
  assumes inv: "life_inv lim now w" and pos: "0 < pw_pendings w"
  shows "life_inv lim now (w\<lparr>pw_tunnel := release_pending_channel lim now (pw_tunnel w), pw_pendings := pw_pendings w - 1, pw_busy := now\<rparr>)"
proof -
  let ?L = "pt_lifecycle (pw_tunnel w)"
  define w' where "w' = w\<lparr>pw_pendings := pw_pendings w - 1, pw_busy := now\<rparr>"
  have "pending_channels ?L = pw_pendings w"
    and l: "?L\<lparr>pending_channels := pw_pendings w - 1\<rparr> = ?L\<lparr>active_channels := pw_leases w, pending_channels := pw_pendings w - 1\<rparr>"
    using life_inv_parts(1) [OF inv] by (auto simp: counted_def Let_def)
  then show ?thesis
    using old_channel_life_inv [OF inv _ l, of w'] pos by (simp add: w'_def world_updates_commute release_pending_channel_def Let_def)
qed

lemma release_active_life_inv:
  assumes inv: "life_inv lim now w" and pos: "0 < pw_leases w"
  shows "life_inv lim now (w\<lparr>pw_tunnel := release_active_channel lim now (pw_tunnel w), pw_leases := pw_leases w - 1, pw_busy := now\<rparr>)"
proof -
  let ?L = "pt_lifecycle (pw_tunnel w)"
  define w' where "w' = w\<lparr>pw_leases := pw_leases w - 1, pw_busy := now\<rparr>"
  have "active_channels ?L = pw_leases w"
    and l: "?L\<lparr>active_channels := pw_leases w - 1\<rparr> = ?L\<lparr>active_channels := pw_leases w - 1, pending_channels := pw_pendings w\<rparr>"
    using life_inv_parts(1) [OF inv] by (auto simp: counted_def Let_def)
  then show ?thesis
    using old_channel_life_inv [OF inv _ l, of w'] pos by (simp add: w'_def world_updates_commute release_active_channel_def Let_def)
qed

lemma answer_life_inv:
  assumes inv: "life_inv lim now w" and pos: "0 < pw_queue w" and b: "accept_answer lim now rq (pw_tunnel w) = (t, reply, r)"
  shows "life_inv lim now (w\<lparr>pw_tunnel := t, pw_queue := pw_queue w - 1,
           pw_pendings := pw_pendings w + (if is_ok r then 1 else 0), pw_busy := now\<rparr>)"
proof (cases "lc_is_open (pt_lifecycle (pw_tunnel w))")
  case True
  let ?L = "pt_lifecycle (pw_tunnel w)"
  have c: "pending_channels ?L = pw_pendings w" "queued_channels ?L = pw_queue w" and nc: "\<not> pt_closed (pw_tunnel w)"
    using life_inv_parts(1) [OF inv] status_not_open [OF life_inv_parts(2) [OF inv]] True by (auto simp: counted_def Let_def)
  define w' where "w' = w\<lparr>pw_queue := pw_queue w - 1, pw_pendings := pw_pendings w + 1, pw_busy := now\<rparr>"
  have l: "?L\<lparr>queued_channels := queued_channels ?L - 1, pending_channels := pending_channels ?L + 1\<rparr>
      = ?L\<lparr>pending_channels := pw_pendings w + 1, queued_channels := pw_queue w - 1\<rparr>"
    by (simp add: c)
  have "life_inv lim now (w'\<lparr>pw_tunnel := with_refresh lim now
      (refresh_idle_state now (?L\<lparr>queued_channels := queued_channels ?L - 1, pending_channels := pending_channels ?L + 1\<rparr>)) (pw_tunnel w')\<rparr>)"
    by (rule new_channel_life_inv [OF inv True l]) (simp_all add: w'_def)
  moreover have "is_ok r" and "t = with_refresh lim now
      (refresh_idle_state now (?L\<lparr>queued_channels := queued_channels ?L - 1, pending_channels := pending_channels ?L + 1\<rparr>)) (pw_tunnel w)"
    using b nc True by (auto simp: accept_answer_def queued_to_pending_channel_def Let_def split: prod.splits)
  ultimately show ?thesis by (simp add: w'_def world_updates_commute)
next
  case False
  have "t = pw_tunnel w" and "\<not> is_ok r"
    using b False by (auto simp: accept_answer_def queued_to_pending_channel_def Let_def split: prod.splits if_splits)
  moreover have "zero_since (pt_lifecycle (pw_tunnel w)) = None" using some_channel_zero [OF inv] False by blast
  ultimately show ?thesis
    using inv False by (auto simp: life_inv_def counted_def zero_ok_def Let_def)
qed

subsection \<open>All runs\<close>

lemma control_life_inv:
  assumes inv: "life_inv lim now w" and st: "pl_status (pt_lifecycle (pw_tunnel w)) = StOpeningControl"
  shows "life_inv lim now (w\<lparr>pw_tunnel := set_control_channel lim now (pw_tunnel w)\<rparr>)"
proof -
  let ?L = "pt_lifecycle (pw_tunnel w)" and ?t = "(pw_tunnel w)\<lparr>control_last_seen := now, control_write := True\<rparr>"
  have z: "zero_since ?L = None" using some_channel_zero [OF inv] st by (simp add: lc_is_open_def)
  have r: "refreshable (?L\<lparr>pl_status := StOpen\<rparr>)" by (simp add: refreshable_def z)
  have "life_inv lim now ((w\<lparr>pw_tunnel := ?t, pw_busy := now\<rparr>)\<lparr>pw_tunnel :=
      with_refresh lim now (refresh_idle_state now (?L\<lparr>pl_status := StOpen\<rparr>)) (pw_tunnel (w\<lparr>pw_tunnel := ?t, pw_busy := now\<rparr>))\<rparr>)"
    using life_inv_parts(1,2) [OF inv] st
    by (intro refresh_life_inv [OF r]) (auto simp: counted_def status_ok_def lc_is_open_def Let_def)
  then show ?thesis
    using life_inv_parts(5) [OF inv] st
    by (auto simp: life_inv_def counted_def set_control_channel_def mark_control_ready_def lc_mark_control_ready_def
        zero_ok_def split: option.splits)
qed

lemma idle_life_inv:
  assumes inv: "life_inv lim now w" and due: "due \<le> now"
    and c: "close_if_idle lim now gen ((pw_tunnel w)\<lparr>idle_checks := remove1 (due, gen) (idle_checks (pw_tunnel w))\<rparr>) = Some t"
  shows "life_inv lim now (w\<lparr>pw_tunnel := t\<rparr>)"
proof -
  let ?L = "pt_lifecycle (pw_tunnel w)" and ?t = "(pw_tunnel w)\<lparr>idle_checks := remove1 (due, gen) (idle_checks (pw_tunnel w))\<rparr>"
  consider (close) "t = close_with_reason ByIdleTimeout ?t" "zero_since ?L \<noteq> None"
    | (keep) "t = ?t" "\<And>z timeout. zero_since ?L = Some z \<Longrightarrow> pt_idle_timeout ?t = Some timeout \<Longrightarrow>
        \<not> (generation ?L = gen \<and> check_due lim z timeout \<le> now)"
    using c zero_ok_refreshable [OF life_inv_parts(3) [OF inv]] zero_ok_not_open [OF life_inv_parts(3) [OF inv]]
    by (auto simp: close_if_idle_def check_due_def Let_def split: option.splits if_splits)
  then show ?thesis
  proof cases
    case close
    then show ?thesis
      using inv by (auto simp: life_inv_def counted_def status_ok_def zero_ok_def check_pending_def close_with_reason_def
          close_lifecycle_locked_def finish_close_def set_status_closed_def close_control_channel_def lc_is_open_def Let_def)
  next
    case keep
    have "check_pending lim ?t"
      using life_inv_parts(4) [OF inv] keep(2) due
      by (auto simp: check_pending_def split: option.splits intro: in_set_remove1 [THEN iffD2])
    with inv keep(1) show ?thesis by (auto simp: life_inv_def counted_def status_ok_def Let_def)
  qed
qed

lemma retire_cases:
  obtains (retired) "pl_status (pt_lifecycle t) = StOpen" and "pl_close_reason (pt_lifecycle t) = None"
      and "total_channels (pt_lifecycle t) = 0" and "\<exists>z. zero_since (pt_lifecycle t) = Some z \<and> z + idle < now"
      and "pn_try_retire_idle now idle t = (t\<lparr>pt_lifecycle := (pt_lifecycle t)
        \<lparr>pl_status := StRetired, zero_since := None, generation := generation (pt_lifecycle t) + 1\<rparr>\<rparr>, True)"
    | (kept) "pn_try_retire_idle now idle t = (t, False)"
proof (cases "pl_status (pt_lifecycle t) = StOpen \<and> pl_close_reason (pt_lifecycle t) = None \<and> total_channels (pt_lifecycle t) = 0 \<and>
    (case zero_since (pt_lifecycle t) of None \<Rightarrow> False
     | Some z \<Rightarrow> (case checked_duration_since now z of None \<Rightarrow> False | Some elapsed \<Rightarrow> elapsed > idle))")
  case True
  then have "\<exists>z. zero_since (pt_lifecycle t) = Some z \<and> z + idle < now"
    by (auto simp: checked_duration_since_def split: option.splits if_splits)
  with True retired show ?thesis unfolding pn_try_retire_idle_def Let_def by simp
next
  case False
  with kept show ?thesis unfolding pn_try_retire_idle_def Let_def by (simp only: if_False)
qed

lemma retire_life_inv:
  assumes inv: "life_inv lim now w"
  shows "life_inv lim now (w\<lparr>pw_tunnel := fst (pn_try_retire_idle now d (pw_tunnel w))\<rparr>)"
proof (cases rule: retire_cases [of "pw_tunnel w" d now])
  case retired
  with inv show ?thesis
    by (auto simp: life_inv_def counted_def status_ok_def zero_ok_def check_pending_def lc_is_open_def total_channels_def Let_def)
next
  case kept
  with inv show ?thesis by simp
qed

lemma listen_same:
  "same_life t (fst (pn_listen k vports t))"
  "same_life t (fst (listen_control_stream vports t))"
  "same_life t (fst (wait_first_listen k t))"
  "same_life t (first_listen_over k p t)"
  "same_life t (fst (send_control_open_response io res t))"
  "same_life t (mark_control_ping_sent now ping t)"
  "same_life t (with_control_streams enc cs t)"
  "same_life t (close_control_channel reason t)"
  by (auto simp: same_life_def pn_listen_def set_slot_def listen_control_stream_def wait_first_listen_def first_listen_over_def
      send_control_open_response_def mark_control_ping_sent_def with_control_streams_def close_control_channel_def Let_def
      split: sum.splits pn_channel_kind.splits first_listen_wait.splits prod.splits)

lemma life_inv_closers: "life_inv lim now w \<Longrightarrow> life_inv lim now (w\<lparr>pw_closers := n\<rparr>)"
  by (simp add: life_inv_def counted_def Let_def)

lemma life_inv_later: "life_inv lim now w \<Longrightarrow> now \<le> now' \<Longrightarrow> life_inv lim now' w"
  by (auto simp: life_inv_def zero_ok_def split: option.splits)

lemma start_life_inv:
  "life_inv lim now \<lparr>pw_tunnel = pn_tunnel_new now tid cid local remote role tls mode idle initiator,
     pw_leases = 0, pw_pendings = 0, pw_queue = 0, pw_busy = now, pw_closers = 0\<rparr>"
  by (simp add: life_inv_def counted_def status_ok_def zero_ok_def check_pending_def pn_tunnel_new_def lifecycle_new_def lc_is_open_def)

lemma reach_life_inv: "pn_reach lim w now \<Longrightarrow> life_inv lim now w"
proof (induction rule: pn_reach.induct)
  case (closed w now t spawned)
  have "life_inv lim now (w\<lparr>pw_tunnel := t\<rparr>)"
    using quiet_life_inv [OF closed.IH, of t] pn_close_same [of "pw_tunnel w"] closed.hyps(2)
    by (metis fst_conv quiet_def same_life_refl)
  then show ?case by (metis life_inv_closers)
next
  case (control_closed w now)
  have "life_inv lim now (w\<lparr>pw_tunnel := close_control_channel ByManual (pw_tunnel w)\<rparr>)"
    by (rule life_inv_same [OF control_closed.IH listen_same(8)])
  then show ?case by (metis life_inv_closers)
next
  case (begin_refused w now t e)
  then have "t = pw_tunnel w" by (auto simp: begin_pending_channel_def Let_def split: if_splits)
  with begin_refused.IH show ?case by simp
qed (blast intro: start_life_inv life_inv_later control_life_inv begin_life_inv activate_life_inv release_pending_life_inv
    release_active_life_inv push_life_inv answer_life_inv idle_life_inv retire_life_inv close_life_inv life_inv_same
    listen_same quiet_life_inv control_recv_quiet heartbeat_check_quiet heartbeat_ping_quiet)+

text \<open>C13: the three counters of a tunnel are what is held: the leases of the channels in use, the
  guards of those being opened, and those waiting to be accepted, of which a closed tunnel has none. So the
  \<open>saturating_sub\<close>s never saturate. While the tunnel is open \<open>zero_since\<close> is set exactly when there is no
  channel, to a time since which there was none, and it is not set otherwise.\<close>

theorem pn_channels_counted:
  assumes "pn_reach lim w now"
  defines "t \<equiv> pw_tunnel w" and "l \<equiv> pt_lifecycle (pw_tunnel w)"
  shows "active_channels l = pw_leases w \<and> pending_channels l = pw_pendings w \<and>
         queued_channels l = (if pt_closed t then 0 else pw_queue w) \<and>
         (pt_closed t \<longleftrightarrow> pl_status l = StClosing \<or> pl_status l = StClosed) \<and>
         (zero_since l \<noteq> None \<longleftrightarrow> lc_is_open l \<and> pw_leases w + pw_pendings w + pw_queue w = 0) \<and>
         (case zero_since l of None \<Rightarrow> True | Some z \<Rightarrow> pw_busy w \<le> z \<and> z \<le> now)"
proof -
  note inv = life_inv_parts [OF reach_life_inv [OF assms(1)]]
  have c: "active_channels l = pw_leases w" "pending_channels l = pw_pendings w"
    "queued_channels l = (if pt_closed t then 0 else pw_queue w)"
    using inv(1) by (simp_all add: counted_def t_def l_def Let_def)
  have "lc_is_open l \<Longrightarrow> \<not> pt_closed t" using status_not_open [OF inv(2)] by (auto simp: t_def l_def)
  then have "zero_since l \<noteq> None \<longleftrightarrow> lc_is_open l \<and> pw_leases w + pw_pendings w + pw_queue w = 0"
    using inv(3) c by (auto simp: zero_ok_def total_channels_def simp flip: l_def split: option.splits)
  moreover have "pt_closed t \<longleftrightarrow> pl_status l = StClosing \<or> pl_status l = StClosed"
    using inv(2) by (simp add: status_ok_def t_def l_def Let_def)
  moreover have "case zero_since l of None \<Rightarrow> True | Some z \<Rightarrow> pw_busy w \<le> z \<and> z \<le> now"
    using inv(3) by (auto simp: zero_ok_def simp flip: l_def split: option.splits)
  ultimately show ?thesis using c by blast
qed

text \<open>an open tunnel without a channel is closed in time: a check is due when it has been
  idle for the timeout, it has the generation the tunnel has, and running it then or later closes the
  tunnel, for \<open>IdleTimeout\<close>.\<close>

theorem pn_idle_tunnel_closed:
  assumes "pn_reach lim w now" and "lc_is_open (pt_lifecycle (pw_tunnel w))"
    and "pw_leases w + pw_pendings w + pw_queue w = 0" and "pt_idle_timeout (pw_tunnel w) = Some timeout" and "now + timeout \<le> lim"
    and "now + timeout \<le> later"
  shows "\<exists>due gen t. (due, gen) \<in> set (idle_checks (pw_tunnel w)) \<and> due \<le> now + timeout \<and>
           close_if_idle lim later gen (pw_tunnel w) = Some t \<and> pt_closed t \<and>
           pl_close_reason (pt_lifecycle t) = Some ByIdleTimeout"
proof -
  let ?l = "pt_lifecycle (pw_tunnel w)"
  note inv = life_inv_parts [OF reach_life_inv [OF assms(1)]]
  have tot: "total_channels ?l = 0" using assms(3) inv(1) by (auto simp: counted_def total_channels_def Let_def)
  then obtain z where z: "zero_since ?l = Some z" "z \<le> now"
    using inv(3) assms(2) by (auto simp: zero_ok_def split: option.splits)
  have "(z + timeout, generation ?l) \<in> set (idle_checks (pw_tunnel w))"
    using inv(4) z assms(4,5) by (simp add: check_pending_def check_due_def)
  moreover have "close_if_idle lim later (generation ?l) (pw_tunnel w) = Some (close_with_reason ByIdleTimeout (pw_tunnel w))"
    using z assms tot by (auto simp: close_if_idle_def Let_def)
  moreover have "pt_closed (close_with_reason ByIdleTimeout (pw_tunnel w)) \<and>
      pl_close_reason (pt_lifecycle (close_with_reason ByIdleTimeout (pw_tunnel w))) = Some ByIdleTimeout"
    using assms(2) by (simp add: close_with_reason_def close_lifecycle_locked_def finish_close_def set_status_closed_def
        close_control_channel_def lc_is_open_def Let_def)
  ultimately show ?thesis using z by (meson add_le_mono1)
qed

text \<open>and only then: whoever closes or retires a tunnel for being idle, whichever check it
  is and however the generation wrapped, does so when nothing is held and nothing came or went during the
  whole timeout.\<close>

theorem pn_idle_close_safe:
  assumes "pn_reach lim w now"
  shows "(case close_if_idle lim now gen (pw_tunnel w) of None \<Rightarrow> True
          | Some t \<Rightarrow> t = pw_tunnel w \<or>
              (\<exists>timeout. pt_idle_timeout (pw_tunnel w) = Some timeout \<and> pw_busy w + timeout \<le> now \<and>
                pw_leases w = 0 \<and> pw_pendings w = 0 \<and> pw_queue w = 0)) \<and>
         (if snd (pn_try_retire_idle now d (pw_tunnel w))
          then pw_busy w + d < now \<and> pw_leases w = 0 \<and> pw_pendings w = 0 \<and> pw_queue w = 0
          else fst (pn_try_retire_idle now d (pw_tunnel w)) = pw_tunnel w)"
proof -
  let ?l = "pt_lifecycle (pw_tunnel w)"
  note inv = life_inv_parts [OF reach_life_inv [OF assms]]
  have held: "pw_leases w = 0 \<and> pw_pendings w = 0 \<and> pw_queue w = 0 \<and> pw_busy w \<le> z" if "zero_since ?l = Some z" for z
  proof -
    have o: "lc_is_open ?l" "total_channels ?l = 0" "pw_busy w \<le> z" using inv(3) that by (simp_all add: zero_ok_def)
    with status_not_open [OF inv(2)] have "\<not> pt_closed (pw_tunnel w)" by blast
    with o inv(1) show ?thesis by (simp add: counted_def total_channels_def Let_def)
  qed
  have "case close_if_idle lim now gen (pw_tunnel w) of None \<Rightarrow> True
      | Some t \<Rightarrow> t = pw_tunnel w \<or>
          (\<exists>timeout. pt_idle_timeout (pw_tunnel w) = Some timeout \<and> pw_busy w + timeout \<le> now \<and>
            pw_leases w = 0 \<and> pw_pendings w = 0 \<and> pw_queue w = 0)"
    using held by (fastforce simp: close_if_idle_def Let_def split: option.splits)
  moreover have "if snd (pn_try_retire_idle now d (pw_tunnel w))
      then pw_busy w + d < now \<and> pw_leases w = 0 \<and> pw_pendings w = 0 \<and> pw_queue w = 0
      else fst (pn_try_retire_idle now d (pw_tunnel w)) = pw_tunnel w"
    using held by (cases rule: retire_cases [of "pw_tunnel w" d now]) fastforce+
  ultimately show ?thesis by blast
qed

section \<open>The control channel\<close>

subsection \<open>What is written\<close>

definition same_control :: "pn_tunnel \<Rightarrow> pn_tunnel \<Rightarrow> bool" where
  "same_control t t' \<longleftrightarrow> control_write t' = control_write t \<and> control_written t' = control_written t \<and> pt_closed t' = pt_closed t"

lemma written_same: "same_control t t' \<Longrightarrow> written_ok t \<Longrightarrow> written_ok t'"
  by (auto simp: same_control_def written_ok_def split: if_splits)

lemma channel_same_control:
  "same_control t (fst (begin_pending_channel now t))"
  "same_control t (fst (push_passive_channel now t))"
  "same_control t (fst (pending_to_active_channel lim now t))"
  "same_control t (fst (queued_to_pending_channel lim now t))"
  "same_control t (release_pending_channel lim now t)"
  "same_control t (release_active_channel lim now t)"
  by (simp_all add: same_control_def begin_pending_channel_def push_passive_channel_def pending_to_active_channel_def
      queued_to_pending_channel_def release_pending_channel_def release_active_channel_def Let_def)

lemma other_same_control:
  "same_control t (fst (accept_answer lim now q t))"
  "same_control t (fst (pn_try_retire_idle now d t))"
  "same_control t (fst (pn_listen k vports t))"
  "same_control t (fst (listen_control_stream vports t))"
  "same_control t (fst (wait_first_listen k t))"
  "same_control t (first_listen_over k p t)"
  "same_control t (mark_control_ping_sent now ping t)"
  "same_control t (mark_control_pong ping t)"
  using channel_same_control(4) [of t lim now]
  by (auto simp: same_control_def accept_answer_def pn_try_retire_idle_def pn_listen_def set_slot_def listen_control_stream_def
      wait_first_listen_def first_listen_over_def mark_control_ping_sent_def mark_control_pong_def Let_def
      split: sum.splits pn_channel_kind.splits first_listen_wait.splits prod.splits if_splits option.splits)

lemma close_written:
  assumes "written_ok t" and "status_ok t"
  shows "written_ok (close_with_reason r t)" and "written_ok (fst (pn_close t))"
  using assms
  by (auto simp: written_ok_def close_with_reason_def close_lifecycle_locked_def pn_close_def finish_close_def set_status_closed_def
      close_control_channel_def status_ok_def list_all_butlast Let_def split: if_splits)

lemma close_control_written: "written_ok t \<Longrightarrow> pt_closed t \<Longrightarrow> written_ok (close_control_channel r t)"
  by (auto simp: written_ok_def close_control_channel_def list_all_butlast split: if_splits)

lemma send_written:
  assumes "written_ok t" and "\<not> is_close (WireCmd cmd)"
  shows "written_ok (fst (send_control io cmd t))"
  using assms by (auto simp: written_ok_def send_control_def split: sum.splits)

lemma other_written:
  assumes "written_ok t"
  shows "written_ok (fst (send_control_open_response io res t))" and "written_ok (with_control_streams enc cs t)"
  using assms
  by (auto simp: written_ok_def send_control_open_response_def with_control_streams_def list_all_iff split: sum.splits)

lemma status_ok_same: "same_life t t' \<Longrightarrow> status_ok t \<Longrightarrow> status_ok t'"
  by (simp add: same_life_def status_ok_def)

lemma heartbeat_written:
  assumes "written_ok t" and "status_ok t"
  shows "written_ok (fst (heartbeat_check now t))" and "written_ok (fst (heartbeat_ping io ping t))"
proof -
  show "written_ok (fst (heartbeat_check now t))" using assms close_written by (simp add: heartbeat_check_def)
  obtain t1 r where s: "send_control io (PnPing ping 0) t = (t1, r)" by fastforce
  then have "written_ok t1" "status_ok t1"
    using send_written [OF assms(1), of "PnPing ping 0" io] status_ok_same [OF send_control_same assms(2), of io "PnPing ping 0"] by simp_all
  with s show "written_ok (fst (heartbeat_ping io ping t))"
    by (cases r) (simp_all add: heartbeat_ping_def close_written)
qed

lemma recv_written:
  assumes "written_ok t" and "status_ok t"
  shows "written_ok (fst (control_recv_step enc dec send prep alive io now r t))"
proof (cases r)
  case (Inr cmd)
  define t1 where "t1 = t\<lparr>control_last_seen := now\<rparr>"
  have t1: "written_ok t1" "status_ok t1" using assms by (auto simp: t1_def written_ok_def status_ok_def split: if_splits)
  show ?thesis
  proof (cases cmd)
    case (PnPing ping st)
    obtain t2 rr where s: "send_control io (PnPong ping st) t1 = (t2, rr)" by fastforce
    then have "written_ok t2" "status_ok t2"
      using send_written [OF t1(1), of "PnPong ping st" io] status_ok_same [OF send_control_same t1(2), of io "PnPong ping st"] by simp_all
    with s show ?thesis
      by (cases rr) (simp_all add: control_recv_step_def Inr PnPing flip: t1_def, simp_all add: close_written)
  next
    case (PnPong ping st)
    then show ?thesis
      using written_same [OF other_same_control(8) t1(1), of ping] by (simp add: control_recv_step_def Inr flip: t1_def)
  next
    case (PnClose x)
    then show ?thesis using t1 by (simp add: control_recv_step_def Inr close_written flip: t1_def)
  next
    case (PnData p)
    obtain cs rr o' where d: "on_data enc dec (control_data_sender send t1) prep alive p (control_streams t1) = (cs, rr, o')"
      by (metis prod_cases3)
    have "written_ok (with_control_streams enc cs t1)" "status_ok (with_control_streams enc cs t1)"
      using other_written(2) [OF t1(1)] status_ok_same [OF listen_same(7) t1(2)] by simp_all
    then show ?thesis
      by (cases rr) (simp_all add: control_recv_step_def Inr PnData Let_def d close_written flip: t1_def)
  qed
qed (use assms close_written in \<open>simp add: control_recv_step_def\<close>)

definition written_inv :: "pn_world \<Rightarrow> bool" where
  "written_inv w \<longleftrightarrow> written_ok (pw_tunnel w) \<and> (0 < pw_closers w \<longrightarrow> pt_closed (pw_tunnel w))"

lemma written_inv_same:
  "written_inv w \<Longrightarrow> same_control (pw_tunnel w) t \<Longrightarrow> pw_closers w' = pw_closers w \<Longrightarrow> pw_tunnel w' = t \<Longrightarrow> written_inv w'"
  by (auto simp: written_inv_def same_control_def written_ok_def)

lemma written_inv_closed:
  "written_inv w \<Longrightarrow> written_ok t \<Longrightarrow> (pt_closed (pw_tunnel w) \<Longrightarrow> pt_closed t) \<Longrightarrow> written_inv (w\<lparr>pw_tunnel := t\<rparr>)"
  by (auto simp: written_inv_def)

lemma close_stays_closed: "pt_closed t \<Longrightarrow> pt_closed (close_with_reason r t)"
  by (simp add: close_with_reason_def close_lifecycle_locked_def finish_close_def set_status_closed_def close_control_channel_def Let_def)

lemma quiet_stays_closed: "quiet t t' \<Longrightarrow> pt_closed t \<Longrightarrow> pt_closed t'"
  by (auto simp: quiet_def same_life_def close_stays_closed)

lemma reach_written_inv: "pn_reach lim w now \<Longrightarrow> written_inv w"
proof (induction rule: pn_reach.induct)
  case (start now tid cid local remote role tls mode idle initiator)
  then show ?case by (simp add: written_inv_def written_ok_def pn_tunnel_new_def)
next
  case (control w now)
  have "\<not> pt_closed (pw_tunnel w)"
    using control.hyps(2) life_inv_parts(2) [OF reach_life_inv [OF control.hyps(1)]] by (simp add: status_ok_def Let_def)
  with control.IH show ?case
    by (simp add: written_inv_def written_ok_def set_control_channel_def mark_control_ready_def)
next
  case (idle_check w now due gen t)
  let ?t = "(pw_tunnel w)\<lparr>idle_checks := remove1 (due, gen) (idle_checks (pw_tunnel w))\<rparr>"
  have t: "t = ?t \<or> t = close_with_reason ByIdleTimeout ?t"
    using idle_check.hyps(4) by (auto simp: close_if_idle_def Let_def split: option.splits if_splits)
  have "written_ok ?t" "status_ok ?t"
    using idle_check.IH life_inv_parts(2) [OF reach_life_inv [OF idle_check.hyps(1)]]
    by (auto simp: written_inv_def written_ok_def status_ok_def split: if_splits)
  then have "written_ok t" using t close_written(1) by auto
  moreover have "pt_closed (pw_tunnel w) \<Longrightarrow> pt_closed t" using t close_stays_closed [of ?t] by auto
  ultimately show ?case using idle_check.IH by (rule written_inv_closed [rotated])
next
  case (closed w now t spawned)
  then have "written_ok t" using close_written(2) life_inv_parts(2) [OF reach_life_inv [OF closed.hyps(1)]]
    by (metis fst_conv written_inv_def)
  moreover have "pt_closed t" if "pt_closed (pw_tunnel w) \<or> spawned"
    using that closed.hyps(2)
    by (auto simp: pn_close_def close_lifecycle_locked_def set_status_closed_def Let_def split: if_splits)
  ultimately show ?case using closed.IH by (auto simp: written_inv_def)
next
  case (control_closed w now)
  then have "pt_closed (pw_tunnel w)" "written_ok (pw_tunnel w)" by (simp_all add: written_inv_def)
  then show ?case
    using close_control_written [of "pw_tunnel w"] by (simp add: written_inv_def close_control_channel_def)
next
  case (closed_with w now reason)
  then show ?case
    using close_written(1) life_inv_parts(2) [OF reach_life_inv [OF closed_with.hyps(1)]] close_stays_closed
    by (intro written_inv_closed) (auto simp: written_inv_def)
next
  case (open_response w now io res)
  then show ?case
    using other_written(1) listen_same(5) [of "pw_tunnel w" io res]
    by (intro written_inv_closed) (auto simp: written_inv_def same_life_def)
next
  case (received w now enc dec send prep alive io r)
  then show ?case
    using recv_written life_inv_parts(2) [OF reach_life_inv [OF received.hyps]] quiet_stays_closed [OF control_recv_quiet]
    by (intro written_inv_closed) (auto simp: written_inv_def)
next
  case (heartbeat w now)
  then show ?case
    using heartbeat_written(1) life_inv_parts(2) [OF reach_life_inv [OF heartbeat.hyps]] quiet_stays_closed [OF heartbeat_check_quiet]
    by (intro written_inv_closed) (auto simp: written_inv_def)
next
  case (pinged w now io ping)
  then show ?case
    using heartbeat_written(2) life_inv_parts(2) [OF reach_life_inv [OF pinged.hyps]] quiet_stays_closed [OF heartbeat_ping_quiet]
    by (intro written_inv_closed) (auto simp: written_inv_def)
next
  case (streams w now enc cs)
  then show ?case
    using other_written(2) listen_same(7) [of "pw_tunnel w" enc cs]
    by (intro written_inv_closed) (auto simp: written_inv_def same_life_def)
next
  case (begin_refused w now t e)
  then have "same_control (pw_tunnel w) t" using channel_same_control(1) [of "pw_tunnel w" now] by simp
  from written_inv_same [OF begin_refused.IH this] show ?case by simp
next
  case (begun w now t u)
  then have "same_control (pw_tunnel w) t" using channel_same_control(1) [of "pw_tunnel w" now] by simp
  from written_inv_same [OF begun.IH this] show ?case by simp
next
  case (pushed w now t u)
  then have "same_control (pw_tunnel w) t" using channel_same_control(2) [of "pw_tunnel w" now] by simp
  from written_inv_same [OF pushed.IH this] show ?case by simp
next
  case (activated w now t r)
  then have "same_control (pw_tunnel w) t" using channel_same_control(3) [of "pw_tunnel w" lim now] by simp
  from written_inv_same [OF activated.IH this] show ?case by simp
next
  case (answered w now q t reply r)
  then have "same_control (pw_tunnel w) t" using other_same_control(1) [of "pw_tunnel w" lim now q] by simp
  from written_inv_same [OF answered.IH this] show ?case by simp
qed (assumption | rule written_inv_same, assumption, rule channel_same_control other_same_control, simp, simp)+

text \<open>the peer is told at most once that the tunnel closes, and nothing follows: however
  manual closing, idle checks, heartbeats, received commands and the streams over the control channel are
  interleaved, a \<open>Close\<close> command is the last thing written, and after it there is no channel to write to.\<close>

theorem pn_close_command_last:
  assumes "pn_reach lim w now"
  shows "filter is_close (control_written (pw_tunnel w)) = [] \<or>
         (\<exists>xs c. control_written (pw_tunnel w) = xs @ [c] \<and> is_close c \<and> filter is_close xs = [] \<and>
           pt_closed (pw_tunnel w) \<and> \<not> control_write (pw_tunnel w))"
proof (cases "control_write (pw_tunnel w) \<or> \<not> pt_closed (pw_tunnel w)")
  case True
  then have "list_all (\<lambda>x. \<not> is_close x) (control_written (pw_tunnel w))"
    using reach_written_inv [OF assms] by (auto simp: written_inv_def written_ok_def)
  then show ?thesis by (simp add: list_all_iff filter_empty_conv)
next
  case False
  then have b: "filter is_close (butlast (control_written (pw_tunnel w))) = []"
    using reach_written_inv [OF assms] by (auto simp: written_inv_def written_ok_def list_all_iff filter_empty_conv)
  show ?thesis
  proof (cases "control_written (pw_tunnel w)" rule: rev_cases)
    case (snoc xs c)
    with b have "filter is_close xs = []" by simp
    with snoc False show ?thesis by (cases "is_close c") auto
  qed simp
qed

subsection \<open>Heartbeats\<close>

text \<open>The heartbeat loop while nothing is received: the times it wakes, and what writing a ping answers.\<close>

fun silent_rounds :: "(instant \<times> unit p2p_result) list \<Rightarrow> u64 \<Rightarrow> pn_tunnel \<Rightarrow> pn_tunnel" where
  "silent_rounds [] ping t = t"
| "silent_rounds ((now, io) # ticks) ping t =
     (let (t', ping', goes_on) = heartbeat_round io now ping t
      in if goes_on then silent_rounds ticks ping' t' else t')"

lemma close_closes: "\<not> pt_closed t \<Longrightarrow> status_ok t \<Longrightarrow> pt_closed (close_with_reason r t)"
  by (simp add: close_with_reason_def close_lifecycle_locked_def finish_close_def set_status_closed_def close_control_channel_def
      status_ok_def Let_def)

lemma pn_close_closed: "status_ok t \<Longrightarrow> pt_closed (close_with_reason r t)"
  by (metis close_closes close_stays_closed)

lemma heartbeat_stop_closed: "status_ok t \<Longrightarrow> heartbeat_check now t = (t', HbStop) \<Longrightarrow> pt_closed t'"
  by (auto simp: heartbeat_check_def pn_close_closed split: if_splits)

lemma pending_round:
  assumes "status_ok t" and "control_pending_ping t = Some (p, s)"
  shows "pt_closed (fst (heartbeat_round io now ping t)) \<and> \<not> snd (snd (heartbeat_round io now ping t)) \<or>
         (heartbeat_round io now ping t = (t, ping, True) \<and> now - s < heartbeat_timeout t)"
  using assms pn_close_closed [of t] by (auto simp: heartbeat_round_def heartbeat_check_def)

lemma pending_silence_closes:
  assumes "status_ok t" and "control_pending_ping t = Some (p, s)"
    and "(tick, io) \<in> set ticks" and "s + heartbeat_timeout t \<le> tick"
  shows "pt_closed (silent_rounds ticks ping t)"
  using assms(3)
proof (induction ticks)
  case (Cons a ticks)
  obtain now' io' where a: "a = (now', io')" by fastforce
  show ?case
    using pending_round [OF assms(1,2), of io' now' ping] Cons assms(4) by (auto simp: a split: prod.splits)
qed simp


text \<open>Commands that arrive one after the other, with their times.\<close>

fun receive_all ::
    "(instant \<Rightarrow> pn_control_cmd p2p_result \<Rightarrow> pn_tunnel \<Rightarrow> pn_tunnel \<times> bool) \<Rightarrow> (instant \<times> pn_control_cmd) list \<Rightarrow> pn_tunnel \<Rightarrow> pn_tunnel" where
  "receive_all step [] t = t"
| "receive_all step ((now, cmd) # cmds) t = receive_all step cmds (fst (step now (Inr cmd) t))"

lemma close_keeps_pending:
  "control_pending_ping (close_with_reason r t) = control_pending_ping t" "heartbeat_timeout (close_with_reason r t) = heartbeat_timeout t"
  by (simp_all add: close_with_reason_def close_lifecycle_locked_def finish_close_def set_status_closed_def close_control_channel_def Let_def)

lemma recv_keeps_pending:
  fixes enc :: frame_enc and dec :: frame_dec and send :: data_sender and prep :: "unit p2p_result" and alive :: "nat \<Rightarrow> bool" and io :: "unit p2p_result" and now :: instant
  assumes "control_pending_ping t = Some (ping, s)" and "\<And>st. cmd \<noteq> PnPong ping st"
  defines "t' \<equiv> fst (control_recv_step enc dec send prep alive io now (Inr cmd) t)"
  shows "control_pending_ping t' = Some (ping, s) \<and> heartbeat_timeout t' = heartbeat_timeout t"
  using assms(1,2)
  by (cases cmd)
     (auto simp: t'_def control_recv_step_def send_control_def mark_control_pong_def with_control_streams_def close_keeps_pending Let_def
       split: sum.splits prod.splits if_splits)

lemma status_ok_closed: "status_ok t \<Longrightarrow> status_ok (close_with_reason r t)"
  by (auto simp: close_with_reason_def close_lifecycle_locked_def finish_close_def set_status_closed_def close_control_channel_def
      status_ok_def Let_def)

lemma quiet_status_ok: "quiet t t' \<Longrightarrow> status_ok t \<Longrightarrow> status_ok t'"
  unfolding quiet_def by (metis status_ok_same status_ok_closed)

text \<open>a pong that is read before its ping is noted closes the tunnel of a live peer. The
  ping's number is stored after the write returned; when the answer is processed in between it finds
  nothing to clear, and the entry that is stored then is never cleared: no further ping is sent while it is
  there, so no other pong can match it. Whatever the peer sends afterwards, the tunnel is closed for a
  heartbeat timeout. In the other order the answer clears the entry.\<close>

theorem early_pong_closes_tunnel:
  fixes enc :: frame_enc and dec :: frame_dec and send :: data_sender and prep :: "unit p2p_result" and alive :: "nat \<Rightarrow> bool"
  assumes "pn_reach lim w now" and "heartbeat_ping (Inr ()) ping (pw_tunnel w) = (t1, True)"
    and "\<forall>(tm, cmd) \<in> set cmds. \<forall>st. cmd \<noteq> PnPong ping st" and "now + heartbeat_timeout (pw_tunnel w) \<le> later"
  defines "recv \<equiv> control_recv_step enc dec send prep alive (Inr ())"
  defines "early \<equiv> mark_control_ping_sent now ping (fst (recv now (Inr (PnPong ping 0)) t1))"
  shows "pt_closed (fst (heartbeat_check later (receive_all recv cmds early))) \<and>
         control_pending_ping (fst (recv now (Inr (PnPong ping 0)) (mark_control_ping_sent now ping t1))) = None"
proof -
  have "status_ok (pw_tunnel w)" using life_inv_parts(2) [OF reach_life_inv [OF assms(1)]] .
  then have "status_ok t1" using quiet_status_ok [OF heartbeat_ping_quiet [of "pw_tunnel w" "Inr ()" ping]] assms(2) by simp
  then have "status_ok (fst (recv now (Inr (PnPong ping 0)) t1))"
    unfolding recv_def by (rule quiet_status_ok [OF control_recv_quiet])
  then have st: "status_ok early" by (simp add: early_def mark_control_ping_sent_def status_ok_def)
  have "heartbeat_timeout t1 = heartbeat_timeout (pw_tunnel w)"
    using assms(2) by (auto simp: heartbeat_ping_def send_control_def split: if_splits)
  then have to: "heartbeat_timeout early = heartbeat_timeout (pw_tunnel w)"
    by (simp add: early_def mark_control_ping_sent_def recv_def control_recv_step_def mark_control_pong_def Let_def split: option.splits)
  have "status_ok t \<Longrightarrow> control_pending_ping t = Some (ping, now) \<Longrightarrow> heartbeat_timeout t = heartbeat_timeout (pw_tunnel w) \<Longrightarrow>
      pt_closed (fst (heartbeat_check later (receive_all recv cmds t)))" for t
    using assms(3)
  proof (induction cmds arbitrary: t)
    case Nil
    then show ?case using assms(4) by (auto simp: heartbeat_check_def pn_close_closed)
  next
    case (Cons a cmds)
    obtain tm cmd where a: "a = (tm, cmd)" by fastforce
    have "status_ok (fst (recv tm (Inr cmd) t))"
      unfolding recv_def using Cons.prems(1) by (rule quiet_status_ok [OF control_recv_quiet])
    moreover have "control_pending_ping (fst (recv tm (Inr cmd) t)) = Some (ping, now) \<and>
        heartbeat_timeout (fst (recv tm (Inr cmd) t)) = heartbeat_timeout t"
      unfolding recv_def using Cons.prems(2,4) by (intro recv_keeps_pending) (auto simp: a)
    ultimately show ?case using Cons.IH Cons.prems by (simp add: a)
  qed
  then have "pt_closed (fst (heartbeat_check later (receive_all recv cmds early)))"
    using st to by (simp add: early_def mark_control_ping_sent_def)
  moreover have "control_pending_ping (fst (recv now (Inr (PnPong ping 0)) (mark_control_ping_sent now ping t1))) = None"
    by (simp add: recv_def control_recv_step_def mark_control_ping_sent_def mark_control_pong_def Let_def)
  ultimately show ?thesis ..
qed

section \<open>An idle timeout that is too long\<close>

text \<open>an idle timeout that reaches beyond the last \<open>Instant\<close>, such as \<open>Duration::MAX\<close>, does not
  mean that the tunnel stays open. The delay of the check is computed with \<open>checked_add\<close> and falls back to
  none, so the check is due as soon as the tunnel is idle; it then adds the same two values with \<open>+\<close>, which
  panics, while it holds the lock of the lifecycle.\<close>

theorem long_idle_timeout_panics:
  assumes "pn_reach lim w now" and "lc_is_open (pt_lifecycle (pw_tunnel w))"
    and "pw_leases w + pw_pendings w + pw_queue w = 0" and "pt_idle_timeout (pw_tunnel w) = Some timeout" and "lim < timeout"
  shows "\<exists>due gen. (due, gen) \<in> set (idle_checks (pw_tunnel w)) \<and> due \<le> now \<and> close_if_idle lim now gen (pw_tunnel w) = None"
proof -
  let ?l = "pt_lifecycle (pw_tunnel w)"
  note inv = life_inv_parts [OF reach_life_inv [OF assms(1)]]
  have tot: "total_channels ?l = 0" using assms(3) inv(1) by (auto simp: counted_def total_channels_def Let_def)
  then obtain z where z: "zero_since ?l = Some z" "z \<le> now"
    using inv(3) assms(2) by (auto simp: zero_ok_def split: option.splits)
  have "(z, generation ?l) \<in> set (idle_checks (pw_tunnel w))"
    using inv(4) z assms(4,5) by (simp add: check_pending_def check_due_def)
  moreover have "close_if_idle lim now (generation ?l) (pw_tunnel w) = None"
    using z assms tot by (auto simp: close_if_idle_def Let_def)
  ultimately show ?thesis using z by blast
qed

section \<open>Witnesses\<close>

definition sample_tunnel :: "duration option \<Rightarrow> pn_world" where
  "sample_tunnel idle =
     \<lparr>pw_tunnel = pn_tunnel_new 0 (TunnelId 7) (TunnelCandidateId 7) (P2pId [1]) (P2pId [2]) (RoleActive (P2pId [3])) False
        ModeDisabled idle True,
      pw_leases = 0, pw_pendings = 0, pw_queue = 0, pw_busy = 0, pw_closers = 0\<rparr>"

definition sample_ready :: "duration option \<Rightarrow> pn_world" where
  "sample_ready idle = (sample_tunnel idle)\<lparr>pw_tunnel := set_control_channel 1000 0 (pw_tunnel (sample_tunnel idle))\<rparr>"

lemma sample_ready_reach: "pn_reach 1000 (sample_ready idle) 0"
proof -
  have "pn_reach 1000 (sample_tunnel idle) 0" unfolding sample_tunnel_def by (rule pn_reach.start)
  then show ?thesis
    unfolding sample_ready_def
    by (rule pn_reach.control) (simp add: sample_tunnel_def pn_tunnel_new_def lifecycle_new_def)
qed

lemmas sample_tunnel_defs = sample_ready_def sample_tunnel_def pn_tunnel_new_def lifecycle_new_def set_control_channel_def
  mark_control_ready_def lc_mark_control_ready_def with_refresh_def refresh_idle_state_def lc_is_open_def total_channels_def
  schedule_from_refresh_def schedule_idle_check_def

lemma sample_ready_open: "lc_is_open (pt_lifecycle (pw_tunnel (sample_ready idle)))"
  "pw_leases (sample_ready idle) + pw_pendings (sample_ready idle) + pw_queue (sample_ready idle) = 0"
  "pt_idle_timeout (pw_tunnel (sample_ready idle)) = idle"
  "\<not> pt_closed (pw_tunnel (sample_ready idle))" "control_write (pw_tunnel (sample_ready idle))"
  "control_last_seen (pw_tunnel (sample_ready idle)) = 0" "control_pending_ping (pw_tunnel (sample_ready idle)) = None"
  "heartbeat_interval (pw_tunnel (sample_ready idle)) = PN_CONTROL_HEARTBEAT_INTERVAL"
  "heartbeat_timeout (pw_tunnel (sample_ready idle)) = PN_CONTROL_HEARTBEAT_TIMEOUT"
  by (simp_all add: sample_tunnel_defs Let_def split: option.splits)

theorem pn_channels_counted_witness:
  "active_channels (pt_lifecycle (pw_tunnel (sample_ready None))) = 0 \<and> zero_since (pt_lifecycle (pw_tunnel (sample_ready None))) \<noteq> None"
  using pn_channels_counted [OF sample_ready_reach [of None]] sample_ready_open(1,2) [of None]
  by (metis add_is_0)

theorem pn_idle_tunnel_closed_witness:
  "\<exists>due gen t. (due, gen) \<in> set (idle_checks (pw_tunnel (sample_ready (Some 10)))) \<and> due \<le> 10 \<and>
     close_if_idle 1000 50 gen (pw_tunnel (sample_ready (Some 10))) = Some t \<and> pt_closed t"
  using pn_idle_tunnel_closed [OF sample_ready_reach [of "Some 10"] sample_ready_open(1,2,3), of 50] by auto

theorem pn_idle_close_safe_witness:
  "\<not> snd (pn_try_retire_idle 0 5 (pw_tunnel (sample_ready None)))"
  using pn_idle_close_safe [OF sample_ready_reach [of None], of 0 5] by (simp split: if_splits)

theorem pn_close_command_last_witness:
  "\<exists>xs c. control_written (close_with_reason ByManual (pw_tunnel (sample_ready None))) = xs @ [c] \<and> is_close c"
proof -
  have "filter is_close (control_written (close_with_reason ByManual (pw_tunnel (sample_ready None)))) \<noteq> []"
    using sample_ready_open(1,5) [of None]
    by (simp add: close_with_reason_def close_lifecycle_locked_def finish_close_def set_status_closed_def close_control_channel_def
        lc_is_open_def Let_def)
  then show ?thesis
    using pn_close_command_last [OF pn_reach.closed_with [OF sample_ready_reach [of None], of ByManual]] by auto
qed


theorem early_pong_closes_tunnel_witness:
  "\<exists>t1. heartbeat_ping (Inr ()) 1 (pw_tunnel (sample_ready None)) = (t1, True) \<and>
     pt_closed (fst (heartbeat_check (from_secs 90)
       (mark_control_ping_sent 0 1 (fst (control_recv_step sample_enc sample_dec (\<lambda>_. Inr ()) (Inr ()) (\<lambda>_. True) (Inr ()) 0 (Inr (PnPong 1 0)) t1)))))"
proof -
  obtain t1 where t1: "heartbeat_ping (Inr ()) 1 (pw_tunnel (sample_ready None)) = (t1, True)"
    by (simp add: heartbeat_ping_def send_control_def sample_ready_open)
  show ?thesis
    using early_pong_closes_tunnel [OF sample_ready_reach [of None] t1, of "[]" "from_secs 90" sample_enc sample_dec] t1
    by (auto simp: sample_ready_open PN_CONTROL_HEARTBEAT_TIMEOUT_def)
qed

theorem long_idle_timeout_panics_witness:
  "\<exists>due gen. (due, gen) \<in> set (idle_checks (pw_tunnel (sample_ready (Some 5000)))) \<and> due \<le> 0 \<and>
     close_if_idle 1000 0 gen (pw_tunnel (sample_ready (Some 5000))) = None"
  using long_idle_timeout_panics [OF sample_ready_reach [of "Some 5000"] sample_ready_open(1,2,3)] by simp

end
