(* ===== verification/PnClient.thy ===== *)
theory PnClient
  imports PnTunnel
begin

text \<open>
  The client of proxy nodes (\<open>pn/client/pn_client.rs\<close>) and its listener (\<open>pn/client/pn_listener.rs\<close>): the table
  of the tunnels through proxy nodes, opening channels and tunnels through a node, and what is done with
  the streams a node opens.

  Tunnels live at addresses; the table holds \<open>Weak\<close> references, which \<open>upgrade\<close> while somebody holds the
  tunnel, so an address without a tunnel is a tunnel that was dropped. The stream to the node, what it
  answers and the resolver of nodes are parameters. Creating a tunnel waits twice for the node and is split
  there.
\<close>

section \<open>Definitions\<close>

subsection \<open>The table\<close>

type_synonym pn_tunnel_key = "p2p_id \<times> tunnel_id"

record pn_shared =
  sh_local_id :: p2p_id
  sh_gen :: u32
  sh_tls :: bool
  sh_mode :: u8
  sh_idle_timeout :: "duration option"
  sh_tunnels :: "(pn_tunnel_key, nat) hmap"
  sh_heap :: "(nat, pn_tunnel) hmap"
  sh_next :: nat

definition pn_shared_new :: "p2p_id \<Rightarrow> u32 \<Rightarrow> bool \<Rightarrow> pn_shared" where
  "pn_shared_new local gen tls =
     \<lparr>sh_local_id = local, sh_gen = gen, sh_tls = tls, sh_mode = mode_to_atomic ModeDisabled,
      sh_idle_timeout = Some DEFAULT_PN_TUNNEL_IDLE_TIMEOUT, sh_tunnels = [], sh_heap = [], sh_next = 0\<rparr>"

definition sh_stream_security_mode :: "pn_shared \<Rightarrow> pn_security_mode" where
  "sh_stream_security_mode s = mode_from_atomic (sh_mode s)"

definition set_stream_security_mode :: "pn_security_mode \<Rightarrow> pn_shared \<Rightarrow> pn_shared" where
  "set_stream_security_mode m s = s\<lparr>sh_mode := mode_to_atomic m\<rparr>"

definition set_tunnel_idle_timeout :: "duration option \<Rightarrow> pn_shared \<Rightarrow> pn_shared" where
  "set_tunnel_idle_timeout d s = s\<lparr>sh_idle_timeout := d\<rparr>"

text \<open>\<open>resolve_pn_server\<close>: the resolver when there is one, else the configured server.\<close>

definition resolve_pn_server ::
    "(p2p_id \<Rightarrow> p2p_id p2p_result) option \<Rightarrow> p2p_id option p2p_result \<Rightarrow> p2p_id \<Rightarrow> p2p_id p2p_result" where
  "resolve_pn_server resolver configured target =
     (case resolver of
        Some r \<Rightarrow> r target
      | None \<Rightarrow> (case configured of Inl e \<Rightarrow> Inl e | Inr None \<Rightarrow> Inl InvalidParam | Inr (Some i) \<Rightarrow> Inr i))"

definition upgrade :: "pn_tunnel_key \<Rightarrow> pn_shared \<Rightarrow> (nat \<times> pn_tunnel) option" where
  "upgrade k s =
     (case hm_get (sh_tunnels s) k of None \<Rightarrow> None
      | Some a \<Rightarrow> (case hm_get (sh_heap s) a of None \<Rightarrow> None | Some t \<Rightarrow> Some (a, t)))"

definition put_tunnel :: "nat \<Rightarrow> pn_tunnel \<Rightarrow> pn_shared \<Rightarrow> pn_shared" where
  "put_tunnel a t s = s\<lparr>sh_heap := hm_insert a t (sh_heap s)\<rparr>"

definition new_tunnel :: "pn_tunnel \<Rightarrow> pn_shared \<Rightarrow> pn_shared \<times> nat" where
  "new_tunnel t s = ((put_tunnel (sh_next s) t s)\<lparr>sh_next := sh_next s + 1\<rparr>, sh_next s)"

definition drop_tunnel :: "nat \<Rightarrow> pn_shared \<Rightarrow> pn_shared" where
  "drop_tunnel a s = s\<lparr>sh_heap := hm_remove a (sh_heap s)\<rparr>"

definition get_pn_tunnel :: "pn_tunnel_key \<Rightarrow> pn_shared \<Rightarrow> pn_shared \<times> nat option" where
  "get_pn_tunnel k s =
     (case upgrade k s of
        Some (a, t) \<Rightarrow> if \<not> pt_closed t then (s, Some a) else (s\<lparr>sh_tunnels := hm_remove k (sh_tunnels s)\<rparr>, None)
      | None \<Rightarrow> (s\<lparr>sh_tunnels := hm_remove k (sh_tunnels s)\<rparr>, None))"

definition unregister_tunnel :: "pn_tunnel_key \<Rightarrow> nat \<Rightarrow> pn_shared \<Rightarrow> pn_shared" where
  "unregister_tunnel k a s =
     (case upgrade k s of
        Some (cur, _) \<Rightarrow> if cur = a then s\<lparr>sh_tunnels := hm_remove k (sh_tunnels s)\<rparr> else s
      | None \<Rightarrow> s\<lparr>sh_tunnels := hm_remove k (sh_tunnels s)\<rparr>)"

definition register_control_tunnel_if_absent :: "pn_tunnel_key \<Rightarrow> nat \<Rightarrow> pn_shared \<Rightarrow> pn_shared \<times> unit p2p_result" where
  "register_control_tunnel_if_absent k a s =
     (if (case hm_get (sh_heap s) a of None \<Rightarrow> True | Some t \<Rightarrow> pt_closed t) then (s, Inl Interrupted)
      else if (case upgrade k s of None \<Rightarrow> False | Some (_, cur) \<Rightarrow> \<not> pt_closed cur) then (s, Inl AlreadyExists)
      else (s\<lparr>sh_tunnels := hm_insert k a (sh_tunnels s)\<rparr>, Inr ()))"

text \<open>A channel for a tunnel of the table: whether it was handed to the tunnel, or the error it is rejected with.\<close>

definition shared_dispatch :: "instant \<Rightarrow> pn_tunnel_key \<Rightarrow> pn_shared \<Rightarrow> pn_shared \<times> unit p2p_result" where
  "shared_dispatch now k s =
     (let (s1, found) = get_pn_tunnel k s
      in case found of
           None \<Rightarrow> (s1, Inl ErrorState)
         | Some a \<Rightarrow>
             (case hm_get (sh_heap s1) a of
                None \<Rightarrow> (s1, Inl ErrorState)
              | Some t \<Rightarrow>
                  (case push_passive_channel now t of
                     (t', Inr _) \<Rightarrow> (put_tunnel a t' s1, Inr ())
                   | (t', Inl e) \<Rightarrow> ((if pt_closed t' then unregister_tunnel k a s1 else s1), Inl e))))"

definition register_passive_control_tunnel ::
    "instant \<Rightarrow> proxy_control_open_req \<Rightarrow> p2p_id \<Rightarrow> pn_shared \<Rightarrow> pn_shared \<times> nat p2p_result" where
  "register_passive_control_tunnel now q relay s =
     (let k = (pc_from q, pc_tunnel_id q)
      in if (case upgrade k s of None \<Rightarrow> False | Some (_, t) \<Rightarrow> \<not> pt_closed t) then (s, Inl AlreadyExists)
         else let t = new_passive_control now (sh_local_id s) q (Some (sh_idle_timeout s)) (Some relay) (sh_tls s)
                        (sh_stream_security_mode s);
                  (s1, a) = new_tunnel t s
              in (s1\<lparr>sh_tunnels := hm_insert k a (hm_remove k (sh_tunnels s1))\<rparr>, Inr a))"

subsection \<open>Through the node\<close>

text \<open>\<open>pn_open_channel\<close> and \<open>open_control_channel\<close>: \<open>stream\<close> is the stream to the node, \<open>answer\<close> what the node
  answers to the request, with its timeout.\<close>

definition accept_open_resp :: "tunnel_id \<Rightarrow> proxy_open_resp p2p_result \<Rightarrow> unit p2p_result" where
  "accept_open_resp tid r =
     (case check_open_resp tid r of
        Inl e \<Rightarrow> Inl e
      | Inr res \<Rightarrow> if res = ResSuccess then Inr () else Inl (into_p2p_error res))"

definition pn_open_channel ::
    "(p2p_id \<Rightarrow> unit p2p_result) \<Rightarrow> (proxy_open_req \<Rightarrow> proxy_open_resp p2p_result) \<Rightarrow> tunnel_id \<Rightarrow> p2p_id \<Rightarrow> p2p_id \<Rightarrow> pn_channel_kind \<Rightarrow>
     tunnel_purpose \<Rightarrow> pn_shared \<Rightarrow> unit p2p_result" where
  "pn_open_channel stream answer tid relay remote k purpose s =
     (case stream relay of
        Inl e \<Rightarrow> Inl e
      | Inr _ \<Rightarrow>
          accept_open_resp tid (answer \<lparr>pr_tunnel_id = tid, pr_from = sh_local_id s, pr_to = remote, pr_kind = k, pr_purpose = purpose\<rparr>))"

definition open_control_channel ::
    "(p2p_id \<Rightarrow> unit p2p_result) \<Rightarrow> (proxy_control_open_req \<Rightarrow> proxy_open_resp p2p_result) \<Rightarrow> tunnel_id \<Rightarrow> p2p_id \<Rightarrow> p2p_id \<Rightarrow>
     pn_shared \<Rightarrow> unit p2p_result" where
  "open_control_channel stream answer tid relay remote s =
     (case stream relay of
        Inl e \<Rightarrow> Inl e
      | Inr _ \<Rightarrow> accept_open_resp tid (answer \<lparr>pc_tunnel_id = tid, pc_from = sh_local_id s, pc_to = remote\<rparr>))"

text \<open>\<open>close\<close> of a tunnel, with the removal from the table that \<open>finish_close_local\<close> does.\<close>

definition pn_close_tunnel :: "nat \<Rightarrow> pn_shared \<Rightarrow> pn_shared" where
  "pn_close_tunnel a s =
     (case hm_get (sh_heap s) a of None \<Rightarrow> s
      | Some t \<Rightarrow>
          (let (t', finished) = pn_close t; s1 = put_tunnel a t' s
           in if finished then unregister_tunnel (pt_remote_id t, pt_tunnel_id t) a s1 else s1))"

definition TUNNEL_ID_DEFAULT :: tunnel_id where
  "TUNNEL_ID_DEFAULT = TunnelId 0"

text \<open>\<open>create_tunnel_via_relay_with_options\<close>, up to the control channel, and with what opening it answered.\<close>

definition create_tunnel_begin ::
    "instant \<Rightarrow> p2p_id \<Rightarrow> p2p_id \<Rightarrow> tunnel_id \<Rightarrow> candidate_id \<Rightarrow> pn_security_mode \<Rightarrow> pn_shared \<Rightarrow> pn_shared \<times> nat" where
  "create_tunnel_begin now remote relay itid icid mode s =
     (let (tid, gen) = (if itid = TUNNEL_ID_DEFAULT then tunnel_id_generate (sh_gen s) else (itid, sh_gen s));
          cid = (if icid = TunnelCandidateId 0 then TunnelCandidateId (tunnel_value tid) else icid)
      in new_tunnel (new_active_with_relay now tid cid (sh_local_id s) remote relay (sh_tls s) mode (sh_idle_timeout s))
           (s\<lparr>sh_gen := gen\<rparr>))"

definition create_tunnel_finish ::
    "nat \<Rightarrow> instant \<Rightarrow> unit p2p_result \<Rightarrow> nat \<Rightarrow> pn_shared \<Rightarrow> pn_shared \<times> nat p2p_result" where
  "create_tunnel_finish lim now control a s =
     (case hm_get (sh_heap s) a of None \<Rightarrow> (s, Inl Interrupted)
      | Some t \<Rightarrow>
          (case (case control of Inl e \<Rightarrow> (s, Inl e)
                 | Inr _ \<Rightarrow> register_control_tunnel_if_absent (pt_remote_id t, pt_tunnel_id t) a s) of
             (s1, Inl e) \<Rightarrow> (pn_close_tunnel a s1, Inl e)
           | (s1, Inr _) \<Rightarrow> (put_tunnel a (set_control_channel lim now t) s1, Inr a)))"

subsection \<open>The listener\<close>

datatype pn_incoming = InControl proxy_control_open_req | InData proxy_open_req

text \<open>\<open>handle_stream\<close>: what to answer on the stream itself, if anything, and the tunnel, if one came. The
  success of a control open is answered over the control channel.\<close>

definition handle_stream ::
    "nat \<Rightarrow> instant \<Rightarrow> unit p2p_result \<Rightarrow> p2p_id \<Rightarrow> pn_incoming p2p_result \<Rightarrow> pn_shared \<Rightarrow>
     pn_shared \<times> proxy_open_resp option \<times> nat option p2p_result" where
  "handle_stream lim now io relay r s =
     (case r of
        Inl e \<Rightarrow> (s, None, Inl e)
      | Inr (InControl q) \<Rightarrow>
          (case register_passive_control_tunnel now q relay s of
             (s1, Inl e) \<Rightarrow> (s1, Some (open_resp (pc_tunnel_id q) ResInternalError), Inl e)
           | (s1, Inr a) \<Rightarrow>
               (case hm_get (sh_heap s1) a of None \<Rightarrow> (s1, None, Inl Interrupted)
                | Some t \<Rightarrow>
                    (case send_control_open_response io ResSuccess (set_control_channel lim now t) of
                       (t', Inl e) \<Rightarrow> (pn_close_tunnel a (put_tunnel a t' s1), None, Inl e)
                     | (t', Inr _) \<Rightarrow> (put_tunnel a t' s1, None, Inr (Some a)))))
      | Inr (InData q) \<Rightarrow>
          (case shared_dispatch now (pr_from q, pr_tunnel_id q) s of
             (s1, Inr _) \<Rightarrow> (s1, None, Inr None)
           | (s1, Inl e) \<Rightarrow> (s1, Some (open_resp (pr_tunnel_id q) ResInvalidParam), Inr None)))"

text \<open>What the callback of \<open>listen\<close> passes on: tunnels, and the errors that do not mean that the client or the
  tunnel is being closed.\<close>

definition incoming_tunnel :: "nat option p2p_result \<Rightarrow> nat p2p_result option" where
  "incoming_tunnel r =
     (case r of
        Inr (Some a) \<Rightarrow> Some (Inr a)
      | Inr None \<Rightarrow> None
      | Inl e \<Rightarrow> if e = Interrupted \<or> e = ErrorState then None else Some (Inl e))"

section \<open>The table\<close>

definition live_at :: "pn_tunnel_key \<Rightarrow> nat \<Rightarrow> pn_shared \<Rightarrow> bool" where
  "live_at k a s \<longleftrightarrow> (case upgrade k s of None \<Rightarrow> False | Some (b, t) \<Rightarrow> b = a \<and> \<not> pt_closed t)"

lemma hm_get_remove_any: "hm_get (hm_remove k m) k' = (if k' = k then None else hm_get m k')"
  by (simp add: hm_get_def hm_remove_def delete_conv')

lemma live_at_iff:
  "live_at k a s \<longleftrightarrow> hm_get (sh_tunnels s) k = Some a \<and> (\<exists>t. hm_get (sh_heap s) a = Some t \<and> \<not> pt_closed t)"
  by (auto simp: live_at_def upgrade_def split: option.splits)

lemma upgrade_live: "live_at k a s \<Longrightarrow> \<exists>t. upgrade k s = Some (a, t) \<and> hm_get (sh_heap s) a = Some t \<and> \<not> pt_closed t"
  by (auto simp: live_at_iff upgrade_def)

definition shared_ok :: "pn_shared \<Rightarrow> bool" where
  "shared_ok s \<longleftrightarrow> (\<forall>a. hm_get (sh_heap s) a \<noteq> None \<longrightarrow> a < sh_next s)"

text \<open>What leaves a live tunnel where it is: the table still names it and it is not closed.\<close>

definition keeps :: "pn_shared \<Rightarrow> pn_shared \<Rightarrow> nat set \<Rightarrow> bool" where
  "keeps s s' except \<longleftrightarrow> (\<forall>k a. live_at k a s \<longrightarrow> a \<notin> except \<longrightarrow> live_at k a s')"

lemma keepsD: "keeps s s' A \<Longrightarrow> live_at k a s \<Longrightarrow> a \<notin> A \<Longrightarrow> live_at k a s'"
  unfolding keeps_def by blast

lemma keeps_refl [simp]: "keeps s s A"
  by (simp add: keeps_def)

lemma keeps_trans: "keeps s s1 A \<Longrightarrow> keeps s1 s2 A \<Longrightarrow> keeps s s2 A"
  by (auto simp: keeps_def)

lemma keeps_mono: "keeps s s' A \<Longrightarrow> A \<subseteq> B \<Longrightarrow> keeps s s' B"
  by (auto simp: keeps_def)

lemma get_pn_tunnel_keeps: "keeps s (fst (get_pn_tunnel k s)) A"
  by (auto simp: keeps_def live_at_iff get_pn_tunnel_def upgrade_def hm_get_remove_any split: option.splits)

lemma unregister_keeps: "keeps s (unregister_tunnel k a s) {a}"
  by (auto simp: keeps_def live_at_iff unregister_tunnel_def upgrade_def hm_get_remove_any split: option.splits)

lemma unregister_closed_keeps:
  assumes "hm_get (sh_heap s) a = Some t" and "pt_closed t"
  shows "keeps s (unregister_tunnel k a s) A"
  using assms by (auto simp: keeps_def live_at_iff unregister_tunnel_def upgrade_def hm_get_remove_any split: option.splits)

lemma put_keeps: "keeps s (put_tunnel a t s) {a}"
  by (auto simp: keeps_def live_at_iff put_tunnel_def hm.get_insert)

lemma put_live_keeps: "\<not> pt_closed t \<Longrightarrow> keeps s (put_tunnel a t s) A"
  by (auto simp: keeps_def live_at_iff put_tunnel_def hm.get_insert)

lemma register_keeps: "keeps s (fst (register_control_tunnel_if_absent k a s)) A"
  by (auto simp: keeps_def live_at_iff register_control_tunnel_if_absent_def upgrade_def hm.get_insert split: option.splits)

lemma new_tunnel_keeps: "shared_ok s \<Longrightarrow> keeps s (fst (new_tunnel t s)) A"
  by (fastforce simp: keeps_def live_at_iff new_tunnel_def put_tunnel_def hm.get_insert shared_ok_def)

lemma pn_close_tunnel_keeps: "keeps s (pn_close_tunnel a s) {a}"
proof (cases "hm_get (sh_heap s) a")
  case (Some t)
  obtain t' f where c: "pn_close t = (t', f)" by fastforce
  have "keeps s (unregister_tunnel (pt_remote_id t, pt_tunnel_id t) a (put_tunnel a t' s)) {a}"
    by (rule keeps_trans [OF put_keeps unregister_keeps])
  then show ?thesis using put_keeps [of s a t'] by (cases f) (simp_all add: pn_close_tunnel_def Some c)
qed (simp add: pn_close_tunnel_def)

lemma push_open: "push_passive_channel now t = (t', r) \<Longrightarrow> pt_closed t' = pt_closed t"
  by (auto simp: push_passive_channel_def Let_def split: if_splits)

lemma dispatch_keeps: "keeps s (fst (shared_dispatch now k s)) A"
proof -
  obtain s1 found where g: "get_pn_tunnel k s = (s1, found)" by fastforce
  have k1: "keeps s s1 A" using get_pn_tunnel_keeps [of s k A] by (simp add: g)
  show ?thesis
  proof (cases found)
    case (Some a)
    then obtain t where t: "hm_get (sh_heap s1) a = Some t" "\<not> pt_closed t"
      using g by (auto simp: get_pn_tunnel_def upgrade_def split: option.splits if_splits)
    obtain t' r where p: "push_passive_channel now t = (t', r)" by fastforce
    from push_open [OF p] t(2) have nc: "\<not> pt_closed t'" by simp
    then show ?thesis
      using k1 keeps_trans [OF k1 put_live_keeps [OF nc]] by (cases r) (simp_all add: shared_dispatch_def g Some t p)
  qed (simp add: shared_dispatch_def g k1)
qed

lemma register_passive_keeps:
  assumes "shared_ok s"
  shows "keeps s (fst (register_passive_control_tunnel now q relay s)) A"
proof -
  let ?k = "(pc_from q, pc_tunnel_id q)"
  let ?t = "new_passive_control now (sh_local_id s) q (Some (sh_idle_timeout s)) (Some relay) (sh_tls s) (sh_stream_security_mode s)"
  obtain s1 a where n: "new_tunnel ?t s = (s1, a)" by fastforce
  then have h: "sh_tunnels s1 = sh_tunnels s" by (auto simp: new_tunnel_def put_tunnel_def)
  have k1: "keeps s s1 A" using new_tunnel_keeps [OF assms, of ?t A] n by simp
  have "keeps s (s1\<lparr>sh_tunnels := hm_insert ?k a (hm_remove ?k (sh_tunnels s1))\<rparr>) A"
    if "\<not> (case upgrade ?k s of None \<Rightarrow> False | Some (_, t) \<Rightarrow> \<not> pt_closed t)"
  proof -
    have "live_at k b s \<Longrightarrow> k \<noteq> ?k" for k b
      using that by (auto simp: live_at_iff upgrade_def)
    then show ?thesis using k1 by (auto simp: keeps_def live_at_iff hm.get_insert hm_get_remove_any)
  qed
  then show ?thesis by (simp add: register_passive_control_tunnel_def Let_def n)
qed

lemma create_begin_keeps: "shared_ok s \<Longrightarrow> keeps s (fst (create_tunnel_begin now remote relay itid icid mode s)) A"
proof -
  assume ok: "shared_ok s"
  have "keeps s (s\<lparr>sh_gen := g\<rparr>) A" "shared_ok (s\<lparr>sh_gen := g\<rparr>)" for g
    using ok by (simp_all add: keeps_def live_at_iff shared_ok_def)
  then have "keeps s (fst (new_tunnel t (s\<lparr>sh_gen := g\<rparr>))) A" for t g by (metis keeps_trans new_tunnel_keeps)
  then show ?thesis unfolding create_tunnel_begin_def using new_tunnel_keeps [OF ok] by (simp add: Let_def split: prod.splits)
qed

lemma with_refresh_closed: "pt_closed (set_control_channel lim now t) = pt_closed t"
  by (simp add: set_control_channel_def mark_control_ready_def)

lemma create_finish_keeps: "keeps s (fst (create_tunnel_finish lim now control a s)) {a}"
proof (cases "hm_get (sh_heap s) a")
  case (Some t)
  define c where "c = (case control of Inl e \<Rightarrow> (s, Inl e) | Inr _ \<Rightarrow> register_control_tunnel_if_absent (pt_remote_id t, pt_tunnel_id t) a s)"
  obtain s1 r where c': "c = (s1, r)" by fastforce
  have k1: "keeps s s1 {a}" using register_keeps [of s "(pt_remote_id t, pt_tunnel_id t)" a "{a}"] c' by (cases control) (simp_all add: c_def)
  show ?thesis
    using keeps_trans [OF k1 pn_close_tunnel_keeps] keeps_trans [OF k1 put_keeps]
    by (cases r) (simp_all add: create_tunnel_finish_def Some c' flip: c_def)
qed (simp add: create_tunnel_finish_def)

lemma handle_stream_keeps:
  assumes ok: "shared_ok s"
  shows "keeps s (fst (handle_stream lim now io relay r s)) A"
proof (cases r)
  case (Inr inc)
  show ?thesis
  proof (cases inc)
    case (InData q)
    obtain s1 x where "shared_dispatch now (pr_from q, pr_tunnel_id q) s = (s1, x)" by fastforce
    then show ?thesis
      using dispatch_keeps [of s now "(pr_from q, pr_tunnel_id q)" A] by (cases x) (simp_all add: handle_stream_def Inr InData)
  next
    case (InControl q)
    obtain s1 x where p: "register_passive_control_tunnel now q relay s = (s1, x)" by fastforce
    have k1: "keeps s s1 B" for B using register_passive_keeps [OF ok, of now q relay B] p by simp
    show ?thesis
    proof (cases x)
      case (Inr a)
      have "a = sh_next s"
        using p Inr by (auto simp: register_passive_control_tunnel_def new_tunnel_def Let_def split: if_splits)
      then have fresh: "\<not> live_at k a s" for k using ok by (auto simp: live_at_iff shared_ok_def)
      have strengthen: "keeps s s' A" if "keeps s s' {a}" for s' using that fresh unfolding keeps_def by blast
      show ?thesis
      proof (cases "hm_get (sh_heap s1) a")
        case (Some t)
        obtain t' rr where "send_control_open_response io ResSuccess (set_control_channel lim now t) = (t', rr)" by fastforce
        moreover have "keeps s (pn_close_tunnel a (put_tunnel a t' s1)) {a}" "keeps s (put_tunnel a t' s1) {a}"
          by (rule keeps_trans [OF keeps_trans [OF k1 put_keeps] pn_close_tunnel_keeps]) (rule keeps_trans [OF k1 put_keeps])
        ultimately show ?thesis
          using \<open>r = Inr inc\<close> by (cases rr) (simp_all add: handle_stream_def InControl p Inr Some strengthen)
      qed (use k1 \<open>r = Inr inc\<close> in \<open>simp add: handle_stream_def InControl p Inr\<close>)
    qed (use k1 \<open>r = Inr inc\<close> in \<open>simp add: handle_stream_def InControl p\<close>)
  qed
qed (simp add: handle_stream_def)

subsection \<open>Addresses are fresh\<close>

lemma put_ok: "shared_ok s \<Longrightarrow> a < sh_next s \<Longrightarrow> shared_ok (put_tunnel a t s)"
  by (simp add: shared_ok_def put_tunnel_def hm.get_insert)

lemma table_ok: "shared_ok s \<Longrightarrow> shared_ok (s\<lparr>sh_tunnels := m\<rparr>)"
  by (simp add: shared_ok_def)

lemma new_tunnel_ok: "shared_ok s \<Longrightarrow> shared_ok (fst (new_tunnel t s))"
  by (auto simp: shared_ok_def new_tunnel_def put_tunnel_def hm.get_insert less_Suc_eq)

lemma heap_below: "shared_ok s \<Longrightarrow> hm_get (sh_heap s) a = Some t \<Longrightarrow> a < sh_next s"
  by (simp add: shared_ok_def)

lemma get_pn_tunnel_ok: "shared_ok s \<Longrightarrow> shared_ok (fst (get_pn_tunnel k s))"
  by (auto simp: get_pn_tunnel_def table_ok split: option.splits)

lemma unregister_ok: "shared_ok s \<Longrightarrow> shared_ok (unregister_tunnel k a s)"
  by (auto simp: unregister_tunnel_def table_ok split: option.splits)

lemma pn_close_tunnel_ok: "shared_ok s \<Longrightarrow> shared_ok (pn_close_tunnel a s)"
  by (auto simp: pn_close_tunnel_def unregister_ok put_ok heap_below Let_def split: option.splits prod.splits)

lemma dispatch_ok:
  assumes "shared_ok s"
  shows "shared_ok (fst (shared_dispatch now k s))"
proof -
  obtain s1 found where g: "get_pn_tunnel k s = (s1, found)" by fastforce
  have "shared_ok s1" using get_pn_tunnel_ok [OF assms, of k] g by simp
  then show ?thesis
    by (auto simp: shared_dispatch_def g put_ok heap_below unregister_ok split: option.splits prod.splits sum.splits)
qed

lemma register_passive_ok:
  assumes "shared_ok s"
  shows "shared_ok (fst (register_passive_control_tunnel now q relay s))"
proof -
  have "shared_ok s1" if "new_tunnel t s = (s1, a)" for t s1 a using new_tunnel_ok [OF assms, of t] that by simp
  then show ?thesis by (auto simp: register_passive_control_tunnel_def Let_def assms table_ok split: prod.splits)
qed

lemma handle_stream_ok:
  assumes ok: "shared_ok s"
  shows "shared_ok (fst (handle_stream lim now io relay r s))"
proof -
  have "shared_ok s1" if "register_passive_control_tunnel now q relay s = (s1, x)" for q s1 x
    using register_passive_ok [OF ok, of now q relay] that by simp
  moreover have "shared_ok s1" if "shared_dispatch now k s = (s1, x)" for k s1 x
    using dispatch_ok [OF ok, of now k] that by simp
  ultimately show ?thesis
    using ok
    by (auto simp: handle_stream_def put_ok heap_below pn_close_tunnel_ok split: sum.splits pn_incoming.splits prod.splits option.splits)
qed

lemma create_begin_ok: "shared_ok s \<Longrightarrow> shared_ok (fst (create_tunnel_begin now remote relay itid icid mode s))"
  unfolding create_tunnel_begin_def
  by (auto simp: Let_def split: prod.splits intro!: new_tunnel_ok) (simp_all add: shared_ok_def)

lemma register_ok: "shared_ok s \<Longrightarrow> shared_ok (fst (register_control_tunnel_if_absent k a s))"
  by (simp add: register_control_tunnel_if_absent_def table_ok)

lemma register_heap: "sh_heap (fst (register_control_tunnel_if_absent k a s)) = sh_heap s"
  by (simp add: register_control_tunnel_if_absent_def)

lemma create_finish_ok:
  assumes ok: "shared_ok s"
  shows "shared_ok (fst (create_tunnel_finish lim now control a s))"
proof (cases "hm_get (sh_heap s) a")
  case (Some t)
  define c where "c = (case control of Inl e \<Rightarrow> (s, Inl e) | Inr _ \<Rightarrow> register_control_tunnel_if_absent (pt_remote_id t, pt_tunnel_id t) a s)"
  obtain s1 r where c': "c = (s1, r)" by fastforce
  have s1: "shared_ok s1" "sh_heap s1 = sh_heap s"
    using register_ok [OF ok, of "(pt_remote_id t, pt_tunnel_id t)" a] register_heap [of "(pt_remote_id t, pt_tunnel_id t)" a s] c' ok
    by (auto simp: c_def split: sum.splits)
  then have "a < sh_next s1" using heap_below [OF s1(1), of a t] Some by simp
  with s1 show ?thesis
    by (cases r) (simp_all add: create_tunnel_finish_def Some c' put_ok pn_close_tunnel_ok flip: c_def)
qed (simp add: create_tunnel_finish_def ok)

subsection \<open>Runs\<close>

text \<open>What happens at a client between two moments, with the tunnels that were closed, dropped, or were
  just being created.\<close>

inductive shared_run :: "nat \<Rightarrow> pn_shared \<Rightarrow> nat set \<Rightarrow> pn_shared \<Rightarrow> bool" for lim s where
  stay: "shared_run lim s {} s"
| looked: "shared_run lim s A s1 \<Longrightarrow> shared_run lim s A (fst (get_pn_tunnel k s1))"
| incoming: "shared_run lim s A s1 \<Longrightarrow> shared_run lim s A (fst (handle_stream lim now io relay r s1))"
| creating: "shared_run lim s A s1 \<Longrightarrow> shared_run lim s A (fst (create_tunnel_begin now remote relay itid icid mode s1))"
| created: "shared_run lim s A s1 \<Longrightarrow> shared_run lim s (insert a A) (fst (create_tunnel_finish lim now control a s1))"
| closing: "shared_run lim s A s1 \<Longrightarrow> shared_run lim s (insert a A) (pn_close_tunnel a s1)"
| dropping: "shared_run lim s A s1 \<Longrightarrow> shared_run lim s (insert a A) (drop_tunnel a s1)"
| working: "shared_run lim s A s1 \<Longrightarrow> hm_get (sh_heap s1) a = Some t \<Longrightarrow> \<not> pt_closed t' \<Longrightarrow>
    shared_run lim s A (put_tunnel a t' s1)"

lemma drop_keeps: "keeps s (drop_tunnel a s) {a}"
  by (auto simp: keeps_def live_at_iff drop_tunnel_def hm_get_remove_any)

lemma drop_ok: "shared_ok s \<Longrightarrow> shared_ok (drop_tunnel a s)"
  by (auto simp: shared_ok_def drop_tunnel_def hm_get_remove_any)

lemma shared_run_keeps:
  "shared_run lim s A s' \<Longrightarrow> shared_ok s \<Longrightarrow> keeps s s' A \<and> shared_ok s'"
proof (induction rule: shared_run.induct)
  case (created A s1 a now control)
  then show ?case
    using keeps_trans [OF keeps_mono [of s s1 A "insert a A"] keeps_mono [OF create_finish_keeps]] create_finish_ok by blast
next
  case (closing A s1 a)
  then show ?case
    using keeps_trans [OF keeps_mono [of s s1 A "insert a A"] keeps_mono [OF pn_close_tunnel_keeps]] pn_close_tunnel_ok by blast
next
  case (dropping A s1 a)
  then show ?case
    using keeps_trans [OF keeps_mono [of s s1 A "insert a A"] keeps_mono [OF drop_keeps]] drop_ok by blast
next
  case (working A s1 a t t')
  then show ?case using keeps_trans put_live_keeps put_ok heap_below by meson
qed (auto intro: keeps_trans get_pn_tunnel_keeps get_pn_tunnel_ok handle_stream_keeps handle_stream_ok create_begin_keeps create_begin_ok)

text \<open>C15: a tunnel keeps its place. Whatever else happens at the client, other tunnels created
  and closed under whichever keys, requests for the same key among them, a tunnel that is in the table stays
  there until it is itself closed or dropped; a second control request for its key is then refused, and a
  second tunnel that was created for the key meanwhile is closed.\<close>

theorem live_tunnel_kept:
  assumes "shared_ok s" and "shared_run lim s A s'" and "live_at k a s" and "a \<notin> A"
  shows "live_at k a s' \<and> snd (get_pn_tunnel k s') = Some a \<and>
         snd (register_passive_control_tunnel now \<lparr>pc_tunnel_id = snd k, pc_from = fst k, pc_to = to\<rparr> relay s') = Inl AlreadyExists \<and>
         \<not> is_ok (snd (register_control_tunnel_if_absent k b s'))"
proof -
  have "live_at k a s'" using shared_run_keeps [OF assms(2,1)] assms(3,4) keepsD by blast
  moreover from upgrade_live [OF this] obtain t where "upgrade k s' = Some (a, t)" "\<not> pt_closed t" by blast
  ultimately show ?thesis
    by (simp add: get_pn_tunnel_def register_passive_control_tunnel_def register_control_tunnel_if_absent_def)
qed

text \<open>a tunnel is created as a whole or not at all: when the node opened the control channel
  and no live tunnel has the key, the new tunnel is in the table, open; otherwise it is closed, the table
  does not name it, and no other tunnel is affected.\<close>

theorem create_tunnel_all_or_nothing:
  assumes "create_tunnel_finish lim now control a s = (s', r)" and "hm_get (sh_heap s) a = Some t"
    and "pl_status (pt_lifecycle t) = StOpeningControl" and "pl_close_reason (pt_lifecycle t) = None" and "\<not> pt_closed t"
    and "\<forall>k. hm_get (sh_tunnels s) k \<noteq> Some a"
  defines "k \<equiv> (pt_remote_id t, pt_tunnel_id t)"
  shows "(is_ok r \<longleftrightarrow> is_ok control \<and> (\<forall>b. \<not> live_at k b s)) \<and>
         (\<forall>k' b. b \<noteq> a \<longrightarrow> live_at k' b s \<longrightarrow> live_at k' b s') \<and>
         (\<exists>t'. hm_get (sh_heap s') a = Some t' \<and>
           (if is_ok r then live_at k a s' \<and> lc_is_open (pt_lifecycle t') else pt_closed t' \<and> (\<forall>k'. \<not> live_at k' a s')))"
proof -
  define c where "c = (case control of Inl e \<Rightarrow> (s, Inl e) | Inr _ \<Rightarrow> register_control_tunnel_if_absent k a s)"
  obtain s1 x where c': "c = (s1, x)" by fastforce
  have free: "(case upgrade k s of None \<Rightarrow> False | Some (_, cur) \<Rightarrow> \<not> pt_closed cur) \<longleftrightarrow> (\<exists>b. live_at k b s)"
    by (auto simp: live_at_def split: option.splits)
  have x: "is_ok x \<longleftrightarrow> is_ok control \<and> (\<forall>b. \<not> live_at k b s)"
    and s1: "sh_heap s1 = sh_heap s" "is_ok x \<Longrightarrow> hm_get (sh_tunnels s1) k = Some a"
    using c' assms(2,5) free
    by (auto simp: c_def register_control_tunnel_if_absent_def hm.get_insert split: sum.splits if_splits)
  have op: "lc_is_open (pt_lifecycle (set_control_channel lim now t))" "\<not> pt_closed (set_control_channel lim now t)"
    using assms(3,4,5)
    by (simp_all add: set_control_channel_def mark_control_ready_def lc_mark_control_ready_def lc_is_open_def)
  have "keeps s s' {a}" using create_finish_keeps [of s lim now control a] assms(1) by simp
  then have others: "\<forall>k' b. b \<noteq> a \<longrightarrow> live_at k' b s \<longrightarrow> live_at k' b s'" by (auto simp: keeps_def)
  have fin: "create_tunnel_finish lim now control a s =
      (case c of (s1, Inl e) \<Rightarrow> (pn_close_tunnel a s1, Inl e) | (s1, Inr _) \<Rightarrow> (put_tunnel a (set_control_channel lim now t) s1, Inr a))"
    unfolding create_tunnel_finish_def assms(2) c_def k_def by simp
  show ?thesis
  proof (cases x)
    case (Inr u)
    then have "s' = put_tunnel a (set_control_channel lim now t) s1" "is_ok r"
      using assms(1) c' by (auto simp: fin)
    then show ?thesis
      using Inr x s1 op others by (auto simp: live_at_iff put_tunnel_def hm.get_insert)
  next
    case (Inl e)
    then have s': "s' = pn_close_tunnel a s1" "\<not> is_ok r"
      using assms(1) c' by (auto simp: fin)
    obtain t' where t': "pn_close t = (t', True)" "pt_closed t'"
      using assms(3) by (auto simp: pn_close_def close_lifecycle_locked_def set_status_closed_def Let_def)
    have "hm_get (sh_heap s') a = Some t'"
      using assms(2) s1(1) t'(1) by (auto simp: s'(1) pn_close_tunnel_def put_tunnel_def unregister_tunnel_def hm.get_insert Let_def split: option.splits)
    with t'(2) s'(2) x Inl others show ?thesis by (auto simp: live_at_iff)
  qed
qed

text \<open>a channel reaches a tunnel only over its open control channel: it is queued exactly
  when the table has a live tunnel for the sender and the tunnel id, and that one is open; otherwise it is
  rejected and no tunnel changes.\<close>

theorem data_open_needs_control:
  assumes "shared_dispatch now k s = (s', r)"
  shows "(is_ok r \<longleftrightarrow> (\<exists>a t. live_at k a s \<and> hm_get (sh_heap s) a = Some t \<and> lc_is_open (pt_lifecycle t))) \<and>
         (if is_ok r
          then (\<exists>a t t'. live_at k a s' \<and> hm_get (sh_heap s) a = Some t \<and> sh_heap s' = hm_insert a t' (sh_heap s) \<and>
                  queued_channels (pt_lifecycle t') = queued_channels (pt_lifecycle t) + 1)
          else sh_heap s' = sh_heap s)"
proof (cases "\<exists>a. live_at k a s")
  case True
  then obtain a where l: "live_at k a s" ..
  then obtain t where t: "upgrade k s = Some (a, t)" "hm_get (sh_heap s) a = Some t" "\<not> pt_closed t" using upgrade_live by blast
  have g: "get_pn_tunnel k s = (s, Some a)" by (simp add: get_pn_tunnel_def t)
  have only: "live_at k b s \<Longrightarrow> b = a" for b using l by (auto simp: live_at_iff)
  show ?thesis
  proof (cases "lc_is_open (pt_lifecycle t)")
    case op: True
    then obtain t' where p: "push_passive_channel now t = (t', Inr ())"
      and q: "queued_channels (pt_lifecycle t') = queued_channels (pt_lifecycle t) + 1" "pt_closed t' = pt_closed t"
      by (simp add: push_passive_channel_def Let_def)
    have r: "s' = put_tunnel a t' s" "is_ok r" using assms by (auto simp: shared_dispatch_def g t p)
    have "live_at k a s'" using l q t by (auto simp: live_at_iff r put_tunnel_def hm.get_insert)
    with r q l t op show ?thesis by (auto simp: put_tunnel_def)
  next
    case no: False
    then have "push_passive_channel now t = (t, Inl ErrorState)" by (simp add: push_passive_channel_def)
    then have "s' = s" "\<not> is_ok r" using assms t by (auto simp: shared_dispatch_def g)
    with no only t show ?thesis by auto
  qed
next
  case False
  then have "snd (get_pn_tunnel k s) = None" "sh_heap (fst (get_pn_tunnel k s)) = sh_heap s"
    by (auto simp: get_pn_tunnel_def live_at_def split: option.splits)
  then have "\<not> is_ok r" "sh_heap s' = sh_heap s"
    using assms by (auto simp: shared_dispatch_def Let_def split: prod.splits)
  with False show ?thesis by auto
qed

section \<open>Witnesses\<close>

definition sample_creating :: "pn_shared \<times> nat" where
  "sample_creating = create_tunnel_begin 0 (P2pId [2]) (P2pId [3]) (TunnelId 7) (TunnelCandidateId 0) ModeDisabled (pn_shared_new (P2pId [1]) 5 False)"

definition sample_client :: pn_shared where
  "sample_client = fst (create_tunnel_finish 1000 0 (Inr ()) 0 (fst sample_creating))"

lemmas sample_client_defs = sample_client_def sample_creating_def create_tunnel_begin_def create_tunnel_finish_def
  pn_shared_new_def new_tunnel_def put_tunnel_def new_active_with_relay_def pn_tunnel_new_def lifecycle_new_def
  register_control_tunnel_if_absent_def upgrade_def TUNNEL_ID_DEFAULT_def hm.get_insert hm.get_empty

lemma sample_creating_fresh:
  "\<exists>t. hm_get (sh_heap (fst sample_creating)) 0 = Some t \<and> pl_status (pt_lifecycle t) = StOpeningControl \<and>
     pl_close_reason (pt_lifecycle t) = None \<and> \<not> pt_closed t \<and> pt_remote_id t = P2pId [2] \<and> pt_tunnel_id t = TunnelId 7"
  "\<forall>k. hm_get (sh_tunnels (fst sample_creating)) k \<noteq> Some 0"
  "shared_ok (fst sample_creating)"
  by (simp_all add: sample_client_defs shared_ok_def)

lemma sample_client_live: "live_at (P2pId [2], TunnelId 7) 0 sample_client" "shared_ok sample_client"
proof -
  show "shared_ok sample_client" unfolding sample_client_def by (rule create_finish_ok [OF sample_creating_fresh(3)])
  show "live_at (P2pId [2], TunnelId 7) 0 sample_client"
    by (simp add: live_at_iff sample_client_defs with_refresh_closed)
qed

theorem create_tunnel_all_or_nothing_witness: "live_at (P2pId [2], TunnelId 7) 0 sample_client"
proof -
  obtain t where t: "hm_get (sh_heap (fst sample_creating)) 0 = Some t" "pl_status (pt_lifecycle t) = StOpeningControl"
    "pl_close_reason (pt_lifecycle t) = None" "\<not> pt_closed t" "pt_remote_id t = P2pId [2]" "pt_tunnel_id t = TunnelId 7"
    using sample_creating_fresh(1) by blast
  have c: "create_tunnel_finish 1000 0 (Inr ()) 0 (fst sample_creating) = (sample_client, snd (create_tunnel_finish 1000 0 (Inr ()) 0 (fst sample_creating)))"
    by (simp add: sample_client_def)
  have "sh_tunnels (fst sample_creating) = []" by (simp add: sample_client_defs)
  then have "\<not> live_at k b (fst sample_creating)" for k b by (simp add: live_at_iff hm.get_empty)
  with create_tunnel_all_or_nothing [OF c t(1,2,3,4) sample_creating_fresh(2)] t(5,6) show ?thesis by auto
qed

theorem live_tunnel_kept_witness: "snd (get_pn_tunnel (P2pId [2], TunnelId 7) (pn_close_tunnel 9 sample_client)) = Some 0"
  using live_tunnel_kept [OF sample_client_live(2) shared_run.closing [OF shared_run.stay, of 1000 sample_client 9] sample_client_live(1)]
  by simp

theorem data_open_needs_control_witness: "\<not> is_ok (snd (shared_dispatch 5 (P2pId [9], TunnelId 7) (pn_shared_new (P2pId [1]) 5 False)))"
proof -
  have "shared_dispatch 5 (P2pId [9], TunnelId 7) (pn_shared_new (P2pId [1]) 5 False) =
      (fst (shared_dispatch 5 (P2pId [9], TunnelId 7) (pn_shared_new (P2pId [1]) 5 False)),
       snd (shared_dispatch 5 (P2pId [9], TunnelId 7) (pn_shared_new (P2pId [1]) 5 False)))" by simp
  from data_open_needs_control [OF this] show ?thesis by (simp add: live_at_iff pn_shared_new_def hm.get_empty)
qed

end
