(* ===== verification/SnPeers.thy ===== *)
theory SnPeers
  imports NatProbeScheduler RendezvousState
begin

text \<open>
  What an SN keeps of its peers (\<open>sn/service/peer_manager.rs\<close>, \<open>sn/service/call_stub.rs\<close>) and what it makes of
  the endpoints they report and are seen at (\<open>sn/service/service.rs\<close>).

  A certificate is its id, its endpoints and its encoded form. \<open>bucky_time_now()\<close> is an argument. Endpoint
  lists are compared with the source's \<open>==\<close>, which ignores the area.
\<close>

section \<open>Definitions\<close>

subsection \<open>Peers\<close>

record peer_desc =
  pd_id :: p2p_id
  pd_endpoints :: "endpoint list"
  pd_encoded :: "u8 list"

record cached_peer_info =
  desc :: peer_desc
  protocol_version :: "u8 option"
  map_ports :: "(protocol \<times> u16) list"
  last_send_time :: timestamp
  last_call_time :: timestamp
  local_eps :: "endpoint list"
  is_wan :: bool
  net_profile :: nat_profile

definition has_wan_endpoint :: "peer_desc \<Rightarrow> bool" where
  "has_wan_endpoint d \<longleftrightarrow> list_ex is_static_wan (pd_endpoints d)"

definition contain_addr :: "peer_desc \<Rightarrow> socket_addr \<Rightarrow> bool" where
  "contain_addr d a \<longleftrightarrow> list_ex (\<lambda>e. addr e = a) (pd_endpoints d)"

definition cached_peer_new :: "peer_desc \<Rightarrow> timestamp \<Rightarrow> cached_peer_info" where
  "cached_peer_new d now =
     \<lparr>desc = d, protocol_version = None, map_ports = [], last_send_time = now, last_call_time = 0, local_eps = [],
      is_wan = has_wan_endpoint d, net_profile = profile_unknown\<rparr>"

definition update_desc :: "peer_desc \<Rightarrow> cached_peer_info \<Rightarrow> cached_peer_info" where
  "update_desc d c = c\<lparr>desc := d, is_wan := has_wan_endpoint d\<rparr>"

definition update_local_eps :: "endpoint list \<Rightarrow> cached_peer_info \<Rightarrow> cached_peer_info" where
  "update_local_eps eps c = c\<lparr>local_eps := eps\<rparr>"

type_synonym peer_manager = "(p2p_id, cached_peer_info) hmap"

definition add_peer_info :: "timestamp \<Rightarrow> p2p_id \<Rightarrow> peer_desc \<Rightarrow> peer_manager \<Rightarrow> peer_manager" where
  "add_peer_info now i d m =
     (case hm_get m i of
        None \<Rightarrow> hm_insert i (cached_peer_new d now) m
      | Some c \<Rightarrow> hm_insert i (update_desc d c) m)"

definition forget_peer :: "p2p_id \<Rightarrow> peer_manager \<Rightarrow> peer_manager" where
  "forget_peer i m = hm_remove i m"

definition with_desc :: "peer_desc option \<Rightarrow> cached_peer_info \<Rightarrow> cached_peer_info" where
  "with_desc d c = (case d of Some d' \<Rightarrow> update_desc d' c | None \<Rightarrow> c)"

definition add_or_update_peer ::
    "timestamp \<Rightarrow> p2p_id \<Rightarrow> peer_desc option \<Rightarrow> u8 \<Rightarrow> (protocol \<times> u16) list \<Rightarrow> endpoint list \<Rightarrow> peer_manager \<Rightarrow> peer_manager" where
  "add_or_update_peer now i d version mapped eps m =
     (case hm_get m i of
        Some c \<Rightarrow>
          hm_insert i (update_local_eps eps ((with_desc d c)\<lparr>protocol_version := Some version, map_ports := mapped\<rparr>)) m
      | None \<Rightarrow>
          (case d of
             Some d' \<Rightarrow>
               hm_insert i (update_local_eps eps ((cached_peer_new d' now)\<lparr>protocol_version := Some version, map_ports := mapped\<rparr>)) m
           | None \<Rightarrow> m))"

definition add_or_update_peer_with_profile ::
    "timestamp \<Rightarrow> p2p_id \<Rightarrow> peer_desc option \<Rightarrow> (protocol \<times> u16) list \<Rightarrow> endpoint list \<Rightarrow> nat_profile \<Rightarrow> peer_manager \<Rightarrow> peer_manager" where
  "add_or_update_peer_with_profile now i d mapped eps profile m =
     (case hm_get m i of
        Some c \<Rightarrow> hm_insert i ((update_local_eps eps ((with_desc d c)\<lparr>map_ports := mapped\<rparr>))\<lparr>net_profile := profile\<rparr>) m
      | None \<Rightarrow>
          (case d of
             None \<Rightarrow> m
           | Some d' \<Rightarrow>
               hm_insert i ((update_local_eps eps ((cached_peer_new d' now)\<lparr>map_ports := mapped\<rparr>))\<lparr>net_profile := profile\<rparr>) m))"

definition find_peer :: "p2p_id \<Rightarrow> peer_manager \<Rightarrow> cached_peer_info option" where
  "find_peer i m = hm_get m i"

definition set_net_profile :: "p2p_id \<Rightarrow> nat_profile \<Rightarrow> peer_manager \<Rightarrow> peer_manager \<times> bool" where
  "set_net_profile i profile m =
     (case hm_get m i of
        None \<Rightarrow> (m, False)
      | Some c \<Rightarrow> (hm_insert i (c\<lparr>net_profile := profile\<rparr>) m, True))"

definition invalidate_net_profile :: "p2p_id \<Rightarrow> peer_manager \<Rightarrow> peer_manager \<times> bool" where
  "invalidate_net_profile i m = set_net_profile i profile_unknown m"

definition fresh_net_profile :: "cached_peer_info \<Rightarrow> timestamp \<Rightarrow> nat_profile option" where
  "fresh_net_profile c now = (if mapping_at (net_profile c) now \<noteq> Unknown then Some (net_profile c) else None)"

subsection \<open>Calls seen\<close>

record call_stub =
  last_recycle :: timestamp
  stubs :: "(p2p_id \<times> tunnel_id, timestamp) hmap"

definition call_stub_new :: "timestamp \<Rightarrow> call_stub" where
  "call_stub_new now = \<lparr>last_recycle = now, stubs = []\<rparr>"

definition stub_insert :: "timestamp \<Rightarrow> p2p_id \<Rightarrow> tunnel_id \<Rightarrow> call_stub \<Rightarrow> call_stub \<times> bool" where
  "stub_insert now remote tid s =
     (s\<lparr>stubs := hm_insert (remote, tid) now (stubs s)\<rparr>, hm_get (stubs s) (remote, tid) = None)"

text \<open>The differences do not wrap, both are guarded; a microsecond is 1000 nanoseconds of a duration.\<close>

definition older_than_minute :: "timestamp \<Rightarrow> timestamp \<Rightarrow> bool" where
  "older_than_minute now t \<longleftrightarrow> now > t \<and> from_micros (now - t) > from_secs 60"

definition recycle :: "timestamp \<Rightarrow> timestamp \<Rightarrow> call_stub \<Rightarrow> call_stub" where
  "recycle clock now s =
     (if older_than_minute now (last_recycle s)
      then s\<lparr>stubs := hm_retain (\<lambda>k t. \<not> older_than_minute now t) (stubs s), last_recycle := clock\<rparr>
      else s)"

subsection \<open>Endpoints\<close>

definition MAX_REPORTED_LOCAL_ENDPOINTS :: nat where
  "MAX_REPORTED_LOCAL_ENDPOINTS = 32"

definition ep_mem :: "endpoint \<Rightarrow> endpoint list \<Rightarrow> bool" where
  "ep_mem e es \<longleftrightarrow> list_ex (\<lambda>x. endpoint_eq x e) es"

definition sn_push_unique_endpoint :: "endpoint \<Rightarrow> endpoint list \<Rightarrow> endpoint list" where
  "sn_push_unique_endpoint e es = (if ep_mem e es then es else es @ [e])"

definition extend_unique_endpoints :: "endpoint list \<Rightarrow> endpoint list \<Rightarrow> endpoint list" where
  "extend_unique_endpoints es extras = fold sn_push_unique_endpoint extras es"

definition dedup_endpoints :: "endpoint list \<Rightarrow> endpoint list" where
  "dedup_endpoints es = fold sn_push_unique_endpoint es []"

text \<open>The area a reported endpoint gets, or that it is skipped.\<close>

definition reported_area :: "ip_addr option \<Rightarrow> endpoint \<Rightarrow> endpoint_area option" where
  "reported_area observed_ip e =
     (if \<not> (protocol e = Tcp \<or> protocol e = Quic) \<or> sa_port (addr e) = 0 then None
      else if (case addr e of V4 ip _ \<Rightarrow> is_private ip \<or> is_link_local4 ip | V6 _ _ _ _ \<Rightarrow> False) then Some Lan
      else if classify_reported_ipv6_area (addr e) = Some Lan then Some Lan
      else if classify_reported_ipv6_area (addr e) = Some Wan then Some Wan
      else if is_non_lan_ipv4_addr (addr e) \<and> observed_ip = Some (sa_ip (addr e)) then Some Wan
      else None)"

definition sanitize_reported_endpoints :: "endpoint list \<Rightarrow> endpoint option \<Rightarrow> endpoint list p2p_result" where
  "sanitize_reported_endpoints eps observed =
     (if length eps > MAX_REPORTED_LOCAL_ENDPOINTS then Inl OutOfLimit
      else let observed_ip = map_option (\<lambda>o'. sa_ip (addr o')) observed
           in Inr (fold (\<lambda>e acc. case reported_area observed_ip e of
                                   None \<Rightarrow> acc
                                 | Some a \<Rightarrow> sn_push_unique_endpoint (set_area a e) acc) eps []))"

definition classify_observed_endpoint :: "endpoint \<Rightarrow> endpoint list \<Rightarrow> endpoint" where
  "classify_observed_endpoint e reported =
     (if list_ex (\<lambda>r. protocol r = protocol e \<and> addr r = addr e) reported then set_area Wan e else set_area ServerReflexive e)"

definition mapped_endpoint_from_observed :: "endpoint \<Rightarrow> protocol \<Rightarrow> u16 \<Rightarrow> endpoint" where
  "mapped_endpoint_from_observed e p port = set_area Mapped (endpoint_from_ip p (sa_ip (addr e)) port)"

definition is_direct_observed_candidate :: "endpoint \<Rightarrow> bool" where
  "is_direct_observed_candidate e \<longleftrightarrow> protocol e \<noteq> Tcp"

definition mapped_candidates :: "endpoint list \<Rightarrow> (protocol \<times> u16) list \<Rightarrow> endpoint list \<Rightarrow> endpoint list" where
  "mapped_candidates observed mapped remote =
     fold (\<lambda>e acc. fold (\<lambda>(p, port) acc.
              let me = mapped_endpoint_from_observed e p port
              in if ep_mem me remote \<or> ep_mem me acc then acc else acc @ [me]) mapped acc) observed []"

definition observed_endpoint_candidates :: "endpoint list \<Rightarrow> (protocol \<times> u16) list \<Rightarrow> endpoint list \<Rightarrow> endpoint list" where
  "observed_endpoint_candidates observed mapped reported =
     (let remote = map (\<lambda>e. classify_observed_endpoint e reported) (filter is_direct_observed_candidate observed)
      in extend_unique_endpoints remote (mapped_candidates observed mapped remote))"

definition reported_endpoints_for_peer :: "cached_peer_info \<Rightarrow> endpoint list" where
  "reported_endpoints_for_peer c = extend_unique_endpoints (pd_endpoints (desc c)) (local_eps c)"

text \<open>The endpoints of the command streams of a peer, as \<open>get_peer_observed_ep\<close> lists them; \<open>matrix\<close> is the
  feature that keeps loopback addresses.\<close>

definition get_peer_observed_ep :: "bool \<Rightarrow> endpoint list \<Rightarrow> endpoint list" where
  "get_peer_observed_ep matrix remotes =
     fold (\<lambda>e acc. if (\<not> matrix \<and> is_loopback e) \<or> ep_mem e acc then acc else acc @ [e]) remotes []"

definition get_peer_wan_ep :: "bool \<Rightarrow> endpoint list \<Rightarrow> endpoint list" where
  "get_peer_wan_ep matrix remotes =
     map (set_area Wan) (filter is_direct_observed_candidate (get_peer_observed_ep matrix remotes))"

definition get_peer_wan_classied_ep :: "bool \<Rightarrow> endpoint list \<Rightarrow> endpoint list \<Rightarrow> endpoint list" where
  "get_peer_wan_classied_ep matrix remotes reported =
     map (\<lambda>e. classify_observed_endpoint e reported) (get_peer_wan_ep matrix remotes)"

section \<open>Lists of endpoints\<close>

definition ep_key :: "endpoint \<Rightarrow> protocol \<times> socket_addr" where
  "ep_key e = (protocol e, addr e)"

definition ep_distinct :: "endpoint list \<Rightarrow> bool" where
  "ep_distinct es \<longleftrightarrow> distinct (map ep_key es)"

lemma ep_key_area [simp]: "ep_key (set_area a e) = ep_key e"
  by (simp add: ep_key_def set_area_def)

lemma endpoint_eq_key: "endpoint_eq x y \<longleftrightarrow> ep_key x = ep_key y"
  by (auto simp: endpoint_eq_def ep_key_def)

lemma ep_mem_key: "ep_mem e es \<longleftrightarrow> ep_key e \<in> ep_key ` set es"
  by (auto simp: ep_mem_def list_ex_iff endpoint_eq_key) (metis image_eqI)

lemma push_unique_distinct: "ep_distinct es \<Longrightarrow> ep_distinct (sn_push_unique_endpoint e es)"
  by (auto simp: ep_distinct_def sn_push_unique_endpoint_def ep_mem_key)

lemma push_unique_keys: "ep_key ` set (sn_push_unique_endpoint e es) = insert (ep_key e) (ep_key ` set es)"
  by (auto simp: sn_push_unique_endpoint_def ep_mem_key)

lemma sn_push_unique_set: "set (sn_push_unique_endpoint e es) \<subseteq> insert e (set es)"
  by (auto simp: sn_push_unique_endpoint_def)

text \<open>A loop that pushes what a filter makes of each element, as the three loops of the service do.\<close>

definition push_all :: "('a \<Rightarrow> endpoint option) \<Rightarrow> 'a list \<Rightarrow> endpoint list \<Rightarrow> endpoint list" where
  "push_all f xs acc = fold (\<lambda>x acc. case f x of None \<Rightarrow> acc | Some e \<Rightarrow> sn_push_unique_endpoint e acc) xs acc"

lemma push_all_Cons: "push_all f (x # xs) acc = push_all f xs (case f x of None \<Rightarrow> acc | Some e \<Rightarrow> sn_push_unique_endpoint e acc)"
  by (simp add: push_all_def)

lemma push_all_distinct: "ep_distinct acc \<Longrightarrow> ep_distinct (push_all f xs acc)"
  by (induction xs arbitrary: acc) (auto simp: push_all_def push_unique_distinct split: option.splits)

lemma push_all_keys: "ep_key ` set (push_all f xs acc) = ep_key ` set acc \<union> ep_key ` (set (List.map_filter f xs))"
proof (induction xs arbitrary: acc)
  case (Cons x xs)
  then show ?case by (cases "f x") (auto simp: push_all_Cons push_unique_keys List.map_filter_simps)
qed (simp add: push_all_def List.map_filter_simps)

lemma push_all_set: "set (push_all f xs acc) \<subseteq> set acc \<union> set (List.map_filter f xs)"
proof (induction xs arbitrary: acc)
  case (Cons x xs)
  then show ?case
    using sn_push_unique_set by (cases "f x") (fastforce simp: push_all_Cons List.map_filter_simps)+
qed (simp add: push_all_def)

lemma push_all_length: "length (push_all f xs acc) \<le> length acc + length xs"
proof (induction xs arbitrary: acc)
  case (Cons x xs)
  have "length (sn_push_unique_endpoint e acc) \<le> Suc (length acc)" for e by (simp add: sn_push_unique_endpoint_def)
  then show ?case
    using Cons.IH by (cases "f x") (fastforce simp: push_all_Cons intro: order_trans)+
qed (simp add: push_all_def)

lemma in_map_filter: "e \<in> set (List.map_filter f xs) \<longleftrightarrow> (\<exists>x\<in>set xs. f x = Some e)"
  by (induction xs) (auto simp: List.map_filter_simps split: option.splits)

lemma extend_unique_push_all: "extend_unique_endpoints es extras = push_all Some extras es"
  by (simp add: extend_unique_endpoints_def push_all_def)

lemma dedup_push_all: "dedup_endpoints es = push_all Some es []"
  by (simp add: dedup_endpoints_def push_all_def)

definition reported_endpoint :: "ip_addr option \<Rightarrow> endpoint \<Rightarrow> endpoint option" where
  "reported_endpoint ip e = map_option (\<lambda>a. set_area a e) (reported_area ip e)"

lemma sanitize_push_all:
  "sanitize_reported_endpoints eps observed =
     (if length eps > 32 then Inl OutOfLimit
      else Inr (push_all (reported_endpoint (map_option (\<lambda>o'. sa_ip (addr o')) observed)) eps []))"
proof -
  have "(\<lambda>e acc. case reported_area ip e of None \<Rightarrow> acc | Some a \<Rightarrow> sn_push_unique_endpoint (set_area a e) acc) =
      (\<lambda>e acc. case reported_endpoint ip e of None \<Rightarrow> acc | Some x \<Rightarrow> sn_push_unique_endpoint x acc)" for ip
    by (auto simp: reported_endpoint_def fun_eq_iff split: option.splits)
  then show ?thesis
    by (simp add: sanitize_reported_endpoints_def push_all_def MAX_REPORTED_LOCAL_ENDPOINTS_def Let_def)
qed

lemma non_lan_v4: "is_non_lan_ipv4_addr a \<Longrightarrow> is_ipv4 a"
  by (cases a) simp_all

lemma v4_not_ipv6_area: "is_ipv4 a \<Longrightarrow> classify_reported_ipv6_area a = None"
  by (cases a) simp_all

lemma reported_keys:
  "ep_key ` set (List.map_filter (reported_endpoint ip) eps) = {ep_key e | e. e \<in> set eps \<and> reported_area ip e \<noteq> None}"
proof -
  have "ep_key ` set (List.map_filter (reported_endpoint ip) eps) = ep_key ` {e \<in> set eps. reported_area ip e \<noteq> None}"
  proof (induction eps)
    case (Cons e eps)
    then show ?case by (cases "reported_area ip e") (auto simp: List.map_filter_simps reported_endpoint_def Collect_conv_if2 insert_Collect)
  qed (simp add: List.map_filter_simps)
  then show ?thesis by blast
qed

text \<open>what a peer reports about itself is checked against where it is seen: the SN keeps at
  most 32 endpoints, none twice, all TCP or QUIC with a port, exactly those for which there is an area; an
  IPv4 endpoint passes as public only with the very address the peer is seen at.\<close>

theorem reported_endpoints_sane:
  assumes "sanitize_reported_endpoints eps observed = Inr kept"
  shows "length kept \<le> 32 \<and> ep_distinct kept \<and>
         ep_key ` set kept = {ep_key e | e. e \<in> set eps \<and> reported_area (map_option (\<lambda>o'. sa_ip (addr o')) observed) e \<noteq> None} \<and>
         (\<forall>k \<in> set kept. (protocol k = Tcp \<or> protocol k = Quic) \<and> sa_port (addr k) \<noteq> 0 \<and>
            (if is_ipv4 (addr k) \<and> area k \<noteq> Lan then area k = Wan \<and> (\<exists>o'. observed = Some o' \<and> sa_ip (addr k) = sa_ip (addr o')) else True))"
proof -
  let ?ip = "map_option (\<lambda>o'. sa_ip (addr o')) observed"
  have kept: "kept = push_all (reported_endpoint ?ip) eps []" and len: "length eps \<le> 32"
    using assms by (simp_all add: sanitize_push_all split: if_splits)
  have "length kept \<le> 32" using push_all_length [of "reported_endpoint ?ip" eps "[]"] len kept by simp
  moreover have "ep_distinct kept" unfolding kept by (rule push_all_distinct) (simp add: ep_distinct_def)
  moreover have "ep_key ` set kept = {ep_key e | e. e \<in> set eps \<and> reported_area ?ip e \<noteq> None}"
    unfolding kept push_all_keys by (simp add: reported_keys)
  moreover have "(protocol k = Tcp \<or> protocol k = Quic) \<and> sa_port (addr k) \<noteq> 0 \<and>
      (if is_ipv4 (addr k) \<and> area k \<noteq> Lan then area k = Wan \<and> (\<exists>o'. observed = Some o' \<and> sa_ip (addr k) = sa_ip (addr o')) else True)"
    if "k \<in> set kept" for k
  proof -
    have "k \<in> set (List.map_filter (reported_endpoint ?ip) eps)"
      using that push_all_set [of "reported_endpoint ?ip" eps "[]"] unfolding kept by auto
    then obtain e a where e: "reported_area ?ip e = Some a" "k = set_area a e"
      unfolding in_map_filter reported_endpoint_def by auto
    then show ?thesis
      by (auto simp: reported_area_def set_area_def v4_not_ipv6_area split: if_splits)
  qed
  ultimately show ?thesis by blast
qed

subsection \<open>Candidates\<close>

lemma mapped_inner_set:
  "set (fold (\<lambda>(p, port) acc. let me = mapped_endpoint_from_observed e p port
        in if ep_mem me remote \<or> ep_mem me acc then acc else acc @ [me]) mapped acc)
   \<subseteq> set acc \<union> {mapped_endpoint_from_observed e p port | p port. (p, port) \<in> set mapped}"
  by (induction mapped arbitrary: acc) (fastforce simp: Let_def split: if_splits)+

lemma mapped_candidates_set:
  "set (mapped_candidates observed mapped remote) \<subseteq>
     {mapped_endpoint_from_observed e p port | e p port. e \<in> set observed \<and> (p, port) \<in> set mapped}"
proof -
  have "set (fold (\<lambda>e acc. fold (\<lambda>(p, port) acc. let me = mapped_endpoint_from_observed e p port
          in if ep_mem me remote \<or> ep_mem me acc then acc else acc @ [me]) mapped acc) observed acc)
      \<subseteq> set acc \<union> {mapped_endpoint_from_observed e p port | e p port. e \<in> set observed \<and> (p, port) \<in> set mapped}" for acc
  proof (induction observed arbitrary: acc)
    case (Cons e es)
    show ?case
      using Cons.IH [of "fold (\<lambda>(p, port) acc. let me = mapped_endpoint_from_observed e p port
          in if ep_mem me remote \<or> ep_mem me acc then acc else acc @ [me]) mapped acc"] mapped_inner_set [of e remote mapped acc]
      by fastforce
  qed simp
  from this [of "[]"] show ?thesis by (simp add: mapped_candidates_def)
qed

lemma mapped_ip: "sa_ip (addr (mapped_endpoint_from_observed e p port)) = sa_ip (addr e)"
  by (cases "sa_ip (addr e)") (simp_all add: mapped_endpoint_from_observed_def set_area_def endpoint_from_ip_def)

text \<open>the SN tells others to reach a peer only where it is seen: every candidate has the
  address of one of the peer's command streams; it is the stream's own address, when that is not TCP, or the
  address with a port the peer mapped.\<close>

theorem candidates_on_observed_addresses:
  assumes "c \<in> set (observed_endpoint_candidates observed mapped reported)"
  shows "\<exists>e \<in> set observed. sa_ip (addr c) = sa_ip (addr e) \<and>
           (if area c = Mapped then (\<exists>port. (protocol c, port) \<in> set mapped \<and> sa_port (addr c) = port)
            else ep_key c = ep_key e \<and> protocol e \<noteq> Tcp \<and> area c \<in> {Wan, ServerReflexive})"
proof -
  let ?remote = "map (\<lambda>e. classify_observed_endpoint e reported) (filter is_direct_observed_candidate observed)"
  from assms have "c \<in> set ?remote \<union> set (mapped_candidates observed mapped ?remote)"
    using push_all_set [of Some "mapped_candidates observed mapped ?remote" ?remote]
    by (auto simp: observed_endpoint_candidates_def extend_unique_push_all in_map_filter Let_def)
  then show ?thesis
  proof
    assume "c \<in> set ?remote"
    then obtain e where e: "e \<in> set observed" "protocol e \<noteq> Tcp" "c = classify_observed_endpoint e reported"
      by (auto simp: is_direct_observed_candidate_def)
    then show ?thesis
      by (intro bexI [of _ e]) (auto simp: classify_observed_endpoint_def set_area_def ep_key_def)
  next
    assume "c \<in> set (mapped_candidates observed mapped ?remote)"
    then obtain e p port where e: "e \<in> set observed" "(p, port) \<in> set mapped" "c = mapped_endpoint_from_observed e p port"
      using mapped_candidates_set [of observed mapped ?remote] by auto
    have "area c = Mapped" "protocol c = p" "sa_port (addr c) = port"
      using e(3) by (cases "sa_ip (addr e)"; simp add: mapped_endpoint_from_observed_def set_area_def endpoint_from_ip_def)+
    with e mapped_ip [of e p port] show ?thesis by (intro bexI [of _ e]) auto
  qed
qed

section \<open>Peers and calls\<close>

text \<open>What the SN knows of a peer is consistent: \<open>is_wan\<close> says whether the certificate names a public endpoint.\<close>

definition peers_ok :: "peer_manager \<Rightarrow> bool" where
  "peers_ok m \<longleftrightarrow> (\<forall>i c. hm_get m i = Some c \<longrightarrow> is_wan c = has_wan_endpoint (desc c))"

lemma hm_removed: "hm_get (hm_remove k m) k' = (if k' = k then None else hm_get m k')"
  by (simp add: hm_get_def hm_remove_def delete_conv')

lemma peers_ok_ops:
  assumes "peers_ok m"
  shows "peers_ok (add_peer_info now i d m)" and "peers_ok (forget_peer i m)"
    and "peers_ok (add_or_update_peer now i d' version mapped eps m)"
    and "peers_ok (add_or_update_peer_with_profile now i d' mapped eps profile m)"
    and "peers_ok (fst (set_net_profile i profile m))" and "peers_ok (fst (invalidate_net_profile i m))"
  using assms
  by (auto simp: peers_ok_def add_peer_info_def forget_peer_def add_or_update_peer_def add_or_update_peer_with_profile_def
      set_net_profile_def invalidate_net_profile_def hm.get_insert hm_removed update_desc_def with_desc_def update_local_eps_def
      cached_peer_new_def split: option.splits)

lemma stub_insert_once:
  "snd (stub_insert now a tid s) \<longleftrightarrow> hm_get (stubs s) (a, tid) = None"
  "hm_get (stubs (fst (stub_insert now a tid s))) (b, tid') = (if (b, tid') = (a, tid) then Some now else hm_get (stubs s) (b, tid'))"
  by (simp_all add: stub_insert_def hm.get_insert)

text \<open>\<open>recycle\<close> forgets exactly the calls of more than a minute ago, at most once a minute.\<close>

theorem recycle_forgets_old_calls:
  assumes "hm_wf (stubs s)"
  shows "hm_get (stubs (recycle clock now s)) k =
     (case hm_get (stubs s) k of None \<Rightarrow> None
      | Some t \<Rightarrow> if older_than_minute now (last_recycle s) \<and> older_than_minute now t then None else Some t)"
  using assms by (auto simp: recycle_def hm_get_retain split: option.splits)

theorem recycle_forgets_old_calls_witness:
  "snd (stub_insert 0 (P2pId [1]) (TunnelId 1)
     (recycle 0 61000000 \<lparr>last_recycle = 0, stubs = [((P2pId [1], TunnelId 1), 0)]\<rparr>))"
proof -
  have "older_than_minute 61000000 0" by (simp add: older_than_minute_def from_micros_def from_secs_def)
  with recycle_forgets_old_calls [of "\<lparr>last_recycle = 0, stubs = [((P2pId [1], TunnelId 1), 0)]\<rparr>" 0 61000000 "(P2pId [1], TunnelId 1)"]
  show ?thesis by (simp add: stub_insert_once hm_get_def hm_wf_def)
qed

theorem reported_endpoints_sane_witness:
  "\<exists>kept. sanitize_reported_endpoints [sample_path] (Some sample_path) = Inr kept \<and> length kept \<le> 32 \<and> kept \<noteq> []"
proof -
  obtain kept where k: "sanitize_reported_endpoints [sample_path] (Some sample_path) = Inr kept"
    by (simp add: sanitize_push_all)
  moreover have "kept \<noteq> []"
    using k by (auto simp: sanitize_push_all push_all_def reported_endpoint_def reported_area_def sample_path_def sn_push_unique_endpoint_def
        ep_mem_def is_unspecified4_def is_broadcast4_def)
  ultimately show ?thesis using reported_endpoints_sane [OF k] by blast
qed

theorem candidates_on_observed_addresses_witness:
  "\<exists>e \<in> set [sample_path]. sa_ip (addr (set_area ServerReflexive sample_path)) = sa_ip (addr e)"
proof -
  have "set_area ServerReflexive sample_path \<in> set (observed_endpoint_candidates [sample_path] [] [])"
    by (simp add: observed_endpoint_candidates_def extend_unique_push_all push_all_def mapped_candidates_def
        is_direct_observed_candidate_def classify_observed_endpoint_def sample_path_def)
  from candidates_on_observed_addresses [OF this] show ?thesis by blast
qed

end
