(* ===== verification/SnService.thy ===== *)
theory SnService
  imports SnPeers PnService Membership
begin

text \<open>
  The service of an SN (\<open>SnService\<close> of \<open>sn/service/service.rs\<close>): reports, queries, calls and rendezvous of
  clients, the same from other SNs, and the upkeep of the NAT probing, over the peer manager, the call stub,
  the probe scheduler and the rendezvous table.

  The command server's list of streams of a peer, the certificate factory, the validators, the owner
  directory and other SNs are parameters (\<open>sn_env\<close>, and arguments for what is awaited). A handler is one
  function where its awaits only ask for such a parameter; it is split where it waits for a peer.
\<close>

section \<open>Definitions\<close>

subsection \<open>Messages\<close>

record sn_tunnel_rendezvous_notify =
  nt_seq :: sequence
  nt_tunnel_id :: tunnel_id
  nt_peer_info :: "u8 list"
  nt_operation :: rendezvous_operation
  nt_end_point_array :: "endpoint list"
  nt_need_predict_endpoint :: bool

definition validate_notify :: "bool \<Rightarrow> (endpoint \<Rightarrow> endpoint \<Rightarrow> bool) \<Rightarrow> sn_tunnel_rendezvous_notify \<Rightarrow> unit p2p_result" where
  "validate_notify matrix hit n =
     (if seq_value (nt_seq n) = 0 then Inl InvalidParam
      else validate_rendezvous_endpoints matrix hit (nt_end_point_array n) (nt_operation n))"

datatype tunnel_type = TypeDatagram | TypeStream

record sn_call =
  ca_seq :: sequence
  ca_tunnel_id :: tunnel_id
  ca_sn_peer_id :: p2p_id
  ca_to_peer_id :: p2p_id
  ca_from_peer_id :: p2p_id
  ca_reverse_endpoint_array :: "endpoint list option"
  ca_active_pn_list :: "p2p_id list option"
  ca_peer_info :: "u8 list option"
  ca_send_time :: timestamp
  ca_call_type :: tunnel_type
  ca_payload :: "u8 list"
  ca_is_always_call :: bool
  ca_nat_context :: "nat_traversal_context option"

record sn_called =
  cd_seq :: sequence
  cd_to_peer_id :: p2p_id
  cd_sn_peer_id :: p2p_id
  cd_peer_info :: "u8 list"
  cd_tunnel_id :: tunnel_id
  cd_call_send_time :: timestamp
  cd_call_type :: tunnel_type
  cd_payload :: "u8 list"
  cd_reverse_endpoint_array :: "endpoint list"
  cd_active_pn_list :: "p2p_id list"
  cd_nat_context :: "nat_traversal_context option"

record sn_call_resp =
  cr_seq :: sequence
  cr_sn_peer_id :: p2p_id
  cr_result :: u8
  cr_to_peer_info :: "u8 list option"

record report_sn =
  rp_protocol_version :: u8
  rp_seq :: sequence
  rp_from_peer_id :: "p2p_id option"
  rp_peer_info :: "u8 list option"
  rp_map_ports :: "(protocol \<times> u16) list"
  rp_local_eps :: "endpoint list"
  rp_net_profile :: "nat_profile option"
  rp_control_version :: "u8 option"
  rp_probe_result :: "nat_probe_result option"

record report_sn_resp =
  rr_seq :: sequence
  rr_sn_peer_id :: p2p_id
  rr_result :: u8
  rr_peer_info :: "u8 list option"
  rr_end_point_array :: "endpoint list"
  rr_nat_probe_ports :: "u16 list"
  rr_nat_probe_directive :: "nat_probe_directive option"

record sn_query_resp =
  qr_seq :: sequence
  qr_peer_info :: "u8 list option"
  qr_end_point_array :: "endpoint list"
  qr_net_profile :: "nat_profile option"
  qr_target_protocol_version :: "u8 option"

record serving_peer_detail =
  sd_peer_info :: "u8 list"
  sd_endpoints :: "endpoint list"
  sd_net_profile :: "nat_profile option"
  sd_target_protocol_version :: "u8 option"

record relay_call_outcome =
  ro_accepted :: bool
  ro_to_peer_info :: "u8 list option"

datatype inter_sn_command =
    InterHeartbeat | InterPublishLease | InterQueryLease | QueryDetail | RelayCall | RelayRendezvous

subsection \<open>State and surroundings\<close>

record 't sn_service =
  ss_peers :: peer_manager
  ss_stub :: call_stub
  ss_probes :: "'t scheduler"
  ss_rendezvous :: rendezvous_state
  ss_seq :: u32
  ss_local_sn_id :: "p2p_id option"
  ss_local_cert :: "u8 list option"
  ss_cursor :: u64

text \<open>\<open>streams\<close>: the command streams of a peer with the remote endpoint of each; \<open>create\<close>: the certificate
  factory; \<open>validate_client\<close>, \<open>inter_connection\<close>, \<open>inter_command\<close>: the validators; \<open>env_matrix\<close> and \<open>env_hit\<close> as
  for the rendezvous messages; \<open>notify_encodes\<close>, \<open>called_encodes\<close>: whether a message encodes; \<open>send_called\<close>:
  sending over all streams of a peer.\<close>

record 't sn_env =
  streams_of :: "p2p_id \<Rightarrow> ('t \<times> endpoint) list"
  create_cert :: "u8 list \<Rightarrow> peer_desc p2p_result"
  validate_client :: "p2p_id \<Rightarrow> u8 list \<Rightarrow> validate_result p2p_result"
  env_matrix :: bool
  env_hit :: "endpoint \<Rightarrow> endpoint \<Rightarrow> bool"
  notify_encodes :: "sn_tunnel_rendezvous_notify \<Rightarrow> bool"
  called_encodes :: "sn_called \<Rightarrow> bool"
  send_called :: "p2p_id \<Rightarrow> sn_called \<Rightarrow> unit p2p_result"
  inter_connection :: "p2p_id \<Rightarrow> validate_result p2p_result"
  inter_command :: "p2p_id \<Rightarrow> inter_sn_command \<Rightarrow> p2p_id \<Rightarrow> validate_result p2p_result"

definition SN_TUNNEL_RENDEZVOUS_CMD_VERSION :: u8 where
  "SN_TUNNEL_RENDEZVOUS_CMD_VERSION = 1"

definition sn_service_new :: "timestamp \<Rightarrow> u32 \<Rightarrow> p2p_id option \<Rightarrow> 't sn_service" where
  "sn_service_new now sq sn =
     \<lparr>ss_peers = [], ss_stub = call_stub_new now, ss_probes = scheduler_new (case sn of Some i \<Rightarrow> i | None \<Rightarrow> zero_id),
      ss_rendezvous = rs_new, ss_seq = sq, ss_local_sn_id = sn, ss_local_cert = None, ss_cursor = 0\<rparr>"

text \<open>Of the local identity only the certificate is used.\<close>

definition set_local_identity :: "u8 list \<Rightarrow> 't sn_service \<Rightarrow> 't sn_service" where
  "set_local_identity cert s = s\<lparr>ss_local_cert := Some cert\<rparr>"

definition set_nat_probe_ports :: "u16 list \<Rightarrow> 't sn_service \<Rightarrow> 't sn_service" where
  "set_nat_probe_ports ps s =
     (let (sch, affected) = set_ports ps (ss_probes s)
      in s\<lparr>ss_probes := sch, ss_peers := fold (\<lambda>p m. fst (invalidate_net_profile p m)) affected (ss_peers s)\<rparr>)"

definition effective_local_sn_id :: "p2p_id \<Rightarrow> 't sn_service \<Rightarrow> p2p_id" where
  "effective_local_sn_id local s = (case ss_local_sn_id s of Some i \<Rightarrow> i | None \<Rightarrow> local)"

definition require_accept :: "validate_result p2p_result \<Rightarrow> unit p2p_result" where
  "require_accept r =
     (case r of Inl e \<Rightarrow> Inl e | Inr ValidateAccept \<Rightarrow> Inr () | Inr ValidateReject \<Rightarrow> Inl PermissionDenied)"

definition validate_connection :: "'t sn_env \<Rightarrow> p2p_id \<times> u8 list \<Rightarrow> unit p2p_result" where
  "validate_connection env ctx = require_accept (validate_client env (fst ctx) (snd ctx))"

definition validate_context_from_cert :: "'t sn_env \<Rightarrow> p2p_id \<Rightarrow> u8 list \<Rightarrow> (p2p_id \<times> u8 list) p2p_result" where
  "validate_context_from_cert env client cert =
     (case create_cert env cert of
        Inl e \<Rightarrow> Inl e
      | Inr d \<Rightarrow> if pd_id d \<noteq> client then Inl PermissionDenied else Inr (client, cert))"

definition client_cert_from_request_or_cache :: "p2p_id \<Rightarrow> u8 list option \<Rightarrow> peer_manager \<Rightarrow> u8 list p2p_result" where
  "client_cert_from_request_or_cache client req m =
     (case req of
        Some c \<Rightarrow> Inr c
      | None \<Rightarrow> (case find_peer client m of None \<Rightarrow> Inl PermissionDenied | Some c \<Rightarrow> Inr (pd_encoded (desc c))))"

definition checked_client :: "'t sn_env \<Rightarrow> p2p_id \<Rightarrow> u8 list p2p_result \<Rightarrow> unit p2p_result" where
  "checked_client env client cert =
     (case cert of Inl e \<Rightarrow> Inl e
      | Inr c \<Rightarrow> (case validate_context_from_cert env client c of Inl e \<Rightarrow> Inl e | Inr ctx \<Rightarrow> validate_connection env ctx))"

definition get_peer_tunnel_remote :: "'t sn_env \<Rightarrow> p2p_id \<Rightarrow> 't \<Rightarrow> endpoint option" where
  "get_peer_tunnel_remote env p t = map_of (streams_of env p) t"

definition observed_of :: "'t sn_env \<Rightarrow> p2p_id \<Rightarrow> endpoint list" where
  "observed_of env p = get_peer_observed_ep (env_matrix env) (map snd (streams_of env p))"

subsection \<open>NAT probing\<close>

definition finish_nat_probe_authority_reconcile ::
    "p2p_id \<Rightarrow> 't \<Rightarrow> u64 \<Rightarrow> bool \<Rightarrow> 't sn_service \<Rightarrow> 't sn_service" where
  "finish_nat_probe_authority_reconcile p t gen present s =
     (if present then s
      else let (sch, removed) = remove_peer_if_authority p t gen (ss_probes s)
           in if removed then s\<lparr>ss_probes := sch, ss_peers := fst (invalidate_net_profile p (ss_peers s))\<rparr> else s)"

definition authority_path_present :: "'t sn_env \<Rightarrow> p2p_id \<Rightarrow> 't \<Rightarrow> endpoint option \<Rightarrow> bool" where
  "authority_path_present env p t observed =
     list_ex (\<lambda>(conn, remote). conn = t \<or> (case observed of None \<Rightarrow> False | Some o' \<Rightarrow> same_observed_path o' remote)) (streams_of env p)"

definition reconcile_nat_probe_authority :: "'t sn_env \<Rightarrow> p2p_id \<Rightarrow> 't sn_service \<Rightarrow> 't sn_service" where
  "reconcile_nat_probe_authority env p s =
     (case authority_registration (ss_probes s) p of
        None \<Rightarrow> s
      | Some (t, gen) \<Rightarrow>
          finish_nat_probe_authority_reconcile p t gen
            (authority_path_present env p t (authority_observed_endpoint (ss_probes s) p)) s)"

definition apply_nat_probe_transition ::
    "p2p_id \<Rightarrow> probe_transition \<Rightarrow> 't sn_service \<Rightarrow> 't sn_service \<times> nat_probe_directive option" where
  "apply_nat_probe_transition p tr s =
     ((case profile_update tr of
         None \<Rightarrow> s
       | Some (Some prof) \<Rightarrow> s\<lparr>ss_peers := fst (set_net_profile p prof (ss_peers s))\<rparr>
       | Some None \<Rightarrow> s\<lparr>ss_peers := fst (invalidate_net_profile p (ss_peers s))\<rparr>), directive tr)"

definition observe_nat_probe_control :: "'t sn_env \<Rightarrow> timestamp \<Rightarrow> p2p_id \<Rightarrow> p2p_id \<Rightarrow> 't \<Rightarrow> 't sn_service \<Rightarrow> 't sn_service" where
  "observe_nat_probe_control env now local p t s =
     (let s1 = reconcile_nat_probe_authority env p s
      in case get_peer_tunnel_remote env p t of
           None \<Rightarrow> s1
         | Some remote \<Rightarrow>
             let (sch, tr) = observe_control p t remote now (set_sn_peer_id local (ss_probes s1))
             in fst (apply_nat_probe_transition p tr (s1\<lparr>ss_probes := sch\<rparr>)))"

definition maintain_nat_probe_state :: "'t sn_env \<Rightarrow> timestamp \<Rightarrow> 't sn_service \<Rightarrow> 't sn_service" where
  "maintain_nat_probe_state env now s =
     (let s1 = fold (\<lambda>(p, _). reconcile_nat_probe_authority env p) (authorities (ss_probes s)) s;
          (sch, invalidated) = expire_due now (ss_probes s1)
      in s1\<lparr>ss_probes := sch, ss_peers := fold (\<lambda>p m. fst (invalidate_net_profile p m)) invalidated (ss_peers s1)\<rparr>)"

subsection \<open>Reports\<close>

definition report_transition ::
    "timestamp \<Rightarrow> p2p_id \<Rightarrow> p2p_id \<Rightarrow> 't \<Rightarrow> endpoint option \<Rightarrow> report_sn \<Rightarrow> 't scheduler \<Rightarrow> 't scheduler \<times> probe_transition option" where
  "report_transition now local p t observed r sch =
     (let (sch1, tr) =
            (case observed of None \<Rightarrow> (sch, None)
             | Some o' \<Rightarrow>
                 let (x, y) = observe_capable_report p t o' (rp_control_version r) (rp_probe_result r) now (set_sn_peer_id local sch)
                 in (x, Some y))
      in case rp_net_profile r of
           None \<Rightarrow> (sch1, tr)
         | Some prof \<Rightarrow>
             (case (case observed of None \<Rightarrow> (sch1, transition_default) | Some o' \<Rightarrow> observe_reported_profile p t o' prof now sch1) of
                (sch2, ptr) \<Rightarrow>
                  if profile_update ptr \<noteq> None
                  then (sch2, Some (case tr of Some x \<Rightarrow> x\<lparr>profile_update := profile_update ptr\<rparr> | None \<Rightarrow> ptr))
                  else (sch2, tr)))"

definition handle_report_sn ::
    "'t sn_env \<Rightarrow> timestamp \<Rightarrow> p2p_id \<Rightarrow> p2p_id \<Rightarrow> 't \<Rightarrow> report_sn \<Rightarrow> 't sn_service \<Rightarrow> 't sn_service \<times> report_sn_resp p2p_result" where
  "handle_report_sn env now local p t r s =
     (case checked_client env p (case rp_peer_info r of None \<Rightarrow> Inl PermissionDenied | Some c \<Rightarrow> Inr c) of
        Inl e \<Rightarrow> (s, Inl e)
      | Inr _ \<Rightarrow>
          if (case rp_from_peer_id r of Some i \<Rightarrow> i \<noteq> p | None \<Rightarrow> False) then (s, Inl PermissionDenied)
          else (case ss_local_cert s of None \<Rightarrow> (s, Inl ErrorState)
          | Some cert \<Rightarrow>
              let observed = get_peer_tunnel_remote env p t
              in case sanitize_reported_endpoints (rp_local_eps r) observed of
                   Inl e \<Rightarrow> (s, Inl e)
                 | Inr reported \<Rightarrow>
                     let remote = get_peer_wan_classied_ep (env_matrix env) (map snd (streams_of env p)) reported;
                         d = (case rp_peer_info r of Some c \<Rightarrow> (case create_cert env c of Inr x \<Rightarrow> Some x | Inl _ \<Rightarrow> None) | None \<Rightarrow> None);
                         s1 = s\<lparr>ss_peers := add_or_update_peer now p d (rp_protocol_version r) (rp_map_ports r) reported (ss_peers s)\<rparr>;
                         s2 = reconcile_nat_probe_authority env p s1;
                         (sch, tr) = report_transition now local p t observed r (ss_probes s2);
                         (s3, dir) = (case tr of None \<Rightarrow> (s2\<lparr>ss_probes := sch\<rparr>, None)
                                      | Some x \<Rightarrow> apply_nat_probe_transition p x (s2\<lparr>ss_probes := sch\<rparr>))
                     in (s3, Inr \<lparr>rr_seq = rp_seq r, rr_sn_peer_id = local, rr_result = as_u8 Ok, rr_peer_info = Some cert,
                                  rr_end_point_array = remote, rr_nat_probe_ports = ports sch, rr_nat_probe_directive = dir\<rparr>)))"

subsection \<open>Queries\<close>

definition local_peer_detail :: "timestamp \<Rightarrow> p2p_id \<Rightarrow> 't sn_service \<Rightarrow> serving_peer_detail option" where
  "local_peer_detail now p s =
     map_option (\<lambda>c. \<lparr>sd_peer_info = pd_encoded (desc c), sd_endpoints = dedup_endpoints (reported_endpoints_for_peer c),
                      sd_net_profile = current_profile (ss_probes s) p now, sd_target_protocol_version = protocol_version c\<rparr>)
       (find_peer p (ss_peers s))"

definition serving_leases_or_none :: "serving_lease list p2p_result \<Rightarrow> serving_lease list" where
  "serving_leases_or_none r = (case r of Inr ls \<Rightarrow> ls | Inl _ \<Rightarrow> [])"

text \<open>\<open>query_remote_details\<close> over the leases of the owner directory: \<open>ask\<close> is what a serving SN answers, or
  nothing when there is no client for other SNs. The details, the version so far, and whether it is complete.\<close>

fun remote_details ::
    "p2p_id \<Rightarrow> (p2p_id \<Rightarrow> serving_peer_detail option p2p_result) option \<Rightarrow> p2p_id list \<Rightarrow>
     serving_peer_detail list \<Rightarrow> u8 option \<Rightarrow> bool \<Rightarrow> serving_peer_detail list \<times> u8 option \<times> bool" where
  "remote_details local ask [] ds v complete = (ds, v, complete)"
| "remote_details local ask (sn # sns) ds v complete =
     (if sn = local then remote_details local ask sns ds v False
      else (case ask of None \<Rightarrow> remote_details local ask sns ds v False
            | Some q \<Rightarrow>
                (case q sn of
                   Inr (Some d) \<Rightarrow>
                     (case sd_target_protocol_version d of
                        Some x \<Rightarrow>
                          (case v of
                             Some y \<Rightarrow> remote_details local ask sns (ds @ [d]) v (if y \<noteq> x then False else complete)
                           | None \<Rightarrow> remote_details local ask sns (ds @ [d]) (Some x) complete)
                      | None \<Rightarrow> remote_details local ask sns (ds @ [d]) v False)
                 | _ \<Rightarrow> remote_details local ask sns ds v False)))"

definition query_remote_details ::
    "p2p_id \<Rightarrow> (p2p_id \<Rightarrow> serving_peer_detail option p2p_result) option \<Rightarrow> serving_lease list p2p_result \<Rightarrow>
     serving_peer_detail list \<times> u8 option" where
  "query_remote_details local ask leases =
     (let sns = map lease_serving_sn_id (serving_leases_or_none leases);
          (ds, v, complete) = remote_details local ask sns [] None (sns \<noteq> [])
      in (ds, if complete then v else None))"

definition handle_query_sn ::
    "'t sn_env \<Rightarrow> timestamp \<Rightarrow> (p2p_id \<Rightarrow> serving_peer_detail option p2p_result) option \<Rightarrow> serving_lease list p2p_result \<Rightarrow>
     p2p_id \<Rightarrow> p2p_id \<Rightarrow> 't \<Rightarrow> sequence \<Rightarrow> p2p_id \<Rightarrow> 't sn_service \<Rightarrow> 't sn_service \<times> sn_query_resp" where
  "handle_query_sn env now ask leases local p t seqn query s =
     (let s1 = observe_nat_probe_control env now local p t s;
          sn = effective_local_sn_id local s1;
          s2 = reconcile_nat_probe_authority env query s1;
          (ds, v) = query_remote_details sn ask leases
      in (s2, case find_peer query (ss_peers s2) of
            Some c \<Rightarrow>
              \<lparr>qr_seq = seqn, qr_peer_info = Some (pd_encoded (desc c)),
               qr_end_point_array = fold (\<lambda>d eps. extend_unique_endpoints eps (sd_endpoints d)) ds
                 (extend_unique_endpoints
                    (observed_endpoint_candidates (observed_of env query) (map_ports c) (reported_endpoints_for_peer c)) (local_eps c)),
               qr_net_profile = current_profile (ss_probes s2) query now, qr_target_protocol_version = protocol_version c\<rparr>
          | None \<Rightarrow>
              (case ds of
                 d # _ \<Rightarrow>
                   \<lparr>qr_seq = seqn, qr_peer_info = Some (sd_peer_info d),
                    qr_end_point_array = fold (\<lambda>d eps. extend_unique_endpoints eps (sd_endpoints d)) ds [],
                    qr_net_profile = sd_net_profile d, qr_target_protocol_version = v\<rparr>
               | [] \<Rightarrow>
                   \<lparr>qr_seq = seqn, qr_peer_info = None, qr_end_point_array = [], qr_net_profile = None, qr_target_protocol_version = None\<rparr>)))"

subsection \<open>Rendezvous\<close>

definition rendezvous_endpoints_owned_by :: "'t sn_env \<Rightarrow> p2p_id \<Rightarrow> 't \<Rightarrow> endpoint list \<Rightarrow> bool" where
  "rendezvous_endpoints_owned_by env p t eps =
     (eps = [] \<or>
      (case get_peer_tunnel_remote env p t of
         None \<Rightarrow> False
       | Some o' \<Rightarrow> list_all (\<lambda>e. sa_ip (addr e) = sa_ip (addr o')) eps))"

text \<open>\<open>remotes\<close>: the remote endpoints of the target's streams when its answer is checked.\<close>

definition validate_rendezvous_response_owner ::
    "'t sn_env \<Rightarrow> endpoint list \<Rightarrow> sn_tunnel_rendezvous_resp \<Rightarrow> unit p2p_result" where
  "validate_rendezvous_response_owner env remotes resp =
     (if predicted_endpoint_array resp = [] then Inr ()
      else let ips = map (\<lambda>e. sa_ip (addr e)) (get_peer_observed_ep (env_matrix env) remotes)
           in if ips = [] \<or> list_ex (\<lambda>e. sa_ip (addr e) \<notin> set ips) (predicted_endpoint_array resp)
              then Inl PermissionDenied else Inr ())"

text \<open>What becomes of one question over a stream: its task fails, the question fails, or there is a body,
  which may be unreadable or not decode, with the remote endpoints of the target's streams at that time.\<close>

datatype qa_outcome =
    QaTaskFailed | QaError | QaBody "sn_tunnel_rendezvous_resp p2p_result" "endpoint list"

datatype 't stream_action = AskStream 't | ShutStream 't

fun try_streams ::
    "'t sn_env \<Rightarrow> ('t \<Rightarrow> qa_outcome) \<Rightarrow> sn_tunnel_rendezvous_notify \<Rightarrow> bool \<Rightarrow> 't list \<Rightarrow>
     't stream_action list \<times> sn_tunnel_rendezvous_resp p2p_result" where
  "try_streams env qa n failed [] = ([], Inl (if failed then IoError else NotConnected))"
| "try_streams env qa n failed (t # ts) =
     (case qa t of
        QaTaskFailed \<Rightarrow> ([AskStream t, ShutStream t], Inl Aborted)
      | QaError \<Rightarrow> (let (as, res) = try_streams env qa n True ts in (AskStream t # ShutStream t # as, res))
      | QaBody (Inl e) _ \<Rightarrow> ([AskStream t], Inl e)
      | QaBody (Inr resp) remotes \<Rightarrow>
          ([AskStream t],
           case validate_resp (env_matrix env) (env_hit env) resp (nt_seq n) (nt_need_predict_endpoint n) of
             Inl e \<Rightarrow> Inl e
           | Inr _ \<Rightarrow> (case validate_rendezvous_response_owner env remotes resp of Inl e \<Rightarrow> Inl e | Inr _ \<Rightarrow> Inr resp)))"

definition stream_order :: "nat \<Rightarrow> 't list \<Rightarrow> 't list" where
  "stream_order start ts = map (\<lambda>offset. ts ! ((start + offset) mod length ts)) [0..<length ts]"

definition deliver_rendezvous_to_local_peer ::
    "'t sn_env \<Rightarrow> ('t \<Rightarrow> qa_outcome) \<Rightarrow> p2p_id \<Rightarrow> sn_tunnel_rendezvous_notify \<Rightarrow> 't sn_service \<Rightarrow>
     't sn_service \<times> 't stream_action list \<times> sn_tunnel_rendezvous_resp p2p_result" where
  "deliver_rendezvous_to_local_peer env qa target n s =
     (if find_peer target (ss_peers s) = None then (s, [], Inl TargetNotFound)
      else if \<not> notify_encodes env n then (s, [], Inl RawCodecError)
      else let ts = map fst (streams_of env target)
           in if ts = [] then (s, [], Inl NotConnected)
              else (s\<lparr>ss_cursor := ss_cursor s + 1\<rparr>,
                    try_streams env qa n False (stream_order (unat (ss_cursor s) mod length ts) ts)))"

text \<open>\<open>ask\<close>: what a serving SN answers, nothing without a client for other SNs. The SNs asked, and the result.\<close>

fun relay_rendezvous_loop ::
    "'t sn_env \<Rightarrow> p2p_id \<Rightarrow> (p2p_id \<Rightarrow> sn_tunnel_rendezvous_resp p2p_result) option \<Rightarrow> sn_tunnel_rendezvous_notify \<Rightarrow>
     p2p_id list \<Rightarrow> p2p_id list \<times> sn_tunnel_rendezvous_resp p2p_result" where
  "relay_rendezvous_loop env local ask n [] = ([], Inl NotFound)"
| "relay_rendezvous_loop env local ask n (sn # sns) =
     (if sn = local then relay_rendezvous_loop env local ask n sns
      else (case ask of
              None \<Rightarrow> relay_rendezvous_loop env local ask n sns
            | Some q \<Rightarrow>
                (case q sn of
                   Inr resp \<Rightarrow>
                     ([sn], case validate_resp (env_matrix env) (env_hit env) resp (nt_seq n) (nt_need_predict_endpoint n) of
                              Inl e \<Rightarrow> Inl e | Inr _ \<Rightarrow> Inr resp)
                 | Inl _ \<Rightarrow> (let (as, res) = relay_rendezvous_loop env local ask n sns in (sn # as, res)))))"

definition relay_rendezvous_to_serving_sn ::
    "'t sn_env \<Rightarrow> p2p_id \<Rightarrow> (p2p_id \<Rightarrow> sn_tunnel_rendezvous_resp p2p_result) option \<Rightarrow> serving_lease list p2p_result \<Rightarrow>
     sn_tunnel_rendezvous_notify \<Rightarrow> p2p_id list \<times> sn_tunnel_rendezvous_resp p2p_result" where
  "relay_rendezvous_to_serving_sn env local ask leases n =
     relay_rendezvous_loop env local ask n (map lease_serving_sn_id (serving_leases_or_none leases))"

text \<open>\<open>process_rendezvous_request\<close> in three parts: its beginning, the delivery, and its end, where \<open>None\<close> is
  the timeout of ten seconds. The leader's guard is the \<open>fail_unanswered\<close> of the end.\<close>

datatype rendezvous_next =
    RvAnswer sn_tunnel_rendezvous_resp | RvWait waiter | RvLead sn_tunnel_rendezvous_notify

definition process_begin ::
    "timestamp \<Rightarrow> p2p_id \<Rightarrow> sn_tunnel_rendezvous \<Rightarrow> sn_tunnel_rendezvous_notify \<Rightarrow> 't sn_service \<Rightarrow>
     't sn_service \<times> sent \<times> rendezvous_next" where
  "process_begin now i r n s =
     (let (rs, msgs, res) = rs_begin i r now (ss_rendezvous s)
      in (s\<lparr>ss_rendezvous := rs\<rparr>, msgs,
          case res of
            Inr (Cached resp) \<Rightarrow> RvAnswer resp
          | Inr (InFlight w) \<Rightarrow> RvWait w
          | Inr BeginNew \<Rightarrow> RvLead n
          | Inl _ \<Rightarrow> RvAnswer (resp_failure (seq r))))"

definition process_deliver ::
    "'t sn_env \<Rightarrow> ('t \<Rightarrow> qa_outcome) \<Rightarrow> p2p_id \<Rightarrow> (p2p_id \<Rightarrow> sn_tunnel_rendezvous_resp p2p_result) option \<Rightarrow>
     serving_lease list p2p_result \<Rightarrow> p2p_id \<Rightarrow> sn_tunnel_rendezvous_notify \<Rightarrow> 't sn_service \<Rightarrow>
     't sn_service \<times> 't stream_action list \<times> p2p_id list \<times> sn_tunnel_rendezvous_resp p2p_result" where
  "process_deliver env qa local ask leases target n s =
     (let (s1, as, res) = deliver_rendezvous_to_local_peer env qa target n s
      in if res = Inl TargetNotFound
         then let (sns, res') = relay_rendezvous_to_serving_sn env local ask leases n in (s1, as, sns, res')
         else (s1, as, [], res))"

definition process_finish ::
    "'t sn_env \<Rightarrow> timestamp \<Rightarrow> p2p_id \<Rightarrow> sn_tunnel_rendezvous \<Rightarrow> sn_tunnel_rendezvous_resp p2p_result option \<Rightarrow>
     't sn_service \<Rightarrow> 't sn_service \<times> sent \<times> sn_tunnel_rendezvous_resp" where
  "process_finish env now i r outcome s =
     (case outcome of
        Some (Inr resp) \<Rightarrow>
          (let (rs, msgs, res) = cache_response (env_matrix env) (env_hit env) i r resp now (ss_rendezvous s)
           in case res of
                Inr _ \<Rightarrow> (s\<lparr>ss_rendezvous := rs\<rparr>, msgs, resp)
              | Inl _ \<Rightarrow> (let (rs', msgs') = fail_unanswered i r rs
                          in (s\<lparr>ss_rendezvous := rs'\<rparr>, msgs @ msgs', resp_failure (seq r))))
      | _ \<Rightarrow> (let (rs, msgs) = fail_unanswered i r (ss_rendezvous s)
              in (s\<lparr>ss_rendezvous := rs\<rparr>, msgs, resp_failure (seq r))))"

text \<open>\<open>received\<close>: what the waiter received, nothing on a timeout or when its sender is gone.\<close>

definition await_inflight_rendezvous ::
    "sequence \<Rightarrow> sn_tunnel_rendezvous_resp p2p_result option \<Rightarrow> sn_tunnel_rendezvous_resp" where
  "await_inflight_rendezvous sq received =
     (case received of Some (Inr resp) \<Rightarrow> resp | _ \<Rightarrow> resp_failure sq)"

definition notify_of :: "sn_tunnel_rendezvous \<Rightarrow> u8 list \<Rightarrow> sn_tunnel_rendezvous_notify" where
  "notify_of r cert =
     \<lparr>nt_seq = seq r, nt_tunnel_id = tunnel_id r, nt_peer_info = cert, nt_operation = operation r,
      nt_end_point_array = end_point_array r, nt_need_predict_endpoint = need_predict_endpoint r\<rparr>"

definition handle_rendezvous ::
    "'t sn_env \<Rightarrow> timestamp \<Rightarrow> p2p_id \<Rightarrow> p2p_id \<Rightarrow> 't \<Rightarrow> sn_tunnel_rendezvous \<Rightarrow> 't sn_service \<Rightarrow>
     't sn_service \<times> sent \<times> rendezvous_next" where
  "handle_rendezvous env now local p t r s =
     (let failure = RvAnswer (resp_failure (seq r))
      in if validate_request (env_matrix env) (env_hit env) r \<noteq> Inr () then (s, [], failure)
      else if p = to_peer_id r then (s, [], failure)
      else (case client_cert_from_request_or_cache p None (ss_peers s) of
        Inl _ \<Rightarrow> (s, [], failure)
      | Inr cert \<Rightarrow>
          if checked_client env p (Inr cert) \<noteq> Inr () then (s, [], failure)
          else let s1 = observe_nat_probe_control env now local p t s
               in if \<not> rendezvous_endpoints_owned_by env p t (end_point_array r) then (s1, [], failure)
                  else if validate_notify (env_matrix env) (env_hit env) (notify_of r cert) \<noteq> Inr () then (s1, [], failure)
                  else process_begin now p r (notify_of r cert) s1))"

subsection \<open>Calls\<close>

definition called_of :: "sn_call \<Rightarrow> sequence \<Rightarrow> p2p_id \<Rightarrow> u8 list \<Rightarrow> sn_called" where
  "called_of c sq sn cert =
     \<lparr>cd_seq = sq, cd_to_peer_id = ca_to_peer_id c, cd_sn_peer_id = sn, cd_peer_info = cert, cd_tunnel_id = ca_tunnel_id c,
      cd_call_send_time = ca_send_time c, cd_call_type = ca_call_type c, cd_payload = ca_payload c,
      cd_reverse_endpoint_array = dedup_endpoints (case ca_reverse_endpoint_array c of Some eps \<Rightarrow> eps | None \<Rightarrow> []),
      cd_active_pn_list = (case ca_active_pn_list c of Some l \<Rightarrow> l | None \<Rightarrow> []), cd_nat_context = ca_nat_context c\<rparr>"

text \<open>Sending a call: the messages sent, and the error.\<close>

definition send_call :: "'t sn_env \<Rightarrow> sn_called \<Rightarrow> sn_called list \<times> unit p2p_result" where
  "send_call env m =
     (if \<not> called_encodes env m then ([], Inl RawCodecError)
      else ([m], case send_called env (cd_to_peer_id m) m of Inl _ \<Rightarrow> Inl IoError | Inr _ \<Rightarrow> Inr ()))"

definition deliver_called_to_local_peer ::
    "'t sn_env \<Rightarrow> timestamp \<Rightarrow> sn_call \<Rightarrow> p2p_id \<Rightarrow> 't sn_service \<Rightarrow>
     't sn_service \<times> sn_called list \<times> relay_call_outcome p2p_result" where
  "deliver_called_to_local_peer env now c local s =
     (case find_peer (ca_to_peer_id c) (ss_peers s) of
        None \<Rightarrow> (s, [], Inr \<lparr>ro_accepted = False, ro_to_peer_info = None\<rparr>)
      | Some target \<Rightarrow>
          (case ca_peer_info c of
             None \<Rightarrow> (s, [], Inr \<lparr>ro_accepted = False, ro_to_peer_info = Some (pd_encoded (desc target))\<rparr>)
           | Some info \<Rightarrow>
               (case create_cert env info of
                  Inl e \<Rightarrow> (s, [], Inl e)
                | Inr d \<Rightarrow>
                    let ok = Inr \<lparr>ro_accepted = True, ro_to_peer_info = Some (pd_encoded (desc target))\<rparr>;
                        (stub, fresh) = stub_insert now (ca_from_peer_id c) (ca_tunnel_id c) (ss_stub s);
                        s1 = s\<lparr>ss_stub := stub\<rparr>
                    in if fresh \<and> (ca_is_always_call c \<or> \<not> is_wan target)
                       then let (sq, cur) = sequence_generate (ss_seq s1);
                                (ms, res) = send_call env (called_of c sq local (pd_encoded d))
                            in (s1\<lparr>ss_seq := cur\<rparr>, ms, case res of Inl e \<Rightarrow> Inl e | Inr _ \<Rightarrow> ok)
                       else (s1, [], ok))))"

fun relay_call_loop ::
    "p2p_id \<Rightarrow> (p2p_id \<Rightarrow> sn_call \<Rightarrow> relay_call_outcome p2p_result) option \<Rightarrow> sn_call \<Rightarrow> p2p_id list \<Rightarrow>
     p2p_id list \<times> sn_call_resp option" where
  "relay_call_loop local relay c [] = ([], None)"
| "relay_call_loop local relay c (sn # sns) =
     (if sn = local then relay_call_loop local relay c sns
      else (case relay of
              None \<Rightarrow> relay_call_loop local relay c sns
            | Some q \<Rightarrow>
                (case q sn c of
                   Inr out \<Rightarrow>
                     if ro_accepted out
                     then ([sn], Some \<lparr>cr_seq = ca_seq c, cr_sn_peer_id = local, cr_result = as_u8 Ok,
                                       cr_to_peer_info = ro_to_peer_info out\<rparr>)
                     else (let (as, res) = relay_call_loop local relay c sns in (sn # as, res))
                 | Inl _ \<Rightarrow> (let (as, res) = relay_call_loop local relay c sns in (sn # as, res)))))"

definition relay_call_to_serving_sn ::
    "p2p_id \<Rightarrow> (p2p_id \<Rightarrow> sn_call \<Rightarrow> relay_call_outcome p2p_result) option \<Rightarrow> serving_lease list p2p_result \<Rightarrow> sn_call \<Rightarrow>
     p2p_id list \<times> sn_call_resp option" where
  "relay_call_to_serving_sn local relay leases c =
     relay_call_loop local relay c (map lease_serving_sn_id (serving_leases_or_none leases))"

definition call_not_found :: "sn_call \<Rightarrow> p2p_id \<Rightarrow> sn_call_resp" where
  "call_not_found c local =
     \<lparr>cr_seq = ca_seq c, cr_sn_peer_id = local, cr_result = as_u8 NotFound, cr_to_peer_info = None\<rparr>"

text \<open>The call where both peers are known. A certificate in the request was parsed by the validation, so the
  \<open>unwrap\<close> of its second parse succeeds.\<close>

definition call_known_peer ::
    "'t sn_env \<Rightarrow> timestamp \<Rightarrow> p2p_id \<Rightarrow> p2p_id \<Rightarrow> sn_call \<Rightarrow> cached_peer_info \<Rightarrow> cached_peer_info \<Rightarrow> 't sn_service \<Rightarrow>
     't sn_service \<times> sn_called list \<times> sn_call_resp p2p_result" where
  "call_known_peer env now local p c from target s =
     (let from_desc = (case ca_peer_info c of
                         None \<Rightarrow> Some (desc from)
                       | Some info \<Rightarrow> (case create_cert env info of Inr d \<Rightarrow> Some d | Inl _ \<Rightarrow> None));
          reverse_eps = extend_unique_endpoints
            (observed_endpoint_candidates (observed_of env p) (map_ports from) (reported_endpoints_for_peer from)) (local_eps from)
      in case from_desc of
           None \<Rightarrow> (s, [], Inr (call_not_found c local))
         | Some d \<Rightarrow>
             let ok = Inr \<lparr>cr_seq = ca_seq c, cr_sn_peer_id = local, cr_result = as_u8 Ok,
                           cr_to_peer_info = Some (pd_encoded (desc target))\<rparr>;
                 (stub, fresh) = stub_insert now (ca_from_peer_id c) (ca_tunnel_id c) (ss_stub s);
                 s1 = s\<lparr>ss_stub := stub\<rparr>
             in if fresh \<and> (ca_is_always_call c \<or> \<not> is_wan target)
                then let (sq, cur) = sequence_generate (ss_seq s1);
                         m = called_of c sq local (pd_encoded d);
                         (ms, res) = send_call env (m\<lparr>cd_reverse_endpoint_array :=
                            extend_unique_endpoints (cd_reverse_endpoint_array m) reverse_eps\<rparr>)
                     in (s1\<lparr>ss_seq := cur\<rparr>, ms, case res of Inl e \<Rightarrow> Inl e | Inr _ \<Rightarrow> ok)
                else (s1, [], ok))"

definition handle_call ::
    "'t sn_env \<Rightarrow> timestamp \<Rightarrow> (p2p_id \<Rightarrow> sn_call \<Rightarrow> relay_call_outcome p2p_result) option \<Rightarrow> serving_lease list p2p_result \<Rightarrow>
     p2p_id \<Rightarrow> p2p_id \<Rightarrow> 't \<Rightarrow> sn_call \<Rightarrow> 't sn_service \<Rightarrow> 't sn_service \<times> sn_called list \<times> sn_call_resp p2p_result" where
  "handle_call env now relay leases local p t c s =
     (case checked_client env p (client_cert_from_request_or_cache p (ca_peer_info c) (ss_peers s)) of
        Inl e \<Rightarrow> (s, [], Inl e)
      | Inr _ \<Rightarrow>
          let s1 = observe_nat_probe_control env now local p t s;
              local_sn = effective_local_sn_id local s1;
              s2 = reconcile_nat_probe_authority env (ca_to_peer_id c) s1
          in case find_peer (ca_from_peer_id c) (ss_peers s2) of
               None \<Rightarrow> (s2, [], Inr (call_not_found c local))
             | Some from \<Rightarrow>
                 (case find_peer (ca_to_peer_id c) (ss_peers s2) of
                    Some target \<Rightarrow> call_known_peer env now local p c from target s2
                  | None \<Rightarrow>
                      (case snd (relay_call_to_serving_sn local_sn relay leases c) of
                         Some resp \<Rightarrow> (s2, [], Inr resp)
                       | None \<Rightarrow> (s2, [], Inr (call_not_found c local)))))"

subsection \<open>Disconnects and other SNs\<close>

definition on_peer_disconnected :: "p2p_id \<Rightarrow> 't sn_service \<Rightarrow> 't sn_service \<times> sent" where
  "on_peer_disconnected p s =
     (let sch = fst (scheduler_remove_peer p (ss_probes s));
          (rs, msgs) = remove_peer p (ss_rendezvous s)
      in (s\<lparr>ss_probes := sch, ss_rendezvous := rs, ss_peers := forget_peer p (ss_peers s)\<rparr>, msgs))"

definition validate_inter_connection :: "'t sn_env \<Rightarrow> p2p_id \<Rightarrow> unit p2p_result" where
  "validate_inter_connection env sn = require_accept (inter_connection env sn)"

definition validate_inter_command :: "'t sn_env \<Rightarrow> p2p_id \<Rightarrow> inter_sn_command \<Rightarrow> p2p_id \<Rightarrow> unit p2p_result" where
  "validate_inter_command env sn cmd peer = require_accept (inter_command env sn cmd peer)"

definition inter_allowed :: "'t sn_env \<Rightarrow> p2p_id \<Rightarrow> inter_sn_command \<Rightarrow> p2p_id \<Rightarrow> unit p2p_result" where
  "inter_allowed env sn cmd peer =
     (case validate_inter_connection env sn of Inl e \<Rightarrow> Inl e | Inr _ \<Rightarrow> validate_inter_command env sn cmd peer)"

definition query_detail_from_sn ::
    "'t sn_env \<Rightarrow> timestamp \<Rightarrow> p2p_id \<Rightarrow> p2p_id \<Rightarrow> 't sn_service \<Rightarrow> 't sn_service \<times> serving_peer_detail option p2p_result" where
  "query_detail_from_sn env now sn peer s =
     (case inter_allowed env sn QueryDetail peer of
        Inl e \<Rightarrow> (s, Inl e)
      | Inr _ \<Rightarrow> (let s1 = reconcile_nat_probe_authority env peer s in (s1, Inr (local_peer_detail now peer s1))))"

definition relay_call_from_sn ::
    "'t sn_env \<Rightarrow> timestamp \<Rightarrow> p2p_id \<Rightarrow> sn_call \<Rightarrow> 't sn_service \<Rightarrow> 't sn_service \<times> sn_called list \<times> relay_call_outcome p2p_result" where
  "relay_call_from_sn env now sn c s =
     (case inter_allowed env sn RelayCall (ca_to_peer_id c) of
        Inl e \<Rightarrow> (s, [], Inl e)
      | Inr _ \<Rightarrow>
          deliver_called_to_local_peer env now c (case ss_local_sn_id s of Some i \<Rightarrow> i | None \<Rightarrow> ca_sn_peer_id c) s)"

definition relay_rendezvous_from_sn ::
    "'t sn_env \<Rightarrow> ('t \<Rightarrow> qa_outcome) \<Rightarrow> p2p_id \<Rightarrow> p2p_id \<Rightarrow> sn_tunnel_rendezvous_notify \<Rightarrow> 't sn_service \<Rightarrow>
     't sn_service \<times> 't stream_action list \<times> sn_tunnel_rendezvous_resp p2p_result" where
  "relay_rendezvous_from_sn env qa sn target n s =
     (case inter_allowed env sn RelayRendezvous target of
        Inl e \<Rightarrow> (s, [], Inl e)
      | Inr _ \<Rightarrow>
          (case validate_notify (env_matrix env) (env_hit env) n of
             Inl e \<Rightarrow> (s, [], Inl e)
           | Inr _ \<Rightarrow>
               (case create_cert env (nt_peer_info n) of
                  Inl e \<Rightarrow> (s, [], Inl e)
                | Inr d \<Rightarrow>
                    if pd_id d = target then (s, [], Inl PermissionDenied)
                    else deliver_rendezvous_to_local_peer env qa target n s)))"

subsection \<open>Commands\<close>

text \<open>The commands of a client, with their bodies where these decode; a reply, or a wait for one.\<close>

datatype sn_packet =
    PkCall "sn_call option" | PkCalledResp bool | PkReport "report_sn option" | PkQuery "(sequence \<times> p2p_id) option"
  | PkRendezvous u8 "sn_tunnel_rendezvous option"

datatype cmd_error = CmdRawCodecError | CmdFailed | CmdInvalidParam

datatype sn_reply =
    ReplyNone | ReplyCall sn_call_resp | ReplyReport report_sn_resp | ReplyQuery sn_query_resp | ReplyRendezvous rendezvous_next

text \<open>What other SNs and the owner directory answer during a command.\<close>

record sn_remote =
  rm_leases :: "serving_lease list p2p_result"
  rm_detail :: "(p2p_id \<Rightarrow> serving_peer_detail option p2p_result) option"
  rm_relay_call :: "(p2p_id \<Rightarrow> sn_call \<Rightarrow> relay_call_outcome p2p_result) option"

fun handle_sn_cmd ::
    "'t sn_env \<Rightarrow> timestamp \<Rightarrow> sn_remote \<Rightarrow> p2p_id \<Rightarrow> p2p_id \<Rightarrow> 't \<Rightarrow> sn_packet \<Rightarrow> 't sn_service \<Rightarrow>
     't sn_service \<times> sn_called list \<times> sent \<times> (cmd_error + sn_reply)" where
  "handle_sn_cmd env now rm local p t (PkCall None) s = (s, [], [], Inl CmdRawCodecError)"
| "handle_sn_cmd env now rm local p t (PkCall (Some c)) s =
     (let (s', ms, res) = handle_call env now (rm_relay_call rm) (rm_leases rm) local p t c s
      in (s', ms, [], case res of Inl _ \<Rightarrow> Inl CmdFailed | Inr resp \<Rightarrow> Inr (ReplyCall resp)))"
| "handle_sn_cmd env now rm local p t (PkCalledResp decodes) s =
     (observe_nat_probe_control env now local p t s, [], [], if decodes then Inr ReplyNone else Inl CmdRawCodecError)"
| "handle_sn_cmd env now rm local p t (PkReport None) s = (s, [], [], Inl CmdRawCodecError)"
| "handle_sn_cmd env now rm local p t (PkReport (Some r)) s =
     (let (s', res) = handle_report_sn env now local p t r s
      in (s', [], [], case res of Inl _ \<Rightarrow> Inl CmdFailed | Inr resp \<Rightarrow> Inr (ReplyReport resp)))"
| "handle_sn_cmd env now rm local p t (PkQuery None) s = (s, [], [], Inl CmdRawCodecError)"
| "handle_sn_cmd env now rm local p t (PkQuery (Some (sq, q))) s =
     (let (s', resp) = handle_query_sn env now (rm_detail rm) (rm_leases rm) local p t sq q s
      in (s', [], [], Inr (ReplyQuery resp)))"
| "handle_sn_cmd env now rm local p t (PkRendezvous version body) s =
     (if version \<noteq> SN_TUNNEL_RENDEZVOUS_CMD_VERSION then (s, [], [], Inl CmdInvalidParam)
      else (case body of
              None \<Rightarrow> (s, [], [], Inl CmdRawCodecError)
            | Some r \<Rightarrow> (let (s', msgs, next) = handle_rendezvous env now local p t r s in (s', [], msgs, Inr (ReplyRendezvous next)))))"

end
