(* ===== verification/SnServiceFacts.thy ===== *)
theory SnServiceFacts
  imports SnService
begin

text \<open>
  What the SN service promises: who may report, call and ask for a rendezvous and with which endpoints; that a
  rendezvous is delivered over each stream at most once and its answer checked; that the leader of a request
  leaves no duplicate waiting; that a disconnected peer is forgotten; and an invariant over all its events.
\<close>

section \<open>Frames\<close>

text \<open>The rest of the service beside peers and probing, and what is known of a peer beside its NAT profile.\<close>

definition peer_core :: "p2p_id \<Rightarrow> peer_manager \<Rightarrow> cached_peer_info option" where
  "peer_core q m = map_option (\<lambda>c. c\<lparr>net_profile := profile_unknown\<rparr>) (find_peer q m)"

definition probing_frame :: "p2p_id \<Rightarrow> 't sn_service \<Rightarrow> 't sn_service \<Rightarrow> bool" where
  "probing_frame p s s' \<longleftrightarrow>
     s' = s\<lparr>ss_peers := ss_peers s', ss_probes := ss_probes s'\<rparr> \<and>
     (\<forall>q. peer_core q (ss_peers s') = peer_core q (ss_peers s)) \<and>
     (\<forall>q. q \<noteq> p \<longrightarrow> find_peer q (ss_peers s') = find_peer q (ss_peers s))"

lemma probing_frame_refl [simp]: "probing_frame p s s"
  by (simp add: probing_frame_def)

lemma probing_frame_trans: "probing_frame p s s' \<Longrightarrow> probing_frame p s' s'' \<Longrightarrow> probing_frame p s s''"
  unfolding probing_frame_def by (cases s; cases s'; cases s'') auto

lemma frame_set_profile: "probing_frame p s (s\<lparr>ss_probes := sch, ss_peers := fst (set_net_profile p prof (ss_peers s))\<rparr>)"
  by (auto simp: probing_frame_def peer_core_def find_peer_def set_net_profile_def hm.get_insert split: option.splits)

lemma frame_probes [simp]: "probing_frame p s (s\<lparr>ss_probes := sch\<rparr>)"
  by (simp add: probing_frame_def)

lemma frame_apply: "probing_frame p s (fst (apply_nat_probe_transition p tr (s\<lparr>ss_probes := sch\<rparr>)))"
  using frame_set_profile [where p = p and s = s and sch = sch]
  by (auto simp: apply_nat_probe_transition_def invalidate_net_profile_def split: option.splits)

lemma frame_reconcile: "probing_frame p s (reconcile_nat_probe_authority env p s)"
  using frame_set_profile [where p = p and s = s]
  by (auto simp: reconcile_nat_probe_authority_def finish_nat_probe_authority_reconcile_def invalidate_net_profile_def
      case_prod_unfold Let_def split: option.splits)

lemma frame_observe: "probing_frame p s (observe_nat_probe_control env now local p t s)"
  by (auto simp: observe_nat_probe_control_def Let_def case_prod_unfold frame_reconcile
      intro: probing_frame_trans [OF frame_reconcile frame_apply] split: option.splits)

lemma probing_frameD:
  assumes "probing_frame p s s'"
  shows "ss_stub s' = ss_stub s" and "ss_rendezvous s' = ss_rendezvous s" and "ss_seq s' = ss_seq s"
    and "ss_local_sn_id s' = ss_local_sn_id s" and "ss_local_cert s' = ss_local_cert s" and "ss_cursor s' = ss_cursor s"
    and "peer_core q (ss_peers s') = peer_core q (ss_peers s)"
    and "find_peer q (ss_peers s') = None \<longleftrightarrow> find_peer q (ss_peers s) = None"
    and "map_option desc (find_peer q (ss_peers s')) = map_option desc (find_peer q (ss_peers s))"
    and "map_option local_eps (find_peer q (ss_peers s')) = map_option local_eps (find_peer q (ss_peers s))"
    and "q \<noteq> p \<Longrightarrow> find_peer q (ss_peers s') = find_peer q (ss_peers s)"
proof -
  have core: "peer_core q (ss_peers s') = peer_core q (ss_peers s)" and s': "s' = s\<lparr>ss_peers := ss_peers s', ss_probes := ss_probes s'\<rparr>"
    using assms by (auto simp: probing_frame_def)
  show "peer_core q (ss_peers s') = peer_core q (ss_peers s)" by fact
  show "ss_stub s' = ss_stub s" "ss_rendezvous s' = ss_rendezvous s" "ss_seq s' = ss_seq s"
    "ss_local_sn_id s' = ss_local_sn_id s" "ss_local_cert s' = ss_local_cert s" "ss_cursor s' = ss_cursor s"
    by (subst s', simp)+
  show "find_peer q (ss_peers s') = None \<longleftrightarrow> find_peer q (ss_peers s) = None"
    using core by (cases "find_peer q (ss_peers s')"; cases "find_peer q (ss_peers s)") (auto simp: peer_core_def)
  have c: "c\<lparr>net_profile := x\<rparr> = d\<lparr>net_profile := x\<rparr> \<Longrightarrow> desc c = desc d \<and> local_eps c = local_eps d" for c d x
    by (cases c; cases d) simp
  show "map_option desc (find_peer q (ss_peers s')) = map_option desc (find_peer q (ss_peers s))"
    "map_option local_eps (find_peer q (ss_peers s')) = map_option local_eps (find_peer q (ss_peers s))"
    using core by (cases "find_peer q (ss_peers s')"; cases "find_peer q (ss_peers s)"; auto simp: peer_core_def dest: c)+
  show "q \<noteq> p \<Longrightarrow> find_peer q (ss_peers s') = find_peer q (ss_peers s)"
    using assms by (simp add: probing_frame_def)
qed

section \<open>Reports\<close>

lemma checked_client_ok:
  "checked_client env p cert = Inr () \<longleftrightarrow>
     (\<exists>c d. cert = Inr c \<and> create_cert env c = Inr d \<and> pd_id d = p \<and> validate_client env p c = Inr ValidateAccept)"
  by (auto simp: checked_client_def validate_context_from_cert_def validate_connection_def require_accept_def
      split: sum.splits if_splits validate_result.splits)

lemma checked_client_known: "(\<exists>e. x = Inl e) \<or> x = Inr ()" for x :: "unit p2p_result"
  by (cases x) auto

text \<open>the peer entry after a report has what was reported of it, after the probing is brought up to date\<close>

lemma report_state:
  assumes "add_or_update_peer now p (Some d) v mapped reported (ss_peers s) = m"
    and "probing_frame p (s\<lparr>ss_peers := m\<rparr>) s'"
  shows "(\<exists>c. find_peer p (ss_peers s') = Some c \<and> desc c = d \<and> local_eps c = reported) \<and>
         (\<forall>q. q \<noteq> p \<longrightarrow> find_peer q (ss_peers s') = find_peer q (ss_peers s)) \<and>
         ss_rendezvous s' = ss_rendezvous s \<and> ss_stub s' = ss_stub s"
proof -
  have m: "map_option desc (find_peer p m) = Some d" "map_option local_eps (find_peer p m) = Some reported"
    "q \<noteq> p \<Longrightarrow> find_peer q m = find_peer q (ss_peers s)" for q
    unfolding assms(1) [symmetric]
    by (auto simp: add_or_update_peer_def find_peer_def hm.get_insert update_local_eps_def with_desc_def update_desc_def
        cached_peer_new_def split: option.splits)
  note f = probing_frameD [OF assms(2)]
  from f(9) [of p] f(10) [of p] m(1,2) show ?thesis
    using f(11) m(3) f(1,2) by (auto simp: map_option_case split: option.splits)
qed

text \<open>C23: a report is refused without any effect, or it comes from a peer whose certificate has the
  authenticated id and is accepted, and does not name another sender; then the SN knows that peer by that
  certificate with exactly the endpoints that pass the check, and nothing it knows of another peer, no
  rendezvous and no call is touched.\<close>

theorem report_only_for_itself:
  "case handle_report_sn env now local p t r s of
     (s', Inl e) \<Rightarrow> s' = s
   | (s', Inr resp) \<Rightarrow>
       (\<exists>cert d c. rp_peer_info r = Some cert \<and> create_cert env cert = Inr d \<and> pd_id d = p \<and>
          validate_client env p cert = Inr ValidateAccept \<and> (rp_from_peer_id r = None \<or> rp_from_peer_id r = Some p) \<and>
          find_peer p (ss_peers s') = Some c \<and> desc c = d \<and>
          sanitize_reported_endpoints (rp_local_eps r) (get_peer_tunnel_remote env p t) = Inr (local_eps c)) \<and>
       (\<forall>q. find_peer q (ss_peers s') = find_peer q (ss_peers (if q = p then s' else s))) \<and>
       ss_rendezvous s' = ss_rendezvous s \<and> ss_stub s' = ss_stub s"
proof (cases "snd (handle_report_sn env now local p t r s)")
  case (Inl e)
  then show ?thesis
    by (auto simp: handle_report_sn_def Let_def case_prod_unfold split: sum.splits option.splits if_splits)
next
  case (Inr resp)
  then obtain cert d where c: "rp_peer_info r = Some cert" "create_cert env cert = Inr d" "pd_id d = p"
      "validate_client env p cert = Inr ValidateAccept"
    and ok: "checked_client env p (Inr cert) = Inr ()"
    using checked_client_ok [of env p] by (force simp: handle_report_sn_def split: sum.splits option.splits)
  from Inr c(1,2) ok obtain own reported where own: "ss_local_cert s = Some own"
      and rep: "sanitize_reported_endpoints (rp_local_eps r) (get_peer_tunnel_remote env p t) = Inr reported"
      and fr: "rp_from_peer_id r = None \<or> rp_from_peer_id r = Some p"
    by (auto simp: handle_report_sn_def Let_def split: sum.splits option.splits if_splits)
  define s1 where "s1 = s\<lparr>ss_peers := add_or_update_peer now p (Some d) (rp_protocol_version r) (rp_map_ports r) reported (ss_peers s)\<rparr>"
  have "probing_frame p s1 (fst (handle_report_sn env now local p t r s))"
    using c(1,2) ok own rep fr probing_frame_trans [OF frame_reconcile frame_apply, of p s1] probing_frame_trans [OF frame_reconcile frame_probes, of p s1]
    by (auto simp: handle_report_sn_def Let_def case_prod_unfold s1_def split: option.splits)
  then have "probing_frame p (s\<lparr>ss_peers := add_or_update_peer now p (Some d) (rp_protocol_version r) (rp_map_ports r) reported (ss_peers s)\<rparr>)
      (fst (handle_report_sn env now local p t r s))" unfolding s1_def .
  from report_state [OF refl this] Inr c rep fr show ?thesis
    by (cases "handle_report_sn env now local p t r s") auto
qed

section \<open>Rendezvous\<close>


subsection \<open>Delivery\<close>

lemma stream_order_rotate: "ts \<noteq> [] \<Longrightarrow> stream_order (m mod length ts) ts = rotate m ts"
  by (intro nth_equalityI) (auto simp: stream_order_def nth_rotate mod_add_left_eq)

fun asked :: "'t stream_action list \<Rightarrow> 't list" where
  "asked [] = []"
| "asked (AskStream t # as) = t # asked as"
| "asked (ShutStream t # as) = asked as"

fun shut :: "'t stream_action list \<Rightarrow> 't list" where
  "shut [] = []"
| "shut (AskStream t # as) = shut as"
| "shut (ShutStream t # as) = t # shut as"

text \<open>The streams up to the first that does not fail.\<close>

definition first_usable :: "('t \<Rightarrow> qa_outcome) \<Rightarrow> 't list \<Rightarrow> 't list" where
  "first_usable qa ts = takeWhile (\<lambda>t. qa t = QaError) ts @ take 1 (dropWhile (\<lambda>t. qa t = QaError) ts)"

definition accepts_answer :: "'t sn_env \<Rightarrow> sn_tunnel_rendezvous_notify \<Rightarrow> sn_tunnel_rendezvous_resp \<Rightarrow> endpoint list \<Rightarrow> bool" where
  "accepts_answer env n resp remotes \<longleftrightarrow>
     validate_resp (env_matrix env) (env_hit env) resp (nt_seq n) (nt_need_predict_endpoint n) = Inr () \<and>
     validate_rendezvous_response_owner env remotes resp = Inr ()"

lemma try_streams_order:
  "asked (fst (try_streams env qa n b ts)) = first_usable qa ts"
  "shut (fst (try_streams env qa n b ts)) = filter (\<lambda>t. qa t = QaError \<or> qa t = QaTaskFailed) (first_usable qa ts)"
  by (induction ts arbitrary: b)
    (auto simp: first_usable_def case_prod_unfold Let_def split: qa_outcome.splits sum.splits)

lemma try_streams_ok:
  "snd (try_streams env qa n b ts) = Inr resp \<longleftrightarrow>
     (\<exists>t us remotes. dropWhile (\<lambda>t. qa t = QaError) ts = t # us \<and> qa t = QaBody (Inr resp) remotes \<and> accepts_answer env n resp remotes)"
  by (induction ts arbitrary: b)
    (auto simp: accepts_answer_def case_prod_unfold Let_def split: qa_outcome.splits sum.splits)

lemma first_usable_prefix: "\<exists>k. first_usable qa ts = take k ts"
proof -
  have "first_usable qa ts = take (Suc (length (takeWhile (\<lambda>t. qa t = QaError) ts))) ts"
    unfolding first_usable_def by (induction ts) auto
  then show ?thesis ..
qed

text \<open>a target is asked over its streams in turn, starting one further for each delivery, and over no
  stream twice; only a stream whose question failed is shut down, and only then is the next one tried; the
  answer that is accepted came over the first stream that gave one, matches the request, and predicts
  endpoints only on addresses the SN sees the target at.\<close>

theorem rendezvous_delivery:
  assumes "find_peer target (ss_peers s) \<noteq> None" and "notify_encodes env n" and "streams_of env target \<noteq> []"
    and "deliver_rendezvous_to_local_peer env qa target n s = (s', as, res)"
  shows "let order = rotate (unat (ss_cursor s)) (map fst (streams_of env target))
         in asked as = first_usable qa order \<and> (\<exists>k. asked as = take k order) \<and>
            shut as = filter (\<lambda>t. qa t = QaError \<or> qa t = QaTaskFailed) (asked as) \<and>
            s' = s\<lparr>ss_cursor := ss_cursor s + 1\<rparr> \<and>
            (\<forall>resp. res = Inr resp \<longleftrightarrow>
               (\<exists>t us remotes. dropWhile (\<lambda>t. qa t = QaError) order = t # us \<and> qa t = QaBody (Inr resp) remotes \<and>
                  accepts_answer env n resp remotes))"
proof -
  let ?ts = "map fst (streams_of env target)"
  have "?ts \<noteq> []" using assms(3) by simp
  then have "deliver_rendezvous_to_local_peer env qa target n s =
      (s\<lparr>ss_cursor := ss_cursor s + 1\<rparr>, try_streams env qa n False (rotate (unat (ss_cursor s)) ?ts))"
    using assms(1,2) unfolding deliver_rendezvous_to_local_peer_def Let_def stream_order_rotate [OF \<open>?ts \<noteq> []\<close>] by auto
  then have "as = fst (try_streams env qa n False (rotate (unat (ss_cursor s)) ?ts))"
    "res = snd (try_streams env qa n False (rotate (unat (ss_cursor s)) ?ts))" "s' = s\<lparr>ss_cursor := ss_cursor s + 1\<rparr>"
    using assms(4) by (simp_all add: prod_eq_iff)
  then show ?thesis
    using first_usable_prefix [of qa "rotate (unat (ss_cursor s)) ?ts"]
    by (simp add: try_streams_order try_streams_ok Let_def)
qed

subsection \<open>The leader of a request\<close>

definition in_flight_entry :: "p2p_id \<Rightarrow> sn_tunnel_rendezvous \<Rightarrow> 't sn_service \<Rightarrow> rendezvous_entry \<Rightarrow> bool" where
  "in_flight_entry i r s e \<longleftrightarrow>
     hm_get (rendezvous_state.entries (ss_rendezvous s)) (rendezvous_key_new i r) = Some e \<and> rendezvous_eq (request e) r \<and> response e = None"

text \<open>C26: whatever becomes of a delivery, an answer, an error, a timeout, an invalid or a late answer, its end
  answers every duplicate parked on the request and leaves none waiting: the request is gone, or has a
  cached response; the initiator and the duplicates get the answer itself, or all are told of the failure.\<close>

theorem leader_leaves_no_waiter:
  assumes "in_flight_entry i r s e" and "process_finish env now i r outcome s = (s', msgs, resp)"
  shows "(outcome = Some (Inr resp) \<and> msgs = map (\<lambda>w. (w, Inr resp)) (waiters e) \<or>
          resp = resp_failure (seq r) \<and> (\<exists>c. msgs = map (\<lambda>w. (w, Inl c)) (waiters e))) \<and>
         (case hm_get (rendezvous_state.entries (ss_rendezvous s')) (rendezvous_key_new i r) of
            None \<Rightarrow> resp = resp_failure (seq r) | Some e' \<Rightarrow> response e' \<noteq> None \<and> waiters e' = [])"
proof -
  have fail: "fail_unanswered i r (ss_rendezvous s) =
      (rendezvous_state.entries_update (hm_remove (rendezvous_key_new i r)) (ss_rendezvous s),
       answer_all (waiters e) (Inl NetworkError))"
    using assms(1) by (simp add: fail_unanswered_def in_flight_entry_def Let_def)
  have gone: "fail_unanswered i r (rendezvous_state.entries_update (\<lambda>_. hm_remove (rendezvous_key_new i r) m) x) =
      (rendezvous_state.entries_update (\<lambda>_. hm_remove (rendezvous_key_new i r) m) x, [])" for x m
    by (simp add: fail_unanswered_def hm_removed)
  show ?thesis
  proof (cases "\<exists>a. outcome = Some (Inr a)")
    case False
    then have "process_finish env now i r outcome s = (let (rs, msgs) = fail_unanswered i r (ss_rendezvous s)
       in (s\<lparr>ss_rendezvous := rs\<rparr>, msgs, resp_failure (seq r)))"
      by (auto simp: process_finish_def split: option.splits sum.splits)
    with assms(2) show ?thesis by (auto simp: fail hm_removed answer_all_def)
  next
    case True
    with assms show ?thesis
      by (auto simp: process_finish_def cache_response_def in_flight_entry_def Let_def fail gone hm_removed hm.get_insert
          answer_all_def split: if_splits sum.splits)
  qed
qed

section \<open>Calls\<close>

lemma send_call_cases:
  obtains (unencodable) "send_call env m = ([], Inl RawCodecError)"
  | (failed) "send_call env m = ([m], Inl IoError)" | (sent) "send_call env m = ([m], Inr ())"
  by (cases "called_encodes env m"; cases "send_called env (cd_to_peer_id m) m") (auto simp: send_call_def)

text \<open>a peer is called at most once for a tunnel id of a caller: a call goes out only when none was made for
  it before, and is remembered from then on.\<close>

theorem called_once:
  assumes "handle_call env now relay leases local p t c s = (s', ms, res)" and "ms \<noteq> []"
  shows "hm_get (stubs (ss_stub s)) (ca_from_peer_id c, ca_tunnel_id c) = None \<and>
         hm_get (stubs (ss_stub s')) (ca_from_peer_id c, ca_tunnel_id c) = Some now \<and>
         fst (snd (handle_call env' now' relay' leases' local' p' t' c s')) = []"
proof -
  have f: "ss_stub (reconcile_nat_probe_authority env q (observe_nat_probe_control env now local p t s)) = ss_stub s" for env now local p q t and s :: "'a sn_service"
    using probing_frameD(1) [OF frame_observe [of p s env now local t]] probing_frameD(1) [OF frame_reconcile [of q _ env]] by simp
  have known: "fst (snd (call_known_peer env now local p c a b s)) \<noteq> [] \<Longrightarrow>
      hm_get (stubs (ss_stub s)) (ca_from_peer_id c, ca_tunnel_id c) = None \<and>
      hm_get (stubs (ss_stub (fst (call_known_peer env now local p c a b s)))) (ca_from_peer_id c, ca_tunnel_id c) = Some now"
    for env now local p a b and s :: "'a sn_service"
    by (auto simp: call_known_peer_def Let_def case_prod_unfold stub_insert_once split: option.splits if_splits)
  have once: "fst (snd (handle_call env now relay leases local p t c s)) \<noteq> [] \<Longrightarrow>
      hm_get (stubs (ss_stub s)) (ca_from_peer_id c, ca_tunnel_id c) = None \<and>
      hm_get (stubs (ss_stub (fst (handle_call env now relay leases local p t c s)))) (ca_from_peer_id c, ca_tunnel_id c) = Some now"
    for env now relay leases local p t and s :: "'a sn_service"
    using known f
    by (auto simp: handle_call_def Let_def split: sum.splits option.splits) (metis fst_conv)+
  show ?thesis using assms once [of env now relay leases local p t s] once [of env' now' relay' leases' local' p' t' s'] by auto
qed

text \<open>What a call reaches, where the client is checked and both peers are known.\<close>

lemma handle_call_known:
  assumes "checked_client env p (client_cert_from_request_or_cache p (ca_peer_info c) (ss_peers s)) = Inr ()"
    and "s2 = reconcile_nat_probe_authority env (ca_to_peer_id c) (observe_nat_probe_control env now local p t s)"
    and "find_peer (ca_from_peer_id c) (ss_peers s2) = Some a" and "find_peer (ca_to_peer_id c) (ss_peers s2) = Some b"
  shows "handle_call env now relay leases local p t c s = call_known_peer env now local p c a b s2"
  using assms by (simp add: handle_call_def Let_def)

lemma handle_call_sent:
  assumes "handle_call env now relay leases local p t c s = (s', ms, res)" and "ms \<noteq> []"
  obtains a b s2 where "s2 = reconcile_nat_probe_authority env (ca_to_peer_id c) (observe_nat_probe_control env now local p t s)"
    and "checked_client env p (client_cert_from_request_or_cache p (ca_peer_info c) (ss_peers s)) = Inr ()"
    and "find_peer (ca_from_peer_id c) (ss_peers s2) = Some a" and "find_peer (ca_to_peer_id c) (ss_peers s2) = Some b"
    and "call_known_peer env now local p c a b s2 = (s', ms, res)"
  using assms by (auto simp: handle_call_def Let_def split: sum.splits option.splits)

lemma probing_desc:
  assumes "s2 = reconcile_nat_probe_authority env to (observe_nat_probe_control env now local p t s)"
  shows "map_option desc (find_peer q (ss_peers s2)) = map_option desc (find_peer q (ss_peers s))"
  using probing_frameD(9) [OF frame_observe [of p s env now local t]] probing_frameD(9) [OF frame_reconcile [of to _ env]] assms by simp

text \<open>the target of a call is told the certificate of the peer the call names as its sender, when the request
  carries none: the id of the client that sent the request is compared with its own certificate only.\<close>

theorem call_shows_named_sender:
  assumes "handle_call env now relay leases local p t c s = (s', [m], res)" and "ca_peer_info c = None"
  shows "\<exists>a. find_peer (ca_from_peer_id c) (ss_peers s) = Some a \<and> cd_peer_info m = pd_encoded (desc a) \<and>
             cd_to_peer_id m = ca_to_peer_id c \<and> cd_tunnel_id m = ca_tunnel_id c"
proof -
  from assms(1) obtain a b s2 where s2: "s2 = reconcile_nat_probe_authority env (ca_to_peer_id c) (observe_nat_probe_control env now local p t s)"
      and a: "find_peer (ca_from_peer_id c) (ss_peers s2) = Some a" and k: "call_known_peer env now local p c a b s2 = (s', [m], res)"
    by (rule handle_call_sent) auto
  have "cd_peer_info m = pd_encoded (desc a) \<and> cd_to_peer_id m = ca_to_peer_id c \<and> cd_tunnel_id m = ca_tunnel_id c"
    using k assms(2)
    by (auto simp: call_known_peer_def Let_def case_prod_unfold send_call_def called_of_def split: if_splits)
  moreover from probing_desc [OF s2, of "ca_from_peer_id c"] a
  obtain a' where "find_peer (ca_from_peer_id c) (ss_peers s) = Some a'" "desc a' = desc a" by (auto simp: map_option_case split: option.splits)
  ultimately show ?thesis by auto
qed

text \<open>a call that could not be sent is answered with an error, but it is remembered as made: the same
  request again is answered with success, and nothing is sent.\<close>

theorem failed_call_retry_answered_ok:
  assumes "handle_call env now relay leases local p t c s = (s', [m], Inl IoError)"
  shows "\<exists>s'' resp. handle_call env now' relay leases local p t c s' = (s'', [], Inr resp) \<and> cr_result resp = as_u8 Ok"
proof -
  from assms obtain a b s2 where s2: "s2 = reconcile_nat_probe_authority env (ca_to_peer_id c) (observe_nat_probe_control env now local p t s)"
      and ok: "checked_client env p (client_cert_from_request_or_cache p (ca_peer_info c) (ss_peers s)) = Inr ()"
      and a: "find_peer (ca_from_peer_id c) (ss_peers s2) = Some a" and b: "find_peer (ca_to_peer_id c) (ss_peers s2) = Some b"
      and k: "call_known_peer env now local p c a b s2 = (s', [m], Inl IoError)"
    by (rule handle_call_sent) auto
  have peers: "ss_peers s' = ss_peers s2" and stub: "hm_get (stubs (ss_stub s')) (ca_from_peer_id c, ca_tunnel_id c) \<noteq> None"
    and parsed: "ca_peer_info c = Some info \<Longrightarrow> \<exists>d. create_cert env info = Inr d" for info
    using k by (auto simp: call_known_peer_def Let_def case_prod_unfold stub_insert_once split: option.splits sum.splits if_splits)
  define s3 where "s3 = reconcile_nat_probe_authority env (ca_to_peer_id c) (observe_nat_probe_control env now' local p t s')"
  note same = probing_desc [OF s3_def] peers
  from same(1) [of "ca_from_peer_id c"] same(1) [of "ca_to_peer_id c"] a b peers obtain a' b' where
    ab: "find_peer (ca_from_peer_id c) (ss_peers s3) = Some a'" "find_peer (ca_to_peer_id c) (ss_peers s3) = Some b'" by auto
  have "client_cert_from_request_or_cache p (ca_peer_info c) (ss_peers s') = client_cert_from_request_or_cache p (ca_peer_info c) (ss_peers s)"
    using probing_desc [OF s2, of p] peers
    by (auto simp: client_cert_from_request_or_cache_def map_option_case split: option.splits)
  with ok have "handle_call env now' relay leases local p t c s' = call_known_peer env now' local p c a' b' s3"
    by (intro handle_call_known [OF _ s3_def ab]) simp
  moreover have "ss_stub s3 = ss_stub s'"
    using probing_frameD(1) [OF frame_observe [of p s' env now' local t]] probing_frameD(1) [OF frame_reconcile [of "ca_to_peer_id c" _ env]]
    by (simp add: s3_def)
  ultimately show ?thesis
    using stub parsed by (auto simp: call_known_peer_def Let_def case_prod_unfold stub_insert_once split: option.splits sum.splits)
qed

section \<open>Queries\<close>

lemma remote_version:
  assumes "remote_details local ask sns ds v complete = (ds', v', c')"
  shows "c' \<and> v' = Some x \<longleftrightarrow>
     complete \<and> (v = Some x \<or> v = None \<and> sns \<noteq> []) \<and>
     list_all (\<lambda>sn. sn \<noteq> local \<and> (\<exists>q d. ask = Some q \<and> q sn = Inr (Some d) \<and> sd_target_protocol_version d = Some x)) sns"
  using assms
proof (induction sns arbitrary: ds v complete)
  case (Cons sn sns)
  show ?case
  proof (cases "sn \<noteq> local \<and> (\<exists>q d. ask = Some q \<and> q sn = Inr (Some d))")
    case True
    then obtain q d where "sn \<noteq> local" "ask = Some q" "q sn = Inr (Some d)" by auto
    with Cons show ?thesis by (auto split: option.splits if_splits)
  next
    case False
    with Cons.prems have "remote_details local ask sns ds v False = (ds', v', c')"
      by (auto split: if_splits option.splits sum.splits)
    from Cons.IH [OF this] False show ?thesis by auto
  qed
qed auto

text \<open>the protocol version of a peer on other SNs is told only when it is certain: there is a lease, no lease is
  the SN's own, and every SN with a lease answered with details that name this version.\<close>

theorem remote_version_unanimous:
  "snd (query_remote_details local ask leases) = Some v \<longleftrightarrow>
     (\<exists>ls. leases = Inr ls \<and> ls \<noteq> [] \<and>
        list_all (\<lambda>l. lease_serving_sn_id l \<noteq> local \<and>
          (\<exists>q d. ask = Some q \<and> q (lease_serving_sn_id l) = Inr (Some d) \<and> sd_target_protocol_version d = Some v)) ls)"
proof -
  let ?sns = "map lease_serving_sn_id (serving_leases_or_none leases)"
  obtain ds v' c where r: "remote_details local ask ?sns [] None (?sns \<noteq> []) = (ds, v', c)" by (metis prod_cases3)
  then have "snd (query_remote_details local ask leases) = Some v \<longleftrightarrow> c \<and> v' = Some v"
    by (auto simp: query_remote_details_def Let_def)
  also have "\<dots> \<longleftrightarrow> ?sns \<noteq> [] \<and>
     list_all (\<lambda>sn. sn \<noteq> local \<and> (\<exists>q d. ask = Some q \<and> q sn = Inr (Some d) \<and> sd_target_protocol_version d = Some v)) ?sns"
    using remote_version [OF r] by auto
  finally show ?thesis
    by (cases leases) (auto simp: serving_leases_or_none_def list.pred_map comp_def)
qed

section \<open>Disconnects and the invariant\<close>

text \<open>after a peer disconnects the SN knows nothing of it: no entry, no probing, no rendezvous from or to it;
  what it knows of the others stays, and duplicates parked on the peer's requests are told.\<close>

theorem disconnected_peer_forgotten:
  assumes "rs_inv (ss_rendezvous s)" and "on_peer_disconnected p s = (s', msgs)"
  shows "find_peer p (ss_peers s') = None \<and> authority_registration (ss_probes s') p = None \<and>
         (\<forall>q. q \<noteq> p \<longrightarrow> find_peer q (ss_peers s') = find_peer q (ss_peers s) \<and>
              authority_registration (ss_probes s') q = authority_registration (ss_probes s) q) \<and>
         (\<forall>k e. hm_get (rendezvous_state.entries (ss_rendezvous s')) k = Some e \<longleftrightarrow>
            hm_get (rendezvous_state.entries (ss_rendezvous s)) k = Some e \<and> initiator k \<noteq> p \<and> to_peer_id (request e) \<noteq> p) \<and>
         (\<forall>k e w. hm_get (rendezvous_state.entries (ss_rendezvous s)) k = Some e \<and> (initiator k = p \<or> to_peer_id (request e) = p) \<and>
            w \<in> set (waiters e) \<longrightarrow> (w, Inl UserCanceled) \<in> set msgs)"
proof -
  have told: "(w, Inl UserCanceled) \<in> set msgs"
    if "hm_get (rendezvous_state.entries (ss_rendezvous s)) k = Some e" "initiator k = p \<or> to_peer_id (request e) = p"
      "w \<in> set (waiters e)" for k e w
    using that hm_get_SomeD [OF that(1)] assms(2)
    by (force simp: on_peer_disconnected_def remove_peer_def drop_messages_def keep_peer_def answer_all_def)
  have "find_peer q (ss_peers s') = (if q = p then None else find_peer q (ss_peers s))"
    "authority_registration (ss_probes s') q = (if q = p then None else authority_registration (ss_probes s) q)" for q
    using assms(2)
    by (auto simp: on_peer_disconnected_def remove_peer_def find_peer_def forget_peer_def hm_removed authority_registration_def
        scheduler_remove_peer_def split: option.splits)
  moreover have "hm_get (rendezvous_state.entries (ss_rendezvous s')) k = Some e \<longleftrightarrow>
      hm_get (rendezvous_state.entries (ss_rendezvous s)) k = Some e \<and> initiator k \<noteq> p \<and> to_peer_id (request e) \<noteq> p" for k e
    using assms by (auto simp: on_peer_disconnected_def remove_peer_def rs_inv_def hm.get_retain_Some keep_peer_def)
  ultimately show ?thesis using told by auto
qed

text \<open>The events of the service, each with what its surroundings are and answer at that time.\<close>

datatype 't sn_event =
    SnCommand "'t sn_env" timestamp sn_remote p2p_id p2p_id 't sn_packet
  | SnDeliver "'t sn_env" "'t \<Rightarrow> qa_outcome" p2p_id "(p2p_id \<Rightarrow> sn_tunnel_rendezvous_resp p2p_result) option"
      "serving_lease list p2p_result" p2p_id sn_tunnel_rendezvous_notify
  | SnFinish "'t sn_env" timestamp p2p_id sn_tunnel_rendezvous "sn_tunnel_rendezvous_resp p2p_result option"
  | SnMaintain "'t sn_env" timestamp
  | SnDisconnect p2p_id
  | SnQueryDetail "'t sn_env" timestamp p2p_id p2p_id
  | SnRelayCall "'t sn_env" timestamp p2p_id sn_call
  | SnRelayRendezvous "'t sn_env" "'t \<Rightarrow> qa_outcome" p2p_id p2p_id sn_tunnel_rendezvous_notify
  | SnIdentity "u8 list"
  | SnPorts "u16 list"

fun sn_service_step :: "'t sn_event \<Rightarrow> 't sn_service \<Rightarrow> 't sn_service" where
  "sn_service_step (SnCommand env now rm local p t pk) s = fst (handle_sn_cmd env now rm local p t pk s)"
| "sn_service_step (SnDeliver env qa local ask leases target n) s = fst (process_deliver env qa local ask leases target n s)"
| "sn_service_step (SnFinish env now i r outcome) s = fst (process_finish env now i r outcome s)"
| "sn_service_step (SnMaintain env now) s = maintain_nat_probe_state env now s"
| "sn_service_step (SnDisconnect p) s = fst (on_peer_disconnected p s)"
| "sn_service_step (SnQueryDetail env now sn p) s = fst (query_detail_from_sn env now sn p s)"
| "sn_service_step (SnRelayCall env now sn c) s = fst (relay_call_from_sn env now sn c s)"
| "sn_service_step (SnRelayRendezvous env qa sn target n) s = fst (relay_rendezvous_from_sn env qa sn target n s)"
| "sn_service_step (SnIdentity cert) s = set_local_identity cert s"
| "sn_service_step (SnPorts ps) s = set_nat_probe_ports ps s"

definition sn_service_inv :: "'t sn_service \<Rightarrow> bool" where
  "sn_service_inv s \<longleftrightarrow> peers_ok (ss_peers s) \<and> sched_inv (ss_probes s) \<and> rs_inv (ss_rendezvous s)"

named_theorems service_inv

lemma inv_profile [service_inv]: "sn_service_inv s \<Longrightarrow> sn_service_inv (s\<lparr>ss_peers := fst (set_net_profile p prof (ss_peers s))\<rparr>)"
  by (simp add: sn_service_inv_def peers_ok_ops)

lemma inv_probes [service_inv]: "sn_service_inv s \<Longrightarrow> sched_inv sch \<Longrightarrow> sn_service_inv (s\<lparr>ss_probes := sch\<rparr>)"
  by (simp add: sn_service_inv_def)

lemma inv_parts [dest]: "sn_service_inv s \<Longrightarrow> sched_inv (ss_probes s)"
  by (simp add: sn_service_inv_def)

lemma inv_apply [service_inv]: "sn_service_inv s \<Longrightarrow> sn_service_inv (fst (apply_nat_probe_transition p tr s))"
  by (auto simp: apply_nat_probe_transition_def invalidate_net_profile_def inv_profile split: option.splits)

lemma inv_remove_if: "sched_inv s \<Longrightarrow> sched_inv (fst (remove_peer_if_authority p t g s))"
  using inv_step [of s "RemoveIf p t g"] by simp

lemma inv_reconcile [service_inv]: "sn_service_inv s \<Longrightarrow> sn_service_inv (reconcile_nat_probe_authority env p s)"
  by (auto simp: reconcile_nat_probe_authority_def finish_nat_probe_authority_reconcile_def invalidate_net_profile_def
      sn_service_inv_def peers_ok_ops Let_def case_prod_unfold inv_remove_if split: option.splits)

lemma inv_set_sn: "sched_inv s \<Longrightarrow> sched_inv (set_sn_peer_id i s)"
  using inv_step [of s "SetSn i"] by simp

lemma inv_observe [service_inv]: "sn_service_inv s \<Longrightarrow> sn_service_inv (observe_nat_probe_control env now local p t s)"
  by (auto simp: observe_nat_probe_control_def Let_def case_prod_unfold split: option.splits
      intro!: service_inv inv_control inv_set_sn inv_parts [OF inv_reconcile])

lemma inv_report_transition: "sched_inv sch \<Longrightarrow> sched_inv (fst (report_transition now local p t observed r sch))"
  by (auto simp: report_transition_def Let_def case_prod_unfold split: option.splits intro!: inv_capable inv_reported inv_set_sn)

lemma inv_peers [service_inv]: "sn_service_inv s \<Longrightarrow> peers_ok m \<Longrightarrow> sn_service_inv (s\<lparr>ss_peers := m\<rparr>)"
  by (simp add: sn_service_inv_def)

lemma inv_rendezvous [service_inv]: "sn_service_inv s \<Longrightarrow> rs_inv m \<Longrightarrow> sn_service_inv (s\<lparr>ss_rendezvous := m\<rparr>)"
  by (simp add: sn_service_inv_def)

lemma inv_rest [simp]:
  "sn_service_inv (s\<lparr>ss_stub := a\<rparr>) = sn_service_inv s" "sn_service_inv (s\<lparr>ss_seq := b\<rparr>) = sn_service_inv s"
  "sn_service_inv (s\<lparr>ss_cursor := c\<rparr>) = sn_service_inv s"
  by (simp_all add: sn_service_inv_def)

lemma inv_report: "sn_service_inv s \<Longrightarrow> sn_service_inv (fst (handle_report_sn env now local p t r s))"
proof -
  assume inv: "sn_service_inv s"
  then have "peers_ok (ss_peers s)" by (simp add: sn_service_inv_def)
  then show ?thesis using inv
    by (auto simp: handle_report_sn_def Let_def case_prod_unfold split: sum.splits option.splits
        intro!: service_inv peers_ok_ops inv_report_transition inv_parts)
qed

lemma peers_ok_invalidate: "peers_ok m \<Longrightarrow> peers_ok (fold (\<lambda>p m. fst (invalidate_net_profile p m)) ps m)"
  by (induction ps arbitrary: m) (auto simp: peers_ok_ops)

lemma inv_service_ports:
  "sn_service_inv s \<Longrightarrow> sn_service_inv (set_nat_probe_ports ps s)" "sn_service_inv s \<Longrightarrow> sn_service_inv (set_local_identity cert s)"
  by (auto simp: sn_service_inv_def set_nat_probe_ports_def set_local_identity_def case_prod_unfold Let_def peers_ok_invalidate inv_set_ports)

lemma inv_maintain: "sn_service_inv s \<Longrightarrow> sn_service_inv (maintain_nat_probe_state env now s)"
proof -
  assume inv: "sn_service_inv s"
  have 1: "sn_service_inv (fold (\<lambda>(p, _). reconcile_nat_probe_authority env p) as s)" for as
    using inv by (induction as arbitrary: s) (auto intro!: service_inv)
  have 2: "sched_inv x \<Longrightarrow> sched_inv (fst (expire_due now x))" for x :: "'a scheduler"
    using inv_step [of x "ExpireDue now"] by simp
  show ?thesis using 1 [of "authorities (ss_probes s)"] 2 peers_ok_invalidate
    by (auto simp: maintain_nat_probe_state_def Let_def case_prod_unfold sn_service_inv_def)
qed

lemma inv_call: "sn_service_inv s \<Longrightarrow> sn_service_inv (fst (handle_call env now relay leases local p t c s))"
  by (auto simp: handle_call_def call_known_peer_def Let_def case_prod_unfold split: sum.splits option.splits intro!: service_inv)

lemma inv_begin: "sn_service_inv s \<Longrightarrow> sn_service_inv (fst (process_begin now i r n s))"
  by (auto simp: process_begin_def case_prod_unfold Let_def sn_service_inv_def rs_inv_begin)

lemma inv_rendezvous_request: "sn_service_inv s \<Longrightarrow> sn_service_inv (fst (handle_rendezvous env now local p t r s))"
  by (auto simp: handle_rendezvous_def Let_def split: sum.splits intro!: service_inv inv_begin)

lemma inv_deliver: "sn_service_inv s \<Longrightarrow> sn_service_inv (fst (deliver_rendezvous_to_local_peer env qa target n s))"
  by (auto simp: deliver_rendezvous_to_local_peer_def Let_def)

lemma inv_process_deliver: "sn_service_inv s \<Longrightarrow> sn_service_inv (fst (process_deliver env qa local ask leases target n s))"
  using inv_deliver [of s env qa target n] by (auto simp: process_deliver_def Let_def case_prod_unfold)

lemma inv_process_finish: "sn_service_inv s \<Longrightarrow> sn_service_inv (fst (process_finish env now i r outcome s))"
  by (auto simp: process_finish_def Let_def case_prod_unfold sn_service_inv_def rs_inv_fail rs_inv_cache
      split: option.splits sum.splits)

lemma inv_disconnect: "sn_service_inv s \<Longrightarrow> sn_service_inv (fst (on_peer_disconnected p s))"
  using inv_step [of "ss_probes s" "Remove p"] rs_inv_remove_peer [of "ss_rendezvous s" p]
  by (auto simp: on_peer_disconnected_def Let_def case_prod_unfold sn_service_inv_def peers_ok_ops)

lemma inv_query: "sn_service_inv s \<Longrightarrow> sn_service_inv (fst (handle_query_sn env now ask leases local p t sq q s))"
  by (auto simp: handle_query_sn_def Let_def case_prod_unfold intro!: service_inv)

lemma inv_inter:
  assumes "sn_service_inv s"
  shows "sn_service_inv (fst (query_detail_from_sn env now sn p s))" and "sn_service_inv (fst (relay_call_from_sn env now sn c s))"
    and "sn_service_inv (fst (relay_rendezvous_from_sn env qa sn p n s))"
  using assms
  by (auto simp: query_detail_from_sn_def relay_call_from_sn_def relay_rendezvous_from_sn_def deliver_called_to_local_peer_def
      Let_def case_prod_unfold split: sum.splits option.splits intro!: service_inv inv_deliver)

lemma inv_command: "sn_service_inv s \<Longrightarrow> sn_service_inv (fst (handle_sn_cmd env now rm local p t pk s))"
  by (induction env now rm local p t pk s rule: handle_sn_cmd.induct)
    (auto simp: Let_def case_prod_unfold inv_report inv_query inv_call inv_rendezvous_request inv_observe split: option.splits)

lemma inv_service_step: "sn_service_inv s \<Longrightarrow> sn_service_inv (sn_service_step ev s)"
  by (cases ev)
    (simp_all add: inv_command inv_process_deliver inv_process_finish inv_maintain inv_disconnect inv_inter inv_service_ports)

text \<open>C27: whatever commands, answers, disconnects and timers an SN sees in whatever order, its tables stay within
  their bounds: at most 256 rendezvous requests, 8 between two peers, at most 2048 probes in flight and for
  peers seen over UDP only, and a peer counts as publicly reachable exactly when its certificate says so.\<close>

theorem sn_service_bounded:
  "let s = fold sn_service_step evs (sn_service_new now sq sn)
   in length (rendezvous_state.entries (ss_rendezvous s)) \<le> 256 \<and>
      pair_count i j (rendezvous_state.entries (ss_rendezvous s)) \<le> 8 \<and>
      in_flight_count (scheduler.peers (ss_probes s)) \<le> 2048 \<and>
      (case authority_observed_endpoint (ss_probes s) i of None \<Rightarrow> True | Some e \<Rightarrow> is_udp e) \<and>
      (case find_peer i (ss_peers s) of None \<Rightarrow> True | Some c \<Rightarrow> is_wan c = has_wan_endpoint (desc c))"
proof -
  let ?s = "fold sn_service_step evs (sn_service_new now sq sn)"
  have "sn_service_inv (fold sn_service_step evs s)" if "sn_service_inv s" for s :: "'a sn_service"
    using that by (induction evs arbitrary: s) (auto simp: inv_service_step)
  moreover have "sn_service_inv (sn_service_new now sq sn)"
    by (simp add: sn_service_inv_def sn_service_new_def rs_inv_new inv_new peers_ok_def hm_get_def)
  ultimately have inv: "sn_service_inv ?s" by blast
  then have "case authority_observed_endpoint (ss_probes ?s) i of None \<Rightarrow> True | Some e \<Rightarrow> is_udp e"
    using inv_get [of "ss_probes ?s" i] by (auto simp: sn_service_inv_def authority_observed_endpoint_def peer_ok_def split: option.splits)
  with inv show ?thesis
    by (auto simp: sn_service_inv_def rs_inv_def sched_inv_def peers_ok_def find_peer_def Let_def MAX_LIVE_ATTEMPTS_def
        MAX_LIVE_ATTEMPTS_PER_PAIR_def MAX_CONCURRENT_NAT_PROBES_def split: option.splits)
qed

section \<open>A sample service\<close>

text \<open>Peers 1 and 2 are known and seen over TCP; peer 3 is known too. Certificates are the ids.\<close>

definition sample_tcp :: endpoint where
  "sample_tcp = \<lparr>area = Wan, protocol = Tcp, addr = V4 (Ipv4 203 0 113 7) 3456\<rparr>"

definition sample_desc :: "u8 list \<Rightarrow> peer_desc" where
  "sample_desc i = \<lparr>pd_id = P2pId i, pd_endpoints = [], pd_encoded = i\<rparr>"

definition sample_sn_env :: "unit p2p_result \<Rightarrow> nat sn_env" where
  "sample_sn_env sending =
     \<lparr>streams_of = (\<lambda>p. if p = P2pId [2] then [(0, sample_tcp)] else if p = P2pId [1] then [(1, sample_tcp), (2, sample_tcp)] else []),
      create_cert = (\<lambda>c. Inr (sample_desc c)), validate_client = (\<lambda>p c. Inr ValidateAccept), env_matrix = False, env_hit = (=),
      notify_encodes = (\<lambda>n. True), called_encodes = (\<lambda>m. True), send_called = (\<lambda>p m. sending),
      inter_connection = (\<lambda>sn. Inr ValidateAccept), inter_command = (\<lambda>sn c p. Inr ValidateAccept)\<rparr>"

definition sample_sn_service :: "nat sn_service" where
  "sample_sn_service = (sn_service_new 0 1 (Some (P2pId [9])))\<lparr>ss_peers :=
     [(P2pId [1], cached_peer_new (sample_desc [1]) 0), (P2pId [2], cached_peer_new (sample_desc [2]) 0),
      (P2pId [3], cached_peer_new (sample_desc [3]) 0)], ss_rendezvous := parked_state\<rparr>"

definition sample_rendezvous :: sn_tunnel_rendezvous where
  "sample_rendezvous = \<lparr>seq = Sequence 8, tunnel_id = TunnelId 3, to_peer_id = P2pId [1], operation = ReverseConnectOnly,
     end_point_array = [sample_tcp], need_predict_endpoint = False\<rparr>"

definition sample_call :: "u8 list \<Rightarrow> sn_call" where
  "sample_call i = \<lparr>ca_seq = Sequence 4, ca_tunnel_id = TunnelId 3, ca_sn_peer_id = P2pId [9], ca_to_peer_id = P2pId [1],
     ca_from_peer_id = P2pId i, ca_reverse_endpoint_array = None, ca_active_pn_list = None, ca_peer_info = None, ca_send_time = 5,
     ca_call_type = TypeStream, ca_payload = [], ca_is_always_call = True, ca_nat_context = None\<rparr>"

lemma sample_find:
  "find_peer (P2pId [1]) (ss_peers sample_sn_service) = Some (cached_peer_new (sample_desc [1]) 0)"
  "find_peer (P2pId [2]) (ss_peers sample_sn_service) = Some (cached_peer_new (sample_desc [2]) 0)"
  "find_peer (P2pId [3]) (ss_peers sample_sn_service) = Some (cached_peer_new (sample_desc [3]) 0)"
  by (simp_all add: sample_sn_service_def sn_service_new_def find_peer_def hm_get_def)

lemma sample_reconcile: "reconcile_nat_probe_authority env p sample_sn_service = sample_sn_service"
  by (simp add: reconcile_nat_probe_authority_def authority_registration_def sample_sn_service_def sn_service_new_def scheduler_new_def hm_get_def)

lemma sample_observe:
  "observe_nat_probe_control (sample_sn_env x) now (P2pId [9]) (P2pId [2]) 0 sample_sn_service = sample_sn_service"
proof -
  have "set_sn_peer_id (P2pId [9]) (ss_probes sample_sn_service) = ss_probes sample_sn_service"
    by (simp add: set_sn_peer_id_def sample_sn_service_def sn_service_new_def scheduler_new_def)
  moreover have "observe_control (P2pId [2]) 0 sample_tcp now (ss_probes sample_sn_service) = (ss_probes sample_sn_service, transition_default)"
    by (simp add: observe_control_def observe_ineligible_report_def is_udp_def sample_tcp_def sample_sn_service_def sn_service_new_def
        scheduler_new_def hm_get_def)
  ultimately show ?thesis
    by (simp add: observe_nat_probe_control_def sample_reconcile get_peer_tunnel_remote_def sample_sn_env_def apply_nat_probe_transition_def
        transition_default_def Let_def)
qed

lemma sample_checked: "checked_client (sample_sn_env x) (P2pId i) (Inr i) = Inr ()"
  by (simp add: checked_client_ok sample_sn_env_def sample_desc_def)

lemma sample_valid:
  "validate_request False (=) sample_rendezvous = Inr ()" "validate_notify False (=) (notify_of sample_rendezvous c) = Inr ()"
  by (simp_all add: validate_request_def validate_notify_def notify_of_def sample_rendezvous_def validate_rendezvous_endpoints_def
      MAX_SN_TUNNEL_RENDEZVOUS_ENDPOINTS_def requires_endpoints_def punches_def reverse_connects_def sample_tcp_def
      rendezvous_reverse_connect_eligible_area_def rendezvous_eligible_area_def hash_set_insert_def rendezvous_ipv4_eligible_def
      is_unspecified4_def is_broadcast4_def)

lemma sample_rendezvous_leads:
  "\<exists>s' msgs. handle_rendezvous (sample_sn_env (Inr ())) 10 (P2pId [9]) (P2pId [2]) 0 sample_rendezvous sample_sn_service =
    (s', msgs, RvLead (notify_of sample_rendezvous [2]))"
proof -
  have cert: "client_cert_from_request_or_cache (P2pId [2]) None (ss_peers sample_sn_service) = Inr [2]"
    by (simp add: client_cert_from_request_or_cache_def sample_find cached_peer_new_def sample_desc_def)
  have own: "rendezvous_endpoints_owned_by (sample_sn_env (Inr ())) (P2pId [2]) 0 (end_point_array sample_rendezvous)"
    by (simp add: rendezvous_endpoints_owned_by_def get_peer_tunnel_remote_def sample_sn_env_def sample_rendezvous_def)
  have "snd (snd (rs_begin (P2pId [2]) sample_rendezvous 10 (ss_rendezvous sample_sn_service))) = Inr BeginNew"
    by (simp add: sample_sn_service_def rs_begin_def cleanup_def parked_state_def parked_entry_def hm_retain_def hm_get_def
        rendezvous_key_new_def sample_rendezvous_def MAX_LIVE_ATTEMPTS_def MAX_LIVE_ATTEMPTS_PER_PAIR_def pair_count_def
        prune_window_def MAX_REQUESTS_PER_INITIATOR_WINDOW_def Let_def prune_windows_def rate_expired_def RATE_WINDOW_def sample_request_def)
  then have "snd (snd (process_begin 10 (P2pId [2]) sample_rendezvous (notify_of sample_rendezvous [2]) sample_sn_service)) =
      RvLead (notify_of sample_rendezvous [2])"
    by (simp add: process_begin_def Let_def case_prod_unfold)
  moreover have "handle_rendezvous (sample_sn_env (Inr ())) 10 (P2pId [9]) (P2pId [2]) 0 sample_rendezvous sample_sn_service =
      process_begin 10 (P2pId [2]) sample_rendezvous (notify_of sample_rendezvous [2]) sample_sn_service"
    using sample_valid own
    by (simp add: handle_rendezvous_def Let_def cert sample_checked sample_observe)
      (simp add: sample_rendezvous_def sample_sn_env_def)
  ultimately show ?thesis by (metis prod.collapse)
qed

lemma sample_call_failed:
  "\<exists>s' m. handle_call (sample_sn_env x) 10 None (Inr []) (P2pId [9]) (P2pId [2]) 0 (sample_call [3]) sample_sn_service =
     (s', [m], case x of Inl _ \<Rightarrow> Inl IoError | Inr _ \<Rightarrow> Inr \<lparr>cr_seq = Sequence 4, cr_sn_peer_id = P2pId [9], cr_result = as_u8 Ok, cr_to_peer_info = Some [1]\<rparr>)"
proof -
  have ok: "checked_client (sample_sn_env x) (P2pId [2]) (client_cert_from_request_or_cache (P2pId [2]) (ca_peer_info (sample_call [3]))
      (ss_peers sample_sn_service)) = Inr ()"
    by (simp add: client_cert_from_request_or_cache_def sample_call_def sample_find sample_checked cached_peer_new_def)
      (simp add: sample_desc_def sample_checked)
  have "handle_call (sample_sn_env x) 10 None (Inr []) (P2pId [9]) (P2pId [2]) 0 (sample_call [3]) sample_sn_service =
      call_known_peer (sample_sn_env x) 10 (P2pId [9]) (P2pId [2]) (sample_call [3]) (cached_peer_new (sample_desc [3]) 0)
        (cached_peer_new (sample_desc [1]) 0) sample_sn_service"
    by (rule handle_call_known [OF ok, of sample_sn_service]) (simp_all add: sample_observe sample_reconcile sample_call_def sample_find)
  then show ?thesis
    by (cases x)
      (simp_all add: call_known_peer_def sample_call_def send_call_def sample_sn_env_def stub_insert_def sample_sn_service_def sn_service_new_def
        call_stub_new_def hm_get_def Let_def case_prod_unfold called_of_def cached_peer_new_def sample_desc_def)
qed


theorem rendezvous_delivery_witness:
  "\<exists>s' as res. deliver_rendezvous_to_local_peer (sample_sn_env (Inr ()))
      (\<lambda>t. if t = 1 then QaError else QaBody (Inr (resp_failure (Sequence 8))) []) (P2pId [1]) (notify_of sample_rendezvous [2]) sample_sn_service =
      (s', as, res) \<and> asked as = [1, 2] \<and> shut as = [1]"
proof -
  let ?qa = "\<lambda>t::nat. if t = 1 then QaError else QaBody (Inr (resp_failure (Sequence 8))) []"
  obtain s' as res where d: "deliver_rendezvous_to_local_peer (sample_sn_env (Inr ())) ?qa (P2pId [1]) (notify_of sample_rendezvous [2]) sample_sn_service = (s', as, res)"
    by (metis prod_cases3)
  have "ss_cursor sample_sn_service = 0" by (simp add: sample_sn_service_def sn_service_new_def)
  with rendezvous_delivery [OF _ _ _ d] have "asked as = [1, 2]" "shut as = [1]"
    by (simp_all add: sample_find sample_sn_env_def first_usable_def Let_def)
  with d show ?thesis by blast
qed

theorem leader_leaves_no_waiter_witness:
  "snd (process_finish (sample_sn_env (Inr ())) 50 (P2pId [2]) sample_request None sample_sn_service) =
     ([(0, Inl NetworkError)], resp_failure (Sequence 7))"
proof -
  have e: "in_flight_entry (P2pId [2]) sample_request sample_sn_service parked_entry"
    using parked_state_get parked_eq by (simp add: in_flight_entry_def sample_sn_service_def parked_entry_def)
  obtain s' msgs resp where f: "process_finish (sample_sn_env (Inr ())) 50 (P2pId [2]) sample_request None sample_sn_service = (s', msgs, resp)"
    by (metis prod_cases3)
  have "msgs = [(0, Inl NetworkError)]"
    using f parked_state_get parked_eq
    by (auto simp: process_finish_def fail_unanswered_def sample_sn_service_def Let_def parked_entry_def answer_all_def)
  with leader_leaves_no_waiter [OF e f] f show ?thesis by (simp add: sample_request_def)
qed

theorem called_once_witness:
  "\<exists>s' m res. handle_call (sample_sn_env (Inr ())) 10 None (Inr []) (P2pId [9]) (P2pId [2]) 0 (sample_call [3]) sample_sn_service = (s', [m], res) \<and>
      hm_get (stubs (ss_stub s')) (P2pId [3], TunnelId 3) = Some 10"
proof -
  from sample_call_failed obtain s' m res where
    h: "handle_call (sample_sn_env (Inr ())) 10 None (Inr []) (P2pId [9]) (P2pId [2]) 0 (sample_call [3]) sample_sn_service = (s', [m], res)" by blast
  from called_once [OF h] h show ?thesis by (auto simp: sample_call_def)
qed

text \<open>Peer 2 sends a call in the name of peer 3, whose certificate peer 1 is shown.\<close>

theorem call_shows_named_sender_witness:
  "\<exists>s' m res. handle_call (sample_sn_env (Inr ())) 10 None (Inr []) (P2pId [9]) (P2pId [2]) 0 (sample_call [3]) sample_sn_service = (s', [m], res) \<and>
      cd_peer_info m = [3]"
proof -
  from sample_call_failed obtain s' m res where
    h: "handle_call (sample_sn_env (Inr ())) 10 None (Inr []) (P2pId [9]) (P2pId [2]) 0 (sample_call [3]) sample_sn_service = (s', [m], res)" by blast
  have "ca_peer_info (sample_call [3]) = None" "ca_from_peer_id (sample_call [3]) = P2pId [3]" by (simp_all add: sample_call_def)
  with call_shows_named_sender [OF h] sample_find(3) have "cd_peer_info m = [3]" by (simp add: cached_peer_new_def sample_desc_def)
  with h show ?thesis by blast
qed

theorem failed_call_retry_answered_ok_witness:
  "\<exists>s' m s'' resp.
     handle_call (sample_sn_env (Inl Timeout)) 10 None (Inr []) (P2pId [9]) (P2pId [2]) 0 (sample_call [3]) sample_sn_service = (s', [m], Inl IoError) \<and>
     handle_call (sample_sn_env (Inl Timeout)) 20 None (Inr []) (P2pId [9]) (P2pId [2]) 0 (sample_call [3]) s' = (s'', [], Inr resp) \<and>
     cr_result resp = as_u8 Ok"
proof -
  from sample_call_failed [of "Inl Timeout"] obtain s' m where
    h: "handle_call (sample_sn_env (Inl Timeout)) 10 None (Inr []) (P2pId [9]) (P2pId [2]) 0 (sample_call [3]) sample_sn_service = (s', [m], Inl IoError)"
    by auto
  from h failed_call_retry_answered_ok [OF h, of 20] show ?thesis by blast
qed

theorem disconnected_peer_forgotten_witness:
  "find_peer (P2pId [1]) (ss_peers (fst (on_peer_disconnected (P2pId [1]) sample_sn_service))) = None \<and>
   (0, Inl UserCanceled) \<in> set (snd (on_peer_disconnected (P2pId [1]) sample_sn_service))"
proof -
  have inv: "rs_inv (ss_rendezvous sample_sn_service)" using parked_state_inv by (simp add: sample_sn_service_def)
  obtain s' msgs where d: "on_peer_disconnected (P2pId [1]) sample_sn_service = (s', msgs)" by fastforce
  have "hm_get (rendezvous_state.entries (ss_rendezvous sample_sn_service)) (rendezvous_key_new (P2pId [2]) sample_request) = Some parked_entry"
    "to_peer_id (request parked_entry) = P2pId [1]" "0 \<in> set (waiters parked_entry)"
    using parked_state_get by (simp_all add: sample_sn_service_def parked_entry_def sample_request_def)
  with disconnected_peer_forgotten [OF inv d] have "(0, Inl UserCanceled) \<in> set msgs" by blast
  with disconnected_peer_forgotten [OF inv d] d show ?thesis by simp
qed

end
