(* ===== verification/LocalIp.thy ===== *)
theory LocalIp
  imports Endpoints
begin

text \<open>
  \<open>sn/client/local_ip.rs\<close> and the address providers of \<open>sn/client/sn_service.rs\<close>: which of its local addresses
  a client reports to the SN. Interfaces are filtered by name and address, the state the platform has of an
  address (\<open>/proc/net/if_inet6\<close> on Linux, adapter metadata on Windows) is attached, and the addresses that may be
  used are ranked. The list of interfaces, the text of the file and the adapter snapshot are arguments; text is
  a list of 8-bit characters, white space is that of ASCII.
\<close>

unbundle bit_operations_syntax

section \<open>Definitions\<close>

subsection \<open>Addresses and their state\<close>

definition MAX_LOCAL_IP_COUNT :: nat where
  "MAX_LOCAL_IP_COUNT = 32"

datatype dad_state = DadPreferred | DadDeprecated | DadTentative | DadFailed | DadUnknown
datatype prefix_source = SourceManual | SourceLinkLayer | SourceRandom | SourceOther | SourceUnknown

record address_meta =
  am_addr :: ip_addr
  am_dad_state :: dad_state
  am_temporary :: bool
  am_prefix_source :: prefix_source

definition meta_unknown :: "ip_addr \<Rightarrow> address_meta" where
  "meta_unknown a = \<lparr>am_addr = a, am_dad_state = DadUnknown, am_temporary = False, am_prefix_source = SourceUnknown\<rparr>"

definition address_is_usable :: "address_meta \<Rightarrow> bool" where
  "address_is_usable m \<longleftrightarrow> am_dad_state m = DadPreferred \<or> am_dad_state m = DadUnknown"

definition address_score :: "address_meta \<Rightarrow> int" where
  "address_score m =
     (if am_dad_state m = DadPreferred then 100 else 0) + (if \<not> am_temporary m then 30 else 0) +
     (if am_prefix_source m \<noteq> SourceRandom then 20 else 0)"

definition selection_cmp :: "int \<times> nat \<times> ip_addr \<Rightarrow> int \<times> nat \<times> ip_addr \<Rightarrow> ordering" where
  "selection_cmp l r = then_with (cmp_ord (fst r) (fst l)) (cmp_ord (fst (snd l)) (fst (snd r)))"

definition select_local_ips :: "address_meta list \<Rightarrow> ip_addr list" where
  "select_local_ips metas =
     (let selected = map (\<lambda>(i, m). (address_score m, i, am_addr m)) (filter (\<lambda>(i, m). address_is_usable m) (enumerate 0 metas))
      in map (\<lambda>(s, i, a). a) (take MAX_LOCAL_IP_COUNT (sort_by selection_cmp selected)))"

subsection \<open>Windows\<close>

definition windows_dad_state :: "u32 \<Rightarrow> dad_state option" where
  "windows_dad_state code =
     (if code = 0 then None else if code = 1 then Some DadTentative else if code = 2 then Some DadFailed
      else if code = 3 then Some DadDeprecated else if code = 4 then Some DadPreferred else Some DadUnknown)"

definition windows_prefix_source :: "u32 \<Rightarrow> prefix_source" where
  "windows_prefix_source code =
     (if code = 1 then SourceManual else if code = 4 then SourceLinkLayer else if code = 5 then SourceRandom
      else if code = 2 \<or> code = 3 then SourceOther else SourceUnknown)"

definition windows_meta :: "ip_addr \<Rightarrow> u32 \<Rightarrow> u32 \<Rightarrow> bool \<Rightarrow> address_meta option" where
  "windows_meta a dad suffix up =
     (if \<not> up then None
      else (case windows_dad_state dad of
              None \<Rightarrow> None
            | Some d \<Rightarrow> let src = windows_prefix_source suffix
                       in Some \<lparr>am_addr = a, am_dad_state = d, am_temporary = (src = SourceRandom), am_prefix_source = src\<rparr>))"

definition annotate_windows :: "(ip_addr \<times> address_meta option) list \<Rightarrow> (string \<times> ip_addr) list \<Rightarrow> address_meta list" where
  "annotate_windows snapshot es =
     List.map_filter (\<lambda>(_, a). case map_of snapshot a of Some r \<Rightarrow> r | None \<Rightarrow> Some (meta_unknown a)) es"

subsection \<open>Linux\<close>

definition IFA_F_TEMPORARY :: u32 where "IFA_F_TEMPORARY = 0x01"
definition IFA_F_DADFAILED :: u32 where "IFA_F_DADFAILED = 0x08"
definition IFA_F_DEPRECATED :: u32 where "IFA_F_DEPRECATED = 0x20"
definition IFA_F_TENTATIVE :: u32 where "IFA_F_TENTATIVE = 0x40"
definition IFA_F_STABLE_PRIVACY :: u32 where "IFA_F_STABLE_PRIVACY = 0x800"

record proc_net_if_inet6_entry =
  pe_addr :: ip_addr
  pe_ifname :: string
  pe_prefix_len :: u8
  pe_scope :: u8
  pe_flags :: u32

definition dad_state_from_flags :: "u32 \<Rightarrow> dad_state" where
  "dad_state_from_flags f =
     (if f AND IFA_F_DADFAILED \<noteq> 0 then DadFailed
      else if f AND IFA_F_TENTATIVE \<noteq> 0 then DadTentative
      else if f AND IFA_F_DEPRECATED \<noteq> 0 then DadDeprecated else DadPreferred)"

definition meta_from_flags :: "ip_addr \<Rightarrow> u32 \<Rightarrow> address_meta" where
  "meta_from_flags a f =
     \<lparr>am_addr = a, am_dad_state = dad_state_from_flags f, am_temporary = (f AND IFA_F_TEMPORARY \<noteq> 0),
      am_prefix_source = (if f AND IFA_F_STABLE_PRIVACY \<noteq> 0 then SourceRandom else SourceUnknown)\<rparr>"

text \<open>\<open>str::lines\<close>, \<open>split_whitespace\<close> and \<open>from_str_radix\<close> with radix 16 for an unsigned type of \<open>w\<close> bits.\<close>

definition strip_cr :: "string \<Rightarrow> string" where
  "strip_cr l = (if l \<noteq> [] \<and> last l = CHR 0x0D then butlast l else l)"

fun split_lines :: "string \<Rightarrow> string \<Rightarrow> string list" where
  "split_lines acc [] = (if acc = [] then [] else [acc])"
| "split_lines acc (c # cs) = (if c = CHR 0x0A then strip_cr acc # split_lines [] cs else split_lines (acc @ [c]) cs)"

definition is_ws :: "char \<Rightarrow> bool" where
  "is_ws c \<longleftrightarrow> c \<in> {CHR 0x09, CHR 0x0A, CHR 0x0B, CHR 0x0C, CHR 0x0D, CHR 0x20}"

fun split_ws :: "string \<Rightarrow> string \<Rightarrow> string list" where
  "split_ws acc [] = (if acc = [] then [] else [acc])"
| "split_ws acc (c # cs) =
     (if is_ws c then (if acc = [] then split_ws [] cs else acc # split_ws [] cs) else split_ws (acc @ [c]) cs)"

definition hex_digit_value :: "char \<Rightarrow> nat option" where
  "hex_digit_value c =
     (let n = of_char c :: nat
      in if 48 \<le> n \<and> n \<le> 57 then Some (n - 48) else if 97 \<le> n \<and> n \<le> 102 then Some (n - 87)
         else if 65 \<le> n \<and> n \<le> 70 then Some (n - 55) else None)"

fun hex_acc :: "nat \<Rightarrow> string \<Rightarrow> nat option" where
  "hex_acc a [] = Some a"
| "hex_acc a (c # cs) = (case hex_digit_value c of None \<Rightarrow> None | Some d \<Rightarrow> hex_acc (a * 16 + d) cs)"

definition from_str_radix16 :: "nat \<Rightarrow> string \<Rightarrow> nat option" where
  "from_str_radix16 w s =
     (let digits = (case s of [] \<Rightarrow> [] | c # cs \<Rightarrow> if c = CHR ''+'' then cs else s)
      in if digits = [] then None
         else (case hex_acc 0 digits of Some n \<Rightarrow> if n < 2 ^ w then Some n else None | None \<Rightarrow> None))"

fun segments_of :: "nat \<Rightarrow> nat \<Rightarrow> u16 list" where
  "segments_of 0 n = []"
| "segments_of (Suc k) n = segments_of k (n div 65536) @ [of_nat n]"

text \<open>\<open>Ipv6Addr::from(u128)\<close>.\<close>

definition ipv6_from_u128 :: "nat \<Rightarrow> ipv6" where
  "ipv6_from_u128 n =
     (case segments_of 8 n of [a, b, c, d, e, f, g, h] \<Rightarrow> Ipv6 a b c d e f g h | _ \<Rightarrow> Ipv6 0 0 0 0 0 0 0 0)"

definition parse_row :: "string \<Rightarrow> proc_net_if_inet6_entry option" where
  "parse_row line =
     (case split_ws [] line of
        address' # ifindex # prefix_len # scope' # flags' # ifname # _ \<Rightarrow>
          (case (from_str_radix16 128 address', from_str_radix16 8 prefix_len, from_str_radix16 8 scope', from_str_radix16 32 flags') of
             (Some a, Some p, Some s, Some f) \<Rightarrow>
               Some \<lparr>pe_addr = IpV6 (ipv6_from_u128 a), pe_ifname = ifname, pe_prefix_len = of_nat p, pe_scope = of_nat s,
                     pe_flags = of_nat f\<rparr>
           | _ \<Rightarrow> None)
      | _ \<Rightarrow> None)"

definition parse_proc_net_if_inet6 :: "string \<Rightarrow> proc_net_if_inet6_entry list" where
  "parse_proc_net_if_inet6 text = List.map_filter parse_row (split_lines [] text)"

definition find_entry :: "proc_net_if_inet6_entry list \<Rightarrow> string \<Rightarrow> ip_addr \<Rightarrow> proc_net_if_inet6_entry option" where
  "find_entry es ifname a =
     (case find (\<lambda>e. pe_addr e = a \<and> pe_ifname e = ifname) es of
        Some e \<Rightarrow> Some e | None \<Rightarrow> find (\<lambda>e. pe_addr e = a) es)"

text \<open>\<open>text\<close>: the contents of \<open>/proc/net/if_inet6\<close>, when it can be read.\<close>

definition annotate_linux :: "string option \<Rightarrow> (string \<times> ip_addr) list \<Rightarrow> address_meta list" where
  "annotate_linux text es =
     (let snapshot = (case text of Some t \<Rightarrow> parse_proc_net_if_inet6 t | None \<Rightarrow> [])
      in map (\<lambda>(ifname, a). case find_entry snapshot ifname a of
                Some e \<Rightarrow> meta_from_flags a (pe_flags e) | None \<Rightarrow> meta_unknown a) es)"

definition annotate_other :: "(string \<times> ip_addr) list \<Rightarrow> address_meta list" where
  "annotate_other es = map (\<lambda>(_, a). meta_unknown a) es"

subsection \<open>Interfaces\<close>

fun str_contains :: "string \<Rightarrow> string \<Rightarrow> bool" where
  "str_contains pat [] = (pat = [])"
| "str_contains pat (c # cs) = (take (length pat) (c # cs) = pat \<or> str_contains pat cs)"

definition starts_with :: "string \<Rightarrow> string \<Rightarrow> bool" where
  "starts_with pat s = (take (length pat) s = pat)"

definition should_ignore_interface :: "string \<Rightarrow> bool" where
  "should_ignore_interface name \<longleftrightarrow>
     list_ex (\<lambda>pat. str_contains pat name)
       [''VMware'', ''VirtualBox'', ''ZeroTier'', ''Tun'', ''tun'', ''utun'', ''docker'', ''lo'', ''veth'', ''feth'', ''V-M'', ''br-'',
        ''vEthernet'', ''TAP'', ''tap'', ''virbr'', ''vmnet'', ''VMnet'', ''vboxnet'', ''dummy'', ''tailscale'', ''hamachi'', ''sit'',
        ''ip6tnl'', ''teredo'', ''isatap'', ''6to4'', ''gif'', ''stf'', ''awdl'', ''ip6ip'', ''ppp'', ''bridge'', ''nflog''] \<or>
     starts_with ''zt'' name \<or> starts_with ''wg'' name"

fun ip_is_loopback :: "ip_addr \<Rightarrow> bool" where
  "ip_is_loopback (IpV4 a) = is_loopback4 a"
| "ip_is_loopback (IpV6 a) = is_loopback6 a"

fun ip_is_unspecified :: "ip_addr \<Rightarrow> bool" where
  "ip_is_unspecified (IpV4 a) = is_unspecified4 a"
| "ip_is_unspecified (IpV6 a) = is_unspecified6 a"

fun ip_is_multicast :: "ip_addr \<Rightarrow> bool" where
  "ip_is_multicast (IpV4 a) = is_multicast4 a"
| "ip_is_multicast (IpV6 a) = is_multicast6 a"

definition filter_local_ip_entries :: "(string \<times> ip_addr) list \<Rightarrow> (string \<times> ip_addr) list" where
  "filter_local_ip_entries addrs =
     take MAX_LOCAL_IP_COUNT
       (filter (\<lambda>(name, a). \<not> should_ignore_interface name \<and> \<not> ip_is_loopback a \<and> \<not> ip_is_unspecified a \<and> \<not> ip_is_multicast a) addrs)"

definition filter_local_ips :: "(string \<times> ip_addr) list \<Rightarrow> ip_addr list" where
  "filter_local_ips addrs = map snd (filter_local_ip_entries addrs)"

definition default_local_ips :: "(string \<times> ip_addr) list option \<Rightarrow> ip_addr list" where
  "default_local_ips addrs = (case addrs of Some es \<Rightarrow> filter_local_ips es | None \<Rightarrow> [])"

definition enhanced_local_ips ::
    "((string \<times> ip_addr) list \<Rightarrow> address_meta list) \<Rightarrow> (string \<times> ip_addr) list option \<Rightarrow> ip_addr list" where
  "enhanced_local_ips annotate addrs =
     (case addrs of None \<Rightarrow> [] | Some es \<Rightarrow> select_local_ips (annotate (filter_local_ip_entries es)))"

section \<open>Ranking\<close>

text \<open>The comparison with the index, on entries that come later, is the one of a stable sort by the score.\<close>

definition selects :: "int \<times> nat \<times> ip_addr \<Rightarrow> address_meta \<Rightarrow> bool" where
  "selects e m \<longleftrightarrow> fst e = address_score m \<and> snd (snd e) = am_addr m"

lemma ins_by_selects:
  assumes "list_all2 selects es ms" and "selects x m" and "\<forall>e\<in>set es. fst (snd x) < fst (snd e)"
  shows "list_all2 selects (ins_by selection_cmp x es) (insort_key (\<lambda>m. - address_score m) m ms)"
  using assms
  by (induction rule: list_all2_induct) (auto simp: selects_def selection_cmp_def then_with_def cmp_ord_def)

lemma set_ins_selection: "set (ins_by selection_cmp x es) = insert x (set es)"
  by (induction es) auto

lemma sort_selects:
  assumes "list_all2 selects es ms" and "sorted_wrt (<) (map (\<lambda>e. fst (snd e)) es)"
  shows "list_all2 selects (sort_by selection_cmp es) (sort_key (\<lambda>m. - address_score m) ms) \<and>
         set (sort_by selection_cmp es) = set es"
  using assms
proof (induction rule: list_all2_induct)
  case (Cons x xs y ys)
  then have IH: "list_all2 selects (sort_by selection_cmp xs) (sort_key (\<lambda>m. - address_score m) ys)"
    "set (sort_by selection_cmp xs) = set xs" by simp_all
  moreover have "\<forall>e\<in>set (sort_by selection_cmp xs). fst (snd x) < fst (snd e)" using Cons.prems IH(2) by auto
  ultimately show ?case
    using ins_by_selects [OF IH(1) Cons.hyps(1)] by (simp add: sort_by_def sort_key_def set_ins_selection)
qed (simp add: sort_by_def)

lemma selected_enumerate:
  "list_all2 selects (map (\<lambda>(i, m). (address_score m, i, am_addr m)) (filter (\<lambda>(i, m). address_is_usable m) (enumerate k metas)))
     (filter address_is_usable metas)"
  by (induction metas arbitrary: k) (auto simp: selects_def)

lemma selected_sorted:
  "sorted_wrt (<) (map (\<lambda>e. fst (snd e)) (map (\<lambda>(i, m). (address_score m, i, am_addr m)) (filter (\<lambda>(i, m). address_is_usable m) (enumerate k metas))))"
proof -
  have "map (\<lambda>e. fst (snd e)) (map (\<lambda>(i, m). (address_score m, i, am_addr m)) (filter (\<lambda>(i, m). address_is_usable m) (enumerate k metas))) =
      map fst (filter (\<lambda>(i, m). address_is_usable m) (enumerate k metas))" by (simp add: case_prod_unfold comp_def)
  moreover have "sorted_wrt (<) (map fst (filter P (enumerate k metas)))" for P :: "nat \<times> address_meta \<Rightarrow> bool"
    by (induction metas arbitrary: k) (auto simp: in_set_enumerate_eq)
  ultimately show ?thesis by metis
qed

text \<open>the reported addresses are the usable ones by decreasing score, those with the same score in the order they
  came in, and at most 32.\<close>

theorem select_local_ips_stable:
  "select_local_ips metas = take 32 (map am_addr (sort_key (\<lambda>m. - address_score m) (filter address_is_usable metas)))"
proof -
  let ?es = "map (\<lambda>(i, m). (address_score m, i, am_addr m)) (filter (\<lambda>(i, m). address_is_usable m) (enumerate 0 metas))"
  have "list_all2 selects (sort_by selection_cmp ?es) (sort_key (\<lambda>m. - address_score m) (filter address_is_usable metas))"
    using sort_selects [OF selected_enumerate selected_sorted] by blast
  then have "map (\<lambda>(s, i, a). a) (sort_by selection_cmp ?es) = map am_addr (sort_key (\<lambda>m. - address_score m) (filter address_is_usable metas))"
    by (induction rule: list_all2_induct) (auto simp: selects_def)
  then show ?thesis by (simp add: select_local_ips_def Let_def MAX_LOCAL_IP_COUNT_def flip: take_map)
qed

lemma selected_mset:
  "mset (sort_key (\<lambda>m. - address_score m) ms) = mset ms"
  by simp

text \<open>Without a metadata source the addresses keep the order and number they have.\<close>

lemma select_unknown:
  assumes "length as \<le> 32"
  shows "select_local_ips (map meta_unknown as) = as"
proof -
  have "filter address_is_usable (map meta_unknown as) = map meta_unknown as"
    by (induction as) (auto simp: address_is_usable_def meta_unknown_def)
  moreover have "sorted (map (\<lambda>m. - address_score m) (map meta_unknown as))"
    by (induction as) (auto simp: address_score_def meta_unknown_def)
  then have "sort_key (\<lambda>m. - address_score m) (map meta_unknown as) = map meta_unknown as"
    by (rule sort_key_id_if_sorted)
  ultimately show ?thesis using assms by (simp add: select_local_ips_stable comp_def meta_unknown_def)
qed

lemma filter_entries_length: "length (filter_local_ip_entries es) \<le> 32"
  by (simp add: filter_local_ip_entries_def MAX_LOCAL_IP_COUNT_def)

text \<open>on Linux a client reports exactly those addresses of the base list that the kernel does not mark as failed,
  tentative or deprecated, each as often as the base list has it; an address the kernel's table does not name is kept.\<close>

definition kernel_marked :: "string option \<Rightarrow> string \<times> ip_addr \<Rightarrow> bool" where
  "kernel_marked text e =
     (case find_entry (case text of Some t \<Rightarrow> parse_proc_net_if_inet6 t | None \<Rightarrow> []) (fst e) (snd e) of
        None \<Rightarrow> False
      | Some r \<Rightarrow> pe_flags r AND (IFA_F_DADFAILED OR IFA_F_TENTATIVE OR IFA_F_DEPRECATED) \<noteq> 0)"

lemma dad_preferred_iff:
  "dad_state_from_flags f = DadPreferred \<longleftrightarrow> f AND (IFA_F_DADFAILED OR IFA_F_TENTATIVE OR IFA_F_DEPRECATED) = 0"
proof -
  have "f AND (a OR b OR c) = 0 \<longleftrightarrow> f AND a = 0 \<and> f AND b = 0 \<and> f AND c = 0" for a b c :: u32
    by (auto simp: bit_eq_iff bit_simps)
  then show ?thesis by (auto simp: dad_state_from_flags_def)
qed

lemma annotate_linux_usable:
  "map am_addr (filter address_is_usable (annotate_linux text es)) = map snd (filter (\<lambda>e. \<not> kernel_marked text e) es)"
proof -
  have "dad_state_from_flags f \<noteq> DadUnknown" for f by (simp add: dad_state_from_flags_def)
  then show ?thesis
    by (induction es)
      (auto simp: annotate_linux_def kernel_marked_def Let_def address_is_usable_def meta_from_flags_def meta_unknown_def
        dad_preferred_iff split: option.splits)
qed

theorem linux_reports_unmarked:
  "mset (enhanced_local_ips (annotate_linux text) (Some es)) =
     mset (map snd (filter (\<lambda>e. \<not> kernel_marked text e) (filter_local_ip_entries es))) \<and>
   length (enhanced_local_ips (annotate_linux text) (Some es)) \<le> 32"
proof -
  let ?ms = "filter address_is_usable (annotate_linux text (filter_local_ip_entries es))"
  have "length (annotate_linux text (filter_local_ip_entries es)) \<le> 32"
    using filter_entries_length [of es] by (simp add: annotate_linux_def Let_def)
  then have "length ?ms \<le> 32" by (rule le_trans [OF length_filter_le])
  then have "mset (enhanced_local_ips (annotate_linux text) (Some es)) = mset (map am_addr ?ms)"
    by (simp add: enhanced_local_ips_def select_local_ips_stable)
  then show ?thesis by (simp add: annotate_linux_usable enhanced_local_ips_def select_local_ips_stable)
qed

section \<open>The kernel's table\<close>

definition nat_of_segments :: "u16 list \<Rightarrow> nat" where
  "nat_of_segments xs = foldl (\<lambda>a s. a * 65536 + unat s) 0 xs"

lemma segments_roundtrip: "segments_of (length xs) (nat_of_segments xs) = xs"
proof (induction xs rule: rev_induct)
  case (snoc x xs)
  have "nat_of_segments (xs @ [x]) = nat_of_segments xs * 65536 + unat x" by (simp add: nat_of_segments_def)
  moreover have "unat x < 65536" using unsigned_less [of x] by simp
  moreover have z: "(65536 :: u16) = 0" by code_simp
  ultimately show ?case using snoc by (simp add: z)
qed (simp add: nat_of_segments_def)

definition nat_of_ipv6 :: "ipv6 \<Rightarrow> nat" where
  "nat_of_ipv6 a = nat_of_segments (segments a)"

lemma ipv6_roundtrip: "ipv6_from_u128 (nat_of_ipv6 a) = a"
proof (cases a)
  case (Ipv6 s0 s1 s2 s3 s4 s5 s6 s7)
  then have "length (segments a) = 8" by simp
  then have "segments_of 8 (nat_of_segments (segments a)) = segments a" using segments_roundtrip [of "segments a"] by metis
  then show ?thesis by (simp add: ipv6_from_u128_def nat_of_ipv6_def Ipv6)
qed

lemma nat_of_segments_bound: "nat_of_segments xs < 65536 ^ length xs"
proof (induction xs rule: rev_induct)
  case (snoc x xs)
  have "nat_of_segments (xs @ [x]) = nat_of_segments xs * 65536 + unat x" by (simp add: nat_of_segments_def)
  moreover have "unat x < 65536" using unsigned_less [of x] by simp
  ultimately show ?case using snoc by simp
qed (simp add: nat_of_segments_def)

text \<open>A row as the kernel prints it: hexadecimal fields of fixed width and a right-aligned name.\<close>

definition hex_digit :: "nat \<Rightarrow> char" where
  "hex_digit d = ''0123456789abcdef'' ! d"

fun hex_fixed :: "nat \<Rightarrow> nat \<Rightarrow> string" where
  "hex_fixed 0 n = []"
| "hex_fixed (Suc k) n = hex_fixed k (n div 16) @ [hex_digit (n mod 16)]"

definition print_row :: "nat \<Rightarrow> nat \<Rightarrow> proc_net_if_inet6_entry \<Rightarrow> string" where
  "print_row ifindex pad e =
     hex_fixed 32 (case pe_addr e of IpV6 a \<Rightarrow> nat_of_ipv6 a | IpV4 _ \<Rightarrow> 0) @ '' '' @ hex_fixed 2 ifindex @ '' '' @
     hex_fixed 2 (unat (pe_prefix_len e)) @ '' '' @ hex_fixed 2 (unat (pe_scope e)) @ '' '' @
     hex_fixed 8 (unat (pe_flags e)) @ '' '' @ replicate pad (CHR '' '') @ pe_ifname e @ [CHR 0x0A]"

lemma hex_digit_ok:
  assumes "d < 16"
  shows "hex_digit_value (hex_digit d) = Some d" and "\<not> is_ws (hex_digit d)" and "hex_digit d \<noteq> CHR ''+''"
proof -
  have "list_all (\<lambda>d. hex_digit_value (hex_digit d) = Some d \<and> \<not> is_ws (hex_digit d) \<and> hex_digit d \<noteq> CHR ''+'') [0..<16]"
    by code_simp
  then show "hex_digit_value (hex_digit d) = Some d" "\<not> is_ws (hex_digit d)" "hex_digit d \<noteq> CHR ''+''"
    using assms by (auto simp: list_all_iff)
qed

lemma hex_acc_append: "hex_acc a (xs @ ys) = (case hex_acc a xs of None \<Rightarrow> None | Some b \<Rightarrow> hex_acc b ys)"
  by (induction xs arbitrary: a) (auto split: option.splits)

lemma hex_fixed_value: "hex_acc 0 (hex_fixed k n) = Some (n mod 16 ^ k)"
proof (induction k arbitrary: n)
  case (Suc k)
  have "n mod 16 < 16" by simp
  moreover have "n div 16 mod 16 ^ k * 16 + n mod 16 = n mod 16 ^ Suc k"
    using mod_mult2_eq [of n 16 "16 ^ k"] by (simp add: mult.commute)
  ultimately show ?case using Suc [of "n div 16"] hex_digit_ok(1) [of "n mod 16"] by (simp add: hex_acc_append)
qed simp

lemma hex_fixed_chars: "c \<in> set (hex_fixed k n) \<Longrightarrow> \<not> is_ws c \<and> c \<noteq> CHR ''+''"
  by (induction k arbitrary: n) (auto simp: hex_digit_ok)

lemma hex_fixed_nonempty: "0 < k \<Longrightarrow> hex_fixed k n \<noteq> []"
  by (cases k) auto

lemma hex_fixed_parsed:
  assumes "n < 16 ^ k" and "0 < k" and "16 ^ k \<le> (2::nat) ^ w"
  shows "from_str_radix16 w (hex_fixed k n) = Some n"
proof -
  obtain c cs where "hex_fixed k n = c # cs" using hex_fixed_nonempty [OF assms(2)] by (cases "hex_fixed k n") auto
  moreover then have "c \<noteq> CHR ''+''" using hex_fixed_chars [of c k n] by simp
  ultimately show ?thesis using hex_fixed_value [of k n] assms by (auto simp: from_str_radix16_def Let_def)
qed

lemma split_ws_word:
  "list_all (\<lambda>c. \<not> is_ws c) w \<Longrightarrow> split_ws acc (w @ rest) = split_ws (acc @ w) rest"
  by (induction w arbitrary: acc) auto

lemma split_ws_token:
  assumes "list_all (\<lambda>c. \<not> is_ws c) w" and "w \<noteq> []" and "is_ws c"
  shows "split_ws [] (w @ c # rest) = w # split_ws [] rest"
  using assms by (simp add: split_ws_word)

lemma split_ws_pad: "split_ws [] (replicate k (CHR '' '') @ rest) = split_ws [] rest"
  by (induction k) (auto simp: is_ws_def)

lemma split_lines_word:
  "list_all (\<lambda>c. c \<noteq> CHR 0x0A) w \<Longrightarrow> split_lines acc (w @ rest) = split_lines (acc @ w) rest"
  by (induction w arbitrary: acc) auto

lemma split_lines_line:
  assumes "list_all (\<lambda>c. c \<noteq> CHR 0x0A \<and> c \<noteq> CHR 0x0D) w"
  shows "split_lines [] (w @ CHR 0x0A # rest) = w # split_lines [] rest"
proof -
  have "strip_cr w = w" using assms by (cases w rule: rev_cases) (auto simp: strip_cr_def)
  moreover have "list_all (\<lambda>c. c \<noteq> CHR 0x0A) w" using assms by (simp add: list_all_iff)
  ultimately show ?thesis by (simp add: split_lines_word)
qed

definition row_ok :: "proc_net_if_inet6_entry \<Rightarrow> bool" where
  "row_ok e \<longleftrightarrow> (\<exists>a. pe_addr e = IpV6 a) \<and> pe_ifname e \<noteq> [] \<and> list_all (\<lambda>c. \<not> is_ws c) (pe_ifname e)"

lemma hex_fixed_no_ws: "list_all (\<lambda>c. \<not> is_ws c) (hex_fixed k n)"
  using hex_fixed_chars [of _ k n] by (simp add: list_all_iff)

lemma no_ws_line: "list_all (\<lambda>c. \<not> is_ws c) w \<Longrightarrow> list_all (\<lambda>c. c \<noteq> CHR 0x0A \<and> c \<noteq> CHR 0x0D) w"
  by (auto simp: list_all_iff is_ws_def)

lemma parse_printed_row:
  assumes "row_ok e"
  shows "parse_row (butlast (print_row ifindex pad e)) = Some e"
proof -
  from assms obtain a where a: "pe_addr e = IpV6 a" by (auto simp: row_ok_def)
  have sp: "is_ws (CHR '' '')" by (simp add: is_ws_def)
  have "nat_of_ipv6 a < 16 ^ 32"
    using nat_of_segments_bound [of "segments a"] by (cases a) (simp add: nat_of_ipv6_def)
  then have A: "from_str_radix16 128 (hex_fixed 32 (nat_of_ipv6 a)) = Some (nat_of_ipv6 a)" by (simp add: hex_fixed_parsed)
  have W: "from_str_radix16 8 (hex_fixed 2 (unat (w :: u8))) = Some (unat w)" for w
    using unsigned_less [of w, where ?'a = nat] by (simp add: hex_fixed_parsed)
  have F: "from_str_radix16 32 (hex_fixed 8 (unat (pe_flags e))) = Some (unat (pe_flags e))"
    using unsigned_less [of "pe_flags e", where ?'a = nat] by (simp add: hex_fixed_parsed)
  have "split_ws [] (pe_ifname e) = [pe_ifname e]"
    using assms split_ws_word [of "pe_ifname e" "[]" "[]"] by (simp add: row_ok_def)
  then have "split_ws [] (butlast (print_row ifindex pad e)) =
     [hex_fixed 32 (nat_of_ipv6 a), hex_fixed 2 ifindex, hex_fixed 2 (unat (pe_prefix_len e)), hex_fixed 2 (unat (pe_scope e)),
      hex_fixed 8 (unat (pe_flags e)), pe_ifname e]"
    using split_ws_token [OF hex_fixed_no_ws hex_fixed_nonempty sp]
    by (simp add: print_row_def a butlast_append split_ws_pad)
  then show ?thesis by (simp add: parse_row_def A W F ipv6_roundtrip a)
qed

text \<open>what the kernel prints is read back: the rows of a table, each with any index and any padding of the name, give
  the entries, in order.\<close>

theorem if_inet6_roundtrip:
  assumes "list_all row_ok es" and "length ids = length es"
  shows "parse_proc_net_if_inet6 (concat (map2 (\<lambda>(ifindex, pad) e. print_row ifindex pad e) ids es)) = es"
  using assms
proof (induction es arbitrary: ids)
  case (Cons e es)
  then obtain i ids' where ids: "ids = i # ids'" by (cases ids) auto
  let ?row = "print_row (fst i) (snd i) e"
  have row: "?row = butlast ?row @ [CHR 0x0A]" by (simp add: print_row_def butlast_append)
  have "list_all (\<lambda>c. c \<noteq> CHR 0x0A \<and> c \<noteq> CHR 0x0D) (butlast ?row)"
    using Cons.prems no_ws_line [OF hex_fixed_no_ws] no_ws_line [of "pe_ifname e"]
    by (auto simp: print_row_def butlast_append row_ok_def list_all_iff)
  from split_lines_line [OF this]
  have "split_lines [] (?row @ rest) = butlast ?row # split_lines [] rest" for rest by (subst row) simp
  with Cons ids show ?case
    by (simp add: parse_proc_net_if_inet6_def case_prod_unfold List.map_filter_simps parse_printed_row)
qed (simp add: parse_proc_net_if_inet6_def List.map_filter_simps)

text \<open>A row of the loopback device and one with a name padded to eight characters.\<close>

definition sample_rows :: "proc_net_if_inet6_entry list" where
  "sample_rows =
     [\<lparr>pe_addr = IpV6 (Ipv6 0 0 0 0 0 0 0 1), pe_ifname = ''lo'', pe_prefix_len = 128, pe_scope = 16, pe_flags = 128\<rparr>,
      \<lparr>pe_addr = IpV6 (Ipv6 0xFE80 0 0 0 0 0 0 9), pe_ifname = ''eth0'', pe_prefix_len = 64, pe_scope = 32, pe_flags = 0x40\<rparr>]"

theorem if_inet6_roundtrip_witness:
  "parse_proc_net_if_inet6 (print_row 1 6 (sample_rows ! 0) @ print_row 2 4 (sample_rows ! 1)) = sample_rows"
  using if_inet6_roundtrip [of sample_rows "[(1, 6), (2, 4)]"] by (simp add: sample_rows_def row_ok_def is_ws_def)

text \<open>The name of a physical wireless interface on Linux is taken for that of a loopback device.\<close>

theorem wireless_interface_ignored: "should_ignore_interface ''wlo1'' \<and> \<not> should_ignore_interface ''wlp3s0''"
  by code_simp

end
