(* ===== verification/SnClient.thy ===== *)
theory SnClient
  imports SnService LocalIp
begin

text \<open>
  The client of the SNs (\<open>SNClientService\<close> of \<open>sn/client/sn_service.rs\<close>): it reports to one SN after another until
  one accepts, keeps the SNs it is active on, reports to them every ten minutes, carries out the NAT probes
  they ask for, and sends calls, queries and rendezvous through them.

  The listeners, the local addresses, the certificate factory, the command streams with what is answered over
  them and the NAT probe of a network are parameters (\<open>sn_client_env\<close>). One round of the ping task is one
  function, at one time; the task is the only writer of the SN list beside \<open>stop\<close>, which ends it.
\<close>

section \<open>Definitions\<close>

subsection \<open>Candidates\<close>

fun sn_client_protocol_priority :: "protocol \<Rightarrow> nat" where
  "sn_client_protocol_priority Quic = 0"
| "sn_client_protocol_priority Tcp = 1"
| "sn_client_protocol_priority (Ext _) = 2"

type_synonym listener_info = "endpoint \<times> u16 option"

definition sort_sn_client_listener_entries :: "(protocol \<times> listener_info list) list \<Rightarrow> (protocol \<times> listener_info list) list" where
  "sort_sn_client_listener_entries es = sort_key (\<lambda>e. sn_client_protocol_priority (fst e)) es"

definition sn_client_local_ep_for_protocol :: "protocol \<Rightarrow> endpoint \<Rightarrow> endpoint option" where
  "sn_client_local_ep_for_protocol p e =
     (if p \<noteq> Tcp then Some e
      else if ip_is_unspecified (sa_ip (addr e)) then None
      else Some (e\<lparr>addr := set_port 0 (addr e)\<rparr>))"

definition sn_client_protocol_candidates ::
    "(protocol \<times> listener_info list) list \<Rightarrow> protocol list \<Rightarrow> (protocol \<times> endpoint option list) list" where
  "sn_client_protocol_candidates es supported =
     (let cs = map (\<lambda>(p, ls). (p, if ls = [] then [None] else map (\<lambda>l. sn_client_local_ep_for_protocol p (fst l)) ls)) es
      in sort_key (\<lambda>c. sn_client_protocol_priority (fst c))
           (fold (\<lambda>p cs. if list_ex (\<lambda>c. fst c = p) cs then cs else cs @ [(p, [None])]) supported cs))"

subsection \<open>State\<close>

text \<open>What is read of a certificate: its id, and whether it verifies for its own name.\<close>

record signer_cert =
  sg_id :: p2p_id
  sg_verifies :: bool

record active_sn =
  as_sn_peer_id :: p2p_id
  as_latest_time :: u64
  as_protocol :: protocol
  as_sn_endpoint :: endpoint
  as_wan_ep_list :: "endpoint list"
  as_nat_probe_endpoints :: "endpoint list"
  as_nat_probe_signer :: "signer_cert option"
  as_net_profile :: nat_profile
  as_registration_generation :: u64
  as_last_request_id :: u64
  as_next_probe_at :: u64

record sn_client =
  sc_active :: "active_sn list"
  sc_latest_sn_interval :: u64
  sc_first_report_pending :: bool
  sc_failures :: "(p2p_id, u32) hmap"
  sc_pinging :: bool
  sc_sn_list :: "(p2p_id \<times> endpoint list) list"
  sc_seq :: u32

text \<open>\<open>ce_stream\<close>: the peer of the command stream obtained for a local and a remote endpoint, by the number of
  requests made so far, nothing when there is none; \<open>ce_report\<close>: what is answered to a report, an error when
  the question fails or the answer is not readable; \<open>ce_probe\<close>: the NAT probe of the network of a protocol.\<close>

record sn_client_env =
  ce_id :: p2p_id
  ce_cert :: "u8 list p2p_result"
  ce_listeners :: "(protocol \<times> listener_info list) list"
  ce_protocols :: "protocol list"
  ce_local_ips :: "ip_addr list"
  ce_create :: "u8 list \<Rightarrow> signer_cert p2p_result"
  ce_stream :: "u32 \<Rightarrow> endpoint option \<Rightarrow> endpoint \<Rightarrow> p2p_id option"
  ce_report_encodes :: "report_sn \<Rightarrow> bool"
  ce_report :: "p2p_id \<Rightarrow> report_sn \<Rightarrow> report_sn_resp p2p_result"
  ce_probe :: "protocol \<Rightarrow> endpoint list \<Rightarrow> signer_cert \<Rightarrow> nat_profile p2p_result"

definition NAT_CLIENT_PROBE_PERIOD :: u64 where "NAT_CLIENT_PROBE_PERIOD = 2 * 60 * 60 * 1000 * 1000"
definition SN_ACTIVE_REPORT_REFRESH_INTERVAL :: u64 where "SN_ACTIVE_REPORT_REFRESH_INTERVAL = 600 * 1000 * 1000"
definition SN_REPORT_STREAM_FAILURE_EVICT_THRESHOLD :: u32 where "SN_REPORT_STREAM_FAILURE_EVICT_THRESHOLD = 2"
definition SN_PROTOCOL_VERSION :: u8 where "SN_PROTOCOL_VERSION = 1"

definition sn_client_new :: "(p2p_id \<times> endpoint list) list \<Rightarrow> u32 \<Rightarrow> sn_client" where
  "sn_client_new sns sq =
     \<lparr>sc_active = [], sc_latest_sn_interval = 0, sc_first_report_pending = False, sc_failures = [], sc_pinging = False,
      sc_sn_list = sns, sc_seq = sq\<rparr>"

definition publish_active_sn :: "active_sn \<Rightarrow> active_sn list \<Rightarrow> active_sn list \<times> bool" where
  "publish_active_sn a as =
     (if list_ex (\<lambda>x. as_sn_peer_id x = as_sn_peer_id a) as then (as, False) else (as @ [a], True))"

fun update_active_sn :: "p2p_id \<Rightarrow> (active_sn \<Rightarrow> active_sn) \<Rightarrow> active_sn list \<Rightarrow> active_sn list \<times> bool" where
  "update_active_sn i f [] = ([], False)"
| "update_active_sn i f (a # as) =
     (if as_sn_peer_id a = i then (f a # as, True)
      else let (as', found) = update_active_sn i f as in (a # as', found))"

definition find_active :: "p2p_id \<Rightarrow> active_sn list \<Rightarrow> active_sn option" where
  "find_active i as = find (\<lambda>a. as_sn_peer_id a = i) as"

definition active_sn_due_report :: "bool \<Rightarrow> u64 \<Rightarrow> u64 \<Rightarrow> bool" where
  "active_sn_due_report force latest now \<longleftrightarrow> force \<or> sat_sub now latest > SN_ACTIVE_REPORT_REFRESH_INTERVAL"

definition collect_due_active_sns :: "bool \<Rightarrow> u64 \<Rightarrow> active_sn list \<Rightarrow> active_sn list \<times> active_sn list" where
  "collect_due_active_sns force now as =
     (map (\<lambda>a. if active_sn_due_report force (as_latest_time a) now then a\<lparr>as_latest_time := now\<rparr> else a) as,
      map (\<lambda>a. a\<lparr>as_latest_time := now\<rparr>) (filter (\<lambda>a. active_sn_due_report force (as_latest_time a) now) as))"

definition get_wan_ip_list :: "sn_client \<Rightarrow> endpoint list" where
  "get_wan_ip_list s = concat (map as_wan_ep_list (sc_active s))"

definition get_wan_ip_list_for_sn :: "p2p_id \<Rightarrow> sn_client \<Rightarrow> endpoint list" where
  "get_wan_ip_list_for_sn i s = (case find_active i (sc_active s) of Some a \<Rightarrow> as_wan_ep_list a | None \<Rightarrow> [])"

definition get_nat_probe_snapshot_for_sn :: "p2p_id \<Rightarrow> sn_client \<Rightarrow> (endpoint list \<times> signer_cert) option" where
  "get_nat_probe_snapshot_for_sn i s =
     (case find_active i (sc_active s) of
        None \<Rightarrow> None
      | Some a \<Rightarrow> map_option (Pair (as_nat_probe_endpoints a)) (as_nat_probe_signer a))"

definition is_same_lan :: "endpoint list \<Rightarrow> sn_client \<Rightarrow> bool" where
  "is_same_lan reverse_list s = list_ex (\<lambda>e. list_ex (is_same_ip_addr e) (get_wan_ip_list s)) reverse_list"

definition active_sn_matches :: "p2p_id \<Rightarrow> sn_client \<Rightarrow> bool" where
  "active_sn_matches i s = list_ex (\<lambda>a. as_sn_peer_id a = i) (sc_active s)"

subsection \<open>Probe targets and signers\<close>

datatype nat_probe_reject =
    TransportNotUdp | ActiveEndpointProtocol | ActiveEndpointIpv4 | ActiveEndpointAddress | VersionUnsupported | SnMismatch
  | PeerMismatch | DeadlineExpired | Replay | PortCount | PortZero | PortDuplicate

definition validate_nat_probe_target :: "protocol \<Rightarrow> endpoint \<Rightarrow> nat_probe_reject + ip_addr" where
  "validate_nat_probe_target p e =
     (if p = Tcp then Inl TransportNotUdp
      else if protocol e \<noteq> p then Inl ActiveEndpointProtocol
      else (case sa_ip (addr e) of
              IpV6 _ \<Rightarrow> Inl ActiveEndpointIpv4
            | IpV4 ip \<Rightarrow> if is_unspecified4 ip \<or> is_multicast4 ip \<or> is_broadcast4 ip then Inl ActiveEndpointAddress
                        else Inr (IpV4 ip)))"

fun check_probe_ports :: "u16 list \<Rightarrow> u16 list \<Rightarrow> nat_probe_reject + unit" where
  "check_probe_ports seen [] = Inr ()"
| "check_probe_ports seen (p # ps) =
     (if p = 0 then Inl PortZero else if p \<in> set seen then Inl PortDuplicate else check_probe_ports (p # seen) ps)"

definition validate_nat_probe_ports :: "u16 list \<Rightarrow> nat_probe_reject + unit" where
  "validate_nat_probe_ports ps =
     (if length ps < 2 \<or> length ps > MAX_NAT_PROBE_ENDPOINTS then Inl PortCount else check_probe_ports [] ps)"

definition build_nat_probe_endpoints :: "protocol \<Rightarrow> endpoint \<Rightarrow> u16 list \<Rightarrow> nat_probe_reject + endpoint list" where
  "build_nat_probe_endpoints p e ps =
     (case validate_nat_probe_target p e of
        Inl r \<Rightarrow> Inl r
      | Inr ip \<Rightarrow> (case validate_nat_probe_ports ps of
                    Inl r \<Rightarrow> Inl r | Inr _ \<Rightarrow> Inr (map (\<lambda>port. set_area Wan (endpoint_from_ip p ip port)) ps)))"

definition probe_endpoints_or_none :: "protocol \<Rightarrow> endpoint \<Rightarrow> u16 list \<Rightarrow> endpoint list" where
  "probe_endpoints_or_none p e ps = (case build_nat_probe_endpoints p e ps of Inr es \<Rightarrow> es | Inl _ \<Rightarrow> [])"

definition validate_nat_probe_signer :: "sn_client_env \<Rightarrow> p2p_id \<Rightarrow> u8 list option \<Rightarrow> signer_cert option" where
  "validate_nat_probe_signer env sn info =
     (case info of
        None \<Rightarrow> None
      | Some c \<Rightarrow>
          (case ce_create env c of
             Inl _ \<Rightarrow> None
           | Inr cert \<Rightarrow> if sg_id cert \<noteq> sn then None else if \<not> sg_verifies cert then None else Some cert))"

definition validate_probe_directive ::
    "p2p_id \<Rightarrow> p2p_id \<Rightarrow> protocol \<Rightarrow> endpoint \<Rightarrow> u64 \<Rightarrow> u64 \<Rightarrow> timestamp \<Rightarrow> nat_probe_directive \<Rightarrow> nat_probe_reject + endpoint list" where
  "validate_probe_directive sn me p e last_gen last_req now d =
     (let replayed = dir_registration_generation d < last_gen \<or>
                     dir_registration_generation d = last_gen \<and> dir_request_id d \<le> last_req
      in if p = Tcp then Inl TransportNotUdp
         else if dir_version d \<noteq> NAT_PROBE_CONTROL_VERSION then Inl VersionUnsupported
         else if dir_sn_peer_id d \<noteq> sn then Inl SnMismatch
         else if dir_peer_id d \<noteq> me then Inl PeerMismatch
         else if now > dir_expires_at d then Inl DeadlineExpired
         else if replayed then Inl Replay
         else build_nat_probe_endpoints p e (dir_ports d))"

definition nat_probe_network_protocol :: "endpoint list \<Rightarrow> protocol" where
  "nat_probe_network_protocol es = (case es of [] \<Rightarrow> Quic | e # _ \<Rightarrow> protocol e)"

text \<open>\<open>probe_endpoints\<close> and \<open>probe_local\<close> differ in what they log.\<close>

definition probe_local :: "sn_client_env \<Rightarrow> endpoint list \<Rightarrow> signer_cert option \<Rightarrow> nat_profile" where
  "probe_local env es signer =
     (case signer of
        None \<Rightarrow> profile_unknown
      | Some c \<Rightarrow> (case ce_probe env (nat_probe_network_protocol es) es c of Inr p \<Rightarrow> p | Inl _ \<Rightarrow> profile_unknown))"

definition apply_completed_probe ::
    "timestamp \<Rightarrow> p2p_id \<Rightarrow> u64 option \<Rightarrow> u64 option \<Rightarrow> nat_profile \<Rightarrow> sn_client \<Rightarrow> sn_client" where
  "apply_completed_probe now i gen req prof s =
     s\<lparr>sc_active := fst (update_active_sn i (\<lambda>a.
        (case (gen, req) of (Some g, Some q) \<Rightarrow> a\<lparr>as_registration_generation := g, as_last_request_id := q\<rparr> | _ \<Rightarrow> a)
          \<lparr>as_net_profile := prof, as_next_probe_at := now + NAT_CLIENT_PROBE_PERIOD\<rparr>) (sc_active s))\<rparr>"

definition probe_local_if_due :: "sn_client_env \<Rightarrow> timestamp \<Rightarrow> active_sn \<Rightarrow> sn_client \<Rightarrow> sn_client \<times> nat_profile option" where
  "probe_local_if_due env now a s =
     (if as_next_probe_at a > now then (s, None)
      else let prof = probe_local env (as_nat_probe_endpoints a) (as_nat_probe_signer a)
           in (apply_completed_probe now (as_sn_peer_id a) None None prof s, Some prof))"

definition execute_probe_directive ::
    "sn_client_env \<Rightarrow> timestamp \<Rightarrow> p2p_id \<Rightarrow> protocol \<Rightarrow> endpoint \<Rightarrow> u64 \<Rightarrow> u64 \<Rightarrow> signer_cert option \<Rightarrow> nat_probe_directive option \<Rightarrow>
     nat_probe_result option" where
  "execute_probe_directive env now sn p e gen req signer d =
     (case d of
        None \<Rightarrow> None
      | Some dir \<Rightarrow>
          (case validate_probe_directive sn (ce_id env) p e gen req now dir of
             Inl _ \<Rightarrow> None
           | Inr es \<Rightarrow> Some (from_directive dir (probe_local env es signer))))"

subsection \<open>Reports\<close>

text \<open>A stream to another peer is disabled and not used.\<close>

definition acquire_sn_send :: "sn_client_env \<Rightarrow> u32 \<Rightarrow> endpoint option \<Rightarrow> endpoint \<Rightarrow> p2p_id \<Rightarrow> unit p2p_result" where
  "acquire_sn_send env cur l r sn =
     (case ce_stream env cur l r of
        None \<Rightarrow> Inl ConnectFailed
      | Some i \<Rightarrow> if i \<noteq> sn then Inl InvalidData else Inr ())"

definition remove_active_sn :: "p2p_id \<Rightarrow> sn_client \<Rightarrow> sn_client" where
  "remove_active_sn i s =
     s\<lparr>sc_active := filter (\<lambda>a. as_sn_peer_id a \<noteq> i) (sc_active s), sc_failures := hm_remove i (sc_failures s)\<rparr>"

definition record_report_stream_failure :: "timestamp \<Rightarrow> p2p_id \<Rightarrow> sn_client \<Rightarrow> sn_client" where
  "record_report_stream_failure now i s =
     (let f = sat_add (case hm_get (sc_failures s) i of Some n \<Rightarrow> n | None \<Rightarrow> 0) 1;
          s1 = s\<lparr>sc_failures := hm_insert i f (sc_failures s)\<rparr>
      in if f \<ge> SN_REPORT_STREAM_FAILURE_EVICT_THRESHOLD then remove_active_sn i s1
         else s1\<lparr>sc_active := fst (update_active_sn i
                (\<lambda>a. a\<lparr>as_latest_time := sat_sub now (SN_ACTIVE_REPORT_REFRESH_INTERVAL + 1)\<rparr>) (sc_active s1))\<rparr>)"

definition clear_report_stream_failure :: "p2p_id \<Rightarrow> sn_client \<Rightarrow> sn_client" where
  "clear_report_stream_failure i s = s\<lparr>sc_failures := hm_remove i (sc_failures s)\<rparr>"

definition listener_map_ports :: "(protocol \<times> listener_info list) list \<Rightarrow> (protocol \<times> u16) list" where
  "listener_map_ports es =
     concat (map (\<lambda>(p, ls). concat (map (\<lambda>l. case snd l of Some port \<Rightarrow> [(p, port)] | None \<Rightarrow> []) ls)) es)"

definition listener_endpoints :: "ip_addr list \<Rightarrow> (protocol \<times> listener_info list) list \<Rightarrow> endpoint list" where
  "listener_endpoints ips es =
     concat (map (\<lambda>(p, ls). concat (map (\<lambda>l.
       if ip_is_unspecified (sa_ip (addr (fst l))) then map (\<lambda>ip. endpoint_from_ip p ip (sa_port (addr (fst l)))) ips
       else [fst l]) ls)) es)"

text \<open>The parts of the report that the SN reads.\<close>

definition report_message ::
    "sn_client_env \<Rightarrow> sequence \<Rightarrow> u8 list \<Rightarrow> nat_profile option \<Rightarrow> nat_probe_result option \<Rightarrow> report_sn" where
  "report_message env sq cert prof res =
     \<lparr>rp_protocol_version = SN_PROTOCOL_VERSION, rp_seq = sq, rp_from_peer_id = Some (ce_id env), rp_peer_info = Some cert,
      rp_map_ports = listener_map_ports (ce_listeners env),
      rp_local_eps = take MAX_LOCAL_IP_COUNT (listener_endpoints (ce_local_ips env) (ce_listeners env)),
      rp_net_profile = prof, rp_control_version = Some NAT_PROBE_CONTROL_VERSION, rp_probe_result = res\<rparr>"

definition report_on_send ::
    "sn_client_env \<Rightarrow> p2p_id \<Rightarrow> nat_profile option \<Rightarrow> nat_probe_result option \<Rightarrow> sn_client \<Rightarrow> sn_client \<times> report_sn_resp p2p_result" where
  "report_on_send env sn prof res s =
     (let (sq, cur) = sequence_generate (sc_seq s); s1 = s\<lparr>sc_seq := cur\<rparr>
      in (s1, case ce_cert env of
                Inl e \<Rightarrow> Inl e
              | Inr cert \<Rightarrow>
                  let m = report_message env sq cert prof res
                  in if \<not> ce_report_encodes env m then Inl RawCodecError
                     else (case ce_report env sn m of
                             Inl e \<Rightarrow> Inl e
                           | Inr resp \<Rightarrow> if rr_seq resp \<noteq> sq \<or> rr_sn_peer_id resp \<noteq> sn then Inl InvalidData else Inr resp)))"

definition report ::
    "sn_client_env \<Rightarrow> timestamp \<Rightarrow> endpoint option \<Rightarrow> endpoint \<Rightarrow> p2p_id \<Rightarrow> nat_profile option \<Rightarrow> nat_probe_result option \<Rightarrow> sn_client \<Rightarrow>
     sn_client \<times> report_sn_resp p2p_result" where
  "report env now l r sn prof res s =
     (case acquire_sn_send env (sc_seq s) l r sn of
        Inl e \<Rightarrow> (record_report_stream_failure now sn s, Inl e)
      | Inr _ \<Rightarrow> report_on_send env sn prof res (clear_report_stream_failure sn s))"

subsection \<open>The ping task\<close>

text \<open>The head of a round: the state, for how many seconds it sleeps (if it does), and whether all are due.\<close>

definition ping_begin :: "sn_client \<Rightarrow> sn_client \<times> u64 option \<times> bool" where
  "ping_begin s =
     (let force = sc_first_report_pending s; s1 = s\<lparr>sc_first_report_pending := False\<rparr>
      in if sc_active s \<noteq> [] then (s1\<lparr>sc_latest_sn_interval := 10\<rparr>, Some (if force then 0 else 10), force)
         else let cur = sc_latest_sn_interval s;
                  doubled = (if cur = 0 then 1 else if cur = 10 then 1 else cur * 2);
                  nxt = (if doubled > 600 then 600 else doubled)
              in (s1\<lparr>sc_latest_sn_interval := nxt\<rparr>, if cur \<noteq> 0 then Some nxt else None, force))"

definition update_registration :: "p2p_id \<Rightarrow> endpoint list \<Rightarrow> signer_cert option \<Rightarrow> endpoint list \<Rightarrow> sn_client \<Rightarrow> sn_client" where
  "update_registration i es signer wan s =
     s\<lparr>sc_active := fst (update_active_sn i
        (\<lambda>a. a\<lparr>as_nat_probe_endpoints := es, as_nat_probe_signer := signer, as_wan_ep_list := wan\<rparr>) (sc_active s))\<rparr>"

definition report_active_sn :: "sn_client_env \<Rightarrow> timestamp \<Rightarrow> active_sn \<Rightarrow> sn_client \<Rightarrow> sn_client" where
  "report_active_sn env now a s =
     (let sn = as_sn_peer_id a; ep = as_sn_endpoint a; p = as_protocol a;
          (s1, probed) = probe_local_if_due env now a s;
          prof = (case probed of Some x \<Rightarrow> x | None \<Rightarrow> as_net_profile a)
      in case report env now None ep sn (Some prof) None s1 of
           (s2, Inl _) \<Rightarrow> s2
         | (s2, Inr resp) \<Rightarrow>
             let signer = validate_nat_probe_signer env sn (rr_peer_info resp);
                 finish = (\<lambda>resp signer s. update_registration sn (probe_endpoints_or_none p ep (rr_nat_probe_ports resp)) signer (rr_end_point_array resp) s)
             in case execute_probe_directive env now sn p ep (as_registration_generation a) (as_last_request_id a) signer
                       (rr_nat_probe_directive resp) of
                  None \<Rightarrow> finish resp signer s2
                | Some res \<Rightarrow>
                    let s3 = apply_completed_probe now sn (Some (res_registration_generation res)) (Some (res_request_id res)) (res_profile res) s2
                    in case report env now None ep sn (Some (res_profile res)) (Some res) s3 of
                         (s4, Inr resp2) \<Rightarrow> finish resp2 (validate_nat_probe_signer env sn (rr_peer_info resp2)) s4
                       | (s4, Inl _) \<Rightarrow> finish resp signer s4)"

definition register_published ::
    "sn_client_env \<Rightarrow> timestamp \<Rightarrow> p2p_id \<Rightarrow> protocol \<Rightarrow> endpoint \<Rightarrow> endpoint option \<Rightarrow> report_sn_resp \<Rightarrow> sn_client \<Rightarrow> sn_client" where
  "register_published env now sn p ep l resp s =
     (let signer = validate_nat_probe_signer env sn (rr_peer_info resp);
          es = probe_endpoints_or_none p ep (rr_nat_probe_ports resp);
          a = \<lparr>as_sn_peer_id = sn, as_latest_time = now, as_protocol = p, as_sn_endpoint = ep, as_wan_ep_list = rr_end_point_array resp,
               as_nat_probe_endpoints = es, as_nat_probe_signer = signer, as_net_profile = profile_unknown,
               as_registration_generation = 0, as_last_request_id = 0, as_next_probe_at = now\<rparr>;
          s1 = s\<lparr>sc_active := fst (publish_active_sn a (sc_active s))\<rparr>
      in case execute_probe_directive env now sn p ep 0 0 signer (rr_nat_probe_directive resp) of
           Some res \<Rightarrow>
             (let s2 = apply_completed_probe now sn (Some (res_registration_generation res)) (Some (res_request_id res)) (res_profile res) s1
              in case report env now l ep sn (Some (res_profile res)) (Some res) s2 of
                   (s3, Inr resp2) \<Rightarrow>
                     update_registration sn (probe_endpoints_or_none p ep (rr_nat_probe_ports resp2))
                       (validate_nat_probe_signer env sn (rr_peer_info resp2)) (rr_end_point_array resp2) s3
                 | (s3, Inl _) \<Rightarrow> s3)
         | None \<Rightarrow> apply_completed_probe now sn None None (probe_local env es signer) s1)"

fun register_loop ::
    "sn_client_env \<Rightarrow> timestamp \<Rightarrow> p2p_id \<Rightarrow> (protocol \<times> endpoint \<times> endpoint option) list \<Rightarrow> sn_client \<Rightarrow> sn_client" where
  "register_loop env now sn [] s = s"
| "register_loop env now sn ((p, ep, l) # cs) s =
     (case report env now l ep sn None None s of
        (s1, Inl _) \<Rightarrow> register_loop env now sn cs s1
      | (s1, Inr resp) \<Rightarrow> register_published env now sn p ep l resp s1)"

text \<open>The candidates of one SN in the order of the nested loops.\<close>

definition sn_candidates ::
    "(protocol \<times> endpoint option list) list \<Rightarrow> endpoint list \<Rightarrow> (protocol \<times> endpoint \<times> endpoint option) list" where
  "sn_candidates cs eps =
     concat (map (\<lambda>(p, ls). concat (map (\<lambda>e. map (\<lambda>l. (p, e, l)) ls) (filter (\<lambda>e. protocol e = p) eps))) cs)"

definition ping_round :: "sn_client_env \<Rightarrow> timestamp \<Rightarrow> bool \<Rightarrow> sn_client \<Rightarrow> sn_client" where
  "ping_round env now force s =
     (if sc_active s \<noteq> []
      then let (as, due) = collect_due_active_sns force now (sc_active s)
           in fold (report_active_sn env now) due (s\<lparr>sc_active := as\<rparr>)
      else let cs = sn_client_protocol_candidates (ce_listeners env) (ce_protocols env)
           in fold (\<lambda>(sn, eps). register_loop env now sn (sn_candidates cs eps)) (sc_sn_list s) s)"

definition ping_proc_step :: "sn_client_env \<Rightarrow> timestamp \<Rightarrow> sn_client \<Rightarrow> sn_client \<times> u64 option" where
  "ping_proc_step env now s = (let (s1, sleep, force) = ping_begin s in (ping_round env now force s1, sleep))"

definition start :: "sn_client \<Rightarrow> sn_client" where
  "start s = s\<lparr>sc_first_report_pending := True, sc_pinging := True\<rparr>"

definition stop :: "sn_client \<Rightarrow> sn_client" where
  "stop s = s\<lparr>sc_active := [], sc_failures := [], sc_pinging := False\<rparr>"

definition reset_sn :: "(p2p_id \<times> endpoint list) list \<Rightarrow> sn_client \<Rightarrow> sn_client" where
  "reset_sn sns s = start (stop (s\<lparr>sc_sn_list := sns\<rparr>))"

text \<open>One look of \<open>wait_online\<close>: nothing means it sleeps a second and looks again.\<close>

definition wait_online_look :: "bool \<Rightarrow> sn_client \<Rightarrow> unit p2p_result option" where
  "wait_online_look expired s =
     (if expired then Some (Inl Timeout) else if sc_active s \<noteq> [] then Some (Inr ()) else None)"

subsection \<open>Rendezvous\<close>

record rendezvous_action_ack =
  ack_predicted_endpoints :: "endpoint list"
  ack_socket_binding_generation :: u64
  ack_valid_until :: u64

definition ack_without_prediction :: rendezvous_action_ack where
  "ack_without_prediction = \<lparr>ack_predicted_endpoints = [], ack_socket_binding_generation = 0, ack_valid_until = 0\<rparr>"

text \<open>\<open>listener\<close>: what the tunnel manager answers, when it listens; \<open>now\<close>: the time after its answer.\<close>

definition on_rendezvous_notify ::
    "sn_client_env \<Rightarrow> bool \<Rightarrow> (endpoint \<Rightarrow> endpoint \<Rightarrow> bool) \<Rightarrow>
     (sn_tunnel_rendezvous_notify \<Rightarrow> p2p_id \<Rightarrow> rendezvous_action_ack p2p_result) option \<Rightarrow> timestamp \<Rightarrow> p2p_id \<Rightarrow>
     sn_tunnel_rendezvous_notify \<Rightarrow> sn_client \<Rightarrow> sn_tunnel_rendezvous_resp" where
  "on_rendezvous_notify env matrix hit listener now sn n s =
     (let failure = resp_failure (nt_seq n)
      in if \<not> active_sn_matches sn s then failure
         else if validate_notify matrix hit n \<noteq> Inr () then failure
         else (case ce_create env (nt_peer_info n) of
                 Inl _ \<Rightarrow> failure
               | Inr cert \<Rightarrow>
                   if sg_id cert = ce_id env then failure
                   else (case listener of
                           None \<Rightarrow> failure
                         | Some f \<Rightarrow>
                             (case f n sn of
                                Inl _ \<Rightarrow> failure
                              | Inr ack \<Rightarrow>
                                  if nt_need_predict_endpoint n
                                  then (if ack_socket_binding_generation ack = 0 \<or> ack_valid_until ack < now then failure
                                        else let resp = resp_success (nt_seq n) (ack_predicted_endpoints ack)
                                             in if validate_resp matrix hit resp (nt_seq n) True \<noteq> Inr () then failure else resp)
                                  else if ack_predicted_endpoints ack \<noteq> [] \<or> ack_socket_binding_generation ack \<noteq> 0 \<or> ack_valid_until ack \<noteq> 0
                                  then failure
                                  else let resp = resp_success (nt_seq n) (ack_predicted_endpoints ack)
                                       in if validate_resp matrix hit resp (nt_seq n) False \<noteq> Inr () then failure else resp))))"

text \<open>The loop for a number that is not zero ends with its first: the generator never returns zero.\<close>

definition new_rendezvous_request ::
    "bool \<Rightarrow> (endpoint \<Rightarrow> endpoint \<Rightarrow> bool) \<Rightarrow> tunnel_id \<Rightarrow> p2p_id \<Rightarrow> rendezvous_operation \<Rightarrow> endpoint list \<Rightarrow> bool \<Rightarrow> sn_client \<Rightarrow>
     sn_client \<times> sn_tunnel_rendezvous p2p_result" where
  "new_rendezvous_request matrix hit tid target op eps predict s =
     (let (sq, cur) = sequence_generate (sc_seq s);
          r = \<lparr>seq = sq, tunnel_id = tid, to_peer_id = target, operation = op, end_point_array = eps, need_predict_endpoint = predict\<rparr>
      in (s\<lparr>sc_seq := cur\<rparr>, case validate_request matrix hit r of Inl e \<Rightarrow> Inl e | Inr _ \<Rightarrow> Inr r))"

text \<open>\<open>answer\<close>: the body of the answer, an error when the question fails (\<open>IoError\<close>), it is not readable
  (\<open>IoError\<close>) or does not decode (\<open>RawCodecError\<close>).\<close>

definition rendezvous_via_sn ::
    "sn_client_env \<Rightarrow> bool \<Rightarrow> (endpoint \<Rightarrow> endpoint \<Rightarrow> bool) \<Rightarrow> (sn_tunnel_rendezvous \<Rightarrow> bool) \<Rightarrow>
     (p2p_id \<Rightarrow> sn_tunnel_rendezvous \<Rightarrow> sn_tunnel_rendezvous_resp p2p_result) \<Rightarrow> p2p_id \<Rightarrow> sn_tunnel_rendezvous \<Rightarrow> sn_client \<Rightarrow>
     sn_tunnel_rendezvous_resp p2p_result" where
  "rendezvous_via_sn env matrix hit encodes answer sn r s =
     (case validate_request matrix hit r of
        Inl e \<Rightarrow> Inl e
      | Inr _ \<Rightarrow>
          (case find_active sn (sc_active s) of
             None \<Rightarrow> Inl NotFound
           | Some a \<Rightarrow>
               if \<not> encodes r then Inl RawCodecError
               else (case acquire_sn_send env (sc_seq s) None (as_sn_endpoint a) (as_sn_peer_id a) of
                       Inl _ \<Rightarrow> Inl IoError
                     | Inr _ \<Rightarrow>
                         (case answer (as_sn_peer_id a) r of
                            Inl e \<Rightarrow> Inl e
                          | Inr resp \<Rightarrow>
                              (case validate_resp matrix hit resp (seq r) (need_predict_endpoint r) of
                                 Inl e \<Rightarrow> Inl e
                               | Inr _ \<Rightarrow> if \<not> is_success resp then Inl Failed else Inr resp)))))"

subsection \<open>Calls and queries\<close>

record sn_called_resp =
  cq_seq :: sequence
  cq_sn_peer_id :: p2p_id
  cq_result :: u8

text \<open>The answer to a call; \<open>listener\<close>: what the tunnel manager makes of it.\<close>

definition on_called :: "sn_client_env \<Rightarrow> (sn_called \<Rightarrow> unit p2p_result) option \<Rightarrow> sn_called \<Rightarrow> sn_called_resp" where
  "on_called env listener c =
     \<lparr>cq_seq = cd_seq c, cq_sn_peer_id = cd_sn_peer_id c,
      cq_result = (if cd_to_peer_id c = ce_id env
                   then (case listener of
                           None \<Rightarrow> 0
                         | Some f \<Rightarrow> (case f c of Inr _ \<Rightarrow> 0 | Inl e \<Rightarrow> as_u8 e))
                   else as_u8 TargetNotFound)\<rparr>"

definition call_message ::
    "sn_client_env \<Rightarrow> sequence \<Rightarrow> tunnel_id \<Rightarrow> p2p_id \<Rightarrow> endpoint list option \<Rightarrow> p2p_id \<Rightarrow> tunnel_type \<Rightarrow> u8 list \<Rightarrow>
     nat_traversal_context option \<Rightarrow> u8 list \<Rightarrow> timestamp \<Rightarrow> sn_call" where
  "call_message env sq tid sn reverse_eps remote ct payload ctx cert now =
     \<lparr>ca_seq = sq, ca_tunnel_id = tid, ca_sn_peer_id = sn, ca_to_peer_id = remote, ca_from_peer_id = ce_id env,
      ca_reverse_endpoint_array = reverse_eps, ca_active_pn_list = None, ca_peer_info = Some cert, ca_send_time = now,
      ca_call_type = ct, ca_payload = payload, ca_is_always_call = False, ca_nat_context = ctx\<rparr>"

text \<open>\<open>build\<close>: the message for a number and an SN; \<open>answer\<close>: nothing when the question fails or the answer is
  not readable. The number is used up even when there is no stream.\<close>

fun call_loop ::
    "sn_client_env \<Rightarrow> (sequence \<Rightarrow> p2p_id \<Rightarrow> sn_call p2p_result) \<Rightarrow> (sn_call \<Rightarrow> bool) \<Rightarrow> (sn_call \<Rightarrow> sn_call_resp option) \<Rightarrow>
     active_sn list \<Rightarrow> u32 \<Rightarrow> u32 \<times> sn_call_resp p2p_result" where
  "call_loop env build encodes answer [] cur = (cur, Inl ConnectFailed)"
| "call_loop env build encodes answer (a # as) cur =
     (let (sq, cur') = sequence_generate cur
      in case build sq (as_sn_peer_id a) of
           Inl e \<Rightarrow> (cur', Inl e)
         | Inr m \<Rightarrow>
             if \<not> encodes m then (cur', Inl RawCodecError)
             else (case acquire_sn_send env cur' None (as_sn_endpoint a) (as_sn_peer_id a) of
                     Inl _ \<Rightarrow> call_loop env build encodes answer as cur'
                   | Inr _ \<Rightarrow>
                       (case answer m of
                          None \<Rightarrow> call_loop env build encodes answer as cur'
                        | Some resp \<Rightarrow>
                            if cr_seq resp \<noteq> sq \<or> cr_sn_peer_id resp \<noteq> as_sn_peer_id a
                            then call_loop env build encodes answer as cur' else (cur', Inr resp))))"

definition call_inner ::
    "sn_client_env \<Rightarrow> (sn_call \<Rightarrow> bool) \<Rightarrow> (sn_call \<Rightarrow> sn_call_resp option) \<Rightarrow> timestamp \<Rightarrow> p2p_id option \<Rightarrow> tunnel_id \<Rightarrow> endpoint list option \<Rightarrow>
     p2p_id \<Rightarrow> tunnel_type \<Rightarrow> u8 list \<Rightarrow> nat_traversal_context option \<Rightarrow> sn_client \<Rightarrow> sn_client \<times> sn_call_resp p2p_result" where
  "call_inner env encodes answer now preferred tid reverse_eps remote ct payload ctx s =
     (let as = filter (\<lambda>a. case preferred of Some i \<Rightarrow> as_sn_peer_id a = i | None \<Rightarrow> True) (sc_active s);
          (cur, res) = call_loop env
            (\<lambda>sq sn. case ce_cert env of Inl e \<Rightarrow> Inl e
                      | Inr cert \<Rightarrow> Inr (call_message env sq tid sn reverse_eps remote ct payload ctx cert now))
            encodes answer as (sc_seq s)
      in (s\<lparr>sc_seq := cur\<rparr>, res))"

record sn_query_result =
  sq_sn_peer_id :: p2p_id
  sq_local_net_profile :: nat_profile
  sq_response :: sn_query_resp

fun query_loop ::
    "sn_client_env \<Rightarrow> (sequence \<Rightarrow> bool) \<Rightarrow> (p2p_id \<Rightarrow> sequence \<Rightarrow> sn_query_resp option) \<Rightarrow> active_sn list \<Rightarrow> u32 \<Rightarrow>
     u32 \<times> sn_query_result p2p_result" where
  "query_loop env encodes answer [] cur = (cur, Inl ConnectFailed)"
| "query_loop env encodes answer (a # as) cur =
     (let (sq, cur') = sequence_generate cur
      in if \<not> encodes sq then (cur', Inl RawCodecError)
         else (case acquire_sn_send env cur' None (as_sn_endpoint a) (as_sn_peer_id a) of
                 Inl _ \<Rightarrow> query_loop env encodes answer as cur'
               | Inr _ \<Rightarrow>
                   (case answer (as_sn_peer_id a) sq of
                      None \<Rightarrow> query_loop env encodes answer as cur'
                    | Some resp \<Rightarrow>
                        if qr_seq resp \<noteq> sq then query_loop env encodes answer as cur'
                        else (cur', Inr \<lparr>sq_sn_peer_id = as_sn_peer_id a, sq_local_net_profile = as_net_profile a, sq_response = resp\<rparr>))))"

text \<open>\<open>answer\<close> takes the id that is asked for, \<open>encodes\<close> the number of the query.\<close>

definition query_with_context ::
    "sn_client_env \<Rightarrow> (sequence \<Rightarrow> bool) \<Rightarrow> (p2p_id \<Rightarrow> p2p_id \<Rightarrow> sequence \<Rightarrow> sn_query_resp option) \<Rightarrow> p2p_id \<Rightarrow> sn_client \<Rightarrow>
     sn_client \<times> sn_query_result p2p_result" where
  "query_with_context env encodes answer device s =
     (let (cur, res) = query_loop env encodes (answer device) (sc_active s) (sc_seq s) in (s\<lparr>sc_seq := cur\<rparr>, res))"

definition query_sn ::
    "sn_client_env \<Rightarrow> (sequence \<Rightarrow> bool) \<Rightarrow> (p2p_id \<Rightarrow> p2p_id \<Rightarrow> sequence \<Rightarrow> sn_query_resp option) \<Rightarrow> p2p_id \<Rightarrow> sn_client \<Rightarrow>
     sn_client \<times> sn_query_resp p2p_result" where
  "query_sn env encodes answer device s =
     (let (s', res) = query_with_context env encodes answer device s in (s', map_sum id sq_response res))"

subsection \<open>Command streams\<close>

text \<open>\<open>connects\<close>: whether a stream opens from a local to a remote endpoint of an SN.\<close>

fun open_cmd_tunnel_to_sn ::
    "(endpoint option \<Rightarrow> endpoint \<Rightarrow> p2p_id \<Rightarrow> bool) \<Rightarrow> endpoint option \<Rightarrow> endpoint \<Rightarrow> (p2p_id \<times> endpoint list) list \<Rightarrow>
     (endpoint option \<times> endpoint \<times> p2p_id) option" where
  "open_cmd_tunnel_to_sn connects l r [] = None"
| "open_cmd_tunnel_to_sn connects l r ((sn, eps) # sns) =
     (case find (\<lambda>e. protocol e = protocol r \<and> endpoint_eq e r) eps of
        Some e \<Rightarrow> if connects l e sn then Some (l, e, sn) else None
      | None \<Rightarrow> open_cmd_tunnel_to_sn connects l r sns)"

definition create_cmd_tunnel ::
    "sn_client_env \<Rightarrow> (endpoint option \<Rightarrow> endpoint \<Rightarrow> p2p_id \<Rightarrow> bool) \<Rightarrow> (endpoint option \<times> endpoint) option \<Rightarrow> sn_client \<Rightarrow>
     (endpoint option \<times> endpoint \<times> p2p_id) option" where
  "create_cmd_tunnel env connects classification s =
     (case classification of
        Some (l, r) \<Rightarrow> open_cmd_tunnel_to_sn connects l r (sc_sn_list s)
      | None \<Rightarrow>
          find (\<lambda>(l, e, sn). connects l e sn)
            (concat (map (\<lambda>(p, ls). concat (map (\<lambda>(sn, eps). concat (map (\<lambda>e. map (\<lambda>l. (l, e, sn)) ls)
               (filter (\<lambda>e. protocol e = p) eps))) (sc_sn_list s)))
              (sn_client_protocol_candidates (ce_listeners env) (ce_protocols env)))))"

text \<open>The commands of an SN, with their bodies where these decode.\<close>

datatype sn_client_packet = PkCalled "sn_called option" | PkNotify u8 "sn_tunnel_rendezvous_notify option"

datatype sn_client_reply = ClientCalled sn_called_resp | ClientNotify sn_tunnel_rendezvous_resp

fun sn_client_handle_cmd ::
    "sn_client_env \<Rightarrow> bool \<Rightarrow> (endpoint \<Rightarrow> endpoint \<Rightarrow> bool) \<Rightarrow> (sn_called \<Rightarrow> unit p2p_result) option \<Rightarrow>
     (sn_tunnel_rendezvous_notify \<Rightarrow> p2p_id \<Rightarrow> rendezvous_action_ack p2p_result) option \<Rightarrow> timestamp \<Rightarrow> p2p_id \<Rightarrow> sn_client_packet \<Rightarrow>
     sn_client \<Rightarrow> cmd_error + sn_client_reply" where
  "sn_client_handle_cmd env matrix hit called rv now sn (PkCalled None) s = Inl CmdRawCodecError"
| "sn_client_handle_cmd env matrix hit called rv now sn (PkCalled (Some c)) s = Inr (ClientCalled (on_called env called c))"
| "sn_client_handle_cmd env matrix hit called rv now sn (PkNotify version body) s =
     (if version \<noteq> SN_TUNNEL_RENDEZVOUS_CMD_VERSION then Inl CmdInvalidParam
      else (case body of
              None \<Rightarrow> Inl CmdRawCodecError
            | Some n \<Rightarrow> Inr (ClientNotify (on_rendezvous_notify env matrix hit rv now sn n s))))"

end
