(* ===== verification/SnClientFacts.thy ===== *)
theory SnClientFacts
  imports SnClient NatProbeScheduler
begin

text \<open>
  What the SN client promises: its list of SNs has no duplicates, it trusts only the SN's own certificate for probes
  and probes only where the SN is; a directive of the SN's scheduler is carried out, and none twice; an SN that is
  reachable and accepts the certificate is active after one round; a stream that fails twice in a row evicts its SN;
  the ping task backs off.
\<close>

section \<open>The list of SNs\<close>

text \<open>Probe endpoints are the SN's IPv4 address with distinct ports, over the transport the SN is active on.\<close>

definition probe_target_ok :: "active_sn \<Rightarrow> bool" where
  "probe_target_ok a \<longleftrightarrow>
     as_nat_probe_endpoints a = [] \<or>
     as_protocol a \<noteq> Tcp \<and> length (as_nat_probe_endpoints a) \<le> MAX_NAT_PROBE_ENDPOINTS \<and> 2 \<le> length (as_nat_probe_endpoints a) \<and>
     distinct (map (\<lambda>e. sa_port (addr e)) (as_nat_probe_endpoints a)) \<and>
     list_all (\<lambda>e. protocol e = as_protocol a \<and> is_ipv4 (addr e) \<and> sa_ip (addr e) = sa_ip (addr (as_sn_endpoint a)) \<and>
                   sa_port (addr e) \<noteq> 0) (as_nat_probe_endpoints a)"

definition signer_ok :: "active_sn \<Rightarrow> bool" where
  "signer_ok a \<longleftrightarrow> (case as_nat_probe_signer a of None \<Rightarrow> True | Some c \<Rightarrow> sg_id c = as_sn_peer_id a \<and> sg_verifies c)"

definition active_ok :: "active_sn \<Rightarrow> bool" where
  "active_ok a \<longleftrightarrow> protocol (as_sn_endpoint a) = as_protocol a \<and> probe_target_ok a \<and> signer_ok a"

definition sn_client_ok :: "sn_client \<Rightarrow> bool" where
  "sn_client_ok s \<longleftrightarrow> distinct (map as_sn_peer_id (sc_active s)) \<and> list_all active_ok (sc_active s)"

named_theorems client_ok

lemma check_probe_ports_ok:
  "check_probe_ports seen ps = Inr () \<longleftrightarrow> list_all (\<lambda>p. p \<noteq> 0) ps \<and> distinct ps \<and> set ps \<inter> set seen = {}"
  by (induction ps arbitrary: seen) auto

lemma validate_nat_probe_ports_ok:
  "validate_nat_probe_ports ps = Inr () \<longleftrightarrow> supported_nat_probe_ports ps"
  by (auto simp: validate_nat_probe_ports_def supported_nat_probe_ports_def check_probe_ports_ok list_all_iff card_distinct distinct_card)

lemma build_ok:
  assumes "build_nat_probe_endpoints p e ps = Inr es"
  shows "p \<noteq> Tcp \<and> protocol e = p \<and> es = map (\<lambda>port. set_area Wan (endpoint_from_ip p (sa_ip (addr e)) port)) ps \<and>
         is_ipv4 (addr e) \<and> supported_nat_probe_ports ps"
  using assms validate_nat_probe_ports_ok [of ps]
  by (cases "addr e") (auto simp: build_nat_probe_endpoints_def validate_nat_probe_target_def split: if_splits sum.splits ip_addr.splits)

lemma built_endpoint:
  "is_ipv4 (addr e) \<Longrightarrow> sa_port (addr (set_area Wan (endpoint_from_ip p (sa_ip (addr e)) port))) = port \<and>
     protocol (set_area Wan (endpoint_from_ip p (sa_ip (addr e)) port)) = p \<and>
     is_ipv4 (addr (set_area Wan (endpoint_from_ip p (sa_ip (addr e)) port))) \<and>
     sa_ip (addr (set_area Wan (endpoint_from_ip p (sa_ip (addr e)) port))) = sa_ip (addr e)"
  by (cases "addr e") (simp_all add: set_area_def endpoint_from_ip_def)

lemma built_target:
  assumes "as_nat_probe_endpoints a = probe_endpoints_or_none (as_protocol a) (as_sn_endpoint a) ps"
  shows "probe_target_ok a"
proof (cases "build_nat_probe_endpoints (as_protocol a) (as_sn_endpoint a) ps")
  case (Inr es)
  note b = build_ok [OF Inr]
  then have "map (\<lambda>e. sa_port (addr e)) es = ps"
    using built_endpoint [of "as_sn_endpoint a"] by (simp add: comp_def map_idI)
  moreover have "distinct ps" using b by (simp add: supported_nat_probe_ports_def card_distinct)
  ultimately show ?thesis
    using assms b Inr built_endpoint [of "as_sn_endpoint a" "as_protocol a"]
    by (auto simp: probe_target_ok_def probe_endpoints_or_none_def supported_nat_probe_ports_def list_all_iff)
qed (use assms in \<open>simp add: probe_target_ok_def probe_endpoints_or_none_def\<close>)

lemma built_signer: "as_nat_probe_signer a = validate_nat_probe_signer env (as_sn_peer_id a) info \<Longrightarrow> signer_ok a"
  by (auto simp: signer_ok_def validate_nat_probe_signer_def split: option.splits sum.splits if_splits)

lemma update_ids:
  assumes "\<And>a. as_sn_peer_id (f a) = as_sn_peer_id a"
  shows "map as_sn_peer_id (fst (update_active_sn i f as)) = map as_sn_peer_id as"
  using assms by (induction as) (auto simp: case_prod_unfold Let_def)

lemma update_all:
  assumes "list_all P as" and "\<And>a. P a \<Longrightarrow> as_sn_peer_id a = i \<Longrightarrow> P (f a)"
  shows "list_all P (fst (update_active_sn i f as))"
  using assms by (induction as) (auto simp: case_prod_unfold Let_def)

lemma update_ok:
  assumes "sn_client_ok s" and "\<And>a. as_sn_peer_id (f a) = as_sn_peer_id a"
    and "\<And>a. active_ok a \<Longrightarrow> as_sn_peer_id a = i \<Longrightarrow> active_ok (f a)"
  shows "sn_client_ok (s\<lparr>sc_active := fst (update_active_sn i f (sc_active s))\<rparr>)"
  using assms update_all [of active_ok "sc_active s" i f] by (simp add: sn_client_ok_def update_ids)

lemma ok_rest [simp]:
  "sn_client_ok (s\<lparr>sc_failures := x\<rparr>) = sn_client_ok s" "sn_client_ok (s\<lparr>sc_seq := y\<rparr>) = sn_client_ok s"
  "sn_client_ok (s\<lparr>sc_latest_sn_interval := z\<rparr>) = sn_client_ok s" "sn_client_ok (s\<lparr>sc_first_report_pending := b\<rparr>) = sn_client_ok s"
  "sn_client_ok (s\<lparr>sc_pinging := b\<rparr>) = sn_client_ok s" "sn_client_ok (s\<lparr>sc_sn_list := l\<rparr>) = sn_client_ok s"
  by (simp_all add: sn_client_ok_def)

lemma ok_frame: "active_ok (a\<lparr>as_latest_time := t\<rparr>) = active_ok a"
  "active_ok (a\<lparr>as_net_profile := prof, as_next_probe_at := t\<rparr>) = active_ok a"
  "active_ok (a\<lparr>as_registration_generation := g, as_last_request_id := q\<rparr>) = active_ok a"
  unfolding active_ok_def probe_target_ok_def signer_ok_def by (simp_all split: option.split)

lemma ok_apply [client_ok]: "sn_client_ok s \<Longrightarrow> sn_client_ok (apply_completed_probe now i gen req prof s)"
  unfolding apply_completed_probe_def by (rule update_ok) (auto simp: ok_frame split: option.splits)

lemma ok_filter: "sn_client_ok s \<Longrightarrow> sn_client_ok (s\<lparr>sc_active := filter P (sc_active s), sc_failures := x\<rparr>)"
  by (auto simp: sn_client_ok_def list_all_iff distinct_map_filter)

lemma ok_failure [client_ok]: "sn_client_ok s \<Longrightarrow> sn_client_ok (record_report_stream_failure now i s)"
proof -
  assume ok: "sn_client_ok s"
  have "sn_client_ok (x\<lparr>sc_active := fst (update_active_sn i (\<lambda>a. a\<lparr>as_latest_time := t\<rparr>) (sc_active x))\<rparr>)"
    if "sn_client_ok x" for x t using that by (rule update_ok) (auto simp: ok_frame)
  from this [OF ok] ok_filter [OF ok] show ?thesis
    by (auto simp: record_report_stream_failure_def remove_active_sn_def Let_def sn_client_ok_def)
qed

lemma ok_report [client_ok]: "sn_client_ok s \<Longrightarrow> sn_client_ok (fst (report env now l r sn prof res s))"
  by (auto simp: report_def report_on_send_def clear_report_stream_failure_def Let_def case_prod_unfold intro!: client_ok
      split: sum.splits)

lemma ok_probe_if_due [client_ok]: "sn_client_ok s \<Longrightarrow> sn_client_ok (fst (probe_local_if_due env now a s))"
  by (auto simp: probe_local_if_due_def Let_def intro!: client_ok)

text \<open>Where the SNs of the list are; reports and probes move none and add none.\<close>

definition places :: "sn_client \<Rightarrow> (p2p_id \<times> protocol \<times> endpoint) set" where
  "places s = (\<lambda>a. (as_sn_peer_id a, as_protocol a, as_sn_endpoint a)) ` set (sc_active s)"

definition at_place :: "p2p_id \<Rightarrow> protocol \<Rightarrow> endpoint \<Rightarrow> sn_client \<Rightarrow> bool" where
  "at_place sn p ep s \<longleftrightarrow> (\<forall>(i, p', ep') \<in> places s. i = sn \<longrightarrow> p' = p \<and> ep' = ep)"

lemma update_places:
  assumes "\<And>a. as_sn_peer_id (f a) = as_sn_peer_id a \<and> as_protocol (f a) = as_protocol a \<and> as_sn_endpoint (f a) = as_sn_endpoint a"
  shows "(\<lambda>a. (as_sn_peer_id a, as_protocol a, as_sn_endpoint a)) ` set (fst (update_active_sn i f as)) =
         (\<lambda>a. (as_sn_peer_id a, as_protocol a, as_sn_endpoint a)) ` set as"
  using assms by (induction as) (auto simp: case_prod_unfold Let_def)

lemma places_apply [simp]: "places (apply_completed_probe now i gen req prof s) = places s"
  unfolding apply_completed_probe_def places_def by (simp, rule update_places) (auto split: option.splits)

lemma places_registration [simp]: "places (update_registration i es signer wan s) = places s"
  unfolding update_registration_def places_def by (simp, rule update_places) simp

lemma places_failure: "places (record_report_stream_failure now i s) \<subseteq> places s"
proof -
  have "(\<lambda>a. (as_sn_peer_id a, as_protocol a, as_sn_endpoint a)) ` set (fst (update_active_sn i (\<lambda>a. a\<lparr>as_latest_time := t\<rparr>) as)) =
      (\<lambda>a. (as_sn_peer_id a, as_protocol a, as_sn_endpoint a)) ` set as" for t as by (rule update_places) simp
  then show ?thesis by (auto simp: record_report_stream_failure_def remove_active_sn_def places_def Let_def)
qed

lemma places_report: "places (fst (report env now l r sn prof res s)) \<subseteq> places s"
  using places_failure [of now sn s]
  by (auto simp: report_def report_on_send_def clear_report_stream_failure_def Let_def case_prod_unfold places_def split: sum.splits)

lemma places_probe_if_due [simp]: "places (fst (probe_local_if_due env now a s)) = places s"
  by (simp add: probe_local_if_due_def Let_def)

lemma at_place_mono: "at_place sn p ep s \<Longrightarrow> places s' \<subseteq> places s \<Longrightarrow> at_place sn p ep s'"
  by (auto simp: at_place_def)

lemma ok_registration [client_ok]:
  assumes "sn_client_ok s" and "at_place sn p ep s" and "protocol ep = p"
  shows "sn_client_ok (update_registration sn (probe_endpoints_or_none p ep pts) (validate_nat_probe_signer env sn info) wan s)"
proof -
  let ?f = "\<lambda>a. a\<lparr>as_nat_probe_endpoints := probe_endpoints_or_none p ep pts, as_nat_probe_signer := validate_nat_probe_signer env sn info,
      as_wan_ep_list := wan\<rparr>"
  have "list_all (\<lambda>a. active_ok a \<and> (as_sn_peer_id a = sn \<longrightarrow> as_protocol a = p \<and> as_sn_endpoint a = ep)) (sc_active s)"
    using assms by (auto simp: sn_client_ok_def list_all_iff at_place_def places_def)
  then have "list_all (\<lambda>a. active_ok a \<and> (as_sn_peer_id a = sn \<longrightarrow> as_protocol a = p \<and> as_sn_endpoint a = ep))
      (fst (update_active_sn sn ?f (sc_active s)))"
  proof (rule update_all)
    fix a assume a: "active_ok a \<and> (as_sn_peer_id a = sn \<longrightarrow> as_protocol a = p \<and> as_sn_endpoint a = ep)" "as_sn_peer_id a = sn"
    have "probe_target_ok (?f a)" by (rule built_target [of _ pts]) (use a in simp)
    moreover have "signer_ok (?f a)" by (rule built_signer [of _ env info]) (use a in simp)
    ultimately show "active_ok (?f a) \<and> (as_sn_peer_id (?f a) = sn \<longrightarrow> as_protocol (?f a) = p \<and> as_sn_endpoint (?f a) = ep)"
      using a assms(3) by (simp add: active_ok_def)
  qed
  with assms(1) show ?thesis
    unfolding update_registration_def by (simp add: sn_client_ok_def update_ids list_all_iff)
qed

lemma report_active_places: "places (report_active_sn env now a s) \<subseteq> places s"
proof -
  let ?s1 = "fst (probe_local_if_due env now a s)"
  have r: "places (fst (report env now None ep sn prof res x)) \<subseteq> places s" if "places x \<subseteq> places s" for ep sn prof res x
    using that places_report [of env now None ep sn prof res x] by blast
  show ?thesis
    using r [of ?s1] r
    by (auto simp: report_active_sn_def Let_def case_prod_unfold split: option.splits sum.splits prod.splits)
qed

lemma ok_report_active:
  assumes "sn_client_ok s" and "at_place (as_sn_peer_id a) (as_protocol a) (as_sn_endpoint a) s"
    and "protocol (as_sn_endpoint a) = as_protocol a"
  shows "sn_client_ok (report_active_sn env now a s)"
proof -
  let ?sn = "as_sn_peer_id a" and ?p = "as_protocol a" and ?ep = "as_sn_endpoint a"
  let ?ok = "\<lambda>x. sn_client_ok x \<and> at_place ?sn ?p ?ep x"
  have r: "?ok (fst (report env now None ?ep ?sn prof res x))" if "?ok x" for prof res x
    using that places_report [of env now None ?ep ?sn prof res x] by (auto intro: client_ok at_place_mono)
  have ap: "?ok (apply_completed_probe now ?sn g q prof x)" if "?ok x" for g q prof x
    using that by (auto intro: client_ok at_place_mono)
  have u: "sn_client_ok (update_registration ?sn (probe_endpoints_or_none ?p ?ep pts) (validate_nat_probe_signer env ?sn info) wan x)"
    if "?ok x" for pts info wan x
    using that assms(3) by (intro ok_registration) auto
  have s1: "?ok (fst (probe_local_if_due env now a s))"
    using assms(1,2) by (auto intro: client_ok at_place_mono)
  show ?thesis
    using s1 r u ap
    by (auto simp: report_active_sn_def Let_def case_prod_unfold split: option.splits sum.splits prod.splits)
qed

lemma place_ids: "fst ` places s = as_sn_peer_id ` set (sc_active s)"
  by (simp add: places_def image_image)

lemma publish_places:
  assumes "sn \<notin> fst ` places s" and "as_sn_peer_id a = sn"
  shows "fst (publish_active_sn a (sc_active s)) = sc_active s @ [a]"
  using assms by (auto simp: publish_active_sn_def place_ids list_ex_iff image_iff)

lemma register_published_ok:
  assumes "sn_client_ok s" and "sn \<notin> fst ` places s" and "protocol ep = p"
  shows "sn_client_ok (register_published env now sn p ep l resp s)"
    and "places (register_published env now sn p ep l resp s) \<subseteq> insert (sn, p, ep) (places s)"
proof -
  let ?signer = "validate_nat_probe_signer env sn (rr_peer_info resp)" and ?es = "probe_endpoints_or_none p ep (rr_nat_probe_ports resp)"
  define a where "a = \<lparr>as_sn_peer_id = sn, as_latest_time = now, as_protocol = p, as_sn_endpoint = ep, as_wan_ep_list = rr_end_point_array resp,
      as_nat_probe_endpoints = ?es, as_nat_probe_signer = ?signer, as_net_profile = profile_unknown,
      as_registration_generation = 0, as_last_request_id = 0, as_next_probe_at = now\<rparr>"
  define s1 where "s1 = s\<lparr>sc_active := fst (publish_active_sn a (sc_active s))\<rparr>"
  have as: "sc_active s1 = sc_active s @ [a]"
    using publish_places [OF assms(2), of a] by (simp add: s1_def a_def)
  have "probe_target_ok a" by (rule built_target [of _ "rr_nat_probe_ports resp"]) (simp add: a_def)
  moreover have "signer_ok a" by (rule built_signer [of _ env "rr_peer_info resp"]) (simp add: a_def)
  ultimately have "active_ok a" using assms(3) by (simp add: active_ok_def a_def)
  moreover have "as_sn_peer_id a \<notin> as_sn_peer_id ` set (sc_active s)"
    using assms(2) by (simp add: a_def place_ids)
  ultimately have ok: "sn_client_ok s1" using assms(1) by (simp add: sn_client_ok_def as)
  have pl: "places s1 = insert (sn, p, ep) (places s)" by (simp add: places_def as a_def)
  then have at: "at_place sn p ep s1" using assms(2) by (force simp: at_place_def)
  have def: "register_published env now sn p ep l resp s =
     (case execute_probe_directive env now sn p ep 0 0 ?signer (rr_nat_probe_directive resp) of
        Some res \<Rightarrow>
          (let s2 = apply_completed_probe now sn (Some (res_registration_generation res)) (Some (res_request_id res)) (res_profile res) s1
           in case report env now l ep sn (Some (res_profile res)) (Some res) s2 of
                (s3, Inr resp2) \<Rightarrow>
                  update_registration sn (probe_endpoints_or_none p ep (rr_nat_probe_ports resp2))
                    (validate_nat_probe_signer env sn (rr_peer_info resp2)) (rr_end_point_array resp2) s3
              | (s3, Inl _) \<Rightarrow> s3)
      | None \<Rightarrow> apply_completed_probe now sn None None (probe_local env ?es ?signer) s1)"
    unfolding register_published_def Let_def s1_def a_def by (rule refl)
  let ?ok = "\<lambda>x. sn_client_ok x \<and> at_place sn p ep x \<and> places x \<subseteq> insert (sn, p, ep) (places s)"
  have s1: "?ok s1" using ok at pl by simp
  have r: "?ok (fst (report env now l ep sn prof res x))" if "?ok x" for prof res x
    using that places_report [of env now l ep sn prof res x] by (auto intro: client_ok at_place_mono)
  have ap: "?ok (apply_completed_probe now sn g q prof x)" if "?ok x" for g q prof x
    using that by (auto intro: client_ok at_place_mono)
  have u: "?ok (update_registration sn (probe_endpoints_or_none p ep pts) (validate_nat_probe_signer env sn info) wan x)"
    if "?ok x" for pts info wan x
    using that assms(3) by (auto intro: ok_registration at_place_mono)
  have fin: "?ok (case report env now l ep sn prof res x of
      (s3, Inr resp2) \<Rightarrow> update_registration sn (probe_endpoints_or_none p ep (rr_nat_probe_ports resp2))
                    (validate_nat_probe_signer env sn (rr_peer_info resp2)) (rr_end_point_array resp2) s3
    | (s3, Inl _) \<Rightarrow> s3)" if "?ok x" for prof res x
    using r [OF that, of prof res] u
    by (cases "report env now l ep sn prof res x"; cases "snd (report env now l ep sn prof res x)") simp_all
  have "?ok (register_published env now sn p ep l resp s)"
  proof (cases "execute_probe_directive env now sn p ep 0 0 ?signer (rr_nat_probe_directive resp)")
    case None
    show ?thesis unfolding def None option.case by (rule ap [OF s1])
  next
    case (Some res)
    show ?thesis unfolding def Some option.case Let_def by (rule fin [OF ap [OF s1]])
  qed
  then show "sn_client_ok (register_published env now sn p ep l resp s)"
    "places (register_published env now sn p ep l resp s) \<subseteq> insert (sn, p, ep) (places s)" by blast+
qed

lemma register_loop_ok:
  assumes "sn_client_ok s" and "sn \<notin> fst ` places s" and "list_all (\<lambda>(p, ep, l). protocol ep = p) cs"
  shows "sn_client_ok (register_loop env now sn cs s) \<and> fst ` places (register_loop env now sn cs s) \<subseteq> insert sn (fst ` places s)"
  using assms
proof (induction cs arbitrary: s)
  case (Cons c cs)
  obtain p ep l where c: "c = (p, ep, l)" by (metis prod_cases3)
  let ?s1 = "fst (report env now l ep sn None None s)"
  have s1: "sn_client_ok ?s1" "places ?s1 \<subseteq> places s" using Cons.prems(1) places_report by (auto intro: client_ok)
  then have ids: "fst ` places ?s1 \<subseteq> fst ` places s" by (intro image_mono)
  then have sn: "sn \<notin> fst ` places ?s1" using Cons.prems(2) by blast
  show ?case
  proof (cases "snd (report env now l ep sn None None s)")
    case (Inl e)
    then have "register_loop env now sn (c # cs) s = register_loop env now sn cs ?s1" by (simp add: c case_prod_unfold)
    moreover have "list_all (\<lambda>(p, ep, l). protocol ep = p) cs" using Cons.prems(3) by simp
    ultimately show ?thesis using Cons.IH [OF s1(1) sn] subset_trans [OF _ insert_mono [OF ids]] by simp
  next
    case (Inr resp)
    then have eq: "register_loop env now sn (c # cs) s = register_published env now sn p ep l resp ?s1" by (simp add: c case_prod_unfold)
    have "protocol ep = p" using Cons.prems(3) by (simp add: c)
    note r = register_published_ok [OF s1(1) sn this, of env now l resp]
    have "fst ` places (register_published env now sn p ep l resp ?s1) \<subseteq> insert sn (fst ` places ?s1)"
      using image_mono [OF r(2), of fst] by simp
    with r(1) eq subset_trans [OF _ insert_mono [OF ids]] show ?thesis by simp
  qed
qed auto

lemma sn_candidates_protocol: "list_all (\<lambda>(p, ep, l). protocol ep = p) (sn_candidates cs eps)"
  by (auto simp: sn_candidates_def list_all_iff)

lemma insert_disjoint: "X \<subseteq> insert a Y \<Longrightarrow> a \<notin> Z \<Longrightarrow> Y \<inter> Z = {} \<Longrightarrow> X \<inter> Z = {}"
  by blast

lemma register_all_ok:
  assumes "sn_client_ok s" and "distinct (map fst sns)" and "fst ` places s \<inter> fst ` set sns = {}"
  shows "sn_client_ok (fold (\<lambda>(sn, eps). register_loop env now sn (sn_candidates cs eps)) sns s)"
  using assms
proof (induction sns arbitrary: s)
  case (Cons x sns)
  let ?s = "register_loop env now (fst x) (sn_candidates cs (snd x)) s"
  have new: "sn_client_ok ?s \<and> fst ` places ?s \<subseteq> insert (fst x) (fst ` places s)"
    by (rule register_loop_ok [OF Cons.prems(1) _ sn_candidates_protocol]) (use Cons.prems(3) in auto)
  have "fst x \<notin> fst ` set sns" "fst ` places s \<inter> fst ` set sns = {}" using Cons.prems(2,3) by (simp_all add: disjoint_iff)
  then have "fst ` places ?s \<inter> fst ` set sns = {}" by (rule insert_disjoint [OF conjunct2 [OF new]])
  moreover have "distinct (map fst sns)" using Cons.prems(2) by simp
  ultimately have "sn_client_ok (fold (\<lambda>(sn, eps). register_loop env now sn (sn_candidates cs eps)) sns ?s)"
    using new by (intro Cons.IH) blast+
  then show ?case by (simp add: case_prod_unfold)
qed simp

lemma report_due_ok:
  assumes "sn_client_ok s" and "list_all (\<lambda>a. at_place (as_sn_peer_id a) (as_protocol a) (as_sn_endpoint a) s \<and> protocol (as_sn_endpoint a) = as_protocol a) due"
  shows "sn_client_ok (fold (report_active_sn env now) due s)"
  using assms
proof (induction due arbitrary: s)
  case (Cons a due)
  from Cons.prems have "list_all (\<lambda>a'. at_place (as_sn_peer_id a') (as_protocol a') (as_sn_endpoint a') (report_active_sn env now a s) \<and>
      protocol (as_sn_endpoint a') = as_protocol a') due"
    using report_active_places [of env now a s] by (auto simp: list_all_iff intro: at_place_mono)
  with Cons ok_report_active [of s a] show ?case by simp
qed simp

lemma distinct_place:
  assumes "sn_client_ok s" and "a \<in> set (sc_active s)"
  shows "at_place (as_sn_peer_id a) (as_protocol a) (as_sn_endpoint a) s"
  using assms by (auto simp: sn_client_ok_def at_place_def places_def distinct_map inj_on_def)

lemma ok_ping_round:
  assumes "sn_client_ok s" and "distinct (map fst (sc_sn_list s))"
  shows "sn_client_ok (ping_round env now force s)"
proof (cases "sc_active s = []")
  case True
  then show ?thesis using assms by (simp add: ping_round_def Let_def register_all_ok places_def)
next
  case False
  let ?as = "fst (collect_due_active_sns force now (sc_active s))" and ?due = "snd (collect_due_active_sns force now (sc_active s))"
  let ?s = "s\<lparr>sc_active := ?as\<rparr>"
  have pl: "places ?s = places s"
    unfolding places_def set_map [symmetric] by (simp add: collect_due_active_sns_def comp_def if_distrib cong: if_cong)
  have ok: "sn_client_ok ?s"
    using assms(1) by (auto simp: sn_client_ok_def collect_due_active_sns_def list_all_iff comp_def ok_frame if_distrib cong: if_cong)
  have "list_all (\<lambda>a. at_place (as_sn_peer_id a) (as_protocol a) (as_sn_endpoint a) ?s \<and> protocol (as_sn_endpoint a) = as_protocol a) ?due"
    using distinct_place [OF assms(1)] at_place_mono [of _ _ _ s ?s] pl assms(1)
    by (auto simp: collect_due_active_sns_def list_all_iff sn_client_ok_def active_ok_def)
  from report_due_ok [OF ok this] False show ?thesis by (simp add: ping_round_def case_prod_unfold Let_def)
qed

section \<open>Runs of the client\<close>

text \<open>The ping task, under whatever surroundings each of its rounds meets, and what the owner of the client does; calls,
  queries and rendezvous only use up numbers (\<open>EvSequence\<close>).\<close>

datatype client_event =
    EvPing sn_client_env timestamp
  | EvStart
  | EvStop
  | EvReset "(p2p_id \<times> endpoint list) list"
  | EvSequence u32

fun client_step :: "client_event \<Rightarrow> sn_client \<Rightarrow> sn_client" where
  "client_step (EvPing env now) s = fst (ping_proc_step env now s)"
| "client_step EvStart s = start s"
| "client_step EvStop s = stop s"
| "client_step (EvReset sns) s = reset_sn sns s"
| "client_step (EvSequence n) s = s\<lparr>sc_seq := n\<rparr>"

fun event_ok :: "client_event \<Rightarrow> bool" where
  "event_ok (EvReset sns) = distinct (map fst sns)"
| "event_ok _ = True"

named_theorems same_list

lemma list_apply [same_list]: "sc_sn_list (apply_completed_probe now i g q prof s) = sc_sn_list s"
  by (simp add: apply_completed_probe_def)

lemma list_registration [same_list]: "sc_sn_list (update_registration i es signer wan s) = sc_sn_list s"
  by (simp add: update_registration_def)

lemma list_report [same_list]: "sc_sn_list (fst (report env now l r sn prof res s)) = sc_sn_list s"
  by (simp add: report_def report_on_send_def record_report_stream_failure_def remove_active_sn_def clear_report_stream_failure_def
      Let_def case_prod_unfold split: sum.splits)

lemma list_probe [same_list]: "sc_sn_list (fst (probe_local_if_due env now a s)) = sc_sn_list s"
  by (simp add: probe_local_if_due_def Let_def same_list)

lemma list_report' [same_list]: "report env now l r sn prof res s = (s', x) \<Longrightarrow> sc_sn_list s' = sc_sn_list s"
  using list_report [of env now l r sn prof res s] by simp

lemma list_report_active [same_list]: "sc_sn_list (report_active_sn env now a s) = sc_sn_list s"
  by (auto simp: report_active_sn_def Let_def case_prod_unfold same_list split: option.splits sum.splits prod.splits dest!: list_report')

lemma list_published [same_list]: "sc_sn_list (register_published env now sn p ep l resp s) = sc_sn_list s"
  by (auto simp: register_published_def Let_def case_prod_unfold same_list split: option.splits sum.splits prod.splits dest!: list_report')

lemma list_register [same_list]: "sc_sn_list (register_loop env now sn cs s) = sc_sn_list s"
proof (induction cs arbitrary: s)
  case (Cons c cs)
  then show ?case
    by (cases c) (auto simp: same_list split: sum.splits prod.splits dest!: list_report')
qed simp

lemma list_fold: "(\<And>x s. sc_sn_list (f x s) = sc_sn_list s) \<Longrightarrow> sc_sn_list (fold f xs s) = sc_sn_list s"
  by (induction xs arbitrary: s) simp_all

lemma list_ping_round [same_list]: "sc_sn_list (ping_round env now force s) = sc_sn_list s"
  by (auto simp: ping_round_def Let_def case_prod_unfold same_list list_fold)

definition client_inv :: "sn_client \<Rightarrow> bool" where
  "client_inv s \<longleftrightarrow> sn_client_ok s \<and> distinct (map fst (sc_sn_list s))"

lemma client_inv_step:
  assumes "client_inv s" and "event_ok ev"
  shows "client_inv (client_step ev s)"
proof (cases ev)
  case (EvPing env now)
  let ?s = "fst (ping_begin s)"
  have "sn_client_ok ?s \<and> sc_sn_list ?s = sc_sn_list s"
    using assms(1) by (simp add: ping_begin_def Let_def client_inv_def)
  then show ?thesis
    using assms(1) ok_ping_round [of ?s env now] by (simp add: EvPing ping_proc_step_def case_prod_unfold Let_def client_inv_def same_list)
qed (use assms in \<open>simp_all add: client_inv_def start_def stop_def reset_sn_def sn_client_ok_def\<close>)

lemma client_inv_run: "client_inv s \<Longrightarrow> list_all event_ok evs \<Longrightarrow> client_inv (fold client_step evs s)"
  by (induction evs arbitrary: s) (simp_all add: client_inv_step)

lemma client_inv_new: "distinct (map fst sns) \<Longrightarrow> client_inv (sn_client_new sns sq)"
  by (simp add: client_inv_def sn_client_new_def sn_client_ok_def)

section \<open>Directives\<close>

lemma find_update:
  assumes "\<And>a. as_sn_peer_id (f a) = as_sn_peer_id a"
  shows "find_active i (fst (update_active_sn i f as)) = map_option f (find_active i as)"
  unfolding find_active_def using assms by (induction as) (auto simp: case_prod_unfold Let_def)

lemma find_update_other:
  assumes "\<And>a. as_sn_peer_id (f a) = as_sn_peer_id a" and "j \<noteq> i"
  shows "find_active j (fst (update_active_sn i f as)) = find_active j as"
  unfolding find_active_def using assms by (induction as) (auto simp: case_prod_unfold Let_def)

lemma execute_Some:
  "execute_probe_directive env now sn p e gen req signer (Some d) = Some res \<longleftrightarrow>
     p \<noteq> Tcp \<and> dir_version d = NAT_PROBE_CONTROL_VERSION \<and> dir_sn_peer_id d = sn \<and> dir_peer_id d = ce_id env \<and>
     now \<le> dir_expires_at d \<and> (gen < dir_registration_generation d \<or> gen = dir_registration_generation d \<and> req < dir_request_id d) \<and>
     (\<exists>es. build_nat_probe_endpoints p e (dir_ports d) = Inr es \<and> res = from_directive d (probe_local env es signer))"
  by (auto simp: execute_probe_directive_def validate_probe_directive_def Let_def split: sum.splits)

lemma applied_marks:
  "find_active sn (sc_active (apply_completed_probe now sn (Some g) (Some q) prof s)) =
     map_option (\<lambda>a. a\<lparr>as_registration_generation := g, as_last_request_id := q, as_net_profile := prof,
                        as_next_probe_at := now + NAT_CLIENT_PROBE_PERIOD\<rparr>) (find_active sn (sc_active s))"
  by (simp add: apply_completed_probe_def find_update)


lemma issued_ports:
  "issue_if_due p now s = (s', Some d) \<Longrightarrow> dir_ports d = ports s' \<and> ports s' \<noteq> []"
  by (auto simp: issue_if_due_def Let_def split: option.splits if_splits)

lemma build_endpoints:
  "validate_nat_probe_target p e = Inr ip \<Longrightarrow> supported_nat_probe_ports ps \<Longrightarrow>
     build_nat_probe_endpoints p e ps = Inr (map (\<lambda>port. set_area Wan (endpoint_from_ip p ip port)) ps)"
  using validate_nat_probe_ports_ok [of ps] by (simp add: build_nat_probe_endpoints_def)


section \<open>Evictions and waits\<close>

lemma failures_cleared: "hm_get (sc_failures (clear_report_stream_failure i s)) i = None"
  by (simp add: clear_report_stream_failure_def hm_get_def hm_remove_def delete_conv)

lemma first_failure:
  "hm_get (sc_failures s) i = None \<Longrightarrow>
     hm_get (sc_failures (record_report_stream_failure now i s)) i = Some 1 \<and>
     find_active i (sc_active (record_report_stream_failure now i s)) =
       map_option (\<lambda>a. a\<lparr>as_latest_time := sat_sub now (SN_ACTIVE_REPORT_REFRESH_INTERVAL + 1)\<rparr>) (find_active i (sc_active s))"
  by (simp add: record_report_stream_failure_def SN_REPORT_STREAM_FAILURE_EVICT_THRESHOLD_def hm.get_insert find_update sat_add_def Let_def word_le_nat_alt)

lemma second_failure:
  "hm_get (sc_failures s) i = Some 1 \<Longrightarrow> \<not> active_sn_matches i (record_report_stream_failure now i s)"
  by (simp add: record_report_stream_failure_def SN_REPORT_STREAM_FAILURE_EVICT_THRESHOLD_def sat_add_def remove_active_sn_def
      active_sn_matches_def list_ex_iff Let_def)

lemma failed_report:
  "acquire_sn_send env (sc_seq s) l r i = Inl e \<Longrightarrow> report env now l r i prof res s = (record_report_stream_failure now i s, Inl e)"
  by (simp add: report_def)

lemma sent_report:
  "acquire_sn_send env (sc_seq s) l r i = Inr () \<Longrightarrow>
     sc_active (fst (report env now l r i prof res s)) = sc_active s \<and> hm_get (sc_failures (fst (report env now l r i prof res s))) i = None"
  using failures_cleared [of i s]
  by (simp add: report_def report_on_send_def case_prod_unfold Let_def clear_report_stream_failure_def)

lemma failure_keeps_seq [simp]: "sc_seq (record_report_stream_failure now i s) = sc_seq s"
  by (simp add: record_report_stream_failure_def remove_active_sn_def Let_def)

text \<open>No single lost stream costs a registration: after a report over a working stream one failure keeps the
  SN and makes its next report due at once, and a second in a row removes it.\<close>

theorem second_stream_failure_evicts:
  assumes "acquire_sn_send env (sc_seq s) l r i = Inr ()" and "find_active i (sc_active s) = Some a"
    and "ce_stream env' = (\<lambda>_ _ _. None)" and "SN_ACTIVE_REPORT_REFRESH_INTERVAL < now1"
  shows "let s0 = fst (report env now l r i prof res s);
             s1 = fst (report env' now1 l1 r1 i prof1 res1 s0);
             s2 = fst (report env' now2 l2 r2 i prof2 res2 s1)
         in (\<exists>a'. find_active i (sc_active s1) = Some a' \<and> active_sn_due_report False (as_latest_time a') now1) \<and>
            \<not> active_sn_matches i s2 \<and> hm_get (sc_failures s2) i = None"
proof -
  let ?s0 = "fst (report env now l r i prof res s)"
  let ?s1 = "fst (report env' now1 l1 r1 i prof1 res1 ?s0)"
  let ?s2 = "fst (report env' now2 l2 r2 i prof2 res2 ?s1)"
  have lost: "acquire_sn_send env' c lep rep i = Inl ConnectFailed" for c lep rep using assms(3) by (simp add: acquire_sn_send_def)
  have r1: "?s1 = record_report_stream_failure now1 i ?s0" using failed_report [OF lost] by simp
  have r2: "?s2 = record_report_stream_failure now2 i ?s1" using failed_report [OF lost] by simp
  have s0: "find_active i (sc_active ?s0) = Some a" "hm_get (sc_failures ?s0) i = None" using sent_report [OF assms(1)] assms(2) by simp_all
  have f1: "hm_get (sc_failures ?s1) i = Some 1"
    "find_active i (sc_active ?s1) = Some (a\<lparr>as_latest_time := sat_sub now1 (SN_ACTIVE_REPORT_REFRESH_INTERVAL + 1)\<rparr>)"
    unfolding r1 using first_failure [OF s0(2), of now1] s0(1) by simp_all
  have "sat_sub now1 (sat_sub now1 (SN_ACTIVE_REPORT_REFRESH_INTERVAL + 1)) > SN_ACTIVE_REPORT_REFRESH_INTERVAL"
    using assms(4) by (simp add: sat_sub_def SN_ACTIVE_REPORT_REFRESH_INTERVAL_def word_less_nat_alt word_le_nat_alt unat_sub_if')
  then have "active_sn_due_report False (sat_sub now1 (SN_ACTIVE_REPORT_REFRESH_INTERVAL + 1)) now1"
    by (simp add: active_sn_due_report_def)
  moreover have "\<not> active_sn_matches i ?s2" unfolding r2 by (rule second_failure [OF f1(1)])
  moreover have "hm_get (sc_failures ?s2) i = None"
    unfolding r2 using f1(1) by (simp add: record_report_stream_failure_def SN_REPORT_STREAM_FAILURE_EVICT_THRESHOLD_def sat_add_def
      remove_active_sn_def Let_def hm_get_def hm_remove_def delete_conv)
  ultimately show ?thesis using f1(2) unfolding Let_def by simp
qed

text \<open>A round of the ping task with an SN left adds none: one that was evicted comes back only once the client
  has lost all of them.\<close>

theorem ping_round_adds_none:
  "if sc_active s = [] then True else as_sn_peer_id ` set (sc_active (ping_round env now force s)) \<subseteq> as_sn_peer_id ` set (sc_active s)"
proof (cases "sc_active s = []")
  case False
  let ?as = "fst (collect_due_active_sns force now (sc_active s))" and ?due = "snd (collect_due_active_sns force now (sc_active s))"
  have pl: "places (fold (report_active_sn env now) due x) \<subseteq> places x" for due x
  proof (induction due arbitrary: x)
    case (Cons a due)
    then show ?case using report_active_places [of env now a x] by (simp add: subset_trans [OF Cons.IH])
  qed simp
  have "as_sn_peer_id ` set (sc_active (fold (report_active_sn env now) ?due (s\<lparr>sc_active := ?as\<rparr>))) \<subseteq> as_sn_peer_id ` set ?as"
    using image_mono [OF pl [of ?due "s\<lparr>sc_active := ?as\<rparr>"], of fst] by (simp add: place_ids)
  moreover have "as_sn_peer_id ` set ?as = as_sn_peer_id ` set (sc_active s)"
    unfolding set_map [symmetric] by (simp add: collect_due_active_sns_def comp_def if_distrib cong: if_cong)
  ultimately show ?thesis using False by (simp add: ping_round_def case_prod_unfold Let_def)
qed simp

lemma no_stream_register:
  assumes "ce_stream env = (\<lambda>_ _ _. None)" and "sc_active s = []"
  shows "sc_active (register_loop env now sn cs s) = [] \<and> sc_latest_sn_interval (register_loop env now sn cs s) = sc_latest_sn_interval s"
  using assms(2)
proof (induction cs arbitrary: s)
  case (Cons c cs)
  let ?s = "record_report_stream_failure now sn s"
  have "acquire_sn_send env (sc_seq s) l r sn = Inl ConnectFailed" for l r using assms(1) by (simp add: acquire_sn_send_def)
  then have "register_loop env now sn (c # cs) s = register_loop env now sn cs ?s" by (cases c) (simp add: failed_report)
  moreover have "sc_active ?s = [] \<and> sc_latest_sn_interval ?s = sc_latest_sn_interval s"
    using Cons.prems by (simp add: record_report_stream_failure_def remove_active_sn_def Let_def)
  ultimately show ?case using Cons.IH [of ?s] by simp
qed simp

lemma no_stream_round:
  assumes "ce_stream env = (\<lambda>_ _ _. None)" and "sc_active s = []"
  shows "sc_active (ping_round env now force s) = [] \<and> sc_latest_sn_interval (ping_round env now force s) = sc_latest_sn_interval s"
proof -
  have "sc_active (fold (\<lambda>(sn, eps). register_loop env now sn (sn_candidates cs eps)) sns x) = [] \<and>
      sc_latest_sn_interval (fold (\<lambda>(sn, eps). register_loop env now sn (sn_candidates cs eps)) sns x) = sc_latest_sn_interval x"
    if "sc_active x = []" for cs sns x
    using that by (induction sns arbitrary: x) (simp_all add: case_prod_unfold no_stream_register [OF assms(1)])
  then show ?thesis using assms(2) by (simp add: ping_round_def Let_def)
qed

text \<open>The interval after \<open>n\<close> rounds without an SN.\<close>

definition interval_after :: "nat \<Rightarrow> nat" where
  "interval_after n = (if n = 0 then 0 else min 600 (2 ^ (n - 1)))"

lemma power_not_ten: "(2::nat) ^ k \<noteq> 10"
proof (cases "k < 4")
  case True
  then have "k \<in> {0, 1, 2, 3}" by auto
  then show ?thesis by auto
next
  case False
  then have "(2::nat) ^ 4 \<le> 2 ^ k" by (intro power_increasing) simp_all
  then show ?thesis by simp
qed

lemma interval_after_Suc:
  "interval_after (Suc n) = min 600 (if interval_after n = 0 \<or> interval_after n = 10 then 1 else interval_after n * 2)"
proof (cases n)
  case (Suc k)
  have "min 600 ((2::nat) ^ k) \<noteq> 0" "min 600 ((2::nat) ^ k) \<noteq> 10" using power_not_ten [of k] by (auto simp: min_def)
  then show ?thesis by (simp add: interval_after_def Suc min_def)
qed (simp add: interval_after_def)

lemma interval_after_le: "interval_after n \<le> 600"
  by (simp add: interval_after_def)

lemma interval_words:
  assumes "k \<le> 600"
  shows "(of_nat k :: u64) = 0 \<longleftrightarrow> k = 0" and "(of_nat k :: u64) = 10 \<longleftrightarrow> k = 10"
    and "(600 :: u64) < of_nat k * 2 \<longleftrightarrow> 600 < k * 2"
  using assms by (simp_all add: word_unat_eq_iff word_less_nat_alt unat_word_ariths unat_of_nat)

lemma lonely_begin:
  assumes "sc_active s = []" and "sc_latest_sn_interval s = of_nat (interval_after n)"
  shows "sc_latest_sn_interval (fst (ping_begin s)) = of_nat (interval_after (Suc n)) \<and> sc_active (fst (ping_begin s)) = [] \<and>
         fst (snd (ping_begin s)) = (if n = 0 then None else Some (of_nat (interval_after (Suc n))))"
proof -
  have "(interval_after n = 0) = (n = 0)" by (simp add: interval_after_def min_def)
  then show ?thesis
    using assms interval_words [OF interval_after_le [of n]]
    by (auto simp: ping_begin_def Let_def interval_after_Suc min_def word_less_nat_alt)
qed

lemma lonely_rounds:
  assumes "ce_stream env = (\<lambda>_ _ _. None)" and "sc_active s = []" and "sc_latest_sn_interval s = of_nat (interval_after n)"
  shows "sc_active (fold (\<lambda>t x. fst (ping_proc_step env t x)) ts s) = [] \<and>
         sc_latest_sn_interval (fold (\<lambda>t x. fst (ping_proc_step env t x)) ts s) = of_nat (interval_after (n + length ts))"
  using assms(2,3)
proof (induction ts arbitrary: s n)
  case (Cons t ts)
  let ?s = "fst (ping_proc_step env t s)"
  have "sc_active ?s = [] \<and> sc_latest_sn_interval ?s = of_nat (interval_after (Suc n))"
    using lonely_begin [OF Cons.prems] no_stream_round [OF assms(1), of "fst (ping_begin s)"]
    by (simp add: ping_proc_step_def case_prod_unfold Let_def)
  then show ?case using Cons.IH [of ?s "Suc n"] by simp
qed simp

text \<open>a client that reaches no SN tries at once, then after 2, 4, 8 seconds and so on, and every ten minutes
  from the tenth wait on; it never waits longer and never gives up.\<close>

theorem lonely_client_backs_off:
  assumes "ce_stream env = (\<lambda>_ _ _. None)" and "sc_active s = []" and "sc_latest_sn_interval s = 0"
  shows "snd (ping_proc_step env now (fold (\<lambda>t x. fst (ping_proc_step env t x)) ts s)) =
         (if ts = [] then None else Some (of_nat (min 600 (2 ^ length ts))))"
proof -
  let ?s = "fold (\<lambda>t x. fst (ping_proc_step env t x)) ts s"
  have "sc_active ?s = [] \<and> sc_latest_sn_interval ?s = of_nat (interval_after (length ts))"
    using lonely_rounds [OF assms(1,2), of 0 ts] assms(3) by (simp add: interval_after_def)
  with lonely_begin [of ?s "length ts"] show ?thesis
    by (simp add: ping_proc_step_def case_prod_unfold Let_def interval_after_def)
qed

text \<open>\<open>start\<close> and \<open>reset_sn\<close> keep the interval of the back-off: SNs given to a client that had long reached none are
  first contacted after ten minutes.\<close>

theorem reset_client_still_waits:
  assumes "sc_latest_sn_interval s = 600"
  shows "snd (ping_proc_step env now (reset_sn sns s)) = Some 600"
  using assms by (simp add: ping_proc_step_def ping_begin_def reset_sn_def start_def stop_def Let_def word_less_nat_alt)

section \<open>Going online\<close>

lemma matches_places: "active_sn_matches i s \<longleftrightarrow> i \<in> fst ` places s"
  by (auto simp: active_sn_matches_def list_ex_iff place_ids)

lemma matches_find: "active_sn_matches i s \<longleftrightarrow> find_active i (sc_active s) \<noteq> None"
  by (auto simp: active_sn_matches_def list_ex_iff find_active_def find_None_iff)

lemma matches_frame [simp]:
  "active_sn_matches i (apply_completed_probe now j g q prof s) = active_sn_matches i s"
  "active_sn_matches i (update_registration j es signer wan s) = active_sn_matches i s"
  by (simp_all add: matches_places)

lemma find_removed_other: "i \<noteq> j \<Longrightarrow> find_active i (filter (\<lambda>a. as_sn_peer_id a \<noteq> j) as) = find_active i as"
  unfolding find_active_def by (induction as) auto

lemma report_keeps_other:
  assumes "active_sn_matches i s" and "j \<noteq> i"
  shows "active_sn_matches i (fst (report env now l r j prof res s))"
proof (cases "acquire_sn_send env (sc_seq s) l r j")
  case (Inl e)
  have "active_sn_matches i (record_report_stream_failure now j s)"
    using assms unfolding matches_find
    by (simp add: record_report_stream_failure_def remove_active_sn_def Let_def find_update_other find_removed_other)
  then show ?thesis by (simp add: failed_report [OF Inl])
qed (use assms sent_report in \<open>simp add: active_sn_matches_def\<close>)

lemma report_keeps_own:
  assumes "active_sn_matches i s" and "hm_get (sc_failures s) i = None"
  shows "active_sn_matches i (fst (report env now l r i prof res s))"
proof (cases "acquire_sn_send env (sc_seq s) l r i")
  case (Inl e)
  then show ?thesis
    using assms(1) first_failure [OF assms(2), of now] by (simp add: failed_report matches_find)
qed (use assms sent_report in \<open>simp add: active_sn_matches_def\<close>)

lemma published_active:
  assumes "\<And>s l r prof res. P s \<Longrightarrow> active_sn_matches i (fst (report env now l r sn prof res s))"
    and "\<And>g q prof a. P (apply_completed_probe now sn g q prof (s\<lparr>sc_active := fst (publish_active_sn a (sc_active s))\<rparr>)) \<or> as_sn_peer_id a \<noteq> sn"
    and "\<And>x. P x \<Longrightarrow> active_sn_matches i x"
  shows "active_sn_matches i (register_published env now sn p ep l resp s)"
proof -
  define a where "a = \<lparr>as_sn_peer_id = sn, as_latest_time = now, as_protocol = p, as_sn_endpoint = ep, as_wan_ep_list = rr_end_point_array resp,
      as_nat_probe_endpoints = probe_endpoints_or_none p ep (rr_nat_probe_ports resp),
      as_nat_probe_signer = validate_nat_probe_signer env sn (rr_peer_info resp), as_net_profile = profile_unknown,
      as_registration_generation = 0, as_last_request_id = 0, as_next_probe_at = now\<rparr>"
  have "P (apply_completed_probe now sn g q prof (s\<lparr>sc_active := fst (publish_active_sn a (sc_active s))\<rparr>))" for g q prof
    using assms(2) [of g q prof a] by (simp add: a_def)
  from this assms(3) [OF this] assms(1) [OF this] show ?thesis
    unfolding register_published_def Let_def a_def [symmetric]
    by (auto split: option.splits sum.splits prod.splits) (metis fst_conv)+
qed

lemma matches_publish [simp]:
  "active_sn_matches i (s\<lparr>sc_active := fst (publish_active_sn a (sc_active s))\<rparr>) \<longleftrightarrow> i = as_sn_peer_id a \<or> active_sn_matches i s"
  by (auto simp: active_sn_matches_def publish_active_sn_def list_ex_iff)

lemma failures_apply [simp]: "sc_failures (apply_completed_probe now i g q prof s) = sc_failures s"
  by (simp add: apply_completed_probe_def)

lemma register_published_active:
  assumes "hm_get (sc_failures s) sn = None"
  shows "active_sn_matches sn (register_published env now sn p ep l resp s)"
  by (rule published_active [where P = "\<lambda>x. active_sn_matches sn x \<and> hm_get (sc_failures x) sn = None"])
    (use assms in \<open>auto simp: report_keeps_own\<close>)

lemma register_published_keeps:
  assumes "active_sn_matches i s" and "sn \<noteq> i"
  shows "active_sn_matches i (register_published env now sn p ep l resp s)"
  by (rule published_active [where P = "active_sn_matches i"]) (use assms in \<open>auto simp: report_keeps_other\<close>)

lemma register_loop_keeps:
  "active_sn_matches i s \<Longrightarrow> sn \<noteq> i \<Longrightarrow> active_sn_matches i (register_loop env now sn cs s)"
proof (induction cs arbitrary: s)
  case (Cons c cs)
  obtain p ep l where c: "c = (p, ep, l)" by (metis prod_cases3)
  have "active_sn_matches i (fst (report env now l ep sn None None s))" using Cons.prems by (rule report_keeps_other)
  with Cons.IH Cons.prems(2) show ?case by (auto simp: c register_published_keeps split: prod.split sum.split)
qed simp

text \<open>The SN answers every report of the client the way the service does, in whatever state it is by then.\<close>

definition served_by :: "'t sn_env \<Rightarrow> p2p_id \<Rightarrow> sn_client_env \<Rightarrow> bool" where
  "served_by senv sn env \<longleftrightarrow>
     (\<forall>m. \<exists>t now ss. ss_local_cert ss \<noteq> None \<and> ce_report env sn m = snd (handle_report_sn senv now sn (ce_id env) t m (ss :: 't sn_service)))"

lemma report_answered:
  assumes "checked_client senv (ce_id env) (Inr cert) = Inr ()" and "ss_local_cert ss \<noteq> None"
  shows "\<exists>resp. snd (handle_report_sn senv now sn (ce_id env) t (report_message env sq cert prof res) ss) = Inr resp \<and>
                rr_seq resp = sq \<and> rr_sn_peer_id resp = sn"
  using assms by (auto simp: handle_report_sn_def report_message_def sanitize_push_all MAX_LOCAL_IP_COUNT_def Let_def case_prod_unfold)

lemma report_accepted:
  assumes "acquire_sn_send env (sc_seq s) l r sn = Inr ()" and "ce_cert env = Inr cert" and "ce_report_encodes env = (\<lambda>_. True)"
    and "checked_client (senv :: 't sn_env) (ce_id env) (Inr cert) = Inr ()" and "served_by senv sn env"
  shows "\<exists>resp. snd (report env now l r sn prof res s) = Inr resp"
proof -
  let ?sq = "fst (sequence_generate (sc_seq s))"
  let ?m = "report_message env ?sq cert prof res"
  obtain t now' and ss :: "'t sn_service" where "ss_local_cert ss \<noteq> None" and
    rp: "ce_report env sn ?m = snd (handle_report_sn senv now' sn (ce_id env) t ?m ss)"
    using assms(5) unfolding served_by_def by blast
  then obtain resp where "ce_report env sn ?m = Inr resp" "rr_seq resp = ?sq" "rr_sn_peer_id resp = sn"
    using report_answered [OF assms(4)] by metis
  then show ?thesis
    using assms(1-3) by (simp add: report_def report_on_send_def clear_report_stream_failure_def case_prod_unfold Let_def)
qed

lemma register_loop_active:
  assumes "(p, ep, l) \<in> set cs" and "\<And>s. \<exists>resp. snd (report env now l ep sn None None s) = Inr resp"
  shows "active_sn_matches sn (register_loop env now sn cs s)"
  using assms(1)
proof (induction cs arbitrary: s)
  case (Cons c cs)
  obtain p' ep' l' where c: "c = (p', ep', l')" by (metis prod_cases3)
  let ?r = "report env now l' ep' sn None None s"
  show ?case
  proof (cases "snd ?r")
    case (Inl e)
    then have "(p, ep, l) \<in> set cs" using Cons.prems assms(2) [of s] by (auto simp: c)
    then show ?thesis using Cons.IH [of "fst ?r"] Inl by (simp add: c case_prod_unfold)
  next
    case (Inr resp)
    then have "acquire_sn_send env (sc_seq s) l' ep' sn = Inr ()" by (cases "acquire_sn_send env (sc_seq s) l' ep' sn") (simp_all add: report_def)
    from sent_report [OF this] show ?thesis using Inr by (simp add: c case_prod_unfold register_published_active)
  qed
qed simp

text \<open>C18: a client without an SN is online after one round of the ping task when one endpoint of one SN of its list
  is reachable and that SN accepts its certificate: whatever happens with the other SNs and the other endpoints,
  the SN is in the list afterwards and \<open>wait_online\<close> returns.\<close>

theorem client_goes_online:
  assumes "sc_active s = []" and "distinct (map fst (sc_sn_list s))" and "(sn, eps) \<in> set (sc_sn_list s)"
    and "(p, ep, l) \<in> set (sn_candidates (sn_client_protocol_candidates (ce_listeners env) (ce_protocols env)) eps)"
    and "ce_stream env = (\<lambda>c l' r. if l' = l \<and> r = ep then Some sn else others c l' r)"
    and "ce_cert env = Inr cert" and "ce_report_encodes env = (\<lambda>_. True)"
    and "checked_client senv (ce_id env) (Inr cert) = Inr ()" and "served_by senv sn env"
  shows "active_sn_matches sn (ping_round env now force s) \<and> wait_online_look False (ping_round env now force s) = Some (Inr ())"
proof -
  let ?cs = "sn_client_protocol_candidates (ce_listeners env) (ce_protocols env)"
  let ?f = "\<lambda>(sn, eps). register_loop env now sn (sn_candidates ?cs eps)"
  have ok: "\<exists>resp. snd (report env now l ep sn None None x) = Inr resp" for x
    by (rule report_accepted [OF _ assms(6-9)]) (simp add: acquire_sn_send_def assms(5))
  have keep: "active_sn_matches sn (fold ?f sns x)" if "sn \<notin> fst ` set sns" "active_sn_matches sn x" for sns x
    using that by (induction sns arbitrary: x) (auto simp: register_loop_keeps)
  obtain ys zs where split: "sc_sn_list s = ys @ (sn, eps) # zs" using assms(3) by (meson split_list)
  have "sn \<notin> fst ` set zs" using assms(2) by (auto simp: split)
  moreover have "active_sn_matches sn (?f (sn, eps) (fold ?f ys s))" using register_loop_active [OF assms(4) ok] by simp
  ultimately have "active_sn_matches sn (ping_round env now force s)"
    using keep [of zs] assms(1) by (simp add: ping_round_def Let_def split)
  then show ?thesis by (auto simp: wait_online_look_def active_sn_matches_def)
qed


section \<open>A sample client\<close>

text \<open>SN 9 listens on one QUIC endpoint; certificates are the ids; every probe succeeds.\<close>

definition accepting_sn :: "nat sn_env" where
  "accepting_sn =
     \<lparr>streams_of = (\<lambda>p. [(0, sample_path)]), create_cert = (\<lambda>c. Inr \<lparr>pd_id = P2pId c, pd_endpoints = [], pd_encoded = c\<rparr>),
      validate_client = (\<lambda>p c. Inr ValidateAccept), env_matrix = False, env_hit = (=),
      notify_encodes = (\<lambda>n. True), called_encodes = (\<lambda>m. True), send_called = (\<lambda>p m. Inr ()),
      inter_connection = (\<lambda>sn. Inr ValidateAccept), inter_command = (\<lambda>sn c p. Inr ValidateAccept)\<rparr>"

definition fresh_sn :: "nat sn_service" where
  "fresh_sn = set_local_identity [9] (sn_service_new 0 1 (Some (P2pId [9])))"

definition sample_client_env :: sn_client_env where
  "sample_client_env =
     \<lparr>ce_id = P2pId [5], ce_cert = Inr [5], ce_listeners = [], ce_protocols = [Quic], ce_local_ips = [],
      ce_create = (\<lambda>c. Inr \<lparr>sg_id = P2pId c, sg_verifies = True\<rparr>),
      ce_stream = (\<lambda>_ _ r. if r = sample_path then Some (P2pId [9]) else None), ce_report_encodes = (\<lambda>_. True),
      ce_report = (\<lambda>sn m. snd (handle_report_sn accepting_sn 10 sn (P2pId [5]) 0 m fresh_sn)),
      ce_probe = (\<lambda>_ _ _. Inr sample_profile)\<rparr>"

definition sample_client :: sn_client where
  "sample_client = sn_client_new [(P2pId [9], [sample_path])] 1"


theorem client_goes_online_witness: "active_sn_matches (P2pId [9]) (ping_round sample_client_env 10 True sample_client)"
proof -
  have cand: "(Quic, sample_path, None) \<in> set (sn_candidates (sn_client_protocol_candidates (ce_listeners sample_client_env)
      (ce_protocols sample_client_env)) [sample_path])"
    by (simp add: sample_client_env_def sn_client_protocol_candidates_def sn_candidates_def sample_path_def)
  have stream: "ce_stream sample_client_env =
      (\<lambda>c l r. if l = None \<and> r = sample_path then Some (P2pId [9]) else ce_stream sample_client_env c l r)"
    by (auto simp: sample_client_env_def fun_eq_iff)
  have "ss_local_cert fresh_sn \<noteq> None" by (simp add: fresh_sn_def set_local_identity_def)
  then have served: "served_by accepting_sn (P2pId [9]) sample_client_env"
    unfolding served_by_def by (intro allI exI [of _ 0] exI [of _ 10] exI [of _ fresh_sn]) (simp add: sample_client_env_def)
  have checked: "checked_client accepting_sn (ce_id sample_client_env) (Inr [5]) = Inr ()"
    by (simp add: checked_client_def validate_context_from_cert_def validate_connection_def require_accept_def accepting_sn_def sample_client_env_def)
  show ?thesis
    by (rule conjunct1 [OF client_goes_online [OF _ _ _ cand stream _ _ checked served]])
      (simp_all add: sample_client_def sn_client_new_def sample_client_env_def)
qed

theorem lonely_client_backs_off_witness:
  "snd (ping_proc_step (sample_client_env\<lparr>ce_stream := \<lambda>_ _ _. None\<rparr>) 50
     (fold (\<lambda>t x. fst (ping_proc_step (sample_client_env\<lparr>ce_stream := \<lambda>_ _ _. None\<rparr>) t x)) [10, 20, 30] sample_client)) = Some 8"
  using lonely_client_backs_off [of "sample_client_env\<lparr>ce_stream := \<lambda>_ _ _. None\<rparr>" sample_client 50 "[10, 20, 30]"]
  by (simp add: sample_client_def sn_client_new_def)

definition sample_directive :: nat_probe_directive where
  "sample_directive = \<lparr>dir_version = NAT_PROBE_CONTROL_VERSION, dir_sn_peer_id = P2pId [9], dir_peer_id = P2pId [5],
     dir_registration_generation = 1, dir_request_id = 1, dir_probe_config_generation = 1, dir_expires_at = 100, dir_ports = [10, 20]\<rparr>"

lemma sample_target: "validate_nat_probe_target Quic sample_path = Inr (IpV4 (Ipv4 203 0 113 7))"
  by (simp add: validate_nat_probe_target_def sample_path_def is_unspecified4_def is_broadcast4_def)

lemma sample_executed: "\<exists>res. execute_probe_directive sample_client_env 20 (P2pId [9]) Quic sample_path 0 0 None (Some sample_directive) = Some res"
  unfolding execute_Some using build_endpoints [OF sample_target, of "[10, 20]"]
  by (simp add: sample_directive_def sample_client_env_def word_less_nat_alt word_le_nat_alt supported_nat_probe_ports_def MAX_NAT_PROBE_ENDPOINTS_def)

definition sample_active :: active_sn where
  "sample_active = \<lparr>as_sn_peer_id = P2pId [9], as_latest_time = 10, as_protocol = Quic, as_sn_endpoint = sample_path, as_wan_ep_list = [],
     as_nat_probe_endpoints = [], as_nat_probe_signer = None, as_net_profile = profile_unknown, as_registration_generation = 0,
     as_last_request_id = 0, as_next_probe_at = 10\<rparr>"

lemma sample_found: "find_active (P2pId [9]) (sc_active (sample_client\<lparr>sc_active := [sample_active]\<rparr>)) = Some sample_active"
  by (simp add: find_active_def sample_active_def)


theorem second_stream_failure_evicts_witness:
  "let s0 = fst (report sample_client_env 10 None sample_path (P2pId [9]) None None (sample_client\<lparr>sc_active := [sample_active]\<rparr>));
       env' = sample_client_env\<lparr>ce_stream := \<lambda>_ _ _. None\<rparr>;
       s1 = fst (report env' 700000000 None sample_path (P2pId [9]) None None s0);
       s2 = fst (report env' 700000001 None sample_path (P2pId [9]) None None s1)
   in \<not> active_sn_matches (P2pId [9]) s2"
proof -
  have "acquire_sn_send sample_client_env c None sample_path (P2pId [9]) = Inr ()" for c
    by (simp add: acquire_sn_send_def sample_client_env_def)
  moreover have "SN_ACTIVE_REPORT_REFRESH_INTERVAL < 700000000"
    by (simp add: SN_ACTIVE_REPORT_REFRESH_INTERVAL_def word_less_nat_alt)
  ultimately show ?thesis
    using second_stream_failure_evicts [of sample_client_env "sample_client\<lparr>sc_active := [sample_active]\<rparr>" None sample_path "P2pId [9]"
      sample_active "sample_client_env\<lparr>ce_stream := \<lambda>_ _ _. None\<rparr>" 700000000 10 None None None sample_path None None 700000001 None sample_path None None]
      sample_found by (simp add: Let_def)
qed


end
