(* ===== verification/InterSn.thy ===== *)
theory InterSn
  imports SnService RouteStore Election
begin

text \<open>
  The commands that SNs send each other (\<open>sn/inter_sn/mod.rs\<close>): requests and responses, the peer that answers them
  (trait \<open>InterSnPeer\<close>, as a record of functions over its state), the dispatch of a received command, and the client
  whose methods are these commands. The codec of the messages and the command tunnels are parameters.
\<close>

section \<open>Definitions\<close>

subsection \<open>Command codes\<close>

datatype owner_command_code =
    CodeHeartbeat | CodePublishLease | CodeQueryLease | CodeQueryDetail | CodeRelayCall | CodeRelayRendezvousV2

fun command_code_u8 :: "owner_command_code \<Rightarrow> u8" where
  "command_code_u8 CodeHeartbeat = 0x80"
| "command_code_u8 CodePublishLease = 0x81"
| "command_code_u8 CodeQueryLease = 0x82"
| "command_code_u8 CodeQueryDetail = 0x83"
| "command_code_u8 CodeRelayCall = 0x84"
| "command_code_u8 CodeRelayRendezvousV2 = 0x86"

definition command_code_try_from :: "u8 \<Rightarrow> owner_command_code p2p_result" where
  "command_code_try_from v =
     (if v = 0x80 then Inr CodeHeartbeat else if v = 0x81 then Inr CodePublishLease else if v = 0x82 then Inr CodeQueryLease
      else if v = 0x83 then Inr CodeQueryDetail else if v = 0x84 then Inr CodeRelayCall else if v = 0x86 then Inr CodeRelayRendezvousV2
      else Inl InvalidParam)"

text \<open>\<open>raw_encode\<close> writes to the front of a buffer and returns what is left of it.\<close>

definition command_code_encode :: "owner_command_code \<Rightarrow> u8 list \<Rightarrow> codec_error + (u8 list \<times> u8 list)" where
  "command_code_encode c buf = (if buf = [] then Inl CodecOutOfLimit else Inr ([command_code_u8 c], tl buf))"

definition command_code_decode :: "u8 list \<Rightarrow> codec_error + (owner_command_code \<times> u8 list)" where
  "command_code_decode buf =
     (case buf of
        [] \<Rightarrow> Inl CodecOutOfLimit
      | b # rest \<Rightarrow> (case command_code_try_from b of Inl _ \<Rightarrow> Inl CodecFailed | Inr c \<Rightarrow> Inr (c, rest)))"

subsection \<open>Messages\<close>

record sn_publish_lease =
  pl_peer_id :: p2p_id
  pl_serving_sn_id :: p2p_id
  pl_sequence :: u64
  pl_expires_at :: timestamp

definition publish_of_lease :: "serving_lease \<Rightarrow> sn_publish_lease" where
  "publish_of_lease l = \<lparr>pl_peer_id = lease_peer_id l, pl_serving_sn_id = lease_serving_sn_id l, pl_sequence = lease_sequence l,
     pl_expires_at = lease_expires_at l\<rparr>"

definition lease_of_publish :: "sn_publish_lease \<Rightarrow> serving_lease" where
  "lease_of_publish l = \<lparr>lease_peer_id = pl_peer_id l, lease_serving_sn_id = pl_serving_sn_id l, lease_sequence = pl_sequence l,
     lease_expires_at = pl_expires_at l\<rparr>"

record sn_detail_resp =
  dr_peer_info :: "u8 list option"
  dr_end_point_array :: "endpoint list"
  dr_net_profile :: "nat_profile option"
  dr_target_protocol_version :: "u8 option"

record relay_call_response =
  rc_accepted :: bool
  rc_to_peer_info :: "u8 list option"

definition relay_response_of :: "relay_call_outcome \<Rightarrow> relay_call_response" where
  "relay_response_of r = \<lparr>rc_accepted = ro_accepted r, rc_to_peer_info = ro_to_peer_info r\<rparr>"

datatype inter_sn_request =
    ReqHeartbeat p2p_id | ReqOwnerVote vote_request | ReqOwnerControlHeartbeat heartbeat_request
  | ReqOwnerSessionReplication session_replication | ReqOwnerSessionForward session_forward
  | ReqPublishLease sn_publish_lease | ReqQueryLease p2p_id | ReqQueryDetail p2p_id | ReqRelayCall sn_call
  | ReqRelayRendezvous p2p_id sn_tunnel_rendezvous_notify

datatype inter_sn_response =
    RspHeartbeat bool | RspOwnerVote vote_response | RspOwnerControlHeartbeat heartbeat_response
  | RspOwnerSessionReplication session_response | RspOwnerSessionForward session_response
  | RspPublished bool | RspLeases "sn_publish_lease list" | RspDetail sn_detail_resp | RspRelay relay_call_response
  | RspRendezvous sn_tunnel_rendezvous_resp | RspError p2p_error_code

fun inter_sn_command_code :: "inter_sn_request \<Rightarrow> owner_command_code" where
  "inter_sn_command_code (ReqHeartbeat _) = CodeHeartbeat"
| "inter_sn_command_code (ReqOwnerVote _) = CodeHeartbeat"
| "inter_sn_command_code (ReqOwnerControlHeartbeat _) = CodeHeartbeat"
| "inter_sn_command_code (ReqOwnerSessionReplication _) = CodeHeartbeat"
| "inter_sn_command_code (ReqOwnerSessionForward _) = CodeHeartbeat"
| "inter_sn_command_code (ReqPublishLease _) = CodePublishLease"
| "inter_sn_command_code (ReqQueryLease _) = CodeQueryLease"
| "inter_sn_command_code (ReqQueryDetail _) = CodeQueryDetail"
| "inter_sn_command_code (ReqRelayCall _) = CodeRelayCall"
| "inter_sn_command_code (ReqRelayRendezvous _ _) = CodeRelayRendezvousV2"

subsection \<open>Peers\<close>

text \<open>What answers a command: the methods of \<open>InterSnPeer\<close> with the id of the SN that asks first; a panic is a
  value.\<close>

record 's inter_sn_peer =
  peer_sn_id :: "p2p_id option"
  peer_publish_lease :: "p2p_id \<Rightarrow> serving_lease \<Rightarrow> 's \<Rightarrow> 's \<times> bool outcome"
  peer_heartbeat :: "p2p_id \<Rightarrow> p2p_id \<Rightarrow> 's \<Rightarrow> 's \<times> bool outcome"
  peer_owner_vote :: "p2p_id \<Rightarrow> vote_request \<Rightarrow> 's \<Rightarrow> 's \<times> vote_response outcome"
  peer_owner_control_heartbeat :: "p2p_id \<Rightarrow> heartbeat_request \<Rightarrow> 's \<Rightarrow> 's \<times> heartbeat_response outcome"
  peer_owner_session_replication :: "p2p_id \<Rightarrow> session_replication \<Rightarrow> 's \<Rightarrow> 's \<times> session_response outcome"
  peer_owner_session_forward :: "p2p_id \<Rightarrow> session_forward \<Rightarrow> 's \<Rightarrow> 's \<times> session_response outcome"
  peer_query_leases :: "p2p_id \<Rightarrow> p2p_id \<Rightarrow> 's \<Rightarrow> 's \<times> serving_lease list outcome"
  peer_query_detail :: "p2p_id \<Rightarrow> p2p_id \<Rightarrow> 's \<Rightarrow> 's \<times> serving_peer_detail option outcome"
  peer_relay_call :: "p2p_id \<Rightarrow> sn_call \<Rightarrow> 's \<Rightarrow> 's \<times> relay_call_outcome outcome"
  peer_relay_rendezvous :: "p2p_id \<Rightarrow> p2p_id \<Rightarrow> sn_tunnel_rendezvous_notify \<Rightarrow> 's \<Rightarrow> 's \<times> sn_tunnel_rendezvous_resp outcome"

definition not_support :: "'s \<Rightarrow> 's \<times> 'r outcome" where
  "not_support s = (s, Returned (Inl NotSupport))"

text \<open>The default methods of the trait.\<close>

definition default_peer :: "p2p_id option \<Rightarrow> 's inter_sn_peer" where
  "default_peer i = \<lparr>peer_sn_id = i, peer_publish_lease = (\<lambda>_ _. not_support), peer_heartbeat = (\<lambda>_ _. not_support),
     peer_owner_vote = (\<lambda>_ _. not_support), peer_owner_control_heartbeat = (\<lambda>_ _. not_support),
     peer_owner_session_replication = (\<lambda>_ _. not_support), peer_owner_session_forward = (\<lambda>_ _. not_support),
     peer_query_leases = (\<lambda>_ _. not_support), peer_query_detail = (\<lambda>_ _. not_support),
     peer_relay_call = (\<lambda>_ _. not_support), peer_relay_rendezvous = (\<lambda>_ _ _. not_support)\<rparr>"

text \<open>The SN service as a peer: its state with the calls and the stream actions so far.\<close>

type_synonym 't served = "'t sn_service \<times> sn_called list \<times> 't stream_action list"

definition sn_service_peer :: "'t sn_env \<Rightarrow> ('t \<Rightarrow> qa_outcome) \<Rightarrow> timestamp \<Rightarrow> 't sn_service \<Rightarrow> 't served inter_sn_peer" where
  "sn_service_peer env qa now s0 = (default_peer (ss_local_sn_id s0))\<lparr>
     peer_query_detail := \<lambda>sn p (s, cs, as). let (s', r) = query_detail_from_sn env now sn p s in ((s', cs, as), Returned r),
     peer_relay_call := \<lambda>sn c (s, cs, as). let (s', out, r) = relay_call_from_sn env now sn c s in ((s', cs @ out, as), Returned r),
     peer_relay_rendezvous := \<lambda>sn p n (s, cs, as).
       let (s', acts, r) = relay_rendezvous_from_sn env qa sn p n s in ((s', cs, as @ acts), Returned r)\<rparr>"

subsection \<open>Dispatch\<close>

text \<open>An answer, or none when the method panicked.\<close>

fun answer_of :: "('r \<Rightarrow> inter_sn_response) \<Rightarrow> 's \<times> 'r outcome \<Rightarrow> 's \<times> inter_sn_response option" where
  "answer_of f (s, Returned (Inr r)) = (s, Some (f r))"
| "answer_of f (s, Returned (Inl e)) = (s, Some (RspError e))"
| "answer_of f (s, Panicked) = (s, None)"

definition detail_response :: "serving_peer_detail option \<Rightarrow> sn_detail_resp" where
  "detail_response d =
     (case d of
        Some x \<Rightarrow> \<lparr>dr_peer_info = Some (sd_peer_info x), dr_end_point_array = sd_endpoints x, dr_net_profile = sd_net_profile x,
                    dr_target_protocol_version = sd_target_protocol_version x\<rparr>
      | None \<Rightarrow> \<lparr>dr_peer_info = None, dr_end_point_array = [], dr_net_profile = None, dr_target_protocol_version = None\<rparr>)"

definition dispatch_owner_cmd ::
    "'s inter_sn_peer \<Rightarrow> p2p_id \<Rightarrow> owner_command_code \<Rightarrow> inter_sn_request \<Rightarrow> 's \<Rightarrow> 's \<times> inter_sn_response option" where
  "dispatch_owner_cmd peer sn code r s =
     (case (code, r) of
        (CodeHeartbeat, ReqHeartbeat i) \<Rightarrow> answer_of RspHeartbeat (peer_heartbeat peer sn i s)
      | (CodeHeartbeat, ReqOwnerVote q) \<Rightarrow> answer_of RspOwnerVote (peer_owner_vote peer sn q s)
      | (CodeHeartbeat, ReqOwnerControlHeartbeat q) \<Rightarrow> answer_of RspOwnerControlHeartbeat (peer_owner_control_heartbeat peer sn q s)
      | (CodeHeartbeat, ReqOwnerSessionReplication q) \<Rightarrow>
          answer_of RspOwnerSessionReplication (peer_owner_session_replication peer sn q s)
      | (CodeHeartbeat, ReqOwnerSessionForward q) \<Rightarrow> answer_of RspOwnerSessionForward (peer_owner_session_forward peer sn q s)
      | (CodePublishLease, ReqPublishLease l) \<Rightarrow> answer_of RspPublished (peer_publish_lease peer sn (lease_of_publish l) s)
      | (CodeQueryLease, ReqQueryLease p) \<Rightarrow> answer_of (\<lambda>ls. RspLeases (map publish_of_lease ls)) (peer_query_leases peer sn p s)
      | (CodeQueryDetail, ReqQueryDetail p) \<Rightarrow> answer_of (\<lambda>d. RspDetail (detail_response d)) (peer_query_detail peer sn p s)
      | (CodeRelayCall, ReqRelayCall c) \<Rightarrow> answer_of (\<lambda>x. RspRelay (relay_response_of x)) (peer_relay_call peer sn c s)
      | (CodeRelayRendezvousV2, ReqRelayRendezvous p n) \<Rightarrow> answer_of RspRendezvous (peer_relay_rendezvous peer sn p n s)
      | _ \<Rightarrow> (s, Some (RspError InvalidData)))"

definition INTER_SN_CMD_VERSION :: u8 where "INTER_SN_CMD_VERSION = 0"

text \<open>The version a command is sent with and expected to have.\<close>

definition command_version :: "owner_command_code \<Rightarrow> u8" where
  "command_version code = (if code = CodeRelayRendezvousV2 then SN_TUNNEL_RENDEZVOUS_CMD_VERSION else INTER_SN_CMD_VERSION)"

text \<open>The codec of the two messages, over frames of any type: the encoder may refuse, the decoder also returns the
  bytes that follow.\<close>

record 'w inter_sn_codec =
  enc_request :: "inter_sn_request \<Rightarrow> 'w option"
  dec_request :: "'w \<Rightarrow> codec_error + (inter_sn_request \<times> u8 list)"
  enc_response :: "inter_sn_response \<Rightarrow> 'w option"
  dec_response :: "'w \<Rightarrow> codec_error + (inter_sn_response \<times> u8 list)"

text \<open>\<open>body\<close>: what is read of the body, nothing when reading fails. \<open>Inr None\<close>: the handler panicked.\<close>

definition handle_owner_cmd ::
    "'w inter_sn_codec \<Rightarrow> 's inter_sn_peer \<Rightarrow> p2p_id \<Rightarrow> owner_command_code \<Rightarrow> u8 \<Rightarrow> 'w option \<Rightarrow> 's \<Rightarrow>
     's \<times> (cmd_error + 'w option)" where
  "handle_owner_cmd cd peer sn code version body s =
     (if version \<noteq> command_version code then (s, Inl CmdInvalidParam)
      else (case body of
              None \<Rightarrow> (s, Inl CmdFailed)
            | Some bytes \<Rightarrow>
                (case dec_request cd bytes of
                   Inl _ \<Rightarrow> (s, Inl CmdFailed)
                 | Inr (r, rest) \<Rightarrow>
                     if rest \<noteq> [] then (s, Inl CmdInvalidParam)
                     else (case dispatch_owner_cmd peer sn code r s of
                             (s', None) \<Rightarrow> (s', Inr None)
                           | (s', Some resp) \<Rightarrow>
                               (s', case enc_response cd resp of None \<Rightarrow> Inl CmdFailed | Some b \<Rightarrow> Inr (Some b))))))"

subsection \<open>The client\<close>

record ttp_target =
  tt_local_ep :: "endpoint option"
  tt_remote_ep :: endpoint
  tt_remote_id :: p2p_id
  tt_remote_name :: "string option"

definition owner_targets :: "owner_membership \<Rightarrow> (p2p_id, ttp_target) hmap" where
  "owner_targets m =
     fold (\<lambda>x ts. case member_endpoints x of
                    [] \<Rightarrow> ts
                  | e # _ \<Rightarrow> hm_insert (sn_id x) \<lparr>tt_local_ep = None, tt_remote_ep = e, tt_remote_id = sn_id x, tt_remote_name = member_name x\<rparr> ts)
       (members m) []"

text \<open>\<open>it_send\<close>: what comes back over the command tunnel of an SN, an error when it does not; the state of the
  world is an argument.\<close>

record ('w, 's) inter_sn_client =
  it_codec :: "'w inter_sn_codec"
  it_targets :: "(p2p_id, ttp_target) hmap"
  it_local_sn_id :: "p2p_id option"
  it_send :: "p2p_id \<Rightarrow> owner_command_code \<Rightarrow> u8 \<Rightarrow> 'w \<Rightarrow> 's \<Rightarrow> 's \<times> (cmd_error + 'w)"

definition inter_request :: "('w, 's) inter_sn_client \<Rightarrow> p2p_id \<Rightarrow> inter_sn_request \<Rightarrow> 's \<Rightarrow> 's \<times> inter_sn_response p2p_result" where
  "inter_request cl sn r s =
     (case hm_get (it_targets cl) sn of
        None \<Rightarrow> (s, Inl NotFound)
      | Some _ \<Rightarrow>
          let code = inter_sn_command_code r
          in case enc_request (it_codec cl) r of
               None \<Rightarrow> (s, Inl RawCodecError)
             | Some bytes \<Rightarrow>
                 (case it_send cl sn code (command_version code) bytes s of
                    (s', Inl _) \<Rightarrow> (s', Inl Failed)
                  | (s', Inr answer) \<Rightarrow>
                      (s', case dec_response (it_codec cl) answer of
                             Inl _ \<Rightarrow> Inl RawCodecError
                           | Inr (resp, rest) \<Rightarrow> if rest \<noteq> [] then Inl InvalidData else Inr resp)))"

text \<open>How every method reads its response: \<open>pick\<close> is its own case.\<close>

definition read_response :: "(inter_sn_response \<Rightarrow> 'r option) \<Rightarrow> 's \<times> inter_sn_response p2p_result \<Rightarrow> 's \<times> 'r p2p_result" where
  "read_response pick x =
     (case x of
        (s, Inl e) \<Rightarrow> (s, Inl e)
      | (s, Inr resp) \<Rightarrow> (s, case pick resp of Some r \<Rightarrow> Inr r | None \<Rightarrow> (case resp of RspError e \<Rightarrow> Inl e | _ \<Rightarrow> Inl InvalidData)))"

definition heartbeat_to_sn :: "('w, 's) inter_sn_client \<Rightarrow> p2p_id \<Rightarrow> 's \<Rightarrow> 's \<times> bool p2p_result" where
  "heartbeat_to_sn cl sn s =
     (case it_local_sn_id cl of
        None \<Rightarrow> (s, Inl InvalidParam)
      | Some i \<Rightarrow> read_response (\<lambda>r. case r of RspHeartbeat b \<Rightarrow> Some b | _ \<Rightarrow> None) (inter_request cl sn (ReqHeartbeat i) s))"

definition request_owner_vote_to_sn :: "('w, 's) inter_sn_client \<Rightarrow> p2p_id \<Rightarrow> vote_request \<Rightarrow> 's \<Rightarrow> 's \<times> vote_response p2p_result" where
  "request_owner_vote_to_sn cl sn q s =
     read_response (\<lambda>r. case r of RspOwnerVote x \<Rightarrow> Some x | _ \<Rightarrow> None) (inter_request cl sn (ReqOwnerVote q) s)"

definition send_owner_control_heartbeat_to_sn ::
    "('w, 's) inter_sn_client \<Rightarrow> p2p_id \<Rightarrow> heartbeat_request \<Rightarrow> 's \<Rightarrow> 's \<times> heartbeat_response p2p_result" where
  "send_owner_control_heartbeat_to_sn cl sn q s =
     read_response (\<lambda>r. case r of RspOwnerControlHeartbeat x \<Rightarrow> Some x | _ \<Rightarrow> None) (inter_request cl sn (ReqOwnerControlHeartbeat q) s)"

definition replicate_owner_session_to_sn ::
    "('w, 's) inter_sn_client \<Rightarrow> p2p_id \<Rightarrow> session_replication \<Rightarrow> 's \<Rightarrow> 's \<times> session_response p2p_result" where
  "replicate_owner_session_to_sn cl sn q s =
     read_response (\<lambda>r. case r of RspOwnerSessionReplication x \<Rightarrow> Some x | _ \<Rightarrow> None) (inter_request cl sn (ReqOwnerSessionReplication q) s)"

definition forward_owner_session_to_sn ::
    "('w, 's) inter_sn_client \<Rightarrow> p2p_id \<Rightarrow> session_forward \<Rightarrow> 's \<Rightarrow> 's \<times> session_response p2p_result" where
  "forward_owner_session_to_sn cl sn q s =
     read_response (\<lambda>r. case r of RspOwnerSessionForward x \<Rightarrow> Some x | _ \<Rightarrow> None) (inter_request cl sn (ReqOwnerSessionForward q) s)"

definition publish_lease_to_sn :: "('w, 's) inter_sn_client \<Rightarrow> p2p_id \<Rightarrow> serving_lease \<Rightarrow> 's \<Rightarrow> 's \<times> bool p2p_result" where
  "publish_lease_to_sn cl sn l s =
     read_response (\<lambda>r. case r of RspPublished b \<Rightarrow> Some b | _ \<Rightarrow> None) (inter_request cl sn (ReqPublishLease (publish_of_lease l)) s)"

definition query_leases_to_sn :: "('w, 's) inter_sn_client \<Rightarrow> p2p_id \<Rightarrow> p2p_id \<Rightarrow> 's \<Rightarrow> 's \<times> serving_lease list p2p_result" where
  "query_leases_to_sn cl sn p s =
     read_response (\<lambda>r. case r of RspLeases ls \<Rightarrow> Some (map lease_of_publish ls) | _ \<Rightarrow> None) (inter_request cl sn (ReqQueryLease p) s)"

definition query_detail_to_sn :: "('w, 's) inter_sn_client \<Rightarrow> p2p_id \<Rightarrow> p2p_id \<Rightarrow> 's \<Rightarrow> 's \<times> serving_peer_detail option p2p_result" where
  "query_detail_to_sn cl sn p s =
     read_response (\<lambda>r. case r of
         RspDetail d \<Rightarrow> Some (map_option (\<lambda>c. \<lparr>sd_peer_info = c, sd_endpoints = dr_end_point_array d, sd_net_profile = dr_net_profile d,
           sd_target_protocol_version = dr_target_protocol_version d\<rparr>) (dr_peer_info d))
       | _ \<Rightarrow> None) (inter_request cl sn (ReqQueryDetail p) s)"

definition relay_call_to_sn :: "('w, 's) inter_sn_client \<Rightarrow> p2p_id \<Rightarrow> sn_call \<Rightarrow> 's \<Rightarrow> 's \<times> relay_call_outcome p2p_result" where
  "relay_call_to_sn cl sn c s =
     read_response (\<lambda>r. case r of RspRelay x \<Rightarrow> Some \<lparr>ro_accepted = rc_accepted x, ro_to_peer_info = rc_to_peer_info x\<rparr> | _ \<Rightarrow> None)
       (inter_request cl sn (ReqRelayCall c) s)"

definition relay_rendezvous_to_sn ::
    "('w, 's) inter_sn_client \<Rightarrow> p2p_id \<Rightarrow> p2p_id \<Rightarrow> sn_tunnel_rendezvous_notify \<Rightarrow> 's \<Rightarrow> 's \<times> sn_tunnel_rendezvous_resp p2p_result" where
  "relay_rendezvous_to_sn cl sn p n s =
     read_response (\<lambda>r. case r of RspRendezvous x \<Rightarrow> Some x | _ \<Rightarrow> None) (inter_request cl sn (ReqRelayRendezvous p n) s)"

text \<open>\<open>OwnerPeerControlClient for TtpInterSnClient\<close>.\<close>

definition election_client :: "('w, election_node) inter_sn_client \<Rightarrow> peer_control_client" where
  "election_client cl = \<lparr>cl_request_vote = request_owner_vote_to_sn cl, cl_send_heartbeat = send_owner_control_heartbeat_to_sn cl,
     cl_replicate_session = replicate_owner_session_to_sn cl, cl_forward_session = forward_owner_session_to_sn cl\<rparr>"

subsection \<open>The registry of peers in one process\<close>

text \<open>\<open>alive\<close>: whether a weak reference still upgrades.\<close>

definition registry_register :: "'s inter_sn_peer \<Rightarrow> 'p \<Rightarrow> (p2p_id, 'p) hmap \<Rightarrow> (p2p_id, 'p) hmap" where
  "registry_register peer r m = (case peer_sn_id peer of None \<Rightarrow> m | Some i \<Rightarrow> hm_insert i r m)"

definition registry_get :: "('p \<Rightarrow> bool) \<Rightarrow> p2p_id \<Rightarrow> (p2p_id, 'p) hmap \<Rightarrow> (p2p_id, 'p) hmap \<times> 'p option" where
  "registry_get alive i m =
     (case hm_get m i of
        Some r \<Rightarrow> if alive r then (m, Some r) else (hm_remove i m, None)
      | None \<Rightarrow> (hm_remove i m, None))"

section \<open>Command codes\<close>

text \<open>The codes of the commands are a \<open>raw_codec\<close>: a code is read back and leaves what follows.\<close>

interpretation cmd_code: raw_codec "\<lambda>c. [command_code_u8 c]" command_code_decode "\<lambda>_. True"
proof
  fix c rest
  show "command_code_decode ([command_code_u8 c] @ rest) = Inr (c, rest)"
    by (cases c) (simp_all add: command_code_decode_def command_code_try_from_def)
qed

section \<open>Calls over the wire\<close>

lemma lease_round_trip [simp]: "lease_of_publish (publish_of_lease l) = l"
  by (simp add: lease_of_publish_def publish_of_lease_def)

lemma leases_round_trip [simp]: "map (lease_of_publish \<circ> publish_of_lease) ls = ls"
  by (simp add: comp_def)

text \<open>The command tunnel that leads to a peer, which knows the caller as \<open>me\<close>; no answer is a failed command.\<close>

definition wire ::
    "'w inter_sn_codec \<Rightarrow> 's inter_sn_peer \<Rightarrow> p2p_id \<Rightarrow> p2p_id \<Rightarrow> owner_command_code \<Rightarrow> u8 \<Rightarrow> 'w \<Rightarrow> 's \<Rightarrow> 's \<times> (cmd_error + 'w)" where
  "wire cd peer me sn code version bytes s =
     (case handle_owner_cmd cd peer me code version (Some bytes) s of
        (s', Inl e) \<Rightarrow> (s', Inl e) | (s', Inr None) \<Rightarrow> (s', Inl CmdFailed) | (s', Inr (Some b)) \<Rightarrow> (s', Inr b))"

text \<open>A codec that reads back what it wrote.\<close>

definition lossless :: "'w inter_sn_codec \<Rightarrow> bool" where
  "lossless cd \<longleftrightarrow> (\<forall>r. \<exists>b. enc_request cd r = Some b \<and> dec_request cd b = Inr (r, [])) \<and>
                    (\<forall>x. \<exists>b. enc_response cd x = Some b \<and> dec_response cd b = Inr (x, []))"

text \<open>The result of a method for a caller in the same process.\<close>

fun locally :: "'s \<times> 'r outcome \<Rightarrow> 's \<times> 'r p2p_result" where
  "locally (s, Returned r) = (s, r)"
| "locally (s, Panicked) = (s, Inl Failed)"

lemma request_over_wire:
  assumes "hm_get (it_targets cl) sn \<noteq> None" and "it_send cl = wire (it_codec cl) peer me" and "lossless (it_codec cl)"
  shows "inter_request cl sn r s =
    (case dispatch_owner_cmd peer me (inter_sn_command_code r) r s of (s', Some x) \<Rightarrow> (s', Inr x) | (s', None) \<Rightarrow> (s', Inl Failed))"
proof -
  let ?cd = "it_codec cl" and ?d = "dispatch_owner_cmd peer me (inter_sn_command_code r) r s"
  obtain b where b: "enc_request ?cd r = Some b" "dec_request ?cd b = Inr (r, [])" using assms(3) unfolding lossless_def by blast
  obtain t where t: "hm_get (it_targets cl) sn = Some t" using assms(1) by blast
  have h: "handle_owner_cmd ?cd peer me (inter_sn_command_code r) (command_version (inter_sn_command_code r)) (Some b) s =
      (case ?d of (s', None) \<Rightarrow> (s', Inr None)
       | (s', Some resp) \<Rightarrow> (s', case enc_response ?cd resp of None \<Rightarrow> Inl CmdFailed | Some b \<Rightarrow> Inr (Some b)))"
    by (simp add: handle_owner_cmd_def b)
  obtain s' x where d: "?d = (s', x)" by fastforce
  show ?thesis
  proof (cases x)
    case None
    then show ?thesis using t b h d by (simp add: inter_request_def assms(2) wire_def Let_def)
  next
    case (Some resp)
    obtain b' where "enc_response ?cd resp = Some b'" "dec_response ?cd b' = Inr (resp, [])" using assms(3) unfolding lossless_def by blast
    then show ?thesis using t b h d Some by (simp add: inter_request_def assms(2) wire_def Let_def)
  qed
qed

lemma read_answer:
  assumes "\<And>r. pick (f r) = Some r" and "\<And>e. pick (RspError e) = None"
  shows "read_response pick (case answer_of f x of (s', Some y) \<Rightarrow> (s', Inr y) | (s', None) \<Rightarrow> (s', Inl Failed)) = locally x"
  using assms by (cases "(f, x)" rule: answer_of.cases) (simp_all add: read_response_def)

lemma detail_round_trip:
  "map_option (\<lambda>c. \<lparr>sd_peer_info = c, sd_endpoints = dr_end_point_array (detail_response d), sd_net_profile = dr_net_profile (detail_response d),
     sd_target_protocol_version = dr_target_protocol_version (detail_response d)\<rparr>) (dr_peer_info (detail_response d)) = d"
  by (cases d) (simp_all add: detail_response_def)

lemmas inter_method_defs = request_owner_vote_to_sn_def send_owner_control_heartbeat_to_sn_def replicate_owner_session_to_sn_def
  forward_owner_session_to_sn_def publish_lease_to_sn_def query_leases_to_sn_def query_detail_to_sn_def relay_call_to_sn_def
  relay_rendezvous_to_sn_def heartbeat_to_sn_def


text \<open>Frames that are the messages themselves, and a peer that accepts heartbeats.\<close>

definition plain_codec :: "(inter_sn_request + inter_sn_response) inter_sn_codec" where
  "plain_codec = \<lparr>enc_request = \<lambda>r. Some (Inl r), dec_request = (\<lambda>w. case w of Inl r \<Rightarrow> Inr (r, []) | Inr _ \<Rightarrow> Inl CodecFailed),
     enc_response = \<lambda>x. Some (Inr x), dec_response = (\<lambda>w. case w of Inr x \<Rightarrow> Inr (x, []) | Inl _ \<Rightarrow> Inl CodecFailed)\<rparr>"

lemma plain_lossless: "lossless plain_codec"
  by (simp add: lossless_def plain_codec_def)

definition sample_peer :: "nat inter_sn_peer" where
  "sample_peer = (default_peer (Some (P2pId [2])))\<lparr>peer_heartbeat := \<lambda>sn i n. (n + 1, Returned (if sn = i then Inr True else Inl PermissionDenied))\<rparr>"

definition sample_inter_client :: "(inter_sn_request + inter_sn_response, nat) inter_sn_client" where
  "sample_inter_client = \<lparr>it_codec = plain_codec,
     it_targets = [(P2pId [2], \<lparr>tt_local_ep = None, tt_remote_ep = sample_path, tt_remote_id = P2pId [2], tt_remote_name = None\<rparr>)],
     it_local_sn_id = Some (P2pId [1]), it_send = wire plain_codec sample_peer (P2pId [1])\<rparr>"


end
