(* ===== verification/DirectoryService.thy ===== *)
theory DirectoryService
  imports InterSn
begin

text \<open>
  The owner of a part of the directory (\<open>sn/directory/server.rs\<close>) and the client that serving SNs keep to the owners
  (\<open>sn/directory/client.rs\<close>): who may publish and ask, the commands of the serving side, the control loop, and how a
  serving SN spreads a lease over the owners of a peer.

  The election node and the directory of an owner share one control plane: after a call on either, the other
  has it too. The validator of inter-SN commands and the command tunnels are parameters.
\<close>

section \<open>Definitions\<close>

subsection \<open>The service of an owner\<close>

record owner_service =
  os_directory :: sn_directory
  os_node :: election_node

record owner_env =
  oe_connection :: "p2p_id \<Rightarrow> validate_result p2p_result"
  oe_command :: "p2p_id \<Rightarrow> inter_sn_command \<Rightarrow> p2p_id \<Rightarrow> validate_result p2p_result"

definition on_directory :: "(sn_directory \<Rightarrow> sn_directory \<times> 'r) \<Rightarrow> owner_service \<Rightarrow> owner_service \<times> 'r" where
  "on_directory f s =
     (let (d, r) = f (os_directory s)
      in (s\<lparr>os_directory := d, os_node := (os_node s)\<lparr>control_plane := store_control_plane (dir_store d)\<rparr>\<rparr>, r))"

definition on_node :: "(election_node \<Rightarrow> election_node \<times> 'r) \<Rightarrow> owner_service \<Rightarrow> owner_service \<times> 'r" where
  "on_node f s =
     (let (n, r) = f (os_node s); d = os_directory s
      in (s\<lparr>os_node := n, os_directory := d\<lparr>dir_store := (dir_store d)\<lparr>store_control_plane := control_plane n\<rparr>\<rparr>\<rparr>, r))"

text \<open>With a membership the directory always exists.\<close>

definition owner_service_new :: "p2p_id \<Rightarrow> owner_membership \<Rightarrow> timestamp \<Rightarrow> owner_service option" where
  "owner_service_new i m now =
     map_option (\<lambda>d. \<lparr>os_directory = d, os_node = node_new i m (store_control_plane (dir_store d)) now\<rparr>) (sn_directory_new (Some m) now)"

definition os_query_serving_leases :: "timestamp \<Rightarrow> p2p_id \<Rightarrow> owner_service \<Rightarrow> owner_service \<times> serving_lease list" where
  "os_query_serving_leases now p = on_directory (query_serving_leases p now)"

definition owner_validate_connection :: "owner_env \<Rightarrow> p2p_id \<Rightarrow> unit p2p_result" where
  "owner_validate_connection env sn = require_accept (oe_connection env sn)"

definition owner_validate_command :: "owner_env \<Rightarrow> p2p_id \<Rightarrow> inter_sn_command \<Rightarrow> p2p_id \<Rightarrow> unit p2p_result" where
  "owner_validate_command env sn cmd p = require_accept (oe_command env sn cmd p)"

definition publish_lease_from_sn ::
    "owner_env \<Rightarrow> timestamp \<Rightarrow> p2p_id \<Rightarrow> serving_lease \<Rightarrow> owner_service \<Rightarrow> owner_service \<times> bool p2p_result" where
  "publish_lease_from_sn env now sn l s =
     (case owner_validate_connection env sn of
        Inl e \<Rightarrow> (s, Inl e)
      | Inr _ \<Rightarrow>
          (case owner_validate_command env sn InterPublishLease (lease_peer_id l) of
             Inl e \<Rightarrow> (s, Inl e)
           | Inr _ \<Rightarrow>
               let s1 = fst (on_directory (owner_refresh_member sn now) s);
                   (s2, ok) = on_directory (publish_serving_lease l now) s1
               in (s2, Inr ok)))"

definition query_leases_from_sn ::
    "owner_env \<Rightarrow> timestamp \<Rightarrow> p2p_id \<Rightarrow> p2p_id \<Rightarrow> owner_service \<Rightarrow> owner_service \<times> serving_lease list p2p_result" where
  "query_leases_from_sn env now sn p s =
     (case owner_validate_connection env sn of
        Inl e \<Rightarrow> (s, Inl e)
      | Inr _ \<Rightarrow>
          (case owner_validate_command env sn InterQueryLease p of
             Inl e \<Rightarrow> (s, Inl e)
           | Inr _ \<Rightarrow>
               let s1 = fst (on_directory (owner_refresh_member sn now) s);
                   (s2, ls) = os_query_serving_leases now p s1
               in (s2, Inr ls)))"

definition publish_lease_from_serving_sn ::
    "owner_env \<Rightarrow> timestamp \<Rightarrow> p2p_id \<Rightarrow> serving_lease \<Rightarrow> owner_service \<Rightarrow> owner_service \<times> bool p2p_result" where
  "publish_lease_from_serving_sn env now sn l s =
     (case owner_validate_connection env sn of
        Inl e \<Rightarrow> (s, Inl e)
      | Inr _ \<Rightarrow>
          if lease_serving_sn_id l \<noteq> sn then (s, Inl PermissionDenied)
          else (case owner_validate_command env sn InterPublishLease (lease_peer_id l) of
                  Inl e \<Rightarrow> (s, Inl e)
                | Inr _ \<Rightarrow> (let (s1, ok) = on_directory (publish_serving_lease l now) s in (s1, Inr ok))))"

definition query_leases_from_serving_sn ::
    "owner_env \<Rightarrow> timestamp \<Rightarrow> p2p_id \<Rightarrow> p2p_id \<Rightarrow> owner_service \<Rightarrow> owner_service \<times> serving_lease list p2p_result" where
  "query_leases_from_serving_sn env now sn p s =
     (case owner_validate_connection env sn of
        Inl e \<Rightarrow> (s, Inl e)
      | Inr _ \<Rightarrow>
          (case owner_validate_command env sn InterQueryLease p of
             Inl e \<Rightarrow> (s, Inl e)
           | Inr _ \<Rightarrow> (let (s1, ls) = os_query_serving_leases now p s in (s1, Inr ls))))"

definition heartbeat_from_sn ::
    "owner_env \<Rightarrow> timestamp \<Rightarrow> p2p_id \<Rightarrow> p2p_id \<Rightarrow> owner_service \<Rightarrow> owner_service \<times> bool p2p_result" where
  "heartbeat_from_sn env now sn i s =
     (case owner_validate_connection env sn of
        Inl e \<Rightarrow> (s, Inl e)
      | Inr _ \<Rightarrow>
          if sn \<noteq> i then (s, Inl PermissionDenied)
          else (case owner_validate_command env sn InterHeartbeat i of
                  Inl e \<Rightarrow> (s, Inl e)
                | Inr _ \<Rightarrow> (let (s1, ok) = on_directory (owner_refresh_member i now) s in (s1, Inr ok))))"

definition receive_owner_vote :: "timestamp \<Rightarrow> p2p_id \<Rightarrow> vote_request \<Rightarrow> owner_service \<Rightarrow> owner_service \<times> vote_response" where
  "receive_owner_vote now sn q = on_node (receive_vote_request sn q now)"

definition receive_owner_control_heartbeat ::
    "timestamp \<Rightarrow> p2p_id \<Rightarrow> heartbeat_request \<Rightarrow> owner_service \<Rightarrow> owner_service \<times> heartbeat_response" where
  "receive_owner_control_heartbeat now sn q = on_node (receive_heartbeat sn q now)"

definition receive_owner_session_replication ::
    "timestamp \<Rightarrow> p2p_id \<Rightarrow> session_replication \<Rightarrow> owner_service \<Rightarrow> owner_service \<times> session_response" where
  "receive_owner_session_replication now sn q = on_node (receive_session_replication sn q now)"

definition receive_owner_session_forward ::
    "peer_control_client option \<Rightarrow> p2p_id \<Rightarrow> session_forward \<Rightarrow> owner_service \<Rightarrow> owner_service \<times> session_response option" where
  "receive_owner_session_forward client sn q = on_node (receive_session_forward client sn q)"

subsection \<open>The server of an owner\<close>

text \<open>\<open>sv_has_setup\<close>: the identity, the two factories and the runtime are there; \<open>sv_client\<close>: the client to the other
  owners, set by \<open>attach_peer_transport\<close>.\<close>

record owner_server =
  sv_local_sn_id :: p2p_id
  sv_service :: owner_service
  sv_membership :: owner_membership
  sv_has_setup :: bool
  sv_owner_peer_endpoints :: "endpoint list"
  sv_serving_endpoints :: "endpoint list"
  sv_client :: "peer_control_client option"
  sv_serving_listener :: bool
  sv_running :: bool
  sv_control_task :: bool
  sv_started :: bool
  sv_stopped :: bool

definition owner_server_new_inner ::
    "p2p_id \<Rightarrow> owner_membership \<Rightarrow> bool \<Rightarrow> endpoint list \<Rightarrow> endpoint list \<Rightarrow> timestamp \<Rightarrow> owner_server option" where
  "owner_server_new_inner i m setup peer_eps serving_eps now =
     map_option (\<lambda>s. \<lparr>sv_local_sn_id = i, sv_service = s, sv_membership = m, sv_has_setup = setup,
       sv_owner_peer_endpoints = peer_eps, sv_serving_endpoints = serving_eps, sv_client = None, sv_serving_listener = False,
       sv_running = False, sv_control_task = False, sv_started = False, sv_stopped = False\<rparr>) (owner_service_new i m now)"

definition owner_server_new ::
    "p2p_id \<Rightarrow> endpoint list \<Rightarrow> endpoint list \<Rightarrow> owner_membership \<Rightarrow> timestamp \<Rightarrow> owner_server option p2p_result" where
  "owner_server_new i peer_eps serving_eps m now =
     (if peer_eps = [] then Inl InvalidParam else if serving_eps = [] then Inl InvalidParam
      else Inr (owner_server_new_inner i m True peer_eps serving_eps now))"

definition owner_server_new_detached :: "p2p_id \<Rightarrow> owner_membership \<Rightarrow> timestamp \<Rightarrow> owner_server option" where
  "owner_server_new_detached i m now = owner_server_new_inner i m False [] [] now"

definition start_owner_control_loop :: "bool \<Rightarrow> owner_server \<Rightarrow> owner_server \<times> unit p2p_result" where
  "start_owner_control_loop spawns s =
     (if sv_control_task s then (s, Inr ())
      else let s1 = s\<lparr>sv_stopped := False\<rparr>
           in if spawns then (s1\<lparr>sv_control_task := True\<rparr>, Inr ()) else (s1, Inl Failed))"

definition stop_owner_control_loop :: "owner_server \<Rightarrow> owner_server" where
  "stop_owner_control_loop s = s\<lparr>sv_started := False, sv_stopped := True, sv_control_task := False\<rparr>"

text \<open>What can fail while the server is brought up, in this order.\<close>

record start_outcomes =
  so_networks :: "unit p2p_result"
  so_peer_transport :: "peer_control_client p2p_result"
  so_serving_listener :: "unit p2p_result"
  so_listen :: "unit p2p_result"
  so_spawns :: bool

definition start_inner :: "start_outcomes \<Rightarrow> owner_server \<Rightarrow> owner_server \<times> unit p2p_result" where
  "start_inner o' s =
     (if \<not> sv_has_setup s then (s, Inl InvalidParam)
      else if sv_owner_peer_endpoints s = [] then (s, Inl InvalidParam)
      else if sv_serving_endpoints s = [] then (s, Inl InvalidParam)
      else (case so_networks o' of
              Inl e \<Rightarrow> (s, Inl e)
            | Inr _ \<Rightarrow>
                (case so_peer_transport o' of
                   Inl e \<Rightarrow> (s, Inl e)
                 | Inr cl \<Rightarrow>
                     let s1 = s\<lparr>sv_client := Some cl\<rparr>
                     in case so_serving_listener o' of
                          Inl e \<Rightarrow> (s1, Inl e)
                        | Inr _ \<Rightarrow>
                            let s2 = s1\<lparr>sv_serving_listener := True\<rparr>
                            in case so_listen o' of
                                 Inl e \<Rightarrow> (s2, Inl e)
                               | Inr _ \<Rightarrow> start_owner_control_loop (so_spawns o') (s2\<lparr>sv_running := True\<rparr>))))"

definition owner_server_start :: "start_outcomes \<Rightarrow> owner_server \<Rightarrow> owner_server \<times> unit p2p_result" where
  "owner_server_start o' s =
     (if sv_started s then (s, Inr ())
      else (case start_inner o' (s\<lparr>sv_started := True\<rparr>) of
              (s1, Inl e) \<Rightarrow> (stop_owner_control_loop (s1\<lparr>sv_started := False\<rparr>), Inl e)
            | (s1, Inr _) \<Rightarrow> (s1, Inr ())))"

text \<open>One round of \<open>run_owner_control_loop\<close>, and whether the loop goes on; the errors are logged, a panic ends it.\<close>

definition goes_on :: "owner_server \<Rightarrow> owner_service \<times> 'r outcome \<Rightarrow> owner_server \<times> bool" where
  "goes_on s x = (s\<lparr>sv_service := fst x\<rparr>, case snd x of Panicked \<Rightarrow> False | Returned _ \<Rightarrow> True)"

definition control_round :: "timestamp \<Rightarrow> owner_server \<Rightarrow> owner_server \<times> bool" where
  "control_round now s =
     (if sv_stopped s then (s, False)
      else let n = os_node (sv_service s); cl = sv_client s
           in if role n = Leader then goes_on s (on_node (send_heartbeat cl now) (sv_service s))
              else if leader_id n = None then goes_on s (on_node (start_election cl now) (sv_service s))
              else goes_on s (on_node (tick cl now) (sv_service s)))"

text \<open>\<open>InterSnPeer for OwnerDirectoryServer\<close>.\<close>

definition owner_server_peer :: "owner_env \<Rightarrow> timestamp \<Rightarrow> peer_control_client option \<Rightarrow> p2p_id \<Rightarrow> owner_service inter_sn_peer" where
  "owner_server_peer env now client i = (default_peer (Some i))\<lparr>
     peer_publish_lease := \<lambda>sn l s. apsnd Returned (publish_lease_from_sn env now sn l s),
     peer_heartbeat := \<lambda>sn m s. apsnd Returned (heartbeat_from_sn env now sn m s),
     peer_owner_vote := \<lambda>sn q s. apsnd (Returned \<circ> Inr) (receive_owner_vote now sn q s),
     peer_owner_control_heartbeat := \<lambda>sn q s. apsnd (Returned \<circ> Inr) (receive_owner_control_heartbeat now sn q s),
     peer_owner_session_replication := \<lambda>sn q s. apsnd (Returned \<circ> Inr) (receive_owner_session_replication now sn q s),
     peer_owner_session_forward := \<lambda>sn q s.
       apsnd (\<lambda>r. case r of None \<Rightarrow> Panicked | Some x \<Rightarrow> Returned (Inr x)) (receive_owner_session_forward client sn q s),
     peer_query_leases := \<lambda>sn p s. apsnd Returned (query_leases_from_sn env now sn p s)\<rparr>"

subsection \<open>Commands of serving SNs\<close>

datatype owner_serving_code = ServingPublishLease | ServingQueryLease

fun serving_code_u8 :: "owner_serving_code \<Rightarrow> u8" where
  "serving_code_u8 ServingPublishLease = 0x90"
| "serving_code_u8 ServingQueryLease = 0x91"

definition serving_code_try_from :: "u8 \<Rightarrow> owner_serving_code p2p_result" where
  "serving_code_try_from v = (if v = 0x90 then Inr ServingPublishLease else if v = 0x91 then Inr ServingQueryLease else Inl InvalidParam)"

definition serving_code_encode :: "owner_serving_code \<Rightarrow> u8 list \<Rightarrow> codec_error + (u8 list \<times> u8 list)" where
  "serving_code_encode c buf = (if buf = [] then Inl CodecOutOfLimit else Inr ([serving_code_u8 c], tl buf))"

definition serving_code_decode :: "u8 list \<Rightarrow> codec_error + (owner_serving_code \<times> u8 list)" where
  "serving_code_decode buf =
     (case buf of
        [] \<Rightarrow> Inl CodecOutOfLimit
      | b # rest \<Rightarrow> (case serving_code_try_from b of Inl _ \<Rightarrow> Inl CodecFailed | Inr c \<Rightarrow> Inr (c, rest)))"

datatype owner_serving_response = ServingPublished bool | ServingLeases "sn_publish_lease list" | ServingError p2p_error_code

record 'w serving_codec =
  enc_lease :: "sn_publish_lease \<Rightarrow> 'w option"
  dec_lease :: "'w \<Rightarrow> codec_error + sn_publish_lease"
  enc_query :: "p2p_id \<Rightarrow> 'w option"
  dec_query :: "'w \<Rightarrow> codec_error + p2p_id"
  enc_serving_response :: "owner_serving_response \<Rightarrow> 'w option"
  dec_serving_response :: "'w \<Rightarrow> codec_error + owner_serving_response"

definition dispatch_owner_serving_cmd ::
    "'w serving_codec \<Rightarrow> owner_env \<Rightarrow> timestamp \<Rightarrow> p2p_id \<Rightarrow> owner_serving_code \<Rightarrow> 'w option \<Rightarrow> owner_service \<Rightarrow>
     owner_service \<times> owner_serving_response" where
  "dispatch_owner_serving_cmd cd env now sn code body s =
     (case body of
        None \<Rightarrow> (s, ServingError Failed)
      | Some bytes \<Rightarrow>
          (case code of
             ServingPublishLease \<Rightarrow>
               (case dec_lease cd bytes of
                  Inl _ \<Rightarrow> (s, ServingError RawCodecError)
                | Inr l \<Rightarrow> (case publish_lease_from_serving_sn env now sn (lease_of_publish l) s of
                              (s', Inr ok) \<Rightarrow> (s', ServingPublished ok) | (s', Inl e) \<Rightarrow> (s', ServingError e)))
           | ServingQueryLease \<Rightarrow>
               (case dec_query cd bytes of
                  Inl _ \<Rightarrow> (s, ServingError RawCodecError)
                | Inr p \<Rightarrow> (case query_leases_from_serving_sn env now sn p s of
                              (s', Inr ls) \<Rightarrow> (s', ServingLeases (map publish_of_lease ls)) | (s', Inl e) \<Rightarrow> (s', ServingError e)))))"

definition handle_owner_serving_cmd ::
    "'w serving_codec \<Rightarrow> owner_env \<Rightarrow> timestamp \<Rightarrow> p2p_id \<Rightarrow> owner_serving_code \<Rightarrow> 'w option \<Rightarrow> owner_service \<Rightarrow>
     owner_service \<times> (cmd_error + 'w)" where
  "handle_owner_serving_cmd cd env now sn code body s =
     (let (s', resp) = dispatch_owner_serving_cmd cd env now sn code body s
      in (s', case enc_serving_response cd resp of None \<Rightarrow> Inl CmdFailed | Some b \<Rightarrow> Inr b))"

subsection \<open>The client of a serving SN\<close>

text \<open>\<open>dc_clients\<close>: the owners there is a command client for, when there is a connector; \<open>send\<close>: what comes back for
  a command to an owner, by the state of the owners.\<close>

record directory_client =
  dc_directory :: sn_directory
  dc_clients :: "p2p_id list option"

definition directory_client_new :: "owner_membership \<Rightarrow> bool \<Rightarrow> timestamp \<Rightarrow> directory_client option" where
  "directory_client_new m connector now =
     map_option (\<lambda>d. \<lparr>dc_directory = d, dc_clients = (if connector then Some (map fst (owner_targets m)) else None)\<rparr>)
       (sn_directory_new (Some m) now)"

type_synonym ('w, 's) serving_send = "p2p_id \<Rightarrow> owner_serving_code \<Rightarrow> 'w \<Rightarrow> 's \<Rightarrow> 's \<times> (cmd_error + 'w)"

definition send_owner_serving_request ::
    "'w serving_codec \<Rightarrow> ('w, 's) serving_send \<Rightarrow> p2p_id \<Rightarrow> owner_serving_code \<Rightarrow> 'w \<Rightarrow> 's \<Rightarrow> 's \<times> owner_serving_response p2p_result" where
  "send_owner_serving_request cd send owner code body w =
     (case send owner code body w of
        (w', Inl _) \<Rightarrow> (w', Inl Failed)
      | (w', Inr b) \<Rightarrow> (w', case dec_serving_response cd b of Inl _ \<Rightarrow> Inl RawCodecError | Inr r \<Rightarrow> Inr r))"

definition send_owner_serving_publish ::
    "'w serving_codec \<Rightarrow> ('w, 's) serving_send \<Rightarrow> p2p_id \<Rightarrow> serving_lease \<Rightarrow> 's \<Rightarrow> 's \<times> bool p2p_result" where
  "send_owner_serving_publish cd send owner l w =
     (case enc_lease cd (publish_of_lease l) of
        None \<Rightarrow> (w, Inl RawCodecError)
      | Some body \<Rightarrow>
          (case send_owner_serving_request cd send owner ServingPublishLease body w of
             (w', Inl e) \<Rightarrow> (w', Inl e)
           | (w', Inr (ServingPublished ok)) \<Rightarrow> (w', Inr ok)
           | (w', Inr (ServingError e)) \<Rightarrow> (w', Inl e)
           | (w', Inr _) \<Rightarrow> (w', Inl InvalidData)))"

definition send_owner_serving_query ::
    "'w serving_codec \<Rightarrow> ('w, 's) serving_send \<Rightarrow> p2p_id \<Rightarrow> p2p_id \<Rightarrow> 's \<Rightarrow> 's \<times> serving_lease list p2p_result" where
  "send_owner_serving_query cd send owner p w =
     (case enc_query cd p of
        None \<Rightarrow> (w, Inl RawCodecError)
      | Some body \<Rightarrow>
          (case send_owner_serving_request cd send owner ServingQueryLease body w of
             (w', Inl e) \<Rightarrow> (w', Inl e)
           | (w', Inr (ServingLeases ls)) \<Rightarrow> (w', Inr (map lease_of_publish ls))
           | (w', Inr (ServingError e)) \<Rightarrow> (w', Inl e)
           | (w', Inr _) \<Rightarrow> (w', Inl InvalidData)))"

definition publish_to_owner ::
    "'w serving_codec \<Rightarrow> ('w, 's) serving_send \<Rightarrow> directory_client \<Rightarrow> p2p_id \<Rightarrow> serving_lease \<Rightarrow> 's \<Rightarrow> 's \<times> bool p2p_result" where
  "publish_to_owner cd send c owner l w =
     (case dc_clients c of
        None \<Rightarrow> (w, Inl NotFound)
      | Some cs \<Rightarrow> if owner \<in> set cs then send_owner_serving_publish cd send owner l w else (w, Inl NotFound))"

definition query_owner ::
    "'w serving_codec \<Rightarrow> ('w, 's) serving_send \<Rightarrow> directory_client \<Rightarrow> p2p_id \<Rightarrow> p2p_id \<Rightarrow> 's \<Rightarrow> 's \<times> serving_lease list p2p_result" where
  "query_owner cd send c owner p w =
     (case dc_clients c of
        None \<Rightarrow> (w, Inl NotFound)
      | Some cs \<Rightarrow> if owner \<in> set cs then send_owner_serving_query cd send owner p w else (w, Inl NotFound))"

definition client_refresh :: "p2p_id \<Rightarrow> timestamp \<Rightarrow> directory_client \<Rightarrow> directory_client" where
  "client_refresh i now c = c\<lparr>dc_directory := fst (refresh_owner_member i now (dc_directory c))\<rparr>"

text \<open>The loops over the owners, at one time.\<close>

fun publish_loop ::
    "'w serving_codec \<Rightarrow> ('w, 's) serving_send \<Rightarrow> timestamp \<Rightarrow> serving_lease \<Rightarrow> p2p_id list \<Rightarrow> bool \<Rightarrow> directory_client \<times> 's \<Rightarrow>
     (directory_client \<times> 's) \<times> bool" where
  "publish_loop cd send now l [] accepted x = (x, accepted)"
| "publish_loop cd send now l (owner # owners) accepted (c, w) =
     (case publish_to_owner cd send c owner l w of
        (w', Inl _) \<Rightarrow> publish_loop cd send now l owners accepted (c, w')
      | (w', Inr ok) \<Rightarrow> publish_loop cd send now l owners (accepted \<or> ok) (client_refresh owner now c, w'))"

definition client_publish ::
    "'w serving_codec \<Rightarrow> ('w, 's) serving_send \<Rightarrow> (p2p_id \<Rightarrow> p2p_id \<Rightarrow> u64) \<Rightarrow> timestamp \<Rightarrow> p2p_id \<Rightarrow> p2p_id \<Rightarrow> u64 \<Rightarrow> directory_client \<times> 's \<Rightarrow>
     (directory_client \<times> 's) \<times> unit p2p_result" where
  "client_publish cd send score now local p sequence x =
     (let d = dc_directory (fst x); l = new_lease d p local sequence now;
          (x', accepted) = publish_loop cd send now l (dir_owner_set score d p local now) False x
      in (x', if accepted then Inr () else Inl NotFound))"

fun query_owners ::
    "'w serving_codec \<Rightarrow> ('w, 's) serving_send \<Rightarrow> timestamp \<Rightarrow> p2p_id \<Rightarrow> p2p_id list \<Rightarrow> serving_lease list \<Rightarrow> directory_client \<times> 's \<Rightarrow>
     (directory_client \<times> 's) \<times> serving_lease list" where
  "query_owners cd send now p [] ls x = (x, ls)"
| "query_owners cd send now p (owner # owners) ls (c, w) =
     (case query_owner cd send c owner p w of
        (w', Inl _) \<Rightarrow> query_owners cd send now p owners ls (c, w')
      | (w', Inr found) \<Rightarrow> query_owners cd send now p owners (ls @ found) (client_refresh owner now c, w'))"

definition lease_cmp :: "serving_lease \<Rightarrow> serving_lease \<Rightarrow> ordering" where
  "lease_cmp l r = then_with (cmp_ord (lease_sequence r) (lease_sequence l)) (cmp_ord (lease_serving_sn_id l) (lease_serving_sn_id r))"

definition merge_leases :: "serving_lease list \<Rightarrow> serving_lease list" where
  "merge_leases ls = dedup_by (\<lambda>l r. lease_serving_sn_id l = lease_serving_sn_id r) (sort_by lease_cmp ls)"

definition client_query ::
    "'w serving_codec \<Rightarrow> ('w, 's) serving_send \<Rightarrow> (p2p_id \<Rightarrow> p2p_id \<Rightarrow> u64) \<Rightarrow> timestamp \<Rightarrow> p2p_id \<Rightarrow> p2p_id \<Rightarrow> directory_client \<times> 's \<Rightarrow>
     (directory_client \<times> 's) \<times> serving_lease list p2p_result" where
  "client_query cd send score now local p x =
     (let d = dc_directory (fst x); (x', ls) = query_owners cd send now p (dir_owner_set score d p local now) [] x
      in (x', Inr (merge_leases ls)))"

text \<open>\<open>NoopOwnerDirectoryClient\<close>.\<close>

definition noop_publish :: "unit p2p_result" where "noop_publish = Inr ()"
definition noop_query :: "serving_lease list p2p_result" where "noop_query = Inr []"

section \<open>Serving SNs and owners\<close>

abbreviation dstore :: "owner_service \<Rightarrow> directory_store" where
  "dstore s \<equiv> dir_store (os_directory s)"

text \<open>All owners, each reached by the serving SN \<open>sn\<close> at time \<open>now\<close>.\<close>

definition owners_send ::
    "'w serving_codec \<Rightarrow> owner_env \<Rightarrow> timestamp \<Rightarrow> p2p_id \<Rightarrow> ('w, p2p_id \<Rightarrow> owner_service) serving_send" where
  "owners_send cd env now sn owner code body w =
     (let (s', r) = handle_owner_serving_cmd cd env now sn code (Some body) (w owner) in (w(owner := s'), r))"

definition serving_lossless :: "'w serving_codec \<Rightarrow> bool" where
  "serving_lossless cd \<longleftrightarrow> (\<forall>l. \<exists>b. enc_lease cd l = Some b \<and> dec_lease cd b = Inr l) \<and>
     (\<forall>p. \<exists>b. enc_query cd p = Some b \<and> dec_query cd b = Inr p) \<and>
     (\<forall>r. \<exists>b. enc_serving_response cd r = Some b \<and> dec_serving_response cd b = Inr r)"

definition trusts :: "owner_env \<Rightarrow> p2p_id \<Rightarrow> inter_sn_command \<Rightarrow> p2p_id \<Rightarrow> bool" where
  "trusts env sn cmd p \<longleftrightarrow> owner_validate_connection env sn = Inr () \<and> owner_validate_command env sn cmd p = Inr ()"

lemma request_to_owner:
  assumes "serving_lossless cd"
  shows "send_owner_serving_request cd (owners_send cd env now sn) owner code body w =
    (case dispatch_owner_serving_cmd cd env now sn code (Some body) (w owner) of (s', r) \<Rightarrow> (w(owner := s'), Inr r))"
proof -
  obtain s' r where d: "dispatch_owner_serving_cmd cd env now sn code (Some body) (w owner) = (s', r)" by fastforce
  obtain b where "enc_serving_response cd r = Some b" "dec_serving_response cd b = Inr r"
    using assms unfolding serving_lossless_def by blast
  with d show ?thesis by (simp add: send_owner_serving_request_def owners_send_def handle_owner_serving_cmd_def)
qed

lemma publish_reaches_owner:
  assumes "serving_lossless cd"
  shows "send_owner_serving_publish cd (owners_send cd env now sn) owner l w =
    (case publish_lease_from_serving_sn env now sn l (w owner) of (s', r) \<Rightarrow> (w(owner := s'), r))"
proof -
  obtain b where b: "enc_lease cd (publish_of_lease l) = Some b" "dec_lease cd b = Inr (publish_of_lease l)"
    using assms unfolding serving_lossless_def by blast
  obtain s' r where p: "publish_lease_from_serving_sn env now sn l (w owner) = (s', r)" by fastforce
  show ?thesis
    by (cases r) (simp_all add: send_owner_serving_publish_def request_to_owner [OF assms] dispatch_owner_serving_cmd_def b p)
qed

lemma query_reaches_owner:
  assumes "serving_lossless cd"
  shows "send_owner_serving_query cd (owners_send cd env now sn) owner p w =
    (case query_leases_from_serving_sn env now sn p (w owner) of (s', r) \<Rightarrow> (w(owner := s'), r))"
proof -
  obtain b where b: "enc_query cd p = Some b" "dec_query cd b = Inr p"
    using assms unfolding serving_lossless_def by blast
  obtain s' r where q: "query_leases_from_serving_sn env now sn p (w owner) = (s', r)" by fastforce
  show ?thesis
    by (cases r) (simp_all add: send_owner_serving_query_def request_to_owner [OF assms] dispatch_owner_serving_cmd_def b q comp_def)
qed

lemma owner_publish:
  "dstore (fst (on_directory (publish_serving_lease l now) s)) = fst (store_put_route (from_lease l) now (dstore s)) \<and>
   snd (on_directory (publish_serving_lease l now) s) = snd (store_put_route (from_lease l) now (dstore s))"
  by (simp add: on_directory_def publish_serving_lease_def put_lease_route_def Let_def case_prod_unfold)

lemma owner_query:
  "dstore (fst (os_query_serving_leases now p s)) = fst (store_query p now (dstore s)) \<and>
   snd (os_query_serving_leases now p s) = snd (store_query p now (dstore s))"
  by (simp add: os_query_serving_leases_def on_directory_def query_serving_leases_def dir_query_def Let_def case_prod_unfold)


section \<open>From one serving SN to another\<close>

text \<open>What an owner that will accept the lease has, and what it has once it did.\<close>

definition ready :: "serving_lease \<Rightarrow> timestamp \<Rightarrow> timestamp \<Rightarrow> owner_service \<Rightarrow> bool" where
  "ready l now now' s \<longleftrightarrow> store_inv (dstore s) \<and>
     is_serving_online (store_control_plane (dstore s)) (lease_serving_sn_id l) now \<and>
     is_serving_online (store_control_plane (dstore s)) (lease_serving_sn_id l) now' \<and>
     (case route_of (store_routes (dstore s)) (lease_peer_id l) (lease_serving_sn_id l) of
        Some old \<Rightarrow> route_sequence old \<le> lease_sequence l | None \<Rightarrow> True)"

definition stored :: "serving_lease \<Rightarrow> owner_service \<Rightarrow> bool" where
  "stored l s \<longleftrightarrow> route_of (store_routes (dstore s)) (lease_peer_id l) (lease_serving_sn_id l) = Some (from_lease l)"

lemma put_route_ready:
  assumes "ready l now now' s"
  shows "snd (store_put_route (from_lease l) now (dstore s))"
    and "store_control_plane (fst (store_put_route (from_lease l) now (dstore s))) = store_control_plane (dstore s)"
    and "route_of (store_routes (fst (store_put_route (from_lease l) now (dstore s)))) (lease_peer_id l) (lease_serving_sn_id l) = Some (from_lease l)"
  using assms routes_put_accepts [of "from_lease l" "store_routes (dstore s)"]
  by (auto simp: store_put_route_def case_prod_unfold Let_def ready_def route_of_put from_lease_def split: option.splits)

lemma owner_accepts:
  assumes "ready l now now' s" and "trusts env (lease_serving_sn_id l) InterPublishLease (lease_peer_id l)"
  shows "\<exists>s'. publish_lease_from_serving_sn env now (lease_serving_sn_id l) l s = (s', Inr True) \<and> ready l now now' s' \<and> stored l s'"
proof -
  let ?s' = "fst (on_directory (publish_serving_lease l now) s)"
  note pub = owner_publish [of l now s]
  have "publish_lease_from_serving_sn env now (lease_serving_sn_id l) l s = (?s', Inr True)"
    using assms(2) put_route_ready(1) [OF assms(1)] pub by (simp add: publish_lease_from_serving_sn_def trusts_def case_prod_unfold Let_def)
  moreover have "stored l ?s'" using put_route_ready(3) [OF assms(1)] pub by (simp add: stored_def)
  moreover have "ready l now now' ?s'"
    using assms(1) put_route_ready(2,3) [OF assms(1)] pub store_inv_put_route [of "dstore s" "from_lease l" now]
    by (simp add: ready_def from_lease_def)
  ultimately show ?thesis by blast
qed

lemma owner_finds:
  assumes "ready l now now' s" and "stored l s" and "trusts env b InterQueryLease (lease_peer_id l)"
  shows "\<exists>s' ls. query_leases_from_serving_sn env now' b (lease_peer_id l) s = (s', Inr ls) \<and> ready l now now' s' \<and> stored l s' \<and>
    (\<exists>x \<in> set ls. lease_serving_sn_id x = lease_serving_sn_id l \<and> lease_sequence x = lease_sequence l)"
proof -
  let ?p = "lease_peer_id l" and ?a = "lease_serving_sn_id l" and ?s' = "fst (os_query_serving_leases now' (lease_peer_id l) s)"
  have ok: "routes_ok (store_routes (dstore s))" using assms(1) by (simp add: ready_def store_inv_def)
  have st: "dstore ?s' = (dstore s)\<lparr>store_routes := fst (routes_query ?p (store_control_plane (dstore s)) now' (store_routes (dstore s)))\<rparr>"
    using owner_query [of now' ?p s] by (simp add: store_query_def store_query_routes_alt)
  have rt: "route_of (store_routes (dstore ?s')) ?p ?a = Some (from_lease l)"
    using assms(1,2) by (simp add: st route_of_query [OF ok] stored_def ready_def)
  have "store_inv (dstore ?s')"
    using assms(1) store_inv_query [of "dstore s" ?p now'] owner_query [of now' ?p s] by (simp add: ready_def)
  then have "ready l now now' ?s'" using assms(1) rt by (simp add: ready_def from_lease_def st)
  moreover have "stored l ?s'" using rt by (simp add: stored_def)
  moreover obtain e where "serving_online_expires_at (store_control_plane (dstore s)) ?a now' = Some e"
    using assms(1) expires_at_online [of "store_control_plane (dstore s)" ?a now'] by (auto simp: ready_def)
  then have "to_lease (from_lease l) e \<in> set (snd (store_query ?p now' (dstore s)))"
    using assms(2) unfolding set_store_query [OF ok] by (intro exI [of _ "from_lease l"]) (simp add: from_lease_def stored_def)
  moreover have "query_leases_from_serving_sn env now' b ?p s = (?s', Inr (snd (store_query ?p now' (dstore s))))"
    using assms(3) owner_query [of now' ?p s] by (simp add: query_leases_from_serving_sn_def trusts_def case_prod_unfold Let_def)
  moreover have "lease_serving_sn_id (to_lease (from_lease l) e) = ?a \<and> lease_sequence (to_lease (from_lease l) e) = lease_sequence l"
    by (simp add: to_lease_def from_lease_def)
  ultimately show ?thesis by blast
qed

lemma refresh_clients [simp]: "dc_clients (client_refresh i now c) = dc_clients c"
  by (simp add: client_refresh_def)

lemma publish_loop_stores:
  assumes "serving_lossless cd" and "trusts env (lease_serving_sn_id l) InterPublishLease (lease_peer_id l)"
    and "dc_clients c = Some cs" and "owner \<in> set cs"
    and "owner \<in> set owners \<or> acc \<and> stored l (w owner)" and "ready l now now' (w owner)"
  shows "\<exists>c' w'. publish_loop cd (owners_send cd env now (lease_serving_sn_id l)) now l owners acc (c, w) = ((c', w'), True) \<and>
    ready l now now' (w' owner) \<and> stored l (w' owner)"
  using assms(3,5,6)
proof (induction owners arbitrary: acc c w)
  case (Cons x owners)
  let ?send = "owners_send cd env now (lease_serving_sn_id l)"
  obtain w1 r where p: "publish_to_owner cd ?send c x l w = (w1, r)" by fastforce
  have own: "w1 owner = w owner" if "x \<noteq> owner"
    using p that by (auto simp: publish_to_owner_def publish_reaches_owner [OF assms(1)] split: option.splits if_splits prod.splits)
  have new: "r = Inr True \<and> ready l now now' (w1 owner) \<and> stored l (w1 owner)" if "x = owner"
    using owner_accepts [OF Cons.prems(3) assms(2)] p Cons.prems(1) assms(4) that
    by (auto simp: publish_to_owner_def publish_reaches_owner [OF assms(1)])
  show ?case
  proof (cases r)
    case (Inl e)
    with new own Cons.prems have "owner \<in> set owners \<or> acc \<and> stored l (w1 owner)" "ready l now now' (w1 owner)" by (cases "x = owner"; auto)+
    with Cons.IH [OF Cons.prems(1), of acc w1] show ?thesis by (simp add: p Inl)
  next
    case (Inr ok)
    with new own Cons.prems have "owner \<in> set owners \<or> (acc \<or> ok) \<and> stored l (w1 owner)" "ready l now now' (w1 owner)" by (cases "x = owner"; auto)+
    with Cons.IH [of "client_refresh x now c" "acc \<or> ok" w1] Cons.prems(1) show ?thesis by (simp add: p Inr)
  qed
qed auto

lemma query_owners_finds:
  assumes "serving_lossless cd" and "trusts env b InterQueryLease (lease_peer_id l)" and "dc_clients c = Some cs" and "owner \<in> set cs"
    and "owner \<in> set owners \<or> lease_serving_sn_id l \<in> lease_serving_sn_id ` set ls"
    and "ready l now now' (w owner) \<and> stored l (w owner)"
  shows "\<exists>x' ls'. query_owners cd (owners_send cd env now' b) now' (lease_peer_id l) owners ls (c, w) = (x', ls') \<and>
    lease_serving_sn_id l \<in> lease_serving_sn_id ` set ls'"
  using assms(3,5,6)
proof (induction owners arbitrary: ls c w)
  case (Cons x owners)
  let ?send = "owners_send cd env now' b"
  obtain w1 r where p: "query_owner cd ?send c x (lease_peer_id l) w = (w1, r)" by fastforce
  have own: "w1 owner = w owner" if "x \<noteq> owner"
    using p that by (auto simp: query_owner_def query_reaches_owner [OF assms(1)] split: option.splits if_splits prod.splits)
  have new: "\<exists>found. r = Inr found \<and> lease_serving_sn_id l \<in> lease_serving_sn_id ` set found \<and> ready l now now' (w1 owner) \<and> stored l (w1 owner)"
    if "x = owner"
    using owner_finds [OF _ _ assms(2)] Cons.prems(3) p Cons.prems(1) assms(4) that
    by (auto simp: query_owner_def query_reaches_owner [OF assms(1)]) (metis (no_types, lifting) fun_upd_same image_eqI prod.inject old.prod.case)
  show ?case
  proof (cases r)
    case (Inl e)
    with new own Cons.prems have "owner \<in> set owners \<or> lease_serving_sn_id l \<in> lease_serving_sn_id ` set ls"
      "ready l now now' (w1 owner) \<and> stored l (w1 owner)" by (cases "x = owner"; auto)+
    with Cons.IH [OF Cons.prems(1), of ls w1] show ?thesis by (simp add: p Inl)
  next
    case (Inr found)
    with new own Cons.prems have "owner \<in> set owners \<or> lease_serving_sn_id l \<in> lease_serving_sn_id ` set (ls @ found)"
      "ready l now now' (w1 owner) \<and> stored l (w1 owner)" by (cases "x = owner"; auto)+
    with Cons.IH [of "client_refresh x now' c" "ls @ found" w1] Cons.prems(1) show ?thesis by (simp add: p Inr)
  qed
qed auto

lemma dedup_by_keys: "f ` set (dedup_by (\<lambda>a b. f a = f b) xs) = f ` set xs"
  by (induction "\<lambda>a b. f a = f b" xs rule: dedup_by.induct) auto

interpretation lc: total_cmp lease_cmp
  by unfold_locales (auto simp: lease_cmp_def then_with_iff not_less)

lemma merge_keeps: "lease_serving_sn_id ` set (merge_leases ls) = lease_serving_sn_id ` set ls"
  by (simp add: merge_leases_def dedup_by_keys lc.set_sort_by)

lemma owner_set_members:
  assumes "dir_resolver d = Some m" and "x \<in> set (dir_owner_set score d p local now)"
  shows "x \<in> sn_id ` set (members m) \<and> (x = local \<or> health_is_fresh (dir_member_health d) x now)"
  using assms by (auto simp: dir_owner_set_def owner_set_at_def static_owner_set_def hrw.set_sort_by dest!: in_set_takeD)


section \<open>Owners that are not heard of\<close>

text \<open>a serving SN that has not heard of any owner of its group for the health time of a member (a minute at
  most) never speaks to one again: it drops them all from every owner set, so it asks none, and only an answer makes
  an owner healthy. Every later publication fails and every later query finds nothing.\<close>

theorem silent_owners_lost_for_good:
  assumes "dir_resolver (dc_directory c) = Some m" and "local \<notin> sn_id ` set (members m)"
    and "list_all (\<lambda>i. \<not> health_is_fresh (dir_member_health (dc_directory c)) (sn_id i) now) (members m)" and "now \<le> t"
  shows "client_publish cd send score t local p sequence (c, w) = ((c, w), Inl NotFound) \<and>
         client_query cd send score t local p (c, w) = ((c, w), Inr [])"
proof -
  have "\<not> health_is_fresh (dir_member_health (dc_directory c)) (sn_id i) t" if "i \<in> set (members m)" for i
    using assms(3,4) that by (auto simp: list_all_iff health_is_fresh_def split: option.splits)
  then have "dir_owner_set score (dc_directory c) p local t = []"
    using owner_set_members [OF assms(1), of _ score p local t] assms(2) by (metis (no_types, lifting) imageE last_in_set)
  then show ?thesis by (simp add: client_publish_def client_query_def merge_leases_def Let_def sort_by_def)
qed

text \<open>Owners that know different leases of one serving SN make the merged answer name it twice, when a lease of
  another SN comes between them: \<open>dedup_by\<close> compares neighbours, and the order is by sequence.\<close>

definition lease_of :: "u8 \<Rightarrow> u64 \<Rightarrow> serving_lease" where
  "lease_of i n = \<lparr>lease_peer_id = P2pId [8], lease_serving_sn_id = P2pId [i], lease_sequence = n, lease_expires_at = 50\<rparr>"

theorem merged_leases_repeat:
  "merge_leases [lease_of 1 5, lease_of 2 4, lease_of 1 3] = [lease_of 1 5, lease_of 2 4, lease_of 1 3]"
  by (simp add: merge_leases_def lease_of_def sort_by_def lease_cmp_def then_with_def cmp_ord_def word_less_nat_alt)

section \<open>Starting the server\<close>

interpretation serving_code: raw_codec "\<lambda>c. [serving_code_u8 c]" serving_code_decode "\<lambda>_. True"
proof
  fix c rest
  show "serving_code_decode ([serving_code_u8 c] @ rest) = Inr (c, rest)"
    by (cases c) (simp_all add: serving_code_decode_def serving_code_try_from_def)
qed

text \<open>A start that fails leaves no control loop and can be repeated; one that succeeds leaves exactly one, and the
  client to the other owners is in place before the loop can ask for it.\<close>

theorem owner_server_start_cases:
  "case owner_server_start o' s of
     (s', Inl e) \<Rightarrow> \<not> sv_started s' \<and> sv_stopped s' \<and> \<not> sv_control_task s' \<and> \<not> snd (control_round now s')
   | (s', Inr _) \<Rightarrow> (if sv_started s then s' = s
                     else sv_started s' \<and> sv_control_task s' \<and> sv_client s' \<noteq> None \<and> sv_serving_listener s' \<and> sv_running s' \<and>
                          (if sv_control_task s then True else \<not> sv_stopped s'))"
  by (auto simp: owner_server_start_def start_inner_def start_owner_control_loop_def stop_owner_control_loop_def control_round_def Let_def
      split: sum.splits if_splits prod.splits)

section \<open>A sample directory\<close>

definition plain_serving_codec :: "(sn_publish_lease + p2p_id + owner_serving_response) serving_codec" where
  "plain_serving_codec = \<lparr>enc_lease = (\<lambda>l. Some (Inl l)), dec_lease = (\<lambda>x. case x of Inl l \<Rightarrow> Inr l | _ \<Rightarrow> Inl CodecFailed),
     enc_query = (\<lambda>p. Some (Inr (Inl p))), dec_query = (\<lambda>x. case x of Inr (Inl p) \<Rightarrow> Inr p | _ \<Rightarrow> Inl CodecFailed),
     enc_serving_response = (\<lambda>r. Some (Inr (Inr r))), dec_serving_response = (\<lambda>x. case x of Inr (Inr r) \<Rightarrow> Inr r | _ \<Rightarrow> Inl CodecFailed)\<rparr>"

lemma plain_serving_lossless: "serving_lossless plain_serving_codec"
  by (simp add: serving_lossless_def plain_serving_codec_def)

definition open_env :: owner_env where
  "open_env = \<lparr>oe_connection = \<lambda>_. Inr ValidateAccept, oe_command = \<lambda>_ _ _. Inr ValidateAccept\<rparr>"

lemma open_trusts: "trusts open_env sn cmd p"
  by (simp add: trusts_def owner_validate_connection_def owner_validate_command_def require_accept_def open_env_def)

definition sample_directory :: sn_directory where
  "sample_directory = \<lparr>dir_resolver = Some sample_membership,
     dir_member_health = health_with_members (members sample_membership) (from_secs 60) 3, dir_store = sample_store\<rparr>"

definition sample_dir_client :: directory_client where
  "sample_dir_client = \<lparr>dc_directory = sample_directory, dc_clients = Some [P2pId [1], P2pId [2], P2pId [3]]\<rparr>"

text \<open>An owner that knows SN 7 to be online until 50 and to serve peer 8.\<close>

definition sample_owner :: owner_service where
  "sample_owner = \<lparr>os_directory = sample_directory\<lparr>dir_store := fst (store_put_lease sample_lease 10 sample_store)\<rparr>, os_node = sample_node 1\<rparr>"

lemma sample_fresh_member: "i \<in> set (members sample_membership) \<Longrightarrow> t < 1000000 \<Longrightarrow>
    health_is_fresh (dir_member_health sample_directory) (sn_id i) t"
  by (auto simp: sample_directory_def sample_membership_def health_with_members_def refresh_at_def health_new_def health_is_fresh_def
      owner_member_new_def hm.get_insert hm_get_def hm_insert_def word_less_nat_alt time_simps as_micros_def from_secs_def)

lemma sample_owners: "t < 1000000 \<Longrightarrow> P2pId [3] \<in> set (dir_owner_set sample_score sample_directory (P2pId [8]) local t)"
proof -
  assume t: "t < 1000000"
  have "static_owner_set sample_score sample_membership (P2pId [8]) = [P2pId [3], P2pId [2]]"
    by (simp add: static_owner_set_def membership_eval score_cmp_def sample_score_def sort_by_def then_with_def cmp_ord_def word_less_nat_alt)
  moreover have "owner_member_new (P2pId [3]) \<in> set (members sample_membership)" by (simp add: sample_membership_def)
  from sample_fresh_member [OF this t] have "health_is_fresh (dir_member_health sample_directory) (P2pId [3]) t"
    by (simp add: owner_member_new_def)
  ultimately show ?thesis by (simp add: dir_owner_set_def owner_set_at_def sample_directory_def)
qed

lemma sample_owner_ready: "ready (new_lease sample_directory (P2pId [8]) (P2pId [7]) 4 20) 20 30 sample_owner"
proof -
  let ?st = "fst (store_put_lease sample_lease 10 sample_store)"
  have put: "store_put_lease sample_lease 10 sample_store = (?st, True)" using sample_put_ok by (metis prod.collapse)
  have inv: "store_inv ?st" using store_inv_put_lease [OF sample_store_inv] .
  then have ok: "routes_ok (store_routes ?st)" by (simp add: store_inv_def)
  have lp: "lease_peer_id sample_lease = P2pId [8]" "lease_expires_at sample_lease = 50" by (simp_all add: sample_lease_def)
  have found: "is_serving_online (store_control_plane ?st) (P2pId [7]) t \<and>
      route_of (store_routes ?st) (P2pId [8]) (P2pId [7]) = Some (from_lease sample_lease)" if t: "t < 50" for t
  proof -
    obtain e where "sample_lease\<lparr>lease_expires_at := e\<rparr> \<in> set (snd (store_query (P2pId [8]) t ?st))"
      using accepted_lease_kept [OF sample_store_inv put, of t] lp t by auto
    then obtain r where "route_of (store_routes ?st) (P2pId [8]) (route_serving_sn_id r) = Some r"
        "serving_online_expires_at (store_control_plane ?st) (route_serving_sn_id r) t = Some e"
        "sample_lease\<lparr>lease_expires_at := e\<rparr> = to_lease r e"
      unfolding set_store_query [OF ok] by auto
    then show ?thesis
      using expires_at_online [of "store_control_plane ?st" "P2pId [7]" t] by (cases r) (auto simp: sample_lease_def to_lease_def from_lease_def)
  qed
  then show ?thesis
    using inv found [of 20] found [of 30]
    by (simp add: ready_def sample_owner_def new_lease_def serving_lease_new_def from_lease_def sample_lease_def word_less_nat_alt word_le_nat_alt)
qed


theorem silent_owners_lost_for_good_witness:
  "client_publish plain_serving_codec (owners_send plain_serving_codec open_env 90000000 (P2pId [7])) sample_score 90000000 (P2pId [7]) (P2pId [8]) 4
     (sample_dir_client, \<lambda>_. sample_owner) = ((sample_dir_client, \<lambda>_. sample_owner), Inl NotFound)"
proof -
  have "list_all (\<lambda>i. \<not> health_is_fresh (dir_member_health (dc_directory sample_dir_client)) (sn_id i) 80000000) (members sample_membership)"
    by (simp add: sample_dir_client_def sample_directory_def sample_membership_def health_with_members_def refresh_at_def health_new_def
        health_is_fresh_def owner_member_new_def hm_get_def hm_insert_def word_less_nat_alt time_simps as_micros_def from_secs_def)
  note stale = this
  have res: "dir_resolver (dc_directory sample_dir_client) = Some sample_membership" by (simp add: sample_dir_client_def sample_directory_def)
  have other: "P2pId [7] \<notin> sn_id ` set (members sample_membership)" by (simp add: sample_membership_def owner_member_new_def)
  show ?thesis by (rule conjunct1 [OF silent_owners_lost_for_good [OF res other stale]]) (simp add: word_le_nat_alt)
qed

end
