(* ===== verification/NetManager.thy ===== *)
theory NetManager
  imports PnService SnClient
begin

text \<open>
  The manager of the networks (\<open>networks/net_manager.rs\<close>): which endpoints are listened on, with which endpoint outside
  and which mapped port, and to whom an incoming tunnel goes. A subscriber may be called while others register
  or leave, so the step after its answer is a function of its own. The networks, the validator and the
  subscribers are parameters.
\<close>

section \<open>Definitions\<close>

subsection \<open>Listening\<close>

definition take_mapping_port :: "(endpoint \<times> u16) list \<Rightarrow> endpoint \<Rightarrow> u16 option \<times> (endpoint \<times> u16) list" where
  "take_mapping_port pm src =
     (case find (\<lambda>i. endpoint_eq (fst (pm ! i)) src) [0..<length pm] of
        None \<Rightarrow> (None, pm)
      | Some i \<Rightarrow> (Some (snd (pm ! i)), take i pm @ drop (Suc i) pm))"

type_synonym listening = "endpoint \<times> endpoint option \<times> u16 option"

text \<open>The local and the outside endpoint at an index, and the index after them.\<close>

definition endpoint_pair_at :: "endpoint list \<Rightarrow> nat \<Rightarrow> (endpoint \<times> endpoint option) p2p_result \<times> nat" where
  "endpoint_pair_at eps i =
     (let ep = eps ! i
      in if is_mapped_wan ep
         then (if i + 1 = length eps then Inl InvalidParam
               else let l = eps ! (i + 1)
                    in if \<not> (is_same_ip_version l ep \<and> protocol l = protocol ep \<and> \<not> is_static_wan l) then Inl InvalidParam
                       else Inr (l, Some ep), i + 2)
         else (Inr (ep, None), i + 1))"

lemma endpoint_pair_at_next: "endpoint_pair_at eps i = (r, i') \<Longrightarrow> i < i'"
  by (auto simp: endpoint_pair_at_def Let_def split: if_splits)

text \<open>\<open>known\<close>: the protocols there is a network for; \<open>st\<close>: what starting a listener gives. What was started, and how
  it ended.\<close>

function listen_loop ::
    "(protocol \<Rightarrow> bool) \<Rightarrow> (listening \<Rightarrow> unit p2p_result) \<Rightarrow> endpoint list \<Rightarrow> nat \<Rightarrow> (endpoint \<times> u16) list \<Rightarrow> listening list \<Rightarrow>
     listening list \<times> unit p2p_result" where
  "listen_loop known st eps i pm acc =
     (if i < length eps
      then (case endpoint_pair_at eps i of
              (Inl e, _) \<Rightarrow> (acc, Inl e)
            | (Inr (l, out), i') \<Rightarrow>
                let (port, pm') = take_mapping_port pm (eps ! i)
                in if \<not> known (protocol l) then (acc, Inl NotFound)
                   else (case st (l, out, port) of
                           Inl e \<Rightarrow> (acc, Inl e)
                         | Inr _ \<Rightarrow> listen_loop known st eps i' pm' (acc @ [(l, out, port)])))
      else (acc, Inr ()))"
  by pat_completeness auto

termination
proof (relation "measure (\<lambda>(known, st, eps, i, pm, acc). length eps - i)", goal_cases)
  case (2 known st eps i pm acc x i' y l out z port pm' u)
  then have "i < i'" by (auto intro: endpoint_pair_at_next [OF sym])
  with 2(1) show ?case by simp
qed simp

declare listen_loop.simps [simp del]

subsection \<open>State\<close>

text \<open>A subscription has an owner, told apart from all others by its number, and is of the old kind, which answers
  whether it took the tunnel, or of the kind that answers with an acceptance.\<close>

datatype subscription_kind = Legacy | Acceptance

record net_manager =
  nm_protocols :: "protocol list"
  nm_listener_meta :: "(protocol, listener_info list) hmap"
  nm_subscriptions :: "(p2p_id, nat \<times> subscription_kind) hmap"
  nm_next_owner :: nat
  nm_listening :: bool

definition net_manager_new :: "protocol list \<Rightarrow> net_manager" where
  "net_manager_new ps = \<lparr>nm_protocols = remdups ps, nm_listener_meta = [], nm_subscriptions = [], nm_next_owner = 0, nm_listening = False\<rparr>"

definition get_network :: "net_manager \<Rightarrow> protocol \<Rightarrow> unit p2p_result" where
  "get_network m p = (if p \<in> set (nm_protocols m) then Inr () else Inl NotFound)"

text \<open>\<open>infos\<close>: what the network of a protocol listens on.\<close>

definition refresh_listener_meta :: "(protocol \<Rightarrow> listener_info list) \<Rightarrow> net_manager \<Rightarrow> net_manager" where
  "refresh_listener_meta infos m = m\<lparr>nm_listener_meta := map (\<lambda>p. (p, infos p)) (nm_protocols m)\<rparr>"

definition get_listener_info :: "net_manager \<Rightarrow> protocol \<Rightarrow> listener_info list" where
  "get_listener_info m p = (case hm_get (nm_listener_meta m) p of Some ls \<Rightarrow> ls | None \<Rightarrow> [])"

definition listener_info_entries :: "net_manager \<Rightarrow> (protocol \<times> listener_info list) list" where
  "listener_info_entries m = nm_listener_meta m"

definition net_manager_listen ::
    "(listening \<Rightarrow> unit p2p_result) \<Rightarrow> (protocol \<Rightarrow> listener_info list) \<Rightarrow> endpoint list \<Rightarrow> (endpoint \<times> u16) list option \<Rightarrow> net_manager \<Rightarrow>
     net_manager \<times> listening list \<times> unit p2p_result" where
  "net_manager_listen st infos eps mapping m =
     (if nm_listening m then (refresh_listener_meta infos m, [], Inr ())
      else if eps = [] then (m, [], Inl InvalidParam)
      else (case listen_loop (\<lambda>p. get_network m p = Inr ()) st eps 0 (case mapping of Some ps \<Rightarrow> ps | None \<Rightarrow> []) [] of
              (started, Inl e) \<Rightarrow> (m, started, Inl e)
            | (started, Inr _) \<Rightarrow> ((refresh_listener_meta infos m)\<lparr>nm_listening := True\<rparr>, started, Inr ())))"

subsection \<open>Subscribers\<close>

text \<open>The guard that is returned is the id and the number of the owner.\<close>

definition register_subscription ::
    "p2p_id \<Rightarrow> subscription_kind \<Rightarrow> net_manager \<Rightarrow> net_manager \<times> (p2p_id \<times> nat) p2p_result" where
  "register_subscription i k m =
     (if hm_get (nm_subscriptions m) i \<noteq> None then (m, Inl AlreadyExists)
      else let o' = nm_next_owner m
           in (m\<lparr>nm_subscriptions := hm_insert i (o', k) (nm_subscriptions m), nm_next_owner := Suc o'\<rparr>, Inr (i, o')))"

definition unregister_owned :: "p2p_id \<Rightarrow> nat \<Rightarrow> net_manager \<Rightarrow> net_manager" where
  "unregister_owned i o' m =
     (case hm_get (nm_subscriptions m) i of
        Some (cur, k) \<Rightarrow> if cur = o' then m\<lparr>nm_subscriptions := hm_remove i (nm_subscriptions m)\<rparr> else m
      | None \<Rightarrow> m)"

subsection \<open>Incoming tunnels\<close>

record validate_context =
  vx_local_id :: p2p_id
  vx_remote_id :: p2p_id
  vx_protocol :: protocol
  vx_tunnel_id :: tunnel_id
  vx_candidate_id :: candidate_id
  vx_is_reverse :: bool
  vx_local_ep :: "endpoint option"
  vx_remote_ep :: "endpoint option"

datatype acceptance = Accepted | Rejected

text \<open>What becomes of a tunnel: closed with an answer, or given to a subscriber whose answer is awaited.\<close>

datatype dispatch_next = Dropped | AskSubscriber p2p_id nat subscription_kind

definition publish_begin :: "p2p_id \<Rightarrow> net_manager \<Rightarrow> dispatch_next" where
  "publish_begin i m = (case hm_get (nm_subscriptions m) i of None \<Rightarrow> Dropped | Some (o', k) \<Rightarrow> AskSubscriber i o' k)"

text \<open>After the answer \<open>ok\<close>: the manager, the answer to the listener, and whether the tunnel is closed.\<close>

definition publish_finish :: "p2p_id \<Rightarrow> nat \<Rightarrow> subscription_kind \<Rightarrow> bool \<Rightarrow> net_manager \<Rightarrow> net_manager \<times> acceptance \<times> bool" where
  "publish_finish i o' k ok m =
     (let m1 = (if k = Legacy \<and> \<not> ok then unregister_owned i o' m else m);
          a = (if ok then Accepted else Rejected)
      in (m1, a, a = Rejected))"

definition dispatch_begin :: "(validate_context \<Rightarrow> validate_result p2p_result) \<Rightarrow> validate_context p2p_result \<Rightarrow> net_manager \<Rightarrow> dispatch_next" where
  "dispatch_begin validate t m =
     (case t of
        Inl _ \<Rightarrow> Dropped
      | Inr ctx \<Rightarrow> (case validate ctx of Inr ValidateAccept \<Rightarrow> publish_begin (vx_local_id ctx) m | _ \<Rightarrow> Dropped))"

text \<open>\<open>subscriber\<close>: what the owner of a subscription answers; \<open>during\<close>: what happens to the manager while it does.\<close>

definition dispatch_tunnel_result ::
    "(validate_context \<Rightarrow> validate_result p2p_result) \<Rightarrow> (nat \<Rightarrow> validate_context \<Rightarrow> bool) \<Rightarrow> (net_manager \<Rightarrow> net_manager) \<Rightarrow>
     validate_context p2p_result \<Rightarrow> net_manager \<Rightarrow> net_manager \<times> acceptance \<times> bool" where
  "dispatch_tunnel_result validate subscriber during t m =
     (case dispatch_begin validate t m of
        Dropped \<Rightarrow> (m, Rejected, \<not> isl t)
      | AskSubscriber i o' k \<Rightarrow> publish_finish i o' k (subscriber o' (projr t)) (during m))"

subsection \<open>Reference\<close>

text \<open>What \<open>listen\<close> means, in three passes: the endpoints are paired, the ports are handed out, the listeners are
  started up to the first that fails.\<close>

fun endpoint_pairs :: "endpoint list \<Rightarrow> (endpoint \<times> endpoint \<times> endpoint option) list \<times> unit p2p_result" where
  "endpoint_pairs [] = ([], Inr ())"
| "endpoint_pairs (ep # eps) =
     (if \<not> is_mapped_wan ep then apfst ((#) (ep, ep, None)) (endpoint_pairs eps)
      else (case eps of
              [] \<Rightarrow> ([], Inl InvalidParam)
            | l # eps' \<Rightarrow>
                if is_same_ip_version l ep \<and> protocol l = protocol ep \<and> \<not> is_static_wan l
                then apfst ((#) (ep, l, Some ep)) (endpoint_pairs eps')
                else ([], Inl InvalidParam)))"

fun hand_out_ports :: "(endpoint \<times> u16) list \<Rightarrow> (endpoint \<times> endpoint \<times> endpoint option) list \<Rightarrow> listening list" where
  "hand_out_ports pm [] = []"
| "hand_out_ports pm ((src, l, out) # ps) =
     (let (port, pm') = take_mapping_port pm src in (l, out, port) # hand_out_ports pm' ps)"

fun start_all ::
    "(protocol \<Rightarrow> bool) \<Rightarrow> (listening \<Rightarrow> unit p2p_result) \<Rightarrow> listening list \<Rightarrow> unit p2p_result \<Rightarrow> listening list \<times> unit p2p_result" where
  "start_all known st [] r = ([], r)"
| "start_all known st (x # xs) r =
     (if \<not> known (protocol (fst x)) then ([], Inl NotFound)
      else (case st x of Inl e \<Rightarrow> ([], Inl e) | Inr _ \<Rightarrow> apfst ((#) x) (start_all known st xs r)))"

definition listen_spec ::
    "(protocol \<Rightarrow> bool) \<Rightarrow> (listening \<Rightarrow> unit p2p_result) \<Rightarrow> endpoint list \<Rightarrow> (endpoint \<times> u16) list \<Rightarrow>
     listening list \<times> unit p2p_result" where
  "listen_spec known st eps pm =
     (let (ps, r) = endpoint_pairs eps in start_all known st (hand_out_ports pm ps) r)"

subsection \<open>Runs\<close>

text \<open>What the owners of subscriptions do, and the answers of the subscribers that were asked.\<close>

datatype subscription_step =
    Register p2p_id subscription_kind
  | DropGuard p2p_id nat
  | Answer p2p_id nat subscription_kind bool

primrec take_step :: "subscription_step \<Rightarrow> net_manager \<Rightarrow> net_manager" where
  "take_step (Register i k) m = fst (register_subscription i k m)"
| "take_step (DropGuard i o') m = unregister_owned i o' m"
| "take_step (Answer i o' k ok) m = fst (publish_finish i o' k ok m)"

primrec ends_subscription :: "p2p_id \<Rightarrow> nat \<Rightarrow> subscription_step \<Rightarrow> bool" where
  "ends_subscription i o' (Register j k) = False"
| "ends_subscription i o' (DropGuard j p) = (j = i \<and> p = o')"
| "ends_subscription i o' (Answer j p k ok) = (j = i \<and> p = o' \<and> k = Legacy \<and> \<not> ok)"

section \<open>Listening\<close>

lemma endpoint_pairs_next:
  "endpoint_pairs (ep # eps) =
     (case endpoint_pair_at (ep # eps) 0 of
        (Inl e, _) \<Rightarrow> ([], Inl e)
      | (Inr (l, out), i) \<Rightarrow> apfst ((#) (ep, l, out)) (endpoint_pairs (drop i (ep # eps))))"
  by (cases eps) (simp_all add: endpoint_pair_at_def Let_def)

lemma listen_spec_unfold:
  "listen_spec known st eps pm =
     (if eps = [] then ([], Inr ())
      else (case endpoint_pair_at eps 0 of
                (Inl e, _) \<Rightarrow> ([], Inl e)
              | (Inr (l, out), i) \<Rightarrow>
                  let (port, pm') = take_mapping_port pm (hd eps)
                  in if \<not> known (protocol l) then ([], Inl NotFound)
                     else (case st (l, out, port) of
                             Inl e \<Rightarrow> ([], Inl e)
                           | Inr _ \<Rightarrow> apfst ((#) (l, out, port)) (listen_spec known st (drop i eps) pm'))))"
proof (cases eps)
  case Nil
  then show ?thesis by (simp add: listen_spec_def)
next
  case (Cons ep eps')
  obtain r i where p: "endpoint_pair_at (ep # eps') 0 = (r, i)" by fastforce
  show ?thesis
  proof (cases r)
    case (Inl e)
    with p Cons show ?thesis by (simp add: listen_spec_def endpoint_pairs_next del: endpoint_pairs.simps)
  next
    case (Inr x)
    obtain l out where x: "x = (l, out)" by fastforce
    obtain ps r' where q: "endpoint_pairs (drop i (ep # eps')) = (ps, r')" by fastforce
    obtain port pm' where t: "take_mapping_port pm ep = (port, pm')" by fastforce
    have "listen_spec known st (drop i eps) pm' = start_all known st (hand_out_ports pm' ps) r'"
      using q Cons by (simp add: listen_spec_def)
    then show ?thesis
      by (cases "st (l, out, port)")
        (simp_all add: listen_spec_def [of _ _ "ep # eps'"] endpoint_pairs_next p Cons Inr x q t del: endpoint_pairs.simps)
  qed
qed

lemma endpoint_pair_at_drop:
  assumes "i < length eps"
  shows "endpoint_pair_at eps i = apsnd ((+) i) (endpoint_pair_at (drop i eps) 0)"
  using assms by (auto simp: endpoint_pair_at_def Let_def)

lemma listen_loop_spec:
  "listen_loop known st eps i pm acc = apfst ((@) acc) (listen_spec known st (drop i eps) pm)"
proof (induction known st eps i pm acc rule: listen_loop.induct)
  case (1 known st eps i pm acc)
  show ?case
  proof (cases "i < length eps")
    case False
    then show ?thesis by (subst listen_spec_unfold) (simp add: listen_loop.simps [of _ _ eps i])
  next
    case True
    then have hd: "hd (drop i eps) = eps ! i" "drop i eps \<noteq> []" by (simp_all add: hd_drop_conv_nth)
    obtain r j where p: "endpoint_pair_at (drop i eps) 0 = (r, j)" by fastforce
    then have q: "endpoint_pair_at eps i = (r, i + j)" using endpoint_pair_at_drop [OF True] by simp
    obtain port pm' where t: "take_mapping_port pm (eps ! i) = (port, pm')" by fastforce
    show ?thesis
    proof (cases r)
      case (Inl e)
      with True p q hd show ?thesis
        by (simp add: listen_spec_unfold [of _ _ "drop i eps"] listen_loop.simps [of _ _ eps i])
    next
      case (Inr x)
      obtain l out where x: "x = (l, out)" by fastforce
      have spec: "listen_spec known st (drop i eps) pm =
          (if \<not> known (protocol l) then ([], Inl NotFound)
           else (case st (l, out, port) of
                   Inl e \<Rightarrow> ([], Inl e)
                 | Inr _ \<Rightarrow> apfst ((#) (l, out, port)) (listen_spec known st (drop (i + j) eps) pm')))"
        using p hd t by (simp add: listen_spec_unfold [of _ _ "drop i eps"] Inr x add.commute split: sum.split)
      show ?thesis
      proof (cases "known (protocol l) \<and> st (l, out, port) = Inr ()")
        case False
        then show ?thesis unfolding spec listen_loop.simps [of _ _ eps i] by (auto simp: True q Inr x t split: sum.split)
      next
        case ok: True
        have "listen_loop known st eps i pm acc = listen_loop known st eps (i + j) pm' (acc @ [(l, out, port)])"
          unfolding listen_loop.simps [of _ _ eps i] by (simp add: True q Inr x t ok)
        also have "\<dots> = apfst ((@) (acc @ [(l, out, port)])) (listen_spec known st (drop (i + j) eps) pm')"
          using 1 True q Inr x t ok by metis
        also have "\<dots> = apfst ((@) acc) (listen_spec known st (drop i eps) pm)"
          using ok by (simp add: spec apfst_def map_prod_def split_beta)
        finally show ?thesis .
      qed
    qed
  qed
qed

text \<open>The loop of \<open>NetManager::listen\<close>, which pairs an endpoint with the one after it, takes its mapped port and
  starts its listener before it looks at the next, does what the three passes do one after the other: a mapped
  endpoint is always the outside of the local endpoint that follows it, a mapped port is handed out once, and
  the first failure, be it of a pair, a missing network or a listener, stops it with what was started before.
  The manager counts as listening exactly if nothing failed, and a call while it listens starts nothing.\<close>

theorem net_manager_listens_by_spec:
  "net_manager_listen st infos eps mapping m =
     (if nm_listening m then (refresh_listener_meta infos m, [], Inr ())
      else if eps = [] then (m, [], Inl InvalidParam)
      else let (ls, r) = listen_spec (\<lambda>p. p \<in> set (nm_protocols m)) st eps (case mapping of Some ps \<Rightarrow> ps | None \<Rightarrow> [])
           in (if isl r then m else (refresh_listener_meta infos m)\<lparr>nm_listening := True\<rparr>, ls, r))"
  by (auto simp: net_manager_listen_def get_network_def listen_loop_spec split: prod.splits sum.splits)

section \<open>Subscribers\<close>

lemma take_step_keeps:
  assumes "hm_get (nm_subscriptions m) i = Some (o', k)" "\<not> ends_subscription i o' s"
  shows "hm_get (nm_subscriptions (take_step s m)) i = Some (o', k)"
  using assms
  by (cases s)
    (auto simp: register_subscription_def unregister_owned_def publish_finish_def Let_def hm_removed hm.get_insert split: option.splits)

lemma fold_steps_keep:
  assumes "hm_get (nm_subscriptions m) i = Some (o', k)" "\<not> list_ex (ends_subscription i o') ss"
  shows "hm_get (nm_subscriptions (fold take_step ss m)) i = Some (o', k)"
  using assms by (induction ss arbitrary: m) (simp_all add: take_step_keeps)

lemma take_step_owners: "nm_next_owner m \<le> nm_next_owner (take_step s m)"
  by (cases s) (auto simp: register_subscription_def unregister_owned_def publish_finish_def Let_def split: option.splits)

lemma fold_steps_owners: "nm_next_owner m \<le> nm_next_owner (fold take_step ss m)"
  by (induction ss arbitrary: m) (auto intro: order.trans take_step_owners)

lemma register_gives:
  assumes "register_subscription i k m = (m', Inr (j, o'))"
  shows "j = i" "o' = nm_next_owner m" "nm_next_owner m' = Suc o'" "hm_get (nm_subscriptions m') i = Some (o', k)"
  using assms by (auto simp: register_subscription_def Let_def hm.get_insert split: if_splits option.splits)

text \<open>C39: A subscription belongs to its owner. Between two registrations of an id anything may happen, the guards of
  earlier owners may be dropped late and the answers of earlier subscribers come late: the second is not given
  the number of the first, so no guard and no answer of the first ends it, and until its own guard is dropped or
  its own subscriber of the old kind declines, a tunnel for the id is offered to it and nobody else can
  register.\<close>

theorem subscription_belongs_to_owner:
  assumes "register_subscription i k m = (m1, Inr (j, o1))"
    and "register_subscription i k' (fold take_step ss m1) = (m2, Inr (j', o2))"
    and "\<not> list_ex (ends_subscription i o2) ss'"
  shows "o1 \<noteq> o2 \<and> publish_begin i (fold take_step ss' m2) = AskSubscriber i o2 k' \<and>
         register_subscription i k'' (fold take_step ss' m2) = (fold take_step ss' m2, Inl AlreadyExists)"
proof -
  have "Suc o1 \<le> o2" using register_gives [OF assms(1)] register_gives [OF assms(2)] fold_steps_owners [of m1 ss] by simp
  moreover have "hm_get (nm_subscriptions (fold take_step ss' m2)) i = Some (o2, k')"
    by (rule fold_steps_keep [OF register_gives(4) [OF assms(2)] assms(3)])
  ultimately show ?thesis by (simp add: publish_begin_def register_subscription_def)
qed

definition some_manager :: net_manager where
  "some_manager = net_manager_new [Tcp, Quic]"

theorem subscription_belongs_to_owner_witness:
  shows "register_subscription (P2pId [1]) Acceptance (fold take_step [DropGuard (P2pId [1]) 0, Answer (P2pId [1]) 0 Legacy False]
           (fst (register_subscription (P2pId [1]) Legacy (fold take_step [DropGuard (P2pId [1]) 0] (fst (register_subscription (P2pId [1]) Legacy some_manager)))))) =
         (fold take_step [DropGuard (P2pId [1]) 0, Answer (P2pId [1]) 0 Legacy False]
           (fst (register_subscription (P2pId [1]) Legacy (fold take_step [DropGuard (P2pId [1]) 0] (fst (register_subscription (P2pId [1]) Legacy some_manager))))),
          Inl AlreadyExists)"
proof (rule subscription_belongs_to_owner [where i = "(P2pId [1])" and k = Legacy and m = some_manager and ?o1.0 = 0 and ss = "[DropGuard (P2pId [1]) 0]"
      and k' = Legacy and ?o2.0 = 1 and j = "(P2pId [1])" and j' = "(P2pId [1])", THEN conjunct2, THEN conjunct2])
  show "register_subscription (P2pId [1]) Legacy some_manager = (fst (register_subscription (P2pId [1]) Legacy some_manager), Inr ((P2pId [1]), 0))"
    by (simp add: register_subscription_def some_manager_def net_manager_new_def hm_simps)
  show "register_subscription (P2pId [1]) Legacy (fold take_step [DropGuard (P2pId [1]) 0] (fst (register_subscription (P2pId [1]) Legacy some_manager))) =
      (fst (register_subscription (P2pId [1]) Legacy (fold take_step [DropGuard (P2pId [1]) 0] (fst (register_subscription (P2pId [1]) Legacy some_manager)))), Inr ((P2pId [1]), 1))"
    by (simp add: register_subscription_def some_manager_def net_manager_new_def hm_simps unregister_owned_def hm_removed)
  show "\<not> list_ex (ends_subscription (P2pId [1]) 1) [DropGuard (P2pId [1]) 0, Answer (P2pId [1]) 0 Legacy False]" by simp
qed

section \<open>Incoming tunnels\<close>

text \<open>An incoming tunnel has one fate: it is accepted, and then the validator let it in, there was a subscriber for
  the local id and that subscriber said yes, or it is rejected and closed. Nobody else is asked, and the
  dispatch takes away no subscription but that of a subscriber of the old kind that declined.\<close>

theorem dispatch_accepts_or_closes:
  assumes "dispatch_tunnel_result validate subscriber during (Inr ctx) m = (m', a, closed)"
  shows "a = Accepted \<longleftrightarrow> validate ctx = Inr ValidateAccept \<and>
           (\<exists>o' k. hm_get (nm_subscriptions m) (vx_local_id ctx) = Some (o', k) \<and> subscriber o' ctx)"
    and "closed \<longleftrightarrow> a = Rejected"
    and "a = Accepted \<Longrightarrow> m' = during m"
    and "m' = m \<or> m' = during m \<or>
         (\<exists>o'. hm_get (nm_subscriptions m) (vx_local_id ctx) = Some (o', Legacy) \<and> \<not> subscriber o' ctx \<and>
               m' = unregister_owned (vx_local_id ctx) o' (during m))"
  using assms
  by (auto simp: dispatch_tunnel_result_def dispatch_begin_def publish_begin_def publish_finish_def Let_def
      split: sum.splits validate_result.splits option.splits if_splits)

definition some_context :: validate_context where
  "some_context = \<lparr>vx_local_id = (P2pId [1]), vx_remote_id = P2pId [2], vx_protocol = Tcp, vx_tunnel_id = TunnelId 7, vx_candidate_id = TunnelCandidateId 7, vx_is_reverse = False,
     vx_local_ep = None, vx_remote_ep = None\<rparr>"

theorem dispatch_accepts_or_closes_witness:
  "(case dispatch_tunnel_result (\<lambda>_. Inr ValidateAccept) (\<lambda>_ _. False) id (Inr some_context)
      (fst (register_subscription (P2pId [1]) Legacy some_manager)) of
      (m', a, closed) \<Rightarrow> closed \<longleftrightarrow> a = Rejected)"
  using dispatch_accepts_or_closes(2) [of "\<lambda>_. Inr ValidateAccept" "\<lambda>_ _. False" id some_context
      "fst (register_subscription (P2pId [1]) Legacy some_manager)"]
  by (auto split: prod.split)

end
