(* ===== verification/Ttp.thy ===== *)
theory Ttp
  imports NetManager InterSn
begin

text \<open>
  The transport of commands over tunnels (\<open>ttp/\<close>): the registries of listeners by purpose, the attaching of a tunnel to
  them, the tunnel cache of the client with its leases and its idle sweep, and the runtime of nodes and servers
  with its cache and its validator.

  A tunnel is a record of what it never changes, with a number that stands for its identity; whether it is
  available, and whether somebody holds it, change with time and are functions of the environment. The
  endpoints in a cache key are compared with all their fields: equality ignores the area, but the derived
  hash does not, so that endpoints that differ in the area are different keys. An operation that waits takes
  what others do meanwhile as a function.
\<close>

section \<open>Definitions\<close>

subsection \<open>Registries\<close>

type_synonym ttp_registry = "(tunnel_purpose, nat) hmap"

definition ttp_registry_register :: "tunnel_purpose \<Rightarrow> nat \<Rightarrow> ttp_registry \<Rightarrow> ttp_registry \<times> unit p2p_result" where
  "ttp_registry_register p cb r = (if hm_get r p \<noteq> None then (r, Inl AlreadyExists) else (hm_insert p cb r, Inr ()))"

definition ttp_registry_unregister :: "tunnel_purpose \<Rightarrow> ttp_registry \<Rightarrow> ttp_registry" where
  "ttp_registry_unregister p r = hm_remove p r"

text \<open>The callback that is spawned.\<close>

definition ttp_registry_deliver :: "ttp_registry \<Rightarrow> tunnel_purpose \<Rightarrow> nat p2p_result" where
  "ttp_registry_deliver r p = (case hm_get r p of None \<Rightarrow> Inl NotFound | Some cb \<Rightarrow> Inr cb)"

definition ttp_registry_is_listen :: "ttp_registry \<Rightarrow> listen_vports" where
  "ttp_registry_is_listen r p = (hm_get r p \<noteq> None)"

subsection \<open>Tunnels and targets\<close>

record tunnel_ref =
  tr_addr :: nat
  tr_local_id :: p2p_id
  tr_remote_id :: p2p_id
  tr_protocol :: protocol
  tr_tunnel_id :: tunnel_id
  tr_candidate_id :: candidate_id
  tr_local_ep :: "endpoint option"
  tr_remote_ep :: "endpoint option"

definition match_target :: "tunnel_ref \<Rightarrow> ttp_target \<Rightarrow> bool" where
  "match_target t g =
     (if tr_remote_id t \<noteq> tt_remote_id g then False
      else if (case tt_local_ep g of
                 None \<Rightarrow> False
               | Some l \<Rightarrow> (case tr_local_ep t of
                             None \<Rightarrow> False
                           | Some ep \<Rightarrow> if sa_port (addr l) = 0 then protocol ep \<noteq> protocol l \<or> sa_ip (addr ep) \<noteq> sa_ip (addr l)
                                       else \<not> endpoint_eq ep l))
           then False
      else endpoint_eq (tt_remote_ep g) endpoint_default \<or>
           (case tr_remote_ep t of Some ep \<Rightarrow> endpoint_eq ep (tt_remote_ep g) | None \<Rightarrow> True))"

datatype channel_kind = StreamChannel | ControlChannel | DatagramChannel

record ttp_meta =
  tm_local_ep :: "endpoint option"
  tm_remote_ep :: "endpoint option"
  tm_local_id :: p2p_id
  tm_remote_id :: p2p_id
  tm_remote_name :: "string option"
  tm_purpose :: tunnel_purpose

text \<open>What the code outside decides: which protocols have a network, what creating a tunnel and listening and
  opening on it give, whether at a time a tunnel is connected and whether anybody holds it.\<close>

record ttp_env =
  tv_available :: "instant \<Rightarrow> nat \<Rightarrow> bool"
  tv_alive :: "instant \<Rightarrow> nat \<Rightarrow> bool"
  tv_network :: "protocol \<Rightarrow> unit p2p_result"
  tv_create :: "ttp_target \<Rightarrow> tunnel_ref p2p_result"
  tv_listen :: "nat \<Rightarrow> channel_kind \<Rightarrow> unit p2p_result"
  tv_open :: "nat \<Rightarrow> channel_kind \<Rightarrow> tunnel_purpose \<Rightarrow> unit p2p_result"

subsection \<open>Dispatch\<close>

record ttp_dispatch =
  td_stream :: ttp_registry
  td_control :: ttp_registry
  td_datagram :: ttp_registry
  td_attached :: "nat list"

definition ttp_dispatch_new :: ttp_dispatch where
  "ttp_dispatch_new = \<lparr>td_stream = [], td_control = [], td_datagram = [], td_attached = []\<rparr>"

fun ttp_registry_of :: "channel_kind \<Rightarrow> ttp_dispatch \<Rightarrow> ttp_registry" where
  "ttp_registry_of StreamChannel d = td_stream d"
| "ttp_registry_of ControlChannel d = td_control d"
| "ttp_registry_of DatagramChannel d = td_datagram d"

fun set_registry :: "channel_kind \<Rightarrow> ttp_registry \<Rightarrow> ttp_dispatch \<Rightarrow> ttp_dispatch" where
  "set_registry StreamChannel r d = d\<lparr>td_stream := r\<rparr>"
| "set_registry ControlChannel r d = d\<lparr>td_control := r\<rparr>"
| "set_registry DatagramChannel r d = d\<lparr>td_datagram := r\<rparr>"

definition ttp_listen :: "channel_kind \<Rightarrow> tunnel_purpose \<Rightarrow> nat \<Rightarrow> ttp_dispatch \<Rightarrow> ttp_dispatch \<times> unit p2p_result" where
  "ttp_listen c p cb d = (let (r, x) = ttp_registry_register p cb (ttp_registry_of c d) in (set_registry c r d, x))"

definition ttp_unlisten :: "channel_kind \<Rightarrow> tunnel_purpose \<Rightarrow> ttp_dispatch \<Rightarrow> ttp_dispatch" where
  "ttp_unlisten c p d = set_registry c (ttp_registry_unregister p (ttp_registry_of c d)) d"

definition try_mark_attached :: "ttp_env \<Rightarrow> instant \<Rightarrow> tunnel_ref \<Rightarrow> ttp_dispatch \<Rightarrow> ttp_dispatch \<times> bool" where
  "try_mark_attached env now t d =
     (let a = filter (tv_alive env now) (td_attached d)
      in if tr_addr t \<in> set a then (d\<lparr>td_attached := a\<rparr>, False)
         else (d\<lparr>td_attached := a @ [tr_addr t]\<rparr>, True))"

text \<open>The kinds of channel are listened for in turn; what was asked of the tunnel, and the error that ended it.\<close>

fun listen_kinds :: "ttp_env \<Rightarrow> tunnel_ref \<Rightarrow> channel_kind list \<Rightarrow> channel_kind list \<times> unit p2p_result" where
  "listen_kinds env t [] = ([], Inr ())"
| "listen_kinds env t (c # cs) =
     (case tv_listen env (tr_addr t) c of
        Inl e \<Rightarrow> if e = NotSupport then apfst ((#) c) (listen_kinds env t cs) else ([c], Inl e)
      | Inr _ \<Rightarrow> apfst ((#) c) (listen_kinds env t cs))"

definition attach_tunnel :: "ttp_env \<Rightarrow> instant \<Rightarrow> tunnel_ref \<Rightarrow> ttp_dispatch \<Rightarrow> ttp_dispatch \<times> channel_kind list \<times> unit p2p_result" where
  "attach_tunnel env now t d =
     (case try_mark_attached env now t d of
        (d', False) \<Rightarrow> (d', [], Inr ())
      | (d', True) \<Rightarrow> (d', listen_kinds env t [StreamChannel, ControlChannel, DatagramChannel]))"

text \<open>\<open>close_failed_attach\<close>: a tunnel is closed exactly if its attaching failed.\<close>

definition attach_closes :: "unit p2p_result \<Rightarrow> bool" where
  "attach_closes r = isl r"

text \<open>The callback of an attached tunnel: who is called, with which description.\<close>

definition incoming_channel :: "tunnel_ref \<Rightarrow> channel_kind \<Rightarrow> tunnel_purpose p2p_result \<Rightarrow> ttp_dispatch \<Rightarrow> (nat \<times> ttp_meta) option" where
  "incoming_channel t c x d =
     (case x of
        Inl _ \<Rightarrow> None
      | Inr p \<Rightarrow>
          (case ttp_registry_deliver (ttp_registry_of c d) p of
             Inl _ \<Rightarrow> None
           | Inr cb \<Rightarrow> Some (cb, \<lparr>tm_local_ep = tr_local_ep t, tm_remote_ep = tr_remote_ep t, tm_local_id = tr_local_id t,
                                 tm_remote_id = tr_remote_id t, tm_remote_name = None, tm_purpose = p\<rparr>)))"

subsection \<open>The cache of the client\<close>

type_synonym ttp_key = "endpoint option \<times> endpoint option"

definition tunnel_key :: "tunnel_ref \<Rightarrow> ttp_key" where
  "tunnel_key t = (tr_local_ep t, tr_remote_ep t)"

record ttp_entry =
  tce_tunnel :: tunnel_ref
  tce_maintained :: bool
  tce_last_used :: instant
  tce_leases :: nat

type_synonym ttp_cache = "(p2p_id, (ttp_key, ttp_entry) hmap) hmap"
type_synonym ttp_lease = "p2p_id \<times> ttp_key"

definition DEFAULT_TTP_CLIENT_IDLE_TIMEOUT :: duration where
  "DEFAULT_TTP_CLIENT_IDLE_TIMEOUT = from_secs (5 * 60)"

record ttp_client =
  tc_tunnels :: ttp_cache
  tc_targets :: "ttp_target list"
  tc_maintain_started :: bool
  tc_idle_timeout :: duration
  tc_dispatch :: ttp_dispatch

definition ttp_client_new :: "duration \<Rightarrow> ttp_client" where
  "ttp_client_new idle =
     \<lparr>tc_tunnels = [], tc_targets = [], tc_maintain_started = False, tc_idle_timeout = idle, tc_dispatch = ttp_dispatch_new\<rparr>"

definition maintained_by :: "ttp_target list \<Rightarrow> tunnel_ref \<Rightarrow> bool" where
  "maintained_by gs t = list_ex (match_target t) gs"

definition keep_entry :: "(nat \<Rightarrow> bool) \<Rightarrow> duration \<Rightarrow> instant \<Rightarrow> ttp_entry \<Rightarrow> bool" where
  "keep_entry available idle now e =
     (available (tr_addr (tce_tunnel e)) \<and> (tce_maintained e \<or> tce_leases e > 0 \<or> now - tce_last_used e < idle))"

definition release_idle_tunnels :: "ttp_env \<Rightarrow> duration \<Rightarrow> ttp_target list \<Rightarrow> instant \<Rightarrow> ttp_cache \<Rightarrow> ttp_cache" where
  "release_idle_tunnels env idle gs now m =
     hm_retain (\<lambda>_ es. es \<noteq> [])
       (map (\<lambda>(i, es). (i, hm_retain (\<lambda>_. keep_entry (tv_available env now) idle now)
                            (map (\<lambda>(k, e). (k, e\<lparr>tce_maintained := maintained_by gs (tce_tunnel e)\<rparr>)) es))) m)"

definition idle_sweep :: "ttp_env \<Rightarrow> instant \<Rightarrow> ttp_client \<Rightarrow> ttp_client" where
  "idle_sweep env now c =
     c\<lparr>tc_tunnels := release_idle_tunnels env (tc_idle_timeout c) (tc_targets c) now (tc_tunnels c)\<rparr>"

text \<open>The first entry of a peer that satisfies \<open>P\<close> is changed.\<close>

definition cache_touch ::
    "p2p_id \<Rightarrow> (ttp_entry \<Rightarrow> bool) \<Rightarrow> (ttp_entry \<Rightarrow> ttp_entry) \<Rightarrow> ttp_cache \<Rightarrow> ttp_cache \<times> (ttp_key \<times> ttp_entry) option" where
  "cache_touch i P f m =
     (case hm_get m i of
        None \<Rightarrow> (m, None)
      | Some es \<Rightarrow>
          (case find (\<lambda>(k, e). P e) es of
             None \<Rightarrow> (m, None)
           | Some (k, e) \<Rightarrow> (hm_insert i (hm_insert k (f e) es) m, Some (k, e))))"

definition find_existing_tunnel :: "ttp_env \<Rightarrow> instant \<Rightarrow> ttp_target \<Rightarrow> ttp_client \<Rightarrow> ttp_client \<times> tunnel_ref option" where
  "find_existing_tunnel env now g c =
     (let (m, x) = cache_touch (tt_remote_id g) (\<lambda>e. match_target (tce_tunnel e) g) (\<lambda>e. e\<lparr>tce_last_used := now\<rparr>)
                     (tc_tunnels (idle_sweep env now c))
      in (c\<lparr>tc_tunnels := m\<rparr>, map_option (\<lambda>(k, e). tce_tunnel e) x))"

definition cache_insert :: "p2p_id \<Rightarrow> 'k \<Rightarrow> 'e \<Rightarrow> (p2p_id, ('k, 'e) hmap) hmap \<Rightarrow> (p2p_id, ('k, 'e) hmap) hmap" where
  "cache_insert i k e m = hm_insert i (hm_insert k e (case hm_get m i of Some es \<Rightarrow> es | None \<Rightarrow> [])) m"

definition remember_tunnel :: "ttp_env \<Rightarrow> instant \<Rightarrow> tunnel_ref \<Rightarrow> ttp_client \<Rightarrow> ttp_client" where
  "remember_tunnel env now t c =
     c\<lparr>tc_tunnels := cache_insert (tr_remote_id t) (tunnel_key t)
         \<lparr>tce_tunnel = t, tce_maintained = maintained_by (tc_targets c) t, tce_last_used = now, tce_leases = 0\<rparr>
         (tc_tunnels (idle_sweep env now c))\<rparr>"

definition refresh_maintained_cache_state :: "instant \<Rightarrow> p2p_id \<Rightarrow> ttp_client \<Rightarrow> ttp_client" where
  "refresh_maintained_cache_state now i c =
     (case hm_get (tc_tunnels c) i of
        None \<Rightarrow> c
      | Some es \<Rightarrow>
          c\<lparr>tc_tunnels := hm_insert i
              (map (\<lambda>(k, e). (k, e\<lparr>tce_maintained := maintained_by (tc_targets c) (tce_tunnel e), tce_last_used := now\<rparr>)) es) (tc_tunnels c)\<rparr>)"

definition acquire_lease :: "instant \<Rightarrow> ttp_target \<Rightarrow> ttp_client \<Rightarrow> ttp_client \<times> ttp_lease option" where
  "acquire_lease now g c =
     (let (m, x) = cache_touch (tt_remote_id g) (\<lambda>e. match_target (tce_tunnel e) g)
                     (\<lambda>e. e\<lparr>tce_leases := tce_leases e + 1, tce_last_used := now\<rparr>) (tc_tunnels c)
      in (c\<lparr>tc_tunnels := m\<rparr>, map_option (\<lambda>(k, e). (tt_remote_id g, k)) x))"

definition drop_lease :: "instant \<Rightarrow> ttp_lease \<Rightarrow> ttp_client \<Rightarrow> ttp_client" where
  "drop_lease now l c =
     (case hm_get (tc_tunnels c) (fst l) of
        None \<Rightarrow> c
      | Some es \<Rightarrow>
          (case hm_get es (snd l) of
             None \<Rightarrow> c
           | Some e \<Rightarrow> c\<lparr>tc_tunnels := hm_insert (fst l)
                 (hm_insert (snd l) (e\<lparr>tce_leases := tce_leases e - 1, tce_last_used := now\<rparr>) es) (tc_tunnels c)\<rparr>))"

subsection \<open>Operations of the client\<close>

text \<open>\<open>d1\<close>: what happens while the tunnel is created, \<open>d2\<close>: while it is attached. The second time is that of the
  remembering.\<close>

definition get_or_create_tunnel ::
    "ttp_env \<Rightarrow> (ttp_client \<Rightarrow> ttp_client) \<Rightarrow> (ttp_client \<Rightarrow> ttp_client) \<Rightarrow> instant \<Rightarrow> instant \<Rightarrow> ttp_target \<Rightarrow> ttp_client \<Rightarrow>
     ttp_client \<times> tunnel_ref p2p_result" where
  "get_or_create_tunnel env d1 d2 now now' g c =
     (case find_existing_tunnel env now g c of
        (c1, Some t) \<Rightarrow> (c1, Inr t)
      | (c1, None) \<Rightarrow>
          (case tv_network env (protocol (tt_remote_ep g)) of
             Inl e \<Rightarrow> (c1, Inl e)
           | Inr _ \<Rightarrow>
               let c2 = d1 c1
               in (case tv_create env g of
                     Inl e \<Rightarrow> (c2, Inl e)
                   | Inr t \<Rightarrow>
                       let (d, _, r) = attach_tunnel env now' t (tc_dispatch c2);
                           c3 = d2 (c2\<lparr>tc_dispatch := d\<rparr>)
                       in (case r of Inl e \<Rightarrow> (c3, Inl e) | Inr _ \<Rightarrow> (remember_tunnel env now' t c3, Inr t)))))"

definition configured_server_id :: "ttp_client \<Rightarrow> p2p_id option p2p_result" where
  "configured_server_id c =
     (case tc_targets c of
        [] \<Rightarrow> Inr None
      | g # gs \<Rightarrow> if list_ex (\<lambda>h. tt_remote_id h \<noteq> tt_remote_id g) (g # gs) then Inl InvalidParam else Inr (Some (tt_remote_id g)))"

definition same_server :: "ttp_target \<Rightarrow> ttp_target \<Rightarrow> bool" where
  "same_server g h = (endpoint_eq (tt_remote_ep g) (tt_remote_ep h) \<and> tt_remote_id g = tt_remote_id h)"

definition remove_server :: "instant \<Rightarrow> ttp_target \<Rightarrow> ttp_client \<Rightarrow> ttp_client" where
  "remove_server now g c =
     refresh_maintained_cache_state now (tt_remote_id g) (c\<lparr>tc_targets := filter (\<lambda>h. \<not> same_server h g) (tc_targets c)\<rparr>)"

text \<open>What \<open>connect_server\<close> does once there is a tunnel; whether the maintaining loop is started.\<close>

definition configure_server :: "instant \<Rightarrow> ttp_target \<Rightarrow> ttp_client \<Rightarrow> ttp_client \<times> bool" where
  "configure_server now g c =
     (let c1 = refresh_maintained_cache_state now (tt_remote_id g)
                 (if list_ex (\<lambda>h. same_server h g) (tc_targets c) then c else c\<lparr>tc_targets := tc_targets c @ [g]\<rparr>)
      in (c1\<lparr>tc_maintain_started := True\<rparr>, \<not> tc_maintain_started c1))"

definition connect_server ::
    "ttp_env \<Rightarrow> (ttp_client \<Rightarrow> ttp_client) \<Rightarrow> (ttp_client \<Rightarrow> ttp_client) \<Rightarrow> instant \<Rightarrow> instant \<Rightarrow> ttp_target \<Rightarrow> ttp_client \<Rightarrow>
     ttp_client \<times> bool p2p_result" where
  "connect_server env d1 d2 now now' g c =
     (case get_or_create_tunnel env d1 d2 now now' g c of
        (c1, Inl e) \<Rightarrow> (c1, Inl e)
      | (c1, Inr _) \<Rightarrow> (let (c2, started) = configure_server now' g c1 in (c2, Inr started)))"

text \<open>A round of the maintaining loop over the targets it took.\<close>

primrec maintain_round ::
    "ttp_env \<Rightarrow> (ttp_client \<Rightarrow> ttp_client) \<Rightarrow> (ttp_client \<Rightarrow> ttp_client) \<Rightarrow> instant \<Rightarrow> ttp_target list \<Rightarrow> ttp_client \<Rightarrow> ttp_client" where
  "maintain_round env d1 d2 now [] c = c"
| "maintain_round env d1 d2 now (g # gs) c = maintain_round env d1 d2 now gs (fst (get_or_create_tunnel env d1 d2 now now g c))"

definition opened_meta :: "tunnel_ref \<Rightarrow> ttp_target \<Rightarrow> tunnel_purpose \<Rightarrow> ttp_meta" where
  "opened_meta t g p =
     \<lparr>tm_local_ep = (case tr_local_ep t of Some e \<Rightarrow> Some e | None \<Rightarrow> tt_local_ep g),
      tm_remote_ep = (case tr_remote_ep t of Some e \<Rightarrow> Some e | None \<Rightarrow> Some (tt_remote_ep g)),
      tm_local_id = tr_local_id t, tm_remote_id = tr_remote_id t, tm_remote_name = tt_remote_name g, tm_purpose = p\<rparr>"

text \<open>The three ways to open a channel differ in its kind. A lease is dropped with the last half of the channel, and
  at once if opening fails.\<close>

definition ttp_open ::
    "ttp_env \<Rightarrow> (ttp_client \<Rightarrow> ttp_client) \<Rightarrow> (ttp_client \<Rightarrow> ttp_client) \<Rightarrow> (ttp_client \<Rightarrow> ttp_client) \<Rightarrow> instant \<Rightarrow> instant \<Rightarrow>
     channel_kind \<Rightarrow> ttp_target \<Rightarrow> tunnel_purpose \<Rightarrow> ttp_client \<Rightarrow> ttp_client \<times> (ttp_meta \<times> ttp_lease) p2p_result" where
  "ttp_open env d1 d2 d3 now now' k g p c =
     (case get_or_create_tunnel env d1 d2 now now' g c of
        (c1, Inl e) \<Rightarrow> (c1, Inl e)
      | (c1, Inr t) \<Rightarrow>
          (case acquire_lease now' g c1 of
             (c2, None) \<Rightarrow> (c2, Inl ErrorState)
           | (c2, Some l) \<Rightarrow>
               (case tv_open env (tr_addr t) k p of
                  Inl e \<Rightarrow> (drop_lease now' l (d3 c2), Inl e)
                | Inr _ \<Rightarrow> (d3 c2, Inr (opened_meta t g p, l)))))"

subsection \<open>The runtime of nodes and servers\<close>

type_synonym ttp_tunnel_cache = "(p2p_id, (ttp_key, tunnel_ref) hmap) hmap"

definition retain_available :: "ttp_env \<Rightarrow> instant \<Rightarrow> ttp_tunnel_cache \<Rightarrow> ttp_tunnel_cache" where
  "retain_available env now m =
     hm_retain (\<lambda>_ ts. ts \<noteq> []) (map (\<lambda>(i, ts). (i, hm_retain (\<lambda>_ t. tv_available env now (tr_addr t)) ts)) m)"

definition remember_tunnel_in_multi :: "ttp_env \<Rightarrow> instant \<Rightarrow> tunnel_ref \<Rightarrow> ttp_tunnel_cache \<Rightarrow> ttp_tunnel_cache" where
  "remember_tunnel_in_multi env now t m = cache_insert (tr_remote_id t) (tunnel_key t) t (retain_available env now m)"

definition find_existing_tunnel_in_multi :: "ttp_env \<Rightarrow> instant \<Rightarrow> ttp_target \<Rightarrow> ttp_tunnel_cache \<Rightarrow> ttp_tunnel_cache \<times> tunnel_ref option" where
  "find_existing_tunnel_in_multi env now g m =
     (let m1 = retain_available env now m
      in (m1, Option.bind (hm_get m1 (tt_remote_id g)) (\<lambda>ts. find (\<lambda>t. match_target t g) (hm_values ts))))"

text \<open>The cache with one tunnel of a peer.\<close>

definition remember_tunnel_in :: "ttp_env \<Rightarrow> instant \<Rightarrow> tunnel_ref \<Rightarrow> (p2p_id, tunnel_ref) hmap \<Rightarrow> (p2p_id, tunnel_ref) hmap" where
  "remember_tunnel_in env now t m = hm_insert (tr_remote_id t) t (hm_retain (\<lambda>_ x. tv_available env now (tr_addr x)) m)"

definition find_existing_tunnel_in ::
    "ttp_env \<Rightarrow> instant \<Rightarrow> ttp_target \<Rightarrow> (p2p_id, tunnel_ref) hmap \<Rightarrow> (p2p_id, tunnel_ref) hmap \<times> tunnel_ref option" where
  "find_existing_tunnel_in env now g m =
     (let m1 = hm_retain (\<lambda>_ x. tv_available env now (tr_addr x)) m
      in (m1, Option.bind (hm_get m1 (tt_remote_id g)) (\<lambda>t. if match_target t g then Some t else None)))"

record ttp_runtime =
  rt_local_id :: p2p_id
  rt_dispatch :: ttp_dispatch
  rt_tunnels :: ttp_tunnel_cache
  rt_guard :: "(p2p_id \<times> nat) option"

definition ttp_runtime_new :: "p2p_id \<Rightarrow> net_manager \<Rightarrow> net_manager \<times> ttp_runtime p2p_result" where
  "ttp_runtime_new i m =
     (case register_subscription i Legacy m of
        (m', Inl e) \<Rightarrow> (m', Inl e)
      | (m', Inr guard) \<Rightarrow> (m', Inr \<lparr>rt_local_id = i, rt_dispatch = ttp_dispatch_new, rt_tunnels = [], rt_guard = Some guard\<rparr>))"

definition ttp_runtime_drop :: "ttp_runtime \<Rightarrow> net_manager \<Rightarrow> net_manager" where
  "ttp_runtime_drop r m = (case rt_guard r of None \<Rightarrow> m | Some (i, o') \<Rightarrow> unregister_owned i o' m)"

record ttp_validate_context =
  tx_local_id :: p2p_id
  tx_remote_id :: p2p_id
  tx_protocol :: protocol
  tx_tunnel_id :: tunnel_id
  tx_candidate_id :: candidate_id
  tx_local_ep :: "endpoint option"
  tx_remote_ep :: "endpoint option"

type_synonym ttp_validator = "ttp_validate_context \<Rightarrow> validate_result p2p_result"

definition allow_all_ttp_validator :: ttp_validator where
  "allow_all_ttp_validator ctx = Inr ValidateAccept"

definition incoming_context :: "tunnel_ref \<Rightarrow> ttp_validate_context" where
  "incoming_context t =
     \<lparr>tx_local_id = tr_local_id t, tx_remote_id = tr_remote_id t, tx_protocol = tr_protocol t, tx_tunnel_id = tr_tunnel_id t,
      tx_candidate_id = tr_candidate_id t, tx_local_ep = tr_local_ep t, tx_remote_ep = tr_remote_ep t\<rparr>"

text \<open>The runtime afterwards, and whether the tunnel was closed. \<open>during\<close>: what happens while it is attached.\<close>

definition accept_incoming_tunnel ::
    "ttp_env \<Rightarrow> ttp_validator \<Rightarrow> (ttp_runtime \<Rightarrow> ttp_runtime) \<Rightarrow> instant \<Rightarrow> tunnel_ref \<Rightarrow> ttp_runtime \<Rightarrow> ttp_runtime \<times> bool" where
  "accept_incoming_tunnel env validate during now t r =
     (case validate (incoming_context t) of
        Inr ValidateAccept \<Rightarrow>
          (let (d, _, x) = attach_tunnel env now t (rt_dispatch r);
               r1 = during (r\<lparr>rt_dispatch := d\<rparr>)
           in (case x of
                 Inl _ \<Rightarrow> (r1, attach_closes x)
               | Inr _ \<Rightarrow> (r1\<lparr>rt_tunnels := remember_tunnel_in_multi env now t (rt_tunnels r1)\<rparr>, False)))
      | _ \<Rightarrow> (r, True))"

text \<open>The subscriber a runtime registers: its answer, whether the tunnel was closed, and the runtime, if it is still there.\<close>

definition runtime_subscriber ::
    "ttp_env \<Rightarrow> ttp_validator \<Rightarrow> (ttp_runtime \<Rightarrow> ttp_runtime) \<Rightarrow> instant \<Rightarrow> tunnel_ref p2p_result \<Rightarrow> ttp_runtime option \<Rightarrow>
     ttp_runtime option \<times> bool \<times> bool" where
  "runtime_subscriber env validate during now x ro =
     (case ro of
        None \<Rightarrow> (None, False, False)
      | Some r \<Rightarrow>
          (case x of
             Inl _ \<Rightarrow> (Some r, True, False)
           | Inr t \<Rightarrow> (let (r', closed) = accept_incoming_tunnel env validate during now t r in (Some r', True, closed))))"

definition get_existing_tunnel :: "ttp_env \<Rightarrow> instant \<Rightarrow> ttp_target \<Rightarrow> ttp_runtime \<Rightarrow> ttp_runtime \<times> tunnel_ref p2p_result" where
  "get_existing_tunnel env now g r =
     (let (m, x) = find_existing_tunnel_in_multi env now g (rt_tunnels r)
      in (r\<lparr>rt_tunnels := m\<rparr>, case x of None \<Rightarrow> Inl NotFound | Some t \<Rightarrow> Inr t))"

definition get_or_create_tunnel_for_multi ::
    "ttp_env \<Rightarrow> (ttp_runtime \<Rightarrow> ttp_runtime) \<Rightarrow> (ttp_runtime \<Rightarrow> ttp_runtime) \<Rightarrow> instant \<Rightarrow> instant \<Rightarrow> ttp_target \<Rightarrow> ttp_runtime \<Rightarrow>
     ttp_runtime \<times> tunnel_ref p2p_result" where
  "get_or_create_tunnel_for_multi env d1 d2 now now' g r =
     (let (m, x) = find_existing_tunnel_in_multi env now g (rt_tunnels r);
          r1 = r\<lparr>rt_tunnels := m\<rparr>
      in (case x of
            Some t \<Rightarrow> (r1, Inr t)
          | None \<Rightarrow>
              (case tv_network env (protocol (tt_remote_ep g)) of
                 Inl e \<Rightarrow> (r1, Inl e)
               | Inr _ \<Rightarrow>
                   let r2 = d1 r1
                   in (case tv_create env g of
                         Inl e \<Rightarrow> (r2, Inl e)
                       | Inr t \<Rightarrow>
                           let (d, _, y) = attach_tunnel env now' t (rt_dispatch r2);
                               r3 = d2 (r2\<lparr>rt_dispatch := d\<rparr>)
                           in (case y of
                                 Inl e \<Rightarrow> (r3, Inl e)
                               | Inr _ \<Rightarrow> (r3\<lparr>rt_tunnels := remember_tunnel_in_multi env now' t (rt_tunnels r3)\<rparr>, Inr t))))))"

definition node_open ::
    "ttp_env \<Rightarrow> (ttp_runtime \<Rightarrow> ttp_runtime) \<Rightarrow> (ttp_runtime \<Rightarrow> ttp_runtime) \<Rightarrow> instant \<Rightarrow> instant \<Rightarrow> channel_kind \<Rightarrow> ttp_target \<Rightarrow>
     tunnel_purpose \<Rightarrow> ttp_runtime \<Rightarrow> ttp_runtime \<times> ttp_meta p2p_result" where
  "node_open env d1 d2 now now' k g p r =
     (case get_or_create_tunnel_for_multi env d1 d2 now now' g r of
        (r1, Inl e) \<Rightarrow> (r1, Inl e)
      | (r1, Inr t) \<Rightarrow> (r1, case tv_open env (tr_addr t) k p of Inl e \<Rightarrow> Inl e | Inr _ \<Rightarrow> Inr (opened_meta t g p)))"

text \<open>A server only uses tunnels that came in, and does not fill in the local endpoint of the target.\<close>

definition server_open ::
    "ttp_env \<Rightarrow> instant \<Rightarrow> channel_kind \<Rightarrow> ttp_target \<Rightarrow> tunnel_purpose \<Rightarrow> ttp_runtime \<Rightarrow> ttp_runtime \<times> ttp_meta p2p_result" where
  "server_open env now k g p r =
     (case get_existing_tunnel env now g r of
        (r1, Inl e) \<Rightarrow> (r1, Inl e)
      | (r1, Inr t) \<Rightarrow>
          (r1, case tv_open env (tr_addr t) k p of
                 Inl e \<Rightarrow> Inl e
               | Inr _ \<Rightarrow> Inr ((opened_meta t g p)\<lparr>tm_local_ep := tr_local_ep t\<rparr>)))"

subsection \<open>Runs of the client\<close>

definition cache_at :: "('i, ('k, 'e) hmap) hmap \<Rightarrow> 'i \<Rightarrow> 'k \<Rightarrow> 'e option" where
  "cache_at m i k = Option.bind (hm_get m i) (\<lambda>es. hm_get es k)"

definition cache_wf :: "('i, ('k, 'e) hmap) hmap \<Rightarrow> bool" where
  "cache_wf m \<longleftrightarrow> hm_wf m \<and> (\<forall>es \<in> set (hm_values m). hm_wf es)"

text \<open>What changes the cache, with the leases that are held: looking a tunnel up, remembering one, taking and dropping a
  lease, the sweep, the servers.\<close>

datatype lease_step =
    LFind instant ttp_target
  | LRemember instant tunnel_ref
  | LAcquire instant ttp_target
  | LDrop instant ttp_lease
  | LSweep instant
  | LConfigure instant ttp_target
  | LRemove instant ttp_target

primrec do_lease_step :: "ttp_env \<Rightarrow> lease_step \<Rightarrow> ttp_client \<times> ttp_lease list \<Rightarrow> ttp_client \<times> ttp_lease list" where
  "do_lease_step env (LFind now g) s = (fst (find_existing_tunnel env now g (fst s)), snd s)"
| "do_lease_step env (LRemember now t) s = (remember_tunnel env now t (fst s), snd s)"
| "do_lease_step env (LAcquire now g) s =
     (let (c, x) = acquire_lease now g (fst s) in (c, case x of None \<Rightarrow> snd s | Some l \<Rightarrow> l # snd s))"
| "do_lease_step env (LDrop now l) s = (drop_lease now l (fst s), remove1 l (snd s))"
| "do_lease_step env (LSweep now) s = (idle_sweep env now (fst s), snd s)"
| "do_lease_step env (LConfigure now g) s = (fst (configure_server now g (fst s)), snd s)"
| "do_lease_step env (LRemove now g) s = (remove_server now g (fst s), snd s)"

text \<open>Only held leases are dropped, and no tunnel is remembered in the place of one that is leased.\<close>

primrec lease_step_ok :: "lease_step \<Rightarrow> ttp_lease list \<Rightarrow> bool" where
  "lease_step_ok (LFind now g) h = True"
| "lease_step_ok (LRemember now t) h = ((tr_remote_id t, tunnel_key t) \<notin> set h)"
| "lease_step_ok (LAcquire now g) h = True"
| "lease_step_ok (LDrop now l) h = (l \<in> set h)"
| "lease_step_ok (LSweep now) h = True"
| "lease_step_ok (LConfigure now g) h = True"
| "lease_step_ok (LRemove now g) h = True"

fun lease_steps_ok :: "ttp_env \<Rightarrow> lease_step list \<Rightarrow> ttp_client \<times> ttp_lease list \<Rightarrow> bool" where
  "lease_steps_ok env [] s = True"
| "lease_steps_ok env (x # xs) s = (lease_step_ok x (snd s) \<and> lease_steps_ok env xs (do_lease_step env x s))"

definition leases_counted :: "ttp_client \<times> ttp_lease list \<Rightarrow> bool" where
  "leases_counted s \<longleftrightarrow> cache_wf (tc_tunnels (fst s)) \<and>
     (\<forall>i k e. cache_at (tc_tunnels (fst s)) i k = Some e \<longrightarrow> tce_leases e = count_list (snd s) (i, k))"

section \<open>The cache\<close>

lemma hm_get_mapped: "hm_get (map (\<lambda>(k, v). (k, f v)) m) k = map_option f (hm_get m k)"
  unfolding hm_get_def by (induction m) auto

lemma hm_wf_mapped: "hm_wf (map (\<lambda>(k, v). (k, f v)) m) = hm_wf m"
  by (simp add: hm_wf_def comp_def split_beta)

lemma cache_wfD: "cache_wf m \<Longrightarrow> hm_get m i = Some es \<Longrightarrow> hm_wf es"
  by (auto simp: cache_wf_def hm_values_def dest!: hm_get_SomeD)

lemma hm_values_insert: "set (hm_values (hm_insert i x m)) \<subseteq> insert x (set (hm_values m))"
  unfolding hm_values_def hm_insert_def by (induction m) auto

lemma cache_wf_set: "cache_wf m \<Longrightarrow> hm_wf es \<Longrightarrow> cache_wf (hm_insert i es m)"
  using hm_values_insert [of i es m] by (auto simp: cache_wf_def hm.wf_insert)

lemma cache_wf_insert: "cache_wf m \<Longrightarrow> cache_wf (cache_insert i k e m)"
  unfolding cache_insert_def
  by (rule cache_wf_set) (auto intro!: hm.wf_insert hm.wf_empty dest: cache_wfD split: option.split)

lemma cache_at_set: "cache_at (hm_insert i es m) i' k = (if i' = i then hm_get es k else cache_at m i' k)"
  by (simp add: cache_at_def hm.get_insert)

lemma cache_at_insert: "cache_at (cache_insert i k e m) i' k' = (if i' = i \<and> k' = k then Some e else cache_at m i' k')"
  by (auto simp: cache_insert_def cache_at_set hm.get_insert cache_at_def hm.get_empty split: option.splits)

text \<open>A map of maps in which the inner maps are pruned and the empty ones go.\<close>

lemma cache_wf_prune:
  assumes "cache_wf m"
  shows "cache_wf (hm_retain (\<lambda>_ es. es \<noteq> []) (map (\<lambda>(i, es). (i, hm_retain P (map (\<lambda>(k, e). (k, f e)) es))) m))"
  using assms
  by (auto simp: cache_wf_def hm_wf_mapped hm_values_def hm_retain_def intro!: hm.wf_retain [unfolded hm_retain_def])

lemma cache_at_prune:
  assumes "cache_wf m"
  shows "cache_at (hm_retain (\<lambda>_ es. es \<noteq> []) (map (\<lambda>(i, es). (i, hm_retain P (map (\<lambda>(k, e). (k, f e)) es))) m)) i k =
         (case cache_at m i k of None \<Rightarrow> None | Some e \<Rightarrow> if P k (f e) then Some (f e) else None)"
proof (cases "hm_get m i")
  case None
  with assms show ?thesis
    by (simp add: cache_at_def hm.get_retain hm_wf_mapped hm_get_mapped cache_wf_def)
next
  case (Some es)
  let ?es = "hm_retain P (map (\<lambda>(k, e). (k, f e)) es)"
  have "hm_get ?es k = (case hm_get es k of None \<Rightarrow> None | Some e \<Rightarrow> if P k (f e) then Some (f e) else None)"
    using cache_wfD [OF assms Some] by (simp add: hm.get_retain hm_wf_mapped hm_get_mapped split: option.split)
  with assms Some show ?thesis
    by (auto simp: cache_at_def hm.get_retain hm_wf_mapped hm_get_mapped cache_wf_def hm.get_empty split: option.splits)
qed

lemma cache_at_release:
  assumes "cache_wf m"
  shows "cache_at (release_idle_tunnels env idle gs now m) i k =
         (case cache_at m i k of
            None \<Rightarrow> None
          | Some e \<Rightarrow> let e' = e\<lparr>tce_maintained := maintained_by gs (tce_tunnel e)\<rparr>
                      in if keep_entry (tv_available env now) idle now e' then Some e' else None)"
  unfolding release_idle_tunnels_def cache_at_prune [OF assms] Let_def ..

lemma cache_wf_release: "cache_wf m \<Longrightarrow> cache_wf (release_idle_tunnels env idle gs now m)"
  unfolding release_idle_tunnels_def by (rule cache_wf_prune)

lemma cache_touch_cases:
  assumes "cache_wf m" "cache_touch i P f m = (m', x)"
  obtains "x = None" "m' = m"
  | k e where "x = Some (k, e)" "cache_at m i k = Some e" "P e" "cache_wf m'"
      "\<And>i' k'. cache_at m' i' k' = (if i' = i \<and> k' = k then Some (f e) else cache_at m i' k')"
proof (cases "hm_get m i")
  case None
  with assms(2) that(1) show ?thesis by (simp add: cache_touch_def)
next
  case (Some es)
  show ?thesis
  proof (cases "find (\<lambda>(k, e). P e) es")
    case None
    with Some assms(2) that(1) show ?thesis by (simp add: cache_touch_def)
  next
    case found: (Some ke)
    obtain k e where ke: "ke = (k, e)" by fastforce
    from found ke have *: "(k, e) \<in> set es" "P e" by (auto simp: find_Some_iff in_set_conv_nth)
    have wf: "hm_wf es" by (rule cache_wfD [OF assms(1) Some])
    then have at: "hm_get es k = Some e" using * by (simp add: hm_get_in_set)
    have m': "m' = hm_insert i (hm_insert k (f e) es) m" "x = Some (k, e)"
      using assms(2) Some found ke by (simp_all add: cache_touch_def)
    show ?thesis
    proof (rule that(2))
      show "cache_at m i k = Some e" using Some at by (simp add: cache_at_def)
      show "cache_wf m'" unfolding m' by (rule cache_wf_set [OF assms(1) hm.wf_insert [OF wf]])
      show "cache_at m' i' k' = (if i' = i \<and> k' = k then Some (f e) else cache_at m i' k')" for i' k'
        using Some by (auto simp: m' cache_at_set hm.get_insert cache_at_def)
    qed (use * m' in simp_all)
  qed
qed

lemma cache_touch_None: "cache_touch i P f m = (m', None) \<Longrightarrow> cache_wf m \<Longrightarrow> cache_at m i k = Some e \<Longrightarrow> \<not> P e"
  by (cases k) (auto simp: cache_touch_def cache_at_def find_None_iff split: option.splits dest!: hm_get_SomeD)

section \<open>Leases\<close>

lemma cache_at_refresh:
  "cache_at (tc_tunnels (refresh_maintained_cache_state now i c)) i' k =
     (if i' = i
      then map_option (\<lambda>e. e\<lparr>tce_maintained := maintained_by (tc_targets c) (tce_tunnel e), tce_last_used := now\<rparr>) (cache_at (tc_tunnels c) i k)
      else cache_at (tc_tunnels c) i' k)"
  by (auto simp: refresh_maintained_cache_state_def hm.get_insert hm_get_mapped cache_at_def split: option.splits)

lemma cache_wf_refresh: "cache_wf (tc_tunnels c) \<Longrightarrow> cache_wf (tc_tunnels (refresh_maintained_cache_state now i c))"
  by (auto simp: refresh_maintained_cache_state_def hm_wf_mapped intro!: cache_wf_set dest: cache_wfD split: option.split)

lemma drop_lease_cases:
  assumes "cache_wf (tc_tunnels c)"
  shows "cache_wf (tc_tunnels (drop_lease now l c))"
    and "cache_at (tc_tunnels (drop_lease now l c)) i k =
         (if (i, k) = l then map_option (\<lambda>e. e\<lparr>tce_leases := tce_leases e - 1, tce_last_used := now\<rparr>) (cache_at (tc_tunnels c) i k)
          else cache_at (tc_tunnels c) i k)"
  using assms
  by (cases l; auto simp: drop_lease_def cache_at_set hm.get_insert cache_at_def split: option.splits
      intro!: cache_wf_set hm.wf_insert dest: cache_wfD)+

lemma sweep_entry:
  assumes "cache_wf (tc_tunnels c)"
  shows "cache_at (tc_tunnels (idle_sweep env now c)) i k = Some e' \<Longrightarrow>
         \<exists>e. cache_at (tc_tunnels c) i k = Some e \<and> tce_tunnel e' = tce_tunnel e \<and> tce_leases e' = tce_leases e \<and>
             tce_maintained e' = maintained_by (tc_targets c) (tce_tunnel e) \<and>
             keep_entry (tv_available env now) (tc_idle_timeout c) now e'"
    and "cache_at (tc_tunnels c) i k = Some e \<Longrightarrow> tce_leases e > 0 \<Longrightarrow> tv_available env now (tr_addr (tce_tunnel e)) \<Longrightarrow>
         \<exists>e'. cache_at (tc_tunnels (idle_sweep env now c)) i k = Some e' \<and> tce_tunnel e' = tce_tunnel e \<and> tce_leases e' = tce_leases e"
  using assms
  by (auto simp: idle_sweep_def cache_at_release Let_def keep_entry_def split: option.splits if_splits)

lemma cache_wf_sweep: "cache_wf (tc_tunnels c) \<Longrightarrow> cache_wf (tc_tunnels (idle_sweep env now c))"
  by (simp add: idle_sweep_def cache_wf_release)

lemma find_leaves:
  assumes "cache_wf (tc_tunnels c)"
  shows "cache_wf (tc_tunnels (fst (find_existing_tunnel env now g c)))"
    and "\<exists>P. \<forall>i k. cache_at (tc_tunnels (fst (find_existing_tunnel env now g c))) i k =
           map_option (\<lambda>e. if P i k then e\<lparr>tce_last_used := now\<rparr> else e) (cache_at (tc_tunnels (idle_sweep env now c)) i k)"
proof -
  obtain m x where t: "cache_touch (tt_remote_id g) (\<lambda>e. match_target (tce_tunnel e) g) (\<lambda>e. e\<lparr>tce_last_used := now\<rparr>)
      (tc_tunnels (idle_sweep env now c)) = (m, x)" by fastforce
  then have m: "tc_tunnels (fst (find_existing_tunnel env now g c)) = m" by (simp add: find_existing_tunnel_def)
  have wf: "cache_wf (tc_tunnels (idle_sweep env now c))" by (rule cache_wf_sweep [OF assms])
  from wf t have "cache_wf m \<and> (\<exists>P. \<forall>i k. cache_at m i k =
      map_option (\<lambda>e. if P i k then e\<lparr>tce_last_used := now\<rparr> else e) (cache_at (tc_tunnels (idle_sweep env now c)) i k))"
  proof (cases rule: cache_touch_cases)
    case 1
    with wf show ?thesis by (auto intro!: exI [of _ "\<lambda>_ _. False"] simp: option.map_ident)
  next
    case (2 k e)
    then show ?thesis by (auto intro!: exI [of _ "\<lambda>i' k'. i' = tt_remote_id g \<and> k' = k"] simp: option.map_ident)
  qed
  with m show "cache_wf (tc_tunnels (fst (find_existing_tunnel env now g c)))"
    and "\<exists>P. \<forall>i k. cache_at (tc_tunnels (fst (find_existing_tunnel env now g c))) i k =
           map_option (\<lambda>e. if P i k then e\<lparr>tce_last_used := now\<rparr> else e) (cache_at (tc_tunnels (idle_sweep env now c)) i k)"
    by simp_all
qed

lemma count_list_remove1: "count_list (remove1 x xs) y = (if y = x then count_list xs y - 1 else count_list xs y)"
  by (induction xs) (auto simp: count_list_0_iff)

lemma configure_server_cache: "tc_tunnels (fst (configure_server now g c)) =
    tc_tunnels (refresh_maintained_cache_state now (tt_remote_id g)
      (if list_ex (\<lambda>h. same_server h g) (tc_targets c) then c else c\<lparr>tc_targets := tc_targets c @ [g]\<rparr>))"
  by (simp add: configure_server_def Let_def)

text \<open>Every step is a way to change the entries: which are there afterwards, and with which tunnel and leases.\<close>

lemma lease_step_entry:
  assumes "leases_counted s" "lease_step_ok x (snd s)"
    and "cache_at (tc_tunnels (fst (do_lease_step env x s))) i k = Some e'"
  shows "tce_leases e' = count_list (snd (do_lease_step env x s)) (i, k)"
proof -
  have C: "tce_leases e = count_list (snd s) (i, k)" if "cache_at (tc_tunnels (fst s)) i k = Some e" for i k e
    using assms(1) that unfolding leases_counted_def by blast
  have wf: "cache_wf (tc_tunnels (fst s))" using assms(1) unfolding leases_counted_def by blast
  have S: "tce_leases e = count_list (snd s) (i, k)"
    if "cache_at (tc_tunnels (idle_sweep env now (fst s))) i k = Some e" for now i k e
    using sweep_entry(1) [OF wf that] C by fastforce
  show ?thesis
  proof (cases x)
    case (LFind now g)
    obtain P where P: "\<forall>i k. cache_at (tc_tunnels (fst (find_existing_tunnel env now g (fst s)))) i k =
        map_option (\<lambda>e. if P i k then e\<lparr>tce_last_used := now\<rparr> else e) (cache_at (tc_tunnels (idle_sweep env now (fst s))) i k)"
      using find_leaves(2) [OF wf] by blast
    with LFind assms(3) obtain e where "cache_at (tc_tunnels (idle_sweep env now (fst s))) i k = Some e" "tce_leases e' = tce_leases e"
      by (auto split: if_splits)
    with S LFind show ?thesis by simp
  next
    case (LRemember now t)
    with assms(2,3) show ?thesis by (auto simp: remember_tunnel_def cache_at_insert count_list_0_iff S split: if_splits)
  next
    case (LAcquire now g)
    obtain m y where t: "cache_touch (tt_remote_id g) (\<lambda>e. match_target (tce_tunnel e) g)
        (\<lambda>e. e\<lparr>tce_leases := tce_leases e + 1, tce_last_used := now\<rparr>) (tc_tunnels (fst s)) = (m, y)" by fastforce
    from wf t show ?thesis
      by (cases rule: cache_touch_cases) (use t LAcquire assms(3) in \<open>auto simp: acquire_lease_def C split: if_splits\<close>)
  next
    case (LDrop now l)
    with assms(3) show ?thesis by (auto simp: C drop_lease_cases [OF wf] count_list_remove1 split: if_splits)
  next
    case (LSweep now)
    with assms(3) S show ?thesis by simp
  next
    case (LConfigure now g)
    with assms(3) show ?thesis by (auto simp: C configure_server_cache cache_at_refresh split: if_splits)
  next
    case (LRemove now g)
    with assms(3) show ?thesis by (auto simp: C remove_server_def cache_at_refresh split: if_splits)
  qed
qed

lemma lease_step_wf:
  assumes "cache_wf (tc_tunnels (fst s))"
  shows "cache_wf (tc_tunnels (fst (do_lease_step env x s)))"
proof (cases x)
  case (LAcquire now g)
  obtain m y where t: "cache_touch (tt_remote_id g) (\<lambda>e. match_target (tce_tunnel e) g)
      (\<lambda>e. e\<lparr>tce_leases := tce_leases e + 1, tce_last_used := now\<rparr>) (tc_tunnels (fst s)) = (m, y)" by fastforce
  from assms t have "cache_wf m" by (cases rule: cache_touch_cases) (use assms in auto)
  with t LAcquire show ?thesis by (simp add: acquire_lease_def)
qed (use assms in \<open>auto simp: find_leaves(1) remember_tunnel_def cache_wf_insert cache_wf_sweep drop_lease_cases configure_server_cache
    remove_server_def intro!: cache_wf_refresh\<close>)

lemma lease_step_counted:
  assumes "leases_counted s" "lease_step_ok x (snd s)"
  shows "leases_counted (do_lease_step env x s)"
  using lease_step_entry [OF assms] lease_step_wf assms(1) unfolding leases_counted_def by blast

lemma lease_step_keeps:
  assumes "leases_counted s" "lease_step_ok x (snd s)" "(i, k) \<in> set (snd s)" "cache_at (tc_tunnels (fst s)) i k = Some e"
    and avail: "\<And>now. tv_available env now (tr_addr (tce_tunnel e))"
    and kept: "\<And>now. x \<noteq> LDrop now (i, k)"
  shows "(i, k) \<in> set (snd (do_lease_step env x s))"
    and "\<exists>e'. cache_at (tc_tunnels (fst (do_lease_step env x s))) i k = Some e' \<and> tce_tunnel e' = tce_tunnel e"
proof -
  have wf: "cache_wf (tc_tunnels (fst s))" using assms(1) unfolding leases_counted_def by blast
  have "tce_leases e = count_list (snd s) (i, k)" using assms(1,4) unfolding leases_counted_def by blast
  with assms(3) have "tce_leases e > 0" by (simp add: count_list_0_iff zero_less_iff_neq_zero)
  then have S: "\<exists>e'. cache_at (tc_tunnels (idle_sweep env now (fst s))) i k = Some e' \<and> tce_tunnel e' = tce_tunnel e" for now
    using sweep_entry(2) [OF wf assms(4)] avail by blast
  show "(i, k) \<in> set (snd (do_lease_step env x s))"
  proof (cases x)
    case (LDrop now l)
    with kept have "(i, k) \<noteq> l" by blast
    with assms(3) LDrop show ?thesis by simp
  qed (use assms(3) in \<open>auto split: prod.split option.split\<close>)
  show "\<exists>e'. cache_at (tc_tunnels (fst (do_lease_step env x s))) i k = Some e' \<and> tce_tunnel e' = tce_tunnel e"
  proof (cases x)
    case (LFind now g)
    from S [of now] obtain e' where e': "cache_at (tc_tunnels (idle_sweep env now (fst s))) i k = Some e'" "tce_tunnel e' = tce_tunnel e"
      by blast
    from find_leaves(2) [OF wf, of env now g] obtain P where
      "cache_at (tc_tunnels (fst (find_existing_tunnel env now g (fst s)))) i k =
         map_option (\<lambda>e. if P i k then e\<lparr>tce_last_used := now\<rparr> else e) (cache_at (tc_tunnels (idle_sweep env now (fst s))) i k)" by blast
    with e' LFind show ?thesis by simp
  next
    case (LRemember now t)
    with assms(2,3) S [of now] show ?thesis by (auto simp: remember_tunnel_def cache_at_insert)
  next
    case (LAcquire now g)
    obtain m y where t: "cache_touch (tt_remote_id g) (\<lambda>e. match_target (tce_tunnel e) g)
        (\<lambda>e. e\<lparr>tce_leases := tce_leases e + 1, tce_last_used := now\<rparr>) (tc_tunnels (fst s)) = (m, y)" by fastforce
    from wf t show ?thesis
      by (cases rule: cache_touch_cases) (use t LAcquire assms(4) in \<open>auto simp: acquire_lease_def\<close>)
  next
    case (LDrop now l)
    with assms(4) kept show ?thesis by (auto simp: drop_lease_cases(2) [OF wf])
  qed (use assms(4) S in \<open>auto simp: configure_server_cache remove_server_def cache_at_refresh\<close>)
qed

lemma leases_counted_run:
  "leases_counted s \<Longrightarrow> lease_steps_ok env xs s \<Longrightarrow> leases_counted (fold (do_lease_step env) xs s)"
  by (induction xs arbitrary: s) (simp_all add: lease_step_counted)

lemma lease_steps_ok_append:
  "lease_steps_ok env (xs @ ys) s \<longleftrightarrow> lease_steps_ok env xs s \<and> lease_steps_ok env ys (fold (do_lease_step env) xs s)"
  by (induction xs arbitrary: s) auto

lemma leased_run:
  assumes "leases_counted s" "lease_steps_ok env ys s" "(i, k) \<in> set (snd s)" "cache_at (tc_tunnels (fst s)) i k = Some e"
    and "\<And>now. tv_available env now (tr_addr (tce_tunnel e))" "\<And>now. LDrop now (i, k) \<notin> set ys"
  shows "\<exists>e'. cache_at (tc_tunnels (fst (fold (do_lease_step env) ys s))) i k = Some e' \<and> tce_tunnel e' = tce_tunnel e"
  using assms
proof (induction ys arbitrary: s e)
  case (Cons y ys)
  have no: "y \<noteq> LDrop now (i, k)" for now using Cons.prems(6) [of now] by auto
  have ok: "lease_step_ok y (snd s)" using Cons.prems(2) by simp
  note keep = lease_step_keeps [OF Cons.prems(1) ok Cons.prems(3,4,5) no]
  from keep(2) obtain e' where e': "cache_at (tc_tunnels (fst (do_lease_step env y s))) i k = Some e'" "tce_tunnel e' = tce_tunnel e"
    by blast
  have "\<exists>e''. cache_at (tc_tunnels (fst (fold (do_lease_step env) ys (do_lease_step env y s)))) i k = Some e'' \<and> tce_tunnel e'' = tce_tunnel e'"
    by (rule Cons.IH [OF lease_step_counted [OF Cons.prems(1) ok] _ keep(1) e'(1)]) (use Cons.prems(2,5,6) e'(2) in auto)
  with e'(2) show ?case by simp
qed simp

lemma new_client_counted: "leases_counted (ttp_client_new idle, [])"
  by (simp add: leases_counted_def ttp_client_new_def cache_at_def cache_wf_def hm_values_def hm.wf_empty hm.get_empty)


subsection \<open>Examples\<close>

definition some_remote :: endpoint where
  "some_remote = \<lparr>area = Wan, protocol = Quic, addr = V4 (Ipv4 1 2 3 4) 5\<rparr>"

text \<open>A tunnel and its local port.\<close>

definition some_tunnel :: "nat \<Rightarrow> u16 \<Rightarrow> tunnel_ref" where
  "some_tunnel a port =
     \<lparr>tr_addr = a, tr_local_id = P2pId [1], tr_remote_id = P2pId [2], tr_protocol = Quic, tr_tunnel_id = TunnelId 1,
      tr_candidate_id = TunnelCandidateId 1, tr_local_ep = Some \<lparr>area = Lan, protocol = Quic, addr = V4 (Ipv4 9 9 9 9) port\<rparr>,
      tr_remote_ep = Some some_remote\<rparr>"

definition some_target :: ttp_target where
  "some_target = \<lparr>tt_local_ep = None, tt_remote_ep = some_remote, tt_remote_id = P2pId [2], tt_remote_name = None\<rparr>"

text \<open>The tunnel numbered 0 lasts until \<open>until\<close>, the others for ever; creating gives the tunnel numbered \<open>n\<close>, with a port of
  its own.\<close>

definition some_env :: "instant \<Rightarrow> nat \<Rightarrow> ttp_env" where
  "some_env until n =
     \<lparr>tv_available = (\<lambda>now a. a = 0 \<longrightarrow> now < until), tv_alive = (\<lambda>_ _. True), tv_network = (\<lambda>_. Inr ()),
      tv_create = (\<lambda>_. Inr (some_tunnel n (of_nat n))), tv_listen = (\<lambda>_ _. Inr ()), tv_open = (\<lambda>_ _ _. Inr ())\<rparr>"

lemmas some_defs = some_env_def some_target_def some_tunnel_def some_remote_def ttp_client_new_def ttp_dispatch_new_def
lemmas client_defs = remember_tunnel_def acquire_lease_def drop_lease_def idle_sweep_def release_idle_tunnels_def cache_touch_def cache_insert_def
  keep_entry_def maintained_by_def match_target_def endpoint_eq_def endpoint_default_def tunnel_key_def find_existing_tunnel_def
  hm_get_def hm_insert_def hm_retain_def hm_remove_def cache_at_def Let_def


text \<open>a lease names the endpoints of its tunnel, not the tunnel. When a tunnel goes while a channel of it is still held
  and a new one with the same endpoints takes its place, the old lease, dropped late, is counted off the new
  tunnel: that one is swept as idle while a lease of it is held.\<close>

theorem stale_lease_uncounts:
  "let s = fold (do_lease_step (some_env 10 1))
             [LRemember 0 (some_tunnel 0 7), LAcquire 1 some_target, LRemember 20 (some_tunnel 1 7), LAcquire 21 some_target,
              LDrop 22 (P2pId [2], tunnel_key (some_tunnel 0 7)), LSweep 32]
             (ttp_client_new 10, [])
   in snd s = [(P2pId [2], tunnel_key (some_tunnel 1 7))] \<and> tc_tunnels (fst s) = [] \<and> tv_available (some_env 10 1) 32 1"
  by (simp add: client_defs some_defs)

section \<open>Opening\<close>

lemma find_after_update:
  assumes "hm_wf es" "find (\<lambda>(k, e). P e) es = Some (k, e)" "P e'"
  shows "find (\<lambda>(k, e). P e) (hm_insert k e' es) = Some (k, e')"
  using assms unfolding hm_insert_def
proof (induction es)
  case (Cons x es)
  obtain k0 e0 where x: "x = (k0, e0)" by fastforce
  show ?case
  proof (cases "P e0")
    case True
    with Cons.prems x show ?thesis by simp
  next
    case False
    with Cons.prems(2) x have f: "find (\<lambda>(k, e). P e) es = Some (k, e)" by simp
    then have "(k, e) \<in> set es" by (auto simp: find_Some_iff in_set_conv_nth)
    with Cons.prems(1) x have "k \<noteq> k0" by (auto simp: hm_wf_def image_iff)
    with Cons.IH [OF _ f Cons.prems(3)] Cons.prems(1) x False show ?thesis by simp
  qed
qed simp

lemma touch_again:
  assumes "cache_wf m" "cache_touch i P f m = (m', Some (k, e))" "P (f e)"
  shows "cache_touch i P h m' = (hm_insert i (hm_insert k (h (f e)) (the (hm_get m' i))) m', Some (k, f e))"
proof -
  obtain es where es: "hm_get m i = Some es" "find (\<lambda>(k, e). P e) es = Some (k, e)" "m' = hm_insert i (hm_insert k (f e) es) m"
    using assms(2) by (auto simp: cache_touch_def split: option.splits)
  have "find (\<lambda>(k, e). P e) (hm_insert k (f e) es) = Some (k, f e)"
    by (rule find_after_update [OF cache_wfD [OF assms(1) es(1)] es(2) assms(3)])
  then show ?thesis by (simp add: cache_touch_def es(3) hm.get_insert)
qed

text \<open>What a lookup finds, and that a lease taken right after it is a lease of what it found.\<close>

lemma found_tunnel:
  assumes "cache_wf (tc_tunnels c)" "find_existing_tunnel env now g c = (c', Some t)"
  shows "tv_available env now (tr_addr t)" "match_target t g"
    and "\<exists>c'' k e. acquire_lease now' g c' = (c'', Some (tt_remote_id g, k)) \<and>
           cache_at (tc_tunnels c'') (tt_remote_id g) k = Some e \<and> tce_tunnel e = t \<and> tce_leases e > 0"
proof -
  let ?m = "tc_tunnels (idle_sweep env now c)" and ?f = "\<lambda>e. e\<lparr>tce_last_used := now\<rparr>"
  obtain m k e where t: "cache_touch (tt_remote_id g) (\<lambda>e. match_target (tce_tunnel e) g) ?f ?m = (m, Some (k, e))"
    and c': "c' = c\<lparr>tc_tunnels := m\<rparr>" "t = tce_tunnel e"
    using assms(2) by (auto simp: find_existing_tunnel_def split: prod.splits)
  have wf: "cache_wf ?m" by (rule cache_wf_sweep [OF assms(1)])
  from wf t have e: "cache_at ?m (tt_remote_id g) k = Some e" "match_target (tce_tunnel e) g"
    by (auto elim: cache_touch_cases)
  from sweep_entry(1) [OF assms(1) e(1)] c'(2) show "tv_available env now (tr_addr t)" by (auto simp: keep_entry_def)
  show "match_target t g" using e(2) c'(2) by simp
  show "\<exists>c'' k e. acquire_lease now' g c' = (c'', Some (tt_remote_id g, k)) \<and>
      cache_at (tc_tunnels c'') (tt_remote_id g) k = Some e \<and> tce_tunnel e = t \<and> tce_leases e > 0"
    using touch_again [OF wf t, of "\<lambda>e. e\<lparr>tce_leases := tce_leases e + 1, tce_last_used := now'\<rparr>"] e(2) c'
    by (auto simp: acquire_lease_def cache_at_set hm.get_insert)
qed

lemma remembered_tunnel:
  assumes "cache_wf (tc_tunnels c)" "match_target t g"
    and none: "\<And>k e. cache_at (tc_tunnels c) (tt_remote_id g) k = Some e \<Longrightarrow> \<not> match_target (tce_tunnel e) g"
  shows "\<exists>c'' k e. acquire_lease now g (remember_tunnel env now t c) = (c'', Some (tt_remote_id g, k)) \<and>
           cache_at (tc_tunnels c'') (tt_remote_id g) k = Some e \<and> tce_tunnel e = t \<and> tce_leases e > 0"
proof -
  let ?c = "remember_tunnel env now t c" and ?f = "\<lambda>e. e\<lparr>tce_leases := tce_leases e + 1, tce_last_used := now\<rparr>"
  have id: "tr_remote_id t = tt_remote_id g" using assms(2) by (simp add: match_target_def split: if_splits)
  have wf: "cache_wf (tc_tunnels ?c)" by (simp add: remember_tunnel_def cache_wf_insert cache_wf_sweep assms(1))
  have new: "\<exists>e. cache_at (tc_tunnels ?c) (tt_remote_id g) (tunnel_key t) = Some e \<and> tce_tunnel e = t"
    by (simp add: remember_tunnel_def cache_at_insert id)
  have only: "tce_tunnel e = t" if at: "cache_at (tc_tunnels ?c) (tt_remote_id g) k = Some e" and fits: "match_target (tce_tunnel e) g" for k e
  proof (cases "k = tunnel_key t")
    case True
    with at show ?thesis by (auto simp: remember_tunnel_def cache_at_insert id)
  next
    case False
    with at have "cache_at (tc_tunnels (idle_sweep env now c)) (tt_remote_id g) k = Some e"
      by (simp add: remember_tunnel_def cache_at_insert)
    with sweep_entry(1) [OF assms(1)] none fits show ?thesis by metis
  qed
  obtain m x where t: "cache_touch (tt_remote_id g) (\<lambda>e. match_target (tce_tunnel e) g) ?f (tc_tunnels ?c) = (m, x)" by fastforce
  from wf t show ?thesis
  proof (cases rule: cache_touch_cases)
    case 1
    with t cache_touch_None [OF _ wf] new assms(2) show ?thesis by blast
  next
    case (2 k e)
    with t only show ?thesis by (auto simp: acquire_lease_def)
  qed
qed

text \<open>Opening a channel, when nothing else happens in between, uses and leases one tunnel: it is connected and fits the
  target or was just created for it, and the lease that is taken is counted on its entry of the cache, so that
  opening never fails for a missing entry. That a created tunnel fits the target it was created for is what the
  networks promise.\<close>

theorem opened_tunnel_is_leased:
  assumes "cache_wf (tc_tunnels c)" "\<And>t. tv_create env g = Inr t \<Longrightarrow> match_target t g"
    and "get_or_create_tunnel env id id now now' g c = (c1, Inr t)"
  shows "match_target t g"
    and "tv_available env now (tr_addr t) \<or> tv_create env g = Inr t"
    and "\<exists>c2 k e. acquire_lease now' g c1 = (c2, Some (tt_remote_id g, k)) \<and>
           cache_at (tc_tunnels c2) (tt_remote_id g) k = Some e \<and> tce_tunnel e = t \<and> tce_leases e > 0"
proof -
  obtain c0 x where f: "find_existing_tunnel env now g c = (c0, x)" by fastforce
  have "match_target t g \<and> (tv_available env now (tr_addr t) \<or> tv_create env g = Inr t) \<and>
      (\<exists>c2 k e. acquire_lease now' g c1 = (c2, Some (tt_remote_id g, k)) \<and>
         cache_at (tc_tunnels c2) (tt_remote_id g) k = Some e \<and> tce_tunnel e = t \<and> tce_leases e > 0)"
  proof (cases x)
    case (Some t')
    with f assms(3) have "t' = t" "c1 = c0" by (simp_all add: get_or_create_tunnel_def)
    with f Some have "find_existing_tunnel env now g c = (c1, Some t)" by simp
    from found_tunnel [OF assms(1) this] show ?thesis by blast
  next
    case None
    then obtain d ks where new: "tv_create env g = Inr t" "attach_tunnel env now' t (tc_dispatch c0) = (d, ks, Inr ())"
      "c1 = remember_tunnel env now' t (c0\<lparr>tc_dispatch := d\<rparr>)"
      using f assms(3) by (auto simp: get_or_create_tunnel_def Let_def split: sum.splits prod.splits)
    from f None have c0: "cache_touch (tt_remote_id g) (\<lambda>e. match_target (tce_tunnel e) g) (\<lambda>e. e\<lparr>tce_last_used := now\<rparr>)
        (tc_tunnels (idle_sweep env now c)) = (tc_tunnels c0, None)"
      by (auto simp: find_existing_tunnel_def split: prod.splits)
    have wf: "cache_wf (tc_tunnels (idle_sweep env now c))" by (rule cache_wf_sweep [OF assms(1)])
    have same: "tc_tunnels c0 = tc_tunnels (idle_sweep env now c)" using c0 by (auto simp: cache_touch_def split: option.splits)
    have "\<not> match_target (tce_tunnel e) g" if "cache_at (tc_tunnels c0) (tt_remote_id g) k = Some e" for k e
      using cache_touch_None [OF c0 wf] that same by metis
    then show ?thesis
      using remembered_tunnel [of "c0\<lparr>tc_dispatch := d\<rparr>" t g now' env] assms(2) [OF new(1)] new wf same by simp
  qed
  then show "match_target t g" "tv_available env now (tr_addr t) \<or> tv_create env g = Inr t"
    and "\<exists>c2 k e. acquire_lease now' g c1 = (c2, Some (tt_remote_id g, k)) \<and>
           cache_at (tc_tunnels c2) (tt_remote_id g) k = Some e \<and> tce_tunnel e = t \<and> tce_leases e > 0"
    by blast+
qed

theorem opened_tunnel_is_leased_witness:
  "match_target (some_tunnel 1 1) some_target"
proof (rule opened_tunnel_is_leased(1) [of "ttp_client_new 10" "some_env 10 1" some_target 0 1])
  show "cache_wf (tc_tunnels (ttp_client_new 10))" by (simp add: ttp_client_new_def cache_wf_def hm_values_def hm.wf_empty)
  show "match_target t some_target" if "tv_create (some_env 10 1) some_target = Inr t" for t
    using that by (auto simp: some_defs client_defs)
  show "get_or_create_tunnel (some_env 10 1) id id 0 1 some_target (ttp_client_new 10) =
      (fst (get_or_create_tunnel (some_env 10 1) id id 0 1 some_target (ttp_client_new 10)), Inr (some_tunnel 1 1))"
    by (simp add: get_or_create_tunnel_def some_defs client_defs attach_tunnel_def try_mark_attached_def)
qed

text \<open>with another opening in between this is lost: both create a tunnel, and both leases are of the one the cache shows
  first. The other tunnel is swept as idle although a channel is open on it.\<close>

theorem lease_of_another_tunnel:
  "let other = (\<lambda>c. fst (ttp_open (some_env 10 1) id id id 0 0 StreamChannel some_target (TunnelPurpose []) c));
       (c, r) = ttp_open (some_env 10 2) other id id 0 1 StreamChannel some_target (TunnelPurpose []) (ttp_client_new 10)
   in r = Inr (opened_meta (some_tunnel 2 2) some_target (TunnelPurpose []), P2pId [2], tunnel_key (some_tunnel 1 1)) \<and>
      cache_at (tc_tunnels c) (P2pId [2]) (tunnel_key (some_tunnel 2 2)) \<noteq> None \<and>
      cache_at (tc_tunnels (idle_sweep (some_env 10 2) 11 c)) (P2pId [2]) (tunnel_key (some_tunnel 2 2)) = None"
  by (simp add: ttp_open_def get_or_create_tunnel_def some_defs client_defs attach_tunnel_def try_mark_attached_def opened_meta_def)

section \<open>Attaching\<close>

lemma attached_stays:
  assumes "\<And>now. tv_alive env now (tr_addr t)" "tr_addr t \<in> set (td_attached d)"
  shows "tr_addr t \<in> set (td_attached (fst (attach_tunnel env now u d)))"
  using assms by (auto simp: attach_tunnel_def try_mark_attached_def Let_def)

lemma attach_marks: "tr_addr t \<in> set (td_attached (fst (attach_tunnel env now t d)))"
  by (auto simp: attach_tunnel_def try_mark_attached_def Let_def)

text \<open>A tunnel is attached once: as long as somebody holds it, attaching it again, whatever else was attached since,
  succeeds without asking the tunnel to listen a second time.\<close>

theorem attached_once:
  assumes "\<And>now. tv_alive env now (tr_addr t)"
  shows "snd (attach_tunnel env now' t (fold (\<lambda>(n, u) d. fst (attach_tunnel env n u d)) us (fst (attach_tunnel env now t d)))) = ([], Inr ())"
proof -
  have "tr_addr t \<in> set (td_attached (fold (\<lambda>(n, u) d. fst (attach_tunnel env n u d)) us d'))" if "tr_addr t \<in> set (td_attached d')" for d'
    using that by (induction us arbitrary: d') (auto intro: attached_stays [OF assms])
  moreover have "snd (attach_tunnel env now' t d') = ([], Inr ())" if "tr_addr t \<in> set (td_attached d')" for d'
    using that assms by (simp add: attach_tunnel_def try_mark_attached_def)
  ultimately show ?thesis using attach_marks by blast
qed

theorem attached_once_witness:
  "snd (attach_tunnel (some_env 10 1) 5 (some_tunnel 1 7) (fold (\<lambda>(n, u) d. fst (attach_tunnel (some_env 10 1) n u d)) [(3, some_tunnel 0 7)]
     (fst (attach_tunnel (some_env 10 1) 2 (some_tunnel 1 7) ttp_dispatch_new)))) = ([], Inr ())"
  by (rule attached_once) (simp add: some_env_def)

text \<open>a listener that could be registered is called for the channels of its kind and purpose of every attached tunnel, with
  the endpoints and ids of that tunnel; a second listener is refused until the first is taken away.\<close>

theorem listened_channel_delivered:
  assumes "ttp_listen c p cb d = (d', Inr ())"
  shows "incoming_channel t c (Inr p) d' =
           Some (cb, \<lparr>tm_local_ep = tr_local_ep t, tm_remote_ep = tr_remote_ep t, tm_local_id = tr_local_id t,
                      tm_remote_id = tr_remote_id t, tm_remote_name = None, tm_purpose = p\<rparr>)"
    and "ttp_listen c p cb' d' = (d', Inl AlreadyExists)"
    and "(c', p') \<noteq> (c, p) \<Longrightarrow> incoming_channel t c' (Inr p') d' = incoming_channel t c' (Inr p') d"
    and "incoming_channel t c (Inr p) (ttp_unlisten c p d') = None"
  using assms
  by (cases c; cases c'; auto simp: ttp_listen_def ttp_unlisten_def ttp_registry_register_def ttp_registry_unregister_def incoming_channel_def ttp_registry_deliver_def
      hm.get_insert hm_removed split: if_splits)+

theorem listened_channel_delivered_witness:
  "incoming_channel (some_tunnel 1 7) ControlChannel (Inr (TunnelPurpose [])) (ttp_unlisten ControlChannel (TunnelPurpose [])
     (fst (ttp_listen ControlChannel (TunnelPurpose []) 3 ttp_dispatch_new))) = None"
  by (rule listened_channel_delivered(4) [where cb = 3 and d = ttp_dispatch_new])
    (simp add: ttp_listen_def ttp_registry_register_def ttp_dispatch_new_def hm.get_empty)

section \<open>The runtime\<close>

lemma cache_at_available:
  assumes "cache_wf m"
  shows "cache_at (retain_available env now m) i k = Some t \<longleftrightarrow> cache_at m i k = Some t \<and> tv_available env now (tr_addr t)"
  using cache_at_prune [OF assms, of "\<lambda>_ t. tv_available env now (tr_addr t)" id i k]
  by (auto simp: retain_available_def split: option.splits if_splits)

text \<open>What becomes of a tunnel that comes in: it is kept, and then it is in the cache under the peer and the endpoints it
  has, if the validator of the runtime accepted it and it could be attached; otherwise it is closed, and a tunnel
  the validator did not accept leaves the runtime as it was.\<close>

theorem incoming_tunnel_kept_or_closed:
  assumes "accept_incoming_tunnel env validate during now t r = (r', closed)"
  shows "\<not> closed \<longleftrightarrow> validate (incoming_context t) = Inr ValidateAccept \<and> \<not> isl (snd (snd (attach_tunnel env now t (rt_dispatch r))))"
    and "\<not> closed \<Longrightarrow> cache_at (rt_tunnels r') (tr_remote_id t) (tunnel_key t) = Some t"
    and "validate (incoming_context t) \<noteq> Inr ValidateAccept \<Longrightarrow> r' = r"
  using assms
  by (auto simp: accept_incoming_tunnel_def attach_closes_def remember_tunnel_in_multi_def cache_at_insert Let_def
      split: sum.splits validate_result.splits prod.splits)

definition some_runtime :: ttp_runtime where
  "some_runtime = \<lparr>rt_local_id = P2pId [1], rt_dispatch = ttp_dispatch_new, rt_tunnels = [], rt_guard = None\<rparr>"

theorem incoming_tunnel_kept_or_closed_witness:
  "case accept_incoming_tunnel (some_env 10 1) allow_all_ttp_validator id 0 (some_tunnel 1 7) some_runtime of
     (r', closed) \<Rightarrow> cache_at (rt_tunnels r') (P2pId [2]) (tunnel_key (some_tunnel 1 7)) = Some (some_tunnel 1 7)"
proof -
  obtain r' closed where a: "accept_incoming_tunnel (some_env 10 1) allow_all_ttp_validator id 0 (some_tunnel 1 7) some_runtime = (r', closed)"
    by fastforce
  then have "\<not> closed"
    by (auto simp: accept_incoming_tunnel_def allow_all_ttp_validator_def attach_tunnel_def try_mark_attached_def some_runtime_def some_defs)
  with incoming_tunnel_kept_or_closed(2) [OF a] a show ?thesis by (simp add: some_tunnel_def)
qed

text \<open>A server opens channels on tunnels that came in and are still connected, on those of the peer it is asked for only,
  and never creates one.\<close>

theorem server_opens_on_incoming:
  assumes "cache_wf (rt_tunnels r)" "server_open env now kind g p r = (r', Inr meta)"
  shows "\<exists>k t. cache_at (rt_tunnels r) (tt_remote_id g) k = Some t \<and> tv_available env now (tr_addr t) \<and> match_target t g \<and>
           tm_remote_id meta = tt_remote_id g \<and> tm_local_ep meta = tr_local_ep t"
    and "cache_at (rt_tunnels r') i k' = Some u \<Longrightarrow> cache_at (rt_tunnels r) i k' = Some u"
proof -
  let ?m = "retain_available env now (rt_tunnels r)"
  obtain t ts where t: "hm_get ?m (tt_remote_id g) = Some ts" "find (\<lambda>t. match_target t g) (hm_values ts) = Some t"
      "r' = r\<lparr>rt_tunnels := ?m\<rparr>" "meta = (opened_meta t g p)\<lparr>tm_local_ep := tr_local_ep t\<rparr>"
    using assms(2)
    by (auto simp: server_open_def get_existing_tunnel_def find_existing_tunnel_in_multi_def Let_def bind_eq_Some_conv
        split: sum.splits option.splits)
  have wf: "cache_wf ?m"
    using cache_wf_prune [OF assms(1), of "\<lambda>_ t. tv_available env now (tr_addr t)" id] by (simp add: retain_available_def)
  from t(2) have "t \<in> snd ` set ts" "match_target t g" by (auto simp: find_Some_iff hm_values_def)
  then obtain k where k: "(k, t) \<in> set ts" "match_target t g" by fastforce
  then have "cache_at ?m (tt_remote_id g) k = Some t"
    using t(1) cache_wfD [OF wf t(1)] by (simp add: cache_at_def hm_get_in_set)
  then have "cache_at (rt_tunnels r) (tt_remote_id g) k = Some t" "tv_available env now (tr_addr t)"
    using assms(1) by (simp_all add: cache_at_available)
  moreover have "tr_remote_id t = tt_remote_id g" using k(2) by (simp add: match_target_def split: if_splits)
  then have "tm_remote_id meta = tt_remote_id g" "tm_local_ep meta = tr_local_ep t" using t(4) by (simp_all add: opened_meta_def)
  ultimately show "\<exists>k t. cache_at (rt_tunnels r) (tt_remote_id g) k = Some t \<and> tv_available env now (tr_addr t) \<and> match_target t g \<and>
      tm_remote_id meta = tt_remote_id g \<and> tm_local_ep meta = tr_local_ep t"
    using k(2) by blast
  show "cache_at (rt_tunnels r') i k' = Some u \<Longrightarrow> cache_at (rt_tunnels r) i k' = Some u"
    using t(3) assms(1) by (simp add: cache_at_available)
qed

theorem server_opens_on_incoming_witness:
  "case server_open (some_env 10 1) 0 StreamChannel some_target (TunnelPurpose [])
          (some_runtime\<lparr>rt_tunnels := [(P2pId [2], [(tunnel_key (some_tunnel 1 7), some_tunnel 1 7)])]\<rparr>) of
     (r', Inr meta) \<Rightarrow> tm_remote_id meta = P2pId [2] | _ \<Rightarrow> False"
proof -
  let ?r = "some_runtime\<lparr>rt_tunnels := [(P2pId [2], [(tunnel_key (some_tunnel 1 7), some_tunnel 1 7)])]\<rparr>"
  have wf: "cache_wf (rt_tunnels ?r)" by (simp add: cache_wf_def hm_wf_def hm_values_def)
  obtain r' meta where s: "server_open (some_env 10 1) 0 StreamChannel some_target (TunnelPurpose []) ?r = (r', Inr meta)"
    by (simp add: server_open_def get_existing_tunnel_def find_existing_tunnel_in_multi_def retain_available_def some_runtime_def hm_values_def
        some_defs client_defs)
  from server_opens_on_incoming(1) [OF wf s] s show ?thesis by (auto simp: some_target_def)
qed

text \<open>The subscriber of a runtime answers yes whatever became of the tunnel: a tunnel the validator of the runtime
  rejected, and that the runtime closed, is accepted as far as the manager of the networks and the listener behind it
  are told.\<close>

theorem rejected_tunnel_reported_accepted:
  "runtime_subscriber env (\<lambda>_. Inr ValidateReject) during now (Inr t) (Some r) = (Some r, True, True)"
  "snd (dispatch_tunnel_result (\<lambda>_. Inr ValidateAccept)
     (\<lambda>_ _. fst (snd (runtime_subscriber env (\<lambda>_. Inr ValidateReject) during now (Inr t) (Some r)))) id (Inr ctx)
     (fst (register_subscription (vx_local_id ctx) Legacy (net_manager_new ps)))) = (Accepted, False)"
  by (simp_all add: runtime_subscriber_def accept_incoming_tunnel_def dispatch_tunnel_result_def dispatch_begin_def publish_begin_def
      publish_finish_def register_subscription_def net_manager_new_def hm.get_empty hm.get_insert Let_def)

end
