(* ===== verification/NatProbe.thy ===== *)
theory NatProbe
  imports NatProbeScheduler TunnelActivity
begin

text \<open>
  The datagrams of the NAT probe (\<open>sn/nat_probe.rs\<close>): a client sends a token to a reflector of an SN, which answers with
  the address it saw, signed. Modelled are both packets byte by byte, what is signed, the budget of signatures
  that all reflectors of an SN share, and the reflector's answer to a datagram. The identity's signature is a
  parameter. The blocking task that signs lies between taking and giving back a permit.
\<close>

section \<open>Definitions\<close>

subsection \<open>Packets\<close>

definition NAT_PROBE_MAGIC :: "u8 list" where "NAT_PROBE_MAGIC = map of_char ''PNAT''"
definition NAT_PROBE_REQUEST :: u8 where "NAT_PROBE_REQUEST = 1"
definition NAT_PROBE_RESPONSE :: u8 where "NAT_PROBE_RESPONSE = 2"
definition NAT_PROBE_TOKEN_OFFSET :: nat where "NAT_PROBE_TOKEN_OFFSET = 8"
definition NAT_PROBE_TOKEN_LEN :: nat where "NAT_PROBE_TOKEN_LEN = 16"
definition NAT_PROBE_IPV4_OFFSET :: nat where "NAT_PROBE_IPV4_OFFSET = 24"
definition NAT_PROBE_PORT_OFFSET :: nat where "NAT_PROBE_PORT_OFFSET = 28"
definition NAT_PROBE_SIGNATURE_LEN_OFFSET :: nat where "NAT_PROBE_SIGNATURE_LEN_OFFSET = 30"
definition NAT_PROBE_SIGNATURE_OFFSET :: nat where "NAT_PROBE_SIGNATURE_OFFSET = 32"
definition NAT_PROBE_SIGNED_FIELDS_LEN :: nat where "NAT_PROBE_SIGNED_FIELDS_LEN = NAT_PROBE_SIGNATURE_OFFSET"
definition NAT_PROBE_PROTOCOL_VERSION :: u8 where "NAT_PROBE_PROTOCOL_VERSION = 2"
definition NAT_PROBE_PACKET_LEN :: nat where "NAT_PROBE_PACKET_LEN = 1200"
definition MAX_NAT_PROBE_SIGNATURE_LEN :: nat where
  "MAX_NAT_PROBE_SIGNATURE_LEN = NAT_PROBE_PACKET_LEN - NAT_PROBE_SIGNATURE_OFFSET"

lemmas probe_consts = NAT_PROBE_REQUEST_def NAT_PROBE_RESPONSE_def NAT_PROBE_TOKEN_OFFSET_def NAT_PROBE_TOKEN_LEN_def
  NAT_PROBE_IPV4_OFFSET_def NAT_PROBE_PORT_OFFSET_def NAT_PROBE_SIGNATURE_LEN_OFFSET_def NAT_PROBE_SIGNATURE_OFFSET_def
  NAT_PROBE_SIGNED_FIELDS_LEN_def NAT_PROBE_PROTOCOL_VERSION_def NAT_PROBE_PACKET_LEN_def MAX_NAT_PROBE_SIGNATURE_LEN_def

text \<open>\<open>packet[off..off + len].copy_from_slice\<close>, within the packet.\<close>

definition put_at :: "nat \<Rightarrow> u8 list \<Rightarrow> u8 list \<Rightarrow> u8 list" where
  "put_at off bs p = take off p @ bs @ drop (off + length bs) p"

definition slice :: "nat \<Rightarrow> nat \<Rightarrow> 'a list \<Rightarrow> 'a list" where
  "slice from len p = take len (drop from p)"

definition probe_header :: "u8 \<Rightarrow> u8 list \<Rightarrow> u8 list" where
  "probe_header kind token =
     put_at NAT_PROBE_TOKEN_OFFSET token (put_at 5 [kind] (put_at 4 [NAT_PROBE_PROTOCOL_VERSION]
       (put_at 0 NAT_PROBE_MAGIC (replicate NAT_PROBE_PACKET_LEN 0))))"

definition encode_request :: "u8 list \<Rightarrow> u8 list" where
  "encode_request token = probe_header NAT_PROBE_REQUEST token"

definition valid_header :: "u8 list \<Rightarrow> u8 \<Rightarrow> bool" where
  "valid_header p kind \<longleftrightarrow> length p = NAT_PROBE_PACKET_LEN \<and> take 4 p = NAT_PROBE_MAGIC \<and> p ! 4 = NAT_PROBE_PROTOCOL_VERSION \<and>
     p ! 5 = kind \<and> p ! 6 = 0 \<and> p ! 7 = 0"

definition decode_request :: "u8 list \<Rightarrow> u8 list option" where
  "decode_request p =
     (if \<not> valid_header p NAT_PROBE_REQUEST \<or> list_ex (\<lambda>b. b \<noteq> 0) (drop 24 p) then None
      else Some (slice NAT_PROBE_TOKEN_OFFSET NAT_PROBE_TOKEN_LEN p))"

definition validate_signature_len :: "nat \<Rightarrow> unit p2p_result" where
  "validate_signature_len n =
     (if n = 0 then Inl InvalidSignature else if n > MAX_NAT_PROBE_SIGNATURE_LEN then Inl OutOfLimit else Inr ())"

definition encode_response_fields :: "u8 list \<Rightarrow> socket_addr \<Rightarrow> nat \<Rightarrow> u8 list p2p_result" where
  "encode_response_fields token observed n =
     (case validate_signature_len n of
        Inl e \<Rightarrow> Inl e
      | Inr _ \<Rightarrow>
          (case observed of
             V6 _ _ _ _ \<Rightarrow> Inl InvalidParam
           | V4 ip port \<Rightarrow>
               if is_unspecified4 ip \<or> port = 0 then Inl InvalidParam
               else Inr (put_at NAT_PROBE_SIGNATURE_LEN_OFFSET (be_bytes (of_nat n)) (put_at NAT_PROBE_PORT_OFFSET (be_bytes port)
                      (put_at NAT_PROBE_IPV4_OFFSET (octets4 ip) (probe_header NAT_PROBE_RESPONSE token))))))"

record decoded_response =
  dr_token :: "u8 list"
  dr_observed :: socket_addr
  dr_signature :: "u8 list"
  dr_signed_fields :: "u8 list"

definition decode_response_datagram :: "u8 list \<Rightarrow> decoded_response option" where
  "decode_response_datagram p =
     (if \<not> valid_header p NAT_PROBE_RESPONSE then None
      else let token = slice NAT_PROBE_TOKEN_OFFSET NAT_PROBE_TOKEN_LEN p;
               at = (\<lambda>off i. p ! (off + i));
               ip = Ipv4 (at NAT_PROBE_IPV4_OFFSET 0) (at NAT_PROBE_IPV4_OFFSET 1) (at NAT_PROBE_IPV4_OFFSET 2) (at NAT_PROBE_IPV4_OFFSET 3);
               port = join_bytes (at NAT_PROBE_PORT_OFFSET 0) (at NAT_PROBE_PORT_OFFSET 1)
           in if is_unspecified4 ip \<or> port = 0 then None
              else let n = unat (join_bytes (at NAT_PROBE_SIGNATURE_LEN_OFFSET 0) (at NAT_PROBE_SIGNATURE_LEN_OFFSET 1))
                   in if n = 0 \<or> n > MAX_NAT_PROBE_SIGNATURE_LEN then None
                      else if list_ex (\<lambda>b. b \<noteq> 0) (drop (NAT_PROBE_SIGNATURE_OFFSET + n) p) then None
                      else Some \<lparr>dr_token = token, dr_observed = V4 ip port, dr_signature = slice NAT_PROBE_SIGNATURE_OFFSET n p,
                                 dr_signed_fields = take NAT_PROBE_SIGNED_FIELDS_LEN p\<rparr>)"

subsection \<open>What is signed\<close>

definition NAT_PROBE_SIGNATURE_DOMAIN :: "u8 list" where
  "NAT_PROBE_SIGNATURE_DOMAIN = map of_char ''CYFS-P2P/PNAT/RESPONSE/V2'' @ [0]"

definition NAT_PROBE_SIGNATURE_CALIBRATION_DOMAIN :: "u8 list" where
  "NAT_PROBE_SIGNATURE_CALIBRATION_DOMAIN = map of_char ''CYFS-P2P/PNAT/SIGNATURE-LENGTH/V2'' @ [0]"

definition response_signature_preimage :: "p2p_id \<Rightarrow> u8 list \<Rightarrow> u8 list p2p_result" where
  "response_signature_preimage i fs =
     (if length fs \<noteq> NAT_PROBE_SIGNED_FIELDS_LEN then Inl InvalidParam
      else if length (id_bytes i) \<ge> 2 ^ 16 then Inl OutOfLimit
      else Inr (NAT_PROBE_SIGNATURE_DOMAIN @ be_bytes (of_nat (length (id_bytes i))) @ id_bytes i @ fs))"

definition signature_calibration_preimage :: "p2p_id \<Rightarrow> u8 list p2p_result" where
  "signature_calibration_preimage i =
     (if length (id_bytes i) \<ge> 2 ^ 16 then Inl OutOfLimit
      else Inr (NAT_PROBE_SIGNATURE_CALIBRATION_DOMAIN @ be_bytes (of_nat (length (id_bytes i))) @ id_bytes i))"

text \<open>A certificate: an id and which signatures it verifies.\<close>

record probe_cert =
  pc_id :: p2p_id
  pc_verify :: "u8 list \<Rightarrow> u8 list \<Rightarrow> bool"

definition response_verify :: "decoded_response \<Rightarrow> probe_cert \<Rightarrow> bool" where
  "response_verify r c =
     (case response_signature_preimage (pc_id c) (dr_signed_fields r) of Inl _ \<Rightarrow> False | Inr m \<Rightarrow> pc_verify c m (dr_signature r))"

subsection \<open>The signing context\<close>

definition MAX_NAT_PROBE_RESPONSES_PER_SECOND :: nat where "MAX_NAT_PROBE_RESPONSES_PER_SECOND = 128"
definition MAX_NAT_PROBE_IN_FLIGHT_SIGNATURES :: nat where "MAX_NAT_PROBE_IN_FLIGHT_SIGNATURES = 4"

record signing_budget =
  sb_admitted :: "instant list"
  sb_in_flight :: nat

record signing_context =
  sx_signer_id :: p2p_id
  sx_signature_len :: nat
  sx_budget :: signing_budget

text \<open>\<open>sign\<close>: the private key operation of the identity.\<close>

definition signing_context_new :: "(u8 list \<Rightarrow> u8 list p2p_result) \<Rightarrow> p2p_id \<Rightarrow> signing_context p2p_result" where
  "signing_context_new sign i =
     (case signature_calibration_preimage i of
        Inl e \<Rightarrow> Inl e
      | Inr m \<Rightarrow>
          (case sign m of
             Inl e \<Rightarrow> Inl e
           | Inr s \<Rightarrow>
               (case validate_signature_len (length s) of
                  Inl e \<Rightarrow> Inl e
                | Inr _ \<Rightarrow> Inr \<lparr>sx_signer_id = i, sx_signature_len = length s, sx_budget = \<lparr>sb_admitted = [], sb_in_flight = 0\<rparr>\<rparr>)))"

definition budget_acquire :: "instant \<Rightarrow> signing_budget \<Rightarrow> signing_budget \<times> bool" where
  "budget_acquire now b =
     (let a = dropWhile (\<lambda>t. now - t \<ge> from_secs 1) (sb_admitted b)
      in if length a \<ge> MAX_NAT_PROBE_RESPONSES_PER_SECOND \<or> sb_in_flight b \<ge> MAX_NAT_PROBE_IN_FLIGHT_SIGNATURES
         then (b\<lparr>sb_admitted := a\<rparr>, False)
         else (\<lparr>sb_admitted = a @ [now], sb_in_flight = sb_in_flight b + 1\<rparr>, True))"

definition budget_release :: "signing_budget \<Rightarrow> signing_budget" where
  "budget_release b = b\<lparr>sb_in_flight := sb_in_flight b - 1\<rparr>"

text \<open>Before the signature: the packet and what is to be signed, if the budget admits it; after it: the response.\<close>

definition response_begin ::
    "instant \<Rightarrow> u8 list \<Rightarrow> socket_addr \<Rightarrow> signing_context \<Rightarrow> signing_context \<times> (u8 list \<times> u8 list) option p2p_result" where
  "response_begin now token observed x =
     (case encode_response_fields token observed (sx_signature_len x) of
        Inl e \<Rightarrow> (x, Inl e)
      | Inr p \<Rightarrow>
          (case response_signature_preimage (sx_signer_id x) (take NAT_PROBE_SIGNED_FIELDS_LEN p) of
             Inl e \<Rightarrow> (x, Inl e)
           | Inr m \<Rightarrow>
               let (b, ok) = budget_acquire now (sx_budget x)
               in (x\<lparr>sx_budget := b\<rparr>, Inr (if ok then Some (p, m) else None))))"

definition response_finish :: "u8 list \<Rightarrow> u8 list p2p_result \<Rightarrow> signing_context \<Rightarrow> signing_context \<times> u8 list p2p_result" where
  "response_finish p s x =
     (x\<lparr>sx_budget := budget_release (sx_budget x)\<rparr>,
      case s of
        Inl e \<Rightarrow> Inl e
      | Inr sig \<Rightarrow>
          (case validate_signature_len (length sig) of
             Inl e \<Rightarrow> Inl e
           | Inr _ \<Rightarrow> if length sig \<noteq> sx_signature_len x then Inl InvalidSignature
                      else Inr (put_at NAT_PROBE_SIGNATURE_OFFSET sig p)))"

subsection \<open>The reflector\<close>

definition validate_reflector_addr :: "socket_addr \<Rightarrow> unit p2p_result" where
  "validate_reflector_addr a = (if is_ipv4 a then Inr () else Inl InvalidParam)"

text \<open>One datagram of the loop: the context and the response, which goes back to the source. The buffer has room for one
  byte more than a packet, so that a longer datagram has another length.\<close>

definition reflect ::
    "(u8 list \<Rightarrow> u8 list p2p_result) \<Rightarrow> instant \<Rightarrow> u8 list \<Rightarrow> socket_addr \<Rightarrow> signing_context \<Rightarrow> signing_context \<times> u8 list option" where
  "reflect sign now datagram source x =
     (let p = take (NAT_PROBE_PACKET_LEN + 1) datagram
      in if length p \<noteq> NAT_PROBE_PACKET_LEN \<or> \<not> is_ipv4 source then (x, None)
         else (case decode_request p of
                 None \<Rightarrow> (x, None)
               | Some token \<Rightarrow>
                   (case response_begin now token source x of
                      (x1, Inl _) \<Rightarrow> (x1, None)
                    | (x1, Inr None) \<Rightarrow> (x1, None)
                    | (x1, Inr (Some (pkt, m))) \<Rightarrow>
                        (case response_finish pkt (sign m) x1 of (x2, Inl _) \<Rightarrow> (x2, None) | (x2, Inr r) \<Rightarrow> (x2, Some r)))))"

subsection \<open>Runs of the budget\<close>

text \<open>With every time that was admitted, the permits that are out and the clock.\<close>

record budget_run =
  br_budget :: signing_budget
  br_history :: "instant list"
  br_permits :: nat
  br_clock :: instant

definition budget_start :: budget_run where
  "budget_start = \<lparr>br_budget = \<lparr>sb_admitted = [], sb_in_flight = 0\<rparr>, br_history = [], br_permits = 0, br_clock = 0\<rparr>"

text \<open>\<open>Some d\<close>: a request comes \<open>d\<close> later; \<open>None\<close>: a permit is given back.\<close>

definition budget_step :: "nat option \<Rightarrow> budget_run \<Rightarrow> budget_run" where
  "budget_step s r =
     (case s of
        Some d \<Rightarrow>
          (let now = br_clock r + d; (b, ok) = budget_acquire now (br_budget r)
           in \<lparr>br_budget = b, br_history = br_history r @ (if ok then [now] else []),
               br_permits = br_permits r + (if ok then 1 else 0), br_clock = now\<rparr>)
      | None \<Rightarrow> if br_permits r = 0 then r
                else r\<lparr>br_budget := budget_release (br_budget r), br_permits := br_permits r - 1\<rparr>)"

section \<open>Packets\<close>

lemma length_magic [simp]: "length NAT_PROBE_MAGIC = 4"
  by (simp add: NAT_PROBE_MAGIC_def)

lemma length_be [simp]: "length (be_bytes x) = 2"
  by (simp add: be_bytes_def)

lemma length_octets4 [simp]: "length (octets4 ip) = 4"
  by (cases ip) simp

lemma header_shape:
  "length token = 16 \<Longrightarrow> probe_header kind token = NAT_PROBE_MAGIC @ [2, kind, 0, 0] @ token @ replicate 1176 0"
  by (simp add: probe_header_def put_at_def probe_consts numeral_2_eq_2)

definition response_packet :: "u8 list \<Rightarrow> ipv4 \<Rightarrow> u16 \<Rightarrow> nat \<Rightarrow> u8 list \<Rightarrow> u8 list" where
  "response_packet token ip port n body =
     NAT_PROBE_MAGIC @ [2, 2, 0, 0] @ token @ octets4 ip @ be_bytes port @ be_bytes (of_nat n) @ body"

lemma drop_response:
  assumes "length token = 16"
  shows "drop (32 + k) (response_packet token ip port n body) = drop k body"
proof -
  define xs where "xs = NAT_PROBE_MAGIC @ [2, 2, 0, 0] @ token @ octets4 ip @ be_bytes port @ be_bytes (of_nat n)"
  have "length xs = 32" "response_packet token ip port n body = xs @ body" using assms by (simp_all add: xs_def response_packet_def)
  then show ?thesis by simp
qed

lemma response_fields_shape:
  assumes "length token = 16" "0 < n" "n \<le> 1168" "\<not> is_unspecified4 ip" "port \<noteq> 0"
  shows "encode_response_fields token (V4 ip port) n = Inr (response_packet token ip port n (replicate 1168 0))"
  using assms
  by (simp add: encode_response_fields_def validate_signature_len_def header_shape response_packet_def put_at_def probe_consts)

lemma put_signature:
  "length token = 16 \<Longrightarrow> length sig \<le> 1168 \<Longrightarrow>
   put_at NAT_PROBE_SIGNATURE_OFFSET sig (response_packet token ip port n (replicate 1168 0)) =
   response_packet token ip port n (sig @ replicate (1168 - length sig) 0)"
  using drop_response [of token "length sig" ip port n "replicate 1168 0"]
  by (simp add: put_at_def probe_consts) (simp add: response_packet_def)

lemma decode_response_packet:
  assumes "length token = 16" "length sig = n" "0 < n" "n \<le> 1168" "\<not> is_unspecified4 ip" "port \<noteq> 0"
  shows "decode_response_datagram (response_packet token ip port n (sig @ replicate (1168 - n) 0)) =
    Some \<lparr>dr_token = token, dr_observed = V4 ip port, dr_signature = sig,
          dr_signed_fields = take 32 (response_packet token ip port n (replicate 1168 0))\<rparr>"
proof -
  have n: "unat (of_nat n :: u16) = n" using assms(4) by (simp add: unat_of_nat)
  obtain a b c d where ip: "ip = Ipv4 a b c d" by (cases ip)
  let ?p = "response_packet token ip port n (sig @ replicate (1168 - n) 0)"
  have "drop (32 + n) ?p = replicate (1168 - n) 0" "drop 32 ?p = sig @ replicate (1168 - n) 0"
    using drop_response [OF assms(1), of n] drop_response [OF assms(1), of 0] assms(2) by simp_all
  moreover have "valid_header ?p 2" "take 16 (drop 8 ?p) = token" "take 32 ?p = take 32 (response_packet token ip port n (replicate 1168 0))"
    using assms by (simp_all add: valid_header_def response_packet_def probe_consts nth_append)
  moreover have "[?p ! 24, ?p ! 25, ?p ! 26, ?p ! 27] = [a, b, c, d]" "join_bytes (?p ! 28) (?p ! 29) = port"
    "join_bytes (?p ! 30) (?p ! 31) = (of_nat n :: u16)"
    using assms ip by (simp_all add: response_packet_def nth_append be_bytes_def join_be)
  ultimately show ?thesis
    using assms n ip by (simp add: decode_response_datagram_def probe_consts slice_def Let_def list_ex_iff)
qed

lemma packets_roundtrip:
  assumes "length token = 16" "0 < length sig" "length sig \<le> MAX_NAT_PROBE_SIGNATURE_LEN" "\<not> is_unspecified4 ip" "port \<noteq> 0"
    and "encode_response_fields token (V4 ip port) (length sig) = Inr p"
  shows "decode_request (encode_request token) = Some token"
    and "decode_response_datagram (put_at NAT_PROBE_SIGNATURE_OFFSET sig p) =
           Some \<lparr>dr_token = token, dr_observed = V4 ip port, dr_signature = sig, dr_signed_fields = take 32 p\<rparr>"
    and "decode_response_datagram (encode_request token) = None"
    and "decode_request (put_at NAT_PROBE_SIGNATURE_OFFSET sig p) = None"
    and "length (encode_request token) = length (put_at NAT_PROBE_SIGNATURE_OFFSET sig p)"
proof -
  have len: "length sig \<le> 1168" using assms(3) by (simp add: probe_consts)
  have p: "p = response_packet token ip port (length sig) (replicate 1168 0)"
    using assms(6) response_fields_shape [OF assms(1,2) len assms(4,5)] by simp
  have full: "put_at NAT_PROBE_SIGNATURE_OFFSET sig p = response_packet token ip port (length sig) (sig @ replicate (1168 - length sig) 0)"
    unfolding p by (rule put_signature [OF assms(1) len])
  show "decode_request (encode_request token) = Some token" "decode_response_datagram (encode_request token) = None"
    using assms(1) by (simp_all add: encode_request_def header_shape decode_request_def decode_response_datagram_def valid_header_def probe_consts
        slice_def list_ex_iff nth_append)
  show "decode_response_datagram (put_at NAT_PROBE_SIGNATURE_OFFSET sig p) =
      Some \<lparr>dr_token = token, dr_observed = V4 ip port, dr_signature = sig, dr_signed_fields = take 32 p\<rparr>"
    unfolding full using decode_response_packet [OF assms(1) refl assms(2) len assms(4,5)] by (simp add: p)
  show "decode_request (put_at NAT_PROBE_SIGNATURE_OFFSET sig p) = None"
    "length (encode_request token) = length (put_at NAT_PROBE_SIGNATURE_OFFSET sig p)"
    using assms(1) len unfolding full
    by (simp_all add: encode_request_def header_shape decode_request_def valid_header_def response_packet_def probe_consts nth_append)
qed

text \<open>the probe packets are read as they were written: a token survives a request, and a token, an observed IPv4 address
  and a signature survive a response, signed with exactly the fields before the signature; a request is never
  taken for a response nor a response for a request; both have the same length, so that a reflector never sends
  more bytes than it got.\<close>

theorem nat_probe_packets_roundtrip:
  assumes "length token = NAT_PROBE_TOKEN_LEN" "0 < length sig" "length sig \<le> MAX_NAT_PROBE_SIGNATURE_LEN" "\<not> is_unspecified4 ip" "port \<noteq> 0"
    and "encode_response_fields token (V4 ip port) (length sig) = Inr p"
  shows "decode_request (encode_request token) = Some token \<and>
         decode_response_datagram (put_at NAT_PROBE_SIGNATURE_OFFSET sig p) =
           Some \<lparr>dr_token = token, dr_observed = V4 ip port, dr_signature = sig, dr_signed_fields = take 32 p\<rparr> \<and>
         decode_response_datagram (encode_request token) = None \<and>
         decode_request (put_at NAT_PROBE_SIGNATURE_OFFSET sig p) = None \<and>
         length (encode_request token) = length (put_at NAT_PROBE_SIGNATURE_OFFSET sig p)"
  using packets_roundtrip [OF _ assms(2-6)] assms(1) by (simp add: NAT_PROBE_TOKEN_LEN_def)

theorem nat_probe_packets_roundtrip_witness:
  "decode_request (encode_request (replicate 16 7)) = Some (replicate 16 7)"
  by (rule nat_probe_packets_roundtrip [of _ "[1]" "Ipv4 1 2 3 4" 5
        "response_packet (replicate 16 7) (Ipv4 1 2 3 4) 5 1 (replicate 1168 0)", THEN conjunct1])
    (simp_all add: probe_consts is_unspecified4_def response_fields_shape)

section \<open>Signatures\<close>

lemma be_bytes_inject: "be_bytes x = be_bytes y \<Longrightarrow> x = y"
  by (metis be_bytes_def join_be list.inject)

lemma length_prefixed_inject:
  assumes "be_bytes (of_nat (length xs)) @ xs @ us = be_bytes (of_nat (length ys)) @ ys @ vs" "length xs < 2 ^ 16" "length ys < 2 ^ 16"
  shows "xs = ys" "us = vs"
proof -
  from assms(1) have "(of_nat (length xs) :: u16) = of_nat (length ys)" "xs @ us = ys @ vs"
    by (auto simp: append_eq_append_conv dest: be_bytes_inject)
  moreover have "unat (of_nat (length xs) :: u16) = length xs" "unat (of_nat (length ys) :: u16) = length ys"
    using assms(2,3) by (simp_all add: unat_of_nat)
  ultimately have "length xs = length ys" "xs @ us = ys @ vs" by metis+
  then show "xs = ys" "us = vs" by simp_all
qed

lemma length_domains:
  "length NAT_PROBE_SIGNATURE_DOMAIN = 26" "length NAT_PROBE_SIGNATURE_CALIBRATION_DOMAIN = 34"
  by (simp_all add: NAT_PROBE_SIGNATURE_DOMAIN_def NAT_PROBE_SIGNATURE_CALIBRATION_DOMAIN_def)

lemma domains_differ: "NAT_PROBE_SIGNATURE_DOMAIN ! 14 \<noteq> NAT_PROBE_SIGNATURE_CALIBRATION_DOMAIN ! 14"
  by code_simp

text \<open>a signature stands for one signer and one set of fields: what is signed for a response is different for every
  signer and every token, address and length, and is never what an identity signs to find out the length of its
  signatures.\<close>

theorem signed_bytes_unambiguous:
  assumes "response_signature_preimage i fs = Inr m"
  shows "(response_signature_preimage j gs = Inr m \<longrightarrow> i = j \<and> fs = gs) \<and> signature_calibration_preimage k \<noteq> Inr m"
proof -
  have m: "m = NAT_PROBE_SIGNATURE_DOMAIN @ be_bytes (of_nat (length (id_bytes i))) @ id_bytes i @ fs" "length (id_bytes i) < 2 ^ 16"
    using assms by (simp_all add: response_signature_preimage_def split: if_splits)
  have "i = j \<and> fs = gs" if j: "response_signature_preimage j gs = Inr m"
  proof -
    have "m = NAT_PROBE_SIGNATURE_DOMAIN @ be_bytes (of_nat (length (id_bytes j))) @ id_bytes j @ gs" "length (id_bytes j) < 2 ^ 16"
      using j by (simp_all add: response_signature_preimage_def split: if_splits)
    with m have "be_bytes (of_nat (length (id_bytes i))) @ id_bytes i @ fs = be_bytes (of_nat (length (id_bytes j))) @ id_bytes j @ gs"
      "length (id_bytes j) < 2 ^ 16" by (metis same_append_eq)+
    from length_prefixed_inject [OF this(1) m(2) this(2)] have "id_bytes i = id_bytes j" "fs = gs" .
    then show ?thesis by (simp add: p2p_id.expand)
  qed
  moreover have "signature_calibration_preimage k \<noteq> Inr m"
  proof
    assume "signature_calibration_preimage k = Inr m"
    then have "m ! 14 = NAT_PROBE_SIGNATURE_CALIBRATION_DOMAIN ! 14"
      by (auto simp: signature_calibration_preimage_def nth_append length_domains split: if_splits)
    moreover have "m ! 14 = NAT_PROBE_SIGNATURE_DOMAIN ! 14" using m by (simp add: nth_append length_domains)
    ultimately show False using domains_differ by simp
  qed
  ultimately show ?thesis by blast
qed

theorem signed_bytes_unambiguous_witness:
  "signature_calibration_preimage (P2pId []) \<noteq> Inr (NAT_PROBE_SIGNATURE_DOMAIN @ be_bytes 1 @ [1] @ replicate 32 0)"
  by (rule signed_bytes_unambiguous [of "P2pId [1]" "replicate 32 0", THEN conjunct2]) (simp add: response_signature_preimage_def probe_consts)

text \<open>what a reflector answers can be checked: whenever it answers a datagram at all, that was a request, the answer goes to
  its token and names the address the datagram came from, is no longer than the datagram, and a client that holds
  the certificate of the reflector's identity accepts the signature. That a certificate verifies what its identity
  signs is the promise of the identity.\<close>

theorem reflected_answer_verifies:
  assumes "reflect sign now datagram source x = (x', Some response)"
    and "pc_id cert = sx_signer_id x" "\<And>m s. sign m = Inr s \<Longrightarrow> pc_verify cert m s"
  shows "\<exists>token r. decode_request datagram = Some token \<and> decode_response_datagram response = Some r \<and> dr_token r = token \<and>
           dr_observed r = source \<and> response_verify r cert \<and> length response = length datagram"
proof -
  obtain token p m x1 s where d: "length datagram = NAT_PROBE_PACKET_LEN" "is_ipv4 source" "decode_request datagram = Some token"
    and b: "response_begin now token source x = (x1, Inr (Some (p, m)))" and sg: "sign m = Inr s"
    and r: "validate_signature_len (length s) = Inr ()" "length s = sx_signature_len x1" "response = put_at NAT_PROBE_SIGNATURE_OFFSET s p"
    using assms(1)
    by (auto simp: reflect_def response_finish_def Let_def split: if_splits option.splits sum.splits prod.splits)
  have f: "encode_response_fields token source (sx_signature_len x) = Inr p" "response_signature_preimage (sx_signer_id x) (take 32 p) = Inr m"
    "sx_signature_len x1 = sx_signature_len x"
    using b by (auto simp: response_begin_def probe_consts Let_def split: sum.splits prod.splits if_splits)
  obtain ip port where v: "source = V4 ip port" "\<not> is_unspecified4 ip" "port \<noteq> 0"
    using f(1) d(2) by (cases source) (auto simp: encode_response_fields_def split: sum.splits if_splits)
  have l: "length token = 16" "0 < length s" "length s \<le> MAX_NAT_PROBE_SIGNATURE_LEN"
    using d r by (auto simp: decode_request_def slice_def probe_consts validate_signature_len_def split: if_splits)
  have e: "encode_response_fields token (V4 ip port) (length s) = Inr p" using f r(2) v(1) by simp
  note rt = packets_roundtrip [OF l v(2,3) e]
  have "response_verify \<lparr>dr_token = token, dr_observed = V4 ip port, dr_signature = s, dr_signed_fields = take 32 p\<rparr> cert"
    using f(2) assms(2,3) sg by (simp add: response_verify_def)
  moreover have "length response = length datagram"
    using rt(5) r(3) d(1) l(1) by (simp add: encode_request_def header_shape probe_consts)
  ultimately show ?thesis using rt(2) r(3) d(3) v(1) by simp
qed

definition some_sign :: "u8 list \<Rightarrow> u8 list p2p_result" where
  "some_sign m = Inr [of_nat (length m)]"

definition some_signer :: signing_context where
  "some_signer = \<lparr>sx_signer_id = P2pId [9], sx_signature_len = 1, sx_budget = \<lparr>sb_admitted = [], sb_in_flight = 0\<rparr>\<rparr>"

definition some_cert :: probe_cert where
  "some_cert = \<lparr>pc_id = P2pId [9], pc_verify = \<lambda>m s. s = [of_nat (length m)]\<rparr>"

theorem reflected_answer_verifies_witness:
  "\<exists>response token r. reflect some_sign 0 (encode_request (replicate 16 7)) (V4 (Ipv4 1 2 3 4) 5) some_signer = (some_signer\<lparr>sx_budget :=
       \<lparr>sb_admitted = [0], sb_in_flight = 0\<rparr>\<rparr>, Some response) \<and>
     decode_response_datagram response = Some r \<and> dr_observed r = V4 (Ipv4 1 2 3 4) 5 \<and> response_verify r some_cert"
proof -
  let ?src = "V4 (Ipv4 1 2 3 4) 5" and ?t = "replicate 16 7 :: u8 list"
  have d: "decode_request (encode_request ?t) = Some ?t" "length (encode_request ?t) = 1200"
    using packets_roundtrip(1) [of ?t "[1]" "Ipv4 1 2 3 4" 5 "response_packet ?t (Ipv4 1 2 3 4) 5 1 (replicate 1168 0)"]
    by (simp_all add: probe_consts is_unspecified4_def response_fields_shape encode_request_def header_shape)
  have f: "encode_response_fields ?t ?src 1 = Inr (response_packet ?t (Ipv4 1 2 3 4) 5 1 (replicate 1168 0))"
    by (rule response_fields_shape) (simp_all add: is_unspecified4_def)
  obtain response where r: "reflect some_sign 0 (encode_request ?t) ?src some_signer =
      (some_signer\<lparr>sx_budget := \<lparr>sb_admitted = [0], sb_in_flight = 0\<rparr>\<rparr>, Some response)"
    using d f
    by (auto simp: reflect_def response_begin_def response_finish_def some_signer_def some_sign_def budget_acquire_def budget_release_def
        response_signature_preimage_def validate_signature_len_def response_packet_def probe_consts MAX_NAT_PROBE_RESPONSES_PER_SECOND_def
        MAX_NAT_PROBE_IN_FLIGHT_SIGNATURES_def Let_def)
  then show ?thesis
    using reflected_answer_verifies [OF r, of some_cert] by (auto simp: some_cert_def some_signer_def some_sign_def)
qed

section \<open>The budget\<close>

text \<open>The times within the second that ends at \<open>t\<close>.\<close>

definition within_second :: "instant \<Rightarrow> instant list \<Rightarrow> instant list" where
  "within_second t = filter (\<lambda>h. h \<le> t \<and> t < h + from_secs 1)"

definition budget_inv :: "budget_run \<Rightarrow> bool" where
  "budget_inv r \<longleftrightarrow>
     sorted (br_history r) \<and> (\<forall>h \<in> set (br_history r). h \<le> br_clock r) \<and>
     (\<exists>old. br_history r = old @ sb_admitted (br_budget r) \<and> (\<forall>h \<in> set old. h + from_secs 1 \<le> br_clock r)) \<and>
     (\<forall>t. length (within_second t (br_history r)) \<le> MAX_NAT_PROBE_RESPONSES_PER_SECOND) \<and>
     sb_in_flight (br_budget r) = br_permits r \<and> br_permits r \<le> MAX_NAT_PROBE_IN_FLIGHT_SIGNATURES"

lemma budget_step_acquire:
  assumes "budget_inv r"
  shows "budget_inv (budget_step (Some d) r)"
proof -
  let ?now = "br_clock r + d" and ?b = "br_budget r"
  define a where "a = dropWhile (\<lambda>t. ?now - t \<ge> from_secs 1) (sb_admitted ?b)"
  define gone where "gone = takeWhile (\<lambda>t. ?now - t \<ge> from_secs 1) (sb_admitted ?b)"
  obtain old where old: "br_history r = old @ sb_admitted ?b" "\<forall>h \<in> set old. h + from_secs 1 \<le> br_clock r"
    using assms by (auto simp: budget_inv_def)
  have h: "br_history r = (old @ gone) @ a" unfolding old(1) a_def gone_def by simp
  have clock: "\<forall>h \<in> set (br_history r). h \<le> ?now" using assms by (auto simp: budget_inv_def)
  have passed: "\<forall>h \<in> set (old @ gone). h + from_secs 1 \<le> ?now"
  proof
    fix h assume "h \<in> set (old @ gone)"
    moreover have "h + from_secs 1 \<le> ?now" if "h \<in> set gone"
      using set_takeWhileD [OF that [unfolded gone_def]] clock old(1) by (fastforce simp: from_secs_def)
    ultimately show "h + from_secs 1 \<le> ?now" using old(2) by fastforce
  qed
  show ?thesis
  proof (cases "length a \<ge> MAX_NAT_PROBE_RESPONSES_PER_SECOND \<or> sb_in_flight ?b \<ge> MAX_NAT_PROBE_IN_FLIGHT_SIGNATURES")
    case True
    then have "budget_step (Some d) r = r\<lparr>br_budget := ?b\<lparr>sb_admitted := a\<rparr>, br_clock := ?now\<rparr>"
      by (simp add: budget_step_def budget_acquire_def a_def Let_def)
    with assms h clock passed show ?thesis unfolding budget_inv_def by (auto intro!: exI [of _ "old @ gone"])
  next
    case False
    then have step: "budget_step (Some d) r =
        \<lparr>br_budget = \<lparr>sb_admitted = a @ [?now], sb_in_flight = sb_in_flight ?b + 1\<rparr>, br_history = br_history r @ [?now],
         br_permits = br_permits r + 1, br_clock = ?now\<rparr>"
      by (simp add: budget_step_def budget_acquire_def a_def Let_def)
    have "length (within_second t (br_history r @ [?now])) \<le> MAX_NAT_PROBE_RESPONSES_PER_SECOND" for t
    proof (cases "?now \<le> t")
      case True
      then have "within_second t (old @ gone) = []" using passed by (force simp: within_second_def filter_empty_conv)
      then have "within_second t (br_history r @ [?now]) = within_second t (a @ [?now])" unfolding h within_second_def by simp
      also have "length \<dots> \<le> length a + 1" unfolding within_second_def by (rule order.trans [OF length_filter_le]) simp
      finally show ?thesis using False by simp
    next
      case False
      then have "within_second t (br_history r @ [?now]) = within_second t (br_history r)" by (simp add: within_second_def)
      with assms show ?thesis by (simp add: budget_inv_def)
    qed
    with assms h clock passed False step show ?thesis
      unfolding budget_inv_def by (auto simp: sorted_append intro!: exI [of _ "old @ gone"])
  qed
qed

lemma budget_step_inv: "budget_inv r \<Longrightarrow> budget_inv (budget_step s r)"
proof (cases s)
  case None
  assume "budget_inv r"
  with None show ?thesis by (auto simp: budget_step_def budget_inv_def budget_release_def)
qed (simp add: budget_step_acquire)

lemma budget_run_inv: "budget_inv r \<Longrightarrow> budget_inv (fold budget_step ss r)"
  by (induction ss arbitrary: r) (simp_all add: budget_step_inv)

text \<open>C22: however requests come and signatures end, in no second of any position on the clock, and not only in the seconds the
  clock counts, are more than 128 signatures admitted, and never are more than four under way; the permits that
  are out are those the budget counts.\<close>

theorem signing_budget_respected:
  "length (within_second t (br_history (fold budget_step ss budget_start))) \<le> MAX_NAT_PROBE_RESPONSES_PER_SECOND \<and>
   sb_in_flight (br_budget (fold budget_step ss budget_start)) = br_permits (fold budget_step ss budget_start) \<and>
   br_permits (fold budget_step ss budget_start) \<le> MAX_NAT_PROBE_IN_FLIGHT_SIGNATURES"
proof -
  have "budget_inv budget_start" by (simp add: budget_inv_def budget_start_def within_second_def)
  from budget_run_inv [OF this, of ss] show ?thesis by (simp add: budget_inv_def)
qed

end
