(* ===== verification/QuicListener.thy ===== *)
theory QuicListener
  imports NatProbe
begin

text \<open>
  The QUIC listener (\<open>networks/quic/listener.rs\<close>): who waits for which answer of a NAT probe, what becomes of a datagram
  before QUIC sees it, the life of the listener, probing and the prediction of endpoints, the schedule of the
  UDP punches and the server names. QUIC itself, the sockets with their workers, random numbers and the clock
  are parameters.
\<close>

section \<open>Definitions\<close>

subsection \<open>Waiting for an answer\<close>

text \<open>A waiter is told apart from all others by its number, which is also the channel its answer goes to.\<close>

record probe_waiter =
  pw_source :: socket_addr
  pw_signer :: probe_cert
  pw_owner :: nat

record probe_waiters =
  pws_pending :: "(u8 list, probe_waiter) hmap"
  pws_next :: nat

definition waiters_new :: probe_waiters where
  "waiters_new = \<lparr>pws_pending = [], pws_next = 0\<rparr>"

definition waiters_register :: "u8 list \<Rightarrow> socket_addr \<Rightarrow> probe_cert \<Rightarrow> probe_waiters \<Rightarrow> probe_waiters \<times> nat p2p_result" where
  "waiters_register token src cert w =
     (if hm_get (pws_pending w) token \<noteq> None then (w, Inl AlreadyExists)
      else let n = pws_next w
           in (\<lparr>pws_pending = hm_insert token \<lparr>pw_source = src, pw_signer = cert, pw_owner = n\<rparr> (pws_pending w), pws_next = Suc n\<rparr>, Inr n))"

definition registration_drop :: "u8 list \<Rightarrow> nat \<Rightarrow> probe_waiters \<Rightarrow> probe_waiters" where
  "registration_drop token n w =
     (case hm_get (pws_pending w) token of
        Some x \<Rightarrow> if pw_owner x = n then w\<lparr>pws_pending := hm_remove token (pws_pending w)\<rparr> else w
      | None \<Rightarrow> w)"

text \<open>A response is checked without the lock, so that the waiter is looked up a second time.\<close>

definition response_check :: "decoded_response \<Rightarrow> socket_addr \<Rightarrow> probe_waiters \<Rightarrow> nat option" where
  "response_check r src w =
     (case hm_get (pws_pending w) (dr_token r) of
        None \<Rightarrow> None
      | Some x \<Rightarrow> if src \<noteq> pw_source x then None else if \<not> response_verify r (pw_signer x) then None else Some (pw_owner x))"

definition response_deliver :: "decoded_response \<Rightarrow> nat \<Rightarrow> probe_waiters \<Rightarrow> probe_waiters \<times> nat option" where
  "response_deliver r n w =
     (case hm_get (pws_pending w) (dr_token r) of
        None \<Rightarrow> (w, None)
      | Some x \<Rightarrow> if pw_owner x \<noteq> n then (w, None)
                  else (w\<lparr>pws_pending := hm_remove (dr_token r) (pws_pending w)\<rparr>, Some n))"

definition waiters_clear :: "probe_waiters \<Rightarrow> probe_waiters" where
  "waiters_clear w = w\<lparr>pws_pending := []\<rparr>"

subsection \<open>Datagrams\<close>

definition UDP_PUNCH_MAGIC :: "u8 list" where
  "UDP_PUNCH_MAGIC = 0 # map of_char ''#@$QUIC''"

definition MAX_AUXILIARY_DATAGRAMS_PER_POLL :: nat where
  "MAX_AUXILIARY_DATAGRAMS_PER_POLL = 4"

definition is_udp_punch_payload :: "u8 list \<Rightarrow> bool" where
  "is_udp_punch_payload p = (take (length UDP_PUNCH_MAGIC) p = UDP_PUNCH_MAGIC)"

definition quic_packet_worker_index_prefix :: "u8 list \<Rightarrow> nat option" where
  "quic_packet_worker_index_prefix p =
     (case p of
        [] \<Rightarrow> None
      | b # rest \<Rightarrow>
          let dcid = (if b AND 0x80 \<noteq> 0
                      then if b AND 0x30 = 0 \<or> b AND 0x30 = 0x10 then None
                           else if length p \<le> 5 then None
                           else let n = unat (p ! 5)
                                in if n = 0 then None else if length p < 6 + n then None else Some (take n (drop 6 p))
                      else Some rest)
          in (case dcid of
                Some (high # low # _) \<Rightarrow> Some (unat high * 256 + unat low)
              | _ \<Rightarrow> None))"

definition quic_packet_worker_index :: "u8 list \<Rightarrow> nat \<Rightarrow> nat option" where
  "quic_packet_worker_index p workers =
     (if workers = 0 then None else map_option (\<lambda>i. i mod workers) (quic_packet_worker_index_prefix p))"

text \<open>The datagrams that wait at the socket of a worker, and what a poll makes of them: a packet for QUIC, nothing for now, with or
  without having itself woken, or the failed assertion. With it the responses that were dispatched. An error of the socket,
  which the poll passes on, is left out.\<close>

datatype poll_result = PollReady "u8 list" socket_addr | PollPending bool | PollPanic

fun poll_recv ::
    "nat \<Rightarrow> nat \<Rightarrow> nat \<Rightarrow> (u8 list \<times> socket_addr) list \<Rightarrow> poll_result \<times> (u8 list \<times> socket_addr) list \<times> (decoded_response \<times> socket_addr) list" where
  "poll_recv worker workers aux [] = (PollPending False, [], [])"
| "poll_recv worker workers aux ((p, a) # q) =
     (case decode_response_datagram p of
        Some r \<Rightarrow>
          if aux + 1 = MAX_AUXILIARY_DATAGRAMS_PER_POLL then (PollPending True, q, [(r, a)])
          else (let (x, q', rs) = poll_recv worker workers (aux + 1) q in (x, q', (r, a) # rs))
      | None \<Rightarrow>
          if is_udp_punch_payload p
          then if aux + 1 = MAX_AUXILIARY_DATAGRAMS_PER_POLL then (PollPending True, q, []) else poll_recv worker workers (aux + 1) q
          else if (case quic_packet_worker_index p workers of Some i \<Rightarrow> i \<noteq> worker | None \<Rightarrow> False) then (PollPanic, q, [])
          else (PollReady p a, q, []))"

subsection \<open>The listener\<close>

text \<open>An endpoint is the index of its worker.\<close>

record quic_listener =
  ql_local :: "endpoint option"
  ql_outer :: "endpoint option"
  ql_endpoints :: "nat list"
  ql_server :: bool
  ql_punch_socket :: "nat option"
  ql_mapping_port :: "u16 option"
  ql_reuse_address :: bool
  ql_closed :: bool
  ql_worker_count :: nat
  ql_generation :: u64
  ql_waiters :: probe_waiters

text \<open>\<open>g\<close>: the random number.\<close>

definition quic_listener_new :: "u64 \<Rightarrow> quic_listener" where
  "quic_listener_new g =
     \<lparr>ql_local = None, ql_outer = None, ql_endpoints = [], ql_server = False, ql_punch_socket = None, ql_mapping_port = None,
      ql_reuse_address = False, ql_closed = False, ql_worker_count = 0, ql_generation = max g 1, ql_waiters = waiters_new\<rparr>"

definition ensure_worker_endpoints_available :: "bool \<Rightarrow> bool \<Rightarrow> unit p2p_result" where
  "ensure_worker_endpoints_available closed no_endpoint = (if closed then Inl Interrupted else if no_endpoint then Inl ErrorState else Inr ())"

definition quic_bind :: "endpoint \<Rightarrow> endpoint option \<Rightarrow> u16 option \<Rightarrow> bool \<Rightarrow> quic_listener \<Rightarrow> quic_listener" where
  "quic_bind l out port reuse s = s\<lparr>ql_local := Some l, ql_outer := out, ql_mapping_port := port, ql_reuse_address := reuse\<rparr>"

definition quic_start_begin :: "quic_listener \<Rightarrow> endpoint p2p_result" where
  "quic_start_begin s =
     (if ql_closed s then Inl ErrorState
      else if ql_server s then Inl AlreadyExists
      else (case ql_local s of None \<Rightarrow> Inl InvalidParam | Some l \<Rightarrow> Inr l))"

definition quic_served :: "quic_listener \<Rightarrow> quic_listener" where
  "quic_served s = s\<lparr>ql_server := True\<rparr>"

text \<open>The end of the wait for an endpoint: \<open>notified\<close>, or the timeout. The endpoints that are closed are returned.\<close>

definition quic_start_end :: "bool \<Rightarrow> quic_listener \<Rightarrow> quic_listener \<times> nat list \<times> unit p2p_result" where
  "quic_start_end notified s =
     (if notified \<or> ql_endpoints s \<noteq> [] then (s, [], Inr ())
      else (s\<lparr>ql_server := False, ql_punch_socket := None, ql_endpoints := []\<rparr>, ql_endpoints s, Inl QuicError))"

text \<open>A worker comes up in three steps: it counts itself, looks whether the listener is closed, and enters its endpoint.\<close>

definition worker_count_in :: "nat \<Rightarrow> quic_listener \<Rightarrow> quic_listener option" where
  "worker_count_in w s = (if ql_closed s then None else Some (s\<lparr>ql_worker_count := max (ql_worker_count s) (w + 1)\<rparr>))"

definition register_worker_check :: "quic_listener \<Rightarrow> bool" where
  "register_worker_check s = (\<not> ql_closed s)"

definition register_worker_enter :: "nat \<Rightarrow> quic_listener \<Rightarrow> quic_listener" where
  "register_worker_enter w s =
     s\<lparr>ql_punch_socket := (case ql_punch_socket s of None \<Rightarrow> Some w | Some x \<Rightarrow> Some x), ql_endpoints := ql_endpoints s @ [w]\<rparr>"

text \<open>The endpoints that are closed, and whether the server is.\<close>

definition quic_close :: "quic_listener \<Rightarrow> quic_listener \<times> nat list \<times> bool" where
  "quic_close s =
     (if ql_closed s then (s, [], False)
      else (s\<lparr>ql_closed := True, ql_waiters := waiters_clear (ql_waiters s), ql_server := False, ql_punch_socket := None, ql_endpoints := []\<rparr>,
            ql_endpoints s, ql_server s))"

text \<open>\<open>at\<close>: the address of the endpoint of a worker.\<close>

definition bound_local :: "(nat \<Rightarrow> socket_addr p2p_result) \<Rightarrow> quic_listener \<Rightarrow> endpoint p2p_result" where
  "bound_local at s =
     (case ensure_worker_endpoints_available (ql_closed s) (ql_endpoints s = []) of
        Inl e \<Rightarrow> Inl e
      | Inr _ \<Rightarrow> (case at (hd (ql_endpoints s)) of
                    Inl _ \<Rightarrow> Inl ErrorState
                  | Inr a \<Rightarrow> Inr \<lparr>area = Lan, protocol = Quic, addr = a\<rparr>))"

subsection \<open>Probing\<close>

record traversal_prediction =
  tp_endpoints :: "endpoint list"
  tp_generation :: u64
  tp_valid_until :: timestamp
  tp_profile :: nat_profile

definition validate_traversal_prediction :: "traversal_prediction \<Rightarrow> timestamp \<Rightarrow> quic_listener \<Rightarrow> unit p2p_result" where
  "validate_traversal_prediction p now s =
     (if tp_generation p \<noteq> ql_generation s then Inl Expired
      else if tp_valid_until p < now then Inl Expired
      else (case ensure_worker_endpoints_available (ql_closed s) (ql_endpoints s = []) of
              Inl e \<Rightarrow> Inl e
            | Inr _ \<Rightarrow> if ql_punch_socket s = None then Inl ErrorState else Inr ()))"

fun probe_targets_ok :: "ip_addr \<Rightarrow> socket_addr list \<Rightarrow> endpoint list \<Rightarrow> bool" where
  "probe_targets_ok ip seen [] = True"
| "probe_targets_ok ip seen (t # ts) =
     (protocol t = Quic \<and> is_ipv4 (addr t) \<and> sa_ip (addr t) = ip \<and> sa_port (addr t) \<noteq> 0 \<and> addr t \<notin> set seen \<and>
      probe_targets_ok ip (addr t # seen) ts)"

text \<open>\<open>probe\<close>: what comes of the probe of the \<open>i\<close>-th target: an error if the listener is closed, the token is taken, sending fails,
  the channel closes or the time is over, or the address the reflector saw.\<close>

fun probe_loop :: "(nat \<Rightarrow> socket_addr p2p_result) \<Rightarrow> nat \<Rightarrow> endpoint list \<Rightarrow> endpoint list \<Rightarrow> endpoint list p2p_result" where
  "probe_loop probe i [] acc = Inr acc"
| "probe_loop probe i (t # ts) acc =
     (case probe i of
        Inl e \<Rightarrow> Inl e
      | Inr a \<Rightarrow> if \<not> is_ipv4 a then Inl InvalidData
                 else probe_loop probe (Suc i) ts (acc @ [\<lparr>area = ServerReflexive, protocol = Quic, addr = a\<rparr>]))"

text \<open>\<open>closed_after\<close>: whether the listener was closed when the last answer had come.\<close>

definition probe_nat_profile_with_base ::
    "(nat \<Rightarrow> socket_addr p2p_result) \<Rightarrow> bool \<Rightarrow> timestamp \<Rightarrow> endpoint list \<Rightarrow> duration \<Rightarrow> duration \<Rightarrow> quic_listener \<Rightarrow>
     (nat_profile \<times> endpoint) p2p_result" where
  "probe_nat_profile_with_base probe closed_after now ts timeout ttl s =
     (if length ts < 2 \<or> length ts > MAX_NAT_PREDICTION_PORTS \<or> timeout = 0 \<or> ttl = 0 then Inl InvalidParam
      else if \<not> probe_targets_ok (sa_ip (addr (hd ts))) [] ts then Inl InvalidParam
      else (case ensure_worker_endpoints_available (ql_closed s) (ql_endpoints s = []) of
              Inl e \<Rightarrow> Inl e
            | Inr _ \<Rightarrow>
                if ql_punch_socket s = None then Inl ErrorState
                else (case probe_loop probe 0 ts [] of
                        Inl e \<Rightarrow> Inl e
                      | Inr obs \<Rightarrow>
                          if closed_after then Inl Interrupted
                          else if obs = [] then Inl NotFound
                          else Inr (profile_from_observations obs now ttl, last obs))))"

definition predicted_endpoints :: "nat_prediction_hint \<Rightarrow> endpoint list" where
  "predicted_endpoints h =
     fold (\<lambda>port es. let e = \<lparr>area = ServerReflexive, protocol = Quic, addr = set_port port (addr (last_observed h))\<rparr>
                     in if list_ex (\<lambda>x. endpoint_eq x e) es then es else es @ [e])
       (predicted_ports h (last_observed h) MAX_NAT_PREDICTION_PORTS) []"

definition predict_traversal_endpoints ::
    "(nat \<Rightarrow> socket_addr p2p_result) \<Rightarrow> bool \<Rightarrow> timestamp \<Rightarrow> endpoint list \<Rightarrow> duration \<Rightarrow> duration \<Rightarrow> quic_listener \<Rightarrow>
     traversal_prediction p2p_result" where
  "predict_traversal_endpoints probe closed_after now ts timeout ttl s =
     (case probe_nat_profile_with_base probe closed_after now ts timeout ttl s of
        Inl e \<Rightarrow> Inl e
      | Inr (p, seen) \<Rightarrow>
          (case (case observation p of
                   NonSymmetricLike \<Rightarrow> Inr [seen]
                 | SymmetricLike \<Rightarrow> (case prediction_hint p of None \<Rightarrow> Inl NotFound | Some h \<Rightarrow> Inr (predicted_endpoints h))
                 | Unknown \<Rightarrow> Inr []) of
             Inl e \<Rightarrow> Inl e
           | Inr es \<Rightarrow> if es = [] then Inl NotFound
                       else Inr \<lparr>tp_endpoints = take MAX_NAT_PREDICTION_PORTS es, tp_generation = ql_generation s,
                                 tp_valid_until = valid_until p, tp_profile = p\<rparr>))"

subsection \<open>Punching\<close>

record connect_intent =
  ci_tunnel_id :: tunnel_id
  ci_candidate_id :: candidate_id
  ci_is_reverse :: bool
  ci_udp_punch_enabled :: bool

definition from_millis :: "nat \<Rightarrow> duration" where
  "from_millis n = n * 1000000"

definition UDP_PUNCH_INTERVAL :: duration where "UDP_PUNCH_INTERVAL = from_millis 50"
definition UDP_PUNCH_ACTIVE_START_OFFSET :: duration where "UDP_PUNCH_ACTIVE_START_OFFSET = from_millis 250"
definition UDP_PUNCH_REVERSE_START_OFFSET :: duration where "UDP_PUNCH_REVERSE_START_OFFSET = 0"
definition UDP_PUNCH_EARLY_ERROR_WINDOW :: duration where "UDP_PUNCH_EARLY_ERROR_WINDOW = from_secs 1"
definition UDP_PUNCH_PAYLOAD_MIN_LEN :: nat where "UDP_PUNCH_PAYLOAD_MIN_LEN = 5"
definition UDP_PUNCH_PAYLOAD_MAX_LEN :: nat where "UDP_PUNCH_PAYLOAD_MAX_LEN = 30"

text \<open>The largest \<open>Duration\<close> has \<open>u64::MAX\<close> seconds.\<close>

definition checked_add_duration :: "duration \<Rightarrow> duration \<Rightarrow> duration option" where
  "checked_add_duration a b = (if a + b < from_secs (2 ^ 64) then Some (a + b) else None)"

definition udp_punch_enabled_for_endpoint :: "endpoint \<Rightarrow> bool" where
  "udp_punch_enabled_for_endpoint e \<longleftrightarrow> protocol e = Quic \<and> rendezvous_eligible_area False e \<and> sa_port (addr e) \<noteq> 0"

text \<open>\<open>n\<close>: the random length, \<open>r\<close>: the random bytes.\<close>

definition udp_punch_payload :: "nat \<Rightarrow> u8 list \<Rightarrow> u8 list" where
  "udp_punch_payload n r = take n (UDP_PUNCH_MAGIC @ drop (length UDP_PUNCH_MAGIC) r)"

definition udp_punch_start_offset :: "connect_intent \<Rightarrow> duration" where
  "udp_punch_start_offset i = (if ci_is_reverse i then UDP_PUNCH_REVERSE_START_OFFSET else UDP_PUNCH_ACTIVE_START_OFFSET)"

definition udp_punch_burst_window :: "connect_intent \<Rightarrow> duration" where
  "udp_punch_burst_window i = UDP_PUNCH_EARLY_ERROR_WINDOW"

definition udp_punch_next_offset :: "duration \<Rightarrow> duration \<Rightarrow> duration \<Rightarrow> duration option" where
  "udp_punch_next_offset current elapsed max_duration =
     (case checked_add_duration current UDP_PUNCH_INTERVAL of
        None \<Rightarrow> None
      | Some regular \<Rightarrow>
          (case (if regular > elapsed then Some regular
                 else (case checked_add_duration elapsed UDP_PUNCH_INTERVAL of
                         None \<Rightarrow> None
                       | Some earliest \<Rightarrow>
                           let skip = 1 + (earliest - regular - 1) div UDP_PUNCH_INTERVAL
                           in if skip \<ge> 2 ^ 32 then None else checked_add_duration regular (UDP_PUNCH_INTERVAL * skip))) of
             None \<Rightarrow> None
           | Some n \<Rightarrow> if n \<le> max_duration then Some n else None))"

lemma udp_punch_next_offset_bounds:
  "udp_punch_next_offset current elapsed max_duration = Some n \<Longrightarrow> current < n \<and> n \<le> max_duration"
  by (auto simp: udp_punch_next_offset_def checked_add_duration_def UDP_PUNCH_INTERVAL_def from_millis_def Let_def split: option.splits if_splits)

text \<open>The clock of a burst: the time since its start when the \<open>i\<close>-th round begins, when its wait is over and when its packet is
  sent; whether the listener is seen closed before it, and while it is sent. The offsets at which packets are sent.\<close>

record punch_clock =
  pk_top :: "nat \<Rightarrow> duration"
  pk_woken :: "nat \<Rightarrow> duration"
  pk_sent :: "nat \<Rightarrow> duration"
  pk_closed :: "nat \<Rightarrow> bool"
  pk_cut :: "nat \<Rightarrow> bool"

function punch_loop :: "punch_clock \<Rightarrow> duration \<Rightarrow> duration \<Rightarrow> nat \<Rightarrow> duration list" where
  "punch_loop k max_duration next_offset i =
     (if pk_top k i > max_duration \<or> pk_closed k i \<or> pk_woken k i > max_duration \<or> pk_cut k i then []
      else next_offset #
             (case udp_punch_next_offset next_offset (pk_sent k i) max_duration of
                None \<Rightarrow> []
              | Some n \<Rightarrow> punch_loop k max_duration n (Suc i)))"
  by pat_completeness auto

termination
  by (relation "measure (\<lambda>(k, d, n, i). Suc d - n)") (auto dest: udp_punch_next_offset_bounds)

declare punch_loop.simps [simp del]

definition run_udp_punch_burst :: "punch_clock \<Rightarrow> endpoint \<Rightarrow> connect_intent \<Rightarrow> duration \<Rightarrow> quic_listener \<Rightarrow> duration list" where
  "run_udp_punch_burst k remote intent max_duration s =
     (if \<not> udp_punch_enabled_for_endpoint remote then []
      else if udp_punch_start_offset intent > max_duration then []
      else if ql_punch_socket s = None then []
      else punch_loop k max_duration (udp_punch_start_offset intent) 0)"

function punch_offsets_from :: "duration \<Rightarrow> duration \<Rightarrow> duration list" where
  "punch_offsets_from deadline offset =
     offset # (case checked_add_duration offset UDP_PUNCH_INTERVAL of
                 None \<Rightarrow> []
               | Some n \<Rightarrow> if n > deadline then [] else punch_offsets_from deadline n)"
  by pat_completeness auto

termination
  by (relation "measure (\<lambda>(d, n). Suc d - n)")
    (auto simp: checked_add_duration_def UDP_PUNCH_INTERVAL_def from_millis_def split: if_splits)

declare punch_offsets_from.simps [simp del]

definition udp_punch_offsets_for_deadline :: "connect_intent \<Rightarrow> duration \<Rightarrow> duration list" where
  "udp_punch_offsets_for_deadline intent max_duration =
     (if udp_punch_start_offset intent > max_duration then [] else punch_offsets_from max_duration (udp_punch_start_offset intent))"

subsection \<open>Server names\<close>

text \<open>\<open>valid\<close>: what the TLS library takes for a server name.\<close>

definition validate_server_name :: "(string \<Rightarrow> bool) \<Rightarrow> string \<Rightarrow> string" where
  "validate_server_name valid n = (if valid n then n else ''p2p.'' @ n @ ''.com'')"

function trim_start_matches :: "string \<Rightarrow> string \<Rightarrow> string" where
  "trim_start_matches pat s = (if pat \<noteq> [] \<and> take (length pat) s = pat then trim_start_matches pat (drop (length pat) s) else s)"
  by pat_completeness auto

termination
proof (relation "measure (\<lambda>(pat, s). length s)", goal_cases)
  case (2 pat s)
  then have "length (take (length pat) s) = length pat" "pat \<noteq> []" by simp_all
  then have "0 < length pat" "0 < length s" by auto
  then show ?case by (simp only: in_measure prod.case length_drop diff_less)
qed simp

declare trim_start_matches.simps [simp del]

definition trim_end_matches :: "string \<Rightarrow> string \<Rightarrow> string" where
  "trim_end_matches pat s = rev (trim_start_matches (rev pat) (rev s))"

definition parse_server_name :: "string \<Rightarrow> string" where
  "parse_server_name s =
     (if take 4 s = ''p2p.'' \<and> take 4 (rev s) = rev ''.com''
      then trim_end_matches ''.com'' (trim_start_matches ''p2p.'' s) else s)"

subsection \<open>Runs of the waiters\<close>

text \<open>The waiters, the responses that were checked and not yet delivered, everything that was registered and every answer.\<close>

record probe_run =
  pb_waiters :: probe_waiters
  pb_checked :: "(decoded_response \<times> socket_addr \<times> nat) list"
  pb_log :: "(nat \<times> u8 list \<times> socket_addr \<times> probe_cert) list"
  pb_answers :: "(nat \<times> decoded_response \<times> socket_addr) list"

definition probe_run_start :: probe_run where
  "probe_run_start = \<lparr>pb_waiters = waiters_new, pb_checked = [], pb_log = [], pb_answers = []\<rparr>"

datatype probe_event =
    EvRegister "u8 list" socket_addr probe_cert
  | EvDrop "u8 list" nat
  | EvReceive decoded_response socket_addr
  | EvDeliver nat
  | EvClear

definition on_probe_event :: "probe_event \<Rightarrow> probe_run \<Rightarrow> probe_run" where
  "on_probe_event e s =
     (case e of
        EvRegister token src cert \<Rightarrow>
          (case waiters_register token src cert (pb_waiters s) of
             (w, Inl _) \<Rightarrow> s\<lparr>pb_waiters := w\<rparr>
           | (w, Inr n) \<Rightarrow> s\<lparr>pb_waiters := w, pb_log := pb_log s @ [(n, token, src, cert)]\<rparr>)
      | EvDrop token n \<Rightarrow> s\<lparr>pb_waiters := registration_drop token n (pb_waiters s)\<rparr>
      | EvReceive r src \<Rightarrow>
          (case response_check r src (pb_waiters s) of None \<Rightarrow> s | Some n \<Rightarrow> s\<lparr>pb_checked := pb_checked s @ [(r, src, n)]\<rparr>)
      | EvDeliver i \<Rightarrow>
          if i < length (pb_checked s)
          then let (r, src, n) = pb_checked s ! i; (w, x) = response_deliver r n (pb_waiters s)
               in s\<lparr>pb_waiters := w, pb_checked := take i (pb_checked s) @ drop (Suc i) (pb_checked s),
                    pb_answers := pb_answers s @ (case x of None \<Rightarrow> [] | Some n \<Rightarrow> [(n, r, src)])\<rparr>
          else s
      | EvClear \<Rightarrow> s\<lparr>pb_waiters := waiters_clear (pb_waiters s)\<rparr>)"

section \<open>Answers\<close>

definition probe_run_inv :: "probe_run \<Rightarrow> bool" where
  "probe_run_inv s \<longleftrightarrow>
     (\<forall>token x. hm_get (pws_pending (pb_waiters s)) token = Some x \<longrightarrow>
        (pw_owner x, token, pw_source x, pw_signer x) \<in> set (pb_log s) \<and> pw_owner x \<notin> fst ` set (pb_answers s)) \<and>
     (\<forall>(n, l) \<in> set (pb_log s). n < pws_next (pb_waiters s)) \<and> distinct (map fst (pb_log s)) \<and>
     fst ` set (pb_answers s) \<subseteq> fst ` set (pb_log s) \<and>
     (\<forall>(r, src, n) \<in> set (pb_checked s). \<exists>cert. (n, dr_token r, src, cert) \<in> set (pb_log s) \<and> response_verify r cert) \<and>
     distinct (map fst (pb_answers s)) \<and>
     (\<forall>(n, r, src) \<in> set (pb_answers s). \<exists>cert. (n, dr_token r, src, cert) \<in> set (pb_log s) \<and> response_verify r cert)"

lemma probe_run_start_inv: "probe_run_inv probe_run_start"
  by (simp add: probe_run_inv_def probe_run_start_def waiters_new_def hm.get_empty)

lemma hm_get_without: "hm_get (hm_remove k m) k' = (if k' = k then None else hm_get m k')"
  unfolding hm_get_def hm_remove_def by (simp add: delete_conv')

lemma register_inv:
  assumes "probe_run_inv s"
  shows "probe_run_inv (on_probe_event (EvRegister token src cert) s)"
proof (cases "hm_get (pws_pending (pb_waiters s)) token")
  case (Some x)
  with assms show ?thesis by (simp add: on_probe_event_def waiters_register_def)
next
  case None
  let ?n = "pws_next (pb_waiters s)"
  have fresh: "?n \<notin> fst ` set (pb_log s)" using assms unfolding probe_run_inv_def by fastforce
  then have "?n \<notin> fst ` set (pb_answers s)" using assms unfolding probe_run_inv_def by blast
  moreover have "\<forall>(n, l) \<in> set (pb_log s). n < Suc ?n" using assms unfolding probe_run_inv_def by fastforce
  ultimately show ?thesis
    using assms None fresh unfolding probe_run_inv_def
    by (auto simp: on_probe_event_def waiters_register_def Let_def hm.get_insert split: if_splits)
qed

lemma deliver_inv:
  assumes "probe_run_inv s"
  shows "probe_run_inv (on_probe_event (EvDeliver i) s)"
proof (cases "i < length (pb_checked s)")
  case False
  with assms show ?thesis by (simp add: on_probe_event_def)
next
  case True
  obtain r src n where e: "pb_checked s ! i = (r, src, n)" by (metis prod_cases3)
  then have "(r, src, n) \<in> set (pb_checked s)" using True by (metis nth_mem)
  then obtain cert where cert: "(n, dr_token r, src, cert) \<in> set (pb_log s)" "response_verify r cert"
    using assms unfolding probe_run_inv_def by fastforce
  define rest where "rest = take i (pb_checked s) @ drop (Suc i) (pb_checked s)"
  have sub: "set rest \<subseteq> set (pb_checked s)" unfolding rest_def by (auto dest: in_set_takeD in_set_dropD)
  show ?thesis
  proof (cases "\<exists>x. hm_get (pws_pending (pb_waiters s)) (dr_token r) = Some x \<and> pw_owner x = n")
    case False
    then have "on_probe_event (EvDeliver i) s = s\<lparr>pb_checked := rest\<rparr>"
      using True e by (auto simp: on_probe_event_def response_deliver_def rest_def split: option.splits)
    with assms sub show ?thesis unfolding probe_run_inv_def by auto
  next
    case owned: True
    then obtain x where x: "hm_get (pws_pending (pb_waiters s)) (dr_token r) = Some x" "pw_owner x = n" by blast
    let ?w = "(pb_waiters s)\<lparr>pws_pending := hm_remove (dr_token r) (pws_pending (pb_waiters s))\<rparr>"
    have step: "on_probe_event (EvDeliver i) s =
        s\<lparr>pb_waiters := ?w, pb_checked := rest, pb_answers := pb_answers s @ [(n, r, src)]\<rparr>"
      using True e x by (simp add: on_probe_event_def response_deliver_def rest_def)
    have other: "pw_owner y \<noteq> n" if "hm_get (pws_pending (pb_waiters s)) token = Some y" "token \<noteq> dr_token r" for token y
    proof
      assume "pw_owner y = n"
      then have "(n, token, pw_source y, pw_signer y) \<in> set (pb_log s)" using assms that(1) unfolding probe_run_inv_def by blast
      moreover have "distinct (map fst (pb_log s))" using assms unfolding probe_run_inv_def by blast
      ultimately show False using cert(1) that(2) by (auto dest: eq_key_imp_eq_value)
    qed
    have "n \<notin> fst ` set (pb_answers s)" using assms x unfolding probe_run_inv_def by blast
    with assms sub cert other show ?thesis
      unfolding step probe_run_inv_def by (auto simp: hm_get_without split: if_splits intro: rev_image_eqI)
  qed
qed

lemma probe_event_inv: "probe_run_inv s \<Longrightarrow> probe_run_inv (on_probe_event e s)"
proof (cases e)
  case (EvDrop token n)
  assume "probe_run_inv s"
  with EvDrop show ?thesis
    unfolding probe_run_inv_def by (auto simp: on_probe_event_def registration_drop_def hm_get_without split: option.splits if_splits)
next
  case (EvReceive r src)
  assume inv: "probe_run_inv s"
  show ?thesis
  proof (cases "response_check r src (pb_waiters s)")
    case None
    with inv EvReceive show ?thesis by (simp add: on_probe_event_def)
  next
    case (Some n)
    then obtain x where "hm_get (pws_pending (pb_waiters s)) (dr_token r) = Some x" "src = pw_source x" "response_verify r (pw_signer x)" "n = pw_owner x"
      by (auto simp: response_check_def split: option.splits if_splits)
    then have "\<exists>cert. (n, dr_token r, src, cert) \<in> set (pb_log s) \<and> response_verify r cert"
      using inv unfolding probe_run_inv_def by blast
    with inv EvReceive Some show ?thesis unfolding probe_run_inv_def by (simp add: on_probe_event_def)
  qed
next
  case EvClear
  assume "probe_run_inv s"
  with EvClear show ?thesis
    unfolding probe_run_inv_def by (simp add: on_probe_event_def waiters_clear_def hm.get_empty)
qed (simp_all add: register_inv deliver_inv)

lemma probe_run_inv_fold: "probe_run_inv s \<Longrightarrow> probe_run_inv (fold on_probe_event es s)"
  by (induction es arbitrary: s) (simp_all add: probe_event_inv)

text \<open>C25: whatever is registered, dropped, received and delivered in whatever order, and although a response is checked without
  the lock, a probe is answered at most once, and only by a response that carries its token, came from the address
  that was probed and has a valid signature of the signer it expects; a probe that reuses the token of one that
  is gone is not answered by what was checked for that one.\<close>

theorem probe_answered_once_and_genuine:
  "distinct (map fst (pb_answers (fold on_probe_event es probe_run_start))) \<and>
   (\<forall>n r src. (n, r, src) \<in> set (pb_answers (fold on_probe_event es probe_run_start)) \<longrightarrow>
      (\<exists>cert. (n, dr_token r, src, cert) \<in> set (pb_log (fold on_probe_event es probe_run_start)) \<and> response_verify r cert)) \<and>
   distinct (map fst (pb_log (fold on_probe_event es probe_run_start)))"
  using probe_run_inv_fold [OF probe_run_start_inv, of es] unfolding probe_run_inv_def by fastforce

definition any_cert :: probe_cert where
  "any_cert = \<lparr>pc_id = P2pId [9], pc_verify = \<lambda>_ _. True\<rparr>"

definition some_response :: decoded_response where
  "some_response = \<lparr>dr_token = [1], dr_observed = V4 (Ipv4 1 2 3 4) 5, dr_signature = [], dr_signed_fields = replicate 32 0\<rparr>"

theorem probe_answered_once_and_genuine_witness:
  "let s = fold on_probe_event [EvRegister [1] (V4 (Ipv4 8 8 8 8) 3) any_cert, EvReceive some_response (V4 (Ipv4 8 8 8 8) 3), EvDeliver 0] probe_run_start
   in pb_answers s = [(0, some_response, V4 (Ipv4 8 8 8 8) 3)] \<and>
      (\<exists>cert. (0, [1], V4 (Ipv4 8 8 8 8) 3, cert) \<in> set (pb_log s) \<and> response_verify some_response cert)"
proof -
  let ?es = "[EvRegister [1] (V4 (Ipv4 8 8 8 8) 3) any_cert, EvReceive some_response (V4 (Ipv4 8 8 8 8) 3), EvDeliver 0]"
  have a: "pb_answers (fold on_probe_event ?es probe_run_start) = [(0, some_response, V4 (Ipv4 8 8 8 8) 3)]"
    by (simp add: on_probe_event_def probe_run_start_def waiters_new_def waiters_register_def response_check_def response_deliver_def hm_simps
        some_response_def any_cert_def response_verify_def response_signature_preimage_def probe_consts)
  with probe_answered_once_and_genuine [of ?es] show ?thesis by (auto simp: Let_def some_response_def)
qed

section \<open>Punches\<close>

lemma interval_pos: "0 < UDP_PUNCH_INTERVAL"
  by (simp add: UDP_PUNCH_INTERVAL_def from_millis_def)

text \<open>The next offset lies on the grid of the interval and after what has elapsed.\<close>

lemma next_offset_grid:
  assumes "udp_punch_next_offset current elapsed max_duration = Some n"
  shows "\<exists>j > 0. n = current + UDP_PUNCH_INTERVAL * j" "elapsed < n" "n \<le> max_duration"
    and "n = current + UDP_PUNCH_INTERVAL \<or> (elapsed + UDP_PUNCH_INTERVAL \<le> n \<and> n < elapsed + 2 * UDP_PUNCH_INTERVAL)"
proof -
  let ?I = UDP_PUNCH_INTERVAL
  obtain regular where reg: "regular = current + ?I" "n \<le> max_duration"
    "n = regular \<and> elapsed < regular \<or>
     (\<exists>skip. \<not> elapsed < regular \<and> skip = 1 + (elapsed + ?I - regular - 1) div ?I \<and> n = regular + ?I * skip)"
    using assms
    by (auto simp: udp_punch_next_offset_def checked_add_duration_def Let_def split: option.splits if_splits)
  have "(\<exists>j > 0. n = current + ?I * j) \<and> elapsed < n \<and>
      (n = current + ?I \<or> (elapsed + ?I \<le> n \<and> n < elapsed + 2 * ?I))"
    using reg(3)
  proof
    assume "n = regular \<and> elapsed < regular"
    then show ?thesis using reg(1) by (auto intro: exI [of _ 1])
  next
    assume "\<exists>skip. \<not> elapsed < regular \<and> skip = 1 + (elapsed + ?I - regular - 1) div ?I \<and> n = regular + ?I * skip"
    then obtain skip where sk: "regular \<le> elapsed" "skip = 1 + (elapsed + ?I - regular - 1) div ?I" "n = regular + ?I * skip" by auto
    define x where "x = elapsed + ?I - regular - 1"
    have x: "elapsed + ?I = regular + x + 1" using sk(1) interval_pos by (simp add: x_def)
    have "?I * (x div ?I) \<le> x" "x < ?I * (x div ?I) + ?I"
      using mod_less_divisor [OF interval_pos, of x] mult_div_mod_eq [of ?I x] by linarith+
    moreover have "n = regular + ?I + ?I * (x div ?I)" using sk(2,3) by (simp add: x_def algebra_simps)
    ultimately have "elapsed + ?I \<le> n" "n < elapsed + 2 * ?I" using x by linarith+
    moreover have "n = current + ?I * (1 + skip)" using sk(3) reg(1) by (simp add: algebra_simps)
    moreover have "0 < 1 + skip" "elapsed < n" using \<open>elapsed + ?I \<le> n\<close> interval_pos by simp_all
    ultimately show ?thesis by blast
  qed
  then show "\<exists>j > 0. n = current + ?I * j" "elapsed < n" "n \<le> max_duration"
    and "n = current + ?I \<or> (elapsed + ?I \<le> n \<and> n < elapsed + 2 * ?I)"
    using reg(2) by blast+
qed

lemma punch_loop_grid:
  "o' \<in> set (punch_loop k d n i) \<Longrightarrow> n \<le> d \<Longrightarrow> o' \<le> d \<and> (\<exists>j. o' = n + UDP_PUNCH_INTERVAL * j)"
proof (induction k d n i rule: punch_loop.induct)
  case (1 k d n i)
  from 1(2) have go: "\<not> (pk_top k i > d \<or> pk_closed k i \<or> pk_woken k i > d \<or> pk_cut k i)"
    by (subst (asm) punch_loop.simps) (simp split: if_splits)
  with 1(2) have cases: "o' = n \<or> (\<exists>m. udp_punch_next_offset n (pk_sent k i) d = Some m \<and> o' \<in> set (punch_loop k d m (Suc i)))"
    by (subst (asm) punch_loop.simps) (auto split: option.splits)
  from cases show ?case
  proof
    assume "o' = n"
    with 1(3) show ?thesis by (auto intro: exI [of _ 0])
  next
    assume "\<exists>m. udp_punch_next_offset n (pk_sent k i) d = Some m \<and> o' \<in> set (punch_loop k d m (Suc i))"
    then obtain m where m: "udp_punch_next_offset n (pk_sent k i) d = Some m" "o' \<in> set (punch_loop k d m (Suc i))" by blast
    note g = next_offset_grid [OF m(1)]
    from 1(1) [OF go m(1) m(2) g(3)] obtain j where j: "o' \<le> d" "o' = m + UDP_PUNCH_INTERVAL * j" by blast
    from g(1) obtain l where "m = n + UDP_PUNCH_INTERVAL * l" by blast
    with j have "o' = n + UDP_PUNCH_INTERVAL * (l + j)" by (simp add: algebra_simps)
    with j(1) show ?thesis by blast
  qed
qed

lemma punch_loop_sorted: "sorted_wrt (<) (punch_loop k d n i) \<and> (\<forall>o' \<in> set (punch_loop k d n i). n \<le> o')"
proof (induction k d n i rule: punch_loop.induct)
  case (1 k d n i)
  show ?case
  proof (cases "(pk_top k i > d \<or> pk_closed k i \<or> pk_woken k i > d \<or> pk_cut k i) \<or> udp_punch_next_offset n (pk_sent k i) d = None")
    case True
    then have "punch_loop k d n i = [] \<or> punch_loop k d n i = [n]" by (subst (1 2) punch_loop.simps) (auto split: option.splits)
    then show ?thesis by auto
  next
    case False
    then obtain m where m: "udp_punch_next_offset n (pk_sent k i) d = Some m" by blast
    then have eq: "punch_loop k d n i = n # punch_loop k d m (Suc i)" using False by (subst punch_loop.simps) simp
    from 1 [of m] False m udp_punch_next_offset_bounds [OF m] show ?thesis unfolding eq by fastforce
  qed
qed

lemma grid_length:
  assumes "sorted_wrt (<) xs" "\<forall>x \<in> set xs. x \<le> d \<and> (\<exists>j. x = n + UDP_PUNCH_INTERVAL * j)"
  shows "length xs \<le> d div UDP_PUNCH_INTERVAL + 1"
proof -
  have "set xs \<subseteq> (\<lambda>j. n + UDP_PUNCH_INTERVAL * j) ` {.. d div UDP_PUNCH_INTERVAL}"
  proof
    fix x assume "x \<in> set xs"
    then obtain j where j: "x = n + UDP_PUNCH_INTERVAL * j" "x \<le> d" using assms(2) by blast
    then have "UDP_PUNCH_INTERVAL * j \<le> d" by simp
    then have "j \<le> d div UDP_PUNCH_INTERVAL" using interval_pos by (simp add: less_eq_div_iff_mult_less_eq mult.commute)
    with j(1) show "x \<in> (\<lambda>j. n + UDP_PUNCH_INTERVAL * j) ` {.. d div UDP_PUNCH_INTERVAL}" by blast
  qed
  then have "card (set xs) \<le> card ((\<lambda>j. n + UDP_PUNCH_INTERVAL * j) ` {.. d div UDP_PUNCH_INTERVAL})" by (intro card_mono) simp_all
  also have "\<dots> \<le> d div UDP_PUNCH_INTERVAL + 1" using card_image_le [of "{.. d div UDP_PUNCH_INTERVAL}"] by fastforce
  finally show ?thesis using assms(1) by (simp add: distinct_card strict_sorted_iff)
qed

text \<open>a burst of UDP punches ends, however late its rounds are: it sends at increasing offsets that lie a whole number of
  intervals of 50 ms after its start, none after its duration, and so at most one packet for every 50 ms of it
  and one more; rounds that were missed are not made up for.\<close>

theorem punch_burst_bounded:
  "sorted_wrt (<) (run_udp_punch_burst k remote intent d s) \<and>
   (\<forall>o' \<in> set (run_udp_punch_burst k remote intent d s).
      o' \<le> d \<and> (\<exists>j. o' = udp_punch_start_offset intent + UDP_PUNCH_INTERVAL * j)) \<and>
   length (run_udp_punch_burst k remote intent d s) \<le> d div UDP_PUNCH_INTERVAL + 1"
proof (cases "run_udp_punch_burst k remote intent d s = []")
  case False
  then have b: "run_udp_punch_burst k remote intent d s = punch_loop k d (udp_punch_start_offset intent) 0" "udp_punch_start_offset intent \<le> d"
    by (auto simp: run_udp_punch_burst_def split: if_splits)
  have "\<forall>o' \<in> set (run_udp_punch_burst k remote intent d s). o' \<le> d \<and> (\<exists>j. o' = udp_punch_start_offset intent + UDP_PUNCH_INTERVAL * j)"
    using punch_loop_grid b by metis
  moreover have "sorted_wrt (<) (run_udp_punch_burst k remote intent d s)" using punch_loop_sorted b(1) by metis
  ultimately show ?thesis using grid_length by blast
qed simp

definition prompt_clock :: punch_clock where
  "prompt_clock = \<lparr>pk_top = \<lambda>_. 0, pk_woken = \<lambda>_. 0, pk_sent = \<lambda>_. 0, pk_closed = \<lambda>_. False, pk_cut = \<lambda>_. False\<rparr>"

definition some_intent :: connect_intent where
  "some_intent = \<lparr>ci_tunnel_id = TunnelId 1, ci_candidate_id = TunnelCandidateId 1, ci_is_reverse = True, ci_udp_punch_enabled = True\<rparr>"

definition some_listener :: quic_listener where
  "some_listener = register_worker_enter 0 (quic_served (quic_listener_new 7))"

definition punched :: endpoint where
  "punched = \<lparr>area = ServerReflexive, protocol = Quic, addr = V4 (Ipv4 8 8 8 8) 9\<rparr>"

theorem punch_burst_bounded_witness:
  "\<forall>o' \<in> set (run_udp_punch_burst prompt_clock punched some_intent (from_secs 1) some_listener). o' \<le> from_secs 1"
  using punch_burst_bounded [of prompt_clock punched some_intent "from_secs 1" some_listener] by blast

text \<open>a burst whose rounds are all in time, whose packets are sent before the next one is due and whose listener stays open
  sends at exactly the offsets the plan for its duration lists.\<close>

theorem punch_burst_on_time:
  assumes "udp_punch_enabled_for_endpoint remote" "ql_punch_socket s \<noteq> None" "d + UDP_PUNCH_INTERVAL < from_secs (2 ^ 64)"
    and "\<And>i. pk_top k i \<le> d \<and> pk_woken k i \<le> d \<and> \<not> pk_closed k i \<and> \<not> pk_cut k i"
    and "\<And>i. pk_sent k i < udp_punch_start_offset intent + UDP_PUNCH_INTERVAL * Suc i"
  shows "run_udp_punch_burst k remote intent d s = udp_punch_offsets_for_deadline intent d"
proof -
  have next_due: "udp_punch_next_offset n (pk_sent k i) d = (if n + UDP_PUNCH_INTERVAL \<le> d then Some (n + UDP_PUNCH_INTERVAL) else None)"
    if "n = udp_punch_start_offset intent + UDP_PUNCH_INTERVAL * i" "n \<le> d" for n i
    using assms(3) assms(5) [of i] that by (auto simp: udp_punch_next_offset_def checked_add_duration_def algebra_simps)
  have "punch_loop k d n i = punch_offsets_from d n"
    if "n = udp_punch_start_offset intent + UDP_PUNCH_INTERVAL * i" "n \<le> d" for n i
    using that
  proof (induction "d - n" arbitrary: n i rule: less_induct)
    case less
    have go: "\<not> (pk_top k i > d \<or> pk_closed k i \<or> pk_woken k i > d \<or> pk_cut k i)" using assms(4) [of i] by auto
    have c: "checked_add_duration n UDP_PUNCH_INTERVAL = Some (n + UDP_PUNCH_INTERVAL)"
      using assms(3) less.prems(2) by (simp add: checked_add_duration_def)
    show ?case
    proof (cases "n + UDP_PUNCH_INTERVAL \<le> d")
      case True
      have "punch_loop k d (n + UDP_PUNCH_INTERVAL) (Suc i) = punch_offsets_from d (n + UDP_PUNCH_INTERVAL)"
        using less.prems True interval_pos by (intro less.hyps) (auto simp: algebra_simps)
      with go True next_due [OF less.prems] c show ?thesis
        by (simp add: punch_loop.simps [of k d n i] punch_offsets_from.simps [of d n])
    next
      case False
      with go next_due [OF less.prems] c show ?thesis
        by (simp add: punch_loop.simps [of k d n i] punch_offsets_from.simps [of d n])
    qed
  qed
  from this [of "udp_punch_start_offset intent" 0] show ?thesis
    using assms(1,2) by (auto simp: run_udp_punch_burst_def udp_punch_offsets_for_deadline_def)
qed

lemma punched_enabled: "udp_punch_enabled_for_endpoint punched"
  by code_simp

theorem punch_burst_on_time_witness:
  "run_udp_punch_burst prompt_clock punched some_intent (from_secs 1) some_listener = udp_punch_offsets_for_deadline some_intent (from_secs 1)"
  by (rule punch_burst_on_time)
    (auto simp: punched_enabled some_listener_def register_worker_enter_def quic_served_def quic_listener_new_def
      prompt_clock_def some_intent_def udp_punch_start_offset_def UDP_PUNCH_REVERSE_START_OFFSET_def UDP_PUNCH_INTERVAL_def from_millis_def from_secs_def)

section \<open>The life of the listener\<close>

text \<open>a worker that came up while the listener was closed: between its look at the flag and its entry the closing takes all
  endpoints away, and the worker enters its own after that. The closed listener keeps an endpoint nobody
  closes, and a socket for punching.\<close>

theorem worker_entered_after_close:
  assumes "\<not> ql_closed s" "quic_close s = (s1, closed_eps, served)"
  shows "register_worker_check s \<and> ql_endpoints s1 = [] \<and>
         ql_endpoints (register_worker_enter w s1) = [w] \<and> ql_punch_socket (register_worker_enter w s1) = Some w \<and>
         quic_close (register_worker_enter w s1) = (register_worker_enter w s1, [], False)"
  using assms by (auto simp: quic_close_def register_worker_check_def register_worker_enter_def)

theorem worker_entered_after_close_witness:
  "ql_endpoints (register_worker_enter 3 (fst (quic_close some_listener))) = [3]"
  using worker_entered_after_close [of some_listener "fst (quic_close some_listener)" "fst (snd (quic_close some_listener))"
      "snd (snd (quic_close some_listener))" 3]
  by (simp add: some_listener_def register_worker_enter_def quic_served_def quic_listener_new_def)

section \<open>Datagrams\<close>

text \<open>What a poll that had already taken \<open>n\<close> datagrams aside makes of the queue: \<open>aux\<close> are those it takes aside.\<close>

definition poll_split ::
    "nat \<Rightarrow> nat \<Rightarrow> nat \<Rightarrow> (u8 list \<times> socket_addr) list \<Rightarrow> poll_result \<Rightarrow> (u8 list \<times> socket_addr) list \<Rightarrow> (decoded_response \<times> socket_addr) list \<Rightarrow>
     (u8 list \<times> socket_addr) list \<Rightarrow> bool" where
  "poll_split worker workers n q x q' rs aux \<longleftrightarrow>
     list_all (\<lambda>(p, a). decode_response_datagram p \<noteq> None \<or> is_udp_punch_payload p) aux \<and>
     rs = List.map_filter (\<lambda>(p, a). map_option (\<lambda>r. (r, a)) (decode_response_datagram p)) aux \<and>
     n + length aux \<le> MAX_AUXILIARY_DATAGRAMS_PER_POLL \<and>
     (case x of
        PollReady p a \<Rightarrow> q = aux @ (p, a) # q' \<and> decode_response_datagram p = None \<and> \<not> is_udp_punch_payload p
      | PollPending woken \<Rightarrow> q = aux @ q' \<and> (woken \<longleftrightarrow> n + length aux = MAX_AUXILIARY_DATAGRAMS_PER_POLL) \<and> (\<not> woken \<longrightarrow> q' = [])
      | PollPanic \<Rightarrow> \<exists>p a i. q = aux @ (p, a) # q' \<and> quic_packet_worker_index p workers = Some i \<and> i \<noteq> worker)"

lemma poll_recv_split:
  "poll_recv worker workers n q = (x, q', rs) \<Longrightarrow> n < MAX_AUXILIARY_DATAGRAMS_PER_POLL \<Longrightarrow> \<exists>aux. poll_split worker workers n q x q' rs aux"
proof (induction worker workers n q arbitrary: x q' rs rule: poll_recv.induct)
  case (1 worker workers n)
  then show ?case by (auto intro!: exI [of _ "[]"] simp: poll_split_def map_filter_simps)
next
  case (2 worker workers n p a q)
  consider (last) "decode_response_datagram p \<noteq> None \<or> is_udp_punch_payload p" "n + 1 = MAX_AUXILIARY_DATAGRAMS_PER_POLL"
    | (more) "decode_response_datagram p \<noteq> None \<or> is_udp_punch_payload p" "n + 1 < MAX_AUXILIARY_DATAGRAMS_PER_POLL"
    | (quic) "decode_response_datagram p = None" "\<not> is_udp_punch_payload p"
    using 2(4) by linarith
  then show ?case
  proof cases
    case last
    with 2(3) have "poll_split worker workers n ((p, a) # q) x q' rs [(p, a)]"
      by (auto simp: poll_split_def map_filter_simps split: option.splits)
    then show ?thesis ..
  next
    case quic
    with 2(3,4) have "poll_split worker workers n ((p, a) # q) x q' rs []"
      by (auto simp: poll_split_def map_filter_simps split: option.splits if_splits)
    then show ?thesis ..
  next
    case more
    obtain rs' where rec: "poll_recv worker workers (n + 1) q = (x, q', rs')"
      "rs = (case decode_response_datagram p of None \<Rightarrow> rs' | Some r \<Rightarrow> (r, a) # rs')"
      using 2(3) more by (auto split: option.splits prod.splits if_splits)
    have "\<exists>aux. poll_split worker workers (n + 1) q x q' rs' aux"
      using 2(1,2) rec(1) more by (cases "decode_response_datagram p") auto
    then obtain aux where "poll_split worker workers (n + 1) q x q' rs' aux" ..
    with rec(2) more(1) have "poll_split worker workers n ((p, a) # q) x q' rs ((p, a) # aux)"
      by (auto simp: poll_split_def map_filter_simps split: option.splits poll_result.splits)
    then show ?thesis ..
  qed
qed

text \<open>a poll of the socket of a worker takes datagrams from the front only and loses none: what it took are at most three
  probe answers and punches before a packet it hands to QUIC, or at most four of them, after the fourth of which it
  wakes itself, so that what is left is polled again; probe answers are dispatched in order.\<close>

theorem poll_takes_a_prefix:
  "\<exists>aux. poll_split worker workers 0 q (fst (poll_recv worker workers 0 q)) (fst (snd (poll_recv worker workers 0 q)))
           (snd (snd (poll_recv worker workers 0 q))) aux"
  by (rule poll_recv_split) (simp_all add: MAX_AUXILIARY_DATAGRAMS_PER_POLL_def)

section \<open>Prediction\<close>

lemma probe_loop_observed:
  "probe_loop probe i ts acc = Inr obs \<Longrightarrow> list_all (\<lambda>e. area e = ServerReflexive \<and> protocol e = Quic \<and> is_ipv4 (addr e)) acc \<Longrightarrow>
   list_all (\<lambda>e. area e = ServerReflexive \<and> protocol e = Quic \<and> is_ipv4 (addr e)) obs \<and> length obs = length acc + length ts"
  by (induction probe i ts acc rule: probe_loop.induct) (auto split: sum.splits if_splits)

definition good_candidates :: "endpoint list \<Rightarrow> bool" where
  "good_candidates es \<longleftrightarrow> distinct (map addr es) \<and> list_all (\<lambda>e. area e = ServerReflexive \<and> protocol e = Quic \<and> is_ipv4 (addr e)) es"

lemma is_ipv4_set_port: "is_ipv4 (set_port p a) = is_ipv4 a"
  by (cases a) simp_all

lemma predicted_endpoints_good:
  assumes "is_ipv4 (addr (last_observed h))"
  shows "good_candidates (predicted_endpoints h)"
proof -
  let ?f = "\<lambda>port es. let e = \<lparr>area = ServerReflexive, protocol = Quic, addr = set_port port (addr (last_observed h))\<rparr>
      in if list_ex (\<lambda>x. endpoint_eq x e) es then es else es @ [e]"
  have "good_candidates es \<Longrightarrow> good_candidates (fold ?f ps es)" for ps es
  proof (induction ps arbitrary: es)
    case (Cons p ps)
    have "good_candidates (?f p es)"
      using Cons.prems assms
      by (auto simp: good_candidates_def Let_def endpoint_eq_def list_ex_iff list_all_iff is_ipv4_set_port)
    from Cons.IH [OF this] show ?case by simp
  qed simp
  from this [of "[]"] show ?thesis by (simp add: predicted_endpoints_def good_candidates_def)
qed

lemma hint_last: "hint_from_observations obs = Some h \<Longrightarrow> last_observed h = last obs \<and> (\<forall>e \<in> set obs. is_ipv4 (addr e))"
  by (auto simp: hint_from_observations_def Let_def split: if_splits)

text \<open>a prediction is usable as it is: it has between one and eight endpoints, all different, all IPv4 endpoints of QUIC that
  a server saw, is made only from two to eight different ports of one address, and is valid at the listener that
  made it as long as that is open and the time of the profile is not over; another listener, or the same after
  it was started anew with another number, does not take it.\<close>

theorem prediction_usable:
  assumes "predict_traversal_endpoints probe closed_after now ts timeout ttl s = Inr p"
  shows "good_candidates (tp_endpoints p) \<and> 1 \<le> length (tp_endpoints p) \<and> length (tp_endpoints p) \<le> MAX_NAT_PREDICTION_PORTS \<and>
         probe_targets_ok (sa_ip (addr (hd ts))) [] ts \<and> 2 \<le> length ts \<and> length ts \<le> MAX_NAT_PREDICTION_PORTS \<and>
         (now' \<le> tp_valid_until p \<longrightarrow> validate_traversal_prediction p now' s = Inr ()) \<and>
         (ql_generation s' \<noteq> ql_generation s \<longrightarrow> validate_traversal_prediction p now' s' = Inl Expired)"
proof -
  obtain prof seen es where b: "probe_nat_profile_with_base probe closed_after now ts timeout ttl s = Inr (prof, seen)"
    and es: "(case observation prof of NonSymmetricLike \<Rightarrow> Inr [seen]
        | SymmetricLike \<Rightarrow> (case prediction_hint prof of None \<Rightarrow> Inl NotFound | Some h \<Rightarrow> Inr (predicted_endpoints h))
        | Unknown \<Rightarrow> Inr []) = (Inr es :: endpoint list p2p_result)" "es \<noteq> []"
    and p: "p = \<lparr>tp_endpoints = take MAX_NAT_PREDICTION_PORTS es, tp_generation = ql_generation s, tp_valid_until = valid_until prof, tp_profile = prof\<rparr>"
    using assms by (auto simp: predict_traversal_endpoints_def split: sum.splits if_splits)
  obtain obs where obs: "probe_loop probe 0 ts [] = Inr obs" "obs \<noteq> []" "prof = profile_from_observations obs now ttl" "seen = last obs"
    and ts: "probe_targets_ok (sa_ip (addr (hd ts))) [] ts" "2 \<le> length ts" "length ts \<le> MAX_NAT_PREDICTION_PORTS"
    and l: "\<not> ql_closed s" "ql_endpoints s \<noteq> []" "ql_punch_socket s \<noteq> None"
    using b by (auto simp: probe_nat_profile_with_base_def ensure_worker_endpoints_available_def split: sum.splits if_splits)
  have seen: "area seen = ServerReflexive" "protocol seen = Quic" "is_ipv4 (addr seen)"
    using probe_loop_observed [OF obs(1)] obs(2,4) by (auto simp: list_all_iff)
  have "good_candidates es"
  proof (cases "observation prof")
    case SymmetricLike
    then obtain h where "prediction_hint prof = Some h" "es = predicted_endpoints h" using es(1) by (auto split: option.splits)
    moreover have "hint_from_observations obs = Some h"
      using calculation(1) obs(3) SymmetricLike by (auto simp: profile_from_observations_def profile_unknown_def Let_def split: if_splits)
    ultimately show ?thesis using predicted_endpoints_good hint_last obs(2) by (metis last_in_set)
  qed (use es seen in \<open>auto simp: good_candidates_def\<close>)
  then have "good_candidates (take n es)" for n
    unfolding good_candidates_def by (auto simp: list_all_iff take_map [symmetric] dest: in_set_takeD)
  moreover have "1 \<le> length (take MAX_NAT_PREDICTION_PORTS es)" using es(2) by (cases es) (simp_all add: MAX_NAT_PREDICTION_PORTS_def)
  ultimately show ?thesis
    using ts l p by (auto simp: validate_traversal_prediction_def ensure_worker_endpoints_available_def)
qed

definition some_targets :: "endpoint list" where
  "some_targets = [\<lparr>area = Wan, protocol = Quic, addr = V4 (Ipv4 9 9 9 9) 1\<rparr>, \<lparr>area = Wan, protocol = Quic, addr = V4 (Ipv4 9 9 9 9) 2\<rparr>]"

theorem prediction_usable_witness:
  "\<exists>p. predict_traversal_endpoints (\<lambda>_. Inr (V4 (Ipv4 1 2 3 4) 5)) False 0 some_targets 1 1 some_listener = Inr p \<and>
     validate_traversal_prediction p 0 some_listener = Inr ()"
proof -
  obtain p where p: "predict_traversal_endpoints (\<lambda>_. Inr (V4 (Ipv4 1 2 3 4) 5)) False 0 some_targets 1 1 some_listener = Inr p"
    by (simp add: predict_traversal_endpoints_def probe_nat_profile_with_base_def some_targets_def some_listener_def register_worker_enter_def
        quic_served_def quic_listener_new_def ensure_worker_endpoints_available_def profile_from_observations_def MAX_NAT_PREDICTION_PORTS_def Let_def)
  with prediction_usable [OF p, of 0] show ?thesis by simp
qed

section \<open>Server names\<close>

lemma trim_start_once:
  assumes "pat \<noteq> []" "take (length pat) n \<noteq> pat"
  shows "trim_start_matches pat (pat @ n) = n"
  using assms by (simp add: trim_start_matches.simps [of pat "pat @ n"] trim_start_matches.simps [of pat n])

text \<open>the server name a client sends for a peer is read back as the name of the peer unless that name is \<open>p2p\<close>, begins
  with \<open>p2p.\<close> or ends with \<open>.com\<close>. Then it may not be: a peer whose name is the valid host name \<open>p2p.x.com\<close> is looked
  for under the name \<open>x\<close>.\<close>

theorem server_name_read_back:
  "(n \<noteq> ''p2p'' \<and> take 4 n \<noteq> ''p2p.'' \<and> take 4 (rev n) \<noteq> rev ''.com'' \<longrightarrow> parse_server_name (validate_server_name valid n) = n) \<and>
   (valid ''p2p.x.com'' \<longrightarrow> parse_server_name (validate_server_name valid ''p2p.x.com'') = ''x'')"
proof -
  have "parse_server_name (validate_server_name valid n) = n" if n: "take 4 n \<noteq> ''p2p.''" "take 4 (rev n) \<noteq> rev ''.com''" "n \<noteq> ''p2p''"
  proof (cases "valid n")
    case True
    with n show ?thesis by (simp add: validate_server_name_def parse_server_name_def)
  next
    case False
    have "take 4 (n @ ''.com'') \<noteq> ''p2p.''"
      using n(1,3) by (cases n; cases "tl n"; cases "tl (tl n)"; cases "tl (tl (tl n))") (auto simp: take_Cons')
    then have "trim_start_matches ''p2p.'' (''p2p.'' @ n @ ''.com'') = n @ ''.com''"
      using trim_start_once [of "''p2p.''" "n @ ''.com''"] by (simp add: eval_nat_numeral)
    moreover have "trim_start_matches (rev ''.com'') (rev ''.com'' @ rev n) = rev n" 
      by (rule trim_start_once) (use n(2) in \<open>simp_all add: eval_nat_numeral\<close>)
    ultimately show ?thesis using False by (simp add: validate_server_name_def parse_server_name_def trim_end_matches_def)
  qed
  moreover have "parse_server_name ''p2p.x.com'' = ''x''"
    by (simp add: parse_server_name_def trim_end_matches_def trim_start_matches.simps)
  ultimately show ?thesis by (simp add: validate_server_name_def)
qed

theorem server_name_read_back_witness:
  "parse_server_name (validate_server_name (\<lambda>_. False) ''a_b'') = ''a_b''"
  using server_name_read_back [of "''a_b''" "\<lambda>_. False"] by simp

end
