(* ===== verification/QuicNetwork.thy ===== *)
theory QuicNetwork
  imports QuicListener
begin

text \<open>
  The QUIC network (\<open>networks/quic/network.rs\<close>): its listeners and client endpoints, the ids of new tunnels, which
  listener a tunnel is created from, and the loop that tries to connect while both sides punch. The QUIC connection
  and the handshake of the tunnel are parameters.
\<close>

section \<open>Definitions\<close>

subsection \<open>Connecting\<close>

definition UDP_PUNCH_CONNECT_RETRY_INTERVAL :: duration where
  "UDP_PUNCH_CONNECT_RETRY_INTERVAL = from_millis 50"

definition connect_timeout_for_intent :: "duration \<Rightarrow> connect_intent \<Rightarrow> duration" where
  "connect_timeout_for_intent base i = (if ci_udp_punch_enabled i then max base (udp_punch_burst_window i) else base)"

definition udp_punch_retry_delay_after_error :: "duration \<Rightarrow> duration \<Rightarrow> connect_intent \<Rightarrow> duration option" where
  "udp_punch_retry_delay_after_error elapsed timeout i =
     (if \<not> ci_udp_punch_enabled i then None
      else let w = min (udp_punch_burst_window i) timeout
           in if elapsed \<ge> w then None else Some (min (w - elapsed) UDP_PUNCH_CONNECT_RETRY_INTERVAL))"

lemma retry_delay_pos:
  "udp_punch_retry_delay_after_error elapsed timeout i = Some d \<Longrightarrow> 0 < d \<and> elapsed < timeout"
  by (auto simp: udp_punch_retry_delay_after_error_def Let_def UDP_PUNCH_CONNECT_RETRY_INTERVAL_def from_millis_def split: if_splits)

text \<open>The \<open>n\<close>-th attempt, given how long it may take: how long it took and what it gave. A sleep takes its time and \<open>late n\<close> more.
  The result, the time it came and the number of attempts.\<close>

function connect_loop ::
    "(nat \<Rightarrow> duration \<Rightarrow> duration \<times> 'c p2p_result) \<Rightarrow> (nat \<Rightarrow> duration) \<Rightarrow> duration \<Rightarrow> connect_intent \<Rightarrow> nat \<Rightarrow> duration \<Rightarrow>
     'c p2p_result \<times> duration \<times> nat" where
  "connect_loop attempt late timeout i n elapsed =
     (if elapsed \<ge> timeout then (Inl ConnectFailed, elapsed, n)
      else (case attempt n (timeout - elapsed) of
              (took, Inr c) \<Rightarrow> (Inr c, elapsed + took, Suc n)
            | (took, Inl e) \<Rightarrow>
                (case udp_punch_retry_delay_after_error (elapsed + took) timeout i of
                   None \<Rightarrow> (Inl e, elapsed + took, Suc n)
                 | Some d \<Rightarrow> connect_loop attempt late timeout i (Suc n) (elapsed + took + d + late n))))"
  by pat_completeness auto

termination
  by (relation "measure (\<lambda>(attempt, late, timeout, i, n, elapsed). timeout - elapsed)") (auto dest: retry_delay_pos)

declare connect_loop.simps [simp del]

text \<open>The punching runs beside the connecting, which decides; why the punching stopped, unless it had ended before.\<close>

datatype punch_stop = ConnectSuccess | ConnectTimeout | ConnectFinalError

definition connect_with_owned_udp_punch ::
    "bool \<Rightarrow> duration \<Rightarrow> 'c p2p_result \<times> duration \<Rightarrow> 'c p2p_result \<times> punch_stop option" where
  "connect_with_owned_udp_punch punch_first timeout r =
     (fst r, if punch_first then None
             else Some (if \<not> isl (fst r) then ConnectSuccess else if snd r \<ge> timeout then ConnectTimeout else ConnectFinalError))"

subsection \<open>Ids\<close>

definition tunnel_seq :: "u32 \<Rightarrow> u32" where
  "tunnel_seq cur = tunnel_value (fst (tunnel_id_generate cur)) AND NOT (push_bit 31 1)"

lemma generate_value: "tunnel_id_generate cur = (if cur = 0 then (TunnelId 1, 2) else (TunnelId cur, cur + 1))"
  by (simp add: tunnel_id_generate_def fetch_add1_def)

lemma not_high: "NOT (push_bit 31 1) = (0x7FFFFFFF :: u32)"
  by code_simp

lemma tunnel_seq_zero: "tunnel_seq cur = 0 \<Longrightarrow> cur = 0x80000000"
proof -
  assume "tunnel_seq cur = 0"
  then have z: "tunnel_value (fst (tunnel_id_generate cur)) AND 0x7FFFFFFF = 0" unfolding tunnel_seq_def not_high .
  then have "cur \<noteq> 0" by (auto simp: generate_value)
  then have "cur AND 0x7FFFFFFF = 0" using z by (simp add: generate_value)
  then have "take_bit 31 cur = 0" by (simp add: take_bit_eq_mask mask_eq_exp_minus_1)
  then have "cur = push_bit 31 (drop_bit 31 cur)" by (metis bits_ident add_0_right)
  moreover have "drop_bit 31 cur = 0 \<or> drop_bit 31 cur = 1"
  proof -
    have "unat cur < 2 ^ 32" using unsigned_less [where ?'a = nat, of cur] by simp
    then have "unat (drop_bit 31 cur) < 2" by (simp add: drop_bit_eq_div unat_div)
    then show ?thesis by (metis One_nat_def less_2_cases unat_0 unat_1 word_unat_eq_iff)
  qed
  ultimately show ?thesis using \<open>cur \<noteq> 0\<close> by auto
qed

text \<open>The loop over the generator, whose state is its counter.\<close>

function next_tunnel_seq :: "u32 \<Rightarrow> u32 \<times> u32" where
  "next_tunnel_seq cur =
     (let cur' = snd (tunnel_id_generate cur)
      in if tunnel_seq cur \<noteq> 0 then (tunnel_seq cur, cur') else next_tunnel_seq cur')"
  by pat_completeness auto

termination
proof (relation "measure (\<lambda>cur. if cur = 0x80000000 then 1 else 0)", goal_cases)
  case (2 cur cur')
  then have "cur = 0x80000000" by (simp add: tunnel_seq_zero)
  with 2 show ?case by (simp add: generate_value)
qed simp

declare next_tunnel_seq.simps [simp del]

definition next_tunnel_id :: "p2p_id \<Rightarrow> p2p_id \<Rightarrow> u32 \<Rightarrow> tunnel_id \<times> u32" where
  "next_tunnel_id local remote cur =
     (let high = (if remote < local then push_bit 31 1 else 0); (s, cur') = next_tunnel_seq cur
      in (TunnelId (high OR s), cur'))"

text \<open>The ids a new tunnel gets, and the counter after.\<close>

definition connect_ids :: "p2p_id \<Rightarrow> p2p_id \<Rightarrow> connect_intent \<Rightarrow> u32 \<Rightarrow> tunnel_id \<times> candidate_id \<times> u32" where
  "connect_ids local remote i cur =
     (let (t, cur') = (if ci_tunnel_id i = TunnelId 0 then next_tunnel_id local remote cur else (ci_tunnel_id i, cur));
          c = (if ci_candidate_id i = TunnelCandidateId 0 then TunnelCandidateId (tunnel_value t) else ci_candidate_id i)
      in (t, c, cur'))"

text \<open>\<open>certs\<close>: the certificates of the connection, if it has an identity of the expected kind; \<open>parse\<close> and \<open>remember\<close>: the factory
  and the cache.\<close>

definition resolve_remote_identity ::
    "'cert list option \<Rightarrow> ('cert \<Rightarrow> p2p_id p2p_result) \<Rightarrow> (p2p_id \<Rightarrow> unit p2p_result) \<Rightarrow> p2p_id \<Rightarrow> p2p_id p2p_result" where
  "resolve_remote_identity certs parse remember i =
     (if is_default i
      then (case certs of
              None \<Rightarrow> Inl CertError
            | Some [] \<Rightarrow> Inl CertError
            | Some (c # _) \<Rightarrow>
                (case parse c of
                   Inl e \<Rightarrow> Inl e
                 | Inr j \<Rightarrow> (case remember j of Inl e \<Rightarrow> Inl e | Inr _ \<Rightarrow> Inr j)))
      else Inr i)"

subsection \<open>The network\<close>

record quic_network =
  qn_listeners :: "quic_listener list"
  qn_ipv4 :: "nat option"
  qn_ipv6 :: "nat option"
  qn_counter :: u32
  qn_reuse_address :: bool

definition quic_network_new :: "u32 \<Rightarrow> quic_network" where
  "quic_network_new cur = \<lparr>qn_listeners = [], qn_ipv4 = None, qn_ipv6 = None, qn_counter = cur, qn_reuse_address = False\<rparr>"

text \<open>A client endpoint is a number; \<open>create\<close>: what creating one gives.\<close>

definition client_endpoint :: "nat p2p_result \<Rightarrow> endpoint \<Rightarrow> quic_network \<Rightarrow> quic_network \<times> nat p2p_result" where
  "client_endpoint create remote q =
     (case (if is_ipv4 (addr remote) then qn_ipv4 q else qn_ipv6 q) of
        Some e \<Rightarrow> (q, Inr e)
      | None \<Rightarrow>
          (case create of
             Inl _ \<Rightarrow> (q, Inl ConnectFailed)
           | Inr e \<Rightarrow> (if is_ipv4 (addr remote) then q\<lparr>qn_ipv4 := Some e\<rparr> else q\<lparr>qn_ipv6 := Some e\<rparr>, Inr e)))"

text \<open>\<open>start\<close>: the listener with the server running, its workers up, or the error.\<close>

definition network_listen ::
    "u64 \<Rightarrow> (quic_listener \<Rightarrow> quic_listener p2p_result) \<Rightarrow> endpoint \<Rightarrow> endpoint option \<Rightarrow> u16 option \<Rightarrow> quic_network \<Rightarrow>
     quic_network \<times> unit p2p_result" where
  "network_listen g st l out port q =
     (case st (quic_bind l out port (qn_reuse_address q) (quic_listener_new g)) of
        Inl e \<Rightarrow> (q, Inl e)
      | Inr x \<Rightarrow> (q\<lparr>qn_listeners := qn_listeners q @ [x]\<rparr>, Inr ()))"

definition close_all_listener :: "quic_network \<Rightarrow> quic_network \<times> quic_listener list" where
  "close_all_listener q = (q\<lparr>qn_listeners := []\<rparr>, map (fst \<circ> quic_close) (qn_listeners q))"

definition quic_listener_infos :: "(nat \<Rightarrow> socket_addr p2p_result) \<Rightarrow> quic_network \<Rightarrow> (endpoint \<times> u16 option) list" where
  "quic_listener_infos at q =
     List.map_filter (\<lambda>l. case bound_local at l of Inl _ \<Rightarrow> None | Inr e \<Rightarrow> Some (e, ql_mapping_port l)) (qn_listeners q)"

definition same_version :: "endpoint \<Rightarrow> quic_listener \<Rightarrow> bool" where
  "same_version remote l = is_same_ip_version (the (ql_local l)) remote"

text \<open>\<open>try_listener\<close>: what comes of connecting from a listener; \<open>fallback\<close>: from a client endpoint.\<close>

fun try_listeners :: "(quic_listener \<Rightarrow> 't p2p_result) \<Rightarrow> endpoint \<Rightarrow> quic_listener list \<Rightarrow> p2p_error_code option \<Rightarrow> 't p2p_result option" where
  "try_listeners try_listener remote [] err = (case err of None \<Rightarrow> None | Some e \<Rightarrow> Some (Inl e))"
| "try_listeners try_listener remote (l # ls) err =
     (if \<not> same_version remote l then try_listeners try_listener remote ls err
      else (case try_listener l of
              Inr t \<Rightarrow> Some (Inr t)
            | Inl e \<Rightarrow> try_listeners try_listener remote ls (Some e)))"

definition create_tunnel_with_intent :: "(quic_listener \<Rightarrow> 't p2p_result) \<Rightarrow> 't p2p_result \<Rightarrow> endpoint \<Rightarrow> quic_network \<Rightarrow> 't p2p_result" where
  "create_tunnel_with_intent try_listener fallback remote q =
     (case try_listeners try_listener remote (qn_listeners q) None of None \<Rightarrow> fallback | Some r \<Rightarrow> r)"

fun create_tunnel_with_local_ep ::
    "(nat \<Rightarrow> socket_addr p2p_result) \<Rightarrow> (quic_listener \<Rightarrow> 't p2p_result) \<Rightarrow> endpoint \<Rightarrow> endpoint \<Rightarrow> quic_listener list \<Rightarrow> 't p2p_result" where
  "create_tunnel_with_local_ep at try_listener l remote [] = Inl NotFound"
| "create_tunnel_with_local_ep at try_listener l remote (x # xs) =
     (if \<not> same_version remote x then create_tunnel_with_local_ep at try_listener l remote xs
      else if endpoint_eq (the (ql_local x)) l then try_listener x
      else (case bound_local at x of
              Inl e \<Rightarrow> Inl e
            | Inr b \<Rightarrow> if endpoint_eq b l then try_listener x else create_tunnel_with_local_ep at try_listener l remote xs))"

definition punch_only :: "punch_clock \<Rightarrow> endpoint \<Rightarrow> connect_intent \<Rightarrow> duration \<Rightarrow> quic_network \<Rightarrow> duration list p2p_result" where
  "punch_only k remote i d q =
     (if d = 0 then Inl InvalidParam
      else if \<not> udp_punch_enabled_for_endpoint remote then Inl NotSupport
      else (case find (same_version remote) (qn_listeners q) of
              None \<Rightarrow> Inl NotFound
            | Some l \<Rightarrow> Inr (run_udp_punch_burst k remote i d l)))"

definition probing_listener :: "endpoint list \<Rightarrow> quic_network \<Rightarrow> quic_listener p2p_result" where
  "probing_listener ts q =
     (case find (\<lambda>l. case ts of [] \<Rightarrow> False | t # _ \<Rightarrow> same_version t l) (qn_listeners q) of None \<Rightarrow> Inl NotFound | Some l \<Rightarrow> Inr l)"

definition network_validate_prediction :: "traversal_prediction \<Rightarrow> timestamp \<Rightarrow> quic_network \<Rightarrow> unit p2p_result" where
  "network_validate_prediction p now q =
     (case find (\<lambda>l. ql_generation l = tp_generation p) (qn_listeners q) of
        None \<Rightarrow> Inl Expired
      | Some l \<Rightarrow> validate_traversal_prediction p now l)"

text \<open>Connecting from a listener: the loop, and the punching beside it if it is wanted.\<close>

definition open_or_connect ::
    "(nat \<Rightarrow> socket_addr p2p_result) \<Rightarrow> (nat \<Rightarrow> duration \<Rightarrow> duration \<times> 'c p2p_result) \<Rightarrow> (nat \<Rightarrow> duration) \<Rightarrow> bool \<Rightarrow> duration \<Rightarrow>
     connect_intent \<Rightarrow> quic_listener \<Rightarrow> (endpoint \<times> 'c) p2p_result" where
  "open_or_connect at attempt late punch_first base i l =
     (case bound_local at l of
        Inl e \<Rightarrow> Inl e
      | Inr b \<Rightarrow>
          let timeout = connect_timeout_for_intent base i;
              (r, elapsed, _) = connect_loop attempt late timeout i 0 0;
              r' = (if ci_udp_punch_enabled i then fst (connect_with_owned_udp_punch punch_first timeout (r, elapsed)) else r)
          in (case r' of Inl e \<Rightarrow> Inl e | Inr c \<Rightarrow> Inr (b, c)))"

section \<open>The connecting loop\<close>

lemma connect_loop_attempts:
  assumes "connect_loop attempt late timeout i n elapsed = (r, t, m)"
    and "min (udp_punch_burst_window i) (UDP_PUNCH_CONNECT_RETRY_INTERVAL * n) \<le> elapsed \<or> timeout \<le> elapsed"
    and "n \<le> udp_punch_burst_window i div UDP_PUNCH_CONNECT_RETRY_INTERVAL"
  shows "m \<le> udp_punch_burst_window i div UDP_PUNCH_CONNECT_RETRY_INTERVAL + 1"
  using assms
proof (induction attempt late timeout i n elapsed rule: connect_loop.induct)
  case (1 attempt late timeout i n elapsed)
  let ?W = "udp_punch_burst_window i" and ?I = UDP_PUNCH_CONNECT_RETRY_INTERVAL
  show ?case
  proof (cases "elapsed \<ge> timeout")
    case True
    with 1(2,4) show ?thesis by (simp add: connect_loop.simps)
  next
    case False
    obtain took x where a: "attempt n (timeout - elapsed) = (took, x)" by fastforce
    show ?thesis
    proof (cases "\<exists>e d. x = Inl e \<and> udp_punch_retry_delay_after_error (elapsed + took) timeout i = Some d")
      case stop: False
      with 1(2,4) False a show ?thesis by (auto simp: connect_loop.simps [of _ _ _ _ n elapsed] split: sum.splits option.splits)
    next
      case True
      then obtain e d where ed: "x = Inl e" "udp_punch_retry_delay_after_error (elapsed + took) timeout i = Some d" by blast
      let ?e = "elapsed + took + d + late n"
      have d: "d = min (min ?W timeout - (elapsed + took)) ?I" "elapsed + took < min ?W timeout"
        using ed(2) by (auto simp: udp_punch_retry_delay_after_error_def Let_def split: if_splits)
      have rec: "connect_loop attempt late timeout i (Suc n) ?e = (r, t, m)"
        using 1(2) False a ed by (simp add: connect_loop.simps [of _ _ _ _ n elapsed])
      have lo: "?I * n \<le> elapsed" using 1(3) False d(2) by auto
      have "min ?W (?I * Suc n) \<le> ?e \<or> timeout \<le> ?e" using lo d by (auto simp: min_def split: if_splits)
      moreover have "?I * n < ?W" using lo d(2) by linarith
      then have "Suc n \<le> ?W div ?I"
        by (simp add: udp_punch_burst_window_def UDP_PUNCH_EARLY_ERROR_WINDOW_def UDP_PUNCH_CONNECT_RETRY_INTERVAL_def from_secs_def from_millis_def)
      ultimately show ?thesis using 1(1) [OF False a [symmetric] ed(1) ed(2)] rec by blast
    qed
  qed
qed

lemma connect_loop_outcome:
  assumes "connect_loop attempt late timeout i n elapsed = (r, t, m)" "ci_udp_punch_enabled i"
  shows "(\<exists>c. r = Inr c) \<or> min (udp_punch_burst_window i) timeout \<le> t"
  using assms
proof (induction attempt late timeout i n elapsed rule: connect_loop.induct)
  case (1 attempt late timeout i n elapsed)
  obtain took x where a: "attempt n (timeout - elapsed) = (took, x)" by fastforce
  show ?case
  proof (cases "elapsed < timeout \<and> (\<exists>e d. x = Inl e \<and> udp_punch_retry_delay_after_error (elapsed + took) timeout i = Some d)")
    case False
    with 1(2,3) a show ?thesis
      by (auto simp: connect_loop.simps [of _ _ _ _ n elapsed] udp_punch_retry_delay_after_error_def Let_def split: sum.splits option.splits if_splits)
  next
    case True
    then obtain e d where ed: "x = Inl e" "udp_punch_retry_delay_after_error (elapsed + took) timeout i = Some d" "\<not> timeout \<le> elapsed" by auto
    then have "connect_loop attempt late timeout i (Suc n) (elapsed + took + d + late n) = (r, t, m)"
      using 1(2) a by (simp add: connect_loop.simps [of _ _ _ _ n elapsed])
    with 1(1) [OF ed(3) a [symmetric] ed(1,2)] 1(3) show ?thesis by blast
  qed
qed

text \<open>C40: while both sides punch, a connection is tried again after every failure until the second of the punching is over, or
  the timeout if that is shorter: the loop ends, with a connection or not before that time, after at most
  twenty-one attempts, however long attempts and sleeps take. Without punching there is one attempt.\<close>

theorem connecting_outlasts_punching:
  assumes "0 < timeout" "connect_loop attempt late timeout i 0 0 = (r, t, m)"
  shows "(ci_udp_punch_enabled i \<longrightarrow> (\<exists>c. r = Inr c) \<or> min (udp_punch_burst_window i) timeout \<le> t) \<and> m \<le> 21 \<and>
         (\<not> ci_udp_punch_enabled i \<longrightarrow> m = 1 \<and> r = snd (attempt 0 timeout))"
proof -
  have "udp_punch_burst_window i div UDP_PUNCH_CONNECT_RETRY_INTERVAL = 20"
    by (simp add: udp_punch_burst_window_def UDP_PUNCH_EARLY_ERROR_WINDOW_def UDP_PUNCH_CONNECT_RETRY_INTERVAL_def from_secs_def from_millis_def)
  then have "m \<le> 21" using connect_loop_attempts [OF assms(2)] by simp
  moreover have "m = 1 \<and> r = snd (attempt 0 timeout)" if "\<not> ci_udp_punch_enabled i"
    using assms that
    by (auto simp: connect_loop.simps [of _ _ _ _ 0 0] udp_punch_retry_delay_after_error_def split: prod.splits sum.splits)
  ultimately show ?thesis using connect_loop_outcome [OF assms(2)] by blast
qed

theorem connecting_outlasts_punching_witness:
  "case connect_loop (\<lambda>_ _. (0, Inl ConnectFailed)) (\<lambda>_. 0) (from_secs 5) some_intent 0 0 of
     (r :: unit p2p_result, t, m) \<Rightarrow> from_secs 1 \<le> t \<or> (\<exists>c. r = Inr c)"
proof -
  obtain r :: "unit p2p_result" and t m where l: "connect_loop (\<lambda>_ _. (0, Inl ConnectFailed)) (\<lambda>_. 0) (from_secs 5) some_intent 0 0 = (r, t, m)"
    by (metis prod_cases3)
  have "0 < from_secs 5" by (simp add: from_secs_def)
  from connecting_outlasts_punching [OF this l] l show ?thesis
    by (auto simp: some_intent_def udp_punch_burst_window_def UDP_PUNCH_EARLY_ERROR_WINDOW_def from_secs_def)
qed

section \<open>Ids\<close>

lemma next_tunnel_seq_low: "fst (next_tunnel_seq cur) \<noteq> 0 \<and> \<not> bit (fst (next_tunnel_seq cur)) 31"
proof (induction cur rule: next_tunnel_seq.induct)
  case (1 cur)
  show ?case
  proof (cases "tunnel_seq cur = 0")
    case True
    with 1 show ?thesis by (simp add: next_tunnel_seq.simps [of cur])
  next
    case False
    have "\<not> bit (tunnel_seq cur) 31" by (simp add: tunnel_seq_def bit_and_iff bit_not_iff bit_push_bit_iff)
    with False show ?thesis by (simp add: next_tunnel_seq.simps [of cur])
  qed
qed

lemma next_tunnel_id_high: "bit (tunnel_value (fst (next_tunnel_id local remote cur))) 31 = (remote < local)"
  using next_tunnel_seq_low [of cur]
  by (auto simp: next_tunnel_id_def Let_def split_beta bit_or_iff bit_push_bit_iff)

text \<open>the two ends of a pair of peers never give the same id to a tunnel, whatever their counters are, and never the id zero,
  which stands for none: the high bit says which of the two made it.\<close>

theorem tunnel_ids_of_both_ends_differ:
  assumes "a \<noteq> b"
  shows "fst (next_tunnel_id a b cur) \<noteq> fst (next_tunnel_id b a cur') \<and> fst (next_tunnel_id a b cur) \<noteq> TunnelId 0"
proof -
  have "bit (tunnel_value (fst (next_tunnel_id a b cur))) 31 \<noteq> bit (tunnel_value (fst (next_tunnel_id b a cur'))) 31"
    using assms by (auto simp: next_tunnel_id_high)
  moreover have "fst (next_tunnel_id a b cur) \<noteq> TunnelId 0"
  proof
    assume "fst (next_tunnel_id a b cur) = TunnelId 0"
    then have "fst (next_tunnel_seq cur) = 0" by (simp add: next_tunnel_id_def Let_def split_beta or_eq_0_iff split: if_splits)
    with next_tunnel_seq_low show False by blast
  qed
  ultimately show ?thesis by metis
qed

theorem tunnel_ids_of_both_ends_differ_witness:
  "fst (next_tunnel_id (P2pId [1]) (P2pId [2]) 7) \<noteq> fst (next_tunnel_id (P2pId [2]) (P2pId [1]) 7)"
  using tunnel_ids_of_both_ends_differ [of "P2pId [1]" "P2pId [2]" 7 7] by simp

section \<open>Listeners\<close>

lemma try_listeners_first:
  "try_listeners f remote ls err =
     (case find (\<lambda>l. same_version remote l \<and> \<not> isl (f l)) ls of
        Some l \<Rightarrow> Some (f l)
      | None \<Rightarrow> (case filter (same_version remote) ls of [] \<Rightarrow> map_option Inl err | xs \<Rightarrow> Some (f (last xs))))"
  by (induction f remote ls err rule: try_listeners.induct) (auto split: option.splits sum.splits list.splits)

text \<open>a tunnel comes from the first listener of the IP version of the peer from which connecting succeeds; if it succeeds from
  none, the error is that of the last one that was tried, and only if there is none of that version at all is
  a client endpoint used.\<close>

theorem tunnel_from_first_listener:
  "create_tunnel_with_intent f fallback remote q =
     (case find (\<lambda>l. same_version remote l \<and> \<not> isl (f l)) (qn_listeners q) of
        Some l \<Rightarrow> f l
      | None \<Rightarrow> (case filter (same_version remote) (qn_listeners q) of [] \<Rightarrow> fallback | ls \<Rightarrow> f (last ls)))"
  by (auto simp: create_tunnel_with_intent_def try_listeners_first split: option.splits list.splits)

end
