(* ===== verification/Spec2Isabelle.thy ===== *)
theory Spec2Isabelle
  imports ErrorCodes P2pTypes Endpoints NatType SnRendezvous NatConnectPlan RendezvousState
    NatProbeScheduler Membership ControlPlane RouteStore Election TunnelActivity ControlStream TcpTunnel TunnelTable TunnelAttempts
    TunnelPaths PnClient SnServiceFacts LocalIp SnClientFacts DirectoryService Ttp QuicNetwork
begin

text \<open>
  bucky-p2p is a peer-to-peer framework: devices reach each other through tunnels over TCP and
  QUIC, and signalling nodes (SNs) tell a device where a peer is, help both sides to punch through
  their NATs, and keep a replicated directory of which SN serves which peer. This library models the
  part of \<open>p2p-frame/src\<close> that decides: identifiers, endpoints, NAT profiles, connect plans,
  rendezvous bookkeeping, NAT probing, the SN service, the owner directory and its election, and of the tunnels the
  protocols and their state machines. It leaves out the sockets themselves.

  \<^bold>\<open>Theories, in the order they build on each other\<close>

  \<^item> \<open>Prelude\<close>: machine integers with the source's saturating and checked operations, durations,
    \<open>HashMap\<close> (locale \<open>hash_map\<close>), \<open>sort_by\<close>/\<open>dedup_by\<close> (locales \<open>total_cmp\<close>, \<open>linear_cmp\<close>).
  \<^item> \<open>ErrorCodes\<close> (\<open>error.rs\<close>) and \<open>P2pTypes\<close> (\<open>types.rs\<close>, \<open>p2p_identity.rs\<close>): error codes, peer
    ids, the id generators (locale \<open>skip_zero_generator\<close>) and the circular order of tunnel ids.
  \<^item> \<open>Endpoints\<close> (\<open>endpoint.rs\<close>): addresses, areas, eligibility rules, comparison, the binary codec.
  \<^item> \<open>NatType\<close> (\<open>nat_type.rs\<close>): NAT profiles with a lifetime, port prediction.
  \<^item> \<open>SnRendezvous\<close> (\<open>sn/protocol/sn.rs\<close>): rendezvous requests and responses with their validation,
    and the extension framing that keeps old decoders working (locale \<open>raw_codec\<close>).
  \<^item> \<open>NatConnectPlan\<close> (\<open>tunnel/nat_connect_plan.rs\<close>): who connects, who punches, and with which
    candidates.
  \<^item> \<open>RendezvousState\<close> (\<open>sn/service/rendezvous_state.rs\<close>): the SN's table of live rendezvous
    requests: deduplication, limits, parked duplicates.
  \<^item> \<open>NatProbeScheduler\<close> (\<open>sn/service/nat_probe_scheduler.rs\<close>, probe messages of \<open>sn.rs\<close>): which
    peer is asked to probe its NAT, and which answers are published.
  \<^item> \<open>Membership\<close> (\<open>sn/directory/membership.rs\<close>): rendezvous hashing of peers to owner SNs.
  \<^item> \<open>ControlPlane\<close> (\<open>sn/directory/control_plane.rs\<close>): the replicated table of online serving SNs
    (locale \<open>serving_table\<close>: what the route directory relies on).
  \<^item> \<open>RouteStore\<close> (\<open>sn/directory/route.rs\<close>, \<open>store.rs\<close>, \<open>local.rs\<close>): leases, routes, queries.
  \<^item> \<open>Election\<close> (\<open>sn/directory/election.rs\<close>): votes, heartbeats, replication (locale \<open>voter\<close>).
  \<^item> \<open>TunnelActivity\<close> (\<open>networks/tunnel.rs\<close>): purposes, result codes, and the activity record that
    counts the users of a tunnel and retires an idle one.
  \<^item> \<open>ControlStream\<close> (\<open>networks/control_stream.rs\<close>): streams multiplexed over the control
    connection: opening, delivery through bounded queues, reading, writing, closing.
  \<^item> \<open>TcpProtocol\<close> (\<open>networks/command.rs\<close>, \<open>networks/tcp/protocol.rs\<close>): the commands of a TCP
    tunnel and their frames.
  \<^item> \<open>TcpLease\<close>, \<open>ReverseOpen\<close>, \<open>TcpTunnel\<close> (\<open>networks/tcp/tunnel.rs\<close>): the lease of a data
    connection with its drain protocol, also as the two leases of a connection with the bytes and
    commands between them; the matching of a reverse open's arrival and response; the tunnel with
    its table of connections, claims, early drain facts and closing.
  \<^item> \<open>TunnelTable\<close>, \<open>TunnelAttempts\<close>, \<open>TunnelPaths\<close> (\<open>tunnel/tunnel_manager.rs\<close>,
    \<open>tunnel/connection_info.rs\<close>): the manager's table of tunnels, which of them is used, the retry
    schedule of proxied peers (locales \<open>preference\<close>, \<open>idle_tunnel\<close>); the waiters for incoming tunnels and
    the owners of rendezvous attempts; the direct, reverse, proxy and planned paths and their order.
  \<^item> \<open>PnTraffic\<close>, \<open>PnService\<close> (\<open>pn/service/pn_server.rs\<close>, \<open>pn/protocol.rs\<close>): the proxy node: sessions, limits and
    cleanup of its users (locale \<open>session_ledger\<close>: what the service relies on), and the two kinds of open
    requests with validation, relay sessions and bridges.
  \<^item> \<open>PnTunnel\<close>, \<open>PnClient\<close> (\<open>pn/client\<close>): the tunnel through a proxy node with its channel counters, idle
    checks, control channel and heartbeat; the client's table of such tunnels and its listener.
  \<^item> \<open>SnPeers\<close> (\<open>sn/service/peer_manager.rs\<close>, \<open>call_stub.rs\<close>, endpoint functions of \<open>service.rs\<close>): what the SN
    knows of its peers, which calls it has seen, and which endpoints it believes and hands on.
  \<^item> \<open>SnService\<close> (\<open>sn/service/service.rs\<close>): the handlers of reports, queries, calls and rendezvous, of
    disconnects and of other SNs, over \<open>SnPeers\<close>, \<open>NatProbeScheduler\<close> and \<open>RendezvousState\<close>;
    \<open>SnServiceFacts\<close>: what they promise.
  \<^item> \<open>LocalIp\<close> (\<open>sn/client/local_ip.rs\<close>, address providers of \<open>sn/client/sn_service.rs\<close>): which local addresses a
    client reports.
  \<^item> \<open>SnClient\<close> (\<open>sn/client/sn_service.rs\<close>): the client of the SNs: candidates, the list of active SNs, reports, the
    rounds of the ping task, NAT probes, calls, queries and rendezvous; \<open>SnClientFacts\<close>: what it promises, alone and
    together with \<open>SnService\<close> and \<open>NatProbeScheduler\<close>.
  \<^item> \<open>InterSn\<close> (\<open>sn/inter_sn/mod.rs\<close>): the commands between SNs, who answers them and the client that sends them.
  \<^item> \<open>DirectoryService\<close> (\<open>sn/directory/server.rs\<close>, \<open>client.rs\<close>): the service and server of an owner over
    \<open>RouteStore\<close> and \<open>Election\<close>, and the client with which serving SNs publish to and ask the owners.
  \<^item> \<open>NetManager\<close> (\<open>networks/net_manager.rs\<close>): which endpoints are listened on, who subscribes to the tunnels of an id,
    and what becomes of a tunnel that comes in.
  \<^item> \<open>Ttp\<close> (\<open>ttp/\<close>): listeners by purpose, attaching of tunnels, the client's cache with leases and its sweep, and the
    runtime of nodes and servers, which subscribes at \<open>NetManager\<close>.
  \<^item> \<open>NatProbe\<close> (\<open>sn/nat_probe.rs\<close>): the datagrams with which a NAT is probed, what is signed of them, the signing
    budget of a reflector and what it answers.
  \<^item> \<open>QuicListener\<close>, \<open>QuicNetwork\<close> (\<open>networks/quic/listener.rs\<close>, \<open>network.rs\<close>): which datagrams are probe answers,
    punches and packets of which worker; the waiters for probe answers, predictions, punch bursts; the listeners of
    the network, from which of them a tunnel is made, and the connect loop beside the punching.

  \<^bold>\<open>Correspondence.\<close> A struct is a record, an enum a datatype, a method a function that takes the
  state and returns the new state with the result; a \<open>Result\<close> is a sum whose left side is the
  error code (the message is dropped), a panic is a value. A mutex makes the code it guards one
  step. The clock is the argument \<open>now\<close>. \<open>HashMap\<close> is an association list with distinct keys; the
  iteration order is the list order and no property depends on it. Integers keep their width
  wherever the code saturates, wraps or compares.

  \<^bold>\<open>What is shown.\<close> Identifiers are fresh until the counter wraps, the endpoint codec and the
  extension framing round-trip, validation rejects what it should. A connect plan has exactly one
  connecting side and both sides agree on it. The rendezvous table respects its four limits over
  every run, answers every parked duplicate exactly once and replays cached answers. The probe
  scheduler publishes a profile only as the answer to the directive in flight. Owner sets are the
  top-ranked members, do not depend on configuration order and change as little as possible.
  Replicas that apply the same log agree. A lease that was accepted is found until it expires, and
  never once its SN is revoked. A voter votes once per term between heartbeats, two majorities
  share a supporter, nothing is committed without a majority. Beside these stand the theorems that
  record where the code does not do what it means to (two leaders in one term, a term that goes
  down, two orders of tunnel ids that disagree, duplicate endpoints that pass the check).
  Of the tunnels: a data connection goes back to the pool only when no byte of its lease is left on
  it; when both ends claim a connection at once they agree on who has it; a repeated claim is
  answered as before; a reverse open completes once, and does complete when arrival, registration and
  response have come in any order; closing answers every waiter; control streams lose and reorder
  nothing, deliver their end, and find a free id; commands survive framing; an idle tunnel is retired
  only when nobody uses it. Two theorems show what goes wrong: a late \<open>ReadDone\<close> closes the whole
  tunnel, and a claim carried out after a wait can bind the two ends to different channels.
  Of the tunnel manager: a lookup finds the best tunnel, the table has no duplicates and loses no open
  tunnel in its sweep; when two peers start attempts at each other both keep the same one; every
  accepted attempt is answered once and no waiter outlives its attempt; a race of direct candidates has
  one winner and closes the others; opening fails only when every path has. Two theorems show the flaws:
  a tunnel that is looked up before its handshake is done is forgotten, and a retry that ends with such
  a tunnel is never repeated.
  Of the proxy: users are charged exactly for the bridges they are part of, and forgotten when their time
  is over; a bridge has the consent of the validator or a relay session and of the target; the channels of
  a proxied tunnel are counted, it closes when it was idle for its timeout and only then, a silent peer is
  noticed, \<open>Close\<close> is the last thing said; a live tunnel keeps its place in the table. Three theorems show
  flaws: a pong that overtakes the note of its ping closes the tunnel, a relay session can outlive its
  control channel, a very long idle timeout makes the idle check panic.
  Of the SN service: a peer can report, and ask for a rendezvous, only for itself and with endpoints where it is
  seen; a rendezvous is asked over each stream of the target at most once, its answer is checked, and
  no duplicate is left waiting; a peer that disconnects is forgotten; the tables stay within their bounds
  over every run. Two theorems show flaws: a call names any known sender, and the retry of a call that could
  not be sent is answered as if it had been.
  Of the SN client: an SN that can be reached and accepts the certificate is active after one round; the client
  probes only at its SNs and trusts only their certificates; a directive of the scheduler is carried out, answered
  and published, and none is carried out twice; a client without an SN backs off to ten minutes. Two theorems show
  flaws: an evicted SN is not registered again while another is left, and new SNs inherit the old wait.
  Of the commands between SNs: a call over the wire is the call itself. Of the directory as a whole: what one SN
  publishes another finds through any owner they share, and an SN can publish only itself. Two theorems show flaws:
  an SN that hears of no owner for a minute never asks one again, and merged answers can name an SN twice.
  Of the network manager: its listening loop is pairing, handing out ports and starting one after the other; a
  subscription ends by its owner only; a tunnel is accepted by its subscriber or closed. Of the command transport: the
  tunnel a channel is opened on is leased, and leased tunnels stay in the cache; tunnels are attached once; a server
  opens only on tunnels that came in. Three theorems show flaws: a late lease is counted off the wrong tunnel, two
  openings at once lease one tunnel, and a tunnel the runtime rejects is reported accepted.
  Of probing and QUIC: probe packets round-trip, a signature stands for one signer and one answer, a reflector keeps
  its budget in every second; a probe is answered once and by whom it asked; a punch burst is bounded and, in time, is
  the planned one; connecting is tried as long as is punched, and ends. Two theorems show flaws: a worker that comes up
  while its listener closes is never closed, and some host names are not read back.

  \<^bold>\<open>Bounds.\<close> Most loops are structural recursion over a list. The searches for a free id
  (\<open>next_local_id_value\<close>, \<open>alloc_stream_id\<close>) are recursion with a termination proof and recursion with
  fuel; \<open>alloc_stream_id_terminates\<close> says which fuel is enough, and why an id is found. The rounds of
  \<open>open_channel\<close> are the four of the code.
  What the code takes from other crates is a parameter: the owner hash (\<open>score\<close>), the hash set
  probe (\<open>hit\<close>), the payload codecs, the calls to other owners (\<open>peer_control_client\<close>), the
  command-tunnel id type.

  \<^bold>\<open>Interleaving.\<close> A function with an \<open>await\<close> is split at it, or what it awaits is a parameter that
  may change the state. Two ends of a connection are a record with both states and the messages on
  their way, and a step relation.

  \<^bold>\<open>Not modelled.\<close> Sockets, the tunnels over a QUIC connection and its handshake, the accept loops of the listeners, TLS and certificates,
  the command server and the wiring of the SN server, stream and datagram channels, copying bytes through the proxy, the timers and selects of the tunnel
  manager's tasks (what arrives while they wait is a parameter), the
  text forms of endpoints and ids,
  tests and tools.
\<close>

section \<open>A sample commit\<close>

text \<open>Owner 1 leads term 1, owner 2 accepts what it is sent, owner 3 cannot be reached.\<close>

definition sample_leader :: election_node where
  "sample_leader = (sample_node 1)\<lparr>role := Leader, current_term := 1\<rparr>"

definition sample_replicas :: peer_answers where
  "sample_replicas = (answers_from \<lparr>vresp_term = 1, vote_granted = True, vresp_leader_id = None\<rparr>)
     \<lparr>on_replicate := \<lambda>m q. if m = P2pId [2]
        then Inr \<lparr>sresp_term = 1, sresp_accepted = True, sresp_committed_index = 0, sresp_leader_id = None\<rparr>
        else Inl NetworkError\<rparr>"

section \<open>The directory of a fresh SN\<close>

text \<open>
  What a directory over a fresh membership does with the first lease of a peer, over the membership,
  the control plane, the store and the local directory together.
\<close>

lemma fresh_directory:
  assumes "with_members ms n ttl = Inr m" and "sn_directory_new (Some m) t0 = Some d"
  shows "dir_resolver d = Some m \<and> dir_store d = store_with_membership m \<and> store_inv (dir_store d)"
  using assms cp_inv_new [OF with_members_ok(1) [OF assms(1)]]
  by (auto simp: sn_directory_new_def store_inv_def store_with_membership_def routes_ok_def hm_wf_def)

lemma fresh_quorum:
  assumes "membership_ok m"
  shows "has_quorum (cp_new m) \<and> cp_leader_id (cp_new m) = Some (sn_id (hd (members m)))"
proof -
  have "distinct (map sn_id (members m))" and ne: "members m \<noteq> []"
    using assms by (simp_all add: membership_ok_def strict_sorted_iff)
  then have "length (remdups (map sn_id (members m))) = length (members m)"
    by (metis distinct_remdups_id length_map)
  moreover have "length (members m) div 2 + 1 \<le> length (members m)" using ne by (cases "members m") auto
  ultimately show ?thesis
    using ne by (cases "members m") (auto simp: has_quorum_def cp_quorum_size_def cp_new_def Let_def)
qed

lemma fresh_renew:
  assumes "membership_ok m"
  shows "\<exists>c idx. renew_serving_online (sn_id (hd (members m))) sn dur now (cp_new m) = (c, Inr idx)"
  using fresh_quorum [OF assms]
  by (simp add: renew_serving_online_def append_as_leader_def push_entry_def Let_def)

lemma fresh_put_accepted:
  assumes "membership_ok m" and "lease_is_fresh l now"
  shows "snd (store_put_lease l now (store_with_membership m))"
proof -
  let ?ttl = "bucky_time_to_duration (sat_sub (lease_expires_at l) now)"
  obtain c idx where r: "renew_serving_online (sn_id (hd (members m))) (lease_serving_sn_id l) ?ttl now
      (cp_new m) = (c, Inr idx)"
    using fresh_renew [OF assms(1)] by blast
  have "is_serving_online c (lease_serving_sn_id l) now"
    using st.renew_makes_online [OF r] time_left assms(2) by (simp add: lease_is_fresh_def)
  with r assms(2) fresh_quorum [OF assms(1)] show ?thesis
    by (simp add: store_put_lease_def store_with_membership_def renew_session_eq Let_def
        store_put_route_def from_lease_def routes_put_def entry_or_default_def hm.get_empty)
qed

text \<open>a lease made by a fresh directory of any owner group is accepted by it and found, with its
  serving SN and sequence, by every query before the lease time is over.\<close>

theorem fresh_directory_serves_lease:
  assumes "with_members ms n ttl = Inr m" and "sn_directory_new (Some m) t0 = Some d"
    and "now' < sat_add now (duration_to_bucky_time ttl)" and "now < sat_add now (duration_to_bucky_time ttl)"
  shows "let l = new_lease d peer sn sequence now; (d', ok) = dir_put_lease l now d
         in ok \<and> (\<exists>e. lease_expires_at l \<le> e \<and>
                      l\<lparr>lease_expires_at := e\<rparr> \<in> set (snd (dir_query peer now' d')))"
proof -
  let ?l = "new_lease d peer sn sequence now"
  have d: "dir_resolver d = Some m" "dir_store d = store_with_membership m" "store_inv (dir_store d)"
    using fresh_directory [OF assms(1,2)] by auto
  have ttl: "resolver_lease_ttl (Some m) = ttl"
    using assms(1) by (auto simp: resolver_lease_ttl_def with_members_def Let_def split: if_splits)
  then have l: "lease_expires_at ?l = sat_add now (duration_to_bucky_time ttl)" "lease_peer_id ?l = peer"
    by (simp_all add: new_lease_def serving_lease_new_def d)
  obtain st' ok where p: "store_put_lease ?l now (dir_store d) = (st', ok)" by fastforce
  have "lease_is_fresh ?l now" using l assms(4) by (simp add: lease_is_fresh_def)
  then have ok using fresh_put_accepted [OF with_members_ok(1) [OF assms(1)]] p d(2) by (metis snd_conv)
  with p have p: "store_put_lease ?l now (dir_store d) = (st', True)" by simp
  have "\<exists>e. lease_expires_at ?l \<le> e \<and> ?l\<lparr>lease_expires_at := e\<rparr> \<in> set (snd (store_query peer now' st'))"
    using accepted_lease_kept [OF d(3) p, of now'] l assms(3) by simp
  with p show ?thesis
    by (simp add: dir_put_lease_def dir_query_def Let_def case_prod_unfold)
qed

theorem fresh_directory_serves_lease_witness:
  "\<exists>d. sn_directory_new (Some sample_membership) 3 = Some d \<and> snd (dir_put_lease (new_lease d (P2pId [8]) (P2pId [7]) 1 10) 10 d)"
proof -
  obtain d where d: "sn_directory_new (Some sample_membership) 3 = Some d"
    by (simp add: sn_directory_new_def)
  have "10 < sat_add (10::timestamp) (duration_to_bucky_time (from_secs 60))"
    by (simp add: word_less_nat_alt time_simps as_micros_def from_secs_def)
  with fresh_directory_serves_lease [OF sample_members_ok(1) d, of 10 10 "P2pId [8]" "P2pId [7]" 1] d
  show ?thesis by (auto simp: Let_def case_prod_unfold)
qed

section \<open>Leader and follower\<close>


lemma sample_commit:
  "\<exists>n' idx. replicate_and_commit (Some (quiet_client sample_replicas)) (RevokeServingSession (P2pId [7])) 9
     sample_leader = (n', Returned (Inr idx))"
  by (simp add: replicate_and_commit_def require_leader_def sample_leader_def sample_replicas_def
      answers_from_def remote_members_def election_eval commit_entry_def quorum_size_def
      apply_committed_cases push_entry_def)

lemma sample_follow:
  "sresp_accepted (snd (receive_session_replication (local_owner_id sample_leader)
     ((proposal sample_leader (RevokeServingSession (P2pId [7])) 9)\<lparr>rep_committed := True\<rparr>) 11 (sample_node 2)))"
  by (simp add: receive_session_replication_def receive_heartbeat_def sample_leader_def proposal_def
      election_eval apply_committed_cases push_entry_def session_response_of_def set_known_leader_def)


end
